(* ===== verification/Prelude.thy ===== *)
theory Prelude
  imports Main "HOL-Library.Sublist" "HOL-Library.Char_ord" "HOL-Library.List_Lexorder"
begin

text \<open>
  Generic lemmas and fact collections shared by the components: lists, splitting a list into
  chunks, and the interface every chunked layout of the compiler relies on. Rust's
  \<^verbatim>\<open>usize\<close> values that count or index things held in memory are \<open>nat\<close> here: a length never
  reaches the bound at which \<^verbatim>\<open>saturating_add\<close> would saturate, and \<^verbatim>\<open>saturating_sub\<close>
  is the subtraction of \<open>nat\<close>.
\<close>

named_theorems consumes \<open>a scanner returns a suffix no longer than its input\<close>
named_theorems str_simps \<open>evaluation of the text functions\<close>

section \<open>Lists\<close>

lemma length_dropWhile_less:
  "length (dropWhile P xs) < Suc (length xs)"
  by (simp add: le_imp_less_Suc length_dropWhile_le)

lemma dropWhile_suffix: "suffix (dropWhile P xs) xs"
  by (metis suffix_def takeWhile_dropWhile_id)

lemma hd_dropWhile_None: "(\<forall>x \<in> set xs. P x) \<Longrightarrow> dropWhile P xs = []"
  by simp

lemma dropWhile_keep: "xs = [] \<or> \<not> P (hd xs) \<Longrightarrow> dropWhile P xs = xs"
  by (cases xs) auto

lemma takeWhile_all: "(\<forall>x \<in> set xs. P x) \<Longrightarrow> takeWhile P (xs @ ys) = xs @ takeWhile P ys"
  by (induction xs) auto

lemma dropWhile_all: "(\<forall>x \<in> set xs. P x) \<Longrightarrow> dropWhile P (xs @ ys) = dropWhile P ys"
  by (induction xs) auto

lemma size_list_member: "x \<in> set xs \<Longrightarrow> size x \<le> size_list size xs"
  by (simp add: size_list_estimation')

section \<open>Chunks\<close>

text \<open>
  \<^verbatim>\<open>slice::chunks(n)\<close>: the consecutive pieces of length \<open>n\<close>, the last possibly shorter.
  The standard library panics for \<open>n = 0\<close>; every caller passes at least one.
\<close>

function chunks :: "nat \<Rightarrow> 'a list \<Rightarrow> 'a list list" where
  "chunks n xs = (if xs = [] \<or> n = 0 then [] else take n xs # chunks n (drop n xs))"
  by pat_completeness auto
termination
  by (relation "measure (\<lambda>(n, xs). length xs)") auto

declare chunks.simps [simp del]

lemma chunks_Nil [simp]: "chunks n [] = []"
  by (simp add: chunks.simps)

lemma chunks_step:
  "xs \<noteq> [] \<Longrightarrow> 0 < n \<Longrightarrow> chunks n xs = take n xs # chunks n (drop n xs)"
  by (simp add: chunks.simps [of n xs])

text \<open>The contract of a chunked layout, as the outliner and the partitioner use it.\<close>

locale chunked_layout =
  fixes split_up :: "nat \<Rightarrow> 'a list \<Rightarrow> 'a list list"
  assumes concat_split: "0 < n \<Longrightarrow> concat (split_up n xs) = xs"
    and bounded_split: "c \<in> set (split_up n xs) \<Longrightarrow> length c \<le> n"
    and nonempty_split: "c \<in> set (split_up n xs) \<Longrightarrow> c \<noteq> []"
begin

lemma split_members: "0 < n \<Longrightarrow> (\<Union>c \<in> set (split_up n xs). set c) = set xs"
  by (metis concat_split set_concat)

lemma split_empty_iff: "0 < n \<Longrightarrow> split_up n xs = [] \<longleftrightarrow> xs = []"
proof
  assume n: "0 < n" and "split_up n xs = []"
  then show "xs = []" using concat_split [OF n, of xs] by simp
next
  assume n: "0 < n" and xs: "xs = []"
  show "split_up n xs = []"
  proof (rule ccontr)
    assume "split_up n xs \<noteq> []"
    then obtain c where c: "c \<in> set (split_up n xs)" by (meson list.set_sel(1))
    then have "c = []" using concat_split [OF n, of xs] xs by simp
    with c nonempty_split show False by blast
  qed
qed

lemma split_total_length: "0 < n \<Longrightarrow> sum_list (map length (split_up n xs)) = length xs"
  by (metis concat_split length_concat)

end

lemma chunks_concat: "0 < n \<Longrightarrow> concat (chunks n xs) = xs"
proof (induction n xs rule: chunks.induct)
  case (1 n xs)
  then show ?case by (cases "xs = []") (simp_all add: chunks_step)
qed

lemma chunks_bounded: "c \<in> set (chunks n xs) \<Longrightarrow> length c \<le> n \<and> c \<noteq> []"
proof (induction n xs rule: chunks.induct)
  case (1 n xs)
  then show ?case by (cases "xs = [] \<or> n = 0") (auto simp: chunks.simps [of n xs])
qed

interpretation slice_chunks: chunked_layout chunks
  by unfold_locales (auto simp: chunks_concat dest: chunks_bounded)

end
