(* ===== verification/RustStr.thy ===== *)
theory RustStr
  imports Prelude
begin

text \<open>
  The part of Rust's \<^verbatim>\<open>str\<close> and \<^verbatim>\<open>char\<close> the components use. A text is a list of characters
  and a character is the Unicode code point \<open>of_char c\<close>, between 0 and 255: the classes
  \<^verbatim>\<open>is_whitespace\<close>, \<^verbatim>\<open>is_alphabetic\<close> and \<^verbatim>\<open>is_numeric\<close> are the Unicode tables restricted to
  these code points (ASCII and the Latin-1 supplement). Byte offsets of the source, which always
  lie on character boundaries, are positions in the list; \<open>utf8_len\<close> is the length in bytes where
  the code asks for it.
\<close>

section \<open>Characters\<close>

abbreviation BS :: char where "BS \<equiv> CHR 0x5C"
abbreviation DQ :: char where "DQ \<equiv> CHR 0x22"
abbreviation SQ :: char where "SQ \<equiv> CHR 0x27"
abbreviation LF :: char where "LF \<equiv> CHR 0x0A"
abbreviation CR :: char where "CR \<equiv> CHR 0x0D"

definition code :: "char \<Rightarrow> nat" where
  "code c = of_char c"

definition is_whitespace :: "char \<Rightarrow> bool" where
  "is_whitespace c \<longleftrightarrow>
     (9 \<le> code c \<and> code c \<le> 13) \<or> code c = 32 \<or> code c = 133 \<or> code c = 160"

definition is_ascii_digit :: "char \<Rightarrow> bool" where
  "is_ascii_digit c \<longleftrightarrow> 48 \<le> code c \<and> code c \<le> 57"

definition is_ascii_uppercase :: "char \<Rightarrow> bool" where
  "is_ascii_uppercase c \<longleftrightarrow> 65 \<le> code c \<and> code c \<le> 90"

definition is_ascii_lowercase :: "char \<Rightarrow> bool" where
  "is_ascii_lowercase c \<longleftrightarrow> 97 \<le> code c \<and> code c \<le> 122"

definition is_ascii_alphabetic :: "char \<Rightarrow> bool" where
  "is_ascii_alphabetic c \<longleftrightarrow> is_ascii_uppercase c \<or> is_ascii_lowercase c"

definition is_ascii_alphanumeric :: "char \<Rightarrow> bool" where
  "is_ascii_alphanumeric c \<longleftrightarrow> is_ascii_alphabetic c \<or> is_ascii_digit c"

definition is_alphabetic :: "char \<Rightarrow> bool" where
  "is_alphabetic c \<longleftrightarrow> is_ascii_alphabetic c \<or> code c = 170 \<or> code c = 181 \<or> code c = 186
     \<or> (192 \<le> code c \<and> code c \<noteq> 215 \<and> code c \<noteq> 247)"

definition is_numeric :: "char \<Rightarrow> bool" where
  "is_numeric c \<longleftrightarrow> is_ascii_digit c \<or> code c = 178 \<or> code c = 179 \<or> code c = 185
     \<or> (188 \<le> code c \<and> code c \<le> 190)"

definition is_alphanumeric :: "char \<Rightarrow> bool" where
  "is_alphanumeric c \<longleftrightarrow> is_alphabetic c \<or> is_numeric c"

definition to_ascii_lower :: "char \<Rightarrow> char" where
  "to_ascii_lower c = (if is_ascii_uppercase c then char_of (code c + 32) else c)"

definition to_ascii_upper :: "char \<Rightarrow> char" where
  "to_ascii_upper c = (if is_ascii_lowercase c then char_of (code c - 32) else c)"

definition len_utf8 :: "char \<Rightarrow> nat" where
  "len_utf8 c = (if code c < 128 then 1 else 2)"

definition utf8_len :: "string \<Rightarrow> nat" where
  "utf8_len s = sum_list (map len_utf8 s)"

section \<open>Trimming, prefixes and search\<close>

definition trim_start :: "string \<Rightarrow> string" where
  "trim_start s = dropWhile is_whitespace s"

definition trim_end_matches :: "(char \<Rightarrow> bool) \<Rightarrow> string \<Rightarrow> string" where
  "trim_end_matches P s = rev (dropWhile P (rev s))"

definition trim_end :: "string \<Rightarrow> string" where
  "trim_end s = trim_end_matches is_whitespace s"

definition trim_matches :: "(char \<Rightarrow> bool) \<Rightarrow> string \<Rightarrow> string" where
  "trim_matches P s = trim_end_matches P (dropWhile P s)"

definition trim :: "string \<Rightarrow> string" where
  "trim s = trim_matches is_whitespace s"

definition starts_with :: "string \<Rightarrow> string \<Rightarrow> bool" where
  "starts_with s p \<longleftrightarrow> take (length p) s = p"

definition ends_with :: "string \<Rightarrow> string \<Rightarrow> bool" where
  "ends_with s p \<longleftrightarrow> length p \<le> length s \<and> drop (length s - length p) s = p"

definition strip_prefix :: "string \<Rightarrow> string \<Rightarrow> string option" where
  "strip_prefix s p = (if starts_with s p then Some (drop (length p) s) else None)"

definition strip_suffix :: "string \<Rightarrow> string \<Rightarrow> string option" where
  "strip_suffix s p = (if ends_with s p then Some (take (length s - length p) s) else None)"

text \<open>\<^verbatim>\<open>split_once\<close>: around the first occurrence of the separator.\<close>

fun split_once :: "string \<Rightarrow> string \<Rightarrow> (string \<times> string) option" where
  "split_once sep s =
     (if starts_with s sep then Some ([], drop (length sep) s)
      else case s of
        [] \<Rightarrow> None
      | c # cs \<Rightarrow> map_option (\<lambda>(a, b). (c # a, b)) (split_once sep cs))"

declare split_once.simps [simp del]

text \<open>\<^verbatim>\<open>rsplit(sep).next()\<close>: what follows the last occurrence of the separator.\<close>

definition rsplit_first :: "string \<Rightarrow> string \<Rightarrow> string" where
  "rsplit_first sep s = (case split_once (rev sep) (rev s) of None \<Rightarrow> s | Some (a, _) \<Rightarrow> rev a)"

text \<open>\<^verbatim>\<open>find\<close> as the suffix that starts at the first occurrence.\<close>

fun find_at :: "string \<Rightarrow> string \<Rightarrow> string option" where
  "find_at pat s =
     (if starts_with s pat then Some s
      else case s of [] \<Rightarrow> None | c # cs \<Rightarrow> find_at pat cs)"

declare find_at.simps [simp del]

definition contains_str :: "string \<Rightarrow> string \<Rightarrow> bool" where
  "contains_str s pat \<longleftrightarrow> find_at pat s \<noteq> None"

text \<open>\<^verbatim>\<open>matches(pat).count()\<close>: disjoint occurrences from the left; \<open>pat\<close> is not empty.\<close>

function count_matches :: "string \<Rightarrow> string \<Rightarrow> nat" where
  "count_matches pat s =
     (if s = [] \<or> pat = [] then 0
      else if starts_with s pat then Suc (count_matches pat (drop (length pat) s))
      else count_matches pat (tl s))"
  by pat_completeness auto
termination
  by (relation "measure (\<lambda>(p, s). length s)") auto

declare count_matches.simps [simp del]

section \<open>Splitting and joining\<close>

fun split_by :: "(char \<Rightarrow> bool) \<Rightarrow> string \<Rightarrow> string list" where
  "split_by P [] = [[]]"
| "split_by P (c # cs) =
     (if P c then [] # split_by P cs
      else (c # hd (split_by P cs)) # tl (split_by P cs))"

text \<open>The equation for evaluation computes the rest once.\<close>

lemma split_by_code [code]:
  "split_by P [] = [[]]"
  "split_by P (c # cs) =
     (let ws = split_by P cs in if P c then [] # ws else (c # hd ws) # tl ws)"
  by (simp_all add: Let_def)

definition split_whitespace :: "string \<Rightarrow> string list" where
  "split_whitespace s = filter (\<lambda>w. w \<noteq> []) (split_by is_whitespace s)"

definition strip_cr :: "string \<Rightarrow> string" where
  "strip_cr s = (case strip_suffix s [CR] of Some t \<Rightarrow> t | None \<Rightarrow> s)"

definition lines :: "string \<Rightarrow> string list" where
  "lines s = (let ps = split_by (\<lambda>c. c = LF) s in
     map strip_cr (butlast ps) @ (if last ps = [] then [] else [last ps]))"

fun join :: "string \<Rightarrow> string list \<Rightarrow> string" where
  "join sep [] = []"
| "join sep [x] = x"
| "join sep (x # y # ys) = x @ sep @ join sep (y # ys)"

definition replace_char :: "char \<Rightarrow> string \<Rightarrow> string \<Rightarrow> string" where
  "replace_char a r s = concat (map (\<lambda>c. if c = a then r else [c]) s)"

definition eq_ignore_ascii_case :: "string \<Rightarrow> string \<Rightarrow> bool" where
  "eq_ignore_ascii_case s t \<longleftrightarrow> map to_ascii_lower s = map to_ascii_lower t"

section \<open>Decimal numbers\<close>

definition digit :: "nat \<Rightarrow> char" where
  "digit n = char_of (48 + n)"

fun decimal :: "nat \<Rightarrow> string" where
  "decimal n = (if n < 10 then [digit n] else decimal (n div 10) @ [digit (n mod 10)])"

declare decimal.simps [simp del]

text \<open>The format \<^verbatim>\<open>{:02}\<close>.\<close>

definition decimal02 :: "nat \<Rightarrow> string" where
  "decimal02 n = (if n < 10 then ''0'' @ decimal n else decimal n)"

text \<open>\<^verbatim>\<open>str::parse\<close> of a signed integer of \<open>w\<close> bits: an optional sign and digits whose value fits.\<close>

definition decimal_value :: "string \<Rightarrow> int option" where
  "decimal_value s =
     (if s \<noteq> [] \<and> list_all is_ascii_digit s then Some (foldl (\<lambda>n c. 10 * n + (int (code c) - 48)) 0 s) else None)"

definition parse_signed :: "nat \<Rightarrow> string \<Rightarrow> int option" where
  "parse_signed w s =
     (let n = (case s of
          c # cs \<Rightarrow> (if c = CHR ''-'' then map_option uminus (decimal_value cs)
                     else if c = CHR ''+'' then decimal_value cs else decimal_value s)
        | [] \<Rightarrow> None)
      in case n of
           Some i \<Rightarrow> (if - (2 ^ (w - 1)) \<le> i \<and> i < 2 ^ (w - 1) then Some i else None)
         | None \<Rightarrow> None)"

text \<open>\<^verbatim>\<open>to_string()\<close> of a signed integer.\<close>

definition int_text :: "int \<Rightarrow> string" where
  "int_text i = (if i < 0 then ''-'' @ decimal (nat (- i)) else decimal (nat i))"

section \<open>Lemmas\<close>

lemma split_by_nonempty [simp]: "split_by P s \<noteq> []"
  by (cases s) auto

lemma split_by_hd_tl: "hd (split_by P s) \<in> set (split_by P s)"
    "p \<in> set (tl (split_by P s)) \<Longrightarrow> p \<in> set (split_by P s)"
  by (simp_all add: list.set_sel)

lemma split_by_pieces: "p \<in> set (split_by P s) \<Longrightarrow> c \<in> set p \<Longrightarrow> \<not> P c \<and> c \<in> set s"
proof (induction s arbitrary: p)
  case Nil
  then show ?case by simp
next
  case (Cons d s)
  note IH = Cons.IH [OF split_by_hd_tl(1)] Cons.IH [OF split_by_hd_tl(2)] Cons.IH
  show ?case using Cons.prems IH by (auto split: if_splits)
qed

lemma length_split_by_le: "p \<in> set (split_by P s) \<Longrightarrow> length p \<le> length s"
proof (induction s arbitrary: p)
  case Nil
  then show ?case by simp
next
  case (Cons d s)
  note IH = Cons.IH [OF split_by_hd_tl(1)] Cons.IH [OF split_by_hd_tl(2)] Cons.IH
  show ?case using Cons.prems IH by (auto split: if_splits simp: le_SucI)
qed

lemma dropWhile_hd: "dropWhile P xs = y # ys \<Longrightarrow> \<not> P y"
  by (metis dropWhile_eq_Cons_conv)

lemma starts_with_iff: "starts_with s p \<longleftrightarrow> prefix p s"
  unfolding starts_with_def prefix_def
  by (metis append_eq_conv_conj append_take_drop_id)

lemma starts_with_append [simp]: "starts_with (p @ s) p"
  by (simp add: starts_with_def)

lemma ends_with_iff: "ends_with s p \<longleftrightarrow> suffix p s"
proof
  assume e: "ends_with s p"
  have "s = take (length s - length p) s @ drop (length s - length p) s" by simp
  with e show "suffix p s" unfolding ends_with_def suffix_def by metis
next
  assume "suffix p s"
  then obtain q where "s = q @ p" by (auto simp: suffix_def)
  then show "ends_with s p" by (simp add: ends_with_def)
qed

lemma strip_suffix_Some: "strip_suffix s p = Some r \<longleftrightarrow> s = r @ p"
  by (auto simp: strip_suffix_def ends_with_iff suffix_def)

lemma strip_prefix_Some: "strip_prefix s p = Some r \<longleftrightarrow> s = p @ r"
  by (auto simp: strip_prefix_def starts_with_def) (metis append_take_drop_id)

lemma decimal_digits: "set (decimal n) \<subseteq> {c. is_ascii_digit c} \<and> decimal n \<noteq> []"
proof (induction n rule: decimal.induct)
  case (1 n)
  have "is_ascii_digit (digit k)" if "k < 10" for k
    using that by (simp add: is_ascii_digit_def digit_def code_def)
  then show ?case using 1 by (subst (1 2) decimal.simps) auto
qed

lemma set_join: "set (join sep xs) \<subseteq> set sep \<union> (\<Union>x \<in> set xs. set x)"
  by (induction sep xs rule: join.induct) auto

lemma code_lower: "is_ascii_uppercase c \<Longrightarrow> code (to_ascii_lower c) = code c + 32"
  by (simp add: to_ascii_lower_def is_ascii_uppercase_def code_def)

lemma code_upper: "is_ascii_lowercase c \<Longrightarrow> code (to_ascii_upper c) = code c - 32"
  by (auto simp: to_ascii_upper_def is_ascii_lowercase_def code_def intro!: mod_less)

lemma decimal02_digits: "c \<in> set (decimal02 n) \<Longrightarrow> is_ascii_digit c"
  using decimal_digits by (auto simp: decimal02_def is_ascii_digit_def code_def split: if_splits)

lemma digit_plain: "is_ascii_digit c \<Longrightarrow> c \<noteq> CHR ''/'' \<and> c \<noteq> CHR ''.''"
  by (auto simp: is_ascii_digit_def code_def)

end
