(* ===== verification/Expr_Ast.thy ===== *)
theory Expr_Ast
  imports RustStr
begin

text \<open>
  \<^verbatim>\<open>projections/stpa/safety_suite/expr_lowering.rs\<close>: the tokens, the operators and the syntax
  tree of a SysML constraint expression, and the binding powers of the binary operators. The
  lexer, the parser and the two renderers are in the theories \<open>Expr_Lexer\<close>, \<open>Expr_Parser\<close>,
  \<open>Expr_Katex\<close> and \<open>Expr_Matlab\<close>.
\<close>

section \<open>Limits\<close>

definition MAX_EXPR_DEPTH :: nat where
  "MAX_EXPR_DEPTH = 64"

definition MAX_AST_RENDER_DEPTH :: nat where
  "MAX_AST_RENDER_DEPTH = 512"

section \<open>Tokens and trees\<close>

datatype SysmlToken =
    Implies | Or | Xor | And | KeywordNot
  | Eq | Ne | Ge | Le | Gt | Lt
  | Plus | Minus | Star | Slash | Percent | Bang | Tilde | Pow
  | LParen | RParen | LBracket | RBracket | Comma | Dot
  | Ident string
  | Number string
  | StringLit string
  | Unknown char

datatype SysmlBinOp =
    OpImplies | OpOr | OpXor | OpAnd
  | OpEq | OpNe | OpGe | OpLe | OpGt | OpLt
  | OpAdd | OpSub | OpMul | OpDiv | OpRem | OpPow

datatype SysmlUnaryOp = UnNot | UnPlus | UnMinus

datatype SysmlExprAst =
    AIdent string
  | ANumber string
  | AStringLit string
  | AParen SysmlExprAst
  | AUnary SysmlUnaryOp SysmlExprAst
  | ABinary SysmlBinOp SysmlExprAst SysmlExprAst
  | ACall SysmlExprAst "SysmlExprAst list"
  | AField SysmlExprAst string
  | AIndex SysmlExprAst "SysmlExprAst list"

fun is_binary_sysml_expr :: "SysmlExprAst \<Rightarrow> bool" where
  "is_binary_sysml_expr (ABinary _ _ _) = True"
| "is_binary_sysml_expr _ = False"

text \<open>\<^verbatim>\<open>matches!(ast, SysmlExprAst::Unary { .. })\<close>, which both renderers test inline.\<close>

fun is_unary_expr :: "SysmlExprAst \<Rightarrow> bool" where
  "is_unary_expr (AUnary _ _) = True"
| "is_unary_expr _ = False"

section \<open>Binding powers\<close>

fun binary_binding_power :: "SysmlToken \<Rightarrow> (SysmlBinOp \<times> nat \<times> nat) option" where
  "binary_binding_power Implies = Some (OpImplies, 10, 10)"
| "binary_binding_power Or = Some (OpOr, 20, 21)"
| "binary_binding_power Xor = Some (OpXor, 30, 31)"
| "binary_binding_power And = Some (OpAnd, 40, 41)"
| "binary_binding_power Eq = Some (OpEq, 60, 61)"
| "binary_binding_power Ne = Some (OpNe, 60, 61)"
| "binary_binding_power Ge = Some (OpGe, 60, 61)"
| "binary_binding_power Le = Some (OpLe, 60, 61)"
| "binary_binding_power Gt = Some (OpGt, 60, 61)"
| "binary_binding_power Lt = Some (OpLt, 60, 61)"
| "binary_binding_power Plus = Some (OpAdd, 70, 71)"
| "binary_binding_power Minus = Some (OpSub, 70, 71)"
| "binary_binding_power Star = Some (OpMul, 80, 81)"
| "binary_binding_power Slash = Some (OpDiv, 80, 81)"
| "binary_binding_power Percent = Some (OpRem, 80, 81)"
| "binary_binding_power Pow = Some (OpPow, 100, 100)"
| "binary_binding_power _ = None"

text \<open>The token each operator is written with, the inverse of the table above.\<close>

fun op_token :: "SysmlBinOp \<Rightarrow> SysmlToken" where
  "op_token OpImplies = Implies"
| "op_token OpOr = Or"
| "op_token OpXor = Xor"
| "op_token OpAnd = And"
| "op_token OpEq = Eq"
| "op_token OpNe = Ne"
| "op_token OpGe = Ge"
| "op_token OpLe = Le"
| "op_token OpGt = Gt"
| "op_token OpLt = Lt"
| "op_token OpAdd = Plus"
| "op_token OpSub = Minus"
| "op_token OpMul = Star"
| "op_token OpDiv = Slash"
| "op_token OpRem = Percent"
| "op_token OpPow = Pow"

definition left_power :: "SysmlBinOp \<Rightarrow> nat" where
  "left_power oper = fst (snd (the (binary_binding_power (op_token oper))))"

definition right_power :: "SysmlBinOp \<Rightarrow> nat" where
  "right_power oper = snd (snd (the (binary_binding_power (op_token oper))))"

lemma binding_power_op_token:
  "binary_binding_power t = Some (oper, l, r) \<longleftrightarrow>
     t = op_token oper \<and> l = left_power oper \<and> r = right_power oper"
  by (cases t; cases oper) (auto simp: left_power_def right_power_def)

lemma op_token_inject [simp]: "op_token b = op_token b' \<longleftrightarrow> b = b'"
  by (cases b; cases b') auto

lemma binding_power_of_op [simp]:
  "binary_binding_power (op_token oper) = Some (oper, left_power oper, right_power oper)"
  by (simp add: binding_power_op_token)

lemma power_bounds: "10 \<le> left_power oper" "left_power oper \<le> right_power oper"
    "right_power oper \<le> 100"
  by (cases oper; simp add: left_power_def right_power_def)+

text \<open>The code's precedence table: only implication and power associate to the right.\<close>

lemma right_assoc_iff: "right_power oper = left_power oper \<longleftrightarrow> oper = OpImplies \<or> oper = OpPow"
  by (cases oper) (simp_all add: left_power_def right_power_def)

lemma left_assoc_power: "right_power oper = left_power oper \<or> right_power oper = Suc (left_power oper)"
  by (cases oper) (simp_all add: left_power_def right_power_def)

end
