(* ===== verification/Expr_Lexer.thy ===== *)
theory Expr_Lexer
  imports Expr_Ast
begin

text \<open>
  \<^verbatim>\<open>expr_lowering_lexer.rs\<close>: the lexer of SysML expressions. The cursor of the source is a slice
  and a position in it; here it is the rest of the text, \<^verbatim>\<open>chars[pos..]\<close>, which is all the lexer
  reads. Each \<^verbatim>\<open>while let Some(..) = cursor.peek()\<close> loop is a recursion on the rest.
\<close>

type_synonym LexerCursor = string

section \<open>The cursor\<close>

fun peek :: "LexerCursor \<Rightarrow> char option" where
  "peek [] = None"
| "peek (c # _) = Some c"

definition peek_second :: "LexerCursor \<Rightarrow> char option" where
  "peek_second cur = peek (drop 1 cur)"

definition peek_third :: "LexerCursor \<Rightarrow> char option" where
  "peek_third cur = peek (drop 2 cur)"

fun next_char :: "LexerCursor \<Rightarrow> (char \<times> LexerCursor) option" where
  "next_char [] = None"
| "next_char (c # cs) = Some (c, cs)"

text \<open>\<^verbatim>\<open>is_some_and(|d| d.is_ascii_digit())\<close>.\<close>

definition some_digit :: "char option \<Rightarrow> bool" where
  "some_digit oc = (case oc of None \<Rightarrow> False | Some d \<Rightarrow> is_ascii_digit d)"

section \<open>The literal scanners\<close>

fun lex_word :: "string \<Rightarrow> LexerCursor \<Rightarrow> string \<times> LexerCursor" where
  "lex_word word [] = (word, [])"
| "lex_word word (c # cs) =
     (if is_alphanumeric c \<or> c = CHR ''_'' then lex_word (word @ [c]) cs else (word, c # cs))"

definition word_token :: "string \<Rightarrow> SysmlToken" where
  "word_token word =
     (if eq_ignore_ascii_case word ''implies'' then Implies
      else if eq_ignore_ascii_case word ''or'' then Or
      else if eq_ignore_ascii_case word ''xor'' then Xor
      else if eq_ignore_ascii_case word ''and'' then And
      else if eq_ignore_ascii_case word ''not'' then KeywordNot
      else Ident word)"

definition lex_ident_or_keyword :: "char \<Rightarrow> LexerCursor \<Rightarrow> SysmlToken \<times> LexerCursor" where
  "lex_ident_or_keyword first cur =
     (let (word, rest) = lex_word [first] cur in (word_token word, rest))"

fun lex_digit_run :: "LexerCursor \<Rightarrow> string \<Rightarrow> string \<times> LexerCursor" where
  "lex_digit_run [] num_buf = (num_buf, [])"
| "lex_digit_run (c # cs) num_buf =
     (if is_ascii_digit c then lex_digit_run cs (num_buf @ [c])
      else if c = CHR ''_'' \<and> some_digit (peek cs) then lex_digit_run cs num_buf
      else (num_buf, c # cs))"

fun lex_plain_digits :: "LexerCursor \<Rightarrow> string \<Rightarrow> string \<times> LexerCursor" where
  "lex_plain_digits [] num_buf = (num_buf, [])"
| "lex_plain_digits (c # cs) num_buf =
     (if is_ascii_digit c then lex_plain_digits cs (num_buf @ [c]) else (num_buf, c # cs))"

definition is_exp_char :: "char \<Rightarrow> bool" where
  "is_exp_char c \<longleftrightarrow> c = CHR ''e'' \<or> c = CHR ''E''"

definition is_sign_char :: "char \<Rightarrow> bool" where
  "is_sign_char c \<longleftrightarrow> c = CHR ''+'' \<or> c = CHR ''-''"

definition has_valid_exp :: "LexerCursor \<Rightarrow> bool" where
  "has_valid_exp cur =
     (case peek_second cur of
        None \<Rightarrow> False
      | Some d \<Rightarrow>
          if is_ascii_digit d then True
          else if is_sign_char d then some_digit (peek_third cur)
          else False)"

definition lex_exponent_suffix :: "LexerCursor \<Rightarrow> string \<Rightarrow> string \<times> LexerCursor" where
  "lex_exponent_suffix cur num_buf =
     (case cur of
        [] \<Rightarrow> (num_buf, cur)
      | exp_ch # cs \<Rightarrow>
          if is_exp_char exp_ch \<and> has_valid_exp cur then
            (case cs of
               [] \<Rightarrow> lex_plain_digits cs (num_buf @ [exp_ch])
             | sign # ds \<Rightarrow>
                 if is_sign_char sign then lex_plain_digits ds (num_buf @ [exp_ch, sign])
                 else lex_plain_digits cs (num_buf @ [exp_ch]))
          else (num_buf, cur))"

definition lex_fraction :: "LexerCursor \<Rightarrow> string \<Rightarrow> string \<times> LexerCursor" where
  "lex_fraction cur num_buf =
     (if peek cur = Some (CHR ''.'') \<and> some_digit (peek_second cur)
      then lex_digit_run (drop 1 cur) (num_buf @ ''.'')
      else (num_buf, cur))"

definition lex_number_literal :: "char \<Rightarrow> LexerCursor \<Rightarrow> SysmlToken \<times> LexerCursor" where
  "lex_number_literal first cur =
     (let (num_buf, rest) =
        (if first = CHR ''.'' then lex_digit_run cur ''0.''
         else (let (buf, r) = lex_digit_run cur [first] in lex_fraction r buf));
      (num_buf, rest) = lex_exponent_suffix rest num_buf
      in (Number num_buf, rest))"

fun lex_string_body :: "char \<Rightarrow> LexerCursor \<Rightarrow> string \<Rightarrow> string \<times> LexerCursor" where
  "lex_string_body quote [] lit = (lit, [])"
| "lex_string_body quote (c # cs) lit =
     (if c = BS then
        (case cs of
           [] \<Rightarrow> (lit, [])
         | escaped # r \<Rightarrow> lex_string_body quote r (lit @ [escaped]))
      else if c = quote then (lit, cs)
      else lex_string_body quote cs (lit @ [c]))"

definition lex_string_literal :: "char \<Rightarrow> LexerCursor \<Rightarrow> SysmlToken \<times> LexerCursor" where
  "lex_string_literal quote cur =
     (let (lit, rest) = lex_string_body quote cur [] in (StringLit lit, rest))"

section \<open>Operators\<close>

definition if_next :: "char \<Rightarrow> LexerCursor \<Rightarrow> SysmlToken \<Rightarrow> SysmlToken \<Rightarrow> SysmlToken \<times> LexerCursor" where
  "if_next c cur yes no = (if peek cur = Some c then (yes, drop 1 cur) else (no, cur))"

definition lex_operator_or_punct :: "char \<Rightarrow> LexerCursor \<Rightarrow> SysmlToken \<times> LexerCursor" where
  "lex_operator_or_punct ch cur =
     (if ch = CHR ''-'' then if_next (CHR ''>'') cur Implies Minus
      else if ch = CHR ''='' then
        (if peek cur = Some (CHR ''>'') then (Implies, drop 1 cur)
         else if_next (CHR ''='') cur Eq Eq)
      else if ch = CHR ''|'' then if_next (CHR ''|'') cur Or Or
      else if ch = CHR ''&'' then if_next (CHR ''&'') cur And And
      else if ch = CHR ''!'' then if_next (CHR ''='') cur Ne Bang
      else if ch = CHR ''~'' then if_next (CHR ''='') cur Ne Tilde
      else if ch = CHR ''>'' then if_next (CHR ''='') cur Ge Gt
      else if ch = CHR ''<'' then if_next (CHR ''='') cur Le Lt
      else if ch = CHR ''+'' then (Plus, cur)
      else if ch = CHR ''*'' then if_next (CHR ''*'') cur Pow Star
      else if ch = CHR ''/'' then (Slash, cur)
      else if ch = CHR ''%'' then (Percent, cur)
      else if ch = CHR ''^'' then (Pow, cur)
      else if ch = CHR ''('' then (LParen, cur)
      else if ch = CHR '')'' then (RParen, cur)
      else if ch = CHR ''['' then (LBracket, cur)
      else if ch = CHR '']'' then (RBracket, cur)
      else if ch = CHR '','' then (Comma, cur)
      else if ch = CHR ''.'' then (Dot, cur)
      else if ch = CHR '':'' then if_next (CHR '':'') cur Dot (Unknown ch)
      else (Unknown ch, cur))"

text \<open>The token that starts with the character \<open>ch\<close>, which is not a space.\<close>

definition lex_token :: "char \<Rightarrow> LexerCursor \<Rightarrow> SysmlToken \<times> LexerCursor" where
  "lex_token ch cur =
     (if is_alphabetic ch \<or> ch = CHR ''_'' then lex_ident_or_keyword ch cur
      else if is_ascii_digit ch \<or> (ch = CHR ''.'' \<and> some_digit (peek cur))
        then lex_number_literal ch cur
      else if ch = DQ \<or> ch = SQ then lex_string_literal ch cur
      else lex_operator_or_punct ch cur)"

section \<open>Consumption and the tokenizer\<close>

lemma lex_word_append: "lex_word w cs = (v, r) \<Longrightarrow> \<exists>x. v = w @ x \<and> cs = x @ r \<and>
    (\<forall>c \<in> set x. is_alphanumeric c \<or> c = CHR ''_'')"
  by (induction w cs rule: lex_word.induct) (fastforce split: if_splits)+

lemma lex_word_length [consumes]: "lex_word w cs = (v, r) \<Longrightarrow> length r \<le> length cs"
  by (auto dest: lex_word_append)

lemma lex_digit_run_length [consumes]: "lex_digit_run cs b = (v, r) \<Longrightarrow> length r \<le> length cs"
  by (induction cs b rule: lex_digit_run.induct) (fastforce split: if_splits)+

lemma lex_plain_digits_length [consumes]:
  "lex_plain_digits cs b = (v, r) \<Longrightarrow> length r \<le> length cs"
  by (induction cs b rule: lex_plain_digits.induct) (fastforce split: if_splits)+

lemma lex_exponent_suffix_length [consumes]:
  "lex_exponent_suffix cs b = (v, r) \<Longrightarrow> length r \<le> length cs"
  unfolding lex_exponent_suffix_def
  by (fastforce split: list.splits if_splits dest: lex_plain_digits_length)

lemma lex_fraction_length [consumes]: "lex_fraction cs b = (v, r) \<Longrightarrow> length r \<le> length cs"
  unfolding lex_fraction_def by (fastforce split: if_splits dest: lex_digit_run_length)

lemma lex_number_literal_length [consumes]:
  "lex_number_literal c cs = (t, r) \<Longrightarrow> length r \<le> length cs"
  unfolding lex_number_literal_def Let_def
  by (fastforce split: prod.splits if_splits
      dest: lex_digit_run_length lex_fraction_length lex_exponent_suffix_length)

lemma lex_string_body_length [consumes]:
  "lex_string_body q cs b = (v, r) \<Longrightarrow> length r \<le> length cs"
  by (induction q cs b rule: lex_string_body.induct) (fastforce split: if_splits list.splits)+

lemma lex_operator_length [consumes]:
  "lex_operator_or_punct c cs = (t, r) \<Longrightarrow> length r \<le> length cs"
  unfolding lex_operator_or_punct_def if_next_def by (auto split: if_splits)

lemma lex_token_length [consumes]: "lex_token c cs = (t, r) \<Longrightarrow> length r \<le> length cs"
  unfolding lex_token_def lex_ident_or_keyword_def lex_string_literal_def
  by (auto split: if_splits prod.splits dest: consumes)

text \<open>The main loop: every iteration takes at least the character it starts with.\<close>

function tokenize_sysml_expr :: "string \<Rightarrow> SysmlToken list" where
  "tokenize_sysml_expr cur =
     (case next_char cur of
        None \<Rightarrow> []
      | Some (ch, rest) \<Rightarrow>
          if is_whitespace ch then tokenize_sysml_expr rest
          else fst (lex_token ch rest) # tokenize_sysml_expr (snd (lex_token ch rest)))"
  by pat_completeness auto
termination
proof (relation "measure length", goal_cases)
  case (2 cur p ch rest)
  then show ?case by (cases cur) auto
next
  case (3 cur p ch rest)
  then have "cur = ch # rest" by (cases cur) auto
  then show ?case
    using lex_token_length [of ch rest "fst (lex_token ch rest)" "snd (lex_token ch rest)"] by simp
qed simp

declare tokenize_sysml_expr.simps [simp del]

lemma tokenize_simps [str_simps]:
  "tokenize_sysml_expr [] = []"
  "tokenize_sysml_expr (c # cs) =
     (if is_whitespace c then tokenize_sysml_expr cs
      else fst (lex_token c cs) # tokenize_sysml_expr (snd (lex_token c cs)))"
  by (simp_all add: tokenize_sysml_expr.simps [of "[]"] tokenize_sysml_expr.simps [of "c # cs"])

end
