(* ===== verification/Expr_Lexical.thy ===== *)
theory Expr_Lexical
  imports Expr_Lexer
begin

text \<open>
  What the lexer of \<open>Expr_Lexer\<close> promises: the tokens it returns are well formed, and a
  list of well formed tokens, written out, is read back.
\<close>

section \<open>Well formed tokens\<close>

definition exp_text :: "string \<Rightarrow> bool" where
  "exp_text s \<longleftrightarrow> s = [] \<or> (is_exp_char (hd s) \<and>
     (let ds = (if tl s \<noteq> [] \<and> is_sign_char (hd (tl s)) then tl (tl s) else tl s)
      in ds \<noteq> [] \<and> list_all is_ascii_digit ds))"

definition frac_text :: "string \<Rightarrow> bool" where
  "frac_text s \<longleftrightarrow>
     (if s \<noteq> [] \<and> hd s = CHR ''.''
      then takeWhile is_ascii_digit (tl s) \<noteq> [] \<and> exp_text (dropWhile is_ascii_digit (tl s))
      else exp_text s)"

text \<open>A number: digits, a fraction if any, an exponent if any.\<close>

definition number_text :: "string \<Rightarrow> bool" where
  "number_text s \<longleftrightarrow>
     takeWhile is_ascii_digit s \<noteq> [] \<and> frac_text (dropWhile is_ascii_digit s)"

definition ident_start :: "char \<Rightarrow> bool" where
  "ident_start c \<longleftrightarrow> is_alphabetic c \<or> c = CHR ''_''"

definition ident_part :: "char \<Rightarrow> bool" where
  "ident_part c \<longleftrightarrow> is_alphanumeric c \<or> c = CHR ''_''"

definition ident_text :: "string \<Rightarrow> bool" where
  "ident_text s \<longleftrightarrow> s \<noteq> [] \<and> ident_start (hd s) \<and> list_all ident_part (tl s) \<and> word_token s = Ident s"

definition unknown_char :: "char \<Rightarrow> bool" where
  "unknown_char c \<longleftrightarrow> \<not> is_whitespace c \<and> fst (lex_token c []) = Unknown c"

fun token_ok :: "SysmlToken \<Rightarrow> bool" where
  "token_ok (Ident w) = ident_text w"
| "token_ok (Number n) = number_text n"
| "token_ok (Unknown c) = unknown_char c"
| "token_ok _ = True"

section \<open>The numbers the lexer builds\<close>

lemma digit_not_special:
  "is_ascii_digit c \<Longrightarrow> c \<noteq> CHR ''_'' \<and> c \<noteq> CHR ''.'' \<and> \<not> is_exp_char c \<and> \<not> is_sign_char c
     \<and> \<not> is_whitespace c \<and> \<not> is_alphabetic c"
  by (auto simp: is_ascii_digit_def is_exp_char_def is_sign_char_def is_whitespace_def
      is_alphabetic_def is_ascii_alphabetic_def is_ascii_uppercase_def is_ascii_lowercase_def code_def)

lemma lex_digit_run_digits:
  "lex_digit_run cs b = (v, r) \<Longrightarrow>
     \<exists>ds. v = b @ ds \<and> list_all is_ascii_digit ds \<and> (some_digit (peek cs) \<longrightarrow> ds \<noteq> [])"
proof (induction cs b arbitrary: v r rule: lex_digit_run.induct)
  case (2 c cs b)
  show ?case
  proof (cases "is_ascii_digit c")
    case True
    then show ?thesis using 2 by fastforce
  next
    case False
    then show ?thesis using 2 by (auto simp: some_digit_def split: if_splits)
  qed
qed (simp add: some_digit_def)

lemma lex_plain_digits_digits:
  "lex_plain_digits cs b = (v, r) \<Longrightarrow>
     \<exists>ds. v = b @ ds \<and> list_all is_ascii_digit ds \<and> (some_digit (peek cs) \<longrightarrow> ds \<noteq> [])"
proof (induction cs b arbitrary: v r rule: lex_plain_digits.induct)
  case (2 c cs b)
  then show ?case by (cases "is_ascii_digit c") (fastforce simp: some_digit_def)+
qed (simp add: some_digit_def)

lemma lex_exponent_text:
  "lex_exponent_suffix cs b = (v, r) \<Longrightarrow> \<exists>ep. v = b @ ep \<and> exp_text ep"
proof -
  assume run: "lex_exponent_suffix cs b = (v, r)"
  consider "v = b" | e ds where "cs = e # ds" "is_exp_char e" "has_valid_exp cs"
    using run by (auto simp: lex_exponent_suffix_def split: list.splits if_splits)
  then show ?thesis
  proof cases
    case 1
    then show ?thesis by (auto simp: exp_text_def)
  next
    case (2 e ds)
    obtain d rest where ds: "ds = d # rest"
      using 2 by (cases ds) (auto simp: has_valid_exp_def peek_second_def)
    show ?thesis
    proof (cases "is_sign_char d")
      case True
      then have "some_digit (peek rest)" using 2 ds
        by (auto simp: has_valid_exp_def peek_second_def peek_third_def dest: digit_not_special split: if_splits)
      moreover have "lex_plain_digits rest (b @ [e, d]) = (v, r)"
        using run 2 ds True by (simp add: lex_exponent_suffix_def)
      ultimately obtain xs where "v = (b @ [e, d]) @ xs" "list_all is_ascii_digit xs" "xs \<noteq> []"
        using lex_plain_digits_digits by blast
      then show ?thesis using True 2 by (intro exI [of _ "e # d # xs"]) (auto simp: exp_text_def)
    next
      case False
      then have "is_ascii_digit d" using 2 ds
        by (auto simp: has_valid_exp_def peek_second_def split: if_splits)
      moreover have "lex_plain_digits ds (b @ [e]) = (v, r)"
        using run 2 ds False by (simp add: lex_exponent_suffix_def)
      ultimately obtain xs where "v = (b @ [e]) @ xs" "list_all is_ascii_digit xs" "xs \<noteq> []"
        using lex_plain_digits_digits [of ds "b @ [e]" v r] ds by (auto simp: some_digit_def)
      moreover from this have "\<not> is_sign_char (hd xs)"
        using digit_not_special by (cases xs) auto
      ultimately show ?thesis using 2
        by (intro exI [of _ "e # xs"]) (simp add: exp_text_def)
    qed
  qed
qed

lemma exp_text_stop: "exp_text ep \<Longrightarrow> takeWhile is_ascii_digit ep = [] \<and> dropWhile is_ascii_digit ep = ep"
  by (cases ep) (auto simp: exp_text_def dest: digit_not_special)

lemma exp_text_dot: "exp_text ep \<Longrightarrow> ep \<noteq> [] \<Longrightarrow> hd ep \<noteq> CHR ''.''"
  by (cases ep) (auto simp: exp_text_def is_exp_char_def)

lemma frac_text_exp: "exp_text ep \<Longrightarrow> frac_text ep"
  using exp_text_dot [of ep] by (auto simp: frac_text_def)

lemma frac_text_digits:
  "list_all is_ascii_digit ds \<Longrightarrow> ds \<noteq> [] \<Longrightarrow> exp_text ep \<Longrightarrow> frac_text (CHR ''.'' # ds @ ep)"
  using exp_text_stop [of ep]
  by (auto simp: frac_text_def takeWhile_all dropWhile_all list_all_iff)

lemma number_text_parts:
  "list_all is_ascii_digit ip \<Longrightarrow> ip \<noteq> [] \<Longrightarrow> frac_text s \<Longrightarrow> takeWhile is_ascii_digit s = [] \<Longrightarrow>
     number_text (ip @ s)"
proof -
  assume a: "list_all is_ascii_digit ip" "ip \<noteq> []" "frac_text s" "takeWhile is_ascii_digit s = []"
  then have "dropWhile is_ascii_digit s = s" by (cases s) (auto split: if_splits)
  with a show ?thesis by (simp add: number_text_def takeWhile_all dropWhile_all list_all_iff)
qed

lemma lex_number_text:
  assumes run: "lex_number_literal c cs = (t, r)"
    and start: "is_ascii_digit c \<or> c = CHR ''.'' \<and> some_digit (peek cs)"
  shows "\<exists>n. t = Number n \<and> number_text n"
proof (cases "c = CHR ''.''")
  case True
  then have "\<not> is_ascii_digit c" by (simp add: is_ascii_digit_def code_def)
  with start have d: "some_digit (peek cs)" by blast
  obtain v r1 where v: "lex_digit_run cs ''0.'' = (v, r1)" by fastforce
  obtain w r2 where w: "lex_exponent_suffix r1 v = (w, r2)" by fastforce
  obtain ds where ds: "v = ''0.'' @ ds" "list_all is_ascii_digit ds" "ds \<noteq> []"
    using lex_digit_run_digits [OF v] d by auto
  obtain ep where ep: "w = v @ ep" "exp_text ep" using lex_exponent_text [OF w] by blast
  have "number_text (''0'' @ CHR ''.'' # ds @ ep)"
    using ds ep by (intro number_text_parts frac_text_digits) (auto simp: is_ascii_digit_def code_def)
  then show ?thesis using run True v w ds ep by (auto simp: lex_number_literal_def)
next
  case False
  with start have c: "is_ascii_digit c" by blast
  obtain v r1 where v: "lex_digit_run cs [c] = (v, r1)" by fastforce
  obtain f r2 where f: "lex_fraction r1 v = (f, r2)" by fastforce
  obtain w r3 where w: "lex_exponent_suffix r2 f = (w, r3)" by fastforce
  obtain ds where ds: "v = [c] @ ds" "list_all is_ascii_digit ds"
    using lex_digit_run_digits [OF v] by auto
  obtain ep where ep: "w = f @ ep" "exp_text ep" using lex_exponent_text [OF w] by blast
  have t: "t = Number w" using run False v f w by (simp add: lex_number_literal_def)
  show ?thesis
  proof (cases "peek r1 = Some (CHR ''.'') \<and> some_digit (peek_second r1)")
    case True
    then have "lex_digit_run (drop 1 r1) (v @ ''.'') = (f, r2)" "some_digit (peek (drop 1 r1))"
      using f by (auto simp: lex_fraction_def peek_second_def)
    then obtain xs where xs: "f = (v @ ''.'') @ xs" "list_all is_ascii_digit xs" "xs \<noteq> []"
      using lex_digit_run_digits by blast
    have "number_text ((c # ds) @ CHR ''.'' # xs @ ep)"
      using ds xs ep c by (intro number_text_parts frac_text_digits) (auto simp: is_ascii_digit_def code_def)
    then show ?thesis using t ds xs ep by simp
  next
    case False
    then have "f = v" using f by (auto simp: lex_fraction_def split: if_splits)
    moreover have "number_text ((c # ds) @ ep)"
      using ds ep c exp_text_stop by (intro number_text_parts) (auto intro: frac_text_exp)
    ultimately show ?thesis using t ds ep by simp
  qed
qed

section \<open>Every token of the lexer is well formed\<close>

lemma word_token_ok: "ident_start c \<Longrightarrow> list_all ident_part w \<Longrightarrow> token_ok (word_token (c # w))"
proof -
  assume "ident_start c" "list_all ident_part w"
  then have "word_token (c # w) = Ident (c # w) \<Longrightarrow> ident_text (c # w)" by (simp add: ident_text_def)
  then show ?thesis unfolding word_token_def by (auto split: if_splits)
qed

lemma lex_operator_ok: "lex_operator_or_punct c cs = (t, r) \<Longrightarrow> fst (lex_operator_or_punct c []) = Unknown c \<or> (\<forall>d. t \<noteq> Unknown d)"
  unfolding lex_operator_or_punct_def if_next_def by (auto split: if_splits)

lemma lex_operator_kind: "lex_operator_or_punct c cs = (t, r) \<Longrightarrow>
    (\<forall>w. t \<noteq> Ident w) \<and> (\<forall>w. t \<noteq> Number w) \<and> (\<forall>d. t = Unknown d \<longrightarrow> d = c)"
  unfolding lex_operator_or_punct_def if_next_def by (auto split: if_splits)

lemma lex_token_ok: "\<not> is_whitespace c \<Longrightarrow> token_ok (fst (lex_token c cs))"
proof -
  assume nw: "\<not> is_whitespace c"
  obtain t r where run: "lex_token c cs = (t, r)" by fastforce
  consider "ident_start c" | "\<not> ident_start c" "is_ascii_digit c \<or> c = CHR ''.'' \<and> some_digit (peek cs)"
    | "\<not> ident_start c" "\<not> (is_ascii_digit c \<or> c = CHR ''.'' \<and> some_digit (peek cs))" "c = DQ \<or> c = SQ"
    | "\<not> ident_start c" "\<not> (is_ascii_digit c \<or> c = CHR ''.'' \<and> some_digit (peek cs))" "\<not> (c = DQ \<or> c = SQ)"
    by blast
  then have "token_ok t"
  proof cases
    case 1
    obtain v r' where v: "lex_word [c] cs = (v, r')" by fastforce
    then obtain x where "v = [c] @ x" "list_all ident_part x"
      using lex_word_append [OF v] by (auto simp: ident_part_def list_all_iff)
    with 1 have "token_ok (word_token v)" by (simp add: word_token_ok)
    then show ?thesis using run 1 v
      by (auto simp: lex_token_def ident_start_def lex_ident_or_keyword_def)
  next
    case 2
    then have "lex_number_literal c cs = (t, r)" using run by (simp add: lex_token_def ident_start_def)
    then show ?thesis using lex_number_text 2 by fastforce
  next
    case 3
    then have "lex_string_literal c cs = (t, r)"
      using run unfolding lex_token_def ident_start_def by (simp only: if_False if_True)
    then show ?thesis by (auto simp: lex_string_literal_def split: prod.splits)
  next
    case 4
    then have l: "lex_operator_or_punct c cs = (t, r)"
      using run unfolding lex_token_def ident_start_def by (simp only: if_False if_True)
    have "lex_token c [] = lex_operator_or_punct c []"
      using 4 unfolding lex_token_def ident_start_def by (auto simp: some_digit_def)
    then have "t = Unknown d \<Longrightarrow> unknown_char d" for d
      using lex_operator_ok [OF l] lex_operator_kind [OF l] nw by (auto simp: unknown_char_def)
    then show ?thesis using lex_operator_kind [OF l] by (cases t) auto
  qed
  then show ?thesis using run by simp
qed

lemma tokenize_ok: "t \<in> set (tokenize_sysml_expr s) \<Longrightarrow> token_ok t"
proof (induction s rule: tokenize_sysml_expr.induct)
  case (1 s)
  show ?case
  proof (cases s)
    case Nil
    then show ?thesis using 1 by (simp add: tokenize_simps)
  next
    case (Cons c cs)
    then show ?thesis using 1 lex_token_ok [of c cs]
      by (auto simp: tokenize_simps split: if_splits)
  qed
qed

section \<open>Writing tokens out\<close>

definition quote_lit :: "string \<Rightarrow> string" where
  "quote_lit lit = concat (map (\<lambda>c. if c = DQ \<or> c = BS then [BS, c] else [c]) lit)"

fun token_text :: "SysmlToken \<Rightarrow> string" where
  "token_text Implies = ''->''"
| "token_text Or = ''||''"
| "token_text Xor = ''xor''"
| "token_text And = ''&&''"
| "token_text KeywordNot = ''not''"
| "token_text Eq = ''==''"
| "token_text Ne = ''!=''"
| "token_text Ge = ''>=''"
| "token_text Le = ''<=''"
| "token_text Gt = ''>''"
| "token_text Lt = ''<''"
| "token_text Plus = ''+''"
| "token_text Minus = ''-''"
| "token_text Star = ''*''"
| "token_text Slash = ''/''"
| "token_text Percent = ''%''"
| "token_text Bang = ''!''"
| "token_text Tilde = ''~''"
| "token_text Pow = ''^''"
| "token_text LParen = ''(''"
| "token_text RParen = '')''"
| "token_text LBracket = ''[''"
| "token_text RBracket = '']''"
| "token_text Comma = '',''"
| "token_text Dot = ''.''"
| "token_text (Ident w) = w"
| "token_text (Number n) = n"
| "token_text (StringLit lit) = DQ # quote_lit lit @ [DQ]"
| "token_text (Unknown c) = [c]"

definition spell :: "SysmlToken list \<Rightarrow> string" where
  "spell ts = join '' '' (map token_text ts)"

abbreviation at_gap :: "string \<Rightarrow> bool" where
  "at_gap r \<equiv> r = [] \<or> hd r = CHR '' ''"

lemma lex_word_stop:
  "list_all ident_part x \<Longrightarrow> at_gap r \<Longrightarrow> lex_word w (x @ r) = (w @ x, r)"
proof (induction x arbitrary: w)
  case Nil
  then show ?case by (cases r) (auto simp: is_alphanumeric_def is_numeric_def is_alphabetic_def
        is_ascii_alphabetic_def is_ascii_uppercase_def is_ascii_lowercase_def is_ascii_digit_def code_def)
qed (simp add: ident_part_def)

lemma lex_digit_run_stop:
  "list_all is_ascii_digit ds \<Longrightarrow> r = [] \<or> \<not> is_ascii_digit (hd r) \<and> hd r \<noteq> CHR ''_'' \<Longrightarrow>
     lex_digit_run (ds @ r) b = (b @ ds, r)"
proof (induction ds arbitrary: b)
  case Nil
  then show ?case by (cases r) auto
qed simp

lemma lex_plain_digits_stop:
  "list_all is_ascii_digit ds \<Longrightarrow> r = [] \<or> \<not> is_ascii_digit (hd r) \<Longrightarrow>
     lex_plain_digits (ds @ r) b = (b @ ds, r)"
proof (induction ds arbitrary: b)
  case Nil
  then show ?case by (cases r) auto
qed simp

lemma lex_string_body_quote: "lex_string_body DQ (quote_lit lit @ DQ # r) b = (b @ lit, r)"
  by (induction lit arbitrary: b) (auto simp: quote_lit_def)

lemma gap_no_digit: "at_gap r \<Longrightarrow> r = [] \<or> \<not> is_ascii_digit (hd r) \<and> hd r \<noteq> CHR ''_'' \<and> \<not> is_exp_char (hd r)
   \<and> hd r \<noteq> CHR ''.''"
  by (auto simp: is_ascii_digit_def is_exp_char_def code_def)

lemma lex_exponent_read:
  assumes "exp_text ep" "at_gap r"
  shows "lex_exponent_suffix (ep @ r) b = (b @ ep, r)"
proof (cases ep)
  case Nil
  then show ?thesis using gap_no_digit [OF assms(2)] by (cases r) (auto simp: lex_exponent_suffix_def)
next
  case (Cons e xs)
  show ?thesis
  proof (cases "xs \<noteq> [] \<and> is_sign_char (hd xs)")
    case True
    then obtain s ds where xs: "xs = s # ds" "is_sign_char s" by (cases xs) auto
    with assms Cons have ds: "is_exp_char e" "ds \<noteq> []" "list_all is_ascii_digit ds"
      by (auto simp: exp_text_def)
    then obtain d ds' where "ds = d # ds'" "is_ascii_digit d" by (cases ds) auto
    then have "has_valid_exp (ep @ r)" using Cons xs
      by (auto simp: has_valid_exp_def peek_second_def peek_third_def some_digit_def)
    then show ?thesis using Cons xs ds gap_no_digit [OF assms(2)]
      by (simp add: lex_exponent_suffix_def) (subst lex_plain_digits_stop, auto)
  next
    case False
    with assms Cons have ds: "is_exp_char e" "xs \<noteq> []" "list_all is_ascii_digit xs"
      by (auto simp: exp_text_def split: if_splits)
    then obtain d ds' where d: "xs = d # ds'" "is_ascii_digit d" by (cases xs) auto
    then have "has_valid_exp (ep @ r)" using Cons
      by (auto simp: has_valid_exp_def peek_second_def)
    moreover have "\<not> is_sign_char d" using d(2) by (simp add: digit_not_special)
    ultimately show ?thesis
      using Cons ds d gap_no_digit [OF assms(2)] lex_plain_digits_stop [of xs r "b @ [e]"]
      by (auto simp: lex_exponent_suffix_def)
  qed
qed

lemma number_text_cases:
  assumes "number_text n"
  obtains ip ep where "n = ip @ ep" "ip \<noteq> []" "list_all is_ascii_digit ip" "exp_text ep"
    | ip ds ep where "n = ip @ CHR ''.'' # ds @ ep" "ip \<noteq> []" "list_all is_ascii_digit ip"
        "ds \<noteq> []" "list_all is_ascii_digit ds" "exp_text ep"
proof -
  let ?ip = "takeWhile is_ascii_digit n" and ?s = "dropWhile is_ascii_digit n"
  have ip: "n = ?ip @ ?s" "?ip \<noteq> []" "list_all is_ascii_digit ?ip" "frac_text ?s"
    using assms by (auto simp: number_text_def list_all_iff dest: set_takeWhileD)
  show thesis
  proof (cases "?s \<noteq> [] \<and> hd ?s = CHR ''.''")
    case True
    then have "?s = CHR ''.'' # takeWhile is_ascii_digit (tl ?s) @ dropWhile is_ascii_digit (tl ?s)"
      by (cases ?s) auto
    moreover have "takeWhile is_ascii_digit (tl ?s) \<noteq> []" "exp_text (dropWhile is_ascii_digit (tl ?s))"
      using True ip(4) by (auto simp: frac_text_def)
    ultimately show thesis using ip that(2) by (metis list_all_iff set_takeWhileD)
  next
    case False
    then have "exp_text ?s" using ip(4) by (auto simp: frac_text_def)
    then show thesis using ip that(1) by metis
  qed
qed

lemma number_text_chars:
  "number_text n \<Longrightarrow> c \<in> set n \<Longrightarrow>
     is_ascii_digit c \<or> is_exp_char c \<or> is_sign_char c \<or> c = CHR ''.''"
proof -
  have e: "exp_text s \<Longrightarrow> c \<in> set s \<Longrightarrow> is_ascii_digit c \<or> is_exp_char c \<or> is_sign_char c" for s
    by (cases s; cases "tl s") (auto simp: exp_text_def list_all_iff split: if_splits)
  show "number_text n \<Longrightarrow> c \<in> set n \<Longrightarrow> ?thesis"
    by (erule number_text_cases) (auto simp: list_all_iff dest: e)
qed

lemma exp_text_no_digit: "exp_text ep \<Longrightarrow> ep = [] \<or> \<not> is_ascii_digit (hd ep) \<and> hd ep \<noteq> CHR ''_'' \<and> hd ep \<noteq> CHR ''.''"
  by (auto simp: exp_text_def is_exp_char_def is_ascii_digit_def code_def)

lemma exp_gap: "exp_text ep \<Longrightarrow> at_gap r \<Longrightarrow>
   ep @ r = [] \<or> \<not> is_ascii_digit (hd (ep @ r)) \<and> hd (ep @ r) \<noteq> CHR ''_'' \<and> hd (ep @ r) \<noteq> CHR ''.''"
  using exp_text_no_digit [of ep] gap_no_digit [of r] by (cases ep) auto

lemma lex_number_read:
  assumes "number_text (c # cs)" "at_gap r"
  shows "lex_number_literal c (cs @ r) = (Number (c # cs), r) \<and> is_ascii_digit c"
  using assms(1)
proof (cases rule: number_text_cases)
  case (1 ip ep)
  then obtain ds where ip: "ip = c # ds" by (cases ip) auto
  with 1 have c: "is_ascii_digit c" "list_all is_ascii_digit ds" "cs = ds @ ep" by auto
  have "lex_digit_run (ds @ ep @ r) [c] = (c # ds, ep @ r)"
    using c exp_gap [OF 1(4) assms(2)] by (subst lex_digit_run_stop) auto
  moreover have "lex_fraction (ep @ r) (c # ds) = (c # ds, ep @ r)"
    using exp_gap [OF 1(4) assms(2)] by (cases "ep @ r") (auto simp: lex_fraction_def)
  moreover have "c \<noteq> CHR ''.''" using c(1) digit_not_special by blast
  ultimately show ?thesis using c lex_exponent_read [OF 1(4) assms(2)]
    by (simp add: lex_number_literal_def)
next
  case (2 ip fs ep)
  then obtain ds where ip: "ip = c # ds" by (cases ip) auto
  with 2 have c: "is_ascii_digit c" "list_all is_ascii_digit ds" "cs = ds @ CHR ''.'' # fs @ ep" by auto
  obtain f fs' where f: "fs = f # fs'" "is_ascii_digit f" using 2 by (cases fs) auto
  have "lex_digit_run (ds @ CHR ''.'' # fs @ ep @ r) [c] = (c # ds, CHR ''.'' # fs @ ep @ r)"
    using c by (subst lex_digit_run_stop) (auto simp: is_ascii_digit_def code_def)
  moreover have "lex_fraction (CHR ''.'' # fs @ ep @ r) (c # ds) = (c # ds @ CHR ''.'' # fs, ep @ r)"
    using f 2 exp_gap [OF 2(6) assms(2)]
    by (simp add: lex_fraction_def peek_second_def some_digit_def)
      (subst lex_digit_run_stop, auto)
  moreover have "c \<noteq> CHR ''.''" using c(1) digit_not_special by blast
  ultimately show ?thesis using c lex_exponent_read [OF 2(6) assms(2)]
    by (simp add: lex_number_literal_def)
qed

lemma ident_start_not_space: "ident_start c \<Longrightarrow> \<not> is_whitespace c"
  by (auto simp: ident_start_def is_alphabetic_def is_ascii_alphabetic_def is_ascii_uppercase_def
      is_ascii_lowercase_def is_whitespace_def code_def)

text \<open>The tokens with a fixed spelling and no content.\<close>

fun fixed_token :: "SysmlToken \<Rightarrow> bool" where
  "fixed_token (Ident w) = False"
| "fixed_token (Number n) = False"
| "fixed_token (StringLit n) = False"
| "fixed_token (Unknown n) = False"
| "fixed_token _ = True"

lemmas lex_char_classes =
  ident_start_def is_alphabetic_def is_ascii_alphabetic_def is_ascii_uppercase_def
  is_ascii_lowercase_def is_ascii_digit_def is_whitespace_def code_def some_digit_def

lemma lex_symbol:
  "fixed_token t \<Longrightarrow> t \<noteq> Xor \<Longrightarrow> t \<noteq> KeywordNot \<Longrightarrow>
     lex_token (hd (token_text t)) (tl (token_text t)) = (t, []) \<and>
     lex_token (hd (token_text t)) (tl (token_text t) @ CHR '' '' # x) = (t, CHR '' '' # x)"
  by (cases t) (simp_all add: lex_token_def lex_operator_or_punct_def if_next_def lex_char_classes)

lemma lex_keyword:
  "t = Xor \<or> t = KeywordNot \<Longrightarrow> ident_start (hd (token_text t)) \<and>
     list_all ident_part (tl (token_text t)) \<and> word_token (token_text t) = t"
  by (elim disjE; hypsubst; code_simp)

lemma lex_fixed:
  assumes "fixed_token t" "at_gap r"
  obtains c cs where "token_text t = c # cs" "\<not> is_whitespace c" "lex_token c (cs @ r) = (t, r)"
proof -
  obtain c cs where t: "token_text t = c # cs" using assms(1) by (cases t) auto
  have "\<not> is_whitespace c" using t assms(1) by (cases t) (auto simp: is_whitespace_def code_def)
  moreover have "lex_token c (cs @ r) = (t, r)"
  proof (cases "t = Xor \<or> t = KeywordNot")
    case True
    then have "ident_start c" "list_all ident_part cs" "word_token (c # cs) = t"
      using t lex_keyword [of t] by simp_all
    then show ?thesis using lex_word_stop [of cs r "[c]"] assms(2)
      by (simp add: lex_token_def ident_start_def lex_ident_or_keyword_def)
  next
    case False
    with assms t show ?thesis using lex_symbol [of t] by (cases r) auto
  qed
  ultimately show thesis using t that by blast
qed

lemma unknown_gap: "fst (lex_operator_or_punct c []) = Unknown c \<Longrightarrow> at_gap r \<Longrightarrow>
    lex_operator_or_punct c r = (Unknown c, r)"
  by (cases r) (auto simp: lex_operator_or_punct_def if_next_def split: if_splits)

lemma lex_string_kind: "fst (lex_string_literal q r) \<noteq> Unknown c"
  by (simp add: lex_string_literal_def split: prod.splits)

lemma unknown_char_op:
  assumes "unknown_char c"
  shows "\<not> is_whitespace c" "\<not> ident_start c" "\<not> is_ascii_digit c" "c \<noteq> DQ" "c \<noteq> SQ" "c \<noteq> CHR ''.''"
    and "fst (lex_operator_or_punct c []) = Unknown c"
proof -
  have u: "fst (lex_token c []) = Unknown c" and "\<not> is_whitespace c"
    using assms by (auto simp: unknown_char_def)
  show "\<not> is_whitespace c" by fact
  show i: "\<not> ident_start c"
  proof
    assume "ident_start c"
    then have "fst (lex_token c []) = word_token [c]"
      by (simp add: lex_token_def ident_start_def lex_ident_or_keyword_def)
    with u show False by (simp add: word_token_def split: if_splits)
  qed
  show d: "\<not> is_ascii_digit c"
  proof
    assume "is_ascii_digit c"
    then have "fst (lex_token c []) = fst (lex_number_literal c [])"
      using i by (simp add: lex_token_def ident_start_def)
    with u show False by (simp add: lex_number_literal_def split: prod.splits if_splits)
  qed
  show "c \<noteq> DQ" and "c \<noteq> SQ"
    using u lex_string_kind by (auto simp: lex_token_def lex_char_classes)
  show "c \<noteq> CHR ''.''"
    using u by (auto simp: lex_token_def lex_operator_or_punct_def lex_char_classes)
  show "fst (lex_operator_or_punct c []) = Unknown c"
    using u i d \<open>c \<noteq> DQ\<close> \<open>c \<noteq> SQ\<close> \<open>c \<noteq> CHR ''.''\<close> by (simp add: lex_token_def ident_start_def)
qed

lemma lex_token_text:
  assumes "token_ok t" "at_gap r"
  obtains c cs where "token_text t = c # cs" "\<not> is_whitespace c" "lex_token c (cs @ r) = (t, r)"
proof (cases "fixed_token t")
  case True
  show thesis by (rule lex_fixed [OF True assms(2)]) (rule that)
next
  case False
  then consider (Ident) w where "t = Ident w" | (Number) n where "t = Number n"
    | (StringLit) lit where "t = StringLit lit" | (Unknown) c where "t = Unknown c"
    by (cases t) auto
  then show thesis
proof cases
  case (Ident w)
  then obtain c cs where w: "w = c # cs" "ident_start c" "list_all ident_part cs"
      and id: "word_token w = Ident w"
    using assms(1) by (cases w) (auto simp: ident_text_def)
  have "lex_token c (cs @ r) = (Ident w, r)"
    using w id lex_word_stop [of cs r "[c]"] assms(2)
    by (simp add: lex_token_def ident_start_def lex_ident_or_keyword_def)
  then show thesis using that Ident w ident_start_not_space by simp
next
  case (Number n)
  then obtain c cs where n: "n = c # cs" using assms(1)
    by (cases n) (auto simp: number_text_def)
  with Number assms have l: "lex_number_literal c (cs @ r) = (Number n, r)" and d: "is_ascii_digit c"
    using lex_number_read by auto
  then have "lex_token c (cs @ r) = (Number n, r)"
    using digit_not_special [OF d] by (simp add: lex_token_def)
  then show thesis using that Number n digit_not_special [OF d] by simp
next
  case (StringLit lit)
  have "lex_token DQ (quote_lit lit @ DQ # r) = lex_string_literal DQ (quote_lit lit @ DQ # r)"
    by (simp add: lex_token_def lex_char_classes)
  then have "lex_token DQ ((quote_lit lit @ [DQ]) @ r) = (StringLit lit, r)"
    by (simp add: lex_string_literal_def lex_string_body_quote)
  then show thesis using that StringLit by (simp add: is_whitespace_def code_def)
next
  case (Unknown c)
  note u = unknown_char_op [of c]
  have "lex_token c r = (Unknown c, r)"
    using assms Unknown u unknown_gap [of c r]
    by (auto simp: lex_token_def ident_start_def)
  then show thesis using that Unknown assms u(1) by simp
qed
qed

lemma tokenize_spell:
  "list_all token_ok ts \<Longrightarrow> tokenize_sysml_expr (spell ts) = ts"
proof (induction ts rule: induct_list012)
  case (2 t)
  then obtain c cs where "token_text t = c # cs" "\<not> is_whitespace c" "lex_token c (cs @ []) = (t, [])"
    using lex_token_text [of t "[]"] by auto
  then show ?case by (simp add: spell_def tokenize_simps)
next
  case (3 t t' ts)
  let ?r = "CHR '' '' # spell (t' # ts)"
  obtain c cs where c: "token_text t = c # cs" "\<not> is_whitespace c" "lex_token c (cs @ ?r) = (t, ?r)"
    using 3 lex_token_text [of t ?r] by auto
  have "spell (t # t' # ts) = c # cs @ ?r" by (simp add: spell_def c)
  then have "tokenize_sysml_expr (spell (t # t' # ts)) = t # tokenize_sysml_expr ?r"
    using c by (simp add: tokenize_simps)
  also have "tokenize_sysml_expr ?r = tokenize_sysml_expr (spell (t' # ts))"
    by (simp add: tokenize_simps is_whitespace_def code_def)
  finally show ?case using 3 by simp
qed (simp add: spell_def tokenize_simps)

end
