(* ===== verification/Expr_Parser.thy ===== *)
theory Expr_Parser
  imports Expr_Lexer "HOL-Library.Monad_Syntax"
begin

text \<open>
  \<^verbatim>\<open>expr_lowering_parser.rs\<close>: the precedence-climbing parser. A call of the source's parser
  reads \<^verbatim>\<open>self.tokens[self.pos..]\<close> and advances \<^verbatim>\<open>self.pos\<close>; here it takes the remaining
  tokens and returns the tree with the tokens left, or \<open>None\<close> where the source returns
  \<^verbatim>\<open>None\<close> (the position is never read again after that). The \<^verbatim>\<open>while\<close> loops of the source are
  the functions \<open>parse_binary_loop\<close>, \<open>parse_postfix_loop\<close> and \<open>parse_list_tail\<close>.
\<close>

type_synonym 'a parsed = "('a \<times> SysmlToken list) option"

text \<open>The prefix operators and the binding power their operand is parsed with.\<close>

fun prefix_operator :: "SysmlToken \<Rightarrow> (SysmlUnaryOp \<times> nat) option" where
  "prefix_operator KeywordNot = Some (UnNot, 50)"
| "prefix_operator Bang = Some (UnNot, 90)"
| "prefix_operator Tilde = Some (UnNot, 90)"
| "prefix_operator Plus = Some (UnPlus, 90)"
| "prefix_operator Minus = Some (UnMinus, 90)"
| "prefix_operator _ = None"

fun primary_leaf :: "SysmlToken \<Rightarrow> SysmlExprAst option" where
  "primary_leaf (Ident name) = Some (AIdent name)"
| "primary_leaf (Number num) = Some (ANumber num)"
| "primary_leaf (StringLit lit) = Some (AStringLit lit)"
| "primary_leaf _ = None"

text \<open>
  The two ways a token is demanded: \<^verbatim>\<open>matches!(self.next_token(), Some(t))\<close> and
  \<^verbatim>\<open>let Some(SysmlToken::Ident(field)) = self.next_token() else { return None }\<close>.
\<close>

definition expect_token :: "SysmlToken \<Rightarrow> SysmlToken list \<Rightarrow> SysmlToken list option" where
  "expect_token t ts = (if ts \<noteq> [] \<and> hd ts = t then Some (tl ts) else None)"

fun ident_name :: "SysmlToken \<Rightarrow> string option" where
  "ident_name (Ident name) = Some name"
| "ident_name _ = None"

definition expect_ident :: "SysmlToken list \<Rightarrow> string parsed" where
  "expect_ident ts =
     (case ts of [] \<Rightarrow> None | t # r \<Rightarrow> map_option (\<lambda>name. (name, r)) (ident_name t))"

lemma expect_token_Some [simp]: "expect_token t ts = Some r \<longleftrightarrow> ts = t # r"
  by (cases ts) (auto simp: expect_token_def)

lemma ident_name_Some [simp]: "ident_name t = Some name \<longleftrightarrow> t = Ident name"
  by (cases t) auto

lemma expect_ident_Some [simp]: "expect_ident ts = Some (name, r) \<longleftrightarrow> ts = Ident name # r"
  by (cases ts) (auto simp: expect_ident_def)

function (sequential)
  parse_expr :: "nat \<Rightarrow> nat \<Rightarrow> SysmlToken list \<Rightarrow> SysmlExprAst parsed"
  and parse_prefix :: "nat \<Rightarrow> SysmlToken list \<Rightarrow> SysmlExprAst parsed"
  and parse_binary_loop ::
    "SysmlExprAst \<Rightarrow> nat \<Rightarrow> nat \<Rightarrow> SysmlToken list \<Rightarrow> SysmlExprAst parsed"
  and parse_postfix_primary :: "nat \<Rightarrow> SysmlToken list \<Rightarrow> SysmlExprAst parsed"
  and parse_postfix_loop :: "SysmlExprAst \<Rightarrow> nat \<Rightarrow> SysmlToken list \<Rightarrow> SysmlExprAst parsed"
  and parse_delimited_list ::
    "SysmlToken \<Rightarrow> bool \<Rightarrow> nat \<Rightarrow> SysmlToken list \<Rightarrow> SysmlExprAst list parsed"
  and parse_list_tail ::
    "SysmlToken \<Rightarrow> SysmlExprAst list \<Rightarrow> nat \<Rightarrow> SysmlToken list \<Rightarrow> SysmlExprAst list parsed"
where
  "parse_expr min_prec depth ts =
     (if MAX_EXPR_DEPTH < depth then None
      else do {
        (lhs, r) \<leftarrow> parse_prefix depth ts;
        parse_binary_loop lhs min_prec depth r
      })"
| "parse_prefix depth ts =
     (case ts of
        [] \<Rightarrow> parse_postfix_primary depth ts
      | t # r \<Rightarrow>
          (case prefix_operator t of
             None \<Rightarrow> parse_postfix_primary depth ts
           | Some (unop, bp) \<Rightarrow> do {
               (operand, r') \<leftarrow> parse_expr bp (Suc depth) r;
               Some (AUnary unop operand, r')
             }))"
| "parse_binary_loop lhs min_prec depth ts =
     (case ts of
        [] \<Rightarrow> Some (lhs, ts)
      | t # r \<Rightarrow>
          (case binary_binding_power t of
             None \<Rightarrow> Some (lhs, ts)
           | Some (binop, lbp, rbp) \<Rightarrow>
               (if lbp < min_prec then Some (lhs, ts)
                else do {
                  (rhs, r') \<leftarrow> parse_expr rbp (Suc depth) r;
                  parse_binary_loop (ABinary binop lhs rhs) min_prec depth r'
                })))"
| "parse_postfix_primary depth ts =
     (if MAX_EXPR_DEPTH < depth then None
      else (case ts of
        [] \<Rightarrow> None
      | t # r \<Rightarrow>
          (if t = LParen then do {
             (inner, r') \<leftarrow> parse_expr 0 (Suc depth) r;
             r'' \<leftarrow> expect_token RParen r';
             parse_postfix_loop (AParen inner) depth r''
           }
           else do {
             node \<leftarrow> primary_leaf t;
             parse_postfix_loop node depth r
           })))"
| "parse_postfix_loop node depth ts =
     (case ts of
        [] \<Rightarrow> Some (node, ts)
      | t # r \<Rightarrow>
          (if t = LParen then do {
             (args, r') \<leftarrow> parse_delimited_list RParen True depth r;
             parse_postfix_loop (ACall node args) depth r'
           }
           else if t = Dot then do {
             (fld, r') \<leftarrow> expect_ident r;
             parse_postfix_loop (AField node fld) depth r'
           }
           else if t = LBracket then do {
             (indices, r') \<leftarrow> parse_delimited_list RBracket False depth r;
             parse_postfix_loop (AIndex node indices) depth r'
           }
           else Some (node, ts)))"
| "parse_delimited_list closing allow_empty depth ts =
     (if allow_empty \<and> ts \<noteq> [] \<and> hd ts = closing then Some ([], tl ts)
      else do {
        (item, r) \<leftarrow> parse_expr 0 (Suc depth) ts;
        parse_list_tail closing [item] depth r
      })"
| "parse_list_tail closing items depth ts =
     (case ts of
        [] \<Rightarrow> None
      | t # r \<Rightarrow>
          (if t = Comma then do {
             (item, r') \<leftarrow> parse_expr 0 (Suc depth) r;
             parse_list_tail closing (items @ [item]) depth r'
           }
           else if t = closing then Some (items, r)
           else None))"
  by pat_completeness auto


text \<open>
  Every parse function takes tokens: what it leaves is shorter than what it got. This is proved on
  the domain of the recursion first, because the recursive calls run on what other calls leave.
\<close>

lemmas parser_psimps =
  parse_expr.psimps parse_prefix.psimps parse_binary_loop.psimps parse_postfix_primary.psimps
  parse_postfix_loop.psimps parse_delimited_list.psimps parse_list_tail.psimps

lemma parser_consumes_dom:
  "parse_expr_parse_prefix_parse_binary_loop_parse_postfix_primary_parse_postfix_loop_parse_delimited_list_parse_list_tail_dom
     (Inl (Inl (m, d, ts))) \<Longrightarrow>
   parse_expr m d ts = Some (x, r) \<Longrightarrow> length r < length ts"
  "parse_expr_parse_prefix_parse_binary_loop_parse_postfix_primary_parse_postfix_loop_parse_delimited_list_parse_list_tail_dom
     (Inl (Inr (Inl (d, ts)))) \<Longrightarrow>
   parse_prefix d ts = Some (x, r) \<Longrightarrow> length r < length ts"
  "parse_expr_parse_prefix_parse_binary_loop_parse_postfix_primary_parse_postfix_loop_parse_delimited_list_parse_list_tail_dom
     (Inl (Inr (Inr (l, m, d, ts)))) \<Longrightarrow>
   parse_binary_loop l m d ts = Some (x, r) \<Longrightarrow> length r \<le> length ts"
  "parse_expr_parse_prefix_parse_binary_loop_parse_postfix_primary_parse_postfix_loop_parse_delimited_list_parse_list_tail_dom
     (Inr (Inl (Inl (d, ts)))) \<Longrightarrow>
   parse_postfix_primary d ts = Some (x, r) \<Longrightarrow> length r < length ts"
  "parse_expr_parse_prefix_parse_binary_loop_parse_postfix_primary_parse_postfix_loop_parse_delimited_list_parse_list_tail_dom
     (Inr (Inl (Inr (n, d, ts)))) \<Longrightarrow>
   parse_postfix_loop n d ts = Some (x, r) \<Longrightarrow> length r \<le> length ts"
  "parse_expr_parse_prefix_parse_binary_loop_parse_postfix_primary_parse_postfix_loop_parse_delimited_list_parse_list_tail_dom
     (Inr (Inr (Inl (cl, ae, d, ts)))) \<Longrightarrow>
   parse_delimited_list cl ae d ts = Some (xs, r) \<Longrightarrow> length r < length ts"
  "parse_expr_parse_prefix_parse_binary_loop_parse_postfix_primary_parse_postfix_loop_parse_delimited_list_parse_list_tail_dom
     (Inr (Inr (Inr (cl, its, d, ts)))) \<Longrightarrow>
   parse_list_tail cl its d ts = Some (xs, r) \<Longrightarrow> length r < length ts"
proof (induction m d ts and d ts and l m d ts and d ts and n d ts and cl ae d ts and cl its d ts
    arbitrary: x r and x r and x r and x r and x r and xs r and xs r
    rule: parse_expr_parse_prefix_parse_binary_loop_parse_postfix_primary_parse_postfix_loop_parse_delimited_list_parse_list_tail.pinduct)
  case (1 m d ts)
  show ?case using 1(1,4) 1(2,3)
    by (auto simp: parser_psimps bind_eq_Some_conv split: if_splits) (metis less_le_trans le_less_trans)
next
  case (2 d ts)
  show ?case using 2(1,5) 2(2-4)
    by (fastforce simp: parser_psimps bind_eq_Some_conv split: list.splits option.splits)
next
  case (3 l m d ts)
  show ?case using 3(1,4) 3(2,3)
    by (fastforce simp: parser_psimps bind_eq_Some_conv split: list.splits option.splits if_splits)
next
  case (4 d ts)
  show ?case using 4(1,5) 4(2-4)
    by (fastforce simp: parser_psimps bind_eq_Some_conv split: list.splits if_splits)
next
  case (5 n d ts)
  show ?case using 5(1,7) 5(2-6)
    by (fastforce simp: parser_psimps bind_eq_Some_conv split: list.splits if_splits)
next
  case (6 cl ae d ts)
  show ?case using 6(1,4) 6(2,3)
    by (cases ts) (fastforce simp: parser_psimps bind_eq_Some_conv split: if_splits)+
next
  case (7 cl its d ts)
  show ?case using 7(1,4) 7(2,3)
    by (fastforce simp: parser_psimps bind_eq_Some_conv split: list.splits if_splits)
qed


fun parser_measure where
  "parser_measure (Inl (Inl (m, d, ts))) = 4 * length ts + 2"
| "parser_measure (Inl (Inr (Inl (d, ts)))) = 4 * length ts + 1"
| "parser_measure (Inl (Inr (Inr (l, m, d, ts)))) = 4 * length ts"
| "parser_measure (Inr (Inl (Inl (d, ts)))) = 4 * length ts"
| "parser_measure (Inr (Inl (Inr (n, d, ts)))) = 4 * length ts"
| "parser_measure (Inr (Inr (Inl (c, b, d, ts)))) = 4 * length ts + 3"
| "parser_measure (Inr (Inr (Inr (c, i, d, ts)))) = 4 * length ts"

termination parse_expr
  by (relation "measure parser_measure") (auto dest: parser_consumes_dom)

declare parse_expr.simps [simp del] parse_prefix.simps [simp del] parse_binary_loop.simps [simp del]
  parse_postfix_primary.simps [simp del] parse_postfix_loop.simps [simp del]
  parse_delimited_list.simps [simp del] parse_list_tail.simps [simp del]

definition parse_sysml_expr :: "SysmlToken list \<Rightarrow> SysmlExprAst option" where
  "parse_sysml_expr tokens =
     (if tokens = [] then None
      else do {
        (ast, rest) \<leftarrow> parse_expr 0 0 tokens;
        (if rest = [] then Some ast else None)
      })"


end
