(* ===== verification/Expr_Grammar.thy ===== *)
theory Expr_Grammar
  imports Expr_Parser
begin

text \<open>
  What the parser of \<open>Expr_Parser\<close> promises: the tree it returns spells exactly the tokens it
  read (its fringe), its shape respects the binding powers, and its nesting is within the depth
  limit.
\<close>

section \<open>The specification\<close>

text \<open>The three spellings of negation give the same node, so they count as one.\<close>

fun norm_token :: "SysmlToken \<Rightarrow> SysmlToken" where
  "norm_token Bang = KeywordNot"
| "norm_token Tilde = KeywordNot"
| "norm_token t = t"

fun unop_token :: "SysmlUnaryOp \<Rightarrow> SysmlToken" where
  "unop_token UnNot = KeywordNot"
| "unop_token UnPlus = Plus"
| "unop_token UnMinus = Minus"

fun commas :: "SysmlToken list list \<Rightarrow> SysmlToken list" where
  "commas [] = []"
| "commas [x] = x"
| "commas (x # y # ys) = x @ Comma # commas (y # ys)"

fun fringe :: "SysmlExprAst \<Rightarrow> SysmlToken list" where
  "fringe (AIdent name) = [Ident name]"
| "fringe (ANumber num) = [Number num]"
| "fringe (AStringLit lit) = [StringLit lit]"
| "fringe (AParen a) = LParen # fringe a @ [RParen]"
| "fringe (AUnary u a) = unop_token u # fringe a"
| "fringe (ABinary b l r) = fringe l @ op_token b # fringe r"
| "fringe (ACall c args) = fringe c @ LParen # commas (map fringe args) @ [RParen]"
| "fringe (AField b fld) = fringe b @ [Dot, Ident fld]"
| "fringe (AIndex b is) = fringe b @ LBracket # commas (map fringe is) @ [RBracket]"

fun top_op :: "SysmlExprAst \<Rightarrow> SysmlBinOp option" where
  "top_op (ABinary b _ _) = Some b"
| "top_op _ = None"

definition top_at_least :: "nat \<Rightarrow> SysmlExprAst \<Rightarrow> bool" where
  "top_at_least m a = (case top_op a of None \<Rightarrow> True | Some b \<Rightarrow> m \<le> left_power b)"

text \<open>A left operand was closed before the operator: its own right power is above.\<close>

definition closed_before :: "nat \<Rightarrow> SysmlExprAst \<Rightarrow> bool" where
  "closed_before p a = (case top_op a of None \<Rightarrow> True | Some b \<Rightarrow> p < right_power b)"

fun unop_power :: "SysmlUnaryOp \<Rightarrow> nat" where
  "unop_power UnNot = 50"
| "unop_power UnPlus = 90"
| "unop_power UnMinus = 90"

definition postfix_base :: "SysmlExprAst \<Rightarrow> bool" where
  "postfix_base a \<longleftrightarrow> \<not> is_binary_sysml_expr a \<and> \<not> is_unary_expr a"

fun prec_ok :: "SysmlExprAst \<Rightarrow> bool" where
  "prec_ok (AParen a) = prec_ok a"
| "prec_ok (AUnary u a) = (prec_ok a \<and> top_at_least (unop_power u) a)"
| "prec_ok (ABinary b l r) =
     (prec_ok l \<and> prec_ok r \<and> closed_before (left_power b) l \<and> top_at_least (right_power b) r)"
| "prec_ok (ACall c args) = (prec_ok c \<and> postfix_base c \<and> list_all prec_ok args)"
| "prec_ok (AField b fld) = (prec_ok b \<and> postfix_base b)"
| "prec_ok (AIndex b is) = (prec_ok b \<and> postfix_base b \<and> list_all prec_ok is)"
| "prec_ok _ = True"

text \<open>
  The nesting of a tree along the parser's own recursion: an operand of a prefix operator, a right
  operand and the contents of brackets are one level deeper; left operands and the base of a
  postfix chain are read by loops, at the same level.
\<close>

fun nesting :: "SysmlExprAst \<Rightarrow> nat" where
  "nesting (AParen a) = Suc (nesting a)"
| "nesting (AUnary u a) = Suc (nesting a)"
| "nesting (ABinary b l r) = max (nesting l) (Suc (nesting r))"
| "nesting (ACall c args) = foldr (\<lambda>x m. max (Suc (nesting x)) m) args (nesting c)"
| "nesting (AField b fld) = nesting b"
| "nesting (AIndex b is) = foldr (\<lambda>x m. max (Suc (nesting x)) m) is (nesting b)"
| "nesting _ = 0"

section \<open>The grammar as inference rules\<close>

text \<open>
  The runs of the parser as a relation: one rule per way a call can succeed. \<open>m\<close> is the least
  binding power accepted, \<open>d\<close> the depth.
\<close>

inductive
  expr_run :: "nat \<Rightarrow> nat \<Rightarrow> SysmlToken list \<Rightarrow> SysmlExprAst \<Rightarrow> SysmlToken list \<Rightarrow> bool"
  and prefix_run :: "nat \<Rightarrow> SysmlToken list \<Rightarrow> SysmlExprAst \<Rightarrow> SysmlToken list \<Rightarrow> bool"
  and binary_run ::
    "SysmlExprAst \<Rightarrow> nat \<Rightarrow> nat \<Rightarrow> SysmlToken list \<Rightarrow> SysmlExprAst \<Rightarrow> SysmlToken list \<Rightarrow> bool"
  and primary_run :: "nat \<Rightarrow> SysmlToken list \<Rightarrow> SysmlExprAst \<Rightarrow> SysmlToken list \<Rightarrow> bool"
  and postfix_run ::
    "SysmlExprAst \<Rightarrow> nat \<Rightarrow> SysmlToken list \<Rightarrow> SysmlExprAst \<Rightarrow> SysmlToken list \<Rightarrow> bool"
  and list_run ::
    "SysmlToken \<Rightarrow> bool \<Rightarrow> nat \<Rightarrow> SysmlToken list \<Rightarrow> SysmlExprAst list \<Rightarrow> SysmlToken list \<Rightarrow> bool"
  and tail_run ::
    "SysmlToken \<Rightarrow> SysmlExprAst list \<Rightarrow> nat \<Rightarrow> SysmlToken list \<Rightarrow> SysmlExprAst list
      \<Rightarrow> SysmlToken list \<Rightarrow> bool"
where
  expr: "d \<le> MAX_EXPR_DEPTH \<Longrightarrow> prefix_run d ts lhs r' \<Longrightarrow> binary_run lhs m d r' a r \<Longrightarrow>
     expr_run m d ts a r"
| prefix_unary: "prefix_operator t = Some (u, bp) \<Longrightarrow> expr_run bp (Suc d) r' x r \<Longrightarrow>
     prefix_run d (t # r') (AUnary u x) r"
| prefix_primary: "(\<And>t r'. ts = t # r' \<Longrightarrow> prefix_operator t = None) \<Longrightarrow> primary_run d ts a r \<Longrightarrow>
     prefix_run d ts a r"
| binary_stop: "(\<And>b r'. ts = op_token b # r' \<Longrightarrow> left_power b < m) \<Longrightarrow> binary_run l m d ts l ts"
| binary_step: "m \<le> left_power b \<Longrightarrow> expr_run (right_power b) (Suc d) r' rhs r'' \<Longrightarrow>
     binary_run (ABinary b l rhs) m d r'' a r \<Longrightarrow> binary_run l m d (op_token b # r') a r"
| primary_paren: "d \<le> MAX_EXPR_DEPTH \<Longrightarrow> expr_run 0 (Suc d) r' x (RParen # r'') \<Longrightarrow>
     postfix_run (AParen x) d r'' a r \<Longrightarrow> primary_run d (LParen # r') a r"
| primary_leaf: "d \<le> MAX_EXPR_DEPTH \<Longrightarrow> primary_leaf t = Some n \<Longrightarrow> postfix_run n d r' a r \<Longrightarrow>
     primary_run d (t # r') a r"
| postfix_stop: "(\<And>t r'. ts = t # r' \<Longrightarrow> t \<noteq> LParen \<and> t \<noteq> Dot \<and> t \<noteq> LBracket) \<Longrightarrow>
     postfix_run n d ts n ts"
| postfix_call: "list_run RParen True d r' xs r'' \<Longrightarrow> postfix_run (ACall n xs) d r'' a r \<Longrightarrow>
     postfix_run n d (LParen # r') a r"
| postfix_field: "postfix_run (AField n fld) d r' a r \<Longrightarrow>
     postfix_run n d (Dot # Ident fld # r') a r"
| postfix_index: "list_run RBracket False d r' xs r'' \<Longrightarrow> postfix_run (AIndex n xs) d r'' a r \<Longrightarrow>
     postfix_run n d (LBracket # r') a r"
| list_empty: "list_run cl True d (cl # r) [] r"
| list_items: "\<not> (ae \<and> ts \<noteq> [] \<and> hd ts = cl) \<Longrightarrow> expr_run 0 (Suc d) ts x r' \<Longrightarrow>
     tail_run cl [x] d r' xs r \<Longrightarrow> list_run cl ae d ts xs r"
| tail_item: "expr_run 0 (Suc d) r' x r'' \<Longrightarrow> tail_run cl (its @ [x]) d r'' xs r \<Longrightarrow>
     tail_run cl its d (Comma # r') xs r"
| tail_close: "cl \<noteq> Comma \<Longrightarrow> tail_run cl its d (cl # r) its r"

lemmas run_induct = expr_run_prefix_run_binary_run_primary_run_postfix_run_list_run_tail_run.inducts
lemmas run_intros = expr prefix_unary prefix_primary binary_stop binary_step primary_paren
  primary_leaf postfix_stop postfix_call postfix_field postfix_index list_empty list_items
  tail_item tail_close

lemmas parser_induct =
  parse_expr_parse_prefix_parse_binary_loop_parse_postfix_primary_parse_postfix_loop_parse_delimited_list_parse_list_tail.induct

text \<open>Every successful call of a parse function is a run.\<close>

lemma parser_runs:
  "parse_expr m d ts = Some (a, r) \<Longrightarrow> expr_run m d ts a r"
  "parse_prefix d ts = Some (a, r) \<Longrightarrow> prefix_run d ts a r"
  "parse_binary_loop l m d ts = Some (a, r) \<Longrightarrow> binary_run l m d ts a r"
  "parse_postfix_primary d ts = Some (a, r) \<Longrightarrow> primary_run d ts a r"
  "parse_postfix_loop n d ts = Some (a, r) \<Longrightarrow> postfix_run n d ts a r"
  "parse_delimited_list cl ae d ts = Some (xs, r) \<Longrightarrow> list_run cl ae d ts xs r"
  "parse_list_tail cl its d ts = Some (xs, r) \<Longrightarrow> tail_run cl its d ts xs r"
proof (induction m d ts and d ts and l m d ts and d ts and n d ts and cl ae d ts and cl its d ts
    arbitrary: a r and a r and a r and a r and a r and xs r and xs r rule: parser_induct)
  case (1 m d ts)
  show ?case using 1(3) 1(1,2)
    by (auto simp: parse_expr.simps bind_eq_Some_conv not_less split: if_splits intro: run_intros)
next
  case (2 d ts)
  show ?case
  proof (cases ts)
    case Nil
    then show ?thesis using 2(4) 2(1) by (auto simp: parse_prefix.simps intro: run_intros)
  next
    case (Cons t r')
    show ?thesis
    proof (cases "prefix_operator t")
      case None
      then show ?thesis using Cons 2(4) 2(2)
        by (auto simp: parse_prefix.simps intro: prefix_primary)
    next
      case (Some ub)
      then show ?thesis using Cons 2(4) 2(3)
        by (cases ub) (auto simp: parse_prefix.simps bind_eq_Some_conv intro!: prefix_unary)
    qed
  qed
next
  case (3 l m d ts)
  show ?case
  proof (cases ts)
    case Nil
    then show ?thesis using 3(3) by (auto simp: parse_binary_loop.simps intro: run_intros)
  next
    case (Cons t r')
    show ?thesis
    proof (cases "\<exists>b. t = op_token b \<and> m \<le> left_power b")
      case True
      then obtain b where t: "t = op_token b" and m: "m \<le> left_power b" by blast
      from 3(3) obtain rhs r'' where "parse_expr (right_power b) (Suc d) r' = Some (rhs, r'')"
          and "parse_binary_loop (ABinary b l rhs) m d r'' = Some (a, r)"
        using m unfolding Cons t parse_binary_loop.simps [of l m d "op_token b # r'"]
        by (auto simp: bind_eq_Some_conv)
      moreover from this have "expr_run (right_power b) (Suc d) r' rhs r''"
        using 3(1) Cons t m by simp
      ultimately show ?thesis using 3(2) Cons t m by (auto intro: binary_step)
    next
      case False
      then have "a = l \<and> r = ts" using 3(3) unfolding Cons parse_binary_loop.simps [of l m d "t # r'"]
        by (auto simp: binding_power_op_token split: option.splits if_splits)
      with False Cons show ?thesis by (auto simp: not_le intro: binary_stop)
    qed
  qed
next
  case (4 d ts)
  show ?case
  proof (cases ts)
    case Nil
    then show ?thesis using 4(4) by (auto simp: parse_postfix_primary.simps split: if_splits)
  next
    case (Cons t r')
    show ?thesis
    proof (cases "t = LParen")
      case True
      then show ?thesis using Cons 4(4) 4(1,2)
        by (auto simp: parse_postfix_primary.simps bind_eq_Some_conv not_less split: if_splits
            intro!: primary_paren)
    next
      case False
      then show ?thesis using Cons 4(4) 4(3)
        by (auto simp: parse_postfix_primary.simps bind_eq_Some_conv not_less split: if_splits
            intro!: primary_leaf)
    qed
  qed
next
  case (5 n d ts)
  show ?case
  proof (cases ts)
    case Nil
    then show ?thesis using 5(6) by (auto simp: parse_postfix_loop.simps intro: run_intros)
  next
    case (Cons t r')
    note run = 5(6) [unfolded Cons parse_postfix_loop.simps [of n d "t # r'"]]
    consider "t = LParen" | "t = Dot" | "t = LBracket"
      | "t \<noteq> LParen \<and> t \<noteq> Dot \<and> t \<noteq> LBracket" by blast
    then show ?thesis
    proof cases
      case 1
      with run 5(1,2) Cons show ?thesis by (auto simp: bind_eq_Some_conv intro!: postfix_call)
    next
      case 2
      with run 5(3) Cons show ?thesis by (auto simp: bind_eq_Some_conv intro!: postfix_field)
    next
      case 3
      with run 5(4,5) Cons show ?thesis by (auto simp: bind_eq_Some_conv intro!: postfix_index)
    next
      case 4
      with run Cons show ?thesis by (auto intro!: postfix_stop)
    qed
  qed
next
  case (6 cl ae d ts)
  show ?case using 6(3) 6(1,2)
    by (cases ts) (auto simp: parse_delimited_list.simps bind_eq_Some_conv split: if_splits intro: run_intros)
next
  case (7 cl its d ts)
  show ?case
  proof (cases ts)
    case Nil
    then show ?thesis using 7(3) by (auto simp: parse_list_tail.simps)
  next
    case (Cons t r')
    note run = 7(3) [unfolded Cons parse_list_tail.simps [of cl its d "t # r'"]]
    show ?thesis
    proof (cases "t = Comma")
      case True
      with run 7(1,2) Cons show ?thesis by (auto simp: bind_eq_Some_conv intro!: tail_item)
    next
      case False
      with run Cons show ?thesis by (auto split: if_splits intro!: tail_close)
    qed
  qed
qed

text \<open>And every run is what the functions compute.\<close>

lemma runs_parser:
  "expr_run m d ts a r \<Longrightarrow> parse_expr m d ts = Some (a, r)"
  "prefix_run d ts a r \<Longrightarrow> parse_prefix d ts = Some (a, r)"
  "binary_run l m d ts a r \<Longrightarrow> parse_binary_loop l m d ts = Some (a, r)"
  "primary_run d ts a r \<Longrightarrow> parse_postfix_primary d ts = Some (a, r)"
  "postfix_run n d ts a r \<Longrightarrow> parse_postfix_loop n d ts = Some (a, r)"
  "list_run cl ae d ts xs r \<Longrightarrow> parse_delimited_list cl ae d ts = Some (xs, r)"
  "tail_run cl its d ts xs r \<Longrightarrow> parse_list_tail cl its d ts = Some (xs, r)"
proof (induction rule: run_induct)
  case (prefix_primary ts d a r)
  then show ?case by (cases ts) (auto simp: parse_prefix.simps)
next
  case (binary_stop ts m l d)
  show ?case
  proof (cases ts)
    case (Cons t r')
    show ?thesis using binary_stop unfolding Cons parse_binary_loop.simps [of l m d "t # r'"]
      by (auto simp: binding_power_op_token split: option.splits)
  qed (simp add: parse_binary_loop.simps)
next
  case (binary_step m b d r' rhs r'' l a r)
  then show ?case by (simp add: parse_binary_loop.simps [of l m d "op_token b # r'"])
next
  case (primary_leaf d t n r' a r)
  then show ?case by (cases t) (auto simp: parse_postfix_primary.simps)
next
  case (postfix_stop ts n d)
  then show ?case unfolding parse_postfix_loop.simps [of n d ts] by (cases ts) auto
next
  case (postfix_call d r' xs r'' n a r)
  then show ?case by (simp add: parse_postfix_loop.simps [of n d "LParen # r'"])
next
  case (postfix_field n fld d r' a r)
  then show ?case
    by (simp add: parse_postfix_loop.simps [of n d "Dot # Ident fld # r'"] expect_ident_def)
next
  case (postfix_index d r' xs r'' n a r)
  then show ?case by (simp add: parse_postfix_loop.simps [of n d "LBracket # r'"])
next
  case (tail_item d r' x r'' cl its xs r)
  then show ?case by (simp add: parse_list_tail.simps [of cl its d "Comma # r'"])
next
  case (tail_close cl its d r)
  then show ?case by (simp add: parse_list_tail.simps [of cl its d "cl # r"])
next
  case (list_items ae ts cl d x r' xs r)
  then show ?case by (auto simp add: parse_delimited_list.simps [of cl ae d ts])
qed (auto simp: parse_expr.simps parse_prefix.simps parse_postfix_primary.simps
      parse_delimited_list.simps expect_token_def)

lemma commas_snoc: "xs \<noteq> [] \<Longrightarrow> commas (xs @ [x]) = commas xs @ Comma # x"
  by (induction xs rule: commas.induct) auto

lemma norm_op_token [simp]: "norm_token (op_token b) = op_token b"
  by (cases b) auto

lemma prefix_operator_Some:
  "prefix_operator t = Some (u, bp) \<Longrightarrow> norm_token t = unop_token u \<and> unop_power u \<le> bp"
  by (cases t) auto

lemma primary_leaf_Some:
  "primary_leaf t = Some n \<Longrightarrow> fringe n = [norm_token t] \<and> prec_ok n \<and> postfix_base n \<and> nesting n = 0"
  by (cases t) (auto simp: postfix_base_def)

section \<open>The fringe\<close>

lemma run_fringe:
  "expr_run m d ts a r \<Longrightarrow> map norm_token ts = fringe a @ map norm_token r"
  "prefix_run d ts a r \<Longrightarrow> map norm_token ts = fringe a @ map norm_token r"
  "binary_run l m d ts a r \<Longrightarrow> fringe l @ map norm_token ts = fringe a @ map norm_token r"
  "primary_run d ts a r \<Longrightarrow> map norm_token ts = fringe a @ map norm_token r"
  "postfix_run n d ts a r \<Longrightarrow> fringe n @ map norm_token ts = fringe a @ map norm_token r"
  "list_run cl ae d ts xs r \<Longrightarrow>
     map norm_token ts = commas (map fringe xs) @ norm_token cl # map norm_token r"
  "tail_run cl its d ts xs r \<Longrightarrow> its \<noteq> [] \<Longrightarrow>
     commas (map fringe its) @ map norm_token ts =
       commas (map fringe xs) @ norm_token cl # map norm_token r"
  by (induction rule: run_induct)
    (auto simp: commas_snoc dest: prefix_operator_Some primary_leaf_Some)


section \<open>Precedence\<close>

text \<open>No operator that binds at least as tightly as \<open>m\<close> is left unread.\<close>

definition stops_below :: "nat \<Rightarrow> SysmlToken list \<Rightarrow> bool" where
  "stops_below m ts \<longleftrightarrow> (\<forall>b r'. ts = op_token b # r' \<longrightarrow> left_power b < m)"

definition follow_ok :: "SysmlExprAst \<Rightarrow> SysmlToken list \<Rightarrow> bool" where
  "follow_ok l ts = (case top_op l of None \<Rightarrow> True | Some b \<Rightarrow> stops_below (right_power b) ts)"

lemmas precedence_defs =
  stops_below_def follow_ok_def top_at_least_def closed_before_def postfix_base_def

lemma postfix_base_top: "postfix_base a \<Longrightarrow> top_op a = None"
  by (cases a) (auto simp: postfix_base_def)

lemma unop_power_top: "prefix_operator t = Some (u, bp) \<Longrightarrow> top_at_least bp a \<Longrightarrow> top_at_least (unop_power u) a"
  by (auto simp: top_at_least_def dest: prefix_operator_Some split: option.splits)

lemma run_precedence:
  "expr_run m d ts a r \<Longrightarrow> prec_ok a \<and> top_at_least m a \<and> stops_below m r"
  "prefix_run d ts a r \<Longrightarrow> prec_ok a \<and> top_op a = None"
  "binary_run l m d ts a r \<Longrightarrow> prec_ok l \<Longrightarrow> top_at_least m l \<Longrightarrow> follow_ok l ts \<Longrightarrow>
     prec_ok a \<and> top_at_least m a \<and> stops_below m r"
  "primary_run d ts a r \<Longrightarrow> prec_ok a \<and> postfix_base a"
  "postfix_run n d ts a r \<Longrightarrow> prec_ok n \<Longrightarrow> postfix_base n \<Longrightarrow> prec_ok a \<and> postfix_base a"
  "list_run cl ae d ts xs r \<Longrightarrow> list_all prec_ok xs"
  "tail_run cl its d ts xs r \<Longrightarrow> list_all prec_ok its \<Longrightarrow> list_all prec_ok xs"
proof (induction rule: run_induct)
  case (expr d ts lhs r' m a r)
  then show ?case by (simp add: top_at_least_def follow_ok_def)
next
  case (prefix_unary t u bp d r' x r)
  then show ?case by (simp add: unop_power_top)
next
  case (prefix_primary ts d a r)
  then show ?case by (simp add: postfix_base_top)
next
  case (binary_stop ts m l d)
  then show ?case by (simp add: stops_below_def)
next
  case (binary_step m b d r' rhs r'' l a r)
  then show ?case
    by (simp add: precedence_defs split: option.splits)
next
  case (primary_leaf d t n r' a r)
  then show ?case by (auto dest: primary_leaf_Some)
qed (simp_all add: postfix_base_def)

section \<open>Nesting\<close>

lemma nesting_args:
  "foldr (\<lambda>x m. max (Suc (nesting x)) m) xs n \<le> k \<longleftrightarrow> n \<le> k \<and> (\<forall>x \<in> set xs. Suc (nesting x) \<le> k)"
  by (induction xs) auto

lemma run_nesting:
  "expr_run m d ts a r \<Longrightarrow> d + nesting a \<le> MAX_EXPR_DEPTH"
  "prefix_run d ts a r \<Longrightarrow> d + nesting a \<le> MAX_EXPR_DEPTH"
  "binary_run l m d ts a r \<Longrightarrow> d + nesting l \<le> MAX_EXPR_DEPTH \<Longrightarrow>
     d + nesting a \<le> MAX_EXPR_DEPTH"
  "primary_run d ts a r \<Longrightarrow> d + nesting a \<le> MAX_EXPR_DEPTH"
  "postfix_run n d ts a r \<Longrightarrow> d + nesting n \<le> MAX_EXPR_DEPTH \<Longrightarrow>
     d + nesting a \<le> MAX_EXPR_DEPTH"
  "list_run cl ae d ts xs r \<Longrightarrow> \<forall>x \<in> set xs. Suc (d + nesting x) \<le> MAX_EXPR_DEPTH"
  "tail_run cl its d ts xs r \<Longrightarrow> \<forall>x \<in> set its. Suc (d + nesting x) \<le> MAX_EXPR_DEPTH \<Longrightarrow>
     \<forall>x \<in> set xs. Suc (d + nesting x) \<le> MAX_EXPR_DEPTH"
proof (induction rule: run_induct)
  case (prefix_primary ts d a r)
  show ?case by (rule prefix_primary.IH)
next
  case (binary_stop ts m l d)
  show ?case by (rule binary_stop.prems)
next
  case (primary_leaf d t n r' a r)
  then show ?case by (auto dest: primary_leaf_Some)
next
  case (postfix_stop ts n d)
  show ?case by (rule postfix_stop.prems)
next
  case (postfix_call d r' xs r'' n a r)
  have "nesting (ACall n xs) \<le> MAX_EXPR_DEPTH - d"
    using postfix_call by (auto simp: nesting_args)
  with postfix_call show ?case by simp
next
  case (postfix_index d r' xs r'' n a r)
  have "nesting (AIndex n xs) \<le> MAX_EXPR_DEPTH - d"
    using postfix_index by (auto simp: nesting_args)
  with postfix_index show ?case by simp
next
  case (list_items ae ts cl d x r' xs r)
  show ?case by (rule list_items.IH(2)) (use list_items.IH(1) in simp)
next
  case (tail_item d r' x r'' cl its xs r)
  show ?case by (rule tail_item.IH(2)) (use tail_item.IH(1) tail_item.prems in auto)
next
  case (tail_close cl its d r)
  show ?case by (rule tail_close.prems)
qed simp_all

text \<open>Brackets nested deeper than the limit are refused, whatever follows them.\<close>

lemma parse_prefix_LParen: "parse_prefix d (LParen # ts) = parse_postfix_primary d (LParen # ts)"
  by (simp add: parse_prefix.simps)

lemma parse_expr_deep_parens:
  "MAX_EXPR_DEPTH < d + n \<Longrightarrow> parse_expr m d (replicate n LParen @ ts) = None"
proof (induction n arbitrary: m d)
  case 0
  then show ?case by (simp add: parse_expr.simps)
next
  case (Suc n)
  then have "parse_expr 0 (Suc d) (replicate n LParen @ ts) = None" by simp
  then show ?case
    by (simp add: parse_expr.simps [of m d] parse_prefix_LParen parse_postfix_primary.simps)
qed

end
