(* ===== verification/Expr_Roundtrip.thy ===== *)
theory Expr_Roundtrip
  imports Expr_Grammar
begin

text \<open>
  Printing a tree back to tokens and parsing it again. A tree is canonical when its shape can be
  written without more parentheses than it has; every tree the parser returns is canonical, and
  every canonical tree within the depth limit is what the parser reads from its own printing.
\<close>

section \<open>Printing\<close>

text \<open>
  Negation is written \<^verbatim>\<open>not\<close> over a comparison or an arithmetic operator, which it may
  cover, and \<^verbatim>\<open>!\<close> otherwise.
\<close>

definition unop_bp :: "SysmlUnaryOp \<Rightarrow> SysmlExprAst \<Rightarrow> nat" where
  "unop_bp u x = (if u = UnNot \<and> \<not> top_at_least 90 x then 50 else 90)"

fun unop_text :: "SysmlUnaryOp \<Rightarrow> SysmlExprAst \<Rightarrow> SysmlToken" where
  "unop_text UnNot x = (if top_at_least 90 x then Bang else KeywordNot)"
| "unop_text UnPlus x = Plus"
| "unop_text UnMinus x = Minus"

fun tokens_of :: "SysmlExprAst \<Rightarrow> SysmlToken list" where
  "tokens_of (AIdent name) = [Ident name]"
| "tokens_of (ANumber num) = [Number num]"
| "tokens_of (AStringLit lit) = [StringLit lit]"
| "tokens_of (AParen a) = LParen # tokens_of a @ [RParen]"
| "tokens_of (AUnary u a) = unop_text u a # tokens_of a"
| "tokens_of (ABinary b l r) = tokens_of l @ op_token b # tokens_of r"
| "tokens_of (ACall c args) = tokens_of c @ LParen # commas (map tokens_of args) @ [RParen]"
| "tokens_of (AField b fld) = tokens_of b @ [Dot, Ident fld]"
| "tokens_of (AIndex b is) = tokens_of b @ LBracket # commas (map tokens_of is) @ [RBracket]"

section \<open>Canonical trees\<close>

text \<open>
  \<open>spine_ok p a\<close>: an operator of left power \<open>p\<close> written after \<open>a\<close> is not taken by an operand
  at the right edge of \<open>a\<close>.
\<close>

fun spine_ok :: "nat \<Rightarrow> SysmlExprAst \<Rightarrow> bool" where
  "spine_ok p (ABinary b l r) = (p < right_power b \<and> spine_ok p r)"
| "spine_ok p (AUnary u x) = (p < unop_bp u x \<and> spine_ok p x)"
| "spine_ok p _ = True"

fun canonical :: "SysmlExprAst \<Rightarrow> bool" where
  "canonical (AParen a) = canonical a"
| "canonical (AUnary u a) = (canonical a \<and> top_at_least (unop_bp u a) a)"
| "canonical (ABinary b l r) =
     (canonical l \<and> canonical r \<and> spine_ok (left_power b) l \<and> top_at_least (right_power b) r)"
| "canonical (ACall c args) = (canonical c \<and> postfix_base c \<and> list_all canonical args)"
| "canonical (AField b fld) = (canonical b \<and> postfix_base b)"
| "canonical (AIndex b is) =
     (canonical b \<and> postfix_base b \<and> is \<noteq> [] \<and> list_all canonical is)"
| "canonical _ = True"

text \<open>What may follow a tree: no postfix opener, no operator its right edge would take.\<close>

definition rest_ok :: "SysmlExprAst \<Rightarrow> SysmlToken list \<Rightarrow> bool" where
  "rest_ok a rest \<longleftrightarrow>
     (\<forall>t r'. rest = t # r' \<longrightarrow> t \<noteq> LParen \<and> t \<noteq> Dot \<and> t \<noteq> LBracket \<and>
        (\<forall>b. t = op_token b \<longrightarrow> spine_ok (left_power b) a))"

lemma rest_ok_sub:
  "rest_ok (ABinary b l r) rest \<Longrightarrow> rest_ok r rest"
  "rest_ok (AUnary u x) rest \<Longrightarrow> rest_ok x rest"
  by (auto simp: rest_ok_def)

lemma rest_ok_stops:
  "rest_ok (ABinary b l r) rest \<Longrightarrow> stops_below (right_power b) rest"
  "rest_ok (AUnary u x) rest \<Longrightarrow> stops_below (unop_bp u x) rest"
  by (auto simp: rest_ok_def stops_below_def)

lemma rest_ok_closing:
  "t \<in> {Comma, RParen, RBracket} \<Longrightarrow> rest_ok a (t # r)"
  "t \<in> {Comma, RParen, RBracket} \<Longrightarrow> stops_below m (t # r)"
proof -
  have no_op: "t \<in> {Comma, RParen, RBracket} \<Longrightarrow> t \<noteq> op_token b" for b
    by (cases b) auto
  then show "t \<in> {Comma, RParen, RBracket} \<Longrightarrow> rest_ok a (t # r)"
    by (auto simp: rest_ok_def)
  show "t \<in> {Comma, RParen, RBracket} \<Longrightarrow> stops_below m (t # r)"
    using no_op by (auto simp: stops_below_def)
qed

lemma op_token_no_opener [simp]:
  "op_token b \<noteq> LParen" "op_token b \<noteq> Dot" "op_token b \<noteq> LBracket" "op_token b \<noteq> Comma"
  by (cases b; simp)+

lemma rest_ok_operator: "spine_ok (left_power b) l \<Longrightarrow> rest_ok l (op_token b # r)"
  by (auto simp: rest_ok_def)

text \<open>The operators on the left edge all bind at least as tightly as \<open>m\<close>.\<close>

fun left_edge :: "nat \<Rightarrow> SysmlExprAst \<Rightarrow> bool" where
  "left_edge m (ABinary b l r) = (m \<le> left_power b \<and> left_edge m l)"
| "left_edge m _ = True"

lemma left_edge_mono: "left_edge m a \<Longrightarrow> k \<le> m \<Longrightarrow> left_edge k a"
  by (induction a) auto

lemma top_left_edge: "canonical a \<Longrightarrow> top_at_least m a \<Longrightarrow> left_edge m a"
proof (induction a arbitrary: m)
  case (ABinary b l r)
  have "top_at_least (left_power b) l"
  proof (cases l)
    case (ABinary b' l' r')
    with ABinary.prems have "left_power b < right_power b'" by simp
    then have "left_power b \<le> left_power b'" using left_assoc_power [of b'] by auto
    with ABinary show ?thesis by (simp add: top_at_least_def)
  qed (simp_all add: top_at_least_def)
  with ABinary.IH(1) ABinary.prems have "left_edge (left_power b) l" by simp
  moreover have "m \<le> left_power b" using ABinary.prems by (simp add: top_at_least_def)
  ultimately show ?case by (auto intro: left_edge_mono)
qed simp_all

lemma unop_text_prefix: "prefix_operator (unop_text u x) = Some (u, unop_bp u x)"
  by (cases u) (auto simp: unop_bp_def)

lemma tokens_of_postfix_hd:
  "postfix_base a \<Longrightarrow> canonical a \<Longrightarrow> tokens_of a @ r = t # r' \<Longrightarrow> prefix_operator t = None"
proof (induction a arbitrary: r r')
  case (ACall c args)
  then show ?case by (auto dest: ACall.IH(1))
next
  case (AField b fld)
  then show ?case by (auto dest: AField.IH)
next
  case (AIndex b ixs)
  then show ?case by (auto dest: AIndex.IH(1))
qed (auto simp: postfix_base_def)

section \<open>The parser reads a canonical tree back\<close>

text \<open>Enough depth for a tree read at depth \<open>d\<close>.\<close>

abbreviation fits :: "nat \<Rightarrow> SysmlExprAst \<Rightarrow> bool" where
  "fits d a \<equiv> d + nesting a \<le> MAX_EXPR_DEPTH"

definition reads_expr :: "SysmlExprAst \<Rightarrow> bool" where
  "reads_expr a \<longleftrightarrow> (\<forall>m d rest z r. canonical a \<longrightarrow> left_edge m a \<longrightarrow> fits d a \<longrightarrow>
     rest_ok a rest \<longrightarrow> binary_run a m d rest z r \<longrightarrow> expr_run m d (tokens_of a @ rest) z r)"

definition reads_primary :: "SysmlExprAst \<Rightarrow> bool" where
  "reads_primary a \<longleftrightarrow> (\<forall>d rest z r. canonical a \<longrightarrow> postfix_base a \<longrightarrow> fits d a \<longrightarrow>
     postfix_run a d rest z r \<longrightarrow> primary_run d (tokens_of a @ rest) z r)"

text \<open>A tree in a place that accepts it entirely: up to a stop.\<close>

lemma reads_exprD:
  "reads_expr a \<Longrightarrow> canonical a \<Longrightarrow> top_at_least m a \<Longrightarrow> fits d a \<Longrightarrow> rest_ok a rest \<Longrightarrow>
     stops_below m rest \<Longrightarrow> expr_run m d (tokens_of a @ rest) a rest"
  unfolding reads_expr_def stops_below_def
  by (blast intro: binary_stop top_left_edge)

lemma reads_expr_of_primary:
  assumes "reads_primary a" "postfix_base a"
  shows "reads_expr a"
  unfolding reads_expr_def
proof (intro allI impI)
  fix m d rest z r
  assume a: "canonical a" "fits d a" "rest_ok a rest" "binary_run a m d rest z r"
  then have "postfix_run a d rest a rest" by (intro postfix_stop) (auto simp: rest_ok_def)
  with assms a have "primary_run d (tokens_of a @ rest) a rest"
    unfolding reads_primary_def by blast
  then have "prefix_run d (tokens_of a @ rest) a rest"
    using assms(2) a(1) by (blast intro: prefix_primary tokens_of_postfix_hd)
  with a show "expr_run m d (tokens_of a @ rest) z r" by (intro expr) auto
qed

lemma commas_Cons: "commas (x # xs) = x @ concat (map (\<lambda>y. Comma # y) xs)"
  by (induction xs arbitrary: x) auto

lemma reads_tail:
  assumes cl: "cl \<in> {RParen, RBracket}"
    and items: "\<forall>x \<in> set xs. reads_expr x \<and> canonical x \<and> fits (Suc d) x"
  shows "tail_run cl its d (concat (map (\<lambda>x. Comma # tokens_of x) xs) @ cl # r) (its @ xs) r"
  using items
proof (induction xs arbitrary: its)
  case Nil
  then show ?case using cl by (auto intro: tail_close)
next
  case (Cons x xs)
  let ?rest = "concat (map (\<lambda>x. Comma # tokens_of x) xs) @ cl # r"
  have hd: "\<exists>t r'. ?rest = t # r' \<and> t \<in> {Comma, RParen, RBracket}"
    using cl by (cases xs) auto
  have "expr_run 0 (Suc d) (tokens_of x @ ?rest) x ?rest"
    using hd Cons.prems by (intro reads_exprD) (auto simp: top_at_least_def rest_ok_closing split: option.splits)
  moreover have "tail_run cl (its @ [x]) d ?rest ((its @ [x]) @ xs) r"
    using Cons.prems by (intro Cons.IH) auto
  ultimately show ?case by (auto intro: tail_item)
qed

lemma reads_list:
  assumes cl: "cl \<in> {RParen, RBracket}" and ne: "xs = [] \<Longrightarrow> cl = RParen \<and> ae"
    and items: "\<forall>x \<in> set xs. reads_expr x \<and> canonical x \<and> fits (Suc d) x"
    and hds: "\<forall>x \<in> set xs. \<forall>r t r'. tokens_of x @ r = t # r' \<longrightarrow> t \<noteq> cl"
    and nonempty: "\<forall>x \<in> set xs. tokens_of x \<noteq> []"
  shows "list_run cl ae d (commas (map tokens_of xs) @ cl # r) xs r"
proof (cases xs)
  case Nil
  then show ?thesis using ne by (simp add: list_empty)
next
  case (Cons x ys)
  let ?rest = "concat (map (\<lambda>y. Comma # tokens_of y) ys) @ cl # r"
  have toks: "commas (map tokens_of xs) @ cl # r = tokens_of x @ ?rest"
    by (simp add: Cons commas_Cons comp_def)
  have hd: "\<exists>t r'. ?rest = t # r' \<and> t \<in> {Comma, RParen, RBracket}"
    using cl by (cases ys) auto
  have "expr_run 0 (Suc d) (tokens_of x @ ?rest) x ?rest"
    using hd items Cons by (intro reads_exprD) (auto simp: top_at_least_def rest_ok_closing split: option.splits)
  moreover have "tail_run cl [x] d ?rest ([x] @ ys) r"
    using items Cons by (intro reads_tail [OF cl]) auto
  moreover have "hd (tokens_of x @ ?rest) \<noteq> cl"
    using hds nonempty Cons by (metis append_is_Nil_conv list.exhaust_sel list.set_intros(1))
  ultimately have "list_run cl ae d (tokens_of x @ ?rest) (x # ys) r"
    by (intro list_items) auto
  then show ?thesis unfolding toks by (simp only: Cons)
qed

lemma tokens_of_nonempty [simp]: "tokens_of a \<noteq> []"
  by (cases a) auto

lemma tokens_of_hd: "tokens_of a @ r = t # r' \<Longrightarrow> t \<noteq> RParen \<and> t \<noteq> RBracket"
proof (induction a arbitrary: r r')
  case (AUnary u a)
  then show ?case by (cases u) (auto split: if_splits)
next
  case (ABinary b l r0)
  then show ?case by (simp only: tokens_of.simps append.assoc) blast
next
  case (ACall c args)
  then show ?case by (simp only: tokens_of.simps append.assoc) blast
next
  case (AField b fld)
  then show ?case by (simp only: tokens_of.simps append.assoc) blast
next
  case (AIndex b ixs)
  then show ?case by (simp only: tokens_of.simps append.assoc) blast
qed auto

lemma fits_args:
  "fits d (ACall c args) \<Longrightarrow> fits d c \<and> (\<forall>x \<in> set args. fits (Suc d) x)"
  "fits d (AIndex c args) \<Longrightarrow> fits d c \<and> (\<forall>x \<in> set args. fits (Suc d) x)"
proof -
  have n: "d + foldr (\<lambda>x m. max (Suc (nesting x)) m) args (nesting c) \<le> k \<Longrightarrow>
      d + nesting c \<le> k \<and> (\<forall>x \<in> set args. Suc d + nesting x \<le> k)" for k
    using nesting_args [of args "nesting c" "k - d"] by fastforce
  then show "fits d (ACall c args) \<Longrightarrow> fits d c \<and> (\<forall>x \<in> set args. fits (Suc d) x)"
    and "fits d (AIndex c args) \<Longrightarrow> fits d c \<and> (\<forall>x \<in> set args. fits (Suc d) x)"
    by simp_all
qed


lemma reads_args:
  assumes "\<forall>x \<in> set xs. reads_expr x" "list_all canonical xs" "\<forall>x \<in> set xs. fits (Suc d) x"
  shows "list_run RParen True d (commas (map tokens_of xs) @ RParen # r) xs r"
    and "xs \<noteq> [] \<Longrightarrow> list_run RBracket False d (commas (map tokens_of xs) @ RBracket # r) xs r"
  using assms by (auto intro!: reads_list simp: list_all_iff dest: tokens_of_hd)

theorem reads_all: "reads_expr a \<and> (postfix_base a \<longrightarrow> reads_primary a)"
proof (induction a)
  case (AIdent x)
  have "reads_primary (AIdent x)"
    by (auto simp: reads_primary_def intro: primary_leaf)
  then show ?case by (auto intro: reads_expr_of_primary simp: postfix_base_def)
next
  case (ANumber x)
  have "reads_primary (ANumber x)"
    by (auto simp: reads_primary_def intro: primary_leaf)
  then show ?case by (auto intro: reads_expr_of_primary simp: postfix_base_def)
next
  case (AStringLit x)
  have "reads_primary (AStringLit x)"
    by (auto simp: reads_primary_def intro: primary_leaf)
  then show ?case by (auto intro: reads_expr_of_primary simp: postfix_base_def)
next
  case (AParen a)
  have "reads_primary (AParen a)"
    unfolding reads_primary_def
  proof (intro allI impI)
    fix d rest z r
    assume c: "canonical (AParen a)" "fits d (AParen a)" "postfix_run (AParen a) d rest z r"
    then have "expr_run 0 (Suc d) (tokens_of a @ RParen # rest) a (RParen # rest)"
      using AParen by (intro reads_exprD) (auto simp: top_at_least_def rest_ok_closing split: option.splits)
    with c show "primary_run d (tokens_of (AParen a) @ rest) z r"
      by (auto intro!: primary_paren)
  qed
  then show ?case by (auto intro: reads_expr_of_primary simp: postfix_base_def)
next
  case (AUnary u a)
  have "reads_expr (AUnary u a)"
    unfolding reads_expr_def
  proof (intro allI impI)
    fix m d rest z r
    assume c: "canonical (AUnary u a)" "fits d (AUnary u a)" "rest_ok (AUnary u a) rest"
      "binary_run (AUnary u a) m d rest z r"
    then have "expr_run (unop_bp u a) (Suc d) (tokens_of a @ rest) a rest"
      using AUnary by (intro reads_exprD) (auto dest: rest_ok_sub rest_ok_stops)
    then have "prefix_run d (tokens_of (AUnary u a) @ rest) (AUnary u a) rest"
      by (auto intro: prefix_unary unop_text_prefix)
    with c show "expr_run m d (tokens_of (AUnary u a) @ rest) z r"
      by (intro expr) auto
  qed
  then show ?case by (simp add: postfix_base_def)
next
  case (ABinary b l r0)
  have "reads_expr (ABinary b l r0)"
    unfolding reads_expr_def
  proof (intro allI impI)
    fix m d rest z r
    assume c: "canonical (ABinary b l r0)" "left_edge m (ABinary b l r0)" "fits d (ABinary b l r0)"
      "rest_ok (ABinary b l r0) rest" "binary_run (ABinary b l r0) m d rest z r"
    then have "expr_run (right_power b) (Suc d) (tokens_of r0 @ rest) r0 rest"
      using ABinary by (intro reads_exprD) (auto dest: rest_ok_sub rest_ok_stops)
    then have "binary_run l m d (op_token b # tokens_of r0 @ rest) z r"
      using c by (auto intro: binary_step)
    moreover have "rest_ok l (op_token b # tokens_of r0 @ rest)"
      using c by (auto intro: rest_ok_operator)
    ultimately have "expr_run m d (tokens_of l @ op_token b # tokens_of r0 @ rest) z r"
      using c ABinary unfolding reads_expr_def by simp
    then show "expr_run m d (tokens_of (ABinary b l r0) @ rest) z r" by simp
  qed
  then show ?case by (simp add: postfix_base_def)
next
  case (ACall c args)
  have "reads_primary (ACall c args)"
    unfolding reads_primary_def
  proof (intro allI impI)
    fix d rest z r
    assume a: "canonical (ACall c args)" "fits d (ACall c args)" "postfix_run (ACall c args) d rest z r"
    then have "list_run RParen True d (commas (map tokens_of args) @ RParen # rest) args rest"
      using ACall.IH(2) fits_args(1) [OF a(2)] by (intro reads_args) auto
    then have "postfix_run c d (LParen # commas (map tokens_of args) @ RParen # rest) z r"
      using a(3) by (rule postfix_call)
    then have "primary_run d (tokens_of c @ LParen # commas (map tokens_of args) @ RParen # rest) z r"
      using ACall.IH(1) a(1) fits_args(1) [OF a(2)] unfolding reads_primary_def by simp
    then show "primary_run d (tokens_of (ACall c args) @ rest) z r" by simp
  qed
  then show ?case by (auto intro: reads_expr_of_primary simp: postfix_base_def)
next
  case (AField c fld)
  have "reads_primary (AField c fld)"
    unfolding reads_primary_def
  proof (intro allI impI)
    fix d rest z r
    assume a: "canonical (AField c fld)" "fits d (AField c fld)" "postfix_run (AField c fld) d rest z r"
    then have "postfix_run c d (Dot # Ident fld # rest) z r" by (intro postfix_field)
    then have "primary_run d (tokens_of c @ Dot # Ident fld # rest) z r"
      using AField a unfolding reads_primary_def by simp
    then show "primary_run d (tokens_of (AField c fld) @ rest) z r" by simp
  qed
  then show ?case by (auto intro: reads_expr_of_primary simp: postfix_base_def)
next
  case (AIndex c args)
  have "reads_primary (AIndex c args)"
    unfolding reads_primary_def
  proof (intro allI impI)
    fix d rest z r
    assume a: "canonical (AIndex c args)" "fits d (AIndex c args)" "postfix_run (AIndex c args) d rest z r"
    then have "list_run RBracket False d (commas (map tokens_of args) @ RBracket # rest) args rest"
      using AIndex.IH(2) fits_args(2) [OF a(2)] by (intro reads_args) auto
    then have "postfix_run c d (LBracket # commas (map tokens_of args) @ RBracket # rest) z r"
      using a(3) by (rule postfix_index)
    then have "primary_run d (tokens_of c @ LBracket # commas (map tokens_of args) @ RBracket # rest) z r"
      using AIndex.IH(1) a(1) fits_args(2) [OF a(2)] unfolding reads_primary_def by simp
    then show "primary_run d (tokens_of (AIndex c args) @ rest) z r" by simp
  qed
  then show ?case by (auto intro: reads_expr_of_primary simp: postfix_base_def)
qed

lemma canonical_parses:
  assumes "canonical a" "nesting a \<le> MAX_EXPR_DEPTH"
  shows "parse_sysml_expr (tokens_of a) = Some a"
proof -
  have "expr_run 0 0 (tokens_of a @ []) a []"
    using assms reads_all by (intro reads_exprD) (auto simp: top_at_least_def rest_ok_def stops_below_def split: option.splits)
  then show ?thesis by (simp add: parse_sysml_expr_def runs_parser)
qed

section \<open>What the parser returns is canonical\<close>

definition op_follow :: "SysmlExprAst \<Rightarrow> SysmlToken list \<Rightarrow> bool" where
  "op_follow a r \<longleftrightarrow> (\<forall>b r'. r = op_token b # r' \<longrightarrow> spine_ok (left_power b) a)"

lemma op_follow_postfix: "postfix_base a \<Longrightarrow> op_follow a r"
  by (cases a) (auto simp: op_follow_def postfix_base_def)

lemma op_follow_unary:
  assumes "prefix_operator t = Some (u, bp)" "top_at_least bp x" "stops_below bp r" "op_follow x r"
  shows "op_follow (AUnary u x) r" and "top_at_least (unop_bp u x) x"
  using assms by (cases t; auto simp: op_follow_def stops_below_def unop_bp_def; fastforce)+

lemma primary_leaf_canonical: "primary_leaf t = Some n \<Longrightarrow> canonical n \<and> postfix_base n"
  by (cases t) (auto simp: postfix_base_def)

lemma run_canonical:
  "expr_run m d ts a r \<Longrightarrow> canonical a \<and> top_at_least m a \<and> stops_below m r \<and> op_follow a r"
  "prefix_run d ts a r \<Longrightarrow> canonical a \<and> top_op a = None \<and> op_follow a r"
  "binary_run l m d ts a r \<Longrightarrow> canonical l \<Longrightarrow> top_at_least m l \<Longrightarrow> op_follow l ts \<Longrightarrow>
     canonical a \<and> top_at_least m a \<and> stops_below m r \<and> op_follow a r"
  "primary_run d ts a r \<Longrightarrow> canonical a \<and> postfix_base a"
  "postfix_run n d ts a r \<Longrightarrow> canonical n \<Longrightarrow> postfix_base n \<Longrightarrow> canonical a \<and> postfix_base a"
  "list_run cl ae d ts xs r \<Longrightarrow> list_all canonical xs \<and> (ae \<or> xs \<noteq> [])"
  "tail_run cl its d ts xs r \<Longrightarrow> list_all canonical its \<Longrightarrow> list_all canonical xs \<and> (its \<noteq> [] \<longrightarrow> xs \<noteq> [])"
proof (induction rule: run_induct)
  case (expr d ts lhs r' m a r)
  then show ?case by (simp add: top_at_least_def)
next
  case (prefix_unary t u bp d r' x r)
  then show ?case by (auto dest: op_follow_unary)
next
  case (prefix_primary ts d a r)
  then show ?case by (simp add: postfix_base_top op_follow_postfix)
next
  case (binary_stop ts m l d)
  then show ?case by (simp add: stops_below_def)
next
  case (binary_step m b d r' rhs r'' l a r)
  then have "canonical (ABinary b l rhs)" "top_at_least m (ABinary b l rhs)"
      "op_follow (ABinary b l rhs) r''"
    by (auto simp: op_follow_def stops_below_def top_at_least_def)
  then show ?case by (rule binary_step.IH(2))
next
  case (primary_leaf d t n r' a r)
  then show ?case by (auto dest: primary_leaf_canonical)
qed (simp_all add: postfix_base_def)

lemma parse_canonical:
  "parse_sysml_expr ts = Some a \<Longrightarrow> canonical a \<and> nesting a \<le> MAX_EXPR_DEPTH"
  by (auto simp: parse_sysml_expr_def bind_eq_Some_conv split: if_splits
      dest!: parser_runs(1) dest: run_canonical(1) run_nesting(1))

end
