(* ===== verification/Expr_Render.thy ===== *)
theory Expr_Render
  imports Expr_Lexical Expr_Roundtrip
begin

text \<open>
  What the two renderers of expression trees (KaTeX and MATLAB) share: both stop at
  \<^verbatim>\<open>MAX_AST_RENDER_DEPTH\<close> with a fixed text, and both build the text of a node from the texts
  of its children one level deeper. Below, the parts of the tree the renderers and their
  lemmas read: children, height, well formed leaves.
\<close>

section \<open>Children and height\<close>

fun children :: "SysmlExprAst \<Rightarrow> SysmlExprAst list" where
  "children (AParen a) = [a]"
| "children (AUnary u a) = [a]"
| "children (ABinary b l r) = [l, r]"
| "children (ACall c args) = c # args"
| "children (AField b fld) = [b]"
| "children (AIndex b ixs) = b # ixs"
| "children _ = []"

fun height :: "SysmlExprAst \<Rightarrow> nat" where
  "height (AParen a) = Suc (height a)"
| "height (AUnary u a) = Suc (height a)"
| "height (ABinary b l r) = Suc (max (height l) (height r))"
| "height (ACall c args) = Suc (foldr (\<lambda>x m. max (height x) m) args (height c))"
| "height (AField b fld) = Suc (height b)"
| "height (AIndex b ixs) = Suc (foldr (\<lambda>x m. max (height x) m) ixs (height b))"
| "height _ = 0"

lemma foldr_max_bound:
  "foldr (\<lambda>x m. max (f x) m) xs (n :: nat) \<le> k \<longleftrightarrow> n \<le> k \<and> (\<forall>x \<in> set xs. f x \<le> k)"
  by (induction xs) auto

lemma height_child: "c \<in> set (children a) \<Longrightarrow> height c < height a"
proof -
  have m: "height b \<le> foldr (\<lambda>x m. max (height x) m) xs (height b)"
      "x \<in> set xs \<Longrightarrow> height x \<le> foldr (\<lambda>x m. max (height x) m) xs (height b)" for b x and xs
    using foldr_max_bound [of height xs "height b"] by blast+
  show "c \<in> set (children a) \<Longrightarrow> height c < height a"
    by (cases a) (auto simp: less_Suc_eq_le m)
qed

section \<open>The contract of a renderer\<close>

locale ast_renderer =
  fixes render :: "SysmlExprAst \<Rightarrow> nat \<Rightarrow> string"
  assumes cut: "MAX_AST_RENDER_DEPTH < d \<Longrightarrow> MAX_AST_RENDER_DEPTH < d' \<Longrightarrow> render a d = render b d'"
    and by_children: "d \<le> MAX_AST_RENDER_DEPTH \<Longrightarrow> d' \<le> MAX_AST_RENDER_DEPTH \<Longrightarrow>
      (\<forall>c \<in> set (children a). render c (Suc d) = render c (Suc d')) \<Longrightarrow> render a d = render a d'"
    and left_operand: "bop \<noteq> OpPow \<Longrightarrow> render l (Suc d) = render l' (Suc d) \<Longrightarrow>
      render (ABinary bop l r) d = render (ABinary bop l' r) d"
begin

text \<open>A tree that fits under the limit is rendered the same from every depth it fits at.\<close>

lemma depth_irrelevant:
  "d + height a \<le> MAX_AST_RENDER_DEPTH \<Longrightarrow> d' + height a \<le> MAX_AST_RENDER_DEPTH \<Longrightarrow>
     render a d = render a d'"
proof (induction "height a" arbitrary: a d d' rule: less_induct)
  case less
  have "render c (Suc d) = render c (Suc d')" if "c \<in> set (children a)" for c
    using less.hyps [of c "Suc d" "Suc d'"] less.prems height_child [OF that] by simp
  then show ?case using less.prems by (intro by_children) auto
qed

text \<open>A left-nested chain longer than the limit is rendered without looking at its head.\<close>

lemma long_chain:
  "b \<noteq> OpPow \<Longrightarrow> MAX_AST_RENDER_DEPTH < d + length rs \<Longrightarrow>
     render (foldl (ABinary b) x rs) d = render (foldl (ABinary b) y rs) d"
proof (induction rs arbitrary: d rule: rev_induct)
  case Nil
  then show ?case by (intro cut) auto
next
  case (snoc r rs)
  then have "render (foldl (ABinary b) x rs) (Suc d) = render (foldl (ABinary b) y rs) (Suc d)"
    by simp
  then show ?case
    unfolding foldl_append foldl.simps by (rule left_operand [OF snoc.prems(1)])
qed

end

section \<open>Well formed leaves\<close>

text \<open>Every leaf and field name of the tree is a token the lexer can return.\<close>

definition leaves_ok :: "SysmlExprAst \<Rightarrow> bool" where
  "leaves_ok a \<longleftrightarrow> list_all token_ok (fringe a)"

lemma token_ok_norm [simp]: "token_ok (norm_token t) = token_ok t"
  by (cases t) auto

lemma token_ok_ops [simp]: "token_ok (op_token b)" "token_ok (unop_token u)" "token_ok (unop_text u x)"
  by ((cases b; simp), (cases u; simp), (cases u; simp))

lemma list_all_commas [simp]:
  "P Comma \<Longrightarrow> list_all P (commas xss) \<longleftrightarrow> (\<forall>xs \<in> set xss. list_all P xs)"
  by (induction xss rule: commas.induct) auto

lemma leaves_ok_simps [simp]:
  "leaves_ok (AIdent w) = ident_text w"
  "leaves_ok (ANumber n) = number_text n"
  "leaves_ok (AStringLit s)"
  "leaves_ok (AParen a) = leaves_ok a"
  "leaves_ok (AUnary u a) = leaves_ok a"
  "leaves_ok (ABinary b l r) \<longleftrightarrow> leaves_ok l \<and> leaves_ok r"
  "leaves_ok (ACall c args) \<longleftrightarrow> leaves_ok c \<and> (\<forall>x \<in> set args. leaves_ok x)"
  "leaves_ok (AField a w) \<longleftrightarrow> leaves_ok a \<and> ident_text w"
  "leaves_ok (AIndex a ixs) \<longleftrightarrow> leaves_ok a \<and> (\<forall>x \<in> set ixs. leaves_ok x)"
  by (auto simp: leaves_ok_def)

lemma leaves_ok_tokens: "leaves_ok a \<Longrightarrow> list_all token_ok (tokens_of a)"
  by (induction a) auto

lemma parse_leaves_ok:
  assumes "parse_sysml_expr (tokenize_sysml_expr s) = Some a"
  shows "leaves_ok a"
proof -
  have "expr_run 0 0 (tokenize_sysml_expr s) a []"
    using assms by (auto simp: parse_sysml_expr_def bind_eq_Some_conv split: if_splits intro: parser_runs)
  then have "fringe a = map norm_token (tokenize_sysml_expr s)" using run_fringe(1) by fastforce
  then show ?thesis using tokenize_ok by (auto simp: leaves_ok_def list_all_iff)
qed

end
