(* ===== verification/Expr_Katex.thy ===== *)
theory Expr_Katex
  imports Expr_Render
begin

text \<open>
  \<^verbatim>\<open>expr_lowering_render.rs\<close> and the KaTeX entry point of \<^verbatim>\<open>expr_lowering.rs\<close>: escaping, the
  clean-up of hand-written KaTeX, the renderer of the tree and the token-wise fallback.
\<close>

section \<open>Escaping\<close>

definition escape_katex_char :: "char \<Rightarrow> string" where
  "escape_katex_char ch =
     (if ch = CHR ''_'' then [BS, CHR ''_'']
      else if ch = CHR ''%'' then [BS, CHR ''%'']
      else if ch = CHR ''&'' then [BS, CHR ''&'']
      else if ch = CHR ''#'' then [BS, CHR ''#'']
      else if ch = CHR ''$'' then [BS, CHR ''$'']
      else if ch = CHR ''{'' then [BS, CHR ''{'']
      else if ch = CHR ''}'' then [BS, CHR ''}'']
      else if ch = BS then BS # ''textbackslash{}''
      else [ch])"

fun escape_katex_ident :: "string \<Rightarrow> string" where
  "escape_katex_ident [] = []"
| "escape_katex_ident (ch # raw) = escape_katex_char ch @ escape_katex_ident raw"

definition render_katex_ident :: "string \<Rightarrow> string" where
  "render_katex_ident ident =
     (if utf8_len ident = 1 \<and> list_all is_ascii_alphabetic ident then ident
      else BS # ''mathrm{'' @ escape_katex_ident ident @ ''}'')"

section \<open>Hand-written KaTeX\<close>

text \<open>The scan of the source: the open quote if any, and whether the last character escapes.\<close>

fun latex_outside :: "char option \<Rightarrow> bool \<Rightarrow> string \<Rightarrow> bool" where
  "latex_outside in_quote escaped_in_quote [] = False"
| "latex_outside (Some q) escaped_in_quote (ch # cs) =
     (if escaped_in_quote then latex_outside (Some q) False cs
      else if ch = BS then latex_outside (Some q) True cs
      else if ch = q then latex_outside None escaped_in_quote cs
      else latex_outside (Some q) escaped_in_quote cs)"
| "latex_outside None escaped_in_quote (ch # cs) =
     (if ch = DQ \<or> ch = SQ then latex_outside (Some ch) escaped_in_quote cs
      else if ch = BS then True
      else latex_outside None escaped_in_quote cs)"

definition contains_latex_command_outside_quotes :: "string \<Rightarrow> bool" where
  "contains_latex_command_outside_quotes expr = latex_outside None False expr"

definition aligned_open :: string where
  "aligned_open = BS # ''begin{aligned}''"

definition aligned_close :: string where
  "aligned_close = BS # ''end{aligned}''"

text \<open>What is between the delimiters of an \<^verbatim>\<open>aligned\<close> environment, if \<open>current\<close> is one.\<close>

definition aligned_body :: "string \<Rightarrow> string option" where
  "aligned_body current =
     (case strip_prefix current aligned_open of
        None \<Rightarrow> None
      | Some s \<Rightarrow> strip_suffix s aligned_close)"

definition drop_row_break :: "string \<Rightarrow> string" where
  "drop_row_break current =
     (case strip_suffix current [BS, BS] of
        None \<Rightarrow> current
      | Some without_row_break \<Rightarrow>
          if \<not> ends_with without_row_break [BS] then trim without_row_break else current)"

lemma length_trim [simp]: "length (trim s) \<le> length s"
  unfolding trim_def trim_matches_def trim_end_matches_def
  by (metis length_dropWhile_le length_rev order_trans)

lemma length_drop_row_break [simp]: "length (drop_row_break s) \<le> length s"
  by (auto simp: drop_row_break_def strip_suffix_Some split: option.split
      intro: order_trans [OF length_trim])

lemma length_aligned_body: "aligned_body s = Some b \<Longrightarrow> length b < length s"
  by (auto simp: aligned_body_def aligned_open_def strip_prefix_Some strip_suffix_Some split: option.splits)

function strip_aligned :: "string \<Rightarrow> string" where
  "strip_aligned current =
     (case aligned_body current of
        None \<Rightarrow> current
      | Some inner \<Rightarrow> strip_aligned (drop_row_break (trim inner)))"
  by pat_completeness auto
termination
proof (relation "measure length", goal_cases)
  case (2 s b)
  then show ?case
    using length_aligned_body [OF 2] order_trans [OF length_drop_row_break length_trim, of b] by simp
qed simp

declare strip_aligned.simps [simp del]

fun escape_percent_dollar :: "bool \<Rightarrow> string \<Rightarrow> string" where
  "escape_percent_dollar prev_escaped [] = []"
| "escape_percent_dollar prev_escaped (ch # cs) =
     (if (ch = CHR ''%'' \<or> ch = CHR ''$'') \<and> \<not> prev_escaped then [BS, ch] else [ch])
       @ escape_percent_dollar (ch = BS \<and> \<not> prev_escaped) cs"

definition katex_true :: string where
  "katex_true = BS # ''mathrm{true}''"

definition sanitize_preauthored_katex :: "string \<Rightarrow> string" where
  "sanitize_preauthored_katex expr =
     (let current = trim expr;
          current =
            (case strip_prefix current ''$$'' of
               None \<Rightarrow> current
             | Some s \<Rightarrow>
                 (case strip_suffix s ''$$'' of
                    None \<Rightarrow> current
                  | Some inner \<Rightarrow> trim inner));
          current = strip_aligned current
      in if current = [] then katex_true else escape_percent_dollar False current)"

section \<open>The renderer\<close>

text \<open>\<^verbatim>\<open>render_binary_katex\<close>, given the two rendered operands.\<close>

fun render_binary_katex :: "SysmlBinOp \<Rightarrow> SysmlExprAst \<Rightarrow> string \<Rightarrow> string \<Rightarrow> string" where
  "render_binary_katex OpImplies lhs l r = l @ '' '' @ BS # ''implies '' @ r"
| "render_binary_katex OpOr lhs l r = l @ '' '' @ BS # ''lor '' @ r"
| "render_binary_katex OpXor lhs l r = l @ '' '' @ BS # ''oplus '' @ r"
| "render_binary_katex OpAnd lhs l r = l @ '' '' @ BS # ''land '' @ r"
| "render_binary_katex OpEq lhs l r = l @ '' = '' @ r"
| "render_binary_katex OpNe lhs l r = l @ '' '' @ BS # ''neq '' @ r"
| "render_binary_katex OpGe lhs l r = l @ '' '' @ BS # ''ge '' @ r"
| "render_binary_katex OpLe lhs l r = l @ '' '' @ BS # ''le '' @ r"
| "render_binary_katex OpGt lhs l r = l @ '' > '' @ r"
| "render_binary_katex OpLt lhs l r = l @ '' < '' @ r"
| "render_binary_katex OpAdd lhs l r = l @ '' + '' @ r"
| "render_binary_katex OpSub lhs l r = l @ '' - '' @ r"
| "render_binary_katex OpMul lhs l r = l @ '' '' @ BS # ''cdot '' @ r"
| "render_binary_katex OpDiv lhs l r = l @ '' / '' @ r"
| "render_binary_katex OpRem lhs l r = l @ '' '' @ BS # ''bmod '' @ r"
| "render_binary_katex OpPow lhs l r =
     (if is_binary_sysml_expr lhs \<or> is_unary_expr lhs
      then ''('' @ l @ '')^{'' @ r @ ''}''
      else l @ ''^{'' @ r @ ''}'')"

fun render_unary_katex :: "SysmlUnaryOp \<Rightarrow> SysmlExprAst \<Rightarrow> string \<Rightarrow> string" where
  "render_unary_katex UnNot operand inner =
     (if is_binary_sysml_expr operand then BS # ''lnot ('' @ inner @ '')''
      else BS # ''lnot '' @ inner)"
| "render_unary_katex UnPlus operand inner =
     (if is_binary_sysml_expr operand \<or> is_unary_expr operand then ''+('' @ inner @ '')''
      else ''+'' @ inner)"
| "render_unary_katex UnMinus operand inner =
     (if is_binary_sysml_expr operand \<or> is_unary_expr operand then ''-('' @ inner @ '')''
      else ''-'' @ inner)"

definition text_literal :: "string \<Rightarrow> string" where
  "text_literal lit = BS # ''text{'' @ DQ # escape_katex_ident lit @ DQ # ''}''"

function render_ast_katex :: "SysmlExprAst \<Rightarrow> nat \<Rightarrow> string" where
  "render_ast_katex ast depth =
     (if MAX_AST_RENDER_DEPTH < depth then katex_true
      else (let next_depth = Suc depth in case ast of
          AIdent ident \<Rightarrow> render_katex_ident ident
        | ANumber num \<Rightarrow> num
        | AStringLit lit \<Rightarrow> text_literal lit
        | AParen inner \<Rightarrow> ''('' @ render_ast_katex inner next_depth @ '')''
        | AUnary unop operand \<Rightarrow>
            render_unary_katex unop operand (render_ast_katex operand next_depth)
        | ABinary binop lhs rhs \<Rightarrow>
            render_binary_katex binop lhs (render_ast_katex lhs next_depth)
              (render_ast_katex rhs next_depth)
        | ACall callee args \<Rightarrow>
            render_ast_katex callee next_depth
              @ ''('' @ join '', '' (map (\<lambda>a. render_ast_katex a next_depth) args) @ '')''
        | AField base fld \<Rightarrow>
            (if is_binary_sysml_expr base
             then ''('' @ render_ast_katex base next_depth @ '').'' @ render_katex_ident fld
             else render_ast_katex base next_depth @ ''.'' @ render_katex_ident fld)
        | AIndex base indices \<Rightarrow>
            (if is_binary_sysml_expr base
             then ''('' @ render_ast_katex base next_depth @ '')[''
               @ join '', '' (map (\<lambda>i. render_ast_katex i next_depth) indices) @ '']''
             else render_ast_katex base next_depth @ ''[''
               @ join '', '' (map (\<lambda>i. render_ast_katex i next_depth) indices) @ '']'')))"
  by pat_completeness auto
termination
  by (relation "measure (\<lambda>(ast, depth). size ast)") (auto dest: size_list_member)

declare render_ast_katex.simps [simp del]

section \<open>The fallback\<close>

fun katex_piece :: "SysmlToken \<Rightarrow> string" where
  "katex_piece Implies = BS # ''implies''"
| "katex_piece Or = BS # ''lor''"
| "katex_piece Xor = BS # ''oplus''"
| "katex_piece And = BS # ''land''"
| "katex_piece KeywordNot = BS # ''lnot''"
| "katex_piece Bang = BS # ''lnot''"
| "katex_piece Tilde = BS # ''lnot''"
| "katex_piece Eq = ''=''"
| "katex_piece Ne = BS # ''neq''"
| "katex_piece Ge = BS # ''ge''"
| "katex_piece Le = BS # ''le''"
| "katex_piece Gt = ''>''"
| "katex_piece Lt = ''<''"
| "katex_piece Plus = ''+''"
| "katex_piece Minus = ''-''"
| "katex_piece Star = BS # ''cdot''"
| "katex_piece Slash = ''/''"
| "katex_piece Percent = BS # ''bmod''"
| "katex_piece Pow = BS # ''wedge''"
| "katex_piece LParen = ''(''"
| "katex_piece RParen = '')''"
| "katex_piece LBracket = ''[''"
| "katex_piece RBracket = '']''"
| "katex_piece Comma = '',''"
| "katex_piece Dot = ''.''"
| "katex_piece (Ident ident) = render_katex_ident ident"
| "katex_piece (Number n) = n"
| "katex_piece (StringLit s) = text_literal s"
| "katex_piece (Unknown c) = escape_katex_ident [c]"

definition fallback_tokens_to_katex :: "SysmlToken list \<Rightarrow> string" where
  "fallback_tokens_to_katex tokens =
     (let parts = filter (\<lambda>piece. piece \<noteq> []) (map katex_piece tokens)
      in if parts = [] then katex_true else join '' '' parts)"

section \<open>The entry point\<close>

definition trim_expr :: "string \<Rightarrow> string" where
  "trim_expr expr = trim_matches (\<lambda>ch. is_whitespace ch \<or> ch = CHR '';'') expr"

definition lower_sysml_expr_to_katex :: "string \<Rightarrow> string" where
  "lower_sysml_expr_to_katex expr =
     (let trimmed = trim_expr expr
      in if trimmed = [] then katex_true
         else if contains_latex_command_outside_quotes trimmed
           then sanitize_preauthored_katex trimmed
         else (let tokens = tokenize_sysml_expr trimmed
           in (case parse_sysml_expr tokens of
                 Some ast \<Rightarrow> render_ast_katex ast 0
               | None \<Rightarrow> fallback_tokens_to_katex tokens)))"

section \<open>Escaping is reversible\<close>

text \<open>Reading the escapes back; \<open>14\<close> is the length of \<^verbatim>\<open>textbackslash{}\<close> less one.\<close>

fun unescape_katex :: "string \<Rightarrow> string" where
  "unescape_katex [] = []"
| "unescape_katex (c # cs) =
     (if c = BS then
        (case cs of
           [] \<Rightarrow> []
         | e # r \<Rightarrow> if e = CHR ''t'' then BS # unescape_katex (drop 14 r)
                     else e # unescape_katex r)
      else c # unescape_katex cs)"

lemma unescape_escape_char:
  "unescape_katex (escape_katex_char c @ s) = c # unescape_katex s"
  by (simp add: escape_katex_char_def)

lemma unescape_escape: "unescape_katex (escape_katex_ident raw) = raw"
  by (induction raw) (simp_all add: unescape_escape_char)

section \<open>Braces and special characters\<close>

text \<open>
  What KaTeX needs of a text: a backslash escapes the next character; outside escapes, braces
  are balanced and none of the active characters occurs. The result is the number of braces
  left open, or \<open>None\<close> where the text is refused.
\<close>

definition active_char :: "char \<Rightarrow> bool" where
  "active_char c \<longleftrightarrow>
     c = CHR ''%'' \<or> c = CHR ''$'' \<or> c = CHR ''#'' \<or> c = CHR ''&'' \<or> c = CHR ''_''"

fun katex_scan :: "nat \<Rightarrow> string \<Rightarrow> nat option" where
  "katex_scan n [] = Some n"
| "katex_scan n (c # cs) =
     (if c = BS then (case cs of [] \<Rightarrow> None | _ # r \<Rightarrow> katex_scan n r)
      else if c = CHR ''{'' then katex_scan (Suc n) cs
      else if c = CHR ''}'' then (if n = 0 then None else katex_scan (n - 1) cs)
      else if active_char c then None
      else katex_scan n cs)"

text \<open>A text the scan passes over, whatever stands around it.\<close>

definition katex_closed :: "string \<Rightarrow> bool" where
  "katex_closed s \<longleftrightarrow> (\<forall>n r. katex_scan n (s @ r) = katex_scan n r)"

lemma katex_closedD [simp]: "katex_closed s \<Longrightarrow> katex_scan n (s @ r) = katex_scan n r"
  by (simp add: katex_closed_def)

lemma katex_closedI: "(\<And>n r. katex_scan n (s @ r) = katex_scan n r) \<Longrightarrow> katex_closed s"
  by (simp add: katex_closed_def)

definition plain_char :: "char \<Rightarrow> bool" where
  "plain_char c \<longleftrightarrow> c \<noteq> BS \<and> c \<noteq> CHR ''{'' \<and> c \<noteq> CHR ''}'' \<and> \<not> active_char c"

lemma plain_chars:
  "is_ascii_digit c \<Longrightarrow> plain_char c" "is_ascii_alphabetic c \<Longrightarrow> plain_char c"
  "is_exp_char c \<Longrightarrow> plain_char c" "is_sign_char c \<Longrightarrow> plain_char c"
  by (auto simp: plain_char_def active_char_def is_ascii_digit_def is_ascii_alphabetic_def
      is_ascii_uppercase_def is_ascii_lowercase_def is_exp_char_def is_sign_char_def code_def)

lemma katex_closed_plain: "list_all plain_char s \<Longrightarrow> katex_closed s"
proof (rule katex_closedI)
  fix n r
  assume "list_all plain_char s"
  then show "katex_scan n (s @ r) = katex_scan n r"
    by (induction s) (auto simp: plain_char_def)
qed

lemma katex_closed_scan: "katex_closed s \<Longrightarrow> katex_scan n s = Some n"
  by (metis append_Nil2 katex_closedD katex_scan.simps(1))

lemma katex_closed_append [simp]: "katex_closed s \<Longrightarrow> katex_closed t \<Longrightarrow> katex_closed (s @ t)"
  by (simp add: katex_closed_def)

lemma katex_closed_join:
  "katex_closed sep \<Longrightarrow> (\<forall>x \<in> set xs. katex_closed x) \<Longrightarrow> katex_closed (join sep xs)"
  by (induction sep xs rule: join.induct) (auto simp: katex_closed_def)

lemma katex_closed_escape [simp]: "katex_closed (escape_katex_ident s)"
proof (induction s)
  case (Cons c s)
  have "katex_closed (escape_katex_char c)"
    by (auto simp: katex_closed_def escape_katex_char_def active_char_def)
  with Cons show ?case by simp
qed (simp add: katex_closed_def)

lemma katex_closed_alpha: "list_all is_ascii_alphabetic s \<Longrightarrow> katex_closed s"
  by (rule katex_closed_plain) (auto simp: list_all_iff plain_chars)

lemma katex_closed_ident [simp]: "katex_closed (render_katex_ident s)"
proof (cases "utf8_len s = 1 \<and> list_all is_ascii_alphabetic s")
  case True
  then show ?thesis by (simp add: render_katex_ident_def katex_closed_alpha)
next
  case False
  then have "render_katex_ident s = BS # ''mathrm{'' @ escape_katex_ident s @ ''}''"
    unfolding render_katex_ident_def by (rule if_not_P)
  then show ?thesis by (auto intro: katex_closedI simp: active_char_def)
qed

lemma katex_closed_text [simp]: "katex_closed (text_literal s)"
  by (rule katex_closedI) (simp add: text_literal_def active_char_def)

lemma katex_closed_true [simp]: "katex_closed katex_true"
  by (rule katex_closedI) (simp add: katex_true_def active_char_def)

lemma number_text_closed: "number_text n \<Longrightarrow> katex_closed n"
proof (rule katex_closed_plain)
  have "plain_char (CHR ''.'')" by (simp add: plain_char_def active_char_def)
  then show "number_text n \<Longrightarrow> list_all plain_char n"
    using number_text_chars plain_chars unfolding list_all_iff by blast
qed

lemma render_binary_closed:
  "katex_closed l \<Longrightarrow> katex_closed r \<Longrightarrow> katex_closed (render_binary_katex b a l r)"
  by (rule katex_closedI) (cases b; simp add: active_char_def)

lemma render_unary_closed: "katex_closed x \<Longrightarrow> katex_closed (render_unary_katex u a x)"
  by (rule katex_closedI) (cases u; simp add: active_char_def)

lemma join_args_closed:
  "(\<forall>x \<in> set xs. katex_closed (f x)) \<Longrightarrow> katex_closed (join '', '' (map f xs))"
  by (intro katex_closed_join) (auto simp: katex_closed_def active_char_def)

lemma bracketed_closed [simp]:
  "katex_closed s \<Longrightarrow> katex_closed (CHR ''('' # s)"
  "katex_closed s \<Longrightarrow> katex_closed (CHR '')'' # s)"
  "katex_closed s \<Longrightarrow> katex_closed (CHR ''['' # s)"
  "katex_closed s \<Longrightarrow> katex_closed (CHR '']'' # s)"
  "katex_closed s \<Longrightarrow> katex_closed (CHR ''.'' # s)"
  "katex_closed []"
  by (simp_all add: katex_closed_def active_char_def)

lemma render_closed: "leaves_ok a \<Longrightarrow> katex_closed (render_ast_katex a d)"
proof (induction a arbitrary: d)
  case (ACall c args)
  then have "katex_closed (join '', '' (map (\<lambda>a. render_ast_katex a (Suc d)) args))"
    by (intro join_args_closed) auto
  with ACall show ?case
    by (simp add: render_ast_katex.simps [of "ACall c args" d] Let_def)
next
  case (AIndex c args)
  then have "katex_closed (join '', '' (map (\<lambda>a. render_ast_katex a (Suc d)) args))"
    by (intro join_args_closed) auto
  with AIndex show ?case
    by (simp add: render_ast_katex.simps [of "AIndex c args" d] Let_def)
next
  case (ABinary b l r)
  then show ?case
    by (simp add: render_ast_katex.simps [of "ABinary b l r" d] Let_def render_binary_closed)
next
  case (AUnary u a)
  then show ?case
    by (simp add: render_ast_katex.simps [of "AUnary u a" d] Let_def render_unary_closed)
qed (simp_all add: render_ast_katex.simps Let_def number_text_closed)

lemma piece_closed: "token_ok t \<Longrightarrow> katex_closed (katex_piece t)"
  by (rule katex_closedI)
    (cases t; simp add: number_text_closed active_char_def del: escape_katex_ident.simps)

lemma fallback_closed:
  assumes "\<forall>t \<in> set ts. token_ok t"
  shows "katex_closed (fallback_tokens_to_katex ts)"
  unfolding fallback_tokens_to_katex_def Let_def
  using assms by (auto intro!: katex_closed_join piece_closed) (simp add: katex_closed_def active_char_def)

section \<open>Hand-written KaTeX after the clean-up\<close>

text \<open>No percent sign and no dollar sign stands without a backslash before it.\<close>

fun no_bare :: "bool \<Rightarrow> string \<Rightarrow> bool" where
  "no_bare escaped [] = True"
| "no_bare escaped (c # cs) =
     ((escaped \<or> (c \<noteq> CHR ''%'' \<and> c \<noteq> CHR ''$'')) \<and> no_bare (c = BS \<and> \<not> escaped) cs)"

lemma escape_percent_no_bare: "no_bare p (escape_percent_dollar p s)"
  by (induction p s rule: escape_percent_dollar.induct) auto

lemma escape_percent_id: "no_bare p s \<Longrightarrow> escape_percent_dollar p s = s"
  by (induction p s rule: escape_percent_dollar.induct) auto

text \<open>No environment delimiters are left around the text.\<close>

lemma strip_aligned_done: "aligned_body (strip_aligned s) = None"
proof (induction s rule: strip_aligned.induct)
  case (1 s)
  then show ?case by (subst strip_aligned.simps) (simp split: option.split)
qed

interpretation katex: ast_renderer render_ast_katex
proof unfold_locales
  fix d d' a and b :: SysmlExprAst
  assume "MAX_AST_RENDER_DEPTH < d" "MAX_AST_RENDER_DEPTH < d'"
  then show "render_ast_katex a d = render_ast_katex b d'"
    by (simp add: render_ast_katex.simps)
next
  fix d d' a
  assume d: "d \<le> MAX_AST_RENDER_DEPTH" "d' \<le> MAX_AST_RENDER_DEPTH"
    and c: "\<forall>c \<in> set (children a). render_ast_katex c (Suc d) = render_ast_katex c (Suc d')"
  then show "render_ast_katex a d = render_ast_katex a d'"
    unfolding render_ast_katex.simps [of a d] render_ast_katex.simps [of a d']
    by (cases a) (auto simp: Let_def cong: map_cong)
next
  fix b l l' r d
  assume "b \<noteq> OpPow" and l: "render_ast_katex l (Suc d) = render_ast_katex l' (Suc d)"
  then have "render_binary_katex b l x y = render_binary_katex b l' x y" for x y
    by (cases b) simp_all
  with l show "render_ast_katex (ABinary b l r) d = render_ast_katex (ABinary b l' r) d"
    by (simp add: render_ast_katex.simps [of "ABinary b l r" d]
        render_ast_katex.simps [of "ABinary b l' r" d])
qed

end
