(* ===== verification/Expr_Matlab.thy ===== *)
theory Expr_Matlab
  imports Expr_Katex
begin

text \<open>
  \<^verbatim>\<open>expr_lowering_matlab.rs\<close>: the MATLAB renderer and its token-wise fallback, the MATLAB entry
  point of \<^verbatim>\<open>expr_lowering.rs\<close>, and the refinement of the rendered text to a MATLAB expression
  tree that respects MATLAB's own operator precedence.
\<close>

section \<open>The renderer\<close>

text \<open>\<^verbatim>\<open>matches!(..)\<close> tests of the source.\<close>

fun is_pow_expr :: "SysmlExprAst \<Rightarrow> bool" where
  "is_pow_expr (ABinary OpPow _ _) = True"
| "is_pow_expr _ = False"

fun is_paren_expr :: "SysmlExprAst \<Rightarrow> bool" where
  "is_paren_expr (AParen _) = True"
| "is_paren_expr _ = False"

fun is_number_expr :: "SysmlExprAst \<Rightarrow> bool" where
  "is_number_expr (ANumber _) = True"
| "is_number_expr _ = False"

text \<open>\<^verbatim>\<open>render_binary_matlab\<close>, given the two rendered operands.\<close>

fun render_binary_matlab ::
  "SysmlBinOp \<Rightarrow> SysmlExprAst \<Rightarrow> SysmlExprAst \<Rightarrow> string \<Rightarrow> string \<Rightarrow> string" where
  "render_binary_matlab OpImplies lhs rhs l r = ''(~('' @ l @ '') || ('' @ r @ ''))''"
| "render_binary_matlab OpOr lhs rhs l r = l @ '' || '' @ r"
| "render_binary_matlab OpXor lhs rhs l r = ''xor('' @ l @ '', '' @ r @ '')''"
| "render_binary_matlab OpAnd lhs rhs l r = l @ '' && '' @ r"
| "render_binary_matlab OpEq lhs rhs l r = l @ '' == '' @ r"
| "render_binary_matlab OpNe lhs rhs l r = l @ '' ~= '' @ r"
| "render_binary_matlab OpGe lhs rhs l r = l @ '' >= '' @ r"
| "render_binary_matlab OpLe lhs rhs l r = l @ '' <= '' @ r"
| "render_binary_matlab OpGt lhs rhs l r = l @ '' > '' @ r"
| "render_binary_matlab OpLt lhs rhs l r = l @ '' < '' @ r"
| "render_binary_matlab OpAdd lhs rhs l r = l @ '' + '' @ r"
| "render_binary_matlab OpSub lhs rhs l r = l @ '' - '' @ r"
| "render_binary_matlab OpMul lhs rhs l r = l @ '' * '' @ r"
| "render_binary_matlab OpDiv lhs rhs l r = l @ '' / '' @ r"
| "render_binary_matlab OpRem lhs rhs l r = ''mod('' @ l @ '', '' @ r @ '')''"
| "render_binary_matlab OpPow lhs rhs l r =
     (let lhs_wrapped = (if is_binary_sysml_expr lhs then ''('' @ l @ '')'' else l);
          rhs_wrapped = (if is_pow_expr rhs then ''('' @ r @ '')'' else r)
      in lhs_wrapped @ '' ^ '' @ rhs_wrapped)"

fun render_unary_matlab :: "SysmlUnaryOp \<Rightarrow> SysmlExprAst \<Rightarrow> string \<Rightarrow> string" where
  "render_unary_matlab UnNot operand inner =
     (if is_paren_expr operand then ''~'' @ inner else ''~('' @ inner @ '')'')"
| "render_unary_matlab UnPlus operand inner =
     (if is_binary_sysml_expr operand \<or> is_unary_expr operand then ''+('' @ inner @ '')''
      else ''+'' @ inner)"
| "render_unary_matlab UnMinus operand inner =
     (if is_binary_sysml_expr operand \<or> is_unary_expr operand then ''-('' @ inner @ '')''
      else ''-'' @ inner)"

definition matlab_literal :: "string \<Rightarrow> string" where
  "matlab_literal lit = SQ # replace_char SQ [SQ, SQ] lit @ [SQ]"

function render_ast_matlab :: "SysmlExprAst \<Rightarrow> nat \<Rightarrow> string" where
  "render_ast_matlab ast depth =
     (if MAX_AST_RENDER_DEPTH < depth then ''true''
      else (let next_depth = Suc depth in case ast of
          AIdent ident \<Rightarrow> ident
        | ANumber num \<Rightarrow> num
        | AStringLit lit \<Rightarrow> matlab_literal lit
        | AParen inner \<Rightarrow> ''('' @ render_ast_matlab inner next_depth @ '')''
        | AUnary unop operand \<Rightarrow>
            render_unary_matlab unop operand (render_ast_matlab operand next_depth)
        | ABinary binop lhs rhs \<Rightarrow>
            render_binary_matlab binop lhs rhs (render_ast_matlab lhs next_depth)
              (render_ast_matlab rhs next_depth)
        | ACall callee args \<Rightarrow>
            render_ast_matlab callee next_depth
              @ ''('' @ join '', '' (map (\<lambda>a. render_ast_matlab a next_depth) args) @ '')''
        | AField base fld \<Rightarrow>
            (if is_binary_sysml_expr base
             then ''('' @ render_ast_matlab base next_depth @ '').'' @ fld
             else render_ast_matlab base next_depth @ ''.'' @ fld)
        | AIndex base indices \<Rightarrow>
            (if is_number_expr base then render_ast_matlab base next_depth
             else if is_binary_sysml_expr base
             then ''('' @ render_ast_matlab base next_depth @ '')(''
               @ join '', '' (map (\<lambda>i. render_ast_matlab i next_depth) indices) @ '')''
             else render_ast_matlab base next_depth @ ''(''
               @ join '', '' (map (\<lambda>i. render_ast_matlab i next_depth) indices) @ '')'')))"
  by pat_completeness auto
termination
  by (relation "measure (\<lambda>(ast, depth). size ast)") (auto dest: size_list_member)

declare render_ast_matlab.simps [simp del]

section \<open>The fallback\<close>

fun matlab_piece :: "SysmlToken \<Rightarrow> string" where
  "matlab_piece Implies = ''||''"
| "matlab_piece Or = ''||''"
| "matlab_piece Xor = ''~=''"
| "matlab_piece Ne = ''~=''"
| "matlab_piece And = ''&&''"
| "matlab_piece KeywordNot = ''~''"
| "matlab_piece Bang = ''~''"
| "matlab_piece Tilde = ''~''"
| "matlab_piece Eq = ''==''"
| "matlab_piece Ge = ''>=''"
| "matlab_piece Le = ''<=''"
| "matlab_piece Gt = ''>''"
| "matlab_piece Lt = ''<''"
| "matlab_piece Plus = ''+''"
| "matlab_piece Minus = ''-''"
| "matlab_piece Star = ''*''"
| "matlab_piece Slash = ''/''"
| "matlab_piece Percent = ''/''"
| "matlab_piece Pow = ''^''"
| "matlab_piece LParen = ''(''"
| "matlab_piece LBracket = ''(''"
| "matlab_piece RParen = '')''"
| "matlab_piece RBracket = '')''"
| "matlab_piece Comma = '',''"
| "matlab_piece Dot = ''.''"
| "matlab_piece (Ident ident) = ident"
| "matlab_piece (Number n) = n"
| "matlab_piece (StringLit s) = matlab_literal s"
| "matlab_piece (Unknown c) = []"

definition fallback_tokens_to_matlab :: "SysmlToken list \<Rightarrow> string" where
  "fallback_tokens_to_matlab tokens =
     (let parts = filter (\<lambda>piece. piece \<noteq> []) (map matlab_piece tokens)
      in if parts = [] then ''true'' else join '' '' parts)"

section \<open>The entry point\<close>

definition lower_sysml_expr_to_matlab :: "string \<Rightarrow> string" where
  "lower_sysml_expr_to_matlab expr =
     (let trimmed = trim_expr expr
      in if trimmed = [] then ''true''
         else (let tokens = tokenize_sysml_expr trimmed
           in (case parse_sysml_expr tokens of
                 Some ast \<Rightarrow> render_ast_matlab ast 0
               | None \<Rightarrow> fallback_tokens_to_matlab tokens)))"

interpretation matlab: ast_renderer render_ast_matlab
proof unfold_locales
  fix d d' a and b :: SysmlExprAst
  assume "MAX_AST_RENDER_DEPTH < d" "MAX_AST_RENDER_DEPTH < d'"
  then show "render_ast_matlab a d = render_ast_matlab b d'"
    by (simp add: render_ast_matlab.simps)
next
  fix d d' a
  assume d: "d \<le> MAX_AST_RENDER_DEPTH" "d' \<le> MAX_AST_RENDER_DEPTH"
    and c: "\<forall>c \<in> set (children a). render_ast_matlab c (Suc d) = render_ast_matlab c (Suc d')"
  then show "render_ast_matlab a d = render_ast_matlab a d'"
    unfolding render_ast_matlab.simps [of a d] render_ast_matlab.simps [of a d']
    by (cases a) (auto simp: Let_def cong: map_cong)
next
  fix b l l' r d
  assume "b \<noteq> OpPow" and l: "render_ast_matlab l (Suc d) = render_ast_matlab l' (Suc d)"
  then have "render_binary_matlab b l r x y = render_binary_matlab b l' r x y" for x y
    by (cases b) simp_all
  with l show "render_ast_matlab (ABinary b l r) d = render_ast_matlab (ABinary b l' r) d"
    by (simp add: render_ast_matlab.simps [of "ABinary b l r" d]
        render_ast_matlab.simps [of "ABinary b l' r" d])
qed

section \<open>MATLAB expressions\<close>

text \<open>
  The trees MATLAB reads, with its precedence levels: \<^verbatim>\<open>||\<close> is 1, \<^verbatim>\<open>&&\<close> 2, the comparisons 3,
  addition 4, multiplication 5, the prefix operators 6, the power 7, calls, fields and
  atoms 8. All infix operators associate to the left; the right operand of the power may be
  a prefix operator applied to an atom.
\<close>

datatype MExpr =
    MLeaf string
  | MGroup MExpr
  | MPrefix char MExpr
  | MInfix string nat MExpr MExpr
  | MApply MExpr "MExpr list"
  | MMember MExpr string

fun mlevel :: "MExpr \<Rightarrow> nat" where
  "mlevel (MPrefix c x) = 6"
| "mlevel (MInfix t p l r) = p"
| "mlevel _ = 8"

fun prefixed_atom :: "MExpr \<Rightarrow> bool" where
  "prefixed_atom (MPrefix c x) = (mlevel x = 8)"
| "prefixed_atom _ = False"

fun mtext :: "MExpr \<Rightarrow> string" where
  "mtext (MLeaf s) = s"
| "mtext (MGroup x) = ''('' @ mtext x @ '')''"
| "mtext (MPrefix c x) = c # mtext x"
| "mtext (MInfix t p l r) = mtext l @ '' '' @ t @ '' '' @ mtext r"
| "mtext (MApply f args) = mtext f @ ''('' @ join '', '' (map mtext args) @ '')''"
| "mtext (MMember x fld) = mtext x @ ''.'' @ fld"

fun mwell :: "MExpr \<Rightarrow> bool" where
  "mwell (MLeaf s) = True"
| "mwell (MGroup x) = mwell x"
| "mwell (MPrefix c x) = (mwell x \<and> 6 \<le> mlevel x)"
| "mwell (MInfix t p l r) =
     (1 \<le> p \<and> p \<le> 7 \<and> mwell l \<and> mwell r \<and> p \<le> mlevel l \<and> (p < mlevel r \<or> p = 7 \<and> prefixed_atom r))"
| "mwell (MApply f args) = (mwell f \<and> mlevel f = 8 \<and> list_all mwell args)"
| "mwell (MMember x fld) = (mwell x \<and> mlevel x = 8)"

text \<open>The MATLAB tree that a SysML tree stands for.\<close>

fun infix_of :: "SysmlBinOp \<Rightarrow> string \<times> nat" where
  "infix_of OpOr = (''||'', 1)"
| "infix_of OpAnd = (''&&'', 2)"
| "infix_of OpEq = (''=='', 3)"
| "infix_of OpNe = (''~='', 3)"
| "infix_of OpGe = (''>='', 3)"
| "infix_of OpLe = (''<='', 3)"
| "infix_of OpGt = (''>'', 3)"
| "infix_of OpLt = (''<'', 3)"
| "infix_of OpAdd = (''+'', 4)"
| "infix_of OpSub = (''-'', 4)"
| "infix_of OpMul = (''*'', 5)"
| "infix_of OpDiv = (''/'', 5)"
| "infix_of _ = (''^'', 7)"

definition mgroup_if :: "bool \<Rightarrow> MExpr \<Rightarrow> MExpr" where
  "mgroup_if b x = (if b then MGroup x else x)"

fun to_matlab :: "SysmlExprAst \<Rightarrow> MExpr" where
  "to_matlab (AIdent w) = MLeaf w"
| "to_matlab (ANumber n) = MLeaf n"
| "to_matlab (AStringLit s) = MLeaf (matlab_literal s)"
| "to_matlab (AParen a) = MGroup (to_matlab a)"
| "to_matlab (AUnary UnNot a) = MPrefix (CHR ''~'') (mgroup_if (\<not> is_paren_expr a) (to_matlab a))"
| "to_matlab (AUnary UnPlus a) =
     MPrefix (CHR ''+'') (mgroup_if (is_binary_sysml_expr a \<or> is_unary_expr a) (to_matlab a))"
| "to_matlab (AUnary UnMinus a) =
     MPrefix (CHR ''-'') (mgroup_if (is_binary_sysml_expr a \<or> is_unary_expr a) (to_matlab a))"
| "to_matlab (ABinary OpImplies l r) =
     MGroup (MInfix ''||'' 1 (MPrefix (CHR ''~'') (MGroup (to_matlab l))) (MGroup (to_matlab r)))"
| "to_matlab (ABinary OpXor l r) = MApply (MLeaf ''xor'') [to_matlab l, to_matlab r]"
| "to_matlab (ABinary OpRem l r) = MApply (MLeaf ''mod'') [to_matlab l, to_matlab r]"
| "to_matlab (ABinary OpPow l r) =
     MInfix ''^'' 7 (mgroup_if (is_binary_sysml_expr l) (to_matlab l))
       (mgroup_if (is_pow_expr r) (to_matlab r))"
| "to_matlab (ABinary b l r) = MInfix (fst (infix_of b)) (snd (infix_of b)) (to_matlab l) (to_matlab r)"
| "to_matlab (ACall c args) = MApply (to_matlab c) (map to_matlab args)"
| "to_matlab (AField b fld) = MMember (mgroup_if (is_binary_sysml_expr b) (to_matlab b)) fld"
| "to_matlab (AIndex b ixs) =
     (if is_number_expr b then to_matlab b
      else MApply (mgroup_if (is_binary_sysml_expr b) (to_matlab b)) (map to_matlab ixs))"

lemma mtext_group [simp]: "mtext (mgroup_if b x) = (if b then ''('' @ mtext x @ '')'' else mtext x)"
  by (simp add: mgroup_if_def)

text \<open>The equations of the renderer under the depth limit.\<close>

lemma render_matlab_eqs:
  assumes "d \<le> MAX_AST_RENDER_DEPTH"
  shows "render_ast_matlab (AIdent w) d = w"
    "render_ast_matlab (ANumber w) d = w"
    "render_ast_matlab (AStringLit w) d = matlab_literal w"
    "render_ast_matlab (AParen a) d = ''('' @ render_ast_matlab a (Suc d) @ '')''"
    "render_ast_matlab (AUnary u a) d = render_unary_matlab u a (render_ast_matlab a (Suc d))"
    "render_ast_matlab (ABinary b l r) d =
       render_binary_matlab b l r (render_ast_matlab l (Suc d)) (render_ast_matlab r (Suc d))"
    "render_ast_matlab (ACall a args) d = render_ast_matlab a (Suc d)
       @ ''('' @ join '', '' (map (\<lambda>a. render_ast_matlab a (Suc d)) args) @ '')''"
    "render_ast_matlab (AField a w) d =
       (if is_binary_sysml_expr a then ''('' @ render_ast_matlab a (Suc d) @ '').'' @ w
        else render_ast_matlab a (Suc d) @ ''.'' @ w)"
    "render_ast_matlab (AIndex a ixs) d =
       (if is_number_expr a then render_ast_matlab a (Suc d)
        else if is_binary_sysml_expr a then ''('' @ render_ast_matlab a (Suc d) @ '')(''
          @ join '', '' (map (\<lambda>i. render_ast_matlab i (Suc d)) ixs) @ '')''
        else render_ast_matlab a (Suc d) @ ''(''
          @ join '', '' (map (\<lambda>i. render_ast_matlab i (Suc d)) ixs) @ '')'')"
  using assms by (simp_all add: render_ast_matlab.simps [of _ d] Let_def)

lemma matlab_args:
  assumes "d + height a \<le> MAX_AST_RENDER_DEPTH" "set xs \<subseteq> set (children a)"
    and "\<And>x d. x \<in> set xs \<Longrightarrow> d + height x \<le> MAX_AST_RENDER_DEPTH \<Longrightarrow>
      render_ast_matlab x d = mtext (to_matlab x)"
  shows "\<forall>x \<in> set xs. render_ast_matlab x (Suc d) = mtext (to_matlab x)"
  using assms(1,2) height_child by (fastforce intro!: assms(3))

lemma matlab_text:
  "d + height a \<le> MAX_AST_RENDER_DEPTH \<Longrightarrow> render_ast_matlab a d = mtext (to_matlab a)"
proof (induction a arbitrary: d)
  case (AUnary u a)
  then show ?case by (cases u) (simp_all add: render_matlab_eqs mgroup_if_def)
next
  case (ABinary b l r)
  then show ?case by (cases b) (simp_all add: render_matlab_eqs Let_def)
next
  case (ACall c args)
  have "Suc d + height c \<le> MAX_AST_RENDER_DEPTH"
    using ACall.prems height_child [of c "ACall c args"] by simp
  moreover have "\<forall>x \<in> set args. render_ast_matlab x (Suc d) = mtext (to_matlab x)"
    by (rule matlab_args [OF ACall.prems]) (use ACall.IH in auto)
  ultimately show ?case
    using ACall by (auto simp: render_matlab_eqs comp_def cong: map_cong)
next
  case (AIndex c args)
  have "Suc d + height c \<le> MAX_AST_RENDER_DEPTH"
    using AIndex.prems height_child [of c "AIndex c args"] by simp
  moreover have "\<forall>x \<in> set args. render_ast_matlab x (Suc d) = mtext (to_matlab x)"
    by (rule matlab_args [OF AIndex.prems]) (use AIndex.IH in auto)
  ultimately show ?case
    using AIndex by (auto simp: render_matlab_eqs comp_def cong: map_cong)
qed (simp_all add: render_matlab_eqs)

section \<open>The rendered text respects MATLAB's precedence\<close>

lemma mlevel_postfix: "postfix_base a \<Longrightarrow> mlevel (to_matlab a) = 8"
  by (induction a) (auto simp: postfix_base_def mgroup_if_def elim: is_number_expr.elims)

text \<open>The level of an operator as an operand, where \<open>xor\<close>, \<open>mod\<close> and the implication are atoms.\<close>

definition op_mlevel :: "SysmlBinOp \<Rightarrow> nat" where
  "op_mlevel b = (if b = OpImplies \<or> b = OpXor \<or> b = OpRem then 8 else snd (infix_of b))"

lemma mlevel_to_matlab:
  "mlevel (to_matlab a) =
     (case a of ABinary b l r \<Rightarrow> op_mlevel b | AUnary u x \<Rightarrow> 6 | _ \<Rightarrow> mlevel (to_matlab a))"
proof (cases a)
  case (AUnary u x)
  then show ?thesis by (cases u) auto
next
  case (ABinary b l r)
  then show ?thesis by (cases b) (auto simp: op_mlevel_def)
qed auto

text \<open>The binding powers of the SysML grammar order the operators as MATLAB's levels do.\<close>

lemma levels_left: "left_power b < right_power b' \<Longrightarrow> b \<notin> {OpImplies, OpXor, OpRem} \<Longrightarrow>
    snd (infix_of b) \<le> op_mlevel b'"
  by (cases b; cases b') (auto simp: left_power_def right_power_def op_mlevel_def)

lemma levels_right: "right_power b \<le> left_power b' \<Longrightarrow> b \<notin> {OpImplies, OpXor, OpRem, OpPow} \<Longrightarrow>
    snd (infix_of b) < op_mlevel b'"
  by (cases b; cases b') (auto simp: left_power_def right_power_def op_mlevel_def)

lemma level_below: "b \<notin> {OpImplies, OpXor, OpRem, OpPow} \<Longrightarrow> 1 \<le> snd (infix_of b) \<and> snd (infix_of b) \<le> 5"
  by (cases b) auto

lemma left_level:
  assumes "spine_ok (left_power b) l" "b \<notin> {OpImplies, OpXor, OpRem, OpPow}"
  shows "snd (infix_of b) \<le> mlevel (to_matlab l)"
proof (cases "postfix_base l")
  case True
  then show ?thesis using level_below [OF assms(2)] by (simp add: mlevel_postfix)
next
  case False
  then show ?thesis using assms level_below [OF assms(2)] levels_left
    by (cases l; subst mlevel_to_matlab) (auto simp: postfix_base_def)
qed

lemma right_level:
  assumes "top_at_least (right_power b) r" "b \<notin> {OpImplies, OpXor, OpRem, OpPow}"
  shows "snd (infix_of b) < mlevel (to_matlab r)"
proof (cases "postfix_base r")
  case True
  then show ?thesis using level_below [OF assms(2)] by (simp add: mlevel_postfix)
next
  case False
  then show ?thesis using assms level_below [OF assms(2)] levels_right
    by (cases r; subst mlevel_to_matlab) (auto simp: postfix_base_def top_at_least_def)
qed

lemma loose_left: "\<not> left_power OpPow < right_power b" "\<not> left_power OpPow < unop_bp u x"
proof -
  have "left_power OpPow = 100" by (simp add: left_power_def)
  moreover have "unop_bp u x \<le> 90" by (simp add: unop_bp_def)
  ultimately show "\<not> left_power OpPow < right_power b" "\<not> left_power OpPow < unop_bp u x"
    using power_bounds(3) [of b] by simp_all
qed

lemma tightest_right: "right_power OpPow \<le> left_power b \<Longrightarrow> b = OpPow"
  by (cases b) (auto simp: left_power_def right_power_def)

lemma prefixed_atom_unary: "prefixed_atom (to_matlab (AUnary u x))"
proof -
  have "\<not> is_binary_sysml_expr x \<and> \<not> is_unary_expr x \<Longrightarrow> mlevel (to_matlab x) = 8"
    by (simp add: mlevel_postfix postfix_base_def)
  moreover have "is_paren_expr x \<Longrightarrow> mlevel (to_matlab x) = 8" by (cases x) auto
  ultimately show ?thesis by (cases u) (auto simp: mgroup_if_def)
qed

lemma power_operand: "\<not> is_binary_sysml_expr r \<Longrightarrow> mlevel (to_matlab r) = 8 \<or> prefixed_atom (to_matlab r)"
proof (cases "is_unary_expr r")
  case True
  then show ?thesis using prefixed_atom_unary by (cases r) auto
qed (simp add: mlevel_postfix postfix_base_def)

lemma mwell_to_matlab: "canonical a \<Longrightarrow> mwell (to_matlab a)"
proof (induction a)
  case (AUnary u a)
  have "\<not> is_binary_sysml_expr a \<and> \<not> is_unary_expr a \<Longrightarrow> mlevel (to_matlab a) = 8"
    by (simp add: mlevel_postfix postfix_base_def)
  moreover have "is_paren_expr a \<Longrightarrow> mlevel (to_matlab a) = 8" by (cases a) auto
  ultimately show ?case using AUnary by (cases u) (auto simp: mgroup_if_def)
next
  case (ABinary b l r)
  then have IH: "mwell (to_matlab l)" "mwell (to_matlab r)" by auto
  consider "b \<in> {OpImplies, OpXor, OpRem}" | "b = OpPow" | "b \<notin> {OpImplies, OpXor, OpRem, OpPow}"
    by blast
  then show ?case
  proof cases
    case 1
    with IH show ?thesis by auto
  next
    case 2
    have "\<not> is_binary_sysml_expr l \<and> \<not> is_unary_expr l"
      using ABinary.prems 2 loose_left by (cases l) simp_all
    moreover have "is_pow_expr r \<or> \<not> is_binary_sysml_expr r"
      using ABinary.prems 2 by (cases r) (auto simp: top_at_least_def dest: tightest_right)
    ultimately show ?thesis using 2 IH power_operand [of r]
      by (cases "is_pow_expr r") (auto simp: mgroup_if_def mlevel_postfix postfix_base_def)
  next
    case 3
    with ABinary.prems have "snd (infix_of b) \<le> mlevel (to_matlab l)" "snd (infix_of b) < mlevel (to_matlab r)"
      by (auto intro: left_level right_level)
    with 3 IH level_below [OF 3] show ?thesis by (cases b) auto
  qed
next
  case (ACall c args)
  then show ?case by (auto simp: mlevel_postfix list_all_iff)
next
  case (AField b fld)
  then show ?case by (auto simp: mlevel_postfix mgroup_if_def)
next
  case (AIndex b ixs)
  then show ?case by (auto simp: mlevel_postfix mgroup_if_def list_all_iff)
qed auto

end
