(* ===== verification/Expr_Lowering.thy ===== *)
theory Expr_Lowering
  imports Expr_Matlab
begin

text \<open>
  The properties of the expression pipeline: text, tokens, tree, KaTeX and MATLAB.
\<close>

section \<open>Spelling and trimming\<close>

abbreviation trimmed_char :: "char \<Rightarrow> bool" where
  "trimmed_char ch \<equiv> is_whitespace ch \<or> ch = CHR '';''"

fun no_unknown :: "SysmlToken \<Rightarrow> bool" where
  "no_unknown (Unknown c) = False"
| "no_unknown _ = True"

lemma trim_expr_id: "s = [] \<or> \<not> trimmed_char (hd s) \<and> \<not> trimmed_char (last s) \<Longrightarrow> trim_expr s = s"
  using dropWhile_keep [of s trimmed_char] dropWhile_keep [of "rev s" trimmed_char]
  by (auto simp: trim_expr_def trim_matches_def trim_end_matches_def hd_rev)

lemma ident_part_edge: "ident_part c \<or> ident_start c \<or> plain_char c \<and> \<not> is_whitespace c \<and> c \<noteq> CHR '';'' \<Longrightarrow> \<not> trimmed_char c"
  by (auto simp: ident_part_def ident_start_def is_alphanumeric_def is_numeric_def is_alphabetic_def
      is_ascii_alphabetic_def is_ascii_uppercase_def is_ascii_lowercase_def is_ascii_digit_def
      is_whitespace_def code_def)

lemma number_chars: "number_text n \<Longrightarrow> c \<in> set n \<Longrightarrow> \<not> trimmed_char c"
  using number_text_chars [of n c]
  by (auto simp: is_ascii_digit_def is_exp_char_def is_sign_char_def is_whitespace_def code_def)

lemma token_text_edges:
  assumes "token_ok t" "no_unknown t"
  shows "token_text t \<noteq> [] \<and> \<not> trimmed_char (hd (token_text t)) \<and> \<not> trimmed_char (last (token_text t))"
proof (cases "fixed_token t")
  case True
  then show ?thesis by (cases t) (simp_all add: is_whitespace_def code_def)
next
  case False
  then consider (Ident) w where "t = Ident w" | (Number) n where "t = Number n"
    | (StringLit) lit where "t = StringLit lit"
    using assms(2) by (cases t) auto
  then show ?thesis
  proof cases
    case Ident
    then have "w \<noteq> []" "\<forall>c \<in> set w. ident_part c \<or> ident_start c"
      using assms(1) by (cases w; auto simp: ident_text_def list_all_iff)+
    then show ?thesis using Ident ident_part_edge by (metis last_in_set list.set_sel(1) token_text.simps(26))
  next
    case Number
    then have "n \<noteq> []" using assms(1) by (auto simp: number_text_def)
    then show ?thesis using Number assms(1) number_chars by simp
  next
    case StringLit
    then show ?thesis by (simp add: is_whitespace_def code_def)
  qed
qed

lemma join_edges:
  assumes "xs \<noteq> []" "\<forall>x \<in> set xs. x \<noteq> [] \<and> \<not> P (hd x) \<and> \<not> P (last x)"
  shows "join sep xs \<noteq> [] \<and> \<not> P (hd (join sep xs)) \<and> \<not> P (last (join sep xs))"
  using assms by (induction sep xs rule: join.induct) auto

lemma trim_spell:
  assumes "list_all token_ok ts" "list_all no_unknown ts"
  shows "trim_expr (spell ts) = spell ts"
proof (cases ts)
  case Nil
  then show ?thesis by (simp add: spell_def trim_expr_id)
next
  case (Cons t ts')
  have "\<forall>x \<in> set (map token_text ts). x \<noteq> [] \<and> \<not> trimmed_char (hd x) \<and> \<not> trimmed_char (last x)"
    using assms token_text_edges by (auto simp: list_all_iff)
  then show ?thesis unfolding spell_def
    using join_edges [of "map token_text ts" trimmed_char "'' ''"] Cons by (intro trim_expr_id) auto
qed

lemma no_unknown_ops [simp]: "no_unknown (op_token b)" "no_unknown (unop_text u x)"
  by ((cases b; simp), (cases u; simp))

lemma tokens_of_no_unknown: "list_all no_unknown (tokens_of a)"
  by (induction a) auto

lemma spell_nonempty: "ts \<noteq> [] \<Longrightarrow> list_all token_ok ts \<Longrightarrow> list_all no_unknown ts \<Longrightarrow> spell ts \<noteq> []"
  using join_edges [of "map token_text ts" trimmed_char "'' ''"] token_text_edges
  by (auto simp: spell_def list_all_iff)

lemma lower_matlab_spell:
  assumes "ts \<noteq> []" "list_all token_ok ts" "list_all no_unknown ts"
  shows "lower_sysml_expr_to_matlab (spell ts) =
    (case parse_sysml_expr ts of
       Some ast \<Rightarrow> render_ast_matlab ast 0 | None \<Rightarrow> fallback_tokens_to_matlab ts)"
  using assms by (simp add: lower_sysml_expr_to_matlab_def trim_spell spell_nonempty tokenize_spell)

section \<open>The lexer\<close>

text \<open>
  C1: every token the lexer returns is well formed (identifiers are words that are no keyword,
  numbers are digits with at most one fraction and one exponent), and spelling the tokens out
  with blanks between them and reading the text again gives the same tokens.
\<close>

theorem lexer_tokens_reread:
  "list_all token_ok (tokenize_sysml_expr s) \<and>
   tokenize_sysml_expr (spell (tokenize_sysml_expr s)) = tokenize_sysml_expr s"
proof -
  have "list_all token_ok (tokenize_sysml_expr s)" by (simp add: list_all_iff tokenize_ok)
  then show ?thesis by (simp add: tokenize_spell)
qed

section \<open>The parser\<close>

text \<open>
  C2: a tree the parser returns spells exactly the tokens it was given (up to the three
  spellings of negation), has the shape the binding powers dictate, and nests within the limit.
\<close>

theorem parser_sound:
  assumes "parse_sysml_expr ts = Some a"
  shows "fringe a = map norm_token ts \<and> prec_ok a \<and> canonical a \<and> nesting a \<le> MAX_EXPR_DEPTH"
proof -
  have run: "expr_run 0 0 ts a []"
    using assms by (auto simp: parse_sysml_expr_def bind_eq_Some_conv split: if_splits intro: parser_runs)
  show ?thesis
    using run_fringe(1) [OF run] run_precedence(1) [OF run] run_canonical(1) [OF run]
      run_nesting(1) [OF run] by simp
qed

lemma parser_sound_witness:
  "prec_ok (ABinary OpAnd (AUnary UnNot (AIdent ''a'')) (AIdent ''b''))"
  using parser_sound [of "[KeywordNot, Ident ''a'', And, Ident ''b'']"
      "ABinary OpAnd (AUnary UnNot (AIdent ''a'')) (AIdent ''b'')"]
  by (simp add: parse_sysml_expr_def parse_expr.simps parse_prefix.simps parse_binary_loop.simps
      parse_postfix_primary.simps parse_postfix_loop.simps MAX_EXPR_DEPTH_def)

lemma parse_deep_parens:
  "MAX_EXPR_DEPTH < n \<Longrightarrow> parse_sysml_expr (replicate n LParen @ ts) = None"
  using parse_expr_deep_parens [of 0 n 0 ts] by (auto simp: parse_sysml_expr_def)

text \<open>
  C3: the parser reads every canonical tree within the depth limit back from its tokens, and
  refuses any token list that opens more brackets than the limit.
\<close>

theorem parser_complete:
  "(canonical a \<and> nesting a \<le> MAX_EXPR_DEPTH \<longrightarrow> parse_sysml_expr (tokens_of a) = Some a) \<and>
   (MAX_EXPR_DEPTH < n \<longrightarrow> parse_sysml_expr (replicate n LParen @ ts) = None)"
  by (simp add: canonical_parses parse_deep_parens)

lemma parser_complete_witness:
  "parse_sysml_expr (tokens_of (AParen (AIdent ''a''))) = Some (AParen (AIdent ''a'')) \<and>
   parse_sysml_expr (replicate 65 LParen @ [Ident ''a'']) = None"
  using parser_complete [of "AParen (AIdent ''a'')" 65 "[Ident ''a'']"] by (simp add: MAX_EXPR_DEPTH_def)

section \<open>KaTeX\<close>

text \<open>
  escaping a text for KaTeX loses nothing: reading the escapes back gives the text, so two
  identifiers never get the same escaped form.
\<close>

theorem escape_katex_reversible: "unescape_katex (escape_katex_ident raw) = raw"
  by (rule unescape_escape)

text \<open>
  C6: unless the input holds a LaTeX command outside quotes, what KaTeX receives is well formed,
  parsed or not: its braces are balanced and no active character stands without a backslash.
\<close>

theorem katex_output_well_formed:
  assumes "\<not> contains_latex_command_outside_quotes (trim_expr expr)"
  shows "katex_scan 0 (lower_sysml_expr_to_katex expr) = Some 0"
proof (rule katex_closed_scan)
  let ?ts = "tokenize_sysml_expr (trim_expr expr)"
  have "katex_closed (fallback_tokens_to_katex ?ts)"
    using tokenize_ok by (intro fallback_closed) blast
  moreover have "parse_sysml_expr ?ts = Some a \<Longrightarrow> katex_closed (render_ast_katex a 0)" for a
    using parse_leaves_ok by (intro render_closed) blast
  ultimately show "katex_closed (lower_sysml_expr_to_katex expr)"
    using assms by (simp add: lower_sysml_expr_to_katex_def Let_def split: option.split)
qed

lemma katex_output_well_formed_witness:
  "katex_scan 0 (lower_sysml_expr_to_katex ''mass_kg }= {5%'') = Some 0"
  by (rule katex_output_well_formed) code_simp

text \<open>
  hand-written KaTeX comes out without an unescaped percent or dollar sign and is not itself
  an \<^verbatim>\<open>aligned\<close> environment before its escapes, and cleaning up twice escapes nothing more.
\<close>

theorem sanitize_no_bare:
  "no_bare False (sanitize_preauthored_katex expr) \<and>
   escape_percent_dollar False (sanitize_preauthored_katex expr) = sanitize_preauthored_katex expr \<and>
   aligned_body (strip_aligned expr) = None"
proof -
  have "no_bare False katex_true" by (simp add: katex_true_def)
  then have n: "no_bare False (sanitize_preauthored_katex expr)"
    by (simp add: sanitize_preauthored_katex_def Let_def escape_percent_no_bare)
  then show ?thesis by (simp add: escape_percent_id strip_aligned_done)
qed

section \<open>MATLAB\<close>

text \<open>
  C5: for an input that parses and whose tree fits under the render limit, the MATLAB text is
  the text of a MATLAB expression tree whose nesting agrees with MATLAB's own precedence, so no
  operator of the output captures an operand that belonged to another one.
\<close>

theorem matlab_refinement:
  assumes "parse_sysml_expr (tokenize_sysml_expr (trim_expr expr)) = Some a"
    and "height a \<le> MAX_AST_RENDER_DEPTH"
  shows "lower_sysml_expr_to_matlab expr = mtext (to_matlab a) \<and> mwell (to_matlab a)"
proof -
  have "trim_expr expr \<noteq> []"
    using assms(1) by (auto simp: tokenize_simps parse_sysml_expr_def)
  then have "lower_sysml_expr_to_matlab expr = mtext (to_matlab a)"
    using assms matlab_text [of 0 a] by (simp add: lower_sysml_expr_to_matlab_def)
  moreover have "mwell (to_matlab a)"
    using assms(1) parse_canonical by (intro mwell_to_matlab) blast
  ultimately show ?thesis by blast
qed

lemma matlab_refinement_witness:
  "lower_sysml_expr_to_matlab ''a <= b * c and not d'' = ''a <= b * c && ~(d)''"
proof -
  let ?a = "ABinary OpAnd (ABinary OpLe (AIdent ''a'') (ABinary OpMul (AIdent ''b'') (AIdent ''c'')))
    (AUnary UnNot (AIdent ''d''))"
  have "parse_sysml_expr (tokenize_sysml_expr (trim_expr ''a <= b * c and not d'')) = Some ?a"
    by code_simp
  then have "lower_sysml_expr_to_matlab ''a <= b * c and not d'' = mtext (to_matlab ?a)"
    using matlab_refinement [of "''a <= b * c and not d''" ?a] by (simp add: MAX_AST_RENDER_DEPTH_def)
  also have "\<dots> = ''a <= b * c && ~(d)''" by (simp add: mgroup_if_def)
  finally show ?thesis .
qed

section \<open>What a MATLAB text of names and connectives means\<close>

text \<open>
  The reading of MATLAB on texts: \<open>matlab_value env p s b\<close> says that the text \<open>s\<close> is an expression of the
  level \<open>p\<close> of MATLAB's grammar and has the truth value \<open>b\<close>. It knows neither the trees of the compiler nor
  its renderer, and a text has one value only.
\<close>

definition name_char :: "char \<Rightarrow> bool" where
  "name_char c \<longleftrightarrow> c \<notin> set '' ()~|&,''"

definition matlab_name :: "string \<Rightarrow> bool" where
  "matlab_name w \<longleftrightarrow> w \<noteq> [] \<and> list_all name_char w"

inductive matlab_value :: "(string \<Rightarrow> bool) \<Rightarrow> nat \<Rightarrow> string \<Rightarrow> bool \<Rightarrow> bool" for env where
  value_name: "matlab_name w \<Longrightarrow> matlab_value env p w (env w)"
| value_group: "matlab_value env 1 s b \<Longrightarrow> matlab_value env p (''('' @ s @ '')'') b"
| value_not: "matlab_value env 6 s b \<Longrightarrow> p \<le> 6 \<Longrightarrow> matlab_value env p (''~'' @ s) (\<not> b)"
| value_and: "matlab_value env 2 l a \<Longrightarrow> matlab_value env 3 r b \<Longrightarrow> p \<le> 2 \<Longrightarrow> matlab_value env p (l @ '' && '' @ r) (a \<and> b)"
| value_or: "matlab_value env 1 l a \<Longrightarrow> matlab_value env 2 r b \<Longrightarrow> p \<le> 1 \<Longrightarrow> matlab_value env p (l @ '' || '' @ r) (a \<or> b)"
| value_xor: "matlab_value env 1 l a \<Longrightarrow> matlab_value env 1 r b \<Longrightarrow> matlab_value env p (''xor('' @ l @ '', '' @ r @ '')'') (a \<noteq> b)"

lemma value_lower:
  assumes v: "matlab_value env p s b" and q: "q \<le> p"
  shows "matlab_value env q s b"
  using v
proof (cases rule: matlab_value.cases)
  case value_name
  then show ?thesis by (auto intro: matlab_value.value_name)
next
  case (value_group s')
  then show ?thesis by (simp only:) (rule matlab_value.value_group)
next
  case (value_not s' b')
  with q show ?thesis by (simp only:) (rule matlab_value.value_not, simp_all)
next
  case (value_and l a r c)
  with q show ?thesis by (simp only:) (rule matlab_value.value_and, simp_all)
next
  case (value_or l a r c)
  with q show ?thesis by (simp only:) (rule matlab_value.value_or, simp_all)
next
  case (value_xor l a r c)
  then show ?thesis by (simp only:) (rule matlab_value.value_xor, simp_all)
qed

text \<open>Brackets, counted from the right, and characters outside of them.\<close>

definition open_close :: "string \<Rightarrow> int" where
  "open_close s = int (count_list s (CHR ''('')) - int (count_list s (CHR '')''))"

definition nested_text :: "string \<Rightarrow> bool" where
  "nested_text s \<longleftrightarrow> open_close s = 0 \<and> (\<forall>x y. s = x @ y \<longrightarrow> open_close y \<le> 0)"

definition outside :: "char \<Rightarrow> string \<Rightarrow> bool" where
  "outside c s \<longleftrightarrow> (\<exists>x y. s = x @ c # y \<and> open_close y = 0)"

lemma open_close_simps [simp]:
  "open_close [] = 0" "open_close (x @ y) = open_close x + open_close y"
  "open_close (c # s) = (if c = CHR ''('' then 1 else if c = CHR '')'' then - 1 else 0) + open_close s"
  by (simp_all add: open_close_def)

lemma nested_zero: "nested_text s \<Longrightarrow> open_close s = 0"
  by (simp add: nested_text_def)

lemma nested_text_append:
  assumes s: "nested_text s" and t: "nested_text t"
  shows "nested_text (s @ t)"
proof -
  have "open_close y \<le> 0" if eq: "s @ t = x @ y" for x y
  proof -
    from eq obtain us where "s = x @ us \<and> us @ t = y \<or> s @ us = x \<and> t = us @ y"
      unfolding append_eq_append_conv2 by blast
    then show ?thesis
    proof
      assume "s = x @ us \<and> us @ t = y"
      moreover from this have "open_close us \<le> 0" using s unfolding nested_text_def by blast
      ultimately show ?thesis using nested_zero [OF t] by auto
    next
      assume "s @ us = x \<and> t = us @ y"
      with t show ?thesis unfolding nested_text_def by blast
    qed
  qed
  with nested_zero [OF s] nested_zero [OF t] show ?thesis by (simp add: nested_text_def)
qed

lemma outside_append: "nested_text t \<Longrightarrow> outside c (s @ t) \<longleftrightarrow> outside c s \<or> outside c t"
proof
  assume t: "nested_text t" and "outside c (s @ t)"
  then obtain x y where xy: "s @ t = x @ c # y" "open_close y = 0" by (auto simp: outside_def)
  then consider us where "s = x @ us" "us @ t = c # y" | us where "s @ us = x" "t = us @ c # y"
    by (auto simp: append_eq_append_conv2)
  then show "outside c s \<or> outside c t"
  proof cases
    case 1
    show ?thesis
    proof (cases us)
      case Nil
      with 1 xy show ?thesis by (auto simp: outside_def intro: exI[of _ "[]"])
    next
      case (Cons d us')
      with 1 have "s = x @ c # us'" "y = us' @ t" by auto
      with xy(2) nested_zero[OF t] show ?thesis by (auto simp: outside_def)
    qed
  next
    case 2
    with xy(2) show ?thesis by (auto simp: outside_def)
  qed
next
  assume t: "nested_text t" and o: "outside c s \<or> outside c t"
  from o show "outside c (s @ t)"
  proof
    assume "outside c s"
    then obtain x y where "s = x @ c # y" "open_close y = 0" by (auto simp: outside_def)
    then have "s @ t = x @ c # (y @ t)" "open_close (y @ t) = 0" using nested_zero[OF t] by simp_all
    then show ?thesis unfolding outside_def by blast
  next
    assume "outside c t"
    then obtain x y where "t = x @ c # y" "open_close y = 0" by (auto simp: outside_def)
    then have "s @ t = (s @ x) @ c # y" "open_close y = 0" by simp_all
    then show ?thesis unfolding outside_def by blast
  qed
qed

lemma plain_nested: "list_all (\<lambda>c. c \<noteq> CHR ''('' \<and> c \<noteq> CHR '')'') s \<Longrightarrow> nested_text s"
proof -
  assume s: "list_all (\<lambda>c. c \<noteq> CHR ''('' \<and> c \<noteq> CHR '')'') s"
  have "open_close y = 0" if "list_all (\<lambda>c. c \<noteq> CHR ''('' \<and> c \<noteq> CHR '')'') y" for y
    using that by (induction y) auto
  with s show ?thesis by (auto simp: nested_text_def)
qed

lemma outside_member: "outside c s \<Longrightarrow> c \<in> set s"
  by (auto simp: outside_def)

lemma group_nested:
  assumes "nested_text s"
  shows "nested_text (''('' @ s @ '')'')" "c \<noteq> CHR ''('' \<Longrightarrow> c \<noteq> CHR '')'' \<Longrightarrow> \<not> outside c (''('' @ s @ '')'')"
proof -
  have tail: "open_close y \<le> - 1 \<or> y = []" if "s @ '')'' = x @ y" for x y
  proof (cases y rule: rev_cases)
    case (snoc y' d)
    with that have "s = x @ y'" "d = CHR '')''" by auto
    with assms snoc show ?thesis by (auto simp: nested_text_def)
  qed simp
  show "nested_text (''('' @ s @ '')'')"
    using tail nested_zero[OF assms] by (fastforce simp: nested_text_def Cons_eq_append_conv)
  show "\<not> outside c (''('' @ s @ '')'')" if c: "c \<noteq> CHR ''(''" "c \<noteq> CHR '')''"
  proof
    assume "outside c (''('' @ s @ '')'')"
    then obtain x y where xy: "CHR ''('' # s @ '')'' = x @ c # y" "open_close y = 0" by (auto simp: outside_def)
    with c obtain x' where x': "s @ '')'' = (x' @ [c]) @ y" by (cases x) auto
    with tail[OF x'] xy(2) have "y = []" by auto
    with x' c show False by simp
  qed
qed

text \<open>What the levels keep out of a text, outside of brackets.\<close>

lemma name_plain: "matlab_name w \<Longrightarrow> nested_text w \<and> (\<forall>c \<in> set '' ()~|&,''. \<not> outside c w)"
proof -
  assume w: "matlab_name w"
  then have "nested_text w" by (intro plain_nested) (auto simp: matlab_name_def name_char_def list_all_iff)
  moreover have "\<not> outside c w" if "c \<in> set '' ()~|&,''" for c
    using w that unfolding matlab_name_def name_char_def list_all_iff by (blast dest: outside_member)
  ultimately show ?thesis by blast
qed

lemma plain_outside: "open_close s = 0 \<Longrightarrow> c \<notin> set s \<Longrightarrow> \<not> outside c s"
  by (auto dest: outside_member)

lemma value_shape:
  "matlab_value env p s b \<Longrightarrow> nested_text s \<and> \<not> outside (CHR '','') s
     \<and> (2 \<le> p \<longrightarrow> \<not> outside (CHR ''|'') s) \<and> (3 \<le> p \<longrightarrow> \<not> outside (CHR ''&'') s)"
proof (induction rule: matlab_value.induct)
  case (value_name w p)
  then show ?case using name_plain[of w] by simp
next
  case (value_group s b p)
  then show ?case using group_nested[of s] by simp
next
  case (value_not s b p)
  have "nested_text ''~''" by (rule plain_nested) simp
  with value_not.IH nested_text_append[of "''~''" s] show ?case
    using plain_outside[of "''~''"] outside_append[of s _ "''~''"] by simp
next
  case (value_and l a r b p)
  have sep: "nested_text '' && ''" by (rule plain_nested) simp
  with value_and nested_text_append[of l "'' && '' @ r"] nested_text_append[of "'' && ''" r] show ?case
    using plain_outside[of "'' && ''"] outside_append[of "'' && '' @ r" _ l] outside_append[of r _ "'' && ''"] by simp
next
  case (value_or l a r b p)
  have sep: "nested_text '' || ''" by (rule plain_nested) simp
  with value_or nested_text_append[of l "'' || '' @ r"] nested_text_append[of "'' || ''" r] show ?case
    using plain_outside[of "'' || ''"] outside_append[of "'' || '' @ r" _ l] outside_append[of r _ "'' || ''"] by simp
next
  case (value_xor l a r b p)
  have "nested_text '', ''" "nested_text ''xor''" by (auto intro: plain_nested)
  then have i: "nested_text (l @ '', '' @ r)" using value_xor nested_text_append by blast
  have "nested_text (''xor'' @ ''('' @ (l @ '', '' @ r) @ '')'')"
    using group_nested(1)[OF i] nested_text_append[OF \<open>nested_text ''xor''\<close>] by blast
  moreover have "\<not> outside c (''xor'' @ ''('' @ (l @ '', '' @ r) @ '')'')" if "c \<in> {CHR '','', CHR ''|'', CHR ''&''}" for c
    using that outside_append[OF group_nested(1)[OF i], of c "''xor''"] group_nested(2)[OF i, of c] plain_outside[of "''xor''" c] by auto
  ultimately show ?case by simp
qed

text \<open>A text is split at the last of its outer separators.\<close>

lemma split_once_only:
  assumes "x @ c # y = x' @ c # y'" "\<not> outside c y" "\<not> outside c y'" "open_close y = 0" "open_close y' = 0"
  shows "x = x' \<and> y = y'"
proof -
  from assms(1) consider us where "x = x' @ us" "us @ c # y = c # y'" | us where "x @ us = x'" "c # y = us @ c # y'"
    by (auto simp: append_eq_append_conv2)
  then show ?thesis
  proof cases
    case 1
    show ?thesis
    proof (cases us)
      case (Cons d us')
      with 1 have "y' = us' @ c # y" by simp
      with assms show ?thesis by (auto simp: outside_def)
    qed (use 1 in simp)
  next
    case 2
    show ?thesis
    proof (cases us)
      case (Cons d us')
      with 2 have "y = us' @ c # y'" by simp
      with assms show ?thesis by (auto simp: outside_def)
    qed (use 2 in simp)
  qed
qed

lemma split_and:
  assumes "l @ '' && '' @ r = l' @ '' && '' @ r'" "matlab_value env 3 r b" "matlab_value env 3 r' b'"
  shows "l = l' \<and> r = r'"
proof -
  have o: "open_close ('' '' @ r) = 0 \<and> \<not> outside (CHR ''&'') ('' '' @ r)" if "matlab_value env 3 r b" for r b
    using value_shape[OF that] outside_append[of r "CHR ''&''" "'' ''"] plain_outside[of "'' ''" "CHR ''&''"] by (simp add: nested_text_def)
  have "(l @ '' &'') @ CHR ''&'' # ('' '' @ r) = (l' @ '' &'') @ CHR ''&'' # ('' '' @ r')" using assms(1) by simp
  from split_once_only[OF this] o[OF assms(2)] o[OF assms(3)] show ?thesis by simp
qed

lemma split_or:
  assumes "l @ '' || '' @ r = l' @ '' || '' @ r'" "matlab_value env 2 r b" "matlab_value env 2 r' b'"
  shows "l = l' \<and> r = r'"
proof -
  have o: "open_close ('' '' @ r) = 0 \<and> \<not> outside (CHR ''|'') ('' '' @ r)" if "matlab_value env 2 r b" for r b
    using value_shape[OF that] outside_append[of r "CHR ''|''" "'' ''"] plain_outside[of "'' ''" "CHR ''|''"] by (simp add: nested_text_def)
  have "(l @ '' |'') @ CHR ''|'' # ('' '' @ r) = (l' @ '' |'') @ CHR ''|'' # ('' '' @ r')" using assms(1) by simp
  from split_once_only[OF this] o[OF assms(2)] o[OF assms(3)] show ?thesis by simp
qed

lemma split_xor:
  assumes "l @ '', '' @ r = l' @ '', '' @ r'" "matlab_value env 1 r b" "matlab_value env 1 r' b'"
  shows "l = l' \<and> r = r'"
proof -
  have o: "open_close ('' '' @ r) = 0 \<and> \<not> outside (CHR '','') ('' '' @ r)" if "matlab_value env 1 r b" for r b
    using value_shape[OF that] outside_append[of r "CHR '',''" "'' ''"] plain_outside[of "'' ''" "CHR '',''"] by (simp add: nested_text_def)
  have "l @ CHR '','' # ('' '' @ r) = l' @ CHR '','' # ('' '' @ r')" using assms(1) by simp
  from split_once_only[OF this] o[OF assms(2)] o[OF assms(3)] show ?thesis by simp
qed

text \<open>The first characters and the outer separators tell the six forms apart.\<close>

lemma outer_sep:
  assumes "matlab_value env 2 l a" "matlab_value env 2 r b"
  shows "outside (CHR ''&'') (l @ '' && '' @ r)" "\<not> outside (CHR ''|'') (l @ '' && '' @ r)"
proof -
  have n: "nested_text r" "nested_text '' && ''" using value_shape[OF assms(2)] by (auto intro: plain_nested)
  have "'' && '' = '' &'' @ CHR ''&'' # '' ''" "open_close '' '' = 0" by simp_all
  then have "outside (CHR ''&'') '' && ''" unfolding outside_def by blast
  then have "outside (CHR ''&'') ('' && '' @ r)" using outside_append[OF n(1)] by blast
  then show "outside (CHR ''&'') (l @ '' && '' @ r)" using outside_append[OF nested_text_append[OF n(2,1)]] by blast
  show "\<not> outside (CHR ''|'') (l @ '' && '' @ r)"
    using outside_append[OF nested_text_append[OF n(2,1)], of _ l] outside_append[OF n(1), of _ "'' && ''"]
      value_shape[OF assms(1)] value_shape[OF assms(2)] plain_outside[of "'' && ''"] by simp
qed

lemma outer_or:
  assumes "matlab_value env 2 r b" shows "outside (CHR ''|'') (l @ '' || '' @ r)"
proof -
  have n: "nested_text r" "nested_text '' || ''" using value_shape[OF assms] by (auto intro: plain_nested)
  have "'' || '' = '' |'' @ CHR ''|'' # '' ''" "open_close '' '' = 0" by simp_all
  then have "outside (CHR ''|'') '' || ''" unfolding outside_def by blast
  then have "outside (CHR ''|'') ('' || '' @ r)" using outside_append[OF n(1)] by blast
  then show ?thesis using outside_append[OF nested_text_append[OF n(2,1)]] by blast
qed

text \<open>The form of a text: an \<^verbatim>\<open>||\<close>, an \<^verbatim>\<open>&&\<close>, or what its first characters say.\<close>

definition text_form :: "string \<Rightarrow> nat" where
  "text_form s =
     (if outside (CHR ''|'') s then 1 else if outside (CHR ''&'') s then 2
      else if s \<noteq> [] \<and> hd s = CHR ''~'' then 6 else if s \<noteq> [] \<and> hd s = CHR ''('' then 7
      else if CHR ''('' \<in> set s then 8 else 9)"

lemma text_forms:
  "matlab_name w \<Longrightarrow> text_form w = 9"
  "matlab_value env 1 s b \<Longrightarrow> text_form (''('' @ s @ '')'') = 7"
  "matlab_value env 6 s b \<Longrightarrow> text_form (''~'' @ s) = 6"
  "matlab_value env 2 l a \<Longrightarrow> matlab_value env 3 r b \<Longrightarrow> text_form (l @ '' && '' @ r) = 2"
  "matlab_value env 1 l a \<Longrightarrow> matlab_value env 2 r b \<Longrightarrow> text_form (l @ '' || '' @ r) = 1"
  "matlab_value env 1 l a \<Longrightarrow> matlab_value env 1 r b \<Longrightarrow> text_form (''xor('' @ l @ '', '' @ r @ '')'') = 8"
proof -
  show "text_form w = 9" if w: "matlab_name w"
  proof -
    have free: "c \<notin> set w" if "c \<in> set '' ()~|&,''" for c
      using w that unfolding matlab_name_def name_char_def list_all_iff by blast
    have "hd w \<in> set w" using w by (simp add: matlab_name_def)
    then have "CHR ''('' \<notin> set w" "hd w \<noteq> CHR ''('' \<and> hd w \<noteq> CHR ''~''"
      using free[of "CHR ''(''"] free[of "CHR ''~''"] by auto
    moreover have "\<not> outside (CHR ''|'') w" "\<not> outside (CHR ''&'') w" using name_plain[OF w] by simp_all
    ultimately show ?thesis by (simp add: text_form_def)
  qed
  show "text_form (''('' @ s @ '')'') = 7" if "matlab_value env 1 s b"
    using group_nested(2)[of s] value_shape[OF that] by (simp add: text_form_def)
  show "text_form (''~'' @ s) = 6" if "matlab_value env 6 s b"
    using value_shape[OF that] outside_append[of s _ "''~''"] plain_outside[of "''~''"] by (simp add: text_form_def)
  show "text_form (l @ '' && '' @ r) = 2" if "matlab_value env 2 l a" "matlab_value env 3 r b"
    using outer_sep[OF that(1) value_lower[OF that(2)]] by (simp add: text_form_def)
  show "text_form (l @ '' || '' @ r) = 1" if "matlab_value env 1 l a" "matlab_value env 2 r b"
    using outer_or[OF that(2)] by (simp add: text_form_def)
  show "text_form (''xor('' @ l @ '', '' @ r @ '')'') = 8" if "matlab_value env 1 l a" "matlab_value env 1 r b"
  proof -
    have x: "matlab_value env 9 (''xor('' @ l @ '', '' @ r @ '')'') (a \<noteq> b)" by (rule value_xor[OF that])
    show ?thesis using value_shape[OF x] by (simp add: text_form_def)
  qed
qed

lemma value_forms:
  assumes "matlab_value env q s b"
  shows "(text_form s = 9 \<and> b = env s) \<or>
    (text_form s = 7 \<and> (\<exists>t. s = ''('' @ t @ '')'' \<and> matlab_value env 1 t b)) \<or>
    (text_form s = 6 \<and> (\<exists>t c. s = ''~'' @ t \<and> matlab_value env 6 t c \<and> b = (\<not> c))) \<or>
    (text_form s = 2 \<and> (\<exists>l a r c. s = l @ '' && '' @ r \<and> matlab_value env 2 l a \<and> matlab_value env 3 r c \<and> b = (a \<and> c))) \<or>
    (text_form s = 1 \<and> (\<exists>l a r c. s = l @ '' || '' @ r \<and> matlab_value env 1 l a \<and> matlab_value env 2 r c \<and> b = (a \<or> c))) \<or>
    (text_form s = 8 \<and> (\<exists>l a r c. s = ''xor('' @ l @ '', '' @ r @ '')'' \<and> matlab_value env 1 l a \<and> matlab_value env 1 r c \<and> b = (a \<noteq> c)))"
  using assms
proof (cases rule: matlab_value.cases)
  case value_name
  with text_forms(1)[OF value_name(2)] show ?thesis by simp
next
  case (value_group t)
  have "text_form s = 7" unfolding value_group(1) by (rule text_forms(2)[OF value_group(2)])
  with value_group show ?thesis by blast
next
  case (value_not t c)
  have "text_form s = 6" unfolding value_not(1) by (rule text_forms(3)[OF value_not(3)])
  with value_not show ?thesis by blast
next
  case (value_and l a r c)
  have "text_form s = 2" unfolding value_and(1) by (rule text_forms(4)[OF value_and(3,4)])
  with value_and show ?thesis by blast
next
  case (value_or l a r c)
  have "text_form s = 1" unfolding value_or(1) by (rule text_forms(5)[OF value_or(3,4)])
  with value_or show ?thesis by blast
next
  case (value_xor l a r c)
  have "text_form s = 8" unfolding value_xor(1) by (rule text_forms(6)[OF value_xor(3,4)])
  with value_xor show ?thesis by blast
qed

lemma value_unique: "matlab_value env p s b \<Longrightarrow> matlab_value env q s b' \<Longrightarrow> b' = b"
proof (induction arbitrary: q b' rule: matlab_value.induct)
  case (value_name w p)
  show ?case using value_forms[OF value_name.prems] text_forms(1)[OF value_name.hyps] by simp
next
  case (value_group s b p)
  have "matlab_value env 1 s b'" using value_forms[OF value_group.prems] text_forms(2)[OF value_group.hyps] by auto
  then show ?case by (rule value_group.IH)
next
  case (value_not s b p)
  obtain c where "matlab_value env 6 s c" "b' = (\<not> c)"
    using value_forms[OF value_not.prems] text_forms(3)[OF value_not.hyps(1)] by auto
  with value_not.IH show ?case by blast
next
  case (value_and l a r b p)
  obtain l' a' r' c where "l @ '' && '' @ r = l' @ '' && '' @ r'" "matlab_value env 2 l' a'" "matlab_value env 3 r' c" "b' = (a' \<and> c)"
    using value_forms[OF value_and.prems] text_forms(4)[OF value_and.hyps(1,2)] by auto
  with split_and[OF this(1) value_and.hyps(2)] value_and.IH show ?case by blast
next
  case (value_or l a r b p)
  obtain l' a' r' c where "l @ '' || '' @ r = l' @ '' || '' @ r'" "matlab_value env 1 l' a'" "matlab_value env 2 r' c" "b' = (a' \<or> c)"
    using value_forms[OF value_or.prems] text_forms(5)[OF value_or.hyps(1,2)] by auto
  with split_or[OF this(1) value_or.hyps(2)] value_or.IH show ?case by blast
next
  case (value_xor l a r b p)
  obtain l' a' r' c where "''xor('' @ l @ '', '' @ r @ '')'' = ''xor('' @ l' @ '', '' @ r' @ '')''"
      "matlab_value env 1 l' a'" "matlab_value env 1 r' c" "b' = (a' \<noteq> c)"
    using value_forms[OF value_xor.prems] text_forms(6)[OF value_xor.hyps] by auto
  moreover from this(1) have "l @ '', '' @ r = l' @ '', '' @ r'" by simp
  ultimately show ?case using split_xor[OF _ value_xor.hyps(2), of l l'] value_xor.IH by blast
qed

text \<open>The propositional part of the SysML language and its truth values.\<close>

fun propositional :: "SysmlExprAst \<Rightarrow> bool" where
  "propositional (AIdent w) = matlab_name w"
| "propositional (AParen a) = propositional a"
| "propositional (AUnary UnNot a) = propositional a"
| "propositional (ABinary b l r) =
     (b \<in> {OpImplies, OpOr, OpXor, OpAnd} \<and> propositional l \<and> propositional r)"
| "propositional _ = False"

fun truth :: "(string \<Rightarrow> bool) \<Rightarrow> SysmlExprAst \<Rightarrow> bool" where
  "truth env (AIdent w) = env w"
| "truth env (AParen a) = truth env a"
| "truth env (AUnary UnNot a) = (\<not> truth env a)"
| "truth env (ABinary OpImplies l r) = (truth env l \<longrightarrow> truth env r)"
| "truth env (ABinary OpOr l r) = (truth env l \<or> truth env r)"
| "truth env (ABinary OpXor l r) = (truth env l \<noteq> truth env r)"
| "truth env (ABinary OpAnd l r) = (truth env l \<and> truth env r)"
| "truth env _ = False"

lemma value_grouped: "matlab_value env q s b \<Longrightarrow> 1 \<le> q \<Longrightarrow> matlab_value env p (''('' @ s @ '')'') b"
  by (rule value_group) (rule value_lower)

lemma mlevel_positive: "mwell m \<Longrightarrow> 1 \<le> mlevel m"
  by (cases m) auto

lemma tree_value:
  "propositional a \<Longrightarrow> mwell (to_matlab a) \<Longrightarrow> matlab_value env (mlevel (to_matlab a)) (mtext (to_matlab a)) (truth env a)"
proof (induction a rule: propositional.induct)
  case (1 w)
  then show ?case by (auto intro: value_name)
next
  case (2 a)
  then have "matlab_value env (mlevel (to_matlab a)) (mtext (to_matlab a)) (truth env a)" "1 \<le> mlevel (to_matlab a)"
    using mlevel_positive by auto
  then show ?case using value_grouped[of env _ "mtext (to_matlab a)" _ 8] by simp
next
  case (3 a)
  have a: "matlab_value env (mlevel (to_matlab a)) (mtext (to_matlab a)) (truth env a)" "1 \<le> mlevel (to_matlab a)"
    using 3 mlevel_positive by (auto simp: mgroup_if_def split: if_splits)
  show ?case
  proof (cases "is_paren_expr a")
    case True
    then obtain x where "to_matlab a = MGroup x" by (cases a) auto
    with a(1) value_lower[OF a(1), of 6] True show ?thesis using value_not[of env "mtext (to_matlab a)" "truth env a" 6] by (simp add: mgroup_if_def)
  next
    case False
    then show ?thesis using value_not[OF value_grouped[OF a], of 6] by (simp add: mgroup_if_def)
  qed
next
  case (4 b l r)
  show ?case
  proof (cases b)
    case OpImplies
    with 4 have l: "matlab_value env (mlevel (to_matlab l)) (mtext (to_matlab l)) (truth env l)" "1 \<le> mlevel (to_matlab l)"
      and r: "matlab_value env (mlevel (to_matlab r)) (mtext (to_matlab r)) (truth env r)" "1 \<le> mlevel (to_matlab r)"
      using mlevel_positive by auto
    have "matlab_value env 1 (''~'' @ ''('' @ mtext (to_matlab l) @ '')'') (\<not> truth env l)"
      using value_not[OF value_grouped[OF l], of 1] by simp
    from value_group[OF value_or[OF this value_grouped[OF r], of 1], of 8] OpImplies show ?thesis
      by simp
  next
    case OpOr
    with 4 have "matlab_value env 1 (mtext (to_matlab l)) (truth env l)" "matlab_value env 2 (mtext (to_matlab r)) (truth env r)"
      by (auto intro: value_lower)
    from value_or[OF this, of 1] OpOr show ?thesis by simp
  next
    case OpAnd
    with 4 have "matlab_value env 2 (mtext (to_matlab l)) (truth env l)" "matlab_value env 3 (mtext (to_matlab r)) (truth env r)"
      by (auto intro: value_lower)
    from value_and[OF this, of 2] OpAnd show ?thesis by simp
  next
    case OpXor
    with 4 have "matlab_value env 1 (mtext (to_matlab l)) (truth env l)" "matlab_value env 1 (mtext (to_matlab r)) (truth env r)"
      using mlevel_positive by (auto intro: value_lower)
    from value_xor[OF this, of 8] OpXor show ?thesis by simp
  qed (use 4 in auto)
qed auto

text \<open>
  C15: on propositional constraints the MATLAB text means what the SysML constraint means: read with MATLAB's
  own precedence, in every valuation of the names, the text has the truth value of the constraint and no
  other; the implication, which MATLAB lacks, included.
\<close>

theorem matlab_truth:
  assumes "parse_sysml_expr (tokenize_sysml_expr (trim_expr expr)) = Some a"
    and "height a \<le> MAX_AST_RENDER_DEPTH" and "propositional a"
  shows "matlab_value env 1 (lower_sysml_expr_to_matlab expr) b \<longleftrightarrow> b = truth env a"
proof -
  have "trim_expr expr \<noteq> []"
    using assms(1) by (auto simp: tokenize_simps parse_sysml_expr_def)
  then have lowered: "lower_sysml_expr_to_matlab expr = mtext (to_matlab a)"
    using assms(1,2) matlab_text [of 0 a] by (simp add: lower_sysml_expr_to_matlab_def)
  have well: "mwell (to_matlab a)"
    using assms(1) parse_canonical by (intro mwell_to_matlab) blast
  have "matlab_value env 1 (mtext (to_matlab a)) (truth env a)"
    by (rule value_lower[OF tree_value[OF assms(3) well] mlevel_positive[OF well]])
  then show ?thesis unfolding lowered using value_unique by blast
qed

lemma matlab_truth_witness:
  "matlab_value (\<lambda>w. w = ''b'') 1 (lower_sysml_expr_to_matlab ''a implies not b'') True"
proof -
  let ?a = "ABinary OpImplies (AIdent ''a'') (AUnary UnNot (AIdent ''b''))"
  have "parse_sysml_expr (tokenize_sysml_expr (trim_expr ''a implies not b'')) = Some ?a"
    by code_simp
  then show ?thesis
    using matlab_truth [of "''a implies not b''" ?a "\<lambda>w. w = ''b''" True]
    by (simp add: MAX_AST_RENDER_DEPTH_def matlab_name_def name_char_def)
qed

section \<open>From text to text\<close>

lemma latex_outside_plain:
  "list_all (\<lambda>c. c \<noteq> BS \<and> c \<noteq> DQ \<and> c \<noteq> SQ) s \<Longrightarrow>
     latex_outside None False (s @ r) = latex_outside None False r"
  by (induction s) auto

lemma latex_outside_quoted:
  "latex_outside (Some DQ) False (quote_lit lit @ DQ # r) = latex_outside None False r"
  by (induction lit) (auto simp: quote_lit_def)

lemma latex_outside_token:
  assumes "token_ok t" "no_unknown t"
  shows "latex_outside None False (token_text t @ r) = latex_outside None False r"
proof (cases "\<exists>lit. t = StringLit lit")
  case True
  then show ?thesis by (auto simp: latex_outside_quoted)
next
  case False
  have i: "ident_part c \<or> ident_start c \<Longrightarrow> c \<noteq> BS \<and> c \<noteq> DQ \<and> c \<noteq> SQ" for c
    by (auto simp: ident_part_def is_alphanumeric_def is_numeric_def lex_char_classes)
  have n: "number_text s \<Longrightarrow> c \<in> set s \<Longrightarrow> c \<noteq> BS \<and> c \<noteq> DQ \<and> c \<noteq> SQ" for c s
    by (drule (1) number_text_chars)
      (auto simp: is_exp_char_def is_sign_char_def is_ascii_digit_def code_def)
  have "list_all (\<lambda>c. c \<noteq> BS \<and> c \<noteq> DQ \<and> c \<noteq> SQ) (token_text t)"
  proof (cases "fixed_token t")
    case True
    then show ?thesis by (cases t) simp_all
  next
    case nf: False
    then consider (Ident) w where "t = Ident w" | (Number) m where "t = Number m"
      using assms(2) False by (cases t) auto
    then show ?thesis
    proof cases
      case Ident
      then have "\<forall>c \<in> set w. ident_part c \<or> ident_start c"
        using assms(1) by (cases w; auto simp: ident_text_def list_all_iff)+
      then show ?thesis using Ident i by (simp add: list_all_iff)
    next
      case Number
      then show ?thesis using assms(1) n by (simp add: list_all_iff)
    qed
  qed
  then show ?thesis by (rule latex_outside_plain)
qed

lemma spell_no_latex:
  "list_all token_ok ts \<Longrightarrow> list_all no_unknown ts \<Longrightarrow> \<not> latex_outside None False (spell ts)"
proof (induction ts rule: induct_list012)
  case (2 t)
  then show ?case using latex_outside_token [of t "[]"] by (simp add: spell_def)
next
  case (3 t t' ts)
  then show ?case using latex_outside_token [of t "CHR '' '' # spell (t' # ts)"]
    by (simp add: spell_def)
qed (simp add: spell_def)

lemma print_lower:
  assumes "canonical a" "leaves_ok a" "nesting a \<le> MAX_EXPR_DEPTH"
  shows "lower_sysml_expr_to_katex (spell (tokens_of a)) = render_ast_katex a 0 \<and>
    lower_sysml_expr_to_matlab (spell (tokens_of a)) = render_ast_matlab a 0"
proof -
  note t = leaves_ok_tokens [OF assms(2)] tokens_of_no_unknown [of a]
  have "parse_sysml_expr (tokens_of a) = Some a" using assms(1,3) by (rule canonical_parses)
  then show ?thesis
    using t spell_no_latex [OF t]
    by (simp add: lower_matlab_spell lower_sysml_expr_to_katex_def trim_spell spell_nonempty
        tokenize_spell contains_latex_command_outside_quotes_def)
qed

text \<open>
  C4: printing a canonical tree as text and lowering the text gives the rendering of that very
  tree, in KaTeX and in MATLAB: lexer, parser and renderers agree with one another.
\<close>

theorem print_lower_roundtrip:
  assumes "canonical a" "leaves_ok a" "nesting a \<le> MAX_EXPR_DEPTH"
  shows "lower_sysml_expr_to_katex (spell (tokens_of a)) = render_ast_katex a 0 \<and>
    lower_sysml_expr_to_matlab (spell (tokens_of a)) = render_ast_matlab a 0"
  using print_lower [OF assms] .

lemma print_lower_roundtrip_witness:
  "lower_sysml_expr_to_matlab ''( x . y ^ 2 )'' =
     render_ast_matlab (AParen (ABinary OpPow (AField (AIdent ''x'') ''y'') (ANumber ''2''))) 0"
proof -
  let ?a = "AParen (ABinary OpPow (AField (AIdent ''x'') ''y'') (ANumber ''2''))"
  have "canonical ?a" "nesting ?a \<le> MAX_EXPR_DEPTH"
    by (simp_all add: postfix_base_def top_at_least_def MAX_EXPR_DEPTH_def)
  moreover have "leaves_ok ?a" by code_simp
  moreover have "spell (tokens_of ?a) = ''( x . y ^ 2 )''" by (simp add: spell_def)
  ultimately show ?thesis using print_lower_roundtrip [of ?a] by simp
qed

section \<open>Beyond the limits\<close>

lemma chain_canonical:
  assumes "b \<noteq> OpImplies" "b \<noteq> OpPow"
  shows "canonical (foldl (ABinary b) (AIdent x) (map AIdent zs)) \<and>
    spine_ok (left_power b) (foldl (ABinary b) (AIdent x) (map AIdent zs)) \<and>
    nesting (foldl (ABinary b) (AIdent x) (map AIdent zs)) \<le> 1"
proof (induction zs rule: rev_induct)
  case (snoc z zs)
  have "left_power b < right_power b"
    using assms right_assoc_iff [of b] left_assoc_power [of b] by auto
  with snoc show ?case by (simp add: top_at_least_def)
qed simp

lemma chain_leaves:
  "ident_text x \<Longrightarrow> list_all ident_text zs \<Longrightarrow>
     leaves_ok (foldl (ABinary b) (AIdent x) (map AIdent zs))"
  by (induction zs rule: rev_induct) auto

text \<open>
  the render limit is silent. In a flat chain of more than 512 operands after the first,
  such as a long conjunction, the first operand does not reach the output: two chains that differ
  in it are lowered to the same KaTeX and the same MATLAB text.
\<close>

theorem long_chain_loses_head:
  assumes "b \<noteq> OpImplies" "b \<noteq> OpPow" "ident_text x" "ident_text y" "list_all ident_text zs"
    and "MAX_AST_RENDER_DEPTH < length zs"
  shows "lower_sysml_expr_to_matlab (spell (tokens_of (foldl (ABinary b) (AIdent x) (map AIdent zs)))) =
      lower_sysml_expr_to_matlab (spell (tokens_of (foldl (ABinary b) (AIdent y) (map AIdent zs)))) \<and>
    lower_sysml_expr_to_katex (spell (tokens_of (foldl (ABinary b) (AIdent x) (map AIdent zs)))) =
      lower_sysml_expr_to_katex (spell (tokens_of (foldl (ABinary b) (AIdent y) (map AIdent zs))))"
proof -
  let ?chain = "\<lambda>x. foldl (ABinary b) (AIdent x) (map AIdent zs)"
  have "lower_sysml_expr_to_katex (spell (tokens_of (?chain w))) = render_ast_katex (?chain w) 0 \<and>
      lower_sysml_expr_to_matlab (spell (tokens_of (?chain w))) = render_ast_matlab (?chain w) 0"
    if "ident_text w" for w
    using that assms chain_canonical [of b w zs] chain_leaves [of w zs b]
    by (intro print_lower) (auto simp: MAX_EXPR_DEPTH_def)
  moreover have "render_ast_katex (?chain x) 0 = render_ast_katex (?chain y) 0"
    using assms by (intro katex.long_chain) auto
  moreover have "render_ast_matlab (?chain x) 0 = render_ast_matlab (?chain y) 0"
    using assms by (intro matlab.long_chain) auto
  ultimately show ?thesis using assms(3,4) by simp
qed

lemma long_chain_loses_head_witness:
  "lower_sysml_expr_to_matlab
      (spell (tokens_of (foldl (ABinary OpAnd) (AIdent ''a'') (map AIdent (replicate 513 ''c''))))) =
    lower_sysml_expr_to_matlab
      (spell (tokens_of (foldl (ABinary OpAnd) (AIdent ''b'') (map AIdent (replicate 513 ''c'')))))"
proof (rule conjunct1 [OF long_chain_loses_head])
  show "ident_text ''a''" "ident_text ''b''" by code_simp+
  have "ident_text ''c''" by code_simp
  then show "list_all ident_text (replicate 513 ''c'')" by (simp only: list_all_iff set_replicate_conv_if) simp
  show "MAX_AST_RENDER_DEPTH < length (replicate 513 ''c'')"
    by (simp only: MAX_AST_RENDER_DEPTH_def length_replicate)
qed simp_all

lemma fallback_implies_or:
  "fallback_tokens_to_matlab (map (\<lambda>t. if t = Implies then Or else t) ts) = fallback_tokens_to_matlab ts"
proof -
  have "map (matlab_piece \<circ> (\<lambda>t. if t = Implies then Or else t)) ts = map matlab_piece ts" by simp
  then show ?thesis by (simp only: fallback_tokens_to_matlab_def map_map)
qed

text \<open>
  C7: an implication nested in more brackets than the parser follows is lowered to MATLAB as a
  disjunction, its negation lost: the text is the one of the same brackets around \<^verbatim>\<open>x || y\<close>, where
  the implication alone is lowered to \<^verbatim>\<open>(~(x) || (y))\<close>.
\<close>

theorem deep_implication_becomes_or:
  assumes "ident_text x" "ident_text y" "MAX_EXPR_DEPTH < n"
  shows "lower_sysml_expr_to_matlab
        (spell (replicate n LParen @ [Ident x, Implies, Ident y] @ replicate n RParen)) =
      lower_sysml_expr_to_matlab
        (spell (replicate n LParen @ [Ident x, Or, Ident y] @ replicate n RParen)) \<and>
    lower_sysml_expr_to_matlab (spell [Ident x, Implies, Ident y]) = ''(~('' @ x @ '') || ('' @ y @ ''))''"
proof -
  let ?deep = "\<lambda>t. replicate n LParen @ [Ident x, t, Ident y] @ replicate n RParen"
  have "lower_sysml_expr_to_matlab (spell (?deep t)) = fallback_tokens_to_matlab (?deep t)"
    if "t = Implies \<or> t = Or" for t
  proof -
    have "parse_sysml_expr (?deep t) = None" using assms(3) by (rule parse_deep_parens)
    moreover have "list_all token_ok (?deep t)" "list_all no_unknown (?deep t)"
      using assms that by (auto simp: list_all_iff)
    ultimately show ?thesis by (subst lower_matlab_spell) auto
  qed
  moreover have "fallback_tokens_to_matlab (?deep Or) = fallback_tokens_to_matlab (?deep Implies)"
    using fallback_implies_or [of "?deep Implies"] by simp
  ultimately have "lower_sysml_expr_to_matlab (spell (?deep Implies)) =
      lower_sysml_expr_to_matlab (spell (?deep Or))" by simp
  moreover have "lower_sysml_expr_to_matlab (spell [Ident x, Implies, Ident y]) = ''(~('' @ x @ '') || ('' @ y @ ''))''"
    using print_lower [of "ABinary OpImplies (AIdent x) (AIdent y)"] assms
    by (simp add: top_at_least_def MAX_EXPR_DEPTH_def MAX_AST_RENDER_DEPTH_def render_matlab_eqs)
  ultimately show ?thesis by blast
qed

lemma deep_implication_becomes_or_witness:
  "lower_sysml_expr_to_matlab
      (spell (replicate 65 LParen @ [Ident ''a'', Implies, Ident ''b''] @ replicate 65 RParen)) =
    lower_sysml_expr_to_matlab
      (spell (replicate 65 LParen @ [Ident ''a'', Or, Ident ''b''] @ replicate 65 RParen))"
proof (rule conjunct1 [OF deep_implication_becomes_or])
  show "ident_text ''a''" "ident_text ''b''" by code_simp+
qed (simp add: MAX_EXPR_DEPTH_def)

end
