(* ===== verification/BTree.thy ===== *)
theory BTree
  imports RustStr
begin

text \<open>
  The standard library's \<^verbatim>\<open>BTreeMap\<close> and \<^verbatim>\<open>BTreeSet\<close> as the components use them: a map is its
  entries in ascending key order, a set its elements in ascending order, which is the order the
  library iterates in. The laws clients rely on are the locales \<open>keyed_map\<close> and
  \<open>ordered_set\<close>, interpreted here on the lists.
\<close>

section \<open>Maps\<close>

type_synonym ('k, 'v) btree_map = "('k \<times> 'v) list"

fun bt_insert :: "'k::linorder \<Rightarrow> 'v \<Rightarrow> ('k, 'v) btree_map \<Rightarrow> ('k, 'v) btree_map" where
  "bt_insert k v [] = [(k, v)]"
| "bt_insert k v (e # m) =
     (if k < fst e then (k, v) # e # m
      else if k = fst e then (k, v) # m
      else e # bt_insert k v m)"

definition bt_get :: "('k, 'v) btree_map \<Rightarrow> 'k \<Rightarrow> 'v option" where
  "bt_get m k = map_of m k"

definition bt_keys :: "('k, 'v) btree_map \<Rightarrow> 'k list" where
  "bt_keys m = map fst m"

definition bt_contains :: "('k, 'v) btree_map \<Rightarrow> 'k \<Rightarrow> bool" where
  "bt_contains m k \<longleftrightarrow> bt_get m k \<noteq> None"

text \<open>\<^verbatim>\<open>entry(k).or_insert(v)\<close> and an update through \<^verbatim>\<open>get_mut\<close>.\<close>

definition bt_or_insert :: "'k::linorder \<Rightarrow> 'v \<Rightarrow> ('k, 'v) btree_map \<Rightarrow> ('k, 'v) btree_map" where
  "bt_or_insert k v m = (case bt_get m k of None \<Rightarrow> bt_insert k v m | Some _ \<Rightarrow> m)"

definition bt_modify :: "'k \<Rightarrow> ('v \<Rightarrow> 'v) \<Rightarrow> ('k, 'v) btree_map \<Rightarrow> ('k, 'v) btree_map" where
  "bt_modify k f m = map (\<lambda>(k', v). (k', if k' = k then f v else v)) m"

text \<open>\<^verbatim>\<open>collect()\<close> of pairs: later pairs replace earlier ones.\<close>

definition bt_collect :: "('k::linorder \<times> 'v) list \<Rightarrow> ('k, 'v) btree_map" where
  "bt_collect kvs = fold (\<lambda>(k, v). bt_insert k v) kvs []"

definition bt_sorted :: "('k::linorder, 'v) btree_map \<Rightarrow> bool" where
  "bt_sorted m \<longleftrightarrow> sorted_wrt (<) (bt_keys m)"

lemma bt_sorted_Nil [simp]: "bt_sorted []"
  by (simp add: bt_sorted_def bt_keys_def)

lemma bt_sorted_Cons: "bt_sorted (e # m) \<longleftrightarrow> (\<forall>k \<in> set (bt_keys m). fst e < k) \<and> bt_sorted m"
  by (simp add: bt_sorted_def bt_keys_def)

lemma bt_keys_insert: "set (bt_keys (bt_insert k v m)) = insert k (set (bt_keys m))"
  by (induction k v m rule: bt_insert.induct) (auto simp: bt_keys_def)

lemma bt_sorted_insert [simp]: "bt_sorted m \<Longrightarrow> bt_sorted (bt_insert k v m)"
proof (induction k v m rule: bt_insert.induct)
  case (2 k v e m)
  then show ?case using bt_keys_insert [of k v m]
    by (auto simp: bt_sorted_Cons) (auto simp: bt_keys_def)
qed (simp add: bt_sorted_def bt_keys_def)

lemma bt_get_insert: "bt_sorted m \<Longrightarrow> bt_get (bt_insert k v m) k' = (if k' = k then Some v else bt_get m k')"
proof (induction k v m rule: bt_insert.induct)
  case (2 k v e m)
  then show ?case by (cases e) (auto simp: bt_get_def bt_sorted_Cons)
qed (simp add: bt_get_def)

lemma bt_get_keys: "bt_get m k \<noteq> None \<longleftrightarrow> k \<in> set (bt_keys m)"
  by (auto simp: bt_get_def bt_keys_def map_of_eq_None_iff)

lemma bt_distinct: "bt_sorted m \<Longrightarrow> distinct (bt_keys m)"
  by (simp add: bt_sorted_def strict_sorted_iff)

lemma bt_get_entry: "bt_sorted m \<Longrightarrow> bt_get m k = Some v \<longleftrightarrow> (k, v) \<in> set m"
  using bt_distinct [of m] by (simp add: bt_get_def bt_keys_def)

lemma bt_keys_modify [simp]: "bt_keys (bt_modify k f m) = bt_keys m"
  by (induction m) (auto simp: bt_modify_def bt_keys_def)

lemma bt_sorted_modify [simp]: "bt_sorted (bt_modify k f m) = bt_sorted m"
  by (simp add: bt_sorted_def)

lemma bt_get_modify:
  "bt_get (bt_modify k f m) k' = (if k' = k then map_option f (bt_get m k') else bt_get m k')"
  by (induction m) (auto simp: bt_modify_def bt_get_def)

section \<open>The contract of a keyed map\<close>

locale keyed_map =
  fixes lookup :: "'m \<Rightarrow> 'k \<Rightarrow> 'v option"
    and put :: "'k \<Rightarrow> 'v \<Rightarrow> 'm \<Rightarrow> 'm"
    and new :: 'm
    and good :: "'m \<Rightarrow> bool"
  assumes good_new: "good new"
    and good_put: "good m \<Longrightarrow> good (put k v m)"
    and lookup_new: "lookup new k = None"
    and lookup_put: "good m \<Longrightarrow> lookup (put k v m) k' = (if k' = k then Some v else lookup m k')"
begin

definition put_all :: "('k \<times> 'v) list \<Rightarrow> 'm \<Rightarrow> 'm" where
  "put_all kvs m = fold (\<lambda>(k, v). put k v) kvs m"

lemma put_all_Cons: "put_all ((k, v) # kvs) m = put_all kvs (put k v m)"
  by (simp add: put_all_def)

lemma good_put_all: "good m \<Longrightarrow> good (put_all kvs m)"
  by (induction kvs arbitrary: m) (auto simp: put_all_def intro: good_put)

text \<open>After a run of insertions, a key holds the last value inserted for it.\<close>

lemma lookup_put_all:
  "good m \<Longrightarrow> lookup (put_all kvs m) k =
     (case map_of (rev kvs) k of Some v \<Rightarrow> Some v | None \<Rightarrow> lookup m k)"
proof (induction kvs arbitrary: m)
  case (Cons kv kvs)
  obtain k0 v0 where kv: "kv = (k0, v0)" by (cases kv)
  have "lookup (put_all kvs (put k0 v0 m)) k =
      (case map_of (rev kvs) k of Some v \<Rightarrow> Some v | None \<Rightarrow> lookup (put k0 v0 m) k)"
    using Cons by (intro Cons.IH good_put)
  then show ?case using Cons.prems kv
    by (auto simp: put_all_Cons lookup_put map_add_def split: option.splits)
qed (simp add: put_all_def)

lemma lookup_put_all_new: "lookup (put_all kvs new) k = map_of (rev kvs) k"
  by (simp add: lookup_put_all [OF good_new] lookup_new split: option.split)

end

interpretation btree: keyed_map bt_get bt_insert "[]" bt_sorted
  by unfold_locales (simp_all add: bt_get_insert, simp add: bt_get_def)

lemma bt_collect_put_all: "bt_collect kvs = btree.put_all kvs []"
  by (simp add: bt_collect_def btree.put_all_def)

lemma bt_sorted_collect [simp]: "bt_sorted (bt_collect kvs)"
  by (simp add: bt_collect_put_all btree.good_put_all)

lemma bt_get_collect: "bt_get (bt_collect kvs) k = map_of (rev kvs) k"
  by (simp add: bt_collect_put_all btree.lookup_put_all_new)

lemma bt_keys_collect: "set (bt_keys (bt_collect kvs)) = fst ` set kvs"
proof -
  have "k \<in> set (bt_keys (bt_collect kvs)) \<longleftrightarrow> k \<in> fst ` set kvs" for k
    using bt_get_keys [of "bt_collect kvs" k] by (auto simp: bt_get_collect map_of_eq_None_iff)
  then show ?thesis by blast
qed

lemma bt_sorted_or_insert [simp]: "bt_sorted m \<Longrightarrow> bt_sorted (bt_or_insert k v m)"
  by (simp add: bt_or_insert_def split: option.split)

lemma bt_get_or_insert: "bt_sorted m \<Longrightarrow> bt_get (bt_or_insert k v m) k' =
    (case bt_get m k' of Some w \<Rightarrow> Some w | None \<Rightarrow> if k' = k then Some v else None)"
  by (auto simp: bt_or_insert_def bt_get_insert split: option.split)

section \<open>Sets\<close>

type_synonym 'k btree_set = "'k list"

fun bs_insert :: "'k::linorder \<Rightarrow> 'k btree_set \<Rightarrow> 'k btree_set" where
  "bs_insert k [] = [k]"
| "bs_insert k (x # xs) =
     (if k < x then k # x # xs else if k = x then x # xs else x # bs_insert k xs)"

definition bs_collect :: "'k::linorder list \<Rightarrow> 'k btree_set" where
  "bs_collect ks = fold bs_insert ks []"

definition bs_sorted :: "'k::linorder btree_set \<Rightarrow> bool" where
  "bs_sorted xs \<longleftrightarrow> sorted_wrt (<) xs"

lemma bs_set_insert [simp]: "set (bs_insert k xs) = insert k (set xs)"
  by (induction k xs rule: bs_insert.induct) auto

lemma bs_sorted_insert [simp]: "bs_sorted xs \<Longrightarrow> bs_sorted (bs_insert k xs)"
  by (induction k xs rule: bs_insert.induct) (auto simp: bs_sorted_def)

lemma bs_sorted_Nil [simp]: "bs_sorted []"
  by (simp add: bs_sorted_def)

locale ordered_set =
  fixes add :: "'k::linorder \<Rightarrow> 'k list \<Rightarrow> 'k list"
    and ordered :: "'k list \<Rightarrow> bool"
  assumes ordered_Nil: "ordered []"
    and ordered_add: "ordered xs \<Longrightarrow> ordered (add k xs)"
    and members_add: "set (add k xs) = insert k (set xs)"
    and ordered_less: "ordered xs \<Longrightarrow> sorted_wrt (<) xs"
begin

lemma members_fold: "set (fold add ks xs) = set ks \<union> set xs"
  by (induction ks arbitrary: xs) (auto simp: members_add)

lemma ordered_fold: "ordered xs \<Longrightarrow> ordered (fold add ks xs)"
  by (induction ks arbitrary: xs) (auto simp: ordered_add)

text \<open>The order of insertion does not matter.\<close>

lemma fold_unique: "set ks = set ks' \<Longrightarrow> fold add ks [] = fold add ks' []"
  using ordered_less [OF ordered_fold [OF ordered_Nil]]
  by (metis members_fold strict_sorted_equal)

end

interpretation bset: ordered_set bs_insert bs_sorted
  by unfold_locales (simp_all, simp add: bs_sorted_def)

lemma bs_set_collect [simp]: "set (bs_collect ks) = set ks"
  by (simp add: bs_collect_def bset.members_fold)

lemma bs_sorted_collect [simp]: "bs_sorted (bs_collect ks)"
  by (simp add: bs_collect_def bset.ordered_fold)

lemma bs_sorted_distinct: "bs_sorted xs \<Longrightarrow> distinct xs"
  by (simp add: bs_sorted_def strict_sorted_iff)

end
