(* ===== verification/Sysml_Model.thy ===== *)
theory Sysml_Model
  imports BTree "HOL-Library.Word"
begin

text \<open>
  The SysML model the compiler works on, from \<^verbatim>\<open>deap-core/src/sysml_cst\<close>: every structure of
  \<^verbatim>\<open>package_model.rs\<close>, \<^verbatim>\<open>parts_and_ports.rs\<close>, \<^verbatim>\<open>actions.rs\<close>, \<^verbatim>\<open>states.rs\<close>,
  \<^verbatim>\<open>expressions.rs\<close>, \<^verbatim>\<open>requirements.rs\<close>, \<^verbatim>\<open>interactions.rs\<close>,
  \<^verbatim>\<open>connections_and_flows.rs\<close>, \<^verbatim>\<open>identifiers.rs\<close> and \<^verbatim>\<open>safety_and_fmeca.rs\<close> that a package holds,
  field by field in the order of the source, and the traversals of \<^verbatim>\<open>PackageDef\<close>. The fields of a
  structure carry a short prefix, since Isabelle's selectors share one name space. The structures
  that contain themselves are datatypes, the others records.
\<close>

text \<open>A 64-bit float by its bits (the model never computes with one), and a 32-bit integer.\<close>

type_synonym f64 = "64 word"
type_synonym i32 = "32 word"

section \<open>Structures\<close>

record AttributeDef =
  attr_name :: string
  attr_type_name :: string
  attr_default_value :: "string option"
  attr_doc :: "string option"

record FlowDef =
  flow_name :: string
  flow_direction :: string
  flow_item_type :: string
  flow_doc :: "string option"
  flow_rate_hz :: "f64 option"
  flow_unit :: "string option"
  flow_valid_range :: "string option"
  flow_default_value :: "string option"

record PortDef =
  port_name :: string
  port_type_name :: string
  port_direction :: string
  port_is_conjugated :: bool
  port_doc :: "string option"
  port_port_category :: string
  port_protocol_family :: string
  port_electrical_attributes :: "(string, string) btree_map"
  port_item_flows :: "FlowDef list"

record OperationDef =
  opn_name :: string
  opn_direction :: string
  opn_param_type :: string
  opn_return_type :: "string option"
  opn_doc :: "string option"
  opn_parameters :: "AttributeDef list"

record CapabilityDef =
  cap_name :: string
  cap_description :: "string option"
  cap_subsystem :: "string option"
  cap_package_ref :: "string option"
  cap_doc :: "string option"

record ItemDef =
  item_name :: string
  item_doc :: "string option"
  item_attributes :: "AttributeDef list"

record ActionDef =
  action_name :: string
  action_doc :: "string option"
  action_in_params :: "AttributeDef list"
  action_out_params :: "AttributeDef list"
  action_parameters :: "AttributeDef list"
  action_performer :: "string option"
  action_steps :: "string list"
  action_is_def :: bool

record ConstraintDef =
  con_name :: string
  con_expression :: string
  con_parameters :: "string list"
  con_is_assertion :: bool
  con_doc :: "string option"
  con_pre_conditions :: "string list"
  con_post_conditions :: "string list"

record CalcDef =
  calc_name :: string
  calc_doc :: "string option"
  calc_in_params :: "AttributeDef list"
  calc_return_type :: "string option"
  calc_expression :: "string option"

record RequirementDef =
  req_name :: string
  req_req_id :: string
  req_text :: string
  req_doc :: "string option"
  req_attributes :: "AttributeDef list"
  req_constraints :: "ConstraintDef list"
  req_assumes :: "string list"
  req_requires :: "string list"
  req_verified_by :: "string list"
  req_satisfied_by :: "string list"
  req_derived_from :: "string list"
  req_derives :: "string list"
  req_triggers_hazards :: "string list"
  req_safety_realises :: "string list"
  req_layer :: "string option"

record InteractionDef =
  inter_name :: string
  inter_lifelines :: "string list"
  inter_messages :: "string list"
  inter_triggers :: "string list"
  inter_doc :: "string option"

record UseCaseDef =
  ucase_name :: string
  ucase_doc :: "string option"
  ucase_subject :: "string option"
  ucase_actor :: "string option"
  ucase_actors :: "string list"
  ucase_objective :: "string option"
  ucase_includes :: "string list"
  ucase_extends :: "string list"
  ucase_steps :: "string list"
  ucase_preconditions :: "string list"
  ucase_postconditions :: "string list"

record TestCaseDef =
  tcase_name :: string
  tcase_subject_part :: "string option"
  tcase_verified_requirements :: "string list"
  tcase_objective :: "string option"
  tcase_test_steps :: "string list"
  tcase_doc :: "string option"

record TransitionDef =
  tx_name :: "string option"
  tx_source :: "string option"
  tx_target :: "string option"
  tx_trigger :: "string option"
  tx_guard :: "string option"
  tx_effect :: "string option"
  tx_doc :: "string option"

datatype StateDef = StateDef
  (state_name: string)
  (state_doc: "string option")
  (state_entry_action: "string option")
  (state_do_action: "string option")
  (state_exit_action: "string option")
  (state_transitions: "TransitionDef list")
  (state_sub_states: "StateDef list")

record HazardDef =
  hazard_name :: string
  hazard_doc :: "string option"
  hazard_severity :: i32
  hazard_source_port :: "string option"
  hazard_target_port :: "string option"
  hazard_part_ref :: "string option"

record RiskDef =
  risk_name :: string
  risk_doc :: "string option"
  risk_severity :: i32
  risk_hazard_ref :: "string option"
  risk_source_port :: "string option"
  risk_target_port :: "string option"

record ConnectionDef =
  conn_name :: string
  conn_source_port :: string
  conn_target_port :: string
  conn_source_part :: "string option"
  conn_target_part :: "string option"
  conn_doc :: "string option"
  conn_severity :: i32
  conn_item_flow_ref :: "string option"
  conn_protocol :: "string option"
  conn_latency_ms :: "f64 option"
  conn_is_flow :: bool

record ImportDef =
  import_path :: string
  import_is_wildcard :: bool
  import_is_recursive :: bool
  import_doc :: "string option"

datatype PartDef = PartDef
  (part_name: string)
  (part_doc: "string option")
  (part_is_def: bool)
  (part_type_name: "string option")
  (part_attributes: "AttributeDef list")
  (part_ports: "PortDef list")
  (part_actions: "ActionDef list")
  (part_constraints: "ConstraintDef list")
  (part_requirements: "RequirementDef list")
  (part_satisfied_requirements: "string list")
  (part_parts: "PartDef list")
  (part_operations: "OperationDef list")
  (part_capabilities: "CapabilityDef list")
  (part_interactions: "InteractionDef list")
  (part_test_cases: "TestCaseDef list")
  (part_states: "StateDef list")
  (part_use_cases: "UseCaseDef list")
  (part_item_defs: "ItemDef list")
  (part_hazards: "HazardDef list")
  (part_risks: "RiskDef list")
  (part_connections: "ConnectionDef list")
  (part_calcs: "CalcDef list")
  (part_triggers_hazards: "string list")
  (part_safety_realises: "string list")
  (part_layer: "string option")

datatype PackageDef = PackageDef
  (pkg_name: string)
  (pkg_doc: "string option")
  (pkg_parent_package: "string option")
  (pkg_imports: "ImportDef list")
  (pkg_packages: "PackageDef list")
  (pkg_part_defs: "PartDef list")
  (pkg_port_defs: "PortDef list")
  (pkg_attribute_defs: "AttributeDef list")
  (pkg_action_defs: "ActionDef list")
  (pkg_operation_defs: "OperationDef list")
  (pkg_capability_defs: "CapabilityDef list")
  (pkg_interaction_defs: "InteractionDef list")
  (pkg_constraint_defs: "ConstraintDef list")
  (pkg_test_case_defs: "TestCaseDef list")
  (pkg_requirement_defs: "RequirementDef list")
  (pkg_satisfied_requirements: "string list")
  (pkg_state_defs: "StateDef list")
  (pkg_use_case_defs: "UseCaseDef list")
  (pkg_item_defs: "ItemDef list")
  (pkg_hazard_defs: "HazardDef list")
  (pkg_risk_defs: "RiskDef list")
  (pkg_connection_defs: "ConnectionDef list")
  (pkg_calc_defs: "CalcDef list")

section \<open>Defaults\<close>

definition default_part :: PartDef where
  "default_part = PartDef [] None True None [] [] [] [] [] [] [] [] [] [] [] [] [] [] [] [] [] [] [] [] None"

definition default_package :: PackageDef where
  "default_package =
     PackageDef [] None None [] [] [] [] [] [] [] [] [] [] [] [] [] [] [] [] [] [] [] []"

definition default_constraint :: ConstraintDef where
  "default_constraint =
     \<lparr>con_name = [], con_expression = [], con_parameters = [], con_is_assertion = False,
      con_doc = None, con_pre_conditions = [], con_post_conditions = []\<rparr>"

definition default_action :: ActionDef where
  "default_action =
     \<lparr>action_name = [], action_doc = None, action_in_params = [], action_out_params = [],
      action_parameters = [], action_performer = None, action_steps = [], action_is_def = True\<rparr>"

section \<open>Worklists\<close>

text \<open>
  The traversals of the source pop a node from a stack and push its children reversed, so the
  next one popped is the first child. The stack is a list here, its top the head.
\<close>

lemma sum_size_less:
  "sum_list (map size (pkg_packages p)) < size p"
  "sum_list (map size (part_parts q)) < size q"
  by (cases p; simp add: size_list_conv_sum_list) (cases q; simp add: size_list_conv_sum_list)

lemma sum_filter_le: "sum_list (map f (filter P xs)) \<le> (sum_list (map f xs) :: nat)"
  by (induction xs) auto

function pop_packages :: "PackageDef list \<Rightarrow> PackageDef list" where
  "pop_packages [] = []"
| "pop_packages (pkg # stack) = pkg # pop_packages (pkg_packages pkg @ stack)"
  by pat_completeness auto
termination
  by (relation "measure (\<lambda>st. sum_list (map size st))") (auto simp: sum_size_less)

definition get_all_packages :: "PackageDef \<Rightarrow> PackageDef list" where
  "get_all_packages pkg = pop_packages [pkg]"

function pop_parts :: "PartDef list \<Rightarrow> PartDef list" where
  "pop_parts [] = []"
| "pop_parts (part # stack) = part # pop_parts (part_parts part @ stack)"
  by pat_completeness auto
termination
  by (relation "measure (\<lambda>st. sum_list (map size st))") (auto simp: sum_size_less)

definition collect_parts_preorder :: "PartDef list \<Rightarrow> PartDef list" where
  "collect_parts_preorder roots = pop_parts roots"

function pop_def_parts :: "PartDef list \<Rightarrow> PartDef list" where
  "pop_def_parts [] = []"
| "pop_def_parts (part # stack) = part # pop_def_parts (filter part_is_def (part_parts part) @ stack)"
  by pat_completeness auto
termination
  by (relation "measure (\<lambda>st. sum_list (map size st))")
    (auto intro: le_less_trans [OF sum_filter_le] simp: sum_size_less)

definition get_all_parts :: "PackageDef \<Rightarrow> PartDef list" where
  "get_all_parts pkg = concat (map (\<lambda>p. pop_def_parts (pkg_part_defs p)) (get_all_packages pkg))"

definition collect_package_and_part_items ::
  "(PackageDef \<Rightarrow> 'a list) \<Rightarrow> (PartDef \<Rightarrow> 'a list) \<Rightarrow> PackageDef \<Rightarrow> 'a list" where
  "collect_package_and_part_items pkg_items part_items self =
     concat (map (\<lambda>pkg. pkg_items pkg @
       concat (map part_items (collect_parts_preorder (pkg_part_defs pkg)))) (get_all_packages self))"

definition get_all_capabilities :: "PackageDef \<Rightarrow> CapabilityDef list" where
  "get_all_capabilities = collect_package_and_part_items pkg_capability_defs part_capabilities"

definition get_all_use_cases :: "PackageDef \<Rightarrow> UseCaseDef list" where
  "get_all_use_cases = collect_package_and_part_items pkg_use_case_defs part_use_cases"

definition get_all_interactions :: "PackageDef \<Rightarrow> InteractionDef list" where
  "get_all_interactions = collect_package_and_part_items pkg_interaction_defs part_interactions"

definition get_all_actions :: "PackageDef \<Rightarrow> ActionDef list" where
  "get_all_actions = collect_package_and_part_items pkg_action_defs part_actions"

definition get_all_constraints :: "PackageDef \<Rightarrow> ConstraintDef list" where
  "get_all_constraints = collect_package_and_part_items pkg_constraint_defs part_constraints"

definition get_all_attributes :: "PackageDef \<Rightarrow> AttributeDef list" where
  "get_all_attributes = collect_package_and_part_items pkg_attribute_defs part_attributes"

definition get_all_calcs :: "PackageDef \<Rightarrow> CalcDef list" where
  "get_all_calcs = collect_package_and_part_items pkg_calc_defs part_calcs"

definition get_all_ports :: "PackageDef \<Rightarrow> PortDef list" where
  "get_all_ports = collect_package_and_part_items pkg_port_defs part_ports"

definition get_all_hazards :: "PackageDef \<Rightarrow> HazardDef list" where
  "get_all_hazards = collect_package_and_part_items pkg_hazard_defs part_hazards"

definition get_all_risks :: "PackageDef \<Rightarrow> RiskDef list" where
  "get_all_risks = collect_package_and_part_items pkg_risk_defs part_risks"

definition get_all_states :: "PackageDef \<Rightarrow> StateDef list" where
  "get_all_states = collect_package_and_part_items pkg_state_defs part_states"

definition get_all_connections :: "PackageDef \<Rightarrow> ConnectionDef list" where
  "get_all_connections = collect_package_and_part_items pkg_connection_defs part_connections"

definition get_nested_ports :: "PackageDef \<Rightarrow> string btree_set" where
  "get_nested_ports self =
     bs_collect (map port_name (concat (map part_ports (concat (map (\<lambda>top.
       collect_parts_preorder (part_parts top)) (concat (map pkg_part_defs (get_all_packages self))))))))"

text \<open>The searches of \<^verbatim>\<open>find_part_mut\<close>: the part found, which the caller then changes in place.\<close>

definition find_part_in :: "string \<Rightarrow> PartDef \<Rightarrow> PartDef option" where
  "find_part_in name part = find (\<lambda>p. part_name p = name) (pop_parts [part])"

fun find_map :: "('a \<Rightarrow> 'b option) \<Rightarrow> 'a list \<Rightarrow> 'b option" where
  "find_map f [] = None"
| "find_map f (x # xs) = (case f x of Some y \<Rightarrow> Some y | None \<Rightarrow> find_map f xs)"

definition find_part :: "string \<Rightarrow> PackageDef \<Rightarrow> PartDef option" where
  "find_part name self =
     find_map (\<lambda>pkg. find_map (find_part_in name) (pkg_part_defs pkg)) (get_all_packages self)"

section \<open>The worklists visit in preorder\<close>

locale tree_walk =
  fixes subs :: "'n \<Rightarrow> 'n list"
    and walk :: "'n list \<Rightarrow> 'n list"
    and preorder :: "'n \<Rightarrow> 'n list"
    and weight :: "'n \<Rightarrow> nat"
  assumes walk_Nil: "walk [] = []"
    and walk_Cons: "walk (x # stack) = x # walk (subs x @ stack)"
    and preorder_eq: "preorder x = x # concat (map preorder (subs x))"
    and weight_subs: "sum_list (map weight (subs x)) < weight x"
begin

lemma walk_preorder: "walk stack = concat (map preorder stack)"
proof (induction "sum_list (map weight stack)" arbitrary: stack rule: less_induct)
  case less
  show ?case
  proof (cases stack)
    case (Cons x rest)
    then have "walk (subs x @ rest) = concat (map preorder (subs x @ rest))"
      using weight_subs [of x] by (intro less.hyps) simp
    with Cons show ?thesis using preorder_eq [of x] by (simp add: walk_Cons)
  qed (simp add: walk_Nil)
qed

lemma walk_append: "walk (xs @ ys) = walk xs @ walk ys"
  by (simp add: walk_preorder)

text \<open>What is visited is closed under children.\<close>

lemma walk_closed: "x \<in> set (walk stack) \<Longrightarrow> y \<in> set (subs x) \<Longrightarrow> y \<in> set (walk stack)"
proof (induction "sum_list (map weight stack)" arbitrary: stack rule: less_induct)
  case less
  then obtain z rest where st: "stack = z # rest" by (cases stack) (auto simp: walk_Nil)
  have y_in: "y \<in> set (preorder y)" using preorder_eq [of y] by (metis list.set_intros(1))
  show ?case
  proof (cases "x = z")
    case True
    then have "y \<in> set (walk (subs z @ rest))"
      using less.prems(2) y_in by (auto simp: walk_preorder)
    then show ?thesis by (simp add: st walk_Cons)
  next
    case False
    then have "x \<in> set (walk (subs z @ rest))" using less.prems(1) by (simp add: st walk_Cons)
    then have "y \<in> set (walk (subs z @ rest))"
      using less.prems(2) weight_subs [of z] by (intro less.hyps) (auto simp: st)
    then show ?thesis by (simp add: st walk_Cons)
  qed
qed

end

lemma size_sub: "q \<in> set (pkg_packages p) \<Longrightarrow> size q < size p"
  "r \<in> set (part_parts s) \<Longrightarrow> size r < size s"
  using member_le_sum_list [of "size q" "map size (pkg_packages p)"]
    member_le_sum_list [of "size r" "map size (part_parts s)"] sum_size_less
  by (auto intro: le_less_trans)

function package_preorder :: "PackageDef \<Rightarrow> PackageDef list" where
  "package_preorder p = p # concat (map package_preorder (pkg_packages p))"
  by auto
termination by (relation "measure size") (auto simp: size_sub)

function part_preorder :: "PartDef \<Rightarrow> PartDef list" where
  "part_preorder p = p # concat (map part_preorder (part_parts p))"
  by auto
termination by (relation "measure size") (auto simp: size_sub)

function def_preorder :: "PartDef \<Rightarrow> PartDef list" where
  "def_preorder p = p # concat (map def_preorder (filter part_is_def (part_parts p)))"
  by auto
termination by (relation "measure size") (auto simp: size_sub)

declare package_preorder.simps [simp del] part_preorder.simps [simp del] def_preorder.simps [simp del]

interpretation packages: tree_walk pkg_packages pop_packages package_preorder size
  by unfold_locales (simp_all add: sum_size_less package_preorder.simps)

interpretation parts: tree_walk part_parts pop_parts part_preorder size
  by unfold_locales (simp_all add: sum_size_less part_preorder.simps)

interpretation def_parts: tree_walk "\<lambda>p. filter part_is_def (part_parts p)" pop_def_parts def_preorder size
  by unfold_locales
    (simp_all add: def_preorder.simps le_less_trans [OF sum_filter_le] sum_size_less)

text \<open>The members of a tree of packages: those of a package, then those of its parts, parts of parts included.\<close>

definition items_preorder :: "(PackageDef \<Rightarrow> 'a list) \<Rightarrow> (PartDef \<Rightarrow> 'a list) \<Rightarrow> PackageDef \<Rightarrow> 'a list" where
  "items_preorder pkg_items part_items pkg =
     concat (map (\<lambda>p. pkg_items p @ concat (map part_items (concat (map part_preorder (pkg_part_defs p)))))
       (package_preorder pkg))"

lemma collected_items: "collect_package_and_part_items f g pkg = items_preorder f g pkg"
  by (simp add: collect_package_and_part_items_def items_preorder_def collect_parts_preorder_def get_all_packages_def
      packages.walk_preorder parts.walk_preorder)

lemma find_concat_map: "find P (concat (map f xs)) = find_map (\<lambda>x. find P (f x)) xs"
proof (induction xs)
  case (Cons x xs)
  have "find P (ys @ zs) = (case find P ys of Some y \<Rightarrow> Some y | None \<Rightarrow> find P zs)" for ys zs
    by (induction ys) auto
  with Cons show ?case by (simp split: option.split)
qed simp

text \<open>
  C8: the worklist traversals of a package visit its packages in preorder; the parts of each
  package in preorder, only definitions below the top level for \<^verbatim>\<open>get_all_parts\<close>; for each of the twelve
  kinds of members those of a package before those of its parts. The nested ports are the names of the ports
  of all parts below the top level, and a search by name returns the first part of that name in preorder.
\<close>

theorem traversals_preorder:
  "get_all_packages pkg = package_preorder pkg \<and>
   get_all_parts pkg =
     concat (map (\<lambda>p. concat (map def_preorder (pkg_part_defs p))) (package_preorder pkg)) \<and>
   get_all_capabilities pkg = items_preorder pkg_capability_defs part_capabilities pkg \<and>
   get_all_use_cases pkg = items_preorder pkg_use_case_defs part_use_cases pkg \<and>
   get_all_interactions pkg = items_preorder pkg_interaction_defs part_interactions pkg \<and>
   get_all_actions pkg = items_preorder pkg_action_defs part_actions pkg \<and>
   get_all_constraints pkg = items_preorder pkg_constraint_defs part_constraints pkg \<and>
   get_all_attributes pkg = items_preorder pkg_attribute_defs part_attributes pkg \<and>
   get_all_calcs pkg = items_preorder pkg_calc_defs part_calcs pkg \<and>
   get_all_ports pkg = items_preorder pkg_port_defs part_ports pkg \<and>
   get_all_hazards pkg = items_preorder pkg_hazard_defs part_hazards pkg \<and>
   get_all_risks pkg = items_preorder pkg_risk_defs part_risks pkg \<and>
   get_all_states pkg = items_preorder pkg_state_defs part_states pkg \<and>
   get_all_connections pkg = items_preorder pkg_connection_defs part_connections pkg \<and>
   get_nested_ports pkg =
     bs_collect (map port_name (concat (map part_ports (concat (map (\<lambda>p. concat (map part_preorder (part_parts p)))
       (concat (map pkg_part_defs (package_preorder pkg)))))))) \<and>
   find_part name pkg =
     find (\<lambda>p. part_name p = name)
       (concat (map (\<lambda>p. concat (map part_preorder (pkg_part_defs p))) (package_preorder pkg)))"
proof -
  have find_in: "find_part_in name = (\<lambda>p. find (\<lambda>q. part_name q = name) (part_preorder p))"
    by (simp add: fun_eq_iff find_part_in_def parts.walk_preorder)
  show ?thesis
    by (simp add: get_all_packages_def get_all_parts_def collected_items packages.walk_preorder def_parts.walk_preorder
        parts.walk_preorder find_part_def find_in find_concat_map get_nested_ports_def collect_parts_preorder_def
        get_all_capabilities_def get_all_use_cases_def get_all_interactions_def get_all_actions_def
        get_all_constraints_def get_all_attributes_def get_all_calcs_def get_all_ports_def get_all_hazards_def
        get_all_risks_def get_all_states_def get_all_connections_def)
qed

end
