(* ===== verification/Modular_Domain.thy ===== *)
theory Modular_Domain
  imports Sysml_Model
begin

text \<open>
  \<^verbatim>\<open>modular_codegen/domain\<close>: the modularity bounds and diagnostics (\<^verbatim>\<open>bounds.rs\<close>), the layer
  roles (\<^verbatim>\<open>layer_role.rs\<close>) and the module graph with the fixed-point check of the generated tree
  (\<^verbatim>\<open>module_graph.rs\<close>).
\<close>

section \<open>Bounds and diagnostics\<close>

record ModularityBounds =
  max_file_lines :: nat
  max_items_per_file :: nat
  max_cyclomatic_complexity :: nat
  max_action_steps_per_stage :: nat
  max_transitions_per_handler :: nat

definition canonical_bounds :: ModularityBounds where
  "canonical_bounds =
     \<lparr>max_file_lines = 400, max_items_per_file = 12, max_cyclomatic_complexity = 8,
      max_action_steps_per_stage = 5, max_transitions_per_handler = 6\<rparr>"

definition is_valid_envelope :: "ModularityBounds \<Rightarrow> bool" where
  "is_valid_envelope b \<longleftrightarrow>
     50 \<le> max_file_lines b \<and> max_file_lines b \<le> 400
     \<and> 1 \<le> max_items_per_file b \<and> max_items_per_file b \<le> 12
     \<and> 1 \<le> max_cyclomatic_complexity b \<and> max_cyclomatic_complexity b \<le> 8
     \<and> 1 \<le> max_action_steps_per_stage b \<and> max_action_steps_per_stage b \<le> 8
     \<and> 1 \<le> max_transitions_per_handler b \<and> max_transitions_per_handler b \<le> 8"

datatype ModularityErrorCode =
    DirectedCycleE0702
  | UpwardLayerImportE0703
  | BoundsViolationE0704
  | FixedPointDriftE0705
  | IoFailureE0706

fun error_code :: "ModularityErrorCode \<Rightarrow> string" where
  "error_code DirectedCycleE0702 = ''E0702''"
| "error_code UpwardLayerImportE0703 = ''E0703''"
| "error_code BoundsViolationE0704 = ''E0704''"
| "error_code FixedPointDriftE0705 = ''E0705''"
| "error_code IoFailureE0706 = ''E0706''"

record ModularityDiagnostic =
  diag_code :: ModularityErrorCode
  diag_element :: string
  diag_message :: string

definition new_diagnostic :: "ModularityErrorCode \<Rightarrow> string \<Rightarrow> string \<Rightarrow> ModularityDiagnostic" where
  "new_diagnostic c element message =
     \<lparr>diag_code = c, diag_element = element, diag_message = message\<rparr>"

definition show_diagnostic :: "ModularityDiagnostic \<Rightarrow> string" where
  "show_diagnostic d =
     ''['' @ error_code (diag_code d) @ ''] '' @ diag_element d @ '': '' @ diag_message d"

section \<open>Layers\<close>

datatype LayerRole = Domain | Application | Presentation

fun tier :: "LayerRole \<Rightarrow> nat" where
  "tier Domain = 1"
| "tier Application = 2"
| "tier Presentation = 3"

fun layer_as_str :: "LayerRole \<Rightarrow> string" where
  "layer_as_str Domain = ''Domain''"
| "layer_as_str Application = ''Application''"
| "layer_as_str Presentation = ''Presentation''"

definition layer_tokens :: "(string \<times> LayerRole) list" where
  "layer_tokens =
     [(''domain'', Domain), (''application'', Application), (''lowering'', Application),
      (''presentation'', Presentation), (''emitters'', Presentation), (''ui'', Presentation)]"

definition layer_suffixes :: "(string \<times> LayerRole) list" where
  "layer_suffixes =
     [(''_domain'', Domain), (''_application'', Application), (''_lowering'', Application),
      (''_presentation'', Presentation), (''_emitters'', Presentation)]"

text \<open>\<^verbatim>\<open>trim_matches('"')\<close>, which many parts of the compiler use to unquote a value.\<close>

definition trim_quotes :: "string \<Rightarrow> string" where
  "trim_quotes s = trim_matches (\<lambda>c. c = DQ) s"

definition from_annotation :: "string \<Rightarrow> LayerRole option" where
  "from_annotation raw =
     (let normalized = map to_ascii_lower (trim (trim_quotes (trim raw)))
      in case find (\<lambda>(token, role). normalized = token) layer_tokens of
           Some (token, role) \<Rightarrow> Some role
         | None \<Rightarrow> map_option snd (find (\<lambda>(suffix, role). ends_with normalized suffix) layer_suffixes))"

definition resolve_part_layer :: "string option \<Rightarrow> string list \<Rightarrow> LayerRole" where
  "resolve_part_layer own_layer package_path =
     (case Option.bind own_layer from_annotation of
        Some role \<Rightarrow> role
      | None \<Rightarrow>
          (case find_map from_annotation (rev package_path) of
             Some role \<Rightarrow> role
           | None \<Rightarrow> Domain))"

definition permits_dependency_on :: "LayerRole \<Rightarrow> LayerRole \<Rightarrow> bool" where
  "permits_dependency_on self target \<longleftrightarrow> tier target \<le> tier self"

text \<open>The derived order of the enum is the order of the tiers.\<close>

instantiation LayerRole :: linorder
begin

definition less_eq_LayerRole :: "LayerRole \<Rightarrow> LayerRole \<Rightarrow> bool" where
  "less_eq_LayerRole a b \<longleftrightarrow> tier a \<le> tier b"

definition less_LayerRole :: "LayerRole \<Rightarrow> LayerRole \<Rightarrow> bool" where
  "less_LayerRole a b \<longleftrightarrow> tier a < tier b"

instance
proof
  fix a b c :: LayerRole
  show "a < b \<longleftrightarrow> a \<le> b \<and> \<not> b \<le> a" by (auto simp: less_eq_LayerRole_def less_LayerRole_def)
  show "a \<le> a" by (simp add: less_eq_LayerRole_def)
  show "a \<le> b \<Longrightarrow> b \<le> c \<Longrightarrow> a \<le> c" by (simp add: less_eq_LayerRole_def)
  show "a \<le> b \<Longrightarrow> b \<le> a \<Longrightarrow> a = b"
    by (cases a; cases b) (simp_all add: less_eq_LayerRole_def)
  show "a \<le> b \<or> b \<le> a" by (auto simp: less_eq_LayerRole_def)
qed

end

lemma permits_iff: "permits_dependency_on a b \<longleftrightarrow> b \<le> a"
  by (simp add: permits_dependency_on_def less_eq_LayerRole_def)

section \<open>The module graph\<close>

datatype UnitKind =
    BarrelFacade | PartModelFacet | PartInvariantsFacet | PartPortsFacet | PartActionsFacet
  | PartStatesFacet | PartCalcsFacet | StandalonePort | StandaloneAction | StandaloneState
  | StandaloneCalc

record HoistedPredicate =
  hp_fn_name :: string
  hp_params :: "(string \<times> string) list"
  hp_rust_expr :: string
  hp_cyclomatic_complexity :: nat

record OutlinedActionStage =
  stage_index :: nat
  stage_fn_name :: string
  stage_steps :: "string list"

record OutlinedActionPlan =
  plan_action_name :: string
  plan_in_params :: "(string \<times> string) list"
  plan_out_params :: "(string \<times> string) list"
  plan_stages :: "OutlinedActionStage list"

record OutlinedStateHandler =
  handler_source_state :: string
  handler_fn_name :: string
  handler_transitions :: "(string \<times> string) list"
  handler_cyclomatic_complexity :: nat

record OutlinedStateMachinePlan =
  sm_state_def_name :: string
  sm_states :: "string list"
  sm_initial_state :: string
  sm_handlers :: "OutlinedStateHandler list"

record CompilationUnit =
  unit_id :: string
  relative_path :: string
  package_path :: "string list"
  unit_layer :: LayerRole
  unit_kind :: UnitKind
  child_modules :: "string list"
  reexport_children :: bool
  unit_part_def :: "PartDef option"
  unit_port_defs :: "PortDef list"
  unit_calc_defs :: "CalcDef list"
  hoisted_predicates :: "HoistedPredicate list"
  action_plans :: "OutlinedActionPlan list"
  state_plans :: "OutlinedStateMachinePlan list"

record DependencyEdge =
  from_unit :: string
  to_unit :: string
  from_layer :: LayerRole
  to_layer :: LayerRole
  edge_reason :: string

record ModuleGraph =
  root_package_name :: string
  graph_units :: "CompilationUnit list"
  graph_edges :: "DependencyEdge list"
  topological_order :: "string list"

record GeneratedFileDigest =
  file_relative_path :: string
  file_sha256 :: string
  file_line_count :: nat
  file_item_count :: nat
  file_max_cyclomatic_complexity :: nat

record GeneratedTreeManifest =
  manifest_files :: "GeneratedFileDigest list"
  tree_sha256 :: string

definition file_drift :: "GeneratedFileDigest \<Rightarrow> GeneratedFileDigest \<Rightarrow> bool" where
  "file_drift lhs rhs \<longleftrightarrow>
     file_relative_path lhs \<noteq> file_relative_path rhs \<or> file_sha256 lhs \<noteq> file_sha256 rhs"

definition verify_fixed_point ::
  "GeneratedTreeManifest \<Rightarrow> GeneratedTreeManifest \<Rightarrow> ModularityDiagnostic + unit" where
  "verify_fixed_point self other =
     (if length (manifest_files self) \<noteq> length (manifest_files other) then
        Inl (new_diagnostic FixedPointDriftE0705 ''GeneratedTreeManifest''
          (''file count drift: stage1='' @ decimal (length (manifest_files self))
            @ '' vs stage2='' @ decimal (length (manifest_files other))))
      else
        (case find (\<lambda>(lhs, rhs). file_drift lhs rhs) (zip (manifest_files self) (manifest_files other)) of
           Some (lhs, rhs) \<Rightarrow>
             Inl (new_diagnostic FixedPointDriftE0705 (file_relative_path lhs)
               (''per-file SHA-256 drift on '' @ SQ # file_relative_path lhs @ [SQ] @ '' vs ''
                 @ SQ # file_relative_path rhs @ [SQ]))
         | None \<Rightarrow>
             (if tree_sha256 self \<noteq> tree_sha256 other then
                Inl (new_diagnostic FixedPointDriftE0705 ''tree_sha256''
                  (''tree SHA-256 drift: '' @ tree_sha256 self @ '' != '' @ tree_sha256 other))
              else Inr ())))"

text \<open>What the check compares of a manifest.\<close>

definition manifest_view :: "GeneratedTreeManifest \<Rightarrow> (string \<times> string) list \<times> string" where
  "manifest_view m = (map (\<lambda>f. (file_relative_path f, file_sha256 f)) (manifest_files m), tree_sha256 m)"

lemma no_drift_iff:
  "length fs = length gs \<Longrightarrow>
     find (\<lambda>(lhs, rhs). file_drift lhs rhs) (zip fs gs) = None \<longleftrightarrow>
     map (\<lambda>f. (file_relative_path f, file_sha256 f)) fs =
       map (\<lambda>f. (file_relative_path f, file_sha256 f)) gs"
  by (induction fs gs rule: list_induct2) (auto simp: file_drift_def)

text \<open>
  two manifests are a fixed point exactly when they list the same paths with the same digests
  in the same order under the same tree digest; any other pair is refused with code E0705, and the
  check does not depend on which manifest comes first.
\<close>

theorem fixed_point_iff:
  "(verify_fixed_point m m' = Inr () \<longleftrightarrow> manifest_view m = manifest_view m') \<and>
   (verify_fixed_point m m' = Inr () \<longleftrightarrow> verify_fixed_point m' m = Inr ()) \<and>
   (\<forall>d. verify_fixed_point m m' = Inl d \<longrightarrow> diag_code d = FixedPointDriftE0705)"
proof -
  have iff: "verify_fixed_point m m' = Inr () \<longleftrightarrow> manifest_view m = manifest_view m'" for m m'
  proof (cases "length (manifest_files m) = length (manifest_files m')")
    case True
    from no_drift_iff [OF this] show ?thesis
      by (auto simp: verify_fixed_point_def manifest_view_def True split: option.splits)
  next
    case False
    then show ?thesis
      by (auto simp: verify_fixed_point_def manifest_view_def dest: map_eq_imp_length_eq)
  qed
  moreover have "verify_fixed_point m m' = Inl d \<Longrightarrow> diag_code d = FixedPointDriftE0705" for d
    by (auto simp: verify_fixed_point_def new_diagnostic_def split: if_splits option.splits)
  ultimately show ?thesis by auto
qed

lemma fixed_point_iff_witness:
  "verify_fixed_point \<lparr>manifest_files = [], tree_sha256 = ''a''\<rparr> \<lparr>manifest_files = [], tree_sha256 = ''b''\<rparr>
     \<noteq> Inr ()"
  using fixed_point_iff [of "\<lparr>manifest_files = [], tree_sha256 = ''a''\<rparr>"
      "\<lparr>manifest_files = [], tree_sha256 = ''b''\<rparr>"]
  by (simp add: manifest_view_def)

section \<open>Layer resolution\<close>

text \<open>
  the layer of a part is its own annotation if that is one, otherwise the one of the
  innermost package segment that names a layer, otherwise the domain layer; and a dependency is
  permitted exactly towards the same or a lower layer, so permission is a preorder.
\<close>

theorem layer_resolution:
  "(\<forall>role. Option.bind own_layer from_annotation = Some role \<longrightarrow>
      resolve_part_layer own_layer path = role) \<and>
   (Option.bind own_layer from_annotation = None \<longrightarrow>
      (\<forall>seg outer inner. path = outer @ seg # inner \<longrightarrow> from_annotation seg \<noteq> None \<longrightarrow>
         (\<forall>s \<in> set inner. from_annotation s = None) \<longrightarrow>
         resolve_part_layer own_layer path = the (from_annotation seg)) \<and>
      ((\<forall>s \<in> set path. from_annotation s = None) \<longrightarrow> resolve_part_layer own_layer path = Domain)) \<and>
   (permits_dependency_on a b \<longrightarrow> permits_dependency_on b c \<longrightarrow> permits_dependency_on a c) \<and>
   (permits_dependency_on a b \<or> permits_dependency_on b a)"
proof -
  have none: "(\<forall>s \<in> set xs. from_annotation s = None) \<Longrightarrow> find_map from_annotation (xs @ ys) =
      find_map from_annotation ys" for xs ys
    by (induction xs) auto
  have seg: "find_map from_annotation (rev (outer @ s # inner)) = from_annotation s"
    if "from_annotation s \<noteq> None" "\<forall>t \<in> set inner. from_annotation t = None" for outer s inner
    using that none [of "rev inner" "s # rev outer"] by (auto split: option.split)
  have "(\<forall>s \<in> set path. from_annotation s = None) \<Longrightarrow> find_map from_annotation (rev path) = None"
    using none [of "rev path" "[]"] by simp
  then show ?thesis
    using seg by (auto simp: resolve_part_layer_def permits_dependency_on_def split: option.splits)
qed

lemma layer_resolution_witness:
  "resolve_part_layer None [''core_domain'', ''view_emitters'', ''impl''] = Presentation"
proof -
  let ?path = "[''core_domain'', ''view_emitters'', ''impl'']"
  have a: "from_annotation ''view_emitters'' = Some Presentation" "from_annotation ''impl'' = None"
    by code_simp+
  have "\<forall>seg outer inner. ?path = outer @ seg # inner \<longrightarrow> from_annotation seg \<noteq> None \<longrightarrow>
      (\<forall>s \<in> set inner. from_annotation s = None) \<longrightarrow>
      resolve_part_layer None ?path = the (from_annotation seg)"
    using layer_resolution [of None ?path] by (simp only: bind.bind_lzero) blast
  from this [rule_format, of "[''core_domain'']" "''view_emitters''" "[''impl'']"] a
  show ?thesis by simp
qed

end
