(* ===== verification/Outliner.thy ===== *)
theory Outliner
  imports Modular_Domain
begin

text \<open>
  \<^verbatim>\<open>modular_codegen/lowering/outliner.rs\<close>: identifiers for the generated code, and the
  outlining of actions into stages and of state machines into transition handlers.
\<close>

section \<open>Identifiers\<close>

text \<open>The scan of \<^verbatim>\<open>to_snake_slug\<close>; \<open>prev_kind\<close> is 0 after a separator, 1 after upper case, else 2.\<close>

fun snake_raw :: "nat \<Rightarrow> string \<Rightarrow> string" where
  "snake_raw prev_kind [] = []"
| "snake_raw prev_kind (c # cs) =
     (if \<not> is_ascii_alphanumeric c then CHR ''_'' # snake_raw 0 cs
      else if is_ascii_uppercase c then
        (let next_lower = (case cs of [] \<Rightarrow> False | n # _ \<Rightarrow> is_ascii_lowercase n)
         in (if 2 \<le> prev_kind + (if next_lower then 1 else 0) then ''_'' else [])
              @ to_ascii_lower c # snake_raw 1 cs)
      else c # snake_raw 2 cs)"

definition starts_with_digit :: "string \<Rightarrow> bool" where
  "starts_with_digit s = (case s of [] \<Rightarrow> False | c # _ \<Rightarrow> is_ascii_digit c)"

definition to_snake_slug :: "string \<Rightarrow> string" where
  "to_snake_slug name =
     (let slug = join ''_'' (filter (\<lambda>seg. seg \<noteq> []) (split_by (\<lambda>c. c = CHR ''_'') (snake_raw 0 name)))
      in if slug = [] then ''unit''
         else if starts_with_digit slug then ''n_'' @ slug
         else slug)"

definition pascal_segment :: "string \<Rightarrow> string" where
  "pascal_segment seg =
     (case seg of
        [] \<Rightarrow> []
      | first # rest \<Rightarrow>
          to_ascii_upper first #
            (if list_ex is_ascii_lowercase seg then rest else map to_ascii_lower rest))"

definition to_pascal_ident :: "string \<Rightarrow> string" where
  "to_pascal_ident name =
     (let out = concat (map pascal_segment (split_by (\<lambda>c. \<not> is_ascii_alphanumeric c) name))
      in if out = [] then ''Unit''
         else if starts_with_digit out then CHR ''N'' # out
         else out)"

definition map_sysml_type_to_rust :: "string \<Rightarrow> string" where
  "map_sysml_type_to_rust sysml_ty =
     (let trimmed = trim sysml_ty
      in if trimmed \<in> set [''Integer'', ''int'', ''i64'', ''usize''] then ''i64''
         else if trimmed \<in> set [''Real'', ''Float'', ''f64''] then ''f64''
         else if trimmed \<in> set [''Boolean'', ''Bool'', ''bool''] then ''bool''
         else ''String'')"

section \<open>Actions\<close>

definition outline_param :: "AttributeDef \<Rightarrow> string \<times> string" where
  "outline_param p = (to_snake_slug (attr_name p), map_sysml_type_to_rust (attr_type_name p))"

definition make_stage :: "string \<Rightarrow> nat \<times> string list \<Rightarrow> OutlinedActionStage" where
  "make_stage slug = (\<lambda>(idx, chunk).
     \<lparr>stage_index = Suc idx, stage_fn_name = ''run_'' @ slug @ ''_stage_'' @ decimal02 (Suc idx),
      stage_steps = chunk\<rparr>)"

definition outline_action_def :: "ActionDef \<Rightarrow> ModularityBounds \<Rightarrow> OutlinedActionPlan" where
  "outline_action_def act bounds =
     (let slug = to_snake_slug (action_name act);
          chunk_len = max (max_action_steps_per_stage bounds) 1;
          stages =
            (if action_steps act = [] then
               [\<lparr>stage_index = 1, stage_fn_name = ''run_'' @ slug @ ''_stage_01'',
                 stage_steps = [''noop'']\<rparr>]
             else map (make_stage slug) (enumerate 0 (chunks chunk_len (action_steps act))))
      in \<lparr>plan_action_name = slug,
          plan_in_params = map outline_param (action_in_params act),
          plan_out_params = map outline_param (action_out_params act),
          plan_stages = stages\<rparr>)"

section \<open>State machines\<close>

definition opt_list :: "'a option \<Rightarrow> 'a list" where
  "opt_list x = (case x of None \<Rightarrow> [] | Some y \<Rightarrow> [y])"

text \<open>\<^verbatim>\<open>seen.insert(x)\<close> as a filter: what is not in \<open>seen\<close> yet, once.\<close>

fun dedup :: "'a list \<Rightarrow> 'a list \<Rightarrow> 'a list" where
  "dedup seen [] = []"
| "dedup seen (x # xs) = (if x \<in> set seen then dedup seen xs else x # dedup (x # seen) xs)"

definition state_candidates :: "StateDef \<Rightarrow> string list" where
  "state_candidates sd =
     map state_name (state_sub_states sd)
     @ concat (map (\<lambda>tx. opt_list (tx_source tx) @ opt_list (tx_target tx)) (state_transitions sd))"

definition collect_ordered_states :: "StateDef \<Rightarrow> string list \<times> string" where
  "collect_ordered_states sd =
     (let states = dedup [''Initial'', ''Terminal''] (map to_pascal_ident (state_candidates sd));
          states = (if states = [] then [''Idle''] else states);
          init = find_map (\<lambda>tx. map_option to_pascal_ident (tx_target tx))
                   (filter (\<lambda>tx. tx_source tx = Some ''Initial'') (state_transitions sd));
          initial_state =
            (case init of
               Some i \<Rightarrow> (if i \<in> set states then i else hd states)
             | None \<Rightarrow> hd states)
      in (states, initial_state))"

definition transition_trigger :: "TransitionDef \<Rightarrow> string" where
  "transition_trigger tx =
     (case tx_trigger tx of
        None \<Rightarrow> ''tick''
      | Some t \<Rightarrow> (if trim t \<noteq> [] then trim t else ''tick''))"

text \<open>The source and the arm of a transition that gets a handler.\<close>

definition transition_arm :: "TransitionDef \<Rightarrow> (string \<times> string \<times> string) option" where
  "transition_arm tx =
     (case (tx_source tx, tx_target tx) of
        (Some src, Some dst) \<Rightarrow>
          (let src_ident = to_pascal_ident src
           in if src_ident \<notin> {''Initial'', ''Terminal''}
              then Some (src_ident, transition_trigger tx, to_pascal_ident dst) else None)
      | _ \<Rightarrow> None)"

type_synonym arms = "(string, (string \<times> string) list) btree_map"

definition push_arm :: "string \<Rightarrow> string \<times> string \<Rightarrow> arms \<Rightarrow> arms" where
  "push_arm src arm grouped =
     bt_insert src ((case bt_get grouped src of None \<Rightarrow> [] | Some l \<Rightarrow> l) @ [arm]) grouped"

definition group_step :: "TransitionDef \<Rightarrow> arms \<Rightarrow> arms" where
  "group_step tx grouped =
     (case transition_arm tx of None \<Rightarrow> grouped | Some (src, arm) \<Rightarrow> push_arm src arm grouped)"

definition group_transitions_by_source :: "TransitionDef list \<Rightarrow> arms" where
  "group_transitions_by_source txs = fold group_step txs []"

definition handler_cap :: "ModularityBounds \<Rightarrow> nat" where
  "handler_cap bounds =
     (let complexity_cap = max (max_cyclomatic_complexity bounds - 1) 1
      in min (max (max_transitions_per_handler bounds) 1) complexity_cap)"

definition make_handler :: "string \<Rightarrow> string \<Rightarrow> (string \<times> string) list \<Rightarrow> OutlinedStateHandler" where
  "make_handler src name txs =
     \<lparr>handler_source_state = src, handler_fn_name = name, handler_transitions = txs,
      handler_cyclomatic_complexity = Suc (length txs)\<rparr>"

definition handlers_of :: "nat \<Rightarrow> string \<times> (string \<times> string) list \<Rightarrow> OutlinedStateHandler list" where
  "handlers_of max_tx = (\<lambda>(src, txs).
     (let src_slug = to_snake_slug src
      in if length txs \<le> max_tx then [make_handler src (''step_from_'' @ src_slug) txs]
         else map (\<lambda>(idx, chunk).
                make_handler src (''step_from_'' @ src_slug @ ''_batch_'' @ decimal02 (Suc idx)) chunk)
              (enumerate 0 (chunks max_tx txs))))"

definition outline_state_def :: "StateDef \<Rightarrow> ModularityBounds \<Rightarrow> OutlinedStateMachinePlan" where
  "outline_state_def sd bounds =
     (let (states, initial_state) = collect_ordered_states sd;
          grouped = group_transitions_by_source (state_transitions sd)
      in \<lparr>sm_state_def_name = to_pascal_ident (state_name sd),
          sm_states = states,
          sm_initial_state = initial_state,
          sm_handlers = concat (map (handlers_of (handler_cap bounds)) grouped)\<rparr>)"

section \<open>Slugs are identifiers\<close>

definition slug_char :: "char \<Rightarrow> bool" where
  "slug_char c \<longleftrightarrow> is_ascii_lowercase c \<or> is_ascii_digit c"

text \<open>A slug: nonempty runs of slug characters between single underscores, no digit in front.\<close>

definition slug_ok :: "string \<Rightarrow> bool" where
  "slug_ok s \<longleftrightarrow>
     s \<noteq> [] \<and> \<not> starts_with_digit s \<and>
     list_all (\<lambda>seg. seg \<noteq> [] \<and> list_all slug_char seg) (split_by (\<lambda>c. c = CHR ''_'') s)"

lemma upper_lower_disjoint: "is_ascii_uppercase c \<Longrightarrow> \<not> is_ascii_lowercase c \<and> \<not> is_ascii_digit c"
  by (auto simp: is_ascii_uppercase_def is_ascii_lowercase_def is_ascii_digit_def)

lemma to_lower_slug: "is_ascii_uppercase c \<Longrightarrow> slug_char (to_ascii_lower c)"
  using code_lower [of c] by (auto simp: slug_char_def is_ascii_lowercase_def is_ascii_uppercase_def)

lemma slug_char_ascii: "slug_char c \<Longrightarrow> is_ascii_alphanumeric c \<and> \<not> is_ascii_uppercase c \<and> c \<noteq> CHR ''_''"
  by (auto simp: slug_char_def is_ascii_alphanumeric_def is_ascii_alphabetic_def
      is_ascii_lowercase_def is_ascii_uppercase_def is_ascii_digit_def code_def)

lemma snake_raw_chars: "c \<in> set (snake_raw k s) \<Longrightarrow> slug_char c \<or> c = CHR ''_''"
proof (induction k s rule: snake_raw.induct)
  case (2 k d cs)
  then show ?case using to_lower_slug
    by (auto simp: Let_def slug_char_def is_ascii_alphanumeric_def is_ascii_alphabetic_def
        split: if_splits)
qed simp

lemma split_by_join:
  "xs \<noteq> [] \<Longrightarrow> \<forall>x \<in> set xs. \<forall>c \<in> set x. \<not> P c \<Longrightarrow> P d \<Longrightarrow> split_by P (join [d] xs) = xs"
proof (induction "[d]" xs rule: join.induct)
  case (2 x)
  then show ?case by (induction x) auto
next
  case (3 x y ys)
  have "\<forall>c \<in> set x. \<not> P c \<Longrightarrow> P d \<Longrightarrow> split_by P (x @ d # r) = x # split_by P r" for r
    by (induction x) auto
  with 3 show ?case by simp
qed simp

lemma slug_segments:
  "p \<in> set (split_by (\<lambda>c. c = CHR ''_'') (snake_raw k s)) \<Longrightarrow> list_all slug_char p"
  unfolding list_all_iff
proof
  fix c assume p: "p \<in> set (split_by (\<lambda>c. c = CHR ''_'') (snake_raw k s))" and c: "c \<in> set p"
  show "slug_char c" using split_by_pieces [OF p c] snake_raw_chars [of c k s] by simp
qed

lemma join_nonempty: "xs \<noteq> [] \<Longrightarrow> hd xs \<noteq> [] \<Longrightarrow> join sep xs \<noteq> []"
proof (cases xs)
  case (Cons x ys)
  assume "hd xs \<noteq> []"
  with Cons show ?thesis by (cases ys) auto
qed simp

lemma slug_ok_plain:
  assumes "split_by (\<lambda>c. c = CHR ''_'') s = segs" "s \<noteq> []"
    and "list_all (\<lambda>seg. seg \<noteq> [] \<and> list_all slug_char seg) segs"
  shows "slug_ok (if starts_with_digit s then ''n_'' @ s else s)"
proof -
  have "slug_char (CHR ''n'')" by (simp add: slug_char_def is_ascii_lowercase_def code_def)
  moreover have "\<not> starts_with_digit (''n_'' @ s)"
    by (simp add: starts_with_digit_def is_ascii_digit_def code_def)
  moreover have "split_by (\<lambda>c. c = CHR ''_'') (''n_'' @ s) = ''n'' # segs"
    using assms(1) by simp
  ultimately show ?thesis using assms by (simp add: slug_ok_def)
qed

lemma to_snake_slug_ok: "slug_ok (to_snake_slug name)"
proof -
  let ?segs = "filter (\<lambda>seg. seg \<noteq> []) (split_by (\<lambda>c. c = CHR ''_'') (snake_raw 0 name))"
  have segs: "list_all (\<lambda>seg. seg \<noteq> [] \<and> list_all slug_char seg) ?segs"
    using slug_segments by (auto simp: list_all_iff)
  show ?thesis
  proof (cases "?segs = []")
    case True
    then show ?thesis unfolding to_snake_slug_def True by code_simp
  next
    case False
    have "split_by (\<lambda>c. c = CHR ''_'') (join ''_'' ?segs) = ?segs"
      using False segs slug_char_ascii by (intro split_by_join) (auto simp: list_all_iff)
    moreover have "hd ?segs \<in> set ?segs" using False by (rule hd_in_set)
    then have ne: "join ''_'' ?segs \<noteq> []"
      using False segs by (intro join_nonempty) (auto simp only: list_all_iff)
    ultimately have "slug_ok (if starts_with_digit (join ''_'' ?segs) then ''n_'' @ join ''_'' ?segs
        else join ''_'' ?segs)"
      using segs by (intro slug_ok_plain)
    with ne show ?thesis by (simp only: to_snake_slug_def Let_def if_False)
  qed
qed

lemma snake_raw_id: "\<forall>c \<in> set s. slug_char c \<or> c = CHR ''_'' \<Longrightarrow> snake_raw k s = s"
proof (induction s arbitrary: k)
  case (Cons c s)
  have "\<not> is_ascii_alphanumeric (CHR ''_'')"
    by (simp add: is_ascii_alphanumeric_def is_ascii_alphabetic_def is_ascii_uppercase_def
        is_ascii_lowercase_def is_ascii_digit_def code_def)
  then show ?case using Cons slug_char_ascii by auto
qed simp

lemma join_split_by: "join [d] (split_by (\<lambda>c. c = d) s) = s"
proof (induction s)
  case (Cons c s)
  have j: "xs \<noteq> [] \<Longrightarrow> join [d] ([] # xs) = d # join [d] xs"
    and k: "xs \<noteq> [] \<Longrightarrow> join [d] ((c # hd xs) # tl xs) = c # join [d] xs" for xs
    by (cases xs; simp; cases "tl xs"; simp)+
  show ?case using Cons j k by simp
qed simp

lemma slug_fixed: "slug_ok s \<Longrightarrow> to_snake_slug s = s"
proof -
  assume ok: "slug_ok s"
  have s: "\<forall>c \<in> set s. slug_char c \<or> c = CHR ''_''"
  proof
    fix c assume "c \<in> set s"
    then have "c \<in> set (join ''_'' (split_by (\<lambda>c. c = CHR ''_'') s))" by (simp add: join_split_by)
    then have "c \<in> set ''_'' \<union> (\<Union>x \<in> set (split_by (\<lambda>c. c = CHR ''_'') s). set x)"
      using set_join by blast
    then show "slug_char c \<or> c = CHR ''_''" using ok by (auto simp: slug_ok_def list_all_iff)
  qed
  have "filter (\<lambda>seg. seg \<noteq> []) (split_by (\<lambda>c. c = CHR ''_'') s) = split_by (\<lambda>c. c = CHR ''_'') s"
    using ok by (auto simp: slug_ok_def list_all_iff filter_id_conv)
  then show ?thesis using ok snake_raw_id [OF s]
    by (simp add: to_snake_slug_def join_split_by slug_ok_def)
qed

section \<open>Pascal identifiers\<close>

definition pascal_ok :: "string \<Rightarrow> bool" where
  "pascal_ok s \<longleftrightarrow> s \<noteq> [] \<and> list_all is_ascii_alphanumeric s \<and> \<not> starts_with_digit s \<and>
     \<not> is_ascii_lowercase (hd s)"

lemma upper_alnum: "is_ascii_alphanumeric c \<Longrightarrow>
    is_ascii_alphanumeric (to_ascii_upper c) \<and> \<not> is_ascii_lowercase (to_ascii_upper c)"
  using code_upper [of c]
  by (cases "is_ascii_lowercase c")
    (auto simp: is_ascii_alphanumeric_def is_ascii_alphabetic_def is_ascii_uppercase_def
      is_ascii_lowercase_def to_ascii_upper_def)

lemma lower_alnum: "is_ascii_alphanumeric c \<Longrightarrow> is_ascii_alphanumeric (to_ascii_lower c)"
  using code_lower [of c]
  by (cases "is_ascii_uppercase c")
    (auto simp: is_ascii_alphanumeric_def is_ascii_alphabetic_def is_ascii_uppercase_def
      is_ascii_lowercase_def to_ascii_lower_def)

lemma pascal_segment_ok:
  assumes "list_all is_ascii_alphanumeric seg"
  shows "list_all is_ascii_alphanumeric (pascal_segment seg)"
    and "seg \<noteq> [] \<Longrightarrow> \<not> is_ascii_lowercase (hd (pascal_segment seg)) \<and> pascal_segment seg \<noteq> []"
  using assms upper_alnum lower_alnum
  by (cases seg; auto simp: pascal_segment_def list_all_iff)+

lemma hd_concat: "concat xs \<noteq> [] \<Longrightarrow> \<exists>x \<in> set xs. x \<noteq> [] \<and> hd (concat xs) = hd x"
  by (induction xs) (auto simp: hd_append)

lemma to_pascal_ident_ok: "pascal_ok (to_pascal_ident name)"
proof -
  let ?segs = "split_by (\<lambda>c. \<not> is_ascii_alphanumeric c) name"
  let ?out = "concat (map pascal_segment ?segs)"
  have segs: "list_all is_ascii_alphanumeric seg" if "seg \<in> set ?segs" for seg
    unfolding list_all_iff using split_by_pieces [OF that] by blast
  have al: "list_all is_ascii_alphanumeric ?out"
    using pascal_segment_ok(1) [OF segs] by (auto simp: list_all_iff)
  have hd: "\<not> is_ascii_lowercase (hd ?out)" if ne: "?out \<noteq> []"
  proof -
    obtain seg where "seg \<in> set ?segs" "pascal_segment seg \<noteq> []" "hd ?out = hd (pascal_segment seg)"
      using hd_concat [OF ne] by auto
    moreover from this have "seg \<noteq> []" by (auto simp: pascal_segment_def)
    ultimately show ?thesis using pascal_segment_ok(2) [OF segs] by simp
  qed
  have u: "pascal_ok ''Unit''" by code_simp
  have n: "is_ascii_alphanumeric (CHR ''N'')" "\<not> is_ascii_lowercase (CHR ''N'')" "\<not> is_ascii_digit (CHR ''N'')"
    by code_simp+
  show ?thesis
  proof (cases "?out = []")
    case False
    then show ?thesis using al hd n
      by (auto simp: to_pascal_ident_def Let_def pascal_ok_def starts_with_digit_def)
  qed (simp add: to_pascal_ident_def u)
qed

section \<open>Numbered names\<close>

definition digit_value :: "char \<Rightarrow> nat" where
  "digit_value c = code c - 48"

definition undecimal :: "string \<Rightarrow> nat" where
  "undecimal s = foldl (\<lambda>acc c. 10 * acc + digit_value c) 0 s"

lemma undecimal_decimal: "undecimal (decimal n) = n"
proof (induction n rule: decimal.induct)
  case (1 n)
  have d: "k < 10 \<Longrightarrow> digit_value (digit k) = k" for k
    by (simp add: digit_value_def digit_def code_def)
  show ?case
  proof (cases "n < 10")
    case True
    then show ?thesis by (simp add: decimal.simps [of n] undecimal_def d)
  next
    case False
    then have "undecimal (decimal (n div 10)) = n div 10" using 1 by simp
    then show ?thesis using False by (simp add: decimal.simps [of n] undecimal_def d)
  qed
qed

lemma decimal02_inject: "decimal02 m = decimal02 n \<longleftrightarrow> m = n"
proof -
  have "undecimal (decimal02 k) = k" for k
    using undecimal_decimal [of k]
    by (simp add: decimal02_def undecimal_def digit_value_def code_def)
  then show ?thesis by metis
qed

section \<open>Outlined actions\<close>

lemma enumerate_map_snd: "map snd (enumerate k xs) = xs"
  by (simp add: enumerate_eq_zip)

lemma make_stage_steps: "map stage_steps (map (make_stage slug) (enumerate k cs)) = cs"
  by (induction cs arbitrary: k) (auto simp: make_stage_def)

lemma make_stage_index: "map stage_index (map (make_stage slug) (enumerate k cs)) = map Suc [k..<k + length cs]"
  by (induction cs arbitrary: k) (auto simp: make_stage_def upt_rec)

lemma make_stage_names: "map stage_fn_name (map (make_stage slug) (enumerate k cs)) =
    map (\<lambda>i. ''run_'' @ slug @ ''_stage_'' @ decimal02 (Suc i)) [k..<k + length cs]"
  by (induction cs arbitrary: k) (auto simp: make_stage_def upt_rec)

lemma outline_action_stages:
  "concat (map stage_steps (plan_stages (outline_action_def act bounds))) =
     (if action_steps act = [] then [''noop''] else action_steps act) \<and>
   distinct (map stage_fn_name (plan_stages (outline_action_def act bounds)))"
proof -
  have "concat (map stage_steps (map (make_stage slug) (enumerate 0 (chunks (max n 1) xs)))) = xs" for slug n xs
    unfolding make_stage_steps by (rule slice_chunks.concat_split) simp
  moreover have "distinct (map stage_fn_name (map (make_stage slug) (enumerate 0 cs)))" for slug cs
    unfolding make_stage_names by (auto simp: distinct_map inj_on_def decimal02_inject)
  ultimately show ?thesis by (auto simp: outline_action_def_def Let_def)
qed

text \<open>
  C11: outlining an action keeps its steps: the stages, in order, hold exactly the steps of the
  action (one \<^verbatim>\<open>noop\<close> if it has none), none is empty or longer than the bound (read as at least
  one), and their indices count from one and their function names are pairwise distinct.
\<close>

theorem outline_action_keeps_steps:
  "concat (map stage_steps (plan_stages (outline_action_def act bounds))) =
     (if action_steps act = [] then [''noop''] else action_steps act) \<and>
   (\<forall>st \<in> set (plan_stages (outline_action_def act bounds)).
      stage_steps st \<noteq> [] \<and> length (stage_steps st) \<le> max (max_action_steps_per_stage bounds) 1) \<and>
   map stage_index (plan_stages (outline_action_def act bounds)) =
     [1..<Suc (length (plan_stages (outline_action_def act bounds)))] \<and>
   distinct (map stage_fn_name (plan_stages (outline_action_def act bounds)))"
proof (cases "action_steps act = []")
  case True
  then show ?thesis by (simp add: outline_action_def_def Let_def)
next
  case False
  let ?n = "max (max_action_steps_per_stage bounds) 1"
  let ?cs = "chunks ?n (action_steps act)" and ?slug = "to_snake_slug (action_name act)"
  define ss where "ss = map (make_stage ?slug) (enumerate 0 ?cs)"
  have st: "plan_stages (outline_action_def act bounds) = ss"
    using False by (simp add: outline_action_def_def Let_def ss_def)
  have steps: "map stage_steps ss = ?cs" unfolding ss_def by (rule make_stage_steps)
  have len: "length ss = length ?cs" by (simp add: ss_def)
  have "map stage_index ss = [1..<Suc (length ss)]"
    unfolding len by (simp only: ss_def make_stage_index add_0 map_Suc_upt One_nat_def)
  moreover have "stage_steps s \<noteq> [] \<and> length (stage_steps s) \<le> ?n" if "s \<in> set ss" for s
  proof -
    have "stage_steps s \<in> set ?cs" using that by (metis steps image_eqI set_map)
    then show ?thesis using slice_chunks.bounded_split slice_chunks.nonempty_split by blast
  qed
  ultimately show ?thesis using False outline_action_stages [of act bounds] by (simp only: st) simp
qed

lemma outline_action_keeps_steps_witness:
  "concat (map stage_steps (plan_stages (outline_action_def
     (default_action\<lparr>action_steps := [''a'', ''b'', ''c'']\<rparr>) canonical_bounds))) = [''a'', ''b'', ''c'']"
  using outline_action_keeps_steps [of "default_action\<lparr>action_steps := [''a'', ''b'', ''c'']\<rparr>" canonical_bounds]
  by simp

section \<open>Outlined state machines\<close>

definition arms_of :: "string \<Rightarrow> TransitionDef list \<Rightarrow> (string \<times> string) list" where
  "arms_of src txs = map snd (filter (\<lambda>a. fst a = src) (List.map_filter transition_arm txs))"

lemma arms_of_snoc:
  "arms_of src (txs @ [tx]) =
     arms_of src txs @ (case transition_arm tx of Some (s, arm) \<Rightarrow> if s = src then [arm] else [] | None \<Rightarrow> [])"
  by (auto simp: arms_of_def List.map_filter_def split: option.split)

lemma group_transitions:
  "bt_sorted (group_transitions_by_source txs) \<and>
   (\<forall>src. bt_get (group_transitions_by_source txs) src =
      (if arms_of src txs = [] then None else Some (arms_of src txs)))"
proof (induction txs rule: rev_induct)
  case Nil
  then show ?case by (simp add: group_transitions_by_source_def bt_get_def arms_of_def List.map_filter_def)
next
  case (snoc tx txs)
  have g: "group_transitions_by_source (txs @ [tx]) = group_step tx (group_transitions_by_source txs)"
    by (simp add: group_transitions_by_source_def)
  show ?case
  proof (cases "transition_arm tx")
    case None
    then show ?thesis using snoc by (simp add: g group_step_def arms_of_snoc)
  next
    case (Some a)
    then show ?thesis using snoc
      by (cases a) (auto simp: g group_step_def push_arm_def arms_of_snoc bt_get_insert)
  qed
qed

lemma make_handler_simps [simp]:
  "handler_source_state (make_handler src name txs) = src"
  "handler_transitions (make_handler src name txs) = txs"
  "handler_cyclomatic_complexity (make_handler src name txs) = Suc (length txs)"
  by (simp_all add: make_handler_def)

lemma handlers_of_transitions:
  assumes "0 < cap"
  shows "concat (map handler_transitions (handlers_of cap (src, txs))) = txs"
    and "h \<in> set (handlers_of cap (src, txs)) \<Longrightarrow> handler_source_state h = src \<and>
      set (handler_transitions h) \<subseteq> set txs \<and> length (handler_transitions h) \<le> cap \<and>
      handler_cyclomatic_complexity h = Suc (length (handler_transitions h)) \<and>
      (txs \<noteq> [] \<longrightarrow> handler_transitions h \<noteq> [])"
proof -
  have e: "map handler_transitions (map (\<lambda>(idx, chunk). make_handler src (f idx) chunk) (enumerate k cs)) = cs"
    for f :: "nat \<Rightarrow> string" and cs k
    by (induction cs arbitrary: k) auto
  show "concat (map handler_transitions (handlers_of cap (src, txs))) = txs"
    using assms slice_chunks.concat_split
    by (cases "length txs \<le> cap") (simp_all only: handlers_of_def e prod.case Let_def if_True if_False, simp)
  assume h: "h \<in> set (handlers_of cap (src, txs))"
  show "handler_source_state h = src \<and>
      set (handler_transitions h) \<subseteq> set txs \<and> length (handler_transitions h) \<le> cap \<and>
      handler_cyclomatic_complexity h = Suc (length (handler_transitions h)) \<and>
      (txs \<noteq> [] \<longrightarrow> handler_transitions h \<noteq> [])"
  proof (cases "length txs \<le> cap")
    case True
    with h show ?thesis by (simp add: handlers_of_def)
  next
    case False
    with h obtain idx chunk where h': "(idx, chunk) \<in> set (enumerate 0 (chunks cap txs))"
        "handler_source_state h = src" "handler_transitions h = chunk"
        "handler_cyclomatic_complexity h = Suc (length chunk)"
      by (auto simp: handlers_of_def)
    then have c: "chunk \<in> set (chunks cap txs)" by (metis enumerate_map_snd image_eqI set_map snd_conv)
    then have "set chunk \<subseteq> set txs" using slice_chunks.split_members [OF assms, of txs] by blast
    with h' show ?thesis
      using slice_chunks.bounded_split [OF c] slice_chunks.nonempty_split [OF c] by simp
  qed
qed

lemma handlers_by_source:
  "distinct (map fst m) \<Longrightarrow> 0 < cap \<Longrightarrow>
     concat (map handler_transitions (filter (\<lambda>h. handler_source_state h = src)
       (concat (map (handlers_of cap) m)))) = (case map_of m src of None \<Rightarrow> [] | Some l \<Rightarrow> l)"
proof (induction m)
  case (Cons e m)
  obtain s txs where e: "e = (s, txs)" by (cases e)
  have "filter (\<lambda>h. handler_source_state h = src) (handlers_of cap (s, txs)) =
      (if s = src then handlers_of cap (s, txs) else [])"
    using handlers_of_transitions(2) [OF Cons.prems(2)]
    by (auto simp: filter_empty_conv intro!: filter_True)
  moreover have "s = src \<Longrightarrow> map_of m src = None" using Cons.prems(1) e by (auto simp: map_of_eq_None_iff)
  ultimately show ?case
    using Cons handlers_of_transitions(1) [OF Cons.prems(2)] by (auto simp: e split: option.splits)
qed simp

lemma handler_cap_bounds:
  "0 < handler_cap b" "handler_cap b \<le> max (max_transitions_per_handler b) 1"
  "Suc (handler_cap b) \<le> max (max_cyclomatic_complexity b) 2"
  by (auto simp: handler_cap_def Let_def)

lemma sm_handlers_outline:
  "sm_handlers (outline_state_def sd b) =
     concat (map (handlers_of (handler_cap b)) (group_transitions_by_source (state_transitions sd)))"
  by (simp add: outline_state_def_def split: prod.split)

lemma handler_origin:
  assumes "h \<in> set (sm_handlers (outline_state_def sd b))"
  shows "handler_transitions h \<noteq> [] \<and> length (handler_transitions h) \<le> handler_cap b \<and>
    handler_cyclomatic_complexity h = Suc (length (handler_transitions h)) \<and>
    set (handler_transitions h) \<subseteq> set (arms_of (handler_source_state h) (state_transitions sd))"
proof -
  obtain src txs where m: "(src, txs) \<in> set (group_transitions_by_source (state_transitions sd))"
      and h: "h \<in> set (handlers_of (handler_cap b) (src, txs))"
    using assms by (auto simp: sm_handlers_outline)
  have "bt_get (group_transitions_by_source (state_transitions sd)) src = Some txs"
    by (rule bt_get_entry [OF conjunct1 [OF group_transitions], THEN iffD2, OF m])
  then have "txs = arms_of src (state_transitions sd)" "txs \<noteq> []"
    using group_transitions [of "state_transitions sd"] by (auto split: if_splits)
  then show ?thesis using handlers_of_transitions(2) [OF handler_cap_bounds(1) h] by auto
qed

lemma handlers_keep:
  "concat (map handler_transitions (filter (\<lambda>h. handler_source_state h = src)
      (sm_handlers (outline_state_def sd bounds)))) = arms_of src (state_transitions sd)"
proof -
  let ?m = "group_transitions_by_source (state_transitions sd)"
  have "distinct (map fst ?m)" using group_transitions bt_distinct by (metis bt_keys_def)
  then have "concat (map handler_transitions (filter (\<lambda>h. handler_source_state h = src)
      (sm_handlers (outline_state_def sd bounds)))) = (case map_of ?m src of None \<Rightarrow> [] | Some l \<Rightarrow> l)"
    unfolding sm_handlers_outline using handler_cap_bounds(1) by (rule handlers_by_source)
  moreover have "map_of ?m src = (if arms_of src (state_transitions sd) = [] then None
      else Some (arms_of src (state_transitions sd)))"
    using group_transitions [of "state_transitions sd"] by (simp add: bt_get_def)
  ultimately show ?thesis by (simp split: if_splits)
qed

text \<open>
  C12: outlining a state machine keeps its transitions: for every source state the handlers, in
  order, hold exactly the transitions leaving that state that the code keeps, in source order; no
  handler is empty, exceeds the transition bound (read as at least one), or has a complexity above
  the complexity bound (read as at least two).
\<close>

theorem outline_state_keeps_transitions:
  "concat (map handler_transitions (filter (\<lambda>h. handler_source_state h = src)
      (sm_handlers (outline_state_def sd bounds)))) = arms_of src (state_transitions sd) \<and>
   (\<forall>h \<in> set (sm_handlers (outline_state_def sd bounds)).
      handler_transitions h \<noteq> [] \<and>
      length (handler_transitions h) \<le> max (max_transitions_per_handler bounds) 1 \<and>
      handler_cyclomatic_complexity h = Suc (length (handler_transitions h)) \<and>
      handler_cyclomatic_complexity h \<le> max (max_cyclomatic_complexity bounds) 2)"
proof (intro conjI ballI)
  fix h
  assume "h \<in> set (sm_handlers (outline_state_def sd bounds))"
  note o = handler_origin [OF this] and c = handler_cap_bounds [of bounds]
  show "handler_transitions h \<noteq> []"
    and cc: "handler_cyclomatic_complexity h = Suc (length (handler_transitions h))" using o by auto
  have l: "length (handler_transitions h) \<le> handler_cap bounds" using o by blast
  then show "length (handler_transitions h) \<le> max (max_transitions_per_handler bounds) 1"
    using c(2) by (rule order_trans)
  show "handler_cyclomatic_complexity h \<le> max (max_cyclomatic_complexity bounds) 2"
    unfolding cc using l c(3) by (meson Suc_le_mono order_trans)
qed (rule handlers_keep)

definition example_transition :: "string \<Rightarrow> string \<Rightarrow> string \<Rightarrow> TransitionDef" where
  "example_transition s t trig =
     \<lparr>tx_name = None, tx_source = Some s, tx_target = Some t, tx_trigger = Some trig,
      tx_guard = None, tx_effect = None, tx_doc = None\<rparr>"

definition example_machine :: StateDef where
  "example_machine = StateDef ''Pump'' None None None None
     [example_transition ''Idle'' ''Running'' ''start'', example_transition ''Running'' ''Terminal'' ''stop'']
     []"

lemma example_arms: "arms_of ''Running'' (state_transitions example_machine) = [(''stop'', ''Terminal'')]"
  by code_simp

lemma outline_state_keeps_transitions_witness:
  "concat (map handler_transitions (filter (\<lambda>h. handler_source_state h = ''Running'')
      (sm_handlers (outline_state_def example_machine canonical_bounds)))) = [(''stop'', ''Terminal'')]"
  using outline_state_keeps_transitions [of "''Running''" example_machine canonical_bounds] example_arms
  by simp

lemma dedup_set: "set (dedup seen xs) = set xs - set seen"
  by (induction seen xs rule: dedup.induct) auto

lemma dedup_distinct: "distinct (dedup seen xs)"
  by (induction seen xs rule: dedup.induct) (auto simp: dedup_set)

lemma arm_candidates:
  assumes "(trig, dst) \<in> set (arms_of src (state_transitions sd))"
  shows "src \<in> to_pascal_ident ` set (state_candidates sd) \<and> src \<notin> {''Initial'', ''Terminal''} \<and>
    dst \<in> to_pascal_ident ` set (state_candidates sd)"
proof -
  obtain tx where tx: "tx \<in> set (state_transitions sd)" "transition_arm tx = Some (src, trig, dst)"
    using assms by (auto simp: arms_of_def List.map_filter_def)
  then obtain s d where "tx_source tx = Some s" "tx_target tx = Some d" "src = to_pascal_ident s"
      "dst = to_pascal_ident d" "src \<notin> {''Initial'', ''Terminal''}"
    by (auto simp: transition_arm_def Let_def split: option.splits if_splits)
  then show ?thesis using tx(1) by (force simp: state_candidates_def opt_list_def)
qed

text \<open>
  the declared states of an outlined machine are distinct and hold the initial state and the
  source of every handler; the target of a transition, however, is a declared state exactly when
  it is neither \<^verbatim>\<open>Initial\<close> nor \<^verbatim>\<open>Terminal\<close>, and both may occur as targets.
\<close>

theorem outline_states_declared:
  "distinct (sm_states (outline_state_def sd bounds)) \<and>
   sm_initial_state (outline_state_def sd bounds) \<in> set (sm_states (outline_state_def sd bounds)) \<and>
   (\<forall>h \<in> set (sm_handlers (outline_state_def sd bounds)).
      handler_source_state h \<in> set (sm_states (outline_state_def sd bounds)) \<and>
      (\<forall>(trig, dst) \<in> set (handler_transitions h).
         dst \<in> set (sm_states (outline_state_def sd bounds)) \<longleftrightarrow> dst \<notin> {''Initial'', ''Terminal''}))"
proof -
  let ?cand = "to_pascal_ident ` set (state_candidates sd)"
  let ?ded = "dedup [''Initial'', ''Terminal''] (map to_pascal_ident (state_candidates sd))"
  let ?plan = "outline_state_def sd bounds"
  have states: "sm_states ?plan = (if ?ded = [] then [''Idle''] else ?ded)"
    by (simp add: outline_state_def_def collect_ordered_states_def Let_def)
  have ne: "sm_states ?plan \<noteq> []" by (simp add: states)
  have "sm_initial_state ?plan \<in> set (sm_states ?plan) \<or> sm_initial_state ?plan = hd (sm_states ?plan)"
    by (auto simp: outline_state_def_def collect_ordered_states_def Let_def split: option.splits)
  then have init: "sm_initial_state ?plan \<in> set (sm_states ?plan)" using ne by auto
  have "distinct (sm_states ?plan)" by (simp add: states dedup_distinct)
  moreover have "handler_source_state h \<in> set (sm_states ?plan) \<and>
      (\<forall>(trig, dst) \<in> set (handler_transitions h).
         dst \<in> set (sm_states ?plan) \<longleftrightarrow> dst \<notin> {''Initial'', ''Terminal''})"
    if h: "h \<in> set (sm_handlers ?plan)" for h
  proof -
    note o = handler_origin [OF h]
    have arm: "handler_source_state h \<in> ?cand \<and> handler_source_state h \<notin> {''Initial'', ''Terminal''} \<and>
        dst \<in> ?cand" if "(trig, dst) \<in> set (handler_transitions h)" for trig dst
      using o that by (intro arm_candidates) blast
    obtain t0 d0 where "(t0, d0) \<in> set (handler_transitions h)"
      using o by (cases "handler_transitions h") auto
    from arm [OF this] have src: "handler_source_state h \<in> set ?ded" by (auto simp: dedup_set)
    then have "?ded \<noteq> []" by (metis empty_iff empty_set)
    then have st: "sm_states ?plan = ?ded" by (simp add: states)
    show ?thesis unfolding st using src arm by (fastforce simp: dedup_set)
  qed
  ultimately show ?thesis using init by blast
qed

lemma outline_states_declared_witness:
  "''Terminal'' \<notin> set (sm_states (outline_state_def example_machine canonical_bounds)) \<and>
   (\<exists>h \<in> set (sm_handlers (outline_state_def example_machine canonical_bounds)).
      (''stop'', ''Terminal'') \<in> set (handler_transitions h))"
proof -
  have "concat (map handler_transitions (filter (\<lambda>h. handler_source_state h = ''Running'')
      (sm_handlers (outline_state_def example_machine canonical_bounds)))) = [(''stop'', ''Terminal'')]"
    by (simp add: handlers_keep example_arms)
  then have "(''stop'', ''Terminal'') \<in> set (concat (map handler_transitions
      (filter (\<lambda>h. handler_source_state h = ''Running'')
      (sm_handlers (outline_state_def example_machine canonical_bounds)))))" by simp
  then obtain h where h: "h \<in> set (sm_handlers (outline_state_def example_machine canonical_bounds))"
      "(''stop'', ''Terminal'') \<in> set (handler_transitions h)"
    by auto
  then show ?thesis using outline_states_declared [of example_machine canonical_bounds] by fastforce
qed

text \<open>
  C13: the slugs and type names of the generated code are identifiers: a slug is lower case words
  and digits between single underscores, does not start with a digit and is its own slug; a type
  name is alphanumeric and starts with an upper case letter.
\<close>

theorem identifiers_ok:
  "slug_ok (to_snake_slug name) \<and> to_snake_slug (to_snake_slug name) = to_snake_slug name \<and>
   pascal_ok (to_pascal_ident name)"
  using to_snake_slug_ok [of name] slug_fixed [OF to_snake_slug_ok] to_pascal_ident_ok by blast

end
