(* ===== verification/Expr_Anf.thy ===== *)
theory Expr_Anf
  imports Outliner
begin

text \<open>
  \<^verbatim>\<open>modular_codegen/lowering/expr_anf.rs\<close>: the estimate of the cyclomatic complexity of a
  generated function, and the hoisting of large constraint expressions into helper predicates.
\<close>

section \<open>Complexity of generated code\<close>

text \<open>
  The scan of \<^verbatim>\<open>mask_line_for_vg\<close>, which blanks string contents and cuts a line comment. The
  output built so far is an argument, since a comment removes its last character.
\<close>

fun mask_line :: "bool \<Rightarrow> bool \<Rightarrow> bool \<Rightarrow> string \<Rightarrow> string \<Rightarrow> string" where
  "mask_line in_str escaped prev_slash out [] = out"
| "mask_line in_str escaped prev_slash out (ch # cs) =
     (if in_str then
        (if escaped then mask_line True False prev_slash (out @ '' '') cs
         else if ch = DQ then mask_line False escaped prev_slash (out @ [DQ]) cs
         else mask_line True (ch = BS) prev_slash (out @ '' '') cs)
      else if prev_slash \<and> ch = CHR ''/'' then butlast out
      else mask_line (ch = DQ) escaped (ch = CHR ''/'') (out @ [ch]) cs)"

definition mask_line_for_vg :: "string \<Rightarrow> string" where
  "mask_line_for_vg line = mask_line False False False [] line"

definition word_char :: "char \<Rightarrow> bool" where
  "word_char c \<longleftrightarrow> is_ascii_alphanumeric c \<or> c = CHR ''_''"

definition count_bounded_keyword :: "string \<Rightarrow> string \<Rightarrow> nat" where
  "count_bounded_keyword masked kw =
     length (filter (\<lambda>tok. tok = kw) (split_by (\<lambda>c. \<not> word_char c) masked))"

definition estimate_rust_fn_cyclomatic_complexity :: "string \<Rightarrow> nat" where
  "estimate_rust_fn_cyclomatic_complexity fn_source =
     (let masked = join [LF] (map mask_line_for_vg (lines fn_source));
          kw = count_bounded_keyword masked ''if'' + count_bounded_keyword masked ''while''
            + count_bounded_keyword masked ''for'' + count_bounded_keyword masked ''loop'';
          logic = count_matches ''&&'' masked + count_matches ''||'' masked;
          arms = count_matches ''=>'' masked - count_bounded_keyword masked ''match''
      in 1 + kw + logic + arms)"

section \<open>Clauses\<close>

definition count_char :: "char \<Rightarrow> string \<Rightarrow> nat" where
  "count_char c s = length (filter (\<lambda>d. d = c) s)"

definition flush_part :: "string list \<Rightarrow> string list" where
  "flush_part current = (if current = [] then [] else [join '' '' current])"

fun split_tokens :: "string \<Rightarrow> string list \<Rightarrow> nat \<Rightarrow> string list \<Rightarrow> string list" where
  "split_tokens keyword current depth [] = flush_part current"
| "split_tokens keyword current depth (tok # toks) =
     (let depth = depth + count_char (CHR ''('') tok - count_char (CHR '')'') tok
      in if depth = 0 \<and> tok = keyword then flush_part current @ split_tokens keyword [] depth toks
         else split_tokens keyword (current @ [tok]) depth toks)"

definition split_top_level_keyword :: "string \<Rightarrow> string \<Rightarrow> string list" where
  "split_top_level_keyword expr keyword = split_tokens keyword [] 0 (split_whitespace expr)"

definition translate_word :: "string btree_set \<Rightarrow> string \<Rightarrow> string" where
  "translate_word field_names word =
     (if word = [] then []
      else if word = ''not'' then ''!''
      else if word \<in> set field_names then ''ctx.'' @ word
      else word)"

fun translate_chars :: "string btree_set \<Rightarrow> string \<Rightarrow> string \<Rightarrow> string" where
  "translate_chars field_names word [] = []"
| "translate_chars field_names word (ch # cs) =
     (if word_char ch then translate_chars field_names (word @ [ch]) cs
      else translate_word field_names word @ ch # translate_chars field_names [] cs)"

definition translate_atomic_clause :: "string \<Rightarrow> string btree_set \<Rightarrow> string" where
  "translate_atomic_clause clause field_names =
     (let trimmed = trim (translate_chars field_names [] (trim clause @ '' ''))
      in if trimmed \<noteq> [] then trimmed else ''true'')"

definition range_clause :: "string \<Rightarrow> string \<Rightarrow> string option" where
  "range_clause cur nxt =
     (case (split_once ''>='' cur, split_once ''<='' nxt) of
        (Some (la, lo), Some (lb, hi)) \<Rightarrow>
          (let la = trim la; lb = trim lb; lo = trim lo; hi = trim hi
           in if la \<noteq> [] \<and> la = lb \<and> contains_str lo ''.'' = contains_str hi ''.''
              then Some (''('' @ lo @ ''..='' @ hi @ '').contains(&'' @ la @ '')'') else None)
      | _ \<Rightarrow> None)"

fun fold_inclusive_ranges :: "string list \<Rightarrow> (string \<times> nat) list" where
  "fold_inclusive_ranges [] = []"
| "fold_inclusive_ranges [cur] = [(cur, 0)]"
| "fold_inclusive_ranges (cur # nxt # rest) =
     (case range_clause cur nxt of
        Some range_expr \<Rightarrow> (range_expr, 0) # fold_inclusive_ranges rest
      | None \<Rightarrow> (cur, 0) # fold_inclusive_ranges (nxt # rest))"

section \<open>Hoisting\<close>

record AnfScope =
  anf_slug :: string
  anf_params :: "(string \<times> string) list"
  anf_max_ops :: nat
  anf_seq :: nat
  anf_out :: "HoistedPredicate list"

definition bind_scope_params :: "string \<Rightarrow> (string \<times> string) list \<Rightarrow> (string \<times> string) list" where
  "bind_scope_params rust_expr params =
     map (\<lambda>(name, ty).
       (if 0 < count_bounded_keyword rust_expr name then name else CHR ''_'' # name, ty)) params"

definition call_text :: "AnfScope \<Rightarrow> string \<Rightarrow> string" where
  "call_text scope fn_name = fn_name @ ''('' @ join '', '' (map fst (anf_params scope)) @ '')''"

definition emit_hoisted_batch ::
  "AnfScope \<Rightarrow> string list \<Rightarrow> string \<Rightarrow> nat \<Rightarrow> AnfScope \<times> string \<times> nat" where
  "emit_hoisted_batch scope batch join_op batch_ops =
     (if length batch \<le> 1 then
        (scope, (case batch of [] \<Rightarrow> ''true'' | e # _ \<Rightarrow> e), batch_ops)
      else
        (let seq = Suc (anf_seq scope);
             fn_name = ''eval_'' @ anf_slug scope @ ''_term_'' @ decimal02 seq;
             rust_expr = join join_op batch;
             pred = \<lparr>hp_fn_name = fn_name, hp_params = bind_scope_params rust_expr (anf_params scope),
                     hp_rust_expr = rust_expr, hp_cyclomatic_complexity = Suc batch_ops\<rparr>
         in (scope\<lparr>anf_seq := seq, anf_out := anf_out scope @ [pred]\<rparr>,
             call_text scope fn_name, 0)))"

text \<open>The \<^verbatim>\<open>for\<close> loop of a round: the terms left, the open batch and its operators.\<close>

fun batch_terms ::
  "AnfScope \<Rightarrow> string \<Rightarrow> string list \<Rightarrow> nat \<Rightarrow> (string \<times> nat) list \<Rightarrow> AnfScope \<times> (string \<times> nat) list" where
  "batch_terms scope join_op batch batch_ops [] =
     (let (scope, e, ops) = emit_hoisted_batch scope batch join_op batch_ops
      in (scope, [(e, ops)]))"
| "batch_terms scope join_op batch batch_ops ((expr, ops) # terms) =
     (let link = (if batch = [] then 0 else 1)
      in if anf_max_ops scope < link * (batch_ops + link + ops) then
           (let (scope1, e1, ops1) = emit_hoisted_batch scope batch join_op batch_ops;
                (scope2, next_round) = batch_terms scope1 join_op [expr] ops terms
            in (scope2, (e1, ops1) # next_round))
         else
           batch_terms scope join_op (batch @ [expr])
             (batch_ops + (if 1 < length (batch @ [expr]) then 1 else 0) + ops) terms)"

lemma batch_terms_length:
  "length (snd (batch_terms scope op batch n terms)) \<le> Suc (length terms) \<and>
   snd (batch_terms scope op batch n terms) \<noteq> [] \<and>
   (batch = [] \<longrightarrow> length (snd (batch_terms scope op batch n terms)) \<le> max 1 (length terms))"
proof (induction scope op batch n terms rule: batch_terms.induct)
  case (1 scope op batch n)
  then show ?case by (simp split: prod.split)
next
  case (2 scope op batch n expr ops terms)
  show ?case
  proof (cases "anf_max_ops scope < (if batch = [] then 0 else 1) * (n + (if batch = [] then 0 else 1) + ops)")
    case True
    then have b: "batch \<noteq> []" by auto
    obtain s1 e1 o1 where em: "emit_hoisted_batch scope batch op n = (s1, e1, o1)" by (metis prod.exhaust)
    then show ?thesis using True b 2(1) [OF refl True em [symmetric] refl refl] 
      by (cases "batch_terms s1 op [expr] ops terms") (simp add: em)
  next
    case False
    then show ?thesis using 2(2) [OF refl False] by (auto simp: Let_def)
  qed
qed

text \<open>\<^verbatim>\<open>it.next().unwrap_or_default()\<close> on a list of weighted terms.\<close>

definition next_or_default :: "(string \<times> nat) list \<Rightarrow> string \<times> nat" where
  "next_or_default it = (case it of [] \<Rightarrow> ([], 0) | t # _ \<Rightarrow> t)"

text \<open>What the terms become when no batch could be joined: the first two are paired.\<close>

definition pair_first ::
  "AnfScope \<Rightarrow> (string \<times> nat) list \<Rightarrow> string \<Rightarrow> AnfScope \<times> (string \<times> nat) list" where
  "pair_first scope next_round join_op =
     (let lhs = next_or_default next_round; rhs = next_or_default (drop 1 next_round);
          (scope, e, ops) = emit_hoisted_batch scope [fst lhs, fst rhs] join_op (snd lhs + snd rhs + 1)
      in (scope, (e, ops) # drop 2 next_round))"

definition reduce_round ::
  "AnfScope \<Rightarrow> (string \<times> nat) list \<Rightarrow> string \<Rightarrow> AnfScope \<times> (string \<times> nat) list" where
  "reduce_round scope terms join_op =
     (let (scope, next_round) = batch_terms scope join_op [] 0 terms
      in if length terms \<le> length next_round then pair_first scope next_round join_op
         else (scope, next_round))"

lemma reduce_round_length:
  "1 < length terms \<Longrightarrow> length (snd (reduce_round scope terms op)) < length terms"
  using batch_terms_length [of scope op "[]" 0 terms]
  by (auto simp: reduce_round_def pair_first_def Let_def split: prod.splits)

function reduce_weighted_terms ::
  "AnfScope \<Rightarrow> (string \<times> nat) list \<Rightarrow> string \<Rightarrow> AnfScope \<times> string \<times> nat" where
  "reduce_weighted_terms scope terms join_op =
     (if length terms \<le> 1 then
        (case terms of [] \<Rightarrow> (scope, ''true'', 0) | t # _ \<Rightarrow> (scope, fst t, snd t))
      else
        (let total_ops = sum_list (map snd terms) + (length terms - 1)
         in if total_ops \<le> anf_max_ops scope then (scope, join join_op (map fst terms), total_ops)
            else (let st = reduce_round scope terms join_op
                  in reduce_weighted_terms (fst st) (snd st) join_op)))"
  by pat_completeness auto
termination
  by (relation "measure (\<lambda>(scope, terms, op). length terms)") (auto simp: reduce_round_length not_le)

declare reduce_weighted_terms.simps [simp del]

definition param_slug :: "string \<Rightarrow> string \<times> string" where
  "param_slug p =
     (let (lhs, rhs) = (case split_once '':'' p of Some parts \<Rightarrow> parts | None \<Rightarrow> (p, ''Integer''));
          words = split_whitespace lhs;
          slug = to_snake_slug (if words = [] then [] else last words);
          mapped = map_sysml_type_to_rust rhs
      in (slug, if mapped = ''String'' then ''&str'' else mapped))"

fun extra_params :: "string btree_set \<Rightarrow> string list \<Rightarrow> string list \<Rightarrow> (string \<times> string) list" where
  "extra_params field_names seen [] = []"
| "extra_params field_names seen (p # ps) =
     (let (slug, rty) = param_slug p
      in if slug \<noteq> [] \<and> slug \<notin> set field_names \<and> slug \<notin> set seen
         then (slug, rty) # extra_params field_names (slug # seen) ps
         else extra_params field_names seen ps)"

fun reduce_disjuncts ::
  "AnfScope \<Rightarrow> string btree_set \<Rightarrow> string list \<Rightarrow> AnfScope \<times> (string \<times> nat) list" where
  "reduce_disjuncts scope field_names [] = (scope, [])"
| "reduce_disjuncts scope field_names (dj # disjs) =
     (let conjuncts = fold_inclusive_ranges
            (map (\<lambda>c. translate_atomic_clause c field_names) (split_top_level_keyword dj ''and''));
          (scope, term) = reduce_weighted_terms scope conjuncts '' && '';
          (scope, terms) = reduce_disjuncts scope field_names disjs
      in (scope, term # terms))"

definition clean_expression :: "string \<Rightarrow> string" where
  "clean_expression raw = trim (trim_end_matches (\<lambda>c. c = CHR '';'') (trim raw))"

definition initial_scope ::
  "string \<Rightarrow> string \<Rightarrow> string btree_set \<Rightarrow> string list \<Rightarrow> nat \<Rightarrow> AnfScope" where
  "initial_scope constraint_slug ctx_type_name field_names raw_params max_vg =
     \<lparr>anf_slug = constraint_slug,
      anf_params = (''ctx'', CHR ''&'' # ctx_type_name) # extra_params field_names [''ctx''] raw_params,
      anf_max_ops = max (max_vg - 2) 1, anf_seq = 0, anf_out = []\<rparr>"

definition hoist_constraint_anf_with_params ::
  "string \<times> string \<Rightarrow> string btree_set \<Rightarrow> string list \<Rightarrow> string \<Rightarrow> nat \<Rightarrow> HoistedPredicate list" where
  "hoist_constraint_anf_with_params names field_names raw_params raw_expression max_vg =
     (let (constraint_slug, ctx_type_name) = names;
          scope = initial_scope constraint_slug ctx_type_name field_names raw_params max_vg;
          (scope, disjunct_terms) = reduce_disjuncts scope field_names
            (split_top_level_keyword (clean_expression raw_expression) ''or'');
          (scope, root_expr, root_ops) = reduce_weighted_terms scope disjunct_terms '' || ''
      in anf_out scope @
         [\<lparr>hp_fn_name = ''validate_'' @ constraint_slug,
           hp_params = bind_scope_params root_expr (anf_params scope),
           hp_rust_expr = root_expr, hp_cyclomatic_complexity = Suc root_ops\<rparr>])"

definition hoist_constraint_anf ::
  "string \<Rightarrow> string \<Rightarrow> string btree_set \<Rightarrow> string \<Rightarrow> nat \<Rightarrow> HoistedPredicate list" where
  "hoist_constraint_anf constraint_slug ctx_type_name field_names raw_expression max_vg =
     hoist_constraint_anf_with_params (constraint_slug, ctx_type_name) field_names [] raw_expression max_vg"

section \<open>What a hoisted expression stands for\<close>

text \<open>
  \<open>expands out args op e ts\<close>: replacing the calls of the predicates \<open>out\<close> by their bodies turns
  \<open>e\<close> into the terms \<open>ts\<close>, in this order, joined by \<open>op\<close>.
\<close>

inductive expands :: "HoistedPredicate list \<Rightarrow> string \<Rightarrow> string \<Rightarrow> string \<Rightarrow> string list \<Rightarrow> bool"
  for out args join_op where
  leaf: "expands out args join_op e [e]"
| joined: "list_all2 (expands out args join_op) es tss \<Longrightarrow>
     expands out args join_op (join join_op es) (concat tss)"
| call: "p \<in> set out \<Longrightarrow> expands out args join_op (hp_rust_expr p) ts \<Longrightarrow>
     expands out args join_op (hp_fn_name p @ ''('' @ args @ '')'') ts"

lemma expands_mono: "expands out args op e ts \<Longrightarrow> set out \<subseteq> set out' \<Longrightarrow> expands out' args op e ts"
proof (induction rule: expands.induct)
  case (joined es tss)
  then have "list_all2 (expands out' args op) es tss" by (auto elim: list_all2_mono)
  then show ?case by (rule expands.joined)
next
  case (call p ts)
  then have "p \<in> set out'" by blast
  then show ?case using call by (intro expands.call)
qed (rule expands.leaf)

lemma expands_all_mono:
  "list_all2 (expands out args op) es tss \<Longrightarrow> set out \<subseteq> set out' \<Longrightarrow> list_all2 (expands out' args op) es tss"
  by (auto elim!: list_all2_mono intro: expands_mono)

abbreviation scope_args :: "AnfScope \<Rightarrow> string" where
  "scope_args scope \<equiv> join '', '' (map fst (anf_params scope))"

text \<open>What a step leaves alone: everything but the counter and the output, which grows.\<close>

definition scope_le :: "AnfScope \<Rightarrow> AnfScope \<Rightarrow> bool" where
  "scope_le s s' \<longleftrightarrow> anf_slug s' = anf_slug s \<and> anf_params s' = anf_params s \<and>
     anf_max_ops s' = anf_max_ops s \<and> set (anf_out s) \<subseteq> set (anf_out s')"

lemma scope_le_refl [simp]: "scope_le s s"
  by (simp add: scope_le_def)

lemma scope_le_trans [trans]: "scope_le s s' \<Longrightarrow> scope_le s' s'' \<Longrightarrow> scope_le s s''"
  by (auto simp: scope_le_def)

abbreviation expand_in :: "AnfScope \<Rightarrow> string \<Rightarrow> string \<Rightarrow> string list \<Rightarrow> bool" where
  "expand_in s op \<equiv> expands (anf_out s) (scope_args s) op"

lemma expand_in_mono:
  "expand_in s op e ts \<Longrightarrow> scope_le s s' \<Longrightarrow> expand_in s' op e ts"
  "list_all2 (expand_in s op) es tss \<Longrightarrow> scope_le s s' \<Longrightarrow> list_all2 (expand_in s' op) es tss"
  by (auto simp: scope_le_def intro: expands_mono expands_all_mono)

lemma emit_expands:
  assumes run: "emit_hoisted_batch s batch op n = (s', e, k)" and ne: "batch \<noteq> []"
    and all: "list_all2 (expand_in s op) batch tss"
  shows "scope_le s s' \<and> expand_in s' op e (concat tss)"
proof (cases "length batch \<le> 1")
  case True
  then obtain b where "batch = [b]" using ne by (cases batch) auto
  then show ?thesis using run all by (auto simp: emit_hoisted_batch_def list_all2_Cons1)
next
  case False
  let ?name = "''eval_'' @ anf_slug s @ ''_term_'' @ decimal02 (Suc (anf_seq s))"
  obtain p where s': "s' = s\<lparr>anf_seq := Suc (anf_seq s), anf_out := anf_out s @ [p]\<rparr>"
      and p: "hp_fn_name p = ?name" "hp_rust_expr p = join op batch"
      and e: "e = call_text s ?name"
    using run False by (auto simp: emit_hoisted_batch_def Let_def)
  have le: "scope_le s s'" by (auto simp: scope_le_def s')
  have "expand_in s' op (hp_rust_expr p) (concat tss)"
    unfolding p using expand_in_mono(2) [OF all le] by (rule expands.joined)
  moreover have "p \<in> set (anf_out s')" by (simp add: s')
  ultimately have "expand_in s' op (hp_fn_name p @ ''('' @ scope_args s' @ '')'') (concat tss)"
    by (intro expands.call)
  then show ?thesis using le by (simp add: e p call_text_def s')
qed

lemma batch_expands:
  "batch_terms s op batch n terms = (s', next) \<Longrightarrow> batch @ map fst terms \<noteq> [] \<Longrightarrow>
     list_all2 (expand_in s op) (batch @ map fst terms) tss \<Longrightarrow>
     scope_le s s' \<and> (\<exists>nts. list_all2 (expand_in s' op) (map fst next) nts \<and> concat nts = concat tss)"
proof (induction s op batch n terms arbitrary: s' "next" tss rule: batch_terms.induct)
  case (1 s op batch n)
  obtain s1 e k where em: "emit_hoisted_batch s batch op n = (s1, e, k)" by (metis prod.exhaust)
  then have "scope_le s s1 \<and> expand_in s1 op e (concat tss)"
    using 1(2,3) by (intro emit_expands) auto
  moreover have "s' = s1" "next = [(e, k)]" using 1(1) em by auto
  ultimately show ?case by (auto intro!: exI [of _ "[concat tss]"])
next
  case (2 s op batch n expr ops terms)
  let ?link = "if batch = [] then 0 else 1 :: nat"
  show ?case
  proof (cases "anf_max_ops s < ?link * (n + ?link + ops)")
    case True
    then have ne: "batch \<noteq> []" by auto
    obtain bts tts where tss: "tss = bts @ tts" and b: "list_all2 (expand_in s op) batch bts"
        and t: "list_all2 (expand_in s op) (map fst ((expr, ops) # terms)) tts"
      using 2(5) by (auto simp: list_all2_append1)
    obtain s1 e1 k1 where em: "emit_hoisted_batch s batch op n = (s1, e1, k1)" by (metis prod.exhaust)
    obtain s2 nx where bt: "batch_terms s1 op [expr] ops terms = (s2, nx)" by fastforce
    have r: "s' = s2" "next = (e1, k1) # nx" using 2(3) True em bt by (auto simp: Let_def)
    note E = emit_expands [OF em ne b]
    have "list_all2 (expand_in s1 op) ([expr] @ map fst terms) tts"
      using expand_in_mono(2) [OF t] E by simp
    then obtain nts where N: "scope_le s1 s2" "list_all2 (expand_in s2 op) (map fst nx) nts"
        "concat nts = concat tts"
      using 2(1) [OF refl True em [symmetric] refl refl bt] by auto
    have "expand_in s2 op e1 (concat bts)" using E N(1) by (blast intro: expand_in_mono)
    then have "list_all2 (expand_in s' op) (map fst next) (concat bts # nts)" using N r by simp
    moreover have "concat (concat bts # nts) = concat tss" using N tss by simp
    moreover have "scope_le s s'" using E N r scope_le_trans by blast
    ultimately show ?thesis by blast
  next
    case False
    have "batch_terms s op (batch @ [expr]) (n + (if 1 < length (batch @ [expr]) then 1 else 0) + ops) terms
        = (s', next)"
      using 2(3) False by (simp add: Let_def)
    then show ?thesis using 2(2) [OF refl False] 2(5) by simp
  qed
qed

lemma reduce_round_expands:
  assumes len: "1 < length terms" and run: "reduce_round s terms op = (s', terms')"
    and all: "list_all2 (expand_in s op) (map fst terms) tss"
  shows "scope_le s s' \<and> terms' \<noteq> [] \<and>
    (\<exists>nts. list_all2 (expand_in s' op) (map fst terms') nts \<and> concat nts = concat tss)"
proof -
  obtain s1 nx where b: "batch_terms s op [] 0 terms = (s1, nx)" by fastforce
  have ne: "nx \<noteq> []" using batch_terms_length [of s op "[]" 0 terms] b by simp
  obtain nts where N: "scope_le s s1" "list_all2 (expand_in s1 op) (map fst nx) nts" "concat nts = concat tss"
    using batch_expands [OF b, of tss] len all by (cases "terms = []") auto
  show ?thesis
  proof (cases "length terms \<le> length nx")
    case True
    then obtain l r rest where nx: "nx = l # r # rest" using len by (cases nx; cases "tl nx") auto
    obtain tl tr rts where nts: "nts = tl # tr # rts" "list_all2 (expand_in s1 op) [fst l, fst r] [tl, tr]"
        "list_all2 (expand_in s1 op) (map fst rest) rts"
      using N(2) by (auto simp: nx list_all2_Cons1)
    obtain s2 e k where em: "emit_hoisted_batch s1 [fst l, fst r] op (snd l + snd r + 1) = (s2, e, k)"
      by (metis prod.exhaust)
    note E = emit_expands [OF em _ nts(2)]
    have r: "s' = s2" "terms' = (e, k) # rest"
      using run b True em by (auto simp: reduce_round_def pair_first_def nx next_or_default_def Let_def)
    have "list_all2 (expand_in s' op) (map fst terms') ((tl @ tr) # rts)"
      using E r expand_in_mono(2) [OF nts(3)] by simp
    moreover have "concat ((tl @ tr) # rts) = concat tss" using N(3) nts(1) by simp
    moreover have "scope_le s s'" using N(1) E r scope_le_trans by auto
    ultimately show ?thesis using r by blast
  next
    case False
    then have "s' = s1" "terms' = nx" using run b by (auto simp: reduce_round_def)
    then show ?thesis using N ne by blast
  qed
qed

lemma reduce_expands:
  "reduce_weighted_terms s terms op = (s', e, k) \<Longrightarrow> terms \<noteq> [] \<Longrightarrow>
     list_all2 (expand_in s op) (map fst terms) tss \<Longrightarrow>
     scope_le s s' \<and> expand_in s' op e (concat tss)"
proof (induction s terms op arbitrary: tss rule: reduce_weighted_terms.induct)
  case (1 s terms op)
  let ?total = "sum_list (map snd terms) + (length terms - 1)"
  note run = 1(2) [unfolded reduce_weighted_terms.simps [of s terms op] Let_def]
  consider (one) "length terms \<le> 1" | (fits) "\<not> length terms \<le> 1" "?total \<le> anf_max_ops s"
    | (round) "\<not> length terms \<le> 1" "\<not> ?total \<le> anf_max_ops s" by blast
  then show ?case
  proof cases
    case one
    then obtain t where "terms = [t]" using 1(3) by (cases terms) auto
    then show ?thesis using run 1(4) by (auto simp: list_all2_Cons1)
  next
    case fits
    then have "s' = s" "e = join op (map fst terms)" using run by auto
    then show ?thesis using 1(4) by (auto intro: expands.joined)
  next
    case round
    obtain s1 terms1 where r: "reduce_round s terms op = (s1, terms1)" by fastforce
    from reduce_round_expands [OF _ r 1(4)] round(1) obtain nts where
      N: "scope_le s s1" "terms1 \<noteq> []" "list_all2 (expand_in s1 op) (map fst terms1) nts" "concat nts = concat tss"
      by auto
    have "reduce_weighted_terms s1 terms1 op = (s', e, k)" using run round r by simp
    then have "scope_le s1 s' \<and> expand_in s' op e (concat nts)"
      using 1(1) [OF round(1) refl round(2) refl] N(2,3) r by simp
    then show ?thesis using N(1,4) scope_le_trans by metis
  qed
qed

section \<open>Names and complexity of the hoisted predicates\<close>

definition term_name :: "string \<Rightarrow> nat \<Rightarrow> string" where
  "term_name slug n = ''eval_'' @ slug @ ''_term_'' @ decimal02 n"

text \<open>
  The state of a scope: the predicates are numbered from one, and none is more complex than twice
  the operator budget plus two, the worst that pairing two full terms can give.
\<close>

definition scope_ok :: "AnfScope \<Rightarrow> bool" where
  "scope_ok s \<longleftrightarrow> map hp_fn_name (anf_out s) = map (term_name (anf_slug s)) [1..<Suc (anf_seq s)] \<and>
     (\<forall>p \<in> set (anf_out s). hp_cyclomatic_complexity p \<le> 2 * anf_max_ops s + 2)"

definition light :: "AnfScope \<Rightarrow> (string \<times> nat) list \<Rightarrow> bool" where
  "light s terms \<longleftrightarrow> (\<forall>t \<in> set terms. snd t \<le> anf_max_ops s)"

lemma emit_ok:
  assumes "emit_hoisted_batch s batch op n = (s', e, k)" "scope_ok s" "n \<le> 2 * anf_max_ops s + 1"
  shows "scope_ok s' \<and> anf_max_ops s' = anf_max_ops s \<and> anf_slug s' = anf_slug s \<and>
    (k = 0 \<or> k = n \<and> length batch \<le> 1)"
proof (cases "length batch \<le> 1")
  case True
  with assms show ?thesis by (auto simp: emit_hoisted_batch_def)
next
  case False
  have "[1..<Suc (Suc (anf_seq s))] = [1..<Suc (anf_seq s)] @ [Suc (anf_seq s)]" by simp
  with False assms show ?thesis
    by (auto simp: emit_hoisted_batch_def Let_def scope_ok_def term_name_def simp del: upt_Suc)
qed

lemma batch_ok:
  "batch_terms s op batch n terms = (s', next) \<Longrightarrow> scope_ok s \<Longrightarrow> light s terms \<Longrightarrow>
     n \<le> anf_max_ops s \<Longrightarrow> (batch = [] \<longrightarrow> n = 0) \<Longrightarrow>
     scope_ok s' \<and> anf_max_ops s' = anf_max_ops s \<and> anf_slug s' = anf_slug s \<and> light s' next"
proof (induction s op batch n terms arbitrary: s' "next" rule: batch_terms.induct)
  case (1 s op batch n)
  obtain s1 e k where em: "emit_hoisted_batch s batch op n = (s1, e, k)" by (metis prod.exhaust)
  from emit_ok [OF this] 1 have "scope_ok s1 \<and> anf_max_ops s1 = anf_max_ops s \<and>
      anf_slug s1 = anf_slug s \<and> (k = 0 \<or> k = n)" by auto
  with 1 em show ?case by (auto simp: light_def)
next
  case (2 s op batch n expr ops terms)
  let ?link = "if batch = [] then 0 else 1 :: nat"
  have l: "ops \<le> anf_max_ops s" "light s terms" using 2(5) by (auto simp: light_def)
  show ?case
  proof (cases "anf_max_ops s < ?link * (n + ?link + ops)")
    case True
    obtain s1 e1 k1 where em: "emit_hoisted_batch s batch op n = (s1, e1, k1)" by (metis prod.exhaust)
    obtain s2 nx where bt: "batch_terms s1 op [expr] ops terms = (s2, nx)" by fastforce
    have r: "s' = s2" "next = (e1, k1) # nx" using 2(3) True em bt by (auto simp: Let_def)
    have E: "scope_ok s1" "anf_max_ops s1 = anf_max_ops s" "anf_slug s1 = anf_slug s" "k1 \<le> anf_max_ops s"
      using emit_ok [OF em 2(4)] 2(6) by auto
    then have "scope_ok s2 \<and> anf_max_ops s2 = anf_max_ops s1 \<and> anf_slug s2 = anf_slug s1 \<and> light s2 nx"
      using 2(1) [OF refl True em [symmetric] refl refl bt] l by (auto simp: light_def)
    then show ?thesis using E r by (auto simp: light_def)
  next
    case False
    have run: "batch_terms s op (batch @ [expr]) (n + (if 1 < length (batch @ [expr]) then 1 else 0) + ops) terms
        = (s', next)"
      using 2(3) False by (simp add: Let_def)
    have "n + (if 1 < length (batch @ [expr]) then 1 else 0) + ops \<le> anf_max_ops s"
      using False l(1) 2(7) by (cases "batch = []") auto
    then show ?thesis using 2(2) [OF refl False run 2(4) l(2)] by simp
  qed
qed

lemma reduce_ok:
  "reduce_weighted_terms s terms op = (s', e, k) \<Longrightarrow> scope_ok s \<Longrightarrow> light s terms \<Longrightarrow>
     scope_ok s' \<and> anf_max_ops s' = anf_max_ops s \<and> anf_slug s' = anf_slug s \<and> k \<le> anf_max_ops s"
proof (induction s terms op rule: reduce_weighted_terms.induct)
  case (1 s terms op)
  let ?total = "sum_list (map snd terms) + (length terms - 1)"
  note run = 1(2) [unfolded reduce_weighted_terms.simps [of s terms op] Let_def]
  consider (one) "length terms \<le> 1" | (fits) "\<not> length terms \<le> 1" "?total \<le> anf_max_ops s"
    | (round) "\<not> length terms \<le> 1" "\<not> ?total \<le> anf_max_ops s" by blast
  then show ?case
  proof cases
    case one
    then show ?thesis using run 1(3,4) by (cases terms) (auto simp: light_def)
  next
    case fits
    then show ?thesis using run 1(3) by auto
  next
    case round
    obtain s1 nx where b: "batch_terms s op [] 0 terms = (s1, nx)" by fastforce
    have B: "scope_ok s1" "anf_max_ops s1 = anf_max_ops s" "anf_slug s1 = anf_slug s" "light s1 nx"
      using batch_ok [OF b 1(3,4)] by auto
    obtain s2 terms2 where r: "reduce_round s terms op = (s2, terms2)" by fastforce
    have R: "scope_ok s2 \<and> anf_max_ops s2 = anf_max_ops s \<and> anf_slug s2 = anf_slug s \<and> light s2 terms2"
    proof (cases "length terms \<le> length nx")
      case True
      then obtain t1 t2 rest where nx: "nx = t1 # t2 # rest" using round(1) by (cases nx; cases "tl nx") auto
      obtain s3 e3 k3 where em: "emit_hoisted_batch s1 [fst t1, fst t2] op (snd t1 + snd t2 + 1) = (s3, e3, k3)"
        by (metis prod.exhaust)
      have res: "s2 = s3" "terms2 = (e3, k3) # rest"
        using r b True em by (auto simp: reduce_round_def pair_first_def nx next_or_default_def Let_def)
      have "snd t1 + snd t2 + 1 \<le> 2 * anf_max_ops s1 + 1" using B(4) by (simp add: light_def nx)
      from emit_ok [OF em B(1) this] B res show ?thesis by (auto simp: light_def nx)
    next
      case False
      then show ?thesis using r b B by (auto simp: reduce_round_def)
    qed
    have "reduce_weighted_terms s2 terms2 op = (s', e, k)" using run round r by simp
    then show ?thesis using 1(1) [OF round(1) refl round(2) refl] R r by simp
  qed
qed

lemma ranges_light: "light s (fold_inclusive_ranges cs)"
  by (induction cs rule: fold_inclusive_ranges.induct) (auto simp: light_def split: option.split)

lemma disjuncts_ok:
  "reduce_disjuncts s flds ds = (s', terms) \<Longrightarrow> scope_ok s \<Longrightarrow>
     scope_ok s' \<and> anf_max_ops s' = anf_max_ops s \<and> anf_slug s' = anf_slug s \<and> light s' terms"
proof (induction s flds ds arbitrary: s' terms rule: reduce_disjuncts.induct)
  case (2 s flds d ds)
  let ?cs = "fold_inclusive_ranges (map (\<lambda>c. translate_atomic_clause c flds) (split_top_level_keyword d ''and''))"
  obtain s1 e k where r: "reduce_weighted_terms s ?cs '' && '' = (s1, e, k)" by (metis prod.exhaust)
  obtain s2 ts where d: "reduce_disjuncts s1 flds ds = (s2, ts)" by fastforce
  have R: "scope_ok s1 \<and> anf_max_ops s1 = anf_max_ops s \<and> anf_slug s1 = anf_slug s \<and> k \<le> anf_max_ops s"
    using reduce_ok [OF r 2(3) ranges_light] .
  then have "scope_ok s2 \<and> anf_max_ops s2 = anf_max_ops s1 \<and> anf_slug s2 = anf_slug s1 \<and> light s2 ts"
    using 2(1) [OF refl r [symmetric] refl d] by simp
  moreover have "s' = s2" "terms = (e, k) # ts" using 2(2) r d by (auto simp: Let_def)
  ultimately show ?case using R by (auto simp: light_def)
qed (simp add: light_def)

section \<open>Properties\<close>

definition clauses_of :: "string btree_set \<Rightarrow> string \<Rightarrow> string list" where
  "clauses_of flds dj =
     (let cs = map fst (fold_inclusive_ranges
            (map (\<lambda>c. translate_atomic_clause c flds) (split_top_level_keyword dj ''and'')))
      in if cs = [] then [''true''] else cs)"

lemma leaves_all2: "list_all2 (expand_in s op) es (map (\<lambda>e. [e]) es)"
  by (induction es) (auto intro: expands.leaf)

lemma concat_singletons: "concat (map (\<lambda>e. [e]) es) = es"
  by (induction es) auto

lemma reduce_leaves:
  assumes run: "reduce_weighted_terms s terms op = (s', e, k)"
  shows "scope_le s s' \<and> expand_in s' op e (if terms = [] then [''true''] else map fst terms)"
proof (cases "terms = []")
  case True
  then show ?thesis using run by (auto simp: reduce_weighted_terms.simps intro: expands.leaf)
next
  case False
  then show ?thesis
    using reduce_expands [OF run False leaves_all2] False unfolding concat_singletons by simp
qed

lemma disjuncts_expand:
  "reduce_disjuncts s flds ds = (s', terms) \<Longrightarrow>
     scope_le s s' \<and> list_all2 (expand_in s' '' && '') (map fst terms) (map (clauses_of flds) ds)"
proof (induction s flds ds arbitrary: s' terms rule: reduce_disjuncts.induct)
  case (2 s flds d ds)
  let ?cs = "fold_inclusive_ranges (map (\<lambda>c. translate_atomic_clause c flds) (split_top_level_keyword d ''and''))"
  obtain s1 e k where r: "reduce_weighted_terms s ?cs '' && '' = (s1, e, k)" by (metis prod.exhaust)
  obtain s2 ts where d: "reduce_disjuncts s1 flds ds = (s2, ts)" by fastforce
  have R: "scope_le s s1" "expand_in s1 '' && '' e (clauses_of flds d)"
    using reduce_leaves [OF r] by (auto simp: clauses_of_def Let_def)
  have D: "scope_le s1 s2" "list_all2 (expand_in s2 '' && '') (map fst ts) (map (clauses_of flds) ds)"
    using 2(1) [OF refl r [symmetric] refl d] by auto
  moreover have "s' = s2" "terms = (e, k) # ts" using 2(2) r d by (auto simp: Let_def)
  ultimately show ?case using R expand_in_mono(1) [OF R(2) D(1)] scope_le_trans by auto
qed simp

lemma term_name_inject: "term_name slug m = term_name slug n \<longleftrightarrow> m = n"
  by (simp add: term_name_def decimal02_inject)

text \<open>
  C14: hoisting keeps the expression. The last predicate is the root validator; replacing the calls
  of the hoisted predicates by their bodies turns its body into the disjunction of the disjuncts
  of the constraint in order, each the conjunction of its translated clauses in order. All names
  differ; the root stays below the complexity limit, and no helper is more complex than twice the
  budget, which only a helper that pairs two full terms reaches.
\<close>

theorem hoist_keeps_clauses:
  "\<exists>init root es.
     hoist_constraint_anf_with_params (slug, ctx_ty) flds params expr max_vg = init @ [root] \<and>
     hp_fn_name root = ''validate_'' @ slug \<and>
     (let disjuncts = split_top_level_keyword (clean_expression expr) ''or'';
          args = join '', '' (map fst (anf_params (initial_scope slug ctx_ty flds params max_vg)))
      in list_all2 (expands init args '' && '') es (map (clauses_of flds) disjuncts) \<and>
         expands init args '' || '' (hp_rust_expr root) (if disjuncts = [] then [''true''] else es)) \<and>
     distinct (map hp_fn_name (init @ [root])) \<and>
     hp_cyclomatic_complexity root \<le> max (max_vg - 1) 2 \<and>
     (\<forall>p \<in> set init. hp_cyclomatic_complexity p \<le> 2 * max (max_vg - 2) 1 + 2)"
proof -
  let ?s0 = "initial_scope slug ctx_ty flds params max_vg"
  let ?ds = "split_top_level_keyword (clean_expression expr) ''or''"
  obtain s1 terms where d: "reduce_disjuncts ?s0 flds ?ds = (s1, terms)" by fastforce
  obtain s2 e k where r: "reduce_weighted_terms s1 terms '' || '' = (s2, e, k)" by (metis prod.exhaust)
  define root where "root = \<lparr>hp_fn_name = ''validate_'' @ slug, hp_params = bind_scope_params e (anf_params s2),
      hp_rust_expr = e, hp_cyclomatic_complexity = Suc k\<rparr>"
  have preds: "hoist_constraint_anf_with_params (slug, ctx_ty) flds params expr max_vg = anf_out s2 @ [root]"
    by (simp add: hoist_constraint_anf_with_params_def d r root_def)
  have ok0: "scope_ok ?s0" by (simp add: scope_ok_def initial_scope_def)
  note D = disjuncts_ok [OF d ok0] and De = disjuncts_expand [OF d]
  note R = reduce_ok [OF r] and Re = reduce_leaves [OF r]
  have ok: "scope_ok s2" "anf_max_ops s2 = max (max_vg - 2) 1" "anf_slug s2 = slug" "k \<le> max (max_vg - 2) 1"
    using D R by (auto simp: initial_scope_def)
  have args: "scope_args s2 = scope_args ?s0" using De Re by (simp add: scope_le_def)
  have len: "terms = [] \<longleftrightarrow> ?ds = []" using De by (auto dest: list_all2_lengthD)
  have "list_all2 (expands (anf_out s2) (scope_args ?s0) '' && '') (map fst terms) (map (clauses_of flds) ?ds)"
    using expand_in_mono(2) De Re args by metis
  moreover have "expands (anf_out s2) (scope_args ?s0) '' || '' (hp_rust_expr root)
      (if ?ds = [] then [''true''] else map fst terms)"
    using Re args len by (auto simp: root_def)
  moreover have "distinct (map hp_fn_name (anf_out s2 @ [root]))"
  proof -
    have n: "map hp_fn_name (anf_out s2) = map (term_name slug) [1..<Suc (anf_seq s2)]"
      using ok by (simp add: scope_ok_def)
    have "distinct (map (term_name slug) [1..<Suc (anf_seq s2)])"
      by (simp add: distinct_map inj_on_def term_name_inject del: upt_Suc)
    moreover have "''validate_'' @ slug \<notin> set (map (term_name slug) [1..<Suc (anf_seq s2)])"
      by (auto simp: term_name_def)
    ultimately show ?thesis unfolding map_append distinct_append n by (simp add: root_def)
  qed
  moreover have "hp_cyclomatic_complexity root \<le> max (max_vg - 1) 2" using ok(4) by (simp add: root_def)
  moreover have "\<forall>p \<in> set (anf_out s2). hp_cyclomatic_complexity p \<le> 2 * max (max_vg - 2) 1 + 2"
    using ok by (simp add: scope_ok_def)
  moreover have "hp_fn_name root = ''validate_'' @ slug" by (simp add: root_def)
  ultimately show ?thesis unfolding preds Let_def by blast
qed


abbreviation two_sevens :: string where
  "two_sevens \<equiv> ''a and b and c and d and e and f and g or h and i and j and k and l and m and n''"

lemma example_hoist:
  "map (\<lambda>p. (hp_fn_name p, hp_cyclomatic_complexity p))
     (hoist_constraint_anf_with_params (''ok'', ''Plant'') [''a''] [] two_sevens 8) =
   [(''eval_ok_term_01'', 14), (''validate_ok'', 1)]"
  by code_simp

theorem hoist_keeps_clauses_witness:
  "hp_fn_name (last (hoist_constraint_anf_with_params (''ok'', ''Plant'') [''a''] [] two_sevens 8)) = ''validate_ok'' \<and>
   hp_cyclomatic_complexity (last (hoist_constraint_anf_with_params (''ok'', ''Plant'') [''a''] [] two_sevens 8)) \<le> 7"
  using hoist_keeps_clauses [of "''ok''" "''Plant''" "[''a'']" "[]" two_sevens 8] by force

text \<open>
  the limit on the complexity is not kept for the helpers. Two disjuncts of seven clauses each
  fit the limit of eight one by one, but joining them exceeds it, so they are paired into one
  helper, whose recorded complexity is fourteen.
\<close>

theorem paired_helper_over_limit:
  "\<exists>p \<in> set (hoist_constraint_anf_with_params (''ok'', ''Plant'') [''a''] [] two_sevens 8).
     hp_fn_name p = ''eval_ok_term_01'' \<and> hp_cyclomatic_complexity p = 14"
proof -
  have "(''eval_ok_term_01'', 14) \<in> (\<lambda>p. (hp_fn_name p, hp_cyclomatic_complexity p)) `
      set (hoist_constraint_anf_with_params (''ok'', ''Plant'') [''a''] [] two_sevens 8)"
    unfolding set_map [symmetric] example_hoist by simp
  then show ?thesis by auto
qed

end
