(* ===== verification/Partition_Facets.thy ===== *)
theory Partition_Facets
  imports Expr_Anf
begin

text \<open>
  \<^verbatim>\<open>modular_codegen/lowering/partition_facets.rs\<close>: the compilation units of a part, an action
  and a state machine. The source appends to a vector \<^verbatim>\<open>units\<close>, which it never reads; a builder
  here returns the list of units it appends, and where the source returns a name or names, the
  pair of both.
\<close>

section \<open>Units, paths and shards\<close>

record PackageFacetCtx =
  ctx_pkg_dir :: string
  ctx_pkg_path :: "string list"
  ctx_layer :: LayerRole
  ctx_bounds :: ModularityBounds

definition empty_unit ::
  "string \<Rightarrow> string \<Rightarrow> string list \<Rightarrow> LayerRole \<Rightarrow> UnitKind \<Rightarrow> CompilationUnit" where
  "empty_unit uid rel_path pkg_path layer kind =
     \<lparr>unit_id = uid, relative_path = rel_path, package_path = pkg_path, unit_layer = layer,
      unit_kind = kind, child_modules = [], reexport_children = False, unit_part_def = None,
      unit_port_defs = [], unit_calc_defs = [], hoisted_predicates = [], action_plans = [],
      state_plans = []\<rparr>"

lemma empty_unit_simps [simp]:
  "unit_id (empty_unit uid p pp l k) = uid"
  "relative_path (empty_unit uid p pp l k) = p"
  "package_path (empty_unit uid p pp l k) = pp"
  "unit_layer (empty_unit uid p pp l k) = l"
  "unit_kind (empty_unit uid p pp l k) = k"
  "child_modules (empty_unit uid p pp l k) = []"
  "reexport_children (empty_unit uid p pp l k) = False"
  "unit_part_def (empty_unit uid p pp l k) = None"
  "unit_port_defs (empty_unit uid p pp l k) = []"
  "unit_calc_defs (empty_unit uid p pp l k) = []"
  "hoisted_predicates (empty_unit uid p pp l k) = []"
  "action_plans (empty_unit uid p pp l k) = []"
  "state_plans (empty_unit uid p pp l k) = []"
  by (simp_all add: empty_unit_def)

definition join_rel :: "string \<Rightarrow> string \<Rightarrow> string" where
  "join_rel dir leaf = (if dir = [] then leaf else dir @ ''/'' @ leaf)"

definition extract_part_field_names :: "PartDef \<Rightarrow> string btree_set" where
  "extract_part_field_names part = bs_collect (map (\<lambda>a. to_snake_slug (attr_name a)) (part_attributes part))"

definition shard_facet_name :: "string \<Rightarrow> nat \<Rightarrow> nat \<Rightarrow> nat \<Rightarrow> string" where
  "shard_facet_name stem count limit idx =
     (if count \<le> limit then stem else stem @ ''_'' @ decimal02 (Suc idx))"

text \<open>The named shards of a facet: \<^verbatim>\<open>chunks(limit).enumerate()\<close> under their module names.\<close>

definition facet_shards :: "string \<Rightarrow> nat \<Rightarrow> 'a list \<Rightarrow> (string \<times> 'a list) list" where
  "facet_shards stem limit xs =
     map (\<lambda>(i, chunk). (shard_facet_name stem (length xs) limit i, chunk))
       (enumerate 0 (chunks limit xs))"

definition numbered_shards :: "string \<Rightarrow> nat \<Rightarrow> 'a list \<Rightarrow> (string \<times> 'a list) list" where
  "numbered_shards stem limit xs =
     map (\<lambda>(i, chunk). (stem @ ''_'' @ decimal02 (Suc i), chunk)) (enumerate 0 (chunks limit xs))"

section \<open>Parts\<close>

definition part_unit_layer :: "PartDef \<Rightarrow> PackageFacetCtx \<Rightarrow> LayerRole" where
  "part_unit_layer part ctx = resolve_part_layer (part_layer part) (ctx_pkg_path ctx)"

definition part_predicates :: "PartDef \<Rightarrow> PackageFacetCtx \<Rightarrow> HoistedPredicate list" where
  "part_predicates part ctx =
     concat (map (\<lambda>c. hoist_constraint_anf_with_params
       (to_snake_slug (con_name c), to_pascal_ident (part_name part)) (extract_part_field_names part)
       (con_parameters c) (con_expression c) (max_cyclomatic_complexity (ctx_bounds ctx)))
       (part_constraints part))"

definition emit_part_invariants_facets ::
  "PartDef \<Rightarrow> PackageFacetCtx \<Rightarrow> string \<times> string \<Rightarrow> CompilationUnit list \<times> string list" where
  "emit_part_invariants_facets part ctx = (\<lambda>(base_id, part_dir).
     (let layer = part_unit_layer part ctx;
          shards = facet_shards ''invariants'' 6 (part_predicates part ctx)
      in (map (\<lambda>(m, chunk).
            (empty_unit (base_id @ ''::'' @ m) (join_rel part_dir (m @ ''.rs'')) (ctx_pkg_path ctx)
               layer PartInvariantsFacet)
              \<lparr>unit_part_def := Some part, hoisted_predicates := chunk\<rparr>) shards,
          map fst shards)))"

definition part_base_id :: "string \<Rightarrow> PackageFacetCtx \<Rightarrow> string" where
  "part_base_id name ctx = join ''::'' (ctx_pkg_path ctx) @ ''::'' @ name"

definition emit_part_ports_facets ::
  "PartDef \<Rightarrow> PackageFacetCtx \<Rightarrow> string \<times> string \<Rightarrow> CompilationUnit list \<times> string list" where
  "emit_part_ports_facets part ctx = (\<lambda>(base_id, part_dir).
     (let shards = facet_shards ''ports'' 4 (part_ports part)
      in (map (\<lambda>(m, chunk).
            (empty_unit (base_id @ ''::'' @ m) (join_rel part_dir (m @ ''.rs'')) (ctx_pkg_path ctx)
               (part_unit_layer part ctx) PartPortsFacet) \<lparr>unit_port_defs := chunk\<rparr>) shards,
          map fst shards)))"

definition emit_part_calcs_facets ::
  "PartDef \<Rightarrow> PackageFacetCtx \<Rightarrow> string \<times> string \<Rightarrow> CompilationUnit list \<times> string list" where
  "emit_part_calcs_facets part ctx = (\<lambda>(base_id, part_dir).
     (let shards = facet_shards ''calcs'' 5 (part_calcs part)
      in (map (\<lambda>(m, chunk).
            (empty_unit (base_id @ ''::'' @ m) (join_rel part_dir (m @ ''.rs'')) (ctx_pkg_path ctx)
               (part_unit_layer part ctx) PartCalcsFacet) \<lparr>unit_calc_defs := chunk\<rparr>) shards,
          map fst shards)))"

definition partition_part_facets ::
  "PartDef \<Rightarrow> PackageFacetCtx \<Rightarrow> CompilationUnit list \<times> string" where
  "partition_part_facets part ctx =
     (let layer = part_unit_layer part ctx;
          part_slug = to_snake_slug (part_name part);
          base_id = part_base_id (part_name part) ctx;
          part_dir = join_rel (ctx_pkg_dir ctx) part_slug;
          model = (empty_unit (base_id @ ''::model'') (join_rel part_dir ''model.rs'') (ctx_pkg_path ctx)
             layer PartModelFacet) \<lparr>unit_part_def := Some part\<rparr>;
          (inv_units, inv_names) = emit_part_invariants_facets part ctx (base_id, part_dir);
          (port_units, port_names) = emit_part_ports_facets part ctx (base_id, part_dir);
          (calc_units, calc_names) = emit_part_calcs_facets part ctx (base_id, part_dir);
          barrel = (empty_unit base_id (join_rel part_dir ''mod.rs'') (ctx_pkg_path ctx) layer BarrelFacade)
             \<lparr>child_modules := [''model''] @ inv_names @ port_names @ calc_names, reexport_children := True\<rparr>
      in ([model] @ inv_units @ port_units @ calc_units @ [barrel], part_slug))"

section \<open>Actions and state machines\<close>

definition emit_action_units ::
  "ActionDef \<Rightarrow> PackageFacetCtx \<Rightarrow> CompilationUnit list \<times> string" where
  "emit_action_units act ctx =
     (let plan = outline_action_def act (ctx_bounds ctx);
          slug = to_snake_slug (action_name act);
          base_id = part_base_id (action_name act) ctx
      in if length (plan_stages plan) \<le> 5 then
           ([(empty_unit base_id (join_rel (ctx_pkg_dir ctx) (slug @ ''.rs'')) (ctx_pkg_path ctx)
                (ctx_layer ctx) StandaloneAction) \<lparr>action_plans := [plan]\<rparr>], slug)
         else
           (let act_dir = join_rel (ctx_pkg_dir ctx) slug;
                shards = numbered_shards ''stages'' 5 (plan_stages plan)
            in (map (\<lambda>(shard, chunk).
                  (empty_unit (base_id @ ''::'' @ shard) (join_rel act_dir (shard @ ''.rs''))
                     (ctx_pkg_path ctx) (ctx_layer ctx) PartActionsFacet)
                    \<lparr>action_plans := [plan\<lparr>plan_stages := chunk\<rparr>]\<rparr>) shards
                @ [(empty_unit base_id (join_rel act_dir ''mod.rs'') (ctx_pkg_path ctx)
                      (ctx_layer ctx) StandaloneAction)
                    \<lparr>child_modules := map fst shards, reexport_children := True, action_plans := [plan]\<rparr>],
                slug)))"

definition emit_state_units ::
  "StateDef \<Rightarrow> PackageFacetCtx \<Rightarrow> CompilationUnit list \<times> string" where
  "emit_state_units state_def ctx =
     (let plan = outline_state_def state_def (ctx_bounds ctx);
          slug = to_snake_slug (state_name state_def);
          base_id = part_base_id (state_name state_def) ctx
      in if length (sm_handlers plan) \<le> 4 then
           ([(empty_unit base_id (join_rel (ctx_pkg_dir ctx) (slug @ ''.rs'')) (ctx_pkg_path ctx)
                (ctx_layer ctx) StandaloneState) \<lparr>state_plans := [plan]\<rparr>], slug)
         else
           (let st_dir = join_rel (ctx_pkg_dir ctx) slug;
                shards = numbered_shards ''handlers'' 4 (sm_handlers plan)
            in ([(empty_unit (base_id @ ''::states'') (join_rel st_dir ''states.rs'')
                    (ctx_pkg_path ctx) (ctx_layer ctx) PartStatesFacet)
                   \<lparr>state_plans := [plan\<lparr>sm_handlers := []\<rparr>]\<rparr>]
                @ map (\<lambda>(shard, chunk).
                    (empty_unit (base_id @ ''::'' @ shard) (join_rel st_dir (shard @ ''.rs''))
                       (ctx_pkg_path ctx) (ctx_layer ctx) PartStatesFacet)
                      \<lparr>state_plans := [plan\<lparr>sm_handlers := chunk\<rparr>]\<rparr>) shards
                @ [(empty_unit base_id (join_rel st_dir ''mod.rs'') (ctx_pkg_path ctx)
                      (ctx_layer ctx) StandaloneState)
                    \<lparr>child_modules := ''states'' # map fst shards, reexport_children := True,
                     state_plans := [plan]\<rparr>],
                slug)))"

section \<open>Shards\<close>

lemma facet_shards_concat: "0 < limit \<Longrightarrow> concat (map snd (facet_shards stem limit xs)) = xs"
  by (simp add: facet_shards_def case_prod_unfold comp_def enumerate_map_snd slice_chunks.concat_split)

lemma numbered_shards_concat: "0 < limit \<Longrightarrow> concat (map snd (numbered_shards stem limit xs)) = xs"
  by (simp add: numbered_shards_def case_prod_unfold comp_def enumerate_map_snd slice_chunks.concat_split)

lemma numbered_shards_distinct: "distinct (map fst (numbered_shards stem limit xs))"
  by (auto simp: numbered_shards_def distinct_map inj_on_def decimal02_inject in_set_enumerate_eq
      intro: distinct_enumerate)

lemma shards_bounded:
  assumes "s \<in> set (facet_shards stem limit xs) \<or> s \<in> set (numbered_shards stem limit xs)"
  shows "length (snd s) \<le> limit \<and> snd s \<noteq> []"
proof -
  have "snd s \<in> set (chunks limit xs)"
    using assms by (auto simp: facet_shards_def numbered_shards_def in_set_enumerate_eq)
  then show ?thesis by (rule chunks_bounded)
qed

lemma chunks_single: "xs \<noteq> [] \<Longrightarrow> length xs \<le> n \<Longrightarrow> chunks n xs = [xs]"
  using chunks_step [of xs n] by (cases n) auto

lemma facet_shards_distinct: "distinct (map fst (facet_shards stem limit xs))"
proof (cases "length xs \<le> limit")
  case True
  then have "facet_shards stem limit xs = [] \<or> facet_shards stem limit xs = [(stem, xs)]"
    by (cases "xs = []") (simp_all add: facet_shards_def shard_facet_name_def chunks_single)
  then show ?thesis by auto
next
  case False
  then have "inj_on (\<lambda>(i, chunk). shard_facet_name stem (length xs) limit i) (set (enumerate 0 (chunks limit xs)))"
    using False by (auto simp: inj_on_def shard_facet_name_def decimal02_inject in_set_enumerate_eq)
  then show ?thesis
    by (simp add: facet_shards_def distinct_map distinct_enumerate comp_def case_prod_unfold)
qed

lemma facet_shard_hd: "m \<in> set (map fst (facet_shards (c # stem) limit xs)) \<Longrightarrow> hd m = c \<and> m \<noteq> []"
  by (auto simp: facet_shards_def shard_facet_name_def split: if_splits)

lemma concat_map_Nil [simp]: "concat (map (\<lambda>x. []) xs) = []"
  by (induction xs) auto

lemma join_rel_inject: "join_rel dir a = join_rel dir b \<longleftrightarrow> a = b"
  by (simp add: join_rel_def)

section \<open>Parts, actions and machines are kept whole\<close>

lemmas part_unit_defs = partition_part_facets_def emit_part_invariants_facets_def
  emit_part_ports_facets_def emit_part_calcs_facets_def Let_def case_prod_unfold comp_def

lemma part_facets_content:
  fixes part ctx defines "us \<equiv> fst (partition_part_facets part ctx)"
  shows "concat (map unit_port_defs us) = part_ports part"
    and "concat (map unit_calc_defs us) = part_calcs part"
    and "concat (map hoisted_predicates us) = part_predicates part ctx"
    and "concat (map (opt_list \<circ> unit_part_def) (filter (\<lambda>u. unit_kind u = PartModelFacet) us)) = [part]"
  using facet_shards_concat [of 4 "''ports''" "part_ports part"] facet_shards_concat [of 5 "''calcs''" "part_calcs part"]
    facet_shards_concat [of 6 "''invariants''" "part_predicates part ctx"]
  by (simp_all add: us_def part_unit_defs filter_map opt_list_def)

lemma part_facets_bounded:
  "u \<in> set (fst (partition_part_facets part ctx)) \<Longrightarrow>
     length (unit_port_defs u) \<le> 4 \<and> length (unit_calc_defs u) \<le> 5 \<and> length (hoisted_predicates u) \<le> 6"
  by (auto simp: part_unit_defs dest: shards_bounded [OF disjI1])

section \<open>Modules and files\<close>

text \<open>The two files Rust reads the module \<open>c\<close> of the directory \<open>dir\<close> from.\<close>

definition module_file :: "string \<Rightarrow> string \<Rightarrow> string \<Rightarrow> bool" where
  "module_file dir c path \<longleftrightarrow> path = join_rel dir (c @ ''.rs'') \<or> path = join_rel dir (c @ ''/mod.rs'')"

definition declared_in :: "CompilationUnit list \<Rightarrow> string \<Rightarrow> bool" where
  "declared_in us path \<longleftrightarrow>
     (\<exists>b \<in> set us. \<exists>c \<in> set (child_modules b). \<exists>d. relative_path b = join_rel d ''mod.rs'' \<and> module_file d c path)"

definition children_present :: "CompilationUnit list \<Rightarrow> CompilationUnit \<Rightarrow> bool" where
  "children_present us b \<longleftrightarrow>
     (\<forall>c \<in> set (child_modules b). \<exists>d. relative_path b = join_rel d ''mod.rs'' \<and>
        (\<exists>v \<in> set us. module_file d c (relative_path v)))"

text \<open>The units of one module: its file is there, and below it all is declared and present.\<close>

definition module_group :: "string \<Rightarrow> string \<Rightarrow> CompilationUnit list \<Rightarrow> bool" where
  "module_group dir slug us \<longleftrightarrow>
     (\<exists>u \<in> set us. module_file dir slug (relative_path u)) \<and>
     (\<forall>u \<in> set us. children_present us u) \<and>
     (\<forall>u \<in> set us. module_file dir slug (relative_path u) \<or> declared_in us (relative_path u))"

lemma module_file_leaf [simp]: "module_file dir c (join_rel dir (c @ ''.rs''))"
  by (simp add: module_file_def)

lemma module_file_dir: "slug \<noteq> [] \<Longrightarrow> module_file dir slug (join_rel (join_rel dir slug) ''mod.rs'')"
  by (simp add: module_file_def join_rel_def)

lemma slug_nonempty: "to_snake_slug name \<noteq> []"
  using to_snake_slug_ok [of name] slug_ok_plain by (auto simp: slug_ok_def)

lemma single_file_group:
  "child_modules u = [] \<Longrightarrow> relative_path u = join_rel dir (slug @ ''.rs'') \<Longrightarrow> module_group dir slug [u]"
  by (simp add: module_group_def children_present_def)

text \<open>A directory: leaves and a \<^verbatim>\<open>mod.rs\<close> that declares exactly their names.\<close>

lemma directory_group:
  assumes slug: "slug \<noteq> []"
    and leaves: "\<forall>u \<in> set us. child_modules u = []"
    and files: "map relative_path us = map (\<lambda>m. join_rel (join_rel dir slug) (m @ ''.rs'')) names"
    and barrel: "relative_path b = join_rel (join_rel dir slug) ''mod.rs''" "child_modules b = names"
  shows "module_group dir slug (us @ [b])"
proof -
  let ?d = "join_rel dir slug"
  have paths: "relative_path ` set us = (\<lambda>m. join_rel ?d (m @ ''.rs'')) ` set names"
    using files by (metis set_map)
  have top: "module_file dir slug (relative_path b)" by (simp add: barrel module_file_dir slug)
  have "children_present (us @ [b]) b" unfolding children_present_def
  proof
    fix c assume "c \<in> set (child_modules b)"
    then have "join_rel ?d (c @ ''.rs'') \<in> relative_path ` set us" unfolding paths barrel(2) by (rule imageI)
    then obtain u where u: "u \<in> set us" "relative_path u = join_rel ?d (c @ ''.rs'')" by (elim imageE) simp
    then have "u \<in> set (us @ [b])" "module_file ?d c (relative_path u)" by auto
    then show "\<exists>d. relative_path b = join_rel d ''mod.rs'' \<and> (\<exists>v \<in> set (us @ [b]). module_file d c (relative_path v))"
      using barrel(1) by blast
  qed
  moreover have "children_present (us @ [b]) u" if "u \<in> set us" for u
    using leaves that by (simp add: children_present_def)
  moreover have "declared_in (us @ [b]) (relative_path u)" if "u \<in> set us" for u
  proof -
    have "relative_path u \<in> (\<lambda>m. join_rel ?d (m @ ''.rs'')) ` set names" unfolding paths [symmetric] using that by simp
    then obtain m where "m \<in> set names" "relative_path u = join_rel ?d (m @ ''.rs'')" by (elim imageE)
    then show ?thesis unfolding declared_in_def using barrel
      by (intro bexI [of _ b] bexI [of _ m] exI [of _ ?d]) auto
  qed
  ultimately show ?thesis using top by (auto simp: module_group_def)
qed

lemma part_group: "module_group (ctx_pkg_dir ctx) (to_snake_slug (part_name part)) (fst (partition_part_facets part ctx))"
  unfolding part_unit_defs fst_conv append_assoc [symmetric]
  by (rule directory_group [OF slug_nonempty]) auto

lemma action_group: "module_group (ctx_pkg_dir ctx) (to_snake_slug (action_name act)) (fst (emit_action_units act ctx))"
  unfolding emit_action_units_def Let_def case_prod_unfold
  by (auto intro!: single_file_group directory_group [OF slug_nonempty])

lemma state_group: "module_group (ctx_pkg_dir ctx) (to_snake_slug (state_name sd)) (fst (emit_state_units sd ctx))"
proof (cases "length (sm_handlers (outline_state_def sd (ctx_bounds ctx))) \<le> 4")
  case True
  then show ?thesis by (simp add: emit_state_units_def Let_def single_file_group)
next
  case False
  show ?thesis
    unfolding emit_state_units_def Let_def case_prod_unfold if_not_P [OF False] fst_conv append_assoc [symmetric]
    by (rule directory_group [OF slug_nonempty]) auto
qed

text \<open>
  sharding an action or a state machine keeps it. The shard files of a plan that is too long
  for one file hold its stages (its handlers) in order and have different names; the file of the
  module itself, the last one, records the whole plan and declares the shards.
\<close>

theorem sharding_keeps_plans:
  fixes act sd ctx
  shows "concat (map (\<lambda>u. concat (map plan_stages (action_plans u)))
       (filter (\<lambda>u. unit_kind u = PartActionsFacet) (fst (emit_action_units act ctx)))) =
     (if length (plan_stages (outline_action_def act (ctx_bounds ctx))) \<le> 5 then []
      else plan_stages (outline_action_def act (ctx_bounds ctx))) \<and>
   action_plans (last (fst (emit_action_units act ctx))) = [outline_action_def act (ctx_bounds ctx)] \<and>
   distinct (child_modules (last (fst (emit_action_units act ctx)))) \<and>
   concat (map (\<lambda>u. concat (map sm_handlers (state_plans u)))
       (filter (\<lambda>u. unit_kind u = PartStatesFacet) (fst (emit_state_units sd ctx)))) =
     (if length (sm_handlers (outline_state_def sd (ctx_bounds ctx))) \<le> 4 then []
      else sm_handlers (outline_state_def sd (ctx_bounds ctx))) \<and>
   state_plans (last (fst (emit_state_units sd ctx))) = [outline_state_def sd (ctx_bounds ctx)] \<and>
   distinct (child_modules (last (fst (emit_state_units sd ctx))))"
proof -
  have s: "''states'' \<notin> set (map fst (numbered_shards ''handlers'' 4 xs))" for xs :: "OutlinedStateHandler list"
    by (auto simp: numbered_shards_def)
  show ?thesis
    using numbered_shards_concat [of 5 "''stages''" "plan_stages (outline_action_def act (ctx_bounds ctx))"]
      numbered_shards_concat [of 4 "''handlers''" "sm_handlers (outline_state_def sd (ctx_bounds ctx))"]
      numbered_shards_distinct [of "''stages''" 5 "plan_stages (outline_action_def act (ctx_bounds ctx))"]
      numbered_shards_distinct [of "''handlers''" 4 "sm_handlers (outline_state_def sd (ctx_bounds ctx))"]
      s [of "sm_handlers (outline_state_def sd (ctx_bounds ctx))"]
    by (simp add: emit_action_units_def emit_state_units_def Let_def case_prod_unfold filter_map comp_def)
qed

end
