(* ===== verification/Dag_Verifier.thy ===== *)
theory Dag_Verifier
  imports Modular_Domain "HOL-Library.Monad_Syntax"
begin

text \<open>
  \<^verbatim>\<open>modular_codegen/lowering/dag_verifier.rs\<close>: the layer check of the dependency edges and Kahn's
  topological sort. The sort's \<^verbatim>\<open>while let Some(u) = ready.pop_first()\<close> loop may run for ever on
  arbitrary maps, so it is a partial function; from the maps the code builds it always returns.
\<close>

section \<open>Layers\<close>

definition layer_diagnostic :: "DependencyEdge \<Rightarrow> ModularityDiagnostic" where
  "layer_diagnostic edge =
     new_diagnostic UpwardLayerImportE0703 (from_unit edge @ '' -> '' @ to_unit edge)
       (''illegal upward @Layer dependency from '' @ layer_as_str (from_layer edge)
         @ '' (tier '' @ decimal (tier (from_layer edge)) @ '') to ''
         @ layer_as_str (to_layer edge)
         @ '' (tier '' @ decimal (tier (to_layer edge)) @ ''): '' @ edge_reason edge)"

definition is_upward :: "DependencyEdge \<Rightarrow> bool" where
  "is_upward edge \<longleftrightarrow>
     from_unit edge \<noteq> to_unit edge \<and> \<not> permits_dependency_on (from_layer edge) (to_layer edge)"

definition verify_layer_edges :: "DependencyEdge list \<Rightarrow> ModularityDiagnostic list" where
  "verify_layer_edges edges = map layer_diagnostic (filter is_upward edges)"

section \<open>Kahn's algorithm\<close>

type_synonym adjacency = "(string, string btree_set) btree_map"
type_synonym degrees = "(string, nat) btree_map"

definition neighbors :: "adjacency \<Rightarrow> string \<Rightarrow> string btree_set" where
  "neighbors adj u = (case bt_get adj u of None \<Rightarrow> [] | Some ns \<Rightarrow> ns)"

text \<open>One edge: \<^verbatim>\<open>entry(from).or_default().insert(to)\<close>, and the degree if the edge was new.\<close>

definition add_edge :: "DependencyEdge \<Rightarrow> adjacency \<times> degrees \<Rightarrow> adjacency \<times> degrees" where
  "add_edge edge maps =
     (let (adj, in_degree) = maps; from = from_unit edge; to = to_unit edge
      in if bt_contains in_degree from \<and> bt_contains in_degree to then
           (let inserted = (to \<notin> set (neighbors adj from))
            in (bt_insert from (bs_insert to (neighbors adj from)) adj,
                if inserted then bt_modify to Suc in_degree else in_degree))
         else (adj, in_degree))"

definition build_adjacency_and_indegree ::
  "string list \<Rightarrow> DependencyEdge list \<Rightarrow> adjacency \<times> degrees" where
  "build_adjacency_and_indegree node_ids edges =
     fold add_edge edges ([], bt_collect (map (\<lambda>node. (node, 0)) node_ids))"

fun release_one :: "string \<Rightarrow> degrees \<times> string btree_set \<Rightarrow> degrees \<times> string btree_set" where
  "release_one neighbor (in_degree, ready) =
     (case bt_get in_degree neighbor of
        None \<Rightarrow> (in_degree, ready)
      | Some deg \<Rightarrow>
          (bt_modify neighbor (\<lambda>_. deg - 1) in_degree,
           if deg - 1 = 0 then bs_insert neighbor ready else ready))"

definition release_ready_neighbors ::
  "string \<Rightarrow> adjacency \<Rightarrow> degrees \<times> string btree_set \<Rightarrow> degrees \<times> string btree_set" where
  "release_ready_neighbors u adj st = fold release_one (neighbors adj u) st"

partial_function (option) kahn_loop ::
  "adjacency \<Rightarrow> degrees \<Rightarrow> string btree_set \<Rightarrow> string list \<Rightarrow> (string list \<times> degrees) option" where
  "kahn_loop adj in_degree ready order =
     (case ready of
        [] \<Rightarrow> Some (order, in_degree)
      | u # rest \<Rightarrow>
          (let st = release_ready_neighbors u adj (in_degree, rest)
           in kahn_loop adj (fst st) (snd st) (order @ [u])))"

definition cycle_diagnostic :: "string list \<Rightarrow> ModularityDiagnostic" where
  "cycle_diagnostic participants =
     new_diagnostic DirectedCycleE0702 (join '' -> '' participants)
       (''directed dependency cycle detected across ['' @ join '', '' participants @ '']'')"

definition run_kahn_topological_sort ::
  "string list \<Rightarrow> DependencyEdge list \<Rightarrow> (ModularityDiagnostic list + string list) option" where
  "run_kahn_topological_sort node_ids edges =
     (let (adj, in_degree) = build_adjacency_and_indegree node_ids edges;
          ready = bs_collect (map fst (filter (\<lambda>(node, deg). deg = 0) in_degree))
      in do {
        (order, in_degree) \<leftarrow> kahn_loop adj in_degree ready [];
        Some (if length order < length in_degree
              then Inl [cycle_diagnostic (map fst (filter (\<lambda>(node, deg). 0 < deg) in_degree))]
              else Inr order)
      })"

definition verify_dag_and_layers ::
  "string list \<Rightarrow> DependencyEdge list \<Rightarrow> (ModularityDiagnostic list + string list) option" where
  "verify_dag_and_layers node_ids edges =
     (let diags = verify_layer_edges edges
      in do {
        sorted \<leftarrow> run_kahn_topological_sort node_ids edges;
        Some (case sorted of
                Inr order \<Rightarrow> (if diags = [] then Inr order else Inl diags)
              | Inl cycle_diags \<Rightarrow> Inl (diags @ cycle_diags))
      })"

section \<open>The relation the maps stand for\<close>

definition dependency :: "string list \<Rightarrow> DependencyEdge list \<Rightarrow> (string \<times> string) set" where
  "dependency nodes edges =
     {(u, v). u \<in> set nodes \<and> v \<in> set nodes \<and> (\<exists>e \<in> set edges. from_unit e = u \<and> to_unit e = v)}"

definition edge_rel :: "adjacency \<Rightarrow> (string \<times> string) set" where
  "edge_rel adj = {(u, v). v \<in> set (neighbors adj u)}"

text \<open>Every unit stands before all units it depends on: an edge leads to the right.\<close>

definition topological :: "(string \<times> string) set \<Rightarrow> string list \<Rightarrow> bool" where
  "topological E order \<longleftrightarrow> (\<forall>xs v ys. order = xs @ v # ys \<longrightarrow> (\<forall>u. (u, v) \<in> E \<longrightarrow> u \<in> set xs))"

definition maps_ok :: "adjacency \<Rightarrow> degrees \<Rightarrow> bool" where
  "maps_ok adj deg \<longleftrightarrow> bt_sorted adj \<and> bt_sorted deg \<and>
     (\<forall>u. bs_sorted (neighbors adj u)) \<and>
     edge_rel adj \<subseteq> set (bt_keys deg) \<times> set (bt_keys deg)"

lemma neighbors_insert:
  "bt_sorted adj \<Longrightarrow> neighbors (bt_insert u ns adj) w = (if w = u then ns else neighbors adj w)"
  by (simp add: neighbors_def bt_get_insert)

lemma bt_contains_keys: "bt_contains m k \<longleftrightarrow> k \<in> set (bt_keys m)"
  unfolding bt_contains_def by (rule bt_get_keys)

definition counts :: "adjacency \<Rightarrow> degrees \<Rightarrow> bool" where
  "counts adj deg \<longleftrightarrow> (\<forall>v \<in> set (bt_keys deg). bt_get deg v = Some (card {u. (u, v) \<in> edge_rel adj}))"

lemma edge_rel_insert:
  "bt_sorted adj \<Longrightarrow>
     edge_rel (bt_insert u (bs_insert v (neighbors adj u)) adj) = insert (u, v) (edge_rel adj)"
  by (auto simp: edge_rel_def neighbors_insert split: if_splits)

lemma finite_preds: "maps_ok adj deg \<Longrightarrow> finite {u. (u, v) \<in> edge_rel adj}"
  by (rule finite_subset [of _ "set (bt_keys deg)"]) (auto simp: maps_ok_def)

lemma add_edge_step:
  assumes "maps_ok adj deg" "counts adj deg" and res: "add_edge e (adj, deg) = (adj', deg')"
  shows "maps_ok adj' deg' \<and> counts adj' deg' \<and> bt_keys deg' = bt_keys deg \<and>
    edge_rel adj' = edge_rel adj \<union>
      {(u, v). u = from_unit e \<and> v = to_unit e \<and> u \<in> set (bt_keys deg) \<and> v \<in> set (bt_keys deg)}"
proof (cases "from_unit e \<in> set (bt_keys deg) \<and> to_unit e \<in> set (bt_keys deg)")
  case False
  then show ?thesis using assms by (auto simp: add_edge_def bt_contains_keys)
next
  case True
  let ?u = "from_unit e" and ?v = "to_unit e"
  have adj': "adj' = bt_insert ?u (bs_insert ?v (neighbors adj ?u)) adj"
    and deg': "deg' = (if ?v \<notin> set (neighbors adj ?u) then bt_modify ?v Suc deg else deg)"
    using True res by (auto simp: add_edge_def bt_contains_keys Let_def)
  have s: "bt_sorted adj" using assms by (simp add: maps_ok_def)
  have rel: "edge_rel adj' = insert (?u, ?v) (edge_rel adj)"
    unfolding adj' using s by (rule edge_rel_insert)
  have keys: "bt_keys deg' = bt_keys deg" by (simp add: deg')
  have "maps_ok adj' deg'"
    using assms(1) True rel unfolding maps_ok_def keys
    by (auto simp: adj' deg' neighbors_insert)
  moreover have "counts adj' deg'"
    unfolding counts_def keys
  proof
    fix w
    assume w: "w \<in> set (bt_keys deg)"
    then have g: "bt_get deg w = Some (card {u. (u, w) \<in> edge_rel adj})"
      using assms(2) by (simp add: counts_def)
    have f: "finite {u. (u, w) \<in> edge_rel adj}" using assms(1) by (rule finite_preds)
    show "bt_get deg' w = Some (card {u. (u, w) \<in> edge_rel adj'})"
    proof (cases "w = ?v \<and> ?v \<notin> set (neighbors adj ?u)")
      case True
      then have "{u. (u, w) \<in> edge_rel adj'} = insert ?u {u. (u, w) \<in> edge_rel adj}"
        by (auto simp: rel)
      moreover have "?u \<notin> {u. (u, w) \<in> edge_rel adj}" using True by (simp add: edge_rel_def)
      ultimately show ?thesis using True g f by (simp add: deg' bt_get_modify)
    next
      case False
      then have "w \<noteq> ?v \<or> (?u, ?v) \<in> edge_rel adj" by (simp add: edge_rel_def)
      then have "{u. (u, w) \<in> edge_rel adj'} = {u. (u, w) \<in> edge_rel adj}" by (auto simp: rel)
      with False g show ?thesis by (auto simp: deg' bt_get_modify)
    qed
  qed
  ultimately show ?thesis using True rel keys by auto
qed

lemma add_edges:
  "maps_ok adj deg \<Longrightarrow> counts adj deg \<Longrightarrow> fold add_edge es (adj, deg) = (adj', deg') \<Longrightarrow>
     maps_ok adj' deg' \<and> counts adj' deg' \<and> bt_keys deg' = bt_keys deg \<and>
     edge_rel adj' = edge_rel adj \<union> dependency (bt_keys deg) es"
proof (induction es arbitrary: adj deg)
  case Nil
  then show ?case by (auto simp: dependency_def)
next
  case (Cons e es)
  obtain adj1 deg1 where st: "add_edge e (adj, deg) = (adj1, deg1)" by fastforce
  note s = add_edge_step [OF Cons.prems(1,2) st]
  have "fold add_edge es (adj1, deg1) = (adj', deg')" using Cons.prems(3) st by simp
  then have "maps_ok adj' deg' \<and> counts adj' deg' \<and> bt_keys deg' = bt_keys deg1 \<and>
      edge_rel adj' = edge_rel adj1 \<union> dependency (bt_keys deg1) es"
    using s by (intro Cons.IH) auto
  then show ?case using s by (auto simp: dependency_def)
qed

lemma build_maps:
  assumes "build_adjacency_and_indegree nodes edges = (adj, deg)"
  shows "maps_ok adj deg \<and> counts adj deg \<and> set (bt_keys deg) = set nodes \<and>
    edge_rel adj = dependency nodes edges"
proof -
  let ?deg0 = "bt_collect (map (\<lambda>node. (node, 0::nat)) nodes)"
  have keys: "set (bt_keys ?deg0) = set nodes" by (auto simp: bt_keys_collect image_image)
  have e: "edge_rel [] = {}" by (simp add: edge_rel_def neighbors_def bt_get_def)
  have "map_of (rev (map (\<lambda>node. (node, 0::nat)) nodes)) v = Some 0" if "v \<in> set nodes" for v
  proof -
    have "v \<in> fst ` set (rev (map (\<lambda>node. (node, 0::nat)) nodes))"
      using that by (simp add: image_image)
    then obtain y where y: "map_of (rev (map (\<lambda>node. (node, 0::nat)) nodes)) v = Some y"
      by (metis map_of_eq_None_iff not_Some_eq)
    then have "y = 0" by (auto dest: map_of_SomeD)
    with y show ?thesis by simp
  qed
  then have "counts [] ?deg0" by (simp add: counts_def keys e bt_get_collect)
  moreover have "maps_ok [] ?deg0" by (simp add: maps_ok_def e neighbors_def bt_get_def)
  ultimately have "maps_ok adj deg \<and> counts adj deg \<and> bt_keys deg = bt_keys ?deg0 \<and>
      edge_rel adj = edge_rel [] \<union> dependency (bt_keys ?deg0) edges"
    using assms unfolding build_adjacency_and_indegree_def by (intro add_edges)
  then show ?thesis using keys e by (auto simp: dependency_def)
qed

section \<open>Releasing the neighbours of a node\<close>

lemma release_fold:
  "distinct ns \<Longrightarrow> bs_sorted ready \<Longrightarrow> fold release_one ns (deg, ready) = (deg', ready') \<Longrightarrow>
     bt_keys deg' = bt_keys deg \<and> (bt_sorted deg' \<longleftrightarrow> bt_sorted deg) \<and> bs_sorted ready' \<and>
     (\<forall>v. bt_get deg' v = map_option (\<lambda>d. if v \<in> set ns then d - 1 else d) (bt_get deg v)) \<and>
     set ready' = set ready \<union> {v \<in> set ns. \<exists>d. bt_get deg v = Some d \<and> d - 1 = 0}"
proof (induction ns arbitrary: deg ready)
  case Nil
  then show ?case by (simp add: option.map_ident)
next
  case (Cons n ns)
  obtain deg1 ready1 where st: "release_one n (deg, ready) = (deg1, ready1)" by fastforce
  have one: "bt_keys deg1 = bt_keys deg" "bt_sorted deg1 = bt_sorted deg" "bs_sorted ready1"
      "\<And>v. bt_get deg1 v = map_option (\<lambda>d. if v = n then d - 1 else d) (bt_get deg v)"
      "set ready1 = set ready \<union> {v. v = n \<and> (\<exists>d. bt_get deg v = Some d \<and> d - 1 = 0)}"
    using st Cons.prems(2)
    by (auto simp: bt_get_modify option.map_ident split: option.splits if_splits;
        auto simp: map_option_case split: option.split)+
  have "fold release_one ns (deg1, ready1) = (deg', ready')" using Cons.prems(3) st by simp
  then have IH: "bt_keys deg' = bt_keys deg1 \<and> (bt_sorted deg' \<longleftrightarrow> bt_sorted deg1) \<and> bs_sorted ready' \<and>
     (\<forall>v. bt_get deg' v = map_option (\<lambda>d. if v \<in> set ns then d - 1 else d) (bt_get deg1 v)) \<and>
     set ready' = set ready1 \<union> {v \<in> set ns. \<exists>d. bt_get deg1 v = Some d \<and> d - 1 = 0}"
    using Cons.prems(1) one(3) by (intro Cons.IH) auto
  have n: "n \<notin> set ns" using Cons.prems(1) by simp
  have "bt_get deg' v = map_option (\<lambda>d. if v \<in> set (n # ns) then d - 1 else d) (bt_get deg v)" for v
    using IH one(4) n by (cases "bt_get deg v") auto
  moreover have "set ready' = set ready \<union> {v \<in> set (n # ns). \<exists>d. bt_get deg v = Some d \<and> d - 1 = 0}"
    using IH one(4,5) n by (auto split: if_splits)
  ultimately show ?case using IH one by simp
qed

section \<open>The invariant of the loop\<close>

definition kahn_inv :: "adjacency \<Rightarrow> degrees \<Rightarrow> string btree_set \<Rightarrow> string list \<Rightarrow> bool" where
  "kahn_inv adj deg ready order \<longleftrightarrow>
     maps_ok adj deg \<and> bs_sorted ready \<and> distinct order \<and> set order \<subseteq> set (bt_keys deg) \<and>
     (\<forall>v \<in> set (bt_keys deg).
        bt_get deg v = Some (card {u. (u, v) \<in> edge_rel adj \<and> u \<notin> set order})) \<and>
     set ready = {v. bt_get deg v = Some 0 \<and> v \<notin> set order} \<and>
     topological (edge_rel adj) order"

lemma topological_snoc:
  "topological E order \<Longrightarrow> (\<forall>u. (u, v) \<in> E \<longrightarrow> u \<in> set order) \<Longrightarrow> topological E (order @ [v])"
  unfolding topological_def
  by (metis (no_types, lifting) butlast_append butlast_snoc last_snoc list.distinct(1) append_is_Nil_conv
      append_butlast_last_id last_ConsL last_appendR butlast.simps(2) append_Nil2)

lemma topological_closed: "topological E order \<Longrightarrow> v \<in> set order \<Longrightarrow> (u, v) \<in> E \<Longrightarrow> u \<in> set order"
  unfolding topological_def by (metis split_list Un_iff set_append)

lemma kahn_step:
  assumes inv: "kahn_inv adj deg (u # rest) order"
    and rel: "release_ready_neighbors u adj (deg, rest) = (deg', ready')"
  shows "kahn_inv adj deg' ready' (order @ [u]) \<and> bt_keys deg' = bt_keys deg \<and>
    u \<in> set (bt_keys deg) \<and> u \<notin> set order"
proof -
  let ?E = "edge_rel adj" and ?N = "set (bt_keys deg)"
  note inv' = inv [unfolded kahn_inv_def]
  have ok: "maps_ok adj deg" and rs: "bs_sorted (u # rest)" using inv' by blast+
  have cnt: "bt_get deg v = Some (card {w. (w, v) \<in> ?E \<and> w \<notin> set order})" if "v \<in> ?N" for v
    using inv' that by blast
  have rdy: "v \<in> set (u # rest) \<longleftrightarrow> bt_get deg v = Some 0 \<and> v \<notin> set order" for v
    using inv' by blast
  have topo: "topological ?E order" using inv' by blast
  have u: "bt_get deg u = Some 0" "u \<notin> set order" using rdy [of u] by auto
  then have uN: "u \<in> ?N" using bt_get_keys [of deg u] by simp
  have fin: "finite {w. (w, v) \<in> ?E \<and> w \<notin> set order}" for v
    using finite_preds [OF ok, of v] by (rule rev_finite_subset) auto
  have preds_u: "w \<in> set order" if "(w, u) \<in> ?E" for w
  proof -
    have "card {w. (w, u) \<in> ?E \<and> w \<notin> set order} = 0" using cnt [OF uN] u(1) by simp
    then have "{w. (w, u) \<in> ?E \<and> w \<notin> set order} = {}" using fin by (simp only: card_0_eq)
    with that show ?thesis by blast
  qed
  have ns: "distinct (neighbors adj u)" using ok by (simp add: maps_ok_def bs_sorted_distinct)
  have r0: "bs_sorted rest" "u \<notin> set rest" using rs by (auto simp: bs_sorted_def)
  note R = release_fold [OF ns r0(1) rel [unfolded release_ready_neighbors_def]]
  have nbE: "v \<in> set (neighbors adj u) \<longleftrightarrow> (u, v) \<in> ?E" for v by (simp add: edge_rel_def)
  have get': "bt_get deg' v = map_option (\<lambda>d. if (u, v) \<in> ?E then d - 1 else d) (bt_get deg v)" for v
    using R by (simp add: nbE)
  have cnt': "bt_get deg' v = Some (card {w. (w, v) \<in> ?E \<and> w \<notin> set (order @ [u])})" if "v \<in> ?N" for v
  proof (cases "(u, v) \<in> ?E")
    case True
    then have "{w. (w, v) \<in> ?E \<and> w \<notin> set order} = insert u {w. (w, v) \<in> ?E \<and> w \<notin> set (order @ [u])}"
      using u(2) by auto
    moreover have "finite {w. (w, v) \<in> ?E \<and> w \<notin> set (order @ [u])}"
      using fin [of v] by (rule rev_finite_subset) auto
    ultimately have "card {w. (w, v) \<in> ?E \<and> w \<notin> set order} =
        Suc (card {w. (w, v) \<in> ?E \<and> w \<notin> set (order @ [u])})"
      by simp
    with True that show ?thesis by (simp add: get' cnt)
  next
    case False
    then have "{w. (w, v) \<in> ?E \<and> w \<notin> set (order @ [u])} = {w. (w, v) \<in> ?E \<and> w \<notin> set order}"
      by auto
    with False that show ?thesis by (simp add: get' cnt)
  qed
  have ready': "v \<in> set ready' \<longleftrightarrow> bt_get deg' v = Some 0 \<and> v \<notin> set (order @ [u])" for v
  proof (cases "(u, v) \<in> ?E")
    case True
    then have vN: "v \<in> ?N" using ok by (auto simp: maps_ok_def)
    have "u \<in> {w. (w, v) \<in> ?E \<and> w \<notin> set order}" using True u(2) by simp
    then have pos: "card {w. (w, v) \<in> ?E \<and> w \<notin> set order} \<noteq> 0" using fin [of v] by auto
    have "v \<notin> set order" using topological_closed [OF topo _ True] u(2) by blast
    moreover have "v \<noteq> u" using pos cnt [OF uN] u(1) by auto
    moreover have "v \<in> set ready' \<longleftrightarrow> v \<in> set rest \<or> (\<exists>d. bt_get deg v = Some d \<and> d - 1 = 0)"
      using R True nbE by auto
    ultimately show ?thesis using pos cnt [OF vN] rdy [of v] by (auto simp: get' True)
  next
    case False
    then have "v \<in> set ready' \<longleftrightarrow> v \<in> set rest" using R nbE by auto
    then show ?thesis using False rdy [of v] r0(2) by (auto simp: get' option.map_ident)
  qed
  have "maps_ok adj deg'" using ok R by (simp add: maps_ok_def)
  moreover have "topological ?E (order @ [u])" using topo preds_u by (intro topological_snoc) auto
  ultimately have "kahn_inv adj deg' ready' (order @ [u])"
    unfolding kahn_inv_def using R inv' u uN cnt' ready' by auto
  then show ?thesis using R uN u(2) by blast
qed

text \<open>The loop returns, and its result satisfies the invariant with nothing left to do.\<close>

lemma kahn_loop_returns:
  "kahn_inv adj deg ready order \<Longrightarrow>
     \<exists>order' deg'. kahn_loop adj deg ready order = Some (order', deg') \<and>
       kahn_inv adj deg' [] order' \<and> bt_keys deg' = bt_keys deg"
proof (induction "length (bt_keys deg) - length order" arbitrary: deg ready order rule: less_induct)
  case less
  show ?case
  proof (cases ready)
    case Nil
    then show ?thesis using less.prems by (simp add: kahn_loop.simps)
  next
    case (Cons u rest)
    obtain deg1 ready1 where rel: "release_ready_neighbors u adj (deg, rest) = (deg1, ready1)"
      by fastforce
    note step = kahn_step [OF less.prems [unfolded Cons] rel]
    have "distinct order" "set order \<subseteq> set (bt_keys deg)"
      using less.prems by (auto simp: kahn_inv_def)
    then have "card (insert u (set order)) \<le> card (set (bt_keys deg))"
      using step by (intro card_mono) auto
    then have "length order < length (bt_keys deg)"
      using step \<open>distinct order\<close> card_length [of "bt_keys deg"]
      by (simp add: distinct_card)
    then have "\<exists>order' deg'. kahn_loop adj deg1 ready1 (order @ [u]) = Some (order', deg') \<and>
       kahn_inv adj deg' [] order' \<and> bt_keys deg' = bt_keys deg1"
      using step by (intro less.hyps) auto
    then show ?thesis using step Cons rel by (simp add: kahn_loop.simps [of adj deg "u # rest"])
  qed
qed

lemma kahn_init:
  assumes "maps_ok adj deg" "counts adj deg"
  shows "kahn_inv adj deg (bs_collect (map fst (filter (\<lambda>(node, d). d = 0) deg))) []"
proof -
  have "bt_get deg v = Some 0 \<longleftrightarrow> v \<in> fst ` set (filter (\<lambda>(node, d). d = 0) deg)" for v
    using assms(1) bt_get_entry [of deg v 0] by (force simp: maps_ok_def)
  then show ?thesis
    using assms by (auto simp: kahn_inv_def counts_def topological_def)
qed

section \<open>Acyclicity\<close>

lemma index_split: "v \<notin> set xs \<Longrightarrow> length (takeWhile (\<lambda>w. w \<noteq> v) (xs @ v # ys)) = length xs"
  by (induction xs) auto

lemma topological_acyclic:
  assumes "topological E order" "E \<subseteq> set order \<times> set order"
  shows "acyclic E"
proof -
  let ?ix = "\<lambda>v. length (takeWhile (\<lambda>w. w \<noteq> v) order)"
  have "E \<subseteq> measure ?ix"
  proof clarify
    fix u v
    assume e: "(u, v) \<in> E"
    then obtain xs ys where o: "order = xs @ v # ys" "v \<notin> set xs"
      using assms(2) by (meson SigmaD2 split_list_first subsetD)
    then have "u \<in> set xs" using assms(1) e by (simp add: topological_def)
    then obtain as bs where xs: "xs = as @ u # bs" "u \<notin> set as" by (meson split_list_first)
    then have "?ix u = length as" "?ix v = length xs"
      using o index_split [of u as "bs @ v # ys"] index_split [of v xs ys] by simp_all
    then show "(u, v) \<in> measure ?ix" using xs by simp
  qed
  then show ?thesis by (meson wf_acyclic wf_measure wf_subset)
qed

lemma stuck_cyclic:
  assumes "finite S" "S \<noteq> {}" "\<forall>v \<in> S. \<exists>u \<in> S. (u, v) \<in> E"
  shows "\<not> acyclic E"
proof
  assume "acyclic E"
  then have "acyclic (E \<inter> S \<times> S)" by (rule acyclic_subset) blast
  moreover have "finite (E \<inter> S \<times> S)" using assms(1) by simp
  ultimately have "wf (E \<inter> S \<times> S)" by (rule finite_acyclic_wf [rotated])
  moreover obtain x where "x \<in> S" using assms(2) by blast
  ultimately obtain z where "z \<in> S" "\<And>y. (y, z) \<in> E \<inter> S \<times> S \<Longrightarrow> y \<notin> S"
    by (rule wfE_min) blast
  with assms(3) show False by blast
qed

lemma kahn_result:
  "\<exists>order (deg :: degrees). run_kahn_topological_sort nodes edges =
      Some (if set order = set nodes then Inr order
            else Inl [cycle_diagnostic (map fst (filter (\<lambda>(node, d). 0 < d) deg))]) \<and>
    distinct order \<and> set order \<subseteq> set nodes \<and> topological (dependency nodes edges) order \<and>
    (set order = set nodes \<longleftrightarrow> acyclic (dependency nodes edges)) \<and>
    set (map fst (filter (\<lambda>(node, d). 0 < d) deg)) = set nodes - set order"
proof -
  obtain adj deg0 where b: "build_adjacency_and_indegree nodes edges = (adj, deg0)" by fastforce
  note B = build_maps [OF b]
  let ?E = "dependency nodes edges"
  obtain order deg where run: "kahn_loop adj deg0 (bs_collect (map fst (filter (\<lambda>(node, d). d = 0) deg0))) []
      = Some (order, deg)" and inv: "kahn_inv adj deg [] order" and keys: "bt_keys deg = bt_keys deg0"
    using kahn_loop_returns [OF kahn_init] B by blast
  have N: "set (bt_keys deg) = set nodes" and E: "edge_rel adj = ?E" using B keys by auto
  note I = inv [unfolded kahn_inv_def N E]
  have s: "bt_sorted deg" using I by (simp add: maps_ok_def)
  have o: "distinct order" "set order \<subseteq> set nodes" "topological ?E order" using I by auto
  have len: "length deg = card (set nodes)"
    using distinct_card [OF bt_distinct [OF s]] N by (simp add: bt_keys_def)
  have "length order = card (set order)" using distinct_card [OF o(1)] by simp
  then have full: "\<not> length order < length deg \<longleftrightarrow> set order = set nodes"
    using len o(2) by (metis List.finite_set card_mono card_subset_eq leD le_neq_implies_less)
  have rest: "(v, d) \<in> set deg \<Longrightarrow> 0 < d \<longleftrightarrow> v \<notin> set order" for v d
  proof -
    assume "(v, d) \<in> set deg"
    then have g: "bt_get deg v = Some d" by (simp add: bt_get_entry [OF s])
    then have v: "v \<in> set nodes" using bt_get_keys [of deg v] N by simp
    have "d = 0 \<longleftrightarrow> v \<in> set order"
    proof
      show "d = 0 \<Longrightarrow> v \<in> set order" using I g by auto
      assume "v \<in> set order"
      then have "{u. (u, v) \<in> ?E \<and> u \<notin> set order} = {}"
        using topological_closed [OF o(3)] by blast
      moreover have "bt_get deg v = Some (card {u. (u, v) \<in> ?E \<and> u \<notin> set order})"
        using I v by blast
      ultimately show "d = 0" using g by (simp only: card.empty option.inject)
    qed
    then show "0 < d \<longleftrightarrow> v \<notin> set order" by auto
  qed
  have left: "set (map fst (filter (\<lambda>(node, d). 0 < d) deg)) = set nodes - set order"
  proof (intro set_eqI iffI)
    fix v
    assume "v \<in> set (map fst (filter (\<lambda>(node, d). 0 < d) deg))"
    then obtain d where "(v, d) \<in> set deg" "0 < d" by auto
    moreover from this have "v \<in> set (bt_keys deg)" by (force simp: bt_keys_def)
    ultimately show "v \<in> set nodes - set order" using rest N by simp
  next
    fix v
    assume v: "v \<in> set nodes - set order"
    then have "v \<in> fst ` set deg" using N by (simp add: bt_keys_def)
    then obtain d where "(v, d) \<in> set deg" by auto
    moreover from this have "0 < d" using rest v by simp
    ultimately show "v \<in> set (map fst (filter (\<lambda>(node, d). 0 < d) deg))" by force
  qed
  have ac: "set order = set nodes \<longleftrightarrow> acyclic ?E"
  proof
    assume "set order = set nodes"
    then show "acyclic ?E" using o(3) by (intro topological_acyclic) (auto simp: dependency_def)
  next
    assume ac: "acyclic ?E"
    show "set order = set nodes"
    proof (rule ccontr)
      assume "set order \<noteq> set nodes"
      then have ne: "set nodes - set order \<noteq> {}" using o(2) by blast
      have "\<exists>u \<in> set nodes - set order. (u, v) \<in> ?E" if v: "v \<in> set nodes - set order" for v
      proof -
        have "bt_get deg v = Some (card {u. (u, v) \<in> ?E \<and> u \<notin> set order})"
          using I v by blast
        moreover have "v \<notin> {v. bt_get deg v = Some 0 \<and> v \<notin> set order}"
          using I by (metis empty_iff empty_set)
        ultimately have "card {u. (u, v) \<in> ?E \<and> u \<notin> set order} \<noteq> 0" using v by simp
        then have "{u. (u, v) \<in> ?E \<and> u \<notin> set order} \<noteq> {}" by (metis card.empty)
        then show ?thesis by (auto simp: dependency_def)
      qed
      then have "\<not> acyclic ?E" using ne by (intro stuck_cyclic [of "set nodes - set order"]) auto
      with ac show False by blast
    qed
  qed
  have result: "run_kahn_topological_sort nodes edges = Some (if set order = set nodes then Inr order
            else Inl [cycle_diagnostic (map fst (filter (\<lambda>(node, d). 0 < d) deg))])"
  proof -
    have "length order < length deg \<longleftrightarrow> set order \<noteq> set nodes" using full by blast
    then show ?thesis by (simp add: run_kahn_topological_sort_def b run)
  qed
  show ?thesis
    by (rule exI [of _ order], rule exI [of _ deg], intro conjI) (fact result o ac left)+
qed

section \<open>Properties\<close>

text \<open>
  C9: Kahn's sort always returns. On an acyclic dependency graph the result is every node exactly
  once, each before the nodes it depends on; on a cyclic one it is one diagnostic with code E0702.
\<close>

theorem kahn_correct:
  "(acyclic (dependency nodes edges) \<longrightarrow>
      (\<exists>order. run_kahn_topological_sort nodes edges = Some (Inr order) \<and> distinct order \<and>
        set order = set nodes \<and> topological (dependency nodes edges) order)) \<and>
   (\<not> acyclic (dependency nodes edges) \<longrightarrow>
      (\<exists>d. run_kahn_topological_sort nodes edges = Some (Inl [d]) \<and>
        diag_code d = DirectedCycleE0702))"
proof -
  obtain order and deg :: degrees where
    "run_kahn_topological_sort nodes edges = Some (if set order = set nodes then Inr order
       else Inl [cycle_diagnostic (map fst (filter (\<lambda>(node, d). 0 < d) deg))])"
    "distinct order" "topological (dependency nodes edges) order"
    "set order = set nodes \<longleftrightarrow> acyclic (dependency nodes edges)"
    using kahn_result [of nodes edges] by blast
  then show ?thesis by (simp add: cycle_diagnostic_def new_diagnostic_def)
qed

definition example_edge :: "string \<Rightarrow> string \<Rightarrow> LayerRole \<Rightarrow> LayerRole \<Rightarrow> DependencyEdge" where
  "example_edge f t lf lt =
     \<lparr>from_unit = f, to_unit = t, from_layer = lf, to_layer = lt, edge_reason = t\<rparr>"

lemma kahn_correct_witness:
  "\<exists>d. run_kahn_topological_sort [''a'', ''b'']
     [example_edge ''a'' ''b'' Domain Domain, example_edge ''b'' ''a'' Domain Domain] = Some (Inl [d])"
proof -
  let ?es = "[example_edge ''a'' ''b'' Domain Domain, example_edge ''b'' ''a'' Domain Domain]"
  have "(''a'', ''b'') \<in> dependency [''a'', ''b''] ?es" "(''b'', ''a'') \<in> dependency [''a'', ''b''] ?es"
    by (simp_all add: dependency_def example_edge_def)
  then have "(''a'', ''a'') \<in> (dependency [''a'', ''b''] ?es)\<^sup>+" by (meson r_into_trancl trancl.trancl_into_trancl)
  then have "\<not> acyclic (dependency [''a'', ''b''] ?es)" by (auto simp: acyclic_def)
  then show ?thesis using kahn_correct [of "[''a'', ''b'']" ?es] by blast
qed

text \<open>
  C10: the verifier accepts exactly the acyclic graphs without an edge to a higher layer; its
  verdict on a rejected one lists the upward edges in the order of the edges, then the cycle if
  there is one.
\<close>

theorem verify_dag_and_layers_iff:
  "((\<exists>order. verify_dag_and_layers nodes edges = Some (Inr order)) \<longleftrightarrow>
      acyclic (dependency nodes edges) \<and> (\<forall>e \<in> set edges. \<not> is_upward e)) \<and>
   (\<forall>diags. verify_dag_and_layers nodes edges = Some (Inl diags) \<longrightarrow>
      (\<exists>cycle. diags = map layer_diagnostic (filter is_upward edges) @ cycle \<and>
        (cycle = [] \<longleftrightarrow> acyclic (dependency nodes edges)))) \<and>
   verify_dag_and_layers nodes edges \<noteq> None"
proof -
  obtain order and deg :: degrees where
    "run_kahn_topological_sort nodes edges = Some (if set order = set nodes then Inr order
       else Inl [cycle_diagnostic (map fst (filter (\<lambda>(node, d). 0 < d) deg))])"
    "set order = set nodes \<longleftrightarrow> acyclic (dependency nodes edges)"
    using kahn_result [of nodes edges] by blast
  then show ?thesis
    by (auto simp: verify_dag_and_layers_def verify_layer_edges_def filter_empty_conv)
qed

lemma verify_dag_and_layers_iff_witness:
  "\<not> (\<exists>order. verify_dag_and_layers [''a'', ''b''] [example_edge ''a'' ''b'' Domain Presentation]
     = Some (Inr order))"
  using verify_dag_and_layers_iff [of "[''a'', ''b'']" "[example_edge ''a'' ''b'' Domain Presentation]"]
  by (simp add: is_upward_def example_edge_def permits_dependency_on_def)

end
