(* ===== verification/Partitioner.thy ===== *)
theory Partitioner
  imports Partition_Facets Dag_Verifier
begin

text \<open>
  \<^verbatim>\<open>modular_codegen/lowering/partitioner.rs\<close>: the dependency graph of the classifiers of a
  package hierarchy, and the module graph with one directory per package. As in the facets, what
  the source appends to a vector is the result of the function that appends it.
\<close>

section \<open>The packages with their paths\<close>

definition child_path :: "string list \<Rightarrow> PackageDef \<Rightarrow> string list" where
  "child_path path sub = path @ [to_snake_slug (pkg_name sub)]"

definition sub_packages :: "PackageDef \<times> string list \<Rightarrow> (PackageDef \<times> string list) list" where
  "sub_packages = (\<lambda>(pkg, path). map (\<lambda>sub. (sub, child_path path sub)) (pkg_packages pkg))"

lemma sub_packages_size: "sum_list (map (size \<circ> fst) (sub_packages x)) < size (fst x)"
  using sum_size_less(1) [of "fst x"]
  by (cases x) (simp add: sub_packages_def comp_def)

text \<open>The loop \<^verbatim>\<open>while let Some((pkg, path)) = stack.pop()\<close>: what it takes from the stack, in order.\<close>

function pop_paths :: "(PackageDef \<times> string list) list \<Rightarrow> (PackageDef \<times> string list) list" where
  "pop_paths [] = []"
| "pop_paths (x # stack) = x # pop_paths (sub_packages x @ stack)"
  by pat_completeness auto
termination
proof (relation "measure (\<lambda>st. sum_list (map (size \<circ> fst) st))")
  fix x stack
  show "(sub_packages x @ stack, x # stack) \<in> measure (\<lambda>st. sum_list (map (size \<circ> fst) st))"
    using sub_packages_size [of x] by simp
qed simp

definition package_paths :: "PackageDef \<Rightarrow> (PackageDef \<times> string list) list" where
  "package_paths root = pop_paths [(root, [])]"

section \<open>The dependency graph\<close>

type_synonym ClassifierRegistry = "(string, string \<times> LayerRole) btree_map"

definition register_part ::
  "string list \<Rightarrow> PartDef \<Rightarrow> ClassifierRegistry \<times> string list \<Rightarrow> ClassifierRegistry \<times> string list" where
  "register_part path part = (\<lambda>(reg, ids).
     (let uid = join ''::'' path @ ''::'' @ part_name part
      in (bt_insert (part_name part) (uid, resolve_part_layer (part_layer part) path) reg, ids @ [uid])))"

definition register_port ::
  "string list \<Rightarrow> PortDef \<Rightarrow> ClassifierRegistry \<times> string list \<Rightarrow> ClassifierRegistry \<times> string list" where
  "register_port path port = (\<lambda>(reg, ids).
     (let uid = join ''::'' path @ ''::'' @ port_name port
      in (bt_insert (port_name port) (uid, resolve_part_layer None path) reg, ids @ [uid])))"

definition register_package ::
  "PackageDef \<times> string list \<Rightarrow> ClassifierRegistry \<times> string list \<Rightarrow> ClassifierRegistry \<times> string list" where
  "register_package = (\<lambda>(pkg, path) st.
     fold (register_port path) (pkg_port_defs pkg)
       (fold (register_part path) (filter part_is_def (pkg_part_defs pkg)) st))"

definition collect_classifier_registry :: "PackageDef \<Rightarrow> ClassifierRegistry \<times> string list" where
  "collect_classifier_registry root = fold register_package (package_paths root) ([], [])"

definition part_targets :: "PartDef \<Rightarrow> string list" where
  "part_targets part =
     opt_list (part_type_name part)
     @ map (\<lambda>u. case part_type_name u of Some t \<Rightarrow> t | None \<Rightarrow> part_name u) (part_parts part)
     @ map port_type_name (part_ports part)"

definition target_edge ::
  "string \<Rightarrow> LayerRole \<Rightarrow> ClassifierRegistry \<Rightarrow> string \<Rightarrow> DependencyEdge option" where
  "target_edge from_id from_role reg raw =
     (let clean = trim (rsplit_first ''::'' raw)
      in case bt_get reg clean of
           None \<Rightarrow> None
         | Some (to_id, to_role) \<Rightarrow>
             (if clean \<noteq> []
              then Some \<lparr>from_unit = from_id, to_unit = to_id, from_layer = from_role,
                         to_layer = to_role, edge_reason = clean\<rparr>
              else None))"

definition record_part_edges ::
  "PartDef \<Rightarrow> string \<Rightarrow> LayerRole \<Rightarrow> ClassifierRegistry \<Rightarrow> DependencyEdge list" where
  "record_part_edges part from_id from_role reg =
     concat (map (\<lambda>raw. opt_list (target_edge from_id from_role reg raw)) (part_targets part))"

definition part_edges :: "ClassifierRegistry \<Rightarrow> PartDef \<Rightarrow> DependencyEdge list" where
  "part_edges reg part =
     (case bt_get reg (part_name part) of
        Some (from_id, from_role) \<Rightarrow>
          (if part_is_def part then record_part_edges part from_id from_role reg else [])
      | None \<Rightarrow> [])"

definition collect_dependency_edges :: "PackageDef \<Rightarrow> ClassifierRegistry \<Rightarrow> DependencyEdge list" where
  "collect_dependency_edges root reg =
     concat (map (\<lambda>pkg. concat (map (part_edges reg) (pkg_part_defs pkg))) (get_all_packages root))"

section \<open>The module graph\<close>

definition standalone_port :: "string list \<Rightarrow> string \<Rightarrow> LayerRole \<Rightarrow> PortDef \<Rightarrow> CompilationUnit" where
  "standalone_port pkg_path pkg_dir layer port =
     (empty_unit (join ''::'' pkg_path @ ''::'' @ port_name port)
        (join_rel pkg_dir (to_snake_slug (port_name port) @ ''.rs'')) pkg_path layer StandalonePort)
       \<lparr>unit_port_defs := [port]\<rparr>"

definition standalone_calc :: "string list \<Rightarrow> string \<Rightarrow> LayerRole \<Rightarrow> CalcDef \<Rightarrow> CompilationUnit" where
  "standalone_calc pkg_path pkg_dir layer calc =
     (empty_unit (join ''::'' pkg_path @ ''::'' @ calc_name calc)
        (join_rel pkg_dir (to_snake_slug (calc_name calc) @ ''.rs'')) pkg_path layer StandaloneCalc)
       \<lparr>unit_calc_defs := [calc]\<rparr>"

definition partition_single_package ::
  "PackageDef \<Rightarrow> string list \<Rightarrow> ModularityBounds \<Rightarrow> CompilationUnit list" where
  "partition_single_package pkg pkg_path bounds =
     (let pkg_dir = join ''/'' pkg_path;
          layer = resolve_part_layer None pkg_path;
          ctx = \<lparr>ctx_pkg_dir = pkg_dir, ctx_pkg_path = pkg_path, ctx_layer = layer, ctx_bounds = bounds\<rparr>;
          parts = map (\<lambda>p. partition_part_facets p ctx) (filter part_is_def (pkg_part_defs pkg));
          acts = map (\<lambda>a. emit_action_units a ctx) (filter action_is_def (pkg_action_defs pkg));
          states = map (\<lambda>st. emit_state_units st ctx) (pkg_state_defs pkg);
          raw_slugs = map (\<lambda>s. to_snake_slug (pkg_name s)) (pkg_packages pkg) @ map snd parts
            @ map (\<lambda>p. to_snake_slug (port_name p)) (pkg_port_defs pkg)
            @ map (\<lambda>c. to_snake_slug (calc_name c)) (pkg_calc_defs pkg)
            @ map snd acts @ map snd states
      in concat (map fst parts)
         @ map (standalone_port pkg_path pkg_dir layer) (pkg_port_defs pkg)
         @ map (standalone_calc pkg_path pkg_dir layer) (pkg_calc_defs pkg)
         @ concat (map fst acts) @ concat (map fst states)
         @ [(empty_unit (join ''::'' pkg_path @ ''::mod'') (join_rel pkg_dir ''mod.rs'') pkg_path layer
               BarrelFacade) \<lparr>child_modules := dedup [] raw_slugs\<rparr>])"

definition partition_packages :: "PackageDef \<Rightarrow> ModularityBounds \<Rightarrow> CompilationUnit list" where
  "partition_packages root bounds =
     concat (map (\<lambda>(pkg, path). partition_single_package pkg path bounds) (package_paths root))"

text \<open>
  The outer option is the one of the verifier's loop; \<open>lower_returns\<close> below shows that it is
  never \<^verbatim>\<open>None\<close>.
\<close>

definition lower_package_to_module_graph ::
  "PackageDef \<Rightarrow> ModularityBounds \<Rightarrow> (ModularityDiagnostic list + ModuleGraph) option" where
  "lower_package_to_module_graph pkg bounds =
     (let (reg, node_ids) = collect_classifier_registry pkg;
          edges = collect_dependency_edges pkg reg
      in case verify_dag_and_layers node_ids edges of
           None \<Rightarrow> None
         | Some (Inl diags) \<Rightarrow> Some (Inl diags)
         | Some (Inr order) \<Rightarrow>
             Some (Inr \<lparr>root_package_name = pkg_name pkg, graph_units = partition_packages pkg bounds,
                        graph_edges = edges, topological_order = order\<rparr>))"

section \<open>The packages are visited in preorder\<close>

lemma sub_packages_member: "y \<in> set (sub_packages x) \<Longrightarrow> size (fst y) < size (fst x)"
  by (auto simp: sub_packages_def case_prod_unfold dest: size_sub)

function paths_preorder :: "PackageDef \<times> string list \<Rightarrow> (PackageDef \<times> string list) list" where
  "paths_preorder x = x # concat (map paths_preorder (sub_packages x))"
  by auto
termination by (relation "measure (size \<circ> fst)") (auto simp: sub_packages_member)

declare paths_preorder.simps [simp del]

interpretation package_tree: tree_walk sub_packages pop_paths paths_preorder "size \<circ> fst"
  by unfold_locales (simp_all add: sub_packages_size paths_preorder.simps)

lemma package_paths_root: "(root, []) \<in> set (package_paths root)"
  by (simp add: package_paths_def)

lemma package_paths_sub:
  "(pkg, path) \<in> set (package_paths root) \<Longrightarrow> sub \<in> set (pkg_packages pkg) \<Longrightarrow>
     (sub, child_path path sub) \<in> set (package_paths root)"
  unfolding package_paths_def
  by (erule package_tree.walk_closed) (simp add: sub_packages_def)

text \<open>Every package but the root has been reached from its parent.\<close>

lemma walk_parent:
  "y \<in> set (pop_paths stack) \<Longrightarrow> y \<in> set stack \<or> (\<exists>x \<in> set (pop_paths stack). y \<in> set (sub_packages x))"
proof (induction stack rule: pop_paths.induct)
  case (2 x stack)
  then show ?case by auto
qed simp

lemma package_paths_parent:
  assumes "(pkg, path) \<in> set (package_paths root)"
  shows "(pkg = root \<and> path = []) \<or>
    (\<exists>parent ppath. (parent, ppath) \<in> set (package_paths root) \<and> pkg \<in> set (pkg_packages parent) \<and>
       path = child_path ppath pkg)"
  using walk_parent [OF assms [unfolded package_paths_def]]
  by (auto simp: package_paths_def sub_packages_def split: prod.splits)

section \<open>The dependency graph is about registered classifiers\<close>

definition registry_ok :: "ClassifierRegistry \<times> string list \<Rightarrow> bool" where
  "registry_ok st \<longleftrightarrow> (\<forall>name uid role. bt_get (fst st) name = Some (uid, role) \<longrightarrow> uid \<in> set (snd st)) \<and>
     bt_sorted (fst st)"

lemma registry_insert:
  assumes "registry_ok (reg, ids)" shows "registry_ok (bt_insert name (uid, role) reg, ids @ [uid])"
  using assms by (auto simp: registry_ok_def bt_get_insert)

lemma register_ok:
  "registry_ok st \<Longrightarrow> registry_ok (register_part path part st)"
  "registry_ok st \<Longrightarrow> registry_ok (register_port path port st)"
  by (cases st; simp add: register_part_def register_port_def registry_insert Let_def)+

lemma fold_ok: "(\<And>x st. registry_ok st \<Longrightarrow> registry_ok (f x st)) \<Longrightarrow> registry_ok st \<Longrightarrow> registry_ok (fold f xs st)"
  by (induction xs arbitrary: st) auto

lemma registry_collected: "registry_ok (collect_classifier_registry root)"
  unfolding collect_classifier_registry_def register_package_def case_prod_unfold
  by (intro fold_ok register_ok) (auto simp: registry_ok_def bt_get_def)

lemma target_edge_Some:
  "target_edge from_id role reg raw = Some e \<Longrightarrow>
     from_unit e = from_id \<and> from_layer e = role \<and>
     bt_get reg (edge_reason e) = Some (to_unit e, to_layer e) \<and> edge_reason e \<noteq> []"
  by (auto simp: target_edge_def Let_def split: option.splits if_splits)

lemma edge_registered:
  assumes "e \<in> set (part_edges reg part)"
  shows "bt_get reg (part_name part) = Some (from_unit e, from_layer e) \<and>
    bt_get reg (edge_reason e) = Some (to_unit e, to_layer e) \<and> edge_reason e \<noteq> []"
  using assms
  by (auto simp: part_edges_def record_part_edges_def opt_list_def
      split: option.splits if_splits dest!: target_edge_Some [OF sym])

lemma verify_result:
  "\<exists>r. verify_dag_and_layers nodes edges = Some r \<and>
     (case r of
        Inr order \<Rightarrow> acyclic (dependency nodes edges) \<and> distinct order \<and> set order = set nodes \<and>
          topological (dependency nodes edges) order \<and> (\<forall>e \<in> set edges. \<not> is_upward e)
      | Inl diags \<Rightarrow> diags \<noteq> [] \<and> (\<not> acyclic (dependency nodes edges) \<or> (\<exists>e \<in> set edges. is_upward e)))"
proof -
  obtain order and deg :: degrees where
    "run_kahn_topological_sort nodes edges = Some (if set order = set nodes then Inr order
       else Inl [cycle_diagnostic (map fst (filter (\<lambda>(node, d). 0 < d) deg))])"
    "distinct order" "topological (dependency nodes edges) order"
    "set order = set nodes \<longleftrightarrow> acyclic (dependency nodes edges)"
    using kahn_result [of nodes edges] by blast
  then show ?thesis
    by (cases "acyclic (dependency nodes edges)")
      (auto simp: verify_dag_and_layers_def verify_layer_edges_def filter_empty_conv Let_def)
qed

section \<open>The module tree\<close>

lemma paths_nonempty:
  "(\<forall>x \<in> set stack. [] \<notin> set (snd x)) \<Longrightarrow> x \<in> set (pop_paths stack) \<Longrightarrow> [] \<notin> set (snd x)"
proof (induction stack rule: pop_paths.induct)
  case (2 y stack)
  have "\<forall>x \<in> set (sub_packages y @ stack). [] \<notin> set (snd x)"
    using 2(2) by (auto simp: sub_packages_def child_path_def slug_nonempty slug_nonempty [symmetric] split: prod.splits)
  then show ?case using 2 by auto
qed simp

lemma join_snoc: "xs \<noteq> [] \<Longrightarrow> join sep (xs @ [x]) = join sep xs @ sep @ x"
  by (induction sep xs rule: join.induct) auto

lemma join_child:
  assumes "[] \<notin> set path"
  shows "join ''/'' (child_path path sub) = join_rel (join ''/'' path) (to_snake_slug (pkg_name sub))"
proof (cases path)
  case (Cons p ps)
  then have "join ''/'' path \<noteq> []" using assms by (cases ps) auto
  with Cons show ?thesis by (simp add: child_path_def join_snoc join_rel_def del: append_Cons)
qed (simp add: child_path_def join_rel_def)

lemma present_mono: "children_present us u \<Longrightarrow> set us \<subseteq> set vs \<Longrightarrow> children_present vs u"
  by (fastforce simp: children_present_def)

lemma declared_mono: "declared_in us p \<Longrightarrow> set us \<subseteq> set vs \<Longrightarrow> declared_in vs p"
  by (fastforce simp: declared_in_def)

text \<open>The units of a package are module groups, and a barrel that declares them and the sub-packages.\<close>

definition package_layout ::
  "PackageDef \<Rightarrow> string list \<Rightarrow> CompilationUnit list \<Rightarrow>
     (string \<times> CompilationUnit list) list \<Rightarrow> CompilationUnit \<Rightarrow> bool" where
  "package_layout pkg path us gs b \<longleftrightarrow>
     us = concat (map snd gs) @ [b] \<and>
     relative_path b = join_rel (join ''/'' path) ''mod.rs'' \<and>
     set (child_modules b) = (\<lambda>s. to_snake_slug (pkg_name s)) ` set (pkg_packages pkg) \<union> fst ` set gs \<and>
     (\<forall>g \<in> set gs. module_group (join ''/'' path) (fst g) (snd g))"

lemma package_groups:
  "\<exists>gs b. package_layout pkg path (partition_single_package pkg path bounds) gs b"
proof -
  let ?dir = "join ''/'' path" and ?layer = "resolve_part_layer None path"
  let ?ctx = "\<lparr>ctx_pkg_dir = ?dir, ctx_pkg_path = path, ctx_layer = ?layer, ctx_bounds = bounds\<rparr>"
  define gs where "gs =
     map (\<lambda>p. (snd (partition_part_facets p ?ctx), fst (partition_part_facets p ?ctx))) (filter part_is_def (pkg_part_defs pkg))
     @ map (\<lambda>p. (to_snake_slug (port_name p), [standalone_port path ?dir ?layer p])) (pkg_port_defs pkg)
     @ map (\<lambda>c. (to_snake_slug (calc_name c), [standalone_calc path ?dir ?layer c])) (pkg_calc_defs pkg)
     @ map (\<lambda>a. (snd (emit_action_units a ?ctx), fst (emit_action_units a ?ctx))) (filter action_is_def (pkg_action_defs pkg))
     @ map (\<lambda>st. (snd (emit_state_units st ?ctx), fst (emit_state_units st ?ctx))) (pkg_state_defs pkg)"
  have slugs: "snd (partition_part_facets p ?ctx) = to_snake_slug (part_name p)"
    "snd (emit_action_units a ?ctx) = to_snake_slug (action_name a)"
    "snd (emit_state_units st ?ctx) = to_snake_slug (state_name st)" for p a st
    by (simp_all add: partition_part_facets_def emit_action_units_def emit_state_units_def Let_def case_prod_unfold)
  have groups: "\<forall>g \<in> set gs. module_group ?dir (fst g) (snd g)"
    using part_group [of ?ctx] action_group [of ?ctx] state_group [of ?ctx]
    by (auto simp: gs_def slugs standalone_port_def standalone_calc_def intro!: single_file_group)
  define b where "b = (empty_unit (join ''::'' path @ ''::mod'') (join_rel ?dir ''mod.rs'') path ?layer BarrelFacade)
    \<lparr>child_modules := dedup [] (map (\<lambda>s. to_snake_slug (pkg_name s)) (pkg_packages pkg) @ map fst gs)\<rparr>"
  have units: "partition_single_package pkg path bounds = concat (map snd gs) @ [b]"
    by (simp add: partition_single_package_def Let_def gs_def b_def comp_def)
  have kids: "set (child_modules b) = (\<lambda>s. to_snake_slug (pkg_name s)) ` set (pkg_packages pkg) \<union> fst ` set gs"
    by (simp add: b_def dedup_set)
  have "package_layout pkg path (partition_single_package pkg path bounds) gs b"
    unfolding package_layout_def
    by (intro conjI) (fact units, simp add: b_def, fact kids, fact groups)
  then show ?thesis by blast
qed

lemma package_units_in:
  "(pkg, path) \<in> set (package_paths root) \<Longrightarrow>
     set (partition_single_package pkg path bounds) \<subseteq> set (partition_packages root bounds)"
  unfolding partition_packages_def by force

lemma package_barrel:
  assumes "(pkg, path) \<in> set (package_paths root)"
  shows "\<exists>b \<in> set (partition_packages root bounds). relative_path b = join_rel (join ''/'' path) ''mod.rs'' \<and>
    (\<forall>s \<in> set (pkg_packages pkg). to_snake_slug (pkg_name s) \<in> set (child_modules b))"
proof -
  obtain gs b where "package_layout pkg path (partition_single_package pkg path bounds) gs b"
    using package_groups [of pkg path bounds] by blast
  then show ?thesis using package_units_in [OF assms, of bounds]
    by (intro bexI [of _ b]) (auto simp: package_layout_def)
qed

lemma package_dir_file:
  assumes "(pkg, path) \<in> set (package_paths root)"
  shows "module_file (join ''/'' path) (to_snake_slug (pkg_name sub))
    (join_rel (join ''/'' (child_path path sub)) ''mod.rs'')"
proof -
  have "[] \<notin> set path" using paths_nonempty [OF _ assms [unfolded package_paths_def]] by simp
  then show ?thesis by (simp add: join_child module_file_dir slug_nonempty)
qed

lemma package_units_placed:
  assumes pkg: "(pkg, path) \<in> set (package_paths root)"
    and u: "u \<in> set (partition_single_package pkg path bounds)"
  shows "children_present (partition_packages root bounds) u \<and>
    (relative_path u = ''mod.rs'' \<or> declared_in (partition_packages root bounds) (relative_path u))"
proof -
  let ?us = "partition_packages root bounds" and ?dir = "join ''/'' path"
  obtain gs b where layout: "package_layout pkg path (partition_single_package pkg path bounds) gs b"
    using package_groups [of pkg path bounds] by blast
  then have units: "partition_single_package pkg path bounds = concat (map snd gs) @ [b]"
    and b: "relative_path b = join_rel ?dir ''mod.rs''"
    and kids: "set (child_modules b) = (\<lambda>s. to_snake_slug (pkg_name s)) ` set (pkg_packages pkg) \<union> fst ` set gs"
    by (simp_all add: package_layout_def)
  have groups: "module_group ?dir slug us" if "(slug, us) \<in> set gs" for slug us
    using layout that by (force simp: package_layout_def)
  have sub: "set us \<subseteq> set ?us" if "(slug, us) \<in> set gs" for slug us
  proof -
    have "us \<in> set (map snd gs)" using that by (metis image_eqI set_map snd_conv)
    then have "set us \<subseteq> set (partition_single_package pkg path bounds)" unfolding units by auto
    then show ?thesis using package_units_in [OF pkg, of bounds] by (rule subset_trans)
  qed
  have b_in: "b \<in> set ?us" using package_units_in [OF pkg, of bounds] units by auto
  show ?thesis
  proof (cases "u = b")
    case True
    have "\<exists>v \<in> set ?us. module_file ?dir c (relative_path v)" if "c \<in> set (child_modules b)" for c
    proof -
      from that kids consider (package) s where "s \<in> set (pkg_packages pkg)" "c = to_snake_slug (pkg_name s)"
        | (group) us where "(c, us) \<in> set gs" by force
      then show ?thesis
      proof cases
        case package
        obtain sb where "sb \<in> set ?us" "relative_path sb = join_rel (join ''/'' (child_path path s)) ''mod.rs''"
          using package_barrel [OF package_paths_sub [OF pkg package(1)], of bounds] by blast
        then show ?thesis using package_dir_file [OF pkg, of s] by (intro bexI [of _ sb]) (simp_all add: package(2))
      next
        case group
        then show ?thesis using groups [OF group] sub [OF group] by (auto simp: module_group_def)
      qed
    qed
    then have "children_present ?us b" using b by (auto simp: children_present_def)
    moreover have "relative_path b = ''mod.rs'' \<or> declared_in ?us (relative_path b)"
      using package_paths_parent [OF pkg]
    proof (elim disjE exE conjE)
      fix parent ppath
      assume p: "(parent, ppath) \<in> set (package_paths root)" "pkg \<in> set (pkg_packages parent)" "path = child_path ppath pkg"
      obtain pb where "pb \<in> set ?us" "relative_path pb = join_rel (join ''/'' ppath) ''mod.rs''"
        "to_snake_slug (pkg_name pkg) \<in> set (child_modules pb)"
        using package_barrel [OF p(1), of bounds] p(2) by blast
      then have "declared_in ?us (relative_path b)"
        unfolding declared_in_def b p(3) using package_dir_file [OF p(1), of pkg] by blast
      then show ?thesis ..
    qed (simp add: b join_rel_def)
    ultimately show ?thesis using True by simp
  next
    case False
    then obtain slug us where g: "(slug, us) \<in> set gs" "u \<in> set us" using u units by auto
    then have "children_present ?us u" using groups [OF g(1)] present_mono [OF _ sub [OF g(1)]]
      by (auto simp: module_group_def)
    moreover have "declared_in ?us (relative_path u)"
    proof (cases "module_file ?dir slug (relative_path u)")
      case True
      have "slug \<in> set (child_modules b)" using g(1) kids by force
      then show ?thesis unfolding declared_in_def using True b b_in by blast
    next
      case False
      then show ?thesis using groups [OF g(1)] declared_mono [OF _ sub [OF g(1)]] g(2)
        by (auto simp: module_group_def)
    qed
    ultimately show ?thesis by simp
  qed
qed

section \<open>The members of the packages\<close>

lemma package_paths_fst: "map fst (package_paths root) = get_all_packages root"
proof -
  have "map fst (pop_paths stack) = pop_packages (map fst stack)" for stack
    by (induction stack rule: pop_paths.induct) (simp_all add: sub_packages_def case_prod_unfold comp_def)
  from this [of "[(root, [])]"] show ?thesis by (simp add: package_paths_def get_all_packages_def)
qed

lemma member_units_empty:
  "concat (map unit_port_defs (fst (emit_action_units act ctx))) = []"
  "concat (map unit_calc_defs (fst (emit_action_units act ctx))) = []"
  "filter (\<lambda>u. unit_kind u = PartModelFacet) (fst (emit_action_units act ctx)) = []"
  "concat (map unit_port_defs (fst (emit_state_units sd ctx))) = []"
  "concat (map unit_calc_defs (fst (emit_state_units sd ctx))) = []"
  "filter (\<lambda>u. unit_kind u = PartModelFacet) (fst (emit_state_units sd ctx)) = []"
  by (simp_all add: emit_action_units_def emit_state_units_def Let_def case_prod_unfold comp_def filter_empty_conv)

lemma concat_map_concat: "concat (map f (concat xss)) = concat (map (\<lambda>xs. concat (map f xs)) xss)"
  by (induction xss) auto

lemma concat_singles: "concat (map (\<lambda>x. [f x]) xs) = map f xs"
  by (induction xs) auto

lemma package_members:
  fixes pkg path bounds
  defines "us \<equiv> partition_single_package pkg path bounds"
    and "parts \<equiv> filter part_is_def (pkg_part_defs pkg)"
  shows "concat (map unit_port_defs us) = concat (map part_ports parts) @ pkg_port_defs pkg"
    and "concat (map unit_calc_defs us) = concat (map part_calcs parts) @ pkg_calc_defs pkg"
    and "concat (map (opt_list \<circ> unit_part_def) (filter (\<lambda>u. unit_kind u = PartModelFacet) us)) = parts"
proof -
  note defs = us_def parts_def partition_single_package_def Let_def comp_def standalone_port_def
    standalone_calc_def filter_concat filter_map concat_map_concat member_units_empty
    concat_singles part_facets_content(1,2) part_facets_content(3) [unfolded comp_def]
    part_facets_content(4) [unfolded comp_def]
  show "concat (map unit_port_defs us) = concat (map part_ports parts) @ pkg_port_defs pkg"
    by (simp add: defs)
  show "concat (map unit_calc_defs us) = concat (map part_calcs parts) @ pkg_calc_defs pkg"
    by (simp add: defs)
  show "concat (map (opt_list \<circ> unit_part_def) (filter (\<lambda>u. unit_kind u = PartModelFacet) us)) = parts"
    by (simp add: defs)
qed

lemma concat_packages:
  assumes "\<And>pkg path. concat (map f (h (partition_single_package pkg path bounds))) = g pkg"
    and "\<And>xs ys. h (xs @ ys) = h xs @ h ys" "h [] = []"
  shows "concat (map f (h (partition_packages root bounds))) = concat (map g (get_all_packages root))"
proof -
  have "concat (map f (h (concat (map (\<lambda>(pkg, path). partition_single_package pkg path bounds) xs))))
      = concat (map (g \<circ> fst) xs)" for xs
    by (induction xs) (simp_all add: assms split: prod.split)
  then show ?thesis by (simp add: partition_packages_def flip: package_paths_fst)
qed

text \<open>
  the module graph neither drops nor repeats what it covers. Taken in the order of the units,
  the ports are those of the part definitions of each package followed by its own ports, packages
  in preorder; the same holds for the calculations; and the model facets are the part definitions.
\<close>

theorem module_graph_members:
  "concat (map unit_port_defs (partition_packages root bounds)) =
     concat (map (\<lambda>pkg. concat (map part_ports (filter part_is_def (pkg_part_defs pkg))) @ pkg_port_defs pkg)
       (get_all_packages root)) \<and>
   concat (map unit_calc_defs (partition_packages root bounds)) =
     concat (map (\<lambda>pkg. concat (map part_calcs (filter part_is_def (pkg_part_defs pkg))) @ pkg_calc_defs pkg)
       (get_all_packages root)) \<and>
   concat (map (opt_list \<circ> unit_part_def)
       (filter (\<lambda>u. unit_kind u = PartModelFacet) (partition_packages root bounds))) =
     concat (map (\<lambda>pkg. filter part_is_def (pkg_part_defs pkg)) (get_all_packages root))"
  using concat_packages [of unit_port_defs "\<lambda>us. us", OF package_members(1)]
    concat_packages [of unit_calc_defs "\<lambda>us. us", OF package_members(2)]
    concat_packages [of "opt_list \<circ> unit_part_def" "filter (\<lambda>u. unit_kind u = PartModelFacet)", OF package_members(3)]
  by simp

text \<open>
  C17: the module tree is whole. Every module a barrel declares has a file, \<^verbatim>\<open>c.rs\<close> or
  \<^verbatim>\<open>c/mod.rs\<close> in the directory of the barrel; and every file but the root \<^verbatim>\<open>mod.rs\<close> is declared
  by a barrel, so that no generated code is left out of the crate.
\<close>

theorem module_tree_whole:
  "\<forall>u \<in> set (partition_packages root bounds).
     children_present (partition_packages root bounds) u \<and>
     (relative_path u = ''mod.rs'' \<or> declared_in (partition_packages root bounds) (relative_path u))"
proof
  fix u assume "u \<in> set (partition_packages root bounds)"
  then obtain pkg path where "(pkg, path) \<in> set (package_paths root)"
    "u \<in> set (partition_single_package pkg path bounds)" by (auto simp: partition_packages_def)
  then show "children_present (partition_packages root bounds) u \<and>
     (relative_path u = ''mod.rs'' \<or> declared_in (partition_packages root bounds) (relative_path u))"
    by (rule package_units_placed)
qed

definition example_package ::
  "string \<Rightarrow> PackageDef list \<Rightarrow> PartDef list \<Rightarrow> CalcDef list \<Rightarrow> PackageDef" where
  "example_package name subs parts calcs =
     PackageDef name None None [] subs parts [] [] [] [] [] [] [] [] [] [] [] [] [] [] [] [] calcs"

definition example_part :: "string \<Rightarrow> bool \<Rightarrow> string option \<Rightarrow> PartDef list \<Rightarrow> PartDef" where
  "example_part name def_flag typ subs =
     PartDef name None def_flag typ [] [] [] [] [] [] subs [] [] [] [] [] [] [] [] [] [] [] [] [] None"

definition example_calc :: "string \<Rightarrow> CalcDef" where
  "example_calc name = \<lparr>calc_name = name, calc_doc = None, calc_in_params = [], calc_return_type = None,
     calc_expression = None\<rparr>"

theorem module_tree_whole_witness:
  "\<exists>b. relative_path b = ''mod.rs'' \<and>
     b \<in> set (partition_packages (example_package ''top'' [] [] [example_calc ''mass'']) canonical_bounds) \<and>
     children_present (partition_packages (example_package ''top'' [] [] [example_calc ''mass'']) canonical_bounds) b"
proof -
  let ?root = "example_package ''top'' [] [] [example_calc ''mass'']"
  obtain b where b: "b \<in> set (partition_packages ?root canonical_bounds)" "relative_path b = ''mod.rs''"
    using package_barrel [OF package_paths_root, of ?root canonical_bounds] by (auto simp: join_rel_def)
  then show ?thesis using module_tree_whole [of ?root canonical_bounds] by blast
qed

section \<open>The verdict\<close>

definition edge_pairs :: "DependencyEdge list \<Rightarrow> (string \<times> string) set" where
  "edge_pairs edges = {(from_unit e, to_unit e) | e. e \<in> set edges}"

definition package_edges :: "PackageDef \<Rightarrow> DependencyEdge list" where
  "package_edges root = collect_dependency_edges root (fst (collect_classifier_registry root))"

definition package_ids :: "PackageDef \<Rightarrow> string list" where
  "package_ids root = snd (collect_classifier_registry root)"

lemma edges_registered:
  assumes "e \<in> set (package_edges root)"
  shows "from_unit e \<in> set (package_ids root) \<and> to_unit e \<in> set (package_ids root)"
proof -
  obtain part where "e \<in> set (part_edges (fst (collect_classifier_registry root)) part)"
    using assms by (auto simp: package_edges_def collect_dependency_edges_def)
  from edge_registered [OF this] show ?thesis
    using registry_collected [of root] unfolding registry_ok_def package_ids_def by metis
qed

lemma dependency_edges: "dependency (package_ids root) (package_edges root) = edge_pairs (package_edges root)"
  using edges_registered by (fastforce simp: dependency_def edge_pairs_def)

definition lowered_graph :: "PackageDef \<Rightarrow> ModularityBounds \<Rightarrow> string list \<Rightarrow> ModuleGraph" where
  "lowered_graph root bounds order =
     \<lparr>root_package_name = pkg_name root, graph_units = partition_packages root bounds,
      graph_edges = package_edges root, topological_order = order\<rparr>"

lemma lower_verdict:
  "(\<exists>order. lower_package_to_module_graph root bounds = Some (Inr (lowered_graph root bounds order)) \<and>
        distinct order \<and> set order = set (package_ids root) \<and> topological (edge_pairs (package_edges root)) order \<and>
        acyclic (edge_pairs (package_edges root)) \<and> (\<forall>e \<in> set (package_edges root). to_layer e \<le> from_layer e)) \<or>
   (\<exists>diags. lower_package_to_module_graph root bounds = Some (Inl diags) \<and> diags \<noteq> [] \<and>
        (\<not> acyclic (edge_pairs (package_edges root)) \<or> (\<exists>e \<in> set (package_edges root). \<not> to_layer e \<le> from_layer e)))"
proof -
  note v = verify_result [of "package_ids root" "package_edges root", unfolded dependency_edges]
  then obtain r where r: "verify_dag_and_layers (package_ids root) (package_edges root) = Some r" by blast
  have up: "is_upward e \<Longrightarrow> \<not> to_layer e \<le> from_layer e" for e
    by (simp add: is_upward_def permits_iff)
  have down: "to_layer e \<le> from_layer e"
    if "acyclic (edge_pairs (package_edges root))" "e \<in> set (package_edges root)" "\<not> is_upward e" for e
  proof -
    have "(from_unit e, to_unit e) \<in> edge_pairs (package_edges root)" using that(2) by (auto simp: edge_pairs_def)
    then have "from_unit e \<noteq> to_unit e" using that(1) by (metis acyclic_def r_into_trancl)
    then show ?thesis using that(3) by (simp add: is_upward_def permits_iff)
  qed
  have lower: "lower_package_to_module_graph root bounds =
     (case r of Inl diags \<Rightarrow> Some (Inl diags) | Inr order \<Rightarrow> Some (Inr (lowered_graph root bounds order)))"
    using r by (simp add: lower_package_to_module_graph_def lowered_graph_def package_edges_def
        package_ids_def case_prod_unfold Let_def split: sum.split)
  show ?thesis
  proof (cases r)
    case (Inl diags)
    then show ?thesis using v r lower up by auto
  next
    case (Inr order)
    then show ?thesis using v r lower down by auto
  qed
qed

lemma lowered_graph_simps [simp]:
  "graph_units (lowered_graph root bounds order) = partition_packages root bounds"
  "graph_edges (lowered_graph root bounds order) = package_edges root"
  "topological_order (lowered_graph root bounds order) = order"
  by (simp_all add: lowered_graph_def)

text \<open>
  C16: lowering a package always returns. It succeeds exactly when the dependencies between the
  classifiers are acyclic and none leads to a higher layer; the graph then holds all units and
  edges and an order of all classifiers, each once, users before what they use; otherwise there
  is at least one diagnostic.
\<close>

theorem lower_package_verdict:
  "((\<exists>g. lower_package_to_module_graph root bounds = Some (Inr g)) \<longleftrightarrow>
        acyclic (edge_pairs (package_edges root)) \<and> (\<forall>e \<in> set (package_edges root). to_layer e \<le> from_layer e)) \<and>
     (\<forall>g. lower_package_to_module_graph root bounds = Some (Inr g) \<longrightarrow>
        graph_units g = partition_packages root bounds \<and> graph_edges g = package_edges root \<and>
        distinct (topological_order g) \<and> set (topological_order g) = set (package_ids root) \<and>
        topological (edge_pairs (package_edges root)) (topological_order g)) \<and>
     lower_package_to_module_graph root bounds \<noteq> None \<and>
     lower_package_to_module_graph root bounds \<noteq> Some (Inl [])"
  using lower_verdict [of root bounds] by (elim disjE exE conjE) auto

text \<open>
  Two packages of different layers: a part of the domain uses a part of the presentation, which
  no layer rule permits; \<open>extra\<close> are the further parts of the presentation.
\<close>

definition upward_model :: "PartDef list \<Rightarrow> PackageDef" where
  "upward_model extra = example_package ''top''
     [example_package ''domain'' [] [example_part ''A'' True None [example_part ''b'' False (Some ''B'') []]] [],
      example_package ''presentation'' [] (example_part ''B'' True None [] # extra) []] [] []"

lemma upward_edges:
  "package_edges (upward_model []) =
     [\<lparr>from_unit = ''domain::A'', to_unit = ''presentation::B'', from_layer = Domain,
       to_layer = Presentation, edge_reason = ''B''\<rparr>]"
  "package_edges (upward_model [example_part ''A'' True None []]) =
     [\<lparr>from_unit = ''presentation::A'', to_unit = ''presentation::B'', from_layer = Presentation,
       to_layer = Presentation, edge_reason = ''B''\<rparr>]"
  by code_simp+

theorem lower_package_verdict_witness:
  "\<not> (\<exists>g. lower_package_to_module_graph (upward_model []) canonical_bounds = Some (Inr g))"
  using lower_package_verdict [of "upward_model []" canonical_bounds]
  by (simp add: upward_edges less_eq_LayerRole_def)

text \<open>
  the layer rule can be evaded by a name. The registry keeps one classifier per simple name,
  the last; a second part called \<^verbatim>\<open>A\<close>, in the presentation, takes over the edges of the part
  \<^verbatim>\<open>A\<close> of the domain, and the upward dependency, refused without it, is accepted.
\<close>

theorem shadowed_part_hides_upward_edge:
  "(\<exists>diags. lower_package_to_module_graph (upward_model []) bounds = Some (Inl diags)) \<and>
   (\<exists>g. lower_package_to_module_graph (upward_model [example_part ''A'' True None []]) bounds = Some (Inr g))"
proof -
  have ac: "acyclic (edge_pairs (package_edges (upward_model [example_part ''A'' True None []])))"
    by (simp add: upward_edges edge_pairs_def acyclic_def trancl_insert)
  show ?thesis
    using lower_verdict [of "upward_model []" bounds]
      lower_verdict [of "upward_model [example_part ''A'' True None []]" bounds] ac
    by (auto simp: upward_edges less_eq_LayerRole_def)
qed

end
