(* ===== verification/Rust_Render.thy ===== *)
theory Rust_Render
  imports Partitioner
begin

text \<open>
  \<^verbatim>\<open>modular_codegen/emitters/rust_emitter/render.rs\<close>: the Rust source text of a compilation unit.
  A function of the source that appends to its buffer is here the text it appends. The value of
  \<^verbatim>\<open>format!("{:?}", s.parse::<f64>())\<close> is the argument \<open>f64_debug\<close>, with \<open>None\<close> for a failed parse.
\<close>

section \<open>Documentation blocks\<close>

definition quoted :: "string \<Rightarrow> string" where
  "quoted s = CHR 0x60 # s @ [CHR 0x60]"

definition doc_line :: "string \<Rightarrow> string \<Rightarrow> string" where
  "doc_line pfx txt = pfx @ '' '' @ txt @ [LF]"

definition push_doc7 :: "string \<Rightarrow> string \<Rightarrow> string \<Rightarrow> string \<Rightarrow> string" where
  "push_doc7 pfx symb info body =
     doc_line pfx (''Synthesized SysML v2 modular artifact '' @ quoted symb @ '' derived from '' @ quoted info @ ''.'')
     @ doc_line pfx (''## 1. Safety Intent & Regulatory Scope: Isolates '' @ quoted symb @ '' within '' @ quoted info
         @ '' under DO-178C and ISO 26262 modularity rules.'')
     @ doc_line pfx (''## 2. Invariants & Mathematical Properties: Callers supply typed inputs satisfying the lowered contract of ''
         @ quoted symb @ '' ('' @ quoted info @ '').'')
     @ doc_line pfx (''## 3. Preconditions: Preserves deterministic value semantics for '' @ quoted symb @ '' lowered from ''
         @ quoted info @ ''.'')
     @ doc_line pfx (''## 4. Postconditions: Executes total panic-free operations inside '' @ quoted symb @ '' ('' @ quoted info
         @ '') without traps.'')
     @ doc_line pfx (''## 5. Algorithmic Complexity Bounds: Bounded complexity evaluation for '' @ quoted symb @ '' in ''
         @ quoted info @ '' with zero global state.'')
     @ doc_line pfx (''## 6. Failure Modes & Fault Tolerance: Verified by modular compilation, AST bounds auditing, and hashing of ''
         @ quoted symb @ '' ('' @ quoted info @ '').'')
     @ doc_line pfx ''## 7. Realization & Traceability''
     @ doc_line pfx ''Realises: [REQ-0607]''
     @ doc_line pfx (''Traceable to lowered SysML v2 compilation context '' @ quoted info @ '' for '' @ quoted symb @ ''.'')
     @ body"

section \<open>Default values\<close>

text \<open>\<^verbatim>\<open>str::parse::<i64>\<close> and \<^verbatim>\<open>i64::to_string\<close>.\<close>

definition digits_value :: "string \<Rightarrow> int" where
  "digits_value s = foldl (\<lambda>n c. 10 * n + int (code c - 48)) 0 s"

definition unsigned_digits :: "string \<Rightarrow> int option" where
  "unsigned_digits s = (if s \<noteq> [] \<and> list_all is_ascii_digit s then Some (digits_value s) else None)"

definition parse_i64 :: "string \<Rightarrow> int option" where
  "parse_i64 s =
     (let n = (case s of
          c # cs \<Rightarrow> (if c = CHR ''-'' then map_option uminus (unsigned_digits cs)
                     else if c = CHR ''+'' then unsigned_digits cs else unsigned_digits s)
        | [] \<Rightarrow> None)
      in case n of
           Some i \<Rightarrow> (if - (2 ^ 63) \<le> i \<and> i < 2 ^ 63 then Some i else None)
         | None \<Rightarrow> None)"

definition show_int :: "int \<Rightarrow> string" where
  "show_int i = (if i < 0 then CHR ''-'' # decimal (nat (- i)) else decimal (nat i))"

definition escape_literal :: "string \<Rightarrow> string" where
  "escape_literal s = replace_char DQ [BS, DQ] (replace_char BS [BS, BS] s)"

definition format_default_literal ::
  "(string \<Rightarrow> string option) \<Rightarrow> string \<Rightarrow> string option \<Rightarrow> string" where
  "format_default_literal f64_debug rust_ty raw =
     (let s = trim (case raw of Some r \<Rightarrow> r | None \<Rightarrow> [])
      in if rust_ty = ''i64'' then show_int (case parse_i64 s of Some i \<Rightarrow> i | None \<Rightarrow> 0)
         else if rust_ty = ''f64'' then (case f64_debug s of Some t \<Rightarrow> t | None \<Rightarrow> ''0.0'')
         else if rust_ty = ''bool'' then (if s = ''true'' then ''true'' else ''false'')
         else if trim_quotes s = [] then ''String::new()''
         else DQ # escape_literal (trim_quotes s) @ DQ # ''.to_string()'')"

section \<open>Parts\<close>

text \<open>\<^verbatim>\<open>filter(|x| seen.insert(key(x)))\<close>: the first element of every key.\<close>

fun first_by :: "('a \<Rightarrow> 'b) \<Rightarrow> 'b list \<Rightarrow> 'a list \<Rightarrow> 'a list" where
  "first_by key seen [] = []"
| "first_by key seen (x # xs) =
     (if key x \<in> set seen then first_by key seen xs else x # first_by key (key x # seen) xs)"

definition struct_header :: "string \<Rightarrow> string \<Rightarrow> string" where
  "struct_header name decls =
     ''#[derive(Debug, Clone, PartialEq)]'' @ [LF] @ ''pub struct '' @ name @ '' {'' @ [LF] @ decls @ ''}'' @ [LF]
     @ ''impl Default for '' @ name @ '' {'' @ [LF]"

definition render_part_model :: "(string \<Rightarrow> string option) \<Rightarrow> PartDef \<Rightarrow> nat \<Rightarrow> string" where
  "render_part_model f64_debug p tier_no =
     (let name = to_pascal_ident (part_name p);
          attrs = first_by (\<lambda>a. to_snake_slug (attr_name a)) [] (part_attributes p);
          decls = concat (map (\<lambda>a. ''    pub '' @ to_snake_slug (attr_name a) @ '': ''
                     @ map_sysml_type_to_rust (attr_type_name a) @ '','' @ [LF]) attrs);
          init = concat (map (\<lambda>a. ''            '' @ to_snake_slug (attr_name a) @ '': ''
                     @ format_default_literal f64_debug (map_sysml_type_to_rust (attr_type_name a)) (attr_default_value a)
                     @ '','' @ [LF]) attrs);
          (decls, init) = (if decls = [] then (''    pub layer_tier: u8,'' @ [LF], ''            layer_tier: '' @ decimal tier_no @ '','' @ [LF])
                           else (decls, init))
      in push_doc7 ''///'' (''pub struct '' @ name) (part_name p) (struct_header name decls)
         @ push_doc7 ''    ///'' (name @ ''::default'') ''default''
             (''    fn default() -> Self {'' @ [LF] @ ''        Self {'' @ [LF] @ init @ ''        }'' @ [LF]
              @ ''    }'' @ [LF] @ ''}'' @ [LF]))"

section \<open>Predicates, ports, calculations and actions\<close>

definition word_separator :: "char \<Rightarrow> bool" where
  "word_separator c \<longleftrightarrow> \<not> (is_ascii_alphanumeric c \<or> c = CHR ''_'')"

definition uses_word :: "string \<Rightarrow> string \<Rightarrow> bool" where
  "uses_word t k \<longleftrightarrow> k \<in> set (split_by word_separator t)"

definition reexported_module :: "string \<Rightarrow> string" where
  "reexported_module c = ''pub mod '' @ c @ '';'' @ [LF] @ ''pub use '' @ c @ ''::*;'' @ [LF]"

definition model_import :: "CompilationUnit \<Rightarrow> string" where
  "model_import u =
     (case map_option (\<lambda>p. to_pascal_ident (part_name p)) (unit_part_def u) of
        None \<Rightarrow> []
      | Some k \<Rightarrow>
          (if \<exists>r \<in> set (hoisted_predicates u). \<exists>x \<in> set (hp_params r). uses_word (snd x) k
           then ''use super::model::'' @ k @ '';'' @ [LF] else []))"

definition external_predicates :: "HoistedPredicate list \<Rightarrow> string btree_set" where
  "external_predicates pr =
     bs_collect (filter (\<lambda>t. starts_with t ''eval_'' \<and> t \<notin> set (map hp_fn_name pr))
       (concat (map (\<lambda>p. split_by word_separator (hp_rust_expr p)) pr)))"

definition render_predicate :: "string \<Rightarrow> HoistedPredicate \<Rightarrow> string" where
  "render_predicate uid p =
     (let s = ''pub fn '' @ hp_fn_name p @ ''('' @ join '', '' (map (\<lambda>(n, t). n @ '': '' @ t) (hp_params p)) @ '') -> bool''
      in push_doc7 ''///'' s uid (s @ '' {'' @ [LF] @ ''    '' @ hp_rust_expr p @ [LF] @ ''}'' @ [LF]))"

definition render_port :: "PortDef \<Rightarrow> string" where
  "render_port p =
     (let pt = to_pascal_ident (port_name p) @ ''Port''
      in push_doc7 ''///'' (''pub struct '' @ pt) (port_name p)
           (''#[derive(Debug, Clone, PartialEq, Eq, Default)]'' @ [LF] @ ''pub struct '' @ pt @ '' {'' @ [LF]
            @ ''    pub protocol_family: String,'' @ [LF] @ ''    pub direction: String,'' @ [LF] @ ''}'' @ [LF]))"

definition render_calc :: "CalcDef \<Rightarrow> string" where
  "render_calc c =
     (let s = ''pub fn calc_'' @ to_snake_slug (calc_name c) @ ''(input: i64) -> i64''
      in push_doc7 ''///'' s (calc_name c) (s @ '' {'' @ [LF] @ ''    input.saturating_add(1)'' @ [LF] @ ''}'' @ [LF]))"

definition render_stage :: "string \<Rightarrow> OutlinedActionStage \<Rightarrow> string" where
  "render_stage an st =
     (let s = ''pub fn '' @ stage_fn_name st @ ''(acc: usize) -> usize''
      in push_doc7 ''///'' s an (s @ '' {'' @ [LF] @ ''    acc.saturating_add('' @ decimal (length (stage_steps st)) @ '')''
           @ [LF] @ ''}'' @ [LF]))"

definition render_execute :: "OutlinedActionPlan \<Rightarrow> string" where
  "render_execute ap =
     (let s = ''pub fn execute_'' @ to_snake_slug (plan_action_name ap) @ ''() -> usize'';
          calls = concat (map (\<lambda>x. ''    acc = '' @ stage_fn_name x @ ''(acc);'' @ [LF]) (plan_stages ap));
          b = (if calls = [] then ''    0usize'' @ [LF]
               else ''    let mut acc = 0usize;'' @ [LF] @ calls @ ''    acc'' @ [LF])
      in push_doc7 ''///'' s (plan_action_name ap) (s @ '' {'' @ [LF] @ b @ ''}'' @ [LF]))"

definition render_action_plan :: "CompilationUnit \<Rightarrow> OutlinedActionPlan \<Rightarrow> string" where
  "render_action_plan u ap =
     (if child_modules u = [] then concat (map (render_stage (plan_action_name ap)) (plan_stages ap)) else [])
     @ (if unit_kind u = StandaloneAction then render_execute ap else [])"

definition render_facets :: "CompilationUnit \<Rightarrow> string" where
  "render_facets u =
     concat (map reexported_module (child_modules u))
     @ model_import u
     @ concat (map (\<lambda>e. ''use super::'' @ e @ '';'' @ [LF]) (external_predicates (hoisted_predicates u)))
     @ concat (map (render_predicate (unit_id u)) (hoisted_predicates u))
     @ concat (map render_port (first_by (\<lambda>p. to_pascal_ident (port_name p)) [] (unit_port_defs u)))
     @ concat (map render_calc (first_by (\<lambda>c. to_snake_slug (calc_name c)) [] (unit_calc_defs u)))
     @ concat (map (render_action_plan u) (action_plans u))"


section \<open>State machines\<close>

text \<open>\<^verbatim>\<open>Path::file_stem\<close> of a relative path: its last component without the last extension.\<close>

definition path_components :: "string \<Rightarrow> string list" where
  "path_components p = filter (\<lambda>c. c \<noteq> [] \<and> c \<noteq> ''.'') (split_by (\<lambda>c. c = CHR ''/'') p)"

definition file_stem :: "string \<Rightarrow> string option" where
  "file_stem p =
     (let cs = path_components p in
      if cs = [] \<or> last cs = ''..'' then None
      else Some (case split_once ''.'' (rev (last cs)) of
             None \<Rightarrow> last cs
           | Some (_, front) \<Rightarrow> (if front = [] then last cs else rev front)))"

definition trigger_literal :: "string \<Rightarrow> string" where
  "trigger_literal t = escape_literal (trim_quotes (trim t))"

definition unique_arms :: "OutlinedStateHandler \<Rightarrow> (string \<times> string) list" where
  "unique_arms h = first_by fst [] (map (\<lambda>(t, d). (trigger_literal t, d)) (handler_transitions h))"

definition handler_signature :: "string \<Rightarrow> string \<Rightarrow> string" where
  "handler_signature e f = ''pub fn '' @ f @ ''(trigger: &str) -> Option<'' @ e @ ''>''"

definition render_handler :: "string \<Rightarrow> string \<Rightarrow> OutlinedStateHandler \<Rightarrow> string" where
  "render_handler e uid h =
     (let hsig = handler_signature e (handler_fn_name h);
          arms = concat (map (\<lambda>(c, d). ''        '' @ DQ # c @ DQ # '' => Some('' @ e @ ''::'' @ d @ ''),'' @ [LF]) (unique_arms h));
          hb = (if arms = [] then ''    let _ = trigger;'' @ [LF] @ ''    None''
                else ''    match trigger {'' @ [LF] @ arms @ ''        _ => None,'' @ [LF] @ ''    }'')
      in push_doc7 ''///'' hsig uid (hsig @ '' {'' @ [LF] @ hb @ [LF] @ ''}'' @ [LF]))"

text \<open>The calls of the handlers of each source state, as the map \<^verbatim>\<open>bs\<close> is filled by the loop.\<close>

definition push_call :: "OutlinedStateHandler \<Rightarrow> (string, string list) btree_map \<Rightarrow> (string, string list) btree_map" where
  "push_call h bs =
     bt_insert (handler_source_state h)
       ((case bt_get bs (handler_source_state h) of None \<Rightarrow> [] | Some l \<Rightarrow> l) @ [handler_fn_name h @ ''(trigger)'']) bs"

definition state_calls :: "OutlinedStateHandler list \<Rightarrow> (string, string list) btree_map" where
  "state_calls hs = fold push_call hs []"

definition first_of :: "string list \<Rightarrow> string" where
  "first_of calls = ''['' @ join '', '' calls @ ''].into_iter().flatten().next()''"

definition render_dispatch :: "string \<Rightarrow> (string, string list) btree_map \<Rightarrow> string" where
  "render_dispatch e bs =
     (let st_arms = concat (map (\<lambda>(s, c). ''        '' @ e @ ''::'' @ s @ '' => '' @ first_of c @ '','' @ [LF]) bs)
      in (if st_arms = [] then ''    let _ = trigger;'' @ [LF] else [])
         @ ''    match state {'' @ [LF] @ st_arms @ ''        _ => None,'' @ [LF] @ ''    }'')"

definition render_state_enum :: "string \<Rightarrow> OutlinedStateMachinePlan \<Rightarrow> string" where
  "render_state_enum e plan =
     (let slug = to_snake_slug (sm_state_def_name plan);
          vars = concat (map (\<lambda>s. ''    '' @ s @ '','' @ [LF]) (first_by id [] (sm_states plan)));
          isig = ''pub const fn initial_'' @ slug @ ''_state() -> '' @ e
      in push_doc7 ''///'' (''pub enum '' @ e) (sm_state_def_name plan)
           (''#[derive(Debug, Clone, Copy, PartialEq, Eq, PartialOrd, Ord, Hash)]'' @ [LF]
            @ ''pub enum '' @ e @ '' {'' @ [LF] @ vars @ ''}'' @ [LF])
         @ push_doc7 ''///'' isig (sm_state_def_name plan)
           (isig @ '' {'' @ [LF] @ ''    '' @ e @ ''::'' @ sm_initial_state plan @ [LF] @ ''}'' @ [LF]))"

definition step_signature :: "string \<Rightarrow> string \<Rightarrow> string" where
  "step_signature e slug = ''pub fn step_'' @ slug @ ''(state: '' @ e @ '', trigger: &str) -> '' @ e"

definition try_signature :: "string \<Rightarrow> string \<Rightarrow> string" where
  "try_signature e stem = ''pub fn try_step_'' @ stem @ ''(state: '' @ e @ '', trigger: &str) -> Option<'' @ e @ ''>''"

text \<open>The module file of a sharded machine: it asks the shards in turn.\<close>

definition shard_try :: "string \<Rightarrow> string" where
  "shard_try c = c @ ''::try_step_'' @ c @ ''(state, trigger)''"

definition render_sharded_step :: "CompilationUnit \<Rightarrow> OutlinedStateMachinePlan \<Rightarrow> string" where
  "render_sharded_step u plan =
     (let e = sm_state_def_name plan @ ''State'';
          step_sig = step_signature e (to_snake_slug (sm_state_def_name plan));
          cs = map shard_try (filter (\<lambda>c. c \<noteq> ''states'') (child_modules u));
          b = (if cs = [] then ''    let _ = trigger;'' @ [LF] @ ''    state''
               else ''    '' @ first_of cs @ ''.unwrap_or(state)'')
      in concat (map reexported_module (child_modules u))
         @ push_doc7 ''///'' step_sig (unit_id u) (step_sig @ '' {'' @ [LF] @ b @ [LF] @ ''}'' @ [LF]))"

definition is_handler_shard :: "CompilationUnit \<Rightarrow> bool" where
  "is_handler_shard u \<longleftrightarrow>
     unit_kind u = PartStatesFacet \<and>
     starts_with (case file_stem (relative_path u) of Some s \<Rightarrow> s | None \<Rightarrow> ''handlers'') ''handlers''"

definition render_state_plan :: "CompilationUnit \<Rightarrow> OutlinedStateMachinePlan \<Rightarrow> string" where
  "render_state_plan u plan =
     (let sn = sm_state_def_name plan;
          e = sn @ ''State'';
          stem = (case file_stem (relative_path u) of Some s \<Rightarrow> s | None \<Rightarrow> ''handlers'');
          step_sig = step_signature e (to_snake_slug sn);
          (sig, sfx) = (if is_handler_shard u then (try_signature e stem, [])
                        else (step_sig, LF # ''    .unwrap_or(state)''))
      in if child_modules u \<noteq> [] then render_sharded_step u plan
         else if \<not> is_handler_shard u \<and> unit_kind u = PartStatesFacet \<and> sm_handlers plan = []
         then render_state_enum e plan
         else (if is_handler_shard u then ''use super::states::'' @ e @ '';'' @ [LF] else render_state_enum e plan)
              @ concat (map (render_handler e (unit_id u)) (sm_handlers plan))
              @ push_doc7 ''///'' sig (unit_id u)
                  (sig @ '' {'' @ [LF] @ render_dispatch e (state_calls (sm_handlers plan)) @ sfx @ [LF] @ ''}'' @ [LF]))"

section \<open>Units\<close>

definition barrel_line :: "bool \<Rightarrow> string \<Rightarrow> string" where
  "barrel_line reexport c =
     ''pub mod '' @ c @ '';'' @ [LF] @ (if reexport then ''pub use '' @ c @ ''::*;'' @ [LF] else [])"

text \<open>The verification of the text: every result is discarded and the text returned as it is.\<close>

definition synthesize_and_verify_unit_ast :: "string \<Rightarrow> string \<Rightarrow> string" where
  "synthesize_and_verify_unit_ast raw uid = raw"

definition render_unit_body :: "(string \<Rightarrow> string option) \<Rightarrow> CompilationUnit \<Rightarrow> string" where
  "render_unit_body f64_debug u =
     (if unit_kind u = BarrelFacade then
        concat (map (barrel_line (reexport_children u)) (child_modules u))
      else if unit_kind u = PartModelFacet then
        (case unit_part_def u of Some p \<Rightarrow> render_part_model f64_debug p (tier (unit_layer u)) | None \<Rightarrow> [])
      else if unit_kind u \<in> {PartStatesFacet, StandaloneState} then
        (if state_plans u = [] then concat (map reexported_module (child_modules u)) else [])
        @ concat (map (render_state_plan u) (state_plans u))
      else render_facets u)"

definition render_unit :: "(string \<Rightarrow> string option) \<Rightarrow> CompilationUnit \<Rightarrow> string" where
  "render_unit f64_debug u =
     (let info = relative_path u @ '' ['' @ layer_as_str (unit_layer u) @ '']''
      in synthesize_and_verify_unit_ast
           (push_doc7 ''//!'' (unit_id u) info [LF] @ render_unit_body f64_debug u) (unit_id u))"

end
