(* ===== verification/Rust_Machine.thy ===== *)
theory Rust_Machine
  imports Rust_Render
begin

text \<open>
  What the rendered state machines mean. The text of a unit is the text of a small Rust program
  (handlers that match the trigger, a dispatch that matches the state, a facade that asks its
  shards), whose runs are defined here; the step function of the module written for a state
  machine takes the first transition the model declares for the state and the trigger.
\<close>

section \<open>String literals\<close>

text \<open>The value of a Rust string literal made of plain characters and the escapes of \<open>escape_literal\<close>.\<close>

fun unescape_literal :: "string \<Rightarrow> string" where
  "unescape_literal [] = []"
| "unescape_literal [c] = [c]"
| "unescape_literal (c # d # cs) =
     (if c = BS then d # unescape_literal cs else c # unescape_literal (d # cs))"

lemma unescape_plain: "c \<noteq> BS \<Longrightarrow> unescape_literal (c # s) = c # unescape_literal s"
  by (cases s) auto

lemma escape_literal_Cons:
  "escape_literal (c # s) = (if c = BS then [BS, BS] else if c = DQ then [BS, DQ] else [c]) @ escape_literal s"
  by (simp add: escape_literal_def replace_char_def)

lemma unescape_escape_literal: "unescape_literal (escape_literal s) = s"
proof (induction s)
  case Nil
  then show ?case by (simp add: escape_literal_def replace_char_def)
next
  case (Cons c s)
  then show ?case by (simp add: escape_literal_Cons unescape_plain)
qed

section \<open>Programs and their runs\<close>

record RustMachine =
  rm_handlers :: "(string \<times> (string \<times> string) list) list"
  rm_dispatch :: "(string \<times> string list) list"

definition run_handler :: "(string \<times> string) list \<Rightarrow> string \<Rightarrow> string option" where
  "run_handler arms t = map_option snd (find (\<lambda>(c, d). unescape_literal c = t) arms)"

definition call_handler :: "RustMachine \<Rightarrow> string \<Rightarrow> string \<Rightarrow> string option" where
  "call_handler m t f = (case map_of (rm_handlers m) f of None \<Rightarrow> None | Some arms \<Rightarrow> run_handler arms t)"

definition run_dispatch :: "RustMachine \<Rightarrow> string \<Rightarrow> string \<Rightarrow> string option" where
  "run_dispatch m s t =
     (case map_of (rm_dispatch m) s of None \<Rightarrow> None | Some fs \<Rightarrow> find_map (call_handler m t) fs)"

definition push_name :: "OutlinedStateHandler \<Rightarrow> (string, string list) btree_map \<Rightarrow> (string, string list) btree_map" where
  "push_name h bs =
     bt_insert (handler_source_state h)
       ((case bt_get bs (handler_source_state h) of None \<Rightarrow> [] | Some l \<Rightarrow> l) @ [handler_fn_name h]) bs"

definition machine_of :: "OutlinedStateHandler list \<Rightarrow> RustMachine" where
  "machine_of hs =
     \<lparr>rm_handlers = map (\<lambda>h. (handler_fn_name h, unique_arms h)) hs, rm_dispatch = fold push_name hs []\<rparr>"

section \<open>The text of a program\<close>

definition handler_text :: "string \<Rightarrow> string \<Rightarrow> string \<times> (string \<times> string) list \<Rightarrow> string" where
  "handler_text e uid = (\<lambda>(f, arms).
     push_doc7 ''///'' (handler_signature e f) uid
       (handler_signature e f @ '' {'' @ [LF]
        @ (if arms = [] then ''    let _ = trigger;'' @ [LF] @ ''    None''
           else ''    match trigger {'' @ [LF]
             @ concat (map (\<lambda>(c, d). ''        '' @ DQ # c @ DQ # '' => Some('' @ e @ ''::'' @ d @ ''),'' @ [LF]) arms)
             @ ''        _ => None,'' @ [LF] @ ''    }'')
        @ [LF] @ ''}'' @ [LF]))"

definition dispatch_text :: "string \<Rightarrow> (string \<times> string list) list \<Rightarrow> string" where
  "dispatch_text e ds =
     (if ds = [] then ''    let _ = trigger;'' @ [LF] else []) @ ''    match state {'' @ [LF]
     @ concat (map (\<lambda>(s, fs). ''        '' @ e @ ''::'' @ s @ '' => ''
         @ first_of (map (\<lambda>f. f @ ''(trigger)'') fs) @ '','' @ [LF]) ds)
     @ ''        _ => None,'' @ [LF] @ ''    }''"

definition machine_text :: "string \<Rightarrow> string \<Rightarrow> string \<Rightarrow> string \<Rightarrow> RustMachine \<Rightarrow> string" where
  "machine_text e uid sig sfx m =
     concat (map (handler_text e uid) (rm_handlers m))
     @ push_doc7 ''///'' sig uid (sig @ '' {'' @ [LF] @ dispatch_text e (rm_dispatch m) @ sfx @ [LF] @ ''}'' @ [LF])"

lemma render_handler_text: "render_handler e uid h = handler_text e uid (handler_fn_name h, unique_arms h)"
  by (cases "unique_arms h") (simp_all add: render_handler_def handler_text_def Let_def case_prod_unfold)

lemma bt_insert_map: "bt_insert k (f v) (map (\<lambda>(k, v). (k, f v)) m) = map (\<lambda>(k, v). (k, f v)) (bt_insert k v m)"
  by (induction k v m rule: bt_insert.induct) (auto simp: case_prod_unfold)

lemma bt_get_map: "bt_get (map (\<lambda>(k, v). (k, f v)) m) k = map_option f (bt_get m k)"
  by (induction m) (auto simp: bt_get_def)

lemma state_calls_map: "state_calls hs = map (\<lambda>(s, fs). (s, map (\<lambda>f. f @ ''(trigger)'') fs)) (fold push_name hs [])"
proof (induction hs rule: rev_induct)
  case (snoc h hs)
  let ?g = "\<lambda>fs. map (\<lambda>f. f @ ''(trigger)'') fs"
  have "state_calls (hs @ [h]) = push_call h (map (\<lambda>(s, fs). (s, ?g fs)) (fold push_name hs []))"
    using snoc by (simp add: state_calls_def)
  also have "\<dots> = bt_insert (handler_source_state h)
      (?g ((case bt_get (fold push_name hs []) (handler_source_state h) of None \<Rightarrow> [] | Some l \<Rightarrow> l) @ [handler_fn_name h]))
      (map (\<lambda>(s, fs). (s, ?g fs)) (fold push_name hs []))"
    by (simp add: push_call_def bt_get_map split: option.split)
  also have "\<dots> = map (\<lambda>(s, fs). (s, ?g fs)) (push_name h (fold push_name hs []))"
    by (simp only: bt_insert_map push_name_def [of h])
  finally show ?case by (simp only: fold_append fold.simps comp_apply id_apply)
qed (simp add: state_calls_def)

lemma render_dispatch_text: "render_dispatch e (state_calls hs) = dispatch_text e (fold push_name hs [])"
  by (cases "fold push_name hs []") (simp_all add: render_dispatch_def dispatch_text_def state_calls_map Let_def case_prod_unfold comp_def)

lemma render_machine:
  "concat (map (render_handler e uid) hs)
     @ push_doc7 ''///'' sig uid (sig @ '' {'' @ [LF] @ render_dispatch e (state_calls hs) @ sfx @ [LF] @ ''}'' @ [LF]) =
   machine_text e uid sig sfx (machine_of hs)"
  by (simp add: machine_text_def machine_of_def render_dispatch_text render_handler_text comp_def cong: map_cong)

section \<open>Runs of a plan\<close>

lemma find_first_by:
  assumes "\<And>x y. key x = key y \<Longrightarrow> P x \<longleftrightarrow> P y" "\<And>x. key x \<in> set seen \<Longrightarrow> \<not> P x"
  shows "find P (first_by key seen xs) = find P xs"
  using assms(2)
proof (induction xs arbitrary: seen)
  case (Cons x xs)
  show ?case
  proof (cases "key x \<in> set seen \<or> P x")
    case True
    then show ?thesis using Cons.IH [OF Cons.prems] Cons.prems [of x] by auto
  next
    case False
    have "\<not> P y" if "key y \<in> set (key x # seen)" for y
    proof (cases "key y = key x")
      case True
      then show ?thesis using False by (simp add: assms(1) [OF True])
    next
      case False
      then show ?thesis using that Cons.prems [of y] by simp
    qed
    then have "find P (first_by key (key x # seen) xs) = find P xs" by (rule Cons.IH)
    with False show ?thesis by simp
  qed
qed simp

definition arm_target :: "(string \<times> string) list \<Rightarrow> string \<Rightarrow> string option" where
  "arm_target arms t = map_option snd (find (\<lambda>(trigger, d). trim_quotes (trim trigger) = t) arms)"

lemma find_map_list: "find P (map f xs) = map_option f (find (P \<circ> f) xs)"
  by (induction xs) auto

lemma run_unique_arms: "run_handler (unique_arms h) t = arm_target (handler_transitions h) t"
proof -
  have "find (\<lambda>(c, d). unescape_literal c = t) (unique_arms h) =
      find (\<lambda>(c, d). unescape_literal c = t) (map (\<lambda>(t, d). (trigger_literal t, d)) (handler_transitions h))"
    unfolding unique_arms_def by (rule find_first_by) auto
  also have "\<dots> = map_option (\<lambda>(t, d). (trigger_literal t, d)) (find (\<lambda>(trigger, d). trim_quotes (trim trigger) = t) (handler_transitions h))"
    by (simp add: find_map_list comp_def case_prod_unfold trigger_literal_def unescape_escape_literal)
  finally show ?thesis by (simp add: run_handler_def arm_target_def case_prod_unfold option.map_comp comp_def)
qed

lemma arm_target_append: "arm_target (xs @ ys) t = (case arm_target xs t of Some d \<Rightarrow> Some d | None \<Rightarrow> arm_target ys t)"
  by (induction xs) (auto simp: arm_target_def)

lemma arm_target_concat: "arm_target (concat xss) t = find_map (\<lambda>xs. arm_target xs t) xss"
  by (induction xss) (simp_all add: arm_target_append arm_target_def [of "[]"] split: option.split)

lemma dispatch_names:
  "bt_sorted (fold push_name hs []) \<and>
   bt_get (fold push_name hs []) s =
     (if filter (\<lambda>h. handler_source_state h = s) hs = [] then None
      else Some (map handler_fn_name (filter (\<lambda>h. handler_source_state h = s) hs)))"
  by (induction hs rule: rev_induct) (auto simp: push_name_def bt_get_insert bt_get_def [of "[]"])

lemma find_map_map: "find_map f (map g xs) = find_map (\<lambda>x. f (g x)) xs"
  by (induction xs) (auto split: option.split)

lemma find_map_cong: "(\<And>x. x \<in> set xs \<Longrightarrow> f x = g x) \<Longrightarrow> find_map f xs = find_map g xs"
  by (induction xs) (auto split: option.split)

lemma run_machine_of:
  assumes "distinct (map handler_fn_name hs)"
  shows "run_dispatch (machine_of hs) s t =
    arm_target (concat (map handler_transitions (filter (\<lambda>h. handler_source_state h = s) hs))) t"
proof -
  have call: "call_handler (machine_of hs) t (handler_fn_name h) = arm_target (handler_transitions h) t" if "h \<in> set hs" for h
  proof -
    have "map_of (rm_handlers (machine_of hs)) (handler_fn_name h) = Some (unique_arms h)"
      using assms that by (intro map_of_is_SomeI) (auto simp: machine_of_def comp_def)
    then show ?thesis by (simp add: call_handler_def run_unique_arms)
  qed
  let ?hs = "filter (\<lambda>h. handler_source_state h = s) hs"
  have "run_dispatch (machine_of hs) s t =
      (if ?hs = [] then None else find_map (call_handler (machine_of hs) t) (map handler_fn_name ?hs))"
    using dispatch_names [of hs s] by (simp add: run_dispatch_def machine_of_def bt_get_def)
  also have "\<dots> = find_map (\<lambda>h. arm_target (handler_transitions h) t) ?hs"
    using find_map_cong [of ?hs "\<lambda>h. call_handler (machine_of hs) t (handler_fn_name h)"] call
    by (auto simp: find_map_map)
  finally show ?thesis by (simp add: arm_target_concat find_map_map)
qed


section \<open>The units of a state machine\<close>

definition unit_machine :: "CompilationUnit \<Rightarrow> RustMachine" where
  "unit_machine u = machine_of (concat (map sm_handlers (state_plans u)))"

definition or_stay :: "string \<Rightarrow> string option \<Rightarrow> string" where
  "or_stay s d = (case d of Some x \<Rightarrow> x | None \<Rightarrow> s)"

text \<open>
  The step function of a module: the units written for it, its module file last. A module file with
  shards calls \<^verbatim>\<open>c::try_step_c\<close> of each shard \<open>c\<close>, which is the file with the stem \<open>c\<close>; the shards are
  the files of handlers among the units.
\<close>

definition handler_shards :: "CompilationUnit list \<Rightarrow> string list" where
  "handler_shards us = List.map_filter (\<lambda>u. if is_handler_shard u then file_stem (relative_path u) else None) us"

definition shard_step :: "CompilationUnit list \<Rightarrow> string \<Rightarrow> string \<Rightarrow> string \<Rightarrow> string option" where
  "shard_step us s t c =
     (case find (\<lambda>u. is_handler_shard u \<and> file_stem (relative_path u) = Some c) us of
        Some u \<Rightarrow> run_dispatch (unit_machine u) s t
      | None \<Rightarrow> None)"

definition module_step :: "CompilationUnit list \<Rightarrow> string \<Rightarrow> string \<Rightarrow> string" where
  "module_step us s t =
     or_stay s
       (if child_modules (last us) = [] then run_dispatch (unit_machine (last us)) s t
        else find_map (shard_step us s t) (handler_shards us))"

text \<open>What the model declares: the first transition that leaves the state on the trigger.\<close>

definition transition_fires :: "string \<Rightarrow> string \<Rightarrow> TransitionDef \<Rightarrow> bool" where
  "transition_fires s t tx =
     (case (tx_source tx, tx_target tx) of
        (Some src, Some dst) \<Rightarrow>
          to_pascal_ident src = s \<and> s \<notin> {''Initial'', ''Terminal''} \<and>
          trim_quotes (trim (transition_trigger tx)) = t
      | _ \<Rightarrow> False)"

definition declared_step :: "StateDef \<Rightarrow> string \<Rightarrow> string \<Rightarrow> string" where
  "declared_step sd s t =
     (case find (transition_fires s t) (state_transitions sd) of
        Some tx \<Rightarrow> (case tx_target tx of Some dst \<Rightarrow> to_pascal_ident dst | None \<Rightarrow> s)
      | None \<Rightarrow> s)"

lemma arms_of_Cons:
  "arms_of s (tx # txs) =
     (case transition_arm tx of Some (src, arm) \<Rightarrow> if src = s then arm # arms_of s txs else arms_of s txs
      | None \<Rightarrow> arms_of s txs)"
  by (auto simp: arms_of_def List.map_filter_def split: option.split)

lemma declared_arms: "or_stay s (arm_target (arms_of s (state_transitions sd)) t) = declared_step sd s t"
proof -
  have "or_stay s (arm_target (arms_of s txs) t) =
    (case find (transition_fires s t) txs of
        Some tx \<Rightarrow> (case tx_target tx of Some dst \<Rightarrow> to_pascal_ident dst | None \<Rightarrow> s)
      | None \<Rightarrow> s)" for txs
  proof (induction txs)
    case Nil
    then show ?case by (simp add: arms_of_def List.map_filter_def arm_target_def or_stay_def)
  next
    case (Cons tx txs)
    then show ?case
      by (cases "tx_source tx"; cases "tx_target tx")
        (auto simp: arms_of_Cons transition_arm_def transition_fires_def Let_def arm_target_def or_stay_def)
  qed
  then show ?thesis by (simp add: declared_step_def)
qed

lemma split_by_append_sep: "P c \<Longrightarrow> split_by P (a @ c # b) = split_by P a @ split_by P b"
  by (induction a) auto

lemma split_by_none: "\<forall>c \<in> set s. \<not> P c \<Longrightarrow> split_by P s = [s]"
  by (induction s) auto

lemma file_stem_leaf:
  assumes "\<forall>c \<in> set stem. c \<noteq> CHR ''/'' \<and> c \<noteq> CHR ''.''" "stem \<noteq> []"
  shows "file_stem (join_rel d (stem @ ''.rs'')) = Some stem"
proof -
  have leaf: "split_by (\<lambda>c. c = CHR ''/'') (stem @ ''.rs'') = [stem @ ''.rs'']"
    using assms by (intro split_by_none) auto
  have ne: "stem @ ''.rs'' \<noteq> ''.''" "stem @ ''.rs'' \<noteq> ''..''"
    using assms by (cases stem; auto)+
  have "\<exists>cs. path_components (join_rel d (stem @ ''.rs'')) = cs @ [stem @ ''.rs'']"
    using ne by (auto simp: path_components_def join_rel_def leaf split_by_append_sep)
  then obtain cs where cs: "path_components (join_rel d (stem @ ''.rs'')) = cs @ [stem @ ''.rs'']" ..
  have "split_once ''.'' (''sr.'' @ rev stem) = Some (''sr'', rev stem)"
    by (simp add: split_once.simps starts_with_def)
  then show ?thesis using ne assms(2) by (simp add: file_stem_def cs Let_def)
qed


lemma find_map_append: "find_map f (xs @ ys) = (case find_map f xs of Some y \<Rightarrow> Some y | None \<Rightarrow> find_map f ys)"
  by (induction xs) (auto split: option.split)

lemma find_append: "find P (xs @ ys) = (case find P xs of Some y \<Rightarrow> Some y | None \<Rightarrow> find P ys)"
  by (induction xs) auto

lemma distinct_map_chunk: "chunk \<in> set css \<Longrightarrow> distinct (map f (concat css)) \<Longrightarrow> distinct (map f chunk)"
  by (induction css) auto

lemma find_keyed: "distinct (map fst xs) \<Longrightarrow> (c, v) \<in> set xs \<Longrightarrow> find (\<lambda>x. fst x = c) xs = Some (c, v)"
  by (induction xs) force+

text \<open>The shards of a machine, given by how the unit of a shard is made, and the rest of its module.\<close>

lemma shards_run:
  assumes names: "distinct (map handler_fn_name hs)"
    and shards: "distinct (map fst shards)" "concat (map snd shards) = hs"
    and unit_of: "\<And>c chunk. (c, chunk) \<in> set shards \<Longrightarrow>
      is_handler_shard (f (c, chunk)) \<and> file_stem (relative_path (f (c, chunk))) = Some c \<and>
      unit_machine (f (c, chunk)) = machine_of chunk"
    and others: "\<not> is_handler_shard pre"
  shows "find_map (shard_step (pre # map f shards @ post) s t) (map fst shards) = run_dispatch (machine_of hs) s t"
proof -
  let ?us = "pre # map f shards @ post" and ?tr = "\<lambda>hs. concat (map handler_transitions (filter (\<lambda>h. handler_source_state h = s) hs))"
  have step: "shard_step ?us s t (fst x) = arm_target (?tr (snd x)) t" if x: "x \<in> set shards" for x
  proof -
    obtain c chunk where c: "x = (c, chunk)" by (cases x)
    have same: "(\<lambda>y. is_handler_shard (f y) \<and> file_stem (relative_path (f y)) = Some c) y \<longleftrightarrow> fst y = c"
      if "y \<in> set shards" for y using unit_of [of "fst y" "snd y"] that by auto
    have "find (\<lambda>u. is_handler_shard u \<and> file_stem (relative_path u) = Some c) (map f shards) =
        map_option f (find (\<lambda>y. fst y = c) shards)"
      unfolding find_map_list comp_def using same by (simp cong: find_cong)
    also have "\<dots> = Some (f x)" using find_keyed [OF shards(1)] x c by simp
    finally have "find (\<lambda>u. is_handler_shard u \<and> file_stem (relative_path u) = Some c) ?us = Some (f x)"
      using others by (simp add: find_append split: option.split)
    moreover have "distinct (map handler_fn_name chunk)"
      using names x c shards(2) by (intro distinct_map_chunk [of chunk "map snd shards"]) force+
    ultimately show ?thesis using unit_of x c by (simp add: shard_step_def run_machine_of)
  qed
  have "find_map (shard_step ?us s t) (map fst shards) = find_map (\<lambda>x. arm_target (?tr (snd x)) t) shards"
    unfolding find_map_map by (rule find_map_cong) (rule step)
  also have "\<dots> = arm_target (concat (map ?tr (map snd shards))) t" by (simp add: arm_target_concat find_map_map)
  also have "concat (map ?tr (map snd shards)) = ?tr (concat (map snd shards))"
    by (induction shards) auto
  finally show ?thesis using names by (simp add: shards(2) run_machine_of)
qed


lemma unit_machine_single: "state_plans u = [p] \<Longrightarrow> unit_machine u = machine_of (sm_handlers p)"
  by (simp add: unit_machine_def)

text \<open>The text of a file that holds handlers: what comes before them, and its program.\<close>

definition unit_stem :: "CompilationUnit \<Rightarrow> string" where
  "unit_stem u = (case file_stem (relative_path u) of Some s \<Rightarrow> s | None \<Rightarrow> ''handlers'')"

definition unit_program_text :: "CompilationUnit \<Rightarrow> OutlinedStateMachinePlan \<Rightarrow> string" where
  "unit_program_text u plan =
     (let e = sm_state_def_name plan @ ''State''
      in if is_handler_shard u then
           ''use super::states::'' @ e @ '';'' @ [LF]
           @ machine_text e (unit_id u) (try_signature e (unit_stem u)) [] (machine_of (sm_handlers plan))
         else
           render_state_enum e plan
           @ machine_text e (unit_id u) (step_signature e (to_snake_slug (sm_state_def_name plan)))
               (LF # ''    .unwrap_or(state)'') (machine_of (sm_handlers plan)))"

lemma render_state_plan_text:
  "child_modules u = [] \<Longrightarrow> is_handler_shard u \<or> unit_kind u \<noteq> PartStatesFacet \<or> sm_handlers plan \<noteq> [] \<Longrightarrow>
   render_state_plan u plan = unit_program_text u plan"
  unfolding unit_program_text_def Let_def render_machine [symmetric]
  by (auto simp: render_state_plan_def unit_stem_def Let_def)

text \<open>
  The text of a module file over shards: the modules it declares and re-exports, the one of the states
  first, and a step function that asks the shards in their order and stays when none answers.
\<close>

definition facade_text :: "CompilationUnit \<Rightarrow> OutlinedStateMachinePlan \<Rightarrow> string list \<Rightarrow> string" where
  "facade_text u plan shards =
     (let sig = step_signature (sm_state_def_name plan @ ''State'') (to_snake_slug (sm_state_def_name plan))
      in concat (map (\<lambda>c. ''pub mod '' @ c @ '';'' @ [LF] @ ''pub use '' @ c @ ''::*;'' @ [LF]) (''states'' # shards))
         @ push_doc7 ''///'' sig (unit_id u)
             (sig @ '' {'' @ [LF]
              @ ''    ['' @ join '', '' (map (\<lambda>c. c @ ''::try_step_'' @ c @ ''(state, trigger)'') shards)
              @ ''].into_iter().flatten().next().unwrap_or(state)'' @ [LF] @ ''}'' @ [LF]))"

text \<open>The text of any file of the module: a facade, the enum of the states, or a program.\<close>

definition module_file_text :: "CompilationUnit list \<Rightarrow> CompilationUnit \<Rightarrow> OutlinedStateMachinePlan \<Rightarrow> string" where
  "module_file_text us u plan =
     (if child_modules u \<noteq> [] then facade_text u plan (handler_shards us)
      else if \<not> is_handler_shard u \<and> unit_kind u = PartStatesFacet \<and> sm_handlers plan = []
      then render_state_enum (sm_state_def_name plan @ ''State'') plan
      else unit_program_text u plan)"

lemma render_facade:
  assumes "child_modules u = ''states'' # shards" "''states'' \<notin> set shards" "shards \<noteq> []"
  shows "render_state_plan u plan = facade_text u plan shards"
proof -
  have "filter (\<lambda>c. c \<noteq> ''states'') shards = shards" using assms(2) by (auto intro: filter_True)
  with assms(1,3) show ?thesis
    by (simp add: render_state_plan_def render_sharded_step_def facade_text_def reexported_module_def shard_try_def
        first_of_def Let_def case_prod_unfold cong: map_cong)
qed

lemma render_module_file:
  assumes "child_modules u \<noteq> [] \<Longrightarrow>
    child_modules u = ''states'' # handler_shards us \<and> ''states'' \<notin> set (handler_shards us) \<and> handler_shards us \<noteq> []"
  shows "render_state_plan u plan = module_file_text us u plan"
proof -
  consider (facade) "child_modules u \<noteq> []"
    | (enum) "child_modules u = []" "\<not> is_handler_shard u" "unit_kind u = PartStatesFacet" "sm_handlers plan = []"
    | (program) "child_modules u = []" "is_handler_shard u \<or> unit_kind u \<noteq> PartStatesFacet \<or> sm_handlers plan \<noteq> []"
    by blast
  then show ?thesis
  proof cases
    case facade
    with assms render_facade show ?thesis by (simp add: module_file_text_def)
  next
    case enum
    then show ?thesis by (simp add: module_file_text_def render_state_plan_def Let_def case_prod_unfold)
  next
    case program
    with render_state_plan_text show ?thesis by (auto simp: module_file_text_def)
  qed
qed

text \<open>The units of a machine with more handlers than a file holds.\<close>

definition shard_units :: "StateDef \<Rightarrow> PackageFacetCtx \<Rightarrow> CompilationUnit \<times> (string \<times> OutlinedStateHandler list \<Rightarrow> CompilationUnit) \<times> CompilationUnit" where
  "shard_units sd ctx =
     (let plan = outline_state_def sd (ctx_bounds ctx);
          dir = join_rel (ctx_pkg_dir ctx) (to_snake_slug (state_name sd));
          base = part_base_id (state_name sd) ctx
      in ((empty_unit (base @ ''::states'') (join_rel dir ''states.rs'') (ctx_pkg_path ctx) (ctx_layer ctx) PartStatesFacet)
            \<lparr>state_plans := [plan\<lparr>sm_handlers := []\<rparr>]\<rparr>,
          \<lambda>(shard, chunk). (empty_unit (base @ ''::'' @ shard) (join_rel dir (shard @ ''.rs'')) (ctx_pkg_path ctx)
             (ctx_layer ctx) PartStatesFacet) \<lparr>state_plans := [plan\<lparr>sm_handlers := chunk\<rparr>]\<rparr>,
          (empty_unit base (join_rel dir ''mod.rs'') (ctx_pkg_path ctx) (ctx_layer ctx) StandaloneState)
            \<lparr>child_modules := ''states'' # map fst (numbered_shards ''handlers'' 4 (sm_handlers plan)),
             reexport_children := True, state_plans := [plan]\<rparr>))"

lemma emit_sharded:
  assumes "\<not> length (sm_handlers (outline_state_def sd (ctx_bounds ctx))) \<le> 4" "shard_units sd ctx = (pre, f, facade)"
  shows "fst (emit_state_units sd ctx) =
    pre # map f (numbered_shards ''handlers'' 4 (sm_handlers (outline_state_def sd (ctx_bounds ctx)))) @ [facade]"
  using assms by (auto simp: emit_state_units_def shard_units_def Let_def)

lemma shard_unit_facts:
  assumes "shard_units sd ctx = (pre, f, facade)" "(c, chunk) \<in> set (numbered_shards ''handlers'' 4 hs)"
  shows "is_handler_shard (f (c, chunk))" "file_stem (relative_path (f (c, chunk))) = Some c"
    "unit_machine (f (c, chunk)) = machine_of chunk" "child_modules (f (c, chunk)) = []" "c \<noteq> ''states''"
proof -
  obtain i where c: "c = ''handlers_'' @ decimal02 i" using assms(2) by (auto simp: numbered_shards_def)
  have f: "f = (\<lambda>(shard, chunk). (empty_unit (part_base_id (state_name sd) ctx @ ''::'' @ shard)
      (join_rel (join_rel (ctx_pkg_dir ctx) (to_snake_slug (state_name sd))) (shard @ ''.rs'')) (ctx_pkg_path ctx)
      (ctx_layer ctx) PartStatesFacet) \<lparr>state_plans := [(outline_state_def sd (ctx_bounds ctx))\<lparr>sm_handlers := chunk\<rparr>]\<rparr>)"
    using assms(1) by (simp add: shard_units_def Let_def)
  have "file_stem (join_rel d (c @ ''.rs'')) = Some c" for d
    by (rule file_stem_leaf) (auto simp: c dest: decimal02_digits digit_plain)
  then show "is_handler_shard (f (c, chunk))" "file_stem (relative_path (f (c, chunk))) = Some c"
    "unit_machine (f (c, chunk)) = machine_of chunk" "child_modules (f (c, chunk)) = []" "c \<noteq> ''states''"
    by (simp_all add: f is_handler_shard_def unit_machine_single c starts_with_def empty_unit_def)
qed

lemma other_units:
  assumes "shard_units sd ctx = (pre, f, facade)"
  shows "\<not> is_handler_shard pre" "\<not> is_handler_shard facade" "child_modules pre = []"
    "child_modules facade = ''states'' # map fst (numbered_shards ''handlers'' 4 (sm_handlers (outline_state_def sd (ctx_bounds ctx))))"
  using assms file_stem_leaf [of "''states''"]
  by (auto simp: shard_units_def Let_def is_handler_shard_def starts_with_def empty_unit_def)

lemma handler_shards_emitted:
  assumes "\<not> length (sm_handlers (outline_state_def sd (ctx_bounds ctx))) \<le> 4"
  shows "handler_shards (fst (emit_state_units sd ctx)) =
    map fst (numbered_shards ''handlers'' 4 (sm_handlers (outline_state_def sd (ctx_bounds ctx))))"
proof -
  obtain pre f facade where u: "shard_units sd ctx = (pre, f, facade)" by (cases "shard_units sd ctx") auto
  let ?shards = "numbered_shards ''handlers'' 4 (sm_handlers (outline_state_def sd (ctx_bounds ctx)))"
  have "handler_shards (map f xs) = map fst xs" if "set xs \<subseteq> set ?shards" for xs
    using that
  proof (induction xs)
    case (Cons x xs)
    then show ?case using shard_unit_facts [OF u, of "fst x" "snd x" "sm_handlers (outline_state_def sd (ctx_bounds ctx))"]
      by (simp add: handler_shards_def List.map_filter_def)
  qed (simp add: handler_shards_def List.map_filter_def)
  from this [of ?shards] show ?thesis
    unfolding emit_sharded [OF assms u] using other_units [OF u]
    by (simp add: handler_shards_def List.map_filter_def)
qed

text \<open>
  C22: the Rust code written for a state machine does what the model declares. When no two of its
  handlers share a name, so that the text is a program, the step function of the module, in one file or
  in shards, moves every state on every trigger to the target of the first declared transition that
  leaves the state on that trigger, and stays where there is none. The rendered text of every file is the
  text of the program that is run: of its handlers and dispatch, of the enum of the states, or, for the
  module file over shards, of the step function that asks the shards written beside it in their order.
\<close>

theorem rendered_step_takes_declared_transition:
  assumes "distinct (map handler_fn_name (sm_handlers (outline_state_def sd (ctx_bounds ctx))))"
  shows "module_step (fst (emit_state_units sd ctx)) s t = declared_step sd s t \<and>
    (\<forall>u \<in> set (fst (emit_state_units sd ctx)). \<forall>p \<in> set (state_plans u).
       render_state_plan u p = module_file_text (fst (emit_state_units sd ctx)) u p \<and> unit_machine u = machine_of (sm_handlers p))"
proof
  let ?us = "fst (emit_state_units sd ctx)"
  let ?plan = "outline_state_def sd (ctx_bounds ctx)"
  let ?shards = "numbered_shards ''handlers'' 4 (sm_handlers ?plan)"
  obtain pre f facade where u: "shard_units sd ctx = (pre, f, facade)" by (cases "shard_units sd ctx") auto
  have run: "or_stay s (run_dispatch (machine_of (sm_handlers ?plan)) s t) = declared_step sd s t"
    by (simp add: run_machine_of [OF assms] handlers_keep declared_arms)
  show "module_step ?us s t = declared_step sd s t"
  proof (cases "length (sm_handlers ?plan) \<le> 4")
    case True
    then show ?thesis by (simp add: emit_state_units_def Let_def module_step_def unit_machine_single run)
  next
    case False
    have "find_map (shard_step (pre # map f ?shards @ [facade]) s t) (map fst ?shards) =
        run_dispatch (machine_of (sm_handlers ?plan)) s t"
      by (rule shards_run [OF assms numbered_shards_distinct numbered_shards_concat])
        (use shard_unit_facts [OF u] other_units [OF u] in auto)
    moreover have "child_modules (last (pre # map f ?shards @ [facade])) \<noteq> []" using other_units [OF u] by simp
    ultimately show ?thesis
      using run handler_shards_emitted [OF False] unfolding emit_sharded [OF False u] by (simp add: module_step_def)
  qed
  have one: "length (state_plans v) = 1" if "v \<in> set ?us" for v
    using that by (auto simp: emit_state_units_def Let_def split: if_splits)
  have single: "state_plans v = [p]" if "v \<in> set ?us" "p \<in> set (state_plans v)" for v p
    using one [OF that(1)] that(2) by (auto simp: length_Suc_conv)
  have "render_state_plan v p = module_file_text ?us v p" if v: "v \<in> set ?us" for v p
  proof (rule render_module_file)
    assume c: "child_modules v \<noteq> []"
    have big: "\<not> length (sm_handlers ?plan) \<le> 4"
      using v c by (auto simp: emit_state_units_def Let_def empty_unit_def)
    have "v = facade" using v c shard_unit_facts(4) [OF u] other_units(3) [OF u] unfolding emit_sharded [OF big u] by auto
    moreover have "?shards \<noteq> []" using numbered_shards_concat [of 4 "''handlers''" "sm_handlers ?plan"] big by auto
    moreover have "''states'' \<notin> set (map fst ?shards)"
    proof
      assume "''states'' \<in> set (map fst ?shards)"
      then obtain chunk where "(''states'', chunk) \<in> set ?shards" by force
      from shard_unit_facts(5) [OF u this] show False by simp
    qed
    ultimately show "child_modules v = ''states'' # handler_shards ?us \<and> ''states'' \<notin> set (handler_shards ?us) \<and> handler_shards ?us \<noteq> []"
      unfolding handler_shards_emitted [OF big] using other_units(4) [OF u] by simp
  qed
  then show "\<forall>u \<in> set ?us. \<forall>p \<in> set (state_plans u).
       render_state_plan u p = module_file_text ?us u p \<and> unit_machine u = machine_of (sm_handlers p)"
    by (simp add: unit_machine_single [OF single])
qed

definition example_ctx :: PackageFacetCtx where
  "example_ctx = \<lparr>ctx_pkg_dir = ''lamp'', ctx_pkg_path = [''lamp''], ctx_layer = Domain, ctx_bounds = canonical_bounds\<rparr>"

definition ring_machine :: StateDef where
  "ring_machine = StateDef ''Ring'' None None None None
     [example_transition ''A'' ''B'' ''go'', example_transition ''B'' ''C'' ''go'', example_transition ''C'' ''D'' ''go'',
      example_transition ''D'' ''E'' ''go'', example_transition ''E'' ''A'' ''go'', example_transition ''E'' ''B'' ''go''] []"

theorem rendered_step_takes_declared_transition_witness:
  "module_step (fst (emit_state_units ring_machine example_ctx)) ''E'' ''go'' = ''A'' \<and>
   length (fst (emit_state_units ring_machine example_ctx)) = 4"
proof
  have "distinct (map handler_fn_name (sm_handlers (outline_state_def ring_machine (ctx_bounds example_ctx))))"
    by code_simp
  note conjunct1 [OF rendered_step_takes_declared_transition [OF this]]
  moreover have "declared_step ring_machine ''E'' ''go'' = ''A''" by code_simp
  ultimately show "module_step (fst (emit_state_units ring_machine example_ctx)) ''E'' ''go'' = ''A''" by (simp only:)
  show "length (fst (emit_state_units ring_machine example_ctx)) = 4" by code_simp
qed


section \<open>Actions\<close>

text \<open>
  The function \<^verbatim>\<open>execute_<action>\<close> threads a counter through its stages; a stage is found by its
  name among the rendered ones and adds the number of its steps, stopping at the largest \<^verbatim>\<open>usize\<close>.
\<close>

definition usize_max :: nat where
  "usize_max = 2 ^ 64 - 1"

definition run_execute :: "(string \<times> nat) list \<Rightarrow> string list \<Rightarrow> nat option" where
  "run_execute stages calls =
     foldl (\<lambda>acc f. case (acc, map_of stages f) of (Some n, Some k) \<Rightarrow> Some (min (n + k) usize_max) | _ \<Rightarrow> None)
       (Some 0) calls"

definition stage_table :: "OutlinedActionStage list \<Rightarrow> (string \<times> nat) list" where
  "stage_table sts = map (\<lambda>st. (stage_fn_name st, length (stage_steps st))) sts"

lemma run_execute_stages:
  assumes "distinct (map stage_fn_name sts)" "set sts' \<subseteq> set sts" "n \<le> usize_max"
  shows "foldl (\<lambda>acc f. case (acc, map_of (stage_table sts) f) of (Some n, Some k) \<Rightarrow> Some (min (n + k) usize_max) | _ \<Rightarrow> None)
       (Some n) (map stage_fn_name sts') = Some (min (n + length (concat (map stage_steps sts'))) usize_max)"
  using assms(2,3)
proof (induction sts' arbitrary: n)
  case (Cons st sts')
  have "map_of (stage_table sts) (stage_fn_name st) = Some (length (stage_steps st))"
    using assms(1) Cons.prems(1) by (intro map_of_is_SomeI) (auto simp: stage_table_def comp_def)
  then show ?case using Cons.IH [of "min (n + length (stage_steps st)) usize_max"] Cons.prems by (auto simp: min_def)
qed (simp add: min_def)


definition rendered_stages :: "CompilationUnit list \<Rightarrow> (string \<times> nat) list" where
  "rendered_stages us =
     concat (map (\<lambda>u. concat (map (\<lambda>p. stage_table (plan_stages p)) (action_plans u)))
       (filter (\<lambda>u. child_modules u = []) us))"

definition module_execute :: "CompilationUnit list \<Rightarrow> nat option" where
  "module_execute us =
     run_execute (rendered_stages us) (concat (map (\<lambda>p. map stage_fn_name (plan_stages p)) (action_plans (last us))))"

lemma rendered_stages_action:
  "rendered_stages (fst (emit_action_units act ctx)) = stage_table (plan_stages (outline_action_def act (ctx_bounds ctx)))"
proof -
  let ?stages = "plan_stages (outline_action_def act (ctx_bounds ctx))"
  have "concat (map stage_table (map snd shards)) = stage_table (concat (map snd shards))" for shards :: "(string \<times> OutlinedActionStage list) list"
    by (simp add: stage_table_def map_concat comp_def)
  from this [of "numbered_shards ''stages'' 5 ?stages"]
  have "concat (map (\<lambda>x. stage_table (snd x)) (numbered_shards ''stages'' 5 ?stages)) = stage_table ?stages"
    by (simp add: numbered_shards_concat comp_def)
  moreover have "numbered_shards ''stages'' 5 ?stages \<noteq> []" if "\<not> length ?stages \<le> 5"
    using numbered_shards_concat [of 5 "''stages''" ?stages] that by auto
  ultimately show ?thesis
    by (auto simp: rendered_stages_def emit_action_units_def Let_def case_prod_unfold comp_def)
qed

text \<open>
  the function \<^verbatim>\<open>execute_<action>\<close> written for an action, its stages in one file or in
  shards, finds every stage it calls and returns the number of steps of the action (one for an
  action without steps), capped by the largest \<^verbatim>\<open>usize\<close>.
\<close>

theorem execute_counts_steps:
  "module_execute (fst (emit_action_units act ctx)) = Some (min (max (length (action_steps act)) 1) usize_max)"
proof -
  let ?stages = "plan_stages (outline_action_def act (ctx_bounds ctx))"
  have "action_plans (last (fst (emit_action_units act ctx))) = [outline_action_def act (ctx_bounds ctx)]"
    by (simp add: emit_action_units_def Let_def)
  then have "module_execute (fst (emit_action_units act ctx)) = run_execute (stage_table ?stages) (map stage_fn_name ?stages)"
    by (simp add: module_execute_def rendered_stages_action)
  also have "\<dots> = Some (min (length (concat (map stage_steps ?stages))) usize_max)"
    using run_execute_stages [of ?stages ?stages 0] outline_action_stages [of act "ctx_bounds ctx"]
    by (simp add: run_execute_def)
  finally show ?thesis using outline_action_stages [of act "ctx_bounds ctx"]
    by (cases "action_steps act") auto
qed

end
