(* ===== verification/File_Tree.thy ===== *)
theory File_Tree
  imports Rust_Render
begin

text \<open>
  The directory below the target of the emitter: a tree of named entries. Writing a file creates
  its directories and replaces an existing file (\<^verbatim>\<open>write_atomic\<close> of
  \<^verbatim>\<open>salsa_db/source_db.rs\<close>); the scan is the worklist of
  \<^verbatim>\<open>compute_directory_tree_manifest\<close>. The only failures of this file system are those of the
  shape of the tree: a file in the place of a directory and the reverse.
\<close>

section \<open>Trees and writes\<close>

datatype FsNode = FileNode string | DirNode "(string \<times> FsNode) list"

type_synonym directory = "(string \<times> FsNode) list"

definition put_entry :: "string \<Rightarrow> FsNode \<Rightarrow> directory \<Rightarrow> directory" where
  "put_entry n nd es =
     (if n \<in> fst ` set es then map (\<lambda>(m, x). if m = n then (n, nd) else (m, x)) es else es @ [(n, nd)])"

fun write_atomic :: "string list \<Rightarrow> string \<Rightarrow> directory \<Rightarrow> directory option" where
  "write_atomic [] c es = None"
| "write_atomic [n] c es =
     (case map_of es n of Some (DirNode _) \<Rightarrow> None | _ \<Rightarrow> Some (put_entry n (FileNode c) es))"
| "write_atomic (d # n # p) c es =
     (case map_of es d of
        Some (FileNode _) \<Rightarrow> None
      | Some (DirNode sub) \<Rightarrow> map_option (\<lambda>s. put_entry d (DirNode s) es) (write_atomic (n # p) c sub)
      | None \<Rightarrow> map_option (\<lambda>s. put_entry d (DirNode s) es) (write_atomic (n # p) c []))"

text \<open>The content of a file, and trees whose names are distinct in every directory.\<close>

fun file_at :: "directory \<Rightarrow> string list \<Rightarrow> string option" where
  "file_at es [] = None"
| "file_at es [n] = (case map_of es n of Some (FileNode c) \<Rightarrow> Some c | _ \<Rightarrow> None)"
| "file_at es (d # n # p) = (case map_of es d of Some (DirNode sub) \<Rightarrow> file_at sub (n # p) | _ \<Rightarrow> None)"

fun tidy_node :: "FsNode \<Rightarrow> bool" where
  "tidy_node (FileNode c) \<longleftrightarrow> True"
| "tidy_node (DirNode es) \<longleftrightarrow> distinct (map fst es) \<and> (\<forall>x \<in> set es. tidy_node (snd x))"

definition tidy :: "directory \<Rightarrow> bool" where
  "tidy es \<longleftrightarrow> tidy_node (DirNode es)"

lemma tidy_iff: "tidy es \<longleftrightarrow> distinct (map fst es) \<and> (\<forall>x \<in> set es. tidy_node (snd x))"
  by (simp add: tidy_def)

lemma tidy_Nil [simp]: "tidy []"
  by (simp add: tidy_def)

lemma tidy_sub: "tidy es \<Longrightarrow> map_of es d = Some (DirNode sub) \<Longrightarrow> tidy sub"
  unfolding tidy_def by (drule map_of_SomeD) fastforce

lemma put_entry_get: "map_of (put_entry n nd es) m = (if m = n then Some nd else map_of es m)"
proof -
  have "map_of (map (\<lambda>(m, x). if m = n then (n, nd) else (m, x)) es) m =
      (if m = n then map_option (\<lambda>_. nd) (map_of es n) else map_of es m)"
    by (induction es) auto
  moreover have "map_of es n = None \<longleftrightarrow> n \<notin> fst ` set es" by (simp add: map_of_eq_None_iff)
  ultimately show ?thesis by (auto simp: put_entry_def map_add_def split: option.split)
qed

lemma put_entry_tidy:
  assumes "tidy es" "tidy_node nd"
  shows "tidy (put_entry n nd es)"
proof -
  have "map fst (put_entry n nd es) = (if n \<in> fst ` set es then map fst es else map fst es @ [n])"
    by (auto simp: put_entry_def)
  moreover have "tidy_node (snd x)" if "x \<in> set (put_entry n nd es)" for x
  proof -
    have "snd x \<in> insert nd (snd ` set es)" using that by (auto simp: put_entry_def image_iff split: if_splits)
    then show ?thesis using assms unfolding tidy_iff by (elim insertE imageE) simp_all
  qed
  ultimately show ?thesis using assms(1) by (simp add: tidy_iff)
qed

lemma write_atomic_tidy: "write_atomic p c es = Some es' \<Longrightarrow> tidy es \<Longrightarrow> tidy es'"
proof (induction p c es arbitrary: es' rule: write_atomic.induct)
  case (3 d n p c es)
  from 3(3) obtain s where "es' = put_entry d (DirNode s) es"
    and "map_of es d = None \<and> write_atomic (n # p) c [] = Some s \<or>
      (\<exists>sub. map_of es d = Some (DirNode sub) \<and> write_atomic (n # p) c sub = Some s)"
    by (auto split: option.splits FsNode.splits)
  moreover from this have "tidy s" using 3(1,2) tidy_sub [OF 3(4)] by (metis tidy_Nil)
  ultimately show ?case using 3(4) by (simp add: put_entry_tidy tidy_def [of s])
qed (auto intro!: put_entry_tidy split: option.splits FsNode.splits)

text \<open>After a write the file has its new content and no other file has changed.\<close>

lemma file_at_write:
  "write_atomic p c es = Some es' \<Longrightarrow> file_at es' q = (if q = p then Some c else file_at es q)"
proof (induction p c es arbitrary: es' q rule: write_atomic.induct)
  case (2 n c es)
  then have "es' = put_entry n (FileNode c) es" "\<And>sub. map_of es n \<noteq> Some (DirNode sub)"
    by (auto split: option.splits FsNode.splits)
  then show ?case
    by (cases "(es', q)" rule: file_at.cases) (auto simp: put_entry_get split: option.splits FsNode.splits)
next
  case (3 d n p c es)
  from 3(3) obtain s sub where s: "es' = put_entry d (DirNode s) es" "write_atomic (n # p) c sub = Some s"
    and sub: "map_of es d = None \<and> sub = [] \<or> map_of es d = Some (DirNode sub)"
    by (auto split: option.splits FsNode.splits)
  have IH: "file_at s q = (if q = n # p then Some c else file_at sub q)" for q
    using 3(1,2) s(2) sub by blast
  have "file_at [] q = None" for q by (cases "([]::directory, q)" rule: file_at.cases) auto
  then show ?case using sub
    by (cases "(es', q)" rule: file_at.cases) (auto simp: s(1) put_entry_get IH split: option.splits)
qed simp

section \<open>The scan\<close>

definition has_rs_extension :: "string \<Rightarrow> bool" where
  "has_rs_extension n \<longleftrightarrow> ends_with n ''.rs'' \<and> 3 < length n"

definition sub_directories :: "string list \<times> directory \<Rightarrow> (string list \<times> directory) list" where
  "sub_directories = (\<lambda>(path, es).
     rev (concat (map (\<lambda>(n, nd). case nd of DirNode sub \<Rightarrow> [(path @ [n], sub)] | FileNode _ \<Rightarrow> []) es)))"

definition rs_files :: "string list \<times> directory \<Rightarrow> (string list \<times> string) list" where
  "rs_files = (\<lambda>(path, es).
     concat (map (\<lambda>(n, nd). case nd of FileNode c \<Rightarrow> (if has_rs_extension n then [(path @ [n], c)] else []) | DirNode _ \<Rightarrow> []) es))"

definition dir_weight :: "string list \<times> directory \<Rightarrow> nat" where
  "dir_weight x = size (DirNode (snd x))"

lemma dir_weight_sub: "sum_list (map dir_weight (sub_directories x)) < dir_weight x"
proof -
  have "sum_list (map dir_weight (sub_directories (path, es))) < Suc (size_list (size_prod (\<lambda>x. 0) size) es)" for path es
    by (induction es) (auto simp: sub_directories_def dir_weight_def rev_map [symmetric] split: FsNode.split)
  then show ?thesis by (cases x) (simp add: dir_weight_def)
qed

function pop_directories :: "(string list \<times> directory) list \<Rightarrow> (string list \<times> directory) list" where
  "pop_directories [] = []"
| "pop_directories (x # stack) = x # pop_directories (sub_directories x @ stack)"
  by pat_completeness auto
termination
proof (relation "measure (\<lambda>st. sum_list (map dir_weight st))")
  fix x stack
  show "(sub_directories x @ stack, x # stack) \<in> measure (\<lambda>st. sum_list (map dir_weight st))"
    using dir_weight_sub [of x] by simp
qed simp

definition scanned_files :: "directory \<Rightarrow> (string, string) btree_map" where
  "scanned_files es =
     bt_collect (map (\<lambda>(p, c). (join ''/'' p, c)) (concat (map rs_files (pop_directories [([], es)]))))"

lemma sub_directories_weight: "y \<in> set (sub_directories x) \<Longrightarrow> dir_weight y < dir_weight x"
  using dir_weight_sub [of x] member_le_sum_list [of "dir_weight y" "map dir_weight (sub_directories x)"] by auto

function dirs_preorder :: "string list \<times> directory \<Rightarrow> (string list \<times> directory) list" where
  "dirs_preorder x = x # concat (map dirs_preorder (sub_directories x))"
  by auto
termination by (relation "measure dir_weight") (auto simp: sub_directories_weight)

declare dirs_preorder.simps [simp del]

interpretation dir_tree: tree_walk sub_directories pop_directories dirs_preorder dir_weight
  by unfold_locales (rule pop_directories.simps dirs_preorder.simps dir_weight_sub)+

lemma preorder_files:
  "tidy (snd x) \<Longrightarrow> (q, c) \<in> set (concat (map rs_files (dirs_preorder x))) \<longleftrightarrow>
     (\<exists>p. q = fst x @ p \<and> file_at (snd x) p = Some c \<and> has_rs_extension (last p))"
proof (induction x arbitrary: q rule: dirs_preorder.induct)
  case (1 x)
  obtain path es where x: "x = (path, es)" by (cases x)
  then have t: "tidy es" using 1(2) by simp
  have get: "map_of es n = Some nd \<longleftrightarrow> (n, nd) \<in> set es" for n nd using t by (simp add: tidy_iff)
  have sub: "y \<in> set (sub_directories x) \<longleftrightarrow> (\<exists>n sub. y = (path @ [n], sub) \<and> map_of es n = Some (DirNode sub))" for y
    by (force simp: x sub_directories_def get split: FsNode.splits)
  have here: "(q, c) \<in> set (rs_files x) \<longleftrightarrow>
      (\<exists>n. q = path @ [n] \<and> map_of es n = Some (FileNode c) \<and> has_rs_extension n)"
    by (force simp: x rs_files_def get split: FsNode.splits if_splits)
  have below: "(q, c) \<in> set (concat (map rs_files (dirs_preorder (path @ [n], sub)))) \<longleftrightarrow>
      (\<exists>p. q = path @ n # p \<and> file_at sub p = Some c \<and> has_rs_extension (last p))"
    if "map_of es n = Some (DirNode sub)" for n sub
    using 1(1) [of "(path @ [n], sub)"] that tidy_sub [OF t that] sub by simp
  have "(q, c) \<in> set (concat (map rs_files (dirs_preorder x))) \<longleftrightarrow>
      (q, c) \<in> set (rs_files x) \<or>
      (\<exists>n sub. map_of es n = Some (DirNode sub) \<and> (q, c) \<in> set (concat (map rs_files (dirs_preorder (path @ [n], sub)))))"
    by (subst dirs_preorder.simps) (auto simp: sub)
  also have "\<dots> \<longleftrightarrow> (\<exists>p. q = path @ p \<and> file_at es p = Some c \<and> has_rs_extension (last p))"
    (is "?l \<longleftrightarrow> ?r")
  proof
    assume ?l
    then show ?r
    proof (elim disjE exE conjE)
      assume "(q, c) \<in> set (rs_files x)"
      then obtain n where "q = path @ [n]" "map_of es n = Some (FileNode c)" "has_rs_extension n" using here by blast
      then show ?r by (intro exI [of _ "[n]"]) simp
    next
      fix n sub
      assume n: "map_of es n = Some (DirNode sub)" "(q, c) \<in> set (concat (map rs_files (dirs_preorder (path @ [n], sub))))"
      then obtain p where "q = path @ n # p" "file_at sub p = Some c" "has_rs_extension (last p)" using below by blast
      with n show ?r by (intro exI [of _ "n # p"]) (cases p; auto)
    qed
  next
    assume ?r
    then obtain p where p: "q = path @ p" "file_at es p = Some c" "has_rs_extension (last p)" by blast
    then show ?l
    proof (cases "(es, p)" rule: file_at.cases)
      case (3 es' d n r)
      with p obtain sub where "map_of es d = Some (DirNode sub)" "file_at sub (n # r) = Some c"
        by (auto split: option.splits FsNode.splits)
      with 3 p show ?thesis using below by auto
    qed (use p here in \<open>auto split: option.splits FsNode.splits\<close>)
  qed
  finally show ?case by (simp add: x)
qed

end
