(* ===== verification/Digest.thy ===== *)
theory Digest
  imports RustStr "HOL-Library.Word"
begin

text \<open>
  \<^verbatim>\<open>deap-core/src/digest.rs\<close>: the SHA-256 digest over bytes. A byte is an \<open>8 word\<close>, the state
  registers are \<open>32 word\<close>s, so that \<^verbatim>\<open>wrapping_add\<close> is their addition.
\<close>

unbundle bit_operations_syntax

type_synonym u8 = "8 word"
type_synonym u32 = "32 word"
type_synonym u64 = "64 word"
type_synonym regs = "u32 \<times> u32 \<times> u32 \<times> u32 \<times> u32 \<times> u32 \<times> u32 \<times> u32"

section \<open>Words and bytes\<close>

definition rotate_right :: "nat \<Rightarrow> u32 \<Rightarrow> u32" where
  "rotate_right k w = drop_bit k w OR push_bit (32 - k) w"

text \<open>\<^verbatim>\<open>from_be_bytes\<close> of four bytes, and \<^verbatim>\<open>to_be_bytes\<close> of a word of \<open>n\<close> bytes.\<close>

fun from_be_bytes :: "u8 list \<Rightarrow> u32" where
  "from_be_bytes [a, b, c, d] =
     push_bit 24 (ucast a) OR push_bit 16 (ucast b) OR push_bit 8 (ucast c) OR ucast d"
| "from_be_bytes bs = 0"

definition to_be_bytes :: "nat \<Rightarrow> 'w::len word \<Rightarrow> u8 list" where
  "to_be_bytes n w = map (\<lambda>i. ucast (drop_bit (8 * i) w)) (rev [0..<n])"

text \<open>\<^verbatim>\<open>as_chunks::<n>().0\<close>: the whole chunks; a shorter rest is left out.\<close>

definition as_chunks :: "nat \<Rightarrow> 'a list \<Rightarrow> 'a list list" where
  "as_chunks n xs = filter (\<lambda>c. length c = n) (chunks n xs)"

definition get :: "'a list \<Rightarrow> nat \<Rightarrow> 'a option" where
  "get xs i = (if i < length xs then Some (xs ! i) else None)"

section \<open>One block\<close>

definition SHA256_K :: "u32 list" where
  "SHA256_K = concat [
     [0x428a2f98, 0x71374491, 0xb5c0fbcf, 0xe9b5dba5, 0x3956c25b, 0x59f111f1, 0x923f82a4],
     [0xab1c5ed5, 0xd807aa98, 0x12835b01, 0x243185be, 0x550c7dc3, 0x72be5d74, 0x80deb1fe],
     [0x9bdc06a7, 0xc19bf174, 0xe49b69c1, 0xefbe4786, 0x0fc19dc6, 0x240ca1cc, 0x2de92c6f],
     [0x4a7484aa, 0x5cb0a9dc, 0x76f988da, 0x983e5152, 0xa831c66d, 0xb00327c8, 0xbf597fc7],
     [0xc6e00bf3, 0xd5a79147, 0x06ca6351, 0x14292967, 0x27b70a85, 0x2e1b2138, 0x4d2c6dfc],
     [0x53380d13, 0x650a7354, 0x766a0abb, 0x81c2c92e, 0x92722c85, 0xa2bfe8a1, 0xa81a664b],
     [0xc24b8b70, 0xc76c51a3, 0xd192e819, 0xd6990624, 0xf40e3585, 0x106aa070, 0x19a4c116],
     [0x1e376c08, 0x2748774c, 0x34b0bcb5, 0x391c0cb3, 0x4ed8aa4a, 0x5b9cca4f, 0x682e6ff3],
     [0x748f82ee, 0x78a5636f, 0x84c87814, 0x8cc70208, 0x90befffa, 0xa4506ceb, 0xbef9a3f7],
     [0xc67178f2]]"

definition schedule_step :: "nat \<Rightarrow> u32 list \<Rightarrow> u32 list" where
  "schedule_step i w =
     (case (get w (i - 15), get w (i - 2), get w (i - 16), get w (i - 7)) of
        (Some w15, Some w2, Some w16, Some w7) \<Rightarrow>
          (let s0 = rotate_right 7 w15 XOR rotate_right 18 w15 XOR drop_bit 3 w15;
               s1 = rotate_right 17 w2 XOR rotate_right 19 w2 XOR drop_bit 10 w2
           in w[i := w16 + s0 + w7 + s1])
      | _ \<Rightarrow> w)"

definition message_schedule :: "u8 list \<Rightarrow> u32 list" where
  "message_schedule chunk =
     (let words = map from_be_bytes (as_chunks 4 chunk);
          w = take 64 (words @ replicate (64 - length words) 0)
      in fold schedule_step [16..<64] w)"

definition sha_round :: "u32 \<times> u32 \<Rightarrow> regs \<Rightarrow> regs" where
  "sha_round = (\<lambda>(k, wi) (a, b, c, d, e, f, g, hh).
     (let s1 = rotate_right 6 e XOR rotate_right 11 e XOR rotate_right 25 e;
          ch = (e AND f) XOR (NOT e AND g);
          temp1 = hh + s1 + ch + k + wi;
          s0 = rotate_right 2 a XOR rotate_right 13 a XOR rotate_right 22 a;
          maj = (a AND b) XOR (a AND c) XOR (b AND c);
          temp2 = s0 + maj
      in (temp1 + temp2, a, b, c, d + temp1, e, f, g)))"

definition add_regs :: "regs \<Rightarrow> regs \<Rightarrow> regs" where
  "add_regs = (\<lambda>(a, b, c, d, e, f, g, h) (a', b', c', d', e', f', g', h').
     (a + a', b + b', c + c', d + d', e + e', f + f', g + g', h + h'))"

definition process_sha256_chunk :: "u8 list \<Rightarrow> regs \<Rightarrow> regs" where
  "process_sha256_chunk chunk state =
     add_regs state (fold sha_round (zip SHA256_K (message_schedule chunk)) state)"

section \<open>The digest\<close>

definition initial_regs :: regs where
  "initial_regs = (0x6a09e667, 0xbb67ae85, 0x3c6ef372, 0xa54ff53a,
                   0x510e527f, 0x9b05688c, 0x1f83d9ab, 0x5be0cd19)"

text \<open>The loop that appends zeros; its measure is how many are still missing.\<close>

definition missing_zeros :: "nat \<Rightarrow> nat" where
  "missing_zeros r = (if r \<le> 56 then 56 - r else 120 - r)"

function pad_zeros :: "u8 list \<Rightarrow> u8 list" where
  "pad_zeros msg = (if length msg mod 64 \<noteq> 56 then pad_zeros (msg @ [0]) else msg)"
  by pat_completeness auto
termination
proof (relation "measure (\<lambda>msg. missing_zeros (length msg mod 64))")
  fix msg :: "u8 list"
  assume ne: "length msg mod 64 \<noteq> 56"
  have "length msg mod 64 < 64" by simp
  with ne show "(msg @ [0], msg) \<in> measure (\<lambda>msg. missing_zeros (length msg mod 64))"
    by (auto simp: missing_zeros_def mod_Suc)
qed simp

declare pad_zeros.simps [simp del]

definition padded :: "u8 list \<Rightarrow> u8 list" where
  "padded bytes =
     (let bit_len = (of_nat (length bytes) :: u64) * 8
      in pad_zeros (bytes @ [0x80]) @ to_be_bytes 8 bit_len)"

definition regs_bytes :: "regs \<Rightarrow> u8 list" where
  "regs_bytes = (\<lambda>(a, b, c, d, e, f, g, h). concat (map (to_be_bytes 4) [a, b, c, d, e, f, g, h]))"

definition compute_sha256_bytes :: "u8 list \<Rightarrow> u8 list" where
  "compute_sha256_bytes bytes =
     regs_bytes (fold process_sha256_chunk (as_chunks 64 (padded bytes)) initial_regs)"

text \<open>\<^verbatim>\<open>{:02x}\<close>.\<close>

definition hex_digit :: "nat \<Rightarrow> char" where
  "hex_digit n = (if n < 10 then char_of (48 + n) else char_of (87 + n))"

definition hex02 :: "u8 \<Rightarrow> string" where
  "hex02 b = [hex_digit (unat b div 16), hex_digit (unat b mod 16)]"

definition compute_sha256 :: "u8 list \<Rightarrow> string" where
  "compute_sha256 bytes = concat (map hex02 (compute_sha256_bytes bytes))"

text \<open>The bytes of a text, \<^verbatim>\<open>as_bytes()\<close>: UTF-8 of the code points below 256.\<close>

definition utf8_char :: "char \<Rightarrow> u8 list" where
  "utf8_char c =
     (if code c < 128 then [word_of_nat (code c)]
      else [word_of_nat (192 + code c div 64), word_of_nat (128 + code c mod 64)])"

definition utf8_bytes :: "string \<Rightarrow> u8 list" where
  "utf8_bytes s = concat (map utf8_char s)"

section \<open>The specification\<close>

text \<open>
  FIPS 180-4: the schedule as a recursion on its index, the rounds over the indices, and the
  padding with the number of zero bytes given directly.
\<close>

definition sigma0 :: "u32 \<Rightarrow> u32" where
  "sigma0 x = word_rotr 7 x XOR word_rotr 18 x XOR drop_bit 3 x"

definition sigma1 :: "u32 \<Rightarrow> u32" where
  "sigma1 x = word_rotr 17 x XOR word_rotr 19 x XOR drop_bit 10 x"

definition Sigma0 :: "u32 \<Rightarrow> u32" where
  "Sigma0 x = word_rotr 2 x XOR word_rotr 13 x XOR word_rotr 22 x"

definition Sigma1 :: "u32 \<Rightarrow> u32" where
  "Sigma1 x = word_rotr 6 x XOR word_rotr 11 x XOR word_rotr 25 x"

fun fips_schedule :: "(nat \<Rightarrow> u32) \<Rightarrow> nat \<Rightarrow> u32" where
  "fips_schedule M t =
     (if t < 16 then M t
      else sigma1 (fips_schedule M (t - 2)) + fips_schedule M (t - 7)
         + sigma0 (fips_schedule M (t - 15)) + fips_schedule M (t - 16))"

declare fips_schedule.simps [simp del]

definition fips_round :: "u32 \<Rightarrow> regs \<Rightarrow> regs" where
  "fips_round kw = (\<lambda>(a, b, c, d, e, f, g, h).
     (let t1 = h + Sigma1 e + ((e AND f) XOR (NOT e AND g)) + kw;
          t2 = Sigma0 a + ((a AND b) XOR (a AND c) XOR (b AND c))
      in (t1 + t2, a, b, c, d + t1, e, f, g)))"

definition block_word :: "u8 list \<Rightarrow> nat \<Rightarrow> u32" where
  "block_word block i = from_be_bytes (take 4 (drop (4 * i) block))"

definition fips_block :: "u8 list \<Rightarrow> regs \<Rightarrow> regs" where
  "fips_block block H =
     add_regs H (fold (\<lambda>t. fips_round (SHA256_K ! t + fips_schedule (block_word block) t)) [0..<64] H)"

definition fips_pad :: "u8 list \<Rightarrow> u8 list" where
  "fips_pad m = m @ [0x80] @ replicate (missing_zeros (Suc (length m) mod 64)) 0
     @ to_be_bytes 8 (of_nat (8 * length m) :: u64)"

definition fips_blocks :: "u8 list \<Rightarrow> u8 list list" where
  "fips_blocks m = map (\<lambda>i. take 64 (drop (64 * i) m)) [0..<length m div 64]"

definition fips_sha256 :: "u8 list \<Rightarrow> u8 list" where
  "fips_sha256 m = regs_bytes (fold fips_block (fips_blocks (fips_pad m)) initial_regs)"

section \<open>The digest computes the specification\<close>

lemma rotate_right_rotr: "0 < k \<Longrightarrow> k < 32 \<Longrightarrow> rotate_right k w = word_rotr k w"
proof (rule bit_word_eqI)
  fix n assume k: "0 < k" "k < 32" and "n < LENGTH(32)"
  then have n: "n < 32" by simp
  show "bit (rotate_right k w) n \<longleftrightarrow> bit (word_rotr k w) n"
  proof (cases "n + k < 32")
    case True
    then show ?thesis using n k
      by (auto simp: rotate_right_def bit_simps ac_simps)
  next
    case False
    then have "(n + k) mod 32 = n - (32 - k)" using n k by (simp add: mod_if)
    moreover have "\<not> bit w (k + n)" using False bit_imp_le_length [of w "k + n"] by auto
    ultimately show ?thesis using n k False by (auto simp: rotate_right_def bit_simps)
  qed
qed

lemma as_chunks_blocks:
  "0 < n \<Longrightarrow> length xs = n * k \<Longrightarrow> as_chunks n xs = map (\<lambda>i. take n (drop (n * i) xs)) [0..<k]"
proof (induction k arbitrary: xs)
  case (Suc k)
  then have xs: "xs \<noteq> []" "length (take n xs) = n" "length (drop n xs) = n * k" by auto
  have "as_chunks n xs = take n xs # as_chunks n (drop n xs)"
    using xs Suc.prems(1) by (simp add: as_chunks_def chunks_step)
  also have "\<dots> = take n xs # map (\<lambda>i. take n (drop (n * i) (drop n xs))) [0..<k]"
    using Suc.IH [OF Suc.prems(1) xs(3)] by simp
  also have "map (\<lambda>i. take n (drop (n * i) (drop n xs))) [0..<k] = map (\<lambda>i. take n (drop (n * i) xs)) [1..<Suc k]"
    by (simp add: map_Suc_upt [symmetric] comp_def ac_simps del: upt_Suc)
  finally show ?case by (simp add: upt_conv_Cons del: upt_Suc)
qed (simp add: as_chunks_def)

lemma missing_zeros_step: "r < 64 \<Longrightarrow> r \<noteq> 56 \<Longrightarrow> missing_zeros r = Suc (missing_zeros (Suc r mod 64))"
  by (auto simp: missing_zeros_def mod_Suc)

lemma pad_zeros_replicate: "pad_zeros msg = msg @ replicate (missing_zeros (length msg mod 64)) 0"
proof (induction msg rule: pad_zeros.induct)
  case (1 msg)
  show ?case
  proof (cases "length msg mod 64 = 56")
    case True
    then show ?thesis by (simp add: pad_zeros.simps missing_zeros_def)
  next
    case False
    then have "missing_zeros (length msg mod 64) = Suc (missing_zeros (length (msg @ [0 :: u8]) mod 64))"
      using missing_zeros_step [of "length msg mod 64"] by (simp add: mod_Suc_eq)
    then show ?thesis using False 1 by (subst pad_zeros.simps) simp
  qed
qed

lemma padded_fips: "padded m = fips_pad m"
  by (simp add: padded_def fips_pad_def pad_zeros_replicate Let_def mult.commute)

lemma length_to_be_bytes [simp]: "length (to_be_bytes n w) = n"
  by (simp add: to_be_bytes_def)

lemma fips_pad_length: "length (fips_pad m) mod 64 = 0"
proof -
  have "(Suc n + missing_zeros (Suc n mod 64)) mod 64 = 56" for n :: nat
  proof -
    have "(Suc n mod 64 + missing_zeros (Suc n mod 64)) mod 64 = 56"
      using mod_less_divisor [of 64 "Suc n"] by (simp add: missing_zeros_def)
    then show ?thesis by (simp add: mod_add_left_eq)
  qed
  then have "(Suc (length m) + missing_zeros (Suc (length m) mod 64) + 8) mod 64 = 0"
    using mod_add_left_eq [of "Suc (length m) + missing_zeros (Suc (length m) mod 64)" 64 8] by simp
  then show ?thesis by (simp add: fips_pad_def ac_simps)
qed

lemma schedule_words:
  assumes "length block = 64"
  shows "map from_be_bytes (as_chunks 4 block) = map (block_word block) [0..<16]"
  using as_chunks_blocks [of 4 block 16] assms by (simp add: block_word_def comp_def)

lemma schedule_extends:
  assumes "16 \<le> n" "n \<le> 64" "length w = 64" "\<And>t. t < 16 \<Longrightarrow> w ! t = M t"
  shows "length (fold schedule_step [16..<n] w) = 64 \<and>
    (\<forall>t < n. fold schedule_step [16..<n] w ! t = fips_schedule M t)"
  using assms(1,2)
proof (induction n rule: nat_induct_at_least)
  case base
  then show ?case using assms by (simp add: fips_schedule.simps)
next
  case (Suc n)
  let ?w = "fold schedule_step [16..<n] w"
  have IH: "length ?w = 64" "\<And>t. t < n \<Longrightarrow> ?w ! t = fips_schedule M t" using Suc by auto
  have get: "get ?w (n - k) = Some (fips_schedule M (n - k))" if "0 < k" for k
    using IH Suc.hyps Suc.prems that by (simp add: get_def)
  have "schedule_step n ?w = ?w[n := fips_schedule M n]"
    using Suc.hyps fips_schedule.simps [of M n]
    by (simp add: schedule_step_def get Let_def sigma0_def sigma1_def rotate_right_rotr ac_simps)
  then have step: "fold schedule_step [16..<Suc n] w = ?w[n := fips_schedule M n]"
    using Suc.hyps by simp
  show ?case unfolding step using IH Suc.prems by (simp add: nth_list_update less_Suc_eq)
qed

lemma message_schedule_fips:
  assumes "length block = 64"
  shows "message_schedule block = map (fips_schedule (block_word block)) [0..<64]"
proof (rule nth_equalityI)
  let ?w = "map (block_word block) [0..<16] @ replicate 48 0"
  have w: "message_schedule block = fold schedule_step [16..<64] ?w"
    by (simp add: message_schedule_def schedule_words assms Let_def)
  have "length ?w = 64" "\<And>t. t < 16 \<Longrightarrow> ?w ! t = block_word block t" by (auto simp: nth_append)
  note ext = schedule_extends [of 64, OF _ _ this]
  show "length (message_schedule block) = length (map (fips_schedule (block_word block)) [0..<64])"
    using ext unfolding w by simp
  fix t assume "t < length (message_schedule block)"
  then show "message_schedule block ! t = map (fips_schedule (block_word block)) [0..<64] ! t"
    using ext unfolding w by simp
qed

lemma sha_round_fips: "sha_round (k, wi) r = fips_round (k + wi) r"
  by (simp add: sha_round_def fips_round_def Let_def Sigma0_def Sigma1_def rotate_right_rotr ac_simps
      split: prod.split)

lemma length_K: "length SHA256_K = 64"
  by (simp add: SHA256_K_def)

lemma fold_rounds:
  "length ks = length xs \<Longrightarrow> fold sha_round (zip ks xs) r = fold (\<lambda>t. fips_round (ks ! t + xs ! t)) [0..<length xs] r"
proof (induction ks xs arbitrary: r rule: list_induct2)
  case (Cons k ks x xs)
  have "fold (\<lambda>t. fips_round ((k # ks) ! t + (x # xs) ! t)) (0 # map Suc [0..<length xs]) r =
    fold (\<lambda>t. fips_round (ks ! t + xs ! t)) [0..<length xs] (fips_round (k + x) r)"
    by (simp add: fold_map comp_def)
  then show ?case using Cons.IH by (simp add: sha_round_fips upt_conv_Cons map_Suc_upt del: upt_Suc)
qed simp

lemma fold_upt_cong: "(\<And>t. t < n \<Longrightarrow> f t = g t) \<Longrightarrow> fold f [0..<n] r = fold g [0..<n] r"
  by (rule fold_cong) auto

lemma process_chunk_fips: "length block = 64 \<Longrightarrow> process_sha256_chunk block = fips_block block"
proof
  fix r assume b: "length block = 64"
  have "fold (\<lambda>t. fips_round (SHA256_K ! t + map (fips_schedule (block_word block)) [0..<64] ! t)) [0..<64] r =
    fold (\<lambda>t. fips_round (SHA256_K ! t + fips_schedule (block_word block) t)) [0..<64] r"
    by (rule fold_upt_cong) simp
  then show "process_sha256_chunk block r = fips_block block r"
    using fold_rounds [of SHA256_K "message_schedule block" r] b
    by (simp add: process_sha256_chunk_def fips_block_def message_schedule_fips length_K)
qed

lemma chunks_of_padded: "as_chunks 64 (padded m) = fips_blocks (fips_pad m)"
  using as_chunks_blocks [of 64 "fips_pad m" "length (fips_pad m) div 64"] fips_pad_length [of m]
    mult_div_mod_eq [of 64 "length (fips_pad m)"]
  by (simp add: padded_fips fips_blocks_def)

lemma block_length: "b \<in> set (fips_blocks m) \<Longrightarrow> length b = 64"
proof -
  assume "b \<in> set (fips_blocks m)"
  then obtain i where i: "i < length m div 64" "b = take 64 (drop (64 * i) m)" by (auto simp: fips_blocks_def)
  then have "64 * Suc i \<le> 64 * (length m div 64)" by (intro mult_le_mono2) simp
  also have "\<dots> \<le> length m" by simp
  finally show ?thesis using i(2) by simp
qed

section \<open>Encodings\<close>

lemma to_be_bytes_inject:
  fixes v w :: "'w::len word"
  assumes len: "LENGTH('w) = 8 * n"
  shows "to_be_bytes n v = to_be_bytes n w \<longleftrightarrow> v = w"
proof
  assume eq: "to_be_bytes n v = to_be_bytes n w"
  have bytes: "(ucast (drop_bit (8 * i) v) :: u8) = ucast (drop_bit (8 * i) w)" if "i < n" for i
    using eq that by (simp add: to_be_bytes_def rev_map [symmetric])
  show "v = w"
  proof (rule bit_word_eqI)
    fix k assume k: "k < LENGTH('w)"
    then have "k div 8 < n" using len by (simp add: less_mult_imp_div_less mult.commute)
    from bytes [OF this]
    have "bit (ucast (drop_bit (8 * (k div 8)) v) :: u8) (k mod 8) \<longleftrightarrow>
        bit (ucast (drop_bit (8 * (k div 8)) w) :: u8) (k mod 8)" by simp
    then show "bit v k \<longleftrightarrow> bit w k" by (simp add: bit_simps)
  qed
qed simp

lemma hex_digit_inject: "m < 16 \<Longrightarrow> n < 16 \<Longrightarrow> hex_digit m = hex_digit n \<longleftrightarrow> m = n"
proof -
  assume mn: "m < 16" "n < 16"
  have "hex_digit k = char_of (if k < 10 then 48 + k else 87 + k)" for k by (simp add: hex_digit_def)
  moreover have "(if k < 10 then 48 + k else 87 + k) < (256 :: nat)" if "k < 16" for k using that by simp
  ultimately show ?thesis using mn by (auto simp: char_of_eq_iff take_bit_eq_mod split: if_splits)
qed

lemma unat_byte_less: "unat (b :: u8) < 256"
  using unsigned_less [of b, where ?'a = nat] by simp

lemma hex02_inject: "hex02 a = hex02 b \<longleftrightarrow> a = b"
proof
  assume eq: "hex02 a = hex02 b"
  have lt: "unat c div 16 < 16 \<and> unat c mod 16 < 16" for c :: u8
    using unat_byte_less [of c] by auto
  have "unat a div 16 = unat b div 16" "unat a mod 16 = unat b mod 16"
    using eq lt [of a] lt [of b] hex_digit_inject by (simp_all add: hex02_def)
  then have "unat a = unat b" by (metis div_mult_mod_eq)
  then show "a = b" by (simp add: unsigned_word_eqI)
qed simp

lemma concat_hex_inject: "concat (map hex02 xs) = concat (map hex02 ys) \<longleftrightarrow> xs = ys"
proof
  show "concat (map hex02 xs) = concat (map hex02 ys) \<Longrightarrow> xs = ys"
  proof (induction xs arbitrary: ys)
    case Nil
    then show ?case by (cases ys) (auto simp: hex02_def)
  next
    case (Cons x xs)
    then obtain y ys' where ys: "ys = y # ys'" by (cases ys) (auto simp: hex02_def)
    have "length (hex02 x) = length (hex02 y)" by (simp add: hex02_def)
    then show ?case using Cons ys by (simp add: hex02_inject)
  qed
qed simp

lemma regs_bytes_length: "length (regs_bytes r) = 32"
  by (simp add: regs_bytes_def split: prod.split)

lemma hex_length: "length (concat (map hex02 bs)) = 2 * length bs"
  by (induction bs) (simp_all add: hex02_def)

lemma hex_digit_chars: "n < 16 \<Longrightarrow> hex_digit n \<in> set ''0123456789abcdef''"
proof -
  assume "n < 16"
  then have "n \<in> set [0..<16]" by simp
  moreover have "\<forall>n \<in> set [0..<16]. hex_digit n \<in> set ''0123456789abcdef''" by code_simp
  ultimately show ?thesis by blast
qed

lemma hex_chars: "set (concat (map hex02 bs)) \<subseteq> set ''0123456789abcdef''"
proof -
  have "c \<in> set ''0123456789abcdef''" if "c \<in> set (hex02 b)" for b c
  proof -
    from that have "c = hex_digit (unat b div 16) \<or> c = hex_digit (unat b mod 16)" by (simp add: hex02_def)
    then show ?thesis
      using hex_digit_chars [of "unat b div 16"] hex_digit_chars [of "unat b mod 16"] unat_byte_less [of b]
      by (elim disjE) (simp_all only: mod_less_divisor less_mult_imp_div_less)
  qed
  then show ?thesis unfolding set_concat set_map by blast
qed

section \<open>Properties\<close>

text \<open>
  C18: the digest is the SHA-256 of FIPS 180-4: padding by a loop, the schedule built in place in an
  array and the rotations by shifts compute what the standard defines by recursion on indices.
\<close>

theorem sha256_is_fips: "compute_sha256_bytes m = fips_sha256 m"
proof -
  have "fold process_sha256_chunk (fips_blocks (fips_pad m)) r = fold fips_block (fips_blocks (fips_pad m)) r" for r
    by (rule fold_cong) (simp_all add: process_chunk_fips block_length)
  then show ?thesis by (simp add: compute_sha256_bytes_def chunks_of_padded fips_sha256_def)
qed

text \<open>the digest of the three bytes \<^verbatim>\<open>abc\<close> is the one the standard publishes.\<close>

theorem sha256_test_vector:
  "compute_sha256 [97, 98, 99] = ''ba7816bf8f01cfea414140de5dae2223b00361a396177a9cb410ff61f20015ad''"
  by code_simp

text \<open>
  padding fills whole blocks and loses nothing: two messages shorter than \<open>2 ^ 61\<close> bytes with
  the same padding are the same. The loop that pads always ends.
\<close>

theorem padding_injective:
  assumes "length m < 2 ^ 61" "length m' < 2 ^ 61" "padded m = padded m'"
  shows "m = m' \<and> length (padded m) mod 64 = 0"
proof -
  let ?len = "\<lambda>m. (of_nat (8 * length m) :: u64)"
  have last: "drop (length (fips_pad m) - 8) (fips_pad m) = to_be_bytes 8 (?len m)" for m
    by (simp add: fips_pad_def)
  have "to_be_bytes 8 (?len m) = to_be_bytes 8 (?len m')"
    using last [of m] last [of m'] assms(3) unfolding padded_fips by metis
  then have "?len m = ?len m'" using to_be_bytes_inject [of 8 "?len m" "?len m'"] by simp
  then have "unat (?len m) = unat (?len m')" by simp
  moreover have "unat (?len x) = 8 * length x" if "length x < 2 ^ 61" for x :: "u8 list"
    using that by (simp only: unsigned_of_nat) (simp add: take_bit_eq_mod)
  ultimately have "length m = length m'" using assms(1,2) by simp
  moreover have "take (length x) (padded x) = x" for x by (simp add: padded_fips fips_pad_def)
  ultimately have "m = m'" using assms(3) by metis
  then show ?thesis by (simp add: padded_fips fips_pad_length)
qed

lemma padding_injective_witness: "padded [1, 2] = padded [1, 2] \<and> length (padded [1, 2]) mod 64 = 0"
  using padding_injective [of "[1, 2]" "[1, 2]"] by simp

text \<open>
  the digest string is 64 lower case hexadecimal digits, and two messages have the same string
  exactly when they have the same 32 digest bytes.
\<close>

theorem digest_string:
  "length (compute_sha256 m) = 64 \<and> set (compute_sha256 m) \<subseteq> set ''0123456789abcdef'' \<and>
   length (compute_sha256_bytes m) = 32 \<and>
   (compute_sha256 m = compute_sha256 m' \<longleftrightarrow> compute_sha256_bytes m = compute_sha256_bytes m')"
  unfolding compute_sha256_def concat_hex_inject hex_length
  by (intro conjI hex_chars refl) (simp_all add: compute_sha256_bytes_def regs_bytes_length)

end
