(* ===== verification/Rust_Tree.thy ===== *)
theory Rust_Tree
  imports File_Tree Digest
begin

text \<open>
  \<^verbatim>\<open>modular_codegen/emitters/rust_emitter/manifest.rs\<close> with the parts of
  \<^verbatim>\<open>syn_codegen.rs\<close> it uses: the digest of a generated file, the bounds, the emission of the tree
  and the manifest of a directory. The parser and printer of Rust (syn, prettyplease, ra_ap_syntax)
  are an argument.
\<close>

section \<open>Digests of Rust sources\<close>

text \<open>An item of a parsed file, with the token text of its functions.\<close>

datatype rust_item = FnItem string | ImplItem "string option list" | CountedItem | OtherItem

record 'ast RustTools =
  parse_file :: "string \<Rightarrow> string + 'ast"
  unparse_file :: "'ast \<Rightarrow> string"
  file_items :: "'ast \<Rightarrow> rust_item list"
  cst_errors :: "string \<Rightarrow> string list"
  f64_debug :: "string \<Rightarrow> string option"

fun normalize_lf :: "string \<Rightarrow> string" where
  "normalize_lf (c # d # cs) =
     (if c = CR \<and> d = LF then LF # normalize_lf cs else c # normalize_lf (d # cs))"
| "normalize_lf s = s"

record SynCodegenFixedPointReceipt =
  stage1_sha256 :: string
  stage2_sha256 :: string
  is_idempotent :: bool
  formatted_source :: string

definition format_and_verify_rust_module_ast :: "'ast RustTools \<Rightarrow> string \<Rightarrow> string + SynCodegenFixedPointReceipt" where
  "format_and_verify_rust_module_ast tools raw =
     (case parse_file tools (normalize_lf raw) of
        Inl e \<Rightarrow> Inl (''Stage-1 syn::parse_file failed: '' @ e)
      | Inr ast1 \<Rightarrow>
     (let stage1 = normalize_lf (unparse_file tools ast1) in
      case parse_file tools stage1 of
        Inl e \<Rightarrow> Inl (''Stage-2 syn::parse_file failed: '' @ e)
      | Inr ast2 \<Rightarrow>
     (let stage2 = normalize_lf (unparse_file tools ast2);
          errors = cst_errors tools stage1;
          h1 = compute_sha256 (utf8_bytes stage1); h2 = compute_sha256 (utf8_bytes stage2)
      in if errors \<noteq> [] then Inl (''ra_ap_syntax CST validation failed on formatted output: '' @ join ''; '' errors)
         else if h1 \<noteq> h2 then Inl (''Non-idempotent AST unparse: stage1='' @ h1 @ '' != stage2='' @ h2)
         else Inr \<lparr>stage1_sha256 = h1, stage2_sha256 = h2, is_idempotent = True, formatted_source = stage1\<rparr>)))"

definition count_fn :: "string \<Rightarrow> nat \<times> nat \<Rightarrow> nat \<times> nat" where
  "count_fn code_text = (\<lambda>(max_vg, n). (max max_vg (estimate_rust_fn_cyclomatic_complexity code_text), Suc n))"

fun count_item :: "rust_item \<Rightarrow> nat \<times> nat \<Rightarrow> nat \<times> nat" where
  "count_item (FnItem c) st = count_fn c st"
| "count_item (ImplItem ms) (max_vg, n) =
     fold (\<lambda>m st. case m of Some c \<Rightarrow> count_fn c st | None \<Rightarrow> st) ms (max_vg, Suc n)"
| "count_item CountedItem (max_vg, n) = (max_vg, Suc n)"
| "count_item OtherItem st = st"

definition digest_rust_source ::
  "'ast RustTools \<Rightarrow> string \<Rightarrow> string \<Rightarrow> ModularityDiagnostic + GeneratedFileDigest" where
  "digest_rust_source tools rel src =
     (case parse_file tools src of
        Inl e \<Rightarrow> Inl (new_diagnostic BoundsViolationE0704 rel (''syn::parse_file failed: '' @ e))
      | Inr syn_file \<Rightarrow>
     (case format_and_verify_rust_module_ast tools src of
        Inl e \<Rightarrow> Inl (new_diagnostic FixedPointDriftE0705 rel e)
      | Inr _ \<Rightarrow>
     (let (max_vg, item_count) = fold count_item (file_items tools syn_file) (1, 0)
      in Inr \<lparr>file_relative_path = rel, file_sha256 = compute_sha256 (utf8_bytes src),
              file_line_count = length (lines src), file_item_count = item_count,
              file_max_cyclomatic_complexity = max_vg\<rparr>)))"

section \<open>The files of a module graph\<close>

type_synonym SynthesizedRustUnit = "string \<times> string \<times> GeneratedFileDigest"

definition within_bounds :: "ModularityBounds \<Rightarrow> GeneratedFileDigest \<Rightarrow> bool" where
  "within_bounds bounds d \<longleftrightarrow>
     file_line_count d \<le> max_file_lines bounds \<and> file_item_count d \<le> max_items_per_file bounds \<and>
     file_max_cyclomatic_complexity d \<le> max_cyclomatic_complexity bounds"

definition bounds_diagnostic :: "ModularityBounds \<Rightarrow> string \<Rightarrow> GeneratedFileDigest \<Rightarrow> ModularityDiagnostic" where
  "bounds_diagnostic bounds rel d =
     new_diagnostic BoundsViolationE0704 rel
       (''bounds exceeded: lines='' @ decimal (file_line_count d) @ ''/'' @ decimal (max_file_lines bounds)
        @ '', items='' @ decimal (file_item_count d) @ ''/'' @ decimal (max_items_per_file bounds)
        @ '', max_vg='' @ decimal (file_max_cyclomatic_complexity d) @ ''/'' @ decimal (max_cyclomatic_complexity bounds))"

definition units_by_path :: "CompilationUnit list \<Rightarrow> (string, CompilationUnit) btree_map" where
  "units_by_path us = bt_collect (map (\<lambda>u. (relative_path u, u)) us)"

definition synthesize_unit ::
  "'ast RustTools \<Rightarrow> ModularityBounds \<Rightarrow> string \<times> CompilationUnit \<Rightarrow>
     SynthesizedRustUnit list \<times> ModularityDiagnostic list \<Rightarrow> SynthesizedRustUnit list \<times> ModularityDiagnostic list" where
  "synthesize_unit tools bounds = (\<lambda>(rel, u) (out, diags).
     (let src = render_unit (f64_debug tools) u
      in case digest_rust_source tools rel src of
           Inr d \<Rightarrow> (out @ [(rel, src, d)], if within_bounds bounds d then diags else diags @ [bounds_diagnostic bounds rel d])
         | Inl e \<Rightarrow> (out, diags @ [e])))"

definition synthesize_modular_rust_files ::
  "'ast RustTools \<Rightarrow> ModuleGraph \<Rightarrow> ModularityBounds \<Rightarrow> ModularityDiagnostic list + SynthesizedRustUnit list" where
  "synthesize_modular_rust_files tools graph bounds =
     (let (out, diags) = fold (synthesize_unit tools bounds) (units_by_path (graph_units graph)) ([], [])
      in if diags \<noteq> [] then Inl diags else Inr out)"

section \<open>Stage manifests\<close>

record StageTreeDigestManifest =
  file_digests :: "(string, string) btree_map"
  aggregate_sha256 :: string

definition new_stage_manifest :: "(string, string) btree_map \<Rightarrow> StageTreeDigestManifest" where
  "new_stage_manifest fds =
     \<lparr>file_digests = fds,
      aggregate_sha256 = compute_sha256 (utf8_bytes (concat (map (\<lambda>(p, d). p @ '':'' @ d @ [LF]) fds)))\<rparr>"

definition hex_lower :: "nat \<Rightarrow> string" where
  "hex_lower n = (if n < 16 then [''0123456789abcdef'' ! n] else [''0123456789abcdef'' ! (n div 16), ''0123456789abcdef'' ! (n mod 16)])"

text \<open>\<^verbatim>\<open>{:?}\<close> of a string and of an optional string.\<close>

definition debug_char :: "char \<Rightarrow> string" where
  "debug_char c =
     (if c = CHR 0x00 then [BS, CHR ''0''] else if c = CHR 0x09 then [BS, CHR ''t''] else if c = CR then [BS, CHR ''r'']
      else if c = LF then [BS, CHR ''n''] else if c = DQ then [BS, DQ] else if c = BS then [BS, BS]
      else if 32 \<le> code c \<and> code c < 127 \<or> 160 < code c \<and> code c \<noteq> 173 then [c]
      else BS # ''u{'' @ hex_lower (code c) @ ''}'')"

definition debug_option :: "string option \<Rightarrow> string" where
  "debug_option x = (case x of None \<Rightarrow> ''None'' | Some s \<Rightarrow> ''Some('' @ DQ # concat (map debug_char s) @ DQ # '')'')"

definition drifted_paths :: "StageTreeDigestManifest \<Rightarrow> StageTreeDigestManifest \<Rightarrow> string list" where
  "drifted_paths s1 s2 =
     filter (\<lambda>p. bt_get (file_digests s1) p \<noteq> bt_get (file_digests s2) p)
       (bs_collect (bt_keys (file_digests s1) @ bt_keys (file_digests s2)))"

definition verify_stage_fixed_point ::
  "StageTreeDigestManifest \<Rightarrow> StageTreeDigestManifest \<Rightarrow> string \<Rightarrow> string + bool" where
  "verify_stage_fixed_point s1 s2 label =
     (if aggregate_sha256 s1 = [] \<or> aggregate_sha256 s2 = [] then
        Inl (''DEAP-E0705: empty fixed-point digest in stage '' @ SQ # label @ [SQ])
      else
        (let drift = drifted_paths s1 s2;
             first = (case drift of [] \<Rightarrow> []
               | p # _ \<Rightarrow> ''mismatch in '' @ SQ # p @ SQ # '': stage1='' @ debug_option (bt_get (file_digests s1) p)
                   @ '' != stage2='' @ debug_option (bt_get (file_digests s2) p))
         in if drift \<noteq> [] \<or> aggregate_sha256 s1 \<noteq> aggregate_sha256 s2 then
              Inl (''DEAP-E0705: Stage fixed-point drift in '' @ SQ # label @ SQ # '': '' @ decimal (length drift)
                   @ '' mismatched files ('' @ first @ '')'')
            else Inr True))"

section \<open>Emission and audit\<close>

record ModularRustOptions =
  target_dir :: string
  dry_run :: bool
  opt_bounds :: ModularityBounds

text \<open>The loop that writes the files stops at the first failure; the text of an I/O error is not modelled.\<close>

fun write_units :: "SynthesizedRustUnit list \<Rightarrow> directory \<Rightarrow> directory \<times> (ModularityDiagnostic list + unit)" where
  "write_units [] dir = (dir, Inr ())"
| "write_units ((rel, src, d) # us) dir =
     (case write_atomic (path_components rel) src dir of
        Some dir' \<Rightarrow> write_units us dir'
      | None \<Rightarrow> (dir, Inl [new_diagnostic BoundsViolationE0704 rel ''atomic write failed: I/O error'']))"

definition tree_manifest :: "GeneratedFileDigest list \<Rightarrow> GeneratedTreeManifest" where
  "tree_manifest files =
     \<lparr>manifest_files = files,
      tree_sha256 = compute_sha256 (utf8_bytes (concat (map (\<lambda>d. file_relative_path d @ '':'' @ file_sha256 d @ [LF]) files)))\<rparr>"

definition stage_map :: "SynthesizedRustUnit list \<Rightarrow> (string, string) btree_map" where
  "stage_map us = bt_collect (map (\<lambda>(rel, _, d). (rel, file_sha256 d)) us)"

definition emit_modular_rust_tree ::
  "'ast RustTools \<Rightarrow> PackageDef \<Rightarrow> ModularRustOptions \<Rightarrow> directory \<Rightarrow>
     (directory \<times> (ModularityDiagnostic list + GeneratedTreeManifest)) option" where
  "emit_modular_rust_tree tools pkg options dir =
     (case lower_package_to_module_graph pkg (opt_bounds options) of
        None \<Rightarrow> None
      | Some (Inl diags) \<Rightarrow> Some (dir, Inl diags)
      | Some (Inr graph) \<Rightarrow>
     (case synthesize_modular_rust_files tools graph (opt_bounds options) of
        Inl diags \<Rightarrow> Some (dir, Inl diags)
      | Inr us \<Rightarrow>
     (case verify_stage_fixed_point (new_stage_manifest (stage_map us)) (new_stage_manifest (stage_map us)) ''emit_modular_rust_tree'' of
        Inl e \<Rightarrow> Some (dir, Inl [new_diagnostic FixedPointDriftE0705 ''emit_modular_rust_tree'' e])
      | Inr _ \<Rightarrow>
     (let (dir', written) = (if dry_run options then (dir, Inr ()) else write_units us dir)
      in case written of
           Inl diags \<Rightarrow> Some (dir', Inl diags)
         | Inr _ \<Rightarrow> Some (dir', Inr (tree_manifest (map (\<lambda>(_, _, d). d) us)))))))"

text \<open>\<^verbatim>\<open>collect::<Result<Vec<_>, _>>\<close>: the first error, or all values.\<close>

fun collect_results :: "('e + 'a) list \<Rightarrow> 'e + 'a list" where
  "collect_results [] = Inr []"
| "collect_results (Inl e # rs) = Inl e"
| "collect_results (Inr x # rs) = (case collect_results rs of Inl e \<Rightarrow> Inl e | Inr xs \<Rightarrow> Inr (x # xs))"

definition compute_directory_tree_manifest ::
  "'ast RustTools \<Rightarrow> directory \<Rightarrow> ModularityDiagnostic + GeneratedTreeManifest" where
  "compute_directory_tree_manifest tools dir =
     (case collect_results (map (\<lambda>(rel, src). digest_rust_source tools rel src) (scanned_files dir)) of
        Inl e \<Rightarrow> Inl e
      | Inr files \<Rightarrow> Inr (tree_manifest files))"


section \<open>The paths of the units\<close>

definition plain_name :: "string \<Rightarrow> bool" where
  "plain_name s \<longleftrightarrow> s \<noteq> [] \<and> (\<forall>c \<in> set s. c \<noteq> CHR ''/'' \<and> c \<noteq> CHR ''.'')"

definition plain_dir :: "string \<Rightarrow> bool" where
  "plain_dir d \<longleftrightarrow> (\<exists>segs. d = join ''/'' segs \<and> (\<forall>s \<in> set segs. plain_name s))"

definition rust_path :: "string \<Rightarrow> bool" where
  "rust_path p \<longleftrightarrow> (\<exists>d leaf. p = join_rel d (leaf @ ''.rs'') \<and> plain_dir d \<and> plain_name leaf)"

lemma slug_plain: "plain_name (to_snake_slug s)"
proof -
  let ?s = "to_snake_slug s"
  have "c = CHR ''_'' \<or> slug_char c" if "c \<in> set ?s" for c
  proof (rule ccontr)
    assume no: "\<not> (c = CHR ''_'' \<or> slug_char c)"
    have "join ''_'' (split_by (\<lambda>c. c = CHR ''_'') ?s) = ?s" by (rule join_split_by)
    with that have "c \<in> set (join ''_'' (split_by (\<lambda>c. c = CHR ''_'') ?s))" by simp
    moreover have "set (join ''_'' xs) \<subseteq> {CHR ''_''} \<union> \<Union> (set ` set xs)" for xs
      by (induction "''_''" xs rule: join.induct) auto
    ultimately show False using no to_snake_slug_ok [of s] by (auto simp: slug_ok_def list_all_iff)
  qed
  moreover have "\<not> slug_char (CHR ''/'')" "\<not> slug_char (CHR ''.'')" by code_simp+
  ultimately show ?thesis using slug_nonempty [of s] unfolding plain_name_def by fastforce
qed


lemma plain_dir_Nil [simp]: "plain_dir []"
  by (auto simp: plain_dir_def intro: exI [of _ "[]"])

lemma plain_dir_sub:
  assumes "plain_dir d" "plain_name s"
  shows "plain_dir (join_rel d s)"
proof -
  obtain segs where segs: "d = join ''/'' segs" "\<forall>s \<in> set segs. plain_name s" using assms(1) by (auto simp: plain_dir_def)
  have "join_rel d s = join ''/'' (segs @ [s])"
  proof (cases segs)
    case (Cons x xs)
    then have "join ''/'' segs \<noteq> []" using segs(2) by (cases xs) (auto simp: plain_name_def)
    with Cons segs(1) show ?thesis by (simp add: join_snoc join_rel_def del: append_Cons)
  qed (simp add: segs(1) join_rel_def)
  then show ?thesis using segs(2) assms(2) unfolding plain_dir_def by (intro exI [of _ "segs @ [s]"]) simp
qed

lemma rust_path_leaf: "plain_dir d \<Longrightarrow> plain_name leaf \<Longrightarrow> p = join_rel d (leaf @ ''.rs'') \<Longrightarrow> rust_path p"
  by (auto simp: rust_path_def)

lemma numbered_plain: "plain_name stem \<Longrightarrow> plain_name (stem @ CHR ''_'' # decimal02 n)"
  using decimal02_digits [of _ n] digit_plain by (auto simp: plain_name_def)

lemma shards_plain:
  "plain_name stem \<Longrightarrow> (m, c) \<in> set (facet_shards stem n xs) \<Longrightarrow> plain_name m"
  "plain_name stem \<Longrightarrow> (m, c) \<in> set (numbered_shards stem n xs) \<Longrightarrow> plain_name m"
  by (auto simp: facet_shards_def numbered_shards_def shard_facet_name_def numbered_plain split: if_splits)

lemma stems_plain:
  "plain_name ''mod''" "plain_name ''model''" "plain_name ''states''" "plain_name ''handlers''" "plain_name ''stages''"
  "plain_name ''ports''" "plain_name ''calcs''" "plain_name ''invariants''"
  by (simp_all add: plain_name_def)

lemma leaf_paths:
  assumes "plain_dir d"
  shows "rust_path (join_rel d ''mod.rs'')" "rust_path (join_rel d ''model.rs'')" "rust_path (join_rel d ''states.rs'')"
    "rust_path (join_rel d (to_snake_slug s @ ''.rs''))"
    "(m, c) \<in> set (facet_shards stem n xs) \<Longrightarrow> plain_name stem \<Longrightarrow> rust_path (join_rel d (m @ ''.rs''))"
    "(m, c') \<in> set (numbered_shards stem n ys) \<Longrightarrow> plain_name stem \<Longrightarrow> rust_path (join_rel d (m @ ''.rs''))"
proof -
  show "rust_path (join_rel d ''mod.rs'')" by (rule rust_path_leaf [OF assms stems_plain(1)]) simp
  show "rust_path (join_rel d ''model.rs'')" by (rule rust_path_leaf [OF assms stems_plain(2)]) simp
  show "rust_path (join_rel d ''states.rs'')" by (rule rust_path_leaf [OF assms stems_plain(3)]) simp
qed (rule rust_path_leaf [OF assms _ refl], blast intro: slug_plain shards_plain)+

lemma package_rust_paths:
  assumes "\<forall>s \<in> set path. plain_name s" "u \<in> set (partition_single_package pkg path bounds)"
  shows "rust_path (relative_path u)"
proof -
  have d: "plain_dir (join ''/'' path)" using assms(1) unfolding plain_dir_def by blast
  note sub = plain_dir_sub [OF d slug_plain]
  have part: "\<forall>u \<in> set (fst (partition_part_facets p ctx)). rust_path (relative_path u)"
    if "ctx_pkg_dir ctx = join ''/'' path" for p ctx
    using that by (auto simp: part_unit_defs leaf_paths [OF sub] stems_plain)
  have act: "\<forall>u \<in> set (fst (emit_action_units a ctx)). rust_path (relative_path u)"
    if "ctx_pkg_dir ctx = join ''/'' path" for a ctx
    using that by (auto simp: emit_action_units_def Let_def case_prod_unfold leaf_paths [OF sub] leaf_paths [OF d] stems_plain)
  have st: "\<forall>u \<in> set (fst (emit_state_units a ctx)). rust_path (relative_path u)"
    if "ctx_pkg_dir ctx = join ''/'' path" for a ctx
    using that by (auto simp: emit_state_units_def Let_def case_prod_unfold leaf_paths [OF sub] leaf_paths [OF d] stems_plain)
  let ?ctx = "\<lparr>ctx_pkg_dir = join ''/'' path, ctx_pkg_path = path, ctx_layer = resolve_part_layer None path, ctx_bounds = bounds\<rparr>"
  have ctx: "ctx_pkg_dir ?ctx = join ''/'' path" by simp
  show ?thesis using assms(2) part [OF ctx] act [OF ctx] st [OF ctx]
    by (auto simp: partition_single_package_def Let_def standalone_port_def standalone_calc_def leaf_paths [OF d])
qed


lemma package_paths_plain:
  "(\<forall>x \<in> set stack. \<forall>s \<in> set (snd x). plain_name s) \<Longrightarrow> x \<in> set (pop_paths stack) \<Longrightarrow> \<forall>s \<in> set (snd x). plain_name s"
proof (induction stack rule: pop_paths.induct)
  case (2 y stack)
  have "\<forall>x \<in> set (sub_packages y @ stack). \<forall>s \<in> set (snd x). plain_name s"
    using 2(2) slug_plain by (auto simp: sub_packages_def child_path_def split: prod.splits)
  then show ?case using 2 by auto
qed simp

lemma graph_rust_paths:
  assumes "u \<in> set (partition_packages root bounds)"
  shows "rust_path (relative_path u)"
proof -
  obtain pkg path where p: "(pkg, path) \<in> set (package_paths root)" "u \<in> set (partition_single_package pkg path bounds)"
    using assms by (auto simp: partition_packages_def)
  then show ?thesis using package_paths_plain [OF _ p(1) [unfolded package_paths_def]] by (intro package_rust_paths) auto
qed

text \<open>Such a path is given back by joining its components, and its last component is a Rust file.\<close>

lemma rust_path_components:
  assumes "rust_path p"
  shows "join ''/'' (path_components p) = p \<and> has_rs_extension (last (path_components p))"
proof -
  obtain segs leaf where p: "p = join_rel (join ''/'' segs) (leaf @ ''.rs'')" and segs: "\<forall>s \<in> set segs. plain_name s"
    and leaf: "plain_name leaf" using assms by (auto simp: rust_path_def plain_dir_def)
  let ?P = "\<lambda>c. c = CHR ''/''"
  let ?cs = "segs @ [leaf @ ''.rs'']"
  have j: "p = join ''/'' ?cs"
  proof (cases segs)
    case (Cons x xs)
    then have "join ''/'' segs \<noteq> []" using segs by (cases xs) (auto simp: plain_name_def)
    with Cons p show ?thesis by (simp add: join_snoc join_rel_def del: append_Cons)
  qed (simp add: p join_rel_def)
  have "split_by ?P (join ''/'' ?cs) = ?cs"
  proof (rule split_by_join)
    have "\<forall>x \<in> set segs. \<forall>c \<in> set x. c \<noteq> CHR ''/''" "\<forall>c \<in> set leaf. c \<noteq> CHR ''/''"
      using segs leaf unfolding plain_name_def by blast+
    then show "\<forall>x \<in> set ?cs. \<forall>c \<in> set x. \<not> c = CHR ''/''" by auto
  qed simp_all
  moreover have "filter (\<lambda>c. c \<noteq> [] \<and> c \<noteq> ''.'') ?cs = ?cs"
  proof -
    have "s \<noteq> [] \<and> s \<noteq> ''.''" if "s \<in> set segs" for s using segs that by (fastforce simp: plain_name_def)
    moreover have "leaf \<noteq> []" using leaf by (simp add: plain_name_def)
    ultimately show ?thesis by (simp add: filter_id_conv append_eq_Cons_conv)
  qed
  ultimately have "path_components p = ?cs" by (simp only: path_components_def j)
  then show ?thesis using leaf j by (auto simp: has_rs_extension_def ends_with_def plain_name_def)
qed


section \<open>Emission, read back\<close>

lemma collect_results_map:
  "\<forall>x \<in> set xs. f x = Inr (g x) \<Longrightarrow> collect_results (map f xs) = Inr (map g xs)"
  by (induction xs) auto

definition unit_source :: "'ast RustTools \<Rightarrow> string \<times> CompilationUnit \<Rightarrow> string \<times> string" where
  "unit_source tools = (\<lambda>(rel, u). (rel, render_unit (f64_debug tools) u))"

definition source_of :: "SynthesizedRustUnit \<Rightarrow> string \<times> string" where
  "source_of = (\<lambda>(rel, src, _). (rel, src))"

definition digest_of :: "SynthesizedRustUnit \<Rightarrow> GeneratedFileDigest" where
  "digest_of = (\<lambda>(_, _, d). d)"

definition unit_ok :: "'ast RustTools \<Rightarrow> ModularityBounds \<Rightarrow> SynthesizedRustUnit \<Rightarrow> bool" where
  "unit_ok tools bounds = (\<lambda>(rel, src, d). digest_rust_source tools rel src = Inr d \<and> within_bounds bounds d)"

lemma synthesize_fold:
  "fold (synthesize_unit tools bounds) xs (out, diags) = (out', []) \<Longrightarrow>
     diags = [] \<and> (\<exists>new. out' = out @ new \<and> map source_of new = map (unit_source tools) xs \<and>
       (\<forall>x \<in> set new. unit_ok tools bounds x))"
proof (induction xs arbitrary: out diags)
  case (Cons x xs)
  obtain out1 diags1 where one: "synthesize_unit tools bounds x (out, diags) = (out1, diags1)" by fastforce
  with Cons.prems have "fold (synthesize_unit tools bounds) xs (out1, diags1) = (out', [])" by simp
  from Cons.IH [OF this] obtain new where new: "diags1 = []" "out' = out1 @ new"
    "map source_of new = map (unit_source tools) xs" "\<forall>x \<in> set new. unit_ok tools bounds x" by blast
  obtain rel u where x: "x = (rel, u)" by (cases x)
  from one new(1) obtain d where "digest_rust_source tools rel (render_unit (f64_debug tools) u) = Inr d"
    "within_bounds bounds d" "diags = []" "out1 = out @ [(rel, render_unit (f64_debug tools) u, d)]"
    by (auto simp: x synthesize_unit_def Let_def split: sum.splits if_splits)
  then show ?case using new
    by (intro conjI exI [of _ "(rel, render_unit (f64_debug tools) u, d) # new"])
      (simp_all add: x unit_ok_def source_of_def unit_source_def)
qed simp

lemma synthesize_ok:
  "synthesize_modular_rust_files tools graph bounds = Inr us \<Longrightarrow>
     map source_of us = map (unit_source tools) (units_by_path (graph_units graph)) \<and>
     (\<forall>x \<in> set us. unit_ok tools bounds x)"
  by (auto simp: synthesize_modular_rust_files_def Let_def split: prod.splits if_splits dest!: synthesize_fold)

lemma digest_nonempty: "compute_sha256 bs \<noteq> []"
proof -
  have "length (compute_sha256 bs) = 64"
    by (simp add: compute_sha256_def hex_length compute_sha256_bytes_def regs_bytes_length)
  then show ?thesis by auto
qed

lemma stage_fixed_point_self: "verify_stage_fixed_point (new_stage_manifest m) (new_stage_manifest m) label = Inr True"
  by (simp add: verify_stage_fixed_point_def new_stage_manifest_def drifted_paths_def digest_nonempty Let_def)

lemma write_units_files:
  "write_units us dir = (dir', Inr ()) \<Longrightarrow> tidy dir \<Longrightarrow>
     tidy dir' \<and> file_at dir' q =
       (case map_of (rev (map (\<lambda>x. (path_components (fst x), fst (snd x))) us)) q of Some c \<Rightarrow> Some c | None \<Rightarrow> file_at dir q)"
proof (induction us dir rule: write_units.induct)
  case (2 rel src d us dir)
  then obtain dir1 where w: "write_atomic (path_components rel) src dir = Some dir1" "write_units us dir1 = (dir', Inr ())"
    by (auto split: option.splits)
  from 2(1) [OF w write_atomic_tidy [OF w(1) 2(3)]] show ?case
    by (auto simp: file_at_write [OF w(1)] map_add_def split: option.splits)
qed simp

lemma bt_same_entries:
  assumes "bt_sorted m" "bt_sorted m'" "set m = set m'"
  shows "m = m'"
proof (rule map_sorted_distinct_set_unique [of fst])
  show "inj_on fst (set m \<union> set m')"
    using bt_distinct [OF assms(2)] by (simp add: assms(3) bt_keys_def distinct_map)
qed (use assms bt_distinct in \<open>auto simp: bt_sorted_def bt_keys_def strict_sorted_iff\<close>)

lemma map_of_same_entries:
  assumes "set kvs = set m" "distinct (map fst m)"
  shows "map_of kvs k = map_of m k"
proof (cases "map_of kvs k")
  case None
  then have "k \<notin> fst ` set m" using assms(1) by (metis map_of_eq_None_iff)
  then have "map_of m k = None" by (simp add: map_of_eq_None_iff)
  with None show ?thesis by simp
next
  case (Some v)
  then have "(k, v) \<in> set m" using assms(1) map_of_SomeD by metis
  then show ?thesis using Some assms(2) by simp
qed

lemma scanned_written:
  assumes w: "write_units us [] = (dir, Inr ())"
    and paths: "\<forall>x \<in> set us. rust_path (fst x)" and sorted: "bt_sorted (map source_of us)"
  shows "scanned_files dir = map source_of us \<and>
    (\<forall>x \<in> set us. file_at dir (path_components (fst x)) = Some (fst (snd x)))"
proof -
  let ?files = "concat (map rs_files (pop_directories [([], dir)]))"
  let ?comps = "map (\<lambda>x. (path_components (fst x), fst (snd x))) us"
  have "file_at [] q = None" for q by (cases "([]::directory, q)" rule: file_at.cases) auto
  then have at: "file_at dir q = map_of (rev ?comps) q" and t: "tidy dir" for q
    using write_units_files [OF w] by (auto split: option.splits)
  have dist: "distinct (map fst us)" using bt_distinct [OF sorted] by (simp add: bt_keys_def comp_def source_of_def case_prod_unfold)
  have inj: "inj_on path_components (fst ` set us)"
    by (rule inj_on_inverseI [of _ "join ''/''"]) (use paths rust_path_components in auto)
  have "distinct (map path_components (map fst us))" using dist inj by (simp add: distinct_map comp_inj_on)
  then have "map_of (rev ?comps) = map_of ?comps"
    by (intro ext map_of_same_entries) (simp_all add: comp_def)
  with at have at: "file_at dir q = Some c \<longleftrightarrow> (q, c) \<in> set ?comps" for q c
    using \<open>distinct (map path_components (map fst us))\<close> by (simp add: comp_def)
  have "(q, c) \<in> set ?files \<longleftrightarrow> file_at dir q = Some c \<and> has_rs_extension (last q)" for q c
    using preorder_files [of "([], dir)" q c] t by (simp add: dir_tree.walk_preorder)
  moreover have "has_rs_extension (last q)" if "(q, c) \<in> set ?comps" for q c
    using that paths rust_path_components by auto
  ultimately have "(q, c) \<in> set ?files \<longleftrightarrow> (q, c) \<in> set ?comps" for q c using at by blast
  then have files: "set ?files = set ?comps" by (intro subset_antisym subrelI) simp_all
  have "set (map (\<lambda>(p, c). (join ''/'' p, c)) ?files) = set (map source_of us)"
    unfolding set_map files using paths rust_path_components
    by (force simp: source_of_def)
  then have kvs: "set (rev (map (\<lambda>(p, c). (join ''/'' p, c)) ?files)) = set (map source_of us)" by (simp only: set_rev)
  have "distinct (map fst (map source_of us))" using bt_distinct [OF sorted] by (simp add: bt_keys_def)
  then have "bt_get (scanned_files dir) k = bt_get (map source_of us) k" for k
    unfolding scanned_files_def bt_get_collect using map_of_same_entries [OF kvs] by (simp add: bt_get_def)
  moreover have "bt_sorted (scanned_files dir)" by (simp add: scanned_files_def)
  ultimately have "scanned_files dir = map source_of us"
    using sorted by (intro bt_same_entries subset_antisym subrelI) (simp_all only: bt_get_entry [symmetric])
  moreover have "file_at dir (path_components (fst x)) = Some (fst (snd x))" if "x \<in> set us" for x
    unfolding at using that by (force simp: image_iff)
  ultimately show ?thesis by blast
qed


lemma digest_fields:
  "digest_rust_source tools rel src = Inr d \<Longrightarrow>
     file_relative_path d = rel \<and> file_sha256 d = compute_sha256 (utf8_bytes src)"
  by (auto simp: digest_rust_source_def split: sum.splits prod.splits)

lemma emit_success:
  assumes "emit_modular_rust_tree tools pkg options dir = Some (dir', Inr m)"
  shows "\<exists>graph us. lower_package_to_module_graph pkg (opt_bounds options) = Some (Inr graph) \<and>
    synthesize_modular_rust_files tools graph (opt_bounds options) = Inr us \<and>
    (dir', Inr ()) = (if dry_run options then (dir, Inr ()) else write_units us dir) \<and>
    m = tree_manifest (map digest_of us)"
  using assms
  by (auto simp: emit_modular_rust_tree_def stage_fixed_point_self digest_of_def Let_def
      split: option.splits sum.splits prod.splits if_splits)

lemma emit_steps:
  assumes "lower_package_to_module_graph pkg (opt_bounds options) = Some (Inr graph)"
    "synthesize_modular_rust_files tools graph (opt_bounds options) = Inr us"
    "\<not> dry_run options" "write_units us dir = (dir', Inr ())"
  shows "emit_modular_rust_tree tools pkg options dir = Some (dir', Inr (tree_manifest (map digest_of us)))"
  using assms by (simp add: emit_modular_rust_tree_def stage_fixed_point_self digest_of_def)

lemma lowered_units: "lower_package_to_module_graph pkg bounds = Some (Inr graph) \<Longrightarrow> graph_units graph = partition_packages pkg bounds"
  by (auto simp: lower_package_to_module_graph_def Let_def split: prod.splits option.splits sum.splits)

text \<open>
  C23: what is emitted can be audited. After an emission into an empty directory that succeeds, the
  manifest computed from the files on disk is the manifest that was returned, so the two pass the
  fixed-point check; its files are sorted by path without duplicates, each is within the bounds,
  and each digest is that of the file found under its path.
\<close>

theorem emit_then_audit:
  assumes "emit_modular_rust_tree tools pkg options [] = Some (dir, Inr m)" "\<not> dry_run options"
  shows "compute_directory_tree_manifest tools dir = Inr m \<and>
    sorted_wrt (<) (map file_relative_path (manifest_files m)) \<and>
    (\<forall>f \<in> set (manifest_files m). within_bounds (opt_bounds options) f \<and>
       (\<exists>src. file_at dir (path_components (file_relative_path f)) = Some src \<and>
          file_sha256 f = compute_sha256 (utf8_bytes src)))"
proof -
  obtain graph us where lower: "lower_package_to_module_graph pkg (opt_bounds options) = Some (Inr graph)"
    and synth: "synthesize_modular_rust_files tools graph (opt_bounds options) = Inr us"
    and wrote: "write_units us [] = (dir, Inr ())" and m: "m = tree_manifest (map digest_of us)"
    using emit_success [OF assms(1)] assms(2) by auto
  let ?units = "units_by_path (partition_packages pkg (opt_bounds options))"
  have src: "map source_of us = map (unit_source tools) ?units" and ok: "\<forall>x \<in> set us. unit_ok tools (opt_bounds options) x"
    using synthesize_ok [OF synth] lowered_units [OF lower] by simp_all
  have keys: "bt_keys (map source_of us) = bt_keys ?units"
    unfolding src by (simp add: bt_keys_def unit_source_def comp_def case_prod_unfold)
  have sorted: "bt_sorted (map source_of us)"
    unfolding bt_sorted_def keys by (simp add: bt_sorted_def [symmetric] units_by_path_def)
  have "fst x \<in> set (bt_keys ?units)" if "x \<in> set us" for x
    unfolding keys [symmetric] using that by (auto simp: bt_keys_def source_of_def case_prod_unfold)
  then have "fst x \<in> relative_path ` set (partition_packages pkg (opt_bounds options))" if "x \<in> set us" for x
    using that by (simp add: units_by_path_def bt_keys_collect image_image)
  then have paths: "\<forall>x \<in> set us. rust_path (fst x)" using graph_rust_paths by fastforce
  note written = scanned_written [OF wrote paths sorted]
  have dig: "digest_rust_source tools (fst x) (fst (snd x)) = Inr (digest_of x) \<and> file_relative_path (digest_of x) = fst x \<and>
      file_sha256 (digest_of x) = compute_sha256 (utf8_bytes (fst (snd x))) \<and> within_bounds (opt_bounds options) (digest_of x)"
    if "x \<in> set us" for x
  proof -
    have "unit_ok tools (opt_bounds options) x" using ok that by blast
    then show ?thesis using digest_fields [of tools "fst x" "fst (snd x)" "digest_of x"]
      by (simp add: unit_ok_def digest_of_def case_prod_unfold)
  qed
  have audit: "compute_directory_tree_manifest tools dir = Inr m"
    unfolding compute_directory_tree_manifest_def conjunct1 [OF written] map_map m
    using collect_results_map [of us "(\<lambda>(rel, src). digest_rust_source tools rel src) \<circ> source_of" digest_of] dig
    by (simp add: source_of_def case_prod_unfold)
  have "map file_relative_path (manifest_files m) = bt_keys (map source_of us)"
    using dig by (simp add: m tree_manifest_def bt_keys_def source_of_def case_prod_unfold)
  moreover have "manifest_files m = map digest_of us" by (simp add: m tree_manifest_def)
  ultimately show ?thesis using audit sorted dig written by (auto simp: bt_sorted_def)
qed


definition plain_tools :: "string RustTools" where
  "plain_tools = \<lparr>parse_file = Inr, unparse_file = (\<lambda>_. ''x''), file_items = (\<lambda>_. []),
     cst_errors = (\<lambda>_. []), f64_debug = (\<lambda>_. None)\<rparr>"

definition example_options :: ModularRustOptions where
  "example_options = \<lparr>target_dir = ''out'', dry_run = False, opt_bounds = canonical_bounds\<rparr>"

definition empty_model :: PackageDef where
  "empty_model = example_package ''top'' [] [] []"

lemma plain_digest:
  "digest_rust_source plain_tools rel src =
     Inr \<lparr>file_relative_path = rel, file_sha256 = compute_sha256 (utf8_bytes src),
          file_line_count = length (lines src), file_item_count = 0, file_max_cyclomatic_complexity = 1\<rparr>"
  by (simp add: digest_rust_source_def format_and_verify_rust_module_ast_def plain_tools_def Let_def)

lemma empty_units: "units_by_path (partition_packages empty_model canonical_bounds) =
    [(''mod.rs'', (empty_unit ''::mod'' ''mod.rs'' [] Domain BarrelFacade))]"
  by code_simp

lemma empty_synthesis:
  assumes "graph_units graph = partition_packages empty_model canonical_bounds"
  shows "\<exists>src d. synthesize_modular_rust_files plain_tools graph canonical_bounds = Inr [(''mod.rs'', src, d)]"
proof -
  have "length (lines (render_unit (\<lambda>_. None) (empty_unit ''::mod'' ''mod.rs'' [] Domain BarrelFacade))) = 11" by code_simp
  moreover have "f64_debug plain_tools = (\<lambda>_. None)" by (simp add: plain_tools_def)
  ultimately show ?thesis
    unfolding synthesize_modular_rust_files_def assms empty_units
    by (simp add: synthesize_unit_def plain_digest within_bounds_def canonical_bounds_def Let_def)
qed

lemma empty_emission: "\<exists>dir m. emit_modular_rust_tree plain_tools empty_model example_options [] = Some (dir, Inr m)"
proof -
  have "package_edges empty_model = []" by code_simp
  then obtain order where "lower_package_to_module_graph empty_model canonical_bounds =
      Some (Inr (lowered_graph empty_model canonical_bounds order))"
    using lower_verdict [of empty_model canonical_bounds] by (auto simp: edge_pairs_def acyclic_def)
  then have lower: "lower_package_to_module_graph empty_model (opt_bounds example_options) =
      Some (Inr (lowered_graph empty_model canonical_bounds order))" by (simp add: example_options_def)
  obtain src d where synth: "synthesize_modular_rust_files plain_tools (lowered_graph empty_model canonical_bounds order)
      (opt_bounds example_options) = Inr [(''mod.rs'', src, d)]"
    using empty_synthesis [of "lowered_graph empty_model canonical_bounds order"]
    by (auto simp: example_options_def lowered_graph_def)
  have comps: "path_components ''mod.rs'' = [''mod.rs'']" by code_simp
  obtain dir where "write_units [(''mod.rs'', src, d)] [] = (dir, Inr ())" by (simp add: comps put_entry_def)
  from emit_steps [OF lower synth _ this] show ?thesis by (auto simp: example_options_def)
qed

theorem emit_then_audit_witness:
  "\<exists>dir m. emit_modular_rust_tree plain_tools empty_model example_options [] = Some (dir, Inr m) \<and>
     compute_directory_tree_manifest plain_tools dir = Inr m"
proof -
  obtain dir m where "emit_modular_rust_tree plain_tools empty_model example_options [] = Some (dir, Inr m)"
    using empty_emission by blast
  moreover from emit_then_audit [OF this] have "compute_directory_tree_manifest plain_tools dir = Inr m"
    by (simp add: example_options_def)
  ultimately show ?thesis by blast
qed

text \<open>
  a unit can get lost. Two calculations whose names give the same slug are both units of the
  module graph, but the emitter keeps one unit per path, so the first is written to no file; no
  diagnostic is raised.
\<close>

theorem equal_slugs_lose_a_unit:
  "concat (map unit_calc_defs (partition_packages
     (example_package ''top'' [] [] [example_calc ''Mass Sum'', example_calc ''mass_sum'']) bounds)) =
     [example_calc ''Mass Sum'', example_calc ''mass_sum''] \<and>
   concat (map (unit_calc_defs \<circ> snd) (units_by_path (partition_packages
     (example_package ''top'' [] [] [example_calc ''Mass Sum'', example_calc ''mass_sum'']) bounds))) =
     [example_calc ''mass_sum'']"
  by code_simp

end
