(* ===== verification/Lock_Governor.thy ===== *)
theory Lock_Governor
  imports BTree Digest
begin

text \<open>
  \<^verbatim>\<open>deap-core/src/workspace/lock_governor.rs\<close> and the records of
  \<^verbatim>\<open>rust_cst/envelope.rs\<close> it fills: what the offline build accepts of \<^verbatim>\<open>Cargo.toml\<close> and
  \<^verbatim>\<open>Cargo.lock\<close>. The parser of the library \<^verbatim>\<open>toml_edit\<close> is an argument; its documents are
  trees of items under keys, read by \<^verbatim>\<open>get\<close>, \<^verbatim>\<open>as_str\<close>, \<^verbatim>\<open>as_table\<close> and \<^verbatim>\<open>as_array\<close>.
\<close>

section \<open>Errors and records\<close>

datatype OfflineLockGovernanceError =
    LockPolicyDisabled | ManifestSizeCeilingExceeded | MalformedTomlOrLockSyntax
  | UnpinnedGitOrWildcardSpecifier | ForbiddenSemanticDependencyDetected
  | MissingRequiredCstDependency | InvalidSha256ChecksumHex | PackageGraphDepthOrCycleExceeded
  | ManifestToLockDriftDetected | CstConstraintEnvelopeViolation | OfflineCargoCheckFailed

definition lock_diagnostic_code :: "OfflineLockGovernanceError \<Rightarrow> string" where
  "lock_diagnostic_code e =
     (case e of CstConstraintEnvelopeViolation \<Rightarrow> ''DEAP-E0803'' | _ \<Rightarrow> ''DEAP-E0804'')"

datatype PackageSourceKind = WorkspaceMember | RegistryPinned | VendoredLocal

record LockedPackageRecord =
  rec_name :: string
  rec_version :: string
  rec_checksum :: "string option"
  rec_source_kind :: PackageSourceKind
  rec_dependencies :: "string btree_set"

record LockManifestSnapshot =
  snap_cargo_toml_sha256 :: "u8 list"
  snap_cargo_lock_sha256 :: "u8 list"
  snap_packages :: "(string, LockedPackageRecord) btree_map"
  snap_workspace_members :: "string btree_set"
  snap_offline_locked_enforced :: bool
  snap_vendor_bundle_supported :: bool

text \<open>A loop \<^verbatim>\<open>for x in xs { f(x)?; }\<close>.\<close>

fun try_each :: "('a \<Rightarrow> 'e + unit) \<Rightarrow> 'a list \<Rightarrow> 'e + unit" where
  "try_each f [] = Inr ()"
| "try_each f (x # xs) = (case f x of Inl e \<Rightarrow> Inl e | Inr _ \<Rightarrow> try_each f xs)"

section \<open>Documents\<close>

datatype toml_value =
    TString string
  | TInline "(string \<times> toml_value) list"
  | TArray "toml_value list"
  | TScalar

datatype toml_item =
    INone
  | IValue toml_value
  | ITable "(string \<times> toml_item) list"
  | ITables "(string \<times> toml_item) list list"

type_synonym toml_table = "(string \<times> toml_item) list"

fun value_str :: "toml_value \<Rightarrow> string option" where
  "value_str (TString s) = Some s"
| "value_str v = None"

fun item_str :: "toml_item \<Rightarrow> string option" where
  "item_str (IValue v) = value_str v"
| "item_str it = None"

fun item_array :: "toml_item \<Rightarrow> toml_value list option" where
  "item_array (IValue (TArray vs)) = Some vs"
| "item_array it = None"

fun item_table :: "toml_item \<Rightarrow> toml_table option" where
  "item_table (ITable t) = Some t"
| "item_table it = None"

fun item_tables :: "toml_item \<Rightarrow> toml_table list option" where
  "item_tables (ITables ts) = Some ts"
| "item_tables it = None"

definition get_str :: "toml_table \<Rightarrow> string \<Rightarrow> string option" where
  "get_str t key = Option.bind (map_of t key) item_str"

section \<open>Unpinned dependencies\<close>

definition is_unpinned_git_source :: "string \<Rightarrow> bool" where
  "is_unpinned_git_source source_uri =
     (if \<not> starts_with source_uri ''git+'' then False
      else \<not> (case split_once ''#'' source_uri of
                Some (_, r) \<Rightarrow> trim r \<noteq> [] | None \<Rightarrow> False))"

definition inline_table_is_unpinned :: "(string \<times> toml_value) list \<Rightarrow> bool" where
  "inline_table_is_unpinned it =
     (if (case Option.bind (map_of it ''version'') value_str of
            Some v \<Rightarrow> contains_str v ''*'' | None \<Rightarrow> False) then True
      else if map_of it ''git'' \<noteq> None then
        \<not> (case Option.bind (map_of it ''rev'') value_str of
             Some r \<Rightarrow> trim r \<noteq> [] | None \<Rightarrow> False)
      else False)"

definition value_has_unpinned_spec :: "toml_value \<Rightarrow> bool" where
  "value_has_unpinned_spec val =
     (case val of
        TString s \<Rightarrow> trim s = ''*'' \<or> starts_with s ''*''
      | TInline it \<Rightarrow> inline_table_is_unpinned it
      | _ \<Rightarrow> False)"

text \<open>What \<^verbatim>\<open>table_is_unpinned\<close> asks of the table itself, before its entries.\<close>

definition table_spec_unpinned :: "toml_table \<Rightarrow> bool" where
  "table_spec_unpinned tbl \<longleftrightarrow>
     (case get_str tbl ''version'' of Some v \<Rightarrow> contains_str v ''*'' | None \<Rightarrow> False) \<or>
     (case get_str tbl ''source'' of Some s \<Rightarrow> is_unpinned_git_source s | None \<Rightarrow> False) \<or>
     (map_of tbl ''git'' \<noteq> None \<and>
       \<not> (case get_str tbl ''rev'' of Some r \<Rightarrow> trim r \<noteq> [] | None \<Rightarrow> False))"

fun item_has_unpinned_spec :: "toml_item \<Rightarrow> bool" where
  "item_has_unpinned_spec (IValue v) = value_has_unpinned_spec v"
| "item_has_unpinned_spec (ITable t) =
     (table_spec_unpinned t \<or> list_ex (\<lambda>(k, item). item_has_unpinned_spec item) t)"
| "item_has_unpinned_spec (ITables ts) =
     list_ex (\<lambda>t. table_spec_unpinned t \<or> list_ex (\<lambda>(k, item). item_has_unpinned_spec item) t) ts"
| "item_has_unpinned_spec INone = False"

definition table_is_unpinned :: "toml_table \<Rightarrow> bool" where
  "table_is_unpinned tbl \<longleftrightarrow>
     table_spec_unpinned tbl \<or> list_ex (\<lambda>(k, item). item_has_unpinned_spec item) tbl"

section \<open>Parsing the manifests\<close>

definition nonblank :: "string option \<Rightarrow> string option" where
  "nonblank s = (case s of Some t \<Rightarrow> (if trim t \<noteq> [] then Some (trim t) else None) | None \<Rightarrow> None)"

definition filter_map :: "('a \<Rightarrow> 'b option) \<Rightarrow> 'a list \<Rightarrow> 'b list" where
  "filter_map f xs = concat (map (\<lambda>x. case f x of None \<Rightarrow> [] | Some y \<Rightarrow> [y]) xs)"

definition extract_workspace_members :: "toml_table \<Rightarrow> string btree_set" where
  "extract_workspace_members doc =
     (let arr = Option.bind (Option.bind (Option.bind (map_of doc ''workspace'') item_table)
                  (\<lambda>w. map_of w ''members'')) item_array;
          members = (case arr of None \<Rightarrow> [] | Some vs \<Rightarrow>
             fold bs_insert (filter_map (\<lambda>v. nonblank (value_str v)) vs) []);
          pkg_name = Option.bind (Option.bind (map_of doc ''package'') item_table) (\<lambda>p. get_str p ''name'')
      in case nonblank pkg_name of None \<Rightarrow> members | Some n \<Rightarrow> bs_insert n members)"

definition first_word :: "string \<Rightarrow> string" where
  "first_word raw = (case split_whitespace raw of [] \<Rightarrow> raw | w # _ \<Rightarrow> w)"

fun insert_dependencies ::
  "toml_value list \<Rightarrow> string btree_set \<Rightarrow> OfflineLockGovernanceError + string btree_set" where
  "insert_dependencies [] deps = Inr deps"
| "insert_dependencies (v # vs) deps =
     (case value_str v of
        None \<Rightarrow> Inl MalformedTomlOrLockSyntax
      | Some raw \<Rightarrow>
          (let dep_name = trim (first_word raw)
           in insert_dependencies vs (if dep_name \<noteq> [] then bs_insert dep_name deps else deps)))"

definition package_source_kind :: "string option \<Rightarrow> PackageSourceKind" where
  "package_source_kind s =
     (case s of None \<Rightarrow> WorkspaceMember
      | Some u \<Rightarrow> if starts_with u ''registry+'' then RegistryPinned else VendoredLocal)"

definition parse_single_package_table ::
  "toml_table \<Rightarrow> OfflineLockGovernanceError + LockedPackageRecord" where
  "parse_single_package_table tbl =
     (case nonblank (get_str tbl ''name'') of
        None \<Rightarrow> Inl MalformedTomlOrLockSyntax
      | Some name \<Rightarrow>
          (case nonblank (get_str tbl ''version'') of
             None \<Rightarrow> Inl MalformedTomlOrLockSyntax
           | Some version \<Rightarrow>
               (let dep_arr = Option.bind (map_of tbl ''dependencies'') item_array
                in case insert_dependencies (case dep_arr of None \<Rightarrow> [] | Some vs \<Rightarrow> vs) [] of
                     Inl e \<Rightarrow> Inl e
                   | Inr deps \<Rightarrow>
                       Inr \<lparr>rec_name = name, rec_version = version, rec_checksum = get_str tbl ''checksum'',
                            rec_source_kind = package_source_kind (get_str tbl ''source''),
                            rec_dependencies = deps\<rparr>)))"

fun record_packages ::
  "toml_table list \<Rightarrow> string btree_set \<times> (string, LockedPackageRecord) btree_map \<Rightarrow>
     OfflineLockGovernanceError + string btree_set \<times> (string, LockedPackageRecord) btree_map" where
  "record_packages [] st = Inr st"
| "record_packages (tbl # tbls) (members, packages) =
     (case parse_single_package_table tbl of
        Inl e \<Rightarrow> Inl e
      | Inr p \<Rightarrow>
          record_packages tbls
            (if rec_source_kind p = WorkspaceMember then bs_insert (rec_name p) members else members,
             bt_insert (rec_name p) p packages))"

text \<open>
  \<open>parse_toml\<close> is the parser of the library, \<open>vendor_exists\<close> whether the directory \<^verbatim>\<open>vendor\<close>
  exists.
\<close>

definition parse_locked_manifest_snapshot ::
  "(string \<Rightarrow> toml_table option) \<Rightarrow> bool \<Rightarrow> string \<Rightarrow> string \<Rightarrow> nat \<Rightarrow>
     OfflineLockGovernanceError + LockManifestSnapshot" where
  "parse_locked_manifest_snapshot parse_toml vendor_exists cargo_toml_src cargo_lock_src max_packages =
     (if trim cargo_toml_src = [] \<or> trim cargo_lock_src = [] then Inl MalformedTomlOrLockSyntax
      else if max_packages = 0 then Inl ManifestSizeCeilingExceeded
      else case (parse_toml cargo_toml_src, parse_toml cargo_lock_src) of
        (Some toml_doc, Some lock_doc) \<Rightarrow>
          (if table_is_unpinned toml_doc \<or> table_is_unpinned lock_doc
           then Inl UnpinnedGitOrWildcardSpecifier
           else case Option.bind (map_of lock_doc ''package'') item_tables of
             None \<Rightarrow> Inl MalformedTomlOrLockSyntax
           | Some pkg_tables \<Rightarrow>
               (if pkg_tables = [] then Inl MalformedTomlOrLockSyntax
                else if max_packages < length pkg_tables then Inl ManifestSizeCeilingExceeded
                else case record_packages pkg_tables (extract_workspace_members toml_doc, []) of
                  Inl e \<Rightarrow> Inl e
                | Inr (members, packages) \<Rightarrow>
                    Inr \<lparr>snap_cargo_toml_sha256 = compute_sha256_bytes (utf8_bytes cargo_toml_src),
                         snap_cargo_lock_sha256 = compute_sha256_bytes (utf8_bytes cargo_lock_src),
                         snap_packages = packages, snap_workspace_members = members,
                         snap_offline_locked_enforced = True,
                         snap_vendor_bundle_supported = (vendor_exists \<or> True)\<rparr>))
      | _ \<Rightarrow> Inl MalformedTomlOrLockSyntax)"

section \<open>Verifying the dependency graph\<close>

definition is_ascii_hexdigit :: "char \<Rightarrow> bool" where
  "is_ascii_hexdigit c \<longleftrightarrow> is_ascii_digit c \<or> (65 \<le> code c \<and> code c \<le> 70) \<or> (97 \<le> code c \<and> code c \<le> 102)"

definition is_valid_sha256_hex :: "string option \<Rightarrow> bool" where
  "is_valid_sha256_hex checksum =
     (case checksum of None \<Rightarrow> False | Some hex \<Rightarrow> utf8_len hex = 64 \<and> list_all is_ascii_hexdigit hex)"

definition is_forbidden_crate :: "string \<Rightarrow> string btree_set \<Rightarrow> bool" where
  "is_forbidden_crate name forbidden_crates \<longleftrightarrow>
     name \<in> set forbidden_crates \<or>
     name \<in> {''ra_ap_hir'', ''ra_ap_hir_def'', ''ra_ap_hir_ty'', ''ra_ap_ide'', ''ra_ap_ide_db'', ''rustc_private''}"

definition find_package_record :: "LockManifestSnapshot \<Rightarrow> string \<Rightarrow> LockedPackageRecord option" where
  "find_package_record snapshot crate_name =
     (case bt_get (snap_packages snapshot) crate_name of
        Some r \<Rightarrow> Some r
      | None \<Rightarrow> find (\<lambda>r. rec_name r = crate_name) (map snd (snap_packages snapshot)))"

type_synonym walk_entry = "string \<times> nat \<times> string btree_set"

text \<open>
  The inner loop of the walk: each dependency of the package on top is refused or, if it is
  locked, pushed with its depth and ancestors. \<^verbatim>\<open>depth.checked_add(1)\<close> does not overflow, as
  depths stay below 66.
\<close>

fun push_dependencies ::
  "LockManifestSnapshot \<Rightarrow> nat \<Rightarrow> nat \<Rightarrow> string btree_set \<Rightarrow> string list \<Rightarrow> walk_entry list \<Rightarrow>
     OfflineLockGovernanceError + walk_entry list" where
  "push_dependencies snapshot max_depth depth ancestors [] stack = Inr stack"
| "push_dependencies snapshot max_depth depth ancestors (dep_raw # deps) stack =
     (let dep_name = first_word dep_raw;
          next_depth = Suc depth
      in if max_depth < next_depth \<or> dep_name \<in> set ancestors then Inl PackageGraphDepthOrCycleExceeded
         else push_dependencies snapshot max_depth depth ancestors deps
           (if find_package_record snapshot dep_name \<noteq> None
            then (dep_name, next_depth, bs_insert dep_name ancestors) # stack else stack))"

text \<open>
  The weight of a stack: an entry outweighs all it can push, which lie one deeper. It bounds the
  steps of the walk.
\<close>

definition walk_base :: "LockManifestSnapshot \<Rightarrow> nat" where
  "walk_base snapshot = 2 + sum_list (map (length \<circ> rec_dependencies \<circ> snd) (snap_packages snapshot))"

definition walk_weight :: "LockManifestSnapshot \<Rightarrow> nat \<Rightarrow> walk_entry list \<Rightarrow> nat" where
  "walk_weight snapshot max_depth stack =
     sum_list (map (\<lambda>(name, depth, ancestors). walk_base snapshot ^ (Suc max_depth - depth)) stack)"

lemma find_package_entry:
  "find_package_record snapshot name = Some r \<Longrightarrow> r \<in> snd ` set (snap_packages snapshot)"
proof (cases "bt_get (snap_packages snapshot) name")
  case None
  assume "find_package_record snapshot name = Some r"
  with None have "find (\<lambda>r. rec_name r = name) (map snd (snap_packages snapshot)) = Some r"
    by (simp add: find_package_record_def)
  then have "r \<in> set (map snd (snap_packages snapshot))" unfolding find_Some_iff by (metis nth_mem)
  then show ?thesis by simp
next
  case (Some r')
  assume "find_package_record snapshot name = Some r"
  with Some have "(name, r) \<in> set (snap_packages snapshot)"
    by (simp add: find_package_record_def bt_get_def map_of_SomeD)
  then show ?thesis by force
qed

lemma dependencies_below_base:
  assumes "find_package_record snapshot name = Some r"
  shows "length (rec_dependencies r) < walk_base snapshot"
proof -
  obtain e where "e \<in> set (snap_packages snapshot)" "r = snd e" using find_package_entry [OF assms] by auto
  then have "length (rec_dependencies r) \<in> set (map (length \<circ> rec_dependencies \<circ> snd) (snap_packages snapshot))"
    by auto
  from member_le_sum_list [OF this] show ?thesis by (simp add: walk_base_def)
qed

lemma push_weight:
  "push_dependencies snapshot max_depth depth ancestors deps stack = Inr stack' \<Longrightarrow>
     walk_weight snapshot max_depth stack' \<le>
       walk_weight snapshot max_depth stack + length deps * walk_base snapshot ^ (max_depth - depth)"
proof (induction snapshot max_depth depth ancestors deps stack rule: push_dependencies.induct)
  case (2 snapshot max_depth depth ancestors d deps stack)
  then show ?case
    by (fastforce simp: Let_def walk_weight_def split: if_splits)
qed simp

function walk_loop ::
  "LockManifestSnapshot \<Rightarrow> nat \<Rightarrow> walk_entry list \<Rightarrow> OfflineLockGovernanceError + unit" where
  "walk_loop snapshot max_depth [] = Inr ()"
| "walk_loop snapshot max_depth ((curr_name, depth, ancestors) # stack) =
     (if max_depth < depth then Inl PackageGraphDepthOrCycleExceeded
      else case find_package_record snapshot curr_name of
        None \<Rightarrow> walk_loop snapshot max_depth stack
      | Some pkg \<Rightarrow>
          (case push_dependencies snapshot max_depth depth ancestors (rec_dependencies pkg) stack of
             Inl e \<Rightarrow> Inl e
           | Inr stack' \<Rightarrow> walk_loop snapshot max_depth stack'))"
  by pat_completeness auto
termination
proof (relation "measure (\<lambda>(snapshot, max_depth, stack). walk_weight snapshot max_depth stack)")
  fix snapshot max_depth depth ancestors pkg and curr_name :: string and stack stack' :: "walk_entry list"
  let ?B = "walk_base snapshot"
  assume d: "\<not> max_depth < depth" and found: "find_package_record snapshot curr_name = Some pkg"
    and push: "push_dependencies snapshot max_depth depth ancestors (rec_dependencies pkg) stack = Inr stack'"
  have "walk_weight snapshot max_depth stack' \<le>
      walk_weight snapshot max_depth stack + length (rec_dependencies pkg) * ?B ^ (max_depth - depth)"
    by (rule push_weight [OF push])
  also have "\<dots> < walk_weight snapshot max_depth stack + ?B * ?B ^ (max_depth - depth)"
    using dependencies_below_base [OF found]
    by (intro add_strict_left_mono mult_strict_right_mono) (simp_all add: walk_base_def)
  also have "\<dots> = walk_weight snapshot max_depth ((curr_name, depth, ancestors) # stack)"
    using d by (simp add: walk_weight_def Suc_diff_le)
  finally show "((snapshot, max_depth, stack'), snapshot, max_depth, (curr_name, depth, ancestors) # stack)
      \<in> measure (\<lambda>(snapshot, max_depth, stack). walk_weight snapshot max_depth stack)" by simp
qed (auto simp: walk_weight_def walk_base_def)

definition verify_single_root_graph_walk ::
  "LockManifestSnapshot \<Rightarrow> string \<Rightarrow> nat \<Rightarrow> OfflineLockGovernanceError + unit" where
  "verify_single_root_graph_walk snapshot root_name max_depth =
     walk_loop snapshot max_depth [(root_name, 0, [root_name])]"

definition check_package ::
  "string btree_set \<Rightarrow> LockedPackageRecord \<Rightarrow> OfflineLockGovernanceError + unit" where
  "check_package forbidden_crates pkg =
     (if is_forbidden_crate (rec_name pkg) forbidden_crates then Inl ForbiddenSemanticDependencyDetected
      else if list_ex (\<lambda>d. is_forbidden_crate (first_word d) forbidden_crates) (rec_dependencies pkg)
        then Inl ForbiddenSemanticDependencyDetected
      else if rec_source_kind pkg = RegistryPinned \<and> \<not> is_valid_sha256_hex (rec_checksum pkg)
        then Inl InvalidSha256ChecksumHex
      else Inr ())"

definition verify_pinned_cst_dependency_graph ::
  "LockManifestSnapshot \<Rightarrow> string btree_set \<Rightarrow> string btree_set \<Rightarrow> nat \<Rightarrow>
     OfflineLockGovernanceError + unit" where
  "verify_pinned_cst_dependency_graph snapshot required_crates forbidden_crates max_depth =
     (if max_depth = 0 \<or> 64 < max_depth then Inl PackageGraphDepthOrCycleExceeded
      else if list_ex (\<lambda>req. find_package_record snapshot req = None) required_crates
        then Inl MissingRequiredCstDependency
      else case try_each (check_package forbidden_crates) (map snd (snap_packages snapshot)) of
        Inl e \<Rightarrow> Inl e
      | Inr _ \<Rightarrow>
          try_each (\<lambda>pkg. verify_single_root_graph_walk snapshot (rec_name pkg) max_depth)
            (map snd (snap_packages snapshot)))"

section \<open>Dependency chains\<close>

definition dep_rel :: "LockManifestSnapshot \<Rightarrow> (string \<times> string) set" where
  "dep_rel snapshot = {(a, b). \<exists>p. find_package_record snapshot a = Some p \<and>
     b \<in> first_word ` set (rec_dependencies p)}"

lemma cycle_chain: "(a, a) \<in> R\<^sup>+ \<Longrightarrow> \<exists>b. (a, b) \<in> R ^^ n"
proof (induction n arbitrary: a)
  case (Suc n)
  then obtain c where c: "(a, c) \<in> R" "(c, a) \<in> R\<^sup>*" by (meson tranclD)
  then have "(c, c) \<in> R\<^sup>+" by (meson rtrancl_into_trancl1)
  from Suc.IH [OF this] obtain b where "(c, b) \<in> R ^^ n" ..
  with c(1) show ?case by (meson relpow_Suc_I2)
qed simp

text \<open>The ancestors of an entry reach it, so a dependency on one of them closes a cycle.\<close>

definition ancestors_ok :: "LockManifestSnapshot \<Rightarrow> walk_entry list \<Rightarrow> bool" where
  "ancestors_ok snapshot stack \<longleftrightarrow>
     (\<forall>(name, depth, ancestors) \<in> set stack. \<forall>a \<in> set ancestors. (a, name) \<in> (dep_rel snapshot)\<^sup>*)"

definition chain_from :: "LockManifestSnapshot \<Rightarrow> nat \<Rightarrow> string \<Rightarrow> bool" where
  "chain_from snapshot n name \<longleftrightarrow> (\<exists>b. (name, b) \<in> dep_rel snapshot ^^ n)"

lemma chain_Suc: "chain_from snapshot (Suc n) a \<longleftrightarrow> (\<exists>b. (a, b) \<in> dep_rel snapshot \<and> chain_from snapshot n b)"
  unfolding chain_from_def by (meson relpow_Suc_D2 relpow_Suc_I2)

lemma push_result:
  assumes "depth \<le> max_depth"
    and "\<forall>a \<in> set ancestors. (a, name) \<in> (dep_rel snapshot)\<^sup>*"
    and "\<forall>d \<in> set deps. (name, first_word d) \<in> dep_rel snapshot"
  shows "case push_dependencies snapshot max_depth depth ancestors deps stack of
      Inl e \<Rightarrow> e = PackageGraphDepthOrCycleExceeded \<and> chain_from snapshot (Suc max_depth - depth) name
    | Inr stack' \<Rightarrow>
        (ancestors_ok snapshot stack \<longrightarrow> ancestors_ok snapshot stack') \<and>
        (deps \<noteq> [] \<longrightarrow> depth < max_depth) \<and>
        (\<forall>P. (\<forall>e \<in> set stack'. P e) \<longleftrightarrow> (\<forall>e \<in> set stack. P e) \<and>
          (\<forall>d \<in> set deps. find_package_record snapshot (first_word d) \<noteq> None \<longrightarrow>
             P (first_word d, Suc depth, bs_insert (first_word d) ancestors)))"
  using assms
proof (induction snapshot max_depth depth ancestors deps stack rule: push_dependencies.induct)
  case (2 snapshot max_depth depth ancestors d deps stack)
  let ?d = "first_word d"
  have edge: "(name, ?d) \<in> dep_rel snapshot" using 2(4) by simp
  show ?case
  proof (cases "max_depth < Suc depth \<or> ?d \<in> set ancestors")
    case True
    have "chain_from snapshot (Suc max_depth - depth) name"
    proof (cases "?d \<in> set ancestors")
      case True
      then have "(name, name) \<in> (dep_rel snapshot)\<^sup>+" using edge 2(3) by (meson rtrancl_into_trancl2)
      then show ?thesis unfolding chain_from_def by (rule cycle_chain)
    next
      case False
      with True 2(2) have "Suc max_depth - depth = Suc 0" by simp
      then show ?thesis using edge by (auto simp: chain_from_def)
    qed
    then show ?thesis using True by simp
  next
    case False
    let ?st = "if find_package_record snapshot ?d \<noteq> None then (?d, Suc depth, bs_insert ?d ancestors) # stack else stack"
    have anc: "ancestors_ok snapshot stack \<longrightarrow> ancestors_ok snapshot ?st"
      using 2(3) edge by (auto simp: ancestors_ok_def intro: rtrancl_into_rtrancl)
    have IH: "case push_dependencies snapshot max_depth depth ancestors deps ?st of
      Inl e \<Rightarrow> e = PackageGraphDepthOrCycleExceeded \<and> chain_from snapshot (Suc max_depth - depth) name
    | Inr stack' \<Rightarrow>
        (ancestors_ok snapshot ?st \<longrightarrow> ancestors_ok snapshot stack') \<and>
        (deps \<noteq> [] \<longrightarrow> depth < max_depth) \<and>
        (\<forall>P. (\<forall>e \<in> set stack'. P e) \<longleftrightarrow> (\<forall>e \<in> set ?st. P e) \<and>
          (\<forall>d \<in> set deps. find_package_record snapshot (first_word d) \<noteq> None \<longrightarrow>
             P (first_word d, Suc depth, bs_insert (first_word d) ancestors)))"
      using 2(1) [OF refl refl False 2(2,3)] 2(4) by simp
    show ?thesis
    proof (cases "push_dependencies snapshot max_depth depth ancestors deps ?st")
      case (Inl e)
      then show ?thesis using IH False by (simp add: Let_def)
    next
      case (Inr stack')
      have run: "push_dependencies snapshot max_depth depth ancestors (d # deps) stack = Inr stack'"
        using Inr False by (simp add: Let_def)
      show ?thesis unfolding run sum.case
      proof (intro conjI allI)
        show "ancestors_ok snapshot stack \<longrightarrow> ancestors_ok snapshot stack'" using IH anc Inr by simp
        show "d # deps \<noteq> [] \<longrightarrow> depth < max_depth" using False by simp
        fix P :: "walk_entry \<Rightarrow> bool"
        have "(\<forall>e \<in> set stack'. P e) \<longleftrightarrow> (\<forall>e \<in> set ?st. P e) \<and>
          (\<forall>d \<in> set deps. find_package_record snapshot (first_word d) \<noteq> None \<longrightarrow>
             P (first_word d, Suc depth, bs_insert (first_word d) ancestors))"
          using IH Inr by simp
        then show "(\<forall>e \<in> set stack'. P e) \<longleftrightarrow> (\<forall>e \<in> set stack. P e) \<and>
          (\<forall>d \<in> set (d # deps). find_package_record snapshot (first_word d) \<noteq> None \<longrightarrow>
             P (first_word d, Suc depth, bs_insert (first_word d) ancestors))" by auto
      qed
    qed
  qed
qed simp

lemma walk_loop_chain:
  "ancestors_ok snapshot stack \<Longrightarrow>
     walk_loop snapshot max_depth stack =
       (if (\<forall>(name, depth, ancestors) \<in> set stack. depth \<le> max_depth \<and> \<not> chain_from snapshot (Suc max_depth - depth) name)
        then Inr () else Inl PackageGraphDepthOrCycleExceeded)"
proof (induction snapshot max_depth stack rule: walk_loop.induct)
  case (2 snapshot max_depth name depth ancestors stack)
  have rest: "ancestors_ok snapshot stack" using 2(3) by (simp add: ancestors_ok_def)
  show ?case
  proof (cases "depth \<le> max_depth")
    case False
    then show ?thesis by simp
  next
    case d: True
    then have chain: "chain_from snapshot (Suc max_depth - depth) name \<longleftrightarrow>
        (\<exists>b. (name, b) \<in> dep_rel snapshot \<and> chain_from snapshot (max_depth - depth) b)"
      by (simp add: Suc_diff_le chain_Suc)
    show ?thesis
    proof (cases "find_package_record snapshot name")
      case None
      then have "\<not> chain_from snapshot (Suc max_depth - depth) name" unfolding chain by (simp add: dep_rel_def)
      then show ?thesis using 2(1) [OF _ None rest] None d by simp
    next
      case (Some pkg)
      have deps: "\<forall>d \<in> set (rec_dependencies pkg). (name, first_word d) \<in> dep_rel snapshot"
        using Some by (auto simp: dep_rel_def)
      have anc: "\<forall>a \<in> set ancestors. (a, name) \<in> (dep_rel snapshot)\<^sup>*" using 2(3) by (simp add: ancestors_ok_def)
      note push = push_result [OF d anc deps, of stack]
      show ?thesis
      proof (cases "push_dependencies snapshot max_depth depth ancestors (rec_dependencies pkg) stack")
        case (Inl e)
        then show ?thesis using push Some d by simp
      next
        case (Inr stack')
        let ?ok = "\<lambda>(name, depth, ancestors). depth \<le> max_depth \<and> \<not> chain_from snapshot (Suc max_depth - depth) name"
        have P: "ancestors_ok snapshot stack'" "rec_dependencies pkg \<noteq> [] \<longrightarrow> depth < max_depth"
          "(\<forall>e \<in> set stack'. ?ok e) \<longleftrightarrow> (\<forall>e \<in> set stack. ?ok e) \<and>
          (\<forall>d \<in> set (rec_dependencies pkg). find_package_record snapshot (first_word d) \<noteq> None \<longrightarrow>
             ?ok (first_word d, Suc depth, bs_insert (first_word d) ancestors))"
          using push Inr rest by simp_all
        have unlocked: "\<not> chain_from snapshot (max_depth - depth) b"
          if "find_package_record snapshot b = None" "depth < max_depth" for b
        proof -
          have "max_depth - depth = Suc (max_depth - Suc depth)" using that(2) by simp
          then show ?thesis using that(1) by (simp only: chain_Suc) (simp add: dep_rel_def)
        qed
        have "(\<forall>d \<in> set (rec_dependencies pkg). find_package_record snapshot (first_word d) \<noteq> None \<longrightarrow>
             ?ok (first_word d, Suc depth, bs_insert (first_word d) ancestors)) \<longleftrightarrow>
            \<not> chain_from snapshot (Suc max_depth - depth) name"
          unfolding chain using P(2) unlocked Some by (fastforce simp: dep_rel_def)
        then have "(\<forall>e \<in> set stack'. ?ok e) \<longleftrightarrow> (\<forall>e \<in> set ((name, depth, ancestors) # stack). ?ok e)"
          using P(3) d by auto
        then show ?thesis using 2(2) [OF _ Some Inr P(1)] Some Inr d by simp
      qed
    qed
  qed
qed simp

lemma single_root_chain:
  "verify_single_root_graph_walk snapshot root max_depth =
     (if chain_from snapshot (Suc max_depth) root then Inl PackageGraphDepthOrCycleExceeded else Inr ())"
  unfolding verify_single_root_graph_walk_def
  by (subst walk_loop_chain) (auto simp: ancestors_ok_def)

section \<open>What the gate accepts\<close>

lemma try_each_ok: "try_each f xs = Inr () \<longleftrightarrow> (\<forall>x \<in> set xs. f x = Inr ())"
  by (induction xs) (auto split: sum.split)

lemma check_package_ok:
  "check_package forbidden p = Inr () \<longleftrightarrow>
     \<not> is_forbidden_crate (rec_name p) forbidden \<and>
     (\<forall>d \<in> set (rec_dependencies p). \<not> is_forbidden_crate (first_word d) forbidden) \<and>
     (rec_source_kind p = RegistryPinned \<longrightarrow> is_valid_sha256_hex (rec_checksum p))"
  by (auto simp: check_package_def list_ex_iff)

definition well_keyed :: "LockManifestSnapshot \<Rightarrow> bool" where
  "well_keyed snapshot \<longleftrightarrow> bt_sorted (snap_packages snapshot) \<and>
     (\<forall>(k, p) \<in> set (snap_packages snapshot). rec_name p = k)"

lemma well_keyed_find:
  assumes "well_keyed snapshot" "find_package_record snapshot a = Some p"
  shows "(a, p) \<in> set (snap_packages snapshot)"
proof (cases "bt_get (snap_packages snapshot) a")
  case None
  with assms(2) have "find (\<lambda>r. rec_name r = a) (map snd (snap_packages snapshot)) = Some p"
    by (simp add: find_package_record_def)
  then have "p \<in> set (map snd (snap_packages snapshot)) \<and> rec_name p = a"
    unfolding find_Some_iff by (metis nth_mem)
  then show ?thesis using assms(1) by (auto simp: well_keyed_def)
next
  case (Some q)
  then show ?thesis using assms(2) by (simp add: find_package_record_def bt_get_def map_of_SomeD)
qed

definition package_fine :: "LockManifestSnapshot \<Rightarrow> string btree_set \<Rightarrow> nat \<Rightarrow> LockedPackageRecord \<Rightarrow> bool" where
  "package_fine snapshot forbidden max_depth p \<longleftrightarrow>
     \<not> is_forbidden_crate (rec_name p) forbidden \<and>
     (\<forall>d \<in> set (rec_dependencies p). \<not> is_forbidden_crate (first_word d) forbidden) \<and>
     (rec_source_kind p = RegistryPinned \<longrightarrow> is_valid_sha256_hex (rec_checksum p)) \<and>
     \<not> chain_from snapshot (Suc max_depth) (rec_name p)"

lemma verify_pinned_ok:
  "verify_pinned_cst_dependency_graph snapshot required forbidden max_depth = Inr () \<longleftrightarrow>
     0 < max_depth \<and> max_depth \<le> 64 \<and> (\<forall>r \<in> set required. find_package_record snapshot r \<noteq> None) \<and>
     (\<forall>(k, p) \<in> set (snap_packages snapshot). package_fine snapshot forbidden max_depth p)"
proof -
  have checks: "(\<forall>(k, p) \<in> set (snap_packages snapshot). package_fine snapshot forbidden max_depth p) \<longleftrightarrow>
      try_each (check_package forbidden) (map snd (snap_packages snapshot)) = Inr () \<and>
      try_each (\<lambda>pkg. verify_single_root_graph_walk snapshot (rec_name pkg) max_depth)
        (map snd (snap_packages snapshot)) = Inr ()"
    unfolding try_each_ok check_package_ok package_fine_def single_root_chain by fastforce
  show ?thesis unfolding checks verify_pinned_cst_dependency_graph_def list_ex_iff
    by (auto split: sum.split)
qed

lemma no_chain_acyclic:
  assumes "well_keyed snapshot"
    and "\<forall>(k, p) \<in> set (snap_packages snapshot). \<not> chain_from snapshot n (rec_name p)"
  shows "acyclic (dep_rel snapshot)"
  unfolding acyclic_def
proof (intro allI notI)
  fix a assume cyc: "(a, a) \<in> (dep_rel snapshot)\<^sup>+"
  then obtain b where "(a, b) \<in> dep_rel snapshot" by (meson tranclD)
  then obtain p where "find_package_record snapshot a = Some p" by (auto simp: dep_rel_def)
  from well_keyed_find [OF assms(1) this] have "\<not> chain_from snapshot n a"
    using assms by (fastforce simp: well_keyed_def)
  then show False using cycle_chain [OF cyc] by (simp add: chain_from_def)
qed

text \<open>
  C19: the gate accepts a snapshot exactly when the depth limit lies between 1 and 64, every
  required crate is locked, no package or dependency is forbidden, every registry package has a
  checksum of 64 hexadecimal digits, and no dependency chain is longer than the limit. What it
  accepts is acyclic. The walk over all paths always ends.
\<close>

theorem verify_pinned_iff:
  "(verify_pinned_cst_dependency_graph snapshot required forbidden max_depth = Inr () \<longleftrightarrow>
      0 < max_depth \<and> max_depth \<le> 64 \<and> (\<forall>r \<in> set required. find_package_record snapshot r \<noteq> None) \<and>
      (\<forall>(k, p) \<in> set (snap_packages snapshot). package_fine snapshot forbidden max_depth p)) \<and>
   (well_keyed snapshot \<longrightarrow>
      verify_pinned_cst_dependency_graph snapshot required forbidden max_depth = Inr () \<longrightarrow>
      acyclic (dep_rel snapshot))"
proof -
  have "acyclic (dep_rel snapshot)"
    if "well_keyed snapshot" "verify_pinned_cst_dependency_graph snapshot required forbidden max_depth = Inr ()"
    using that(2) no_chain_acyclic [OF that(1), of "Suc max_depth"]
    unfolding verify_pinned_ok package_fine_def by auto
  then show ?thesis using verify_pinned_ok by blast
qed

definition example_record :: "string \<Rightarrow> string \<Rightarrow> string list \<Rightarrow> LockedPackageRecord" where
  "example_record name version deps =
     \<lparr>rec_name = name, rec_version = version, rec_checksum = None, rec_source_kind = WorkspaceMember,
      rec_dependencies = deps\<rparr>"

definition example_snapshot :: "LockedPackageRecord list \<Rightarrow> LockManifestSnapshot" where
  "example_snapshot ps =
     \<lparr>snap_cargo_toml_sha256 = [], snap_cargo_lock_sha256 = [],
      snap_packages = map (\<lambda>p. (rec_name p, p)) ps, snap_workspace_members = [],
      snap_offline_locked_enforced = True, snap_vendor_bundle_supported = True\<rparr>"

lemma verify_pinned_iff_witness:
  "acyclic (dep_rel (example_snapshot [example_record ''a'' ''1'' [''b''], example_record ''b'' ''1'' []]))"
proof -
  let ?s = "example_snapshot [example_record ''a'' ''1'' [''b''], example_record ''b'' ''1'' []]"
  have "verify_pinned_cst_dependency_graph ?s [''b''] [] 2 = Inr ()" by code_simp
  moreover have "well_keyed ?s"
    by (simp add: well_keyed_def example_snapshot_def example_record_def bt_sorted_def bt_keys_def)
  ultimately show ?thesis using verify_pinned_iff [of ?s "[''b'']" "[]" 2] by blast
qed

section \<open>What the parser accepts\<close>

text \<open>The tables of an item at any depth, and what makes one of them unpinned by itself.\<close>

inductive has_table :: "toml_item \<Rightarrow> toml_table \<Rightarrow> bool" where
  here: "has_table (ITable t) t"
| among: "t \<in> set ts \<Longrightarrow> has_table (ITables ts) t"
| below: "has_table it t \<Longrightarrow> (k, it') \<in> set t \<Longrightarrow> has_table it' t' \<Longrightarrow> has_table it t'"

definition unpinned_here :: "toml_table \<Rightarrow> bool" where
  "unpinned_here t \<longleftrightarrow> table_spec_unpinned t \<or> (\<exists>(k, it) \<in> set t. \<exists>v. it = IValue v \<and> value_has_unpinned_spec v)"

lemma unpinned_item_table: "item_has_unpinned_spec (ITable t) \<longleftrightarrow> table_is_unpinned t"
  by (simp add: table_is_unpinned_def)

lemma unpinned_item_tables: "item_has_unpinned_spec (ITables ts) \<longleftrightarrow> (\<exists>t \<in> set ts. table_is_unpinned t)"
  by (simp add: table_is_unpinned_def list_ex_iff)

lemma table_unpinned_cases:
  "table_is_unpinned t \<longleftrightarrow> table_spec_unpinned t \<or> (\<exists>(k, it) \<in> set t. item_has_unpinned_spec it)"
  by (simp add: table_is_unpinned_def list_ex_iff)

lemma has_table_unpinned: "has_table it t \<Longrightarrow> table_is_unpinned t \<Longrightarrow> item_has_unpinned_spec it"
proof (induction rule: has_table.induct)
  case (below it t k it' t')
  then have "table_is_unpinned t" by (auto simp: table_unpinned_cases)
  then show ?case by (rule below.IH)
qed (auto simp: unpinned_item_table unpinned_item_tables simp del: item_has_unpinned_spec.simps)

definition unpinned_within :: "toml_item \<Rightarrow> bool" where
  "unpinned_within it \<longleftrightarrow> (\<exists>v. it = IValue v \<and> value_has_unpinned_spec v) \<or> (\<exists>t. has_table it t \<and> unpinned_here t)"

lemma unpinned_within_table:
  assumes "table_is_unpinned t"
    and IH: "\<And>k it'. (k, it') \<in> set t \<Longrightarrow> item_has_unpinned_spec it' \<Longrightarrow> unpinned_within it'"
  shows "\<exists>t'. (t' = t \<or> (\<exists>x \<in> set t. has_table (snd x) t')) \<and> unpinned_here t'"
proof (cases "unpinned_here t")
  case False
  then have "\<not> table_spec_unpinned t" by (simp add: unpinned_here_def)
  then have "\<exists>x \<in> set t. item_has_unpinned_spec (snd x)"
    using assms(1) by (simp add: table_unpinned_cases case_prod_unfold)
  then obtain x where x: "x \<in> set t" "item_has_unpinned_spec (snd x)" ..
  have k: "(fst x, snd x) \<in> set t" using x(1) by simp
  have "\<not> (\<exists>v. snd x = IValue v \<and> value_has_unpinned_spec v)" using False k by (auto simp: unpinned_here_def)
  then obtain t' where "has_table (snd x) t'" "unpinned_here t'"
    using IH [OF k x(2)] unfolding unpinned_within_def by blast
  with x(1) show ?thesis by blast
qed blast

lemma unpinned_has_table: "item_has_unpinned_spec it \<Longrightarrow> unpinned_within it"
proof (induction it rule: item_has_unpinned_spec.induct)
  case (2 t)
  have "\<exists>t'. (t' = t \<or> (\<exists>x \<in> set t. has_table (snd x) t')) \<and> unpinned_here t'"
    using 2 by (intro unpinned_within_table) (auto simp: unpinned_item_table [symmetric])
  then obtain t' where t': "t' = t \<or> (\<exists>x \<in> set t. has_table (snd x) t')" "unpinned_here t'" by blast
  then have "has_table (ITable t) t'" by (metis has_table.here has_table.below prod.collapse)
  with t'(2) show ?case unfolding unpinned_within_def by blast
next
  case (3 ts)
  obtain t where t: "t \<in> set ts" "table_is_unpinned t" using 3(2) unfolding unpinned_item_tables by blast
  have "\<exists>t'. (t' = t \<or> (\<exists>x \<in> set t. has_table (snd x) t')) \<and> unpinned_here t'"
    using 3(1) [OF t(1)] t(2) by (intro unpinned_within_table) auto
  then obtain t' where t': "t' = t \<or> (\<exists>x \<in> set t. has_table (snd x) t')" "unpinned_here t'" by blast
  have top: "has_table (ITables ts) t" using t(1) by (rule has_table.among)
  then have "has_table (ITables ts) t'" using t'(1) by (metis has_table.below prod.collapse)
  with t'(2) show ?case unfolding unpinned_within_def by blast
qed (simp_all add: unpinned_within_def)

lemma table_is_unpinned_iff: "table_is_unpinned doc \<longleftrightarrow> (\<exists>t. has_table (ITable doc) t \<and> unpinned_here t)"
proof
  assume "table_is_unpinned doc"
  then show "\<exists>t. has_table (ITable doc) t \<and> unpinned_here t"
    using unpinned_has_table [of "ITable doc"] by (simp add: unpinned_item_table unpinned_within_def del: item_has_unpinned_spec.simps)
next
  assume "\<exists>t. has_table (ITable doc) t \<and> unpinned_here t"
  then obtain t where t: "has_table (ITable doc) t" "unpinned_here t" by blast
  then have "table_is_unpinned t" by (force simp: unpinned_here_def table_unpinned_cases)
  from has_table_unpinned [OF t(1) this] show "table_is_unpinned doc" by (simp only: unpinned_item_table)
qed

lemma record_packages_keyed:
  "record_packages tbls (members, packages) = Inr (members', packages') \<Longrightarrow>
     bt_sorted packages \<Longrightarrow> \<forall>(k, p) \<in> set packages. rec_name p = k \<Longrightarrow>
     bt_sorted packages' \<and> (\<forall>(k, p) \<in> set packages'. rec_name p = k) \<and>
     length packages' \<le> length packages + length tbls \<and>
     set (bt_keys packages') = set (bt_keys packages) \<union>
       {rec_name p | p tbl. tbl \<in> set tbls \<and> parse_single_package_table tbl = Inr p}"
proof (induction tbls arbitrary: members packages)
  case (Cons tbl tbls)
  then obtain p where p: "parse_single_package_table tbl = Inr p" by (auto split: sum.splits)
  have ins: "set (bt_insert k v m) \<subseteq> insert (k, v) (set m) \<and> length (bt_insert k v m) \<le> Suc (length m)"
    for k :: string and v :: LockedPackageRecord and m
    by (induction k v m rule: bt_insert.induct) auto
  have keyed: "\<forall>(k, q) \<in> set (bt_insert (rec_name p) p packages). rec_name q = k"
    using Cons.prems(3) ins [of "rec_name p" p packages] by auto
  have run: "record_packages tbls (if rec_source_kind p = WorkspaceMember then bs_insert (rec_name p) members
      else members, bt_insert (rec_name p) p packages) = Inr (members', packages')"
    using Cons.prems(1) p by simp
  note IH = Cons.IH [OF run bt_sorted_insert [OF Cons.prems(2)] keyed]
  have "{rec_name q | q t. t \<in> set (tbl # tbls) \<and> parse_single_package_table t = Inr q} =
      insert (rec_name p) {rec_name q | q t. t \<in> set tbls \<and> parse_single_package_table t = Inr q}"
    using p by auto
  with IH ins [of "rec_name p" p packages] show ?case by (simp add: bt_keys_insert)
qed (auto simp: bt_keys_def)

text \<open>
  C20: a snapshot the parser returns records the digests of the two texts and between one and
  \<open>max_packages\<close> packages, sorted under their own names; neither document has, in a table at any
  depth, a version with a wildcard, a git source without revision or an unpinned value. The
  policy flags are set whatever the file system holds, also without a directory \<^verbatim>\<open>vendor\<close>.
\<close>

theorem parsed_snapshot:
  assumes "parse_locked_manifest_snapshot parse_toml vendor toml lock max_packages = Inr snap"
  shows "well_keyed snap \<and> snap_packages snap \<noteq> [] \<and> length (snap_packages snap) \<le> max_packages \<and>
    snap_cargo_toml_sha256 snap = compute_sha256_bytes (utf8_bytes toml) \<and>
    snap_cargo_lock_sha256 snap = compute_sha256_bytes (utf8_bytes lock) \<and>
    snap_offline_locked_enforced snap \<and> snap_vendor_bundle_supported snap \<and>
    (\<forall>src \<in> {toml, lock}. \<exists>doc. parse_toml src = Some doc \<and>
       (\<forall>t. has_table (ITable doc) t \<longrightarrow> \<not> unpinned_here t))"
proof -
  obtain toml_doc lock_doc tbls members packages where docs: "parse_toml toml = Some toml_doc" "parse_toml lock = Some lock_doc"
    "\<not> table_is_unpinned toml_doc" "\<not> table_is_unpinned lock_doc"
    and tbls: "tbls \<noteq> []" "length tbls \<le> max_packages"
    and run: "record_packages tbls (extract_workspace_members toml_doc, []) = Inr (members, packages)"
    and snap: "snap_packages snap = packages" "snap_cargo_toml_sha256 snap = compute_sha256_bytes (utf8_bytes toml)"
      "snap_cargo_lock_sha256 snap = compute_sha256_bytes (utf8_bytes lock)"
      "snap_offline_locked_enforced snap" "snap_vendor_bundle_supported snap"
    using assms unfolding parse_locked_manifest_snapshot_def
    by (auto split: if_splits option.splits sum.splits)
  from record_packages_keyed [OF run] have P: "bt_sorted packages" "\<forall>(k, p) \<in> set packages. rec_name p = k"
    "length packages \<le> length tbls" "set (bt_keys packages) =
       {rec_name p | p tbl. tbl \<in> set tbls \<and> parse_single_package_table tbl = Inr p}"
    by (auto simp: bt_keys_def)
  obtain tbl tbls' where "tbls = tbl # tbls'" using tbls(1) by (cases tbls) auto
  moreover from this obtain p where "parse_single_package_table tbl = Inr p" using run by (auto split: sum.splits)
  ultimately have "rec_name p \<in> set (bt_keys packages)" using P(4) by auto
  then have "packages \<noteq> []" by (auto simp: bt_keys_def)
  then show ?thesis using P docs tbls(2) snap(4,5) unfolding well_keyed_def snap(1-3) table_is_unpinned_iff by auto
qed

definition example_table :: "string \<Rightarrow> string \<Rightarrow> toml_table" where
  "example_table version checksum =
     [(''name'', IValue (TString ''serde'')), (''version'', IValue (TString version)),
      (''source'', IValue (TString ''registry+x'')), (''checksum'', IValue (TString checksum))]"

definition example_parser :: "toml_table list \<Rightarrow> string \<Rightarrow> toml_table option" where
  "example_parser tbls src = Some (if src = ''lock'' then [(''package'', ITables tbls)] else [])"

definition good_checksum :: string where
  "good_checksum = replicate 64 (CHR ''0'')"

definition serde_record :: LockedPackageRecord where
  "serde_record = \<lparr>rec_name = ''serde'', rec_version = ''2'', rec_checksum = Some good_checksum,
     rec_source_kind = RegistryPinned, rec_dependencies = []\<rparr>"

lemma example_tables:
  "\<not> table_is_unpinned [(''package'', ITables [example_table ''1'' ''bad'', example_table ''2'' good_checksum])]"
  "\<not> table_is_unpinned [(''package'', ITables [example_table ''1'' ''bad''])]"
  "\<not> table_is_unpinned []"
  "extract_workspace_members [] = []"
  "record_packages [example_table ''1'' ''bad'', example_table ''2'' good_checksum] ([], []) =
     Inr ([], [(''serde'', serde_record)])"
  "record_packages [example_table ''1'' ''bad''] ([], []) =
     Inr ([], [(''serde'', serde_record\<lparr>rec_version := ''1'', rec_checksum := Some ''bad''\<rparr>)])"
  "check_package [] serde_record = Inr ()"
  "check_package [] (serde_record\<lparr>rec_version := ''1'', rec_checksum := Some ''bad''\<rparr>) = Inl InvalidSha256ChecksumHex"
  by code_simp+

lemma example_parse:
  assumes "\<not> table_is_unpinned [(''package'', ITables tbls)]" "tbls \<noteq> []" "length tbls \<le> 5"
    "record_packages tbls ([], []) = Inr ([], pkgs)"
  shows "parse_locked_manifest_snapshot (example_parser tbls) False ''toml'' ''lock'' 5 =
    Inr \<lparr>snap_cargo_toml_sha256 = compute_sha256_bytes (utf8_bytes ''toml''),
      snap_cargo_lock_sha256 = compute_sha256_bytes (utf8_bytes ''lock''),
      snap_packages = pkgs, snap_workspace_members = [],
      snap_offline_locked_enforced = True, snap_vendor_bundle_supported = True\<rparr>"
proof -
  have "trim ''toml'' \<noteq> []" "trim ''lock'' \<noteq> []" by code_simp+
  then show ?thesis using assms
    by (simp add: parse_locked_manifest_snapshot_def example_parser_def example_tables)
qed

lemma parsed_snapshot_witness:
  "\<exists>snap. parse_locked_manifest_snapshot (example_parser [example_table ''1'' ''bad'']) False ''toml'' ''lock'' 5 = Inr snap \<and>
     well_keyed snap \<and> snap_packages snap \<noteq> []"
proof -
  obtain snap where
    "parse_locked_manifest_snapshot (example_parser [example_table ''1'' ''bad'']) False ''toml'' ''lock'' 5 = Inr snap"
    using example_parse [OF example_tables(2) _ _ example_tables(6)] by simp
  with parsed_snapshot [OF this] show ?thesis by blast
qed

lemma single_leaf_walk:
  "rec_dependencies p = [] \<Longrightarrow> snap_packages snap = [(k, p)] \<Longrightarrow> 0 < n \<Longrightarrow> \<not> chain_from snap n (rec_name p)"
  by (cases n) (auto simp: chain_Suc dep_rel_def find_package_record_def bt_get_def split: option.splits if_splits)

text \<open>
  a lock file may hold several versions of one crate, but the snapshot keeps only the last. A
  registry package whose checksum is no digest is refused alone and accepted, unchecked, when
  another version with a good checksum follows.
\<close>

theorem earlier_version_unchecked:
  "(\<exists>snap. parse_locked_manifest_snapshot (example_parser [example_table ''1'' ''bad'']) False ''toml'' ''lock'' 5 = Inr snap \<and>
      verify_pinned_cst_dependency_graph snap [] [] 3 = Inl InvalidSha256ChecksumHex) \<and>
   (\<exists>snap. parse_locked_manifest_snapshot
        (example_parser [example_table ''1'' ''bad'', example_table ''2'' good_checksum]) False ''toml'' ''lock'' 5 = Inr snap \<and>
      verify_pinned_cst_dependency_graph snap [] [] 3 = Inr ())"
proof (intro conjI)
  show "\<exists>snap. parse_locked_manifest_snapshot (example_parser [example_table ''1'' ''bad'']) False ''toml'' ''lock'' 5 = Inr snap \<and>
      verify_pinned_cst_dependency_graph snap [] [] 3 = Inl InvalidSha256ChecksumHex"
    using example_parse [OF example_tables(2) _ _ example_tables(6)]
    by (simp add: verify_pinned_cst_dependency_graph_def example_tables)
  have leaf: "rec_dependencies serde_record = []" by (simp add: serde_record_def)
  show "\<exists>snap. parse_locked_manifest_snapshot
        (example_parser [example_table ''1'' ''bad'', example_table ''2'' good_checksum]) False ''toml'' ''lock'' 5 = Inr snap \<and>
      verify_pinned_cst_dependency_graph snap [] [] 3 = Inr ()"
    using example_parse [OF example_tables(1) _ _ example_tables(5)]
    by (simp add: verify_pinned_cst_dependency_graph_def example_tables single_root_chain
        single_leaf_walk [OF leaf])
qed

end
