(* ===== verification/Supply_Receipt.thy ===== *)
theory Supply_Receipt
  imports Lock_Governor
begin

text \<open>
  \<^verbatim>\<open>deap-core/src/rust_cst/envelope.rs\<close>: the receipt that seals a verified snapshot under the
  complexity envelope, and the later comparison of a snapshot with it.
\<close>

section \<open>Envelope and receipt\<close>

definition MAX_CST_FN_EXEC_SLOC :: u32 where "MAX_CST_FN_EXEC_SLOC = 50"
definition MAX_CST_FN_PARAM_COUNT :: u32 where "MAX_CST_FN_PARAM_COUNT = 5"
definition REQUIRED_MAX_PREDICATE_ARITY :: u32 where "REQUIRED_MAX_PREDICATE_ARITY = 3"
definition REQUIRED_TIER_BC_DOC_LINES :: u32 where "REQUIRED_TIER_BC_DOC_LINES = 2"
definition BP08_DETERMINISTIC_UUID :: string where
  "BP08_DETERMINISTIC_UUID = ''6ba7b810-9dad-11d1-80b4-00c04fd430c8''"

record CstComplexityEnvelope =
  max_fn_exec_sloc :: u32
  max_fn_param_count :: u32
  max_mut_bool_flags :: u32
  max_predicate_arity :: u32
  stage_fixed_point_mismatch_files :: u32
  runtime_llm_token_count :: u32
  tier_bc_max_doc_lines :: u32
  lossless_roundtrip_required :: bool
  deterministic_uuid :: string

definition default_envelope :: CstComplexityEnvelope where
  "default_envelope =
     \<lparr>max_fn_exec_sloc = MAX_CST_FN_EXEC_SLOC, max_fn_param_count = MAX_CST_FN_PARAM_COUNT,
      max_mut_bool_flags = 0, max_predicate_arity = REQUIRED_MAX_PREDICATE_ARITY,
      stage_fixed_point_mismatch_files = 0, runtime_llm_token_count = 0,
      tier_bc_max_doc_lines = REQUIRED_TIER_BC_DOC_LINES, lossless_roundtrip_required = True,
      deterministic_uuid = BP08_DETERMINISTIC_UUID\<rparr>"

record SupplyChainVerificationReceipt =
  rcpt_cargo_toml_sha256 :: "u8 list"
  rcpt_cargo_lock_sha256 :: "u8 list"
  rcpt_verified_crates :: "string btree_set"
  rcpt_workspace_members :: "string btree_set"
  rcpt_envelope :: CstComplexityEnvelope
  rcpt_seal_sha256 :: "u8 list"
  rcpt_sealed :: bool

definition validate_cst_complexity_envelope ::
  "CstComplexityEnvelope \<Rightarrow> OfflineLockGovernanceError + unit" where
  "validate_cst_complexity_envelope env =
     (if max_fn_exec_sloc env = 0 \<or> MAX_CST_FN_EXEC_SLOC < max_fn_exec_sloc env
         \<or> MAX_CST_FN_PARAM_COUNT < max_fn_param_count env
         \<or> max_mut_bool_flags env \<noteq> 0
         \<or> stage_fixed_point_mismatch_files env \<noteq> 0
         \<or> runtime_llm_token_count env \<noteq> 0
         \<or> tier_bc_max_doc_lines env \<noteq> REQUIRED_TIER_BC_DOC_LINES
         \<or> max_predicate_arity env \<noteq> REQUIRED_MAX_PREDICATE_ARITY
         \<or> \<not> lossless_roundtrip_required env
         \<or> deterministic_uuid env \<noteq> BP08_DETERMINISTIC_UUID
      then Inl CstConstraintEnvelopeViolation else Inr ())"

section \<open>The seal\<close>

definition push_len_prefixed_str :: "string \<Rightarrow> u8 list" where
  "push_len_prefixed_str value =
     to_be_bytes 8 (of_nat (length (utf8_bytes value)) :: u64) @ utf8_bytes value"

definition bool_byte :: "bool \<Rightarrow> u8" where
  "bool_byte b = (if b then 1 else 0)"

definition package_bytes :: "(string, LockedPackageRecord) btree_map \<Rightarrow> u8 list" where
  "package_bytes packages =
     concat (map (\<lambda>(k, r). push_len_prefixed_str k @
       push_len_prefixed_str (case rec_checksum r of None \<Rightarrow> [] | Some c \<Rightarrow> c)) packages)"

definition envelope_bytes :: "CstComplexityEnvelope \<Rightarrow> u8 list" where
  "envelope_bytes env =
     to_be_bytes 4 (max_fn_exec_sloc env) @ to_be_bytes 4 (max_fn_param_count env)
     @ to_be_bytes 4 (max_mut_bool_flags env) @ to_be_bytes 4 (max_predicate_arity env)
     @ to_be_bytes 4 (stage_fixed_point_mismatch_files env) @ to_be_bytes 4 (runtime_llm_token_count env)
     @ to_be_bytes 4 (tier_bc_max_doc_lines env) @ [bool_byte (lossless_roundtrip_required env)]
     @ push_len_prefixed_str (deterministic_uuid env)"

definition seal_buffer ::
  "LockManifestSnapshot \<Rightarrow> string btree_set \<Rightarrow> CstComplexityEnvelope \<Rightarrow> u8 list" where
  "seal_buffer snapshot verified_crates env =
     utf8_bytes ''DEAP-BP08-SUPPLY-CHAIN-RECEIPT-V1''
     @ snap_cargo_toml_sha256 snapshot @ snap_cargo_lock_sha256 snapshot
     @ [bool_byte (snap_offline_locked_enforced snapshot), bool_byte (snap_vendor_bundle_supported snapshot)]
     @ package_bytes (snap_packages snapshot)
     @ concat (map push_len_prefixed_str verified_crates)
     @ concat (map push_len_prefixed_str (snap_workspace_members snapshot))
     @ envelope_bytes env"

definition compute_supply_chain_receipt_seal ::
  "LockManifestSnapshot \<Rightarrow> string btree_set \<Rightarrow> CstComplexityEnvelope \<Rightarrow> u8 list" where
  "compute_supply_chain_receipt_seal snapshot verified_crates env =
     compute_sha256_bytes (seal_buffer snapshot verified_crates env)"

definition required_cst_crates :: "string list" where
  "required_cst_crates = [''ra_ap_syntax'', ''rowan'', ''syn'', ''quote'', ''prettyplease'']"

definition verify_analyzer_envelope_and_seal_receipt ::
  "LockManifestSnapshot \<Rightarrow> string btree_set \<Rightarrow> CstComplexityEnvelope \<Rightarrow>
     OfflineLockGovernanceError + SupplyChainVerificationReceipt" where
  "verify_analyzer_envelope_and_seal_receipt snapshot verified_crates env =
     (if \<not> snap_offline_locked_enforced snapshot \<or> \<not> snap_vendor_bundle_supported snapshot
        then Inl LockPolicyDisabled
      else if snap_packages snapshot = [] then Inl MalformedTomlOrLockSyntax
      else if verified_crates = [] then Inl ManifestToLockDriftDetected
      else if list_ex (\<lambda>req. \<not> list_ex (\<lambda>c. c = req \<or> starts_with c (req @ ''@'')) verified_crates)
          required_cst_crates
        then Inl MissingRequiredCstDependency
      else case validate_cst_complexity_envelope env of
        Inl e \<Rightarrow> Inl e
      | Inr _ \<Rightarrow>
          Inr \<lparr>rcpt_cargo_toml_sha256 = snap_cargo_toml_sha256 snapshot,
               rcpt_cargo_lock_sha256 = snap_cargo_lock_sha256 snapshot,
               rcpt_verified_crates = verified_crates,
               rcpt_workspace_members = snap_workspace_members snapshot,
               rcpt_envelope = env,
               rcpt_seal_sha256 = compute_supply_chain_receipt_seal snapshot verified_crates env,
               rcpt_sealed = True\<rparr>)"

definition verify_snapshot_parity ::
  "SupplyChainVerificationReceipt \<Rightarrow> LockManifestSnapshot \<Rightarrow> OfflineLockGovernanceError + unit" where
  "verify_snapshot_parity self snapshot =
     (if \<not> rcpt_sealed self
         \<or> rcpt_cargo_toml_sha256 self \<noteq> snap_cargo_toml_sha256 snapshot
         \<or> rcpt_cargo_lock_sha256 self \<noteq> snap_cargo_lock_sha256 snapshot
         \<or> rcpt_workspace_members self \<noteq> snap_workspace_members snapshot
         \<or> length (rcpt_verified_crates self) \<noteq> length (snap_packages snapshot)
      then Inl ManifestToLockDriftDetected
      else case validate_cst_complexity_envelope (rcpt_envelope self) of
        Inl e \<Rightarrow> Inl e
      | Inr _ \<Rightarrow>
          (if rcpt_seal_sha256 self \<noteq>
               compute_supply_chain_receipt_seal snapshot (rcpt_verified_crates self) (rcpt_envelope self)
           then Inl ManifestToLockDriftDetected else Inr ()))"

section \<open>The sealed bytes can be read back\<close>

lemma code_inject: "code c = code d \<longleftrightarrow> c = d"
  by (simp add: code_def)

lemma code_bound: "code c < 256"
  by (simp add: code_def)

lemma byte_eq: "m < 256 \<Longrightarrow> n < 256 \<Longrightarrow> (word_of_nat m :: u8) = word_of_nat n \<longleftrightarrow> m = n"
proof
  assume mn: "m < 256" "n < 256" and eq: "(word_of_nat m :: u8) = word_of_nat n"
  have "unat (word_of_nat k :: u8) = k" if "k < 256" for k
    using that by (simp add: unsigned_of_nat take_bit_eq_mod)
  with mn eq show "m = n" by metis
qed simp

lemma utf8_char_head: "utf8_char c @ xs = utf8_char d @ ys \<Longrightarrow> c = d \<and> xs = ys"
proof -
  assume eq: "utf8_char c @ xs = utf8_char d @ ys"
  have b: "192 + code e div 64 < 256" "128 + code e mod 64 < 256" for e
    using code_bound [of e] by simp_all
  note small = byte_eq [of "code c" "code d"] byte_eq [of "code c" "192 + code d div 64"]
    byte_eq [of "192 + code c div 64" "code d"] byte_eq [of "192 + code c div 64" "192 + code d div 64"]
    byte_eq [of "128 + code c mod 64" "128 + code d mod 64"]
  have "code c = code d \<and> xs = ys"
  proof (cases "code c < 128"; cases "code d < 128")
    assume "\<not> code c < 128" "\<not> code d < 128"
    then have "code c div 64 = code d div 64" "code c mod 64 = code d mod 64" "xs = ys"
      using eq small(4,5) b by (simp_all add: utf8_char_def)
    then show ?thesis by (metis div_mult_mod_eq)
  qed (use eq small(1-3) b code_bound [of c] code_bound [of d] in \<open>auto simp: utf8_char_def\<close>)
  then show ?thesis by (simp add: code_inject)
qed

lemma utf8_char_nonempty: "utf8_char c \<noteq> []"
  by (simp add: utf8_char_def)

lemma utf8_inject: "utf8_bytes s = utf8_bytes t \<longleftrightarrow> s = t"
proof
  show "utf8_bytes s = utf8_bytes t \<Longrightarrow> s = t"
  proof (induction s arbitrary: t)
    case Nil
    then show ?case by (cases t) (auto simp: utf8_bytes_def utf8_char_nonempty)
  next
    case (Cons c s)
    then obtain d t' where t: "t = d # t'" by (cases t) (auto simp: utf8_bytes_def utf8_char_nonempty)
    have "utf8_char c @ utf8_bytes s = utf8_char d @ utf8_bytes t'" using Cons.prems t by (simp add: utf8_bytes_def)
    then show ?case using utf8_char_head Cons.IH t by blast
  qed
qed simp

text \<open>Lengths fit their eight bytes; no text in memory is longer.\<close>

definition fits :: "string \<Rightarrow> bool" where
  "fits s \<longleftrightarrow> length (utf8_bytes s) < 2 ^ 64"

lemma prefixed_head:
  assumes "fits s" "fits t" "push_len_prefixed_str s @ xs = push_len_prefixed_str t @ ys"
  shows "s = t \<and> xs = ys"
proof -
  let ?len = "\<lambda>s. (of_nat (length (utf8_bytes s)) :: u64)"
  have "to_be_bytes 8 (?len s) = to_be_bytes 8 (?len t)"
    and rest: "utf8_bytes s @ xs = utf8_bytes t @ ys"
    using assms(3) by (simp_all add: push_len_prefixed_str_def)
  then have "?len s = ?len t" using to_be_bytes_inject [of 8 "?len s" "?len t"] by simp
  moreover have "unat (?len u) = length (utf8_bytes u)" if "fits u" for u
    using that by (simp only: unsigned_of_nat) (simp add: fits_def take_bit_eq_mod)
  ultimately have "length (utf8_bytes s) = length (utf8_bytes t)" using assms(1,2) by metis
  with rest show ?thesis by (simp add: utf8_inject)
qed

definition sealed_view :: "(string, LockedPackageRecord) btree_map \<Rightarrow> (string \<times> string) list" where
  "sealed_view packages = map (\<lambda>(k, r). (k, case rec_checksum r of None \<Rightarrow> [] | Some c \<Rightarrow> c)) packages"

lemma prefixed_nonempty: "push_len_prefixed_str s \<noteq> []"
proof -
  have "length (push_len_prefixed_str s) \<noteq> 0" by (simp add: push_len_prefixed_str_def)
  then show ?thesis by (metis list.size(3))
qed

lemma pairs_inject:
  "\<forall>(a, b) \<in> set ps \<union> set qs. fits a \<and> fits b \<Longrightarrow>
   concat (map (\<lambda>(a, b). push_len_prefixed_str a @ push_len_prefixed_str b) ps) =
     concat (map (\<lambda>(a, b). push_len_prefixed_str a @ push_len_prefixed_str b) qs) \<Longrightarrow> ps = qs"
proof (induction ps arbitrary: qs)
  case Nil
  then show ?case by (cases qs) (auto simp: prefixed_nonempty)
next
  case (Cons p ps)
  obtain a b where p: "p = (a, b)" by (cases p)
  from Cons.prems(2) p obtain q qs' where "qs = q # qs'" by (cases qs) (auto simp: prefixed_nonempty)
  then obtain c d where q: "qs = (c, d) # qs'" by (cases q) auto
  note eq = Cons.prems(2) [unfolded p q, simplified]
  from prefixed_head [OF _ _ eq] Cons.prems(1) p q have ac: "a = c"
    and rest: "push_len_prefixed_str b @ concat (map (\<lambda>(a, b). push_len_prefixed_str a @ push_len_prefixed_str b) ps) =
      push_len_prefixed_str d @ concat (map (\<lambda>(a, b). push_len_prefixed_str a @ push_len_prefixed_str b) qs')"
    by simp_all
  from prefixed_head [OF _ _ rest] Cons.prems(1) p q have "b = d"
    and tail: "concat (map (\<lambda>(a, b). push_len_prefixed_str a @ push_len_prefixed_str b) ps) =
      concat (map (\<lambda>(a, b). push_len_prefixed_str a @ push_len_prefixed_str b) qs')" by simp_all
  moreover have "ps = qs'" using Cons.IH [OF _ tail] Cons.prems(1) q by simp
  ultimately show ?case using ac p q by simp
qed

lemma package_bytes_view:
  "package_bytes ps = concat (map (\<lambda>(a, b). push_len_prefixed_str a @ push_len_prefixed_str b) (sealed_view ps))"
  by (induction ps) (auto simp: package_bytes_def sealed_view_def)

section \<open>Properties\<close>

lemma sealed_receipt:
  assumes "verify_analyzer_envelope_and_seal_receipt snap crates env = Inr r"
  shows "snap_offline_locked_enforced snap \<and> snap_vendor_bundle_supported snap \<and>
    validate_cst_complexity_envelope env = Inr () \<and>
    r = \<lparr>rcpt_cargo_toml_sha256 = snap_cargo_toml_sha256 snap,
         rcpt_cargo_lock_sha256 = snap_cargo_lock_sha256 snap, rcpt_verified_crates = crates,
         rcpt_workspace_members = snap_workspace_members snap, rcpt_envelope = env,
         rcpt_seal_sha256 = compute_supply_chain_receipt_seal snap crates env, rcpt_sealed = True\<rparr>"
  using assms by (auto simp: verify_analyzer_envelope_and_seal_receipt_def split: if_splits sum.splits)

text \<open>
  a sealed receipt matches the snapshot it was sealed for exactly when as many crates were
  verified as the snapshot has packages. Sealing does not ask for this: a receipt sealed over
  fewer crates is issued, and its own snapshot is then reported as drift.
\<close>

theorem receipt_matches_own_snapshot:
  assumes "verify_analyzer_envelope_and_seal_receipt snap crates env = Inr r"
  shows "verify_snapshot_parity r snap =
    (if length crates = length (snap_packages snap) then Inr () else Inl ManifestToLockDriftDetected)"
  using sealed_receipt [OF assms] by (auto simp: verify_snapshot_parity_def)

definition five_crates :: "string list" where
  "five_crates = [''prettyplease'', ''quote'', ''ra_ap_syntax'', ''rowan'', ''syn'']"

lemma example_sealed:
  "\<exists>r. verify_analyzer_envelope_and_seal_receipt (example_snapshot [example_record ''a'' ''1'' []])
     five_crates default_envelope = Inr r"
proof -
  have "\<not> list_ex (\<lambda>req. \<not> list_ex (\<lambda>c. c = req \<or> starts_with c (req @ ''@'')) five_crates) required_cst_crates"
    "validate_cst_complexity_envelope default_envelope = Inr ()" by code_simp+
  then show ?thesis
    by (simp add: verify_analyzer_envelope_and_seal_receipt_def example_snapshot_def five_crates_def)
qed

lemma receipt_matches_own_snapshot_witness:
  "\<exists>r. verify_analyzer_envelope_and_seal_receipt (example_snapshot [example_record ''a'' ''1'' []])
       five_crates default_envelope = Inr r \<and>
     verify_snapshot_parity r (example_snapshot [example_record ''a'' ''1'' []]) = Inl ManifestToLockDriftDetected"
proof -
  obtain r where r: "verify_analyzer_envelope_and_seal_receipt (example_snapshot [example_record ''a'' ''1'' []])
      five_crates default_envelope = Inr r" using example_sealed by blast
  have "length five_crates \<noteq> length (snap_packages (example_snapshot [example_record ''a'' ''1'' []]))"
    by (simp add: five_crates_def example_snapshot_def)
  with receipt_matches_own_snapshot [OF r] r show ?thesis by auto
qed

definition packages_fit :: "(string, LockedPackageRecord) btree_map \<Rightarrow> bool" where
  "packages_fit packages \<longleftrightarrow> (\<forall>(a, b) \<in> set (sealed_view packages). fits a \<and> fits b)"

text \<open>
  C21: the seal binds what it covers. If a snapshot passes the comparison with a receipt sealed for
  another one, then either two different sealed texts have one digest, or both snapshots have the
  same manifest digests, workspace members, policy flags, package names and checksums; an absent
  checksum counts as an empty one.
\<close>

theorem parity_binds_snapshot:
  assumes sealed: "verify_analyzer_envelope_and_seal_receipt snap crates env = Inr r"
    and parity: "verify_snapshot_parity r snap' = Inr ()"
    and fit: "packages_fit (snap_packages snap)" "packages_fit (snap_packages snap')"
    and no_collision: "compute_sha256_bytes (seal_buffer snap crates env) = compute_sha256_bytes (seal_buffer snap' crates env) \<Longrightarrow>
      seal_buffer snap crates env = seal_buffer snap' crates env"
  shows "snap_cargo_toml_sha256 snap = snap_cargo_toml_sha256 snap' \<and>
    snap_cargo_lock_sha256 snap = snap_cargo_lock_sha256 snap' \<and>
    snap_workspace_members snap = snap_workspace_members snap' \<and>
    sealed_view (snap_packages snap) = sealed_view (snap_packages snap') \<and>
    snap_offline_locked_enforced snap' \<and> snap_vendor_bundle_supported snap'"
proof -
  note R = sealed_receipt [OF sealed]
  have same: "snap_cargo_toml_sha256 snap = snap_cargo_toml_sha256 snap'"
    "snap_cargo_lock_sha256 snap = snap_cargo_lock_sha256 snap'"
    "snap_workspace_members snap = snap_workspace_members snap'"
    "compute_sha256_bytes (seal_buffer snap crates env) = compute_sha256_bytes (seal_buffer snap' crates env)"
    using parity R by (auto simp: verify_snapshot_parity_def compute_supply_chain_receipt_seal_def
        split: if_splits sum.splits)
  have "seal_buffer snap crates env = seal_buffer snap' crates env" by (rule no_collision) (fact same(4))
  then have flags: "bool_byte (snap_offline_locked_enforced snap) = bool_byte (snap_offline_locked_enforced snap')"
      "bool_byte (snap_vendor_bundle_supported snap) = bool_byte (snap_vendor_bundle_supported snap')"
    and packages: "package_bytes (snap_packages snap) = package_bytes (snap_packages snap')"
    by (simp_all add: seal_buffer_def same)
  have "sealed_view (snap_packages snap) = sealed_view (snap_packages snap')"
    using packages fit unfolding package_bytes_view packages_fit_def by (intro pairs_inject) auto
  then show ?thesis using same flags R by (auto simp: bool_byte_def split: if_splits)
qed

lemma parity_binds_snapshot_witness:
  "snap_vendor_bundle_supported (example_snapshot [example_record k ''1'' [] . k \<leftarrow> five_crates])"
proof -
  let ?s = "example_snapshot [example_record k ''1'' [] . k \<leftarrow> five_crates]"
  have sealable: "\<not> list_ex (\<lambda>req. \<not> list_ex (\<lambda>c. c = req \<or> starts_with c (req @ ''@'')) five_crates) required_cst_crates"
    "validate_cst_complexity_envelope default_envelope = Inr ()" by code_simp+
  then obtain r where r: "verify_analyzer_envelope_and_seal_receipt ?s five_crates default_envelope = Inr r"
    by (simp add: verify_analyzer_envelope_and_seal_receipt_def example_snapshot_def five_crates_def)
  have parity: "verify_snapshot_parity r ?s = Inr ()"
    using sealed_receipt [OF r] by (simp add: verify_snapshot_parity_def example_snapshot_def)
  have fit: "packages_fit (snap_packages ?s)"
    by (simp add: packages_fit_def sealed_view_def example_snapshot_def example_record_def five_crates_def
        fits_def utf8_bytes_def utf8_char_def code_def)
  show ?thesis using parity_binds_snapshot [OF r parity fit fit] by blast
qed

end
