(* ===== verification/Sysml_Lexer.thy ===== *)
theory Sysml_Lexer
  imports RustStr
begin

text \<open>
  The token kinds and the lexer of the SysML front end, \<^verbatim>\<open>deap-core/src/sysml_cst/lexer.rs\<close>. The
  source gives one pattern per kind and lets the \<^verbatim>\<open>logos\<close> crate build the scanner, which takes the
  longest match and, among equally long ones, the kind of higher priority: \<open>next_token\<close> is that rule
  over one matcher per pattern. What \<^verbatim>\<open>logos\<close> leaves to its automaton is how many characters
  an error token spans, beyond the one that does not start any token: the argument \<open>err\<close>, called on the
  text left. Positions count characters; for an ASCII text they are the byte offsets of the source.
\<close>

section \<open>Token kinds and patterns\<close>

datatype SysmlCstToken =
    Whitespace | LineComment | BlockComment
  | DefKw | PackageKw | NamespaceKw | DocMetaKw | StructuralKw | BehavioralKw
  | ReqCalcVerificationKw | KermlModifierKw
  | ColonColonGt | ColonGtGt | ColonGt | ColonColon | ColonEq | Colon | CstTilde | At | Hash
  | DotDot | Arrow | FatArrow | CstDot | CstComma | Semi
  | LBrace | RBrace | CstLBracket | CstRBracket | CstLParen | CstRParen
  | Operator | CstStringLit | UnrestrictedName | NumberLit | CstIdent | ErrorToken

definition is_ident_start :: "char \<Rightarrow> bool" where
  "is_ident_start c \<longleftrightarrow> is_ascii_alphabetic c \<or> c = CHR ''_''"

definition is_ident_char :: "char \<Rightarrow> bool" where
  "is_ident_char b \<longleftrightarrow> is_ascii_alphanumeric b \<or> b = CHR ''_''"

definition lexer_space :: "char \<Rightarrow> bool" where
  "lexer_space c \<longleftrightarrow> c = CHR '' '' \<or> code c = 9 \<or> c = CR \<or> c = LF"

text \<open>The words of each keyword kind.\<close>

definition keyword_words :: "(SysmlCstToken \<times> string list) list" where
  "keyword_words =
     [(DefKw, [''def'']),
      (PackageKw, [''library'', ''standard'', ''package'']),
      (NamespaceKw, [''import'', ''alias'', ''private'', ''public'', ''protected'', ''all'']),
      (DocMetaKw, [''doc'', ''comment'', ''about'', ''rep'', ''locale'', ''metadata'']),
      (StructuralKw,
        [''attribute'', ''enum'', ''item'', ''part'', ''port'', ''connection'', ''interface'', ''flow'',
         ''succession'', ''allocation'', ''allocate'', ''occurrence'', ''individual'', ''snapshot'',
         ''timeslice'', ''variation'', ''variant'']),
      (BehavioralKw,
        [''action'', ''perform'', ''accept'', ''send'', ''assign'', ''if'', ''else'', ''while'', ''loop'',
         ''for'', ''fork'', ''join'', ''merge'', ''decide'', ''first'', ''then'', ''state'', ''exhibit'',
         ''entry'', ''do'', ''exit'', ''transition'', ''parallel'', ''interaction'', ''message'',
         ''connect'', ''bind'']),
      (ReqCalcVerificationKw,
        [''calc'', ''return'', ''constraint'', ''assert'', ''assume'', ''require'', ''requirement'',
         ''subject'', ''actor'', ''stakeholder'', ''concern'', ''frame'', ''satisfy'', ''use'', ''case'',
         ''include'', ''analysis'', ''objective'', ''verification'', ''verify'', ''view'', ''viewpoint'',
         ''rendering'', ''expose'', ''filter'', ''render'', ''hazard'', ''risk'', ''capability'']),
      (KermlModifierKw,
        [''inout'', ''in'', ''out'', ''ref'', ''abstract'', ''readonly'', ''derived'', ''end'', ''ordered'',
         ''nonunique'', ''redefines'', ''subsets'', ''references'', ''defined'', ''by'', ''specializes'',
         ''to'', ''from'', ''via'', ''not'', ''and'', ''or'', ''xor'', ''implies'', ''true'', ''false'',
         ''null''])]"

text \<open>The fixed spellings that are not words.\<close>

definition punctuation :: "(SysmlCstToken \<times> string list) list" where
  "punctuation =
     [(ColonColonGt, [''::>'']), (ColonGtGt, ['':>>'']), (ColonGt, ['':>'']), (ColonColon, [''::'']),
      (ColonEq, ['':='']), (Colon, ['':'']), (CstTilde, [''~'']), (At, [''@'']), (Hash, [''#'']),
      (DotDot, [''..'']), (Arrow, [''->'']), (FatArrow, [''=>'']), (CstDot, [''.'']), (CstComma, ['','']),
      (Semi, ['';'']), (LBrace, [''{'']), (RBrace, [''}'']), (CstLBracket, [''['']), (CstRBracket, ['']'']),
      (CstLParen, [''('']), (CstRParen, ['')'']),
      (Operator, [''==='', ''!=='', ''=='', ''!='', ''<='', ''>='', ''**'', ''.?'', ''??'', ''&&'', ''||'',
                  ''='', ''+'', ''-'', ''*'', ''/'', ''%'', ''<'', ''>'', ''?'', ''!''])]"

section \<open>Matchers\<close>

text \<open>A matcher gives the length of its longest match at the front of a text.\<close>

definition match_words :: "string list \<Rightarrow> string \<Rightarrow> nat option" where
  "match_words ws s =
     (case filter (starts_with s) ws of [] \<Rightarrow> None | w # more_ws \<Rightarrow> Some (Max (set (map length (w # more_ws)))))"

definition match_run :: "(char \<Rightarrow> bool) \<Rightarrow> string \<Rightarrow> nat option" where
  "match_run P s = (let n = length (takeWhile P s) in if n = 0 then None else Some n)"

definition match_line_comment :: "string \<Rightarrow> nat option" where
  "match_line_comment s =
     (if starts_with s ''//'' then Some (2 + length (takeWhile (\<lambda>c. c \<noteq> LF) (drop 2 s))) else None)"

text \<open>The pattern of a block comment cannot match past the first \<^verbatim>\<open>*/\<close>.\<close>

definition match_block_comment :: "string \<Rightarrow> nat option" where
  "match_block_comment s =
     (if starts_with s ''/*'' then map_option (\<lambda>(inner, _). length inner + 4) (split_once ''*/'' (drop 2 s))
      else None)"

text \<open>The rest of a quoted literal: a backslash takes the next character, which must not be a newline.\<close>

fun quoted_rest :: "char \<Rightarrow> string \<Rightarrow> nat option" where
  "quoted_rest q [] = None"
| "quoted_rest q (c # cs) =
     (if c = q then Some 1
      else if c = BS then
        (case cs of [] \<Rightarrow> None
         | d # ds \<Rightarrow> if d = LF then None else map_option (\<lambda>n. n + 2) (quoted_rest q ds))
      else map_option Suc (quoted_rest q cs))"

definition match_quoted :: "char \<Rightarrow> string \<Rightarrow> nat option" where
  "match_quoted q s = (case s of [] \<Rightarrow> None | c # cs \<Rightarrow> if c = q then map_option Suc (quoted_rest q cs) else None)"

definition digits_len :: "string \<Rightarrow> nat" where
  "digits_len s = length (takeWhile is_ascii_digit s)"

definition fraction_len :: "string \<Rightarrow> nat" where
  "fraction_len s =
     (case s of [] \<Rightarrow> 0
      | c # cs \<Rightarrow> if c = CHR ''.'' \<and> 0 < digits_len cs then Suc (digits_len cs) else 0)"

definition exponent_len :: "string \<Rightarrow> nat" where
  "exponent_len s =
     (case s of [] \<Rightarrow> 0
      | c # cs \<Rightarrow>
          if c = CHR ''e'' \<or> c = CHR ''E'' then
            (let sign = (case cs of [] \<Rightarrow> 0 | d # _ \<Rightarrow> if d = CHR ''+'' \<or> d = CHR ''-'' then 1 else 0);
                 n = digits_len (drop sign cs)
             in if n = 0 then 0 else 1 + sign + n)
          else 0)"

definition match_number :: "string \<Rightarrow> nat option" where
  "match_number s =
     (let n = digits_len s in
      if n = 0 then None
      else let m = n + fraction_len (drop n s) in Some (m + exponent_len (drop m s)))"

definition match_ident :: "string \<Rightarrow> nat option" where
  "match_ident s =
     (case s of [] \<Rightarrow> None
      | c # cs \<Rightarrow> if is_ident_start c then Some (length (takeWhile is_ident_char s)) else None)"

text \<open>All patterns in the order of the enum, keywords before identifiers, which have priority 1.\<close>

definition token_matches :: "string \<Rightarrow> (SysmlCstToken \<times> nat option) list" where
  "token_matches s =
     [(Whitespace, match_run lexer_space s), (LineComment, match_line_comment s),
      (BlockComment, match_block_comment s)]
     @ map (\<lambda>(t, ws). (t, match_words ws s)) keyword_words
     @ map (\<lambda>(t, ws). (t, match_words ws s)) punctuation
     @ [(CstStringLit, match_quoted DQ s), (UnrestrictedName, match_quoted SQ s),
        (NumberLit, match_number s), (CstIdent, match_ident s)]"

fun longest_match :: "(SysmlCstToken \<times> nat option) list \<Rightarrow> (SysmlCstToken \<times> nat) option" where
  "longest_match [] = None"
| "longest_match ((t, m) # ms) =
     (case m of None \<Rightarrow> longest_match ms
      | Some n \<Rightarrow> (case longest_match ms of None \<Rightarrow> Some (t, n)
          | Some (u, k) \<Rightarrow> if n < k then Some (u, k) else Some (t, n)))"

definition next_token :: "string \<Rightarrow> (SysmlCstToken \<times> nat) option" where
  "next_token s = longest_match (token_matches s)"

section \<open>The longest match\<close>

lemma starts_with_Nil [simp]: "starts_with s []"
  by (simp add: starts_with_def)

lemma starts_with_Cons [simp]:
  "starts_with [] (d # p) \<longleftrightarrow> False"
  "starts_with (c # s) (d # p) \<longleftrightarrow> c = d \<and> starts_with s p"
  by (auto simp: starts_with_def)

lemma starts_with_length: "starts_with s p \<Longrightarrow> length p \<le> length s"
  by (metis starts_with_iff prefix_length_le)

lemma longest_match_Some:
  assumes "longest_match ms = Some (t, n)"
  shows "(t, Some n) \<in> set ms \<and> (\<forall>u k. (u, Some k) \<in> set ms \<longrightarrow> k \<le> n)"
  using assms
proof (induction ms arbitrary: t n rule: longest_match.induct)
  case 1
  then show ?case by simp
next
  case (2 u m ms)
  show ?case
  proof (cases m)
    case None
    then show ?thesis using 2 by auto
  next
    case (Some k)
    show ?thesis
    proof (cases "longest_match ms")
      case None
      have "\<forall>u k. (u, Some k) \<notin> set ms" using None
        by (induction ms rule: longest_match.induct) (auto split: option.splits if_splits)
      then show ?thesis using 2(3) Some None by auto
    next
      case (Some p)
      then show ?thesis using 2(2) [OF \<open>m = Some k\<close>, of "fst p" "snd p"] 2(3) \<open>m = Some k\<close>
        by (cases p) (auto split: if_splits, meson le_trans not_le_imp_less less_imp_le)
    qed
  qed
qed

lemma longest_match_None: "longest_match ms = None \<longleftrightarrow> (\<forall>u k. (u, Some k) \<notin> set ms)"
  by (induction ms rule: longest_match.induct) (auto split: option.splits if_splits)

lemma longest_match_append:
  "longest_match (ms @ ns) =
     (case longest_match ms of None \<Rightarrow> longest_match ns
      | Some (t, n) \<Rightarrow> (case longest_match ns of None \<Rightarrow> Some (t, n)
          | Some (u, k) \<Rightarrow> if n < k then Some (u, k) else Some (t, n)))"
  by (induction ms rule: longest_match.induct) (auto split: option.splits if_splits)

section \<open>A token is a nonempty prefix of the text\<close>

definition sized :: "string \<Rightarrow> nat option \<Rightarrow> bool" where
  "sized s m \<longleftrightarrow> (\<forall>n. m = Some n \<longrightarrow> 0 < n \<and> n \<le> length s)"

lemma sized_words: "[] \<notin> set ws \<Longrightarrow> sized s (match_words ws s)"
proof -
  assume ne: "[] \<notin> set ws"
  have "0 < n \<and> n \<le> length s" if m: "match_words ws s = Some n" for n
  proof -
    let ?F = "set (filter (starts_with s) ws)"
    have F: "?F \<noteq> {}" "n = Max (length ` ?F)"
      using m by (cases "filter (starts_with s) ws"; simp add: match_words_def del: set_filter)+
    then have "n \<in> length ` ?F" using Max_in [of "length ` ?F"] by simp
    then obtain w where w: "w \<in> ?F" "n = length w" by blast
    then have "starts_with s w" "w \<in> set ws" by auto
    then have "length w \<le> length s" "w \<noteq> []" using ne by (auto dest: starts_with_length)
    then show ?thesis using w by simp
  qed
  then show ?thesis by (simp add: sized_def)
qed

lemma split_once_length: "split_once sep s = Some (a, b) \<Longrightarrow> s = a @ sep @ b"
proof (induction sep s arbitrary: a rule: split_once.induct)
  case (1 sep s)
  show ?case
  proof (cases "starts_with s sep")
    case True
    then show ?thesis using 1(2) by (simp add: split_once.simps [of sep s] starts_with_def)
        (metis append_take_drop_id)
  next
    case False
    then obtain c cs where s: "s = c # cs"
      using 1(2) by (simp add: split_once.simps [of sep s] split: list.splits)
    then have "map_option (\<lambda>(a, b). (c # a, b)) (split_once sep cs) = Some (a, b)"
      using 1(2) False by (simp add: split_once.simps [of sep "c # cs"])
    then obtain a' where "split_once sep cs = Some (a', b)" "a = c # a'" by auto
    then show ?thesis using 1(1) [OF False s] s by simp
  qed
qed

lemma sized_quoted_rest: "quoted_rest q s = Some n \<Longrightarrow> 0 < n \<and> n \<le> length s"
  by (induction q s arbitrary: n rule: quoted_rest.induct) (auto split: if_splits list.splits)

lemma digits_len_le: "digits_len s \<le> length s"
  by (simp add: digits_len_def length_takeWhile_le)

lemma fraction_len_le: "fraction_len s \<le> length s"
  using digits_len_le by (auto simp: fraction_len_def split: list.splits)

lemma exponent_len_le: "exponent_len s \<le> length s"
proof (cases s)
  case (Cons c cs)
  define sg where "sg = (case cs of [] \<Rightarrow> 0 | d # _ \<Rightarrow> if d = CHR ''+'' \<or> d = CHR ''-'' then 1 else (0::nat))"
  have "sg \<le> length cs" by (auto simp: sg_def split: list.splits)
  then have "sg + digits_len (drop sg cs) \<le> length cs" using digits_len_le [of "drop sg cs"] by simp
  then show ?thesis using Cons by (simp add: exponent_len_def sg_def [symmetric] Let_def)
qed (simp add: exponent_len_def)

lemma sized_number: "sized s (match_number s)"
proof -
  have "n + fraction_len (drop n s) + exponent_len (drop (n + fraction_len (drop n s)) s) \<le> length s"
    if "n \<le> length s" for n
    using that fraction_len_le [of "drop n s"] exponent_len_le [of "drop (n + fraction_len (drop n s)) s"] by simp
  then show ?thesis using digits_len_le [of s] by (auto simp: sized_def match_number_def Let_def)
qed

lemma sized_others:
  "sized s (match_run P s)" "sized s (match_line_comment s)" "sized s (match_block_comment s)"
  "sized s (match_quoted q s)" "sized s (match_ident s)"
proof -
  show "sized s (match_run P s)" by (auto simp: sized_def match_run_def Let_def length_takeWhile_le)
  have "2 + length (takeWhile P (drop 2 s)) \<le> length s" if "starts_with s ''//''" for P
    using length_takeWhile_le [of P "drop 2 s"] starts_with_length [OF that] by simp
  then show "sized s (match_line_comment s)" by (auto simp: sized_def match_line_comment_def)
  have "length a + 4 \<le> length s" if "starts_with s ''/*''" "split_once ''*/'' (drop 2 s) = Some (a, b)" for a b
    using arg_cong [OF split_once_length [OF that(2)], of length] starts_with_length [OF that(1)] by simp
  then show "sized s (match_block_comment s)" by (fastforce simp: sized_def match_block_comment_def)
  show "sized s (match_quoted q s)"
    by (auto simp: sized_def match_quoted_def dest!: sized_quoted_rest split: list.splits if_splits)
  have "is_ident_start c \<Longrightarrow> is_ident_char c" for c
    by (auto simp: is_ident_start_def is_ident_char_def is_ascii_alphanumeric_def)
  then show "sized s (match_ident s)"
    by (auto simp: sized_def match_ident_def length_takeWhile_le split: list.splits if_splits)
qed

lemma words_nonempty:
  "(t, ws) \<in> set keyword_words \<Longrightarrow> [] \<notin> set ws" "(t, ws) \<in> set punctuation \<Longrightarrow> [] \<notin> set ws"
  by (auto simp: keyword_words_def punctuation_def)

lemma token_matches_sized: "(t, m) \<in> set (token_matches s) \<Longrightarrow> sized s m"
  unfolding token_matches_def
  by (auto simp: sized_others sized_number intro!: sized_words dest: words_nonempty)

lemma next_token_sized: "next_token s = Some (t, n) \<Longrightarrow> 0 < n \<and> n \<le> length s"
  using longest_match_Some token_matches_sized [of t "Some n" s] by (auto simp: next_token_def sized_def)

section \<open>The token stream\<close>

text \<open>\<^verbatim>\<open>get(i..j)\<close> where it is known to exist.\<close>

definition get_range :: "'a list \<Rightarrow> nat \<Rightarrow> nat \<Rightarrow> 'a list" where
  "get_range s i j = take (j - i) (drop i s)"

type_synonym span = "SysmlCstToken option \<times> nat \<times> nat"

definition token_at :: "(string \<Rightarrow> nat) \<Rightarrow> string \<Rightarrow> SysmlCstToken option \<times> nat" where
  "token_at err s =
     (case next_token s of Some (t, n) \<Rightarrow> (Some t, n) | None \<Rightarrow> (None, min (Suc (err s)) (length s)))"

lemma token_at_sized: "s \<noteq> [] \<Longrightarrow> 0 < snd (token_at err s) \<and> snd (token_at err s) \<le> length s"
  using next_token_sized [of s] by (auto simp: token_at_def split: option.splits)

text \<open>\<^verbatim>\<open>SysmlToken::lexer(s).spanned()\<close>; \<^verbatim>\<open>Err(())\<close> is \<open>None\<close>.\<close>

function spanned :: "(string \<Rightarrow> nat) \<Rightarrow> nat \<Rightarrow> string \<Rightarrow> span list" where
  "spanned err pos s =
     (if s = [] then []
      else (fst (token_at err s), pos, pos + snd (token_at err s))
        # spanned err (pos + snd (token_at err s)) (drop (snd (token_at err s)) s))"
  by pat_completeness auto
termination
  by (relation "measure (\<lambda>(err, pos, s). length s)") (auto intro!: diff_less dest: token_at_sized)

declare spanned.simps [simp del]

lemma spanned_code [code]:
  "spanned err pos s =
     (if s = [] then []
      else (case token_at err s of (res, n) \<Rightarrow> (res, pos, pos + n) # spanned err (pos + n) (drop n s)))"
  by (simp add: spanned.simps [of err pos s] split: prod.split)

abbreviation lexer :: "(string \<Rightarrow> nat) \<Rightarrow> string \<Rightarrow> span list" where
  "lexer err s \<equiv> spanned err 0 s"

record LexedSysmlToken =
  lexed_token :: SysmlCstToken
  lexed_slice :: string
  lexed_span :: "nat \<times> nat"

definition tokenize_sysml :: "(string \<Rightarrow> nat) \<Rightarrow> string \<Rightarrow> LexedSysmlToken list" where
  "tokenize_sysml err source =
     map (\<lambda>(res, i, j).
       \<lparr>lexed_token = (case res of Some tok \<Rightarrow> tok | None \<Rightarrow> ErrorToken),
        lexed_slice = get_range source i j, lexed_span = (i, j)\<rparr>) (lexer err source)"

section \<open>Tiling\<close>

text \<open>Spans that cover a range one after the other, none of them empty.\<close>

fun tiles :: "nat \<Rightarrow> nat \<Rightarrow> ('k \<times> nat \<times> nat) list \<Rightarrow> bool" where
  "tiles a b [] \<longleftrightarrow> a = b"
| "tiles a b ((k, i, j) # ts) \<longleftrightarrow> i = a \<and> a < j \<and> tiles j b ts"

lemma tiles_le: "tiles a b ts \<Longrightarrow> a \<le> b"
  by (induction a b ts rule: tiles.induct) auto

lemma tiles_member: "tiles a b ts \<Longrightarrow> (k, i, j) \<in> set ts \<Longrightarrow> a \<le> i \<and> i < j \<and> j \<le> b"
  by (induction a b ts rule: tiles.induct) (fastforce dest: tiles_le)+

lemma get_range_append: "i \<le> j \<Longrightarrow> j \<le> k \<Longrightarrow> get_range s i j @ get_range s j k = get_range s i k"
  by (auto simp: get_range_def take_add drop_drop add.commute dest!: le_Suc_ex)

lemma get_range_all [simp]: "get_range s 0 (length s) = s"
  by (simp add: get_range_def)

lemma get_range_same [simp]: "get_range s i i = []"
  by (simp add: get_range_def)

lemma length_get_range: "j \<le> length s \<Longrightarrow> length (get_range s i j) = j - i"
  by (simp add: get_range_def)

text \<open>The interface of a lexer to its clients: its spans tile the text.\<close>

locale tiling_lexer =
  fixes spans_of :: "string \<Rightarrow> ('k \<times> nat \<times> nat) list"
  assumes tiling: "tiles 0 (length s) (spans_of s)"
begin

lemma tiles_concat: "tiles a b ts \<Longrightarrow> concat (map (\<lambda>(k, i, j). get_range s i j) ts) = get_range s a b"
  by (induction a b ts rule: tiles.induct) (auto simp: get_range_append dest: tiles_le)

lemma ranges_concat: "concat (map (\<lambda>(k, i, j). get_range s i j) (spans_of s)) = s"
  using tiles_concat [where s = s, OF tiling [of s]] by simp

lemma span_bounds: "(k, i, j) \<in> set (spans_of s) \<Longrightarrow> i < j \<and> j \<le> length s"
  using tiles_member [OF tiling] by blast

end

lemma spanned_tiles: "tiles pos (pos + length s) (spanned err pos s)"
proof (induction err pos s rule: spanned.induct)
  case (1 err pos s)
  show ?case
  proof (cases "s = []")
    case False
    then show ?thesis using 1 [OF False] token_at_sized [OF False, of err]
      by (simp add: spanned.simps [of err pos s])
  qed (simp add: spanned.simps)
qed

interpretation sysml_lexer: tiling_lexer "lexer err" for err
  by unfold_locales (metis add_0 spanned_tiles)

text \<open>Every span is what the lexer reads at its start.\<close>

lemma spanned_member:
  "(res, i, j) \<in> set (spanned err pos s) \<Longrightarrow>
   pos \<le> i \<and> drop (i - pos) s \<noteq> [] \<and> token_at err (drop (i - pos) s) = (res, j - i) \<and> i \<le> j"
proof (induction err pos s rule: spanned.induct)
  case (1 err pos s)
  show ?case
  proof (cases "s = []")
    case True
    then show ?thesis using 1(2) by (simp add: spanned.simps)
  next
    case False
    define n where "n = snd (token_at err s)"
    from 1(2) False consider "(res, i, j) = (fst (token_at err s), pos, pos + n)"
      | "(res, i, j) \<in> set (spanned err (pos + n) (drop n s))"
      by (auto simp: spanned.simps [of err pos s] n_def)
    then show ?thesis
    proof cases
      case 1
      then show ?thesis using False by (auto simp: n_def prod_eq_iff)
    next
      case 2
      have IH: "pos + n \<le> i \<and> drop (i - (pos + n)) (drop n s) \<noteq> [] \<and>
          token_at err (drop (i - (pos + n)) (drop n s)) = (res, j - i) \<and> i \<le> j"
        unfolding n_def by (rule 1(1) [OF False 2 [unfolded n_def]])
      then have e: "i - (pos + n) + n = i - pos" by simp
      have "drop (i - (pos + n)) (drop n s) = drop (i - pos) s" by (simp only: drop_drop e)
      then show ?thesis using IH by (simp only:) simp
    qed
  qed
qed

lemma lexer_member:
  "(res, i, j) \<in> set (lexer err s) \<Longrightarrow> drop i s \<noteq> [] \<and> token_at err (drop i s) = (res, j - i) \<and> i \<le> j"
  using spanned_member [of res i j err 0 s] by simp

section \<open>What a token looks like\<close>

lemma next_token_member: "next_token s = Some (t, n) \<Longrightarrow> (t, Some n) \<in> set (token_matches s)"
  using longest_match_Some by (auto simp: next_token_def)

text \<open>The words of a kind, and that a kind has one entry.\<close>

definition fixed_words :: "SysmlCstToken \<Rightarrow> string list" where
  "fixed_words t = concat (map snd (filter (\<lambda>(u, ws). u = t) (keyword_words @ punctuation)))"

definition free_kinds :: "SysmlCstToken list" where
  "free_kinds = [Whitespace, LineComment, BlockComment, CstStringLit, UnrestrictedName, NumberLit, CstIdent]"

lemma match_words_Some:
  assumes "match_words ws s = Some n"
  shows "\<exists>w \<in> set ws. starts_with s w \<and> take n s = w \<and> length w = n"
proof -
  let ?F = "set (filter (starts_with s) ws)"
  have F: "?F \<noteq> {}" "n = Max (length ` ?F)"
    using assms by (cases "filter (starts_with s) ws"; simp add: match_words_def del: set_filter)+
  then have "n \<in> length ` ?F" using Max_in [of "length ` ?F"] by simp
  then obtain w where "w \<in> set ws" "starts_with s w" "n = length w" by auto
  then show ?thesis by (auto simp: starts_with_def)
qed

lemma entry_words:
  assumes "(t, ws) \<in> set (keyword_words @ punctuation)" "w \<in> set ws"
  shows "t \<notin> set free_kinds \<and> w \<in> set (fixed_words t)"
proof -
  have "t \<notin> set free_kinds" using assms(1)
    by (auto simp: keyword_words_def punctuation_def free_kinds_def)
  moreover have "w \<in> set (fixed_words t)"
    unfolding fixed_words_def using assms by (auto simp: image_iff split_beta intro!: bexI [of _ "(t, ws)"])
  ultimately show ?thesis by blast
qed

lemma next_token_cases:
  assumes "next_token s = Some (t, n)"
  obtains (fixed) "t \<notin> set free_kinds" "take n s \<in> set (fixed_words t)"
  | (space) "t = Whitespace" "match_run lexer_space s = Some n"
  | (line) "t = LineComment" "match_line_comment s = Some n"
  | (block) "t = BlockComment" "match_block_comment s = Some n"
  | (str) "t = CstStringLit" "match_quoted DQ s = Some n"
  | (nam) "t = UnrestrictedName" "match_quoted SQ s = Some n"
  | (num) "t = NumberLit" "match_number s = Some n"
  | (idt) "t = CstIdent" "match_ident s = Some n"
proof -
  have fx: "t \<notin> set free_kinds \<and> take n s \<in> set (fixed_words t)"
    if "(t, ws) \<in> set (keyword_words @ punctuation)" "match_words ws s = Some n" for ws
    using entry_words [OF that(1)] match_words_Some [OF that(2)] by blast
  have m: "(t, Some n) \<in> set (map (\<lambda>(t, ws). (t, match_words ws s)) xs) \<longleftrightarrow>
      (\<exists>ws. (t, ws) \<in> set xs \<and> match_words ws s = Some n)" for xs
    by (auto simp: image_iff) (metis case_prod_conv)
  have "(t, Some n) \<in> set (token_matches s)" using assms by (rule next_token_member)
  then consider ws where "(t, ws) \<in> set (keyword_words @ punctuation)" "match_words ws s = Some n"
    | "(t, Some n) \<in> set [(Whitespace, match_run lexer_space s), (LineComment, match_line_comment s),
        (BlockComment, match_block_comment s), (CstStringLit, match_quoted DQ s),
        (UnrestrictedName, match_quoted SQ s), (NumberLit, match_number s), (CstIdent, match_ident s)]"
    unfolding token_matches_def set_append Un_iff m by auto
  then show ?thesis
  proof cases
    case 1
    then show ?thesis using fx that(1) by blast
  next
    case 2
    then show ?thesis using that(2-8) by auto
  qed
qed

lemma not_space_ident: "lexer_space c \<Longrightarrow> \<not> is_ident_char c"
  by (auto simp: lexer_space_def is_ident_char_def is_ascii_alphanumeric_def is_ascii_alphabetic_def
      is_ascii_uppercase_def is_ascii_lowercase_def is_ascii_digit_def code_def)

lemma ident_start_char: "is_ident_start c \<Longrightarrow> is_ident_char c"
  by (auto simp: is_ident_start_def is_ident_char_def is_ascii_alphanumeric_def)

text \<open>Letters, digits and underscores, against a given other character.\<close>

lemma ident_char_code:
  "is_ident_char c \<longleftrightarrow> 48 \<le> code c \<and> code c \<le> 57 \<or> 65 \<le> code c \<and> code c \<le> 90 \<or> code c = 95 \<or>
     97 \<le> code c \<and> code c \<le> 122"
proof -
  have "c = CHR ''_'' \<longleftrightarrow> code c = 95"
  proof
    assume "code c = 95"
    then have "c = char_of (95 :: nat)" by (metis char_of_char code_def)
    moreover have "char_of (95 :: nat) = CHR ''_''" by code_simp
    ultimately show "c = CHR ''_''" by simp
  qed (simp add: code_def)
  then show ?thesis
    by (auto simp: is_ident_char_def is_ascii_alphanumeric_def is_ascii_alphabetic_def
        is_ascii_uppercase_def is_ascii_lowercase_def is_ascii_digit_def)
qed

lemma ident_start_code: "is_ident_start c \<longleftrightarrow> is_ident_char c \<and> \<not> is_ascii_digit c"
  by (auto simp: is_ident_start_def is_ident_char_def is_ascii_alphanumeric_def is_ascii_alphabetic_def
      is_ascii_uppercase_def is_ascii_lowercase_def is_ascii_digit_def code_def)

lemma set_takeWhile: "x \<in> set (takeWhile P xs) \<Longrightarrow> P x"
  by (rule set_takeWhileD [THEN conjunct2])

lemma take_takeWhile: "take (length (takeWhile P s)) s = takeWhile P s"
  by (metis takeWhile_eq_take)

definition number_char :: "char \<Rightarrow> bool" where
  "number_char c \<longleftrightarrow> is_ascii_digit c \<or> c \<in> set ''.eE+-''"

lemma digits_chars: "c \<in> set (take (digits_len s) s) \<Longrightarrow> number_char c"
  by (auto simp: digits_len_def take_takeWhile number_char_def dest: set_takeWhile)

lemma fraction_chars: "c \<in> set (take (fraction_len s) s) \<Longrightarrow> number_char c"
  using digits_chars by (auto simp: fraction_len_def number_char_def split: list.splits if_splits)

lemma exponent_chars: "c \<in> set (take (exponent_len s) s) \<Longrightarrow> number_char c"
proof (cases s)
  case (Cons d cs)
  assume c: "c \<in> set (take (exponent_len s) s)"
  define sg where "sg = (case cs of [] \<Rightarrow> 0 | d # _ \<Rightarrow> if d = CHR ''+'' \<or> d = CHR ''-'' then 1 else (0::nat))"
  have "take (1 + sg + digits_len (drop sg cs)) (d # cs) = d # take sg cs @ take (digits_len (drop sg cs)) (drop sg cs)"
    by (simp add: take_add)
  moreover have "x \<in> set (take sg cs) \<Longrightarrow> number_char x" for x
    by (auto simp: sg_def number_char_def split: list.splits if_splits)
  ultimately show ?thesis using c Cons digits_chars
    by (auto simp: exponent_len_def sg_def [symmetric] Let_def number_char_def split: if_splits)
qed (simp add: exponent_len_def)

lemma number_literal_chars: "match_number s = Some n \<Longrightarrow> c \<in> set (take n s) \<Longrightarrow> number_char c"
  by (auto simp: match_number_def Let_def take_add split: if_splits
      dest: digits_chars fraction_chars exponent_chars)

definition is_brace :: "char \<Rightarrow> bool" where
  "is_brace c \<longleftrightarrow> c = CHR ''{'' \<or> c = CHR ''}''"

lemma not_brace: "is_ident_char c \<Longrightarrow> \<not> is_brace c" "lexer_space c \<Longrightarrow> \<not> is_brace c" "number_char c \<Longrightarrow> \<not> is_brace c"
  by (auto simp: is_brace_def ident_char_code lexer_space_def number_char_def is_ascii_digit_def code_def)

lemma fixed_braces:
  "list_all (\<lambda>(t, ws). list_all (\<lambda>w. list_all (\<lambda>c. \<not> is_brace c) w
     \<or> t = LBrace \<and> w = ''{'' \<or> t = RBrace \<and> w = ''}'') ws) (keyword_words @ punctuation)"
  by code_simp

definition opaque_kind :: "SysmlCstToken \<Rightarrow> bool" where
  "opaque_kind t \<longleftrightarrow> t \<in> {LineComment, BlockComment, CstStringLit, UnrestrictedName}"

text \<open>Outside comments and quotes a brace is a token of its own.\<close>

lemma fixed_word_brace:
  assumes "w \<in> set (fixed_words t)"
  shows "(\<forall>c \<in> set w. \<not> is_brace c) \<or> t = LBrace \<and> w = ''{'' \<or> t = RBrace \<and> w = ''}''"
proof -
  obtain ws where "(t, ws) \<in> set (keyword_words @ punctuation)" "w \<in> set ws"
    using assms by (auto simp: fixed_words_def)
  then show ?thesis using fixed_braces unfolding list_all_iff by fastforce
qed

lemma token_brace:
  assumes "next_token s = Some (t, n)" "\<not> opaque_kind t"
  shows "(\<forall>c \<in> set (take n s). \<not> is_brace c) \<and> t \<noteq> LBrace \<and> t \<noteq> RBrace \<or>
    t = LBrace \<and> take n s = ''{'' \<and> n = 1 \<or> t = RBrace \<and> take n s = ''}'' \<and> n = 1"
  using assms(1)
proof (cases rule: next_token_cases)
  case fixed
  have n: "n \<le> length s" "0 < n" using next_token_sized [OF assms(1)] by auto
  have l: "fixed_words LBrace = [''{'']" "fixed_words RBrace = [''}'']" by code_simp+
  have "length (take n s) = n" using n by simp
  then show ?thesis using fixed_word_brace [OF fixed(2)] fixed(2) l
    by (cases "t = LBrace"; cases "t = RBrace"; force simp: is_brace_def)
next
  case space
  have "take n s = takeWhile lexer_space s"
    using space(2) by (auto simp: match_run_def Let_def take_takeWhile split: if_splits)
  then show ?thesis using space(1) not_brace(2) by (auto dest: set_takeWhile)
next
  case num
  then show ?thesis using number_literal_chars not_brace(3) by fastforce
next
  case idt
  have "take n s = takeWhile is_ident_char s"
    using idt(2) take_takeWhile [of is_ident_char s] by (auto simp: match_ident_def split: list.splits if_splits)
  then show ?thesis using idt(1) not_brace(1) by (auto dest: set_takeWhile)
qed (use assms in \<open>auto simp: opaque_kind_def\<close>)

section \<open>Plain texts\<close>

text \<open>A text of names, blanks and single-character punctuation has no comment, quote or error.\<close>

definition plain_punct :: string where
  "plain_punct = ''~@#.,;{}[]()=+-*%<>?!:''"

definition plain_char :: "char \<Rightarrow> bool" where
  "plain_char c \<longleftrightarrow> is_ident_char c \<or> lexer_space c \<or> c \<in> set plain_punct"

lemma not_plain_char: "\<not> plain_char (CHR ''/'')" "\<not> plain_char DQ" "\<not> plain_char SQ" "\<not> plain_char BS"
  by code_simp+

lemma match_words_hit: "w \<in> set ws \<Longrightarrow> starts_with s w \<Longrightarrow> match_words ws s \<noteq> None"
  by (auto simp: match_words_def filter_empty_conv split: list.splits)

lemma punct_entry: "list_all (\<lambda>c. \<exists>(t, ws) \<in> set punctuation. [c] \<in> set ws) plain_punct"
  by code_simp

lemma next_token_hit:
  assumes "(t, m) \<in> set (token_matches s)" "m \<noteq> None"
  shows "next_token s \<noteq> None"
  using assms longest_match_None [of "token_matches s"] by (auto simp: next_token_def)

lemma plain_next_token:
  assumes "plain_char c"
  shows "next_token (c # cs) \<noteq> None"
proof -
  consider "is_ident_start c" | "is_ascii_digit c" | "lexer_space c" | "c \<in> set plain_punct"
    using assms ident_start_code by (auto simp: plain_char_def)
  then show ?thesis
  proof cases
    case 1
    then have "match_ident (c # cs) \<noteq> None" by (simp add: match_ident_def)
    then show ?thesis by (intro next_token_hit [of CstIdent]) (simp_all add: token_matches_def)
  next
    case 2
    then have "match_number (c # cs) \<noteq> None" by (simp add: match_number_def digits_len_def Let_def)
    then show ?thesis by (intro next_token_hit [of NumberLit]) (simp_all add: token_matches_def)
  next
    case 3
    then have "match_run lexer_space (c # cs) \<noteq> None" by (simp add: match_run_def)
    then show ?thesis by (intro next_token_hit [of Whitespace]) (simp_all add: token_matches_def)
  next
    case 4
    then obtain t ws where t: "(t, ws) \<in> set punctuation" "[c] \<in> set ws"
      using punct_entry by (auto simp: list_all_iff)
    then have "(t, match_words ws (c # cs)) \<in> set (token_matches (c # cs))"
      unfolding token_matches_def set_append by (auto simp: image_iff intro!: bexI [of _ "(t, ws)"])
    then show ?thesis using match_words_hit [OF t(2), of "c # cs"] by (intro next_token_hit) simp_all
  qed
qed

lemma opaque_start:
  assumes "next_token s = Some (t, n)" "opaque_kind t"
  shows "s \<noteq> [] \<and> (hd s = CHR ''/'' \<or> hd s = DQ \<or> hd s = SQ)"
  using assms(1)
proof (cases rule: next_token_cases)
  case fixed
  then show ?thesis using assms(2) by (auto simp: opaque_kind_def free_kinds_def)
qed (use assms(2) in \<open>cases s; auto simp: opaque_kind_def match_line_comment_def match_block_comment_def
      match_quoted_def split: if_splits list.splits\<close>)+

lemma plain_token:
  assumes "list_all plain_char s" "s \<noteq> []"
  obtains t n where "next_token s = Some (t, n)" "\<not> opaque_kind t"
proof -
  obtain c cs where s: "s = c # cs" using assms(2) by (cases s) auto
  then obtain t n where t: "next_token s = Some (t, n)" using plain_next_token [of c cs] assms(1) by auto
  moreover have "\<not> opaque_kind t"
    using opaque_start [OF t] s assms(1) not_plain_char by auto
  ultimately show thesis using that by blast
qed

text \<open>Which tokens a text can have at all, by the characters in it.\<close>

lemma token_at_plain:
  assumes "list_all plain_char s" "s \<noteq> []"
  shows "\<exists>t n. token_at err s = (Some t, n) \<and> next_token s = Some (t, n) \<and> \<not> opaque_kind t"
  using plain_token [OF assms] by (metis token_at_def option.simps(5) prod.simps(2))

lemma opaque_member:
  assumes "(Some t, i, j) \<in> set (lexer err s)" "opaque_kind t"
  shows "CHR ''/'' \<in> set s \<or> DQ \<in> set s \<or> SQ \<in> set s"
proof -
  have d: "drop i s \<noteq> []" "token_at err (drop i s) = (Some t, j - i)" using lexer_member [OF assms(1)] by auto
  then have "next_token (drop i s) = Some (t, j - i)" by (auto simp: token_at_def split: option.splits)
  then have "hd (drop i s) \<in> {CHR ''/'', DQ, SQ}" using opaque_start assms(2) by fastforce
  moreover have "hd (drop i s) \<in> set s" using d(1) by (metis hd_in_set in_set_dropD)
  ultimately show ?thesis by auto
qed

section \<open>Words\<close>

text \<open>A maximal run of letters, digits and underscores is one token; a table look-up gives its kind.\<close>

definition word_kind :: "string \<Rightarrow> SysmlCstToken" where
  "word_kind w = (case find (\<lambda>(t, ws). w \<in> set ws) keyword_words of Some (t, _) \<Rightarrow> t | None \<Rightarrow> CstIdent)"

lemma lower_start: "list_all is_ident_start ''abcdefghijklmnopqrstuvwxyz''"
  by code_simp

lemma lower_ident: "list_all is_ident_char ''abcdefghijklmnopqrstuvwxyz''"
  using lower_start by (simp add: ident_start_char)

lemma keyword_chars: "list_all (\<lambda>(t, ws). list_all (\<lambda>w. w \<noteq> [] \<and> list_all is_ident_char w) ws) keyword_words"
  unfolding keyword_words_def by (simp add: lower_ident [simplified])

lemma starts_with_run:
  assumes "starts_with s w" "list_all P w"
  shows "length w \<le> length (takeWhile P s) \<and> (length w = length (takeWhile P s) \<longrightarrow> w = takeWhile P s)"
proof -
  obtain r where "s = w @ r" using assms(1) by (auto simp: starts_with_iff prefix_def)
  then have "takeWhile P s = w @ takeWhile P r" using assms(2) by (simp add: takeWhile_all list_all_iff)
  then show ?thesis by simp
qed

lemma run_starts_with: "starts_with s (takeWhile P s)"
  by (simp add: starts_with_def take_takeWhile)

lemma longest_keyword:
  assumes "list_all (\<lambda>(t, ws). list_all (\<lambda>w. w \<noteq> [] \<and> list_all is_ident_char w) ws) kws"
    and "w = takeWhile is_ident_char s"
  shows "longest_match (map (\<lambda>(t, ws). (t, match_words ws s)) kws @ [(CstIdent, Some (length w))]) =
    Some (case find (\<lambda>(t, ws). w \<in> set ws) kws of Some (t, _) \<Rightarrow> t | None \<Rightarrow> CstIdent, length w)"
  using assms(1)
proof (induction kws)
  case Nil
  then show ?case by simp
next
  case (Cons k kws)
  obtain t ws where k: "k = (t, ws)" by (cases k)
  have ws: "\<forall>v \<in> set ws. list_all is_ident_char v" using Cons.prems k by (auto simp: list_all_iff)
  note IH = Cons.IH [OF Cons.prems [simplified, THEN conjunct2, folded case_prod_unfold]]
  show ?case
  proof (cases "match_words ws s")
    case None
    then have "w \<notin> set ws" using match_words_hit [of w ws s] run_starts_with assms(2) by auto
    then show ?thesis using IH None k by simp
  next
    case (Some n)
    then obtain v where v: "v \<in> set ws" "starts_with s v" "length v = n" using match_words_Some by blast
    have "n \<le> length w" "n = length w \<Longrightarrow> v = w"
      using starts_with_run [OF v(2), of is_ident_char] ws v(1,3) assms(2) by auto
    moreover have "n = length w" if "w \<in> set ws"
    proof -
      let ?F = "filter (starts_with s) ws"
      have "w \<in> set ?F" using that run_starts_with assms(2) by auto
      moreover have "n = Max (length ` set ?F)"
        using Some by (cases ?F; simp add: match_words_def del: set_filter)
      ultimately have "length w \<le> n" by (simp add: Max_ge)
      then show ?thesis using \<open>n \<le> length w\<close> by simp
    qed
    ultimately show ?thesis using IH Some k v(1) by (cases "n = length w") auto
  qed
qed

lemma longest_match_none: "list_all (\<lambda>(t, m). m = None) ms \<Longrightarrow> longest_match ms = None"
  by (induction ms rule: longest_match.induct) auto

lemma match_words_none: "list_all (\<lambda>w. w \<noteq> [] \<and> hd w \<noteq> c) ws \<Longrightarrow> match_words ws (c # cs) = None"
proof -
  assume a: "list_all (\<lambda>w. w \<noteq> [] \<and> hd w \<noteq> c) ws"
  have "\<not> starts_with (c # cs) w" if "w \<in> set ws" for w
    using a that by (cases w) (auto simp: list_all_iff)
  then have "filter (starts_with (c # cs)) ws = []" by (simp add: filter_empty_conv)
  then show ?thesis by (simp add: match_words_def)
qed

lemma table_none:
  assumes "list_all (\<lambda>(t, ws). list_all (\<lambda>w. w \<noteq> [] \<and> P (hd w)) ws) tab" "\<not> P c"
  shows "longest_match (map (\<lambda>(t, ws). (t, match_words ws (c # cs))) tab) = None"
proof (rule longest_match_none)
  have "match_words ws (c # cs) = None" if "(t, ws) \<in> set tab" for t ws
    using assms that by (intro match_words_none) (fastforce simp: list_all_iff)
  then show "list_all (\<lambda>(t, m). m = None) (map (\<lambda>(t, ws). (t, match_words ws (c # cs))) tab)"
    by (auto simp: list_all_iff)
qed

lemma keyword_heads: "list_all (\<lambda>(t, ws). list_all (\<lambda>w. w \<noteq> [] \<and> is_ident_char (hd w)) ws) keyword_words"
  unfolding keyword_words_def by (simp add: lower_ident [simplified])

lemma punctuation_heads:
  "list_all (\<lambda>(t, ws). list_all (\<lambda>w. w \<noteq> [] \<and> \<not> is_ident_char (hd w)) ws) punctuation"
  "list_all (\<lambda>(t, ws). list_all (\<lambda>w. w \<noteq> [] \<and> \<not> lexer_space (hd w)) ws) punctuation"
  by code_simp+

lemma match_none:
  "\<not> P c \<Longrightarrow> match_run P (c # cs) = None"
  "c \<noteq> CHR ''/'' \<Longrightarrow> match_line_comment (c # cs) = None"
  "c \<noteq> CHR ''/'' \<Longrightarrow> match_block_comment (c # cs) = None"
  "c \<noteq> q \<Longrightarrow> match_quoted q (c # cs) = None"
  "\<not> is_ascii_digit c \<Longrightarrow> match_number (c # cs) = None"
  "\<not> is_ident_start c \<Longrightarrow> match_ident (c # cs) = None"
  by (simp_all add: match_run_def match_line_comment_def match_block_comment_def match_quoted_def
      match_number_def digits_len_def match_ident_def Let_def)

lemma char_classes:
  "is_ident_start c \<Longrightarrow> c \<noteq> CHR ''/'' \<and> c \<noteq> DQ \<and> c \<noteq> SQ \<and> \<not> lexer_space c \<and> \<not> is_ascii_digit c \<and> is_ident_char c"
  "lexer_space c \<Longrightarrow> c \<noteq> CHR ''/'' \<and> c \<noteq> DQ \<and> c \<noteq> SQ \<and> \<not> is_ident_char c \<and> \<not> is_ascii_digit c \<and> \<not> is_ident_start c"
proof -
  have n: "\<not> is_ident_char (CHR ''/'')" "\<not> is_ident_char DQ" "\<not> is_ident_char SQ"
    "\<not> lexer_space (CHR ''/'')" "\<not> lexer_space DQ" "\<not> lexer_space SQ" by code_simp+
  have d: "is_ascii_digit c \<Longrightarrow> is_ident_char c" by (simp add: is_ident_char_def is_ascii_alphanumeric_def)
  show "is_ident_start c \<Longrightarrow> c \<noteq> CHR ''/'' \<and> c \<noteq> DQ \<and> c \<noteq> SQ \<and> \<not> lexer_space c \<and> \<not> is_ascii_digit c \<and> is_ident_char c"
    using n not_space_ident by (auto simp: ident_start_code)
  show "lexer_space c \<Longrightarrow> c \<noteq> CHR ''/'' \<and> c \<noteq> DQ \<and> c \<noteq> SQ \<and> \<not> is_ident_char c \<and> \<not> is_ascii_digit c \<and> \<not> is_ident_start c"
    using n not_space_ident [of c] d by (auto simp: ident_start_code)
qed

lemma longest_match_skip: "longest_match ms = None \<Longrightarrow> longest_match (ms @ ns) = longest_match ns"
  by (simp add: longest_match_append)

lemma longest_match_skip2: "longest_match ps = None \<Longrightarrow> longest_match (ks @ ps @ ns) = longest_match (ks @ ns)"
  by (simp add: longest_match_append [of ks] longest_match_skip cong: option.case_cong)

lemma next_token_word:
  assumes "is_ident_start c"
  shows "next_token (c # cs) =
    Some (word_kind (takeWhile is_ident_char (c # cs)), length (takeWhile is_ident_char (c # cs)))"
proof -
  let ?s = "c # cs"
  note cl = char_classes(1) [OF assms]
  let ?K = "map (\<lambda>(t, ws). (t, match_words ws ?s)) keyword_words"
  let ?P = "map (\<lambda>(t, ws). (t, match_words ws ?s)) punctuation"
  define w where "w = takeWhile is_ident_char ?s"
  let ?N = "[(CstStringLit, None), (UnrestrictedName, None), (NumberLit, None)] :: (SysmlCstToken \<times> nat option) list"
  let ?I = "[(CstIdent, Some (length w))]"
  have P: "longest_match ?P = None" using cl by (intro table_none [OF punctuation_heads(1)]) simp
  have "token_matches ?s = [(Whitespace, None), (LineComment, None), (BlockComment, None)] @ ?K @ ?P
      @ ?N @ ?I"
    using cl assms by (simp add: token_matches_def match_none match_ident_def w_def)
  then have "next_token ?s = longest_match (?K @ ?P @ ?N @ ?I)" by (simp add: next_token_def)
  also have "... = longest_match (?K @ ?I)"
    by (simp only: longest_match_skip2 [OF P] longest_match_skip2 [of ?N ?K ?I] longest_match.simps option.case)
  also have "... = Some (word_kind w, length w)"
    unfolding word_kind_def by (rule longest_keyword [OF keyword_chars w_def])
  finally show ?thesis by (simp only: w_def)
qed

lemma next_token_space:
  assumes "lexer_space c"
  shows "next_token (c # cs) = Some (Whitespace, Suc (length (takeWhile lexer_space cs)))"
proof -
  let ?s = "c # cs"
  note cl = char_classes(2) [OF assms]
  let ?K = "map (\<lambda>(t, ws). (t, match_words ws ?s)) keyword_words"
  let ?P = "map (\<lambda>(t, ws). (t, match_words ws ?s)) punctuation"
  have P: "longest_match ?P = None" "longest_match ?K = None"
    using cl assms by (auto intro!: table_none [OF punctuation_heads(2)] table_none [OF keyword_heads])
  have "token_matches ?s = [(Whitespace, Some (Suc (length (takeWhile lexer_space cs)))),
      (LineComment, None), (BlockComment, None)] @ ?K @ ?P
      @ [(CstStringLit, None), (UnrestrictedName, None), (NumberLit, None), (CstIdent, None)]"
    using cl assms by (simp add: token_matches_def match_none match_run_def)
  then show ?thesis
    by (simp add: next_token_def longest_match_append [of ?K] longest_match_append [of ?P] P)
qed

text \<open>The equation for evaluation looks at the first character first.\<close>

lemma next_token_code [code]:
  "next_token s =
     (case s of [] \<Rightarrow> None
      | c # cs \<Rightarrow>
          if is_ident_start c then
            (let w = takeWhile is_ident_char s in Some (word_kind w, length w))
          else if lexer_space c then Some (Whitespace, Suc (length (takeWhile lexer_space cs)))
          else longest_match
            ([(LineComment, match_line_comment s), (BlockComment, match_block_comment s)]
             @ map (\<lambda>(t, ws). (t, match_words ws s)) punctuation
             @ [(CstStringLit, match_quoted DQ s), (UnrestrictedName, match_quoted SQ s),
                (NumberLit, match_number s)]))"
proof (cases s)
  case Nil
  have "match_words ws [] = None" if "[] \<notin> set ws" for ws
    using sized_words [OF that, of "[]"] by (cases "match_words ws []") (auto simp: sized_def)
  then have "list_all (\<lambda>(t, m). m = None) (token_matches [])"
    using sized_others [of "[]"] sized_number [of "[]"] words_nonempty
    by (fastforce simp: list_all_iff token_matches_def match_run_def match_line_comment_def
        match_block_comment_def match_quoted_def match_number_def digits_len_def match_ident_def)
  then show ?thesis using Nil by (simp add: next_token_def longest_match_none)
next
  case (Cons c cs)
  let ?K = "map (\<lambda>(t, ws). (t, match_words ws s)) keyword_words"
  consider "is_ident_start c" | "lexer_space c" "\<not> is_ident_start c" | "\<not> is_ident_start c" "\<not> lexer_space c" by blast
  then show ?thesis
  proof cases
    case 1
    then show ?thesis using Cons by (simp add: next_token_word Let_def)
  next
    case 2
    then show ?thesis using Cons by (simp add: next_token_space)
  next
    case 3
    have "list_all (\<lambda>(t, ws). list_all (\<lambda>w. w \<noteq> [] \<and> is_ident_start (hd w)) ws) keyword_words"
      unfolding keyword_words_def by (simp add: lower_start [simplified])
    then have K: "longest_match ?K = None" unfolding Cons using 3(1) by (rule table_none)
    have tail: "longest_match (ms @ [(CstIdent, None)]) = longest_match ms" for ms
      by (simp add: longest_match_append split: option.splits)
    have "token_matches s = [(Whitespace, None)]
        @ [(LineComment, match_line_comment s), (BlockComment, match_block_comment s)]
        @ ?K @ (map (\<lambda>(t, ws). (t, match_words ws s)) punctuation
             @ [(CstStringLit, match_quoted DQ s), (UnrestrictedName, match_quoted SQ s),
                (NumberLit, match_number s)]) @ [(CstIdent, None)]"
      using 3 by (simp add: token_matches_def Cons match_none)
    then have "next_token s =
        longest_match ([(LineComment, match_line_comment s), (BlockComment, match_block_comment s)]
             @ (map (\<lambda>(t, ws). (t, match_words ws s)) punctuation
             @ [(CstStringLit, match_quoted DQ s), (UnrestrictedName, match_quoted SQ s),
                (NumberLit, match_number s)]) @ [(CstIdent, None)])"
      by (simp only: next_token_def longest_match_skip2 [OF K] longest_match_skip longest_match.simps option.case)
    then show ?thesis using 3 Cons by (simp only: append_assoc [symmetric] tail list.case if_False)
  qed
qed

text \<open>
  C24: The lexer loses nothing: the slices of the tokens, one after the other, are the text, no token
  is empty, the slice of a token is the text at its span, and a token that is not an error is the
  longest match of any pattern there.
\<close>

theorem tokenize_lossless:
  "concat (map lexed_slice (tokenize_sysml err source)) = source \<and>
   list_all (\<lambda>tok. lexed_slice tok \<noteq> [] \<and>
     lexed_slice tok = get_range source (fst (lexed_span tok)) (snd (lexed_span tok)) \<and>
     (lexed_token tok = ErrorToken \<or>
      longest_match (token_matches (drop (fst (lexed_span tok)) source)) =
        Some (lexed_token tok, length (lexed_slice tok)))) (tokenize_sysml err source)"
proof
  show "concat (map lexed_slice (tokenize_sysml err source)) = source"
    using sysml_lexer.ranges_concat [of source err] by (simp add: tokenize_sysml_def comp_def case_prod_unfold)
  have "get_range source i j \<noteq> [] \<and>
      (res = None \<or> longest_match (token_matches (drop i source)) = Some (the res, length (get_range source i j)))"
    if m: "(res, i, j) \<in> set (lexer err source)" for res i j
  proof -
    have b: "i < j" "j \<le> length source" using sysml_lexer.span_bounds [OF m] by auto
    have "token_at err (drop i source) = (res, j - i)" using lexer_member [OF m] by simp
    then have "res = None \<or> next_token (drop i source) = Some (the res, j - i)"
      by (auto simp: token_at_def split: option.splits)
    then show ?thesis using b length_get_range [OF b(2), of i] by (auto simp: next_token_def)
  qed
  then show "list_all (\<lambda>tok. lexed_slice tok \<noteq> [] \<and>
     lexed_slice tok = get_range source (fst (lexed_span tok)) (snd (lexed_span tok)) \<and>
     (lexed_token tok = ErrorToken \<or>
      longest_match (token_matches (drop (fst (lexed_span tok)) source)) =
        Some (lexed_token tok, length (lexed_slice tok)))) (tokenize_sysml err source)"
    by (fastforce simp: tokenize_sysml_def list_all_iff split: option.splits)
qed

end
