(* ===== verification/Sysml_Scan.thy ===== *)
theory Sysml_Scan
  imports Sysml_Lexer Sysml_Model
begin

text \<open>
  The scanning primitives of the SysML front end: \<^verbatim>\<open>deap-core/src/sysml_cst/identifiers.rs\<close> and
  the comment strippers of \<^verbatim>\<open>model_parser.rs\<close>. The extractors walk a text by position, over a copy
  without comments and a second copy with its literals blanked; \<^verbatim>\<open>text.get(p..).unwrap_or("")\<close>
  is \<open>drop p text\<close>. Positions and lengths are those of a text in memory, so the saturating
  additions never saturate.
\<close>

section \<open>Positions\<close>

definition get_char :: "string \<Rightarrow> nat \<Rightarrow> char option" where
  "get_char text i = (if i < length text then Some (text ! i) else None)"

text \<open>\<^verbatim>\<open>get(i..j)\<close>: nothing for an inverted range or one past the end.\<close>

definition get_slice :: "string \<Rightarrow> nat \<Rightarrow> nat \<Rightarrow> string option" where
  "get_slice s i j = (if i \<le> j \<and> j \<le> length s then Some (get_range s i j) else None)"

text \<open>\<^verbatim>\<open>find\<close> and \<^verbatim>\<open>rfind\<close>: where the first and the last occurrence of a nonempty pattern starts.\<close>

definition find_pos :: "string \<Rightarrow> string \<Rightarrow> nat option" where
  "find_pos pat s = map_option (\<lambda>(a, _). length a) (split_once pat s)"

definition rfind_pos :: "string \<Rightarrow> string \<Rightarrow> nat option" where
  "rfind_pos pat s = map_option (\<lambda>(_, b). length b) (split_once (rev pat) (rev s))"

definition is_word_boundary_before :: "string \<Rightarrow> nat \<Rightarrow> bool" where
  "is_word_boundary_before text pos \<longleftrightarrow>
     (if pos = 0 then True
      else case get_char text (pos - 1) of None \<Rightarrow> True | Some b \<Rightarrow> \<not> is_ident_char b)"

definition is_word_boundary_after :: "string \<Rightarrow> nat \<Rightarrow> bool" where
  "is_word_boundary_after text pos \<longleftrightarrow>
     (case get_char text pos of None \<Rightarrow> True | Some b \<Rightarrow> \<not> is_ident_char b)"

text \<open>\<^verbatim>\<open>u8::is_ascii_whitespace\<close>: blank, tab, line feed, form feed, carriage return.\<close>

definition is_ascii_whitespace :: "char \<Rightarrow> bool" where
  "is_ascii_whitespace b \<longleftrightarrow> code b = 32 \<or> code b = 9 \<or> code b = 10 \<or> code b = 12 \<or> code b = 13"

definition skip_ws :: "string \<Rightarrow> nat" where
  "skip_ws text = length (takeWhile is_ascii_whitespace text)"

definition extract_ident :: "string \<Rightarrow> string \<times> nat" where
  "extract_ident text = (let len = length (takeWhile is_ident_char text) in (take len text, len))"

text \<open>The test \<^verbatim>\<open>starts_with(kw) && is_word_boundary_after(s, kw.len())\<close> the extractors repeat.\<close>

definition starts_with_word :: "string \<Rightarrow> string \<Rightarrow> bool" where
  "starts_with_word s kw \<longleftrightarrow> starts_with s kw \<and> is_word_boundary_after s (length kw)"

text \<open>The step \<^verbatim>\<open>curr + skip_ws(text.get(curr..))\<close>.\<close>

definition skip_from :: "string \<Rightarrow> nat \<Rightarrow> nat" where
  "skip_from text cur = cur + skip_ws (drop cur text)"

text \<open>The optional word \<^verbatim>\<open>def\<close> and the blanks after it.\<close>

definition skip_def :: "string \<Rightarrow> nat \<Rightarrow> bool \<times> nat" where
  "skip_def masked cur =
     (if starts_with_word (drop cur masked) ''def'' then (True, skip_from masked (cur + 3)) else (False, cur))"

fun type_ident_len :: "string \<Rightarrow> nat \<Rightarrow> span list \<Rightarrow> nat" where
  "type_ident_len s len [] = len"
| "type_ident_len s len ((res, i, j) # spans) =
     (if i = len \<and> (res = Some ColonColon \<or> get_range s i j \<noteq> [] \<and> list_all is_ident_char (get_range s i j))
      then type_ident_len s j spans else len)"

definition extract_type_ident :: "(string \<Rightarrow> nat) \<Rightarrow> string \<Rightarrow> string \<times> nat" where
  "extract_type_ident err s = (let len = type_ident_len s 0 (lexer err s) in (take len s, len))"

definition is_reserved_subsystem_keyword :: "string \<Rightarrow> bool" where
  "is_reserved_subsystem_keyword s \<longleftrightarrow>
     list_ex (eq_ignore_ascii_case s)
      [''true'', ''false'', ''null'', ''none'', ''na'', ''string'', ''int'', ''integer'', ''boolean'', ''float'',
       ''description'', ''version'', ''name'', ''id'', ''type'', ''subsystem'', ''component'', ''part'',
       ''module'', ''parameters'', ''attributes'', ''properties'', ''specs'', ''metadata'', ''title'',
       ''status'', ''real'', ''primary'', ''secondary'', ''optional'', ''required'', ''level'', ''segment'',
       ''layer'', ''architecture'', ''purpose'', ''function'', ''item'', ''flow'', ''port'', ''interface'',
       ''doc'', ''package'', ''def'']"

definition is_valid_subsystem_identifier :: "string \<Rightarrow> bool" where
  "is_valid_subsystem_identifier s \<longleftrightarrow>
     1 \<le> utf8_len s \<and> utf8_len s \<le> 128 \<and>
     (case s of [] \<Rightarrow> False | c # _ \<Rightarrow> is_ascii_alphabetic c \<or> c = CHR ''_'') \<and>
     \<not> is_reserved_subsystem_keyword s \<and>
     list_all (\<lambda>c. is_ascii_alphanumeric c \<or> c = CHR ''_'') s"

definition extract_doc_comment_before :: "string \<Rightarrow> nat \<Rightarrow> string option" where
  "extract_doc_comment_before text keyword_pos =
     (if length text < keyword_pos then None
      else let before_kw = trim_end (take keyword_pos text) in
        if \<not> ends_with before_kw ''*/'' then None
        else case rfind_pos ''/*'' before_kw of
          None \<Rightarrow> None
        | Some open_at \<Rightarrow>
            (let doc_prefix = trim_end (take open_at before_kw) in
             if \<not> ends_with doc_prefix ''doc'' then None
             else if \<not> is_word_boundary_before doc_prefix (length doc_prefix - 3) then None
             else if open_at + 2 \<le> length before_kw - 2
               then Some (trim (get_range before_kw (open_at + 2) (length before_kw - 2)))
             else None))"

definition extract_quoted_string :: "string \<Rightarrow> string option" where
  "extract_quoted_string s =
     (case strip_prefix s [DQ] of None \<Rightarrow> None
      | Some inner \<Rightarrow> map_option (\<lambda>n. take n inner) (find_pos [DQ] inner))"

section \<open>Braces\<close>

fun brace_scan :: "string \<Rightarrow> nat \<Rightarrow> span list \<Rightarrow> nat option" where
  "brace_scan tail depth [] = None"
| "brace_scan tail depth ((res, i, j) # spans) =
     (if res = Some LBrace then brace_scan tail (Suc depth) spans
      else if res = Some RBrace then
        (if depth = 0 then None
         else if depth - 1 = 0 then Some i else brace_scan tail (depth - 1) spans)
      else if res = None \<and> get_range tail i j = [DQ] then None
      else brace_scan tail depth spans)"

definition find_matching_brace :: "(string \<Rightarrow> nat) \<Rightarrow> string \<Rightarrow> nat \<Rightarrow> nat option" where
  "find_matching_brace err s open_pos =
     (if length s < open_pos then None
      else map_option (\<lambda>start. open_pos + start)
        (brace_scan (drop open_pos s) 0 (lexer err (drop open_pos s))))"

section \<open>Masking\<close>

definition blank :: "char \<Rightarrow> char" where
  "blank b = (if b = LF then LF else CHR '' '')"

text \<open>A range of the buffer blanked; \<^verbatim>\<open>get_mut\<close> of a range out of bounds changes nothing.\<close>

definition blank_range :: "nat \<Rightarrow> nat \<Rightarrow> string \<Rightarrow> string" where
  "blank_range a b out =
     (if a \<le> b \<and> b \<le> length out then take a out @ map blank (get_range out a b) @ drop b out else out)"

fun mask_spans :: "string \<Rightarrow> span list \<Rightarrow> string \<Rightarrow> string" where
  "mask_spans s [] out = out"
| "mask_spans s ((res, i, j) # spans) out =
     (if res = Some CstStringLit then mask_spans s spans (blank_range (i + 1) (j - 1) out)
      else if res = Some LineComment \<or> res = Some BlockComment then mask_spans s spans (blank_range i j out)
      else if res = None \<and> starts_with (get_range s i j) [DQ] then blank_range (i + 1) (length out) out
      else mask_spans s spans out)"

definition mask_string_literals :: "(string \<Rightarrow> nat) \<Rightarrow> string \<Rightarrow> string" where
  "mask_string_literals err s = mask_spans s (lexer err s) s"

section \<open>Comments\<close>

fun strip_spans :: "string \<Rightarrow> bool \<Rightarrow> span list \<Rightarrow> string" where
  "strip_spans content prev_is_doc [] = []"
| "strip_spans content prev_is_doc ((res, i, j) # spans) =
     (let text = get_range content i j in
      if res = Some LineComment then strip_spans content prev_is_doc spans
      else if res = Some BlockComment then
        (if prev_is_doc then text @ strip_spans content False spans
         else CHR '' '' # filter (\<lambda>b. b = LF) text @ strip_spans content prev_is_doc spans)
      else if res = Some Whitespace then text @ strip_spans content prev_is_doc spans
      else text @ strip_spans content (res = Some DocMetaKw \<and> text = ''doc'') spans)"

definition strip_sysml_comments :: "(string \<Rightarrow> nat) \<Rightarrow> string \<Rightarrow> string" where
  "strip_sysml_comments err content = strip_spans content False (lexer err content)"

definition strip_all_block_comments_and_strings :: "(string \<Rightarrow> nat) \<Rightarrow> string \<Rightarrow> string" where
  "strip_all_block_comments_and_strings err input =
     concat (map (\<lambda>(res, i, j).
       let text = get_range input i j in
       if res = Some LineComment then []
       else if res = Some BlockComment then CHR '' '' # filter (\<lambda>b. b = LF) text
       else if res = Some CstStringLit then map blank text
       else text) (lexer err input))"

section \<open>Progress of the searches\<close>

lemma find_pos_Some: "find_pos pat s = Some n \<Longrightarrow> n + length pat \<le> length s \<and> starts_with (drop n s) pat"
  by (auto simp: find_pos_def dest!: split_once_length)

lemma brace_scan_range:
  assumes "brace_scan tail d ts = Some x" "tiles a b ts"
  shows "a \<le> x \<and> x < b"
  using assms
proof (induction tail d ts arbitrary: a rule: brace_scan.induct)
  case (2 tail d k i j ts)
  have t: "i = a" "a < j" "tiles j b ts" "j \<le> b" using 2(5) tiles_le by auto
  show ?case using 2(1-4) t by (auto split: if_splits) (metis less_imp_le_nat order.trans)+
qed simp

lemma find_matching_brace_range: "find_matching_brace err s p = Some q \<Longrightarrow> p \<le> q \<and> q < length s"
proof -
  assume f: "find_matching_brace err s p = Some q"
  then obtain x where x: "brace_scan (drop p s) 0 (lexer err (drop p s)) = Some x" "q = p + x" "p \<le> length s"
    by (auto simp: find_matching_brace_def split: if_splits)
  have "tiles 0 (length (drop p s)) (lexer err (drop p s))" by (rule sysml_lexer.tiling)
  from brace_scan_range [OF x(1) this] show ?thesis using x(2,3) by simp
qed

lemma skip_from_le: "p \<le> skip_from text p"
  by (simp add: skip_from_def)

lemma skip_def_le: "p \<le> snd (skip_def s p)"
  using skip_from_le [of "p + 3" s] by (auto simp: skip_def_def)

section \<open>Masking keeps every position\<close>

text \<open>A buffer that hides some characters of a text: same length, newlines kept.\<close>

definition hides :: "string \<Rightarrow> string \<Rightarrow> bool" where
  "hides out s \<longleftrightarrow> list_all2 (\<lambda>m c. m = c \<or> m = CHR '' '' \<and> c \<noteq> LF) out s"

lemma hides_refl [simp]: "hides s s"
  by (simp add: hides_def list_all2_refl)

lemma hides_length: "hides out s \<Longrightarrow> length out = length s"
  by (simp add: hides_def list_all2_lengthD)

lemma hides_trans: "hides a b \<Longrightarrow> hides b c \<Longrightarrow> hides a c"
  unfolding hides_def by (rule list_all2_trans) auto

lemma hides_blank: "hides (blank_range a b out) out"
proof (cases "a \<le> b \<and> b \<le> length out")
  case True
  have out: "out = take a out @ get_range out a b @ drop b out"
    using True get_range_append [of a b "length out" out] by (simp add: get_range_def)
  have "hides (map blank t) t" for t
    by (induction t) (auto simp: hides_def blank_def)
  then have "hides (take a out @ map blank (get_range out a b) @ drop b out) (take a out @ get_range out a b @ drop b out)"
    unfolding hides_def by (intro list_all2_appendI list_all2_refl) auto
  then show ?thesis using True out by (simp add: blank_range_def)
next
  case False
  then have "blank_range a b out = out" by (simp only: blank_range_def if_False)
  then show ?thesis by simp
qed

lemma hides_spans: "hides out s \<Longrightarrow> hides (mask_spans t spans out) s"
proof (induction t spans out rule: mask_spans.induct)
  case (2 t res i j spans out)
  then show ?case using hides_trans [OF hides_blank 2(4)] by simp
qed simp

lemma mask_hides: "hides (mask_string_literals err s) s"
  by (simp add: mask_string_literals_def hides_spans)

lemma mask_length [simp]: "length (mask_string_literals err s) = length s"
  by (rule hides_length [OF mask_hides])

lemma hides_newlines: "hides out s \<Longrightarrow> map (\<lambda>c. c = LF) out = map (\<lambda>c. c = LF) s"
  unfolding hides_def by (induction out s rule: list_all2_induct) auto

section \<open>Texts that are left alone\<close>

lemma mask_spans_id:
  assumes "\<forall>(res, i, j) \<in> set spans. res \<noteq> Some CstStringLit \<and> res \<noteq> Some LineComment \<and>
    res \<noteq> Some BlockComment \<and> (res = None \<longrightarrow> \<not> starts_with (get_range s i j) [DQ])"
  shows "mask_spans s spans out = out"
  using assms by (induction s spans out rule: mask_spans.induct) auto

lemma get_range_set: "c \<in> set (get_range s i j) \<Longrightarrow> c \<in> set s"
  by (auto simp: get_range_def dest: in_set_takeD in_set_dropD)

lemma opaque_absent:
  assumes "CHR ''/'' \<notin> set s" "(Some t, i, j) \<in> set (lexer err s)"
  shows "t \<noteq> LineComment \<and> t \<noteq> BlockComment"
proof -
  have d: "drop i s \<noteq> []" "token_at err (drop i s) = (Some t, j - i)" using lexer_member [OF assms(2)] by auto
  then have n: "next_token (drop i s) = Some (t, j - i)" by (auto simp: token_at_def split: option.splits)
  have a: "CHR ''/'' \<notin> set (drop i s)" using assms(1) by (auto dest: in_set_dropD)
  show ?thesis using n
  proof (cases rule: next_token_cases)
    case fixed
    then show ?thesis by (auto simp: free_kinds_def)
  qed (use a in \<open>cases "drop i s"; auto simp: match_line_comment_def match_block_comment_def split: if_splits\<close>)+
qed

lemma string_absent:
  assumes "DQ \<notin> set s" "(Some t, i, j) \<in> set (lexer err s)"
  shows "t \<noteq> CstStringLit"
proof -
  have d: "drop i s \<noteq> []" "token_at err (drop i s) = (Some t, j - i)" using lexer_member [OF assms(2)] by auto
  then have n: "next_token (drop i s) = Some (t, j - i)" by (auto simp: token_at_def split: option.splits)
  have a: "DQ \<notin> set (drop i s)" using assms(1) by (auto dest: in_set_dropD)
  show ?thesis using n
  proof (cases rule: next_token_cases)
    case fixed
    then show ?thesis by (auto simp: free_kinds_def)
  qed (use a in \<open>cases "drop i s"; auto simp: match_quoted_def split: if_splits\<close>)+
qed

lemma mask_plain:
  assumes "CHR ''/'' \<notin> set s" "DQ \<notin> set s"
  shows "mask_string_literals err s = s"
proof -
  have "\<not> starts_with (get_range s i j) [DQ]" for i j
    using assms(2) get_range_set [of DQ s i j] by (cases "get_range s i j") auto
  then show ?thesis unfolding mask_string_literals_def
    using opaque_absent [OF assms(1)] string_absent [OF assms(2)]
    by (intro mask_spans_id) fastforce
qed

lemma strip_spans_id:
  "\<forall>(res, i, j) \<in> set spans. res \<noteq> Some LineComment \<and> res \<noteq> Some BlockComment \<Longrightarrow>
   strip_spans s d spans = concat (map (\<lambda>(k, i, j). get_range s i j) spans)"
  by (induction s d spans rule: strip_spans.induct) (auto simp: Let_def)

lemma strip_plain:
  assumes "CHR ''/'' \<notin> set s"
  shows "strip_sysml_comments err s = s"
  unfolding strip_sysml_comments_def
  using opaque_absent [OF assms, of _ _ _ err] sysml_lexer.ranges_concat [of s err]
  by (subst strip_spans_id) auto

end
