(* ===== verification/Sysml_Braces.thy ===== *)
theory Sysml_Braces
  imports Sysml_Scan
begin

text \<open>
  What the scanning primitives of the SysML front end guarantee: the brace search finds the brace
  that closes the first block, comments and quotes not counted; masking keeps every position and
  every newline; stripping comments keeps the newlines. On texts without comments and quotes the
  search is the plain count of brace characters, which the extractors' proofs use.
\<close>

section \<open>Balanced token sequences\<close>

definition no_brace :: "span list \<Rightarrow> bool" where
  "no_brace ts \<longleftrightarrow> list_all (\<lambda>(k, i, j). k \<noteq> Some LBrace \<and> k \<noteq> Some RBrace) ts"

inductive balanced :: "span list \<Rightarrow> bool" where
  bal_nil: "balanced []"
| bal_skip: "k \<noteq> Some LBrace \<Longrightarrow> k \<noteq> Some RBrace \<Longrightarrow> balanced ts \<Longrightarrow> balanced ((k, i, j) # ts)"
| bal_block: "balanced inner \<Longrightarrow> balanced ts \<Longrightarrow>
    balanced ((Some LBrace, a, b) # inner @ (Some RBrace, c, d) # ts)"

text \<open>Sequences with \<open>n\<close> closing braces missing, the last of them at the end.\<close>

inductive open_blocks :: "nat \<Rightarrow> span list \<Rightarrow> bool" where
  ob_one: "balanced ts \<Longrightarrow> open_blocks (Suc 0) ts"
| ob_more: "balanced ts \<Longrightarrow> open_blocks n us \<Longrightarrow> open_blocks (Suc n) (ts @ (Some RBrace, i, j) # us)"

definition quote_error :: "string \<Rightarrow> span \<Rightarrow> bool" where
  "quote_error tail = (\<lambda>(k, i, j). k = None \<and> get_range tail i j = [DQ])"

lemma quote_error_iff [simp]: "quote_error tail (k, i, j) \<longleftrightarrow> k = None \<and> get_range tail i j = [DQ]"
  by (simp add: quote_error_def)

lemma no_brace_simps [simp]:
  "no_brace []"
  "no_brace ((k, i, j) # ts) \<longleftrightarrow> k \<noteq> Some LBrace \<and> k \<noteq> Some RBrace \<and> no_brace ts"
  by (simp_all add: no_brace_def)

lemma open_blocks_pos: "open_blocks n ts \<Longrightarrow> 0 < n"
  by (induction rule: open_blocks.induct) auto

lemma open_blocks_skip:
  "open_blocks n us \<Longrightarrow> k \<noteq> Some LBrace \<Longrightarrow> k \<noteq> Some RBrace \<Longrightarrow> open_blocks n ((k, i, j) # us)"
proof (induction rule: open_blocks.induct)
  case (ob_one ts)
  then show ?case by (simp add: bal_skip open_blocks.ob_one)
next
  case (ob_more ts n us i' j')
  then show ?case using open_blocks.ob_more [OF bal_skip] by (metis append_Cons)
qed

lemma open_blocks_block:
  assumes "open_blocks (Suc n) us" "0 < n"
  shows "open_blocks n ((Some LBrace, a, b) # us)"
  using assms(1)
proof cases
  case ob_one
  then show ?thesis using assms(2) by simp
next
  case (ob_more ts us' i j)
  have "open_blocks n (((Some LBrace, a, b) # ts @ [(Some RBrace, i, j)]) @ us')" using ob_more(3)
  proof cases
    case ob_one
    then show ?thesis using bal_block [OF ob_more(2) ob_one(2), of a b i j] open_blocks.ob_one by simp
  next
    case (ob_more ts2 m us2 i2 j2)
    then show ?thesis
      using open_blocks.ob_more [OF bal_block [OF \<open>balanced ts\<close> ob_more(3), of a b i j] ob_more(4), of i2 j2] by simp
  qed
  then show ?thesis using ob_more(1) by simp
qed

lemma brace_scan_balanced:
  "balanced ts \<Longrightarrow> 0 < d \<Longrightarrow> list_all (\<lambda>t. \<not> quote_error tail t) ts \<Longrightarrow>
   brace_scan tail d (ts @ us) = brace_scan tail d us"
proof (induction arbitrary: d us rule: balanced.induct)
  case (bal_skip k ts i j)
  then show ?case by auto
next
  case (bal_block inner ts a b c e)
  then show ?case using bal_block.IH(1) [of "Suc d"] bal_block.IH(2) [of d] by simp
qed simp

lemma brace_scan_open:
  "open_blocks d ts \<Longrightarrow> list_all (\<lambda>t. \<not> quote_error tail t) ts \<Longrightarrow>
   brace_scan tail d (ts @ (Some RBrace, i, j) # us) = Some i"
proof (induction rule: open_blocks.induct)
  case (ob_one ts)
  then show ?case by (simp add: brace_scan_balanced)
next
  case (ob_more ts n us' i' j')
  then show ?case using open_blocks_pos [OF ob_more(2)] by (simp add: brace_scan_balanced)
qed

lemma brace_scan_Some:
  assumes "brace_scan tail d ts = Some x" "0 < d"
  shows "\<exists>inner j us. ts = inner @ (Some RBrace, x, j) # us \<and> open_blocks d inner \<and>
    list_all (\<lambda>t. \<not> quote_error tail t) inner"
  using assms
proof (induction tail d ts rule: brace_scan.induct)
  case (1 tail d)
  then show ?case by simp
next
  case (2 tail d k i j ts)
  consider "k = Some LBrace" | "k = Some RBrace" "d = 1" | "k = Some RBrace" "1 < d"
    | "k \<noteq> Some LBrace" "k \<noteq> Some RBrace" using 2(5) by linarith
  then show ?case
  proof cases
    case 1
    then obtain inner j' us where r: "ts = inner @ (Some RBrace, x, j') # us" "open_blocks (Suc d) inner"
      "list_all (\<lambda>t. \<not> quote_error tail t) inner" using 2(1) 2(4) by auto
    then have "open_blocks d ((k, i, j) # inner)" using open_blocks_block [OF r(2) 2(5)] 1 by simp
    then show ?thesis using r 1 by (intro exI [of _ "(k, i, j) # inner"]) simp
  next
    case 2
    have "x = i" using 2 \<open>brace_scan tail d ((k, i, j) # ts) = Some x\<close> by simp
    then show ?thesis using 2 ob_one [OF bal_nil] by (intro exI [of _ "[]"]) simp
  next
    case 3
    then have d: "Suc (d - 1) = d" "d \<noteq> 0" "d - 1 \<noteq> 0" by auto
    then obtain inner j' us where r: "ts = inner @ (Some RBrace, x, j') # us" "open_blocks (d - 1) inner"
      "list_all (\<lambda>t. \<not> quote_error tail t) inner" using 2(2) 2(4) 3 by auto
    then have "open_blocks d ((k, i, j) # inner)" using ob_more [OF bal_nil r(2), of i j] 3 d by simp
    then show ?thesis using r 3 by (intro exI [of _ "(k, i, j) # inner"]) simp
  next
    case 4
    then have q: "\<not> (k = None \<and> get_range tail i j = [DQ])" using 2(4) by (auto split: if_splits)
    then have "brace_scan tail d ts = Some x" using 2(4) 4 by auto
    from 2(3) [OF 4 q this 2(5)] obtain inner j' us where r: "ts = inner @ (Some RBrace, x, j') # us"
      "open_blocks d inner" "list_all (\<lambda>t. \<not> quote_error tail t) inner" by blast
    then show ?thesis using open_blocks_skip [OF r(2) 4] q
      by (intro exI [of _ "(k, i, j) # inner"]) simp
  qed
qed

text \<open>The first block of a token sequence: where it opens and where it closes.\<close>

definition first_block :: "string \<Rightarrow> span list \<Rightarrow> nat \<Rightarrow> bool" where
  "first_block tail ts close_at \<longleftrightarrow>
     (\<exists>pre a b inner j us. ts = pre @ (Some LBrace, a, b) # inner @ (Some RBrace, close_at, j) # us \<and>
        no_brace pre \<and> balanced inner \<and> list_all (\<lambda>t. \<not> quote_error tail t) (pre @ inner))"

lemma brace_scan_skip:
  "no_brace pre \<Longrightarrow> list_all (\<lambda>t. \<not> quote_error tail t) pre \<Longrightarrow>
   brace_scan tail d (pre @ us) = brace_scan tail d us"
  by (induction pre) auto

lemma brace_scan_iff: "brace_scan tail 0 ts = Some x \<longleftrightarrow> first_block tail ts x"
proof
  assume "brace_scan tail 0 ts = Some x"
  then show "first_block tail ts x"
  proof (induction ts)
    case Nil
    then show ?case by simp
  next
    case (Cons t ts)
    obtain k i j where t: "t = (k, i, j)" by (cases t)
    show ?case
    proof (cases "k = Some LBrace")
      case True
      then have "brace_scan tail (Suc 0) ts = Some x" using Cons(2) t by simp
      from brace_scan_Some [OF this zero_less_Suc]
      obtain inner j' us where "ts = inner @ (Some RBrace, x, j') # us" "open_blocks (Suc 0) inner"
        "list_all (\<lambda>t. \<not> quote_error tail t) inner" by blast
      moreover from this(2) have "balanced inner" by cases (auto dest: open_blocks_pos)
      ultimately have "t # ts = [] @ (Some LBrace, i, j) # inner @ (Some RBrace, x, j') # us \<and>
          no_brace [] \<and> balanced inner \<and> list_all (\<lambda>t. \<not> quote_error tail t) ([] @ inner)"
        using True t by simp
      then show ?thesis unfolding first_block_def by blast
    next
      case False
      then have s: "brace_scan tail 0 ts = Some x" "k \<noteq> Some RBrace" "\<not> quote_error tail t"
        using Cons(2) t by (auto split: if_splits)
      from Cons(1) [OF s(1)] obtain pre a b inner j' us where
        "ts = pre @ (Some LBrace, a, b) # inner @ (Some RBrace, x, j') # us" "no_brace pre" "balanced inner"
        "list_all (\<lambda>t. \<not> quote_error tail t) (pre @ inner)" unfolding first_block_def by blast
      then have "t # ts = (t # pre) @ (Some LBrace, a, b) # inner @ (Some RBrace, x, j') # us \<and>
          no_brace (t # pre) \<and> balanced inner \<and> list_all (\<lambda>t. \<not> quote_error tail t) ((t # pre) @ inner)"
        using False s t by simp
      then show ?thesis unfolding first_block_def by blast
    qed
  qed
next
  assume "first_block tail ts x"
  then obtain pre a b inner j us where
    b: "ts = pre @ (Some LBrace, a, b) # inner @ (Some RBrace, x, j) # us" "no_brace pre" "balanced inner"
    "list_all (\<lambda>t. \<not> quote_error tail t) (pre @ inner)" unfolding first_block_def by blast
  have "brace_scan tail (Suc 0) (inner @ (Some RBrace, x, j) # us) = Some x"
    using b(4) by (intro brace_scan_open ob_one b(3)) simp
  then show "brace_scan tail 0 ts = Some x"
    using b(4) unfolding b(1) by (subst brace_scan_skip [OF b(2)]) simp_all
qed

text \<open>
  C25: The brace search returns a position exactly when the tokens from the start position on begin,
  after some tokens that are no braces, with a block whose inside is balanced, and then the
  position is that of the block's closing brace. Braces in comments and in quotes are no brace
  tokens, and a quote that is never closed before that brace makes the search fail.
\<close>

theorem find_matching_brace_iff:
  "find_matching_brace err s open_pos = Some close_pos \<longleftrightarrow>
     open_pos \<le> close_pos \<and> open_pos \<le> length s \<and>
     first_block (drop open_pos s) (lexer err (drop open_pos s)) (close_pos - open_pos)"
  by (auto simp: find_matching_brace_def brace_scan_iff [symmetric])

section \<open>Masking and stripping\<close>

text \<open>
  The copy of a text with its literals and comments blanked has the length of the text and its
  newlines at the same positions, and every other character is either kept or a blank; so a
  position found in the copy is a position of the text.
\<close>

theorem mask_keeps_positions:
  "length (mask_string_literals err s) = length s \<and>
   map (\<lambda>c. c = LF) (mask_string_literals err s) = map (\<lambda>c. c = LF) s \<and>
   list_all2 (\<lambda>m c. m = c \<or> m = CHR '' '') (mask_string_literals err s) s"
  using mask_hides [of err s] hides_newlines [OF mask_hides, of err s]
  by (auto simp: hides_def list_all2_conv_all_nth)

lemma line_comment_no_newline:
  assumes "(Some LineComment, i, j) \<in> set (lexer err s)"
  shows "LF \<notin> set (get_range s i j)"
proof -
  have d: "drop i s \<noteq> []" "token_at err (drop i s) = (Some LineComment, j - i)"
    using lexer_member [OF assms] by auto
  then have n: "next_token (drop i s) = Some (LineComment, j - i)" by (auto simp: token_at_def split: option.splits)
  then have m: "match_line_comment (drop i s) = Some (j - i)"
    by (cases rule: next_token_cases) (auto simp: free_kinds_def)
  then have st: "starts_with (drop i s) ''//''" and
    j: "j - i = 2 + length (takeWhile (\<lambda>c. c \<noteq> LF) (drop 2 (drop i s)))"
    by (auto simp: match_line_comment_def split: if_splits)
  then obtain u where u: "drop i s = ''//'' @ u" by (auto simp: starts_with_iff prefix_def)
  then have "get_range s i j = ''//'' @ takeWhile (\<lambda>c. c \<noteq> LF) u"
    using j by (simp add: get_range_def take_takeWhile)
  then show ?thesis by (auto dest: set_takeWhile)
qed

lemma strip_spans_newlines:
  "\<forall>(k, i, j) \<in> set spans. k = Some LineComment \<longrightarrow> LF \<notin> set (get_range s i j) \<Longrightarrow>
   filter (\<lambda>c. c = LF) (strip_spans s d spans) =
   filter (\<lambda>c. c = LF) (concat (map (\<lambda>(k, i, j). get_range s i j) spans))"
proof (induction s d spans rule: strip_spans.induct)
  case (2 s d k i j spans)
  have n: "LF \<notin> set t \<Longrightarrow> filter (\<lambda>c. c = LF) t = []" for t by (auto simp: filter_empty_conv)
  show ?case using 2 n by (auto simp: Let_def)
qed simp

text \<open>
  Stripping comments keeps every newline of the text, so a line of the stripped text is the line
  with the same number in the source.
\<close>

theorem strip_keeps_newlines:
  "filter (\<lambda>c. c = LF) (strip_sysml_comments err content) = filter (\<lambda>c. c = LF) content"
proof -
  have "filter (\<lambda>c. c = LF) (strip_sysml_comments err content) =
      filter (\<lambda>c. c = LF) (concat (map (\<lambda>(k, i, j). get_range content i j) (lexer err content)))"
    unfolding strip_sysml_comments_def
    by (rule strip_spans_newlines) (auto dest: line_comment_no_newline)
  then show ?thesis by (simp add: sysml_lexer.ranges_concat)
qed

section \<open>Plain texts\<close>

text \<open>Without comments and quotes the search counts brace characters.\<close>

fun match_brace :: "nat \<Rightarrow> nat \<Rightarrow> string \<Rightarrow> nat option" where
  "match_brace depth pos [] = None"
| "match_brace depth pos (c # cs) =
     (if c = CHR ''{'' then match_brace (Suc depth) (Suc pos) cs
      else if c = CHR ''}'' then
        (if depth = 0 then None else if depth = 1 then Some pos else match_brace (depth - 1) (Suc pos) cs)
      else match_brace depth (Suc pos) cs)"

lemma match_brace_skip:
  "\<forall>c \<in> set u. \<not> is_brace c \<Longrightarrow> match_brace d p (u @ v) = match_brace d (p + length u) v"
  by (induction u arbitrary: p) (auto simp: is_brace_def)

lemma brace_scan_plain:
  "list_all plain_char s \<Longrightarrow> brace_scan tail d (spanned err pos s) = match_brace d pos s"
proof (induction err pos s arbitrary: d rule: spanned.induct)
  case (1 err pos s)
  show ?case
  proof (cases "s = []")
    case True
    then show ?thesis by (simp add: spanned.simps)
  next
    case False
    obtain t n where t: "token_at err s = (Some t, n)" "next_token s = Some (t, n)" "\<not> opaque_kind t"
      using token_at_plain [OF 1(2) False] by blast
    have n: "n \<le> length s" using next_token_sized [OF t(2)] by simp
    have s: "s = take n s @ drop n s" by simp
    have IH: "brace_scan tail d (spanned err (pos + n) (drop n s)) = match_brace d (pos + n) (drop n s)" for d
      using 1(1) [OF False] 1(2) t(1) by (simp add: list_all_iff in_set_dropD)
    from token_brace [OF t(2,3)] show ?thesis
    proof (elim disjE conjE)
      assume b: "\<forall>c \<in> set (take n s). \<not> is_brace c" "t \<noteq> LBrace" "t \<noteq> RBrace"
      then have "match_brace d pos s = match_brace d (pos + n) (drop n s)"
        using match_brace_skip [OF b(1), of d pos "drop n s"] n by simp
      then show ?thesis using False t b IH by (simp add: spanned.simps [of err pos s])
    next
      assume b: "t = LBrace" "take n s = ''{''" "n = 1"
      then have "match_brace d pos s = match_brace (Suc d) (pos + n) (drop n s)"
        by (subst s) simp
      then show ?thesis using False t b IH by (simp add: spanned.simps [of err pos s])
    next
      assume b: "t = RBrace" "take n s = ''}''" "n = 1"
      then have "match_brace d pos s = (if d = 0 then None else if d = 1 then Some pos
          else match_brace (d - 1) (pos + n) (drop n s))"
        by (subst s) simp
      then show ?thesis using False t b IH by (simp add: spanned.simps [of err pos s])
    qed
  qed
qed

lemma match_brace_shift: "match_brace d (p + q) s = map_option (\<lambda>x. p + x) (match_brace d q s)"
  by (induction d q s arbitrary: p rule: match_brace.induct) (auto simp: add.assoc [symmetric] simp del: add_Suc_right simp flip: add_Suc_right)

lemma find_matching_brace_plain:
  assumes "list_all plain_char (drop p s)" "p \<le> length s"
  shows "find_matching_brace err s p = match_brace 0 p (drop p s)"
  using assms match_brace_shift [of 0 p 0 "drop p s"]
  by (simp add: find_matching_brace_def brace_scan_plain)

text \<open>Texts whose braces match, at the level of characters.\<close>

inductive nested :: "string \<Rightarrow> bool" where
  nested_nil: "nested []"
| nested_skip: "\<not> is_brace c \<Longrightarrow> nested s \<Longrightarrow> nested (c # s)"
| nested_block: "nested u \<Longrightarrow> nested v \<Longrightarrow> nested (''{'' @ u @ ''}'' @ v)"

lemma nested_append: "nested u \<Longrightarrow> nested v \<Longrightarrow> nested (u @ v)"
proof (induction rule: nested.induct)
  case (nested_block u w)
  then show ?case using nested.nested_block [of u "w @ v"] by simp
qed (simp_all add: nested_skip)

lemma nested_flat: "\<forall>c \<in> set u. \<not> is_brace c \<Longrightarrow> nested u"
  by (induction u) (auto intro: nested.intros)

lemma match_brace_nested: "nested u \<Longrightarrow> 0 < d \<Longrightarrow> match_brace d p (u @ v) = match_brace d (p + length u) v"
proof (induction arbitrary: d p v rule: nested.induct)
  case (nested_skip c s)
  then show ?case by (auto simp: is_brace_def)
next
  case (nested_block u w)
  show ?case using nested_block.IH(1) [of "Suc d" "Suc p"] nested_block.IH(2) [of d] nested_block.prems
    by (simp add: add.assoc)
qed simp

lemma find_matching_block:
  assumes "list_all plain_char (''{'' @ u @ ''}'' @ v)" "nested u"
  shows "find_matching_brace err (a @ ''{'' @ u @ ''}'' @ v) (length a) = Some (length a + Suc (length u))"
proof -
  have "find_matching_brace err (a @ ''{'' @ u @ ''}'' @ v) (length a) =
      match_brace 0 (length a) (''{'' @ u @ ''}'' @ v)"
    using assms(1) by (subst find_matching_brace_plain) simp_all
  also have "... = match_brace (Suc 0) (Suc (length a)) (u @ ''}'' @ v)" by simp
  also have "... = Some (length a + Suc (length u))"
    by (simp only: match_brace_nested [OF assms(2) zero_less_Suc]) simp
  finally show ?thesis .
qed

end
