(* ===== verification/Sysml_Words.thy ===== *)
theory Sysml_Words
  imports Sysml_Braces
begin

text \<open>
  Keyword searches of the SysML front end: the first occurrence of a pattern, what a word at its
  boundaries is, and the interface of the search loops of \<^verbatim>\<open>states.rs\<close>, \<^verbatim>\<open>actions.rs\<close> and
  \<^verbatim>\<open>interactions.rs\<close>, which look for a word, skip it inside longer words and hand every real occurrence
  to a parser. Stretches of text without the word are skipped as a whole.
\<close>

section \<open>First occurrences\<close>

lemma split_once_first:
  "split_once pat s = Some (a, b) \<Longrightarrow> m < length a \<Longrightarrow> \<not> starts_with (drop m s) pat"
proof (induction pat s arbitrary: a m rule: split_once.induct)
  case (1 pat s)
  show ?case
  proof (cases "starts_with s pat")
    case True
    then show ?thesis using 1 by (simp add: split_once.simps [of pat s])
  next
    case False
    then obtain c cs where s: "s = c # cs"
      using 1(2) by (simp add: split_once.simps [of pat s] split: list.splits)
    then have "map_option (\<lambda>(a, b). (c # a, b)) (split_once pat cs) = Some (a, b)"
      using 1(2) False by (simp add: split_once.simps [of pat "c # cs"])
    then obtain a' where a: "split_once pat cs = Some (a', b)" "a = c # a'" by auto
    show ?thesis
    proof (cases m)
      case 0
      then show ?thesis using False by simp
    next
      case (Suc k)
      then show ?thesis using 1(1) [OF False s a(1), of k] 1(3) a(2) s by simp
    qed
  qed
qed

lemma split_once_None: "split_once pat s = None \<longleftrightarrow> (\<forall>m. \<not> starts_with (drop m s) pat)"
proof (induction pat s rule: split_once.induct)
  case (1 pat s)
  show ?case
  proof (cases "starts_with s pat")
    case True
    then show ?thesis by (auto simp: split_once.simps [of pat s] intro: exI [of _ 0])
  next
    case False
    show ?thesis
    proof (cases s)
      case Nil
      then show ?thesis using False unfolding Nil by (simp add: split_once.simps [of pat "[]"])
    next
      case (Cons c cs)
      have "(\<forall>m. \<not> starts_with (drop m s) pat) \<longleftrightarrow> (\<forall>m. \<not> starts_with (drop m cs) pat)"
      proof
        assume h: "\<forall>m. \<not> starts_with (drop m s) pat"
        show "\<forall>m. \<not> starts_with (drop m cs) pat"
        proof
          fix m
          show "\<not> starts_with (drop m cs) pat" using h [rule_format, of "Suc m"] Cons by simp
        qed
      next
        assume h: "\<forall>m. \<not> starts_with (drop m cs) pat"
        show "\<forall>m. \<not> starts_with (drop m s) pat"
        proof
          fix m
          show "\<not> starts_with (drop m s) pat" using h False Cons by (cases m) auto
        qed
      qed
      then show ?thesis using 1 [OF False Cons] False Cons by (simp add: split_once.simps [of pat "c # cs"])
    qed
  qed
qed

lemma find_pos_iff:
  "find_pos pat s = Some n \<longleftrightarrow> starts_with (drop n s) pat \<and> (\<forall>m < n. \<not> starts_with (drop m s) pat)"
proof
  assume f: "find_pos pat s = Some n"
  then obtain a b where a: "split_once pat s = Some (a, b)" "n = length a" by (auto simp: find_pos_def)
  then show "starts_with (drop n s) pat \<and> (\<forall>m < n. \<not> starts_with (drop m s) pat)"
    using find_pos_Some [OF f] split_once_first [OF a(1)] by simp
next
  assume h: "starts_with (drop n s) pat \<and> (\<forall>m < n. \<not> starts_with (drop m s) pat)"
  then have "split_once pat s \<noteq> None" using split_once_None by blast
  then obtain k where k: "find_pos pat s = Some k" by (auto simp: find_pos_def)
  obtain a b where a: "split_once pat s = Some (a, b)" "k = length a" using k by (auto simp: find_pos_def)
  have "starts_with (drop k s) pat" "\<And>m. m < k \<Longrightarrow> \<not> starts_with (drop m s) pat"
    using find_pos_Some [OF k] split_once_first [OF a(1)] a(2) by auto
  then have "k = n" using h by (metis linorder_neqE_nat)
  then show "find_pos pat s = Some n" using k by simp
qed

lemma find_pos_None: "find_pos pat s = None \<longleftrightarrow> (\<forall>m. \<not> starts_with (drop m s) pat)"
  by (simp add: find_pos_def split_once_None)

lemma find_pos_later:
  assumes "i \<le> j"
  shows "find_pos pat (drop i s) = None \<Longrightarrow> find_pos pat (drop j s) = None"
    and "find_pos pat (drop i s) = Some n \<Longrightarrow> j \<le> i + n \<Longrightarrow> find_pos pat (drop j s) = Some (i + n - j)"
proof -
  obtain k where j: "j = i + k" using assms le_Suc_ex by blast
  have d: "drop m (drop j s) = drop (k + m) (drop i s)" for m by (simp add: j ac_simps)
  show "find_pos pat (drop i s) = None \<Longrightarrow> find_pos pat (drop j s) = None"
    unfolding find_pos_None d by blast
  show "find_pos pat (drop i s) = Some n \<Longrightarrow> j \<le> i + n \<Longrightarrow> find_pos pat (drop j s) = Some (i + n - j)"
    unfolding find_pos_iff d using j by auto
qed

section \<open>Words\<close>

text \<open>A text in which a word does not occur at its boundaries.\<close>

definition quiet :: "string \<Rightarrow> string \<Rightarrow> bool" where
  "quiet kw u \<longleftrightarrow>
     (\<forall>p. starts_with (drop p u) kw \<longrightarrow>
        \<not> is_word_boundary_before u p \<or> \<not> is_word_boundary_after u (p + length kw))"

definition keyword :: "string \<Rightarrow> bool" where
  "keyword kw \<longleftrightarrow> kw \<noteq> [] \<and> list_all is_ident_char kw"

lemma starts_with_nth: "starts_with s p \<Longrightarrow> k < length p \<Longrightarrow> k < length s \<and> s ! k = p ! k"
  by (auto simp: starts_with_iff prefix_def nth_append)

lemma starts_with_drop_nth:
  assumes "starts_with (drop p s) kw" "k < length kw"
  shows "p + k < length s \<and> s ! (p + k) = kw ! k"
  using starts_with_nth [OF assms] by (auto simp: less_diff_conv add.commute)

lemma keyword_nth: "keyword kw \<Longrightarrow> k < length kw \<Longrightarrow> is_ident_char (kw ! k)"
  by (simp add: keyword_def list_all_length)

lemma quiet_Nil: "keyword kw \<Longrightarrow> quiet kw []"
  by (cases kw) (auto simp: quiet_def keyword_def)

lemma quiet_word:
  assumes kw: "keyword kw" and w: "list_all is_ident_char w" "w \<noteq> kw"
    and c: "\<not> is_ident_char c" and v: "quiet kw v"
  shows "quiet kw (w @ c # v)"
  unfolding quiet_def
proof (intro allI impI)
  fix p
  let ?t = "w @ c # v"
  assume st: "starts_with (drop p ?t) kw"
  have kn: "p + k < length ?t \<and> ?t ! (p + k) = kw ! k" if "k < length kw" for k
    using starts_with_drop_nth [OF st that] .
  have wn: "is_ident_char (?t ! k)" if "k < length w" for k
    using w(1) that by (simp add: nth_append list_all_length)
  show "\<not> is_word_boundary_before ?t p \<or> \<not> is_word_boundary_after ?t (p + length kw)"
  proof (rule ccontr)
    assume "\<not> (\<not> is_word_boundary_before ?t p \<or> \<not> is_word_boundary_after ?t (p + length kw))"
    then have b: "is_word_boundary_before ?t p" "is_word_boundary_after ?t (p + length kw)" by auto
    consider "p < length w" | "p = length w" | "length w < p" by linarith
    then show False
    proof cases
      case 1
      then have p: "p = 0" using b(1) wn [of "p - 1"]
        by (cases p) (auto simp: is_word_boundary_before_def get_char_def)
      consider "length kw < length w" | "length w < length kw" | "length w = length kw" by linarith
      then show False
      proof cases
        case 1
        then show False using b(2) p wn [of "length kw"] by (simp add: is_word_boundary_after_def get_char_def)
      next
        case 2
        then show False using kn [of "length w"] p keyword_nth [OF kw 2] c by simp
      next
        case 3
        have "w ! k = kw ! k" if "k < length kw" for k using kn [OF that] p that 3 by (simp add: nth_append)
        then show False using w(2) 3 by (simp add: nth_equalityI)
      qed
    next
      case 2
      have "0 < length kw" using kw by (simp add: keyword_def)
      then show False using kn [of 0] 2 keyword_nth [OF kw, of 0] c by simp
    next
      case 3
      then obtain q where q: "p = Suc (length w) + q" using less_imp_Suc_add by fastforce
      have "starts_with (drop q v) kw" using st q by simp
      moreover have "is_word_boundary_before v q"
        using b(1) q by (cases q) (auto simp: is_word_boundary_before_def get_char_def nth_append)
      moreover have "is_word_boundary_after v (q + length kw)"
        using b(2) q by (auto simp: is_word_boundary_after_def get_char_def nth_append split: if_splits)
      ultimately show False using v by (auto simp: quiet_def)
    qed
  qed
qed

lemma quiet_gap: "keyword kw \<Longrightarrow> \<not> is_ident_char c \<Longrightarrow> quiet kw v \<Longrightarrow> quiet kw (c # v)"
  using quiet_word [of kw "[]" c v] by (auto simp: keyword_def)

section \<open>The search loop\<close>

definition ends_gap :: "string \<Rightarrow> bool" where
  "ends_gap a \<longleftrightarrow> a = [] \<or> \<not> is_ident_char (last a)"

text \<open>
  A search for a keyword from a position: at an occurrence that is a whole word the loop goes over
  to \<open>hit\<close>, at any other it goes on behind it, and without occurrence it stops.
\<close>

locale keyword_search =
  fixes kw :: string and run :: "string \<Rightarrow> nat \<Rightarrow> 'r" and hit :: "string \<Rightarrow> nat \<Rightarrow> 'r" and stop :: 'r
  assumes kw: "keyword kw"
    and run_step: "run t idx =
      (case find_pos kw (drop idx t) of
         None \<Rightarrow> stop
       | Some pos \<Rightarrow>
           if is_word_boundary_before t (idx + pos) \<and> is_word_boundary_after t (idx + pos + length kw)
           then hit t (idx + pos) else run t (idx + pos + length kw))"
begin

lemma run_hit:
  assumes "starts_with (drop idx t) kw" "is_word_boundary_before t idx" "is_word_boundary_after t (idx + length kw)"
  shows "run t idx = hit t idx"
proof -
  have "find_pos kw (drop idx t) = Some 0" using assms(1) by (simp add: find_pos_iff)
  then show ?thesis using assms by (simp add: run_step [of t idx])
qed

lemma run_skip:
  assumes t: "t = a @ u @ v" and q: "quiet kw u" and e: "ends_gap u"
  shows "run t (length a) = run t (length a + length u)"
proof -
  let ?e = "length a + length u"
  have all_idx: "run t idx = run t ?e" if "length a \<le> idx" "idx \<le> ?e" for idx
    using that
  proof (induction "?e - idx" arbitrary: idx rule: less_induct)
    case less
    show ?case
    proof (cases "find_pos kw (drop idx t)")
      case None
      then show ?thesis using find_pos_later(1) [OF less(3) None]
        by (simp add: run_step [of t idx] run_step [of t ?e])
    next
      case (Some pos)
      show ?thesis
      proof (cases "?e \<le> idx + pos")
        case True
        then have "find_pos kw (drop ?e t) = Some (idx + pos - ?e)"
          using find_pos_later(2) [OF less(3) Some True] by simp
        then show ?thesis using Some True by (simp add: run_step [of t idx] run_step [of t ?e])
      next
        case False
        define p where "p = idx + pos - length a"
        have p: "idx + pos = length a + p" "p < length u" using False less(2) by (auto simp: p_def)
        have "drop pos (drop idx t) = drop (idx + pos) t" by (simp add: add.commute)
        also have "... = drop p (u @ v)" unfolding p(1) t by simp
        finally have st: "starts_with (drop p (u @ v)) kw" using Some by (simp add: find_pos_iff)
        have "u \<noteq> []" using p(2) by auto
        then have lu: "\<not> is_ident_char (last u)" "u ! (length u - 1) = last u" "0 < length u"
          using e by (auto simp: ends_gap_def last_conv_nth)
        have inside: "p + length kw < length u"
        proof (rule ccontr)
          assume n: "\<not> p + length kw < length u"
          define k where "k = length u - 1 - p"
          have k: "k \<le> length kw" "p + k = length u - 1" using n p(2) by (auto simp: k_def)
          show False
          proof (cases "k = length kw")
            case True
            then show False using n k lu by simp
          next
            case False
            then have "k < length kw" using k by simp
            then have "(u @ v) ! (p + k) = kw ! k" using starts_with_drop_nth [OF st] by blast
            then have "last u = kw ! k" using k lu by (simp add: nth_append)
            then show False using keyword_nth [OF kw \<open>k < length kw\<close>] lu by simp
          qed
        qed
        have su: "starts_with (drop p u) kw"
          using st inside by (simp add: starts_with_def)
        have "\<not> (is_word_boundary_before t (idx + pos) \<and> is_word_boundary_after t (idx + pos + length kw))"
        proof
          assume b: "is_word_boundary_before t (idx + pos) \<and> is_word_boundary_after t (idx + pos + length kw)"
          have "is_word_boundary_before u p"
            using b p t by (cases p) (auto simp: is_word_boundary_before_def get_char_def nth_append)
          moreover have "is_word_boundary_after u (p + length kw)"
            using b p t inside by (auto simp: is_word_boundary_after_def get_char_def nth_append add.assoc)
          ultimately show False using q su by (auto simp: quiet_def)
        qed
        then have "run t idx = run t (idx + pos + length kw)"
          using Some by (subst run_step) (simp only: option.case if_False)
        also have "... = run t ?e"
        proof (rule less(1))
          have "0 < length kw" using kw by (simp add: keyword_def)
          then show "?e - (idx + pos + length kw) < ?e - idx" using p inside less(2) by linarith
        qed (use p inside less(2) in linarith)+
        finally show ?thesis .
      qed
    qed
  qed
  show ?thesis by (rule all_idx) simp_all
qed

lemma run_end: "run t (length t) = stop"
proof -
  have "find_pos kw [] = None" using kw by (cases kw) (auto simp: find_pos_None keyword_def)
  then show ?thesis by (simp add: run_step [of t "length t"])
qed

end

section \<open>Trimming and lines\<close>

lemma trim_id: "s \<noteq> [] \<Longrightarrow> \<not> is_whitespace (hd s) \<Longrightarrow> \<not> is_whitespace (last s) \<Longrightarrow> trim s = s"
  by (simp add: trim_def trim_matches_def trim_end_matches_def dropWhile_keep hd_rev)

text \<open>The text of a list of lines, every line ended by a newline.\<close>

definition text_of :: "string list \<Rightarrow> string" where
  "text_of ls = concat (map (\<lambda>l. l @ [LF]) ls)"

lemma text_of_simps [simp]:
  "text_of [] = []" "text_of (l # ls) = l @ LF # text_of ls" "text_of (ls @ ms) = text_of ls @ text_of ms"
  by (simp_all add: text_of_def)

definition line_ok :: "string \<Rightarrow> bool" where
  "line_ok l \<longleftrightarrow> LF \<notin> set l \<and> (l = [] \<or> last l \<noteq> CR)"

lemma split_by_line: "LF \<notin> set l \<Longrightarrow> split_by (\<lambda>c. c = LF) (l @ LF # r) = l # split_by (\<lambda>c. c = LF) r"
  by (induction l) auto

lemma strip_cr_id: "l = [] \<or> last l \<noteq> CR \<Longrightarrow> strip_cr l = l"
proof -
  assume a: "l = [] \<or> last l \<noteq> CR"
  have "strip_suffix l [CR] = None"
  proof (cases "strip_suffix l [CR]")
    case (Some r)
    then show ?thesis using a by (simp add: strip_suffix_Some)
  qed
  then show ?thesis by (simp add: strip_cr_def)
qed

lemma lines_text_of: "list_all line_ok ls \<Longrightarrow> lines (text_of ls) = ls"
proof -
  assume a: "list_all line_ok ls"
  then have "split_by (\<lambda>c. c = LF) (text_of ls) = ls @ [[]]"
    by (induction ls) (simp_all add: line_ok_def split_by_line)
  moreover have "map strip_cr ls = ls" using a
    by (induction ls) (auto simp: line_ok_def strip_cr_id)
  ultimately show ?thesis by (simp add: lines_def)
qed

end
