(* ===== verification/Sysml_States.thy ===== *)
theory Sysml_States
  imports Sysml_Words
begin

text \<open>
  State machines in SysML text: \<^verbatim>\<open>deap-core/src/sysml_cst/states.rs\<close>. The extractor looks for
  the word \<^verbatim>\<open>state\<close> in a text without comments and literals, reads a header and a body, takes the
  hooks and transitions from the lines of the body and looks for sub-states in the body, to a depth
  of 64.
\<close>

definition MAX_AST_DEPTH :: nat where "MAX_AST_DEPTH = 64"

definition semi :: "char \<Rightarrow> bool" where "semi c \<longleftrightarrow> c = CHR '';''"

definition non_empty_string :: "string \<Rightarrow> string option" where
  "non_empty_string raw = (let trimmed = trim raw in if trimmed = [] then None else Some trimmed)"

section \<open>Transitions\<close>

definition parse_first_then_transition :: "string \<Rightarrow> TransitionDef" where
  "parse_first_then_transition raw_trans =
     (let (t_name, after_first) =
            (case strip_prefix raw_trans ''first '' of
               Some rest \<Rightarrow> (None, trim rest)
             | None \<Rightarrow> (case split_once '' first '' raw_trans of
                 Some (before_first, rest_first) \<Rightarrow> (non_empty_string before_first, trim rest_first)
               | None \<Rightarrow> (None, [])));
          (before_then, tgt_str) =
            (case split_once '' then '' after_first of
               Some (b_then, a_then) \<Rightarrow> (trim b_then, trim a_then)
             | None \<Rightarrow> (after_first, []));
          (src_str, trig_str) =
            (case split_once '' accept '' before_then of
               Some (b_acc, a_acc) \<Rightarrow> (trim b_acc, trim a_acc)
             | None \<Rightarrow> (before_then, []))
      in \<lparr>tx_name = t_name, tx_source = non_empty_string src_str, tx_target = non_empty_string tgt_str,
          tx_trigger = non_empty_string trig_str, tx_guard = None, tx_effect = None, tx_doc = None\<rparr>)"

definition parse_conventional_transition :: "string \<Rightarrow> TransitionDef" where
  "parse_conventional_transition raw_trans =
     (let (source, tgt, trigger) =
            (case find_pos ''_to_'' raw_trans of
               None \<Rightarrow> (None, None, None)
             | Some to_idx \<Rightarrow>
                 (let src_part = take to_idx raw_trans;
                      after_to = trim (drop (to_idx + 4) raw_trans)
                  in case find_pos ''_on_'' after_to of
                       Some on_idx \<Rightarrow>
                         (non_empty_string src_part, non_empty_string (take on_idx after_to),
                          non_empty_string (drop (on_idx + 4) after_to))
                     | None \<Rightarrow> (non_empty_string src_part, non_empty_string after_to, None)))
      in \<lparr>tx_name = Some raw_trans, tx_source = source, tx_target = tgt, tx_trigger = trigger,
          tx_guard = None, tx_effect = None, tx_doc = None\<rparr>)"

definition parse_transition_clause :: "string \<Rightarrow> TransitionDef option" where
  "parse_transition_clause raw_trans =
     (if raw_trans = [] then None
      else if starts_with raw_trans ''first '' \<or> contains_str raw_trans '' first ''
        then Some (parse_first_then_transition raw_trans)
      else Some (parse_conventional_transition raw_trans))"

definition strip_state_clause :: "string \<Rightarrow> string \<Rightarrow> string option" where
  "strip_state_clause trimmed kw =
     (if starts_with_word trimmed kw
      then Some (trim (trim_end_matches semi (trim (drop (length kw) trimmed)))) else None)"

section \<open>Headers and bodies\<close>

record ParsedStateSpan =
  ps_name :: string
  ps_doc :: "string option"
  ps_body_str :: "string option"
  ps_next_idx :: nat

definition parse_state_span ::
  "(string \<Rightarrow> nat) \<Rightarrow> string \<Rightarrow> string \<Rightarrow> nat \<Rightarrow> ParsedStateSpan option" where
  "parse_state_span err clean masked st_pos =
     (let doc = extract_doc_comment_before clean st_pos;
          cur = snd (skip_def masked (skip_from masked (st_pos + 5)));
          (name, name_len) = extract_ident (drop cur masked)
      in if name = [] then None
         else let cur = skip_from masked (cur + name_len); rem_body = drop cur masked in
           if starts_with rem_body ''{'' then
             map_option (\<lambda>close_pos.
               \<lparr>ps_name = name, ps_doc = doc, ps_body_str = get_slice clean (cur + 1) close_pos,
                ps_next_idx = close_pos + 1\<rparr>) (find_matching_brace err clean cur)
           else if starts_with rem_body '';'' then
             Some \<lparr>ps_name = name, ps_doc = doc, ps_body_str = None, ps_next_idx = cur + 1\<rparr>
           else None)"

lemma parse_state_span_progress:
  "parse_state_span err clean masked st_pos = Some sp \<Longrightarrow> st_pos < ps_next_idx sp"
proof -
  assume s: "parse_state_span err clean masked st_pos = Some sp"
  define cur where "cur = snd (skip_def masked (skip_from masked (st_pos + 5)))"
  define nl where "nl = length (takeWhile is_ident_char (drop cur masked))"
  define cur' where "cur' = skip_from masked (cur + nl)"
  have c: "st_pos + 5 \<le> cur'"
    using skip_from_le [of "st_pos + 5" masked] skip_def_le [of "skip_from masked (st_pos + 5)" masked]
      skip_from_le [of "cur + nl" masked] by (simp add: cur_def cur'_def)
  have "cur' + 1 \<le> ps_next_idx sp"
    using s by (auto simp: parse_state_span_def extract_ident_def Let_def cur_def [symmetric]
        nl_def [symmetric] cur'_def [symmetric] split: if_splits dest!: find_matching_brace_range)
  then show ?thesis using c by simp
qed

section \<open>The states of a text\<close>

text \<open>One line of a body: the hooks so far and the transitions so far.\<close>

type_synonym hooks = "string option \<times> string option \<times> string option \<times> TransitionDef list"

definition state_line :: "string \<Rightarrow> hooks \<Rightarrow> hooks" where
  "state_line line = (\<lambda>(entry, do_act, exit_act, transitions).
     (let trimmed = trim line in
      case strip_state_clause trimmed ''entry'' of
        Some act \<Rightarrow> (Some act, do_act, exit_act, transitions)
      | None \<Rightarrow> (case strip_state_clause trimmed ''do'' of
          Some act \<Rightarrow> (entry, Some act, exit_act, transitions)
        | None \<Rightarrow> (case strip_state_clause trimmed ''exit'' of
            Some act \<Rightarrow> (entry, do_act, Some act, transitions)
          | None \<Rightarrow> (case strip_state_clause trimmed ''transition'' of
              Some raw_trans \<Rightarrow>
                (case parse_transition_clause raw_trans of
                   Some tx \<Rightarrow> (entry, do_act, exit_act, transitions @ [tx])
                 | None \<Rightarrow> (entry, do_act, exit_act, transitions))
            | None \<Rightarrow> (entry, do_act, exit_act, transitions))))))"

definition body_hooks :: "string \<Rightarrow> hooks" where
  "body_hooks body = fold state_line (lines body) (None, None, None, [])"

text \<open>\<open>sub_states_of\<close> is the extractor one level deeper.\<close>

definition build_state_def_from_span :: "(string \<Rightarrow> StateDef list) \<Rightarrow> ParsedStateSpan \<Rightarrow> StateDef" where
  "build_state_def_from_span sub_states_of sp =
     (let (entry, do_act, exit_act, transitions) =
            (case ps_body_str sp of Some body \<Rightarrow> body_hooks body | None \<Rightarrow> (None, None, None, []));
          sub_states = (case ps_body_str sp of Some body \<Rightarrow> sub_states_of body | None \<Rightarrow> [])
      in StateDef (ps_name sp) (ps_doc sp) entry do_act exit_act transitions sub_states)"

text \<open>The search loop of \<^verbatim>\<open>parse_state_defs_at_depth\<close>.\<close>

function state_spans :: "(string \<Rightarrow> nat) \<Rightarrow> string \<Rightarrow> string \<Rightarrow> nat \<Rightarrow> ParsedStateSpan list" where
  "state_spans err clean masked idx =
     (case find_pos ''state'' (drop idx masked) of
        None \<Rightarrow> []
      | Some pos \<Rightarrow>
          (let st_pos = idx + pos; after_st = st_pos + 5 in
           if \<not> is_word_boundary_before masked st_pos \<or> \<not> is_word_boundary_after masked after_st
           then state_spans err clean masked after_st
           else case parse_state_span err clean masked st_pos of
                  Some sp \<Rightarrow> sp # state_spans err clean masked (ps_next_idx sp)
                | None \<Rightarrow> state_spans err clean masked after_st))"
  by pat_completeness auto
termination
proof (relation "measure (\<lambda>(err, clean, masked, idx). length masked - idx)")
qed (auto dest!: find_pos_Some parse_state_span_progress)

declare state_spans.simps [simp del]

function parse_state_defs_at_depth :: "(string \<Rightarrow> nat) \<Rightarrow> string \<Rightarrow> nat \<Rightarrow> StateDef list" where
  "parse_state_defs_at_depth err content depth =
     (if MAX_AST_DEPTH < depth then []
      else let clean = strip_sysml_comments err content; masked = mask_string_literals err clean in
        map (build_state_def_from_span (\<lambda>body. parse_state_defs_at_depth err body (depth + 1)))
          (state_spans err clean masked 0))"
  by pat_completeness auto
termination
  by (relation "measure (\<lambda>(err, content, depth). Suc MAX_AST_DEPTH - depth)") auto

declare parse_state_defs_at_depth.simps [simp del]

definition parse_state_defs :: "(string \<Rightarrow> nat) \<Rightarrow> string \<Rightarrow> StateDef list" where
  "parse_state_defs err content = parse_state_defs_at_depth err content 0"

section \<open>What the extractor returns\<close>

lemma keyword_state: "keyword ''state''"
  by code_simp

lemma length_state: "length ''state'' = 5"
  by simp

interpretation state_search: keyword_search "''state''" "state_spans err clean"
  "\<lambda>masked p. case parse_state_span err clean masked p of
     Some sp \<Rightarrow> sp # state_spans err clean masked (ps_next_idx sp)
   | None \<Rightarrow> state_spans err clean masked (p + 5)" "[]" for err clean
proof (unfold_locales, rule keyword_state)
  fix t idx
  show "state_spans err clean t idx =
      (case find_pos ''state'' (drop idx t) of None \<Rightarrow> []
       | Some pos \<Rightarrow>
           if is_word_boundary_before t (idx + pos) \<and> is_word_boundary_after t (idx + pos + length ''state'')
           then (case parse_state_span err clean t (idx + pos) of
               Some sp \<Rightarrow> sp # state_spans err clean t (ps_next_idx sp)
             | None \<Rightarrow> state_spans err clean t (idx + pos + 5))
           else state_spans err clean t (idx + pos + length ''state''))"
    unfolding length_state by (subst state_spans.simps) (simp add: Let_def split: option.split)
qed

fun state_height :: "StateDef \<Rightarrow> nat" where
  "state_height (StateDef n d en dd ex ts subs) = Suc (foldr max (map state_height subs) 0)"

fun named_by_identifiers :: "StateDef \<Rightarrow> bool" where
  "named_by_identifiers (StateDef n d en dd ex ts subs) \<longleftrightarrow>
     n \<noteq> [] \<and> list_all is_ident_char n \<and> list_all named_by_identifiers subs"

lemma foldr_max_le: "list_all (\<lambda>x. x \<le> b) xs \<Longrightarrow> foldr max xs (0::nat) \<le> b"
  by (induction xs) auto

lemma state_spans_named: "list_all (\<lambda>sp. ps_name sp \<noteq> [] \<and> list_all is_ident_char (ps_name sp)) (state_spans err clean masked idx)"
proof (induction err clean masked idx rule: state_spans.induct)
  case (1 err clean masked idx)
  have "ps_name sp \<noteq> [] \<and> list_all is_ident_char (ps_name sp)"
    if "parse_state_span err clean masked p = Some sp" for sp p
    using that by (auto simp: parse_state_span_def extract_ident_def Let_def take_takeWhile list_all_iff
        dest: set_takeWhile split: if_splits)
  then show ?case using 1 by (subst state_spans.simps) (auto simp: Let_def split: option.split)
qed

lemma build_state_simp:
  "build_state_def_from_span f sp =
     (let h = (case ps_body_str sp of Some body \<Rightarrow> body_hooks body | None \<Rightarrow> (None, None, None, []))
      in StateDef (ps_name sp) (ps_doc sp) (fst h) (fst (snd h)) (fst (snd (snd h))) (snd (snd (snd h)))
        (case ps_body_str sp of Some body \<Rightarrow> f body | None \<Rightarrow> []))"
  by (auto simp: build_state_def_from_span_def Let_def split: prod.split option.split)

lemma parsed_states:
  "list_all (\<lambda>sd. state_height sd + depth \<le> Suc MAX_AST_DEPTH \<and> named_by_identifiers sd)
     (parse_state_defs_at_depth err content depth)"
proof (induction err content depth rule: parse_state_defs_at_depth.induct)
  case (1 err content depth)
  show ?case
  proof (cases "MAX_AST_DEPTH < depth")
    case True
    then show ?thesis by (simp add: parse_state_defs_at_depth.simps)
  next
    case False
    let ?f = "\<lambda>body. parse_state_defs_at_depth err body (depth + 1)"
    let ?clean = "strip_sysml_comments err content"
    let ?spans = "state_spans err ?clean (mask_string_literals err ?clean) 0"
    have "state_height (build_state_def_from_span ?f sp) + depth \<le> Suc MAX_AST_DEPTH \<and>
        named_by_identifiers (build_state_def_from_span ?f sp)"
      if sp: "sp \<in> set ?spans" for sp
    proof -
      have n: "ps_name sp \<noteq> []" "list_all is_ident_char (ps_name sp)"
        using state_spans_named sp by (auto simp: list_all_iff)
      show ?thesis
      proof (cases "ps_body_str sp")
        case None
        then show ?thesis using n False by (simp add: build_state_simp Let_def)
      next
        case (Some body)
        have IH: "list_all (\<lambda>sd. state_height sd + (depth + 1) \<le> Suc MAX_AST_DEPTH \<and> named_by_identifiers sd) (?f body)"
          using 1 [OF False refl refl sp] .
        have "foldr max (map state_height (?f body)) 0 \<le> MAX_AST_DEPTH - depth"
          using IH by (intro foldr_max_le) (auto simp: list_all_iff)
        then show ?thesis using n False IH Some
          by (simp add: build_state_simp Let_def list_all_iff)
      qed
    qed
    then show ?thesis using False
      by (subst parse_state_defs_at_depth.simps) (simp add: Let_def list_all_iff)
  qed
qed

text \<open>
  Whatever the text, the extracted state trees are at most 65 levels high, and every state in
  them, nested ones included, is named by a nonempty identifier.
\<close>

theorem states_bounded_and_named:
  "list_all (\<lambda>sd. state_height sd \<le> 65 \<and> named_by_identifiers sd) (parse_state_defs err content)"
  using parsed_states [of 0 err content]
  by (simp add: parse_state_defs_def MAX_AST_DEPTH_def)

end
