(* ===== verification/Sysml_State_Text.thy ===== *)
theory Sysml_State_Text
  imports Sysml_States
begin

text \<open>
  State machines written out as SysML text and read back by the extractor of \<^verbatim>\<open>states.rs\<close>. The text
  has one clause per line: \<^verbatim>\<open>state N;\<close> for a state with nothing inside, otherwise a block with the
  hooks, the transitions and the sub-states. Reading back gives the tree again, except for two
  things the code does: the lines of nested states are also read as lines of the states around
  them, so their hooks and transitions leak outwards, and states nested deeper than the limit are
  dropped.
\<close>

section \<open>Writing\<close>

definition plain_word :: "string \<Rightarrow> bool" where
  "plain_word w \<longleftrightarrow> w \<noteq> [] \<and> list_all is_ident_char w \<and>
     w \<notin> set [''state'', ''def'', ''first'', ''accept'', ''then'']"

definition plain_opt :: "string option \<Rightarrow> bool" where
  "plain_opt x \<longleftrightarrow> (case x of None \<Rightarrow> True | Some w \<Rightarrow> plain_word w)"

definition printable_tx :: "TransitionDef \<Rightarrow> bool" where
  "printable_tx t \<longleftrightarrow> plain_opt (tx_name t) \<and> tx_source t \<noteq> None \<and> plain_opt (tx_source t) \<and>
     tx_target t \<noteq> None \<and> plain_opt (tx_target t) \<and> plain_opt (tx_trigger t) \<and>
     tx_guard t = None \<and> tx_effect t = None \<and> tx_doc t = None"

fun printable :: "StateDef \<Rightarrow> bool" where
  "printable (StateDef n d en dd ex ts subs) \<longleftrightarrow>
     plain_word n \<and> d = None \<and> plain_opt en \<and> plain_opt dd \<and> plain_opt ex \<and>
     list_all printable_tx ts \<and> list_all printable subs"

definition hook_line :: "string \<Rightarrow> string option \<Rightarrow> string list" where
  "hook_line kw x = (case x of None \<Rightarrow> [] | Some act \<Rightarrow> [kw @ '' '' @ act @ '';''])"

definition transition_text :: "TransitionDef \<Rightarrow> string" where
  "transition_text t =
     (case tx_name t of None \<Rightarrow> ''first '' | Some n \<Rightarrow> n @ '' first '') @ the (tx_source t) @
     (case tx_trigger t of None \<Rightarrow> [] | Some e \<Rightarrow> '' accept '' @ e) @ '' then '' @ the (tx_target t)"

definition hook_lines :: "string option \<Rightarrow> string option \<Rightarrow> string option \<Rightarrow> TransitionDef list \<Rightarrow> string list" where
  "hook_lines en dd ex ts =
     hook_line ''entry'' en @ hook_line ''do'' dd @ hook_line ''exit'' ex @
     map (\<lambda>t. ''transition'' @ '' '' @ transition_text t @ '';'') ts"

definition inside_lines :: "(StateDef \<Rightarrow> string list) \<Rightarrow> StateDef \<Rightarrow> string list" where
  "inside_lines f sd =
     hook_lines (state_entry_action sd) (state_do_action sd) (state_exit_action sd) (state_transitions sd) @
     concat (map f (state_sub_states sd))"

fun state_lines :: "StateDef \<Rightarrow> string list" where
  "state_lines (StateDef n d en dd ex ts subs) =
     (let inside = hook_lines en dd ex ts @ concat (map state_lines subs)
      in if inside = [] then [''state '' @ n @ '';''] else (''state '' @ n @ '' {'') # inside @ [''}''])"

definition print_states :: "StateDef list \<Rightarrow> string" where
  "print_states sds = text_of (concat (map state_lines sds))"

section \<open>What reading back gives\<close>

definition later :: "'a option \<Rightarrow> 'a option \<Rightarrow> 'a option" where
  "later a b = (case b of None \<Rightarrow> a | Some _ \<Rightarrow> b)"

definition merge :: "hooks \<Rightarrow> hooks \<Rightarrow> hooks" where
  "merge = (\<lambda>(en, dd, ex, ts) (en', dd', ex', ts'). (later en en', later dd dd', later ex ex', ts @ ts'))"

text \<open>The hooks and transitions of a whole tree, in the order of the text.\<close>

fun tree_hooks :: "StateDef \<Rightarrow> hooks" where
  "tree_hooks (StateDef n d en dd ex ts subs) = foldl merge (en, dd, ex, ts) (map tree_hooks subs)"

fun read_back :: "nat \<Rightarrow> StateDef \<Rightarrow> StateDef" where
  "read_back depth (StateDef n d en dd ex ts subs) =
     (let (en', dd', ex', ts') = tree_hooks (StateDef n d en dd ex ts subs)
      in StateDef n None en' dd' ex' ts'
           (if MAX_AST_DEPTH < Suc depth then [] else map (read_back (Suc depth)) subs))"

section \<open>Words and patterns\<close>

lemma plain_wordD:
  assumes "plain_word w"
  shows "w \<noteq> []" "list_all is_ident_char w" "\<not> is_whitespace (hd w)" "\<not> is_whitespace (last w)"
    "is_ident_char (hd w)" "is_ident_char (last w)" "CHR '' '' \<notin> set w" "LF \<notin> set w" "CHR ''/'' \<notin> set w"
    "CHR '';'' \<notin> set w" "\<forall>c \<in> set w. \<not> is_brace c"
proof -
  show w: "w \<noteq> []" "list_all is_ident_char w" using assms by (auto simp: plain_word_def)
  then show hl: "is_ident_char (hd w)" "is_ident_char (last w)" by (auto simp: list_all_iff)
  have "is_ident_char c \<Longrightarrow> \<not> is_whitespace c" for c
    by (auto simp: ident_char_code is_whitespace_def)
  then show "\<not> is_whitespace (hd w)" "\<not> is_whitespace (last w)" using hl by auto
  have "\<not> is_ident_char (CHR '' '')" "\<not> is_ident_char LF" "\<not> is_ident_char (CHR ''/'')" "\<not> is_ident_char (CHR '';'')"
    by code_simp+
  then show "CHR '' '' \<notin> set w" "LF \<notin> set w" "CHR ''/'' \<notin> set w" "CHR '';'' \<notin> set w"
    using w(2) by (auto simp: list_all_iff)
  show "\<forall>c \<in> set w. \<not> is_brace c" using w(2) not_brace(1) by (auto simp: list_all_iff)
qed

lemma split_once_iff:
  "split_once pat s = Some (a, b) \<longleftrightarrow> s = a @ pat @ b \<and> (\<forall>m < length a. \<not> starts_with (drop m s) pat)"
proof
  assume "split_once pat s = Some (a, b)"
  then show "s = a @ pat @ b \<and> (\<forall>m < length a. \<not> starts_with (drop m s) pat)"
    using split_once_length split_once_first by blast
next
  assume h: "s = a @ pat @ b \<and> (\<forall>m < length a. \<not> starts_with (drop m s) pat)"
  have "starts_with (drop (length a) (a @ pat @ b)) pat" by simp
  then have "find_pos pat s = Some (length a)" using h find_pos_iff by blast
  then obtain a' b' where s: "split_once pat s = Some (a', b')" "length a' = length a"
    by (auto simp: find_pos_def)
  have "a' @ pat @ b' = a @ pat @ b" using split_once_length [OF s(1)] h by metis
  then have "a' = a" "b' = b" using s(2) by simp_all
  then show "split_once pat s = Some (a, b)" using s(1) by simp
qed

text \<open>Searching for a word between blanks in a text of words.\<close>

lemma split_word_hit:
  "CHR '' '' \<notin> set x \<Longrightarrow> split_once ('' '' @ w @ '' '') (x @ '' '' @ w @ '' '' @ y) = Some (x, y)"
proof (induction x)
  case Nil
  then show ?case by (subst split_once.simps) (simp add: starts_with_def)
next
  case (Cons c x)
  then show ?case by (subst split_once.simps) auto
qed

lemma split_word_skip:
  "CHR '' '' \<notin> set x \<Longrightarrow> \<not> starts_with y (w @ '' '') \<Longrightarrow>
   split_once ('' '' @ w @ '' '') (x @ '' '' @ y) =
     map_option (\<lambda>(a, b). (x @ '' '' @ a, b)) (split_once ('' '' @ w @ '' '') y)"
proof (induction x)
  case Nil
  then show ?case by (subst split_once.simps) simp
next
  case (Cons c x)
  then show ?case by (subst split_once.simps) (auto simp: option.map_comp comp_def case_prod_unfold)
qed

lemma split_word_none: "CHR '' '' \<notin> set x \<Longrightarrow> split_once ('' '' @ w) x = None"
  by (induction x) (subst split_once.simps; auto)+

lemma not_word: "list_all is_ident_char v \<Longrightarrow> list_all is_ident_char w \<Longrightarrow> v \<noteq> w \<Longrightarrow> \<not> starts_with (v @ '' '' @ r) (w @ '' '')"
proof (induction v arbitrary: w)
  case Nil
  have "\<not> is_ident_char (CHR '' '')" by code_simp
  then show ?case using Nil by (cases w) auto
next
  case (Cons c v)
  have "\<not> is_ident_char (CHR '' '')" by code_simp
  then show ?case using Cons by (cases w) auto
qed

lemma contains_word: "contains_str (x @ pat @ y) pat"
proof -
  have "find_at pat (x @ pat @ y) \<noteq> None"
    by (induction x) (subst find_at.simps; simp split: list.split)+
  then show ?thesis by (simp add: contains_str_def)
qed

lemma literal_words:
  "list_all is_ident_char ''first''" "list_all is_ident_char ''accept''" "list_all is_ident_char ''then''"
  by code_simp+

lemma non_empty_plain: "plain_word w \<Longrightarrow> non_empty_string w = Some w"
  by (simp add: non_empty_string_def trim_id plain_wordD)

lemma trim_plain: "plain_word w \<Longrightarrow> trim w = w"
  by (simp add: trim_id plain_wordD)

section \<open>One line\<close>

lemma strip_clause:
  assumes "r \<noteq> []" "\<not> is_whitespace (hd r)" "\<not> is_whitespace (last r)" "last r \<noteq> CHR '';''"
  shows "strip_state_clause (kw @ '' '' @ r @ '';'') kw = Some r"
proof -
  have i: "\<not> is_ident_char (CHR '' '')" by code_simp
  have ws: "is_whitespace (CHR '' '')" "\<not> is_whitespace (CHR '';'')" by code_simp+
  have w: "starts_with_word (kw @ '' '' @ r @ '';'') kw"
    using i by (simp add: starts_with_word_def is_word_boundary_after_def get_char_def nth_append)
  have t1: "trim ('' '' @ r @ '';'') = r @ '';''"
    using assms(1,2) ws by (simp add: trim_def trim_matches_def trim_end_matches_def dropWhile_keep)
  have t2: "trim_end_matches semi (r @ '';'') = r"
    using assms(1,4) by (simp add: trim_end_matches_def semi_def dropWhile_keep hd_rev)
  show ?thesis using w assms(1-3) by (simp add: strip_state_clause_def t1 [simplified] t2 trim_id)
qed

lemma strip_clause_none: "\<not> starts_with s kw \<Longrightarrow> strip_state_clause s kw = None"
  by (simp add: strip_state_clause_def starts_with_word_def)

lemma transition_read:
  assumes "printable_tx t"
  shows "parse_transition_clause (transition_text t) = Some t"
    and "transition_text t \<noteq> [] \<and> \<not> is_whitespace (hd (transition_text t)) \<and>
      \<not> is_whitespace (last (transition_text t)) \<and> last (transition_text t) \<noteq> CHR '';''"
proof -
  obtain src tgt where st: "tx_source t = Some src" "tx_target t = Some tgt" "plain_word src" "plain_word tgt"
    using assms by (auto simp: printable_tx_def plain_opt_def)
  define trig where "trig = (case tx_trigger t of None \<Rightarrow> [] | Some e \<Rightarrow> '' accept '' @ e)"
  define rest where "rest = src @ trig @ '' then '' @ tgt"
  have raw: "transition_text t = (case tx_name t of None \<Rightarrow> ''first '' | Some n \<Rightarrow> n @ '' first '') @ rest"
    by (simp add: transition_text_def st trig_def rest_def)
  have te: "tx_trigger t = Some e \<Longrightarrow> plain_word e" for e using assms by (auto simp: printable_tx_def plain_opt_def)
  have nm: "tx_name t = Some n \<Longrightarrow> plain_word n" for n using assms by (auto simp: printable_tx_def plain_opt_def)
  have other: "tx_guard t = None" "tx_effect t = None" "tx_doc t = None" using assms by (auto simp: printable_tx_def)
  note src = plain_wordD [OF st(3)] note tgt = plain_wordD [OF st(4)]
  have ne: "src \<noteq> ''then''" "src \<noteq> ''accept''" using st(3) by (auto simp: plain_word_def)
  have rh: "rest \<noteq> []" "hd rest = hd src" "last rest = last tgt" using src(1) tgt(1) by (auto simp: rest_def)
  have ident_ne: "is_ident_char c \<Longrightarrow> c \<noteq> CHR '';''" for c using tgt by (auto simp: ident_char_code code_def)
  have trim_rest: "trim rest = rest" using rh src tgt by (intro trim_id) auto
  have then_split: "split_once '' then '' rest = Some (src @ trig, tgt)"
  proof (cases "tx_trigger t")
    case None
    then show ?thesis using split_word_hit [OF src(7), of "''then''" tgt] by (simp add: rest_def trig_def)
  next
    case (Some e)
    note e = plain_wordD [OF te [OF Some]]
    have e2: "e \<noteq> ''then''" using te [OF Some] by (auto simp: plain_word_def)
    have h: "split_once '' then '' (e @ '' then '' @ tgt) = Some (e, tgt)"
      using split_word_hit [OF e(7), of "''then''" tgt] by simp
    have "\<not> starts_with (e @ '' then '' @ tgt) ''then ''"
      using not_word [OF e(2) literal_words(3) e2, of "''then '' @ tgt"] by simp
    then have "split_once '' then '' (''accept '' @ e @ '' then '' @ tgt) = Some (''accept '' @ e, tgt)"
      using split_word_skip [of "''accept''" "e @ '' then '' @ tgt" "''then''"] h by simp
    moreover have "\<not> starts_with (''accept '' @ e @ '' then '' @ tgt) ''then ''" by simp
    ultimately have "split_once '' then '' (src @ '' accept '' @ e @ '' then '' @ tgt) = Some (src @ '' accept '' @ e, tgt)"
      using split_word_skip [OF src(7), of "''accept '' @ e @ '' then '' @ tgt" "''then''"] by simp
    then show ?thesis using Some by (simp add: rest_def trig_def)
  qed
  have before: "trim (src @ trig) = src @ trig"
    using src(1,3,4) te plain_wordD(1,4) by (intro trim_id) (auto simp: trig_def split: option.split)
  have accept_split: "split_once '' accept '' (src @ trig) =
      (case tx_trigger t of None \<Rightarrow> None | Some e \<Rightarrow> Some (src, e))"
    using split_word_hit [OF src(7), of "''accept''"] split_word_none [OF src(7), of "''accept ''"]
    by (simp add: trig_def split: option.split)
  have body: "(let (before_then, tgt_str) =
            (case split_once '' then '' rest of
               Some (b_then, a_then) \<Rightarrow> (trim b_then, trim a_then) | None \<Rightarrow> (rest, []));
          (src_str, trig_str) =
            (case split_once '' accept '' before_then of
               Some (b_acc, a_acc) \<Rightarrow> (trim b_acc, trim a_acc) | None \<Rightarrow> (before_then, []))
      in \<lparr>tx_name = tx_name t, tx_source = non_empty_string src_str, tx_target = non_empty_string tgt_str,
          tx_trigger = non_empty_string trig_str, tx_guard = None, tx_effect = None, tx_doc = None\<rparr>) = t"
  proof -
    have t: "t = \<lparr>tx_name = tx_name t, tx_source = Some src, tx_target = Some tgt,
        tx_trigger = tx_trigger t, tx_guard = None, tx_effect = None, tx_doc = None\<rparr>"
      using st(1,2) other by simp
    have n: "non_empty_string [] = None" by (simp add: non_empty_string_def trim_def trim_matches_def trim_end_matches_def)
    show ?thesis
    proof (cases "tx_trigger t")
      case None
      then have tr: "trig = []" by (simp add: trig_def)
      have "split_once '' then '' rest = Some (src, tgt)" "split_once '' accept '' src = None"
        using then_split accept_split None tr by simp_all
      then show ?thesis using None st t by (simp add: trim_plain non_empty_plain n)
    next
      case (Some e)
      then show ?thesis using st t te [OF Some]
        by (simp add: then_split before accept_split trim_plain non_empty_plain)
    qed
  qed
  show "parse_transition_clause (transition_text t) = Some t"
  proof (cases "tx_name t")
    case None
    then have "strip_prefix (transition_text t) ''first '' = Some rest" "starts_with (transition_text t) ''first ''"
      by (simp_all add: raw strip_prefix_Some)
    moreover have "transition_text t \<noteq> []" by (simp add: raw None)
    ultimately show ?thesis using body None
      by (simp add: parse_transition_clause_def parse_first_then_transition_def trim_rest)
  next
    case (Some n)
    note n = plain_wordD [OF nm [OF Some]]
    have n2: "n \<noteq> ''first''" using nm [OF Some] by (auto simp: plain_word_def)
    have raw': "transition_text t = n @ '' '' @ ''first '' @ rest" by (simp add: raw Some)
    have "\<not> starts_with (transition_text t) ''first ''"
      unfolding raw' using not_word [OF n(2) literal_words(1) n2, of "''first '' @ rest"] by simp
    then have "strip_prefix (transition_text t) ''first '' = None" by (simp add: strip_prefix_def)
    moreover have "split_once '' first '' (transition_text t) = Some (n, rest)"
      unfolding raw' using split_word_hit [OF n(7), of "''first''" rest] by simp
    moreover have "contains_str (transition_text t) '' first ''"
      unfolding raw' using contains_word [of n "'' first ''" rest] by simp
    moreover have "transition_text t \<noteq> []" by (simp add: raw')
    ultimately show ?thesis using body Some non_empty_plain [OF nm [OF Some]]
      by (simp add: parse_transition_clause_def parse_first_then_transition_def trim_rest)
  qed
  have "last (transition_text t) = last tgt" using rh by (simp add: raw)
  moreover have "hd (transition_text t) = (case tx_name t of None \<Rightarrow> CHR ''f'' | Some n \<Rightarrow> hd n)"
    using nm plain_wordD(1) by (auto simp: raw split: option.split)
  moreover have "\<not> is_whitespace (CHR ''f'')" by code_simp
  ultimately show "transition_text t \<noteq> [] \<and> \<not> is_whitespace (hd (transition_text t)) \<and>
      \<not> is_whitespace (last (transition_text t)) \<and> last (transition_text t) \<noteq> CHR '';''"
    using rh(1) tgt(4,6) nm plain_wordD(3) ident_ne by (auto simp: raw split: option.split)
qed

section \<open>The lines of a printed state\<close>

lemma plain_not_state: "plain_word w \<Longrightarrow> w \<noteq> ''state''"
  by (auto simp: plain_word_def)

lemma quiet_join:
  assumes "list_all (\<lambda>w. list_all is_ident_char w \<and> w \<noteq> ''state'') ws" "ws \<noteq> []"
    "\<not> is_ident_char c" "quiet ''state'' v"
  shows "quiet ''state'' (join '' '' ws @ c # v)"
  using assms
proof (induction ws rule: induct_list012)
  case (2 w)
  then show ?case by (simp add: quiet_word keyword_state)
next
  case (3 w w' ws)
  have "\<not> is_ident_char (CHR '' '')" by code_simp
  then show ?case using 3 by (simp add: quiet_word keyword_state)
qed simp

definition opt_list :: "'a option \<Rightarrow> 'a list" where
  "opt_list x = (case x of None \<Rightarrow> [] | Some y \<Rightarrow> [y])"

definition transition_words :: "TransitionDef \<Rightarrow> string list" where
  "transition_words t = opt_list (tx_name t) @ [''first'', the (tx_source t)] @
     (case tx_trigger t of None \<Rightarrow> [] | Some e \<Rightarrow> [''accept'', e]) @ [''then'', the (tx_target t)]"

lemma transition_text_words: "transition_text t = join '' '' (transition_words t)"
  by (simp add: transition_text_def transition_words_def opt_list_def split: option.split)

lemma gaps: "\<not> is_ident_char (CHR '' '')" "\<not> is_ident_char (CHR '';'')" "\<not> is_ident_char LF"
  "\<not> is_ident_char (CHR ''{'')" "\<not> is_ident_char (CHR ''}'')"
  by code_simp+

lemma transition_words_ok:
  "printable_tx t \<Longrightarrow> list_all (\<lambda>w. list_all is_ident_char w \<and> w \<noteq> ''state'') (transition_words t)"
  using plain_wordD(2) plain_not_state literal_words
  by (auto simp: transition_words_def opt_list_def printable_tx_def plain_opt_def split: option.splits)

text \<open>A line of words, blanks and semicolons without the word \<^verbatim>\<open>state\<close>.\<close>

definition clause_line :: "string \<Rightarrow> bool" where
  "clause_line l \<longleftrightarrow> (\<exists>ws. l = join '' '' ws @ '';'' \<and> ws \<noteq> [] \<and>
     list_all (\<lambda>w. list_all is_ident_char w \<and> w \<noteq> ''state'') ws)"

lemma clause_line_quiet:
  assumes "clause_line l" "quiet ''state'' v"
  shows "quiet ''state'' (l @ LF # v)"
proof -
  obtain ws where ws: "l = join '' '' ws @ '';''" "ws \<noteq> []"
    "list_all (\<lambda>w. list_all is_ident_char w \<and> w \<noteq> ''state'') ws" using assms(1) by (auto simp: clause_line_def)
  have "quiet ''state'' (LF # v)" using gaps by (intro quiet_gap keyword_state assms(2)) auto
  then show ?thesis using quiet_join [OF ws(3,2) gaps(2)] ws(1) by simp
qed

lemma clause_line_chars:
  assumes "clause_line l" "c \<in> set l"
  shows "is_ident_char c \<or> c = CHR '' '' \<or> c = CHR '';''"
proof -
  obtain ws where ws: "l = join '' '' ws @ '';''"
    "list_all (\<lambda>w. list_all is_ident_char w \<and> w \<noteq> ''state'') ws" using assms(1) by (auto simp: clause_line_def)
  then show ?thesis using assms(2) set_join [of "'' ''" ws] by (auto simp: list_all_iff)
qed

lemma hook_lines_clauses:
  assumes "plain_opt en" "plain_opt dd" "plain_opt ex" "list_all printable_tx ts"
  shows "list_all clause_line (hook_lines en dd ex ts)"
proof -
  have kws: "list_all is_ident_char ''entry''" "list_all is_ident_char ''do''" "list_all is_ident_char ''exit''"
    "list_all is_ident_char ''transition''" by code_simp+
  have hl: "list_all clause_line (hook_line kw x)" if "plain_opt x" "list_all is_ident_char kw" "kw \<noteq> ''state''" for kw x
  proof (cases x)
    case (Some act)
    then have "plain_word act" using that by (simp add: plain_opt_def)
    then show ?thesis using Some that plain_wordD(2) plain_not_state
      by (auto simp: hook_line_def clause_line_def intro!: exI [of _ "[kw, act]"])
  qed (simp add: hook_line_def)
  have tx: "clause_line (''transition'' @ '' '' @ transition_text t @ '';'')" if "printable_tx t" for t
    unfolding clause_line_def
  proof (intro exI conjI)
    have "transition_words t \<noteq> []" by (simp add: transition_words_def)
    then show "''transition'' @ '' '' @ transition_text t @ '';'' = join '' '' (''transition'' # transition_words t) @ '';''"
      by (cases "transition_words t") (simp_all add: transition_text_words)
  qed (use transition_words_ok [OF that] kws in simp_all)
  have "list_all clause_line (hook_line ''entry'' en)" "list_all clause_line (hook_line ''do'' dd)"
    "list_all clause_line (hook_line ''exit'' ex)"
    using hl [OF assms(1) kws(1)] hl [OF assms(2) kws(2)] hl [OF assms(3) kws(3)] by simp_all
  moreover have "list_all clause_line (map (\<lambda>t. ''transition'' @ '' '' @ transition_text t @ '';'') ts)"
    using assms(4) tx by (induction ts) simp_all
  ultimately show ?thesis unfolding hook_lines_def list_all_append by blast
qed

definition state_char :: "char \<Rightarrow> bool" where
  "state_char c \<longleftrightarrow> is_ident_char c \<or> c \<in> set '' ;{}''"

lemma state_char_plain: "state_char c \<Longrightarrow> plain_char c \<and> c \<noteq> CHR ''/'' \<and> c \<noteq> DQ \<and> c \<noteq> LF \<and> c \<noteq> CR"
proof -
  have "plain_char (CHR '' '') \<and> plain_char (CHR '';'') \<and> plain_char (CHR ''{'') \<and> plain_char (CHR ''}'')" by code_simp
  moreover have "is_ident_char c \<Longrightarrow> c \<noteq> CHR ''/'' \<and> c \<noteq> DQ \<and> c \<noteq> LF \<and> c \<noteq> CR"
    by (auto simp: ident_char_code code_def)
  ultimately show "state_char c \<Longrightarrow> ?thesis" by (auto simp: state_char_def plain_char_def)
qed

lemma state_lines_chars: "printable sd \<Longrightarrow> l \<in> set (state_lines sd) \<Longrightarrow> list_all state_char l"
proof (induction sd arbitrary: l)
  case (StateDef n d en dd ex ts subs)
  have n: "list_all state_char n" using StateDef(2) plain_wordD(2) [of n] by (auto simp: list_all_iff state_char_def)
  have k: "list_all state_char ''state ''" "list_all state_char '' {''" "list_all state_char ''}''" "list_all state_char '';''"
    by code_simp+
  have h: "list_all state_char h" if "h \<in> set (hook_lines en dd ex ts)" for h
    using hook_lines_clauses [of en dd ex ts] StateDef(2) that clause_line_chars [of h]
    by (auto simp: list_all_iff state_char_def)
  have s: "list_all state_char h" if "h \<in> set (concat (map state_lines subs))" for h
    using that StateDef(1) StateDef(2) by (auto simp: list_all_iff)
  show ?case using StateDef(3) n k h s by (auto simp: Let_def split: if_splits)
qed

lemma state_line_ok: "list_all state_char l \<Longrightarrow> line_ok l"
proof -
  assume a: "list_all state_char l"
  then have "c \<in> set l \<Longrightarrow> c \<noteq> LF \<and> c \<noteq> CR" for c using state_char_plain by (auto simp: list_all_iff)
  then show "line_ok l" using last_in_set [of l] by (auto simp: line_ok_def)
qed

lemma text_of_plain:
  assumes "list_all (list_all state_char) ls"
  shows "list_all plain_char (text_of ls)" "CHR ''/'' \<notin> set (text_of ls)" "DQ \<notin> set (text_of ls)"
proof -
  have lf: "plain_char LF" by code_simp
  show "list_all plain_char (text_of ls)" using assms lf state_char_plain
    by (induction ls) (auto simp: list_all_iff)
  show "CHR ''/'' \<notin> set (text_of ls)" "DQ \<notin> set (text_of ls)"
    using assms state_char_plain by (induction ls; auto simp: list_all_iff)+
qed

lemma text_of_nested:
  "printable sd \<Longrightarrow> nested (text_of (state_lines sd))"
proof (induction sd)
  case (StateDef n d en dd ex ts subs)
  have nb: "\<forall>c \<in> set l. \<not> is_brace c" if "clause_line l" for l
    using clause_line_chars [OF that] not_brace(1) by (auto simp: is_brace_def)
  have lf: "\<not> is_brace LF" by code_simp
  have cl: "list_all clause_line (hook_lines en dd ex ts)" using hook_lines_clauses StateDef(2) by simp
  have "nested (text_of ls)" if "list_all clause_line ls" for ls
    using that
  proof (induction ls)
    case (Cons l ls)
    then show ?case using nested_append [OF nested_flat [OF nb] nested_skip [OF lf]] by simp
  qed (simp add: nested_nil)
  then have h: "nested (text_of (hook_lines en dd ex ts))" using cl by blast
  have s: "nested (text_of (concat (map state_lines subs)))"
    using StateDef by (induction subs) (auto intro: nested.intros nested_append)
  have w: "\<forall>c \<in> set n. \<not> is_brace c" using StateDef(2) plain_wordD(11) [of n] by simp
  have sp: "\<not> is_brace (CHR '' '') \<and> \<not> is_brace (CHR '';'') \<and> (\<forall>c \<in> set ''state ''. \<not> is_brace c)" by code_simp
  let ?in = "LF # text_of (hook_lines en dd ex ts @ concat (map state_lines subs))"
  have inn: "nested ?in" using h s lf by (auto intro: nested.intros nested_append)
  have "nested ((''state '' @ n @ '' '') @ ''{'' @ ?in @ ''}'' @ [LF])"
    using w sp lf by (intro nested_append nested_block inn nested_flat) auto
  moreover have "nested (''state '' @ n @ '';'' @ [LF])"
    using w sp lf by (intro nested_flat) auto
  ultimately show ?case by (simp add: Let_def)
qed

section \<open>One printed state is one span\<close>

lemma no_doc: "CHR ''/'' \<notin> set t \<Longrightarrow> extract_doc_comment_before t p = None"
proof -
  assume a: "CHR ''/'' \<notin> set t"
  have "set (trim_end u) \<subseteq> set u" for u
    by (auto simp: trim_end_def trim_end_matches_def dest: set_dropWhileD)
  then have "CHR ''/'' \<notin> set (trim_end (take p t))" using a in_set_takeD by fastforce
  moreover have "CHR ''/'' \<in> set u" if "ends_with u ''*/''" for u
    using that by (auto simp: ends_with_iff suffix_def)
  ultimately have "\<not> ends_with (trim_end (take p t)) ''*/''" by blast
  then show ?thesis by (simp add: extract_doc_comment_before_def Let_def)
qed

lemma takeWhile_word: "list_all P w \<Longrightarrow> \<not> P c \<Longrightarrow> takeWhile P (w @ c # r) = w"
  by (induction w) auto

lemma not_ascii_space: "is_ident_char c \<Longrightarrow> \<not> is_ascii_whitespace c"
  by (auto simp: ident_char_code is_ascii_whitespace_def)

lemma drop_at: "t = p @ r \<Longrightarrow> length p = k \<Longrightarrow> drop k t = r"
  by auto

lemma skip_from_at:
  "t = p @ c # r \<Longrightarrow> length p = k \<Longrightarrow> \<not> is_ascii_whitespace c \<Longrightarrow> skip_from t k = k"
  "t = p @ CHR '' '' # c # r \<Longrightarrow> length p = k \<Longrightarrow> \<not> is_ascii_whitespace c \<Longrightarrow> skip_from t k = Suc k"
proof -
  have "is_ascii_whitespace (CHR '' '')" by code_simp
  then show "t = p @ c # r \<Longrightarrow> length p = k \<Longrightarrow> \<not> is_ascii_whitespace c \<Longrightarrow> skip_from t k = k"
    "t = p @ CHR '' '' # c # r \<Longrightarrow> length p = k \<Longrightarrow> \<not> is_ascii_whitespace c \<Longrightarrow> skip_from t k = Suc k"
    by (auto simp: skip_from_def skip_ws_def)
qed

lemma solid_marks: "\<not> is_ascii_whitespace (CHR '';'')" "\<not> is_ascii_whitespace (CHR ''{'')"
  by code_simp+

lemma not_def_word:
  assumes "plain_word n" "\<not> is_ident_char c"
  shows "\<not> starts_with_word (n @ c # r) ''def''"
proof
  assume w: "starts_with_word (n @ c # r) ''def''"
  have d: "list_all is_ident_char ''def''" by code_simp
  have n: "list_all is_ident_char n" using plain_wordD [OF assms(1)] by simp
  have le: "length ''def'' \<le> length (takeWhile is_ident_char (n @ c # r))"
    "length ''def'' = length (takeWhile is_ident_char (n @ c # r)) \<longrightarrow> ''def'' = takeWhile is_ident_char (n @ c # r)"
    using starts_with_run [of "n @ c # r" "''def''" is_ident_char] w d by (auto simp: starts_with_word_def)
  have t: "takeWhile is_ident_char (n @ c # r) = n" using n assms(2) by (rule takeWhile_word)
  have "n \<noteq> ''def''" using assms(1) by (auto simp: plain_word_def)
  then have "3 < length n" using le unfolding t by (cases "length n = 3") auto
  then show False using w n by (simp add: starts_with_word_def is_word_boundary_after_def get_char_def
        nth_append list_all_length)
qed

text \<open>Where the name of a printed state starts and what is there.\<close>

lemma state_header:
  assumes n: "plain_word n" and t: "t = a @ ''state '' @ n @ c # r" and c: "\<not> is_ident_char c"
    and slash: "CHR ''/'' \<notin> set t"
  shows "extract_doc_comment_before t (length a) = None"
    and "snd (skip_def t (skip_from t (length a + 5))) = length a + 6"
    and "extract_ident (drop (length a + 6) t) = (n, length n)"
proof -
  show "extract_doc_comment_before t (length a) = None" by (rule no_doc [OF slash])
  obtain x y where x: "n = x # y" "is_ident_char x" using plain_wordD(1,5) [OF n] by (cases n) auto
  have "skip_from t (length a + 5) = Suc (length a + 5)"
    by (rule skip_from_at(2) [of t "a @ ''state''" x "y @ c # r"]) (simp_all add: t x not_ascii_space [OF x(2)])
  then have s: "skip_from t (length a + 5) = length a + 6" by simp
  have dr: "drop (length a + 6) t = n @ c # r" by (simp add: t)
  show "snd (skip_def t (skip_from t (length a + 5))) = length a + 6"
    using not_def_word [OF n c] by (simp add: s skip_def_def dr)
  show "extract_ident (drop (length a + 6) t) = (n, length n)"
    using plain_wordD(2) [OF n] c by (simp add: dr extract_ident_def takeWhile_word)
qed

lemma read_leaf:
  assumes n: "plain_word n" and t: "t = a @ ''state '' @ n @ '';'' @ r" and slash: "CHR ''/'' \<notin> set t"
  shows "parse_state_span err t t (length a) =
    Some \<lparr>ps_name = n, ps_doc = None, ps_body_str = None, ps_next_idx = length a + 7 + length n\<rparr>"
proof -
  have h: "extract_doc_comment_before t (length a) = None"
    "snd (skip_def t (skip_from t (length a + 5))) = length a + 6"
    "extract_ident (drop (length a + 6) t) = (n, length n)"
    using state_header [OF n, of t a "CHR '';''" r] t gaps(2) slash by simp_all
  have s: "skip_from t (length a + 6 + length n) = length a + 6 + length n"
    by (rule skip_from_at(1) [of t "a @ ''state '' @ n" "CHR '';''" r]) (simp_all add: t solid_marks)
  have d: "drop (length a + 6 + length n) t = '';'' @ r"
    by (rule drop_at [of t "a @ ''state '' @ n"]) (simp_all add: t)
  show ?thesis using plain_wordD(1) [OF n]
    by (simp add: parse_state_span_def h s d del: drop_append)
qed

lemma read_block:
  assumes n: "plain_word n" and t: "t = a @ ''state '' @ n @ '' {'' @ body @ ''}'' @ r"
    and plain: "list_all plain_char t" and body: "nested body"
  shows "parse_state_span err t t (length a) =
    Some \<lparr>ps_name = n, ps_doc = None, ps_body_str = Some body,
      ps_next_idx = length a + 9 + length n + length body\<rparr>"
proof -
  have slash: "CHR ''/'' \<notin> set t" using plain not_plain_char by (auto simp: list_all_iff)
  have h: "extract_doc_comment_before t (length a) = None"
    "snd (skip_def t (skip_from t (length a + 5))) = length a + 6"
    "extract_ident (drop (length a + 6) t) = (n, length n)"
    using state_header [OF n, of t a "CHR '' ''" "''{'' @ body @ ''}'' @ r"] t gaps(1) slash by simp_all
  let ?q = "a @ ''state '' @ n @ '' ''"
  have t3: "t = ?q @ ''{'' @ body @ ''}'' @ r" by (simp add: t)
  have q: "length ?q = length a + 7 + length n" by simp
  have "skip_from t (length a + 6 + length n) = Suc (length a + 6 + length n)"
    by (rule skip_from_at(2) [of t "a @ ''state '' @ n" "CHR ''{''" "body @ ''}'' @ r"]) (simp_all add: t solid_marks)
  then have s: "skip_from t (length a + 6 + length n) = length a + 7 + length n" by simp
  have d: "drop (length a + 7 + length n) t = ''{'' @ body @ ''}'' @ r"
    by (rule drop_at [OF t3 q])
  have "list_all plain_char (''{'' @ body @ ''}'' @ r)" using plain t3 by simp
  then have "find_matching_brace err t (length ?q) = Some (length ?q + Suc (length body))"
    unfolding t3 using body by (rule find_matching_block)
  then have f: "find_matching_brace err t (length a + 7 + length n) = Some (length a + 8 + length n + length body)"
    unfolding q by (simp add: ac_simps)
  have g: "get_slice t (length a + 8 + length n) (length a + 8 + length n + length body) = Some body"
  proof -
    have "drop (length a + 8 + length n) t = body @ ''}'' @ r"
      by (rule drop_at [of t "?q @ ''{''"]) (simp_all add: t)
    moreover have "length a + 8 + length n + length body \<le> length t" by (simp add: t)
    ultimately show ?thesis by (simp add: get_slice_def get_range_def)
  qed
  have e: "8 + (length a + length n) = length a + 8 + length n" by simp
  have g2: "get_slice t (8 + (length a + length n)) (length a + 8 + length n + length body) = Some body"
    unfolding e by (rule g)
  show ?thesis using plain_wordD(1) [OF n]
    by (simp add: parse_state_span_def h s d f g2 del: drop_append)
qed

section \<open>All printed states\<close>

definition body_of :: "StateDef \<Rightarrow> string option" where
  "body_of sd =
     (let inside = inside_lines state_lines sd in if inside = [] then None else Some (text_of ([] # inside)))"

lemma text_of_state:
  "text_of (state_lines sd) =
     (case body_of sd of None \<Rightarrow> ''state '' @ state_name sd @ '';'' @ [LF]
      | Some body \<Rightarrow> ''state '' @ state_name sd @ '' {'' @ body @ ''}'' @ [LF])"
  by (cases sd) (simp add: body_of_def inside_lines_def Let_def)

lemma body_nested: "printable sd \<Longrightarrow> body_of sd = Some body \<Longrightarrow> nested body"
proof -
  assume p: "printable sd" and b: "body_of sd = Some body"
  obtain n d en dd ex ts subs where sd: "sd = StateDef n d en dd ex ts subs" by (cases sd)
  have nb: "\<forall>c \<in> set l. \<not> is_brace c" if "clause_line l" for l
    using clause_line_chars [OF that] not_brace(1) by (auto simp: is_brace_def)
  have lf: "\<not> is_brace LF" by code_simp
  have "nested (text_of ls)" if "list_all clause_line ls" for ls
    using that
  proof (induction ls)
    case (Cons l ls)
    then show ?case using nested_append [OF nested_flat [OF nb] nested_skip [OF lf]] by simp
  qed (simp add: nested_nil)
  then have h: "nested (text_of (hook_lines en dd ex ts))" using hook_lines_clauses p sd by simp
  have "nested (text_of (concat (map state_lines subs)))"
    using p sd text_of_nested by (induction subs arbitrary: sd) (auto intro: nested.intros nested_append)
  then show ?thesis using b h lf sd
    by (auto simp: body_of_def inside_lines_def Let_def intro: nested_append nested_skip split: if_splits)
qed

lemma state_word_at:
  assumes "t = a @ ''state '' @ r" "ends_gap a"
  shows "state_spans err t t (length a) =
    (case parse_state_span err t t (length a) of
       Some sp \<Rightarrow> sp # state_spans err t t (ps_next_idx sp)
     | None \<Rightarrow> state_spans err t t (length a + 5))"
proof (rule state_search.run_hit)
  show "starts_with (drop (length a) t) ''state''" by (simp add: assms(1))
  show "is_word_boundary_before t (length a)"
    using assms(2) by (cases a rule: rev_cases) (auto simp: assms(1) is_word_boundary_before_def get_char_def
        ends_gap_def nth_append)
  have "get_char t (length a + 5) = Some (CHR '' '')" by (simp add: assms(1) get_char_def nth_append)
  then show "is_word_boundary_after t (length a + length ''state'')"
    using gaps(1) unfolding length_state by (simp add: is_word_boundary_after_def)
qed

lemma read_one:
  assumes p: "printable sd" and t: "t = a @ text_of (state_lines sd) @ b" and plain: "list_all plain_char t"
    and a: "ends_gap a"
  obtains next_idx where "state_spans err t t (length a) =
      \<lparr>ps_name = state_name sd, ps_doc = None, ps_body_str = body_of sd, ps_next_idx = next_idx\<rparr>
        # state_spans err t t (length a + length (text_of (state_lines sd)))"
proof -
  have n: "plain_word (state_name sd)" using p by (cases sd) simp
  have slash: "CHR ''/'' \<notin> set t" using plain not_plain_char by (auto simp: list_all_iff)
  have q: "quiet ''state'' [LF]" using gaps by (intro quiet_gap keyword_state quiet_Nil) auto
  have e: "ends_gap [LF]" using gaps by (simp add: ends_gap_def)
  show thesis
  proof (cases "body_of sd")
    case None
    then have t2: "t = a @ ''state '' @ state_name sd @ '';'' @ LF # b" using t by (simp add: text_of_state)
    let ?p = "a @ ''state '' @ state_name sd @ '';''"
    have r: "parse_state_span err t t (length a) = Some \<lparr>ps_name = state_name sd, ps_doc = None,
        ps_body_str = None, ps_next_idx = length ?p\<rparr>"
      using read_leaf [OF n t2 slash] by (simp add: ac_simps)
    have "state_spans err t t (length ?p) = state_spans err t t (length ?p + length [LF])"
      by (rule state_search.run_skip [OF _ q e]) (simp add: t2)
    moreover have "length ?p + length [LF] = length a + length (text_of (state_lines sd))"
      using None by (simp add: text_of_state)
    ultimately have nx: "state_spans err t t (length ?p) =
        state_spans err t t (length a + length (text_of (state_lines sd)))" by (simp only:)
    have w: "t = a @ ''state '' @ (state_name sd @ '';'' @ LF # b)" by (simp add: t2)
    show ?thesis
      by (rule that [of "length ?p"]) (simp only: state_word_at [OF w a] r nx option.case ParsedStateSpan.simps None)
  next
    case (Some body)
    then have t2: "t = a @ ''state '' @ state_name sd @ '' {'' @ body @ ''}'' @ LF # b" using t by (simp add: text_of_state)
    let ?p = "a @ ''state '' @ state_name sd @ '' {'' @ body @ ''}''"
    have r: "parse_state_span err t t (length a) = Some \<lparr>ps_name = state_name sd, ps_doc = None,
        ps_body_str = Some body, ps_next_idx = length ?p\<rparr>"
      using read_block [OF n t2 plain body_nested [OF p Some]] by (simp add: ac_simps)
    have "state_spans err t t (length ?p) = state_spans err t t (length ?p + length [LF])"
      by (rule state_search.run_skip [OF _ q e]) (simp add: t2)
    moreover have "length ?p + length [LF] = length a + length (text_of (state_lines sd))"
      using Some by (simp add: text_of_state)
    ultimately have nx: "state_spans err t t (length ?p) =
        state_spans err t t (length a + length (text_of (state_lines sd)))" by (simp only:)
    have w: "t = a @ ''state '' @ (state_name sd @ '' {'' @ body @ ''}'' @ LF # b)" by (simp add: t2)
    show ?thesis
      by (rule that [of "length ?p"]) (simp only: state_word_at [OF w a] r nx option.case ParsedStateSpan.simps Some)
  qed
qed

lemma read_all:
  assumes "list_all printable sds" "t = a @ text_of (concat (map state_lines sds)) @ b"
    "list_all plain_char t" "ends_gap a"
  shows "\<exists>sps. state_spans err t t (length a) =
      sps @ state_spans err t t (length a + length (text_of (concat (map state_lines sds)))) \<and>
    map (\<lambda>sp. (ps_name sp, ps_doc sp, ps_body_str sp)) sps = map (\<lambda>sd. (state_name sd, None, body_of sd)) sds"
  using assms
proof (induction sds arbitrary: a)
  case Nil
  then show ?case by simp
next
  case (Cons sd sds)
  let ?u = "text_of (state_lines sd)" and ?r = "text_of (concat (map state_lines sds))"
  have t: "t = a @ ?u @ (?r @ b)" "t = (a @ ?u) @ ?r @ b" using Cons.prems(2) by simp_all
  have "ends_gap (a @ ?u)" using gaps by (simp add: text_of_state ends_gap_def split: option.split)
  then obtain sps where sps: "state_spans err t t (length (a @ ?u)) =
      sps @ state_spans err t t (length (a @ ?u) + length ?r)"
    "map (\<lambda>sp. (ps_name sp, ps_doc sp, ps_body_str sp)) sps = map (\<lambda>sd. (state_name sd, None, body_of sd)) sds"
    using Cons.IH [OF _ t(2) Cons.prems(3)] Cons.prems(1) by auto
  obtain nx where one: "state_spans err t t (length a) =
      \<lparr>ps_name = state_name sd, ps_doc = None, ps_body_str = body_of sd, ps_next_idx = nx\<rparr>
        # state_spans err t t (length a + length ?u)"
    using read_one [OF _ t(1) Cons.prems(3,4), where err = err] Cons.prems(1) by auto
  have l: "length (a @ ?u) = length a + length ?u" "length a + length ?u + length ?r =
      length a + length (text_of (concat (map state_lines (sd # sds))))" by simp_all
  show ?case
    by (rule exI [of _ "\<lparr>ps_name = state_name sd, ps_doc = None, ps_body_str = body_of sd, ps_next_idx = nx\<rparr> # sps"])
      (simp add: one sps [unfolded l] l(2) [symmetric] del: l(2))
qed

text \<open>A text of clause lines followed by printed states.\<close>

lemma read_text:
  assumes "list_all clause_line hs" "list_all printable sds"
    "content = text_of (blank_lines @ hs @ concat (map state_lines sds))" "blank_lines = [] \<or> blank_lines = [[]]"
  shows "map (\<lambda>sp. (ps_name sp, ps_doc sp, ps_body_str sp)) (state_spans err content content 0) =
      map (\<lambda>sd. (state_name sd, None, body_of sd)) sds \<and>
    strip_sysml_comments err content = content \<and> mask_string_literals err content = content"
proof -
  have chars: "list_all (list_all state_char) (blank_lines @ hs @ concat (map state_lines sds))"
  proof -
    have "list_all (list_all state_char) hs"
      using assms(1) clause_line_chars by (fastforce simp: list_all_iff state_char_def)
    moreover have "list_all (list_all state_char) (concat (map state_lines sds))"
      using assms(2) state_lines_chars by (fastforce simp: list_all_iff)
    ultimately show ?thesis using assms(4) by auto
  qed
  note pl = text_of_plain [OF chars, folded assms(3)]
  let ?u = "text_of (blank_lines @ hs)" and ?r = "text_of (concat (map state_lines sds))"
  have hsq: "quiet ''state'' (text_of hs)" using assms(1)
    by (induction hs) (auto simp: quiet_Nil keyword_state clause_line_quiet)
  then have q: "quiet ''state'' ?u" using assms(4) quiet_gap [OF keyword_state gaps(3)] by auto
  have e: "ends_gap ?u" using gaps by (cases "blank_lines @ hs" rule: rev_cases) (auto simp: ends_gap_def)
  have c: "content = [] @ ?u @ ?r" "content = ?u @ ?r @ []" using assms(3) by simp_all
  obtain sps where sps: "state_spans err content content (length ?u) =
      sps @ state_spans err content content (length ?u + length ?r)"
    "map (\<lambda>sp. (ps_name sp, ps_doc sp, ps_body_str sp)) sps = map (\<lambda>sd. (state_name sd, None, body_of sd)) sds"
    using read_all [OF assms(2) c(2) pl(1) e, of err] by blast
  have "state_spans err content content 0 = state_spans err content content (length ?u)"
    using state_search.run_skip [OF c(1) q e, of err content] by simp
  moreover have "length ?u + length ?r = length content" using c(2) by simp
  ultimately have "state_spans err content content 0 = sps"
    using sps(1) state_search.run_end [of err content content] by simp
  then show ?thesis using sps(2) strip_plain [OF pl(2)] mask_plain [OF pl(2,3)] by simp
qed

section \<open>The lines of a body\<close>

lemma merge_none [simp]: "merge h (None, None, None, []) = h"
  by (cases h) (simp add: merge_def later_def)

lemma merge_assoc: "merge (merge a b) c = merge a (merge b c)"
  by (cases a; cases b; cases c) (auto simp: merge_def later_def split: option.splits)

lemma foldl_merge: "foldl merge (merge a b) hs = merge a (foldl merge b hs)"
  by (induction hs arbitrary: b) (simp_all add: merge_assoc)

lemma state_line_hook:
  assumes "plain_word act"
  shows "state_line (''entry'' @ '' '' @ act @ '';'') h = merge h (Some act, None, None, [])"
    and "state_line (''do'' @ '' '' @ act @ '';'') h = merge h (None, Some act, None, [])"
    and "state_line (''exit'' @ '' '' @ act @ '';'') h = merge h (None, None, Some act, [])"
proof -
  note p = plain_wordD [OF assms]
  have la: "last act \<noteq> CHR '';''" using p(1,10) by (metis last_in_set)
  note c = strip_clause [OF p(1,3,4) la]
  have ws: "\<not> is_whitespace (CHR ''e'')" "\<not> is_whitespace (CHR ''d'')" "\<not> is_whitespace (CHR '';'')" by code_simp+
  have t: "trim (''entry'' @ '' '' @ act @ '';'') = ''entry'' @ '' '' @ act @ '';''"
    "trim (''do'' @ '' '' @ act @ '';'') = ''do'' @ '' '' @ act @ '';''"
    "trim (''exit'' @ '' '' @ act @ '';'') = ''exit'' @ '' '' @ act @ '';''"
    using ws by (intro trim_id; simp)+
  show "state_line (''entry'' @ '' '' @ act @ '';'') h = merge h (Some act, None, None, [])"
    by (cases h) (simp only: state_line_def t c case_prod_conv Let_def option.case, simp add: merge_def later_def)
  have n: "strip_state_clause (''do'' @ '' '' @ act @ '';'') ''entry'' = None"
    "strip_state_clause (''exit'' @ '' '' @ act @ '';'') ''entry'' = None"
    "strip_state_clause (''exit'' @ '' '' @ act @ '';'') ''do'' = None" by (intro strip_clause_none; simp)+
  show "state_line (''do'' @ '' '' @ act @ '';'') h = merge h (None, Some act, None, [])"
    by (cases h) (simp only: state_line_def t c n case_prod_conv Let_def option.case, simp add: merge_def later_def)
  show "state_line (''exit'' @ '' '' @ act @ '';'') h = merge h (None, None, Some act, [])"
    by (cases h) (simp only: state_line_def t c n case_prod_conv Let_def option.case, simp add: merge_def later_def)
qed

lemma state_line_transition:
  assumes "printable_tx tx"
  shows "state_line (''transition'' @ '' '' @ transition_text tx @ '';'') h = merge h (None, None, None, [tx])"
proof -
  let ?l = "''transition'' @ '' '' @ transition_text tx @ '';''"
  have c: "strip_state_clause ?l ''transition'' = Some (transition_text tx)"
    using transition_read(2) [OF assms] by (intro strip_clause) auto
  have ws: "\<not> is_whitespace (CHR ''t'')" "\<not> is_whitespace (CHR '';'')" by code_simp+
  have t: "trim ?l = ?l" using ws by (intro trim_id; simp)
  have n: "strip_state_clause ?l ''entry'' = None" "strip_state_clause ?l ''do'' = None"
    "strip_state_clause ?l ''exit'' = None" by (intro strip_clause_none; simp)+
  show ?thesis
    by (cases h) (simp only: state_line_def t c n transition_read(1) [OF assms] case_prod_conv Let_def option.case,
      simp add: merge_def later_def)
qed

lemma state_line_other:
  assumes "trim l = [] \<or> hd (trim l) \<notin> set ''edt''"
  shows "state_line l h = h"
proof -
  have "strip_state_clause (trim l) kw = None" if "kw \<noteq> []" "hd kw \<in> set ''edt''" for kw
    using assms that by (intro strip_clause_none) (cases "trim l"; cases kw; auto)
  then show ?thesis by (cases h) (simp add: state_line_def Let_def)
qed

lemma header_lines:
  assumes "plain_word n"
  shows "state_line (''state '' @ n @ '';'') h = h" "state_line (''state '' @ n @ '' {'') h = h"
    "state_line ''}'' h = h" "state_line [] h = h"
proof -
  have ws: "\<not> is_whitespace (CHR ''s'')" "\<not> is_whitespace (CHR '';'')" "\<not> is_whitespace (CHR ''{'')" by code_simp+
  have t: "trim (''state '' @ n @ '';'') = ''state '' @ n @ '';''" "trim (''state '' @ n @ '' {'') = ''state '' @ n @ '' {''"
    using ws by (intro trim_id; simp)+
  show "state_line (''state '' @ n @ '';'') h = h" by (rule state_line_other) (simp only: t, simp)
  show "state_line (''state '' @ n @ '' {'') h = h" by (rule state_line_other) (simp only: t, simp)
  have "trim ''}'' = ''}''" "trim [] = []" by code_simp+
  then show "state_line ''}'' h = h" "state_line [] h = h" by (auto intro: state_line_other)
qed

lemma fold_transitions:
  "list_all printable_tx ts \<Longrightarrow>
   fold state_line (map (\<lambda>t. ''transition'' @ '' '' @ transition_text t @ '';'') ts) h = merge h (None, None, None, ts)"
proof (induction ts arbitrary: h)
  case (Cons tx ts)
  have "merge (merge h (None, None, None, [tx])) (None, None, None, ts) = merge h (None, None, None, tx # ts)"
    by (simp add: merge_assoc) (simp add: merge_def later_def)
  then show ?case using Cons state_line_transition [of tx h] by (simp del: append_Cons append_Nil)
qed simp

lemma fold_hook_lines:
  assumes "plain_opt en" "plain_opt dd" "plain_opt ex" "list_all printable_tx ts"
  shows "fold state_line (hook_lines en dd ex ts) h = merge h (en, dd, ex, ts)"
proof -
  have "fold state_line (hook_line ''entry'' en) h = merge h (en, None, None, [])" for h
    using assms(1) state_line_hook(1) by (cases en) (auto simp: hook_line_def plain_opt_def simp del: append_Cons append_Nil)
  moreover have "fold state_line (hook_line ''do'' dd) h = merge h (None, dd, None, [])" for h
    using assms(2) state_line_hook(2) by (cases dd) (auto simp: hook_line_def plain_opt_def simp del: append_Cons append_Nil)
  moreover have "fold state_line (hook_line ''exit'' ex) h = merge h (None, None, ex, [])" for h
    using assms(3) state_line_hook(3) by (cases ex) (auto simp: hook_line_def plain_opt_def simp del: append_Cons append_Nil)
  ultimately show ?thesis
    unfolding hook_lines_def fold_append comp_def fold_transitions [OF assms(4)]
    by (simp add: merge_assoc) (cases h; simp add: merge_def later_def split: option.split)
qed

lemma fold_state_lines:
  "printable sd \<Longrightarrow> fold state_line (state_lines sd) h = merge h (tree_hooks sd)"
proof (induction sd arbitrary: h)
  case (StateDef n d en dd ex ts subs)
  have n: "plain_word n" using StateDef(2) by simp
  have subs: "fold state_line (concat (map state_lines subs)) h = foldl merge h (map tree_hooks subs)" for h
    using StateDef by (induction subs arbitrary: h) auto
  have hk: "fold state_line (hook_lines en dd ex ts) h = merge h (en, dd, ex, ts)" for h
    using fold_hook_lines StateDef(2) by simp
  show ?case
  proof (cases "hook_lines en dd ex ts @ concat (map state_lines subs) = []")
    case True
    have "merge h (tree_hooks (StateDef n d en dd ex ts subs)) = fold state_line (hook_lines en dd ex ts @ concat (map state_lines subs)) h"
      by (simp add: hk subs foldl_merge)
    then show ?thesis using True header_lines(1) [OF n] by (simp add: Let_def)
  next
    case False
    then have "fold state_line (state_lines (StateDef n d en dd ex ts subs)) h =
        fold state_line ([''state '' @ n @ '' {''] @ hook_lines en dd ex ts @ concat (map state_lines subs) @ [''}'']) h"
      by (simp only: state_lines.simps Let_def False if_False append_Cons append_Nil append_assoc)
    also have "... = merge h (tree_hooks (StateDef n d en dd ex ts subs))"
      unfolding fold_append comp_def using header_lines(2,3) [OF n] by (simp add: hk subs foldl_merge)
    finally show ?thesis .
  qed
qed

section \<open>Reading back\<close>

definition state_of :: "(string \<Rightarrow> StateDef list) \<Rightarrow> string \<times> string option \<times> string option \<Rightarrow> StateDef" where
  "state_of f = (\<lambda>(n, d, b).
     build_state_def_from_span f \<lparr>ps_name = n, ps_doc = d, ps_body_str = b, ps_next_idx = 0\<rparr>)"

lemma build_state_of: "build_state_def_from_span f sp = state_of f (ps_name sp, ps_doc sp, ps_body_str sp)"
  by (simp add: state_of_def build_state_simp)

lemma parse_text:
  assumes "list_all clause_line hs" "list_all printable sds"
    "content = text_of (blank_lines @ hs @ concat (map state_lines sds))" "blank_lines = [] \<or> blank_lines = [[]]"
  shows "parse_state_defs_at_depth err content depth =
    (if MAX_AST_DEPTH < depth then []
     else map (\<lambda>sd. state_of (\<lambda>body. parse_state_defs_at_depth err body (Suc depth)) (state_name sd, None, body_of sd)) sds)"
proof -
  let ?f = "\<lambda>body. parse_state_defs_at_depth err body (Suc depth)"
  note rt = read_text [OF assms, of err]
  have "map (build_state_def_from_span ?f) (state_spans err content content 0) =
      map (state_of ?f) (map (\<lambda>sp. (ps_name sp, ps_doc sp, ps_body_str sp)) (state_spans err content content 0))"
    by (simp add: build_state_of comp_def)
  also have "... = map (state_of ?f) (map (\<lambda>sd. (state_name sd, None, body_of sd)) sds)"
    using rt by (simp only:)
  finally show ?thesis using rt by (subst parse_state_defs_at_depth.simps) (simp add: Let_def comp_def)
qed

lemma state_lines_nonempty: "state_lines sd \<noteq> []"
  by (cases sd) (simp add: Let_def)

lemma read_back_one:
  "printable sd \<Longrightarrow>
   state_of (\<lambda>body. parse_state_defs_at_depth err body (Suc depth)) (state_name sd, None, body_of sd) = read_back depth sd"
proof (induction sd arbitrary: depth)
  case (StateDef n d en dd ex ts subs)
  let ?sd = "StateDef n d en dd ex ts subs"
  let ?in = "hook_lines en dd ex ts @ concat (map state_lines subs)"
  let ?f = "\<lambda>body. parse_state_defs_at_depth err body (Suc depth)"
  have p: "list_all clause_line (hook_lines en dd ex ts)" "list_all printable subs" "plain_word n"
    using StateDef(2) hook_lines_clauses by simp_all
  have body: "body_of ?sd = (if ?in = [] then None else Some (text_of ([[]] @ ?in)))"
    by (simp add: body_of_def inside_lines_def Let_def)
  have "list_all line_ok ([[]] @ ?in)"
  proof -
    have "list_all line_ok (hook_lines en dd ex ts)"
      using p(1) clause_line_chars by (fastforce simp: list_all_iff state_char_def intro: state_line_ok)
    moreover have "list_all line_ok (concat (map state_lines subs))"
      using p(2) state_lines_chars by (fastforce simp: list_all_iff intro: state_line_ok)
    ultimately show ?thesis by (simp add: line_ok_def)
  qed
  then have "body_hooks (text_of ([[]] @ ?in)) = fold state_line ([[]] @ ?in) (None, None, None, [])"
    unfolding body_hooks_def by (simp only: lines_text_of)
  also have "... = tree_hooks ?sd"
  proof -
    have "fold state_line (concat (map state_lines subs)) h = foldl merge h (map tree_hooks subs)" for h
      using p(2) by (induction subs arbitrary: h) (simp_all add: fold_state_lines)
    moreover have "fold state_line (hook_lines en dd ex ts) h = merge h (en, dd, ex, ts)" for h
      using fold_hook_lines StateDef(2) by simp
    ultimately show ?thesis using header_lines(4) [OF p(3)] by (simp add: merge_def later_def split: option.split)
  qed
  finally have hooks: "body_hooks (text_of ([[]] @ ?in)) = tree_hooks ?sd" .
  have "map (\<lambda>sd. state_of (\<lambda>body. parse_state_defs_at_depth err body (Suc (Suc depth))) (state_name sd, None, body_of sd)) subs =
      map (read_back (Suc depth)) subs"
    using StateDef(1) p(2) by (auto simp: list_all_iff)
  then have subs: "?f (text_of ([[]] @ ?in)) = (if MAX_AST_DEPTH < Suc depth then [] else map (read_back (Suc depth)) subs)"
    using parse_text [OF p(1,2) refl, of "[[]]" err "Suc depth"] by simp
  show ?case
  proof (cases "?in = []")
    case True
    then have s: "subs = []" "hook_lines en dd ex ts = []"
      using state_lines_nonempty by (cases subs; simp)+
    then have "tree_hooks ?sd = (None, None, None, [])"
      by (auto simp: hook_lines_def hook_line_def split: option.splits)
    have nb: "body_of ?sd = None" by (simp only: body True if_P)
    then show ?thesis using s \<open>tree_hooks ?sd = (None, None, None, [])\<close>
      unfolding nb by (simp add: state_of_def build_state_simp Let_def)
  next
    case False
    then show ?thesis
      unfolding body if_not_P [OF False] state_of_def
      by (simp only: case_prod_conv build_state_simp ParsedStateSpan.simps option.case hooks subs Let_def)
        (simp add: Let_def split: prod.split)
  qed
qed

lemma read_forest:
  assumes "list_all printable sds"
  shows "parse_state_defs err (print_states sds) = map (read_back 0) sds"
proof -
  have "parse_state_defs err (print_states sds) =
      map (\<lambda>sd. state_of (\<lambda>body. parse_state_defs_at_depth err body (Suc 0)) (state_name sd, None, body_of sd)) sds"
    unfolding parse_state_defs_def print_states_def
    using parse_text [of "[]" sds "text_of (concat (map state_lines sds))" "[]" err 0] assms
    by (simp add: MAX_AST_DEPTH_def)
  also have "... = map (read_back 0) sds"
    using assms read_back_one by (auto simp: list_all_iff)
  finally show ?thesis .
qed

text \<open>
  C26: State machines written as SysML text are read back by the extractor. For every forest of states
  whose names, hooks and transition parts are words, reading the printed text gives the same states
  in order with the same names and, level by level down to the nesting limit, the same sub-states;
  the hooks and transitions of a state are those of its whole tree in the order of the text, since
  the lines of nested states are read as lines of the state around them too. So a machine whose
  sub-states have nothing inside is read back exactly.
\<close>

theorem printed_states_read_back:
  assumes "list_all printable sds"
  shows "parse_state_defs err (print_states sds) = map (read_back 0) sds"
  by (rule read_forest [OF assms])

definition example_tx :: TransitionDef where
  "example_tx = \<lparr>tx_name = Some ''engage'', tx_source = Some ''Standby'', tx_target = Some ''Active'',
     tx_trigger = Some ''arm_cmd'', tx_guard = None, tx_effect = None, tx_doc = None\<rparr>"

definition example_machine :: StateDef where
  "example_machine = StateDef ''FlightMode'' None (Some ''Init'') (Some ''Vote'') None [example_tx]
     [StateDef ''Standby'' None None None None [] [], StateDef ''Active'' None (Some ''Arm'') None None [] []]"

lemma example_printable: "list_all printable [example_machine]"
  by code_simp

theorem printed_states_read_back_witness:
  "parse_state_defs (\<lambda>_. 0) (print_states [example_machine]) =
     [StateDef ''FlightMode'' None (Some ''Arm'') (Some ''Vote'') None [example_tx]
       [StateDef ''Standby'' None None None None [] [], StateDef ''Active'' None (Some ''Arm'') None None [] []]]"
proof -
  have "map (read_back 0) [example_machine] =
     [StateDef ''FlightMode'' None (Some ''Arm'') (Some ''Vote'') None [example_tx]
       [StateDef ''Standby'' None None None None [] [], StateDef ''Active'' None (Some ''Arm'') None None [] []]]"
    by (simp add: example_machine_def merge_def later_def MAX_AST_DEPTH_def)
  then show ?thesis using printed_states_read_back [OF example_printable, of "\<lambda>_. 0"] by simp
qed

text \<open>A state with nothing inside.\<close>

abbreviation leaf_state :: "string \<Rightarrow> StateDef" where
  "leaf_state n \<equiv> StateDef n None None None None [] []"

lemma leaf_read_back: "read_back depth (leaf_state n) = leaf_state n"
  by simp

lemma flat_hooks: "foldl merge h (map tree_hooks (map leaf_state ns)) = h"
  by (induction ns arbitrary: h) simp_all

text \<open>
  A state machine with its hooks and transitions whose sub-states are only named is read back
  exactly from its text.
\<close>

theorem flat_machine_roundtrip:
  assumes "printable (StateDef n None en dd ex ts (map leaf_state ns))"
  shows "parse_state_defs err (print_states [StateDef n None en dd ex ts (map leaf_state ns)]) =
    [StateDef n None en dd ex ts (map leaf_state ns)]"
proof -
  let ?sd = "StateDef n None en dd ex ts (map leaf_state ns)"
  have "parse_state_defs err (print_states [?sd]) = map (read_back 0) [?sd]"
    using read_forest [of "[?sd]" err] assms by simp
  moreover have "read_back 0 ?sd = ?sd"
    using flat_hooks [of "(en, dd, ex, ts)" ns] by (simp add: MAX_AST_DEPTH_def comp_def del: tree_hooks.simps(1))
      (simp add: comp_def)
  ultimately show ?thesis by simp
qed

theorem flat_machine_roundtrip_witness:
  "parse_state_defs (\<lambda>_. 0) (print_states [StateDef ''FlightMode'' None (Some ''Init'') None None [example_tx]
     (map leaf_state [''Standby'', ''Active''])]) =
   [StateDef ''FlightMode'' None (Some ''Init'') None None [example_tx] (map leaf_state [''Standby'', ''Active''])]"
  by (rule flat_machine_roundtrip) code_simp

text \<open>
  The entry action of a nested state replaces the entry action of the state around it, and its
  transitions are listed in both.
\<close>

theorem nested_hooks_leak:
  assumes "plain_word n" "plain_word m" "plain_word a" "plain_word b" "printable_tx tx"
  shows "parse_state_defs err (print_states
      [StateDef n None (Some a) None None [] [StateDef m None (Some b) None None [tx] []]]) =
    [StateDef n None (Some b) None None [tx] [StateDef m None (Some b) None None [tx] []]]"
proof -
  let ?sd = "StateDef n None (Some a) None None [] [StateDef m None (Some b) None None [tx] []]"
  have p: "printable ?sd" using assms by (simp add: plain_opt_def)
  have "parse_state_defs err (print_states [?sd]) = map (read_back 0) [?sd]"
    using read_forest [of "[?sd]" err] p by simp
  then show ?thesis by (simp add: merge_def later_def MAX_AST_DEPTH_def)
qed

theorem nested_hooks_leak_witness:
  "parse_state_defs (\<lambda>_. 0) (print_states
      [StateDef ''Flight'' None (Some ''Init'') None None [] [StateDef ''Standby'' None (Some ''Latch'') None None [example_tx] []]]) =
    [StateDef ''Flight'' None (Some ''Latch'') None None [example_tx] [StateDef ''Standby'' None (Some ''Latch'') None None [example_tx] []]]"
  by (rule nested_hooks_leak; code_simp)

end
