(* ===== verification/Sysml_Attributes.thy ===== *)
theory Sysml_Attributes
  imports Sysml_States
begin

text \<open>
  Attributes in SysML text, and the masking of nested blocks: the first half of
  \<^verbatim>\<open>deap-core/src/sysml_cst/interfaces_and_items.rs\<close>. Most extractors of the front end run over the
  tokens of the masked text, take a token that is their keyword and stands behind what was read
  last, and hand it to a parser of single declarations; \<open>keyword_items\<close> is that loop.
\<close>

section \<open>The token loop\<close>

fun keyword_items ::
  "string \<Rightarrow> (string \<Rightarrow> bool) \<Rightarrow> (nat \<Rightarrow> nat \<Rightarrow> ('a \<times> nat) option) \<Rightarrow> nat \<Rightarrow> span list \<Rightarrow> 'a list" where
  "keyword_items masked is_kw item skip_until [] = []"
| "keyword_items masked is_kw item skip_until ((res, i, j) # spans) =
     (if i < skip_until \<or> res = None \<or> \<not> is_kw (get_range masked i j)
      then keyword_items masked is_kw item skip_until spans
      else case item i j of
             Some (x, next_idx) \<Rightarrow> x # keyword_items masked is_kw item next_idx spans
           | None \<Rightarrow> keyword_items masked is_kw item skip_until spans)"

text \<open>\<^verbatim>\<open>text.get(i..j).unwrap_or("")\<close>.\<close>

definition slice_or_empty :: "string \<Rightarrow> nat \<Rightarrow> nat \<Rightarrow> string" where
  "slice_or_empty s i j = (case get_slice s i j of Some t \<Rightarrow> t | None \<Rightarrow> [])"

text \<open>An identifier, and the position after it and the blanks that follow.\<close>

definition read_ident :: "string \<Rightarrow> nat \<Rightarrow> string \<times> nat" where
  "read_ident masked cur =
     (let (name, name_len) = extract_ident (drop cur masked) in (name, skip_from masked (cur + name_len)))"

definition trim_semis :: "string \<Rightarrow> string" where
  "trim_semis s = trim (trim_end_matches semi (trim s))"

section \<open>Attributes\<close>

definition attribute_tail :: "string \<Rightarrow> string \<Rightarrow> string \<Rightarrow> bool \<Rightarrow> nat \<Rightarrow> (string \<times> string option \<times> nat) option" where
  "attribute_tail clean masked type_name has_type cur =
     (let rem_assign = drop cur masked in
      if starts_with rem_assign '':='' \<or> starts_with rem_assign ''='' then
        (let op_len = (if starts_with rem_assign '':='' then 2 else 1);
             cur = skip_from masked (cur + op_len)
         in map_option (\<lambda>semi_at. let val_end = cur + semi_at in
              (type_name, Some (trim (slice_or_empty clean cur val_end)), val_end + 1))
              (find_pos '';'' (drop cur masked)))
      else if has_type \<and> starts_with rem_assign '';'' then Some (type_name, None, cur + 1)
      else None)"

definition parse_attribute_type_and_value ::
  "(string \<Rightarrow> nat) \<Rightarrow> string \<Rightarrow> string \<Rightarrow> nat \<Rightarrow> (string \<times> string option \<times> nat) option" where
  "parse_attribute_type_and_value err clean masked start =
     (let rem_colon = drop start masked in
      if starts_with rem_colon '':'' \<and> \<not> starts_with rem_colon '':='' then
        (let cur = skip_from masked (start + 1);
             (t_name, type_len) = extract_type_ident err (drop cur masked)
         in if t_name = [] then None
            else attribute_tail clean masked t_name True (skip_from masked (cur + type_len)))
      else attribute_tail clean masked ''String'' False start)"

definition parse_single_attribute_after_keyword ::
  "(string \<Rightarrow> nat) \<Rightarrow> string \<Rightarrow> string \<Rightarrow> nat \<Rightarrow> (AttributeDef \<times> nat) option" where
  "parse_single_attribute_after_keyword err clean masked kw_pos =
     (let doc = extract_doc_comment_before clean kw_pos;
          cur = snd (skip_def masked (skip_from masked (kw_pos + 9)));
          (name, cur) = read_ident masked cur
      in if name = [] then None
         else map_option (\<lambda>(type_name, default_value, next_idx).
           (\<lparr>attr_name = name, attr_type_name = type_name, attr_default_value = default_value, attr_doc = doc\<rparr>,
            next_idx)) (parse_attribute_type_and_value err clean masked cur))"

definition parse_attribute_defs :: "(string \<Rightarrow> nat) \<Rightarrow> string \<Rightarrow> AttributeDef list" where
  "parse_attribute_defs err content =
     (let clean = strip_sysml_comments err content; masked = mask_string_literals err clean in
      keyword_items masked (\<lambda>kw. kw = ''attribute'')
        (\<lambda>i j. parse_single_attribute_after_keyword err clean masked i) 0 (lexer err masked))"

section \<open>Masking nested blocks\<close>

datatype NestedBlockMaskMode = PartAndRequirement | PortOnly

fun matches_mode :: "NestedBlockMaskMode \<Rightarrow> string \<Rightarrow> bool" where
  "matches_mode PartAndRequirement kw \<longleftrightarrow> kw \<in> {''part'', ''requirement''}"
| "matches_mode PortOnly kw \<longleftrightarrow> kw = ''port''"

text \<open>
  The guard \<^verbatim>\<open>if tok_str == "="\<close> of the source stands behind the whole alternative, so of its four
  token kinds only the operator \<^verbatim>\<open>=\<close> stops the scan.
\<close>

fun open_brace_scan :: "string \<Rightarrow> bool \<Rightarrow> span list \<Rightarrow> nat option" where
  "open_brace_scan tail saw_ident [] = None"
| "open_brace_scan tail saw_ident ((res, i, j) # spans) =
     (let tok_str = get_range tail i j in
      if res = Some LBrace then (if saw_ident then Some i else None)
      else if res \<in> {Some Semi, Some RBrace, Some ColonEq, Some Operator} \<and> tok_str = ''='' then None
      else if res = None then None
      else open_brace_scan tail
        (saw_ident \<or> tok_str \<notin> {''def'', ''in'', ''out'', ''inout'', ''~'', '':'', '':>'', ''::''} \<and>
           (case tok_str of [] \<Rightarrow> False | b # _ \<Rightarrow> is_ascii_alphabetic b \<or> b = CHR ''_'')) spans)"

definition advance_to_nested_block_open_brace :: "(string \<Rightarrow> nat) \<Rightarrow> string \<Rightarrow> nat \<Rightarrow> nat option" where
  "advance_to_nested_block_open_brace err masked after_kw =
     (if length masked < after_kw then None
      else map_option (\<lambda>start. after_kw + start)
        (open_brace_scan (drop after_kw masked) False (lexer err (drop after_kw masked))))"

fun mask_block_spans ::
  "(string \<Rightarrow> nat) \<Rightarrow> string \<Rightarrow> string \<Rightarrow> NestedBlockMaskMode \<Rightarrow> nat \<Rightarrow> span list \<Rightarrow> string \<Rightarrow> string" where
  "mask_block_spans err body masked mode skip_until [] out = out"
| "mask_block_spans err body masked mode skip_until ((res, i, j) # spans) out =
     (if i < skip_until \<or> res = None \<or> \<not> matches_mode mode (get_range masked i j)
      then mask_block_spans err body masked mode skip_until spans out
      else case advance_to_nested_block_open_brace err masked j of
        None \<Rightarrow> mask_block_spans err body masked mode skip_until spans out
      | Some brace_pos \<Rightarrow>
          (case find_matching_brace err body brace_pos of
             None \<Rightarrow> mask_block_spans err body masked mode skip_until spans out
           | Some close_pos \<Rightarrow>
               mask_block_spans err body masked mode (close_pos + 1) spans
                 (blank_range (brace_pos + 1) close_pos out)))"

definition mask_nested_blocks :: "(string \<Rightarrow> nat) \<Rightarrow> string \<Rightarrow> NestedBlockMaskMode \<Rightarrow> string" where
  "mask_nested_blocks err body mode =
     (let masked = mask_string_literals err body in
      mask_block_spans err body masked mode 0 (lexer err masked) body)"

section \<open>What the loop returns\<close>

lemma keyword_items_member:
  "x \<in> set (keyword_items masked is_kw item skip spans) \<Longrightarrow>
   \<exists>res i j next_idx. (res, i, j) \<in> set spans \<and> res \<noteq> None \<and> is_kw (get_range masked i j) \<and> item i j = Some (x, next_idx)"
proof (induction masked is_kw item skip spans rule: keyword_items.induct)
  case (2 masked is_kw item skip res i j spans)
  consider "i < skip \<or> res = None \<or> \<not> is_kw (get_range masked i j)"
    | "\<not> (i < skip \<or> res = None \<or> \<not> is_kw (get_range masked i j))" "item i j = None"
    | y n where "\<not> (i < skip \<or> res = None \<or> \<not> is_kw (get_range masked i j))" "item i j = Some (y, n)"
    by (metis option.exhaust surj_pair)
  then show ?case
  proof cases
    case 1
    then show ?thesis using 2(1) [OF 1] 2(4) by (simp only: keyword_items.simps if_True) (meson list.set_intros(2))
  next
    case 2
    then show ?thesis using "2.IH"(2) "2.prems" by (simp only: keyword_items.simps if_False option.case simp_thms) (meson list.set_intros(2))
  next
    case 3
    then have "x = y \<or> x \<in> set (keyword_items masked is_kw item n spans)"
      using "2.prems" by (simp only: keyword_items.simps if_False option.case prod.case list.set insert_iff)
    then show ?thesis
    proof
      assume "x = y"
      then show ?thesis using 3 by (metis list.set_intros(1))
    next
      assume "x \<in> set (keyword_items masked is_kw item n spans)"
      then show ?thesis using "2.IH"(3) [OF 3(1) 3(2) refl] by (meson list.set_intros(2))
    qed
  qed
qed simp

lemma keyword_items_all:
  assumes "\<And>i j x n. item i j = Some (x, n) \<Longrightarrow> P x"
  shows "list_all P (keyword_items masked is_kw item skip spans)"
  using keyword_items_member [of _ masked is_kw item skip spans] assms by (force simp: list_all_iff)

lemma keyword_items_none:
  assumes "\<forall>(res, i, j) \<in> set spans. res = None \<or> \<not> is_kw (get_range masked i j)"
  shows "keyword_items masked is_kw item skip spans = []"
  using assms by (induction masked is_kw item skip spans rule: keyword_items.induct) auto

lemma mask_blocks_hide: "hides out s \<Longrightarrow> hides (mask_block_spans err body masked mode skip spans out) s"
proof (induction err body masked mode skip spans out rule: mask_block_spans.induct)
  case (2 err body masked mode skip res i j spans out)
  then show ?case using hides_trans [OF hides_blank 2(5)] by (auto split: option.split)
qed simp

lemma nested_mask_hides: "hides (mask_nested_blocks err body mode) body"
  by (simp add: mask_nested_blocks_def Let_def mask_blocks_hide)

lemma read_ident_le: "p \<le> snd (read_ident s p)"
  using skip_from_le [of "p + snd (extract_ident (drop p s))" s]
  by (auto simp: read_ident_def Let_def split: prod.split)

lemma read_ident_chars: "read_ident s p = (n, q) \<Longrightarrow> list_all is_ident_char n"
  by (auto simp: read_ident_def extract_ident_def Let_def take_takeWhile list_all_iff dest: set_takeWhile)

end
