(* ===== verification/Sysml_Actions.thy ===== *)
theory Sysml_Actions
  imports Sysml_Attributes
begin

text \<open>
  Actions in SysML text: \<^verbatim>\<open>deap-core/src/sysml_cst/actions.rs\<close>. The extractor looks for the word
  \<^verbatim>\<open>action\<close>, reads a header with an optional parameter list and an optional body, and takes directed
  parameters, the performer and the steps from the list and from the lines of the body.
\<close>

section \<open>Parameters\<close>

text \<open>A leading keyword at a word boundary, and the text after it without leading blanks.\<close>

definition strip_kw_at_boundary :: "string \<Rightarrow> string \<Rightarrow> string option" where
  "strip_kw_at_boundary s kw =
     (if starts_with_word s kw then Some (trim_start (drop (length kw) s)) else None)"

definition parse_action_param :: "(string \<Rightarrow> nat) \<Rightarrow> string \<Rightarrow> (bool \<times> AttributeDef) option" where
  "parse_action_param err s =
     (let trimmed = trim s in
      case (case strip_kw_at_boundary trimmed ''in'' of
              Some t \<Rightarrow> Some (True, t)
            | None \<Rightarrow> map_option (Pair False) (strip_kw_at_boundary trimmed ''out'')) of
        None \<Rightarrow> None
      | Some (is_in, after_dir) \<Rightarrow>
          (let after_kw = (case strip_kw_at_boundary after_dir ''attribute'' of
                 Some t \<Rightarrow> t
               | None \<Rightarrow> (case strip_kw_at_boundary after_dir ''item'' of Some t \<Rightarrow> t | None \<Rightarrow> after_dir));
               (name, name_len) = extract_ident after_kw
           in if name = [] then None
              else case strip_prefix (trim_start (drop name_len after_kw)) '':'' of
                None \<Rightarrow> None
              | Some r \<Rightarrow>
                  (let (type_name, type_len) = extract_type_ident err (trim_start r) in
                   if type_len = 0 then None
                   else Some (is_in, \<lparr>attr_name = name, attr_type_name = type_name,
                          attr_default_value = None, attr_doc = None\<rparr>))))"

section \<open>Headers\<close>

record ParsedActionSpan =
  as_name :: string
  as_doc :: "string option"
  as_is_def :: bool
  as_params_str :: "string option"
  as_body_str :: "string option"
  as_next_idx :: nat

text \<open>The optional parameter list in parentheses; \<open>None\<close> when the list is not closed.\<close>

definition action_params :: "string \<Rightarrow> string \<Rightarrow> nat \<Rightarrow> (string option \<times> nat) option" where
  "action_params clean masked cur =
     (if starts_with (drop cur masked) ''('' then
        map_option (\<lambda>close_paren. let param_end = cur + 1 + close_paren in
          (get_slice clean (cur + 1) param_end, skip_from masked (param_end + 1)))
          (find_pos '')'' (drop (cur + 1) masked))
      else Some (None, cur))"

text \<open>A body in braces or a semicolon, and the position behind it.\<close>

definition body_or_semi :: "(string \<Rightarrow> nat) \<Rightarrow> string \<Rightarrow> string \<Rightarrow> nat \<Rightarrow> (string option \<times> nat) option" where
  "body_or_semi err clean masked cur =
     (let rem_body = drop cur masked in
      if starts_with rem_body ''{'' then
        map_option (\<lambda>close_pos. (get_slice clean (cur + 1) close_pos, close_pos + 1))
          (find_matching_brace err clean cur)
      else if starts_with rem_body '';'' then Some (None, cur + 1)
      else None)"

definition parse_action_span ::
  "(string \<Rightarrow> nat) \<Rightarrow> string \<Rightarrow> string \<Rightarrow> nat \<Rightarrow> ParsedActionSpan option" where
  "parse_action_span err clean masked act_pos =
     (let doc = extract_doc_comment_before clean act_pos;
          (is_def, cur) = skip_def masked (skip_from masked (act_pos + 6));
          (name, cur) = read_ident masked cur
      in if name = [] then None
         else case action_params clean masked cur of
           None \<Rightarrow> None
         | Some (params_str, cur) \<Rightarrow>
             map_option (\<lambda>(body_str, next_idx).
               \<lparr>as_name = name, as_doc = doc, as_is_def = is_def, as_params_str = params_str,
                as_body_str = body_str, as_next_idx = next_idx\<rparr>) (body_or_semi err clean masked cur))"

section \<open>Bodies\<close>

definition record_directed_param ::
  "bool \<Rightarrow> AttributeDef \<Rightarrow> AttributeDef list \<times> AttributeDef list \<Rightarrow> AttributeDef list \<times> AttributeDef list" where
  "record_directed_param is_in attr = (\<lambda>(in_params, out_params).
     if is_in then (in_params @ [attr], out_params) else (in_params, out_params @ [attr]))"

text \<open>What the lines gave so far: the directed parameters, the performer and the steps.\<close>

type_synonym action_state = "(AttributeDef list \<times> AttributeDef list) \<times> string option \<times> string list"

definition action_line :: "(string \<Rightarrow> nat) \<Rightarrow> string \<Rightarrow> action_state \<Rightarrow> action_state" where
  "action_line err line = (\<lambda>(params, performer, steps).
     (let trimmed = trim line in
      case parse_action_param err trimmed of
        Some (is_in, attr) \<Rightarrow> (record_directed_param is_in attr params, performer, steps)
      | None \<Rightarrow>
          (if starts_with_word trimmed ''perform'' then
             (let perf = trim_semis (drop 7 trimmed) in
              (params, if perf = [] then performer else Some perf, steps))
           else if starts_with_word trimmed ''step'' then
             (let step_name = trim_semis (drop 4 trimmed) in
              (params, performer, if step_name = [] then steps else steps @ [step_name]))
           else (params, performer, steps))))"

definition param_piece ::
  "(string \<Rightarrow> nat) \<Rightarrow> string \<Rightarrow> AttributeDef list \<times> AttributeDef list \<Rightarrow> AttributeDef list \<times> AttributeDef list" where
  "param_piece err part params =
     (case parse_action_param err part of
        Some (is_in, attr) \<Rightarrow> record_directed_param is_in attr params
      | None \<Rightarrow> params)"

definition build_action_def_from_span :: "(string \<Rightarrow> nat) \<Rightarrow> ParsedActionSpan \<Rightarrow> ActionDef" where
  "build_action_def_from_span err sp =
     (let params = (case as_params_str sp of
            Some ps \<Rightarrow> fold (param_piece err) (split_by (\<lambda>c. c = CHR '','') ps) ([], [])
          | None \<Rightarrow> ([], []));
          ((in_params, out_params), performer, steps) = (case as_body_str sp of
            Some body \<Rightarrow> fold (action_line err) (lines body) (params, None, [])
          | None \<Rightarrow> (params, None, []))
      in \<lparr>action_name = as_name sp, action_doc = as_doc sp, action_in_params = in_params,
          action_out_params = out_params, action_parameters = [], action_performer = performer,
          action_steps = steps, action_is_def = as_is_def sp\<rparr>)"

section \<open>The actions of a text\<close>

lemma body_or_semi_progress: "body_or_semi err clean masked cur = Some (b, n) \<Longrightarrow> cur < n"
  by (auto simp: body_or_semi_def Let_def split: if_splits dest!: find_matching_brace_range)

lemma action_params_le: "action_params clean masked cur = Some (p, n) \<Longrightarrow> cur \<le> n"
  using skip_from_le [of "cur + 1 + the (find_pos '')'' (drop (cur + 1) masked)) + 1" masked]
  by (auto simp: action_params_def Let_def split: if_splits)

lemma parse_action_span_progress:
  assumes "parse_action_span err clean masked p = Some sp"
  shows "p + 6 < as_next_idx sp"
proof -
  obtain is_def cur where d: "skip_def masked (skip_from masked (p + 6)) = (is_def, cur)" by force
  obtain name cur' where n: "read_ident masked cur = (name, cur')" by force
  obtain ps cur'' where a: "action_params clean masked cur' = Some (ps, cur'')"
    using assms by (auto simp: parse_action_span_def Let_def d n split: if_splits option.splits)
  have "cur'' < as_next_idx sp"
    using assms body_or_semi_progress by (fastforce simp: parse_action_span_def Let_def d n a split: if_splits)
  moreover have "cur' \<le> cur''" by (rule action_params_le [OF a])
  moreover have "cur \<le> cur'" using read_ident_le [of cur masked] n by simp
  moreover have "p + 6 \<le> cur"
    using skip_from_le [of "p + 6" masked] skip_def_le [of "skip_from masked (p + 6)" masked] d by simp
  ultimately show ?thesis by simp
qed

function action_spans :: "(string \<Rightarrow> nat) \<Rightarrow> string \<Rightarrow> string \<Rightarrow> nat \<Rightarrow> ParsedActionSpan list" where
  "action_spans err clean masked idx =
     (case find_pos ''action'' (drop idx masked) of
        None \<Rightarrow> []
      | Some pos \<Rightarrow>
          (let act_pos = idx + pos; after_act = act_pos + 6 in
           if \<not> is_word_boundary_before masked act_pos \<or> \<not> is_word_boundary_after masked after_act
           then action_spans err clean masked after_act
           else case parse_action_span err clean masked act_pos of
                  Some sp \<Rightarrow> sp # action_spans err clean masked (as_next_idx sp)
                | None \<Rightarrow> action_spans err clean masked after_act))"
  by pat_completeness auto
termination
proof (relation "measure (\<lambda>(err, clean, masked, idx). length masked - idx)")
qed (auto dest!: find_pos_Some parse_action_span_progress)

declare action_spans.simps [simp del]

definition parse_action_defs :: "(string \<Rightarrow> nat) \<Rightarrow> string \<Rightarrow> ActionDef list" where
  "parse_action_defs err content =
     (let clean = strip_sysml_comments err content; masked = mask_string_literals err clean in
      map (build_action_def_from_span err) (action_spans err clean masked 0))"

lemma keyword_action: "keyword ''action''"
  by code_simp

lemma length_action: "length ''action'' = 6"
  by simp

interpretation action_search: keyword_search "''action''" "action_spans err clean"
  "\<lambda>masked p. case parse_action_span err clean masked p of
     Some sp \<Rightarrow> sp # action_spans err clean masked (as_next_idx sp)
   | None \<Rightarrow> action_spans err clean masked (p + 6)" "[]" for err clean
proof (unfold_locales, rule keyword_action)
  fix t idx
  show "action_spans err clean t idx =
      (case find_pos ''action'' (drop idx t) of None \<Rightarrow> []
       | Some pos \<Rightarrow>
           if is_word_boundary_before t (idx + pos) \<and> is_word_boundary_after t (idx + pos + length ''action'')
           then (case parse_action_span err clean t (idx + pos) of
               Some sp \<Rightarrow> sp # action_spans err clean t (as_next_idx sp)
             | None \<Rightarrow> action_spans err clean t (idx + pos + 6))
           else action_spans err clean t (idx + pos + length ''action''))"
    unfolding length_action by (subst action_spans.simps) (simp add: Let_def split: option.split)
qed

end
