(* ===== verification/Sysml_Ports.thy ===== *)
theory Sysml_Ports
  imports Sysml_Actions
begin

text \<open>
  Connections, flows and ports in SysML text: \<^verbatim>\<open>deap-core/src/sysml_cst/connections_and_flows.rs\<close>.
\<close>

section \<open>Connections\<close>

definition extract_connection_body ::
  "(string \<Rightarrow> nat) \<Rightarrow> string \<Rightarrow> string \<Rightarrow> nat \<Rightarrow> (string \<times> nat) option" where
  "extract_connection_body err clean masked cur =
     (let rem_conn = drop cur masked in
      if starts_with rem_conn ''{'' then
        map_option (\<lambda>close_pos. (slice_or_empty clean (cur + 1) close_pos, close_pos + 1))
          (find_matching_brace err clean cur)
      else if starts_with_word rem_conn ''connect'' then
        map_option (\<lambda>semi_at. let end_pos = cur + semi_at + 1 in (slice_or_empty clean cur end_pos, end_pos))
          (find_pos '';'' rem_conn)
      else None)"

text \<open>One line: the text after \<^verbatim>\<open>connect\<close> or \<^verbatim>\<open>flow from\<close>, split at the first \<^verbatim>\<open> to \<close>.\<close>

definition endpoints_of_line :: "(string \<Rightarrow> nat) \<Rightarrow> string \<Rightarrow> (string \<times> string) option" where
  "endpoints_of_line err line =
     (case filter (\<lambda>(t, _). t \<noteq> Some Whitespace) (lexer err line) of
        [] \<Rightarrow> None
      | (_, i, j) # iter \<Rightarrow>
          (let first = get_range line i j;
               after_start =
                 (if first = ''connect'' then Some j
                  else if first = ''flow'' then
                    (case iter of
                       [] \<Rightarrow> None
                     | (_, i', j') # _ \<Rightarrow> if get_range line i' j' = ''from'' then Some j' else None)
                  else None)
           in case after_start of
                None \<Rightarrow> None
              | Some pos \<Rightarrow> map_option (\<lambda>(raw_src, raw_tgt). (trim raw_src, trim_semis raw_tgt))
                              (split_once '' to '' (drop pos line))))"

definition extract_connection_endpoints :: "(string \<Rightarrow> nat) \<Rightarrow> string \<Rightarrow> string \<times> string" where
  "extract_connection_endpoints err body =
     (case find_map (endpoints_of_line err) (lines body) of Some p \<Rightarrow> p | None \<Rightarrow> ([], []))"

definition owner_part :: "string \<Rightarrow> string option" where
  "owner_part port = map_option fst (split_once ''.'' port)"

definition single_connection ::
  "(string \<Rightarrow> nat) \<Rightarrow> string \<Rightarrow> string \<Rightarrow> nat \<Rightarrow> nat \<Rightarrow> (ConnectionDef \<times> nat) option" where
  "single_connection err clean masked i j =
     (let is_flow = (get_range masked i j = ''flow''); cur = skip_from masked j in
      if is_flow \<and> starts_with_word (drop cur masked) ''from'' then None
      else let doc = extract_doc_comment_before clean i;
               (name, cur) = read_ident masked (snd (skip_def masked cur))
           in if name = [] then None
              else map_option (\<lambda>(body, next_idx).
                let (source_port, target_port) = extract_connection_endpoints err body in
                (\<lparr>conn_name = name, conn_source_port = source_port, conn_target_port = target_port,
                  conn_source_part = owner_part source_port, conn_target_part = owner_part target_port,
                  conn_doc = doc, conn_severity = 1, conn_item_flow_ref = None, conn_protocol = None,
                  conn_latency_ms = None, conn_is_flow = is_flow\<rparr>, next_idx))
                (extract_connection_body err clean masked cur))"

definition parse_connection_defs :: "(string \<Rightarrow> nat) \<Rightarrow> string \<Rightarrow> ConnectionDef list" where
  "parse_connection_defs err content =
     (let clean = strip_sysml_comments err content; masked = mask_string_literals err clean in
      keyword_items masked (\<lambda>kw. kw = ''connection'' \<or> kw = ''flow'')
        (single_connection err clean masked) 0 (lexer err masked))"

section \<open>Flow lines\<close>

definition directions :: "string list" where
  "directions = [''inout'', ''out'', ''in'']"

definition parse_port_flow_line :: "(string \<Rightarrow> nat) \<Rightarrow> string \<Rightarrow> FlowDef option" where
  "parse_port_flow_line err line =
     (let trimmed = trim_semis line in
      if trimmed = [] \<or> starts_with_word trimmed ''attribute'' then None
      else
        let (saw_flow_kw, rest) =
              (case strip_kw_at_boundary trimmed ''flow'' of Some r \<Rightarrow> (True, r) | None \<Rightarrow> (False, trimmed));
            (direction, rest) =
              (case find (starts_with_word rest) directions of
                 Some dir_kw \<Rightarrow> (Some dir_kw, trim_start (drop (length dir_kw) rest))
               | None \<Rightarrow> (None, rest));
            (saw_flow_kw, rest) =
              (if (starts_with rest ''flow'' \<or> starts_with rest ''item'') \<and> is_word_boundary_after rest 4
               then (True, trim_start (drop 4 rest)) else (saw_flow_kw, rest))
        in if \<not> saw_flow_kw \<and> direction = None then None
           else let (name, name_len) = extract_ident rest in
             if name = [] then None
             else let item_type =
                    (case strip_prefix (trim_start (drop name_len rest)) '':'' of
                       None \<Rightarrow> ''Item''
                     | Some s \<Rightarrow> (let t = fst (extract_type_ident err (trim_start s)) in
                                   if t = [] then ''Item'' else t))
                  in Some \<lparr>flow_name = name,
                       flow_direction = (case direction of Some d \<Rightarrow> d | None \<Rightarrow> ''out''),
                       flow_item_type = item_type, flow_doc = None, flow_rate_hz = None, flow_unit = None,
                       flow_valid_range = None, flow_default_value = None\<rparr>)"

section \<open>Port headers\<close>

definition extract_leading_port_direction :: "string \<Rightarrow> nat \<Rightarrow> string option \<times> nat" where
  "extract_leading_port_direction masked port_pos =
     (let before_port = trim_end (slice_or_empty masked 0 port_pos);
          found = find_map (\<lambda>kw. let pos = length before_port - length kw in
            if ends_with before_port kw \<and> is_word_boundary_before before_port pos
            then Some (Some kw, pos) else None) directions
      in case found of Some r \<Rightarrow> r | None \<Rightarrow> (None, port_pos))"

definition direction_and_def_step :: "string \<Rightarrow> string option \<times> nat \<Rightarrow> string option \<times> nat" where
  "direction_and_def_step masked = (\<lambda>(dir2, cur).
     (let cur = snd (skip_def masked cur) in
      case dir2 of
        Some d \<Rightarrow> (Some d, cur)
      | None \<Rightarrow> (case find (starts_with_word (drop cur masked)) directions of
          Some dir_kw \<Rightarrow> (Some dir_kw, skip_from masked (cur + length dir_kw))
        | None \<Rightarrow> (None, cur))))"

definition consume_optional_direction_and_def :: "string \<Rightarrow> nat \<Rightarrow> string option \<times> nat" where
  "consume_optional_direction_and_def masked start =
     direction_and_def_step masked (direction_and_def_step masked (None, start))"

text \<open>The optional mark of conjugation and the blanks after it.\<close>

definition skip_tilde :: "string \<Rightarrow> nat \<Rightarrow> bool \<times> nat" where
  "skip_tilde masked cur =
     (if starts_with (drop cur masked) ''~'' then (True, skip_from masked (cur + 1)) else (False, cur))"

definition parse_port_type_annotation :: "string \<Rightarrow> nat \<Rightarrow> string option \<times> bool \<times> nat" where
  "parse_port_type_annotation masked start =
     (let rem_type = drop start masked in
      if starts_with rem_type '':>'' \<or> starts_with rem_type '':'' then
        (let cur = skip_from masked (start + (if starts_with rem_type '':>'' then 2 else 1));
             (conj2, cur) = skip_tilde masked cur;
             (t, t_len) = extract_ident (drop cur masked)
         in if t = [] then (None, conj2, cur) else (Some t, conj2, skip_from masked (cur + t_len)))
      else (None, False, start))"

section \<open>Port bodies\<close>

definition default_port_category :: string where
  "default_port_category = ''DataPort''"

definition port_attribute ::
  "AttributeDef \<Rightarrow> string \<times> string \<times> (string, string) btree_map \<Rightarrow> string \<times> string \<times> (string, string) btree_map" where
  "port_attribute attr = (\<lambda>(protocol_family, port_category, electrical_attributes).
     (let val = trim_matches (\<lambda>c. c = DQ)
            (trim (case attr_default_value attr of Some v \<Rightarrow> v | None \<Rightarrow> []))
      in if attr_name attr = ''protocol_family'' then (val, port_category, electrical_attributes)
         else if attr_name attr = ''port_category'' then
           (protocol_family, if val = [] then port_category else val, electrical_attributes)
         else (protocol_family, port_category, bt_insert (attr_name attr) val electrical_attributes)))"

definition parse_port_body_members ::
  "(string \<Rightarrow> nat) \<Rightarrow> string option \<Rightarrow> string \<times> string \<times> (string, string) btree_map \<times> FlowDef list" where
  "parse_port_body_members err port_body_opt =
     (case port_body_opt of
        None \<Rightarrow> ([], default_port_category, [], [])
      | Some port_body \<Rightarrow>
          (let (protocol_family, port_category, electrical_attributes) =
                 fold port_attribute (parse_attribute_defs err port_body) ([], default_port_category, [])
           in (protocol_family, port_category, electrical_attributes,
               List.map_filter (parse_port_flow_line err) (lines port_body))))"

text \<open>An unbalanced body ends at the first closing brace there is.\<close>

definition extract_port_terminator_or_body ::
  "(string \<Rightarrow> nat) \<Rightarrow> string \<Rightarrow> string \<Rightarrow> nat \<Rightarrow> (string option \<times> nat) option" where
  "extract_port_terminator_or_body err clean masked cur =
     (let rem_body = drop cur masked in
      if starts_with rem_body ''{'' then
        map_option (\<lambda>close_pos. (get_slice clean (cur + 1) close_pos, close_pos + 1))
          (case find_matching_brace err clean cur of
             Some c \<Rightarrow> Some c
           | None \<Rightarrow> map_option (\<lambda>r. cur + r) (find_pos ''}'' rem_body))
      else if starts_with rem_body '';'' then Some (None, cur + 1)
      else None)"

definition single_port ::
  "(string \<Rightarrow> nat) \<Rightarrow> string \<Rightarrow> string \<Rightarrow> nat \<Rightarrow> nat \<Rightarrow> (PortDef \<times> nat) option" where
  "single_port err clean masked i j =
     (let (dir1, doc_end) = extract_leading_port_direction masked i;
          doc = extract_doc_comment_before clean doc_end;
          (dir2, cur) = consume_optional_direction_and_def masked (skip_from masked j);
          (conj1, cur) = skip_tilde masked cur;
          (name, cur) = read_ident masked cur
      in if name = [] then None
         else let (type_name, conj2, cur) = parse_port_type_annotation masked cur in
           map_option (\<lambda>(port_body_opt, next_idx).
             let (protocol_family, port_category, electrical_attributes, item_flows) =
                   parse_port_body_members err port_body_opt
             in (\<lparr>port_name = name,
                  port_type_name = (case type_name of Some t \<Rightarrow> t | None \<Rightarrow> name),
                  port_direction = (case dir1 of Some d \<Rightarrow> d | None \<Rightarrow>
                    (case dir2 of Some d \<Rightarrow> d | None \<Rightarrow> ''inout'')),
                  port_is_conjugated = (conj1 \<or> conj2), port_doc = doc,
                  port_port_category = port_category, port_protocol_family = protocol_family,
                  port_electrical_attributes = electrical_attributes, port_item_flows = item_flows\<rparr>,
                 next_idx))
             (extract_port_terminator_or_body err clean masked cur))"

definition parse_port_defs :: "(string \<Rightarrow> nat) \<Rightarrow> string \<Rightarrow> PortDef list" where
  "parse_port_defs err content =
     (let clean = strip_sysml_comments err content; masked = mask_string_literals err clean in
      keyword_items masked (\<lambda>kw. kw = ''port'') (single_port err clean masked) 0 (lexer err masked))"

end
