(* ===== verification/Sysml_Expressions.thy ===== *)
theory Sysml_Expressions
  imports Sysml_Ports
begin

text \<open>
  Constraints and calculations in SysML text: \<^verbatim>\<open>deap-core/src/sysml_cst/expressions.rs\<close>.
\<close>

section \<open>Headers\<close>

definition parse_decl_header_with_parens ::
  "string \<Rightarrow> string \<Rightarrow> nat \<Rightarrow> (string \<times> string option \<times> nat) option" where
  "parse_decl_header_with_parens clean masked after_kw =
     (let (name, cur) = read_ident masked (snd (skip_def masked (skip_from masked after_kw))) in
      if name = [] then None
      else if \<not> starts_with (drop cur masked) ''('' then Some (name, None, cur)
      else map_option (\<lambda>close_rel.
        let inner_end = cur + 1 + close_rel in
        (name, Some (slice_or_empty clean (cur + 1) inner_end), skip_from masked (inner_end + 1)))
        (find_pos '')'' (drop (cur + 1) masked)))"

definition detect_assert_prefix :: "string \<Rightarrow> nat \<Rightarrow> bool \<times> nat" where
  "detect_assert_prefix masked c_pos =
     (let before_c = trim_end (slice_or_empty masked 0 c_pos); assert_start = length before_c - 6 in
      if ends_with before_c ''assert'' \<and> is_word_boundary_before before_c assert_start
      then (True, assert_start) else (False, c_pos))"

text \<open>The pieces of a parameter list, of which there are none without a list.\<close>

definition comma_pieces :: "string option \<Rightarrow> string list" where
  "comma_pieces paren_opt =
     (case paren_opt of Some s \<Rightarrow> split_by (\<lambda>c. c = CHR '','') s | None \<Rightarrow> [])"

section \<open>Constraints\<close>

definition parse_single_constraint ::
  "(string \<Rightarrow> nat) \<Rightarrow> string \<Rightarrow> string \<Rightarrow> nat \<Rightarrow> (ConstraintDef \<times> nat) option" where
  "parse_single_constraint err clean masked c_pos =
     (let (is_assertion, doc_end) = detect_assert_prefix masked c_pos;
          doc = extract_doc_comment_before clean doc_end
      in case parse_decl_header_with_parens clean masked (c_pos + 10) of
           None \<Rightarrow> None
         | Some (name, paren_opt, cur) \<Rightarrow>
             (let parameters = filter (\<lambda>s. s \<noteq> []) (map trim (comma_pieces paren_opt)) in
              map_option (\<lambda>(body_opt, next_idx).
                (\<lparr>con_name = name,
                  con_expression = (case body_opt of Some expr_str \<Rightarrow> trim_semis expr_str | None \<Rightarrow> []),
                  con_parameters = parameters, con_is_assertion = is_assertion, con_doc = doc,
                  con_pre_conditions = [], con_post_conditions = []\<rparr>, next_idx))
                (body_or_semi err clean masked cur)))"

definition parse_constraint_defs :: "(string \<Rightarrow> nat) \<Rightarrow> string \<Rightarrow> ConstraintDef list" where
  "parse_constraint_defs err content =
     (let clean = strip_sysml_comments err content; masked = mask_string_literals err clean in
      keyword_items masked (\<lambda>kw. kw = ''constraint'')
        (\<lambda>i j. parse_single_constraint err clean masked i) 0 (lexer err masked))"

section \<open>Calculations\<close>

definition drop_word :: "string \<Rightarrow> string \<Rightarrow> string" where
  "drop_word kw s = (case strip_kw_at_boundary s kw of Some r \<Rightarrow> r | None \<Rightarrow> s)"

definition parse_calc_param :: "(string \<Rightarrow> nat) \<Rightarrow> string \<Rightarrow> AttributeDef option" where
  "parse_calc_param err s =
     (let trimmed = trim_semis s in
      if trimmed = [] then None
      else
        let trimmed = drop_word ''attribute'' (drop_word ''in'' trimmed);
            (name, name_len) = extract_ident trimmed
        in if name = [] then None
           else
             let after_name = trim_start (drop name_len trimmed);
                 (type_name, val_tail) =
                   (case strip_prefix after_name '':'' of
                      Some after_colon_raw \<Rightarrow>
                        (let after_colon = trim_start after_colon_raw;
                             (t_name, t_len) = extract_type_ident err after_colon
                         in (if t_name = [] then ''ScalarValues::Real'' else t_name,
                             trim_start (drop t_len after_colon)))
                    | None \<Rightarrow> (''ScalarValues::Real'', after_name));
                 default_value =
                   (case strip_prefix val_tail ''='' of
                      Some rhs \<Rightarrow> (let v = trim_semis rhs in if v = [] then None else Some v)
                    | None \<Rightarrow> None)
             in Some \<lparr>attr_name = name, attr_type_name = type_name, attr_default_value = default_value,
                  attr_doc = None\<rparr>)"

definition contains_arithmetic_operator :: "(string \<Rightarrow> nat) \<Rightarrow> string \<Rightarrow> bool" where
  "contains_arithmetic_operator err s \<longleftrightarrow>
     list_ex (\<lambda>(t, i, j). t = Some Operator \<and> get_range s i j \<in> {''+'', ''-'', ''*'', ''/''}) (lexer err s)"

text \<open>\<^verbatim>\<open>trim_start_matches(pat)\<close> of a nonempty pattern: every leading copy is removed.\<close>

function trim_start_pat :: "string \<Rightarrow> string \<Rightarrow> string" where
  "trim_start_pat pat s =
     (if pat \<noteq> [] \<and> starts_with s pat then trim_start_pat pat (drop (length pat) s) else s)"
  by pat_completeness auto
termination
proof (relation "measure (\<lambda>(pat, s). length s)")
  fix pat s :: string
  assume "pat \<noteq> [] \<and> starts_with s pat"
  then have "0 < length pat" "length pat \<le> length s" using starts_with_length by auto
  then have "length s - length pat < length s" by linarith
  then show "((pat, drop (length pat) s), (pat, s)) \<in> measure (\<lambda>(pat, s). length s)" by simp
qed simp

declare trim_start_pat.simps [simp del]

definition try_extract_body_return_type :: "(string \<Rightarrow> nat) \<Rightarrow> string \<Rightarrow> string option" where
  "try_extract_body_return_type err rest =
     (if contains_arithmetic_operator err rest \<or> contains_str rest ''('' then None
      else if \<not> (contains_str rest '':'' \<or> starts_with rest ''type '' \<or> length (split_whitespace rest) \<le> 2) then None
      else
        let type_part = (case split_once '':'' rest of
              None \<Rightarrow> trim (trim_start_pat ''type'' rest)
            | Some (_, rhs) \<Rightarrow> trim rhs);
            t_ident = fst (extract_type_ident err type_part)
        in if t_ident = [] then None else Some t_ident)"

text \<open>What the lines of a body gave so far: parameters, return type, expression lines.\<close>

type_synonym calc_state = "AttributeDef list \<times> string option \<times> string list"

definition is_colon :: "char \<Rightarrow> bool" where "is_colon c \<longleftrightarrow> c = CHR '':''"

definition calc_line :: "(string \<Rightarrow> nat) \<Rightarrow> string \<Rightarrow> calc_state \<Rightarrow> calc_state" where
  "calc_line err trimmed = (\<lambda>(in_params, return_type, expr_lines).
     (let tab = char_of (9 :: nat);
          is_param = (starts_with trimmed ''in '' \<or> starts_with trimmed (''in'' @ [tab]) \<or>
              starts_with trimmed ''attribute '') \<and>
            \<not> contains_str trimmed ''='' \<and> \<not> contains_arithmetic_operator err trimmed;
          is_ret = (starts_with trimmed ''return '' \<or> starts_with trimmed (''return'' @ [tab]) \<or>
              starts_with trimmed ''return:'')
      in if is_param then
           (case parse_calc_param err trimmed of
              Some param \<Rightarrow> (in_params @ [param], return_type, expr_lines)
            | None \<Rightarrow> (in_params, return_type, expr_lines))
         else if is_ret then
           (let rest = trim (trim_start_pat ''return'' trimmed);
                parsed_ret = (if return_type = None then try_extract_body_return_type err rest else None)
            in case parsed_ret of
                 Some t \<Rightarrow> (in_params, Some t, expr_lines)
               | None \<Rightarrow>
                   (let expr_candidate = trim_semis (dropWhile is_colon rest) in
                    (in_params, return_type,
                     if expr_candidate = [] then expr_lines else expr_lines @ [expr_candidate])))
         else (in_params, return_type, expr_lines @ [trim (trim_end_matches semi trimmed)])))"

definition parse_calc_body ::
  "(string \<Rightarrow> nat) \<Rightarrow> string \<Rightarrow> AttributeDef list \<Rightarrow> string option \<Rightarrow> AttributeDef list \<times> string option \<times> string option" where
  "parse_calc_body err body in_params return_type =
     (let (in_params, return_type, expr_lines) =
            fold (calc_line err) (filter (\<lambda>l. l \<noteq> []) (map trim (lines body))) (in_params, return_type, [])
      in (in_params, return_type, if expr_lines = [] then None else Some (join [LF] expr_lines)))"

definition parse_optional_signature_return_type ::
  "(string \<Rightarrow> nat) \<Rightarrow> string \<Rightarrow> nat \<Rightarrow> string option \<times> nat" where
  "parse_optional_signature_return_type err masked cur =
     (if \<not> starts_with (drop cur masked) '':'' then (None, cur)
      else let type_start = skip_from masked (cur + 1);
               (ret_t, ret_len) = extract_type_ident err (drop type_start masked)
           in if ret_t = [] then (None, type_start)
              else (Some ret_t, skip_from masked (type_start + ret_len)))"

text \<open>A body that is not closed is read as empty, and the scan goes on behind its brace.\<close>

definition open_body_or_semi ::
  "(string \<Rightarrow> nat) \<Rightarrow> string \<Rightarrow> string \<Rightarrow> nat \<Rightarrow> (string option \<times> nat) option" where
  "open_body_or_semi err clean masked cur =
     (let rem_body = drop cur masked in
      if starts_with rem_body ''{'' then
        (case find_matching_brace err clean cur of
           Some close_pos \<Rightarrow> Some (Some (slice_or_empty clean (cur + 1) close_pos), close_pos + 1)
         | None \<Rightarrow> Some (Some [], cur + 1))
      else if starts_with rem_body '';'' then Some (None, cur + 1)
      else None)"

definition parse_single_calc ::
  "(string \<Rightarrow> nat) \<Rightarrow> string \<Rightarrow> string \<Rightarrow> nat \<Rightarrow> (CalcDef \<times> nat) option" where
  "parse_single_calc err clean masked calc_pos =
     (let doc = extract_doc_comment_before clean calc_pos in
      case parse_decl_header_with_parens clean masked (calc_pos + 4) of
        None \<Rightarrow> None
      | Some (name, paren_opt, cur) \<Rightarrow>
          (let in_params = List.map_filter (parse_calc_param err) (comma_pieces paren_opt);
               (return_type, cur) = parse_optional_signature_return_type err masked cur
           in map_option (\<lambda>(body, next_idx).
                let (in_params, return_type, expression) =
                      (case body of
                         Some b \<Rightarrow> parse_calc_body err b in_params return_type
                       | None \<Rightarrow> (in_params, return_type, None))
                in (\<lparr>calc_name = name, calc_doc = doc, calc_in_params = in_params,
                     calc_return_type = return_type, calc_expression = expression\<rparr>, next_idx))
                (open_body_or_semi err clean masked cur)))"

definition parse_calc_defs :: "(string \<Rightarrow> nat) \<Rightarrow> string \<Rightarrow> CalcDef list" where
  "parse_calc_defs err content =
     (let clean = strip_sysml_comments err content; masked = mask_string_literals err clean in
      keyword_items masked (\<lambda>kw. kw = ''calc'')
        (\<lambda>i j. parse_single_calc err clean masked i) 0 (lexer err masked))"

end
