(* ===== verification/Sysml_Requirements.thy ===== *)
theory Sysml_Requirements
  imports Sysml_Expressions
begin

text \<open>
  Requirements in SysML text: \<^verbatim>\<open>deap-core/src/sysml_cst/requirements.rs\<close>.
\<close>

section \<open>Annotations\<close>

definition nonempty :: "string list \<Rightarrow> string list" where
  "nonempty xs = filter (\<lambda>s. s \<noteq> []) xs"

definition trim_sq :: "string \<Rightarrow> string" where
  "trim_sq s = trim (trim_matches (\<lambda>c. c = SQ) (trim s))"

definition quoted_values :: "(string \<Rightarrow> nat) \<Rightarrow> string \<Rightarrow> string list" where
  "quoted_values err after_tag =
     nonempty (List.map_filter (\<lambda>(tok, i, j).
       if tok = Some CstStringLit then map_option trim (extract_quoted_string (get_range after_tag i j)) else None)
       (lexer err after_tag))"

definition extract_annotation_values :: "(string \<Rightarrow> nat) \<Rightarrow> string \<Rightarrow> string list" where
  "extract_annotation_values err after_tag =
     (let values = quoted_values err after_tag in
      if values \<noteq> [] then values
      else
        let trimmed = trim after_tag in
        case (case strip_prefix trimmed ''('' of None \<Rightarrow> None | Some s \<Rightarrow> split_once '')'' s) of
          Some (inner, _) \<Rightarrow> nonempty (map trim_sq (split_by (\<lambda>c. c = CHR '','') inner))
        | None \<Rightarrow>
            (case split_once ''='' trimmed of
               None \<Rightarrow> []
             | Some (_, rhs) \<Rightarrow>
                 nonempty [trim_sq (trim_end_matches semi
                   (trim (trim_end_matches (\<lambda>c. c = CHR ''}'') (trim rhs))))]))"

definition push_new :: "string \<Rightarrow> string list \<Rightarrow> string list" where
  "push_new v vs = (if v \<in> set vs then vs else vs @ [v])"

definition annotation_line ::
  "(string \<Rightarrow> nat) \<Rightarrow> string \<Rightarrow> string list \<times> string list \<times> string option \<Rightarrow> string list \<times> string list \<times> string option" where
  "annotation_line err line = (\<lambda>(triggers_hazards, safety_realises, layer).
     (let trimmed = trim line in
      case strip_prefix trimmed ''@TriggersHazard'' of
        Some after_tag \<Rightarrow>
          (fold push_new (extract_annotation_values err after_tag) triggers_hazards, safety_realises, layer)
      | None \<Rightarrow> (case strip_prefix trimmed ''@SafetyRealises'' of
          Some after_tag \<Rightarrow>
            (triggers_hazards, fold push_new (extract_annotation_values err after_tag) safety_realises, layer)
        | None \<Rightarrow> (case strip_prefix trimmed ''@Layer'' of
            Some after_tag \<Rightarrow>
              (triggers_hazards, safety_realises,
               case extract_annotation_values err after_tag of v # _ \<Rightarrow> Some v | [] \<Rightarrow> layer)
          | None \<Rightarrow> (triggers_hazards, safety_realises, layer)))))"

definition parse_safety_and_layer_annotations ::
  "(string \<Rightarrow> nat) \<Rightarrow> string \<Rightarrow> string list \<times> string list \<times> string option" where
  "parse_safety_and_layer_annotations err body = fold (annotation_line err) (lines body) ([], [], None)"

section \<open>Inline documentation\<close>

definition doc_block_text :: "string \<Rightarrow> string option" where
  "doc_block_text piece =
     (case strip_prefix piece ''/*'' of
        None \<Rightarrow> None
      | Some s \<Rightarrow> (case strip_suffix s ''*/'' of
          None \<Rightarrow> None
        | Some t \<Rightarrow> (let clean_doc = trim t in if clean_doc = [] then None else Some clean_doc)))"

fun inline_doc_spans :: "string \<Rightarrow> bool \<Rightarrow> span list \<Rightarrow> string option" where
  "inline_doc_spans body prev_doc [] = None"
| "inline_doc_spans body prev_doc ((tok, i, j) # spans) =
     (if tok = Some Whitespace then inline_doc_spans body prev_doc spans
      else let piece = get_range body i j in
        case (if prev_doc then doc_block_text piece else None) of
          Some d \<Rightarrow> Some d
        | None \<Rightarrow> inline_doc_spans body (piece = ''doc'' \<and> tok \<noteq> None) spans)"

definition extract_inline_doc_block :: "(string \<Rightarrow> nat) \<Rightarrow> string \<Rightarrow> string option" where
  "extract_inline_doc_block err body = inline_doc_spans body False (lexer err body)"

section \<open>Headers\<close>

definition is_preceded_by_satisfy_keyword :: "string \<Rightarrow> nat \<Rightarrow> bool" where
  "is_preceded_by_satisfy_keyword masked req_pos \<longleftrightarrow>
     (let before_req = trim_end (take req_pos masked) in
      req_pos \<le> length masked \<and> ends_with before_req ''satisfy'' \<and>
      is_word_boundary_before before_req (length before_req - 7))"

record ParsedRequirementSpan =
  rs_name :: string
  rs_doc :: "string option"
  rs_body_str :: "string option"
  rs_next_idx :: nat

text \<open>Hyphens belong to the name of a definition.\<close>

definition parse_requirement_span ::
  "(string \<Rightarrow> nat) \<Rightarrow> string \<Rightarrow> string \<Rightarrow> nat \<Rightarrow> ParsedRequirementSpan option" where
  "parse_requirement_span err clean masked req_pos =
     (let doc = extract_doc_comment_before clean req_pos;
          (has_def, cur) = skip_def masked (skip_from masked (req_pos + 11));
          name = takeWhile (\<lambda>b. is_ident_char b \<or> has_def \<and> b = CHR ''-'') (drop cur masked)
      in if name = [] then None
         else map_option (\<lambda>(body_str, next_idx).
           \<lparr>rs_name = name, rs_doc = doc, rs_body_str = body_str, rs_next_idx = next_idx\<rparr>)
           (body_or_semi err clean masked (skip_from masked (cur + length name))))"

section \<open>Bodies\<close>

definition parse_assigned_quoted_clause :: "string \<Rightarrow> string \<Rightarrow> string option" where
  "parse_assigned_quoted_clause trimmed kw =
     (case strip_kw_at_boundary trimmed kw of
        None \<Rightarrow> None
      | Some r \<Rightarrow> (case strip_prefix r ''='' of
          None \<Rightarrow> None | Some after_eq \<Rightarrow> extract_quoted_string (trim_start after_eq)))"

definition or_else :: "'a option \<Rightarrow> 'a option \<Rightarrow> 'a option" where
  "or_else a b = (case a of Some x \<Rightarrow> Some x | None \<Rightarrow> b)"

text \<open>\<open>clause kw\<close>: what stands between the keyword and the semicolon that ends the line.\<close>

definition semi_clause :: "string option \<Rightarrow> string option" where
  "semi_clause s = (case s of None \<Rightarrow> None | Some t \<Rightarrow> map_option trim (strip_suffix t '';''))"

definition parse_by :: "string option \<Rightarrow> string option" where
  "parse_by s = semi_clause (map_option (\<lambda>t. drop_word ''by'' t) s)"

definition apply_requirement_body_line :: "string \<Rightarrow> RequirementDef \<Rightarrow> RequirementDef" where
  "apply_requirement_body_line trimmed req =
     (let quoted = parse_assigned_quoted_clause trimmed; after_kw = strip_kw_at_boundary trimmed in
      case or_else (quoted ''id'') (quoted ''req_id'') of
        Some val \<Rightarrow> req\<lparr>req_req_id := val\<rparr>
      | None \<Rightarrow> (case or_else (quoted ''doc'') (quoted ''text'') of
          Some val \<Rightarrow> req\<lparr>req_text := val\<rparr>
        | None \<Rightarrow> (case semi_clause (after_kw ''assume'') of
            Some t \<Rightarrow> req\<lparr>req_assumes := req_assumes req @ [t]\<rparr>
          | None \<Rightarrow> (case semi_clause (after_kw ''require'') of
              Some t \<Rightarrow> req\<lparr>req_requires := req_requires req @ [t]\<rparr>
            | None \<Rightarrow> (case semi_clause (case after_kw ''derived'' of
                  None \<Rightarrow> None | Some s \<Rightarrow> strip_kw_at_boundary s ''from'') of
                Some t \<Rightarrow> req\<lparr>req_derived_from := req_derived_from req @ [t]\<rparr>
              | None \<Rightarrow> (case parse_by (after_kw ''verify'') of
                  Some t \<Rightarrow> req\<lparr>req_verified_by := req_verified_by req @ [t]\<rparr>
                | None \<Rightarrow> (case parse_by (after_kw ''satisfy'') of
                    Some t \<Rightarrow> req\<lparr>req_satisfied_by := req_satisfied_by req @ [t]\<rparr>
                  | None \<Rightarrow> req)))))))"

definition default_requirement :: RequirementDef where
  "default_requirement =
     \<lparr>req_name = [], req_req_id = [], req_text = [], req_doc = None, req_attributes = [],
      req_constraints = [], req_assumes = [], req_requires = [], req_verified_by = [],
      req_satisfied_by = [], req_derived_from = [], req_derives = [], req_triggers_hazards = [],
      req_safety_realises = [], req_layer = None\<rparr>"

definition requirement_body :: "(string \<Rightarrow> nat) \<Rightarrow> string \<Rightarrow> RequirementDef \<Rightarrow> RequirementDef" where
  "requirement_body err body req =
     (let req = (case req_doc req of
            None \<Rightarrow> req\<lparr>req_doc := extract_inline_doc_block err body\<rparr> | Some _ \<Rightarrow> req);
          req = fold (\<lambda>line. apply_requirement_body_line (trim line)) (lines body) req;
          (th, sr, lyr) = parse_safety_and_layer_annotations err body
      in req\<lparr>req_attributes := parse_attribute_defs err body,
             req_constraints := parse_constraint_defs err body,
             req_triggers_hazards := th, req_safety_realises := sr, req_layer := lyr\<rparr>)"

definition build_requirement_from_span :: "(string \<Rightarrow> nat) \<Rightarrow> ParsedRequirementSpan \<Rightarrow> RequirementDef" where
  "build_requirement_from_span err sp =
     (let req = default_requirement\<lparr>req_name := rs_name sp, req_doc := rs_doc sp\<rparr>;
          req = (case rs_body_str sp of Some body \<Rightarrow> requirement_body err body req | None \<Rightarrow> req)
      in if req_req_id req = [] then req\<lparr>req_req_id := rs_name sp\<rparr> else req)"

definition parse_requirement_defs :: "(string \<Rightarrow> nat) \<Rightarrow> string \<Rightarrow> RequirementDef list" where
  "parse_requirement_defs err content =
     (let clean = strip_sysml_comments err content; masked = mask_string_literals err clean in
      keyword_items masked (\<lambda>kw. kw = ''requirement'')
        (\<lambda>i j. if is_preceded_by_satisfy_keyword masked i then None
               else map_option (\<lambda>sp. (build_requirement_from_span err sp, rs_next_idx sp))
                 (parse_requirement_span err clean masked i)) 0 (lexer err masked))"

section \<open>Satisfied requirements\<close>

definition extract_satisfied_req_id_from_stmt :: "(string \<Rightarrow> nat) \<Rightarrow> string \<Rightarrow> string option" where
  "extract_satisfied_req_id_from_stmt err stmt_clean =
     (if contains_str stmt_clean ''{'' \<or> contains_str stmt_clean ''}'' then None
      else
        let by_pos = find_map (\<lambda>(tok, i, j).
              if tok \<noteq> None \<and> get_range stmt_clean i j = ''by'' then Some i else None) (lexer err stmt_clean);
            target_part = trim (case by_pos of Some pos \<Rightarrow> take pos stmt_clean | None \<Rightarrow> stmt_clean);
            req_id =
              (if starts_with target_part [DQ] then
                 trim (case extract_quoted_string target_part of
                   Some q \<Rightarrow> q | None \<Rightarrow> trim_matches (\<lambda>c. c = DQ) target_part)
               else if starts_with target_part [SQ] then trim (trim_matches (\<lambda>c. c = SQ) target_part)
               else trim target_part)
        in if req_id = [] then None else Some req_id)"

text \<open>One binding: its requirement, if it names one, and the position behind its semicolon.\<close>

definition satisfy_statement ::
  "(string \<Rightarrow> nat) \<Rightarrow> string \<Rightarrow> string \<Rightarrow> nat \<Rightarrow> (string option \<times> nat) option" where
  "satisfy_statement err clean masked j =
     (let cur = skip_from masked j in
      if starts_with_word (drop cur masked) ''by'' then None
      else
        let cur = (if starts_with_word (drop cur masked) ''requirement'' then skip_from masked (cur + 11) else cur)
        in map_option (\<lambda>semi_pos.
             (extract_satisfied_req_id_from_stmt err (trim (slice_or_empty (drop cur clean) 0 semi_pos)),
              cur + semi_pos + 1)) (find_pos '';'' (drop cur masked)))"

definition parse_satisfied_requirements :: "(string \<Rightarrow> nat) \<Rightarrow> string \<Rightarrow> string list" where
  "parse_satisfied_requirements err content =
     (let clean = strip_sysml_comments err content; masked = mask_string_literals err clean in
      fold (\<lambda>found satisfied. case found of Some req_id \<Rightarrow> push_new req_id satisfied | None \<Rightarrow> satisfied)
        (keyword_items masked (\<lambda>kw. kw = ''satisfy'') (\<lambda>i j. satisfy_statement err clean masked j) 0
          (lexer err masked)) [])"

end
