(* ===== verification/Sysml_Hazards.thy ===== *)
theory Sysml_Hazards
  imports Sysml_Requirements
begin

text \<open>
  Hazards in SysML text, the first half of \<^verbatim>\<open>deap-core/src/sysml_cst/safety_and_fmeca.rs\<close>, and test
  cases, \<^verbatim>\<open>interactions.rs\<close>.
\<close>

section \<open>Hazards\<close>

text \<open>\<^verbatim>\<open>str::parse::<i32>\<close>.\<close>

definition parse_i32 :: "string \<Rightarrow> i32 option" where
  "parse_i32 s = map_option word_of_int (parse_signed 32 s)"

definition severity_of_line :: "string \<Rightarrow> i32 option" where
  "severity_of_line line =
     (case strip_prefix (trim line) ''severity'' of
        None \<Rightarrow> None
      | Some s \<Rightarrow> (case split_once ''='' s of
          None \<Rightarrow> None | Some (_, rhs) \<Rightarrow> parse_i32 (trim_semis rhs)))"

definition parse_hazard_severity :: "string \<Rightarrow> i32" where
  "parse_hazard_severity body =
     (case find_map severity_of_line (rev (lines body)) of Some v \<Rightarrow> v | None \<Rightarrow> 1)"

definition parse_single_hazard ::
  "(string \<Rightarrow> nat) \<Rightarrow> string \<Rightarrow> string \<Rightarrow> nat \<Rightarrow> (HazardDef \<times> nat) option" where
  "parse_single_hazard err clean masked haz_pos =
     (let doc_before = extract_doc_comment_before clean haz_pos;
          (has_def, cur) = skip_def masked (skip_from masked (haz_pos + 6))
      in if \<not> has_def then None
         else
           let name = takeWhile (\<lambda>b. is_ident_char b \<or> b = CHR ''-'') (drop cur masked) in
           if name = [] then None
           else map_option (\<lambda>(body_opt, next_idx).
             (\<lparr>hazard_name = name,
               hazard_doc = or_else doc_before
                 (case body_opt of Some body \<Rightarrow> extract_inline_doc_block err body | None \<Rightarrow> None),
               hazard_severity = (case body_opt of Some body \<Rightarrow> parse_hazard_severity body | None \<Rightarrow> 1),
               hazard_source_port = None, hazard_target_port = None, hazard_part_ref = None\<rparr>, next_idx))
             (body_or_semi err clean masked (skip_from masked (cur + length name))))"

definition parse_hazard_defs :: "(string \<Rightarrow> nat) \<Rightarrow> string \<Rightarrow> HazardDef list" where
  "parse_hazard_defs err content =
     (let clean = strip_sysml_comments err content; masked = mask_string_literals err clean in
      keyword_items masked (\<lambda>kw. kw = ''hazard'')
        (\<lambda>i j. parse_single_hazard err clean masked i) 0 (lexer err masked))"

section \<open>Test cases\<close>

record TestCaseBodyContent =
  tb_subject_part :: "string option"
  tb_verified_requirements :: "string list"
  tb_objective :: "string option"
  tb_test_steps :: "string list"

definition default_test_body :: TestCaseBodyContent where
  "default_test_body =
     \<lparr>tb_subject_part = None, tb_verified_requirements = [], tb_objective = None, tb_test_steps = []\<rparr>"

definition drop_trim :: "string \<Rightarrow> string \<Rightarrow> string" where
  "drop_trim kw s = trim (drop (length kw) s)"

definition test_body_line :: "string \<Rightarrow> TestCaseBodyContent \<Rightarrow> TestCaseBodyContent" where
  "test_body_line line content =
     (let trimmed = trim line in
      if starts_with_word trimmed ''subject'' then
        (let val = trim_semis (drop 7 trimmed) in
         if val = [] then content else content\<lparr>tb_subject_part := Some val\<rparr>)
      else if starts_with_word trimmed ''verify'' then
        (let rest = drop_trim ''verify'' trimmed;
             rest = (if starts_with_word rest ''assert'' then drop_trim ''assert'' rest else rest);
             rest = (if starts_with_word rest ''requirement'' then drop_trim ''requirement'' rest
                     else if starts_with_word rest ''constraint'' then drop_trim ''constraint'' rest
                     else rest)
         in content\<lparr>tb_verified_requirements := tb_verified_requirements content @
              nonempty (map trim (split_by (\<lambda>c. c = CHR '','') (trim (trim_end_matches semi rest))))\<rparr>)
      else if starts_with_word trimmed ''objective'' then
        (let val = trim_matches (\<lambda>c. c = DQ) (trim_semis (drop 9 trimmed)) in
         if val = [] then content else content\<lparr>tb_objective := Some val\<rparr>)
      else if starts_with_word trimmed ''step'' then
        (let val = trim_semis (drop 4 trimmed) in
         if val = [] then content else content\<lparr>tb_test_steps := tb_test_steps content @ [val]\<rparr>)
      else content)"

definition parse_test_case_body :: "string \<Rightarrow> TestCaseBodyContent" where
  "parse_test_case_body body = fold test_body_line (lines body) default_test_body"

definition parse_test_case_at ::
  "(string \<Rightarrow> nat) \<Rightarrow> string \<Rightarrow> string \<Rightarrow> nat \<Rightarrow> (TestCaseDef \<times> nat) option" where
  "parse_test_case_at err clean masked test_pos =
     (let doc = extract_doc_comment_before clean test_pos; cur = skip_from masked (test_pos + 4) in
      if \<not> starts_with_word (drop cur masked) ''case'' then None
      else
        let (name, cur) = read_ident masked (snd (skip_def masked (skip_from masked (cur + 4)))) in
        if name = [] then None
        else
          let rem_body = drop cur masked in
          map_option (\<lambda>(content, next_idx).
            (\<lparr>tcase_name = name, tcase_subject_part = tb_subject_part content,
              tcase_verified_requirements = tb_verified_requirements content,
              tcase_objective = tb_objective content, tcase_test_steps = tb_test_steps content,
              tcase_doc = doc\<rparr>, next_idx))
            (if starts_with rem_body ''{'' then
               map_option (\<lambda>close_pos.
                 (parse_test_case_body (slice_or_empty clean (cur + 1) close_pos), close_pos + 1))
                 (find_matching_brace err clean cur)
             else if starts_with rem_body '';'' then Some (default_test_body, cur + 1)
             else None))"

lemma parse_test_case_progress:
  assumes "parse_test_case_at err clean masked p = Some (t, n)"
  shows "p + 4 < n"
proof -
  define cur where "cur = skip_from masked (p + 4)"
  define cur' where "cur' = snd (skip_def masked (skip_from masked (cur + 4)))"
  obtain name cur'' where n: "read_ident masked cur' = (name, cur'')" by force
  have "cur'' < n"
    using assms unfolding parse_test_case_at_def Let_def cur_def [symmetric] cur'_def [symmetric] n
    by (auto split: if_splits dest!: find_matching_brace_range)
  moreover have "cur' \<le> cur''" using read_ident_le [of cur' masked] n by simp
  moreover have "cur + 4 \<le> cur'" unfolding cur'_def
    using skip_from_le [of "cur + 4" masked] skip_def_le [of "skip_from masked (cur + 4)" masked] by simp
  moreover have "p + 4 \<le> cur" using skip_from_le [of "p + 4" masked] by (simp add: cur_def)
  ultimately show ?thesis by simp
qed

function test_cases_from :: "(string \<Rightarrow> nat) \<Rightarrow> string \<Rightarrow> string \<Rightarrow> nat \<Rightarrow> TestCaseDef list" where
  "test_cases_from err clean masked idx =
     (case find_pos ''test'' (drop idx masked) of
        None \<Rightarrow> []
      | Some pos \<Rightarrow>
          (let test_pos = idx + pos in
           if \<not> is_word_boundary_before masked test_pos \<or> \<not> is_word_boundary_after masked (test_pos + 4)
           then test_cases_from err clean masked (test_pos + 4)
           else case parse_test_case_at err clean masked test_pos of
                  Some (tc, next_idx) \<Rightarrow> tc # test_cases_from err clean masked next_idx
                | None \<Rightarrow> test_cases_from err clean masked (test_pos + 4)))"
  by pat_completeness auto
termination
proof (relation "measure (\<lambda>(err, clean, masked, idx). length masked - idx)")
qed (auto dest!: find_pos_Some parse_test_case_progress)

declare test_cases_from.simps [simp del]

definition parse_test_case_defs :: "(string \<Rightarrow> nat) \<Rightarrow> string \<Rightarrow> TestCaseDef list" where
  "parse_test_case_defs err content =
     (let clean = strip_sysml_comments err content; masked = mask_string_literals err clean in
      test_cases_from err clean masked 0)"

lemma keyword_test: "keyword ''test''"
  by code_simp

lemma length_test: "length ''test'' = 4"
  by simp

interpretation test_search: keyword_search "''test''" "test_cases_from err clean"
  "\<lambda>masked p. case parse_test_case_at err clean masked p of
     Some (tc, next_idx) \<Rightarrow> tc # test_cases_from err clean masked next_idx
   | None \<Rightarrow> test_cases_from err clean masked (p + 4)" "[]" for err clean
proof (unfold_locales, rule keyword_test)
  fix t idx
  show "test_cases_from err clean t idx =
      (case find_pos ''test'' (drop idx t) of None \<Rightarrow> []
       | Some pos \<Rightarrow>
           if is_word_boundary_before t (idx + pos) \<and> is_word_boundary_after t (idx + pos + length ''test'')
           then (case parse_test_case_at err clean t (idx + pos) of
               Some (tc, next_idx) \<Rightarrow> tc # test_cases_from err clean t next_idx
             | None \<Rightarrow> test_cases_from err clean t (idx + pos + 4))
           else test_cases_from err clean t (idx + pos + length ''test''))"
    unfolding length_test by (subst test_cases_from.simps) (simp add: Let_def split: option.split)
qed

end
