(* ===== verification/Sysml_Parts.thy ===== *)
theory Sysml_Parts
  imports Sysml_Hazards
begin

text \<open>
  Parts in SysML text, the second half of \<^verbatim>\<open>deap-core/src/sysml_cst/interfaces_and_items.rs\<close>, and the
  reader of whole models, \<^verbatim>\<open>parse_sysml\<close> of \<^verbatim>\<open>model_parser.rs\<close>, with the conversions between
  \<^verbatim>\<open>SysmlModel\<close> and \<^verbatim>\<open>PackageDef\<close> of \<^verbatim>\<open>package_model.rs\<close>. A part runs every extractor over its body
  with nested blocks masked, and itself over the unmasked body, to a depth of 64.
\<close>

section \<open>Headers\<close>

record ParsedPartHeader =
  ph_name :: string
  ph_doc :: "string option"
  ph_is_def :: bool
  ph_type_name :: "string option"
  ph_body :: string
  ph_next_idx :: nat

definition part_type_annotation :: "(string \<Rightarrow> nat) \<Rightarrow> string \<Rightarrow> nat \<Rightarrow> string option \<times> nat" where
  "part_type_annotation err masked cur =
     (let rem_colon = drop cur masked in
      if starts_with rem_colon '':>'' \<or> starts_with rem_colon '':'' then
        (let cur = skip_from masked (cur + (if starts_with rem_colon '':>'' then 2 else 1));
             (t_name, t_len) = extract_type_ident err (drop cur masked)
         in if t_name = [] then (None, cur) else (Some t_name, skip_from masked (cur + t_len)))
      else (None, cur))"

definition parse_part_header_and_body ::
  "(string \<Rightarrow> nat) \<Rightarrow> string \<Rightarrow> string \<Rightarrow> nat \<Rightarrow> ParsedPartHeader option" where
  "parse_part_header_and_body err clean masked part_pos =
     (let doc = extract_doc_comment_before clean part_pos;
          (is_def, cur) = skip_def masked (skip_from masked (part_pos + 4));
          (name, cur) = read_ident masked cur
      in if name = [] then None
         else let (type_name, cur) = part_type_annotation err masked cur in
           map_option (\<lambda>(body_opt, next_idx).
             \<lparr>ph_name = name, ph_doc = doc, ph_is_def = is_def, ph_type_name = type_name,
              ph_body = (case body_opt of Some body \<Rightarrow> body | None \<Rightarrow> []), ph_next_idx = next_idx\<rparr>)
             (open_body_or_semi err clean masked cur))"

section \<open>Parts\<close>

text \<open>\<open>parts_of\<close> is the extractor one level deeper.\<close>

definition build_part_def_from_header ::
  "(string \<Rightarrow> nat) \<Rightarrow> (string \<Rightarrow> PartDef list) \<Rightarrow> ParsedPartHeader \<Rightarrow> PartDef" where
  "build_part_def_from_header err parts_of header =
     (let shallow_body = mask_nested_blocks err (ph_body header) PartAndRequirement;
          attr_body = mask_nested_blocks err shallow_body PortOnly;
          (triggers_hazards, safety_realises, layer) = parse_safety_and_layer_annotations err shallow_body;
          nested_parts = (if ph_body header = [] then [] else parts_of (ph_body header))
      in PartDef (ph_name header) (ph_doc header) (ph_is_def header) (ph_type_name header)
           (parse_attribute_defs err attr_body) (parse_port_defs err shallow_body)
           (parse_action_defs err shallow_body) (parse_constraint_defs err shallow_body)
           (parse_requirement_defs err (ph_body header)) (parse_satisfied_requirements err shallow_body)
           nested_parts [] [] [] [] (parse_state_defs err shallow_body) [] []
           (parse_hazard_defs err shallow_body) [] (parse_connection_defs err shallow_body)
           (parse_calc_defs err shallow_body) triggers_hazards safety_realises layer)"

definition part_headers :: "(string \<Rightarrow> nat) \<Rightarrow> string \<Rightarrow> ParsedPartHeader list" where
  "part_headers err content =
     (let clean = strip_sysml_comments err content; masked = mask_string_literals err clean in
      keyword_items masked (\<lambda>kw. kw = ''part'')
        (\<lambda>i j. map_option (\<lambda>h. (h, ph_next_idx h)) (parse_part_header_and_body err clean masked i)) 0
        (lexer err masked))"

function parse_part_defs_at_depth :: "(string \<Rightarrow> nat) \<Rightarrow> string \<Rightarrow> nat \<Rightarrow> PartDef list" where
  "parse_part_defs_at_depth err content depth =
     (if MAX_AST_DEPTH < depth then []
      else map (build_part_def_from_header err (\<lambda>body. parse_part_defs_at_depth err body (depth + 1)))
        (part_headers err content))"
  by pat_completeness auto
termination
  by (relation "measure (\<lambda>(err, content, depth). Suc MAX_AST_DEPTH - depth)") auto

declare parse_part_defs_at_depth.simps [simp del]

definition parse_part_defs :: "(string \<Rightarrow> nat) \<Rightarrow> string \<Rightarrow> PartDef list" where
  "parse_part_defs err content = parse_part_defs_at_depth err content 0"

section \<open>Models\<close>

record SysmlModel =
  mdl_package_name :: "string option"
  mdl_doc :: "string option"
  mdl_attributes :: "AttributeDef list"
  mdl_parts :: "PartDef list"
  mdl_ports :: "PortDef list"
  mdl_actions :: "ActionDef list"
  mdl_constraints :: "ConstraintDef list"
  mdl_requirements :: "RequirementDef list"
  mdl_test_cases :: "TestCaseDef list"

definition same_link :: "ConnectionDef \<Rightarrow> ConnectionDef \<Rightarrow> bool" where
  "same_link c conn \<longleftrightarrow> conn_name c = conn_name conn \<and>
     conn_source_port c = conn_source_port conn \<and> conn_target_port c = conn_target_port conn"

definition add_connection :: "ConnectionDef \<Rightarrow> ConnectionDef list \<Rightarrow> ConnectionDef list" where
  "add_connection conn cs = (if list_ex (\<lambda>c. same_link c conn) cs then cs else cs @ [conn])"

definition add_hazard :: "HazardDef \<Rightarrow> HazardDef list \<Rightarrow> HazardDef list" where
  "add_hazard haz hs = (if list_ex (\<lambda>h. hazard_name h = hazard_name haz) hs then hs else hs @ [haz])"

fun adopt :: "ConnectionDef list \<Rightarrow> HazardDef list \<Rightarrow> PartDef \<Rightarrow> PartDef" where
  "adopt conns hazs
     (PartDef n d is_def ty atts pts acts cons reqs sat parts ops caps ints tcs sts ucs its hs rs cs calcs th sr l) =
   PartDef n d is_def ty atts pts acts cons reqs sat parts ops caps ints tcs sts ucs its
     (fold add_hazard hazs hs) rs (fold add_connection conns cs) calcs th sr l"

definition parse_scope_into_model ::
  "(string \<Rightarrow> nat) \<Rightarrow> string \<Rightarrow> string option \<Rightarrow> string option \<Rightarrow> SysmlModel" where
  "parse_scope_into_model err scope package_name doc =
     \<lparr>mdl_package_name = package_name, mdl_doc = doc, mdl_attributes = parse_attribute_defs err scope,
      mdl_parts =
        (case parse_part_defs err scope of
           [] \<Rightarrow> []
         | first_part # others \<Rightarrow>
             adopt (parse_connection_defs err scope) (parse_hazard_defs err scope) first_part # others),
      mdl_ports = parse_port_defs err scope, mdl_actions = parse_action_defs err scope,
      mdl_constraints = parse_constraint_defs err scope,
      mdl_requirements = parse_requirement_defs err scope,
      mdl_test_cases = parse_test_case_defs err scope\<rparr>"

text \<open>The package a text opens: its name, its documentation and its body.\<close>

definition package_at :: "(string \<Rightarrow> nat) \<Rightarrow> string \<Rightarrow> string \<Rightarrow> nat \<Rightarrow> (string \<times> string option \<times> string) option" where
  "package_at err clean masked pkg_pos =
     (let doc = extract_doc_comment_before clean pkg_pos;
          (name, cur) = read_ident masked (skip_from masked (pkg_pos + 7))
      in if name = [] \<or> \<not> starts_with (drop cur masked) ''{'' then None
         else Some (name, doc,
           case find_matching_brace err clean cur of
             Some close_pos \<Rightarrow> slice_or_empty clean (cur + 1) close_pos
           | None \<Rightarrow> drop (cur + 1) clean))"

function package_info :: "(string \<Rightarrow> nat) \<Rightarrow> string \<Rightarrow> string \<Rightarrow> nat \<Rightarrow> (string \<times> string option \<times> string) option" where
  "package_info err clean masked idx =
     (case find_pos ''package'' (drop idx masked) of
        None \<Rightarrow> None
      | Some pos \<Rightarrow>
          (let pkg_pos = idx + pos in
           if \<not> is_word_boundary_before masked pkg_pos \<or> \<not> is_word_boundary_after masked (pkg_pos + 7)
           then package_info err clean masked (pkg_pos + 7)
           else case package_at err clean masked pkg_pos of
                  Some p \<Rightarrow> Some p
                | None \<Rightarrow> package_info err clean masked (pkg_pos + 7)))"
  by pat_completeness auto
termination
proof (relation "measure (\<lambda>(err, clean, masked, idx). length masked - idx)")
qed (auto dest!: find_pos_Some)

declare package_info.simps [simp del]

definition parse_sysml :: "(string \<Rightarrow> nat) \<Rightarrow> string \<Rightarrow> SysmlModel" where
  "parse_sysml err content =
     (let clean = strip_sysml_comments err content; masked = mask_string_literals err clean in
      case package_info err clean masked 0 of
        Some (package_name, doc, body) \<Rightarrow> parse_scope_into_model err body (Some package_name) doc
      | None \<Rightarrow> parse_scope_into_model err clean None None)"

definition parse_sysml_model :: "(string \<Rightarrow> nat) \<Rightarrow> string \<Rightarrow> SysmlModel" where
  "parse_sysml_model err content = parse_sysml err content"

text \<open>The two conversions.\<close>

definition model_of_package :: "PackageDef \<Rightarrow> SysmlModel" where
  "model_of_package pkg =
     \<lparr>mdl_package_name = Some (pkg_name pkg), mdl_doc = pkg_doc pkg,
      mdl_attributes = pkg_attribute_defs pkg, mdl_parts = pkg_part_defs pkg,
      mdl_ports = pkg_port_defs pkg, mdl_actions = pkg_action_defs pkg,
      mdl_constraints = pkg_constraint_defs pkg, mdl_requirements = pkg_requirement_defs pkg,
      mdl_test_cases = pkg_test_case_defs pkg\<rparr>"

definition package_of_model :: "SysmlModel \<Rightarrow> PackageDef" where
  "package_of_model m =
     PackageDef (case mdl_package_name m of Some n \<Rightarrow> n | None \<Rightarrow> ''SysML_Model'') (mdl_doc m) None [] []
       (mdl_parts m) (mdl_ports m) (mdl_attributes m) (mdl_actions m) [] [] [] (mdl_constraints m)
       (mdl_test_cases m) (mdl_requirements m) [] [] [] [] [] [] [] []"

section \<open>Searching for the package\<close>

lemma keyword_package: "keyword ''package''"
  by code_simp

lemma length_package: "length ''package'' = 7"
  by simp

interpretation package_search: keyword_search "''package''" "package_info err clean"
  "\<lambda>masked p. case package_at err clean masked p of
     Some x \<Rightarrow> Some x | None \<Rightarrow> package_info err clean masked (p + 7)" "None" for err clean
proof (unfold_locales, rule keyword_package)
  fix t idx
  show "package_info err clean t idx =
      (case find_pos ''package'' (drop idx t) of None \<Rightarrow> None
       | Some pos \<Rightarrow>
           if is_word_boundary_before t (idx + pos) \<and> is_word_boundary_after t (idx + pos + length ''package'')
           then (case package_at err clean t (idx + pos) of
               Some x \<Rightarrow> Some x | None \<Rightarrow> package_info err clean t (idx + pos + 7))
           else package_info err clean t (idx + pos + length ''package''))"
    unfolding length_package by (subst package_info.simps) (simp add: Let_def split: option.split)
qed

end
