(* ===== verification/Sysml_Extracted.thy ===== *)
theory Sysml_Extracted
  imports Sysml_Parts
begin

text \<open>
  What the extractors of the SysML front end guarantee for every text: the trees are bounded, the
  names are identifiers, requirements have an id; and two things they do across declarations: the
  first part of a scope adopts all its connections and hazards, and a part that is only declared
  makes the masking blank the block of the declaration after it.
\<close>

section \<open>Names\<close>

definition ident_name :: "string \<Rightarrow> bool" where
  "ident_name w \<longleftrightarrow> w \<noteq> [] \<and> list_all is_ident_char w"

text \<open>Names that may have hyphens.\<close>

definition id_name :: "string \<Rightarrow> bool" where
  "id_name w \<longleftrightarrow> w \<noteq> [] \<and> list_all (\<lambda>c. is_ident_char c \<or> c = CHR ''-'') w"

lemma read_ident_named: "fst (read_ident s p) \<noteq> [] \<Longrightarrow> ident_name (fst (read_ident s p))"
  using read_ident_chars [of s p] by (cases "read_ident s p") (auto simp: ident_name_def)

lemma takeWhile_named: "takeWhile P s \<noteq> [] \<Longrightarrow> (\<And>c. P c \<Longrightarrow> is_ident_char c \<or> c = CHR ''-'') \<Longrightarrow> id_name (takeWhile P s)"
  by (auto simp: id_name_def list_all_iff dest: set_takeWhile)

lemma attributes_named: "list_all (\<lambda>a. ident_name (attr_name a)) (parse_attribute_defs err s)"
  unfolding parse_attribute_defs_def Let_def
  by (rule keyword_items_all)
    (auto simp: parse_single_attribute_after_keyword_def Let_def case_prod_unfold split: if_splits intro: read_ident_named)

lemma ports_named: "list_all (\<lambda>p. ident_name (port_name p)) (parse_port_defs err s)"
  unfolding parse_port_defs_def Let_def
  by (rule keyword_items_all)
    (auto simp: single_port_def Let_def case_prod_unfold split: if_splits intro: read_ident_named)

lemma connections_named: "list_all (\<lambda>c. ident_name (conn_name c)) (parse_connection_defs err s)"
  unfolding parse_connection_defs_def Let_def
  by (rule keyword_items_all)
    (auto simp: single_connection_def Let_def case_prod_unfold split: if_splits intro: read_ident_named)

lemma header_named: "parse_decl_header_with_parens clean masked p = Some (n, ps, q) \<Longrightarrow> ident_name n"
  by (auto simp: parse_decl_header_with_parens_def Let_def case_prod_unfold split: if_splits intro: read_ident_named)

lemma constraints_named: "list_all (\<lambda>c. ident_name (con_name c)) (parse_constraint_defs err s)"
  unfolding parse_constraint_defs_def Let_def
  by (rule keyword_items_all)
    (auto simp: parse_single_constraint_def Let_def split: prod.splits if_splits option.splits dest: header_named)

lemma calcs_named: "list_all (\<lambda>c. ident_name (calc_name c)) (parse_calc_defs err s)"
  unfolding parse_calc_defs_def Let_def
  by (rule keyword_items_all)
    (auto simp: parse_single_calc_def Let_def case_prod_unfold split: option.splits dest: header_named)

lemma hazards_named: "list_all (\<lambda>h. id_name (hazard_name h)) (parse_hazard_defs err s)"
  unfolding parse_hazard_defs_def Let_def
  by (rule keyword_items_all)
    (auto simp: parse_single_hazard_def Let_def split: prod.splits if_splits intro: takeWhile_named)

lemma action_span_named: "parse_action_span err clean masked p = Some sp \<Longrightarrow> ident_name (as_name sp)"
  by (auto simp: parse_action_span_def Let_def case_prod_unfold split: if_splits option.splits intro: read_ident_named)

lemma actions_named: "list_all (\<lambda>a. ident_name (action_name a)) (parse_action_defs err s)"
proof -
  have "list_all (\<lambda>sp. ident_name (as_name sp)) (action_spans err clean masked idx)" for clean masked idx
  proof (induction err clean masked idx rule: action_spans.induct)
    case (1 err clean masked idx)
    then show ?case using action_span_named
      by (subst action_spans.simps) (auto simp: Let_def split: option.split)
  qed
  then show ?thesis
    by (simp add: parse_action_defs_def Let_def list_all_iff build_action_def_from_span_def split: prod.split)
qed

section \<open>Requirements\<close>

text \<open>What a line of the body changes of a requirement: never its name.\<close>

lemma requirement_line_name: "req_name (apply_requirement_body_line l req) = req_name req"
  by (simp add: apply_requirement_body_line_def Let_def split: option.split)

lemma requirement_body_name: "req_name (requirement_body err body req) = req_name req"
proof -
  have "req_name (fold (\<lambda>line. apply_requirement_body_line (trim line)) ls r) = req_name r" for ls r
    by (induction ls arbitrary: r) (simp_all add: requirement_line_name)
  then show ?thesis by (simp add: requirement_body_def Let_def split: option.split prod.split)
qed

definition requirement_ok :: "RequirementDef \<Rightarrow> bool" where
  "requirement_ok r \<longleftrightarrow> id_name (req_name r) \<and> req_req_id r \<noteq> [] \<and>
     list_all (\<lambda>a. ident_name (attr_name a)) (req_attributes r) \<and>
     list_all (\<lambda>c. ident_name (con_name c)) (req_constraints r)"

lemma requirement_built: "id_name (rs_name sp) \<Longrightarrow> requirement_ok (build_requirement_from_span err sp)"
  using attributes_named constraints_named
  by (auto simp: requirement_ok_def build_requirement_from_span_def Let_def requirement_body_name
      default_requirement_def id_name_def split: option.split)
    (auto simp: requirement_body_def Let_def split: option.split prod.split)

lemma requirements_named: "list_all requirement_ok (parse_requirement_defs err s)"
  unfolding parse_requirement_defs_def Let_def
  by (rule keyword_items_all)
    (auto simp: parse_requirement_span_def Let_def split: prod.splits if_splits
      intro!: requirement_built takeWhile_named)

lemma push_new_distinct: "distinct vs \<Longrightarrow> distinct (push_new v vs)"
  by (simp add: push_new_def)

lemma satisfied_distinct: "distinct (parse_satisfied_requirements err s) \<and> [] \<notin> set (parse_satisfied_requirements err s)"
proof -
  let ?f = "\<lambda>found satisfied. case found of Some req_id \<Rightarrow> push_new req_id satisfied | None \<Rightarrow> satisfied"
  have d: "distinct (fold ?f xs vs) \<and> [] \<notin> set (fold ?f xs vs)"
    if "Some [] \<notin> set xs" "distinct vs \<and> [] \<notin> set vs" for xs vs
    using that by (induction xs arbitrary: vs) (auto simp: push_new_def split: option.split)
  have "Some [] \<notin> set (keyword_items m k (\<lambda>i j. satisfy_statement err c m j) n ts)" for m k c n ts
  proof
    assume "Some [] \<in> set (keyword_items m k (\<lambda>i j. satisfy_statement err c m j) n ts)"
    then obtain j x where "satisfy_statement err c m j = Some (Some [], x)"
      using keyword_items_member by fastforce
    then show False
      by (auto simp: satisfy_statement_def extract_satisfied_req_id_from_stmt_def Let_def split: if_splits)
  qed
  then show ?thesis unfolding parse_satisfied_requirements_def Let_def by (intro d) simp_all
qed

section \<open>Parts\<close>

fun part_height :: "PartDef \<Rightarrow> nat" where
  "part_height (PartDef n d is_def ty atts pts acts cons reqs sat parts ops caps ints tcs sts ucs its hs rs cs calcs th sr l) =
     Suc (foldr max (map part_height parts) 0)"

fun part_ok :: "PartDef \<Rightarrow> bool" where
  "part_ok (PartDef n d is_def ty atts pts acts cons reqs sat parts ops caps ints tcs sts ucs its hs rs cs calcs th sr l) \<longleftrightarrow>
     ident_name n \<and> list_all (\<lambda>a. ident_name (attr_name a)) atts \<and> list_all (\<lambda>p. ident_name (port_name p)) pts \<and>
     list_all (\<lambda>a. ident_name (action_name a)) acts \<and> list_all (\<lambda>c. ident_name (con_name c)) cons \<and>
     list_all requirement_ok reqs \<and> distinct sat \<and> [] \<notin> set sat \<and>
     list_all (\<lambda>sd. state_height sd \<le> 65 \<and> named_by_identifiers sd) sts \<and>
     list_all (\<lambda>h. id_name (hazard_name h)) hs \<and> list_all (\<lambda>c. ident_name (conn_name c)) cs \<and>
     list_all (\<lambda>c. ident_name (calc_name c)) calcs \<and> list_all part_ok parts"

lemma states_ok: "list_all (\<lambda>sd. state_height sd \<le> 65 \<and> named_by_identifiers sd) (parse_state_defs err s)"
  using parsed_states [of 0 err s] by (simp add: parse_state_defs_def MAX_AST_DEPTH_def)

lemma headers_named: "list_all (\<lambda>h. ident_name (ph_name h)) (part_headers err s)"
  unfolding part_headers_def Let_def
  by (rule keyword_items_all)
    (auto simp: parse_part_header_and_body_def Let_def case_prod_unfold split: if_splits intro: read_ident_named)

lemma part_built:
  assumes "ident_name (ph_name h)" "list_all part_ok (parts_of (ph_body h))"
  shows "part_ok (build_part_def_from_header err parts_of h)"
  using assms satisfied_distinct
  by (auto simp: build_part_def_from_header_def Let_def attributes_named ports_named actions_named
      constraints_named requirements_named states_ok hazards_named connections_named calcs_named
      split: prod.split)

lemma part_built_height:
  "part_height (build_part_def_from_header err parts_of h) =
     Suc (foldr max (map part_height (if ph_body h = [] then [] else parts_of (ph_body h))) 0)"
  by (simp add: build_part_def_from_header_def Let_def split: prod.split)

lemma parsed_parts:
  "list_all (\<lambda>p. part_height p + depth \<le> Suc MAX_AST_DEPTH \<and> part_ok p) (parse_part_defs_at_depth err content depth)"
proof (induction err content depth rule: parse_part_defs_at_depth.induct)
  case (1 err content depth)
  show ?case
  proof (cases "MAX_AST_DEPTH < depth")
    case True
    then show ?thesis by (simp add: parse_part_defs_at_depth.simps)
  next
    case False
    let ?f = "\<lambda>body. parse_part_defs_at_depth err body (depth + 1)"
    have "part_height (build_part_def_from_header err ?f h) + depth \<le> Suc MAX_AST_DEPTH \<and>
        part_ok (build_part_def_from_header err ?f h)"
      if h: "h \<in> set (part_headers err content)" for h
    proof -
      have IH: "list_all (\<lambda>p. part_height p + (depth + 1) \<le> Suc MAX_AST_DEPTH \<and> part_ok p) (?f (ph_body h))"
        using 1 [OF False h] .
      have "foldr max (map part_height (?f (ph_body h))) 0 \<le> MAX_AST_DEPTH - depth"
        using IH by (intro foldr_max_le) (auto simp: list_all_iff)
      moreover have "ident_name (ph_name h)" using headers_named h by (auto simp: list_all_iff)
      moreover have "list_all part_ok (?f (ph_body h))" using IH by (auto simp: list_all_iff)
      ultimately show ?thesis using False by (auto simp: part_built_height intro!: part_built)
    qed
    then show ?thesis using False
      by (subst parse_part_defs_at_depth.simps) (simp add: list_all_iff)
  qed
qed

text \<open>
  C27: Whatever the text, the extracted part trees are at most 65 levels high and everything in them,
  nested parts included, is well named: parts, attributes, ports, actions, constraints, calculations
  and connections by nonempty identifiers, hazards and requirements by identifiers that may have
  hyphens; every requirement has an id, the satisfied requirements are listed once and none is
  empty, and the state trees are at most 65 levels high and named by identifiers.
\<close>

theorem parts_bounded_and_named:
  "list_all (\<lambda>p. part_height p \<le> 65 \<and> part_ok p) (parse_part_defs err content)"
  using parsed_parts [of 0 err content] by (simp add: parse_part_defs_def MAX_AST_DEPTH_def)

section \<open>Masks\<close>

text \<open>
  The copy of a body with its nested blocks blanked has the length of the body and its newlines
  at the same positions, every other character is kept or blank, and so has the copy of that copy
  with the ports blanked: a position found in a mask is a position of the text.
\<close>

theorem nested_masks_keep_positions:
  "list_all2 (\<lambda>m c. m = c \<or> m = CHR '' '')
     (mask_nested_blocks err (mask_nested_blocks err body PartAndRequirement) PortOnly) body \<and>
   map (\<lambda>c. c = LF) (mask_nested_blocks err (mask_nested_blocks err body PartAndRequirement) PortOnly) =
   map (\<lambda>c. c = LF) body"
proof -
  have h: "hides (mask_nested_blocks err (mask_nested_blocks err body PartAndRequirement) PortOnly) body"
    by (rule hides_trans [OF nested_mask_hides nested_mask_hides])
  show ?thesis using hides_newlines [OF h] h
    by (auto simp: hides_def list_all2_conv_all_nth)
qed

text \<open>
  A part that is only declared, \<^verbatim>\<open>part s;\<close>, makes the masking blank the block of the action after
  it, so that the action is extracted from the masked body without its parameters, although it has
  them in the text: the guard of \<^verbatim>\<open>advance_to_nested_block_open_brace\<close> lets the search run on behind
  the semicolon.
\<close>

theorem declared_part_blanks_next_block:
  "mask_nested_blocks err ''part s;action g{in x:R}'' PartAndRequirement = ''part s;action g{      }'' \<and>
   map (map attr_name \<circ> action_in_params)
     (parse_action_defs err (mask_nested_blocks err ''part s;action g{in x:R}'' PartAndRequirement)) = [[]] \<and>
   map (map attr_name \<circ> action_in_params) (parse_action_defs err ''part s;action g{in x:R}'') = [[''x'']]"
proof -
  have m: "mask_nested_blocks err ''part s;action g{in x:R}'' PartAndRequirement = ''part s;action g{      }''"
    by code_simp
  have "map (map attr_name \<circ> action_in_params) (parse_action_defs err ''part s;action g{      }'') = [[]]"
    by code_simp
  moreover have "map (map attr_name \<circ> action_in_params) (parse_action_defs err ''part s;action g{in x:R}'') = [[''x'']]"
    by code_simp
  ultimately show ?thesis by (simp only: m)
qed

section \<open>Scopes\<close>

lemma add_connection_keeps: "list_ex (\<lambda>c. same_link c conn) cs \<Longrightarrow> list_ex (\<lambda>c. same_link c conn) (add_connection x cs)"
  by (auto simp: add_connection_def)

lemma add_connections: "conn \<in> set conns \<Longrightarrow> list_ex (\<lambda>c. same_link c conn) (fold add_connection conns cs)"
proof (induction conns arbitrary: cs)
  case (Cons x conns)
  have keep: "list_ex (\<lambda>c. same_link c conn) ys \<Longrightarrow> list_ex (\<lambda>c. same_link c conn) (fold add_connection zs ys)" for zs ys
    by (induction zs arbitrary: ys) (simp_all add: add_connection_keeps)
  have "same_link conn conn" by (simp add: same_link_def)
  then have "list_ex (\<lambda>c. same_link c x) (add_connection x cs)" by (auto simp: add_connection_def same_link_def)
  then show ?case using Cons keep by auto
qed simp

lemma add_hazards: "haz \<in> set hazs \<Longrightarrow> list_ex (\<lambda>h. hazard_name h = hazard_name haz) (fold add_hazard hazs hs)"
proof (induction hazs arbitrary: hs)
  case (Cons x hazs)
  have keep: "list_ex (\<lambda>h. hazard_name h = hazard_name haz) ys \<Longrightarrow>
      list_ex (\<lambda>h. hazard_name h = hazard_name haz) (fold add_hazard zs ys)" for zs ys
    by (induction zs arbitrary: ys) (auto simp: add_hazard_def)
  have "list_ex (\<lambda>h. hazard_name h = hazard_name x) (add_hazard x hs)" by (auto simp: add_hazard_def)
  then show ?case using Cons keep by auto
qed simp

lemma adopt_members:
  "part_connections (adopt conns hazs p) = fold add_connection conns (part_connections p)"
  "part_hazards (adopt conns hazs p) = fold add_hazard hazs (part_hazards p)"
  "part_name (adopt conns hazs p) = part_name p"
  by (cases p; simp)+

text \<open>
  The first part of a scope has a connection of the same name and endpoints for every connection
  found anywhere in the scope, and a hazard of the same name for every hazard, those declared inside
  the other parts included; the other parts are what the part extractor gives.
\<close>

theorem first_part_adopts_scope:
  assumes "parse_part_defs err scope = first_part # others"
  shows "\<exists>p. mdl_parts (parse_scope_into_model err scope name doc) = p # others \<and> part_name p = part_name first_part \<and>
    list_all (\<lambda>conn. list_ex (\<lambda>c. same_link c conn) (part_connections p)) (parse_connection_defs err scope) \<and>
    list_all (\<lambda>haz. list_ex (\<lambda>h. hazard_name h = hazard_name haz) (part_hazards p)) (parse_hazard_defs err scope)"
  using assms
  by (auto simp: parse_scope_into_model_def adopt_members list_all_iff intro: add_connections add_hazards)

theorem first_part_adopts_scope_witness:
  "\<exists>a b. mdl_parts (parse_scope_into_model (\<lambda>_. 0) ''part A;part B{flow f{}}'' None None) = [a, b] \<and> part_name a = ''A'' \<and>
     list_ex (\<lambda>c. conn_name c = ''f'') (part_connections a)"
proof -
  let ?scope = "''part A;part B{flow f{}}''"
  have "map part_name (parse_part_defs (\<lambda>_. 0) ?scope) = [''A'', ''B'']" by code_simp
  then obtain a b where parts: "parse_part_defs (\<lambda>_. 0) ?scope = [a, b]" "part_name a = ''A''"
    by (auto simp: map_eq_Cons_conv)
  have "map conn_name (parse_connection_defs (\<lambda>_. 0) ?scope) = [''f'']" by code_simp
  then obtain c where c: "parse_connection_defs (\<lambda>_. 0) ?scope = [c]" "conn_name c = ''f''" by (auto simp: map_eq_Cons_conv)
  obtain p where "mdl_parts (parse_scope_into_model (\<lambda>_. 0) ?scope None None) = [p, b]" "part_name p = ''A''"
      "list_ex (\<lambda>d. same_link d c) (part_connections p)"
    using first_part_adopts_scope [OF parts(1), of None None] parts(2) unfolding c(1) by auto
  moreover have "list_ex (\<lambda>d. conn_name d = ''f'') ds" if "list_ex (\<lambda>d. same_link d c) ds" for ds
    using that c(2) by (induction ds) (auto simp: same_link_def)
  ultimately show ?thesis by blast
qed

end
