(* ===== verification/Cst_Tokens.thy ===== *)
theory Cst_Tokens
  imports Sysml_Model Sysml_Lexer
begin

text \<open>
  The tokens of the compiler's own front end, \<^verbatim>\<open>compile-sysml/src/salsa_db/cst_db.rs\<close>: spans, token
  kinds with their spellings, the two look-ups by spelling, documentation comments and number
  lexemes. The enum \<^verbatim>\<open>TokenKind\<close> is split along its two tables \<^verbatim>\<open>KEYWORD_KINDS\<close> and
  \<^verbatim>\<open>SYMBOL_KINDS\<close>: \<open>Kw k\<close> is a keyword and \<open>Sym s\<close> an operator or delimiter. What the code does with
  64-bit floats, parse and print them, is left to the argument \<open>F64Text\<close>.
\<close>

section \<open>Spans and kinds\<close>

record Span =
  span_start :: nat
  span_end :: nat
  span_line :: nat
  span_col :: nat

definition default_span :: Span where
  "default_span = \<lparr>span_start = 0, span_end = 0, span_line = 0, span_col = 0\<rparr>"

definition new_span :: "nat \<Rightarrow> nat \<Rightarrow> nat \<Rightarrow> nat \<Rightarrow> Span" where
  "new_span i j line col = \<lparr>span_start = i, span_end = j, span_line = line, span_col = col\<rparr>"

definition span_text :: "Span \<Rightarrow> string" where
  "span_text s =
     decimal (span_line s) @ '':'' @ decimal (span_col s) @ ''-'' @ decimal (span_line s) @ '':''
     @ decimal (span_col s + (span_end s - span_start s))"

datatype Keyword =
    KPackage | KImport | KPart | KDef | KPort | KItem | KFlow | KInterface | KSubsystem | KSubject
  | KActor | KAction | KOperation | KState | KTransition | KEntry | KDo | KExit | KPerform | KStep
  | KTrigger | KRequirement | KConstraint | KAssert | KAssume | KRequire | KVerify | KSatisfy | KCalc
  | KTest | KCase | KHazard | KRisk | KUseCase | KInclude | KExtend | KPrecondition | KPostcondition
  | KObjective | KCapability | KInteraction | KLifeline | KMessage | KConnection | KConnect | KFrom
  | KTo | KBy | KAttribute | KId | KText | KDoc | KIn | KOut | KInout

datatype Symbol =
    SColonEq | SColonGt | SDoubleColon | SArrow | STildeGt | SEqEq | SNotEq | SLtEq | SGtEq | SAmpAmp
  | SPipePipe | SEq | SLt | SGt | SPlus | SMinus | SStar | SSlash | SPercent | SCaret | STilde
  | SExclamation | SColon | SSemi | SComma | SDot | SOpenBrace | SCloseBrace | SOpenParen | SCloseParen
  | SOpenBracket | SCloseBracket

datatype TokenKind =
    Kw Keyword | Sym Symbol
  | Ident string | StringLit string | IntLit int | RealLit f64 | BoolLit bool
  | DocComment string | LineCommentTok string | Eof

record Token =
  tok_kind :: TokenKind
  tok_span :: Span

section \<open>Spellings\<close>

fun keyword_as_str :: "Keyword \<Rightarrow> string" where
  "keyword_as_str KPackage = ''package''" | "keyword_as_str KImport = ''import''"
| "keyword_as_str KPart = ''part''" | "keyword_as_str KDef = ''def''"
| "keyword_as_str KPort = ''port''" | "keyword_as_str KItem = ''item''"
| "keyword_as_str KFlow = ''flow''" | "keyword_as_str KInterface = ''interface''"
| "keyword_as_str KSubsystem = ''subsystem''" | "keyword_as_str KSubject = ''subject''"
| "keyword_as_str KActor = ''actor''" | "keyword_as_str KAction = ''action''"
| "keyword_as_str KOperation = ''operation''" | "keyword_as_str KState = ''state''"
| "keyword_as_str KTransition = ''transition''" | "keyword_as_str KEntry = ''entry''"
| "keyword_as_str KDo = ''do''" | "keyword_as_str KExit = ''exit''"
| "keyword_as_str KPerform = ''perform''" | "keyword_as_str KStep = ''step''"
| "keyword_as_str KTrigger = ''trigger''" | "keyword_as_str KRequirement = ''requirement''"
| "keyword_as_str KConstraint = ''constraint''" | "keyword_as_str KAssert = ''assert''"
| "keyword_as_str KAssume = ''assume''" | "keyword_as_str KRequire = ''require''"
| "keyword_as_str KVerify = ''verify''" | "keyword_as_str KSatisfy = ''satisfy''"
| "keyword_as_str KCalc = ''calc''" | "keyword_as_str KTest = ''test''"
| "keyword_as_str KCase = ''case''" | "keyword_as_str KHazard = ''hazard''"
| "keyword_as_str KRisk = ''risk''" | "keyword_as_str KUseCase = ''use case''"
| "keyword_as_str KInclude = ''include''" | "keyword_as_str KExtend = ''extend''"
| "keyword_as_str KPrecondition = ''precondition''" | "keyword_as_str KPostcondition = ''postcondition''"
| "keyword_as_str KObjective = ''objective''" | "keyword_as_str KCapability = ''capability''"
| "keyword_as_str KInteraction = ''interaction''" | "keyword_as_str KLifeline = ''lifeline''"
| "keyword_as_str KMessage = ''message''" | "keyword_as_str KConnection = ''connection''"
| "keyword_as_str KConnect = ''connect''" | "keyword_as_str KFrom = ''from''"
| "keyword_as_str KTo = ''to''" | "keyword_as_str KBy = ''by''"
| "keyword_as_str KAttribute = ''attribute''" | "keyword_as_str KId = ''id''"
| "keyword_as_str KText = ''text''" | "keyword_as_str KDoc = ''doc''"
| "keyword_as_str KIn = ''in''" | "keyword_as_str KOut = ''out''"
| "keyword_as_str KInout = ''inout''"

fun symbol_as_str :: "Symbol \<Rightarrow> string" where
  "symbol_as_str SColonEq = '':=''" | "symbol_as_str SColonGt = '':>''"
| "symbol_as_str SDoubleColon = ''::''" | "symbol_as_str SArrow = ''->''"
| "symbol_as_str STildeGt = ''~>''" | "symbol_as_str SEqEq = ''==''"
| "symbol_as_str SNotEq = ''!=''" | "symbol_as_str SLtEq = ''<=''"
| "symbol_as_str SGtEq = ''>=''" | "symbol_as_str SAmpAmp = ''&&''"
| "symbol_as_str SPipePipe = ''||''" | "symbol_as_str SEq = ''=''"
| "symbol_as_str SLt = ''<''" | "symbol_as_str SGt = ''>''"
| "symbol_as_str SPlus = ''+''" | "symbol_as_str SMinus = ''-''"
| "symbol_as_str SStar = ''*''" | "symbol_as_str SSlash = ''/''"
| "symbol_as_str SPercent = ''%''" | "symbol_as_str SCaret = ''^''"
| "symbol_as_str STilde = ''~''" | "symbol_as_str SExclamation = ''!''"
| "symbol_as_str SColon = '':''" | "symbol_as_str SSemi = '';''"
| "symbol_as_str SComma = '',''" | "symbol_as_str SDot = ''.''"
| "symbol_as_str SOpenBrace = ''{''" | "symbol_as_str SCloseBrace = ''}''"
| "symbol_as_str SOpenParen = ''(''" | "symbol_as_str SCloseParen = '')''"
| "symbol_as_str SOpenBracket = ''[''" | "symbol_as_str SCloseBracket = '']''"

definition kind_as_str :: "TokenKind \<Rightarrow> string" where
  "kind_as_str k = (case k of Kw kw \<Rightarrow> keyword_as_str kw | Sym s \<Rightarrow> symbol_as_str s | Eof \<Rightarrow> ''<EOF>'' | _ \<Rightarrow> ''<dynamic>'')"

text \<open>The look-up table has every keyword but the compound \<^verbatim>\<open>use case\<close>.\<close>

definition KEYWORD_KINDS :: "Keyword list" where
  "KEYWORD_KINDS =
     [KPackage, KImport, KPart, KDef, KPort, KItem, KFlow, KInterface, KSubsystem, KSubject, KActor,
      KAction, KOperation, KState, KTransition, KEntry, KDo, KExit, KPerform, KStep, KTrigger,
      KRequirement, KConstraint, KAssert, KAssume, KRequire, KVerify, KSatisfy, KCalc, KTest, KCase,
      KHazard, KRisk, KInclude, KExtend, KPrecondition, KPostcondition, KObjective, KCapability,
      KInteraction, KLifeline, KMessage, KConnection, KConnect, KFrom, KTo, KBy, KAttribute, KId, KText,
      KDoc, KIn, KOut, KInout]"

definition SYMBOL_KINDS :: "Symbol list" where
  "SYMBOL_KINDS =
     [SColonEq, SColonGt, SDoubleColon, SArrow, STildeGt, SEqEq, SNotEq, SLtEq, SGtEq, SAmpAmp, SPipePipe,
      SEq, SLt, SGt, SPlus, SMinus, SStar, SSlash, SPercent, SCaret, STilde, SExclamation, SColon, SSemi,
      SComma, SDot, SOpenBrace, SCloseBrace, SOpenParen, SCloseParen, SOpenBracket, SCloseBracket]"

definition from_keyword_or_ident :: "string \<Rightarrow> TokenKind" where
  "from_keyword_or_ident s =
     (if s = ''true'' then BoolLit True
      else if s = ''false'' then BoolLit False
      else case find (\<lambda>k. keyword_as_str k = s) KEYWORD_KINDS of Some k \<Rightarrow> Kw k | None \<Rightarrow> Ident s)"

definition from_symbol :: "string \<Rightarrow> TokenKind option" where
  "from_symbol s = map_option Sym (find (\<lambda>k. symbol_as_str k = s) SYMBOL_KINDS)"

section \<open>Documentation comments and numbers\<close>

definition doc_comment_from_raw :: "string \<Rightarrow> TokenKind" where
  "doc_comment_from_raw raw =
     (let cleaned = trim raw; mark = (\<lambda>c. is_whitespace c \<or> c = CHR '':'') in
      DocComment
        (case strip_prefix cleaned ''doc'' of
           Some after \<Rightarrow> (if after = [] \<or> mark (hd after) then trim (dropWhile mark after) else cleaned)
         | None \<Rightarrow> cleaned))"

text \<open>\<^verbatim>\<open>str::parse::<f64>\<close>, \<^verbatim>\<open>fract() == 0.0\<close>, \<^verbatim>\<open>to_string()\<close> and the format \<^verbatim>\<open>{:.1}\<close> of the standard library.\<close>

record F64Text =
  f64_parse :: "string \<Rightarrow> f64 option"
  f64_whole :: "f64 \<Rightarrow> bool"
  f64_display :: "f64 \<Rightarrow> string"
  f64_display1 :: "f64 \<Rightarrow> string"

definition real_text :: "F64Text \<Rightarrow> f64 \<Rightarrow> string" where
  "real_text F f = (if f64_whole F f then f64_display1 F f else f64_display F f)"

text \<open>What the scanner refuses, with line and column.\<close>

datatype ScanError =
    UnclosedBlockComment nat nat
  | UnterminatedEscape string nat nat
  | UnclosedLiteral string nat nat
  | UnexpectedCharacter char nat nat
  | InvalidFloat string nat nat
  | InvalidInteger string nat nat

definition parse_number_lexeme :: "F64Text \<Rightarrow> string \<Rightarrow> nat \<Rightarrow> nat \<Rightarrow> ScanError + TokenKind" where
  "parse_number_lexeme F num_str line col =
     (if list_ex (\<lambda>c. c \<in> set ''.eE'') num_str then
        (case f64_parse F num_str of Some f \<Rightarrow> Inr (RealLit f) | None \<Rightarrow> Inl (InvalidFloat num_str line col))
      else (case parse_signed 64 num_str of Some i \<Rightarrow> Inr (IntLit i) | None \<Rightarrow> Inl (InvalidInteger num_str line col)))"

section \<open>Backends\<close>

definition resolve_polyglot_backend :: "string \<Rightarrow> string option" where
  "resolve_polyglot_backend extension =
     (let e = map to_ascii_lower (dropWhile (\<lambda>c. c = CHR ''.'') extension) in
      if e \<in> set [''sysml'', ''kerml''] then Some ''logos+rowan::sysml_cst''
      else if e = ''idl'' then Some ''logos+rowan::idl_cst''
      else if e = ''yang'' then Some ''logos+rowan::yang_cst''
      else if e \<in> set [''md'', ''markdown''] then Some ''pulldown-cmark::markdown_cst''
      else if e \<in> set [''yaml'', ''yml'', ''json''] then Some ''serde_yaml+serde_json::openapi_ast''
      else if e = ''rs'' then Some ''ra_ap_syntax::rust_cst''
      else if e = ''dart'' then Some ''logos+rowan::dart_cst''
      else None)"

section \<open>Spellings determine kinds\<close>

lemma keyword_table: "k \<noteq> KUseCase \<Longrightarrow> k \<in> set KEYWORD_KINDS"
  by (cases k) (simp_all add: KEYWORD_KINDS_def)

lemma symbol_table: "s \<in> set SYMBOL_KINDS"
  by (cases s) (simp_all add: SYMBOL_KINDS_def)

lemma from_symbol_as_str: "from_symbol (symbol_as_str s) = Some (Sym s)"
  by (cases s) (simp_all add: from_symbol_def SYMBOL_KINDS_def)

lemma from_keyword_as_str: "k \<noteq> KUseCase \<Longrightarrow> from_keyword_or_ident (keyword_as_str k) = Kw k"
  by (cases k) (simp_all add: from_keyword_or_ident_def KEYWORD_KINDS_def)

lemma from_symbol_Some: "from_symbol s = Some k \<longleftrightarrow> (\<exists>y. k = Sym y \<and> s = symbol_as_str y)"
proof
  assume "from_symbol s = Some k"
  then obtain y where "find (\<lambda>k. symbol_as_str k = s) SYMBOL_KINDS = Some y" "k = Sym y"
    by (auto simp: from_symbol_def)
  then show "\<exists>y. k = Sym y \<and> s = symbol_as_str y" by (auto simp: find_Some_iff)
qed (auto simp: from_symbol_as_str)

lemma from_keyword_or_ident_str:
  "from_keyword_or_ident s = Kw k \<Longrightarrow> s = keyword_as_str k"
  "from_keyword_or_ident s = Ident t \<Longrightarrow> s = t"
  by (auto simp: from_keyword_or_ident_def find_Some_iff split: if_splits option.splits)

end
