(* ===== verification/Cst_Scanner.thy ===== *)
theory Cst_Scanner
  imports Cst_Tokens Sysml_Scan
begin

text \<open>
  The scanner of the compiler's front end, \<^verbatim>\<open>compile-sysml/src/salsa_db/cst_scanner.rs\<close>. It walks over
  the source and over the tokens the SysML lexer made of it: a lexer token that starts at the cursor is
  mapped directly where the two token sets agree, every other spelling is scanned by hand. The state
  holds the source from the cursor on and the lexer tokens from the index on; a slice of the source
  that ends at the cursor is what was consumed since.
\<close>

section \<open>State\<close>

record Scanner =
  scn_rest :: string
  scn_tokens :: "LexedSysmlToken list"
  scn_cursor :: nat
  scn_line :: nat
  scn_col :: nat

definition scanner_new :: "(string \<Rightarrow> nat) \<Rightarrow> string \<Rightarrow> Scanner" where
  "scanner_new err source =
     \<lparr>scn_rest = source, scn_tokens = tokenize_sysml err source, scn_cursor = 0, scn_line = 1, scn_col = 1\<rparr>"

text \<open>The character at the cursor, the NUL character at the end, as \<^verbatim>\<open>peek\<close> has it.\<close>

definition NUL :: char where
  "NUL = CHR 0x00"

definition scn_peek :: "Scanner \<Rightarrow> char" where
  "scn_peek sc = (case scn_rest sc of c # _ \<Rightarrow> c | [] \<Rightarrow> NUL)"

definition scn_advance :: "Scanner \<Rightarrow> char \<times> Scanner" where
  "scn_advance sc =
     (case scn_rest sc of
        [] \<Rightarrow> (NUL, sc)
      | c # cs \<Rightarrow> (c, sc\<lparr>scn_rest := cs, scn_cursor := scn_cursor sc + 1, scn_col := scn_col sc + 1\<rparr>))"

definition scn_advance_char :: "Scanner \<Rightarrow> char \<times> Scanner" where
  "scn_advance_char sc =
     (let (ch, sc) = scn_advance sc in
      (ch, if ch = LF then sc\<lparr>scn_line := scn_line sc + 1, scn_col := 1\<rparr> else sc))"

text \<open>\<^verbatim>\<open>advance_slice\<close> advances once per character of the slice.\<close>

fun scn_advance_slice :: "'a list \<Rightarrow> Scanner \<Rightarrow> Scanner" where
  "scn_advance_slice [] sc = sc"
| "scn_advance_slice (c # cs) sc = scn_advance_slice cs (snd (scn_advance_char sc))"

text \<open>The two loops that advance while the character at the cursor has a property.\<close>

fun advance_run :: "nat \<Rightarrow> Scanner \<Rightarrow> Scanner" where
  "advance_run 0 sc = sc"
| "advance_run (Suc n) sc = advance_run n (snd (scn_advance sc))"

definition advance_while :: "(char \<Rightarrow> bool) \<Rightarrow> Scanner \<Rightarrow> Scanner" where
  "advance_while P sc = advance_run (length (takeWhile P (scn_rest sc))) sc"

definition advance_chars_while :: "(char \<Rightarrow> bool) \<Rightarrow> Scanner \<Rightarrow> Scanner" where
  "advance_chars_while P sc = scn_advance_slice (takeWhile P (scn_rest sc)) sc"

text \<open>The source between the cursors of two states.\<close>

definition scanned_since :: "Scanner \<Rightarrow> Scanner \<Rightarrow> string" where
  "scanned_since old sc = take (scn_cursor sc - scn_cursor old) (scn_rest old)"

definition scanner_ident_start :: "char \<Rightarrow> bool" where
  "scanner_ident_start c \<longleftrightarrow> is_ascii_alphabetic c \<or> c = CHR ''_'' \<or> c = CHR ''@''"

definition is_ident_continue :: "char \<Rightarrow> bool" where
  "is_ident_continue c \<longleftrightarrow> is_ascii_alphanumeric c \<or> c = CHR ''_'' \<or> c = CHR ''-''"

definition new_token :: "TokenKind \<Rightarrow> Scanner \<Rightarrow> Scanner \<Rightarrow> Token" where
  "new_token kind old sc =
     \<lparr>tok_kind = kind, tok_span = new_span (scn_cursor old) (scn_cursor sc) (scn_line old) (scn_col old)\<rparr>"

section \<open>Lexer tokens\<close>

definition aligned_cst_token :: "Scanner \<Rightarrow> LexedSysmlToken option \<times> Scanner" where
  "aligned_cst_token sc =
     (let ts = dropWhile (\<lambda>t. snd (lexed_span t) \<le> scn_cursor sc) (scn_tokens sc) in
      (case ts of
         t # _ \<Rightarrow> (if fst (lexed_span t) = scn_cursor sc then Some t else None)
       | [] \<Rightarrow> None,
       sc\<lparr>scn_tokens := ts\<rparr>))"

text \<open>Consume the lexer token at the cursor.\<close>

definition take_cst_token :: "LexedSysmlToken \<Rightarrow> Scanner \<Rightarrow> Scanner" where
  "take_cst_token t sc =
     (let sc = scn_advance_slice (lexed_slice t) sc in sc\<lparr>scn_tokens := tl (scn_tokens sc)\<rparr>)"

definition inner_quoted :: "string \<Rightarrow> string" where
  "inner_quoted lexeme = butlast (tl lexeme)"

text \<open>
  \<open>Inr None\<close>: the token is left to the scanning by hand. The character after the token is the one
  after its text, since the token starts at the cursor.
\<close>

definition try_fast_cst_token :: "F64Text \<Rightarrow> LexedSysmlToken \<Rightarrow> Scanner \<Rightarrow> ScanError + (Token \<times> Scanner) option" where
  "try_fast_cst_token F t sc =
     (let lexeme = lexed_slice t;
          next_ch = (\<lambda>P. case drop (length lexeme) (scn_rest sc) of c # _ \<Rightarrow> P c | [] \<Rightarrow> False);
          symbol = (case from_symbol lexeme of
            Some k \<Rightarrow> (let sc' = take_cst_token t sc in Inr (Some (new_token k sc sc', sc'))) | None \<Rightarrow> Inr None);
          done = (\<lambda>kind. let sc' = take_cst_token t sc in Inr (Some (new_token kind sc sc', sc')))
      in if lexed_token t = CstStringLit \<and> BS \<notin> set lexeme then done (StringLit (inner_quoted lexeme))
         else if lexed_token t = UnrestrictedName \<and> BS \<notin> set lexeme then done (Ident (inner_quoted lexeme))
         else if lexed_token t = NumberLit \<and> \<not> next_ch (\<lambda>c. c = CHR ''e'' \<or> c = CHR ''E'') then
           (case parse_number_lexeme F lexeme (scn_line sc) (scn_col sc) of Inl e \<Rightarrow> Inl e | Inr k \<Rightarrow> done k)
         else if lexed_token t \<in> set [DefKw, PackageKw, NamespaceKw, DocMetaKw, StructuralKw, BehavioralKw,
             ReqCalcVerificationKw, KermlModifierKw, CstIdent]
             \<and> lexeme \<noteq> ''doc'' \<and> lexeme \<noteq> ''use'' \<and> \<not> next_ch is_ident_continue then
           done (from_keyword_or_ident lexeme)
         else if lexed_token t = CstTilde \<and> next_ch (\<lambda>c. c = CHR ''>'') then Inr None
         else if lexed_token t = Operator \<and> lexeme = ''-'' \<and> next_ch is_ascii_digit then Inr None
         else symbol)"

section \<open>Scanning by hand\<close>

text \<open>The loop over a comment that may nest: the depth and the cursor at the last closing mark.\<close>

lemma rest_advance [simp]:
  "scn_rest (snd (scn_advance sc)) = tl (scn_rest sc)"
  "scn_rest (snd (scn_advance_char sc)) = tl (scn_rest sc)"
  by (auto simp: scn_advance_char_def scn_advance_def Let_def case_prod_unfold split: list.splits)

lemma rest_advance_slice [simp]: "scn_rest (scn_advance_slice xs sc) = drop (length xs) (scn_rest sc)"
  by (induction xs sc rule: scn_advance_slice.induct) (simp_all add: drop_Suc)

lemma rest_advance_run: "scn_rest (advance_run n sc) = drop n (scn_rest sc)"
  by (induction n sc rule: advance_run.induct) (simp_all add: drop_Suc)

lemma rest_advance_while [simp]: "scn_rest (advance_while P sc) = dropWhile P (scn_rest sc)"
  by (simp add: advance_while_def rest_advance_run dropWhile_eq_drop)

function scan_comment :: "nat \<Rightarrow> nat \<Rightarrow> Scanner \<Rightarrow> nat \<times> nat \<times> Scanner" where
  "scan_comment depth content_end sc =
     (if scn_rest sc = [] \<or> depth = 0 then (depth, content_end, sc)
      else if starts_with (scn_rest sc) ''/*'' then
        scan_comment (depth + 1) content_end (scn_advance_slice ''/*'' sc)
      else if starts_with (scn_rest sc) ''*/'' then
        scan_comment (depth - 1) (if depth = 1 then scn_cursor sc else content_end) (scn_advance_slice ''*/'' sc)
      else scan_comment depth content_end (snd (scn_advance_char sc)))"
  by pat_completeness auto
termination
  by (relation "measure (\<lambda>(depth, content_end, sc). length (scn_rest sc))") (auto simp: Suc_diff_le)

declare scan_comment.simps [simp del]

definition scan_block_comment :: "Scanner \<Rightarrow> Scanner \<Rightarrow> ScanError + Token \<times> Scanner" where
  "scan_block_comment old sc =
     (let (aligned, sc) = aligned_cst_token sc;
          direct = (case aligned of
            Some t \<Rightarrow>
              (let inner = take (length (lexed_slice t) - 4) (drop 2 (lexed_slice t)) in
               if lexed_token t = BlockComment \<and> \<not> contains_str inner ''/*''
               then (let sc' = take_cst_token t sc in Some (new_token (doc_comment_from_raw inner) old sc', sc'))
               else None)
          | None \<Rightarrow> None)
      in case direct of
           Some r \<Rightarrow> Inr r
         | None \<Rightarrow>
             (let inside = scn_advance_slice ''/*'' sc;
                  (depth, content_end, sc') = scan_comment 1 (scn_cursor inside) inside
              in if 0 < depth then Inl (UnclosedBlockComment (scn_line old) (scn_col old))
                 else Inr (new_token
                   (doc_comment_from_raw (take (content_end - scn_cursor inside) (scn_rest inside))) old sc', sc')))"

text \<open>The body of a quoted literal; a backslash takes the next character without counting lines.\<close>

definition unescape_char :: "char \<Rightarrow> char" where
  "unescape_char c =
     (if c = CHR ''n'' then LF else if c = CHR ''r'' then CR else if c = CHR ''t'' then CHR 0x09 else c)"

function scan_quoted :: "char \<Rightarrow> string \<Rightarrow> Scanner \<Rightarrow> (string \<times> Scanner) option" where
  "scan_quoted quote value sc =
     (if scn_rest sc = [] \<or> scn_peek sc = quote then Some (value, sc)
      else if scn_peek sc = BS then
        (let sc1 = snd (scn_advance sc) in
         if scn_rest sc1 = [] then None
         else let (c, sc2) = scn_advance sc1 in scan_quoted quote (value @ [unescape_char c]) sc2)
      else let (c, sc1) = scn_advance_char sc in scan_quoted quote (value @ [c]) sc1)"
  by pat_completeness auto
termination
  by (relation "measure (\<lambda>(quote, value, sc). length (scn_rest sc))")
    (auto simp: scn_advance_char_def scn_advance_def Let_def split: list.splits if_splits)

declare scan_quoted.simps [simp del]

definition scan_string :: "char \<Rightarrow> Scanner \<Rightarrow> ScanError + Token \<times> Scanner" where
  "scan_string quote old =
     (let desc = (if quote = SQ then ''unrestricted identifier'' else ''string literal'') in
      case scan_quoted quote [] (snd (scn_advance old)) of
        None \<Rightarrow> Inl (UnterminatedEscape desc (scn_line old) (scn_col old))
      | Some (value, sc) \<Rightarrow>
          if scn_rest sc = [] then Inl (UnclosedLiteral desc (scn_line old) (scn_col old))
          else let sc = snd (scn_advance sc)
            in Inr (new_token (if quote = SQ then Ident value else StringLit value) old sc, sc))"

definition scan_number :: "F64Text \<Rightarrow> Scanner \<Rightarrow> ScanError + Token \<times> Scanner" where
  "scan_number F old =
     (let sc = (if scn_peek old = CHR ''-'' then snd (scn_advance old) else old);
          sc = advance_while is_ascii_digit sc;
          sc = (if scn_peek sc = CHR ''.'' \<and> (case drop 1 (scn_rest sc) of c # _ \<Rightarrow> is_ascii_digit c | [] \<Rightarrow> False)
                then advance_while is_ascii_digit (snd (scn_advance sc)) else sc);
          sc = (if scn_peek sc = CHR ''e'' \<or> scn_peek sc = CHR ''E'' then
                  (let sc = snd (scn_advance sc);
                       sc = (if scn_peek sc = CHR ''+'' \<or> scn_peek sc = CHR ''-'' then snd (scn_advance sc) else sc)
                   in advance_while is_ascii_digit sc)
                else sc)
      in case parse_number_lexeme F (scanned_since old sc) (scn_line old) (scn_col old) of
           Inl e \<Rightarrow> Inl e | Inr kind \<Rightarrow> Inr (new_token kind old sc, sc))"

definition scan_ident_or_keyword :: "Scanner \<Rightarrow> ScanError + Token \<times> Scanner" where
  "scan_ident_or_keyword old =
     (let sc = advance_while is_ident_continue (snd (scn_advance old));
          word = scanned_since old sc;
          blank = advance_chars_while is_ascii_whitespace sc;
          second = advance_while is_ident_continue blank;
          plain = Inr (new_token (from_keyword_or_ident word) old sc, sc)
      in if word = ''doc'' \<and> starts_with (scn_rest blank) ''/*'' then scan_block_comment old blank
         else if word = ''use'' \<and> scanned_since blank second = ''case'' then
           Inr (new_token (Kw KUseCase) old second, second)
         else plain)"

definition scan_operator_or_punct :: "Scanner \<Rightarrow> ScanError + Token \<times> Scanner" where
  "scan_operator_or_punct old =
     (let two = take 2 (scn_rest old) in
      case (if length two = 2 then from_symbol two else None) of
        Some kind \<Rightarrow> (let sc = scn_advance_slice two old in Inr (new_token kind old sc, sc))
      | None \<Rightarrow>
          (let (ch, sc) = scn_advance old in
           case from_symbol (scanned_since old sc) of
             Some kind \<Rightarrow> Inr (new_token kind old sc, sc)
           | None \<Rightarrow> Inl (UnexpectedCharacter ch (scn_line old) (scn_col old))))"

section \<open>Trivia\<close>

text \<open>First the lexer tokens that are blank or line comments, then what is left by hand.\<close>

fun skip_cst_trivia :: "LexedSysmlToken list \<Rightarrow> Scanner \<Rightarrow> Scanner" where
  "skip_cst_trivia [] sc = sc\<lparr>scn_tokens := []\<rparr>"
| "skip_cst_trivia (t # ts) sc =
     (if snd (lexed_span t) \<le> scn_cursor sc then skip_cst_trivia ts sc
      else if fst (lexed_span t) = scn_cursor sc \<and> lexed_token t \<in> set [Whitespace, LineComment]
      then skip_cst_trivia ts (scn_advance_slice (lexed_slice t) sc)
      else sc\<lparr>scn_tokens := t # ts\<rparr>)"

function skip_plain_trivia :: "Scanner \<Rightarrow> Scanner" where
  "skip_plain_trivia sc =
     (if scn_rest sc = [] then sc
      else if is_ascii_whitespace (scn_peek sc) then skip_plain_trivia (snd (scn_advance_char sc))
      else if starts_with (scn_rest sc) ''//'' then
        skip_plain_trivia (advance_while (\<lambda>c. c \<noteq> LF) sc)
      else sc)"
  by pat_completeness auto

termination skip_plain_trivia
proof (relation "measure (\<lambda>sc. length (scn_rest sc))", goal_cases)
  case (3 sc)
  then obtain cs where "scn_rest sc = CHR ''/'' # cs" by (cases "scn_rest sc") auto
  then show ?case by (simp add: le_imp_less_Suc length_dropWhile_le)
qed auto

declare skip_plain_trivia.simps [simp del]

definition skip_whitespace_and_line_comments :: "Scanner \<Rightarrow> Scanner" where
  "skip_whitespace_and_line_comments sc = skip_plain_trivia (skip_cst_trivia (scn_tokens sc) sc)"

section \<open>The next token\<close>

definition scanner_next_token :: "F64Text \<Rightarrow> Scanner \<Rightarrow> ScanError + Token \<times> Scanner" where
  "scanner_next_token F sc0 =
     (let sc = skip_whitespace_and_line_comments sc0;
          slow = (\<lambda>sc.
            let ch = scn_peek sc in
            if ch = DQ \<or> ch = SQ then scan_string ch sc
            else if is_ascii_digit ch \<or> (ch = CHR ''-'' \<and>
                (case drop 1 (scn_rest sc) of c # _ \<Rightarrow> is_ascii_digit c | [] \<Rightarrow> False)) then scan_number F sc
            else if scanner_ident_start ch then scan_ident_or_keyword sc
            else scan_operator_or_punct sc)
      in if scn_rest sc = [] then Inr (new_token Eof sc sc, sc)
         else if starts_with (scn_rest sc) ''/*'' then scan_block_comment sc sc
         else case aligned_cst_token sc of
           (Some t, sc) \<Rightarrow>
             (case try_fast_cst_token F t sc of
                Inl e \<Rightarrow> Inl e | Inr (Some mapped) \<Rightarrow> Inr mapped | Inr None \<Rightarrow> slow sc)
         | (None, sc) \<Rightarrow> slow sc)"

text \<open>\<open>None\<close> is a scan that never ends.\<close>

partial_function (option) scan_tokens :: "F64Text \<Rightarrow> Scanner \<Rightarrow> (ScanError + Token list) option" where
  "scan_tokens F sc =
     (case scanner_next_token F sc of
        Inl e \<Rightarrow> Some (Inl e)
      | Inr (tok, sc') \<Rightarrow>
          if tok_kind tok = Eof then Some (Inr [tok])
          else Option.bind (scan_tokens F sc')
            (\<lambda>r. Some (case r of Inl e \<Rightarrow> Inl e | Inr toks \<Rightarrow> Inr (tok # toks))))"

declare scan_tokens.simps [code]

definition scan_all :: "(string \<Rightarrow> nat) \<Rightarrow> F64Text \<Rightarrow> string \<Rightarrow> (ScanError + Token list) option" where
  "scan_all err F source = scan_tokens F (scanner_new err source)"

end
