(* ===== verification/Hir_Cursor.thy ===== *)
theory Hir_Cursor
  imports Cst_Scanner
begin

text \<open>
  The token cursor of the compiler's parser, \<^verbatim>\<open>compile-sysml/src/salsa_db/hir_parser_cursor.rs\<close>,
  with the error type and the parser state of \<^verbatim>\<open>hir_parser_core.rs\<close>: the normalization of type
  sigils, the tokens of a source, and the operations every declaration parser is written in.

  The state holds the tokens from \<^verbatim>\<open>pos\<close> on and the last token of the slice, which \<^verbatim>\<open>peek\<close> falls
  back to. The field \<^verbatim>\<open>depth\<close> is an argument of the recursive parsers, what is left of
  \<^verbatim>\<open>MAX_PARSE_DEPTH\<close>, since each of them raises it on entry and lowers it again on every return. A
  parser returns \<^verbatim>\<open>Result\<close> and changes the cursor: \<open>Done\<close> with the value and the cursor after it,
  \<open>Fails\<close> with the error, and \<open>Diverges\<close> for a loop that goes round without consuming a token.
\<close>

section \<open>Errors\<close>

text \<open>One constructor per message, with what is formatted into it.\<close>

datatype ParseMessage =
    ScanFailed ScanError
  | ExpectedKind TokenKind TokenKind
  | ExpectedIdentifier TokenKind
  | ExpectedConstOrMut string
  | ExpectedArrayLength TokenKind
  | EmptyTypeArguments
  | ExpectedStringOrIdent TokenKind
  | ExpectedSemi TokenKind
  | ExpectedToKeyword TokenKind
  | MaxDepthExceeded
  | UnexpectedInBody string TokenKind
  | UnexpectedInContainer TokenKind
  | NoFilesProvided
  | UnreadableFile string string
  | NoFilesInDirectory string

record ParseError =
  pe_message :: ParseMessage
  pe_span :: Span

definition MAX_PARSE_DEPTH :: nat where
  "MAX_PARSE_DEPTH = 64"

section \<open>Type sigils\<close>

datatype SigilScanMode = CodeMode | LineCommentMode | BlockCommentMode nat | QuotedMode char

text \<open>
  Whether a single quote opens a quoted name: the loop over the characters after it, with whether it has
  passed the first of them.
\<close>

fun quote_closes :: "bool \<Rightarrow> string \<Rightarrow> bool" where
  "quote_closes started [] = False"
| "quote_closes started (ch # cs) =
     (if ch = LF \<or> ch = CR then False
      else if ch = BS then quote_closes True (tl cs)
      else if ch = SQ then
        started \<and> \<not> (case cs of d # _ \<Rightarrow> is_ascii_alphanumeric d \<or> d = CHR ''_'' | [] \<Rightarrow> False)
      else quote_closes True cs)"

definition is_closed_single_quoted_ident :: "char option \<Rightarrow> string \<Rightarrow> bool" where
  "is_closed_single_quoted_ident previous inner \<longleftrightarrow> previous \<noteq> Some (CHR ''&'') \<and> quote_closes False inner"

text \<open>One step in code: what is written, the mode after it and how many characters it takes.\<close>

definition step_sigil_code_mode :: "char option \<Rightarrow> char \<Rightarrow> string \<Rightarrow> string \<times> SigilScanMode \<times> nat" where
  "step_sigil_code_mode previous c cs =
     (if c = CHR ''/'' \<and> starts_with cs ''/'' then (''//'', LineCommentMode, 2)
      else if c = CHR ''/'' \<and> starts_with cs ''*'' then (''/*'', BlockCommentMode 1, 2)
      else if c = CHR ''&'' \<and> starts_with cs ''&'' then (''&&'', CodeMode, 2)
      else if c = DQ then ([DQ], QuotedMode DQ, 1)
      else if c = SQ \<and> is_closed_single_quoted_ident previous cs then ([SQ], QuotedMode SQ, 1)
      else if c = CHR ''&'' \<or> c = CHR ''?'' \<or> c = SQ then ('','', CodeMode, 1)
      else ([c], CodeMode, 1))"

definition step_sigil :: "SigilScanMode \<Rightarrow> char option \<Rightarrow> char \<Rightarrow> string \<Rightarrow> string \<times> SigilScanMode \<times> nat" where
  "step_sigil mode previous c cs =
     (case mode of
        LineCommentMode \<Rightarrow> ([c], if c = LF then CodeMode else mode, 1)
      | BlockCommentMode depth \<Rightarrow>
          if c = CHR ''/'' \<and> starts_with cs ''*'' then (''/*'', BlockCommentMode (depth + 1), 2)
          else if c = CHR ''*'' \<and> starts_with cs ''/'' then
            (''*/'', if depth - 1 = 0 then CodeMode else BlockCommentMode (depth - 1), 2)
          else ([c], mode, 1)
      | QuotedMode quote \<Rightarrow>
          if c = BS then (case cs of d # _ \<Rightarrow> ([c, d], mode, 2) | [] \<Rightarrow> ([c], mode, 1))
          else ([c], if c = quote \<or> (quote = SQ \<and> c = LF) then CodeMode else mode, 1)
      | CodeMode \<Rightarrow> step_sigil_code_mode previous c cs)"

function sigil_steps :: "SigilScanMode \<Rightarrow> char option \<Rightarrow> string \<Rightarrow> string" where
  "sigil_steps mode previous [] = []"
| "sigil_steps mode previous (c # cs) =
     (let (out, mode', n) = step_sigil mode previous c cs; used = take n (c # cs) in
      out @ sigil_steps mode' (Some (last used)) (drop (n - 1) cs))"
  by pat_completeness auto
termination
  by (relation "measure (\<lambda>(mode, previous, s). length s)") auto

definition normalize_type_sigils :: "string \<Rightarrow> string" where
  "normalize_type_sigils source =
     (if CHR ''&'' \<in> set source \<or> CHR ''?'' \<in> set source \<or> SQ \<in> set source
      then sigil_steps CodeMode None source else source)"

definition sigil_token :: "string \<Rightarrow> Token \<Rightarrow> Token" where
  "sigil_token source tok =
     (let at = drop (span_start (tok_span tok)) source in
      if tok_kind tok = Sym SComma \<and> span_end (tok_span tok) - span_start (tok_span tok) = 1
         \<and> at \<noteq> [] \<and> hd at \<in> set [CHR ''&'', CHR ''?'', SQ]
      then tok\<lparr>tok_kind := Ident [hd at]\<rparr> else tok)"

definition tokenize_source :: "(string \<Rightarrow> nat) \<Rightarrow> F64Text \<Rightarrow> string \<Rightarrow> (ParseError + Token list) option" where
  "tokenize_source err F source =
     map_option (\<lambda>r. case r of
         Inl e \<Rightarrow> Inl \<lparr>pe_message = ScanFailed e, pe_span = default_span\<rparr>
       | Inr toks \<Rightarrow> Inr (map (sigil_token source) toks))
       (scan_all err F (normalize_type_sigils source))"

section \<open>The cursor\<close>

record SysmlParser =
  ahead :: "Token list"
  final_token :: Token

definition GRAMMAR_EOF_TOKEN :: Token where
  "GRAMMAR_EOF_TOKEN = \<lparr>tok_kind = Eof, tok_span = default_span\<rparr>"

definition parser_new :: "Token list \<Rightarrow> SysmlParser" where
  "parser_new tokens =
     \<lparr>ahead = tokens, final_token = (if tokens = [] then GRAMMAR_EOF_TOKEN else last tokens)\<rparr>"

datatype 'a outcome = Done 'a SysmlParser | Fails ParseError | Diverges

text \<open>The operator \<^verbatim>\<open>?\<close>.\<close>

fun and_then :: "'a outcome \<Rightarrow> ('a \<Rightarrow> SysmlParser \<Rightarrow> 'b outcome) \<Rightarrow> 'b outcome" where
  "and_then (Done a p) f = f a p"
| "and_then (Fails e) f = Fails e"
| "and_then Diverges f = Diverges"

definition peek_tok :: "SysmlParser \<Rightarrow> Token" where
  "peek_tok p = (case ahead p of t # _ \<Rightarrow> t | [] \<Rightarrow> final_token p)"

definition peek_kind :: "SysmlParser \<Rightarrow> TokenKind" where
  "peek_kind p = (case ahead p of t # _ \<Rightarrow> tok_kind t | [] \<Rightarrow> Eof)"

text \<open>The kind of the token after the next one.\<close>

definition second_kind :: "SysmlParser \<Rightarrow> TokenKind option" where
  "second_kind p = (case ahead p of _ # t # _ \<Rightarrow> Some (tok_kind t) | _ \<Rightarrow> None)"

text \<open>\<^verbatim>\<open>advance\<close> returns the token at the cursor, which is \<open>peek_tok\<close>, and moves past it.\<close>

definition advance :: "SysmlParser \<Rightarrow> SysmlParser" where
  "advance p = p\<lparr>ahead := tl (ahead p)\<rparr>"

definition advance_past :: "(TokenKind \<Rightarrow> bool) \<Rightarrow> SysmlParser \<Rightarrow> SysmlParser" where
  "advance_past P p = p\<lparr>ahead := dropWhile (\<lambda>t. P (tok_kind t)) (ahead p)\<rparr>"

definition is_at_end :: "SysmlParser \<Rightarrow> bool" where
  "is_at_end p \<longleftrightarrow> peek_kind p = Eof"

text \<open>The discriminant of a kind: the kind with its payload forgotten.\<close>

fun discriminant :: "TokenKind \<Rightarrow> TokenKind" where
  "discriminant (Ident _) = Ident []"
| "discriminant (StringLit _) = StringLit []"
| "discriminant (IntLit _) = IntLit 0"
| "discriminant (RealLit _) = RealLit 0"
| "discriminant (BoolLit _) = BoolLit False"
| "discriminant (DocComment _) = DocComment []"
| "discriminant (LineCommentTok _) = LineCommentTok []"
| "discriminant (Kw k) = Kw k"
| "discriminant (Sym s) = Sym s"
| "discriminant Eof = Eof"

definition check :: "TokenKind \<Rightarrow> SysmlParser \<Rightarrow> bool" where
  "check kind p \<longleftrightarrow> \<not> is_at_end p \<and> discriminant (peek_kind p) = discriminant kind"

text \<open>\<^verbatim>\<open>eat\<close> as the cursor after it; whether it ate is \<open>check\<close>.\<close>

definition eat :: "TokenKind \<Rightarrow> SysmlParser \<Rightarrow> SysmlParser" where
  "eat kind p = (if check kind p then advance p else p)"

definition at_stmt_end :: "SysmlParser \<Rightarrow> bool" where
  "at_stmt_end p \<longleftrightarrow> check (Sym SSemi) p \<or> check (Sym SCloseBrace) p \<or> is_at_end p"

definition error_at :: "ParseMessage \<Rightarrow> SysmlParser \<Rightarrow> 'a outcome" where
  "error_at msg p = Fails \<lparr>pe_message = msg, pe_span = tok_span (peek_tok p)\<rparr>"

definition expect :: "TokenKind \<Rightarrow> SysmlParser \<Rightarrow> unit outcome" where
  "expect expected p =
     (if check expected p then Done () (advance p) else error_at (ExpectedKind expected (peek_kind p)) p)"

definition expect_semi :: "SysmlParser \<Rightarrow> unit outcome" where
  "expect_semi p =
     (if check (Sym SSemi) p then Done () (advance p) else error_at (ExpectedSemi (peek_kind p)) p)"

text \<open>A loop with its condition; its body says whether it goes on or breaks.\<close>

function loop_while ::
  "(SysmlParser \<Rightarrow> bool) \<Rightarrow> ('s \<Rightarrow> SysmlParser \<Rightarrow> ('s \<times> bool) outcome) \<Rightarrow> 's \<Rightarrow> SysmlParser \<Rightarrow> 's outcome" where
  "loop_while cond body s p =
     (if \<not> cond p then Done s p
      else case body s p of
        Done (s', go_on) p' \<Rightarrow>
          if \<not> go_on then Done s' p'
          else if length (ahead p') < length (ahead p) then loop_while cond body s' p'
          else Diverges
      | Fails e \<Rightarrow> Fails e
      | Diverges \<Rightarrow> Diverges)"
  by pat_completeness auto
termination
  by (relation "measure (\<lambda>(cond, body, s, p). length (ahead p))") auto

declare loop_while.simps [simp del]

text \<open>\<^verbatim>\<open>while !self.check(close) && !self.is_at_end()\<close>.\<close>

definition loop_until ::
  "TokenKind \<Rightarrow> ('s \<Rightarrow> SysmlParser \<Rightarrow> ('s \<times> bool) outcome) \<Rightarrow> 's \<Rightarrow> SysmlParser \<Rightarrow> 's outcome" where
  "loop_until close = loop_while (\<lambda>p. \<not> check close p \<and> \<not> is_at_end p)"

abbreviation next_round :: "'s \<Rightarrow> SysmlParser \<Rightarrow> ('s \<times> bool) outcome" where
  "next_round s \<equiv> Done (s, True)"

abbreviation break_loop :: "'s \<Rightarrow> SysmlParser \<Rightarrow> ('s \<times> bool) outcome" where
  "break_loop s \<equiv> Done (s, False)"

section \<open>Comments\<close>

definition skip_trivia :: "SysmlParser \<Rightarrow> SysmlParser" where
  "skip_trivia p = advance_past (\<lambda>k. case k of LineCommentTok _ \<Rightarrow> True | Sym SSemi \<Rightarrow> True | _ \<Rightarrow> False) p"

definition take_doc_comment :: "SysmlParser \<Rightarrow> string option \<times> SysmlParser" where
  "take_doc_comment p = (case peek_kind p of DocComment s \<Rightarrow> (Some s, advance p) | _ \<Rightarrow> (None, p))"

text \<open>The value of \<^verbatim>\<open>doc = "..."\<close> once the keyword is read.\<close>

definition doc_property :: "SysmlParser \<Rightarrow> string \<times> SysmlParser" where
  "doc_property p0 =
     (let p1 = skip_trivia p0;
          p = (if check (Sym SEq) p1 \<or> check (Sym SColon) p1 then skip_trivia (advance p1) else p1)
      in case peek_kind p of
           DocComment s \<Rightarrow> (s, advance p)
         | StringLit s \<Rightarrow> (s, advance p)
         | Ident s \<Rightarrow> (s, advance p)
         | _ \<Rightarrow> ([], p))"

definition past_doc :: "SysmlParser \<Rightarrow> SysmlParser" where
  "past_doc p = eat (Sym SSemi) (advance_past (\<lambda>k. case k of LineCommentTok _ \<Rightarrow> True | _ \<Rightarrow> False) p)"

definition take_inner_doc_comment :: "SysmlParser \<Rightarrow> string option \<times> SysmlParser" where
  "take_inner_doc_comment p =
     (case take_doc_comment p of
        (Some d, p1) \<Rightarrow> (Some d, past_doc p1)
      | (None, _) \<Rightarrow>
          if check (Kw KDoc) p then (let (d, p1) = doc_property (advance p) in (Some d, past_doc p1))
          else (None, p))"

lemma length_advance [simp]: "length (ahead (advance p)) = length (ahead p) - 1"
  by (simp add: advance_def)

lemma length_advance_past: "length (ahead (advance_past P p)) \<le> length (ahead p)"
  by (simp add: advance_past_def length_dropWhile_le)

lemma length_skip_trivia: "length (ahead (skip_trivia p)) \<le> length (ahead p)"
  by (simp add: skip_trivia_def length_advance_past)

lemma length_eat: "length (ahead (eat k p)) \<le> length (ahead p)"
  by (simp add: eat_def)

lemma check_nonempty: "check k p \<Longrightarrow> ahead p \<noteq> []"
  by (auto simp: check_def is_at_end_def peek_kind_def)

lemma length_take_doc_comment:
  "length (ahead (snd (take_doc_comment p))) \<le> length (ahead p)"
  "fst (take_doc_comment p) \<noteq> None \<Longrightarrow> length (ahead (snd (take_doc_comment p))) < length (ahead p)"
  by (auto simp: take_doc_comment_def peek_kind_def split: TokenKind.splits list.splits)

lemma length_past_doc: "length (ahead (past_doc p)) \<le> length (ahead p)"
  unfolding past_doc_def by (meson length_advance_past length_eat order_trans)

lemma length_doc_property: "length (ahead (snd (doc_property p))) \<le> length (ahead p)"
proof -
  define q where "q = (let p1 = skip_trivia p in
    if check (Sym SEq) p1 \<or> check (Sym SColon) p1 then skip_trivia (advance p1) else p1)"
  have "length (ahead q) \<le> length (ahead p)"
    using length_skip_trivia [of p] length_skip_trivia [of "advance (skip_trivia p)"] by (auto simp: q_def Let_def)
  moreover have "snd (doc_property p) = q \<or> snd (doc_property p) = advance q"
    unfolding doc_property_def q_def Let_def by (cases "peek_kind q"; simp add: q_def Let_def)
  ultimately show ?thesis by (auto intro: le_trans [OF diff_le_self])
qed

lemma take_inner_doc_comment_shape:
  "fst (take_inner_doc_comment p) = None \<and> snd (take_inner_doc_comment p) = p \<or>
   fst (take_inner_doc_comment p) \<noteq> None \<and> length (ahead (snd (take_inner_doc_comment p))) < length (ahead p)"
proof (cases "fst (take_doc_comment p)")
  case (Some d)
  then have "length (ahead (snd (take_doc_comment p))) < length (ahead p)" by (simp add: length_take_doc_comment)
  with Some show ?thesis using length_past_doc [of "snd (take_doc_comment p)"]
    by (auto simp: take_inner_doc_comment_def split: prod.splits)
next
  case None
  show ?thesis
  proof (cases "check (Kw KDoc) p")
    case True
    let ?q = "snd (doc_property (advance p))"
    have "length (ahead (past_doc ?q)) \<le> length (ahead (advance p))"
      using length_past_doc length_doc_property le_trans by blast
    then have "length (ahead (past_doc ?q)) < length (ahead p)"
      using check_nonempty [OF True] by (cases "ahead p") auto
    then show ?thesis using None True
      by (auto simp: take_inner_doc_comment_def split: prod.splits)
  qed (use None in \<open>auto simp: take_inner_doc_comment_def split: prod.splits\<close>)
qed

lemma take_inner_doc_comment_Some:
  "take_inner_doc_comment p = (Some d, q) \<Longrightarrow> length (ahead q) < length (ahead p)"
  using take_inner_doc_comment_shape [of p] by simp

text \<open>\<^verbatim>\<open>while let Some(d) = self.take_inner_doc_comment() { ...; self.skip_trivia(); }\<close>.\<close>

function drain_docs :: "(string \<Rightarrow> 's \<Rightarrow> 's) \<Rightarrow> 's \<Rightarrow> SysmlParser \<Rightarrow> 's \<times> SysmlParser" where
  "drain_docs f s p =
     (case take_inner_doc_comment p of
        (Some d, p1) \<Rightarrow> drain_docs f (f d s) (skip_trivia p1)
      | (None, _) \<Rightarrow> (s, p))"
  by pat_completeness auto
termination
  by (relation "measure (\<lambda>(f, s, p). length (ahead p))")
    (auto intro: le_less_trans [OF length_skip_trivia] dest: take_inner_doc_comment_Some sym)

declare drain_docs.simps [simp del]

definition first_doc :: "string \<Rightarrow> string option \<Rightarrow> string option" where
  "first_doc d slot = (case slot of None \<Rightarrow> Some d | Some _ \<Rightarrow> slot)"

text \<open>\<^verbatim>\<open>drain_first_inner_doc\<close>.\<close>

definition drain_first_inner_doc :: "string option \<Rightarrow> SysmlParser \<Rightarrow> string option \<times> SysmlParser" where
  "drain_first_inner_doc slot p = drain_docs first_doc slot (skip_trivia p)"

section \<open>Identifiers and statements\<close>

definition is_contextual_identifier_keyword :: "TokenKind \<Rightarrow> bool" where
  "is_contextual_identifier_keyword kind \<longleftrightarrow>
     kind \<noteq> Kw KImport \<and> kind_as_str kind \<noteq> [] \<and> list_all is_ascii_lowercase (kind_as_str kind)"

definition span_len :: "Token \<Rightarrow> nat" where
  "span_len t = span_end (tok_span t) - span_start (tok_span t)"

definition parse_identifier :: "SysmlParser \<Rightarrow> string outcome" where
  "parse_identifier p =
     (let tok = peek_tok p; refuse = error_at (ExpectedIdentifier (tok_kind tok)) p in
      case tok_kind tok of
        Ident s \<Rightarrow>
          if (s = ''&'' \<or> s = ''?'' \<or> s = [SQ]) \<and> span_len tok = 1 then refuse else Done s (advance p)
      | kind \<Rightarrow>
          if is_contextual_identifier_keyword kind then Done (kind_as_str kind) (advance p) else refuse)"

definition expect_ident :: "SysmlParser \<Rightarrow> string outcome" where
  "expect_ident p = parse_identifier p"

text \<open>The text of a token in a statement.\<close>

definition piece_text :: "F64Text \<Rightarrow> TokenKind \<Rightarrow> string" where
  "piece_text F kind =
     (case kind of
        Ident s \<Rightarrow> s
      | StringLit s \<Rightarrow> [DQ] @ s @ [DQ]
      | IntLit n \<Rightarrow> int_text n
      | RealLit f \<Rightarrow> real_text F f
      | BoolLit b \<Rightarrow> (if b then ''true'' else ''false'')
      | _ \<Rightarrow> kind_as_str kind)"

definition ends_stmt :: "TokenKind \<Rightarrow> bool" where
  "ends_stmt k \<longleftrightarrow> k = Sym SSemi \<or> k = Sym SCloseBrace \<or> k = Eof"

definition stmt_tokens :: "SysmlParser \<Rightarrow> Token list" where
  "stmt_tokens p = takeWhile (\<lambda>t. \<not> ends_stmt (tok_kind t)) (ahead p)"

definition past_stmt :: "SysmlParser \<Rightarrow> SysmlParser" where
  "past_stmt p = eat (Sym SSemi) (advance_past (\<lambda>k. \<not> ends_stmt k) p)"

definition read_until_semi :: "F64Text \<Rightarrow> SysmlParser \<Rightarrow> string \<times> SysmlParser" where
  "read_until_semi F p = (join '' '' (map (\<lambda>t. piece_text F (tok_kind t)) (stmt_tokens p)), past_stmt p)"

definition is_comment_kind :: "TokenKind \<Rightarrow> bool" where
  "is_comment_kind k \<longleftrightarrow> (case k of LineCommentTok _ \<Rightarrow> True | DocComment _ \<Rightarrow> True | _ \<Rightarrow> False)"

definition read_tokens_until_semi :: "SysmlParser \<Rightarrow> Token list \<times> SysmlParser" where
  "read_tokens_until_semi p = (filter (\<lambda>t. \<not> is_comment_kind (tok_kind t)) (stmt_tokens p), past_stmt p)"

end
