(* ===== verification/Hir_Core.thy ===== *)
theory Hir_Core
  imports Hir_Cursor
begin

text \<open>
  Type expressions and the small parsers shared by all declarations,
  \<^verbatim>\<open>compile-sysml/src/salsa_db/hir_parser_core.rs\<close>. A recursive parser is a function of what is left
  of \<^verbatim>\<open>MAX_PARSE_DEPTH\<close>: none left is the depth error. The parts of a type expression take the parser
  of the type expressions one level deeper as an argument.
\<close>

definition max_depth_error :: "SysmlParser \<Rightarrow> 'a outcome" where
  "max_depth_error p = error_at MaxDepthExceeded p"

definition peek_is_sigil :: "string \<Rightarrow> SysmlParser \<Rightarrow> bool" where
  "peek_is_sigil sigil p \<longleftrightarrow> tok_kind (peek_tok p) = Ident sigil \<and> span_len (peek_tok p) = 1"

section \<open>Type expressions\<close>

definition parse_comma_type_list ::
  "(SysmlParser \<Rightarrow> string outcome) \<Rightarrow> TokenKind \<Rightarrow> SysmlParser \<Rightarrow> string list outcome" where
  "parse_comma_type_list type_expr close p =
     and_then (loop_until close
       (\<lambda>items p. and_then (type_expr p) (\<lambda>t p.
          if check (Sym SComma) p then next_round (items @ [t]) (advance p) else break_loop (items @ [t]) p)) [] p)
     (\<lambda>items p. and_then (expect close p) (\<lambda>_ p. Done items p))"

definition parse_ref_type_expr :: "(SysmlParser \<Rightarrow> string outcome) \<Rightarrow> SysmlParser \<Rightarrow> string outcome" where
  "parse_ref_type_expr type_expr p0 =
     (let amp = (if check (Sym SAmpAmp) p0 then ''&&'' else ''&''); p = advance p0;
          lifetime = (if peek_is_sigil [SQ] p
            then and_then (parse_identifier (advance p)) (\<lambda>l p. Done ([SQ] @ l @ '' '') p) else Done [] p)
      in and_then lifetime (\<lambda>life p.
           (let (qualifier, p) = (case peek_kind p of
                Ident s \<Rightarrow> (if s = ''mut'' \<or> s = ''const'' then (s @ '' '', advance p) else ([], p))
              | _ \<Rightarrow> ([], p))
            in and_then (type_expr p) (\<lambda>t p. Done (amp @ life @ qualifier @ t) p))))"

text \<open>The tail of a path: \<^verbatim>\<open>while self.eat(&DoubleColon)\<close> and its like.\<close>

definition path_tail :: "TokenKind \<Rightarrow> string \<Rightarrow> string \<Rightarrow> SysmlParser \<Rightarrow> string outcome" where
  "path_tail separator spelled out p =
     loop_while (check separator)
       (\<lambda>out p. and_then (expect_ident (advance p)) (\<lambda>s p. next_round (out @ spelled @ s) p)) out p"

definition parse_base_or_generic_type_expr :: "(SysmlParser \<Rightarrow> string outcome) \<Rightarrow> SysmlParser \<Rightarrow> string outcome" where
  "parse_base_or_generic_type_expr type_expr p =
     (let root = (if check (Sym SDoubleColon) p then ''::'' else []) in
      and_then (expect_ident (eat (Sym SDoubleColon) p)) (\<lambda>s p.
      and_then (path_tail (Sym SDoubleColon) ''::'' (root @ s) p) (\<lambda>out p.
        if check (Sym SLt) p then
          and_then (parse_comma_type_list type_expr (Sym SGt) (advance p)) (\<lambda>args p.
            if args = [] then error_at EmptyTypeArguments p
            else Done (out @ ''<'' @ join '', '' args @ ''>'') p)
        else Done out p)))"

definition suffix_piece :: "TokenKind \<Rightarrow> string" where
  "suffix_piece k = (case k of IntLit n \<Rightarrow> int_text n | Ident s \<Rightarrow> s | _ \<Rightarrow> kind_as_str k)"

definition ends_suffix :: "TokenKind \<Rightarrow> bool" where
  "ends_suffix k \<longleftrightarrow> k = Sym SCloseBracket \<or> ends_stmt k"

definition append_type_suffixes :: "string \<Rightarrow> SysmlParser \<Rightarrow> string outcome" where
  "append_type_suffixes out p =
     loop_while (\<lambda>_. True)
       (\<lambda>out p.
          if check (Sym SOpenBracket) p then
            (let p = advance p;
                 inner = takeWhile (\<lambda>t. \<not> ends_suffix (tok_kind t)) (ahead p)
             in and_then (expect (Sym SCloseBracket) (advance_past (\<lambda>k. \<not> ends_suffix k) p)) (\<lambda>_ p.
               next_round (out @ ''['' @ concat (map (\<lambda>t. suffix_piece (tok_kind t)) inner) @ '']'') p))
          else if peek_is_sigil ''?'' p then next_round (out @ ''?'') (advance p)
          else break_loop out p) out p"

definition parse_array_type_expr :: "(SysmlParser \<Rightarrow> string outcome) \<Rightarrow> SysmlParser \<Rightarrow> string outcome" where
  "parse_array_type_expr type_expr p =
     and_then (type_expr p) (\<lambda>elem_ty p.
       if check (Sym SSemi) p then
         (let p = advance p;
              close = (\<lambda>len_str p. and_then (expect (Sym SCloseBracket) p) (\<lambda>_ p.
                Done (''['' @ elem_ty @ ''; '' @ len_str @ '']'') p))
          in case tok_kind (peek_tok p) of
               IntLit n \<Rightarrow> close (int_text n) (advance p)
             | Ident s \<Rightarrow> close s (advance p)
             | other \<Rightarrow> error_at (ExpectedArrayLength other) p)
       else and_then (expect (Sym SCloseBracket) p) (\<lambda>_ p. Done (''['' @ elem_ty @ '']'') p))"

definition parse_type_expr_inner :: "(SysmlParser \<Rightarrow> string outcome) \<Rightarrow> SysmlParser \<Rightarrow> string outcome" where
  "parse_type_expr_inner type_expr p =
     (if check (Sym SStar) p then
        and_then (expect_ident (advance p)) (\<lambda>kw p.
          if kw \<noteq> ''const'' \<and> kw \<noteq> ''mut'' then error_at (ExpectedConstOrMut kw) p
          else and_then (type_expr p) (\<lambda>t p. Done (''*'' @ kw @ '' '' @ t) p))
      else if peek_is_sigil ''&'' p \<or> check (Sym SAmpAmp) p then parse_ref_type_expr type_expr p
      else if peek_kind p = Ident ''dyn'' then
        and_then (type_expr (advance p)) (\<lambda>t p. Done (''dyn '' @ t) p)
      else
        and_then
          (if check (Sym SOpenParen) p then
             (let p = advance p in
              if check (Sym SCloseParen) p then Done ''()'' (advance p)
              else and_then (parse_comma_type_list type_expr (Sym SCloseParen) p)
                (\<lambda>items p. Done (''('' @ join '', '' items @ '')'') p))
           else if check (Sym SOpenBracket) p then parse_array_type_expr type_expr (advance p)
           else parse_base_or_generic_type_expr type_expr p)
          append_type_suffixes)"

fun parse_type_expr :: "nat \<Rightarrow> SysmlParser \<Rightarrow> string outcome" where
  "parse_type_expr 0 p = max_depth_error p"
| "parse_type_expr (Suc n) p = parse_type_expr_inner (parse_type_expr n) p"

section \<open>Names\<close>

definition expect_ident_or_dotted :: "SysmlParser \<Rightarrow> string outcome" where
  "expect_ident_or_dotted p = and_then (expect_ident p) (path_tail (Sym SDot) ''.'')"

definition expect_string_or_ident :: "SysmlParser \<Rightarrow> string outcome" where
  "expect_string_or_ident p =
     (case peek_kind p of
        StringLit s \<Rightarrow> Done s (advance p)
      | _ \<Rightarrow> (case parse_identifier p of
          Done s p' \<Rightarrow> Done s p' | Fails _ \<Rightarrow> error_at (ExpectedStringOrIdent (peek_kind p)) p | Diverges \<Rightarrow> Diverges))"

text \<open>\<^verbatim>\<open>Keyword [def] name\<close>, the head of most declarations.\<close>

definition decl_name :: "Keyword \<Rightarrow> SysmlParser \<Rightarrow> string outcome" where
  "decl_name kw p = and_then (expect (Kw kw) p) (\<lambda>_ p. expect_ident (eat (Kw KDef) p))"

text \<open>
  A declaration body: \<^verbatim>\<open>{\<close>, then until \<^verbatim>\<open>}\<close> the documentation comments and one member at a time; or
  \<^verbatim>\<open>;\<close>. \<open>docs\<close> reads the comments before a member.
\<close>

definition parse_body ::
  "('s \<Rightarrow> SysmlParser \<Rightarrow> 's \<times> SysmlParser) \<Rightarrow> ('s \<Rightarrow> SysmlParser \<Rightarrow> 's outcome) \<Rightarrow> 's \<Rightarrow> SysmlParser \<Rightarrow> 's outcome" where
  "parse_body docs member s p =
     and_then (loop_until (Sym SCloseBrace)
       (\<lambda>s p. let (s, p) = docs s p in
          if check (Sym SCloseBrace) p \<or> is_at_end p then break_loop s p
          else and_then (member s p) next_round) s p)
     (\<lambda>s p. and_then (expect (Sym SCloseBrace) p) (\<lambda>_ p. Done s p))"

definition opt_body ::
  "('s \<Rightarrow> SysmlParser \<Rightarrow> 's \<times> SysmlParser) \<Rightarrow> ('s \<Rightarrow> SysmlParser \<Rightarrow> 's outcome) \<Rightarrow> 's \<Rightarrow> SysmlParser \<Rightarrow> 's outcome" where
  "opt_body docs member s p =
     (if check (Sym SOpenBrace) p then parse_body docs member s (advance p)
      else and_then (expect_semi p) (\<lambda>_ p. Done s p))"

definition unexpected_in :: "string \<Rightarrow> SysmlParser \<Rightarrow> 'a outcome" where
  "unexpected_in body p = error_at (UnexpectedInBody body (tok_kind (peek_tok p))) p"

section \<open>Capabilities\<close>

definition parse_capability_decl :: "F64Text \<Rightarrow> string option \<Rightarrow> SysmlParser \<Rightarrow> CapabilityDef outcome" where
  "parse_capability_decl F doc p =
     and_then (decl_name KCapability p) (\<lambda>name p.
     and_then (opt_body
         (\<lambda>(d, sub) p. let (d, p) = drain_first_inner_doc d p in ((d, sub), p))
         (\<lambda>(d, sub) p.
            if check (Kw KSubsystem) p then
              (let (v, p) = read_until_semi F (advance p) in Done (d, Some v) p)
            else unexpected_in ''capability'' p)
         (doc, None) p) (\<lambda>(d, sub) p.
       Done \<lparr>cap_name = name, cap_description = d, cap_subsystem = sub, cap_package_ref = None, cap_doc = d\<rparr> p))"

end
