(* ===== verification/Hir_Members.thy ===== *)
theory Hir_Members
  imports Hir_Core
begin

text \<open>
  Attributes, items, connections, flows and inline connectors
  (\<^verbatim>\<open>hir_parser_connections.rs\<close>), and hazards, risks, test cases, operations and interactions
  (\<^verbatim>\<open>hir_parser_hazards.rs\<close>) of the compiler's parser.
\<close>

section \<open>Attributes and items\<close>

definition at_type_separator :: "SysmlParser \<Rightarrow> bool" where
  "at_type_separator p \<longleftrightarrow> check (Sym SColon) p \<or> check (Sym SColonGt) p"

definition at_value_separator :: "SysmlParser \<Rightarrow> bool" where
  "at_value_separator p \<longleftrightarrow> check (Sym SEq) p \<or> check (Sym SColonEq) p"

text \<open>A type after its separator, or a default.\<close>

definition type_or :: "(SysmlParser \<Rightarrow> bool) \<Rightarrow> string \<Rightarrow> nat \<Rightarrow> SysmlParser \<Rightarrow> string outcome" where
  "type_or at_separator d n p = (if at_separator p then parse_type_expr n (advance p) else Done d p)"

definition parse_attribute_decl :: "F64Text \<Rightarrow> nat \<Rightarrow> string option \<Rightarrow> SysmlParser \<Rightarrow> AttributeDef outcome" where
  "parse_attribute_decl F n doc p =
     and_then (decl_name KAttribute p) (\<lambda>name p.
     and_then (type_or at_type_separator ''String'' n p) (\<lambda>type_name p.
     and_then (if at_value_separator p then (let (v, p) = read_until_semi F (advance p) in Done (Some v) p)
               else and_then (expect_semi p) (\<lambda>_ p. Done None p)) (\<lambda>default_value p.
       Done \<lparr>attr_name = name, attr_type_name = type_name, attr_default_value = default_value, attr_doc = doc\<rparr> p)))"

text \<open>
  The comments before a member that may carry its own: the last one is the member's, an earlier one
  goes to the owner, which takes the first. \<open>give\<close> hands a comment to the owner.
\<close>

definition member_doc ::
  "(string option \<Rightarrow> 's \<Rightarrow> 's) \<Rightarrow> 's \<Rightarrow> SysmlParser \<Rightarrow> (string option \<times> 's) \<times> SysmlParser" where
  "member_doc give s p =
     (let (d, p) = take_inner_doc_comment (skip_trivia p);
          ((d, s), p) = drain_docs (\<lambda>next_doc (d, s). (Some next_doc, give d s)) (d, s) (skip_trivia p)
      in if check (Sym SCloseBrace) p \<or> is_at_end p then ((None, give d s), p) else ((d, s), p))"

definition give_doc :: "string option \<Rightarrow> string option \<Rightarrow> string option" where
  "give_doc d slot = (case slot of None \<Rightarrow> d | Some _ \<Rightarrow> slot)"

definition parse_item_decl :: "F64Text \<Rightarrow> nat \<Rightarrow> string option \<Rightarrow> SysmlParser \<Rightarrow> ItemDef outcome" where
  "parse_item_decl F n doc p =
     and_then (decl_name KItem p) (\<lambda>name p.
     and_then (opt_body
         (\<lambda>(_, d, attrs) p. let ((a_doc, d), p) = member_doc give_doc d p in ((a_doc, d, attrs), p))
         (\<lambda>(a_doc, d, attrs) p.
            if check (Kw KAttribute) p then
              and_then (parse_attribute_decl F n a_doc p) (\<lambda>a p. Done (None, d, attrs @ [a]) p)
            else unexpected_in ''item'' p)
         (None, doc, []) p) (\<lambda>(_, d, attrs) p.
       Done \<lparr>item_name = name, item_doc = d, item_attributes = attrs\<rparr> p))"

section \<open>Connections\<close>

definition peek_next_is :: "Keyword \<Rightarrow> SysmlParser \<Rightarrow> bool" where
  "peek_next_is kw p \<longleftrightarrow> second_kind p = Some (Kw kw)"

definition owner_of :: "string \<Rightarrow> string option" where
  "owner_of port = map_option fst (split_once ''.'' port)"

definition non_empty_text :: "string option \<Rightarrow> string option" where
  "non_empty_text v = (case v of Some s \<Rightarrow> (if s = [] then None else Some s) | None \<Rightarrow> None)"

definition unquote :: "string \<Rightarrow> string" where
  "unquote s = trim_matches (\<lambda>c. c = DQ) s"

text \<open>The connection with the parts given explicitly, which the code keeps beside it.\<close>

type_synonym connection_draft = "ConnectionDef \<times> string option option \<times> string option option"

definition apply_connection_attribute :: "F64Text \<Rightarrow> AttributeDef \<Rightarrow> connection_draft \<Rightarrow> connection_draft" where
  "apply_connection_attribute F attr = (\<lambda>(conn, source, target).
     let unquoted = map_option unquote (attr_default_value attr);
         squeezed = map_option (replace_char (CHR '' '') []) unquoted;
         name = attr_name attr
     in if name = ''protocol'' then (conn\<lparr>conn_protocol := unquoted\<rparr>, source, target)
        else if name = ''latency_ms'' \<or> name = ''latency'' then
          (conn\<lparr>conn_latency_ms := Option.bind squeezed (f64_parse F)\<rparr>, source, target)
        else if name = ''severity'' then
          (conn\<lparr>conn_severity := (case Option.bind squeezed (parse_signed 32) of Some i \<Rightarrow> word_of_int i | None \<Rightarrow> 1)\<rparr>,
           source, target)
        else if name = ''item_flow_ref'' \<or> name = ''item_flow'' then
          (conn\<lparr>conn_item_flow_ref := non_empty_text unquoted\<rparr>, source, target)
        else if name = ''source_part'' then (conn, Some (non_empty_text unquoted), target)
        else if name = ''target_part'' then (conn, source, Some (non_empty_text unquoted))
        else (conn, source, target))"

definition parse_connection_member :: "F64Text \<Rightarrow> nat \<Rightarrow> connection_draft \<Rightarrow> SysmlParser \<Rightarrow> connection_draft outcome" where
  "parse_connection_member F n = (\<lambda>(conn, source, target) p.
     if check (Kw KConnect) p \<or> (check (Kw KFlow) p \<and> peek_next_is KFrom p) then
       and_then (expect_ident_or_dotted (eat (Kw KFrom) (advance p))) (\<lambda>source_port p.
       and_then (expect (Kw KTo) p) (\<lambda>_ p.
       and_then (expect_ident_or_dotted p) (\<lambda>target_port p.
       and_then (expect_semi p) (\<lambda>_ p.
         Done (conn\<lparr>conn_source_port := source_port, conn_target_port := target_port\<rparr>, source, target) p))))
     else if check (Kw KAttribute) p then
       and_then (parse_attribute_decl F n None p) (\<lambda>attr p.
         Done (apply_connection_attribute F attr (conn, source, target)) p)
     else unexpected_in ''connection'' p)"

definition parse_connection_decl ::
  "F64Text \<Rightarrow> nat \<Rightarrow> string option \<Rightarrow> bool \<Rightarrow> SysmlParser \<Rightarrow> ConnectionDef outcome" where
  "parse_connection_decl F n doc is_flow p =
     and_then (decl_name (if is_flow then KFlow else KConnection) p) (\<lambda>name p.
     and_then (opt_body
         (\<lambda>(conn, parts) p. let (d, p) = drain_first_inner_doc (conn_doc conn) p in ((conn\<lparr>conn_doc := d\<rparr>, parts), p))
         (parse_connection_member F n)
         (\<lparr>conn_name = name, conn_source_port = [], conn_target_port = [], conn_source_part = None,
           conn_target_part = None, conn_doc = doc, conn_severity = 1, conn_item_flow_ref = None,
           conn_protocol = None, conn_latency_ms = None, conn_is_flow = is_flow\<rparr>, None, None) p)
       (\<lambda>(conn, source, target) p.
         Done (conn\<lparr>conn_source_part := (case source of Some s \<Rightarrow> s | None \<Rightarrow> owner_of (conn_source_port conn)),
                    conn_target_part := (case target of Some t \<Rightarrow> t | None \<Rightarrow> owner_of (conn_target_port conn))\<rparr>) p))"

definition parse_inline_connect_decl :: "string option \<Rightarrow> SysmlParser \<Rightarrow> ConnectionDef outcome" where
  "parse_inline_connect_decl doc p =
     and_then (expect (Kw KConnect) p) (\<lambda>_ p.
     and_then (expect_ident_or_dotted (eat (Kw KFrom) p)) (\<lambda>source_port p.
     and_then (if check (Kw KTo) p \<or> tok_kind (peek_tok p) = Ident ''to'' then Done () (advance p)
               else error_at (ExpectedToKeyword (tok_kind (peek_tok p))) p) (\<lambda>_ p.
     and_then (expect_ident_or_dotted p) (\<lambda>target_port p.
     and_then (expect_semi p) (\<lambda>_ p.
       Done \<lparr>conn_name = ''c_'' @ replace_char (CHR ''.'') ''_'' source_port @ ''_to_''
               @ replace_char (CHR ''.'') ''_'' target_port,
             conn_source_port = source_port, conn_target_port = target_port,
             conn_source_part = owner_of source_port, conn_target_part = owner_of target_port, conn_doc = doc,
             conn_severity = 1, conn_item_flow_ref = None, conn_protocol = None, conn_latency_ms = None,
             conn_is_flow = False\<rparr> p)))))"

section \<open>Hazards and risks\<close>

definition clean_value :: "AttributeDef \<Rightarrow> string option" where
  "clean_value attr = map_option (\<lambda>v. unquote (trim v)) (attr_default_value attr)"

definition severity_value :: "string option \<Rightarrow> i32" where
  "severity_value v = (case Option.bind v (parse_signed 32) of Some i \<Rightarrow> word_of_int i | None \<Rightarrow> 1)"

definition apply_hazard_attribute :: "AttributeDef \<Rightarrow> HazardDef \<Rightarrow> HazardDef" where
  "apply_hazard_attribute attr h =
     (let v = clean_value attr; name = attr_name attr in
      if name = ''severity'' then h\<lparr>hazard_severity := severity_value v\<rparr>
      else if name = ''source_port'' then h\<lparr>hazard_source_port := v\<rparr>
      else if name = ''target_port'' then h\<lparr>hazard_target_port := v\<rparr>
      else if name = ''part_ref'' then h\<lparr>hazard_part_ref := v\<rparr> else h)"

definition parse_hazard_decl :: "F64Text \<Rightarrow> nat \<Rightarrow> string option \<Rightarrow> SysmlParser \<Rightarrow> HazardDef outcome" where
  "parse_hazard_decl F n doc p =
     and_then (decl_name KHazard p) (\<lambda>name p.
       opt_body (\<lambda>h p. let (d, p) = drain_first_inner_doc (hazard_doc h) p in (h\<lparr>hazard_doc := d\<rparr>, p))
         (\<lambda>h p. if check (Kw KAttribute) p then
             and_then (parse_attribute_decl F n None p) (\<lambda>attr p. Done (apply_hazard_attribute attr h) p)
           else unexpected_in ''hazard'' p)
         \<lparr>hazard_name = name, hazard_doc = doc, hazard_severity = 1, hazard_source_port = None,
          hazard_target_port = None, hazard_part_ref = None\<rparr> p)"

definition apply_risk_attribute :: "AttributeDef \<Rightarrow> RiskDef \<Rightarrow> RiskDef" where
  "apply_risk_attribute attr r =
     (let v = clean_value attr; name = attr_name attr in
      if name = ''severity'' then r\<lparr>risk_severity := severity_value v\<rparr>
      else if name = ''hazard_ref'' then r\<lparr>risk_hazard_ref := v\<rparr>
      else if name = ''source_port'' then r\<lparr>risk_source_port := v\<rparr>
      else if name = ''target_port'' then r\<lparr>risk_target_port := v\<rparr> else r)"

definition parse_risk_decl :: "F64Text \<Rightarrow> nat \<Rightarrow> string option \<Rightarrow> SysmlParser \<Rightarrow> RiskDef outcome" where
  "parse_risk_decl F n doc p =
     and_then (decl_name KRisk p) (\<lambda>name p.
       opt_body (\<lambda>r p. let (d, p) = drain_first_inner_doc (risk_doc r) p in (r\<lparr>risk_doc := d\<rparr>, p))
         (\<lambda>r p. if check (Kw KAttribute) p then
             and_then (parse_attribute_decl F n None p) (\<lambda>attr p. Done (apply_risk_attribute attr r) p)
           else unexpected_in ''risk'' p)
         \<lparr>risk_name = name, risk_doc = doc, risk_severity = 1, risk_hazard_ref = None,
          risk_source_port = None, risk_target_port = None\<rparr> p)"

section \<open>Test cases\<close>

definition comma_targets :: "string \<Rightarrow> string list" where
  "comma_targets s = filter (\<lambda>t. t \<noteq> []) (map trim (split_by (\<lambda>c. c = CHR '','') s))"

definition parse_test_member :: "F64Text \<Rightarrow> TestCaseDef \<Rightarrow> SysmlParser \<Rightarrow> TestCaseDef outcome" where
  "parse_test_member F tc p =
     (if check (Kw KSubject) p then
        (let (v, p) = read_until_semi F (advance p) in Done (tc\<lparr>tcase_subject_part := Some v\<rparr>) p)
      else if check (Kw KVerify) p then
        (let p = eat (Kw KAssert) (advance p);
             p = (if check (Kw KRequirement) p \<or> check (Kw KConstraint) p then advance p else p);
             (v, p) = read_until_semi F p
         in Done (tc\<lparr>tcase_verified_requirements := tcase_verified_requirements tc @ comma_targets v\<rparr>) p)
      else if check (Kw KObjective) p then
        (let (v, p) = read_until_semi F (advance p) in Done (tc\<lparr>tcase_objective := Some v\<rparr>) p)
      else if check (Kw KStep) p then
        (let (v, p) = read_until_semi F (advance p) in Done (tc\<lparr>tcase_test_steps := tcase_test_steps tc @ [v]\<rparr>) p)
      else unexpected_in ''test case'' p)"

definition parse_test_case_decl :: "F64Text \<Rightarrow> string option \<Rightarrow> SysmlParser \<Rightarrow> TestCaseDef outcome" where
  "parse_test_case_decl F doc p =
     and_then (expect (Kw KTest) p) (\<lambda>_ p.
     and_then (expect_ident (eat (Kw KDef) (eat (Kw KCase) p))) (\<lambda>name p.
       opt_body (\<lambda>tc p. let (d, p) = drain_first_inner_doc (tcase_doc tc) p in (tc\<lparr>tcase_doc := d\<rparr>, p))
         (parse_test_member F)
         \<lparr>tcase_name = name, tcase_subject_part = None, tcase_verified_requirements = [], tcase_objective = None,
          tcase_test_steps = [], tcase_doc = doc\<rparr> p))"

section \<open>Operations and interactions\<close>

text \<open>\<^verbatim>\<open>take_direction_keyword\<close>: the direction, if there is one, and the cursor after it.\<close>

definition take_direction_keyword :: "SysmlParser \<Rightarrow> string option \<times> SysmlParser" where
  "take_direction_keyword p =
     (if check (Kw KIn) p then (Some ''in'', advance p)
      else if check (Kw KOut) p then (Some ''out'', advance p)
      else if check (Kw KInout) p then (Some ''inout'', advance p)
      else (None, p))"

definition parse_operation_params :: "nat \<Rightarrow> SysmlParser \<Rightarrow> AttributeDef list outcome" where
  "parse_operation_params n p =
     and_then (loop_until (Sym SCloseParen)
       (\<lambda>params p.
          let (dir, p) = take_direction_keyword p in
          and_then (expect_ident p) (\<lambda>p_name p.
          and_then (type_or (check (Sym SColon)) ''String'' n p) (\<lambda>p_type p.
            next_round (params @ [\<lparr>attr_name = p_name, attr_type_name = p_type,
              attr_default_value = Some (case dir of Some d \<Rightarrow> d | None \<Rightarrow> ''in''), attr_doc = None\<rparr>])
              (eat (Sym SComma) p)))) [] p)
     (\<lambda>params p. and_then (expect (Sym SCloseParen) p) (\<lambda>_ p. Done params p))"

definition parse_operation_decl :: "nat \<Rightarrow> string option \<Rightarrow> SysmlParser \<Rightarrow> OperationDef outcome" where
  "parse_operation_decl n doc p =
     and_then (decl_name KOperation p) (\<lambda>name p.
     and_then (if check (Sym SOpenParen) p then parse_operation_params n (advance p) else Done [] p) (\<lambda>params p.
     and_then (if check (Sym SColon) p
               then and_then (parse_type_expr n (advance p)) (\<lambda>t p. Done (Some t) p) else Done None p) (\<lambda>ret p.
     and_then (expect_semi p) (\<lambda>_ p.
       Done \<lparr>opn_name = name, opn_direction = ''inout'', opn_param_type = ''String'', opn_return_type = ret,
             opn_doc = doc, opn_parameters = params\<rparr> p))))"

definition parse_interaction_member :: "F64Text \<Rightarrow> InteractionDef \<Rightarrow> SysmlParser \<Rightarrow> InteractionDef outcome" where
  "parse_interaction_member F i p =
     (if check (Kw KLifeline) p then
        (let (v, p) = read_until_semi F (advance p) in Done (i\<lparr>inter_lifelines := inter_lifelines i @ [v]\<rparr>) p)
      else if check (Kw KMessage) p then
        (let (v, p) = read_until_semi F (advance p) in Done (i\<lparr>inter_messages := inter_messages i @ [v]\<rparr>) p)
      else if check (Kw KTrigger) p then
        (let (v, p) = read_until_semi F (advance p) in Done (i\<lparr>inter_triggers := inter_triggers i @ [v]\<rparr>) p)
      else unexpected_in ''interaction'' p)"

definition parse_interaction_decl :: "F64Text \<Rightarrow> string option \<Rightarrow> SysmlParser \<Rightarrow> InteractionDef outcome" where
  "parse_interaction_decl F doc p =
     and_then (decl_name KInteraction p) (\<lambda>name p.
       opt_body (\<lambda>i p. let (d, p) = drain_first_inner_doc (inter_doc i) p in (i\<lparr>inter_doc := d\<rparr>, p))
         (parse_interaction_member F)
         \<lparr>inter_name = name, inter_lifelines = [], inter_messages = [], inter_triggers = [], inter_doc = doc\<rparr> p)"

end
