(* ===== verification/Hir_Clauses.thy ===== *)
theory Hir_Clauses
  imports Hir_Members
begin

text \<open>
  Use cases and calculations (\<^verbatim>\<open>hir_parser_use_cases.rs\<close>), constraints, requirements and satisfy
  statements (\<^verbatim>\<open>hir_parser_safety.rs\<close>), and stereotypes and ports (\<^verbatim>\<open>hir_parser_parts.rs\<close>) of the
  compiler's parser.
\<close>

section \<open>Use cases\<close>

definition parse_use_case_member :: "F64Text \<Rightarrow> UseCaseDef \<Rightarrow> SysmlParser \<Rightarrow> UseCaseDef outcome" where
  "parse_use_case_member F uc p =
     (if check (Kw KSubject) p then
        (let (v, p) = read_until_semi F (advance p) in Done (uc\<lparr>ucase_subject := Some v\<rparr>) p)
      else if check (Kw KActor) p then
        (let (v, p) = read_until_semi F (advance p) in
         Done (uc\<lparr>ucase_actor := (case ucase_actor uc of None \<Rightarrow> Some v | a \<Rightarrow> a),
                  ucase_actors := ucase_actors uc @ [v]\<rparr>) p)
      else if check (Kw KObjective) p then
        (let (v, p) = read_until_semi F (advance p) in Done (uc\<lparr>ucase_objective := Some v\<rparr>) p)
      else if check (Kw KStep) p then
        (let (v, p) = read_until_semi F (advance p) in Done (uc\<lparr>ucase_steps := ucase_steps uc @ [v]\<rparr>) p)
      else if check (Kw KInclude) p then
        (let (v, p) = read_until_semi F (eat (Kw KUseCase) (advance p))
         in Done (uc\<lparr>ucase_includes := ucase_includes uc @ [v]\<rparr>) p)
      else if check (Kw KExtend) p then
        (let (v, p) = read_until_semi F (eat (Kw KUseCase) (advance p))
         in Done (uc\<lparr>ucase_extends := ucase_extends uc @ [v]\<rparr>) p)
      else if check (Kw KPrecondition) p then
        (let (v, p) = read_until_semi F (advance p) in
         Done (uc\<lparr>ucase_preconditions := ucase_preconditions uc @ [v]\<rparr>) p)
      else if check (Kw KPostcondition) p then
        (let (v, p) = read_until_semi F (advance p) in
         Done (uc\<lparr>ucase_postconditions := ucase_postconditions uc @ [v]\<rparr>) p)
      else unexpected_in ''use case'' p)"

text \<open>The comments of a use case are joined by empty lines.\<close>

definition append_doc :: "string \<Rightarrow> string option \<Rightarrow> string option" where
  "append_doc d slot =
     (if trim d = [] then slot
      else let s = (case slot of Some s \<Rightarrow> s | None \<Rightarrow> [])
        in Some ((if trim s = [] then s else s @ [LF, LF]) @ d))"

definition parse_use_case_decl :: "F64Text \<Rightarrow> string option \<Rightarrow> SysmlParser \<Rightarrow> UseCaseDef outcome" where
  "parse_use_case_decl F doc p =
     and_then (decl_name KUseCase p) (\<lambda>name p.
       opt_body
         (\<lambda>uc p. let (d, p) = drain_docs append_doc (ucase_doc uc) (skip_trivia p) in (uc\<lparr>ucase_doc := d\<rparr>, p))
         (parse_use_case_member F)
         \<lparr>ucase_name = name, ucase_doc = doc, ucase_subject = None, ucase_actor = None, ucase_actors = [],
          ucase_objective = None, ucase_includes = [], ucase_extends = [], ucase_steps = [],
          ucase_preconditions = [], ucase_postconditions = []\<rparr> p)"

section \<open>Calculations\<close>

definition at_direction :: "SysmlParser \<Rightarrow> bool" where
  "at_direction p \<longleftrightarrow> check (Kw KIn) p \<or> check (Kw KOut) p \<or> check (Kw KInout) p"

definition eat_attribute_or_item :: "SysmlParser \<Rightarrow> SysmlParser" where
  "eat_attribute_or_item p = (if check (Kw KAttribute) p \<or> check (Kw KItem) p then advance p else p)"

text \<open>The tokens of a default value in a parameter list, up to a comma or the closing bracket.\<close>

definition ends_param :: "TokenKind \<Rightarrow> bool" where
  "ends_param k \<longleftrightarrow> k = Sym SComma \<or> k = Sym SCloseParen \<or> k = Eof"

definition param_default :: "F64Text \<Rightarrow> SysmlParser \<Rightarrow> string option \<times> SysmlParser" where
  "param_default F p =
     (if at_value_separator p then
        (let p = advance p in
         (Some (join '' '' (map (\<lambda>t. piece_text F (tok_kind t)) (takeWhile (\<lambda>t. \<not> ends_param (tok_kind t)) (ahead p)))),
          advance_past (\<lambda>k. \<not> ends_param k) p))
      else (None, p))"

definition parse_calc_header_params :: "F64Text \<Rightarrow> nat \<Rightarrow> SysmlParser \<Rightarrow> AttributeDef list outcome" where
  "parse_calc_header_params F n p =
     and_then (loop_until (Sym SCloseParen)
       (\<lambda>params p.
          let p = eat_attribute_or_item (if at_direction p then advance p else p) in
          and_then (expect_ident p) (\<lambda>p_name p.
          and_then (type_or (check (Sym SColon)) ''Real'' n p) (\<lambda>p_type p.
            let (d, p) = param_default F p in
            next_round (params @ [\<lparr>attr_name = p_name, attr_type_name = p_type, attr_default_value = d,
              attr_doc = None\<rparr>]) (eat (Sym SComma) p)))) [] (advance p))
     (\<lambda>params p. and_then (expect (Sym SCloseParen) p) (\<lambda>_ p. Done params p))"

definition parse_calc_body_param :: "F64Text \<Rightarrow> nat \<Rightarrow> SysmlParser \<Rightarrow> AttributeDef outcome" where
  "parse_calc_body_param F n p =
     and_then (expect_ident (eat_attribute_or_item (advance p))) (\<lambda>p_name p.
     and_then (type_or at_type_separator ''Real'' n p) (\<lambda>p_type p.
       (let (d, p) = (if at_value_separator p
          then (let (v, p) = read_until_semi F (advance p) in (Some v, p)) else (None, eat (Sym SSemi) p))
        in Done \<lparr>attr_name = p_name, attr_type_name = p_type, attr_default_value = d, attr_doc = None\<rparr> p)))"

text \<open>What a calculation collects: its parameters, its return type and the lines of its expression.\<close>

type_synonym calc_draft = "AttributeDef list \<times> string option \<times> string list"

definition add_expr_line :: "string \<Rightarrow> string list \<Rightarrow> string list" where
  "add_expr_line s ls = (if trim s = [] then ls else ls @ [trim s])"

definition parse_calc_typed_return_tail :: "F64Text \<Rightarrow> nat \<Rightarrow> calc_draft \<Rightarrow> SysmlParser \<Rightarrow> calc_draft outcome" where
  "parse_calc_typed_return_tail F n = (\<lambda>(params, ret, ls) p.
     and_then (parse_type_expr n p) (\<lambda>rtype p.
       let ret = (case ret of None \<Rightarrow> Some rtype | r \<Rightarrow> r) in
       if at_value_separator p then
         (let (rhs, p) = read_until_semi F (advance p) in Done (params, ret, add_expr_line rhs ls) p)
       else and_then (expect_semi p) (\<lambda>_ p. Done (params, ret, ls) p)))"

definition is_bare_calc_return_type :: "string \<Rightarrow> AttributeDef list \<Rightarrow> bool" where
  "is_bare_calc_return_type rtype in_params =
     (let trimmed = trim rtype;
          base = trim (hd (split_by (\<lambda>c. c = CHR ''['') trimmed));
          is_param = list_ex (\<lambda>a. attr_name a = base) in_params;
          is_composite = trimmed \<noteq> [] \<and> hd trimmed \<in> set ''&*([[]'';
          is_indexed = \<not> is_composite \<and> CHR ''['' \<in> set trimmed \<and> \<not> ends_with trimmed ''[]'';
          is_primitive = base \<in> set [''u8'', ''u16'', ''u32'', ''u64'', ''u128'', ''usize'', ''i8'', ''i16'',
            ''i32'', ''i64'', ''i128'', ''isize'', ''f32'', ''f64'', ''bool'', ''str'', ''char''];
          is_named_type = (base \<noteq> [] \<and> is_ascii_uppercase (hd base)) \<or> contains_str base ''::'' \<or> is_primitive
      in \<not> is_param \<and> \<not> is_indexed \<and> (is_composite \<or> is_named_type))"

text \<open>
  A \<^verbatim>\<open>return\<close> statement. The code tries a named result, then a bare type, then an expression, each time
  from the saved position; a failed attempt leaves nothing behind.
\<close>

definition return_expression :: "F64Text \<Rightarrow> calc_draft \<Rightarrow> SysmlParser \<Rightarrow> calc_draft outcome" where
  "return_expression F = (\<lambda>(params, ret, ls) p.
     let (e, p) = read_until_semi F p in Done (params, ret, add_expr_line e ls) p)"

definition return_bare :: "F64Text \<Rightarrow> nat \<Rightarrow> calc_draft \<Rightarrow> SysmlParser \<Rightarrow> calc_draft outcome" where
  "return_bare F n = (\<lambda>(params, ret, ls) p.
     let starts_with_call = (case parse_identifier p of Done _ q \<Rightarrow> check (Sym SOpenParen) q | _ \<Rightarrow> False) in
     if ret = None \<and> \<not> starts_with_call then
       (case parse_type_expr n p of
          Done rtype q \<Rightarrow>
            (if check (Sym SSemi) q \<and> is_bare_calc_return_type rtype params
             then Done (params, Some rtype, ls) (advance q) else return_expression F (params, ret, ls) p)
        | Fails _ \<Rightarrow> return_expression F (params, ret, ls) p
        | Diverges \<Rightarrow> Diverges)
     else return_expression F (params, ret, ls) p)"

definition parse_calc_return_stmt :: "F64Text \<Rightarrow> nat \<Rightarrow> calc_draft \<Rightarrow> SysmlParser \<Rightarrow> calc_draft outcome" where
  "parse_calc_return_stmt F n draft p0 =
     (let p = skip_trivia (advance p0);
          tail = parse_calc_typed_return_tail F n draft
      in if at_type_separator p then tail (advance p)
         else if peek_kind p = Ident ''type'' then
           (let p = advance p in tail (if at_type_separator p then advance p else p))
         else case parse_identifier (eat_attribute_or_item (if at_direction p then advance p else p)) of
           Done _ q \<Rightarrow>
             (if at_type_separator q then tail (advance q)
              else if at_value_separator q then return_expression F draft (advance q)
              else return_bare F n draft p)
         | Fails _ \<Rightarrow> return_bare F n draft p
         | Diverges \<Rightarrow> Diverges)"

definition parse_calc_member :: "F64Text \<Rightarrow> nat \<Rightarrow> calc_draft \<Rightarrow> SysmlParser \<Rightarrow> calc_draft outcome" where
  "parse_calc_member F n = (\<lambda>(params, ret, ls) p.
     if at_direction p \<or> check (Kw KAttribute) p then
       and_then (parse_calc_body_param F n p) (\<lambda>a p. Done (params @ [a], ret, ls) p)
     else if peek_kind p = Ident ''return'' then parse_calc_return_stmt F n (params, ret, ls) p
     else return_expression F (params, ret, ls) p)"

definition parse_calc_decl :: "F64Text \<Rightarrow> nat \<Rightarrow> string option \<Rightarrow> SysmlParser \<Rightarrow> CalcDef outcome" where
  "parse_calc_decl F n doc p =
     and_then (decl_name KCalc p) (\<lambda>name p.
     and_then (if check (Sym SOpenParen) p then parse_calc_header_params F n p else Done [] p) (\<lambda>params p.
     and_then (if check (Sym SColon) p
               then and_then (parse_type_expr n (advance p)) (\<lambda>t p. Done (Some t) p) else Done None p) (\<lambda>ret p.
     and_then (opt_body
         (\<lambda>(d, draft) p. let (d, p) = drain_first_inner_doc d p in ((d, draft), p))
         (\<lambda>(d, draft) p. and_then (parse_calc_member F n draft p) (\<lambda>draft p. Done (d, draft) p))
         (doc, params, ret, []) p) (\<lambda>(d, params, ret, ls) p.
       Done \<lparr>calc_name = name, calc_doc = d, calc_in_params = params, calc_return_type = ret,
             calc_expression = (if ls = [] then None else Some (join [LF] ls))\<rparr> p))))"

section \<open>Constraints\<close>

definition parse_constraint_header_params :: "nat \<Rightarrow> SysmlParser \<Rightarrow> string list outcome" where
  "parse_constraint_header_params n p =
     and_then (loop_until (Sym SCloseParen)
       (\<lambda>params p.
          let p = skip_trivia p in
          if check (Sym SCloseParen) p then break_loop params p
          else
            let (dir, p) = take_direction_keyword p;
                dir = (case dir of Some d \<Rightarrow> d @ '' '' | None \<Rightarrow> []);
                (usage, p) = (if check (Kw KAttribute) p then (''attribute '', advance p)
                  else if check (Kw KItem) p then (''item '', advance p) else ([], p))
            in and_then (expect_ident p) (\<lambda>p_name p.
               and_then (if at_type_separator p
                 then and_then (parse_type_expr n (advance p)) (\<lambda>t p. Done (dir @ usage @ p_name @ '': '' @ t) p)
                 else Done (dir @ usage @ p_name) p) (\<lambda>param p.
                 if check (Sym SComma) p then next_round (params @ [param]) (advance p)
                 else break_loop (params @ [param]) p))) [] (advance p))
     (\<lambda>params p. and_then (expect (Sym SCloseParen) p) (\<lambda>_ p. Done params p))"

definition parse_constraint_decl :: "F64Text \<Rightarrow> nat \<Rightarrow> string option \<Rightarrow> SysmlParser \<Rightarrow> ConstraintDef outcome" where
  "parse_constraint_decl F n doc p =
     (let is_assertion = check (Kw KAssert) p; p = eat (Kw KAssert) p in
      and_then (if check (Kw KConstraint) p \<or> \<not> is_assertion then expect (Kw KConstraint) p else Done () p) (\<lambda>_ p.
      and_then (expect_ident (eat (Kw KDef) p)) (\<lambda>name p.
      and_then (if check (Sym SOpenParen) p then parse_constraint_header_params n p else Done [] p) (\<lambda>params p.
      and_then (opt_body
          (\<lambda>(d, expr) p. let (d, p) = drain_first_inner_doc d p in ((d, expr), p))
          (\<lambda>(d, expr) p. let (stmt, p) = read_until_semi F p in
             Done (d, if trim stmt = [] then expr else (if expr = [] then [] else expr @ '' && '') @ stmt) p)
          (doc, []) p) (\<lambda>(d, expr) p.
        Done \<lparr>con_name = name, con_expression = expr, con_parameters = params, con_is_assertion = is_assertion,
              con_doc = d, con_pre_conditions = [], con_post_conditions = []\<rparr> p)))))"

section \<open>Stereotypes\<close>

definition peek_stereotype_name :: "SysmlParser \<Rightarrow> string option" where
  "peek_stereotype_name p =
     (case peek_kind p of
        Ident s \<Rightarrow>
          (case strip_prefix s ''@'' of
             Some stripped \<Rightarrow>
               if stripped \<noteq> [] then Some stripped
               else (case second_kind p of Some (Ident next_ident) \<Rightarrow> Some next_ident | _ \<Rightarrow> None)
           | None \<Rightarrow> None)
      | _ \<Rightarrow> None)"

definition quoted_or_ident :: "TokenKind \<Rightarrow> string list" where
  "quoted_or_ident k = (case k of StringLit v \<Rightarrow> [v] | Ident v \<Rightarrow> [v] | _ \<Rightarrow> [])"

text \<open>The two loops over the arguments, which take every token: up to \<^verbatim>\<open>)\<close>, and up to \<^verbatim>\<open>}\<close>.\<close>

definition ends_arguments :: "TokenKind \<Rightarrow> TokenKind \<Rightarrow> bool" where
  "ends_arguments close k \<longleftrightarrow> k = close \<or> k = Eof"

definition call_arguments :: "SysmlParser \<Rightarrow> string list \<times> SysmlParser" where
  "call_arguments p =
     (let inner = takeWhile (\<lambda>t. \<not> ends_arguments (Sym SCloseParen) (tok_kind t)) (ahead p) in
      (concat (map (\<lambda>t. quoted_or_ident (tok_kind t)) inner),
       eat (Sym SCloseParen) (advance_past (\<lambda>k. \<not> ends_arguments (Sym SCloseParen) k) p)))"

function block_arguments :: "string list \<Rightarrow> SysmlParser \<Rightarrow> string list \<times> SysmlParser" where
  "block_arguments vals p =
     (if check (Sym SCloseBrace) p \<or> is_at_end p then (vals, eat (Sym SCloseBrace) p)
      else if check (Sym SEq) p then
        (let p = skip_trivia (advance p); vs = quoted_or_ident (peek_kind p) in
         block_arguments (vals @ vs) (if vs = [] then p else advance p))
      else block_arguments (vals @ (case peek_kind p of StringLit v \<Rightarrow> [v] | _ \<Rightarrow> [])) (advance p))"
  by pat_completeness auto
termination
proof (relation "measure (\<lambda>(vals, p). length (ahead p))", goal_cases)
  case (2 vals p q vs)
  have "length (ahead q) < length (ahead p)"
    using 2 length_skip_trivia [of "advance p"] check_nonempty [of "Sym SEq" p] by (cases "ahead p") auto
  then show ?case by (auto intro: le_less_trans [OF diff_le_self])
next
  case (3 vals p)
  then have "ahead p \<noteq> []" by (auto simp: is_at_end_def peek_kind_def)
  then show ?case by simp
qed simp

declare block_arguments.simps [simp del]

definition parse_stereotype_annotation :: "SysmlParser \<Rightarrow> (string \<times> string list) \<times> SysmlParser" where
  "parse_stereotype_annotation p =
     (let name = (case peek_stereotype_name p of Some s \<Rightarrow> s | None \<Rightarrow> []);
          p = (case peek_kind p of
             Ident s \<Rightarrow> (let p = advance p in
               if s = ''@'' \<and> (case peek_kind p of Ident _ \<Rightarrow> True | _ \<Rightarrow> False) then advance p else p)
           | _ \<Rightarrow> p);
          p = skip_trivia p;
          (vals, p) = (if check (Sym SOpenParen) p then call_arguments (advance p)
            else if check (Sym SOpenBrace) p then block_arguments [] (advance p) else ([], p))
      in ((name, vals), eat (Sym SSemi) p))"

definition push_absent :: "string \<Rightarrow> string list \<Rightarrow> string list" where
  "push_absent v vs = (if v = [] \<or> v \<in> set vs then vs else vs @ [v])"

section \<open>Requirements\<close>

definition apply_requirement_stereotype :: "string \<Rightarrow> string list \<Rightarrow> RequirementDef \<Rightarrow> RequirementDef" where
  "apply_requirement_stereotype stereo_name vals r =
     (if stereo_name = ''TriggersHazard'' then
        r\<lparr>req_triggers_hazards := fold push_absent vals (req_triggers_hazards r)\<rparr>
      else if stereo_name = ''SafetyRealises'' then
        r\<lparr>req_safety_realises := fold push_absent vals (req_safety_realises r)\<rparr>
      else if stereo_name = ''Layer'' then
        (case find (\<lambda>v. v \<noteq> []) vals of Some v \<Rightarrow> r\<lparr>req_layer := Some v\<rparr> | None \<Rightarrow> r)
      else r)"

text \<open>\<^verbatim>\<open>replace(" :: ", "::")\<close>.\<close>

function tighten_paths :: "string \<Rightarrow> string" where
  "tighten_paths s =
     (if s = [] then []
      else if starts_with s '' :: '' then ''::'' @ tighten_paths (drop 4 s)
      else hd s # tighten_paths (tl s))"
  by pat_completeness auto
termination
  by (relation "measure length") (auto simp: neq_Nil_conv)

declare tighten_paths.simps [simp del]

definition read_references :: "F64Text \<Rightarrow> SysmlParser \<Rightarrow> string \<times> SysmlParser" where
  "read_references F p = (let (v, p) = read_until_semi F p in (tighten_paths v, p))"

definition read_assignment :: "SysmlParser \<Rightarrow> string outcome" where
  "read_assignment p =
     and_then (expect_string_or_ident (eat (Sym SEq) p)) (\<lambda>s p. and_then (expect_semi p) (\<lambda>_ p. Done s p))"

definition parse_requirement_member ::
  "F64Text \<Rightarrow> nat \<Rightarrow> string option \<Rightarrow> RequirementDef \<Rightarrow> SysmlParser \<Rightarrow> RequirementDef outcome" where
  "parse_requirement_member F n sub_doc r p =
     (if check (Kw KId) p then
        and_then (read_assignment (advance p)) (\<lambda>s p. Done (r\<lparr>req_req_id := s\<rparr>) p)
      else if check (Kw KText) p \<or> check (Kw KDoc) p then
        and_then (read_assignment (advance p)) (\<lambda>s p. Done (r\<lparr>req_text := s\<rparr>) p)
      else if check (Kw KAttribute) p then
        and_then (parse_attribute_decl F n sub_doc p) (\<lambda>a p. Done (r\<lparr>req_attributes := req_attributes r @ [a]\<rparr>) p)
      else if check (Kw KConstraint) p \<or> check (Kw KAssert) p then
        and_then (parse_constraint_decl F n sub_doc p)
          (\<lambda>c p. Done (r\<lparr>req_constraints := req_constraints r @ [c]\<rparr>) p)
      else if peek_stereotype_name p \<noteq> None then
        (let ((stereo_name, vals), p) = parse_stereotype_annotation p
         in Done (apply_requirement_stereotype stereo_name vals r) p)
      else if check (Kw KAssume) p then
        (let (v, p) = read_until_semi F (advance p) in Done (r\<lparr>req_assumes := req_assumes r @ [v]\<rparr>) p)
      else if check (Kw KRequire) p then
        (let (v, p) = read_until_semi F (advance p) in Done (r\<lparr>req_requires := req_requires r @ [v]\<rparr>) p)
      else if peek_kind p = Ident ''derived'' \<or> peek_kind p = Ident ''derive'' then
        (let (v, p) = read_references F (eat (Kw KFrom) (eat (Kw KRequirement) (advance p)))
         in Done (r\<lparr>req_derived_from := req_derived_from r @ [v]\<rparr>) p)
      else if peek_kind p = Ident ''derives'' then
        (let (v, p) = read_references F (eat (Kw KRequirement) (advance p))
         in Done (r\<lparr>req_derives := req_derives r @ [v]\<rparr>) p)
      else if check (Kw KVerify) p then
        (let (v, p) = read_references F (eat (Kw KBy) (advance p))
         in Done (r\<lparr>req_verified_by := req_verified_by r @ [v]\<rparr>) p)
      else if check (Kw KSatisfy) p then
        (let (v, p) = read_references F (eat (Kw KBy) (advance p))
         in Done (r\<lparr>req_satisfied_by := req_satisfied_by r @ [v]\<rparr>) p)
      else if check (Kw KSubject) p then Done r (snd (read_until_semi F (advance p)))
      else unexpected_in ''requirement'' p)"

definition give_text :: "string option \<Rightarrow> RequirementDef \<Rightarrow> RequirementDef" where
  "give_text d r = (case d of Some s \<Rightarrow> if req_text r = [] then r\<lparr>req_text := s\<rparr> else r | None \<Rightarrow> r)"

text \<open>A comment before an attribute or a constraint is that member's, any other is the text.\<close>

definition requirement_docs ::
  "string option \<times> RequirementDef \<Rightarrow> SysmlParser \<Rightarrow> (string option \<times> RequirementDef) \<times> SysmlParser" where
  "requirement_docs = (\<lambda>(_, r) p.
     let ((d, r), p) = member_doc give_text r p in
     if check (Kw KAttribute) p \<or> check (Kw KConstraint) p \<or> check (Kw KAssert) p then ((d, r), p)
     else ((None, give_text d r), p))"

definition parse_requirement_decl :: "F64Text \<Rightarrow> nat \<Rightarrow> string option \<Rightarrow> SysmlParser \<Rightarrow> RequirementDef outcome" where
  "parse_requirement_decl F n doc p =
     and_then (decl_name KRequirement p) (\<lambda>name p.
     and_then (opt_body requirement_docs
         (\<lambda>(d, r) p. and_then (parse_requirement_member F n d r p) (\<lambda>r p. Done (None, r) p))
         (None, \<lparr>req_name = name, req_req_id = [], req_text = [], req_doc = doc, req_attributes = [],
            req_constraints = [], req_assumes = [], req_requires = [], req_verified_by = [], req_satisfied_by = [],
            req_derived_from = [], req_derives = [], req_triggers_hazards = [], req_safety_realises = [],
            req_layer = None\<rparr>) p) (\<lambda>(_, r) p. Done r p))"

section \<open>Satisfy statements\<close>

text \<open>The format \<^verbatim>\<open>{:0width$}\<close> of a natural number.\<close>

definition zero_padded :: "nat \<Rightarrow> nat \<Rightarrow> string" where
  "zero_padded width i = (let s = decimal i in replicate (width - length s) (CHR ''0'') @ s)"

text \<open>
  The text of a token in a target. The width of a number is that of its lexeme, so leading zeros come
  back; a zero after a sign that the lexer took into the number gets its sign back. (\<^verbatim>\<open>n.abs()\<close> is the
  absolute value; it overflows for the least 64-bit integer only, which is not modelled.)
\<close>

definition satisfy_piece :: "string \<Rightarrow> Token \<Rightarrow> string" where
  "satisfy_piece raw t =
     (case tok_kind t of
        DocComment _ \<Rightarrow> []
      | LineCommentTok _ \<Rightarrow> []
      | Ident s \<Rightarrow> s
      | StringLit s \<Rightarrow> s
      | IntLit i \<Rightarrow>
          (let len = span_len t in
           if i < 0 then ''-'' @ zero_padded (len - 1) (nat (- i))
           else if i = 0 then
             (if 1 < len \<and> \<not> ends_with raw ''-'' then ''-'' @ zero_padded (len - 1) 0 else zero_padded len 0)
           else zero_padded len (nat i))
      | k \<Rightarrow> kind_as_str k)"

definition ends_satisfy :: "TokenKind \<Rightarrow> bool" where
  "ends_satisfy k \<longleftrightarrow> ends_stmt k \<or> k = Kw KBy"

definition parse_satisfy_stmt :: "F64Text \<Rightarrow> SysmlParser \<Rightarrow> string outcome" where
  "parse_satisfy_stmt F p =
     and_then (expect (Kw KSatisfy) p) (\<lambda>_ p.
       let p = advance_past is_comment_kind (eat (Kw KRequirement) (advance_past is_comment_kind p));
           target = takeWhile (\<lambda>t. \<not> ends_satisfy (tok_kind t)) (ahead p);
           raw = foldl (\<lambda>raw t. raw @ satisfy_piece raw t) [] target;
           p = advance_past (\<lambda>k. \<not> ends_satisfy k) p
       in and_then (if check (Kw KBy) p then Done () (snd (read_until_semi F p)) else expect_semi p) (\<lambda>_ p.
            Done (trim (trim_matches (\<lambda>c. c = SQ) (unquote (trim raw)))) p))"

section \<open>Ports\<close>

definition parse_port_flow_member :: "nat \<Rightarrow> string option \<Rightarrow> SysmlParser \<Rightarrow> FlowDef outcome" where
  "parse_port_flow_member n f_doc p =
     (let next_is_sep = (\<lambda>p. second_kind p \<in> Some ` {Sym SColon, Sym SColonGt, Sym SSemi});
          at_word = (\<lambda>p. (check (Kw KFlow) p \<or> check (Kw KItem) p) \<and> \<not> next_is_sep p);
          p = (if at_word p then advance p else p);
          (dir, p) = take_direction_keyword p
      in and_then (loop_while at_word (\<lambda>_ p. next_round () (advance p)) () p) (\<lambda>_ p.
         and_then (expect_ident p) (\<lambda>name p.
         and_then (type_or at_type_separator ''Item'' n p) (\<lambda>item_type p.
         and_then (expect_semi p) (\<lambda>_ p.
           Done \<lparr>flow_name = name, flow_direction = (case dir of Some d \<Rightarrow> d | None \<Rightarrow> ''out''),
                 flow_item_type = item_type, flow_doc = f_doc, flow_rate_hz = None, flow_unit = None,
                 flow_valid_range = None, flow_default_value = None\<rparr> p)))))"

definition apply_port_attribute :: "AttributeDef \<Rightarrow> PortDef \<Rightarrow> PortDef" where
  "apply_port_attribute attr port =
     (let v = unquote (trim (case attr_default_value attr of Some v \<Rightarrow> v | None \<Rightarrow> [])) in
      if attr_name attr = ''protocol_family'' then port\<lparr>port_protocol_family := v\<rparr>
      else if attr_name attr = ''port_category'' then port\<lparr>port_port_category := v\<rparr>
      else port\<lparr>port_electrical_attributes := bt_insert (attr_name attr) v (port_electrical_attributes port)\<rparr>)"

definition parse_port_member :: "F64Text \<Rightarrow> nat \<Rightarrow> string option \<times> PortDef \<Rightarrow> SysmlParser \<Rightarrow> (string option \<times> PortDef) outcome" where
  "parse_port_member F n = (\<lambda>(f_doc, port) p.
     if check (Kw KAttribute) p then
       and_then (parse_attribute_decl F n f_doc p) (\<lambda>attr p. Done (None, apply_port_attribute attr port) p)
     else if check (Kw KFlow) p \<or> check (Kw KItem) p \<or> at_direction p then
       and_then (parse_port_flow_member n f_doc p)
         (\<lambda>flow p. Done (None, port\<lparr>port_item_flows := port_item_flows port @ [flow]\<rparr>) p)
     else unexpected_in ''port'' p)"

definition give_port_doc :: "string option \<Rightarrow> PortDef \<Rightarrow> PortDef" where
  "give_port_doc d port = port\<lparr>port_doc := give_doc d (port_doc port)\<rparr>"

definition parse_port_decl :: "F64Text \<Rightarrow> nat \<Rightarrow> string option \<Rightarrow> SysmlParser \<Rightarrow> PortDef outcome" where
  "parse_port_decl F n doc p =
     (let (dir, p) = take_direction_keyword p; direction = (case dir of Some d \<Rightarrow> d | None \<Rightarrow> ''inout'') in
      and_then (expect (Kw KPort) p) (\<lambda>_ p.
        let p = eat (Kw KDef) p;
            (inner, p) = (if direction = ''inout'' then take_direction_keyword p else (None, p));
            direction = (case inner of Some d \<Rightarrow> d | None \<Rightarrow> direction)
        in and_then (expect_ident p) (\<lambda>name p.
           and_then (if at_type_separator p
             then (let p = advance p in
               and_then (parse_type_expr n (eat (Sym STilde) p)) (\<lambda>t q. Done (t, check (Sym STilde) p) q))
             else Done (name, False) p) (\<lambda>(type_name, is_conjugated) p.
           and_then (opt_body
               (\<lambda>(_, port) p. member_doc give_port_doc port p)
               (parse_port_member F n)
               (None, \<lparr>port_name = name, port_type_name = type_name, port_direction = direction,
                  port_is_conjugated = is_conjugated, port_doc = doc, port_port_category = [],
                  port_protocol_family = [], port_electrical_attributes = [], port_item_flows = []\<rparr>) p)
             (\<lambda>(_, port) p. Done port p)))))"

end
