(* ===== verification/Hir_States.thy ===== *)
theory Hir_States
  imports Hir_Clauses
begin

text \<open>
  Transitions (\<^verbatim>\<open>hir_parser_transitions.rs\<close>), actions and states (\<^verbatim>\<open>hir_parser_behavioral.rs\<close>) of
  the compiler's parser, and the canonical text of a transition. Inside a transition the cursor is an
  index into a slice of tokens; here it is the tokens left.
\<close>

section \<open>Transition clauses\<close>

definition is_transition_clause_keyword :: "string \<Rightarrow> bool" where
  "is_transition_clause_keyword s \<longleftrightarrow> s \<in> set [''first'', ''from'', ''then'', ''to'', ''accept'', ''if'', ''do'']"

definition is_transition_keyword_token :: "Token \<Rightarrow> bool" where
  "is_transition_keyword_token t \<longleftrightarrow>
     (case tok_kind t of
        StringLit _ \<Rightarrow> False | IntLit _ \<Rightarrow> False | RealLit _ \<Rightarrow> False | BoolLit _ \<Rightarrow> False
      | LineCommentTok _ \<Rightarrow> False | DocComment _ \<Rightarrow> False | Eof \<Rightarrow> False
      | Ident s \<Rightarrow> is_transition_clause_keyword s
      | k \<Rightarrow> is_transition_clause_keyword (kind_as_str k))"

definition token_lexeme :: "F64Text \<Rightarrow> Token \<Rightarrow> string" where
  "token_lexeme F t =
     (case tok_kind t of
        Eof \<Rightarrow> [] | LineCommentTok _ \<Rightarrow> [] | DocComment _ \<Rightarrow> []
      | k \<Rightarrow> piece_text F k)"

text \<open>The segments after the first one of an endpoint: a separator, and the segment if it has a text.\<close>

fun endpoint_tail :: "F64Text \<Rightarrow> Token list \<Rightarrow> string \<times> Token list" where
  "endpoint_tail F (s # ts) =
     (if tok_kind s = Sym SDoubleColon \<or> tok_kind s = Sym SDot then
        (case ts of
           [] \<Rightarrow> (kind_as_str (tok_kind s), [])
         | t # ts' \<Rightarrow>
             (let (more_text, left) =
                (if token_lexeme F t = [] then endpoint_tail F ts else endpoint_tail F ts')
              in (kind_as_str (tok_kind s) @ token_lexeme F t @ more_text, left)))
      else ([], s # ts))"
| "endpoint_tail F [] = ([], [])"

definition parse_transition_endpoint :: "F64Text \<Rightarrow> Token list \<Rightarrow> string option \<times> Token list" where
  "parse_transition_endpoint F ts =
     (case ts of
        [] \<Rightarrow> (None, ts)
      | t # ts' \<Rightarrow>
          if is_transition_keyword_token t then (None, ts)
          else
            let root = (tok_kind t = Sym SDoubleColon); rest = (if root then ts' else ts) in
            case rest of
              [] \<Rightarrow> (None, rest)
            | seg # left \<Rightarrow>
                if token_lexeme F seg = [] then (None, rest)
                else let (more_text, left) = endpoint_tail F left
                  in (Some ((if root then ''::'' else []) @ token_lexeme F seg @ more_text), left))"

text \<open>Whether a blank stands between two neighbouring tokens.\<close>

definition callable_target :: "TokenKind \<Rightarrow> bool" where
  "callable_target k \<longleftrightarrow>
     (case k of Ident _ \<Rightarrow> True | Sym SCloseParen \<Rightarrow> True | Sym SCloseBracket \<Rightarrow> True
      | _ \<Rightarrow> (case kind_as_str k of c # _ \<Rightarrow> is_ascii_alphabetic c \<or> c = CHR ''_'' | [] \<Rightarrow> False))"

definition space_between :: "TokenKind \<Rightarrow> TokenKind \<Rightarrow> bool" where
  "space_between prev_kind curr_kind \<longleftrightarrow>
     prev_kind \<notin> set (map Sym [SDoubleColon, SDot, SOpenParen, SOpenBracket]) \<and>
     curr_kind \<notin> set (map Sym [SDoubleColon, SDot, SCloseParen, SCloseBracket, SComma, SSemi]) \<and>
     \<not> (curr_kind \<in> set (map Sym [SOpenParen, SOpenBracket]) \<and> callable_target prev_kind)"

text \<open>The loop with the text so far; the neighbour is the token before, even one without a text.\<close>

fun format_from :: "F64Text \<Rightarrow> TokenKind option \<Rightarrow> string \<Rightarrow> Token list \<Rightarrow> string" where
  "format_from F lead out [] = out"
| "format_from F lead out (t # ts) =
     (let lex = token_lexeme F t;
          blank = (case lead of Some k \<Rightarrow> out \<noteq> [] \<and> space_between k (tok_kind t) | None \<Rightarrow> False)
      in format_from F (Some (tok_kind t))
           (if lex = [] then out else out @ (if blank then '' '' else []) @ lex) ts)"

definition format_transition_expr :: "F64Text \<Rightarrow> Token list \<Rightarrow> string" where
  "format_transition_expr F ts = format_from F None [] ts"

text \<open>The tokens of a clause: up to the next clause word outside all brackets.\<close>

fun clause_end :: "nat \<Rightarrow> nat \<Rightarrow> nat \<Rightarrow> Token list \<Rightarrow> nat" where
  "clause_end parens brackets braces [] = 0"
| "clause_end parens brackets braces (t # ts) =
     (if parens = 0 \<and> brackets = 0 \<and> braces = 0 \<and> is_transition_keyword_token t then 0
      else Suc (let k = tok_kind t in
        if k = Sym SOpenParen then clause_end (parens + 1) brackets braces ts
        else if k = Sym SCloseParen then clause_end (parens - 1) brackets braces ts
        else if k = Sym SOpenBracket then clause_end parens (brackets + 1) braces ts
        else if k = Sym SCloseBracket then clause_end parens (brackets - 1) braces ts
        else if k = Sym SOpenBrace then clause_end parens brackets (braces + 1) ts
        else if k = Sym SCloseBrace then clause_end parens brackets (braces - 1) ts
        else clause_end parens brackets braces ts))"

text \<open>A leading \<^verbatim>\<open>action\<close> is dropped when a name follows it.\<close>

definition drop_action_word :: "Token list \<Rightarrow> Token list" where
  "drop_action_word ts =
     (case ts of
        t # u # us \<Rightarrow>
          if tok_kind t = Kw KAction \<and> tok_kind u \<notin> set (map Sym [SOpenParen, SCloseParen, SOpenBracket,
               SCloseBracket, SDot, SDoubleColon, SComma, SSemi])
          then u # us else ts
      | _ \<Rightarrow> ts)"

definition parse_transition_clause_expr :: "F64Text \<Rightarrow> bool \<Rightarrow> Token list \<Rightarrow> string option \<times> Token list" where
  "parse_transition_clause_expr F is_do ts =
     (let k = clause_end 0 0 0 (tl ts);
          inner = take k (tl ts);
          formatted = format_transition_expr F (if is_do then drop_action_word inner else inner)
      in (if formatted = [] then None else Some formatted, drop k (tl ts)))"

section \<open>Transitions\<close>

definition default_transition :: TransitionDef where
  "default_transition =
     \<lparr>tx_name = None, tx_source = None, tx_target = None, tx_trigger = None, tx_guard = None, tx_effect = None,
      tx_doc = None\<rparr>"

definition or_given :: "'a option \<Rightarrow> 'a option \<Rightarrow> 'a option" where
  "or_given a b = (case a of Some x \<Rightarrow> Some x | None \<Rightarrow> b)"

text \<open>Endpoints read off a name \<^verbatim>\<open>a_to_b\<close> or \<^verbatim>\<open>a_to_b_on_t\<close>.\<close>

definition infer_endpoints :: "TransitionDef \<Rightarrow> TransitionDef" where
  "infer_endpoints tr =
     (if tx_source tr = None \<and> tx_target tr = None then
        (case Option.bind (tx_name tr) (split_once ''_to_'') of
           None \<Rightarrow> tr
         | Some (before_to, after_to) \<Rightarrow>
             (let src = trim before_to; after_to = trim after_to;
                  (tgt, trig) = (case split_once ''_on_'' after_to of
                     Some (t, g) \<Rightarrow> (trim t, trim g) | None \<Rightarrow> (after_to, []))
              in if src \<noteq> [] \<and> tgt \<noteq> [] then
                   tr\<lparr>tx_source := Some src, tx_target := Some tgt,
                      tx_trigger := (if tx_trigger tr = None \<and> trig \<noteq> [] then Some trig else tx_trigger tr)\<rparr>
                 else tr))
      else tr)"

definition finalize_transition_def :: "F64Text \<Rightarrow> Token list \<Rightarrow> TransitionDef \<Rightarrow> TransitionDef" where
  "finalize_transition_def F ts tr0 =
     (let tr = infer_endpoints tr0 in
      if tx_name tr = None \<and> tx_source tr = None \<and> tx_target tr = None \<and> tx_trigger tr = None
         \<and> tx_guard tr = None \<and> tx_effect tr = None \<and> ts \<noteq> [] \<and> format_transition_expr F ts \<noteq> []
      then tr\<lparr>tx_name := Some (format_transition_expr F ts)\<rparr> else tr)"

lemma endpoint_tail_le: "length (snd (endpoint_tail F ts)) \<le> length ts"
proof (induction F ts rule: endpoint_tail.induct)
  case (1 F s ts)
  show ?case
  proof (cases ts)
    case (Cons t ts')
    then show ?thesis using "1.IH"(1) [of t ts'] "1.IH"(2) [of t ts']
      by (cases "token_lexeme F t = []")
        (auto simp: case_prod_unfold Let_def intro: le_SucI)
  qed simp
qed simp

lemma parse_transition_endpoint_le: "length (snd (parse_transition_endpoint F ts)) \<le> length ts"
proof (cases ts)
  case (Cons t ts')
  have le: "length (snd (endpoint_tail F us)) \<le> length us" for us by (rule endpoint_tail_le)
  show ?thesis using Cons le [of "tl ts'"] le [of ts']
    by (auto simp: parse_transition_endpoint_def Let_def case_prod_unfold split: list.splits if_splits)
qed (simp add: parse_transition_endpoint_def)

lemma endpoint_left: "(ep, left) = parse_transition_endpoint F ts \<Longrightarrow> length left \<le> length ts"
  by (metis parse_transition_endpoint_le snd_conv)

lemma clause_left: "(clause, left) = parse_transition_clause_expr F b (t # ts) \<Longrightarrow> length left \<le> length ts"
  by (simp add: parse_transition_clause_expr_def Let_def)

text \<open>The loop over the clauses.\<close>

function transition_clauses :: "F64Text \<Rightarrow> TransitionDef \<Rightarrow> Token list \<Rightarrow> TransitionDef" where
  "transition_clauses F tr [] = tr"
| "transition_clauses F tr (t # ts) =
     (let kw = token_lexeme F t;
          (endpoint, past_endpoint) = parse_transition_endpoint F ts;
          (clause, past_clause) = parse_transition_clause_expr F (kw = ''do'') (t # ts)
      in if \<not> is_transition_keyword_token t then transition_clauses F tr ts
         else if kw = ''first'' \<or> kw = ''from'' then
           transition_clauses F (tr\<lparr>tx_source := or_given endpoint (tx_source tr)\<rparr>) past_endpoint
         else if kw = ''then'' \<or> kw = ''to'' then
           transition_clauses F (tr\<lparr>tx_target := or_given endpoint (tx_target tr)\<rparr>) past_endpoint
         else if kw = ''accept'' then
           transition_clauses F (tr\<lparr>tx_trigger := or_given clause (tx_trigger tr)\<rparr>) past_clause
         else if kw = ''if'' then
           transition_clauses F (tr\<lparr>tx_guard := or_given clause (tx_guard tr)\<rparr>) past_clause
         else if kw = ''do'' then
           transition_clauses F (tr\<lparr>tx_effect := or_given clause (tx_effect tr)\<rparr>) past_clause
         else transition_clauses F tr ts)"
  by pat_completeness auto
termination
  by (relation "measure (\<lambda>(F, tr, ts). length ts)")
    (auto simp: less_Suc_eq_le dest!: endpoint_left clause_left)

declare transition_clauses.simps [simp del]

definition transition_token :: "Token \<Rightarrow> bool" where
  "transition_token t \<longleftrightarrow> tok_kind t \<noteq> Eof \<and> tok_kind t \<noteq> Sym SSemi \<and> \<not> is_comment_kind (tok_kind t)"

definition parse_transition_tokens :: "F64Text \<Rightarrow> Token list \<Rightarrow> TransitionDef" where
  "parse_transition_tokens F raw_tokens =
     (let ts = filter transition_token raw_tokens;
          (name, left) = (case ts of
             t # _ \<Rightarrow> (if is_transition_keyword_token t then (None, ts) else parse_transition_endpoint F ts)
           | [] \<Rightarrow> (None, ts))
      in finalize_transition_def F ts (transition_clauses F (default_transition\<lparr>tx_name := name\<rparr>) left))"

definition parse_transition_clause :: "(string \<Rightarrow> nat) \<Rightarrow> F64Text \<Rightarrow> string \<Rightarrow> TransitionDef option" where
  "parse_transition_clause err F raw =
     map_option (\<lambda>r. case r of
         Inr tokens \<Rightarrow> parse_transition_tokens F tokens
       | Inl _ \<Rightarrow> default_transition\<lparr>tx_name := (if trim raw = [] then None else Some (trim raw))\<rparr>)
       (tokenize_source err F raw)"

definition trimmed_text :: "string option \<Rightarrow> string option" where
  "trimmed_text v = non_empty_text (map_option trim v)"

definition clause_text :: "string \<Rightarrow> string option \<Rightarrow> string list" where
  "clause_text word v = (case trimmed_text v of Some s \<Rightarrow> [word @ '' '' @ s] | None \<Rightarrow> [])"

definition format_transition_clause :: "TransitionDef \<Rightarrow> string" where
  "format_transition_clause t =
     (let parts =
        (case trimmed_text (tx_name t) of
           Some n \<Rightarrow> (if list_ex is_whitespace n \<or> is_transition_clause_keyword n then [] else [n])
         | None \<Rightarrow> [])
        @ clause_text ''first'' (tx_source t) @ clause_text ''accept'' (tx_trigger t)
        @ clause_text ''if'' (tx_guard t) @ clause_text ''do'' (tx_effect t) @ clause_text ''then'' (tx_target t)
      in if parts = [] then trim (case tx_name t of Some n \<Rightarrow> n | None \<Rightarrow> []) else join '' '' parts)"

section \<open>Actions\<close>

text \<open>What an action collects: the in, out and plain parameters, the performer and the steps.\<close>

type_synonym given_params = "AttributeDef list \<times> AttributeDef list"

definition add_param :: "bool \<Rightarrow> AttributeDef \<Rightarrow> given_params \<Rightarrow> given_params" where
  "add_param is_out a = (\<lambda>(ins, outs). if is_out then (ins, outs @ [a]) else (ins @ [a], outs))"

definition parse_action_header_params :: "F64Text \<Rightarrow> nat \<Rightarrow> SysmlParser \<Rightarrow> given_params outcome" where
  "parse_action_header_params F n p =
     and_then (expect (Sym SOpenParen) p) (\<lambda>_ p.
     and_then (loop_until (Sym SCloseParen)
       (\<lambda>params p.
          let is_out = check (Kw KOut) p \<or> check (Kw KInout) p;
              p = eat_attribute_or_item (if at_direction p then advance p else p)
          in and_then (expect_ident p) (\<lambda>name p.
             and_then (type_or at_type_separator ''Real'' n p) (\<lambda>ty p.
               let (d, p) = param_default F p in
               next_round (add_param is_out \<lparr>attr_name = name, attr_type_name = ty, attr_default_value = d,
                 attr_doc = None\<rparr> params) (eat (Sym SComma) p)))) ([], []) p)
     (\<lambda>params p. and_then (expect (Sym SCloseParen) p) (\<lambda>_ p. Done params p)))"

definition parse_action_body_param :: "F64Text \<Rightarrow> nat \<Rightarrow> given_params \<Rightarrow> SysmlParser \<Rightarrow> given_params outcome" where
  "parse_action_body_param F n params p =
     (let is_out = check (Kw KOut) p \<or> check (Kw KInout) p in
      and_then (expect_ident (eat_attribute_or_item (advance p))) (\<lambda>name p.
      and_then (type_or at_type_separator ''Real'' n p) (\<lambda>ty p.
      and_then (if at_value_separator p then (let (v, p) = read_until_semi F (advance p) in Done (Some v) p)
                else and_then (expect_semi p) (\<lambda>_ p. Done None p)) (\<lambda>d p.
        Done (add_param is_out \<lparr>attr_name = name, attr_type_name = ty, attr_default_value = d, attr_doc = None\<rparr>
          params) p))))"

definition parse_action_member :: "F64Text \<Rightarrow> nat \<Rightarrow> ActionDef \<Rightarrow> SysmlParser \<Rightarrow> ActionDef outcome" where
  "parse_action_member F n act p =
     (if check (Kw KPerform) p then
        (let (v, p) = read_until_semi F (advance p) in Done (act\<lparr>action_performer := Some v\<rparr>) p)
      else if check (Kw KStep) p then
        (let (v, p) = read_until_semi F (advance p) in Done (act\<lparr>action_steps := action_steps act @ [v]\<rparr>) p)
      else if check (Kw KAttribute) p then
        and_then (parse_attribute_decl F n None p) (\<lambda>a p.
          Done (act\<lparr>action_parameters := action_parameters act @ [a]\<rparr>) p)
      else if at_direction p then
        and_then (parse_action_body_param F n (action_in_params act, action_out_params act) p) (\<lambda>(ins, outs) p.
          Done (act\<lparr>action_in_params := ins, action_out_params := outs\<rparr>) p)
      else unexpected_in ''action'' p)"

definition parse_action_decl :: "F64Text \<Rightarrow> nat \<Rightarrow> string option \<Rightarrow> SysmlParser \<Rightarrow> ActionDef outcome" where
  "parse_action_decl F n doc p =
     and_then (expect (Kw KAction) p) (\<lambda>_ p.
       let is_def = check (Kw KDef) p in
       and_then (expect_ident (eat (Kw KDef) p)) (\<lambda>name p.
       and_then (if check (Sym SOpenParen) p then parse_action_header_params F n p else Done ([], []) p) (\<lambda>(ins, outs) p.
       and_then (if at_type_separator p
                 then and_then (parse_type_expr n (advance p)) (\<lambda>_ p. Done () p) else Done () p) (\<lambda>_ p.
         opt_body
           (\<lambda>act p. let (d, p) = drain_first_inner_doc (action_doc act) p in (act\<lparr>action_doc := d\<rparr>, p))
           (parse_action_member F n)
           \<lparr>action_name = name, action_doc = doc, action_in_params = ins, action_out_params = outs,
            action_parameters = [], action_performer = None, action_steps = [], action_is_def = is_def\<rparr> p))))"

section \<open>States\<close>

text \<open>
  The comments before a member of a state. A property \<^verbatim>\<open>doc = "..."\<close> is the state's; the last comment is the
  next member's when that is a state or a transition, any other comment is the state's.
\<close>

definition at_doc :: "SysmlParser \<Rightarrow> bool" where
  "at_doc p \<longleftrightarrow> check (Kw KDoc) p \<or> (case peek_kind p of DocComment _ \<Rightarrow> True | _ \<Rightarrow> False)"

definition is_property_doc :: "SysmlParser \<Rightarrow> bool" where
  "is_property_doc p \<longleftrightarrow>
     check (Kw KDoc) p \<and> \<not> (case second_kind p of Some (DocComment _) \<Rightarrow> True | _ \<Rightarrow> False)"

function state_docs :: "string option \<Rightarrow> string option \<Rightarrow> SysmlParser \<Rightarrow> (string option \<times> string option) \<times> SysmlParser" where
  "state_docs inner owner_doc p =
     (if at_doc p then
        (case take_inner_doc_comment p of
           (Some d, q) \<Rightarrow>
             if is_property_doc p then state_docs inner (give_doc (Some d) owner_doc) (skip_trivia q)
             else state_docs (Some d) (give_doc inner owner_doc) (skip_trivia q)
         | (None, _) \<Rightarrow> ((inner, owner_doc), p))
      else ((inner, owner_doc), p))"
  by pat_completeness auto
termination
  by (relation "measure (\<lambda>(inner, state_doc, p). length (ahead p))")
    (auto intro: le_less_trans [OF length_skip_trivia] dest: take_inner_doc_comment_Some sym)

declare state_docs.simps [simp del]

definition take_state_member_doc ::
  "string option \<Rightarrow> SysmlParser \<Rightarrow> (string option \<times> string option) \<times> SysmlParser" where
  "take_state_member_doc owner_doc p =
     (let ((inner, owner_doc), p) = state_docs None owner_doc (skip_trivia p) in
      if check (Sym SCloseBrace) p \<or> is_at_end p \<or> (\<not> check (Kw KState) p \<and> \<not> check (Kw KTransition) p)
      then ((None, give_doc inner owner_doc), p)
      else ((inner, owner_doc), p))"

definition parse_state_action_clause :: "F64Text \<Rightarrow> SysmlParser \<Rightarrow> string \<times> SysmlParser" where
  "parse_state_action_clause F p =
     (let (ts, p) = read_tokens_until_semi (advance p) in
      (format_transition_expr F (drop_action_word (filter transition_token ts)), p))"

text \<open>The state under construction: its fields after the name, with the comment of the next member.\<close>

type_synonym state_draft = "string option \<times> StateDef"

fun set_state_doc :: "string option \<Rightarrow> StateDef \<Rightarrow> StateDef" where
  "set_state_doc d (StateDef nm _ en dc ex trs subs) = StateDef nm d en dc ex trs subs"
fun set_entry_action :: "string \<Rightarrow> StateDef \<Rightarrow> StateDef" where
  "set_entry_action a (StateDef nm d en dc ex trs subs) = StateDef nm d (Some a) dc ex trs subs"
fun set_do_action :: "string \<Rightarrow> StateDef \<Rightarrow> StateDef" where
  "set_do_action a (StateDef nm d en dc ex trs subs) = StateDef nm d en (Some a) ex trs subs"
fun set_exit_action :: "string \<Rightarrow> StateDef \<Rightarrow> StateDef" where
  "set_exit_action a (StateDef nm d en dc ex trs subs) = StateDef nm d en dc (Some a) trs subs"
fun push_transition :: "TransitionDef \<Rightarrow> StateDef \<Rightarrow> StateDef" where
  "push_transition t (StateDef nm d en dc ex trs subs) = StateDef nm d en dc ex (trs @ [t]) subs"
fun push_sub_state :: "StateDef \<Rightarrow> StateDef \<Rightarrow> StateDef" where
  "push_sub_state s (StateDef nm d en dc ex trs subs) = StateDef nm d en dc ex trs (subs @ [s])"

definition parse_state_member ::
  "F64Text \<Rightarrow> (string option \<Rightarrow> SysmlParser \<Rightarrow> StateDef outcome) \<Rightarrow> state_draft \<Rightarrow> SysmlParser \<Rightarrow> state_draft outcome" where
  "parse_state_member F state_decl = (\<lambda>(inner_doc, st) p.
     if check (Kw KEntry) p then
       (let (a, p) = parse_state_action_clause F p in Done (None, set_entry_action a st) p)
     else if check (Kw KDo) p then
       (let (a, p) = parse_state_action_clause F p in Done (None, set_do_action a st) p)
     else if check (Kw KExit) p then
       (let (a, p) = parse_state_action_clause F p in Done (None, set_exit_action a st) p)
     else if check (Kw KState) p then
       and_then (state_decl inner_doc p) (\<lambda>s p. Done (None, push_sub_state s st) p)
     else if check (Kw KTransition) p then
       (let (ts, p) = read_tokens_until_semi (advance p);
            t = parse_transition_tokens F ts;
            t = (if inner_doc = None then t else t\<lparr>tx_doc := inner_doc\<rparr>)
        in Done (None, push_transition t st) p)
     else unexpected_in ''state'' p)"

definition parse_state_decl_inner ::
  "F64Text \<Rightarrow> (string option \<Rightarrow> SysmlParser \<Rightarrow> StateDef outcome) \<Rightarrow> string option \<Rightarrow> SysmlParser \<Rightarrow> StateDef outcome" where
  "parse_state_decl_inner F state_decl doc p =
     and_then (decl_name KState p) (\<lambda>name p.
     and_then (opt_body
         (\<lambda>(_, st) p. let ((inner, d), p) = take_state_member_doc (state_doc st) p
            in ((inner, set_state_doc d st), p))
         (parse_state_member F state_decl)
         (None, StateDef name doc None None None [] []) p) (\<lambda>(_, st) p. Done st p))"

fun parse_state_decl :: "F64Text \<Rightarrow> nat \<Rightarrow> string option \<Rightarrow> SysmlParser \<Rightarrow> StateDef outcome" where
  "parse_state_decl F 0 doc p = max_depth_error p"
| "parse_state_decl F (Suc n) doc p = parse_state_decl_inner F (parse_state_decl F n) doc p"

end
