(* ===== verification/Hir_Package.thy ===== *)
theory Hir_Package
  imports Hir_States
begin

text \<open>
  Parts, packages and whole files of the compiler's parser (\<^verbatim>\<open>hir_parser_parts.rs\<close>,
  \<^verbatim>\<open>hir_parser_structural.rs\<close>, \<^verbatim>\<open>SysmlParser::parse_source\<close>) and the merging of packages
  (\<^verbatim>\<open>hir_db.rs\<close>). Where the code pushes a member into the package or the part it is handed by
  reference, \<open>scope\<close> is the pair of both and \<open>push_member\<close> the push.
\<close>

section \<open>Members of a scope\<close>

datatype Member =
    PartMember PartDef | StateMember StateDef | PortMember PortDef | AttributeMember AttributeDef
  | ActionMember ActionDef | ConstraintMember ConstraintDef | RequirementMember RequirementDef
  | ConnectionMember ConnectionDef | UseCaseMember UseCaseDef | ItemMember ItemDef
  | HazardMember HazardDef | RiskMember RiskDef | TestCaseMember TestCaseDef
  | CapabilityMember CapabilityDef | OperationMember OperationDef | InteractionMember InteractionDef
  | CalcMember CalcDef

fun push_part_member :: "Member \<Rightarrow> PartDef \<Rightarrow> PartDef" where
  "push_part_member m
     (PartDef n d is_def ty atts pts acts cons reqs sat parts ops caps ints tcs sts ucs its hs rs cs cls th sr l) =
   (case m of
      PartMember x \<Rightarrow> PartDef n d is_def ty atts pts acts cons reqs sat (parts @ [x]) ops caps ints tcs sts ucs its hs rs cs cls th sr l
    | StateMember x \<Rightarrow> PartDef n d is_def ty atts pts acts cons reqs sat parts ops caps ints tcs (sts @ [x]) ucs its hs rs cs cls th sr l
    | PortMember x \<Rightarrow> PartDef n d is_def ty atts (pts @ [x]) acts cons reqs sat parts ops caps ints tcs sts ucs its hs rs cs cls th sr l
    | AttributeMember x \<Rightarrow> PartDef n d is_def ty (atts @ [x]) pts acts cons reqs sat parts ops caps ints tcs sts ucs its hs rs cs cls th sr l
    | ActionMember x \<Rightarrow> PartDef n d is_def ty atts pts (acts @ [x]) cons reqs sat parts ops caps ints tcs sts ucs its hs rs cs cls th sr l
    | ConstraintMember x \<Rightarrow> PartDef n d is_def ty atts pts acts (cons @ [x]) reqs sat parts ops caps ints tcs sts ucs its hs rs cs cls th sr l
    | RequirementMember x \<Rightarrow> PartDef n d is_def ty atts pts acts cons (reqs @ [x]) sat parts ops caps ints tcs sts ucs its hs rs cs cls th sr l
    | ConnectionMember x \<Rightarrow> PartDef n d is_def ty atts pts acts cons reqs sat parts ops caps ints tcs sts ucs its hs rs (cs @ [x]) cls th sr l
    | UseCaseMember x \<Rightarrow> PartDef n d is_def ty atts pts acts cons reqs sat parts ops caps ints tcs sts (ucs @ [x]) its hs rs cs cls th sr l
    | ItemMember x \<Rightarrow> PartDef n d is_def ty atts pts acts cons reqs sat parts ops caps ints tcs sts ucs (its @ [x]) hs rs cs cls th sr l
    | HazardMember x \<Rightarrow> PartDef n d is_def ty atts pts acts cons reqs sat parts ops caps ints tcs sts ucs its (hs @ [x]) rs cs cls th sr l
    | RiskMember x \<Rightarrow> PartDef n d is_def ty atts pts acts cons reqs sat parts ops caps ints tcs sts ucs its hs (rs @ [x]) cs cls th sr l
    | TestCaseMember x \<Rightarrow> PartDef n d is_def ty atts pts acts cons reqs sat parts ops caps ints (tcs @ [x]) sts ucs its hs rs cs cls th sr l
    | CapabilityMember x \<Rightarrow> PartDef n d is_def ty atts pts acts cons reqs sat parts ops (caps @ [x]) ints tcs sts ucs its hs rs cs cls th sr l
    | OperationMember x \<Rightarrow> PartDef n d is_def ty atts pts acts cons reqs sat parts (ops @ [x]) caps ints tcs sts ucs its hs rs cs cls th sr l
    | InteractionMember x \<Rightarrow> PartDef n d is_def ty atts pts acts cons reqs sat parts ops caps (ints @ [x]) tcs sts ucs its hs rs cs cls th sr l
    | CalcMember x \<Rightarrow> PartDef n d is_def ty atts pts acts cons reqs sat parts ops caps ints tcs sts ucs its hs rs cs (cls @ [x]) th sr l)"

fun push_package_member :: "Member \<Rightarrow> PackageDef \<Rightarrow> PackageDef" where
  "push_package_member m (PackageDef n d pp im pk pd po at ac op ca it co tc rq sr st uc im_s hz rk cn cl) =
   (case m of
      PartMember x \<Rightarrow> PackageDef n d pp im pk (pd @ [x]) po at ac op ca it co tc rq sr st uc im_s hz rk cn cl
    | StateMember x \<Rightarrow> PackageDef n d pp im pk pd po at ac op ca it co tc rq sr (st @ [x]) uc im_s hz rk cn cl
    | PortMember x \<Rightarrow> PackageDef n d pp im pk pd (po @ [x]) at ac op ca it co tc rq sr st uc im_s hz rk cn cl
    | AttributeMember x \<Rightarrow> PackageDef n d pp im pk pd po (at @ [x]) ac op ca it co tc rq sr st uc im_s hz rk cn cl
    | ActionMember x \<Rightarrow> PackageDef n d pp im pk pd po at (ac @ [x]) op ca it co tc rq sr st uc im_s hz rk cn cl
    | ConstraintMember x \<Rightarrow> PackageDef n d pp im pk pd po at ac op ca it (co @ [x]) tc rq sr st uc im_s hz rk cn cl
    | RequirementMember x \<Rightarrow> PackageDef n d pp im pk pd po at ac op ca it co tc (rq @ [x]) sr st uc im_s hz rk cn cl
    | ConnectionMember x \<Rightarrow> PackageDef n d pp im pk pd po at ac op ca it co tc rq sr st uc im_s hz rk (cn @ [x]) cl
    | UseCaseMember x \<Rightarrow> PackageDef n d pp im pk pd po at ac op ca it co tc rq sr st (uc @ [x]) im_s hz rk cn cl
    | ItemMember x \<Rightarrow> PackageDef n d pp im pk pd po at ac op ca it co tc rq sr st uc (im_s @ [x]) hz rk cn cl
    | HazardMember x \<Rightarrow> PackageDef n d pp im pk pd po at ac op ca it co tc rq sr st uc im_s (hz @ [x]) rk cn cl
    | RiskMember x \<Rightarrow> PackageDef n d pp im pk pd po at ac op ca it co tc rq sr st uc im_s hz (rk @ [x]) cn cl
    | TestCaseMember x \<Rightarrow> PackageDef n d pp im pk pd po at ac op ca it co (tc @ [x]) rq sr st uc im_s hz rk cn cl
    | CapabilityMember x \<Rightarrow> PackageDef n d pp im pk pd po at ac op (ca @ [x]) it co tc rq sr st uc im_s hz rk cn cl
    | OperationMember x \<Rightarrow> PackageDef n d pp im pk pd po at ac (op @ [x]) ca it co tc rq sr st uc im_s hz rk cn cl
    | InteractionMember x \<Rightarrow> PackageDef n d pp im pk pd po at ac op ca (it @ [x]) co tc rq sr st uc im_s hz rk cn cl
    | CalcMember x \<Rightarrow> PackageDef n d pp im pk pd po at ac op ca it co tc rq sr st uc im_s hz rk cn (cl @ [x]))"

text \<open>The package and the part, if there is one, that a member goes to.\<close>

type_synonym scope = "PackageDef \<times> PartDef option"

definition push_member :: "Member \<Rightarrow> scope \<Rightarrow> scope" where
  "push_member m = (\<lambda>(pkg, parent).
     case parent of Some part \<Rightarrow> (pkg, Some (push_part_member m part)) | None \<Rightarrow> (push_package_member m pkg, None))"

text \<open>The fields that are set rather than pushed.\<close>

fun set_part_doc :: "string option \<Rightarrow> PartDef \<Rightarrow> PartDef" where
  "set_part_doc v (PartDef n d is_def ty atts pts acts cons reqs sat parts ops caps ints tcs sts ucs its hs rs cs cls th sr l) =
   PartDef n v is_def ty atts pts acts cons reqs sat parts ops caps ints tcs sts ucs its hs rs cs cls th sr l"

fun set_part_satisfied :: "string list \<Rightarrow> PartDef \<Rightarrow> PartDef" where
  "set_part_satisfied v (PartDef n d is_def ty atts pts acts cons reqs sat parts ops caps ints tcs sts ucs its hs rs cs cls th sr l) =
   PartDef n d is_def ty atts pts acts cons reqs v parts ops caps ints tcs sts ucs its hs rs cs cls th sr l"

fun set_part_annotations :: "string list \<Rightarrow> string list \<Rightarrow> string option \<Rightarrow> PartDef \<Rightarrow> PartDef" where
  "set_part_annotations a b c (PartDef n d is_def ty atts pts acts cons reqs sat parts ops caps ints tcs sts ucs its hs rs cs cls th sr l) =
   PartDef n d is_def ty atts pts acts cons reqs sat parts ops caps ints tcs sts ucs its hs rs cs cls a b c"

fun set_package_doc :: "string option \<Rightarrow> PackageDef \<Rightarrow> PackageDef" where
  "set_package_doc v (PackageDef n d pp im pk pd po at ac op ca it co tc rq sr st uc im_s hz rk cn cl) =
   PackageDef n v pp im pk pd po at ac op ca it co tc rq sr st uc im_s hz rk cn cl"

fun set_package_satisfied :: "string list \<Rightarrow> PackageDef \<Rightarrow> PackageDef" where
  "set_package_satisfied v (PackageDef n d pp im pk pd po at ac op ca it co tc rq sr st uc im_s hz rk cn cl) =
   PackageDef n d pp im pk pd po at ac op ca it co tc rq v st uc im_s hz rk cn cl"

fun set_imports :: "ImportDef list \<Rightarrow> PackageDef \<Rightarrow> PackageDef" where
  "set_imports v (PackageDef n d pp im pk pd po at ac op ca it co tc rq sr st uc im_s hz rk cn cl) =
   PackageDef n d pp v pk pd po at ac op ca it co tc rq sr st uc im_s hz rk cn cl"

fun set_packages :: "PackageDef list \<Rightarrow> PackageDef \<Rightarrow> PackageDef" where
  "set_packages v (PackageDef n d pp im pk pd po at ac op ca it co tc rq sr st uc im_s hz rk cn cl) =
   PackageDef n d pp im v pd po at ac op ca it co tc rq sr st uc im_s hz rk cn cl"

definition named_package :: "string \<Rightarrow> string option \<Rightarrow> PackageDef list \<Rightarrow> PackageDef" where
  "named_package name doc pkgs = PackageDef name doc None [] pkgs [] [] [] [] [] [] [] [] [] [] [] [] [] [] [] [] [] []"

definition new_part :: "string \<Rightarrow> string option \<Rightarrow> bool \<Rightarrow> string option \<Rightarrow> PartDef" where
  "new_part name doc is_def type_name =
     PartDef name doc is_def type_name [] [] [] [] [] [] [] [] [] [] [] [] [] [] [] [] [] [] [] [] None"

section \<open>Merging packages\<close>

definition same_import :: "ImportDef \<Rightarrow> ImportDef \<Rightarrow> bool" where
  "same_import a b \<longleftrightarrow> import_path a = import_path b \<and> import_is_wildcard a = import_is_wildcard b
     \<and> import_is_recursive a = import_is_recursive b"

definition add_import :: "ImportDef \<Rightarrow> ImportDef list \<Rightarrow> ImportDef list" where
  "add_import imp imps = (if list_ex (\<lambda>x. same_import x imp) imps then imps else imps @ [imp])"

definition add_target :: "string \<Rightarrow> string list \<Rightarrow> string list" where
  "add_target v vs = (if v \<in> set vs then vs else vs @ [v])"

text \<open>Everything but the child packages, which the caller merges.\<close>

definition merge_package_direct_members :: "PackageDef \<Rightarrow> PackageDef \<Rightarrow> PackageDef" where
  "merge_package_direct_members src dest =
     PackageDef (pkg_name dest)
       (case pkg_doc dest of None \<Rightarrow> pkg_doc src | d \<Rightarrow> d)
       (case pkg_parent_package dest of None \<Rightarrow> pkg_parent_package src | d \<Rightarrow> d)
       (fold add_import (pkg_imports src) (pkg_imports dest))
       (pkg_packages dest)
       (pkg_part_defs dest @ pkg_part_defs src) (pkg_port_defs dest @ pkg_port_defs src)
       (pkg_attribute_defs dest @ pkg_attribute_defs src) (pkg_action_defs dest @ pkg_action_defs src)
       (pkg_operation_defs dest @ pkg_operation_defs src) (pkg_capability_defs dest @ pkg_capability_defs src)
       (pkg_interaction_defs dest @ pkg_interaction_defs src) (pkg_constraint_defs dest @ pkg_constraint_defs src)
       (pkg_test_case_defs dest @ pkg_test_case_defs src) (pkg_requirement_defs dest @ pkg_requirement_defs src)
       (fold add_target (pkg_satisfied_requirements src) (pkg_satisfied_requirements dest))
       (pkg_state_defs dest @ pkg_state_defs src) (pkg_use_case_defs dest @ pkg_use_case_defs src)
       (pkg_item_defs dest @ pkg_item_defs src) (pkg_hazard_defs dest @ pkg_hazard_defs src)
       (pkg_risk_defs dest @ pkg_risk_defs src) (pkg_connection_defs dest @ pkg_connection_defs src)
       (pkg_calc_defs dest @ pkg_calc_defs src)"

text \<open>
  A child whose name is already there is kept for the package of that name, any other is appended. The
  pending children are \<^verbatim>\<open>pending_by_index\<close>, in the order they were met.
\<close>

definition place_child :: "PackageDef \<Rightarrow> PackageDef list \<times> (string \<times> PackageDef) list \<Rightarrow> PackageDef list \<times> (string \<times> PackageDef) list" where
  "place_child child = (\<lambda>(pkgs, pending).
     if list_ex (\<lambda>p. pkg_name p = pkg_name child) pkgs then (pkgs, pending @ [(pkg_name child, child)])
     else (pkgs @ [child], pending))"

text \<open>The first package of each name gets what is pending for the name.\<close>

fun merge_pending :: "(PackageDef list \<Rightarrow> PackageDef \<Rightarrow> PackageDef) \<Rightarrow> (string \<times> PackageDef) list \<Rightarrow> PackageDef list \<Rightarrow> PackageDef list" where
  "merge_pending merge pending [] = []"
| "merge_pending merge pending (p # ps) =
     (let mine = map snd (filter (\<lambda>(n, _). n = pkg_name p) pending);
          others = filter (\<lambda>(n, _). n \<noteq> pkg_name p) pending
      in (if mine = [] then p else merge mine p) # merge_pending merge others ps)"

text \<open>A frame of the work stack, with what is left of \<^verbatim>\<open>MAX_PARSE_DEPTH\<close>.\<close>

primrec merge_frame :: "nat \<Rightarrow> PackageDef list \<Rightarrow> PackageDef \<Rightarrow> PackageDef" where
  "merge_frame 0 sources dest = dest"
| "merge_frame (Suc n) sources dest =
     (let dest' = fold merge_package_direct_members sources dest;
          (pkgs, pending) = fold place_child (concat (map pkg_packages sources)) (pkg_packages dest', [])
      in if n = 0 then dest' else set_packages (merge_pending (merge_frame n) pending pkgs) dest')"

definition merge_package_defs :: "PackageDef \<Rightarrow> PackageDef \<Rightarrow> PackageDef" where
  "merge_package_defs dest src = merge_frame MAX_PARSE_DEPTH [src] dest"

definition has_no_definitions :: "PackageDef \<Rightarrow> bool" where
  "has_no_definitions pkg \<longleftrightarrow>
     pkg_attribute_defs pkg = [] \<and> pkg_port_defs pkg = [] \<and> pkg_action_defs pkg = []
     \<and> pkg_constraint_defs pkg = [] \<and> pkg_calc_defs pkg = [] \<and> pkg_requirement_defs pkg = []
     \<and> pkg_state_defs pkg = [] \<and> pkg_connection_defs pkg = [] \<and> pkg_use_case_defs pkg = []
     \<and> pkg_item_defs pkg = [] \<and> pkg_hazard_defs pkg = [] \<and> pkg_risk_defs pkg = []
     \<and> pkg_test_case_defs pkg = [] \<and> pkg_capability_defs pkg = [] \<and> pkg_operation_defs pkg = []
     \<and> pkg_interaction_defs pkg = [] \<and> pkg_part_defs pkg = []"

definition is_synthetic_forest_root :: "PackageDef \<Rightarrow> bool" where
  "is_synthetic_forest_root pkg \<longleftrightarrow>
     (pkg_name pkg = [] \<or> pkg_name pkg = ''SysML_Model'') \<and> pkg_packages pkg \<noteq> []
     \<and> has_no_definitions pkg \<and> pkg_satisfied_requirements pkg = []"

section \<open>Leaf members\<close>

definition parse_import_decl :: "string option \<Rightarrow> SysmlParser \<Rightarrow> ImportDef outcome" where
  "parse_import_decl doc p =
     and_then (expect (Kw KImport) p) (\<lambda>_ p.
       let leading_colon = check (Sym SDoubleColon) p in
       and_then (expect_ident (eat (Sym SDoubleColon) p)) (\<lambda>s p.
       and_then (loop_while (check (Sym SDoubleColon))
         (\<lambda>(segments, _, _) p.
            let p = advance p in
            if check (Sym SStar) p then
              (let p = advance p in break_loop (segments, True, check (Sym SStar) p) (eat (Sym SStar) p))
            else and_then (expect_ident p) (\<lambda>s p. next_round (segments @ [s], False, False) p))
         ([s], False, False) p) (\<lambda>(segments, is_wildcard, is_recursive) p.
       and_then (expect_semi p) (\<lambda>_ p.
         Done \<lparr>import_path = (if leading_colon then ''::'' else []) @ join ''::'' segments,
               import_is_wildcard = is_wildcard, import_is_recursive = is_recursive, import_doc = doc\<rparr> p))))"

definition apply_part_stereotype :: "string \<Rightarrow> string list \<Rightarrow> PartDef \<Rightarrow> PartDef" where
  "apply_part_stereotype stereo_name vals part =
     (let th = part_triggers_hazards part; sr = part_safety_realises part; l = part_layer part in
      if stereo_name = ''TriggersHazard'' then set_part_annotations (fold push_absent vals th) sr l part
      else if stereo_name = ''SafetyRealises'' then set_part_annotations th (fold push_absent vals sr) l part
      else if stereo_name = ''Layer'' then
        (case find (\<lambda>v. v \<noteq> []) vals of Some v \<Rightarrow> set_part_annotations th sr (Some v) part | None \<Rightarrow> part)
      else part)"

definition push_parsed :: "('a \<Rightarrow> Member) \<Rightarrow> scope \<Rightarrow> 'a outcome \<Rightarrow> scope outcome" where
  "push_parsed member sc r = and_then r (\<lambda>x p. Done (push_member (member x) sc) p)"

definition add_satisfied :: "string \<Rightarrow> scope \<Rightarrow> scope" where
  "add_satisfied target = (\<lambda>(pkg, parent).
     case parent of
       Some part \<Rightarrow> (pkg, Some (set_part_satisfied (push_absent target (part_satisfied_requirements part)) part))
     | None \<Rightarrow> (set_package_satisfied (push_absent target (pkg_satisfied_requirements pkg)) pkg, None))"

definition parse_stereotype_member :: "scope \<Rightarrow> SysmlParser \<Rightarrow> scope outcome" where
  "parse_stereotype_member = (\<lambda>(pkg, parent) p.
     if peek_stereotype_name p \<noteq> None then
       (let ((stereo_name, vals), p) = parse_stereotype_annotation p
        in Done (pkg, map_option (apply_part_stereotype stereo_name vals) parent) p)
     else error_at (UnexpectedInContainer (tok_kind (peek_tok p))) p)"

definition parse_leaf_container_item ::
  "F64Text \<Rightarrow> nat \<Rightarrow> string option \<Rightarrow> scope \<Rightarrow> SysmlParser \<Rightarrow> scope outcome" where
  "parse_leaf_container_item F n doc sc p =
     (case peek_kind p of
        Kw k \<Rightarrow>
          if k = KPort then push_parsed PortMember sc (parse_port_decl F n doc p)
          else if k \<in> {KIn, KOut, KInout} \<and> peek_next_is KPort p then
            push_parsed PortMember sc (parse_port_decl F n doc p)
          else if k = KAttribute then push_parsed AttributeMember sc (parse_attribute_decl F n doc p)
          else if k = KAction then push_parsed ActionMember sc (parse_action_decl F n doc p)
          else if k = KConstraint \<or> k = KAssert then
            push_parsed ConstraintMember sc (parse_constraint_decl F n doc p)
          else if k = KRequirement then push_parsed RequirementMember sc (parse_requirement_decl F n doc p)
          else if k = KSatisfy then and_then (parse_satisfy_stmt F p) (\<lambda>v p. Done (add_satisfied v sc) p)
          else if k = KImport then
            and_then (parse_import_decl doc p) (\<lambda>imp p.
              Done (set_imports (pkg_imports (fst sc) @ [imp]) (fst sc), snd sc) p)
          else if k = KConnection then push_parsed ConnectionMember sc (parse_connection_decl F n doc False p)
          else if k = KConnect then push_parsed ConnectionMember sc (parse_inline_connect_decl doc p)
          else if k = KFlow then push_parsed ConnectionMember sc (parse_connection_decl F n doc True p)
          else if k = KUseCase then push_parsed UseCaseMember sc (parse_use_case_decl F doc p)
          else if k = KItem then push_parsed ItemMember sc (parse_item_decl F n doc p)
          else if k = KHazard then push_parsed HazardMember sc (parse_hazard_decl F n doc p)
          else if k = KRisk then push_parsed RiskMember sc (parse_risk_decl F n doc p)
          else if k = KTest then push_parsed TestCaseMember sc (parse_test_case_decl F doc p)
          else if k = KCapability then push_parsed CapabilityMember sc (parse_capability_decl F doc p)
          else if k = KOperation then push_parsed OperationMember sc (parse_operation_decl n doc p)
          else if k = KInteraction then push_parsed InteractionMember sc (parse_interaction_decl F doc p)
          else if k = KCalc then push_parsed CalcMember sc (parse_calc_decl F n doc p)
          else parse_stereotype_member sc p
      | _ \<Rightarrow> parse_stereotype_member sc p)"

section \<open>Containers\<close>

definition assign_container_doc :: "string option \<Rightarrow> scope \<Rightarrow> scope" where
  "assign_container_doc d = (\<lambda>(pkg, parent).
     case parent of
       Some part \<Rightarrow> (pkg, Some (set_part_doc (give_doc d (part_doc part)) part))
     | None \<Rightarrow> (set_package_doc (give_doc d (pkg_doc pkg)) pkg, None))"

lemma take_doc_comment_Some: "take_doc_comment p = (Some d, q) \<Longrightarrow> length (ahead q) < length (ahead p)"
  using length_take_doc_comment(2) [of p] by simp

text \<open>The comments before an item: the last one counts.\<close>

function last_doc :: "string option \<Rightarrow> SysmlParser \<Rightarrow> string option \<times> SysmlParser" where
  "last_doc d p =
     (case take_doc_comment p of
        (Some extra, q) \<Rightarrow> last_doc (Some extra) (skip_trivia q)
      | (None, _) \<Rightarrow> (d, p))"
  by pat_completeness auto
termination
  by (relation "measure (\<lambda>(d, p). length (ahead p))")
    (auto intro: le_less_trans [OF length_skip_trivia] dest: take_doc_comment_Some sym)

declare last_doc.simps [simp del]

definition container_doc :: "scope \<Rightarrow> SysmlParser \<Rightarrow> scope outcome" where
  "container_doc sc p =
     (let p = skip_trivia p;
          p = (if check (Sym SEq) p \<or> check (Sym SColon) p then skip_trivia (advance p) else p);
          (inner_doc, p) = (case peek_kind p of
             DocComment d \<Rightarrow> (Some d, advance p) | StringLit s \<Rightarrow> (Some s, advance p) | _ \<Rightarrow> (None, p))
      in Done (assign_container_doc inner_doc sc) (eat (Sym SSemi) p))"

text \<open>A parsed child joins the first package of its name.\<close>

fun merge_into_first :: "PackageDef \<Rightarrow> PackageDef list \<Rightarrow> PackageDef list" where
  "merge_into_first sub [] = [sub]"
| "merge_into_first sub (p # ps) =
     (if pkg_name p = pkg_name sub then merge_package_defs p sub # ps else p # merge_into_first sub ps)"

text \<open>The parsers of nested packages, parts and states are arguments, as they recurse.\<close>

definition parse_container_item_inner ::
  "F64Text \<Rightarrow> nat \<Rightarrow> (string option \<Rightarrow> SysmlParser \<Rightarrow> PackageDef outcome) \<Rightarrow>
   (string option \<Rightarrow> SysmlParser \<Rightarrow> PartDef outcome) \<Rightarrow> scope \<Rightarrow> SysmlParser \<Rightarrow> scope outcome" where
  "parse_container_item_inner F n package_decl part_decl sc p0 =
     (let (doc, p1) = take_doc_comment (skip_trivia p0);
          (doc, p) = last_doc doc (skip_trivia p1)
      in if is_at_end p \<or> check (Sym SCloseBrace) p then Done (assign_container_doc doc sc) p
         else if peek_kind p = Kw KDoc then container_doc sc (advance p)
         else if peek_kind p = Kw KPackage then
           and_then (package_decl doc p) (\<lambda>sub p.
             Done (set_packages (merge_into_first sub (pkg_packages (fst sc))) (fst sc), snd sc) p)
         else if peek_kind p = Kw KPart then push_parsed PartMember sc (part_decl doc p)
         else if peek_kind p = Kw KState then push_parsed StateMember sc (parse_state_decl F n doc p)
         else parse_leaf_container_item F n doc sc p)"

text \<open>\<^verbatim>\<open>while !close && !end { parse_container_item(..)?; self.skip_trivia(); }\<close>.\<close>

definition container_items ::
  "(SysmlParser \<Rightarrow> bool) \<Rightarrow> ('s \<Rightarrow> SysmlParser \<Rightarrow> 's outcome) \<Rightarrow> 's \<Rightarrow> SysmlParser \<Rightarrow> 's outcome" where
  "container_items cond item s p =
     loop_while cond (\<lambda>s p. and_then (item s p) (\<lambda>s p. next_round s (skip_trivia p))) s p"

definition parse_package_decl_inner ::
  "(scope \<Rightarrow> SysmlParser \<Rightarrow> scope outcome) \<Rightarrow> string option \<Rightarrow> SysmlParser \<Rightarrow> PackageDef outcome" where
  "parse_package_decl_inner item doc p =
     and_then (expect (Kw KPackage) p) (\<lambda>_ p.
     and_then (expect_ident p) (\<lambda>name p.
     and_then (expect (Sym SOpenBrace) p) (\<lambda>_ p.
       let p = skip_trivia p; (doc, p) = (if doc = None then take_doc_comment p else (doc, p)) in
       and_then (container_items (\<lambda>p. \<not> check (Sym SCloseBrace) p \<and> \<not> is_at_end p)
         (\<lambda>pkg p. and_then (item (pkg, None) p) (\<lambda>(pkg, _) p. Done pkg p)) (named_package name doc []) p) (\<lambda>pkg p.
       and_then (expect (Sym SCloseBrace) p) (\<lambda>_ p. Done pkg p)))))"

text \<open>
  A part reads its items into itself and a package that is thrown away; what the items put into that
  package is moved to the part, its packages, imports and documentation excepted.
\<close>

fun merge_dummy_pkg_into_part :: "PackageDef \<Rightarrow> PartDef \<Rightarrow> PartDef" where
  "merge_dummy_pkg_into_part dummy
     (PartDef n d is_def ty atts pts acts cons reqs sat parts ops caps ints tcs sts ucs its hs rs cs cls th sr l) =
   PartDef n d is_def ty (atts @ pkg_attribute_defs dummy) (pts @ pkg_port_defs dummy)
     (acts @ pkg_action_defs dummy) (cons @ pkg_constraint_defs dummy) (reqs @ pkg_requirement_defs dummy)
     (fold add_target (pkg_satisfied_requirements dummy) sat) (parts @ pkg_part_defs dummy)
     (ops @ pkg_operation_defs dummy) (caps @ pkg_capability_defs dummy) (ints @ pkg_interaction_defs dummy)
     (tcs @ pkg_test_case_defs dummy) (sts @ pkg_state_defs dummy) (ucs @ pkg_use_case_defs dummy)
     (its @ pkg_item_defs dummy) (hs @ pkg_hazard_defs dummy) (rs @ pkg_risk_defs dummy)
     (cs @ pkg_connection_defs dummy) (cls @ pkg_calc_defs dummy) th sr l"

definition parse_part_item :: "(scope \<Rightarrow> SysmlParser \<Rightarrow> scope outcome) \<Rightarrow> PartDef \<Rightarrow> SysmlParser \<Rightarrow> PartDef outcome" where
  "parse_part_item item part p =
     and_then (item (default_package, Some part) p) (\<lambda>(dummy, parent) p.
       Done (merge_dummy_pkg_into_part dummy (case parent of Some part \<Rightarrow> part | None \<Rightarrow> part)) p)"

definition parse_part_decl_inner ::
  "nat \<Rightarrow> (scope \<Rightarrow> SysmlParser \<Rightarrow> scope outcome) \<Rightarrow> string option \<Rightarrow> SysmlParser \<Rightarrow> PartDef outcome" where
  "parse_part_decl_inner n item doc p =
     and_then (expect (Kw KPart) p) (\<lambda>_ p.
       let is_def = check (Kw KDef) p in
       and_then (expect_ident (eat (Kw KDef) p)) (\<lambda>name p.
       and_then (if at_type_separator p
                 then and_then (parse_type_expr n (advance p)) (\<lambda>t p. Done (Some t) p) else Done None p) (\<lambda>type_name p.
         if check (Sym SOpenBrace) p then
           (let p = skip_trivia (advance p); (doc, p) = (if doc = None then take_doc_comment p else (doc, p)) in
            and_then (container_items (\<lambda>p. \<not> check (Sym SCloseBrace) p \<and> \<not> is_at_end p)
              (parse_part_item item) (new_part name doc is_def type_name) p) (\<lambda>part p.
            and_then (expect (Sym SCloseBrace) p) (\<lambda>_ p. Done part p)))
         else and_then (expect_semi p) (\<lambda>_ p. Done (new_part name doc is_def type_name) p))))"

text \<open>The three parsers, by what is left of \<^verbatim>\<open>MAX_PARSE_DEPTH\<close>.\<close>

fun parse_container_item :: "F64Text \<Rightarrow> nat \<Rightarrow> scope \<Rightarrow> SysmlParser \<Rightarrow> scope outcome"
  and parse_package_decl :: "F64Text \<Rightarrow> nat \<Rightarrow> string option \<Rightarrow> SysmlParser \<Rightarrow> PackageDef outcome"
  and parse_part_decl :: "F64Text \<Rightarrow> nat \<Rightarrow> string option \<Rightarrow> SysmlParser \<Rightarrow> PartDef outcome" where
  "parse_container_item F 0 sc p = max_depth_error p"
| "parse_container_item F (Suc n) sc p =
     parse_container_item_inner F n (parse_package_decl F n) (parse_part_decl F n) sc p"
| "parse_package_decl F 0 doc p = max_depth_error p"
| "parse_package_decl F (Suc n) doc p = parse_package_decl_inner (parse_container_item F n) doc p"
| "parse_part_decl F 0 doc p = max_depth_error p"
| "parse_part_decl F (Suc n) doc p = parse_part_decl_inner n (parse_container_item F n) doc p"

section \<open>Files\<close>

definition file_items :: "F64Text \<Rightarrow> PackageDef \<Rightarrow> SysmlParser \<Rightarrow> PackageDef outcome" where
  "file_items F = container_items (\<lambda>p. \<not> is_at_end p)
     (\<lambda>pkg p. and_then (parse_container_item F MAX_PARSE_DEPTH (pkg, None) p) (\<lambda>(pkg, _) p. Done pkg p))"

text \<open>A root with one package gives way to it.\<close>

definition collapse_root :: "bool \<Rightarrow> PackageDef \<Rightarrow> PackageDef" where
  "collapse_root may root =
     (case pkg_packages root of
        [single] \<Rightarrow> (if may then merge_package_defs single (set_packages [] root) else root)
      | _ \<Rightarrow> root)"

definition parse_package_or_file :: "F64Text \<Rightarrow> string \<Rightarrow> SysmlParser \<Rightarrow> PackageDef outcome" where
  "parse_package_or_file F default_pkg_name p0 =
     (let (pending_doc, p1) = take_doc_comment (skip_trivia p0); p = skip_trivia p1 in
      if check (Kw KPackage) p then
        and_then (parse_package_decl F MAX_PARSE_DEPTH pending_doc p) (\<lambda>first_pkg p.
          let p = skip_trivia p in
          if is_at_end p then Done first_pkg p
          else and_then (file_items F (named_package default_pkg_name None [first_pkg]) p) (\<lambda>root p.
            Done (collapse_root (is_synthetic_forest_root root \<or> pkg_name root = ''SysML_Model'' \<or> pkg_name root = [])
              root) p))
      else
        and_then (file_items F (named_package default_pkg_name pending_doc []) p) (\<lambda>pkg p.
          Done (collapse_root (is_synthetic_forest_root pkg) pkg) p))"

text \<open>\<open>None\<close> is a parse that never ends.\<close>

definition parse_source ::
  "(string \<Rightarrow> nat) \<Rightarrow> F64Text \<Rightarrow> string \<Rightarrow> string \<Rightarrow> (ParseError + PackageDef) option" where
  "parse_source err F source default_pkg_name =
     (case tokenize_source err F source of
        None \<Rightarrow> None
      | Some (Inl e) \<Rightarrow> Some (Inl e)
      | Some (Inr toks) \<Rightarrow>
          (case parse_package_or_file F default_pkg_name (parser_new toks) of
             Done pkg _ \<Rightarrow> Some (Inr pkg) | Fails e \<Rightarrow> Some (Inl e) | Diverges \<Rightarrow> None))"

text \<open>\<^verbatim>\<open>parse_sysml\<close> of the crate's root.\<close>

definition compile_parse_sysml :: "(string \<Rightarrow> nat) \<Rightarrow> F64Text \<Rightarrow> string \<Rightarrow> (ParseError + PackageDef) option" where
  "compile_parse_sysml err F source = parse_source err F source ''SysML_Model''"

end
