(* ===== verification/Serializer.thy ===== *)
theory Serializer
  imports Hir_Package
begin

text \<open>
  The canonical text of a model, \<^verbatim>\<open>safety_serializer.rs\<close> and \<^verbatim>\<open>safety_serializer_members.rs\<close> of
  \<^verbatim>\<open>compile-sysml/src/salsa_db\<close>: one function per structure, from the indentation to the text.
\<close>

definition pad :: "nat \<Rightarrow> string" where
  "pad indent = replicate indent (CHR '' '')"

section \<open>Comments and values\<close>

text \<open>\<^verbatim>\<open>replace(pat, with)\<close>: disjoint occurrences from the left; \<open>pat\<close> is not empty.\<close>

function replace_text :: "string \<Rightarrow> string \<Rightarrow> string \<Rightarrow> string" where
  "replace_text pat with s =
     (if s = [] \<or> pat = [] then s
      else if starts_with s pat then with @ replace_text pat with (drop (length pat) s)
      else hd s # replace_text pat with (tl s))"
  by pat_completeness auto
termination
  by (relation "measure (\<lambda>(pat, with, s). length s)") (auto simp: neq_Nil_conv)

declare replace_text.simps [simp del]

definition format_doc_comment :: "string option \<Rightarrow> nat \<Rightarrow> string" where
  "format_doc_comment doc indent =
     (case trimmed_text doc of
        None \<Rightarrow> []
      | Some doc_str \<Rightarrow>
          (let sanitized = replace_text ''*/'' ''* /'' (replace_text ''/*'' ''/ *'' doc_str) in
           case lines sanitized of
             head_line # second # more_lines \<Rightarrow>
               pad indent @ ''doc /* '' @ head_line @ [LF]
               @ concat (map (\<lambda>l. pad indent @ ''       '' @ l @ [LF]) (butlast (second # more_lines)))
               @ pad indent @ ''       '' @ last (second # more_lines) @ '' */'' @ [LF]
           | _ \<Rightarrow> pad indent @ ''doc /* '' @ sanitized @ '' */'' @ [LF]))"

text \<open>The comment as a line of its own in a list of lines.\<close>

definition doc_lines :: "string option \<Rightarrow> nat \<Rightarrow> string list" where
  "doc_lines doc indent = (let d = format_doc_comment doc indent in if d = [] then [] else [trim_end d])"

definition strip_enclosing_quotes :: "string \<Rightarrow> string" where
  "strip_enclosing_quotes v = unquote (trim v)"

definition quoted_text :: "string \<Rightarrow> string" where
  "quoted_text s = [DQ] @ s @ [DQ]"

text \<open>A quoted value as it is written: every quote in it that no backslash precedes gets one.\<close>

fun escape_value :: "bool \<Rightarrow> string \<Rightarrow> string" where
  "escape_value prev_bs [] = []"
| "escape_value prev_bs (ch # cs) =
     (if ch = DQ \<and> \<not> prev_bs then [BS, DQ] else [ch]) @ escape_value (ch = BS \<and> \<not> prev_bs) cs"

definition attribute_value_text :: "string \<Rightarrow> string" where
  "attribute_value_text v =
     (case Option.bind (strip_prefix (trim v) [DQ]) (\<lambda>s. strip_suffix s [DQ]) of
        Some inner \<Rightarrow> '' = '' @ quoted_text (escape_value False inner)
      | None \<Rightarrow> '' = '' @ v)"

definition default_text :: "string option \<Rightarrow> string" where
  "default_text v = (case v of Some s \<Rightarrow> '' = '' @ s | None \<Rightarrow> [])"

definition or_text :: "string \<Rightarrow> string option \<Rightarrow> string" where
  "or_text lead v = (case v of Some s \<Rightarrow> lead @ s | None \<Rightarrow> [])"

definition stmt_line :: "nat \<Rightarrow> string \<Rightarrow> string" where
  "stmt_line indent s = pad indent @ ''    '' @ s @ '';''"

definition opt_line :: "nat \<Rightarrow> string \<Rightarrow> string option \<Rightarrow> string list" where
  "opt_line indent word v = (case v of Some s \<Rightarrow> [stmt_line indent (word @ '' '' @ s)] | None \<Rightarrow> [])"

definition each_line :: "nat \<Rightarrow> string \<Rightarrow> string list \<Rightarrow> string list" where
  "each_line indent word vs = map (\<lambda>s. stmt_line indent (word @ '' '' @ s)) vs"

definition quoted_attribute :: "string \<Rightarrow> string \<Rightarrow> string" where
  "quoted_attribute name v = ''attribute '' @ name @ '' : String = '' @ quoted_text (strip_enclosing_quotes v)"

definition opt_quoted_attribute :: "nat \<Rightarrow> string \<Rightarrow> string option \<Rightarrow> string list" where
  "opt_quoted_attribute indent name v =
     (case v of Some s \<Rightarrow> [stmt_line indent (quoted_attribute name s)] | None \<Rightarrow> [])"

definition call_annotation :: "nat \<Rightarrow> string \<Rightarrow> string \<Rightarrow> string" where
  "call_annotation indent name v = stmt_line indent (''@'' @ name @ ''('' @ quoted_text v @ '')'')"

text \<open>A block: the comment, the head with its brace, the lines, the closing brace.\<close>

definition block :: "string option \<Rightarrow> nat \<Rightarrow> string \<Rightarrow> string list \<Rightarrow> string" where
  "block doc indent head_text body =
     join [LF] (doc_lines doc indent @ [pad indent @ head_text @ '' {''] @ body @ [pad indent @ ''}''])"

section \<open>Attributes, ports and items\<close>

definition attribute_to_sysml :: "AttributeDef \<Rightarrow> nat \<Rightarrow> string" where
  "attribute_to_sysml a indent =
     format_doc_comment (attr_doc a) indent @ pad indent @ ''attribute '' @ attr_name a @ '' : '' @ attr_type_name a
     @ (case attr_default_value a of Some v \<Rightarrow> attribute_value_text v | None \<Rightarrow> []) @ '';''"

definition direction_text :: "string \<Rightarrow> string" where
  "direction_text d = (if d = [] then [] else d @ '' '')"

definition flow_to_sysml :: "FlowDef \<Rightarrow> nat \<Rightarrow> string" where
  "flow_to_sysml f indent =
     format_doc_comment (flow_doc f) indent @ pad indent @ ''flow '' @ direction_text (flow_direction f)
     @ flow_name f @ '' : '' @ flow_item_type f @ '';''"

definition port_category_shown :: "PortDef \<Rightarrow> bool" where
  "port_category_shown port \<longleftrightarrow> port_port_category port \<noteq> [] \<and> port_port_category port \<noteq> ''DataPort''"

definition port_body_lines :: "PortDef \<Rightarrow> nat \<Rightarrow> string list" where
  "port_body_lines port indent =
     (if port_protocol_family port = [] then []
      else [stmt_line indent (quoted_attribute ''protocol_family'' (port_protocol_family port))])
     @ (if port_category_shown port
        then [stmt_line indent (quoted_attribute ''port_category'' (port_port_category port))] else [])
     @ map (\<lambda>(k, v). stmt_line indent (''attribute '' @ k @ '' = '' @ quoted_text (strip_enclosing_quotes v)))
         (port_electrical_attributes port)
     @ map (\<lambda>f. flow_to_sysml f (indent + 4)) (port_item_flows port)"

definition port_to_sysml :: "PortDef \<Rightarrow> nat \<Rightarrow> string" where
  "port_to_sysml port indent =
     (let head_text = (if port_name port = port_type_name port then ''port def '' @ port_name port
            else ''port '' @ direction_text (port_direction port)
              @ (if port_is_conjugated port then ''~'' else []) @ port_name port @ '' : '' @ port_type_name port);
          has_body = port_protocol_family port \<noteq> [] \<or> port_category_shown port
            \<or> port_electrical_attributes port \<noteq> [] \<or> port_item_flows port \<noteq> []
      in if has_body then block (port_doc port) indent head_text (port_body_lines port indent)
         else format_doc_comment (port_doc port) indent @ pad indent @ head_text @ '';'')"

definition item_to_sysml :: "ItemDef \<Rightarrow> nat \<Rightarrow> string" where
  "item_to_sysml it indent =
     block (item_doc it) indent (''item def '' @ item_name it)
       (map (\<lambda>a. attribute_to_sysml a (indent + 4)) (item_attributes it))"

definition import_to_sysml :: "ImportDef \<Rightarrow> nat \<Rightarrow> string" where
  "import_to_sysml imp indent =
     (let path = import_path imp;
          target = (if import_is_recursive imp then
              (if ends_with path ''::**'' then path
               else if ends_with path ''::*'' then path @ ''*'' else path @ ''::**'')
            else if import_is_wildcard imp \<and> \<not> ends_with path ''::*'' \<and> \<not> ends_with path ''::**''
            then path @ ''::*'' else path)
      in format_doc_comment (import_doc imp) indent @ pad indent @ ''import '' @ target @ '';'')"

section \<open>Behaviour\<close>

definition param_text :: "string \<Rightarrow> AttributeDef \<Rightarrow> string" where
  "param_text dir a = dir @ '' '' @ attr_name a @ '' : '' @ attr_type_name a @ default_text (attr_default_value a)"

definition params_text :: "string list \<Rightarrow> string" where
  "params_text ps = (if ps = [] then [] else ''('' @ join '', '' ps @ '')'')"

definition action_to_sysml :: "ActionDef \<Rightarrow> nat \<Rightarrow> string" where
  "action_to_sysml act indent =
     (let head_text = (if action_is_def act then ''action def '' else ''action '') @ action_name act
            @ params_text (map (param_text ''in'') (action_in_params act)
                @ map (param_text ''out'') (action_out_params act));
          has_body = action_performer act \<noteq> None \<or> action_steps act \<noteq> [] \<or> action_parameters act \<noteq> []
      in if has_body then
           block (action_doc act) indent head_text
             (map (\<lambda>a. attribute_to_sysml a (indent + 4)) (action_parameters act)
              @ opt_line indent ''perform'' (action_performer act) @ each_line indent ''step'' (action_steps act))
         else format_doc_comment (action_doc act) indent @ pad indent @ head_text @ '';'')"

definition is_leaf_state :: "StateDef \<Rightarrow> bool" where
  "is_leaf_state s \<longleftrightarrow> state_entry_action s = None \<and> state_do_action s = None \<and> state_exit_action s = None
     \<and> state_transitions s = [] \<and> state_sub_states s = []"

definition transition_lines :: "nat \<Rightarrow> TransitionDef \<Rightarrow> string list" where
  "transition_lines indent t =
     doc_lines (tx_doc t) (indent + 4)
     @ [(let clause = format_transition_clause t in
         stmt_line indent (if clause = [] then ''transition'' else ''transition '' @ clause))]"

text \<open>The depth is what is left of \<^verbatim>\<open>MAX_AST_DEPTH\<close>; nothing left is the empty text.\<close>

fun state_to_sysml_bounded :: "nat \<Rightarrow> StateDef \<Rightarrow> nat \<Rightarrow> string" where
  "state_to_sysml_bounded 0 s indent = []"
| "state_to_sysml_bounded (Suc n) s indent =
     block (state_doc s) indent (''state def '' @ state_name s)
       (opt_line indent ''entry'' (state_entry_action s) @ opt_line indent ''do'' (state_do_action s)
        @ opt_line indent ''exit'' (state_exit_action s)
        @ (if n = 0 then []
           else concat (map (\<lambda>sub.
             if is_leaf_state sub
             then doc_lines (state_doc sub) (indent + 4) @ [stmt_line indent (''state '' @ state_name sub)]
             else (let rendered = state_to_sysml_bounded n sub (indent + 4) in
                   if rendered = [] then [] else [rendered])) (state_sub_states s)))
        @ concat (map (transition_lines indent) (state_transitions s)))"

section \<open>Constraints, requirements and calculations\<close>

definition constraint_to_sysml :: "ConstraintDef \<Rightarrow> nat \<Rightarrow> string" where
  "constraint_to_sysml c indent =
     (let head_text = (if con_is_assertion c then ''assert constraint '' else ''constraint def '') @ con_name c in
      if con_expression c = [] \<and> con_parameters c = []
      then join [LF] (doc_lines (con_doc c) indent @ [pad indent @ head_text @ '';''])
      else block (con_doc c) indent (head_text @ params_text (con_parameters c))
        (if con_expression c = [] then [] else [stmt_line indent (con_expression c)]))"

definition requirement_to_sysml :: "RequirementDef \<Rightarrow> nat \<Rightarrow> string" where
  "requirement_to_sysml r indent =
     block (req_doc r) indent (''requirement def '' @ req_name r)
       ((if req_req_id r = [] then [] else [stmt_line indent (''id = '' @ quoted_text (req_req_id r))])
        @ (if req_text r = [] then [] else [stmt_line indent (''text = '' @ quoted_text (req_text r))])
        @ map (\<lambda>a. attribute_to_sysml a (indent + 4)) (req_attributes r)
        @ map (\<lambda>c. constraint_to_sysml c (indent + 4)) (req_constraints r)
        @ each_line indent ''assume'' (req_assumes r) @ each_line indent ''require'' (req_requires r)
        @ each_line indent ''derived from'' (req_derived_from r) @ each_line indent ''derives'' (req_derives r)
        @ each_line indent ''verify by'' (req_verified_by r) @ each_line indent ''satisfy by'' (req_satisfied_by r)
        @ map (call_annotation indent ''TriggersHazard'') (req_triggers_hazards r)
        @ map (call_annotation indent ''SafetyRealises'') (req_safety_realises r)
        @ (case req_layer r of Some l \<Rightarrow> [call_annotation indent ''Layer'' l] | None \<Rightarrow> []))"

definition calc_to_sysml :: "CalcDef \<Rightarrow> nat \<Rightarrow> string" where
  "calc_to_sysml c indent =
     block (calc_doc c) indent (''calc def '' @ calc_name c @ or_text '' : '' (calc_return_type c))
       (map (\<lambda>p. stmt_line indent (param_text ''in'' p)) (calc_in_params c)
        @ (case calc_expression c of
             None \<Rightarrow> []
           | Some e \<Rightarrow> map (\<lambda>l. stmt_line indent (''return '' @ trim_end_matches (\<lambda>ch. ch = CHR '';'') l))
               (filter (\<lambda>l. l \<noteq> []) (map trim (lines e)))))"

section \<open>Connections and safety\<close>

definition severity_text :: "i32 \<Rightarrow> string" where
  "severity_text s = int_text (sint s)"

definition connection_to_sysml :: "F64Text \<Rightarrow> ConnectionDef \<Rightarrow> nat \<Rightarrow> string" where
  "connection_to_sysml F c indent =
     (let part_line = (\<lambda>name part inferred. if part = inferred then []
            else [stmt_line indent (quoted_attribute name (case part of Some s \<Rightarrow> s | None \<Rightarrow> []))])
      in block (conn_doc c) indent ((if conn_is_flow c then ''flow def '' else ''connection def '') @ conn_name c)
       ((if conn_source_port c \<noteq> [] \<and> conn_target_port c \<noteq> [] then
           [stmt_line indent ((if conn_is_flow c then ''flow from '' else ''connect '') @ conn_source_port c
              @ '' to '' @ conn_target_port c)]
         else [])
        @ part_line ''source_part'' (conn_source_part c) (owner_of (conn_source_port c))
        @ part_line ''target_part'' (conn_target_part c) (owner_of (conn_target_port c))
        @ opt_quoted_attribute indent ''item_flow_ref'' (conn_item_flow_ref c)
        @ (if conn_severity c = 1 then []
           else [stmt_line indent (''attribute severity : Integer = '' @ severity_text (conn_severity c))])
        @ opt_quoted_attribute indent ''protocol'' (conn_protocol c)
        @ (case conn_latency_ms c of
             Some l \<Rightarrow> [stmt_line indent (''attribute latency_ms : Real = '' @ real_text F l)] | None \<Rightarrow> [])))"

definition hazard_to_sysml :: "HazardDef \<Rightarrow> nat \<Rightarrow> string" where
  "hazard_to_sysml h indent =
     block (hazard_doc h) indent (''hazard def '' @ hazard_name h)
       ([stmt_line indent (''attribute severity : Integer = '' @ severity_text (hazard_severity h))]
        @ opt_quoted_attribute indent ''source_port'' (hazard_source_port h)
        @ opt_quoted_attribute indent ''target_port'' (hazard_target_port h)
        @ opt_quoted_attribute indent ''part_ref'' (hazard_part_ref h))"

definition risk_to_sysml :: "RiskDef \<Rightarrow> nat \<Rightarrow> string" where
  "risk_to_sysml r indent =
     block (risk_doc r) indent (''risk def '' @ risk_name r)
       ([stmt_line indent (''attribute severity : Integer = '' @ severity_text (risk_severity r))]
        @ opt_quoted_attribute indent ''hazard_ref'' (risk_hazard_ref r)
        @ opt_quoted_attribute indent ''source_port'' (risk_source_port r)
        @ opt_quoted_attribute indent ''target_port'' (risk_target_port r))"

section \<open>Use cases and the rest\<close>

definition is_simple_sysml_identifier :: "string \<Rightarrow> bool" where
  "is_simple_sysml_identifier v \<longleftrightarrow>
     (case trim v of
        [] \<Rightarrow> False
      | c # cs \<Rightarrow> (is_ascii_alphabetic c \<or> c = CHR ''_'')
          \<and> list_all (\<lambda>d. is_ascii_alphanumeric d \<or> d \<in> set ''_:.-'') cs)"

definition format_use_case_clause_value :: "bool \<Rightarrow> string \<Rightarrow> string" where
  "format_use_case_clause_value always_quote raw =
     (let trimmed = trim raw;
          was_quoted = starts_with trimmed [DQ] \<and> ends_with trimmed [DQ] \<and> 2 \<le> length trimmed;
          inner = trim (case Option.bind (strip_prefix trimmed [DQ]) (\<lambda>s. strip_suffix s [DQ]) of
            Some s \<Rightarrow> s | None \<Rightarrow> trimmed)
      in if always_quote \<or> was_quoted \<or> \<not> is_simple_sysml_identifier inner
         then quoted_text (replace_char DQ [BS, DQ] inner) else inner)"

definition use_case_reference :: "string \<Rightarrow> string" where
  "use_case_reference s =
     format_use_case_clause_value False
       (case strip_prefix (trim s) ''use case'' of Some r \<Rightarrow> trim r | None \<Rightarrow> trim s)"

definition use_case_to_sysml :: "UseCaseDef \<Rightarrow> nat \<Rightarrow> string" where
  "use_case_to_sysml uc indent =
     block (ucase_doc uc) indent (''use case def '' @ ucase_name uc)
       (opt_line indent ''subject'' (ucase_subject uc)
        @ (if ucase_actors uc = [] then opt_line indent ''actor'' (ucase_actor uc)
           else each_line indent ''actor'' (ucase_actors uc))
        @ opt_line indent ''objective'' (map_option (format_use_case_clause_value True) (ucase_objective uc))
        @ each_line indent ''precondition'' (map (format_use_case_clause_value False) (ucase_preconditions uc))
        @ each_line indent ''include'' (map use_case_reference (ucase_includes uc))
        @ each_line indent ''extend'' (map use_case_reference (ucase_extends uc))
        @ each_line indent ''step'' (map (format_use_case_clause_value True) (ucase_steps uc))
        @ each_line indent ''postcondition'' (map (format_use_case_clause_value False) (ucase_postconditions uc)))"

definition capability_to_sysml :: "CapabilityDef \<Rightarrow> nat \<Rightarrow> string" where
  "capability_to_sysml c indent =
     (case cap_subsystem c of
        Some sub \<Rightarrow> block (cap_doc c) indent (''capability def '' @ cap_name c) [stmt_line indent (''subsystem '' @ sub)]
      | None \<Rightarrow> join [LF] (doc_lines (cap_doc c) indent @ [pad indent @ ''capability def '' @ cap_name c @ '';'']))"

definition operation_to_sysml :: "OperationDef \<Rightarrow> nat \<Rightarrow> string" where
  "operation_to_sysml op indent =
     format_doc_comment (opn_doc op) indent @ pad indent @ ''operation def '' @ opn_name op
     @ params_text (map (\<lambda>p. (case attr_default_value p of Some d \<Rightarrow> d | None \<Rightarrow> ''in'') @ '' '' @ attr_name p @ '' : ''
           @ attr_type_name p) (opn_parameters op))
     @ or_text '' : '' (opn_return_type op) @ '';''"

definition interaction_to_sysml :: "InteractionDef \<Rightarrow> nat \<Rightarrow> string" where
  "interaction_to_sysml i indent =
     block (inter_doc i) indent (''interaction def '' @ inter_name i)
       (each_line indent ''lifeline'' (inter_lifelines i) @ each_line indent ''message'' (inter_messages i)
        @ each_line indent ''trigger'' (inter_triggers i))"

definition test_case_to_sysml :: "TestCaseDef \<Rightarrow> nat \<Rightarrow> string" where
  "test_case_to_sysml tc indent =
     block (tcase_doc tc) indent (''test case def '' @ tcase_name tc)
       (opt_line indent ''subject'' (tcase_subject_part tc)
        @ (if tcase_verified_requirements tc = [] then []
           else [stmt_line indent (''verify requirement '' @ join '', '' (tcase_verified_requirements tc))])
        @ opt_line indent ''objective'' (tcase_objective tc) @ each_line indent ''step'' (tcase_test_steps tc))"

section \<open>Parts and packages\<close>

definition rendered_list :: "string list \<Rightarrow> string list" where
  "rendered_list rs = filter (\<lambda>r. r \<noteq> []) rs"

fun part_to_sysml_bounded :: "F64Text \<Rightarrow> nat \<Rightarrow> PartDef \<Rightarrow> nat \<Rightarrow> string" where
  "part_to_sysml_bounded F 0 part indent = []"
| "part_to_sysml_bounded F (Suc n) part indent =
     (let sub = indent + 4 in
      block (part_doc part) indent
       ((if part_is_def part then ''part def '' else ''part '') @ part_name part @ or_text '' : '' (part_type_name part))
       (map (call_annotation indent ''TriggersHazard'') (part_triggers_hazards part)
        @ map (call_annotation indent ''SafetyRealises'') (part_safety_realises part)
        @ (case part_layer part of Some l \<Rightarrow> [call_annotation indent ''Layer'' l] | None \<Rightarrow> [])
        @ map (\<lambda>a. attribute_to_sysml a sub) (part_attributes part)
        @ map (\<lambda>x. port_to_sysml x sub) (part_ports part)
        @ map (\<lambda>x. action_to_sysml x sub) (part_actions part)
        @ map (\<lambda>x. constraint_to_sysml x sub) (part_constraints part)
        @ map (\<lambda>x. calc_to_sysml x sub) (part_calcs part)
        @ map (\<lambda>x. requirement_to_sysml x sub) (part_requirements part)
        @ each_line indent ''satisfy requirement'' (part_satisfied_requirements part)
        @ (if n = 0 then [] else rendered_list (map (\<lambda>x. state_to_sysml_bounded n x sub) (part_states part)))
        @ map (\<lambda>x. connection_to_sysml F x sub) (part_connections part)
        @ map (\<lambda>x. use_case_to_sysml x sub) (part_use_cases part)
        @ map (\<lambda>x. item_to_sysml x sub) (part_item_defs part)
        @ map (\<lambda>x. hazard_to_sysml x sub) (part_hazards part)
        @ map (\<lambda>x. risk_to_sysml x sub) (part_risks part)
        @ map (\<lambda>x. test_case_to_sysml x sub) (part_test_cases part)
        @ map (\<lambda>x. capability_to_sysml x sub) (part_capabilities part)
        @ map (\<lambda>x. operation_to_sysml x sub) (part_operations part)
        @ map (\<lambda>x. interaction_to_sysml x sub) (part_interactions part)
        @ (if n = 0 then [] else rendered_list (map (\<lambda>x. part_to_sysml_bounded F n x sub) (part_parts part)))))"

text \<open>The sections of a synthetic root; \<open>package_text\<close> renders a child one level deeper.\<close>

definition serialize_synthetic_forest_root :: "(PackageDef \<Rightarrow> string) \<Rightarrow> PackageDef \<Rightarrow> string" where
  "serialize_synthetic_forest_root package_text pkg =
     join [LF, LF]
       (doc_lines (pkg_doc pkg) 0
        @ (if pkg_imports pkg = [] then [] else [join [LF] (map (\<lambda>i. import_to_sysml i 0) (pkg_imports pkg))])
        @ rendered_list (map package_text (pkg_packages pkg)))"

fun package_to_sysml_bounded :: "F64Text \<Rightarrow> nat \<Rightarrow> PackageDef \<Rightarrow> nat \<Rightarrow> string" where
  "package_to_sysml_bounded F 0 pkg indent = []"
| "package_to_sysml_bounded F (Suc n) pkg indent =
     (let sub = indent + 4 in
      if indent = 0 \<and> is_synthetic_forest_root pkg then
        serialize_synthetic_forest_root (\<lambda>x. package_to_sysml_bounded F n x 0) pkg
      else block (pkg_doc pkg) indent (''package '' @ pkg_name pkg)
       (map (\<lambda>x. import_to_sysml x sub) (pkg_imports pkg)
        @ map (\<lambda>a. attribute_to_sysml a sub) (pkg_attribute_defs pkg)
        @ map (\<lambda>x. port_to_sysml x sub) (pkg_port_defs pkg)
        @ map (\<lambda>x. action_to_sysml x sub) (pkg_action_defs pkg)
        @ map (\<lambda>x. constraint_to_sysml x sub) (pkg_constraint_defs pkg)
        @ map (\<lambda>x. calc_to_sysml x sub) (pkg_calc_defs pkg)
        @ map (\<lambda>x. requirement_to_sysml x sub) (pkg_requirement_defs pkg)
        @ each_line indent ''satisfy requirement'' (pkg_satisfied_requirements pkg)
        @ (if n = 0 then [] else rendered_list (map (\<lambda>x. state_to_sysml_bounded n x sub) (pkg_state_defs pkg)))
        @ map (\<lambda>x. connection_to_sysml F x sub) (pkg_connection_defs pkg)
        @ map (\<lambda>x. use_case_to_sysml x sub) (pkg_use_case_defs pkg)
        @ map (\<lambda>x. item_to_sysml x sub) (pkg_item_defs pkg)
        @ map (\<lambda>x. hazard_to_sysml x sub) (pkg_hazard_defs pkg)
        @ map (\<lambda>x. risk_to_sysml x sub) (pkg_risk_defs pkg)
        @ map (\<lambda>x. test_case_to_sysml x sub) (pkg_test_case_defs pkg)
        @ map (\<lambda>x. capability_to_sysml x sub) (pkg_capability_defs pkg)
        @ map (\<lambda>x. operation_to_sysml x sub) (pkg_operation_defs pkg)
        @ map (\<lambda>x. interaction_to_sysml x sub) (pkg_interaction_defs pkg)
        @ (if n = 0 then []
           else rendered_list (map (\<lambda>x. part_to_sysml_bounded F n x sub) (pkg_part_defs pkg))
             @ rendered_list (map (\<lambda>x. package_to_sysml_bounded F n x sub) (pkg_packages pkg)))))"

definition MAX_SERIALIZE_DEPTH :: nat where
  "MAX_SERIALIZE_DEPTH = 64"

definition state_to_sysml :: "StateDef \<Rightarrow> string" where
  "state_to_sysml s = state_to_sysml_bounded MAX_SERIALIZE_DEPTH s 0"

definition part_to_sysml :: "F64Text \<Rightarrow> PartDef \<Rightarrow> string" where
  "part_to_sysml F part = part_to_sysml_bounded F MAX_SERIALIZE_DEPTH part 0"

definition package_to_sysml :: "F64Text \<Rightarrow> PackageDef \<Rightarrow> string" where
  "package_to_sysml F pkg = package_to_sysml_bounded F MAX_SERIALIZE_DEPTH pkg 0"

end
