(* ===== verification/Hir_Progress.thy ===== *)
theory Hir_Progress
  imports Hir_Package
begin

text \<open>
  The compiler's parser always returns from a declaration. \<open>behind k p\<close> says that fewer than \<open>k\<close>
  tokens are ahead of the cursor, and \<open>ends_behind k r\<close> that the outcome \<open>r\<close> is an error or leaves
  such a cursor. Each parser gets one rule: one that must consume goes from \<open>Suc k\<close> to \<open>k\<close>, any other
  keeps \<open>k\<close>. A loop returns when each of its rounds consumes.
\<close>

section \<open>Consuming\<close>

definition behind :: "nat \<Rightarrow> SysmlParser \<Rightarrow> bool" where
  "behind k p \<longleftrightarrow> tok_kind (final_token p) = Eof \<and> length (ahead p) < k"

fun ends_behind :: "nat \<Rightarrow> 'a outcome \<Rightarrow> bool" where
  "ends_behind k (Done a p) = behind k p"
| "ends_behind k (Fails e) = True"
| "ends_behind k Diverges = False"

text \<open>A round of a loop: it goes on with fewer tokens, or breaks with at most as many.\<close>

fun round_behind :: "nat \<Rightarrow> ('s \<times> bool) outcome \<Rightarrow> bool" where
  "round_behind k (Done (s, go_on) p) = behind (if go_on then k else Suc k) p"
| "round_behind k (Fails e) = True"
| "round_behind k Diverges = False"

named_theorems keeps
named_theorems consumes

lemma behind_Suc [simp]: "behind k p \<Longrightarrow> behind (Suc k) p"
  by (simp add: behind_def)

lemma behind_ahead: "behind k p \<Longrightarrow> behind (Suc (length (ahead p))) p"
  by (simp add: behind_def)

lemma final_advance [simp]: "final_token (advance p) = final_token p"
  by (simp add: advance_def)

lemma final_advance_past [simp]: "final_token (advance_past P p) = final_token p"
  by (simp add: advance_past_def)

lemma behind_advance [simp]: "behind k p \<Longrightarrow> behind k (advance p)"
  by (auto simp: behind_def)

lemma behind_advance_past [simp]: "behind k p \<Longrightarrow> behind k (advance_past P p)"
  using length_advance_past [of P p] by (simp add: behind_def)

lemma behind_eat [simp]: "behind k p \<Longrightarrow> behind k (eat t p)"
  by (simp add: eat_def)

lemma behind_skip_trivia [simp]: "behind k p \<Longrightarrow> behind k (skip_trivia p)"
  by (simp add: skip_trivia_def)

lemma behind_past_doc [simp]: "behind k p \<Longrightarrow> behind k (past_doc p)"
  by (simp add: past_doc_def)

lemma behind_past_stmt [simp]: "behind k p \<Longrightarrow> behind k (past_stmt p)"
  by (simp add: past_stmt_def)

lemma behind_read_until_semi [simp]: "behind k p \<Longrightarrow> behind k (snd (read_until_semi F p))"
  by (simp add: read_until_semi_def)

lemma behind_read_tokens [simp]: "behind k p \<Longrightarrow> behind k (snd (read_tokens_until_semi p))"
  by (simp add: read_tokens_until_semi_def)

lemma behind_take_doc_comment [simp]: "behind k p \<Longrightarrow> behind k (snd (take_doc_comment p))"
  by (simp add: take_doc_comment_def split: TokenKind.split)

lemma behind_doc_property [simp]: "behind k p \<Longrightarrow> behind k (snd (doc_property p))"
  by (simp add: doc_property_def Let_def split: TokenKind.split)

lemma behind_take_inner_doc_comment [simp]:
  assumes "behind k p"
  shows "behind k (snd (take_inner_doc_comment p))"
  using assms behind_take_doc_comment [OF assms]
  by (auto simp: take_inner_doc_comment_def case_prod_unfold Let_def split: prod.splits option.splits)

lemma behind_drain_docs [simp]: "behind k p \<Longrightarrow> behind k (snd (drain_docs f s p))"
proof (induction f s p rule: drain_docs.induct)
  case (1 f s p)
  have "behind k (snd (take_inner_doc_comment p))" using 1 by simp
  then have "take_inner_doc_comment p = (Some d, q) \<Longrightarrow> behind k (skip_trivia q)" for d q by simp
  then show ?case using 1 by (subst drain_docs.simps) (auto split: prod.splits option.splits)
qed

lemma behind_drain_first [simp]: "behind k p \<Longrightarrow> behind k (snd (drain_first_inner_doc d p))"
  by (simp add: drain_first_inner_doc_def)

lemma behind_member_doc [simp]: "behind k p \<Longrightarrow> behind k (snd (member_doc give s p))"
  by (simp add: member_doc_def case_prod_unfold Let_def)

lemma behind_take_direction [simp]: "behind k p \<Longrightarrow> behind k (snd (take_direction_keyword p))"
  by (simp add: take_direction_keyword_def)

section \<open>The token at the cursor\<close>

lemma not_at_end: "\<not> is_at_end p \<Longrightarrow> ahead p \<noteq> []"
  by (auto simp: is_at_end_def peek_kind_def)

lemma advance_behind: "behind (Suc k) p \<Longrightarrow> ahead p \<noteq> [] \<Longrightarrow> behind k (advance p)"
  by (cases "ahead p") (simp_all add: behind_def advance_def)

lemma check_advance [intro]: "check t p \<Longrightarrow> behind (Suc k) p \<Longrightarrow> behind k (advance p)"
  by (rule advance_behind) (auto dest: check_nonempty)

lemma peek_nonempty: "peek_kind p \<noteq> Eof \<Longrightarrow> ahead p \<noteq> []"
  by (auto simp: peek_kind_def)

lemma peek_advance [intro]: "peek_kind p = t \<Longrightarrow> t \<noteq> Eof \<Longrightarrow> behind (Suc k) p \<Longrightarrow> behind k (advance p)"
  by (rule advance_behind) (auto dest: peek_nonempty)

lemma tok_nonempty: "behind k p \<Longrightarrow> tok_kind (peek_tok p) \<noteq> Eof \<Longrightarrow> ahead p \<noteq> []"
  by (auto simp: peek_tok_def behind_def)

lemma sigil_nonempty: "behind k p \<Longrightarrow> peek_is_sigil s p \<Longrightarrow> ahead p \<noteq> []"
  using tok_nonempty [of k p] by (simp add: peek_is_sigil_def)

lemma sigil_advance [intro]: "peek_is_sigil s p \<Longrightarrow> behind (Suc k) p \<Longrightarrow> behind k (advance p)"
  using tok_nonempty [of "Suc k" p] by (auto simp: peek_is_sigil_def intro: advance_behind)

lemma expect_ends [consumes]: "behind (Suc k) p \<Longrightarrow> ends_behind k (expect t p)"
  by (auto simp: expect_def error_at_def)

lemma expect_semi_ends [consumes]: "behind (Suc k) p \<Longrightarrow> ends_behind k (expect_semi p)"
  by (auto simp: expect_semi_def error_at_def)

lemma eof_no_word: "\<not> is_contextual_identifier_keyword Eof"
  by code_simp

lemma parse_identifier_cases:
  "(\<exists>e. parse_identifier p = Fails e) \<or> (tok_kind (peek_tok p) \<noteq> Eof \<and> (\<exists>s. parse_identifier p = Done s (advance p)))"
proof (cases "tok_kind (peek_tok p)")
  case (Ident s)
  show ?thesis unfolding parse_identifier_def Let_def Ident error_at_def by simp
next
  case Eof
  show ?thesis unfolding parse_identifier_def Let_def Eof error_at_def by (simp add: eof_no_word)
qed (unfold parse_identifier_def Let_def error_at_def, simp_all)

lemma parse_identifier_ends [consumes]:
  assumes "behind (Suc k) p"
  shows "ends_behind k (parse_identifier p)"
  using parse_identifier_cases [of p] assms
  by (elim disjE exE conjE) (simp_all add: advance_behind tok_nonempty [OF assms])

lemma expect_ident_ends [consumes]: "behind (Suc k) p \<Longrightarrow> ends_behind k (expect_ident p)"
  by (simp add: expect_ident_def parse_identifier_ends)

lemma error_at_ends [simp]: "ends_behind k (error_at m p)" "round_behind k (error_at m p)"
  by (simp_all add: error_at_def)

lemma max_depth_ends [simp]: "ends_behind k (max_depth_error p)"
  by (simp add: max_depth_error_def)

lemma unexpected_in_ends [simp]: "ends_behind k (unexpected_in b p)"
  by (simp add: unexpected_in_def)

section \<open>Sequences and loops\<close>

lemma and_then_ends [intro]:
  "ends_behind k r \<Longrightarrow> (\<And>a p. behind k p \<Longrightarrow> ends_behind j (f a p)) \<Longrightarrow> ends_behind j (and_then r f)"
  by (cases r) auto

lemma and_then_round [intro]:
  "ends_behind k r \<Longrightarrow> (\<And>a p. behind k p \<Longrightarrow> round_behind j (f a p)) \<Longrightarrow> round_behind j (and_then r f)"
  by (cases r) auto

lemma ends_behind_Suc: "ends_behind k r \<Longrightarrow> ends_behind (Suc k) r"
  by (cases r) auto

lemma loop_while_ends:
  assumes "\<And>s q j. cond q \<Longrightarrow> behind (Suc j) q \<Longrightarrow> round_behind j (body s q)" "behind k p"
  shows "ends_behind k (loop_while cond body s p)"
  using assms(2)
proof (induction "length (ahead p)" arbitrary: s p rule: less_induct)
  case less
  show ?case
  proof (cases "cond p")
    case True
    from assms(1) [OF True behind_ahead [OF less.prems]]
    have r: "round_behind (length (ahead p)) (body s p)" .
    show ?thesis
    proof (cases "body s p")
      case (Done x q)
      then show ?thesis using r True less
        by (cases x) (auto simp: loop_while.simps [of cond body s p] behind_def split: if_splits)
    qed (use r True in \<open>simp_all add: loop_while.simps [of cond body s p]\<close>)
  qed (use less.prems in \<open>simp add: loop_while.simps [of cond body s p]\<close>)
qed

text \<open>The rules that keep the bound, which the proofs about the parsers chain.\<close>

lemma sequence_ends:
  "ends_behind k r \<Longrightarrow> (\<And>a p. behind k p \<Longrightarrow> ends_behind k (f a p)) \<Longrightarrow> ends_behind k (and_then r f)"
  by (rule and_then_ends)

lemma sequence_round:
  "ends_behind k r \<Longrightarrow> (\<And>a p. behind k p \<Longrightarrow> round_behind k (f a p)) \<Longrightarrow> round_behind k (and_then r f)"
  by (rule and_then_round)

lemmas chained = sequence_ends sequence_round loop_while_ends

lemma loop_until_ends:
  assumes "\<And>s q j. \<not> check close q \<Longrightarrow> \<not> is_at_end q \<Longrightarrow> behind (Suc j) q \<Longrightarrow> round_behind j (body s q)" "behind k p"
  shows "ends_behind k (loop_until close body s p)"
  unfolding loop_until_def by (rule loop_while_ends) (use assms in auto)

section \<open>Types and names\<close>

lemma path_tail_ends [consumes]: "behind k p \<Longrightarrow> ends_behind k (path_tail t w out p)"
  unfolding path_tail_def by (auto intro!: chained consumes)

lemma comma_type_list_ends:
  assumes "\<And>j q. behind (Suc j) q \<Longrightarrow> ends_behind j (type_expr q)" "behind k p"
  shows "ends_behind k (parse_comma_type_list type_expr close p)"
  unfolding parse_comma_type_list_def using assms
  by (auto intro!: chained loop_until_ends consumes)

lemma ref_type_ends:
  assumes type: "\<And>j q. behind (Suc j) q \<Longrightarrow> ends_behind j (type_expr q)" and p: "behind (Suc k) p" "ahead p \<noteq> []"
  shows "ends_behind k (parse_ref_type_expr type_expr p)"
proof -
  have "behind k (advance p)" using p by (rule advance_behind)
  then show ?thesis unfolding parse_ref_type_expr_def Let_def
    by (auto simp: case_prod_unfold intro!: chained consumes type split: TokenKind.split)
qed

lemma base_type_ends:
  assumes type: "\<And>j q. behind (Suc j) q \<Longrightarrow> ends_behind j (type_expr q)" and p: "behind (Suc k) p"
  shows "ends_behind k (parse_base_or_generic_type_expr type_expr p)"
  using p unfolding parse_base_or_generic_type_expr_def Let_def
  by (auto intro!: chained consumes comma_type_list_ends type)

lemma type_suffixes_end: "behind k p \<Longrightarrow> ends_behind k (append_type_suffixes out p)"
  unfolding append_type_suffixes_def by (auto simp: Let_def intro!: chained consumes)

lemma array_type_ends:
  assumes type: "\<And>j q. behind (Suc j) q \<Longrightarrow> ends_behind j (type_expr q)" and p: "behind k p"
  shows "ends_behind k (parse_array_type_expr type_expr p)"
  using p unfolding parse_array_type_expr_def Let_def
  by (auto intro!: chained consumes type split: TokenKind.split)

lemma type_inner_ends:
  assumes type: "\<And>j q. behind (Suc j) q \<Longrightarrow> ends_behind j (type_expr q)" and p: "behind (Suc k) p"
  shows "ends_behind k (parse_type_expr_inner type_expr p)"
  using p sigil_nonempty [OF p] unfolding parse_type_expr_inner_def Let_def
  by (auto intro!: chained consumes type ref_type_ends base_type_ends array_type_ends type_suffixes_end
    comma_type_list_ends dest: check_nonempty)

lemma parse_type_expr_ends [consumes]: "behind (Suc k) p \<Longrightarrow> ends_behind k (parse_type_expr n p)"
  by (induction n arbitrary: k p) (auto intro!: type_inner_ends)

lemma ident_or_dotted_ends [consumes]: "behind (Suc k) p \<Longrightarrow> ends_behind k (expect_ident_or_dotted p)"
  unfolding expect_ident_or_dotted_def by (auto intro!: chained consumes)

lemma string_or_ident_ends [consumes]: "behind (Suc k) p \<Longrightarrow> ends_behind k (expect_string_or_ident p)"
  unfolding expect_string_or_ident_def using parse_identifier_ends [of k p] 
  by (auto split: TokenKind.split outcome.split)

lemma decl_name_ends [consumes]: "behind (Suc k) p \<Longrightarrow> ends_behind k (decl_name w p)"
  unfolding decl_name_def by (auto intro!: chained consumes)

lemma type_or_ends [consumes]: "behind k p \<Longrightarrow> ends_behind k (type_or sep d n p)"
  unfolding type_or_def by (auto intro!: chained consumes)

section \<open>Bodies\<close>

lemma opt_body_ends:
  assumes docs: "\<And>s q j. behind j q \<Longrightarrow> behind j (snd (docs s q))"
    and member: "\<And>s q j. \<not> check (Sym SCloseBrace) q \<Longrightarrow> \<not> is_at_end q \<Longrightarrow> behind (Suc j) q \<Longrightarrow> ends_behind j (member s q)"
    and p: "behind k p"
  shows "ends_behind k (opt_body docs member s p)"
  using p docs unfolding opt_body_def parse_body_def
  by (auto simp: case_prod_unfold Let_def intro!: chained loop_until_ends consumes member)

lemma check_read [intro]: "check t p \<Longrightarrow> behind (Suc k) p \<Longrightarrow> behind k (snd (read_until_semi F (advance p)))"
  by (blast intro: check_advance behind_read_until_semi)

section \<open>Members\<close>

lemmas bodies = chained loop_until_ends opt_body_ends

lemmas kept [intro] = behind_eat behind_skip_trivia behind_past_stmt behind_read_until_semi behind_read_tokens
  behind_drain_first behind_member_doc behind_take_direction

lemma attribute_ends [consumes]: "behind (Suc k) p \<Longrightarrow> ends_behind k (parse_attribute_decl F n doc p)"
  unfolding parse_attribute_decl_def by (auto simp: Let_def case_prod_unfold intro!: bodies consumes)

lemma item_ends [consumes]: "behind (Suc k) p \<Longrightarrow> ends_behind k (parse_item_decl F n doc p)"
  unfolding parse_item_decl_def by (auto simp: Let_def case_prod_unfold intro!: bodies consumes)

lemma capability_ends [consumes]: "behind (Suc k) p \<Longrightarrow> ends_behind k (parse_capability_decl F doc p)"
  unfolding parse_capability_decl_def by (auto simp: Let_def case_prod_unfold intro!: bodies consumes)

lemma connection_member_ends: "behind (Suc k) p \<Longrightarrow> ends_behind k (parse_connection_member F n s p)"
  unfolding parse_connection_member_def
  by (cases s) (auto simp: Let_def case_prod_unfold intro!: bodies consumes)

lemma connection_ends [consumes]: "behind (Suc k) p \<Longrightarrow> ends_behind k (parse_connection_decl F n doc fl p)"
  unfolding parse_connection_decl_def
  by (auto simp: Let_def case_prod_unfold intro!: bodies consumes connection_member_ends)

lemma inline_connect_ends [consumes]: "behind (Suc k) p \<Longrightarrow> ends_behind k (parse_inline_connect_decl doc p)"
  unfolding parse_inline_connect_decl_def by (auto simp: Let_def case_prod_unfold intro!: bodies consumes)

lemma hazard_ends [consumes]: "behind (Suc k) p \<Longrightarrow> ends_behind k (parse_hazard_decl F n doc p)"
  unfolding parse_hazard_decl_def by (auto simp: Let_def case_prod_unfold intro!: bodies consumes)

lemma risk_ends [consumes]: "behind (Suc k) p \<Longrightarrow> ends_behind k (parse_risk_decl F n doc p)"
  unfolding parse_risk_decl_def by (auto simp: Let_def case_prod_unfold intro!: bodies consumes)

lemma test_member_ends: "behind (Suc k) p \<Longrightarrow> ends_behind k (parse_test_member F tc p)"
  unfolding parse_test_member_def by (auto simp: Let_def case_prod_unfold intro!: bodies consumes)

lemma test_case_ends [consumes]: "behind (Suc k) p \<Longrightarrow> ends_behind k (parse_test_case_decl F doc p)"
  unfolding parse_test_case_decl_def
  by (auto simp: Let_def case_prod_unfold intro!: bodies consumes test_member_ends)

lemma operation_params_end: "behind k p \<Longrightarrow> ends_behind k (parse_operation_params n p)"
  unfolding parse_operation_params_def by (auto simp: Let_def case_prod_unfold intro!: bodies consumes)

lemma operation_ends [consumes]: "behind (Suc k) p \<Longrightarrow> ends_behind k (parse_operation_decl n doc p)"
  unfolding parse_operation_decl_def
  by (auto simp: Let_def case_prod_unfold intro!: bodies consumes operation_params_end)

lemma interaction_ends [consumes]: "behind (Suc k) p \<Longrightarrow> ends_behind k (parse_interaction_decl F doc p)"
  unfolding parse_interaction_decl_def parse_interaction_member_def
  by (auto simp: Let_def case_prod_unfold intro!: bodies consumes)

section \<open>Clauses\<close>

lemma use_case_member_ends: "behind (Suc k) p \<Longrightarrow> ends_behind k (parse_use_case_member F uc p)"
  unfolding parse_use_case_member_def by (auto simp: Let_def case_prod_unfold)

lemma use_case_ends [consumes]: "behind (Suc k) p \<Longrightarrow> ends_behind k (parse_use_case_decl F doc p)"
  unfolding parse_use_case_decl_def
  by (auto simp: Let_def case_prod_unfold intro!: bodies consumes use_case_member_ends)

lemma behind_attribute_or_item [simp, intro]: "behind k p \<Longrightarrow> behind k (eat_attribute_or_item p)"
  by (simp add: eat_attribute_or_item_def)

lemma behind_param_default [simp, intro]: "behind k p \<Longrightarrow> behind k (snd (param_default F p))"
  by (simp add: param_default_def Let_def)

lemma calc_header_ends: "behind k p \<Longrightarrow> ends_behind k (parse_calc_header_params F n p)"
  unfolding parse_calc_header_params_def by (auto simp: Let_def case_prod_unfold intro!: bodies consumes)

lemma calc_body_param_ends: "behind (Suc k) p \<Longrightarrow> ends_behind k (parse_calc_body_param F n p)"
  unfolding parse_calc_body_param_def
  by (auto simp: Let_def case_prod_unfold intro!: bodies consumes)

lemma typed_return_ends: "behind k p \<Longrightarrow> ends_behind k (parse_calc_typed_return_tail F n s p)"
  unfolding parse_calc_typed_return_tail_def
  by (cases s) (auto simp: Let_def case_prod_unfold intro!: bodies consumes)

lemma return_expression_ends: "behind k p \<Longrightarrow> ends_behind k (return_expression F s p)"
  unfolding return_expression_def by (cases s) (simp add: Let_def case_prod_unfold)

lemma return_bare_ends: "behind k p \<Longrightarrow> ends_behind k (return_bare F n s p)"
  unfolding return_bare_def using parse_type_expr_ends [of k p n]
  by (cases s) (auto simp: Let_def intro!: return_expression_ends split: outcome.split)

lemma calc_return_ends:
  assumes "behind k (advance p)"
  shows "ends_behind k (parse_calc_return_stmt F n s p)"
proof -
  let ?p = "skip_trivia (advance p)"
  let ?q = "eat_attribute_or_item (if at_direction ?p then advance ?p else ?p)"
  have p: "behind k ?p" and q: "behind k ?q" using assms by auto
  then have i: "ends_behind k (parse_identifier ?q)" by (intro parse_identifier_ends) simp
  show ?thesis unfolding parse_calc_return_stmt_def Let_def
    using p i by (cases "parse_identifier ?q")
      (auto intro!: typed_return_ends return_bare_ends return_expression_ends)
qed

lemma past_stmt_consumes:
  assumes "behind (Suc k) p" "\<not> check (Sym SCloseBrace) p" "\<not> is_at_end p"
  shows "behind k (past_stmt p)"
proof -
  obtain t ts where a: "ahead p = t # ts" using not_at_end [OF assms(3)] by (cases "ahead p") auto
  show ?thesis
  proof (cases "tok_kind t = Sym SSemi")
    case True
    then have "advance_past (\<lambda>k. \<not> ends_stmt k) p = p" "check (Sym SSemi) p"
      using assms(3) a by (simp_all add: advance_past_def ends_stmt_def check_def peek_kind_def)
    then show ?thesis using assms(1) by (auto simp: past_stmt_def eat_def)
  next
    case False
    then have "\<not> ends_stmt (tok_kind t)"
      using assms(2,3) a by (auto simp: ends_stmt_def check_def is_at_end_def peek_kind_def)
    then have "advance_past (\<lambda>k. \<not> ends_stmt k) p = advance_past (\<lambda>k. \<not> ends_stmt k) (advance p)"
      using a by (simp add: advance_past_def advance_def)
    moreover have "behind k (advance p)" using assms(1) a by (simp add: advance_behind)
    ultimately show ?thesis by (simp add: past_stmt_def)
  qed
qed

lemma statement_consumes:
  "behind (Suc k) p \<Longrightarrow> \<not> check (Sym SCloseBrace) p \<Longrightarrow> \<not> is_at_end p \<Longrightarrow> behind k (snd (read_until_semi F p))"
  by (simp add: read_until_semi_def past_stmt_consumes)

lemma calc_member_ends:
  assumes "behind (Suc k) p" "\<not> check (Sym SCloseBrace) p" "\<not> is_at_end p"
  shows "ends_behind k (parse_calc_member F n s p)"
proof -
  have return: "peek_kind p = Ident ''return'' \<Longrightarrow> ends_behind k (parse_calc_return_stmt F n s p)"
    using assms(1) by (auto intro!: calc_return_ends)
  show ?thesis unfolding parse_calc_member_def
    using assms statement_consumes [OF assms] return
    by (cases s) (auto simp: return_expression_def Let_def case_prod_unfold
      intro!: bodies consumes calc_body_param_ends)
qed

lemma calc_ends [consumes]: "behind (Suc k) p \<Longrightarrow> ends_behind k (parse_calc_decl F n doc p)"
  unfolding parse_calc_decl_def
  by (auto simp: Let_def case_prod_unfold intro!: bodies consumes calc_header_ends calc_member_ends)

lemma constraint_header_ends: "behind k p \<Longrightarrow> ends_behind k (parse_constraint_header_params n p)"
  unfolding parse_constraint_header_params_def
  by (auto simp: Let_def case_prod_unfold intro!: bodies consumes)

lemma constraint_ends [consumes]:
  assumes "behind (Suc k) p"
  shows "ends_behind k (parse_constraint_decl F n doc p)"
proof -
  let ?p = "eat (Kw KAssert) p"
  have "ends_behind k (if check (Kw KConstraint) ?p \<or> \<not> check (Kw KAssert) p then expect (Kw KConstraint) ?p
      else Done () ?p)"
    using assms by (auto simp: eat_def intro!: consumes)
  then show ?thesis unfolding parse_constraint_decl_def Let_def
    by (rule sequence_ends)
      (auto simp: Let_def case_prod_unfold intro!: bodies consumes constraint_header_ends statement_consumes)
qed

section \<open>Stereotypes, requirements and ports\<close>

lemma behind_call_arguments [simp, intro]: "behind k p \<Longrightarrow> behind k (snd (call_arguments p))"
  by (simp add: call_arguments_def Let_def)

lemma behind_block_arguments [simp, intro]: "behind k p \<Longrightarrow> behind k (snd (block_arguments vs p))"
proof (induction vs p rule: block_arguments.induct)
  case (1 vs p)
  then show ?case by (subst block_arguments.simps) (auto simp: Let_def)
qed

lemma stereotype_ident: "peek_stereotype_name p \<noteq> None \<Longrightarrow> \<exists>s. peek_kind p = Ident s"
  by (simp add: peek_stereotype_name_def split: TokenKind.splits)

lemma stereotype_behind [intro]:
  assumes "peek_stereotype_name p \<noteq> None" "behind (Suc k) p"
  shows "behind k (snd (parse_stereotype_annotation p))"
proof -
  obtain s where s: "peek_kind p = Ident s" using stereotype_ident [OF assms(1)] by blast
  have "behind k (advance p)" using s assms(2) by auto
  then show ?thesis by (simp add: parse_stereotype_annotation_def s Let_def case_prod_unfold split: TokenKind.split)
qed

lemma behind_references [simp, intro]: "behind k p \<Longrightarrow> behind k (snd (read_references F p))"
  by (simp add: read_references_def case_prod_unfold Let_def)

lemma assignment_ends: "behind k p \<Longrightarrow> ends_behind k (read_assignment p)"
  unfolding read_assignment_def by (auto intro!: chained consumes)

lemma if_ends: "(c \<Longrightarrow> ends_behind k r) \<Longrightarrow> ends_behind k r' \<Longrightarrow> ends_behind k (if c then r else r')"
  by simp

lemma requirement_member_ends: "behind (Suc k) p \<Longrightarrow> ends_behind k (parse_requirement_member F n d r p)"
  unfolding parse_requirement_member_def
  by (intro if_ends; auto simp: Let_def case_prod_unfold intro!: chained consumes assignment_ends)

lemma behind_requirement_docs [simp]: "behind k p \<Longrightarrow> behind k (snd (requirement_docs s p))"
  by (cases s) (simp add: requirement_docs_def Let_def case_prod_unfold)

lemma requirement_ends [consumes]: "behind (Suc k) p \<Longrightarrow> ends_behind k (parse_requirement_decl F n doc p)"
  unfolding parse_requirement_decl_def
  by (auto simp: Let_def case_prod_unfold intro!: bodies consumes requirement_member_ends)

lemma satisfy_ends [consumes]: "behind (Suc k) p \<Longrightarrow> ends_behind k (parse_satisfy_stmt F p)"
  unfolding parse_satisfy_stmt_def by (auto simp: Let_def intro!: chained consumes)

lemma port_flow_ends: "behind (Suc k) p \<Longrightarrow> ends_behind k (parse_port_flow_member n d p)"
  unfolding parse_port_flow_member_def Let_def case_prod_unfold
  by (rule and_then_ends [where k = "Suc k"]) (auto intro!: chained consumes)

lemma port_member_ends: "behind (Suc k) p \<Longrightarrow> ends_behind k (parse_port_member F n s p)"
  unfolding parse_port_member_def
  by (cases s) (auto simp: Let_def case_prod_unfold intro!: chained consumes port_flow_ends)

lemma port_ends [consumes]: "behind (Suc k) p \<Longrightarrow> ends_behind k (parse_port_decl F n doc p)"
  unfolding parse_port_decl_def
  by (auto simp: Let_def case_prod_unfold intro!: bodies consumes port_member_ends)

section \<open>Actions and states\<close>

lemma action_header_ends: "behind k p \<Longrightarrow> ends_behind k (parse_action_header_params F n p)"
  unfolding parse_action_header_params_def by (auto simp: Let_def case_prod_unfold intro!: bodies consumes)

lemma action_body_param_ends: "behind k (advance p) \<Longrightarrow> ends_behind k (parse_action_body_param F n params p)"
  unfolding parse_action_body_param_def by (auto simp: Let_def case_prod_unfold intro!: chained consumes)

lemma action_member_ends: "behind (Suc k) p \<Longrightarrow> ends_behind k (parse_action_member F n act p)"
  unfolding parse_action_member_def
  by (intro if_ends; auto simp: Let_def case_prod_unfold at_direction_def
      intro!: chained consumes action_body_param_ends)

lemma action_ends [consumes]: "behind (Suc k) p \<Longrightarrow> ends_behind k (parse_action_decl F n doc p)"
  unfolding parse_action_decl_def
  by (auto simp: Let_def case_prod_unfold intro!: bodies consumes action_header_ends action_member_ends)

lemma behind_state_docs [simp, intro]: "behind k p \<Longrightarrow> behind k (snd (state_docs inner d p))"
proof (induction inner d p rule: state_docs.induct)
  case (1 inner d p)
  have "behind k (snd (take_inner_doc_comment p))" using 1 by simp
  then have "take_inner_doc_comment p = (Some x, q) \<Longrightarrow> behind k (skip_trivia q)" for x q by simp
  then show ?case using 1 by (subst state_docs.simps) (auto split: prod.splits option.splits)
qed

lemma behind_state_member_doc [simp]: "behind k p \<Longrightarrow> behind k (snd (take_state_member_doc d p))"
  by (simp add: take_state_member_doc_def Let_def case_prod_unfold)

lemma state_member_ends:
  assumes "\<And>d j q. behind (Suc j) q \<Longrightarrow> ends_behind j (state_decl d q)" "behind (Suc k) p"
  shows "ends_behind k (parse_state_member F state_decl s p)"
  using assms unfolding parse_state_member_def
  by (cases s) (auto simp: parse_state_action_clause_def Let_def case_prod_unfold intro!: chained)

lemma parse_state_ends [consumes]: "behind (Suc k) p \<Longrightarrow> ends_behind k (parse_state_decl F n doc p)"
proof (induction n arbitrary: k doc p)
  case (Suc n)
  then show ?case unfolding parse_state_decl.simps parse_state_decl_inner_def
    by (auto simp: Let_def case_prod_unfold intro!: bodies consumes state_member_ends)
qed simp

section \<open>Containers\<close>

lemma import_ends [consumes]: "behind (Suc k) p \<Longrightarrow> ends_behind k (parse_import_decl doc p)"
  unfolding parse_import_decl_def by (auto simp: Let_def case_prod_unfold intro!: chained consumes)

lemma push_parsed_ends: "ends_behind k r \<Longrightarrow> ends_behind k (push_parsed m sc r)"
  unfolding push_parsed_def by (auto intro!: chained)

lemma stereotype_member_ends: "behind (Suc k) p \<Longrightarrow> ends_behind k (parse_stereotype_member sc p)"
  unfolding parse_stereotype_member_def by (cases sc) (auto simp: Let_def case_prod_unfold)

lemma leaf_ends:
  assumes "behind (Suc k) p"
  shows "ends_behind k (parse_leaf_container_item F n doc sc p)"
proof (cases "peek_kind p")
  case (Kw w)
  show ?thesis unfolding parse_leaf_container_item_def Kw TokenKind.case
    by (intro if_ends push_parsed_ends sequence_ends stereotype_member_ends consumes assms)
      (simp_all add: assms)
qed (use assms in \<open>simp_all add: parse_leaf_container_item_def stereotype_member_ends\<close>)

text \<open>Comments and stray semicolons before an item: the cursor has moved or is where it was.\<close>

lemma skip_moves: "behind (Suc k) p \<Longrightarrow> skip_trivia p = p \<or> behind k (skip_trivia p)"
proof (cases "ahead p")
  case (Cons t ts)
  assume b: "behind (Suc k) p"
  have "skip_trivia p = p \<or> skip_trivia p = skip_trivia (advance p)"
    using Cons by (auto simp: skip_trivia_def advance_past_def advance_def)
  moreover have "behind k (skip_trivia (advance p))" using b Cons by (simp add: advance_behind)
  ultimately show ?thesis by auto
qed (simp add: skip_trivia_def advance_past_def)

lemma doc_moves: "behind (Suc k) p \<Longrightarrow> snd (take_doc_comment p) = p \<or> behind k (snd (take_doc_comment p))"
  by (cases "peek_kind p") (auto simp: take_doc_comment_def)

lemma behind_last_doc [simp, intro]: "behind k p \<Longrightarrow> behind k (snd (last_doc d p))"
proof (induction d p rule: last_doc.induct)
  case (1 d p)
  have "behind k (snd (take_doc_comment p))" using 1 by simp
  then have "take_doc_comment p = (Some x, q) \<Longrightarrow> behind k (skip_trivia q)" for x q by simp
  then show ?case using 1 by (subst last_doc.simps) (auto split: prod.splits option.splits)
qed

lemma last_doc_moves: "behind (Suc k) p \<Longrightarrow> snd (last_doc d p) = p \<or> behind k (snd (last_doc d p))"
  using doc_moves [of k p] behind_last_doc [of k "skip_trivia (snd (take_doc_comment p))"]
  by (subst (1 2) last_doc.simps) (auto simp: take_doc_comment_def split: TokenKind.splits)

end
