(* ===== verification/Cst_Returns.thy ===== *)
theory Cst_Returns
  imports Cst_Scanner
begin

text \<open>
  The scanner returns on every source. Each step leaves a state that \<open>follows\<close> the one before: the same
  end of the source, a suffix of the text, no new lexer tokens. A step that does not end the scan
  consumes a character, since the lexer makes no empty tokens.
\<close>

section \<open>States that follow\<close>

definition scn_end :: "Scanner \<Rightarrow> nat" where
  "scn_end sc = scn_cursor sc + length (scn_rest sc)"

definition follows :: "Scanner \<Rightarrow> Scanner \<Rightarrow> bool" where
  "follows sc sc' \<longleftrightarrow> scn_end sc' = scn_end sc \<and> length (scn_rest sc') \<le> length (scn_rest sc)
     \<and> set (scn_tokens sc') \<subseteq> set (scn_tokens sc)"

lemma follows_refl [simp]: "follows sc sc"
  by (simp add: follows_def)

lemma follows_trans [trans]: "follows a b \<Longrightarrow> follows b c \<Longrightarrow> follows a c"
  by (auto simp: follows_def)

lemma follows_cursor: "follows a b \<Longrightarrow> scn_cursor a \<le> scn_cursor b"
  by (simp add: follows_def scn_end_def)

lemma follows_advance [simp]: "follows sc (snd (scn_advance sc))"
  by (auto simp: follows_def scn_end_def scn_advance_def split: list.splits)

lemma follows_advance_char [simp]: "follows sc (snd (scn_advance_char sc))"
  by (auto simp: follows_def scn_end_def scn_advance_char_def scn_advance_def Let_def split: list.splits)

lemma after_advance: "follows (snd (scn_advance sc)) c \<Longrightarrow> follows sc c"
  "follows (snd (scn_advance_char sc)) c \<Longrightarrow> follows sc c"
  by (meson follows_advance follows_advance_char follows_trans)+

lemma after_two: "follows (snd (scn_advance_char (snd (scn_advance_char sc)))) c \<Longrightarrow> follows sc c"
  by (rule after_advance(2), rule after_advance(2))

lemma follows_slice [simp]: "follows sc (scn_advance_slice xs sc)"
  by (induction xs sc rule: scn_advance_slice.induct) (auto intro: after_advance)

lemma follows_run [simp]: "follows sc (advance_run n sc)"
  by (induction n sc rule: advance_run.induct) (auto intro: follows_trans [OF follows_advance])

lemma follows_while [simp]: "follows sc (advance_while P sc)"
  by (simp add: advance_while_def)

lemma follows_chars_while [simp]: "follows sc (advance_chars_while P sc)"
  by (simp add: advance_chars_while_def)

lemma follows_tokens:
  "set ts \<subseteq> set (scn_tokens sc) \<Longrightarrow> follows sc (sc\<lparr>scn_tokens := ts\<rparr>)"
  by (simp add: follows_def scn_end_def)

lemma follows_aligned [simp]: "follows sc (snd (aligned_cst_token sc))"
  by (auto simp: aligned_cst_token_def Let_def intro!: follows_tokens dest: set_dropWhileD)

lemma aligned_member: "aligned_cst_token sc = (Some t, sc') \<Longrightarrow> t \<in> set (scn_tokens sc)"
  by (auto simp: aligned_cst_token_def Let_def split: list.splits if_splits)
    (metis list.set_intros(1) set_dropWhileD)

lemma aligned_rest [simp]: "scn_rest (snd (aligned_cst_token sc)) = scn_rest sc"
  by (simp add: aligned_cst_token_def Let_def)

lemma follows_take [simp]: "follows sc (take_cst_token t sc)"
proof -
  let ?sc = "scn_advance_slice (lexed_slice t) sc"
  have "follows ?sc (?sc\<lparr>scn_tokens := tl (scn_tokens ?sc)\<rparr>)"
    by (rule follows_tokens) (cases "scn_tokens ?sc"; auto)
  then show ?thesis unfolding take_cst_token_def Let_def by (rule follows_trans [OF follows_slice])
qed

lemma rest_take: "scn_rest (take_cst_token t sc) = drop (length (lexed_slice t)) (scn_rest sc)"
  by (simp add: take_cst_token_def Let_def)

lemma follows_comment [simp]: "follows sc (snd (snd (scan_comment d e sc)))"
proof (induction d e sc rule: scan_comment.induct)
  case (1 d e sc)
  then show ?case
    by (subst scan_comment.simps) (auto intro: after_advance(2) after_two)
qed

lemma follows_quoted: "scan_quoted q v sc = Some (s, sc') \<Longrightarrow> follows sc sc'"
proof (induction q v sc rule: scan_quoted.induct)
  case (1 q v sc)
  consider "scn_rest sc = [] \<or> scn_peek sc = q" | "scn_rest sc \<noteq> []" "scn_peek sc \<noteq> q" "scn_peek sc = BS"
    | "scn_rest sc \<noteq> []" "scn_peek sc \<noteq> q" "scn_peek sc \<noteq> BS" by blast
  then show ?case
  proof cases
    case 2
    let ?a = "snd (scn_advance sc)"
    have "tl (scn_rest sc) \<noteq> []" "scan_quoted q (v @ [unescape_char (fst (scn_advance ?a))]) (snd (scn_advance ?a)) = Some (s, sc')"
      using 1(3) 2 by (auto simp: scan_quoted.simps [of q v sc] Let_def case_prod_unfold split: if_splits)
    then have "follows (snd (scn_advance ?a)) sc'"
      using 1(1) 2 by (metis prod.collapse rest_advance(1))
    then show ?thesis by (meson after_advance)
  next
    case 3
    have "scan_quoted q (v @ [fst (scn_advance_char sc)]) (snd (scn_advance_char sc)) = Some (s, sc')"
      using 1(3) 3 by (auto simp: scan_quoted.simps [of q v sc] Let_def case_prod_unfold split: if_splits)
    then have "follows (snd (scn_advance_char sc)) sc'" using 1(2) 3 by (metis prod.collapse)
    then show ?thesis by (rule after_advance)
  qed (use 1 in \<open>auto simp: scan_quoted.simps [of q v sc]\<close>)
qed

lemma tokens_advance [simp]:
  "scn_tokens (snd (scn_advance sc)) = scn_tokens sc" "scn_tokens (snd (scn_advance_char sc)) = scn_tokens sc"
  by (auto simp: scn_advance_char_def scn_advance_def Let_def case_prod_unfold split: list.splits)

lemma tokens_slice [simp]: "scn_tokens (scn_advance_slice xs sc) = scn_tokens sc"
  by (induction xs sc rule: scn_advance_slice.induct) simp_all

lemma follows_cst_trivia [simp]:
  "set ts \<subseteq> set (scn_tokens sc) \<Longrightarrow> follows sc (skip_cst_trivia ts sc)"
proof (induction ts sc rule: skip_cst_trivia.induct)
  case (2 t ts sc)
  then show ?case by (auto intro!: follows_tokens intro: follows_trans [OF follows_slice])
qed (simp add: follows_tokens)

lemma follows_plain_trivia [simp]: "follows sc (skip_plain_trivia sc)"
proof (induction sc rule: skip_plain_trivia.induct)
  case (1 sc)
  then show ?case
    by (subst skip_plain_trivia.simps)
      (auto intro: after_advance follows_trans [OF follows_while])
qed

lemma follows_trivia [simp]: "follows sc (skip_whitespace_and_line_comments sc)"
  unfolding skip_whitespace_and_line_comments_def
  by (rule follows_trans [OF follows_cst_trivia follows_plain_trivia]) simp

section \<open>Steps that consume\<close>

definition solid :: "Scanner \<Rightarrow> bool" where
  "solid sc \<longleftrightarrow> list_all (\<lambda>t. lexed_slice t \<noteq> []) (scn_tokens sc)"

lemma scanned_kinds [simp]:
  "from_symbol s \<noteq> Some Eof" "from_keyword_or_ident s \<noteq> Eof" "parse_number_lexeme F s l c \<noteq> Inr Eof"
  "doc_comment_from_raw s \<noteq> Eof"
  by (auto simp: from_symbol_Some from_keyword_or_ident_def doc_comment_from_raw_def parse_number_lexeme_def Let_def
      split: if_splits option.splits)

lemma symbol_not_end: "from_symbol s = Some k \<Longrightarrow> k \<noteq> Eof"
  by auto

lemma number_not_end: "parse_number_lexeme F s l c = Inr k \<Longrightarrow> k \<noteq> Eof"
  by auto

text \<open>A result of a step: an error, or a token that ends where the new state is, past the old one.\<close>

definition consumed :: "Scanner \<Rightarrow> ScanError + Token \<times> Scanner \<Rightarrow> bool" where
  "consumed sc r \<longleftrightarrow>
     (case r of
        Inl e \<Rightarrow> True
      | Inr (tok, sc') \<Rightarrow> follows sc sc' \<and> length (scn_rest sc') < length (scn_rest sc)
          \<and> tok_kind tok \<noteq> Eof \<and> span_start (tok_span tok) = scn_cursor sc \<and> span_end (tok_span tok) = scn_cursor sc')"

lemma consumed_token:
  "follows sc sc' \<Longrightarrow> length (scn_rest sc') < length (scn_rest sc) \<Longrightarrow> k \<noteq> Eof \<Longrightarrow>
   consumed sc (Inr (new_token k sc sc', sc'))"
  by (simp add: consumed_def new_token_def new_span_def)

lemma consumed_error [simp]: "consumed sc (Inl e)"
  by (simp add: consumed_def)

lemma past_advance:
  "follows (snd (scn_advance sc)) sc' \<Longrightarrow> scn_rest sc \<noteq> [] \<Longrightarrow> k \<noteq> Eof \<Longrightarrow>
   consumed sc (Inr (new_token k sc sc', sc'))"
  by (rule consumed_token, rule after_advance) (auto simp: follows_def neq_Nil_conv)

lemma comment_consumed:
  assumes "follows old sc" "scn_rest old \<noteq> []" "solid sc" "starts_with (scn_rest sc) ''/*''"
  shows "consumed old (scan_block_comment old sc)"
proof -
  obtain al sc1 where al: "aligned_cst_token sc = (al, sc1)" by fastforce
  have f: "follows old sc1" "scn_rest sc1 = scn_rest sc"
    using assms(1) follows_aligned [of sc] aligned_rest [of sc] by (auto simp: al intro: follows_trans)
  have ne: "scn_rest sc \<noteq> []" using assms(4) by auto
  have direct: "consumed old (Inr (new_token k old (take_cst_token t sc1), take_cst_token t sc1))"
    if "al = Some t" "k \<noteq> Eof" for t k
  proof (rule consumed_token)
    have "lexed_slice t \<noteq> []" using aligned_member al that assms(3) by (fastforce simp: solid_def list_all_iff)
    then show "length (scn_rest (take_cst_token t sc1)) < length (scn_rest old)"
      using f ne by (cases "lexed_slice t") (auto simp: rest_take follows_def neq_Nil_conv)
    show "follows old (take_cst_token t sc1)" using f(1) by (rule follows_trans) simp
  qed (rule that(2))
  let ?in = "scn_advance_slice ''/*'' sc1"
  obtain d e sc2 where c: "scan_comment 1 (scn_cursor ?in) ?in = (d, e, sc2)" by (metis prod_cases3)
  have "follows ?in sc2" using follows_comment [of ?in 1 "scn_cursor ?in"] by (simp only: c snd_conv)
  then have "follows sc1 sc2" using follows_slice follows_trans by blast
  moreover have "length (scn_rest sc2) < length (scn_rest sc1)"
    using \<open>follows ?in sc2\<close> ne f(2) by (auto simp: follows_def neq_Nil_conv)
  ultimately have nested: "consumed old (Inr (new_token k old sc2, sc2))" if "k \<noteq> Eof" for k
    using f(1) that by (intro consumed_token) (auto simp: follows_def)
  show ?thesis
    using c direct nested by (auto simp: scan_block_comment_def al Let_def split: option.splits if_splits)
qed

lemma string_consumed: "scn_rest sc \<noteq> [] \<Longrightarrow> consumed sc (scan_string q sc)"
  by (auto simp: scan_string_def Let_def split: option.split
      intro!: past_advance dest!: follows_quoted intro: follows_trans)

lemma number_consumed:
  assumes "scn_rest sc \<noteq> []" "is_ascii_digit (scn_peek sc) \<or> scn_peek sc = CHR ''-''"
  shows "consumed sc (scan_number F sc)"
proof -
  have d: "length (scn_rest (advance_while is_ascii_digit sc)) < length (scn_rest sc)" if "scn_peek sc \<noteq> CHR ''-''"
    using assms that by (cases "scn_rest sc") (auto simp: scn_peek_def less_Suc_eq_le length_dropWhile_le)
  define a where "a = (if scn_peek sc = CHR ''-'' then snd (scn_advance sc) else sc)"
  define b where "b = advance_while is_ascii_digit a"
  define c where "c = (if scn_peek b = CHR ''.'' \<and> (case drop 1 (scn_rest b) of c # _ \<Rightarrow> is_ascii_digit c | [] \<Rightarrow> False)
     then advance_while is_ascii_digit (snd (scn_advance b)) else b)"
  define e where "e = snd (scn_advance c)"
  define g where "g = (if scn_peek e = CHR ''+'' \<or> scn_peek e = CHR ''-'' then snd (scn_advance e) else e)"
  define h where "h = (if scn_peek c = CHR ''e'' \<or> scn_peek c = CHR ''E'' then advance_while is_ascii_digit g else c)"
  have b: "follows sc b \<and> length (scn_rest b) < length (scn_rest sc)"
  proof (cases "scn_peek sc = CHR ''-''")
    case True
    have "follows a b" by (simp add: b_def)
    then show ?thesis using True assms(1)
      by (auto simp: a_def intro: after_advance(1)) (auto simp: follows_def neq_Nil_conv)
  qed (use d in \<open>simp add: a_def b_def\<close>)
  have "follows b c" "follows c e" "follows e g" by (auto simp: c_def e_def g_def intro: after_advance(1))
  moreover from this have "follows c h" by (auto simp: h_def intro: follows_trans)
  ultimately have "follows b h" by (blast intro: follows_trans)
  then have "consumed sc (Inr (new_token k sc h, h))" if "k \<noteq> Eof" for k
    using that b by (intro consumed_token) (auto simp: follows_def)
  then show ?thesis
    unfolding scan_number_def Let_def
    unfolding a_def [symmetric] unfolding b_def [symmetric] unfolding c_def [symmetric]
    unfolding e_def [symmetric] unfolding g_def [symmetric] unfolding h_def [symmetric]
    by (cases "parse_number_lexeme F (scanned_since sc h) (scn_line sc) (scn_col sc)")
      (simp_all add: number_not_end)
qed

lemma ident_consumed:
  assumes "scn_rest sc \<noteq> []" "solid sc"
  shows "consumed sc (scan_ident_or_keyword sc)"
proof -
  define a where "a = advance_while is_ident_continue (snd (scn_advance sc))"
  define b where "b = advance_chars_while is_ascii_whitespace a"
  define c where "c = advance_while is_ident_continue b"
  have f: "follows (snd (scn_advance sc)) a" "follows a b" "follows b c" by (simp_all add: a_def b_def c_def)
  then have g: "follows (snd (scn_advance sc)) b" "follows (snd (scn_advance sc)) c" by (blast intro: follows_trans)+
  then have "follows sc b" by (blast intro: after_advance)
  moreover from this assms(2) have "solid b" by (auto simp: solid_def follows_def list_all_iff)
  ultimately have "starts_with (scn_rest b) ''/*'' \<Longrightarrow> consumed sc (scan_block_comment sc b)"
    using assms(1) by (intro comment_consumed)
  then show ?thesis using past_advance [OF f(1) assms(1)] past_advance [OF g(2) assms(1)]
    by (simp add: scan_ident_or_keyword_def Let_def a_def [symmetric] b_def [symmetric] c_def [symmetric])
qed

lemma operator_consumed:
  assumes "scn_rest sc \<noteq> []"
  shows "consumed sc (scan_operator_or_punct sc)"
proof -
  have "consumed sc (Inr (new_token k sc (scn_advance_slice (take 2 (scn_rest sc)) sc),
      scn_advance_slice (take 2 (scn_rest sc)) sc))" if "k \<noteq> Eof" for k
    using assms that by (intro consumed_token) (auto simp: neq_Nil_conv)
  moreover have "consumed sc (Inr (new_token k sc (snd (scn_advance sc)), snd (scn_advance sc)))" if "k \<noteq> Eof" for k
    using assms that by (intro past_advance) simp_all
  ultimately show ?thesis
    by (auto simp: scan_operator_or_punct_def Let_def case_prod_unfold dest: symbol_not_end split: option.split)
qed

lemma if_cases: "(if c then x else y) = z \<Longrightarrow> (x = z \<Longrightarrow> Q) \<Longrightarrow> (y = z \<Longrightarrow> Q) \<Longrightarrow> Q"
  by (cases c) simp_all

lemma fast_token:
  assumes "try_fast_cst_token F t sc = Inr (Some r)"
  shows "\<exists>k. k \<noteq> Eof \<and> r = (new_token k sc (take_cst_token t sc), take_cst_token t sc)"
  using assms unfolding try_fast_cst_token_def Let_def
  by (elim if_cases)
    (auto split: option.splits sum.splits dest: symbol_not_end number_not_end
      intro: exI [of _ "from_keyword_or_ident (lexed_slice t)"])

lemma fast_consumed:
  assumes "scn_rest sc \<noteq> []" "lexed_slice t \<noteq> []" "try_fast_cst_token F t sc = Inr (Some r)"
  shows "consumed sc (Inr r)"
proof -
  have "consumed sc (Inr (new_token k sc (take_cst_token t sc), take_cst_token t sc))" if "k \<noteq> Eof" for k
    using assms(1,2) that by (intro consumed_token) (auto simp: rest_take neq_Nil_conv)
  then show ?thesis using fast_token [OF assms(3)] by blast
qed

section \<open>The scan\<close>

text \<open>A scan of a source of a given length: tokens in order, then one end token where the source ends.\<close>

fun tokens_in_order :: "nat \<Rightarrow> nat \<Rightarrow> Token list \<Rightarrow> bool" where
  "tokens_in_order pos len [] \<longleftrightarrow> False"
| "tokens_in_order pos len [t] \<longleftrightarrow> pos \<le> len \<and> t = \<lparr>tok_kind = Eof, tok_span =
     \<lparr>span_start = len, span_end = len, span_line = span_line (tok_span t), span_col = span_col (tok_span t)\<rparr>\<rparr>"
| "tokens_in_order pos len (t # ts) \<longleftrightarrow>
     pos \<le> span_start (tok_span t) \<and> span_start (tok_span t) < span_end (tok_span t)
     \<and> tokens_in_order (span_end (tok_span t)) len ts"

lemma scan_round_cases:
  assumes "solid sc0"
  shows "(\<exists>e. scanner_next_token F sc0 = Inl e) \<or>
    (\<exists>sc. follows sc0 sc \<and> scn_rest sc = [] \<and> scanner_next_token F sc0 = Inr (new_token Eof sc sc, sc)) \<or>
    (\<exists>sc. follows sc0 sc \<and> consumed sc (scanner_next_token F sc0))"
proof -
  define sc where "sc = skip_whitespace_and_line_comments sc0"
  have f: "follows sc0 sc" by (simp add: sc_def)
  then have s: "solid sc" using assms by (auto simp: solid_def follows_def list_all_iff)
  show ?thesis
  proof (cases "scn_rest sc = []")
    case True
    then show ?thesis using f by (auto simp: scanner_next_token_def sc_def [symmetric] Let_def)
  next
    case False
    note ne = this
    obtain al sc1 where al: "aligned_cst_token sc = (al, sc1)" by fastforce
    have f1: "follows sc0 sc1" using f follows_aligned [of sc] by (auto simp: al intro: follows_trans)
    have r1: "scn_rest sc1 = scn_rest sc" using aligned_rest [of sc] by (simp add: al)
    have s1: "solid sc1" using s follows_aligned [of sc] by (auto simp: al solid_def follows_def list_all_iff)
    have solid: "al = Some t \<Longrightarrow> lexed_slice t \<noteq> []" for t
      using aligned_member [of sc t sc1] al s by (auto simp: solid_def list_all_iff)
    have slow: "consumed sc1 (scan_string q sc1)" "consumed sc1 (scan_ident_or_keyword sc1)"
      "consumed sc1 (scan_operator_or_punct sc1)"
      "is_ascii_digit (scn_peek sc1) \<or> scn_peek sc1 = CHR ''-'' \<Longrightarrow> consumed sc1 (scan_number F sc1)" for q
      using ne r1 s1 by (simp_all add: string_consumed ident_consumed operator_consumed number_consumed)
    show ?thesis
    proof (cases "starts_with (scn_rest sc) ''/*''")
      case True
      then have "consumed sc (scan_block_comment sc sc)" using ne s by (intro comment_consumed) simp_all
      then show ?thesis using True ne f
        by (auto simp: scanner_next_token_def sc_def [symmetric] Let_def)
    next
      case False
      have "(\<exists>e. scanner_next_token F sc0 = Inl e) \<or> consumed sc1 (scanner_next_token F sc0)"
        using False ne r1 solid slow fast_consumed [of sc1 _ F]
        unfolding scanner_next_token_def sc_def [symmetric] Let_def al
        by (simp split: option.split sum.split) auto
      then show ?thesis using f1 by blast
    qed
  qed
qed

lemma solid_follows: "solid sc \<Longrightarrow> follows sc sc' \<Longrightarrow> solid sc'"
  by (auto simp: solid_def follows_def list_all_iff)

lemma in_order_Cons:
  "ts \<noteq> [] \<Longrightarrow> tokens_in_order pos len (t # ts) \<longleftrightarrow>
     pos \<le> span_start (tok_span t) \<and> span_start (tok_span t) < span_end (tok_span t)
     \<and> tokens_in_order (span_end (tok_span t)) len ts"
  by (cases ts) simp_all

lemma in_order_start: "a \<le> pos \<Longrightarrow> tokens_in_order pos len ts \<Longrightarrow> tokens_in_order a len ts"
  by (cases ts; cases "tl ts") auto

lemma scan_tokens_total:
  assumes "solid sc"
  shows "\<exists>r. scan_tokens F sc = Some r \<and>
    (case r of Inl e \<Rightarrow> True | Inr toks \<Rightarrow> tokens_in_order (scn_cursor sc) (scn_end sc) toks)"
  using assms
proof (induction "length (scn_rest sc)" arbitrary: sc rule: less_induct)
  case less
  from scan_round_cases [OF less.prems, of F]
  consider (err) e where "scanner_next_token F sc = Inl e"
    | (fin) s where "follows sc s" "scn_rest s = []" "scanner_next_token F sc = Inr (new_token Eof s s, s)"
    | (tok) s t s' where "follows sc s" "scanner_next_token F sc = Inr (t, s')" "consumed s (Inr (t, s'))"
    by (metis prod.collapse sum.exhaust)
  then show ?case
  proof cases
    case err
    then show ?thesis by (subst scan_tokens.simps) simp
  next
    case fin
    have "scn_cursor s = scn_end sc" using fin(1,2) by (simp add: follows_def scn_end_def)
    then show ?thesis using fin follows_cursor [OF fin(1)]
      by (subst scan_tokens.simps) (simp add: new_token_def new_span_def)
  next
    case tok
    have f: "follows s s'" "length (scn_rest s') < length (scn_rest s)" "tok_kind t \<noteq> Eof"
      "span_start (tok_span t) = scn_cursor s" "span_end (tok_span t) = scn_cursor s'"
      using tok(3) by (simp_all add: consumed_def)
    have sc': "follows sc s'" using tok(1) f(1) by (rule follows_trans)
    have "length (scn_rest s') < length (scn_rest sc)" using tok(1) f(2) by (simp add: follows_def)
    then obtain r where r: "scan_tokens F s' = Some r"
      "case r of Inl e \<Rightarrow> True | Inr toks \<Rightarrow> tokens_in_order (scn_cursor s') (scn_end s') toks"
      using less.hyps solid_follows [OF less.prems sc'] by blast
    have "scn_cursor s < scn_cursor s'" using f(1,2) by (simp add: follows_def scn_end_def)
    moreover have "toks \<noteq> []" if "r = Inr toks" for toks using r(2) that by auto
    ultimately show ?thesis using r f tok(2) sc' follows_cursor [OF tok(1)]
      by (subst scan_tokens.simps) (cases r; simp add: in_order_Cons follows_def)
  qed
qed

lemma lexer_solid: "solid (scanner_new err source)"
proof -
  have "tiles 0 (length source) (lexer err source)" using spanned_tiles [of 0 source err] by simp
  then have "(res, i, j) \<in> set (lexer err source) \<Longrightarrow> get_range source i j \<noteq> []" for res i j
    using tiles_member [of 0 "length source" "lexer err source" res i j] by (auto simp: get_range_def)
  then show ?thesis by (force simp: solid_def scanner_new_def tokenize_sysml_def list_all_iff)
qed

lemma scan_in_order:
  "\<exists>r. scan_all err F source = Some r \<and>
    (case r of Inl e \<Rightarrow> True | Inr toks \<Rightarrow> tokens_in_order 0 (length source) toks)"
proof -
  have "scn_cursor (scanner_new err source) = 0" "scn_end (scanner_new err source) = length source"
    by (simp_all add: scanner_new_def scn_end_def)
  with scan_tokens_total [OF lexer_solid, of F err source] show ?thesis by (simp only: scan_all_def)
qed

text \<open>
  C28: The scanner returns on every source, with an error or with tokens whose spans follow each other
  without overlap inside the source, the last one being the only end token, at the end of the source.
\<close>

theorem scan_returns_in_order:
  "\<exists>r. scan_all err F source = Some r \<and>
    (case r of Inl e \<Rightarrow> True | Inr toks \<Rightarrow> tokens_in_order 0 (length source) toks)"
  by (rule scan_in_order)

lemma in_order_last: "tokens_in_order pos len ts \<Longrightarrow> ts \<noteq> [] \<and> tok_kind (last ts) = Eof"
proof (induction pos len ts rule: tokens_in_order.induct)
  case (2 pos len t)
  then show ?case by (metis Token.select_convs(1) last_ConsL list.distinct(1) tokens_in_order.simps(2))
qed auto

end
