(* ===== verification/Hir_Returns.thy ===== *)
theory Hir_Returns
  imports Hir_Progress Cst_Returns
begin

text \<open>
  Which files the compiler's parser returns from. Declarations of packages, parts and states always
  return. The loop over the items of a file does not test for a closing brace, and an item leaves a
  closing brace to its caller: a file whose loop meets one keeps the parser busy for ever.
\<close>

section \<open>Items\<close>

lemma container_doc_behind:
  "behind k p \<Longrightarrow> ends_behind k (container_doc sc p)"
  by (simp add: container_doc_def Let_def case_prod_unfold split: TokenKind.split)

text \<open>Where the parsers of packages and parts consume, an item that starts inside a body does.\<close>

lemma item_inner_ends:
  assumes pkg: "\<And>d j q. behind (Suc j) q \<Longrightarrow> ends_behind j (package_decl d q)"
    and part: "\<And>d j q. behind (Suc j) q \<Longrightarrow> ends_behind j (part_decl d q)"
    and p: "behind (Suc k) p" "\<not> is_at_end p" "\<not> check (Sym SCloseBrace) p"
  shows "ends_behind k (parse_container_item_inner F n package_decl part_decl sc p)"
proof -
  define p1 where "p1 = skip_trivia p"
  define p2 where "p2 = snd (take_doc_comment p1)"
  define p3 where "p3 = skip_trivia p2"
  define q where "q = snd (last_doc (fst (take_doc_comment p1)) p3)"
  have "p1 = p \<or> behind k p1" using skip_moves [OF p(1)] by (simp add: p1_def)
  then have "p2 = p \<or> behind k p2" using doc_moves [OF p(1)] by (auto simp: p2_def)
  then have "p3 = p \<or> behind k p3" using skip_moves [OF p(1)] by (auto simp: p3_def)
  then have q: "q = p \<or> behind k q" using last_doc_moves [OF p(1)] by (auto simp: q_def)
  then have q': "behind (Suc k) q" using p(1) by auto
  have docs: "peek_kind q = Kw KDoc \<Longrightarrow> ends_behind k (container_doc sc (advance q))"
    using q' by (auto intro!: container_doc_behind)
  show ?thesis
    unfolding parse_container_item_inner_def Let_def case_prod_unfold
    using q q' p docs
    by (auto simp: p1_def [symmetric] p2_def [symmetric] p3_def [symmetric] q_def [symmetric]
        intro!: push_parsed_ends sequence_ends leaf_ends pkg part parse_state_ends)
qed

text \<open>An item that meets a closing brace ends without it; otherwise it consumes.\<close>

lemma item_inner_cases:
  assumes pkg: "\<And>d j q. behind (Suc j) q \<Longrightarrow> ends_behind j (package_decl d q)"
    and part: "\<And>d j q. behind (Suc j) q \<Longrightarrow> ends_behind j (part_decl d q)"
    and p: "behind k p"
  shows "ends_behind k (parse_container_item_inner F n package_decl part_decl sc p)"
  unfolding parse_container_item_inner_def Let_def case_prod_unfold
  using p by (auto intro!: push_parsed_ends sequence_ends leaf_ends pkg part parse_state_ends container_doc_behind)

definition in_body :: "SysmlParser \<Rightarrow> bool" where
  "in_body p \<longleftrightarrow> \<not> check (Sym SCloseBrace) p \<and> \<not> is_at_end p"

lemma body_items_end:
  assumes item: "\<And>s j q. in_body q \<Longrightarrow> behind (Suc j) q \<Longrightarrow> ends_behind j (item s q)" and p: "behind k p"
  shows "ends_behind k (container_items (\<lambda>p. \<not> check (Sym SCloseBrace) p \<and> \<not> is_at_end p) item s p)"
  unfolding container_items_def using item p
  by (auto simp: in_body_def intro!: loop_while_ends sequence_round)

lemma package_inner_ends:
  assumes item: "\<And>s j q. in_body q \<Longrightarrow> behind (Suc j) q \<Longrightarrow> ends_behind j (item s q)" and p: "behind (Suc k) p"
  shows "ends_behind k (parse_package_decl_inner item doc p)"
  unfolding parse_package_decl_inner_def Let_def case_prod_unfold using p
  by (auto intro!: sequence_ends consumes body_items_end item)

lemma part_inner_ends:
  assumes item: "\<And>s j q. in_body q \<Longrightarrow> behind (Suc j) q \<Longrightarrow> ends_behind j (item s q)" and p: "behind (Suc k) p"
  shows "ends_behind k (parse_part_decl_inner n item doc p)"
  unfolding parse_part_decl_inner_def parse_part_item_def Let_def case_prod_unfold using p
  by (auto intro!: sequence_ends consumes body_items_end item)

lemma container_item_ends: "in_body p \<Longrightarrow> behind (Suc k) p \<Longrightarrow> ends_behind k (parse_container_item F n sc p)"
  and package_ends: "behind (Suc k) p \<Longrightarrow> ends_behind k (parse_package_decl F n doc p)"
  and part_ends: "behind (Suc k) p \<Longrightarrow> ends_behind k (parse_part_decl F n doc p)"
proof (induction n arbitrary: k p sc doc)
  case (Suc n)
  { case 1
    then show ?case by (auto simp: in_body_def intro!: item_inner_ends Suc.IH) }
  { case 2
    then show ?case by (auto intro!: package_inner_ends Suc.IH) }
  { case 3
    then show ?case by (auto intro!: part_inner_ends Suc.IH) }
qed simp_all

section \<open>The loop over a file\<close>

text \<open>The rounds of the loop: the package so far and the cursor.\<close>

inductive file_rounds :: "F64Text \<Rightarrow> PackageDef \<Rightarrow> SysmlParser \<Rightarrow> PackageDef \<Rightarrow> SysmlParser \<Rightarrow> bool" for F where
  no_round: "file_rounds F pkg p pkg p"
| one_round: "\<not> is_at_end p \<Longrightarrow> parse_container_item F MAX_PARSE_DEPTH (pkg, None) p = Done (pkg', part) p' \<Longrightarrow>
    file_rounds F pkg' (skip_trivia p') end_pkg q \<Longrightarrow> file_rounds F pkg p end_pkg q"

lemma brace_stops: "check (Sym SCloseBrace) p \<Longrightarrow> skip_trivia p = p \<and> take_doc_comment p = (None, p)"
  by (cases "ahead p") (auto simp: check_def peek_kind_def skip_trivia_def advance_past_def take_doc_comment_def
      is_at_end_def split: TokenKind.splits)

lemma no_doc_given [simp]: "set_package_doc (give_doc None (pkg_doc pkg)) pkg = pkg"
  by (cases pkg) (simp add: give_doc_def split: option.split)

lemma item_at_brace:
  assumes "check (Sym SCloseBrace) p"
  shows "parse_container_item F (Suc n) (pkg, None) p = Done (pkg, None) p"
  using assms brace_stops [OF assms]
  by (simp add: parse_container_item_inner_def last_doc.simps [of _ p] assign_container_doc_def)

lemma file_items_step:
  assumes "\<not> is_at_end p"
  shows "file_items F pkg p =
    (case parse_container_item F MAX_PARSE_DEPTH (pkg, None) p of
       Done (pkg', part) p' \<Rightarrow>
         if length (ahead (skip_trivia p')) < length (ahead p) then file_items F pkg' (skip_trivia p') else Diverges
     | Fails e \<Rightarrow> Fails e
     | Diverges \<Rightarrow> Diverges)"
  using assms unfolding file_items_def container_items_def
  by (subst loop_while.simps) (auto split: outcome.split prod.split)

lemma file_items_end: "is_at_end p \<Longrightarrow> file_items F pkg p = Done pkg p"
  unfolding file_items_def container_items_def by (subst loop_while.simps) simp

lemma file_items_hangs:
  "file_rounds F pkg p end_pkg q \<Longrightarrow> check (Sym SCloseBrace) q \<Longrightarrow> file_items F pkg p = Diverges"
proof (induction rule: file_rounds.induct)
  case (no_round pkg p)
  then have "\<not> is_at_end p" by (simp add: check_def)
  then show ?case using no_round item_at_brace [of p F 63 pkg] brace_stops [of p]
    by (subst file_items_step) (simp_all add: MAX_PARSE_DEPTH_def eval_nat_numeral)
next
  case (one_round p pkg pkg' part p' end_pkg q)
  then show ?case by (subst file_items_step) simp_all
qed

lemma file_items_returns:
  assumes "behind k p" "file_items F pkg p = Diverges"
  shows "\<exists>end_pkg q. file_rounds F pkg p end_pkg q \<and> check (Sym SCloseBrace) q"
  using assms
proof (induction "length (ahead p)" arbitrary: p pkg k rule: less_induct)
  case less
  have at: "\<not> is_at_end p" using less.prems(2) file_items_end [of p F pkg] by auto
  show ?case
  proof (cases "check (Sym SCloseBrace) p")
    case True
    then show ?thesis by (blast intro: file_rounds.no_round)
  next
    case False
    have e: "ends_behind (length (ahead p)) (parse_container_item F MAX_PARSE_DEPTH (pkg, None) p)"
      using False at behind_ahead [OF less.prems(1)] by (intro container_item_ends) (simp_all add: in_body_def)
    then obtain pkg' part p' where d: "parse_container_item F MAX_PARSE_DEPTH (pkg, None) p = Done (pkg', part) p'"
      using less.prems(2) file_items_step [OF at, of F pkg] by (auto split: outcome.splits)
    then have b: "behind (length (ahead p)) (skip_trivia p')" using e by simp
    then have n: "length (ahead (skip_trivia p')) < length (ahead p)" by (simp add: behind_def)
    have "file_items F pkg' (skip_trivia p') = Diverges"
      using less.prems(2) n d file_items_step [OF at, of F pkg] by simp
    then obtain end_pkg q where "file_rounds F pkg' (skip_trivia p') end_pkg q" "check (Sym SCloseBrace) q"
      using less.hyps [OF n b] by blast
    then show ?thesis using file_rounds.one_round [OF at d] by blast
  qed
qed

section \<open>A whole source\<close>

text \<open>Where the loop over a file starts, if there is one; the error and a file of one package have none.\<close>

definition file_start :: "F64Text \<Rightarrow> string \<Rightarrow> SysmlParser \<Rightarrow> (PackageDef \<times> SysmlParser) option" where
  "file_start F default_pkg_name p0 =
     (let (pending_doc, p1) = take_doc_comment (skip_trivia p0); p = skip_trivia p1 in
      if check (Kw KPackage) p then
        (case parse_package_decl F MAX_PARSE_DEPTH pending_doc p of
           Done first_pkg p \<Rightarrow>
             (if is_at_end (skip_trivia p) then None
              else Some (named_package default_pkg_name None [first_pkg], skip_trivia p))
         | _ \<Rightarrow> None)
      else Some (named_package default_pkg_name pending_doc [], p))"

lemma and_then_Diverges: "and_then r (\<lambda>a p. Done (f a) p) = Diverges \<longleftrightarrow> r = Diverges"
  by (cases r) simp_all

lemma parse_file_hangs:
  assumes "behind k p"
  shows "parse_package_or_file F name p = Diverges \<longleftrightarrow>
    (\<exists>pkg q. file_start F name p = Some (pkg, q) \<and> file_items F pkg q = Diverges)"
proof -
  define d where "d = fst (take_doc_comment (skip_trivia p))"
  define q where "q = skip_trivia (snd (take_doc_comment (skip_trivia p)))"
  have q: "behind k q" using assms by (simp add: q_def)
  have pkg: "ends_behind k (parse_package_decl F MAX_PARSE_DEPTH d q)" using q by (intro package_ends) simp
  show ?thesis
    unfolding parse_package_or_file_def file_start_def Let_def case_prod_unfold d_def [symmetric] q_def [symmetric]
    using pkg by (cases "parse_package_decl F MAX_PARSE_DEPTH d q") (auto simp: and_then_Diverges)
qed

lemma file_start_behind:
  assumes "behind k p" "file_start F name p = Some (pkg, q)"
  shows "behind k q"
proof -
  define d where "d = fst (take_doc_comment (skip_trivia p))"
  define r where "r = skip_trivia (snd (take_doc_comment (skip_trivia p)))"
  have r: "behind k r" using assms by (simp add: r_def)
  then have pkg: "ends_behind k (parse_package_decl F MAX_PARSE_DEPTH d r)" by (intro package_ends) simp
  show ?thesis using assms(2) r pkg
    unfolding file_start_def Let_def case_prod_unfold d_def [symmetric] r_def [symmetric]
    by (auto split: if_splits outcome.splits)
qed

lemma sigil_token_end: "tok_kind t = Eof \<Longrightarrow> tok_kind (sigil_token src t) = Eof"
  by (simp add: sigil_token_def Let_def)

lemma tokenize_total:
  "\<exists>r. tokenize_source err F source = Some r \<and>
    (case r of Inl e \<Rightarrow> True | Inr toks \<Rightarrow> behind (Suc (length toks)) (parser_new toks))"
proof -
  let ?s = "normalize_type_sigils source"
  obtain r where r: "scan_all err F ?s = Some r"
    "case r of Inl e \<Rightarrow> True | Inr toks \<Rightarrow> tokens_in_order 0 (length ?s) toks"
    using scan_in_order by blast
  then show ?thesis
    by (cases r) (auto simp: tokenize_source_def behind_def parser_new_def last_map sigil_token_end dest!: in_order_last)
qed

text \<open>
  C29: Parsing a source always returns, with a package or an error, unless the loop over the file's
  declarations reaches a closing brace that no declaration opened: then it never returns.
\<close>

theorem parse_hangs_iff_stray_brace:
  "parse_source err F source name = None \<longleftrightarrow>
    (\<exists>toks pkg p end_pkg q. tokenize_source err F source = Some (Inr toks)
       \<and> file_start F name (parser_new toks) = Some (pkg, p)
       \<and> file_rounds F pkg p end_pkg q \<and> check (Sym SCloseBrace) q)"
proof -
  obtain r where r: "tokenize_source err F source = Some r"
    "case r of Inl e \<Rightarrow> True | Inr toks \<Rightarrow> behind (Suc (length toks)) (parser_new toks)"
    using tokenize_total by blast
  show ?thesis
  proof (cases r)
    case (Inr toks)
    then have b: "behind (Suc (length toks)) (parser_new toks)" using r(2) by simp
    have "parse_source err F source name = None \<longleftrightarrow> parse_package_or_file F name (parser_new toks) = Diverges"
      using r(1) Inr by (auto simp: parse_source_def split: outcome.splits)
    then show ?thesis
      using parse_file_hangs [OF b, of F name] file_start_behind [OF b, of F name] r(1) Inr
      by (simp add: ex_simps) (meson file_items_hangs file_items_returns)
  qed (use r(1) in \<open>simp add: parse_source_def\<close>)
qed

end
