(* ===== verification/Hir_Limits.thy ===== *)
theory Hir_Limits
  imports Hir_Returns Serializer
begin

text \<open>
  Where the compiler's parser does not read what the serializer writes, although both promise
  \<^verbatim>\<open>parse(serialize(ast)) == ast\<close>. The inputs are token lists; positions do not matter here.
\<close>

abbreviation at_kind :: "TokenKind \<Rightarrow> Token" where
  "at_kind k \<equiv> \<lparr>tok_kind = k, tok_span = default_span\<rparr>"

text \<open>A cursor with the given kinds of tokens ahead.\<close>

definition cursor :: "TokenKind list \<Rightarrow> SysmlParser" where
  "cursor ks = \<lparr>ahead = map at_kind ks, final_token = at_kind Eof\<rparr>"

lemma cursor_peek [simp]:
  "peek_kind (cursor (k # ks)) = k" "advance (cursor (k # ks)) = cursor ks"
  "peek_tok (cursor (k # ks)) = at_kind k" "second_kind (cursor (k # k' # ks)) = Some k'"
  by (simp_all add: cursor_def peek_kind_def advance_def peek_tok_def second_kind_def)

lemma cursor_length [simp]: "length (ahead (cursor ks)) = length ks"
  by (simp add: cursor_def)

lemma cursor_check [simp]:
  "is_at_end (cursor (k # ks)) \<longleftrightarrow> k = Eof"
  "check t (cursor (k # ks)) \<longleftrightarrow> k \<noteq> Eof \<and> discriminant k = discriminant t"
  by (simp_all add: is_at_end_def check_def)

lemma cursor_eat [simp]:
  "eat t (cursor (k # ks)) = (if k \<noteq> Eof \<and> discriminant k = discriminant t then cursor ks else cursor (k # ks))"
  by (simp add: eat_def)

lemma cursor_expect [simp]:
  "expect t (cursor (k # ks)) =
     (if k \<noteq> Eof \<and> discriminant k = discriminant t then Done () (cursor ks)
      else Fails \<lparr>pe_message = ExpectedKind t k, pe_span = default_span\<rparr>)"
  by (simp add: expect_def error_at_def)

lemma cursor_semi [simp]: "expect_semi (cursor (Sym SSemi # ks)) = Done () (cursor ks)"
  by (simp add: expect_semi_def)

definition is_trivia :: "TokenKind \<Rightarrow> bool" where
  "is_trivia k \<longleftrightarrow> (case k of LineCommentTok _ \<Rightarrow> True | Sym SSemi \<Rightarrow> True | _ \<Rightarrow> False)"

lemma cursor_skip [simp]: "\<not> is_trivia k \<Longrightarrow> skip_trivia (cursor (k # ks)) = cursor (k # ks)"
  by (simp add: skip_trivia_def advance_past_def cursor_def is_trivia_def)

lemma not_trivia [simp]:
  "\<not> is_trivia (Kw w)" "\<not> is_trivia (DocComment d)" "\<not> is_trivia (Ident i)" "\<not> is_trivia Eof"
  "is_trivia (Sym y) \<longleftrightarrow> y = SSemi"
  by (simp_all add: is_trivia_def split: Symbol.split)

lemma cursor_doc [simp]:
  "take_doc_comment (cursor (DocComment d # ks)) = (Some d, cursor ks)"
  "(case k of DocComment _ \<Rightarrow> False | _ \<Rightarrow> True) \<Longrightarrow> take_doc_comment (cursor (k # ks)) = (None, cursor (k # ks))"
  by (simp_all add: take_doc_comment_def split: TokenKind.splits)

text \<open>A name that is not one of the characters of a type sigil.\<close>

definition proper_name :: "string \<Rightarrow> bool" where
  "proper_name n \<longleftrightarrow> n \<noteq> ''&'' \<and> n \<noteq> ''?'' \<and> n \<noteq> [SQ]"

lemma cursor_ident [simp]: "proper_name n \<Longrightarrow> expect_ident (cursor (Ident n # ks)) = Done n (cursor ks)"
  by (simp add: expect_ident_def parse_identifier_def Let_def proper_name_def)

lemma cursor_last_doc [simp]:
  "(case k of DocComment _ \<Rightarrow> False | _ \<Rightarrow> True) \<Longrightarrow> last_doc d (cursor (k # ks)) = (d, cursor (k # ks))"
  by (subst last_doc.simps) simp

lemma parse_depth:
  obtains m where "MAX_PARSE_DEPTH = Suc (Suc (Suc m))"
  by (rule that [of 61]) (simp add: MAX_PARSE_DEPTH_def)

text \<open>A reading and printing of reals for the examples, which have none.\<close>

definition no_reals :: F64Text where
  "no_reals = \<lparr>f64_parse = (\<lambda>_. None), f64_whole = (\<lambda>_. True), f64_display = (\<lambda>_. []), f64_display1 = (\<lambda>_. [])\<rparr>"

section \<open>A stray closing brace\<close>

text \<open>
  A source whose first token is a closing brace keeps the parser busy for ever: an item gives the
  brace back to its caller, and the loop over the file does not look for one.
\<close>

theorem stray_brace_hangs:
  assumes "tok_kind t = Sym SCloseBrace"
  shows "parse_package_or_file F name (parser_new (t # ts)) = Diverges"
proof -
  let ?p = "parser_new (t # ts)"
  have c: "check (Sym SCloseBrace) ?p" "\<not> check (Kw KPackage) ?p"
    using assms by (simp_all add: check_def is_at_end_def peek_kind_def parser_new_def)
  have "file_items F pkg ?p = Diverges" for pkg
    by (rule file_items_hangs [OF file_rounds.no_round c(1)])
  then show ?thesis using c brace_stops [OF c(1)] by (simp add: parse_package_or_file_def)
qed

theorem stray_brace_hangs_witness:
  "parse_package_or_file no_reals ''SysML_Model'' (parser_new [at_kind (Sym SCloseBrace), at_kind Eof]) = Diverges"
  by (rule stray_brace_hangs) simp

section \<open>Documentation moves\<close>

definition empty_state :: "string \<Rightarrow> string option \<Rightarrow> StateDef" where
  "empty_state s doc = StateDef s doc None None None [] []"

lemma state_without_members:
  "proper_name s \<Longrightarrow>
   parse_state_decl F (Suc n) doc (cursor (Kw KState # Kw KDef # Ident s # Sym SOpenBrace # Sym SCloseBrace # ks))
     = Done (empty_state s doc) (cursor ks)"
  by (simp add: parse_state_decl_inner_def decl_name_def opt_body_def parse_body_def loop_until_def
      loop_while.simps empty_state_def)

text \<open>
  The comment before the first member of a package without documentation becomes the package's: the
  text that is written for a documented state in such a package is read as a documented package with an
  undocumented state.
\<close>

theorem first_comment_goes_to_package:
  assumes "proper_name n" "proper_name s"
  shows "parse_package_or_file F name (cursor
      [Kw KPackage, Ident n, Sym SOpenBrace, DocComment d, Kw KState, Kw KDef, Ident s, Sym SOpenBrace, Sym SCloseBrace,
       Sym SCloseBrace, Eof])
    = Done (push_package_member (StateMember (empty_state s None)) (named_package n (Some d) [])) (cursor [Eof])"
proof -
  have item: "parse_container_item F (Suc (Suc m)) (pkg, None)
      (cursor (Kw KState # Kw KDef # Ident s # Sym SOpenBrace # Sym SCloseBrace # ks))
    = Done (push_package_member (StateMember (empty_state s None)) pkg, None) (cursor ks)" for pkg m ks
    using assms by (simp add: parse_container_item_inner_def push_parsed_def push_member_def state_without_members
        del: parse_state_decl.simps)
  have "parse_package_decl F (Suc (Suc (Suc m))) None (cursor
      [Kw KPackage, Ident n, Sym SOpenBrace, DocComment d, Kw KState, Kw KDef, Ident s, Sym SOpenBrace, Sym SCloseBrace,
       Sym SCloseBrace, Eof])
    = Done (push_package_member (StateMember (empty_state s None)) (named_package n (Some d) [])) (cursor [Eof])" for m
    using assms
    by (simp add: parse_package_decl_inner_def container_items_def loop_while.simps item
        del: parse_container_item.simps push_package_member.simps)
  note whole = this
  obtain m where m: "MAX_PARSE_DEPTH = Suc (Suc (Suc m))" by (rule parse_depth)
  show ?thesis using whole [of m]
    by (simp add: parse_package_or_file_def m del: parse_package_decl.simps push_package_member.simps)
qed

theorem first_comment_goes_to_package_witness:
  "parse_package_or_file no_reals ''SysML_Model'' (cursor
      [Kw KPackage, Ident ''Pump'', Sym SOpenBrace, DocComment ''Off until started.'', Kw KState, Kw KDef, Ident ''Off'',
       Sym SOpenBrace, Sym SCloseBrace, Sym SCloseBrace, Eof])
    = Done (push_package_member (StateMember (empty_state ''Off'' None))
        (named_package ''Pump'' (Some ''Off until started.'') [])) (cursor [Eof])"
  by (rule first_comment_goes_to_package) (simp_all add: proper_name_def)

section \<open>Conjugated ports\<close>

text \<open>
  The serializer puts the tilde of a conjugated port before its name, where the parser expects the
  name: the tokens of that text are refused. The parser's own place for it is after the colon.
\<close>

theorem conjugated_port_refused:
  assumes "n \<noteq> ty"
  shows "port_to_sysml \<lparr>port_name = n, port_type_name = ty, port_direction = ''in'', port_is_conjugated = True,
      port_doc = None, port_port_category = [], port_protocol_family = [], port_electrical_attributes = [],
      port_item_flows = []\<rparr> 0 = ''port in ~'' @ n @ '' : '' @ ty @ '';''
    \<and> parse_port_decl F d None
      (cursor [Kw KPort, Kw KIn, Sym STilde, Ident n, Sym SColon, Ident ty, Sym SSemi, Eof])
      = Fails \<lparr>pe_message = ExpectedIdentifier (Sym STilde), pe_span = default_span\<rparr>"
proof
  show "port_to_sysml \<lparr>port_name = n, port_type_name = ty, port_direction = ''in'', port_is_conjugated = True,
      port_doc = None, port_port_category = [], port_protocol_family = [], port_electrical_attributes = [],
      port_item_flows = []\<rparr> 0 = ''port in ~'' @ n @ '' : '' @ ty @ '';''"
    using assms by (simp add: port_to_sysml_def Let_def port_category_shown_def direction_text_def
        format_doc_comment_def trimmed_text_def non_empty_text_def pad_def)
  have "\<not> is_contextual_identifier_keyword (Sym STilde)" by code_simp
  then show "parse_port_decl F d None
      (cursor [Kw KPort, Kw KIn, Sym STilde, Ident n, Sym SColon, Ident ty, Sym SSemi, Eof])
      = Fails \<lparr>pe_message = ExpectedIdentifier (Sym STilde), pe_span = default_span\<rparr>"
    by (simp add: parse_port_decl_def take_direction_keyword_def expect_ident_def parse_identifier_def error_at_def)
qed

theorem conjugated_port_refused_witness:
  "port_to_sysml \<lparr>port_name = ''fuel'', port_type_name = ''FuelPort'', port_direction = ''in'', port_is_conjugated = True,
      port_doc = None, port_port_category = [], port_protocol_family = [], port_electrical_attributes = [],
      port_item_flows = []\<rparr> 0 = ''port in ~'' @ ''fuel'' @ '' : '' @ ''FuelPort'' @ '';''
    \<and> parse_port_decl no_reals 1 None
      (cursor [Kw KPort, Kw KIn, Sym STilde, Ident ''fuel'', Sym SColon, Ident ''FuelPort'', Sym SSemi, Eof])
      = Fails \<lparr>pe_message = ExpectedIdentifier (Sym STilde), pe_span = default_span\<rparr>"
  by (rule conjugated_port_refused) simp

section \<open>Packages inside parts\<close>

text \<open>
  Packages and imports written inside a part are read and then thrown away, as is the rest of what
  they hold.
\<close>

theorem packages_in_parts_are_lost:
  "merge_dummy_pkg_into_part (set_packages ps (set_imports imps dummy)) part = merge_dummy_pkg_into_part dummy part"
  by (cases dummy; cases part) simp

section \<open>Nesting\<close>

text \<open>The tokens of a package in a package, \<open>i\<close> of them.\<close>

fun nested_tokens :: "string \<Rightarrow> nat \<Rightarrow> TokenKind list \<Rightarrow> TokenKind list" where
  "nested_tokens n 0 ks = ks"
| "nested_tokens n (Suc i) ks = Kw KPackage # Ident n # Sym SOpenBrace # nested_tokens n i (Sym SCloseBrace # ks)"

fun nested_package :: "string \<Rightarrow> nat \<Rightarrow> PackageDef list" where
  "nested_package n 0 = []"
| "nested_package n (Suc i) = [named_package n None (nested_package n i)]"

lemma nested_length [simp]: "length (nested_tokens n i ks) = 4 * i + length ks"
  by (induction n i ks rule: nested_tokens.induct) simp_all

lemma nested_head: "\<exists>k l. nested_tokens n i (Sym SCloseBrace # ks) = k # l \<and> (k = Sym SCloseBrace \<or> k = Kw KPackage)
    \<and> (i = 0 \<longleftrightarrow> k = Sym SCloseBrace)"
  by (cases i) simp_all

lemma nested_parse:
  assumes n: "proper_name n"
  shows "2 * i < d \<Longrightarrow> parse_package_decl F d None (cursor (nested_tokens n (Suc i) ks))
    = Done (named_package n None (nested_package n i)) (cursor ks)"
proof (induction i arbitrary: d ks)
  case 0
  then obtain m where "d = Suc m" by (cases d) auto
  then show ?case using n by (simp add: parse_package_decl_inner_def container_items_def loop_while.simps)
next
  case (Suc i)
  then obtain m where d: "d = Suc (Suc m)" "2 * i < m" by (metis Suc_lessD Suc_lessE add_Suc_right mult_2 mult_Suc_right plus_1_eq_Suc Suc_less_eq add_2_eq_Suc)
  have IH: "parse_package_decl F m None (cursor (Kw KPackage # Ident n # Sym SOpenBrace # nested_tokens n i (Sym SCloseBrace # ks)))
    = Done (named_package n None (nested_package n i)) (cursor ks)" for ks
    using Suc.IH [OF d(2)] by simp
  have item: "parse_container_item F (Suc m) (pkg, None)
      (cursor (Kw KPackage # Ident n # Sym SOpenBrace # nested_tokens n i (Sym SCloseBrace # ks)))
    = Done (set_packages (merge_into_first (named_package n None (nested_package n i)) (pkg_packages pkg)) pkg, None) (cursor ks)"
    for pkg ks
    by (simp add: parse_container_item_inner_def IH)
  show ?case using n
    by (simp add: d(1) parse_package_decl_inner_def container_items_def loop_while.simps item
        del: parse_container_item.simps) (simp add: named_package_def)
qed

lemma nested_refused:
  assumes n: "proper_name n"
  shows "d \<le> 2 * i \<Longrightarrow> parse_package_decl F d None (cursor (nested_tokens n (Suc i) ks))
    = Fails \<lparr>pe_message = MaxDepthExceeded, pe_span = default_span\<rparr>"
proof (induction i arbitrary: d ks)
  case 0
  then show ?case by (simp add: max_depth_error_def error_at_def)
next
  case (Suc i)
  have IH: "d \<le> 2 * i \<Longrightarrow> parse_package_decl F d None (cursor (Kw KPackage # Ident n # Sym SOpenBrace # nested_tokens n i (Sym SCloseBrace # ks)))
    = Fails \<lparr>pe_message = MaxDepthExceeded, pe_span = default_span\<rparr>" for d ks
    using Suc.IH by simp
  consider "d = 0" | "d = 1" | m where "d = Suc (Suc m)" "m \<le> 2 * i"
    using Suc.prems by (cases d; cases "d - 1") auto
  then show ?case
  proof cases
    case 1
    then show ?thesis by (simp add: max_depth_error_def error_at_def)
  next
    case 2
    then show ?thesis using n
      by (simp add: parse_package_decl_inner_def container_items_def loop_while.simps max_depth_error_def error_at_def)
  next
    case (3 m)
    have "parse_container_item F (Suc m) (pkg, None)
        (cursor (Kw KPackage # Ident n # Sym SOpenBrace # nested_tokens n i (Sym SCloseBrace # ks)))
      = Fails \<lparr>pe_message = MaxDepthExceeded, pe_span = default_span\<rparr>" for pkg ks
      using IH [OF 3(2)] by (simp add: parse_container_item_inner_def)
    then show ?thesis using n
      by (simp add: 3(1) parse_package_decl_inner_def container_items_def loop_while.simps
          del: parse_container_item.simps)
  qed
qed

text \<open>
  C31: Packages are read up to 32 levels deep and refused below: each level takes two of the 64 levels
  of the parser, one for the item and one for the package. The serializer writes 64 levels.
\<close>

theorem package_nesting_limit:
  assumes "proper_name n"
  shows "parse_package_or_file F name (cursor (nested_tokens n (Suc i) [Eof])) =
    (if i < 32 then Done (named_package n None (nested_package n i)) (cursor [Eof])
     else Fails \<lparr>pe_message = MaxDepthExceeded, pe_span = default_span\<rparr>)"
proof (cases "i < 32")
  case True
  then have "parse_package_decl F MAX_PARSE_DEPTH None (cursor (nested_tokens n (Suc i) [Eof]))
    = Done (named_package n None (nested_package n i)) (cursor [Eof])"
    using assms by (intro nested_parse) (simp_all add: MAX_PARSE_DEPTH_def)
  then show ?thesis using True by (simp add: parse_package_or_file_def)
next
  case False
  then have "parse_package_decl F MAX_PARSE_DEPTH None (cursor (nested_tokens n (Suc i) [Eof]))
    = Fails \<lparr>pe_message = MaxDepthExceeded, pe_span = default_span\<rparr>"
    using assms by (intro nested_refused) (simp_all add: MAX_PARSE_DEPTH_def)
  then show ?thesis using False by (simp add: parse_package_or_file_def)
qed

theorem package_nesting_limit_witness:
  "parse_package_or_file no_reals ''SysML_Model'' (cursor (nested_tokens ''P'' (Suc 32) [Eof])) =
    (if (32::nat) < 32 then Done (named_package ''P'' None (nested_package ''P'' 32)) (cursor [Eof])
     else Fails \<lparr>pe_message = MaxDepthExceeded, pe_span = default_span\<rparr>)"
  by (rule package_nesting_limit) (simp add: proper_name_def)

section \<open>Declarations return\<close>

text \<open>
  C30: The declaration of a package, a part or a state returns from every token list that ends in an end
  token, whatever the tokens are, and takes at least one of them when it succeeds.
\<close>

theorem declarations_return:
  assumes "tok_kind (final_token p) = Eof"
  shows "ends_behind (length (ahead p)) (parse_package_decl F n doc p)
    \<and> ends_behind (length (ahead p)) (parse_part_decl F n doc p)
    \<and> ends_behind (length (ahead p)) (parse_state_decl F n doc p)"
  using assms by (intro conjI package_ends part_ends parse_state_ends) (simp_all add: behind_def)

theorem declarations_return_witness:
  "ends_behind (length (ahead (cursor [Kw KPackage, Eof]))) (parse_package_decl no_reals 64 None (cursor [Kw KPackage, Eof]))
    \<and> ends_behind (length (ahead (cursor [Kw KPackage, Eof]))) (parse_part_decl no_reals 64 None (cursor [Kw KPackage, Eof]))
    \<and> ends_behind (length (ahead (cursor [Kw KPackage, Eof]))) (parse_state_decl no_reals 64 None (cursor [Kw KPackage, Eof]))"
  by (rule declarations_return) (simp add: cursor_def)

end
