(* ===== verification/Symbol_Table.thy ===== *)
theory Symbol_Table
  imports Hir_Package
begin

text \<open>
  The symbol table of the compiler, \<^verbatim>\<open>compile-sysml/src/salsa_db/hir_symbols.rs\<close>: every package, part and
  member of a model under its qualified name, the qualified names of each simple name in the order they
  were declared, and the imports of each package. The table is filled by two worklists; the lemmas relate
  it to the list of all declarations in preorder.
\<close>

section \<open>Symbols\<close>

datatype SymbolKind =
    SkPackage | SkPart | SkPort | SkAttribute | SkAction | SkOperation | SkConstraint | SkRequirement
  | SkState | SkTransition | SkConnection | SkItem | SkHazard | SkRisk | SkUseCase | SkTestCase
  | SkCapability | SkInteraction

record TableSymbol =
  sym_name :: string
  sym_qualified_name :: string
  sym_kind :: SymbolKind
  sym_parent :: "string option"
  sym_type_name :: "string option"
  sym_direction :: "string option"
  sym_is_conjugated :: bool
  sym_doc :: "string option"

record SymbolTable =
  tbl_symbols :: "(string, TableSymbol) btree_map"
  tbl_by_name :: "(string, string list) btree_map"
  tbl_package_imports :: "(string, ImportDef list) btree_map"

definition MAX_SYMBOL_DEPTH :: nat where
  "MAX_SYMBOL_DEPTH = 64"

definition empty_table :: SymbolTable where
  "empty_table = \<lparr>tbl_symbols = [], tbl_by_name = [], tbl_package_imports = []\<rparr>"

text \<open>\<^verbatim>\<open>entry(k).or_default().extend(vs)\<close>.\<close>

definition bt_extend :: "'k::linorder \<Rightarrow> 'v list \<Rightarrow> ('k, 'v list) btree_map \<Rightarrow> ('k, 'v list) btree_map" where
  "bt_extend k vs m = bt_modify k (\<lambda>ws. ws @ vs) (bt_or_insert k [] m)"

definition bt_list :: "('k, 'v list) btree_map \<Rightarrow> 'k \<Rightarrow> 'v list" where
  "bt_list m k = (case bt_get m k of Some vs \<Rightarrow> vs | None \<Rightarrow> [])"

definition scoped :: "string \<Rightarrow> string \<Rightarrow> string" where
  "scoped scope name = scope @ ''::'' @ name"

section \<open>Filling the table\<close>

definition insert_symbol :: "TableSymbol \<Rightarrow> SymbolTable \<Rightarrow> SymbolTable" where
  "insert_symbol s t = t\<lparr>tbl_by_name := bt_extend (sym_name s) [sym_qualified_name s] (tbl_by_name t),
     tbl_symbols := bt_insert (sym_qualified_name s) s (tbl_symbols t)\<rparr>"

definition scoped_symbol :: "string \<Rightarrow> SymbolKind \<Rightarrow> string \<Rightarrow> string option \<Rightarrow> TableSymbol" where
  "scoped_symbol scope kind name doc =
     \<lparr>sym_name = name, sym_qualified_name = scoped scope name, sym_kind = kind, sym_parent = Some scope,
      sym_type_name = None, sym_direction = None, sym_is_conjugated = False, sym_doc = doc\<rparr>"

definition attribute_symbol :: "string \<Rightarrow> AttributeDef \<Rightarrow> TableSymbol" where
  "attribute_symbol scope a =
     (scoped_symbol scope SkAttribute (attr_name a) (attr_doc a))\<lparr>sym_type_name := Some (attr_type_name a)\<rparr>"

definition port_symbol :: "string \<Rightarrow> PortDef \<Rightarrow> TableSymbol" where
  "port_symbol scope p =
     (scoped_symbol scope SkPort (port_name p) (port_doc p))
       \<lparr>sym_type_name := Some (port_type_name p), sym_direction := Some (port_direction p),
        sym_is_conjugated := port_is_conjugated p\<rparr>"

definition package_qname :: "PackageDef \<Rightarrow> string \<Rightarrow> string" where
  "package_qname pkg parent_scope =
     (if parent_scope = [] \<and> is_synthetic_forest_root pkg then []
      else if parent_scope = [] then pkg_name pkg
      else if pkg_name pkg = [] then parent_scope
      else scoped parent_scope (pkg_name pkg))"

definition package_symbol :: "PackageDef \<Rightarrow> string \<Rightarrow> TableSymbol" where
  "package_symbol pkg parent_scope =
     \<lparr>sym_name = pkg_name pkg, sym_qualified_name = package_qname pkg parent_scope, sym_kind = SkPackage,
      sym_parent = (if parent_scope \<noteq> [] then Some parent_scope else None), sym_type_name = None,
      sym_direction = None, sym_is_conjugated = False, sym_doc = pkg_doc pkg\<rparr>"

definition register_imports :: "PackageDef \<Rightarrow> string \<Rightarrow> SymbolTable \<Rightarrow> SymbolTable" where
  "register_imports pkg q t =
     (let imports = pkg_imports pkg; m = tbl_package_imports t in
      if q \<noteq> [] then
        (let m = bt_insert q imports m in
         t\<lparr>tbl_package_imports :=
           (if pkg_name pkg \<noteq> [] \<and> pkg_name pkg \<noteq> q then bt_extend (pkg_name pkg) imports m else m)\<rparr>)
      else if imports \<noteq> [] then t\<lparr>tbl_package_imports := bt_extend [] imports m\<rparr>
      else t)"

definition register_package_scope :: "PackageDef \<Rightarrow> string \<Rightarrow> SymbolTable \<Rightarrow> string \<times> SymbolTable" where
  "register_package_scope pkg parent_scope t =
     (let q = package_qname pkg parent_scope; t = register_imports pkg q t in
      (q, if q \<noteq> [] then insert_symbol (package_symbol pkg parent_scope) t else t))"

definition package_leaves :: "PackageDef \<Rightarrow> string \<Rightarrow> TableSymbol list" where
  "package_leaves pkg q =
     map (attribute_symbol q) (pkg_attribute_defs pkg) @
     map (port_symbol q) (pkg_port_defs pkg) @
     map (\<lambda>x. scoped_symbol q SkAction (action_name x) (action_doc x)) (pkg_action_defs pkg) @
     map (\<lambda>x. scoped_symbol q SkConstraint (con_name x) (con_doc x)) (pkg_constraint_defs pkg) @
     map (\<lambda>x. scoped_symbol q SkRequirement (req_name x) (req_doc x)) (pkg_requirement_defs pkg) @
     map (\<lambda>x. scoped_symbol q SkState (state_name x) (state_doc x)) (pkg_state_defs pkg) @
     map (\<lambda>x. scoped_symbol q SkConnection (conn_name x) (conn_doc x)) (pkg_connection_defs pkg) @
     map (\<lambda>x. scoped_symbol q SkHazard (hazard_name x) (hazard_doc x)) (pkg_hazard_defs pkg) @
     map (\<lambda>x. scoped_symbol q SkRisk (risk_name x) (risk_doc x)) (pkg_risk_defs pkg)"

definition register_package_leaf_members :: "PackageDef \<Rightarrow> string \<Rightarrow> SymbolTable \<Rightarrow> SymbolTable" where
  "register_package_leaf_members pkg q t = fold insert_symbol (package_leaves pkg q) t"

definition part_symbol :: "PartDef \<Rightarrow> string \<Rightarrow> TableSymbol" where
  "part_symbol part parent_scope =
     (scoped_symbol parent_scope SkPart (part_name part) (part_doc part))\<lparr>sym_type_name := part_type_name part\<rparr>"

definition part_leaves :: "PartDef \<Rightarrow> string \<Rightarrow> TableSymbol list" where
  "part_leaves part q =
     map (attribute_symbol q) (part_attributes part) @
     map (port_symbol q) (part_ports part) @
     map (\<lambda>x. scoped_symbol q SkAction (action_name x) (action_doc x)) (part_actions part) @
     map (\<lambda>x. scoped_symbol q SkConstraint (con_name x) (con_doc x)) (part_constraints part) @
     map (\<lambda>x. scoped_symbol q SkRequirement (req_name x) (req_doc x)) (part_requirements part) @
     map (\<lambda>x. scoped_symbol q SkState (state_name x) (state_doc x)) (part_states part) @
     map (\<lambda>x. scoped_symbol q SkConnection (conn_name x) (conn_doc x)) (part_connections part)"

definition register_part_scope_and_members :: "PartDef \<Rightarrow> string \<Rightarrow> SymbolTable \<Rightarrow> string \<times> SymbolTable" where
  "register_part_scope_and_members part parent_scope t =
     (let q = scoped parent_scope (part_name part) in
      (q, fold insert_symbol (part_symbol part parent_scope # part_leaves part q) t))"

text \<open>
  The worklists: frames of a node, the scope of its parent and its depth, the top of the stack first. The
  code pushes the children reversed, so the first child is on top.
\<close>

lemma size_positive: "0 < size (part :: PartDef)" "0 < size (pkg :: PackageDef)"
  by (cases part, simp) (cases pkg, simp)

function index_part_frames :: "(PartDef \<times> string \<times> nat) list \<Rightarrow> SymbolTable \<Rightarrow> SymbolTable" where
  "index_part_frames [] t = t"
| "index_part_frames ((part, parent_scope, depth) # stack) t =
     (if MAX_SYMBOL_DEPTH \<le> depth then index_part_frames stack t
      else
        let (q, t) = register_part_scope_and_members part parent_scope t; next_depth = depth + 1 in
        index_part_frames
          ((if next_depth < MAX_SYMBOL_DEPTH then map (\<lambda>s. (s, q, next_depth)) (part_parts part) else []) @ stack) t)"
  by pat_completeness auto
termination
  by (relation "measure (\<lambda>(st, t). sum_list (map (size \<circ> fst) st))") (auto simp: sum_size_less o_def size_positive)

definition index_part :: "PartDef \<Rightarrow> string \<Rightarrow> nat \<Rightarrow> SymbolTable \<Rightarrow> SymbolTable" where
  "index_part part parent_scope depth t = index_part_frames [(part, parent_scope, depth)] t"

function index_package_frames :: "(PackageDef \<times> string \<times> nat) list \<Rightarrow> SymbolTable \<Rightarrow> SymbolTable" where
  "index_package_frames [] t = t"
| "index_package_frames ((pkg, parent_scope, depth) # stack) t =
     (if MAX_SYMBOL_DEPTH \<le> depth then index_package_frames stack t
      else
        let (q, t) = register_package_scope pkg parent_scope t;
            t = register_package_leaf_members pkg q t;
            next_depth = depth + 1 in
        if next_depth < MAX_SYMBOL_DEPTH
        then index_package_frames (map (\<lambda>s. (s, q, next_depth)) (pkg_packages pkg) @ stack)
          (fold (\<lambda>part. index_part part q next_depth) (pkg_part_defs pkg) t)
        else index_package_frames stack t)"
  by pat_completeness auto
termination
  by (relation "measure (\<lambda>(st, t). sum_list (map (size \<circ> fst) st))") (auto simp: sum_size_less o_def size_positive)

definition build_from_package :: "PackageDef \<Rightarrow> SymbolTable" where
  "build_from_package pkg = index_package_frames [(pkg, [], 0)] empty_table"

section \<open>Looking up\<close>

definition rsplit_once :: "string \<Rightarrow> string \<Rightarrow> (string \<times> string) option" where
  "rsplit_once sep s = map_option (\<lambda>(a, b). (rev b, rev a)) (split_once (rev sep) (rev s))"

lemma split_once_parts: "split_once sep s = Some (a, b) \<Longrightarrow> s = a @ sep @ b"
proof (induction s arbitrary: a)
  case Nil
  then show ?case
    by (subst (asm) split_once.simps) (auto simp: starts_with_iff split: if_splits)
next
  case (Cons c s)
  show ?case
  proof (cases "starts_with (c # s) sep")
    case True
    then have "c # s = sep @ drop (length sep) (c # s)"
      by (metis append_take_drop_id starts_with_def)
    moreover have "a = []" "b = drop (length sep) (c # s)"
      using Cons.prems True by (subst (asm) split_once.simps, simp)+
    ultimately show ?thesis by simp
  next
    case False
    then obtain a' where "split_once sep s = Some (a', b)" "a = c # a'"
      using Cons.prems by (subst (asm) split_once.simps) auto
    with Cons.IH [of a'] show ?thesis by simp
  qed
qed

lemma rsplit_once_parts: "rsplit_once sep s = Some (a, b) \<Longrightarrow> s = a @ sep @ b"
  by (auto simp: rsplit_once_def dest!: split_once_parts) (metis append_assoc rev_append rev_rev_ident)

function trim_end_str :: "string \<Rightarrow> string \<Rightarrow> string" where
  "trim_end_str pat s =
     (if pat = [] then s
      else case strip_suffix s pat of Some r \<Rightarrow> trim_end_str pat r | None \<Rightarrow> s)"
  by auto
termination
  by (relation "measure (\<lambda>(pat, s). length s)") (auto simp: strip_suffix_Some)

declare trim_end_str.simps [simp del]

definition lookup :: "SymbolTable \<Rightarrow> string \<Rightarrow> TableSymbol option" where
  "lookup t qualified_name = bt_get (tbl_symbols t) qualified_name"

definition root_scope :: "string \<Rightarrow> string option" where
  "root_scope scope = map_option fst (split_once ''::'' scope)"

definition in_root_scope :: "SymbolTable \<Rightarrow> string \<Rightarrow> string \<Rightarrow> TableSymbol option" where
  "in_root_scope t scope path = Option.bind (root_scope scope) (\<lambda>r. lookup t (scoped r path))"

definition or_look :: "'a option \<Rightarrow> 'a option \<Rightarrow> 'a option" where
  "or_look a b = (case a of Some x \<Rightarrow> Some x | None \<Rightarrow> b)"

definition resolve_single_import :: "SymbolTable \<Rightarrow> string \<Rightarrow> ImportDef \<Rightarrow> string \<Rightarrow> TableSymbol option" where
  "resolve_single_import t scope_str i name =
     (let path = import_path i in
      if import_is_wildcard i \<or> ends_with path ''::*'' \<or> ends_with path ''::**'' then
        (let base = trim_end_str ''::*'' (trim_end_str ''::**'' path) in
         or_look (lookup t (scoped base name))
           (or_look
             (if import_is_recursive i \<or> ends_with path ''::**''
              then find_map (\<lambda>q. if starts_with q (base @ ''::'') then lookup t q else None)
                (bt_list (tbl_by_name t) name)
              else None)
             (in_root_scope t scope_str (scoped base name))))
      else if rsplit_first ''::'' path = name then
        or_look (lookup t path) (in_root_scope t scope_str path)
      else None)"

text \<open>From a scope outwards; the last scope asked is the empty one.\<close>

function lookup_via_imports :: "SymbolTable \<Rightarrow> string \<Rightarrow> string \<Rightarrow> TableSymbol option" where
  "lookup_via_imports t scope name =
     or_look (find_map (\<lambda>i. resolve_single_import t scope i name) (bt_list (tbl_package_imports t) scope))
       (case rsplit_once ''::'' scope of
          Some (parent, _) \<Rightarrow> lookup_via_imports t parent name
        | None \<Rightarrow> if scope \<noteq> [] then lookup_via_imports t [] name else None)"
  by auto
termination
  by (relation "measure (\<lambda>(t, scope, name). length scope)") (auto dest: rsplit_once_parts)

declare lookup_via_imports.simps [simp del]

definition lookup_in_scope :: "SymbolTable \<Rightarrow> string \<Rightarrow> string \<Rightarrow> TableSymbol option" where
  "lookup_in_scope t scope name =
     or_look
       (if contains_str name ''::''
        then or_look (lookup t name) (if scope \<noteq> [] then lookup t (scoped scope name) else None)
        else None)
       (or_look (if scope \<noteq> [] then lookup t (scoped scope name) else None)
       (or_look (lookup_via_imports t scope name)
       (or_look (lookup t name)
         (case bt_list (tbl_by_name t) name of q # _ \<Rightarrow> lookup t q | [] \<Rightarrow> None))))"

definition lookup_port_symbol :: "SymbolTable \<Rightarrow> string \<Rightarrow> TableSymbol option" where
  "lookup_port_symbol t q =
     (case lookup t q of Some s \<Rightarrow> if sym_kind s = SkPort then Some s else None | None \<Rightarrow> None)"

definition lookup_dotted_port :: "SymbolTable \<Rightarrow> string \<Rightarrow> string \<Rightarrow> TableSymbol option" where
  "lookup_dotted_port t pname portn =
     find_map (\<lambda>part_q.
       or_look (lookup_port_symbol t (scoped part_q portn))
         (case Option.bind (lookup t part_q) sym_type_name of
            Some ty \<Rightarrow> find_map (\<lambda>type_q. lookup_port_symbol t (scoped type_q portn)) (bt_list (tbl_by_name t) ty)
          | None \<Rightarrow> None))
       (bt_list (tbl_by_name t) pname)"

definition lookup_port :: "SymbolTable \<Rightarrow> string \<Rightarrow> string option \<Rightarrow> TableSymbol option" where
  "lookup_port t port_ref current_part =
     or_look
       (case split_once ''.'' port_ref of
          Some (pname, portn) \<Rightarrow>
            if contains_str portn ''.'' then None else lookup_dotted_port t pname portn
        | None \<Rightarrow>
            (case current_part of
               Some part \<Rightarrow>
                 or_look (lookup_port_symbol t (scoped part port_ref))
                   (find_map (\<lambda>part_q. lookup_port_symbol t (scoped part_q port_ref)) (bt_list (tbl_by_name t) part))
             | None \<Rightarrow> None))
       (find_map (lookup_port_symbol t) (bt_list (tbl_by_name t) port_ref))"

definition all_of_kind :: "SymbolTable \<Rightarrow> SymbolKind \<Rightarrow> TableSymbol list" where
  "all_of_kind t kind = filter (\<lambda>s. sym_kind s = kind) (map snd (tbl_symbols t))"

section \<open>The table holds the declarations\<close>

text \<open>All declarations of a part and of a package, with what is left of the depth limit.\<close>

fun part_decls :: "nat \<Rightarrow> string \<Rightarrow> PartDef \<Rightarrow> TableSymbol list" where
  "part_decls 0 scope part = []"
| "part_decls (Suc n) scope part =
     part_symbol part scope # part_leaves part (scoped scope (part_name part)) @
     concat (map (part_decls n (scoped scope (part_name part))) (part_parts part))"

fun package_decls :: "nat \<Rightarrow> string \<Rightarrow> PackageDef \<Rightarrow> TableSymbol list" where
  "package_decls 0 scope pkg = []"
| "package_decls (Suc n) scope pkg =
     (let q = package_qname pkg scope in
      (if q \<noteq> [] then [package_symbol pkg scope] else []) @ package_leaves pkg q @
      concat (map (part_decls n q) (pkg_part_defs pkg)) @ concat (map (package_decls n q) (pkg_packages pkg)))"

fun scoped_packages :: "nat \<Rightarrow> string \<Rightarrow> PackageDef \<Rightarrow> (PackageDef \<times> string) list" where
  "scoped_packages 0 scope pkg = []"
| "scoped_packages (Suc n) scope pkg =
     (let q = package_qname pkg scope in (pkg, q) # concat (map (scoped_packages n q) (pkg_packages pkg)))"

definition declared :: "PackageDef \<Rightarrow> TableSymbol list" where
  "declared pkg = package_decls MAX_SYMBOL_DEPTH [] pkg"

abbreviation insert_symbols :: "TableSymbol list \<Rightarrow> SymbolTable \<Rightarrow> SymbolTable" where
  "insert_symbols ss t \<equiv> fold insert_symbol ss t"

abbreviation register_all :: "(PackageDef \<times> string) list \<Rightarrow> SymbolTable \<Rightarrow> SymbolTable" where
  "register_all ps t \<equiv> fold (\<lambda>(p, q). register_imports p q) ps t"

lemma none_declared [simp]:
  "part_decls 0 s = (\<lambda>_. [])" "package_decls 0 s = (\<lambda>_. [])" "scoped_packages 0 s = (\<lambda>_. [])"
  "concat (map (\<lambda>_. []) xs) = []"
  by (simp_all add: fun_eq_iff)

lemma index_part_frames_decls:
  "index_part_frames st t =
     insert_symbols (concat (map (\<lambda>(p, s, d). part_decls (MAX_SYMBOL_DEPTH - d) s p) st)) t"
proof (induction st t rule: index_part_frames.induct)
  case (2 part scope depth stack t)
  show ?case
  proof (cases "MAX_SYMBOL_DEPTH \<le> depth")
    case False
    then obtain m where m: "MAX_SYMBOL_DEPTH - depth = Suc m" by (metis Suc_diff_Suc not_le)
    then have d: "MAX_SYMBOL_DEPTH - Suc depth = m" "Suc depth < MAX_SYMBOL_DEPTH \<longleftrightarrow> m \<noteq> 0" by auto
    obtain q t' where q: "register_part_scope_and_members part scope t = (q, t')" by fastforce
    note IH = 2(2) [OF False refl q [symmetric] refl]
    have q_eq: "q = scoped scope (part_name part)"
        "t' = insert_symbols (part_symbol part scope # part_leaves part q) t"
      using q by (auto simp: register_part_scope_and_members_def Let_def)
    have step: "part_decls (Suc m) scope part =
        (part_symbol part scope # part_leaves part q) @ concat (map (part_decls m q) (part_parts part))"
      by (simp add: q_eq)
    have leaf: "\<not> Suc depth < MAX_SYMBOL_DEPTH \<Longrightarrow> part_decls m q = (\<lambda>_. [])"
      using d(2) by simp
    show ?thesis using False IH q leaf
      by (cases "Suc depth < MAX_SYMBOL_DEPTH") (simp_all add: m d(1) step q_eq(2) o_def del: part_decls.simps)
  qed (simp add: 2)
qed simp

lemma index_part_decls: "index_part part scope depth t = insert_symbols (part_decls (MAX_SYMBOL_DEPTH - depth) scope part) t"
  by (simp add: index_part_def index_part_frames_decls)

lemma register_insert: "register_imports p q (insert_symbol s t) = insert_symbol s (register_imports p q t)"
  by (simp add: register_imports_def insert_symbol_def Let_def)

lemma register_inserts: "register_imports p q (insert_symbols ss t) = insert_symbols ss (register_imports p q t)"
  by (induction ss arbitrary: t) (simp_all add: register_insert)

lemma register_all_inserts: "register_all ps (insert_symbols ss t) = insert_symbols ss (register_all ps t)"
  by (induction ps arbitrary: t) (auto simp: register_inserts)

lemma insert_parts:
  "fold (\<lambda>part. index_part part q depth) ps t = insert_symbols (concat (map (part_decls (MAX_SYMBOL_DEPTH - depth) q) ps)) t"
  by (induction ps arbitrary: t) (simp_all add: index_part_decls)

lemma index_package_frames_decls:
  "index_package_frames st t =
     insert_symbols (concat (map (\<lambda>(p, s, d). package_decls (MAX_SYMBOL_DEPTH - d) s p) st))
       (register_all (concat (map (\<lambda>(p, s, d). scoped_packages (MAX_SYMBOL_DEPTH - d) s p) st)) t)"
proof (induction st t rule: index_package_frames.induct)
  case (2 pkg scope depth stack t)
  show ?case
  proof (cases "MAX_SYMBOL_DEPTH \<le> depth")
    case False
    then obtain m where m: "MAX_SYMBOL_DEPTH - depth = Suc m" by (metis Suc_diff_Suc not_le)
    then have d: "MAX_SYMBOL_DEPTH - Suc depth = m" "Suc depth < MAX_SYMBOL_DEPTH \<longleftrightarrow> m \<noteq> 0" by auto
    obtain q t' where q: "register_package_scope pkg scope t = (q, t')" by fastforce
    note IH = 2(2) [OF False refl q [symmetric] refl refl] 2(3) [OF False refl q [symmetric] refl refl]
    have q_eq: "q = package_qname pkg scope"
        "t' = insert_symbols (if q \<noteq> [] then [package_symbol pkg scope] else []) (register_imports pkg q t)"
      using q by (auto simp: register_package_scope_def Let_def split: if_splits)
    have step: "package_decls (Suc m) scope pkg =
        (if q \<noteq> [] then [package_symbol pkg scope] else []) @ package_leaves pkg q @
        concat (map (part_decls m q) (pkg_part_defs pkg)) @ concat (map (package_decls m q) (pkg_packages pkg))"
      "scoped_packages (Suc m) scope pkg = (pkg, q) # concat (map (scoped_packages m q) (pkg_packages pkg))"
      by (simp_all add: q_eq(1) Let_def)
    have round: "index_package_frames ((pkg, scope, depth) # stack) t =
        (if depth + 1 < MAX_SYMBOL_DEPTH then index_package_frames (map (\<lambda>s. (s, q, depth + 1)) (pkg_packages pkg) @ stack)
           (fold (\<lambda>part. index_part part q (depth + 1)) (pkg_part_defs pkg) (insert_symbols (package_leaves pkg q) t'))
         else index_package_frames stack (insert_symbols (package_leaves pkg q) t'))"
      using False q by (simp add: register_package_leaf_members_def Let_def)
    have leaf: "\<not> depth + 1 < MAX_SYMBOL_DEPTH \<Longrightarrow> part_decls m q = (\<lambda>_. []) \<and>
        package_decls m q = (\<lambda>_. []) \<and> scoped_packages m q = (\<lambda>_. [])"
      using d(2) by simp
    show ?thesis
    proof (cases "depth + 1 < MAX_SYMBOL_DEPTH")
      case True
      from IH(1) [OF True] True show ?thesis unfolding round
        by (simp add: m d(1) step insert_parts register_package_leaf_members_def register_all_inserts o_def q_eq(2)
            del: package_decls.simps scoped_packages.simps)
    next
      case no: False
      from IH(2) [OF no] no leaf [OF no] show ?thesis unfolding round
        by (simp add: m step register_package_leaf_members_def register_all_inserts q_eq(2)
            del: package_decls.simps scoped_packages.simps)
    qed
  qed (simp add: 2)
qed simp

lemma build_table:
  "build_from_package pkg =
     insert_symbols (declared pkg) (register_all (scoped_packages MAX_SYMBOL_DEPTH [] pkg) empty_table)"
  by (simp add: build_from_package_def index_package_frames_decls declared_def)

lemma bt_extend_sorted [simp]: "bt_sorted m \<Longrightarrow> bt_sorted (bt_extend k vs m)"
  by (simp add: bt_extend_def)

lemma bt_list_Nil: "bt_list [] k = []"
  by (simp add: bt_list_def bt_get_def)

lemma bt_list_extend: "bt_sorted m \<Longrightarrow> bt_list (bt_extend k vs m) k' = bt_list m k' @ (if k' = k then vs else [])"
  by (auto simp: bt_extend_def bt_list_def bt_get_modify bt_get_or_insert split: option.splits)

lemma table_symbols:
  "tbl_symbols (insert_symbols ss t) = btree.put_all (map (\<lambda>s. (sym_qualified_name s, s)) ss) (tbl_symbols t)"
  by (induction ss arbitrary: t) (simp_all add: insert_symbol_def btree.put_all_def)

lemma table_by_name:
  "bt_sorted (tbl_by_name t) \<Longrightarrow> bt_list (tbl_by_name (insert_symbols ss t)) n =
     bt_list (tbl_by_name t) n @ map sym_qualified_name (filter (\<lambda>s. sym_name s = n) ss)"
  by (induction ss arbitrary: t) (simp_all add: insert_symbol_def bt_list_extend)

lemma registered: "tbl_symbols (register_all ps t) = tbl_symbols t" "tbl_by_name (register_all ps t) = tbl_by_name t"
  by (induction ps arbitrary: t) (auto simp: register_imports_def Let_def)

lemma map_of_keyed: "map_of (map (\<lambda>x. (f x, x)) xs) k = find (\<lambda>x. f x = k) xs"
  by (induction xs) auto

lemma lookup_declared: "lookup (build_from_package pkg) q = find (\<lambda>s. sym_qualified_name s = q) (rev (declared pkg))"
  by (simp add: lookup_def build_table table_symbols registered empty_table_def btree.lookup_put_all_new rev_map
      map_of_keyed)

lemma by_name_declared: "bt_list (tbl_by_name (build_from_package pkg)) n =
    map sym_qualified_name (filter (\<lambda>s. sym_name s = n) (declared pkg))"
  by (simp add: build_table table_by_name registered empty_table_def bt_list_Nil)

text \<open>
  C32: The two worklists fill the table with the declarations of the package tree in preorder, down to the
  depth limit: under a qualified name the table holds the last one declared, and a simple name leads to the
  qualified names of all its declarations in order.
\<close>

theorem symbol_table_holds_declarations:
  "lookup (build_from_package pkg) q = find (\<lambda>s. sym_qualified_name s = q) (rev (package_decls 64 [] pkg)) \<and>
   bt_list (tbl_by_name (build_from_package pkg)) n =
     map sym_qualified_name (filter (\<lambda>s. sym_name s = n) (package_decls 64 [] pkg))"
  using lookup_declared [of pkg q] by_name_declared [of pkg n] by (simp add: declared_def MAX_SYMBOL_DEPTH_def)

section \<open>What a look-up returns\<close>

lemma find_member: "find P xs = Some x \<Longrightarrow> x \<in> set xs \<and> P x"
  by (induction xs) (auto split: if_splits)

lemma lookup_Some: "lookup (build_from_package pkg) q = Some s \<Longrightarrow> s \<in> set (declared pkg) \<and> sym_qualified_name s = q"
  by (auto simp: lookup_declared dest!: find_member)

lemma lookup_found: "s \<in> set (declared pkg) \<Longrightarrow> lookup (build_from_package pkg) (sym_qualified_name s) \<noteq> None"
  by (auto simp: lookup_declared find_None_iff)

lemma or_look_Some: "or_look a b = Some x \<longleftrightarrow> a = Some x \<or> a = None \<and> b = Some x"
  by (auto simp: or_look_def split: option.splits)

lemma or_look_None [simp]: "or_look a b = None \<longleftrightarrow> a = None \<and> b = None"
  by (auto simp: or_look_def split: option.splits)

lemma find_map_Some: "find_map f xs = Some y \<Longrightarrow> \<exists>x \<in> set xs. f x = Some y"
  by (induction xs) (auto split: option.splits)

lemma suffix_scoped: "suffix name (scoped scope name)"
  by (simp add: scoped_def suffix_def)

lemma rsplit_first_suffix: "suffix (rsplit_first sep s) s"
proof (cases "split_once (rev sep) (rev s)")
  case (Some ab)
  obtain a b where ab: "ab = (a, b)" by (cases ab)
  have "rev s = a @ rev sep @ b" using Some ab by (simp add: split_once_parts)
  then have "s = (rev b @ sep) @ rev a" by (metis append_assoc rev_append rev_rev_ident)
  then show ?thesis using Some ab by (auto simp: rsplit_first_def suffix_def)
qed (simp add: rsplit_first_def)

text \<open>An answer is good when it is a declaration whose qualified name ends in the name asked for.\<close>

definition answers :: "PackageDef \<Rightarrow> string \<Rightarrow> TableSymbol option \<Rightarrow> bool" where
  "answers pkg name r \<longleftrightarrow> (\<forall>s. r = Some s \<longrightarrow> s \<in> set (declared pkg) \<and> suffix name (sym_qualified_name s))"

lemma answers_None: "answers pkg name None"
  by (simp add: answers_def)

lemma answers_or: "answers pkg name a \<Longrightarrow> answers pkg name b \<Longrightarrow> answers pkg name (or_look a b)"
  by (auto simp: answers_def or_look_Some)

lemma answers_if: "answers pkg name a \<Longrightarrow> answers pkg name b \<Longrightarrow> answers pkg name (if c then a else b)"
  by simp

lemma answers_lookup: "suffix name q \<Longrightarrow> answers pkg name (lookup (build_from_package pkg) q)"
  by (auto simp: answers_def dest!: lookup_Some)

lemma answers_find: "(\<And>x. x \<in> set xs \<Longrightarrow> answers pkg name (f x)) \<Longrightarrow> answers pkg name (find_map f xs)"
  by (auto simp: answers_def dest!: find_map_Some)

lemma named_suffix: "q \<in> set (bt_list (tbl_by_name (build_from_package pkg)) name) \<Longrightarrow>
    \<exists>s \<in> set (declared pkg). sym_qualified_name s = q \<and> sym_name s = name"
  by (auto simp: by_name_declared)

lemma leaf_suffix:
  "s \<in> set (part_leaves part q) \<Longrightarrow> suffix (sym_name s) (sym_qualified_name s)"
  "s \<in> set (package_leaves pkg q) \<Longrightarrow> suffix (sym_name s) (sym_qualified_name s)"
  by (auto simp: part_leaves_def package_leaves_def attribute_symbol_def port_symbol_def scoped_symbol_def suffix_scoped)

lemma part_decls_suffix: "s \<in> set (part_decls n scope part) \<Longrightarrow> suffix (sym_name s) (sym_qualified_name s)"
  by (induction n scope part rule: part_decls.induct)
    (auto simp: part_symbol_def scoped_symbol_def suffix_scoped leaf_suffix)

lemma package_decls_suffix: "s \<in> set (package_decls n scope pkg) \<Longrightarrow> suffix (sym_name s) (sym_qualified_name s)"
proof (induction n scope pkg rule: package_decls.induct)
  case (2 n scope pkg)
  have "suffix (pkg_name pkg) (package_qname pkg scope)" if "package_qname pkg scope \<noteq> []"
    using that by (auto simp: package_qname_def suffix_scoped)
  with 2 show ?case
    by (auto simp: Let_def package_symbol_def leaf_suffix part_decls_suffix split: if_splits)
qed simp

lemma answers_named:
  "q \<in> set (bt_list (tbl_by_name (build_from_package pkg)) name) \<Longrightarrow> answers pkg name (lookup (build_from_package pkg) q)"
  by (auto dest!: named_suffix intro!: answers_lookup simp: declared_def package_decls_suffix)

lemma answers_import: "answers pkg name (resolve_single_import (build_from_package pkg) scope i name)"
proof -
  have root: "answers pkg name (in_root_scope (build_from_package pkg) scope path)" if "suffix name path" for path
    using that
    by (auto simp: in_root_scope_def scoped_def suffix_def answers_None intro!: answers_lookup split: Option.bind_splits)
  have path: "suffix name (import_path i)" if "rsplit_first ''::'' (import_path i) = name"
    using that rsplit_first_suffix [of "''::''" "import_path i"] by simp
  have named: "suffix name q" if "q \<in> set (bt_list (tbl_by_name (build_from_package pkg)) name)" for q
    using named_suffix [OF that] by (auto simp: declared_def package_decls_suffix)
  show ?thesis
  proof (cases "import_is_wildcard i \<or> ends_with (import_path i) ''::*'' \<or> ends_with (import_path i) ''::**''")
    case True
    show ?thesis unfolding resolve_single_import_def Let_def if_P [OF True]
      by (intro answers_or answers_if answers_find answers_lookup root suffix_scoped answers_None) (rule named)
  next
    case False
    show ?thesis unfolding resolve_single_import_def Let_def if_not_P [OF False]
      using answers_or [OF answers_lookup root, OF path path]
      by (cases "rsplit_first ''::'' (import_path i) = name") (simp_all add: answers_None)
  qed
qed

lemma answers_imports: "answers pkg name (lookup_via_imports (build_from_package pkg) scope name)"
proof (induction "length scope" arbitrary: scope rule: less_induct)
  case less
  then show ?case
    by (subst lookup_via_imports.simps)
      (auto intro!: answers_or answers_find answers_None answers_import less dest: rsplit_once_parts split: option.split)
qed

lemma answers_in_scope: "answers pkg name (lookup_in_scope (build_from_package pkg) scope name)"
  unfolding lookup_in_scope_def
  by (intro answers_or answers_if answers_lookup answers_imports answers_None suffix_scoped)
    (auto intro: answers_None answers_named split: list.split)

lemma simple_name_found:
  assumes "s \<in> set (declared pkg)"
  shows "lookup_in_scope (build_from_package pkg) scope (sym_name s) \<noteq> None"
proof -
  let ?qs = "bt_list (tbl_by_name (build_from_package pkg)) (sym_name s)"
  have "sym_qualified_name s \<in> set ?qs" using assms by (simp add: by_name_declared)
  then obtain q qs where qs: "?qs = q # qs" by (cases ?qs) auto
  have "\<exists>s' \<in> set (declared pkg). sym_qualified_name s' = q \<and> sym_name s' = sym_name s"
    by (rule named_suffix) (simp add: qs)
  then obtain s' where "s' \<in> set (declared pkg)" "sym_qualified_name s' = q" by blast
  then have "lookup (build_from_package pkg) q \<noteq> None" using lookup_found by blast
  then show ?thesis by (simp add: lookup_in_scope_def qs)
qed

text \<open>
  C33: What a look-up in a scope returns is a declaration the table indexes, and its qualified name ends in the
  name; a declaration of that very scope comes first; and a simple name is found from every scope as soon as
  an indexed declaration of that name exists, of whatever indexed kind and in whatever scope. Indexed are, down
  to 64 levels, packages, parts, the attributes, ports, actions, states, requirements, constraints and
  connections of both, and the hazards and risks of packages; items, calculations, use cases, test cases,
  operations, interactions and capabilities are not, and a look-up never returns one.
\<close>

theorem lookup_in_scope_answers:
  "(lookup_in_scope (build_from_package pkg) scope name = Some s \<longrightarrow>
      s \<in> set (declared pkg) \<and> suffix name (sym_qualified_name s)) \<and>
   (d \<in> set (declared pkg) \<longrightarrow> lookup_in_scope (build_from_package pkg) scope (sym_name d) \<noteq> None) \<and>
   (\<not> contains_str name ''::'' \<and> scope \<noteq> [] \<and> lookup (build_from_package pkg) (scoped scope name) = Some s \<longrightarrow>
      lookup_in_scope (build_from_package pkg) scope name = Some s)"
  using answers_in_scope [of pkg name scope] simple_name_found [of d pkg scope]
  by (auto simp: answers_def lookup_in_scope_def or_look_def)

definition sample_package :: PackageDef where
  "sample_package = push_package_member (PartMember (new_part ''Tank'' None True None))
     (set_packages [push_package_member (PartMember (new_part ''Valve'' None True None)) (named_package ''Aux'' None [])]
       (named_package ''Plant'' None []))"

theorem lookup_in_scope_answers_witness:
  "lookup_in_scope (build_from_package sample_package) ''Plant'' ''Tank'' = Some (part_symbol (new_part ''Tank'' None True None) ''Plant'')
   \<and> lookup_in_scope (build_from_package sample_package) ''Plant'' ''Valve'' \<noteq> None"
proof -
  have "part_symbol (new_part ''Valve'' None True None) ''Plant::Aux'' \<in> set (declared sample_package)"
    "lookup (build_from_package sample_package) (scoped ''Plant'' ''Tank'') = Some (part_symbol (new_part ''Tank'' None True None) ''Plant'')"
    "sym_name (part_symbol (new_part ''Valve'' None True None) ''Plant::Aux'') = ''Valve''"
    "\<not> contains_str ''Tank'' ''::''"
    by code_simp+
  then show ?thesis
    using lookup_in_scope_answers [of sample_package "''Plant''" "''Tank''" "part_symbol (new_part ''Tank'' None True None) ''Plant''"
        "part_symbol (new_part ''Valve'' None True None) ''Plant::Aux''"]
    by simp
qed

end
