(* ===== verification/Type_Names.thy ===== *)
theory Type_Names
  imports Symbol_Table
begin

text \<open>
  Type expressions of source languages and safety annotations in prose,
  \<^verbatim>\<open>compile-sysml/src/salsa_db/safety_types.rs\<close>. A type is normalised, taken apart into a tuple, a generic or a
  name, and its parts go on a worklist; \<open>TypeTree\<close> is what a type expression stands for, and the worklist is
  proved to accept the text of a tree exactly when all its names are known.
\<close>

section \<open>Normalisation\<close>

definition is_modifier_boundary :: "string \<Rightarrow> bool" where
  "is_modifier_boundary rest \<longleftrightarrow>
     (case rest of [] \<Rightarrow> True | c # _ \<Rightarrow> is_whitespace c \<or> c \<in> {CHR ''*'', CHR ''&'', CHR ''['', CHR ''(''})"

definition strip_modifier :: "string \<Rightarrow> string \<Rightarrow> string option" where
  "strip_modifier s p =
     (case strip_prefix s p of
        Some rest \<Rightarrow> if is_modifier_boundary rest then Some (trim_start rest) else None
      | None \<Rightarrow> None)"

definition is_lifetime_char :: "char \<Rightarrow> bool" where
  "is_lifetime_char c \<longleftrightarrow> is_ascii_alphanumeric c \<or> c = CHR ''_''"

definition strip_pointer_or_ref_prefix :: "string \<Rightarrow> string option" where
  "strip_pointer_or_ref_prefix s =
     (case find_map (strip_modifier s) [''*const'', ''*mut'', ''&mut'', ''&const''] of
        Some rest \<Rightarrow> Some rest
      | None \<Rightarrow>
          (case strip_prefix s ''&'' of
             None \<Rightarrow> None
           | Some r \<Rightarrow>
               let rest = trim_start r in
               Some (trim_start
                 (case strip_prefix rest [SQ] of
                    None \<Rightarrow> rest
                  | Some after_quote \<Rightarrow>
                      let rest = trim_start (dropWhile is_lifetime_char after_quote) in
                      (case find_map (strip_modifier rest) [''mut'', ''const''] of
                         Some r \<Rightarrow> r | None \<Rightarrow> rest)))))"

text \<open>The scan for the bracket that opens the last one, over the reversed text; the answer is its position.\<close>

fun bracket_open :: "nat \<Rightarrow> string \<Rightarrow> nat option" where
  "bracket_open depth [] = None"
| "bracket_open depth (c # cs) =
     (if c = CHR '']'' then bracket_open (depth + 1) cs
      else if c = CHR ''['' then
        (if depth - 1 = 0 then Some (length cs) else bracket_open (depth - 1) cs)
      else bracket_open depth cs)"

text \<open>The element type of an array: up to a semicolon outside all brackets.\<close>

fun until_semicolon :: "nat \<Rightarrow> string \<Rightarrow> string option" where
  "until_semicolon d [] = None"
| "until_semicolon d (c # cs) =
     (if c \<in> {CHR ''['', CHR ''<'', CHR ''(''} then map_option (Cons c) (until_semicolon (d + 1) cs)
      else if c \<in> {CHR '']'', CHR ''>'', CHR '')''} then map_option (Cons c) (until_semicolon (d - 1) cs)
      else if c = CHR '';'' \<and> d = 0 then Some []
      else map_option (Cons c) (until_semicolon d cs))"

definition strip_trailing_bracket_wrapper :: "string \<Rightarrow> string option" where
  "strip_trailing_bracket_wrapper s =
     (if \<not> ends_with s '']'' then None
      else case bracket_open 0 (rev s) of
        None \<Rightarrow> None
      | Some at \<Rightarrow>
          if at > 0 then Some (trim_end (take at s))
          else case Option.bind (strip_prefix s ''['') (\<lambda>r. strip_suffix r '']'') of
            None \<Rightarrow> None
          | Some r \<Rightarrow>
              let inner = trim r in
              Some (case until_semicolon 0 inner of Some t \<Rightarrow> trim t | None \<Rightarrow> inner))"

function strip_questions :: "string \<Rightarrow> string" where
  "strip_questions s = (case strip_suffix s ''?'' of Some r \<Rightarrow> strip_questions (trim_end r) | None \<Rightarrow> s)"
  by auto

lemma length_trims:
  "length (trim_start s) \<le> length s" "length (trim_end s) \<le> length s" "length (trim s) \<le> length s"
proof -
  have d: "length (dropWhile P xs) \<le> length xs" for P and xs :: string by (rule length_dropWhile_le)
  show "length (trim_start s) \<le> length s" by (simp add: trim_start_def d)
  show "length (trim_end s) \<le> length s"
    using d [of is_whitespace "rev s"] by (simp add: trim_end_def trim_end_matches_def)
  show "length (trim s) \<le> length s"
    using d [of is_whitespace "rev (dropWhile is_whitespace s)"] d [of is_whitespace s]
    by (simp add: trim_def trim_matches_def trim_end_matches_def)
qed

termination strip_questions
  by (relation "measure length") (auto simp: strip_suffix_Some le_imp_less_Suc length_trims)

declare strip_questions.simps [simp del]

definition strip_dyn :: "string \<Rightarrow> string" where
  "strip_dyn s =
     (case strip_prefix s ''dyn'' of
        Some (c # cs) \<Rightarrow> if is_whitespace c then trim_start (c # cs) else s
      | _ \<Rightarrow> s)"

definition given_or :: "'a option \<Rightarrow> 'a \<Rightarrow> 'a" where
  "given_or x d = (case x of Some y \<Rightarrow> y | None \<Rightarrow> d)"

definition normalize_round :: "string \<Rightarrow> string" where
  "normalize_round s =
     (let s = strip_questions s;
          s = given_or (strip_pointer_or_ref_prefix s) s;
          s = strip_dyn s
      in given_or (strip_trailing_bracket_wrapper s) s)"

text \<open>A step either leaves the text or makes it shorter.\<close>

definition shortens :: "string \<Rightarrow> string \<Rightarrow> bool" where
  "shortens s t \<longleftrightarrow> t = s \<or> length t < length s"

lemma shortens_trans: "shortens s t \<Longrightarrow> shortens t u \<Longrightarrow> shortens s u"
  by (auto simp: shortens_def)

lemma strip_questions_shortens: "shortens s (strip_questions s)"
proof (induction s rule: strip_questions.induct)
  case (1 s)
  show ?case
  proof (cases "strip_suffix s ''?''")
    case (Some r)
    then have "length (trim_end r) < length s" by (auto simp: strip_suffix_Some le_imp_less_Suc length_trims)
    with 1 [OF Some] Some show ?thesis by (subst strip_questions.simps) (auto simp: shortens_def)
  qed (simp add: strip_questions.simps shortens_def)
qed

lemma strip_modifier_length: "strip_modifier s p = Some r \<Longrightarrow> length r + length p \<le> length s"
  by (auto simp: strip_modifier_def strip_prefix_Some length_trims split: option.splits if_splits)

lemma strip_pointer_shorter: "strip_pointer_or_ref_prefix s = Some r \<Longrightarrow> length r < length s"
proof -
  assume r: "strip_pointer_or_ref_prefix s = Some r"
  show ?thesis
  proof (cases "find_map (strip_modifier s) [''*const'', ''*mut'', ''&mut'', ''&const'']")
    case (Some x)
    then obtain p where "p \<in> {''*const'', ''*mut'', ''&mut'', ''&const''}" "strip_modifier s p = Some r"
      using r find_map_Some [OF Some] by (auto simp: strip_pointer_or_ref_prefix_def)
    then show ?thesis using strip_modifier_length [of s p r] by auto
  next
    case None
    then obtain u where u: "s = CHR ''&'' # u"
      using r by (auto simp: strip_pointer_or_ref_prefix_def strip_prefix_Some split: option.splits)
    have inner: "length (case strip_prefix v [SQ] of None \<Rightarrow> v
        | Some a \<Rightarrow> let w = trim_start (dropWhile is_lifetime_char a) in
            case find_map (strip_modifier w) [''mut'', ''const''] of Some r \<Rightarrow> r | None \<Rightarrow> w) \<le> length v" for v
    proof (cases "strip_prefix v [SQ]")
      case (Some a)
      then have v: "length v = Suc (length a)" by (simp add: strip_prefix_Some)
      let ?w = "trim_start (dropWhile is_lifetime_char a)"
      have w: "length ?w \<le> length a"
        using length_trims(1) [of "dropWhile is_lifetime_char a"] length_dropWhile_le [of is_lifetime_char a] by linarith
      show ?thesis
      proof (cases "find_map (strip_modifier ?w) [''mut'', ''const'']")
        case (Some x)
        from find_map_Some [OF this] have "length x \<le> length ?w" by (auto dest: strip_modifier_length)
        with Some w v \<open>strip_prefix v [SQ] = Some a\<close> show ?thesis by (simp add: Let_def)
      qed (use w v \<open>strip_prefix v [SQ] = Some a\<close> in \<open>simp add: Let_def\<close>)
    qed simp
    have "length r \<le> length (trim_start u)"
      using r None u inner [of "trim_start u"]
        order_trans [OF length_trims(1) inner [of "trim_start u"]]
      by (auto simp: strip_pointer_or_ref_prefix_def strip_prefix_def starts_with_def Let_def)
    then show ?thesis using u length_trims(1) [of u] by simp
  qed
qed

lemma bracket_open_less: "bracket_open d s = Some n \<Longrightarrow> n < length s"
  by (induction d s rule: bracket_open.induct) (auto split: if_splits)

lemma until_semicolon_length: "until_semicolon d s = Some t \<Longrightarrow> length t \<le> length s"
  by (induction d s arbitrary: t rule: until_semicolon.induct) (auto split: if_splits)

lemma strip_bracket_shorter: "strip_trailing_bracket_wrapper s = Some r \<Longrightarrow> length r < length s"
proof -
  assume r: "strip_trailing_bracket_wrapper s = Some r"
  then obtain at where at: "bracket_open 0 (rev s) = Some at"
    by (auto simp: strip_trailing_bracket_wrapper_def split: if_splits option.splits)
  have less: "at < length s" using bracket_open_less [OF at] by simp
  show ?thesis
  proof (cases "at > 0")
    case True
    then have "r = trim_end (take at s)" using r at
      by (auto simp: strip_trailing_bracket_wrapper_def split: if_splits)
    then show ?thesis using less length_trims(2) [of "take at s"] by simp
  next
    case False
    then obtain v where v: "s = ''['' @ v @ '']''"
        and r': "r = (case until_semicolon 0 (trim v) of Some t \<Rightarrow> trim t | None \<Rightarrow> trim v)"
      using r at by (auto simp: strip_trailing_bracket_wrapper_def strip_prefix_Some strip_suffix_Some Let_def
          bind_eq_Some_conv split: if_splits option.splits)
    have "length r \<le> length v"
      using r' until_semicolon_length [of 0 "trim v"] length_trims(3) [of v] length_trims(3) [of r]
        order_trans [OF length_trims(3) order_trans [OF until_semicolon_length length_trims(3)], of 0 v]
      by (auto split: option.splits)
    then show ?thesis using v by simp
  qed
qed

lemma given_or_shortens: "(\<And>r. x = Some r \<Longrightarrow> length r < length s) \<Longrightarrow> shortens s (given_or x s)"
  by (auto simp: given_or_def shortens_def split: option.split)

lemma strip_dyn_shortens: "shortens s (strip_dyn s)"
proof (cases "strip_prefix s ''dyn''")
  case (Some r)
  then have "length (trim_start r) < length s" using length_trims(1) [of r] by (auto simp: strip_prefix_Some)
  with Some show ?thesis by (auto simp: strip_dyn_def shortens_def split: list.split)
qed (simp add: strip_dyn_def shortens_def)

lemma normalize_round_shortens: "shortens s (normalize_round s)"
  unfolding normalize_round_def Let_def
  by (intro shortens_trans [OF shortens_trans [OF shortens_trans [OF strip_questions_shortens
        given_or_shortens] strip_dyn_shortens] given_or_shortens] strip_pointer_shorter strip_bracket_shorter)

function normalize_loop :: "string \<Rightarrow> string" where
  "normalize_loop s = (let s' = normalize_round s in if s' = s then s else normalize_loop s')"
  by auto
termination
  using normalize_round_shortens by (relation "measure length") (auto simp: shortens_def)

declare normalize_loop.simps [simp del]

definition normalize_source_type :: "string \<Rightarrow> string" where
  "normalize_source_type raw =
     (let trimmed = trim raw in
      if trimmed = [] then []
      else let s = normalize_loop trimmed in if s = [] then trimmed else s)"

section \<open>Taking a type apart\<close>

text \<open>Whether the first bracket closes before the last character of the text.\<close>

fun closes_early :: "char \<Rightarrow> char \<Rightarrow> nat \<Rightarrow> string \<Rightarrow> bool" where
  "closes_early op cl depth [] = False"
| "closes_early op cl depth (c # cs) =
     (if c = op then closes_early op cl (depth + 1) cs
      else if c = cl then depth - 1 = 0 \<and> cs \<noteq> [] \<or> closes_early op cl (depth - 1) cs
      else closes_early op cl depth cs)"

fun bracket_depth :: "char \<Rightarrow> char \<Rightarrow> nat \<Rightarrow> string \<Rightarrow> nat" where
  "bracket_depth op cl depth [] = depth"
| "bracket_depth op cl depth (c # cs) =
     bracket_depth op cl (if c = op then depth + 1 else if c = cl then depth - 1 else depth) cs"

definition unwrap_outer_angle_brackets :: "string \<Rightarrow> string" where
  "unwrap_outer_angle_brackets s =
     (if \<not> (starts_with s ''<'' \<and> ends_with s ''>'') then s
      else if bracket_depth CHR ''<'' CHR ''>'' 0 s = 0 \<and> \<not> closes_early CHR ''<'' CHR ''>'' 0 s
      then (case Option.bind (strip_prefix s ''<'') (\<lambda>r. strip_suffix r ''>'') of Some r \<Rightarrow> trim r | None \<Rightarrow> s)
      else s)"

definition kept_arg :: "string \<Rightarrow> string list" where
  "kept_arg t = (if trim t = [] then [] else [trim t])"

text \<open>The three depths, the text since the last comma, and the rest.\<close>

fun split_args :: "nat \<Rightarrow> nat \<Rightarrow> nat \<Rightarrow> string \<Rightarrow> string \<Rightarrow> string list" where
  "split_args angle paren bracket seg [] = kept_arg seg"
| "split_args angle paren bracket seg (ch # cs) =
     (if ch = CHR ''<'' then split_args (angle + 1) paren bracket (seg @ [ch]) cs
      else if ch = CHR ''>'' then split_args (angle - 1) paren bracket (seg @ [ch]) cs
      else if ch = CHR ''('' then split_args angle (paren + 1) bracket (seg @ [ch]) cs
      else if ch = CHR '')'' then split_args angle (paren - 1) bracket (seg @ [ch]) cs
      else if ch = CHR ''['' then split_args angle paren (bracket + 1) (seg @ [ch]) cs
      else if ch = CHR '']'' then split_args angle paren (bracket - 1) (seg @ [ch]) cs
      else if ch = CHR '','' \<and> angle = 0 \<and> paren = 0 \<and> bracket = 0
      then kept_arg seg @ split_args angle paren bracket [] cs
      else split_args angle paren bracket (seg @ [ch]) cs)"

definition split_top_level_type_args :: "string \<Rightarrow> string list" where
  "split_top_level_type_args args =
     (let s = unwrap_outer_angle_brackets (trim args) in
      if s = [] then [] else split_args 0 0 0 [] s)"

datatype GenericDecomposition = Atomic | Split string string | Malformed

definition decompose_generic_type :: "string \<Rightarrow> GenericDecomposition" where
  "decompose_generic_type clean =
     (case find_pos ''<'' clean of
        None \<Rightarrow> Atomic
      | Some lt \<Rightarrow>
          (case rfind_pos ''>'' clean of
             None \<Rightarrow> Malformed
           | Some gt \<Rightarrow>
               if gt \<le> lt \<or> trim (drop (gt + 1) clean) \<noteq> [] then Malformed
               else Split (trim (take lt clean)) (take (gt - (lt + 1)) (drop (lt + 1) clean))))"

definition extract_enclosing_tuple_inner :: "string \<Rightarrow> string option" where
  "extract_enclosing_tuple_inner clean =
     (if \<not> starts_with clean ''('' \<or> \<not> ends_with clean '')'' then None
      else if closes_early CHR ''('' CHR '')'' 0 clean then None
      else if bracket_depth CHR ''('' CHR '')'' 0 clean = 0
      then Option.bind (strip_prefix clean ''('') (\<lambda>s. strip_suffix s '')'')
      else None)"

definition builtin_prefixes :: "string list" where
  "builtin_prefixes = [''ScalarValues::'', ''ISQ::'', ''SI::'', ''std::'', ''core::'', ''alloc::'']"

definition builtin_names :: "string list" where
  "builtin_names =
     [''Boolean'', ''bool'', ''boolean'', ''Integer'', ''int'', ''i8'', ''i16'', ''i32'', ''i64'', ''i128'', ''isize'',
      ''Natural'', ''natural'', ''u8'', ''u16'', ''u32'', ''u64'', ''u128'', ''usize'', ''Real'', ''real'',
      ''Float'', ''float'', ''double'', ''num'', ''f32'', ''f64'', ''String'', ''string'', ''str'', ''char'',
      ''void'', ''unit'', ''dynamic'', ''Object'', ''ScalarValues'', ''Vec'', ''Option'', ''Result'', ''Box'',
      ''Arc'', ''Rc'', ''Cow'', ''Mutex'', ''RwLock'', ''BTreeMap'', ''BTreeSet'', ''HashMap'', ''HashSet'',
      ''Path'', ''PathBuf'', ''Duration'', ''Instant'', ''SystemTime'', ''DateTime'', ''Error'', ''List'',
      ''Map'', ''Set'', ''Iterable'', ''Future'', ''Stream'', ''Widget'', ''StatefulWidget'',
      ''StatelessWidget'', ''State'', ''BuildContext'', ''Key'', ''GlobalKey'', ''LocalKey'', ''ValueKey'',
      ''VoidCallback'', ''ValueChanged'', ''ValueGetter'', ''ValueSetter'', ''WidgetBuilder'',
      ''IndexedWidgetBuilder'', ''TransitionBuilder'', ''Color'', ''IconData'', ''EdgeInsets'',
      ''EdgeInsetsGeometry'', ''BoxConstraints'', ''Size'', ''Offset'', ''Rect'', ''TextStyle'',
      ''ThemeData'', ''TextEditingController'', ''ScrollController'', ''FocusNode'', ''AnimationController'']"

definition is_atomic_builtin_type_name :: "string \<Rightarrow> bool" where
  "is_atomic_builtin_type_name clean \<longleftrightarrow>
     list_ex (starts_with clean) builtin_prefixes \<or> trim (rsplit_first ''::'' clean) \<in> set builtin_names"

section \<open>The worklist\<close>

definition MAX_TYPE_DEPTH :: nat where
  "MAX_TYPE_DEPTH = 64"

definition weigh :: "string list \<Rightarrow> nat" where
  "weigh ts = sum_list (map (\<lambda>t. Suc (length t)) ts)"

lemma weigh_simps [simp]: "weigh [] = 0" "weigh (t # ts) = Suc (length t) + weigh ts" "weigh (ts @ us) = weigh ts + weigh us"
  by (simp_all add: weigh_def)

lemma weigh_kept: "weigh (kept_arg t) \<le> Suc (length t)"
  using length_trims(3) [of t] by (simp add: kept_arg_def)

lemma weigh_split_args: "weigh (split_args a p b seg s) \<le> Suc (length seg + length s)"
proof (induction a p b seg s rule: split_args.induct)
  case (2 a p b seg ch cs)
  then show ?case using weigh_kept [of seg] by auto
qed (simp add: weigh_kept)

lemma length_unwrap: "length (unwrap_outer_angle_brackets s) \<le> length s"
  by (auto simp: unwrap_outer_angle_brackets_def strip_prefix_Some strip_suffix_Some bind_eq_Some_conv
      intro: le_SucI length_trims(3) split: option.split)

lemma weigh_split: "weigh (split_top_level_type_args s) \<le> Suc (length s)"
  using weigh_split_args [of 0 0 0 "[]" "unwrap_outer_angle_brackets (trim s)"]
    length_unwrap [of "trim s"] length_trims(3) [of s]
  by (auto simp: split_top_level_type_args_def Let_def)

lemma length_normalize_loop: "length (normalize_loop s) \<le> length s"
proof (induction s rule: normalize_loop.induct)
  case (1 s)
  then show ?case using normalize_round_shortens [of s]
    by (subst normalize_loop.simps) (auto simp: Let_def shortens_def)
qed

lemma length_normalize: "length (normalize_source_type s) \<le> length s"
  using length_normalize_loop [of "trim s"] length_trims(3) [of s] by (auto simp: normalize_source_type_def Let_def)

lemma tuple_inner_length: "extract_enclosing_tuple_inner s = Some r \<Longrightarrow> Suc (length r) < length s"
  by (auto simp: extract_enclosing_tuple_inner_def strip_prefix_Some strip_suffix_Some bind_eq_Some_conv split: if_splits)

lemma split_inner_length: "decompose_generic_type s = Split outer inner \<Longrightarrow> Suc (length inner) < length s"
proof -
  assume d: "decompose_generic_type s = Split outer inner"
  then obtain l g where lg: "find_pos ''<'' s = Some l" "rfind_pos ''>'' s = Some g" "l < g"
      "inner = take (g - (l + 1)) (drop (l + 1) s)"
    by (auto simp: decompose_generic_type_def split: option.splits if_splits)
  obtain a b where "split_once ''>'' (rev s) = Some (a, b)" "length b = g"
    using lg(2) by (auto simp: rfind_pos_def)
  then have "rev s = a @ CHR ''>'' # b" "length b = g" by (auto dest!: split_once_parts)
  then have "length (rev s) = length a + Suc g" by (simp del: length_rev)
  then have "g < length s" by simp
  with lg(3,4) show ?thesis by simp
qed

text \<open>One round of the loop: a refusal, or the parts that go on the stack.\<close>

definition known_name :: "(string \<Rightarrow> bool) \<Rightarrow> string \<Rightarrow> bool" where
  "known_name is_user_symbol n \<longleftrightarrow> is_atomic_builtin_type_name n \<or> is_user_symbol n"

definition type_round :: "(string \<Rightarrow> bool) \<Rightarrow> string \<Rightarrow> nat \<Rightarrow> string list option" where
  "type_round is_user_symbol current_raw depth =
     (let clean = normalize_source_type current_raw in
      if MAX_TYPE_DEPTH \<le> depth \<or> clean = [] then None
      else if clean = ''()'' then Some []
      else case extract_enclosing_tuple_inner clean of
        Some tuple_inner \<Rightarrow>
          (let inner = trim tuple_inner; args = split_top_level_type_args inner in
           if inner = [] then Some [] else if args = [] then None else Some args)
      | None \<Rightarrow>
          (case decompose_generic_type clean of
             Malformed \<Rightarrow> None
           | Split outer inner \<Rightarrow>
               (let clean_outer = normalize_source_type outer; args = split_top_level_type_args inner in
                if clean_outer = [] \<or> args = [] \<or> \<not> known_name is_user_symbol clean_outer then None else Some args)
           | Atomic \<Rightarrow> if known_name is_user_symbol clean then Some [] else None))"

lemma type_round_weigh: "type_round P s d = Some args \<Longrightarrow> weigh args < Suc (length s)"
proof -
  have "weigh (split_top_level_type_args (trim r)) < Suc (length s)"
    if "extract_enclosing_tuple_inner (normalize_source_type s) = Some r" for r
    using tuple_inner_length [OF that] length_normalize [of s] weigh_split [of "trim r"] length_trims(3) [of r] by simp
  moreover have "weigh (split_top_level_type_args inner) < Suc (length s)"
    if "decompose_generic_type (normalize_source_type s) = Split outer inner" for outer inner
    using split_inner_length [OF that] length_normalize [of s] weigh_split [of inner] by simp
  moreover assume "type_round P s d = Some args"
  ultimately show ?thesis
    by (auto simp: type_round_def Let_def split: if_splits option.splits GenericDecomposition.splits)
qed

function check_types :: "(string \<Rightarrow> bool) \<Rightarrow> (string \<times> nat) list \<Rightarrow> bool" where
  "check_types is_user_symbol [] = True"
| "check_types is_user_symbol ((current_raw, depth) # stack) =
     (case type_round is_user_symbol current_raw depth of
        None \<Rightarrow> False
      | Some args \<Rightarrow> check_types is_user_symbol (map (\<lambda>a. (a, depth + 1)) args @ stack))"
  by pat_completeness auto
termination
  using type_round_weigh by (relation "measure (\<lambda>(p, st). weigh (map fst st))") (fastforce simp: o_def)+

definition check_type_resolvable_with :: "string \<Rightarrow> nat \<Rightarrow> (string \<Rightarrow> bool) \<Rightarrow> bool" where
  "check_type_resolvable_with type_name start_depth is_user_symbol = check_types is_user_symbol [(type_name, start_depth)]"

definition is_primitive_or_builtin_type :: "string \<Rightarrow> bool" where
  "is_primitive_or_builtin_type type_name = check_type_resolvable_with type_name 0 (\<lambda>_. False)"

lemma check_types_append: "check_types P (xs @ ys) \<longleftrightarrow> check_types P xs \<and> check_types P ys"
  by (induction P xs rule: check_types.induct) (auto split: option.split)

lemma check_types_all: "check_types P st \<longleftrightarrow> list_all (\<lambda>(t, d). check_type_resolvable_with t d P) st"
proof (induction st)
  case (Cons x st)
  then show ?case using check_types_append [of P "[x]" st]
    by (cases x) (simp add: check_type_resolvable_with_def)
qed simp

text \<open>The worklist is the recursion over the parts.\<close>

lemma check_type_round:
  "check_type_resolvable_with t d P \<longleftrightarrow>
     (case type_round P t d of None \<Rightarrow> False
      | Some args \<Rightarrow> list_all (\<lambda>a. check_type_resolvable_with a (d + 1) P) args)"
  unfolding check_type_resolvable_with_def [of t] check_types.simps
  by (simp add: check_types_all list.pred_map o_def split: option.split)

section \<open>Type trees\<close>

datatype TypeTree = Named string | Generic string "TypeTree list" | Tuple "TypeTree list"

fun tree_text :: "TypeTree \<Rightarrow> string" where
  "tree_text (Named n) = n"
| "tree_text (Generic n ts) = n @ ''<'' @ join '', '' (map tree_text ts) @ ''>''"
| "tree_text (Tuple ts) = ''('' @ join '', '' (map tree_text ts) @ '')''"

definition name_char :: "char \<Rightarrow> bool" where
  "name_char c \<longleftrightarrow> is_ascii_alphanumeric c \<or> c = CHR ''_'' \<or> c = CHR '':''"

definition type_name_ok :: "string \<Rightarrow> bool" where
  "type_name_ok n \<longleftrightarrow> n \<noteq> [] \<and> list_all name_char n"

fun tree_ok :: "TypeTree \<Rightarrow> bool" where
  "tree_ok (Named n) = type_name_ok n"
| "tree_ok (Generic n ts) = (type_name_ok n \<and> ts \<noteq> [] \<and> list_all tree_ok ts)"
| "tree_ok (Tuple ts) = list_all tree_ok ts"

fun tree_names :: "TypeTree \<Rightarrow> string list" where
  "tree_names (Named n) = [n]"
| "tree_names (Generic n ts) = n # concat (map tree_names ts)"
| "tree_names (Tuple ts) = concat (map tree_names ts)"

fun tree_height :: "TypeTree \<Rightarrow> nat" where
  "tree_height (Named n) = 1"
| "tree_height (Generic n ts) = Suc (foldr max (map tree_height ts) 0)"
| "tree_height (Tuple ts) = Suc (foldr max (map tree_height ts) 0)"

lemma join_Cons: "xs \<noteq> [] \<Longrightarrow> join sep (x # xs) = x @ sep @ join sep xs"
  by (cases xs) auto

lemma not_name_chars: "list_all (\<lambda>c. \<not> name_char c)
    [CHR ''<'', CHR ''>'', CHR ''('', CHR '')'', CHR ''['', CHR '']'', CHR '','', CHR ''?'', CHR ''*'', CHR ''&'', CHR '';'', CHR '' '']"
  by code_simp

lemma name_char_plain: "name_char c \<Longrightarrow> c \<noteq> CHR ''<'' \<and> c \<noteq> CHR ''>'' \<and> c \<noteq> CHR ''('' \<and> c \<noteq> CHR '')'' \<and> c \<noteq> CHR ''[''
    \<and> c \<noteq> CHR '']'' \<and> c \<noteq> CHR '','' \<and> c \<noteq> CHR ''?'' \<and> c \<noteq> CHR ''*'' \<and> c \<noteq> CHR ''&''"
  using not_name_chars by (intro conjI notI) simp_all

lemma name_char_black: "name_char c \<Longrightarrow> \<not> is_whitespace c"
proof -
  have word: "\<not> is_whitespace c" if "is_ascii_alphanumeric c"
    using that unfolding is_ascii_alphanumeric_def is_ascii_alphabetic_def is_ascii_uppercase_def
      is_ascii_lowercase_def is_ascii_digit_def is_whitespace_def by linarith
  have "\<not> is_whitespace CHR ''_''" "\<not> is_whitespace CHR '':''" by code_simp+
  then show "name_char c \<Longrightarrow> \<not> is_whitespace c" unfolding name_char_def using word by blast
qed

text \<open>A name does not move the scans; a tree moves them nowhere once they are inside a bracket.\<close>

lemma split_args_name:
  "list_all name_char n \<Longrightarrow> split_args a p b seg (n @ rest) = split_args a p b (seg @ n) rest"
proof (induction n arbitrary: seg)
  case (Cons c n)
  then show ?case using name_char_plain [of c] by simp
qed simp

lemma closes_name: "list_all name_char n \<Longrightarrow>
    closes_early CHR ''('' CHR '')'' d (n @ rest) = closes_early CHR ''('' CHR '')'' d rest \<and>
    bracket_depth CHR ''('' CHR '')'' d (n @ rest) = bracket_depth CHR ''('' CHR '')'' d rest"
proof (induction n)
  case (Cons c n)
  then show ?case using name_char_plain [of c] by simp
qed simp

lemma split_args_list:
  assumes "\<And>t a p b seg rest. t \<in> set ts \<Longrightarrow> split_args a p b seg (tree_text t @ rest) = split_args a p b (seg @ tree_text t) rest"
    and "0 < a \<or> 0 < p"
  shows "split_args a p b seg (join '', '' (map tree_text ts) @ rest) = split_args a p b (seg @ join '', '' (map tree_text ts)) rest"
  using assms(1)
proof (induction ts arbitrary: seg)
  case (Cons t ts)
  show ?case
  proof (cases "ts = []")
    case False
    then have "split_args a p b seg (join '', '' (map tree_text (t # ts)) @ rest)
        = split_args a p b (seg @ tree_text t) ('', '' @ join '', '' (map tree_text ts) @ rest)"
      using Cons.prems [of t] by (simp add: join_Cons)
    also have "\<dots> = split_args a p b (seg @ tree_text t @ '', '') (join '', '' (map tree_text ts) @ rest)"
      using assms(2) by (cases a; cases p) simp_all
    also have "\<dots> = split_args a p b (seg @ tree_text t @ '', '' @ join '', '' (map tree_text ts)) rest"
      using Cons.IH [of "seg @ tree_text t @ '', ''"] Cons.prems by simp
    finally show ?thesis using False by (simp add: join_Cons)
  qed (use Cons.prems [of t] in simp)
qed simp

lemma split_args_tree:
  "tree_ok t \<Longrightarrow> split_args a p b seg (tree_text t @ rest) = split_args a p b (seg @ tree_text t) rest"
proof (induction t arbitrary: a p b seg rest)
  case (Named n)
  then show ?case by (simp add: type_name_ok_def split_args_name)
next
  case (Generic n ts)
  then have "split_args a p b seg (tree_text (Generic n ts) @ rest)
      = split_args (Suc a) p b (seg @ n @ ''<'') (join '', '' (map tree_text ts) @ ''>'' @ rest)"
    by (simp add: type_name_ok_def split_args_name)
  also have "\<dots> = split_args (Suc a) p b (seg @ n @ ''<'' @ join '', '' (map tree_text ts)) (''>'' @ rest)"
    using Generic by (subst split_args_list) (auto simp: list_all_iff)
  finally show ?case by simp
next
  case (Tuple ts)
  have "split_args a p b seg (tree_text (Tuple ts) @ rest)
      = split_args a (Suc p) b (seg @ ''('') (join '', '' (map tree_text ts) @ '')'' @ rest)"
    by simp
  also have "\<dots> = split_args a (Suc p) b (seg @ ''('' @ join '', '' (map tree_text ts)) ('')'' @ rest)"
    using Tuple by (subst split_args_list) (auto simp: list_all_iff)
  finally show ?case by simp
qed

lemma closes_list:
  assumes "\<And>t d rest. t \<in> set ts \<Longrightarrow> closes_early CHR ''('' CHR '')'' (Suc d) (tree_text t @ rest) = closes_early CHR ''('' CHR '')'' (Suc d) rest
      \<and> bracket_depth CHR ''('' CHR '')'' (Suc d) (tree_text t @ rest) = bracket_depth CHR ''('' CHR '')'' (Suc d) rest"
  shows "closes_early CHR ''('' CHR '')'' (Suc d) (join '', '' (map tree_text ts) @ rest) = closes_early CHR ''('' CHR '')'' (Suc d) rest
      \<and> bracket_depth CHR ''('' CHR '')'' (Suc d) (join '', '' (map tree_text ts) @ rest) = bracket_depth CHR ''('' CHR '')'' (Suc d) rest"
  using assms
proof (induction ts)
  case (Cons t ts)
  show ?case
  proof (cases "ts = []")
    case False
    then show ?thesis using Cons by (simp add: join_Cons)
  qed (use Cons.prems [of t] in simp)
qed simp

lemma closes_tree:
  "tree_ok t \<Longrightarrow> closes_early CHR ''('' CHR '')'' (Suc d) (tree_text t @ rest) = closes_early CHR ''('' CHR '')'' (Suc d) rest
      \<and> bracket_depth CHR ''('' CHR '')'' (Suc d) (tree_text t @ rest) = bracket_depth CHR ''('' CHR '')'' (Suc d) rest"
proof (induction t arbitrary: d rest)
  case (Named n)
  then show ?case by (simp add: type_name_ok_def closes_name)
next
  case (Generic n ts)
  then have IH: "\<And>t d rest. t \<in> set ts \<Longrightarrow> closes_early CHR ''('' CHR '')'' (Suc d) (tree_text t @ rest) = closes_early CHR ''('' CHR '')'' (Suc d) rest
      \<and> bracket_depth CHR ''('' CHR '')'' (Suc d) (tree_text t @ rest) = bracket_depth CHR ''('' CHR '')'' (Suc d) rest"
    by (simp add: list_all_iff)
  from closes_list [OF IH] show ?case using Generic.prems
    by (simp add: type_name_ok_def closes_name)
next
  case (Tuple ts)
  then have IH: "\<And>t d rest. t \<in> set ts \<Longrightarrow> closes_early CHR ''('' CHR '')'' (Suc d) (tree_text t @ rest) = closes_early CHR ''('' CHR '')'' (Suc d) rest
      \<and> bracket_depth CHR ''('' CHR '')'' (Suc d) (tree_text t @ rest) = bracket_depth CHR ''('' CHR '')'' (Suc d) rest"
    by (simp add: list_all_iff)
  from closes_list [OF IH] show ?case by simp
qed

text \<open>The ends of a tree's text are plain, so that trimming and normalisation leave it alone.\<close>

definition edge_char :: "char \<Rightarrow> bool" where
  "edge_char c \<longleftrightarrow> name_char c \<or> c \<in> {CHR ''('', CHR '')'', CHR ''>''}"

lemma edge_char_plain: "edge_char c \<Longrightarrow> \<not> is_whitespace c \<and> c \<noteq> CHR ''?'' \<and> c \<noteq> CHR ''*'' \<and> c \<noteq> CHR ''&'' \<and> c \<noteq> CHR '']''
    \<and> c \<noteq> CHR ''<''"
proof -
  have "\<not> is_whitespace CHR ''(''" "\<not> is_whitespace CHR '')''" "\<not> is_whitespace CHR ''>''" by code_simp+
  moreover assume "edge_char c"
  ultimately show ?thesis using name_char_plain [of c] name_char_black [of c]
    unfolding edge_char_def by (elim disjE insertE emptyE) simp_all
qed

lemma tree_text_ends: "tree_ok t \<Longrightarrow> tree_text t \<noteq> [] \<and> edge_char (hd (tree_text t)) \<and> edge_char (last (tree_text t))"
  by (cases t) (auto simp: edge_char_def type_name_ok_def list_all_iff)

lemma trim_ends:
  assumes "s \<noteq> []" "\<not> is_whitespace (hd s)" "\<not> is_whitespace (last s)"
  shows "trim s = s"
proof -
  have keep: "dropWhile P xs = xs" if "xs \<noteq> []" "\<not> P (hd xs)" for P and xs :: string
    using that by (cases xs) auto
  have "dropWhile is_whitespace s = s" "dropWhile is_whitespace (rev s) = rev s"
    using assms by (auto intro!: keep simp: hd_rev)
  then show ?thesis by (simp add: trim_def trim_matches_def trim_end_matches_def)
qed

lemma trim_tree: "tree_ok t \<Longrightarrow> trim (tree_text t) = tree_text t"
  using tree_text_ends [of t] edge_char_plain by (simp add: trim_ends)

lemma normalize_plain:
  assumes "trim s = s" "s \<noteq> []" "edge_char (hd s)" "edge_char (last s)"
    and no_dyn: "\<And>c r. s = ''dyn'' @ c # r \<Longrightarrow> \<not> is_whitespace c"
  shows "normalize_source_type s = s"
proof -
  note ends = edge_char_plain [OF assms(3)] edge_char_plain [OF assms(4)]
  have q: "strip_questions s = s"
    using ends assms(2) by (subst strip_questions.simps) (auto simp: strip_suffix_Some split: option.split)
  obtain c r where s: "s = c # r" using assms(2) by (cases s) auto
  have "strip_prefix s p = None" if "p \<in> {''*const'', ''*mut'', ''&mut'', ''&const'', ''&''}" for p
    using that ends(1) s by (auto simp: strip_prefix_def starts_with_def)
  then have p: "strip_pointer_or_ref_prefix s = None"
    by (simp add: strip_pointer_or_ref_prefix_def strip_modifier_def)
  have d: "strip_dyn s = s"
    using no_dyn by (auto simp: strip_dyn_def strip_prefix_Some split: option.split list.split)
  have b: "strip_trailing_bracket_wrapper s = None"
    using ends(2) by (auto simp: strip_trailing_bracket_wrapper_def ends_with_iff suffix_def)
  have "normalize_round s = s" by (simp add: normalize_round_def q p d b given_or_def)
  then have "normalize_loop s = s" by (subst normalize_loop.simps) simp
  then show ?thesis using assms(1,2) by (simp add: normalize_source_type_def)
qed

lemma name_then: "list_all name_char n \<Longrightarrow> n @ d # r = u @ c # v \<Longrightarrow> \<not> is_whitespace d \<Longrightarrow> list_all name_char u \<Longrightarrow> \<not> name_char d \<Longrightarrow> \<not> is_whitespace c"
proof (induction n arbitrary: u)
  case (Cons x n)
  then show ?case using name_char_black by (cases u) auto
next
  case Nil
  then show ?case by (cases u) auto
qed

lemma normalize_name: "type_name_ok n \<Longrightarrow> normalize_source_type n = n"
proof -
  assume n: "type_name_ok n"
  then have ends: "edge_char (hd n)" "edge_char (last n)" "n \<noteq> []"
    by (auto simp: type_name_ok_def edge_char_def list_all_iff)
  show ?thesis
    using n name_char_black
    by (intro normalize_plain ends trim_ends)
      (use ends edge_char_plain in \<open>auto simp: type_name_ok_def\<close>)
qed

lemma normalize_tree: "tree_ok t \<Longrightarrow> normalize_source_type (tree_text t) = tree_text t"
proof (rule normalize_plain)
  assume t: "tree_ok t"
  show "trim (tree_text t) = tree_text t" using t by (rule trim_tree)
  show "tree_text t \<noteq> []" "edge_char (hd (tree_text t))" "edge_char (last (tree_text t))"
    using tree_text_ends [OF t] by simp_all
  have dyn: "list_all name_char ''dyn''" by code_simp
  show "\<not> is_whitespace c" if "tree_text t = ''dyn'' @ c # r" for c r
  proof (cases t)
    case (Named n)
    then show ?thesis using that t name_char_black by (auto simp: type_name_ok_def)
  next
    case (Generic n ts)
    have "\<not> is_whitespace CHR ''<''" "\<not> name_char CHR ''<''" by code_simp+
    then show ?thesis using Generic that t name_then [of n _ _ "''dyn''", OF _ _ _ dyn] by (auto simp: type_name_ok_def)
  qed (use that in simp)
qed

lemma join_trees_ends:
  "list_all tree_ok ts \<Longrightarrow> ts \<noteq> [] \<Longrightarrow> (let s = join '', '' (map tree_text ts) in s \<noteq> [] \<and> edge_char (hd s) \<and> edge_char (last s))"
proof (induction ts)
  case (Cons t ts)
  note t = tree_text_ends [of t]
  show ?case
  proof (cases "ts = []")
    case False
    then have "join '', '' (map tree_text (t # ts)) = tree_text t @ '', '' @ join '', '' (map tree_text ts)"
      by (simp add: join_Cons)
    then show ?thesis using Cons False t by (simp add: Let_def)
  qed (use Cons.prems t in \<open>simp add: Let_def\<close>)
qed simp

lemma trim_join: "list_all tree_ok ts \<Longrightarrow> ts \<noteq> [] \<Longrightarrow> trim (join '', '' (map tree_text ts)) = join '', '' (map tree_text ts)"
  using join_trees_ends [of ts] edge_char_plain by (simp add: Let_def trim_ends)

lemma kept_tree: "tree_ok t \<Longrightarrow> kept_arg (tree_text t) = [tree_text t] \<and> kept_arg ('' '' @ tree_text t) = [tree_text t]"
proof -
  assume t: "tree_ok t"
  have "is_whitespace CHR '' ''" by code_simp
  then have "trim ('' '' @ tree_text t) = trim (tree_text t)"
    by (simp add: trim_def trim_matches_def)
  then show ?thesis using trim_tree [OF t] tree_text_ends [OF t] by (simp add: kept_arg_def)
qed

lemma split_joined:
  "list_all tree_ok ts \<Longrightarrow> ts \<noteq> [] \<Longrightarrow> seg = [] \<or> seg = '' '' \<Longrightarrow>
   split_args 0 0 0 seg (join '', '' (map tree_text ts)) = map tree_text ts"
proof (induction ts arbitrary: seg)
  case (Cons t ts)
  have kept: "kept_arg (seg @ tree_text t) = [tree_text t]"
    using Cons.prems kept_tree [of t] by auto
  show ?case
  proof (cases "ts = []")
    case True
    then show ?thesis using Cons.prems kept split_args_tree [of t 0 0 0 seg "[]"] by simp
  next
    case False
    then have "split_args 0 0 0 seg (join '', '' (map tree_text (t # ts)))
        = kept_arg (seg @ tree_text t) @ split_args 0 0 0 '' '' (join '', '' (map tree_text ts))"
      using Cons.prems split_args_tree [of t 0 0 0 seg] by (simp add: join_Cons)
    then show ?thesis using Cons.IH [of "'' ''"] Cons.prems False kept by simp
  qed
qed simp

lemma split_top_joined:
  assumes "list_all tree_ok ts" "ts \<noteq> []"
  shows "split_top_level_type_args (join '', '' (map tree_text ts)) = map tree_text ts"
proof -
  let ?s = "join '', '' (map tree_text ts)"
  have e: "?s \<noteq> []" "hd ?s \<noteq> CHR ''<''"
    using join_trees_ends [OF assms] edge_char_plain by (auto simp: Let_def)
  then have "unwrap_outer_angle_brackets ?s = ?s"
    by (cases ?s) (auto simp: unwrap_outer_angle_brackets_def starts_with_def)
  then show ?thesis using assms e by (simp add: split_top_level_type_args_def trim_join split_joined)
qed

section \<open>Which trees are accepted\<close>

lemma split_once_char:
  "split_once [x] s = (if x \<in> set s then Some (takeWhile (\<lambda>c. c \<noteq> x) s, tl (dropWhile (\<lambda>c. c \<noteq> x) s)) else None)"
  by (induction s) (subst split_once.simps; auto simp: starts_with_def)+

lemma name_without: "type_name_ok n \<Longrightarrow> CHR ''<'' \<notin> set n \<and> (\<forall>c \<in> set n. c \<noteq> CHR ''<'') \<and> hd n \<noteq> CHR ''(''"
  using name_char_plain by (cases n) (auto simp: type_name_ok_def list_all_iff)

lemma trim_name: "type_name_ok n \<Longrightarrow> trim n = n"
  using trim_tree [of "Named n"] by simp

lemma tuple_none: "hd s \<noteq> CHR ''('' \<Longrightarrow> s \<noteq> [] \<Longrightarrow> extract_enclosing_tuple_inner s = None \<and> s \<noteq> ''()''"
  by (cases s) (auto simp: extract_enclosing_tuple_inner_def starts_with_def)

lemma round_named: "type_name_ok n \<Longrightarrow> d < MAX_TYPE_DEPTH \<Longrightarrow>
    type_round P n d = (if known_name P n then Some [] else None)"
  using name_without [of n] tuple_none [of n]
  by (simp add: type_round_def normalize_name decompose_generic_type_def find_pos_def split_once_char type_name_ok_def)

lemma decompose_text:
  "type_name_ok n \<Longrightarrow> decompose_generic_type (n @ ''<'' @ j @ ''>'') = Split n j"
proof -
  assume n: "type_name_ok n"
  have t: "takeWhile (\<lambda>c. c \<noteq> CHR ''<'') (n @ CHR ''<'' # j @ ''>'') = n"
    using name_without [OF n] by (simp add: takeWhile_append)
  have f: "find_pos ''<'' (n @ ''<'' @ j @ ''>'') = Some (length n)"
    by (simp add: find_pos_def split_once_char t)
  have r: "rfind_pos ''>'' (n @ ''<'' @ j @ ''>'') = Some (length n + Suc (length j))"
    by (simp add: rfind_pos_def split_once_char)
  have e: "trim [] = []" by (simp add: trim_def trim_matches_def trim_end_matches_def)
  show ?thesis using f r by (simp add: decompose_generic_type_def trim_name [OF n] e)
qed

lemma round_generic:
  assumes "tree_ok (Generic n ts)" "d < MAX_TYPE_DEPTH"
  shows "type_round P (tree_text (Generic n ts)) d = (if known_name P n then Some (map tree_text ts) else None)"
proof -
  let ?s = "tree_text (Generic n ts)"
  have n: "type_name_ok n" "n \<noteq> []" using assms by (auto simp: type_name_ok_def)
  have h: "hd ?s \<noteq> CHR ''(''" "?s \<noteq> []" using name_without [OF n(1)] n(2) by (cases n; simp)+
  have "decompose_generic_type ?s = Split n (join '', '' (map tree_text ts))"
    using decompose_text [OF n(1)] by simp
  then show ?thesis
    using assms tuple_none [OF h] h n normalize_tree [OF assms(1)]
    by (simp add: type_round_def normalize_name split_top_joined del: tree_text.simps)
qed

lemma round_tuple:
  assumes "tree_ok (Tuple ts)" "d < MAX_TYPE_DEPTH"
  shows "type_round P (tree_text (Tuple ts)) d = Some (map tree_text ts)"
proof (cases "ts = []")
  case True
  then show ?thesis using normalize_tree [OF assms(1)] assms(2) by (simp add: type_round_def)
next
  case False
  let ?j = "join '', '' (map tree_text ts)"
  have ok: "list_all tree_ok ts" using assms(1) by simp
  have c: "closes_early CHR ''('' CHR '')'' (Suc 0) (?j @ '')'') = closes_early CHR ''('' CHR '')'' (Suc 0) '')''
      \<and> bracket_depth CHR ''('' CHR '')'' (Suc 0) (?j @ '')'') = bracket_depth CHR ''('' CHR '')'' (Suc 0) '')''"
    using ok by (intro closes_list closes_tree) (simp add: list_all_iff)
  have e: "ends_with (''('' @ ?j @ '')'') '')''" by (simp add: ends_with_iff suffix_def)
  have "strip_suffix (?j @ '')'') '')'' = Some ?j" by (simp add: strip_suffix_Some)
  then have "extract_enclosing_tuple_inner (''('' @ ?j @ '')'') = Some ?j"
    using c e by (simp add: extract_enclosing_tuple_inner_def starts_with_def strip_prefix_def)
  moreover have "?j \<noteq> []" using join_trees_ends [OF ok False] by (simp add: Let_def)
  ultimately show ?thesis
    using assms(2) normalize_tree [OF assms(1)] False ok
    by (simp add: type_round_def trim_join split_top_joined)
qed

lemma round_too_deep: "MAX_TYPE_DEPTH \<le> d \<Longrightarrow> type_round P t d = None"
  by (simp add: type_round_def)

lemma max_le_iff_all: "foldr max xs 0 \<le> (k :: nat) \<longleftrightarrow> list_all (\<lambda>x. x \<le> k) xs"
  by (induction xs) auto

lemma height_parts: "Suc (foldr max (map tree_height ts) 0) + d \<le> MAX_TYPE_DEPTH \<longleftrightarrow>
    d < MAX_TYPE_DEPTH \<and> list_all (\<lambda>t. tree_height t + Suc d \<le> MAX_TYPE_DEPTH) ts"
proof -
  have "Suc (foldr max (map tree_height ts) 0) + d \<le> MAX_TYPE_DEPTH \<longleftrightarrow>
      d < MAX_TYPE_DEPTH \<and> foldr max (map tree_height ts) 0 \<le> MAX_TYPE_DEPTH - Suc d"
    by linarith
  moreover have "tree_height t \<le> MAX_TYPE_DEPTH - Suc d \<longleftrightarrow> tree_height t + Suc d \<le> MAX_TYPE_DEPTH" if "d < MAX_TYPE_DEPTH" for t
    using that by linarith
  ultimately show ?thesis by (auto simp only: max_le_iff_all list.pred_map o_def)
qed

lemma check_tree:
  "tree_ok t \<Longrightarrow> check_type_resolvable_with (tree_text t) d P \<longleftrightarrow>
     list_all (known_name P) (tree_names t) \<and> tree_height t + d \<le> MAX_TYPE_DEPTH"
proof (induction t arbitrary: d)
  case (Named n)
  then show ?case
    by (cases "d < MAX_TYPE_DEPTH") (auto simp: check_type_round [of n] round_named round_too_deep)
next
  case (Generic n ts)
  have args: "list_all (\<lambda>a. check_type_resolvable_with a (Suc d) P) (map tree_text ts) \<longleftrightarrow>
      list_all (known_name P) (concat (map tree_names ts)) \<and> list_all (\<lambda>t. tree_height t + Suc d \<le> MAX_TYPE_DEPTH) ts"
    using Generic by (auto simp: list_all_iff)
  show ?case using args
    by (cases "d < MAX_TYPE_DEPTH")
      (simp_all add: check_type_round [of "tree_text (Generic n ts)"] round_generic [OF Generic.prems] round_too_deep
        height_parts [simplified] del: tree_text.simps)
next
  case (Tuple ts)
  have args: "list_all (\<lambda>a. check_type_resolvable_with a (Suc d) P) (map tree_text ts) \<longleftrightarrow>
      list_all (known_name P) (concat (map tree_names ts)) \<and> list_all (\<lambda>t. tree_height t + Suc d \<le> MAX_TYPE_DEPTH) ts"
    using Tuple by (auto simp: list_all_iff)
  show ?case using args
    by (cases "d < MAX_TYPE_DEPTH")
      (simp_all add: check_type_round [of "tree_text (Tuple ts)"] round_tuple [OF Tuple.prems] round_too_deep
        height_parts [simplified] del: tree_text.simps)
qed

text \<open>
  C34: A type expression written from a tree of names, generics and tuples is accepted exactly when every name
  in it is built in or a symbol and the tree is at most 64 levels high.
\<close>

theorem types_accepted_iff:
  assumes "tree_ok t"
  shows "check_type_resolvable_with (tree_text t) 0 P \<longleftrightarrow>
     list_all (\<lambda>n. is_atomic_builtin_type_name n \<or> P n) (tree_names t) \<and> tree_height t \<le> 64"
  using check_tree [OF assms, of 0 P] by (simp add: known_name_def [abs_def] MAX_TYPE_DEPTH_def)

theorem types_accepted_iff_witness:
  "check_type_resolvable_with ''Map<String, (Pump, Option<f64>)>'' 0 (\<lambda>n. n = ''Pump'')"
proof -
  let ?t = "Generic ''Map'' [Named ''String'', Tuple [Named ''Pump'', Generic ''Option'' [Named ''f64'']]]"
  have "tree_ok ?t" "tree_text ?t = ''Map<String, (Pump, Option<f64>)>''" "tree_height ?t \<le> 64"
    "list_all (\<lambda>n. is_atomic_builtin_type_name n \<or> n = ''Pump'') (tree_names ?t)" by code_simp+
  then show ?thesis using types_accepted_iff [of ?t "\<lambda>n. n = ''Pump''"] by simp
qed

end
