(* ===== verification/Safety_Validator.thy ===== *)
theory Safety_Validator
  imports Type_Names
begin

text \<open>
  The semantic validator, \<^verbatim>\<open>compile-sysml/src/salsa_db/safety_db.rs\<close>, with the annotation targets and the
  package scopes of \<^verbatim>\<open>safety_types.rs\<close>: unique declarations, ports and flow directions of connections, targets
  of safety annotations, and types. A model without diagnostics is characterised, and the places where the
  validator and the symbol table disagree are shown.
\<close>

section \<open>Scopes of packages\<close>

definition compute_scoped_package_name :: "PackageDef \<Rightarrow> string \<Rightarrow> string" where
  "compute_scoped_package_name pkg parent_scope =
     (let empty_root = pkg_name pkg = ''SysML_Model'' \<and> has_no_definitions pkg in
      if parent_scope = [] then
        (if (pkg_name pkg = [] \<or> empty_root) \<and> pkg_packages pkg \<noteq> [] then [] else pkg_name pkg)
      else if pkg_name pkg = [] then parent_scope
      else scoped parent_scope (pkg_name pkg))"

section \<open>Targets of annotations\<close>

datatype AnnotationSpan = Targets "string list" | UnclosedDelimiter

definition is_id_char :: "char \<Rightarrow> bool" where
  "is_id_char c \<longleftrightarrow> is_ascii_alphanumeric c \<or> c = CHR ''_'' \<or> c = CHR ''-''"

text \<open>The text is what follows \<^verbatim>\<open>search_idx\<close>, the tag is in lower case.\<close>

function annotation_spans :: "(string \<Rightarrow> nat) \<Rightarrow> string \<Rightarrow> string \<Rightarrow> AnnotationSpan list" where
  "annotation_spans err lower_tag text =
     (if lower_tag = [] then []
      else case find_pos lower_tag (map to_ascii_lower text) of
        None \<Rightarrow> []
      | Some tag_start \<Rightarrow>
          (let after_ws = trim_start (drop (tag_start + length lower_tag) text);
               next_char = drop (tag_start + 1) text in
           if starts_with after_ws ''('' then
             (case find (\<lambda>t. lexed_token t = CstRParen) (tokenize_sysml err after_ws) of
                None \<Rightarrow> [UnclosedDelimiter]
              | Some t \<Rightarrow>
                  (case get_slice after_ws 1 (fst (lexed_span t)) of
                     None \<Rightarrow> [UnclosedDelimiter]
                   | Some inside \<Rightarrow>
                       Targets (filter (\<lambda>s. s \<noteq> []) (map trim (split_by (\<lambda>c. c = CHR '','') inside))) #
                       annotation_spans err lower_tag (drop (snd (lexed_span t)) after_ws)))
           else case strip_prefix after_ws '':'' of
               Some after_colon \<Rightarrow>
                 (let id_rest = trim_start after_colon; raw_id = takeWhile is_id_char id_rest in
                  if raw_id \<noteq> [] then
                    Targets [trim raw_id] # annotation_spans err lower_tag (drop (length raw_id) id_rest)
                  else annotation_spans err lower_tag next_char)
             | None \<Rightarrow> annotation_spans err lower_tag next_char))"
  by auto

lemma after_tag_shorter:
  assumes "find_pos tag (map to_ascii_lower text) = Some n" "tag \<noteq> []"
  shows "length (trim_start (drop (n + length tag) text)) < length text" "n < length text"
proof -
  have "n + length tag \<le> length text" using find_pos_Some [OF assms(1)] by simp
  then show "length (trim_start (drop (n + length tag) text)) < length text" "n < length text"
    using assms(2) length_trims(1) [of "drop (n + length tag) text"] by (cases tag; simp)+
qed

lemma after_tag_less:
  assumes "find_pos tag (map to_ascii_lower text) = Some n" "tag \<noteq> []"
  shows "length (trim_start (drop (n + length tag) text)) - k < length text" "length text - Suc n < length text"
    "strip_prefix (trim_start (drop (n + length tag) text)) '':'' = Some r \<Longrightarrow> length (trim_start r) - k < length text"
proof -
  note less = after_tag_shorter [OF assms]
  then show "length (trim_start (drop (n + length tag) text)) - k < length text" "length text - Suc n < length text"
    by simp_all
  assume "strip_prefix (trim_start (drop (n + length tag) text)) '':'' = Some r"
  then have "Suc (length r) = length (trim_start (drop (n + length tag) text))" by (simp add: strip_prefix_Some)
  then show "length (trim_start r) - k < length text" using less(1) length_trims(1) [of r] by simp
qed

termination annotation_spans
  by (relation "measure (\<lambda>(err, tag, text). length text)") (auto intro: after_tag_less)

declare annotation_spans.simps [simp del]

definition extract_annotation_targets :: "(string \<Rightarrow> nat) \<Rightarrow> string \<Rightarrow> string \<Rightarrow> AnnotationSpan list" where
  "extract_annotation_targets err text tag = annotation_spans err (map to_ascii_lower tag) text"

section \<open>Diagnostics\<close>

datatype DiagnosticSeverity = DiagError | DiagWarning

record SemanticDiagnostic =
  diag_severity :: DiagnosticSeverity
  diag_message :: string
  diag_element :: string

definition diagnostic_error :: "string \<Rightarrow> string \<Rightarrow> SemanticDiagnostic" where
  "diagnostic_error element message =
     \<lparr>diag_severity = DiagError, diag_message = message, diag_element = element\<rparr>"

definition diagnostic_warning :: "string \<Rightarrow> string \<Rightarrow> SemanticDiagnostic" where
  "diagnostic_warning element message =
     \<lparr>diag_severity = DiagWarning, diag_message = message, diag_element = element\<rparr>"

definition diag_quoted :: "string \<Rightarrow> string" where
  "diag_quoted s = [SQ] @ s @ [SQ]"

section \<open>The tree with its scopes\<close>

record ScopedPartNode =
  node_part :: PartDef
  node_hier_scope :: string
  node_enclosing_scope :: string
  node_part_scope :: string

definition scope_or_name :: "string \<Rightarrow> string \<Rightarrow> string" where
  "scope_or_name scope name = (if scope = [] then name else scoped scope name)"

function part_nodes :: "(PartDef \<times> string \<times> string \<times> nat) list \<Rightarrow> ScopedPartNode list" where
  "part_nodes [] = []"
| "part_nodes ((part, enclosing, h_scope, p_depth) # stack) =
     (if MAX_TYPE_DEPTH \<le> p_depth then part_nodes stack
      else
        let part_scope = scope_or_name enclosing (part_name part);
            next_hier = scope_or_name h_scope (part_name part);
            next_p = p_depth + 1 in
        \<lparr>node_part = part, node_hier_scope = h_scope, node_enclosing_scope = enclosing, node_part_scope = part_scope\<rparr> #
        part_nodes ((if next_p < MAX_TYPE_DEPTH then map (\<lambda>s. (s, part_scope, next_hier, next_p)) (part_parts part) else [])
          @ stack))"
  by pat_completeness auto
termination
  by (relation "measure (\<lambda>st. sum_list (map (size \<circ> fst) st))") (auto simp: sum_size_less o_def size_positive)

text \<open>The root, which the code recognises by its address, is the frame of depth zero.\<close>

function package_nodes ::
  "(PackageDef \<times> string \<times> string \<times> nat) list \<Rightarrow> (PackageDef \<times> string) list \<times> ScopedPartNode list" where
  "package_nodes [] = ([], [])"
| "package_nodes ((pkg, parent_scope, hier_parent, depth) # stack) =
     (if MAX_TYPE_DEPTH \<le> depth then package_nodes stack
      else
        let pkg_scope = compute_scoped_package_name pkg parent_scope;
            hier_pkg = (if hier_parent = [] then (if depth = 0 then [] else pkg_name pkg)
              else if pkg_name pkg = [] then hier_parent else scoped hier_parent (pkg_name pkg));
            next_depth = depth + 1 in
        if next_depth < MAX_TYPE_DEPTH then
          (let (pkgs, parts) = package_nodes
             (map (\<lambda>s. (s, pkg_scope, hier_pkg, next_depth)) (pkg_packages pkg) @ stack) in
           ((pkg, pkg_scope) # pkgs,
            concat (map (\<lambda>p. part_nodes [(p, pkg_scope, hier_pkg, next_depth)]) (pkg_part_defs pkg)) @ parts))
        else (let (pkgs, parts) = package_nodes stack in ((pkg, pkg_scope) # pkgs, parts)))"
  by pat_completeness auto
termination
  by (relation "measure (\<lambda>st. sum_list (map (size \<circ> fst) st))") (auto simp: sum_size_less o_def size_positive)

definition collect_scoped_ast :: "PackageDef \<Rightarrow> (PackageDef \<times> string) list \<times> ScopedPartNode list" where
  "collect_scoped_ast root = package_nodes [(root, [], [], 0)]"

section \<open>Declarations\<close>

text \<open>Diagnostics for the values already seen.\<close>

fun repeated :: "('a \<Rightarrow> string) \<Rightarrow> ('a \<Rightarrow> SemanticDiagnostic) \<Rightarrow> string btree_set \<Rightarrow> 'a list \<Rightarrow> SemanticDiagnostic list list" where
  "repeated key diag seen [] = []"
| "repeated key diag seen (x # xs) =
     (if key x \<in> set seen then [diag x] else []) # repeated key diag (bs_insert (key x) seen) xs"

definition node_key :: "ScopedPartNode \<Rightarrow> string" where
  "node_key node = scope_or_name (node_hier_scope node) (part_name (node_part node))"

definition duplicate_part :: "ScopedPartNode \<Rightarrow> SemanticDiagnostic" where
  "duplicate_part node =
     (let n = part_name (node_part node) in
      diagnostic_error n (''Duplicate part declaration '' @ diag_quoted n @ '' in scope '' @ diag_quoted (node_hier_scope node)))"

definition duplicate_ports :: "PartDef \<Rightarrow> SemanticDiagnostic list" where
  "duplicate_ports part =
     concat (repeated port_name
       (\<lambda>port. diagnostic_error (part_name part @ ''.'' @ port_name port)
          (''Duplicate port declaration '' @ diag_quoted (port_name port) @ '' on part '' @ diag_quoted (part_name part)))
       [] (part_ports part))"

text \<open>The message for a part comes before those for its ports.\<close>

definition validate_part_hierarchy :: "PackageDef \<Rightarrow> SemanticDiagnostic list" where
  "validate_part_hierarchy pkg =
     (let nodes = snd (collect_scoped_ast pkg) in
      concat (map2 (@) (repeated node_key duplicate_part [] nodes) (map (duplicate_ports \<circ> node_part) nodes)))"

section \<open>Connections\<close>

definition get_effective_direction :: "TableSymbol \<Rightarrow> string" where
  "get_effective_direction port_sym =
     (let dir = given_or (sym_direction port_sym) ''inout'' in
      if sym_is_conjugated port_sym \<and> dir = ''in'' then ''out''
      else if sym_is_conjugated port_sym \<and> dir = ''out'' then ''in''
      else dir)"

definition direction_message :: "ConnectionDef \<Rightarrow> string \<Rightarrow> string \<Rightarrow> string option" where
  "direction_message conn src tgt =
     (let s = conn_source_port conn; t = conn_target_port conn in
      if (src = ''out'' \<or> src = ''inout'') \<and> (tgt = ''in'' \<or> tgt = ''inout'') then None
      else if src = ''in'' \<and> tgt = ''out'' then
        Some (''Inverted flow direction in connection '' @ diag_quoted (conn_name conn) @ '': source port '' @ diag_quoted s @
          '' ('' @ src @ '') cannot feed target port '' @ diag_quoted t @ '' ('' @ tgt @ '')'')
      else if src = ''in'' \<and> tgt = ''in'' then
        Some (''Invalid connection '' @ diag_quoted (conn_name conn) @ '': cannot connect input port '' @ diag_quoted s @
          '' to input port '' @ diag_quoted t)
      else if src = ''out'' \<and> tgt = ''out'' then
        Some (''Invalid connection '' @ diag_quoted (conn_name conn) @ '': cannot connect output port '' @ diag_quoted s @
          '' to output port '' @ diag_quoted t)
      else None)"

definition valid_delegation :: "ConnectionDef \<Rightarrow> string option \<Rightarrow> string \<Rightarrow> string \<Rightarrow> bool" where
  "valid_delegation conn part_scope src tgt \<longleftrightarrow>
     (let is_src_b = part_scope \<noteq> None \<and> \<not> contains_str (conn_source_port conn) ''.'';
          is_tgt_b = part_scope \<noteq> None \<and> \<not> contains_str (conn_target_port conn) ''.'' in
      (is_src_b \<and> \<not> is_tgt_b \<and> src = ''in'' \<and> tgt = ''in'')
      \<or> (\<not> is_src_b \<and> is_tgt_b \<and> src = ''out'' \<and> tgt = ''out'')
      \<or> (is_src_b \<and> is_tgt_b \<and> src = ''in'' \<and> tgt = ''out''))"

definition undefined_port :: "ConnectionDef \<Rightarrow> string \<Rightarrow> string \<Rightarrow> SemanticDiagnostic" where
  "undefined_port conn role port =
     diagnostic_error (conn_name conn)
       (''Connection '' @ diag_quoted (conn_name conn) @ '' references undefined '' @ role @ '' port '' @ diag_quoted port)"

definition validate_connection :: "SymbolTable \<Rightarrow> string option \<Rightarrow> ConnectionDef \<Rightarrow> SemanticDiagnostic list" where
  "validate_connection t part_scope conn =
     (let src = lookup_port t (conn_source_port conn) part_scope;
          tgt = lookup_port t (conn_target_port conn) part_scope in
      (if src = None then [undefined_port conn ''source'' (conn_source_port conn)] else []) @
      (if tgt = None then [undefined_port conn ''target'' (conn_target_port conn)] else []) @
      (case (src, tgt) of
         (Some s, Some t) \<Rightarrow>
           (let src_eff = get_effective_direction s; tgt_eff = get_effective_direction t in
            if valid_delegation conn part_scope src_eff tgt_eff then []
            else case direction_message conn src_eff tgt_eff of
              Some m \<Rightarrow> [diagnostic_error (conn_name conn) m]
            | None \<Rightarrow> [])
       | _ \<Rightarrow> []))"

definition validate_connection_list :: "SymbolTable \<Rightarrow> ConnectionDef list \<Rightarrow> string option \<Rightarrow> SemanticDiagnostic list" where
  "validate_connection_list t conns part_scope = concat (map (validate_connection t part_scope) conns)"

definition validate_connections :: "PackageDef \<Rightarrow> SymbolTable \<Rightarrow> SemanticDiagnostic list" where
  "validate_connections pkg t =
     (let (pkgs, nodes) = collect_scoped_ast pkg in
      concat (map (\<lambda>(p, _). validate_connection_list t (pkg_connection_defs p) None) pkgs) @
      concat (map (\<lambda>n. validate_connection_list t (part_connections (node_part n)) (Some (part_name (node_part n)))) nodes))"

section \<open>Safety annotations\<close>

text \<open>\<^verbatim>\<open>char::to_lowercase\<close> of the code points up to 255.\<close>

definition to_lowercase :: "char \<Rightarrow> char" where
  "to_lowercase c =
     (if is_ascii_uppercase c \<or> (192 \<le> code c \<and> code c \<le> 222 \<and> code c \<noteq> 215) then char_of (code c + 32) else c)"

definition normalize_id :: "string \<Rightarrow> string" where
  "normalize_id i = map to_lowercase (replace_char CHR ''-'' ''_'' (trim i))"

definition known_target :: "string btree_set \<Rightarrow> string \<Rightarrow> bool" where
  "known_target known_ids target \<longleftrightarrow>
     known_ids = [] \<or> list_ex (\<lambda>k. k = normalize_id target \<or> contains_str k (normalize_id target)) known_ids"

fun span_diagnostics :: "string \<Rightarrow> string \<times> string \<Rightarrow> string btree_set \<Rightarrow> AnnotationSpan \<Rightarrow> SemanticDiagnostic list" where
  "span_diagnostics name (tag, kind_label) known_ids (Targets targets) =
     map (\<lambda>target. diagnostic_error name (''Requirement '' @ diag_quoted name @ '' references undefined '' @ kind_label @
         '' '' @ diag_quoted target @ '' in '' @ tag))
       (filter (\<lambda>target. \<not> known_target known_ids target) targets)"
| "span_diagnostics name (tag, kind_label) known_ids UnclosedDelimiter =
     [diagnostic_error name (''Requirement '' @ diag_quoted name @ '' contains unclosed '' @ diag_quoted ''('' @ '' delimiter in '' @ tag)]"

definition validate_annotation_spans ::
  "(string \<Rightarrow> nat) \<Rightarrow> string \<Rightarrow> string \<Rightarrow> string \<times> string \<Rightarrow> string btree_set \<Rightarrow> SemanticDiagnostic list" where
  "validate_annotation_spans err name corpus tag_kind known_ids =
     concat (map (span_diagnostics name tag_kind known_ids) (extract_annotation_targets err corpus (fst tag_kind)))"

definition requirement_corpus :: "RequirementDef \<Rightarrow> string" where
  "requirement_corpus r = given_or (req_doc r) [] @ '' '' @ req_text r @ '' '' @ join '' '' (req_assumes r)"

definition known_ids_of :: "SymbolTable \<Rightarrow> SymbolKind \<Rightarrow> string btree_set" where
  "known_ids_of t kind = bs_collect (map (\<lambda>s. normalize_id (sym_name s)) (all_of_kind t kind))"

definition validate_requirement_annotations ::
  "(string \<Rightarrow> nat) \<Rightarrow> SymbolTable \<Rightarrow> RequirementDef \<Rightarrow> SemanticDiagnostic list" where
  "validate_requirement_annotations err t r =
     (let corpus = requirement_corpus r in
      validate_annotation_spans err (req_name r) corpus (''@SafetyRealises'', ''constraint/UCA'') (known_ids_of t SkConstraint) @
      validate_annotation_spans err (req_name r) corpus (''@TriggersHazard'', ''hazard'') (known_ids_of t SkHazard))"

definition validate_referential_integrity :: "(string \<Rightarrow> nat) \<Rightarrow> PackageDef \<Rightarrow> SymbolTable \<Rightarrow> SemanticDiagnostic list" where
  "validate_referential_integrity err pkg t =
     (let (pkgs, nodes) = collect_scoped_ast pkg in
      concat (map (validate_requirement_annotations err t)
        (concat (map (pkg_requirement_defs \<circ> fst) pkgs) @ concat (map (part_requirements \<circ> node_part) nodes))))"

section \<open>Types\<close>

definition is_resolvable_type :: "SymbolTable \<Rightarrow> string \<Rightarrow> string \<Rightarrow> bool" where
  "is_resolvable_type t scope type_name =
     check_type_resolvable_with type_name 0 (\<lambda>n. lookup_in_scope t scope n \<noteq> None)"

definition validate_part_def :: "SymbolTable \<Rightarrow> ScopedPartNode \<Rightarrow> SemanticDiagnostic list" where
  "validate_part_def t node =
     (case part_type_name (node_part node) of
        None \<Rightarrow> []
      | Some ty \<Rightarrow>
          if is_resolvable_type t (node_enclosing_scope node) ty then []
          else [diagnostic_error (part_name (node_part node))
            (''Part '' @ diag_quoted (part_name (node_part node)) @ '' references undefined type '' @ diag_quoted ty)])"

definition validate_part_defs :: "PackageDef \<Rightarrow> SymbolTable \<Rightarrow> SemanticDiagnostic list" where
  "validate_part_defs pkg t = concat (map (validate_part_def t) (snd (collect_scoped_ast pkg)))"

definition validate_requirement :: "SymbolTable \<Rightarrow> RequirementDef \<times> string \<Rightarrow> SemanticDiagnostic list" where
  "validate_requirement t = (\<lambda>(req, scope).
     concat (map (\<lambda>attr.
       if is_resolvable_type t scope (attr_type_name attr) then []
       else [diagnostic_error (req_name req) (''Requirement '' @ diag_quoted (req_name req) @ '' attribute '' @
         diag_quoted (attr_name attr) @ '' references undefined type '' @ diag_quoted (attr_type_name attr))]) (req_attributes req)) @
     concat (map (\<lambda>target.
       if is_resolvable_type t scope target then []
       else [diagnostic_error (req_name req) (''Requirement '' @ diag_quoted (req_name req) @
         '' references undefined satisfying element '' @ diag_quoted target)]) (req_satisfied_by req)))"

definition scoped_requirements :: "PackageDef \<Rightarrow> (RequirementDef \<times> string) list" where
  "scoped_requirements pkg =
     (let (pkgs, nodes) = collect_scoped_ast pkg in
      concat (map (\<lambda>(p, scope). map (\<lambda>r. (r, scope)) (pkg_requirement_defs p)) pkgs) @
      concat (map (\<lambda>n. map (\<lambda>r. (r, node_part_scope n)) (part_requirements (node_part n))) nodes))"

definition validate_requirements :: "PackageDef \<Rightarrow> SymbolTable \<Rightarrow> SemanticDiagnostic list" where
  "validate_requirements pkg t = concat (map (validate_requirement t) (scoped_requirements pkg))"

section \<open>The validator\<close>

record SemanticValidator =
  val_pkg :: PackageDef
  val_symbols :: SymbolTable
  val_diagnostics :: "SemanticDiagnostic list"

definition validator_new :: "PackageDef \<Rightarrow> SemanticValidator" where
  "validator_new pkg = \<lparr>val_pkg = pkg, val_symbols = build_from_package pkg, val_diagnostics = []\<rparr>"

definition validate :: "(string \<Rightarrow> nat) \<Rightarrow> SemanticValidator \<Rightarrow> SemanticValidator" where
  "validate err v =
     (let pkg = val_pkg v; t = val_symbols v in
      v\<lparr>val_diagnostics :=
        validate_part_hierarchy pkg @ validate_connections pkg t @ validate_referential_integrity err pkg t @
        validate_part_defs pkg t @ validate_requirements pkg t\<rparr>)"

definition errors :: "SemanticValidator \<Rightarrow> SemanticDiagnostic list" where
  "errors v = filter (\<lambda>d. diag_severity d = DiagError) (val_diagnostics v)"

definition has_errors :: "SemanticValidator \<Rightarrow> bool" where
  "has_errors v \<longleftrightarrow> list_ex (\<lambda>d. diag_severity d = DiagError) (val_diagnostics v)"

definition diagnostics_of :: "(string \<Rightarrow> nat) \<Rightarrow> PackageDef \<Rightarrow> SemanticDiagnostic list" where
  "diagnostics_of err pkg = val_diagnostics (validate err (validator_new pkg))"

section \<open>Which models pass\<close>

lemma repeated_none: "concat (repeated key diag seen xs) = [] \<longleftrightarrow> distinct (map key xs) \<and> set (map key xs) \<inter> set seen = {}"
  by (induction xs arbitrary: seen) auto

lemma length_repeated [simp]: "length (repeated key diag seen xs) = length xs"
  by (induction xs arbitrary: seen) auto

lemma map2_append_none: "length xs = length ys \<Longrightarrow> concat (map2 (@) xs ys) = [] \<longleftrightarrow> concat xs = [] \<and> concat ys = []"
  by (induction xs ys rule: list_induct2) auto

lemma concat_none: "concat (map f xs) = [] \<longleftrightarrow> list_all (\<lambda>x. f x = []) xs"
  by (induction xs) auto

definition declarations_sound :: "ScopedPartNode list \<Rightarrow> bool" where
  "declarations_sound nodes \<longleftrightarrow> distinct (map node_key nodes) \<and>
     list_all (\<lambda>n. distinct (map port_name (part_ports (node_part n)))) nodes"

text \<open>Both ends exist, and the flow does not run from an input or into an output, except along a border.\<close>

definition connection_sound :: "SymbolTable \<Rightarrow> string option \<Rightarrow> ConnectionDef \<Rightarrow> bool" where
  "connection_sound t part_scope conn \<longleftrightarrow>
     (case (lookup_port t (conn_source_port conn) part_scope, lookup_port t (conn_target_port conn) part_scope) of
        (Some s, Some u) \<Rightarrow>
          (let a = get_effective_direction s; b = get_effective_direction u in
           (a, b) \<notin> {(''in'', ''out''), (''in'', ''in''), (''out'', ''out'')} \<or> valid_delegation conn part_scope a b)
      | _ \<Rightarrow> False)"

definition targets_sound :: "(string \<Rightarrow> nat) \<Rightarrow> string \<Rightarrow> string \<Rightarrow> string btree_set \<Rightarrow> bool" where
  "targets_sound err corpus tag known_ids \<longleftrightarrow>
     list_all (\<lambda>span. case span of Targets ts \<Rightarrow> list_all (known_target known_ids) ts | UnclosedDelimiter \<Rightarrow> False)
       (extract_annotation_targets err corpus tag)"

definition annotations_sound :: "(string \<Rightarrow> nat) \<Rightarrow> SymbolTable \<Rightarrow> RequirementDef \<Rightarrow> bool" where
  "annotations_sound err t r \<longleftrightarrow>
     targets_sound err (requirement_corpus r) ''@SafetyRealises'' (known_ids_of t SkConstraint) \<and>
     targets_sound err (requirement_corpus r) ''@TriggersHazard'' (known_ids_of t SkHazard)"

definition requirement_sound :: "SymbolTable \<Rightarrow> RequirementDef \<times> string \<Rightarrow> bool" where
  "requirement_sound t = (\<lambda>(r, scope).
     list_all (is_resolvable_type t scope) (map attr_type_name (req_attributes r) @ req_satisfied_by r))"

lemma hierarchy_none: "validate_part_hierarchy pkg = [] \<longleftrightarrow> declarations_sound (snd (collect_scoped_ast pkg))"
proof -
  let ?ns = "snd (collect_scoped_ast pkg)"
  have len: "length (repeated node_key duplicate_part [] ?ns) = length (map (duplicate_ports \<circ> node_part) ?ns)" by simp
  have ports: "concat (map (duplicate_ports \<circ> node_part) ?ns) = [] \<longleftrightarrow>
      list_all (\<lambda>n. distinct (map port_name (part_ports (node_part n)))) ?ns"
    unfolding concat_none by (simp add: duplicate_ports_def repeated_none del: concat_eq_Nil_conv)
  show ?thesis
    unfolding validate_part_hierarchy_def Let_def map2_append_none [OF len] ports
    by (simp add: repeated_none declarations_sound_def del: concat_eq_Nil_conv)
qed

lemma direction_message_none: "direction_message conn a b = None \<longleftrightarrow>
    (a, b) \<notin> {(''in'', ''out''), (''in'', ''in''), (''out'', ''out'')}"
  by (simp add: direction_message_def Let_def)

lemma message_none: "(case m of Some x \<Rightarrow> [f x] | None \<Rightarrow> []) = [] \<longleftrightarrow> m = None"
  by (cases m) simp_all

lemma connection_none: "validate_connection t part_scope conn = [] \<longleftrightarrow> connection_sound t part_scope conn"
proof (cases "lookup_port t (conn_source_port conn) part_scope")
  case (Some s)
  then show ?thesis
    by (cases "lookup_port t (conn_target_port conn) part_scope")
      (simp_all add: validate_connection_def connection_sound_def Let_def message_none direction_message_none)
qed (simp add: validate_connection_def connection_sound_def)

lemma span_none: "span_diagnostics name (tag, kind) known_ids sp = [] \<longleftrightarrow>
    (case sp of Targets ts \<Rightarrow> list_all (known_target known_ids) ts | UnclosedDelimiter \<Rightarrow> False)"
  by (cases sp) (auto simp: filter_empty_conv list_all_iff)

lemma spans_none: "validate_annotation_spans err name corpus (tag, kind) known_ids = [] \<longleftrightarrow> targets_sound err corpus tag known_ids"
  by (simp add: validate_annotation_spans_def targets_sound_def concat_none span_none del: concat_eq_Nil_conv)

lemma part_type_none: "validate_part_def t node = [] \<longleftrightarrow>
    pred_option (is_resolvable_type t (node_enclosing_scope node)) (part_type_name (node_part node))"
  by (simp add: validate_part_def_def split: option.split)

lemma requirement_none: "validate_requirement t rs = [] \<longleftrightarrow> requirement_sound t rs"
  by (cases rs) (auto simp: validate_requirement_def requirement_sound_def concat_none list_all_iff
      simp del: concat_eq_Nil_conv)

lemma connections_none: "validate_connections pkg t = [] \<longleftrightarrow>
    list_all (\<lambda>(p, _). list_all (connection_sound t None) (pkg_connection_defs p)) (fst (collect_scoped_ast pkg)) \<and>
    list_all (\<lambda>n. list_all (connection_sound t (Some (part_name (node_part n)))) (part_connections (node_part n)))
      (snd (collect_scoped_ast pkg))"
  unfolding validate_connections_def validate_connection_list_def case_prod_beta Let_def append_is_Nil_conv concat_none connection_none ..

lemma integrity_none: "validate_referential_integrity err pkg t = [] \<longleftrightarrow>
    list_all (\<lambda>(p, _). list_all (annotations_sound err t) (pkg_requirement_defs p)) (fst (collect_scoped_ast pkg)) \<and>
    list_all (\<lambda>n. list_all (annotations_sound err t) (part_requirements (node_part n))) (snd (collect_scoped_ast pkg))"
  unfolding validate_referential_integrity_def case_prod_beta concat_none validate_requirement_annotations_def Let_def
    append_is_Nil_conv spans_none annotations_sound_def [symmetric]
  by (auto simp: list_all_iff)

lemma types_none: "validate_part_defs pkg t = [] \<longleftrightarrow>
    list_all (\<lambda>n. pred_option (is_resolvable_type t (node_enclosing_scope n)) (part_type_name (node_part n)))
      (snd (collect_scoped_ast pkg))"
  unfolding validate_part_defs_def concat_none part_type_none ..

lemma requirements_none: "validate_requirements pkg t = [] \<longleftrightarrow> list_all (requirement_sound t) (scoped_requirements pkg)"
  unfolding validate_requirements_def concat_none requirement_none ..

lemma repeated_diag: "d \<in> set (concat (repeated key diag seen xs)) \<Longrightarrow> \<exists>x. d = diag x"
  by (induction xs arbitrary: seen) (auto split: if_splits)

lemma map2_append_member: "d \<in> set (concat (map2 (@) xs ys)) \<Longrightarrow> d \<in> set (concat xs) \<or> d \<in> set (concat ys)"
  by (auto dest: set_zip_leftD set_zip_rightD)

lemma error_severity [simp]: "diag_severity (diagnostic_error e m) = DiagError"
  by (simp add: diagnostic_error_def)

lemma hierarchy_errors: "d \<in> set (validate_part_hierarchy pkg) \<Longrightarrow> diag_severity d = DiagError"
  unfolding validate_part_hierarchy_def Let_def
proof (drule map2_append_member, elim disjE)
  assume "d \<in> set (concat (repeated node_key duplicate_part [] (snd (collect_scoped_ast pkg))))"
  then show ?thesis by (auto simp: duplicate_part_def Let_def simp del: set_concat dest!: repeated_diag)
next
  assume "d \<in> set (concat (map (duplicate_ports \<circ> node_part) (snd (collect_scoped_ast pkg))))"
  then obtain part where "d \<in> set (duplicate_ports part)" by auto
  then show ?thesis by (auto simp: duplicate_ports_def simp del: set_concat dest!: repeated_diag)
qed

lemma connection_errors: "d \<in> set (validate_connection t part_scope conn) \<Longrightarrow> diag_severity d = DiagError"
  by (auto simp: validate_connection_def Let_def undefined_port_def split: if_splits option.splits)

lemma spans_errors: "d \<in> set (validate_annotation_spans err name corpus (tag, kind) known_ids) \<Longrightarrow> diag_severity d = DiagError"
proof -
  assume "d \<in> set (validate_annotation_spans err name corpus (tag, kind) known_ids)"
  then obtain sp where "d \<in> set (span_diagnostics name (tag, kind) known_ids sp)"
    unfolding validate_annotation_spans_def by auto
  then show ?thesis by (cases sp) auto
qed

lemma annotation_errors: "d \<in> set (validate_requirement_annotations err t r) \<Longrightarrow> diag_severity d = DiagError"
  by (auto simp: validate_requirement_annotations_def Let_def dest: spans_errors)

lemma type_errors:
  "d \<in> set (validate_part_def t node) \<Longrightarrow> diag_severity d = DiagError"
  "d \<in> set (validate_requirement t rs) \<Longrightarrow> diag_severity d = DiagError"
  by (auto simp: validate_part_def_def validate_requirement_def split: if_splits option.splits prod.splits)

lemma all_errors: "d \<in> set (diagnostics_of err pkg) \<Longrightarrow> diag_severity d = DiagError"
  by (auto simp: diagnostics_of_def validate_def Let_def validate_connections_def validate_connection_list_def
      validate_referential_integrity_def validate_part_defs_def validate_requirements_def case_prod_beta
      dest: hierarchy_errors connection_errors annotation_errors type_errors)

text \<open>
  C35: A model has no diagnostics exactly when its parts are unique in their scopes and their ports within the
  part, both ends of every connection are declared with compatible directions, every annotation is closed and
  names, where any target of its kind is declared, a declared target or a fragment of one, and the types of
  parts and requirements are resolvable. Every diagnostic is an error, so a model with diagnostics fails.
\<close>

theorem model_passes_iff:
  "(diagnostics_of err pkg = [] \<longleftrightarrow>
     (let t = build_from_package pkg; (pkgs, nodes) = collect_scoped_ast pkg in
      declarations_sound nodes \<and>
      list_all (\<lambda>(p, _). list_all (connection_sound t None) (pkg_connection_defs p)) pkgs \<and>
      list_all (\<lambda>n. list_all (connection_sound t (Some (part_name (node_part n)))) (part_connections (node_part n))) nodes \<and>
      list_all (\<lambda>(p, _). list_all (annotations_sound err t) (pkg_requirement_defs p)) pkgs \<and>
      list_all (\<lambda>n. list_all (annotations_sound err t) (part_requirements (node_part n))) nodes \<and>
      list_all (\<lambda>n. pred_option (is_resolvable_type t (node_enclosing_scope n)) (part_type_name (node_part n))) nodes \<and>
      list_all (requirement_sound t) (scoped_requirements pkg))) \<and>
   list_all (\<lambda>d. diag_severity d = DiagError) (diagnostics_of err pkg) \<and>
   (has_errors (validate err (validator_new pkg)) \<longleftrightarrow> diagnostics_of err pkg \<noteq> [])"
proof -
  obtain pkgs nodes where ast: "collect_scoped_ast pkg = (pkgs, nodes)" by fastforce
  have "has_errors (validate err (validator_new pkg)) \<longleftrightarrow> diagnostics_of err pkg \<noteq> []"
    using all_errors [of _ err pkg] by (auto simp: has_errors_def diagnostics_of_def list_ex_iff)
      (metis all_errors diagnostics_of_def list.set_sel(1))
  moreover have "list_all (\<lambda>d. diag_severity d = DiagError) (diagnostics_of err pkg)"
    using all_errors by (auto simp: list_all_iff)
  moreover have "diagnostics_of err pkg = [] \<longleftrightarrow>
      declarations_sound nodes \<and>
      list_all (\<lambda>(p, _). list_all (connection_sound (build_from_package pkg) None) (pkg_connection_defs p)) pkgs \<and>
      list_all (\<lambda>n. list_all (connection_sound (build_from_package pkg) (Some (part_name (node_part n)))) (part_connections (node_part n))) nodes \<and>
      list_all (\<lambda>(p, _). list_all (annotations_sound err (build_from_package pkg)) (pkg_requirement_defs p)) pkgs \<and>
      list_all (\<lambda>n. list_all (annotations_sound err (build_from_package pkg)) (part_requirements (node_part n))) nodes \<and>
      list_all (\<lambda>n. pred_option (is_resolvable_type (build_from_package pkg) (node_enclosing_scope n)) (part_type_name (node_part n))) nodes \<and>
      list_all (requirement_sound (build_from_package pkg)) (scoped_requirements pkg)"
    by (simp add: diagnostics_of_def validate_def validator_new_def Let_def hierarchy_none connections_none integrity_none
        types_none requirements_none ast)
  ultimately show ?thesis unfolding ast Let_def prod.case by blast
qed

section \<open>Where the validator and the symbol table differ\<close>

text \<open>
  C36: The validator computes the scope of a package as the symbol table does, except for a root that carries
  the synthetic name, holds packages and no definitions, but satisfies a requirement: its packages are
  indexed below the synthetic name and looked up without it.
\<close>

theorem scopes_agree_iff:
  "compute_scoped_package_name pkg parent_scope = package_qname pkg parent_scope \<longleftrightarrow>
   \<not> (parent_scope = [] \<and> pkg_name pkg = ''SysML_Model'' \<and> has_no_definitions pkg \<and> pkg_packages pkg \<noteq> []
      \<and> pkg_satisfied_requirements pkg \<noteq> [])"
  by (auto simp: compute_scoped_package_name_def package_qname_def is_synthetic_forest_root_def Let_def)

text \<open>
  Every type written from declared names passes, whatever was declared under them: the name of an action,
  a port or a hazard anywhere in the model is accepted as the type of a part.
\<close>

theorem any_declaration_is_a_type:
  assumes "tree_ok ty" "tree_height ty \<le> 64" "set (tree_names ty) \<subseteq> sym_name ` set (declared pkg)"
  shows "is_resolvable_type (build_from_package pkg) scope (tree_text ty)"
proof -
  have "lookup_in_scope (build_from_package pkg) scope n \<noteq> None" if "n \<in> set (tree_names ty)" for n
    using assms(3) that simple_name_found [of _ pkg scope] by auto
  then show ?thesis
    using check_tree [OF assms(1), of 0] assms(2)
    by (simp add: is_resolvable_type_def known_name_def MAX_TYPE_DEPTH_def list_all_iff)
qed

definition shut_down :: ActionDef where
  "shut_down = default_action\<lparr>action_name := ''ShutDown''\<rparr>"

definition shut_down_package :: PackageDef where
  "shut_down_package = push_package_member (ActionMember shut_down) (named_package ''Plant'' None [])"

theorem any_declaration_is_a_type_witness:
  "is_resolvable_type (build_from_package shut_down_package) ''Other'' ''ShutDown''"
proof -
  have ok: "tree_ok (Named ''ShutDown'')" "tree_height (Named ''ShutDown'') \<le> 64" by code_simp+
  have "''ShutDown'' \<in> set (map sym_name (declared shut_down_package))" by code_simp
  then show ?thesis
    using any_declaration_is_a_type [OF ok, of shut_down_package "''Other''"] by simp
qed

text \<open>
  Without a declared constraint every target passes, and with one every fragment of its normalised name does.
\<close>

theorem undeclared_target_passes: "known_target [] target \<and> known_target [''uca_10''] ''UCA-1''"
proof
  show "known_target [] target" by (simp add: known_target_def)
  show "known_target [''uca_10''] ''UCA-1''" by code_simp
qed

text \<open>The model of two files: a package whose part has a type of its inner package, and a satisfied requirement.\<close>

definition plant_model :: "string list \<Rightarrow> PackageDef" where
  "plant_model satisfied =
     set_package_satisfied satisfied
       (named_package ''SysML_Model'' None
         [push_package_member (PartMember (new_part ''feed'' None False (Some ''Parts::Pump'')))
            (set_packages [push_package_member (PartMember (new_part ''Pump'' None True None)) (named_package ''Parts'' None [])]
              (named_package ''Plant'' None [])),
          named_package ''Tests'' None []])"

lemma no_imports:
  "(\<And>s. bt_list (tbl_package_imports t) s = []) \<Longrightarrow> lookup_via_imports t scope name = None"
proof (induction "length scope" arbitrary: scope rule: less_induct)
  case less
  then show ?case
    by (subst lookup_via_imports.simps) (auto dest: rsplit_once_parts split: option.split)
qed

lemma registered_imports:
  "list_all (\<lambda>(p, q). pkg_imports p = []) ps \<Longrightarrow> bt_sorted (tbl_package_imports t) \<Longrightarrow>
     (\<And>s. bt_list (tbl_package_imports t) s = []) \<Longrightarrow> bt_list (tbl_package_imports (register_all ps t)) s = []"
proof (induction ps arbitrary: t)
  case (Cons x ps)
  obtain p q where x: "x = (p, q)" by (cases x)
  have ins: "bt_sorted m \<Longrightarrow> (\<And>s. bt_list m s = []) \<Longrightarrow> bt_list (bt_insert q [] m) s = []" for m :: "(string, ImportDef list) btree_map" and s
    by (simp add: bt_list_def bt_get_insert)
  have "bt_sorted (tbl_package_imports (register_imports p q t)) \<and> bt_list (tbl_package_imports (register_imports p q t)) s = []" for s
    using Cons.prems x by (simp add: register_imports_def Let_def bt_list_extend ins)
  then show ?case using Cons x by simp
qed simp

lemma not_declared:
  assumes "list_all (\<lambda>(p, q). pkg_imports p = []) (scoped_packages MAX_SYMBOL_DEPTH [] pkg)"
    and "list_all (\<lambda>q. q \<noteq> name \<and> q \<noteq> scoped scope name) (map sym_qualified_name (declared pkg))"
    and "name \<notin> set (map sym_name (declared pkg))"
  shows "lookup_in_scope (build_from_package pkg) scope name = None"
proof -
  have "lookup (build_from_package pkg) name = None" "lookup (build_from_package pkg) (scoped scope name) = None"
    using assms(2) by (auto simp: lookup_declared find_None_iff list_all_iff)
  moreover have "bt_list (tbl_by_name (build_from_package pkg)) name = []"
    using assms(3) by (auto simp: by_name_declared filter_empty_conv)
  moreover have "tbl_package_imports (insert_symbols ss t) = tbl_package_imports t" for ss t
    by (induction ss arbitrary: t) (simp_all add: insert_symbol_def)
  then have "lookup_via_imports (build_from_package pkg) scope name = None"
    using registered_imports [OF assms(1), of empty_table]
    by (intro no_imports) (simp add: build_table empty_table_def bt_list_Nil)
  ultimately show ?thesis by (simp add: lookup_in_scope_def)
qed

lemma plant_names:
  "map sym_qualified_name (declared (plant_model (r # rs))) = [''SysML_Model'', ''SysML_Model::Plant'',
     ''SysML_Model::Plant::feed'', ''SysML_Model::Plant::Parts'', ''SysML_Model::Plant::Parts::Pump'', ''SysML_Model::Tests'']"
  "map sym_name (declared (plant_model (r # rs))) = [''SysML_Model'', ''Plant'', ''feed'', ''Parts'', ''Pump'', ''Tests'']"
  "list_all (\<lambda>(p, q). pkg_imports p = []) (scoped_packages MAX_SYMBOL_DEPTH [] (plant_model (r # rs)))"
  by code_simp+

lemma plant_nodes:
  "map (\<lambda>n. (node_enclosing_scope n, part_type_name (node_part n), part_name (node_part n)))
     (snd (collect_scoped_ast (plant_model sat))) =
   [(''Plant'', Some ''Parts::Pump'', ''feed''), (''Plant::Parts'', None, ''Pump'')]"
  by code_simp

lemma plant_otherwise_sound:
  "validate_part_hierarchy (plant_model sat) = []"
  "validate_connections (plant_model sat) t = []"
  "validate_referential_integrity err (plant_model sat) t = []"
  "validate_requirements (plant_model sat) t = []"
proof -
  have pkgs: "list_all (\<lambda>(p, _). pkg_connection_defs p = [] \<and> pkg_requirement_defs p = []) (fst (collect_scoped_ast (plant_model sat)))"
    by code_simp
  have nodes: "list_all (\<lambda>n. part_connections (node_part n) = [] \<and> part_requirements (node_part n) = [])
      (snd (collect_scoped_ast (plant_model sat)))"
    by code_simp
  show "validate_part_hierarchy (plant_model sat) = []" by code_simp
  show "validate_connections (plant_model sat) t = []"
    unfolding connections_none using pkgs nodes by (auto simp: list_all_iff)
  show "validate_referential_integrity err (plant_model sat) t = []"
    unfolding integrity_none using pkgs nodes by (auto simp: list_all_iff)
  have "scoped_requirements (plant_model sat) = []"
    using pkgs nodes by (auto simp: scoped_requirements_def case_prod_beta list_all_iff)
  then show "validate_requirements (plant_model sat) t = []" by (simp add: requirements_none)
qed

lemma plant_diagnostics:
  "diagnostics_of err (plant_model sat) =
     (if lookup_in_scope (build_from_package (plant_model sat)) ''Plant'' ''Parts::Pump'' \<noteq> None then []
      else [diagnostic_error ''feed'' (''Part '' @ diag_quoted ''feed'' @ '' references undefined type '' @ diag_quoted ''Parts::Pump'')])"
proof -
  let ?t = "build_from_package (plant_model sat)"
  let ?diag = "\<lambda>(scope, ty, name). case ty of None \<Rightarrow> [] | Some ty \<Rightarrow> if is_resolvable_type ?t scope ty then []
      else [diagnostic_error name (''Part '' @ diag_quoted name @ '' references undefined type '' @ diag_quoted ty)]"
  have ok: "tree_ok (Named ''Parts::Pump'')" "\<not> is_atomic_builtin_type_name ''Parts::Pump''" by code_simp+
  have ty: "is_resolvable_type ?t ''Plant'' ''Parts::Pump'' \<longleftrightarrow> lookup_in_scope ?t ''Plant'' ''Parts::Pump'' \<noteq> None"
    using check_tree [OF ok(1), of 0] ok(2) by (simp add: is_resolvable_type_def known_name_def MAX_TYPE_DEPTH_def)
  have "validate_part_defs (plant_model sat) ?t = concat (map ?diag
      (map (\<lambda>n. (node_enclosing_scope n, part_type_name (node_part n), part_name (node_part n)))
        (snd (collect_scoped_ast (plant_model sat)))))"
    by (simp add: validate_part_defs_def validate_part_def_def [abs_def] o_def)
  then show ?thesis
    unfolding plant_nodes
    by (simp add: diagnostics_of_def validate_def validator_new_def Let_def plant_otherwise_sound ty)
qed

text \<open>
  One requirement satisfied at the top of a model makes the validator refuse the qualified type of a part
  that it accepts without: the inner package is looked up as \<open>Plant::Parts\<close> and indexed as
  \<open>SysML_Model::Plant::Parts\<close>.
\<close>

theorem satisfied_root_loses_types:
  "diagnostics_of err (plant_model []) = [] \<and>
   diagnostics_of err (plant_model (r # rs)) =
     [diagnostic_error ''feed'' (''Part '' @ diag_quoted ''feed'' @ '' references undefined type '' @ diag_quoted ''Parts::Pump'')]"
proof
  have "lookup_in_scope (build_from_package (plant_model [])) ''Plant'' ''Parts::Pump'' \<noteq> None" by code_simp
  then show "diagnostics_of err (plant_model []) = []" by (simp add: plant_diagnostics)
  have "lookup_in_scope (build_from_package (plant_model (r # rs))) ''Plant'' ''Parts::Pump'' = None"
    by (rule not_declared [OF plant_names(3)]) (simp_all only: plant_names, simp_all add: scoped_def)
  then show "diagnostics_of err (plant_model (r # rs)) =
     [diagnostic_error ''feed'' (''Part '' @ diag_quoted ''feed'' @ '' references undefined type '' @ diag_quoted ''Parts::Pump'')]"
    by (simp add: plant_diagnostics)
qed

end
