(* ===== verification/Schema_Digest.thy ===== *)
theory Schema_Digest
  imports Sysml_Model Digest
begin

text \<open>
  The schema digest of a model, \<^verbatim>\<open>compile-sysml/src/salsa_db/safety_digest.rs\<close>: the SHA-256 of the text, the
  counts per kind, the sorted names, and the operational lists. The \<^verbatim>\<open>usize\<close> counters count elements held in
  memory, so their saturating additions are additions. A worklist that only reads is a fold over the nodes in
  the order they are popped (\<open>pop_packages\<close>, \<open>pop_parts\<close>). Writing the digest as JSON is left out.
\<close>

section \<open>Records\<close>

record FileDigestEntry =
  fde_path :: string
  fde_sha256 :: string
  fde_bytes :: nat
  fde_lines :: nat
  fde_entities :: nat

record OperationalActivity =
  oact_id :: string
  oact_name :: string
  oact_doc :: string
  oact_performer :: string
  oact_inputs :: "string list"
  oact_outputs :: "string list"

record OperationalExchange =
  oex_id :: string
  oex_name :: string
  oex_source_port :: string
  oex_target_port :: string
  oex_source_part :: string
  oex_target_part :: string
  oex_protocol :: string

record OperationalScenario =
  oscn_id :: string
  oscn_name :: string
  oscn_actor :: string
  oscn_objective :: string
  oscn_steps :: "string list"

record OperationalNode =
  onode_name :: string
  onode_node_type :: string
  onode_doc :: string
  onode_allocated_activities :: "string list"

record SchemaDigest =
  sd_sha256 :: string
  sd_total_lines :: nat
  sd_node_counts :: "(string, nat) btree_map"
  sd_schema_nodes :: "string list"
  sd_operational_activities :: "OperationalActivity list"
  sd_operational_exchanges :: "OperationalExchange list"
  sd_operational_scenarios :: "OperationalScenario list"
  sd_operational_nodes :: "OperationalNode list"
  sd_file_manifest :: "FileDigestEntry list"

section \<open>Counting\<close>

definition part_direct :: "PartDef \<Rightarrow> nat" where
  "part_direct part =
     length (part_parts part) + length (part_attributes part) + length (part_ports part) +
     length (part_actions part) + length (part_operations part) + length (part_capabilities part) +
     length (part_interactions part) + length (part_constraints part) + length (part_calcs part) +
     length (part_test_cases part) + length (part_requirements part) + length (part_connections part) +
     length (part_states part) + length (part_use_cases part) + length (part_item_defs part) +
     length (part_hazards part) + length (part_risks part)"

definition count_part_structural_elements :: "PartDef \<Rightarrow> nat" where
  "count_part_structural_elements root_part = fold (\<lambda>part total. total + part_direct part) (pop_parts [root_part]) 0"

definition package_direct :: "PackageDef \<Rightarrow> nat" where
  "package_direct pk =
     length (pkg_part_defs pk) + length (pkg_attribute_defs pk) + length (pkg_port_defs pk) +
     length (pkg_action_defs pk) + length (pkg_operation_defs pk) + length (pkg_capability_defs pk) +
     length (pkg_interaction_defs pk) + length (pkg_constraint_defs pk) + length (pkg_calc_defs pk) +
     length (pkg_test_case_defs pk) + length (pkg_requirement_defs pk) + length (pkg_connection_defs pk) +
     length (pkg_state_defs pk) + length (pkg_use_case_defs pk) + length (pkg_item_defs pk) +
     length (pkg_hazard_defs pk) + length (pkg_risk_defs pk)"

definition count_structural_elements :: "PackageDef \<Rightarrow> nat" where
  "count_structural_elements pkg =
     fold (\<lambda>pk total. fold (\<lambda>part total. total + count_part_structural_elements part) (pkg_part_defs pk)
       (total + package_direct pk)) (pop_packages [pkg]) 0"

definition bump_count :: "string \<Rightarrow> nat \<Rightarrow> (string, nat) btree_map \<Rightarrow> (string, nat) btree_map" where
  "bump_count key n counts = bt_modify key (\<lambda>c. c + n) (bt_or_insert key 0 counts)"

abbreviation bump_counts :: "(string \<times> nat) list \<Rightarrow> (string, nat) btree_map \<Rightarrow> (string, nat) btree_map" where
  "bump_counts kns counts \<equiv> fold (\<lambda>(k, n). bump_count k n) kns counts"

definition part_counts :: "PartDef \<Rightarrow> (string \<times> nat) list" where
  "part_counts part =
     [(''attribute_defs'', length (part_attributes part)), (''port_defs'', length (part_ports part)),
      (''action_defs'', length (part_actions part)), (''capability_defs'', length (part_capabilities part)),
      (''operation_defs'', length (part_operations part)), (''interaction_defs'', length (part_interactions part)),
      (''constraint_defs'', length (part_constraints part)), (''calc_defs'', length (part_calcs part)),
      (''test_case_defs'', length (part_test_cases part)), (''requirement_defs'', length (part_requirements part)),
      (''state_defs'', length (part_states part)), (''use_case_defs'', length (part_use_cases part)),
      (''item_defs'', length (part_item_defs part)), (''hazard_defs'', length (part_hazards part)),
      (''risk_defs'', length (part_risks part)), (''connection_defs'', length (part_connections part)),
      (''part_defs'', length (part_parts part))]"

definition accumulate_part_counts :: "PartDef \<Rightarrow> (string, nat) btree_map \<Rightarrow> (string, nat) btree_map" where
  "accumulate_part_counts root_part counts = fold (\<lambda>part. bump_counts (part_counts part)) (pop_parts [root_part]) counts"

definition package_counts :: "PackageDef \<Rightarrow> (string \<times> nat) list" where
  "package_counts pk =
     [(''attribute_defs'', length (pkg_attribute_defs pk)), (''port_defs'', length (pkg_port_defs pk)),
      (''action_defs'', length (pkg_action_defs pk)), (''capability_defs'', length (pkg_capability_defs pk)),
      (''operation_defs'', length (pkg_operation_defs pk)), (''interaction_defs'', length (pkg_interaction_defs pk)),
      (''constraint_defs'', length (pkg_constraint_defs pk)), (''calc_defs'', length (pkg_calc_defs pk)),
      (''test_case_defs'', length (pkg_test_case_defs pk)), (''requirement_defs'', length (pkg_requirement_defs pk)),
      (''state_defs'', length (pkg_state_defs pk)), (''use_case_defs'', length (pkg_use_case_defs pk)),
      (''item_defs'', length (pkg_item_defs pk)), (''hazard_defs'', length (pkg_hazard_defs pk)),
      (''risk_defs'', length (pkg_risk_defs pk)), (''connection_defs'', length (pkg_connection_defs pk)),
      (''part_defs'', length (pkg_part_defs pk))]"

definition count_keys :: "string list" where
  "count_keys =
     [''packages'', ''part_defs'', ''attribute_defs'', ''port_defs'', ''action_defs'', ''capability_defs'',
      ''operation_defs'', ''interaction_defs'', ''constraint_defs'', ''calc_defs'', ''test_case_defs'',
      ''requirement_defs'', ''state_defs'', ''use_case_defs'', ''item_defs'', ''hazard_defs'', ''risk_defs'',
      ''connection_defs'', ''containers'', ''lists'', ''leaves'', ''typedefs'', ''identities'', ''groupings'']"

definition count_of :: "(string, nat) btree_map \<Rightarrow> string \<Rightarrow> nat" where
  "count_of counts k = (case bt_get counts k of Some n \<Rightarrow> n | None \<Rightarrow> 0)"

definition package_round :: "PackageDef \<Rightarrow> (string, nat) btree_map \<Rightarrow> (string, nat) btree_map" where
  "package_round pk counts =
     fold (\<lambda>_. bump_count ''packages'' 1) (pkg_packages pk)
       (fold accumulate_part_counts (pkg_part_defs pk) (bump_counts (package_counts pk) counts))"

definition compute_node_counts :: "PackageDef \<Rightarrow> (string, nat) btree_map" where
  "compute_node_counts pkg =
     (let counts = fold (\<lambda>key. bt_insert key (if key = ''packages'' then 1 else 0)) count_keys [];
          counts = fold package_round (pop_packages [pkg]) counts;
          counts = bt_insert ''containers'' (count_of counts ''part_defs'') counts;
          counts = bt_insert ''lists'' (count_of counts ''action_defs'') counts
      in bt_insert ''leaves'' (count_of counts ''attribute_defs'') counts)"

section \<open>Names\<close>

definition part_names :: "PartDef \<Rightarrow> string list" where
  "part_names part =
     part_name part # map attr_name (part_attributes part) @ map port_name (part_ports part) @
     map action_name (part_actions part) @ map cap_name (part_capabilities part) @
     map opn_name (part_operations part) @ map inter_name (part_interactions part) @
     map con_name (part_constraints part) @ map calc_name (part_calcs part) @
     map tcase_name (part_test_cases part) @ map req_name (part_requirements part) @
     map state_name (part_states part) @ map conn_name (part_connections part) @
     map ucase_name (part_use_cases part) @ map item_name (part_item_defs part) @
     map hazard_name (part_hazards part) @ map risk_name (part_risks part)"

definition collect_part_nodes :: "PartDef \<Rightarrow> string btree_set \<Rightarrow> string btree_set" where
  "collect_part_nodes root_part nodes = fold (\<lambda>part. fold bs_insert (part_names part)) (pop_parts [root_part]) nodes"

definition package_names :: "PackageDef \<Rightarrow> string list" where
  "package_names pk =
     pkg_name pk # map attr_name (pkg_attribute_defs pk) @ map port_name (pkg_port_defs pk) @
     map action_name (pkg_action_defs pk) @ map cap_name (pkg_capability_defs pk) @
     map opn_name (pkg_operation_defs pk) @ map inter_name (pkg_interaction_defs pk) @
     map con_name (pkg_constraint_defs pk) @ map calc_name (pkg_calc_defs pk) @
     map tcase_name (pkg_test_case_defs pk) @ map req_name (pkg_requirement_defs pk) @
     map state_name (pkg_state_defs pk) @ map conn_name (pkg_connection_defs pk) @
     map ucase_name (pkg_use_case_defs pk) @ map item_name (pkg_item_defs pk) @
     map hazard_name (pkg_hazard_defs pk) @ map risk_name (pkg_risk_defs pk)"

definition collect_schema_nodes :: "PackageDef \<Rightarrow> string list" where
  "collect_schema_nodes pkg =
     fold (\<lambda>pk nodes. fold collect_part_nodes (pkg_part_defs pk) (fold bs_insert (package_names pk) nodes))
       (pop_packages [pkg]) []"

section \<open>Operational lists\<close>

definition or_default :: "string option \<Rightarrow> string \<Rightarrow> string" where
  "or_default x d = (case x of Some y \<Rightarrow> y | None \<Rightarrow> d)"

definition operational_activity :: "nat \<Rightarrow> ActionDef \<times> string \<Rightarrow> OperationalActivity" where
  "operational_activity idx = (\<lambda>(act, default_performer).
     \<lparr>oact_id = ''OA-'' @ decimal02 idx, oact_name = action_name act, oact_doc = or_default (action_doc act) [],
      oact_performer = or_default (action_performer act) default_performer,
      oact_inputs = map attr_name (action_in_params act), oact_outputs = map attr_name (action_out_params act)\<rparr>)"

text \<open>Numbered from one across both loops.\<close>

definition numbered :: "(nat \<Rightarrow> 'a \<Rightarrow> 'b) \<Rightarrow> 'a list \<Rightarrow> 'b list" where
  "numbered f xs = map2 f [1..<Suc (length xs)] xs"

definition extract_operational_activities :: "PackageDef \<Rightarrow> OperationalActivity list" where
  "extract_operational_activities pkg = numbered operational_activity
     (concat (map (\<lambda>p. map (\<lambda>act. (act, [])) (pkg_action_defs p)) (get_all_packages pkg)) @
      concat (map (\<lambda>part. map (\<lambda>act. (act, part_name part)) (part_actions part)) (get_all_parts pkg)))"

definition operational_exchange :: "nat \<Rightarrow> ConnectionDef \<times> string \<Rightarrow> OperationalExchange" where
  "operational_exchange idx = (\<lambda>(conn, default_part).
     \<lparr>oex_id = ''OpTx-'' @ decimal02 idx, oex_name = conn_name conn, oex_source_port = conn_source_port conn,
      oex_target_port = conn_target_port conn, oex_source_part = or_default (conn_source_part conn) default_part,
      oex_target_part = or_default (conn_target_part conn) [], oex_protocol = or_default (conn_protocol conn) []\<rparr>)"

definition extract_operational_exchanges :: "PackageDef \<Rightarrow> OperationalExchange list" where
  "extract_operational_exchanges pkg = numbered operational_exchange
     (concat (map (\<lambda>p. map (\<lambda>conn. (conn, [])) (pkg_connection_defs p)) (get_all_packages pkg)) @
      concat (map (\<lambda>part. map (\<lambda>conn. (conn, part_name part)) (part_connections part)) (get_all_parts pkg)))"

definition operational_scenario :: "nat \<Rightarrow> UseCaseDef \<Rightarrow> OperationalScenario" where
  "operational_scenario idx uc =
     \<lparr>oscn_id = ''SCN-'' @ decimal02 idx, oscn_name = ucase_name uc, oscn_actor = or_default (ucase_actor uc) [],
      oscn_objective = or_default (ucase_objective uc) [], oscn_steps = ucase_steps uc\<rparr>"

definition extract_operational_scenarios :: "PackageDef \<Rightarrow> OperationalScenario list" where
  "extract_operational_scenarios pkg = numbered operational_scenario (get_all_use_cases pkg)"

definition extract_operational_nodes :: "PackageDef \<Rightarrow> OperationalNode list" where
  "extract_operational_nodes pkg =
     map (\<lambda>part. \<lparr>onode_name = part_name part, onode_node_type = ''Part'', onode_doc = or_default (part_doc part) [],
       onode_allocated_activities = map action_name (part_actions part)\<rparr>) (get_all_parts pkg)"

section \<open>The digest\<close>

definition schema_digest_compute :: "PackageDef \<Rightarrow> string \<Rightarrow> SchemaDigest" where
  "schema_digest_compute pkg sysml_text =
     \<lparr>sd_sha256 = compute_sha256 (utf8_bytes sysml_text), sd_total_lines = length (lines sysml_text),
      sd_node_counts = compute_node_counts pkg, sd_schema_nodes = collect_schema_nodes pkg,
      sd_operational_activities = extract_operational_activities pkg,
      sd_operational_exchanges = extract_operational_exchanges pkg,
      sd_operational_scenarios = extract_operational_scenarios pkg,
      sd_operational_nodes = extract_operational_nodes pkg, sd_file_manifest = []\<rparr>"

definition with_file_manifest :: "FileDigestEntry list \<Rightarrow> SchemaDigest \<Rightarrow> SchemaDigest" where
  "with_file_manifest manifest d = d\<lparr>sd_file_manifest := manifest\<rparr>"

definition generate_digest :: "PackageDef \<Rightarrow> string \<Rightarrow> SchemaDigest" where
  "generate_digest pkg sysml_text = schema_digest_compute pkg sysml_text"

section \<open>The counts\<close>

lemma fold_add: "fold (\<lambda>x n. n + f x) xs n = n + sum_list (map f xs)" for n :: nat
  by (induction xs arbitrary: n) auto

definition all_parts_of :: "PackageDef \<Rightarrow> PartDef list" where
  "all_parts_of pkg = concat (map part_preorder (concat (map pkg_part_defs (package_preorder pkg))))"

lemma count_part: "count_part_structural_elements part = sum_list (map part_direct (part_preorder part))"
  by (simp add: count_part_structural_elements_def fold_add parts.walk_preorder)

lemma count_structural:
  "count_structural_elements pkg =
     sum_list (map package_direct (package_preorder pkg)) + sum_list (map part_direct (all_parts_of pkg))"
proof -
  have "fold (\<lambda>pk total. fold (\<lambda>part total. total + count_part_structural_elements part) (pkg_part_defs pk)
      (total + package_direct pk)) ps n =
    n + sum_list (map package_direct ps) + sum_list (map part_direct (concat (map part_preorder (concat (map pkg_part_defs ps)))))"
    for ps n
  proof (induction ps arbitrary: n)
    case (Cons p ps)
    have "sum_list (map count_part_structural_elements qs) = sum_list (map part_direct (concat (map part_preorder qs)))" for qs
      by (induction qs) (auto simp: count_part)
    with Cons show ?case by (simp add: fold_add)
  qed simp
  then show ?thesis by (simp add: count_structural_elements_def packages.walk_preorder all_parts_of_def)
qed

lemma sorted_bump [simp]: "bt_sorted m \<Longrightarrow> bt_sorted (bump_count k n m)"
  by (simp add: bump_count_def)

lemma count_bump: "bt_sorted m \<Longrightarrow> count_of (bump_count k n m) k' = count_of m k' + (if k' = k then n else 0)"
  by (auto simp: bump_count_def count_of_def bt_get_modify bt_get_or_insert split: option.splits)

definition total_for :: "string \<Rightarrow> (string \<times> nat) list \<Rightarrow> nat" where
  "total_for k kns = sum_list (map snd (filter (\<lambda>(k', n). k' = k) kns))"

lemma total_for_append [simp]: "total_for k (xs @ ys) = total_for k xs + total_for k ys"
  by (simp add: total_for_def)

lemma count_bumps: "bt_sorted m \<Longrightarrow> bt_sorted (bump_counts kns m) \<and> count_of (bump_counts kns m) k = count_of m k + total_for k kns"
proof (induction kns arbitrary: m)
  case (Cons kn kns)
  obtain x n where kn: "kn = (x, n)" by (cases kn)
  show ?case using Cons.IH [of "bump_count x n m"] Cons.prems by (simp add: kn count_bump total_for_def)
qed (simp add: total_for_def)

lemma bumps_concat: "fold (\<lambda>x. bump_counts (f x)) xs m = bump_counts (concat (map f xs)) m"
  by (induction xs arbitrary: m) auto

lemma accumulate_bumps: "accumulate_part_counts part m = bump_counts (concat (map part_counts (part_preorder part))) m"
  by (simp add: accumulate_part_counts_def bumps_concat parts.walk_preorder)

definition round_counts :: "PackageDef \<Rightarrow> (string \<times> nat) list" where
  "round_counts pk = package_counts pk @ concat (map part_counts (concat (map part_preorder (pkg_part_defs pk)))) @
     map (\<lambda>_. (''packages'', 1)) (pkg_packages pk)"

lemma package_round_bumps: "package_round pk m = bump_counts (round_counts pk) m"
proof -
  have parts: "fold accumulate_part_counts qs m = bump_counts (concat (map part_counts (concat (map part_preorder qs)))) m" for qs m
    by (induction qs arbitrary: m) (auto simp: accumulate_bumps)
  have "fold (\<lambda>_. bump_count ''packages'' 1) ps m = bump_counts (map (\<lambda>_. (''packages'', 1)) ps) m" for ps :: "PackageDef list" and m
    by (induction ps arbitrary: m) auto
  then show ?thesis by (simp add: package_round_def round_counts_def parts)
qed

definition element_keys :: "string list" where
  "element_keys =
     [''part_defs'', ''attribute_defs'', ''port_defs'', ''action_defs'', ''capability_defs'', ''operation_defs'',
      ''interaction_defs'', ''constraint_defs'', ''calc_defs'', ''test_case_defs'', ''requirement_defs'', ''state_defs'',
      ''use_case_defs'', ''item_defs'', ''hazard_defs'', ''risk_defs'', ''connection_defs'']"

definition element_total :: "(string \<times> nat) list \<Rightarrow> nat" where
  "element_total kns = sum_list (map (\<lambda>k. total_for k kns) element_keys)"

lemma element_total_append: "element_total (xs @ ys) = element_total xs + element_total ys"
  by (simp add: element_total_def sum_list_addf)

lemma element_total_concat: "element_total (concat xss) = sum_list (map element_total xss)"
proof (induction xss)
  case Nil
  show ?case by (simp add: element_total_def total_for_def)
qed (simp add: element_total_append)

lemma total_concat: "total_for k (concat xss) = sum_list (map (total_for k) xss)"
  by (induction xss) (simp_all add: total_for_def)

lemma element_total_direct: "element_total (part_counts q) = part_direct q" "element_total (package_counts p) = package_direct p"
proof -
  have one: "sum_list (map (\<lambda>k. if k = x then n else 0) ks) = (if x \<in> set ks then n else 0)"
    if "distinct ks" for ks and x :: string and n :: nat
    using that by (induction ks) auto
  have d: "distinct element_keys" by code_simp
  have total: "element_total kns = sum_list (map snd kns)" if "list_all (\<lambda>k. k \<in> set element_keys) (map fst kns)" for kns
    using that
  proof (induction kns)
    case Nil
    show ?case by (simp add: element_total_def total_for_def)
  next
    case (Cons kn kns)
    obtain x n where kn: "kn = (x, n)" by (cases kn)
    have "total_for k (kn # kns) = (if k = x then n else 0) + total_for k kns" for k
      by (simp add: kn total_for_def)
    then have "element_total (kn # kns) = sum_list (map (\<lambda>k. if k = x then n else 0) element_keys) + element_total kns"
      by (simp add: element_total_def sum_list_addf)
    then show ?case using Cons kn one [OF d, of x n] by simp
  qed
  have keys: "list_all (\<lambda>k. k \<in> set element_keys) (map fst (part_counts q))"
    "list_all (\<lambda>k. k \<in> set element_keys) (map fst (package_counts p))"
    by (simp_all add: part_counts_def package_counts_def element_keys_def)
  show "element_total (part_counts q) = part_direct q"
    using total [OF keys(1)] by (simp add: part_counts_def part_direct_def)
  show "element_total (package_counts p) = package_direct p"
    using total [OF keys(2)] by (simp add: package_counts_def package_direct_def)
qed

lemma packages_total: "total_for ''packages'' (part_counts q) = 0" "total_for ''packages'' (package_counts p) = 0"
    "total_for k (map (\<lambda>_. (''packages'', 1)) ps) = (if k = ''packages'' then length ps else 0)"
  by (simp add: total_for_def part_counts_def, simp add: total_for_def package_counts_def, induction ps)
    (auto simp: total_for_def)

lemma round_total:
  "element_total (round_counts p) = package_direct p + sum_list (map part_direct (concat (map part_preorder (pkg_part_defs p))))"
  "total_for ''packages'' (round_counts p) = length (pkg_packages p)"
proof -
  have none: "element_total (map (\<lambda>_. (''packages'', 1)) (pkg_packages p)) = 0"
    unfolding element_total_def packages_total(3) by (simp add: element_keys_def)
  show "element_total (round_counts p) = package_direct p + sum_list (map part_direct (concat (map part_preorder (pkg_part_defs p))))"
    unfolding round_counts_def element_total_append element_total_concat none
    by (simp add: element_total_direct o_def)
  have "sum_list (map (\<lambda>q. total_for ''packages'' (part_counts q)) qs) = 0" for qs
    by (induction qs) (simp_all add: packages_total)
  then show "total_for ''packages'' (round_counts p) = length (pkg_packages p)"
    unfolding round_counts_def total_for_append total_concat packages_total(3) by (simp add: packages_total o_def)
qed

lemma preorder_children: "sum_list (map (length \<circ> pkg_packages) (package_preorder p)) + 1 = length (package_preorder p)"
proof (induction p rule: package_preorder.induct)
  case (1 p)
  have "sum_list (map (length \<circ> pkg_packages) (concat (map package_preorder ps))) + length ps = length (concat (map package_preorder ps))"
    if "\<And>q. q \<in> set ps \<Longrightarrow> sum_list (map (length \<circ> pkg_packages) (package_preorder q)) + 1 = length (package_preorder q)" for ps
    using that by (induction ps) fastforce+
  then have "sum_list (map (length \<circ> pkg_packages) (concat (map package_preorder (pkg_packages p)))) + length (pkg_packages p)
      = length (concat (map package_preorder (pkg_packages p)))" by this (rule 1)
  then show ?case by (subst (1 2) package_preorder.simps) simp
qed

definition all_counts :: "PackageDef \<Rightarrow> (string \<times> nat) list" where
  "all_counts pkg = concat (map round_counts (package_preorder pkg))"

lemma counted:
  "bt_sorted (fold package_round (pop_packages [pkg]) (fold (\<lambda>key. bt_insert key (if key = ''packages'' then 1 else 0)) count_keys []))"
  "count_of (fold package_round (pop_packages [pkg]) (fold (\<lambda>key. bt_insert key (if key = ''packages'' then 1 else 0)) count_keys [])) k
    = (if k = ''packages'' then 1 else 0) + total_for k (all_counts pkg)"
proof -
  let ?z = "\<lambda>key. (if key = ''packages'' then 1 else 0) :: nat"
  have start: "bt_sorted (fold (\<lambda>key. bt_insert key (?z key)) ks m) \<and>
      (count_of m k = 0 \<or> count_of m k = ?z k \<longrightarrow>
       count_of (fold (\<lambda>key. bt_insert key (?z key)) ks m) k = (if k \<in> set ks then ?z k else count_of m k))"
    if "bt_sorted m" for ks m k
    using that
  proof (induction ks arbitrary: m)
    case (Cons x ks)
    have "count_of (bt_insert x (?z x) m) k = (if k = x then ?z x else count_of m k)"
      using Cons.prems by (simp add: count_of_def bt_get_insert)
    then show ?case using Cons.IH [of "bt_insert x (?z x) m"] Cons.prems by auto
  qed simp
  have listed: "k = ''packages'' \<Longrightarrow> k \<in> set count_keys" by (simp add: count_keys_def)
  have init: "bt_sorted (fold (\<lambda>key. bt_insert key (?z key)) count_keys [])"
      "count_of (fold (\<lambda>key. bt_insert key (?z key)) count_keys []) k = ?z k"
    using start [of "[]" count_keys k] listed by (auto simp: count_of_def bt_get_def)
  have rounds: "fold package_round (pop_packages [pkg]) m = bump_counts (all_counts pkg) m" for m
    by (simp add: package_round_bumps [abs_def] packages.walk_preorder all_counts_def bumps_concat)
  show "bt_sorted (fold package_round (pop_packages [pkg]) (fold (\<lambda>key. bt_insert key (?z key)) count_keys []))"
    "count_of (fold package_round (pop_packages [pkg]) (fold (\<lambda>key. bt_insert key (?z key)) count_keys [])) k
      = ?z k + total_for k (all_counts pkg)"
    unfolding rounds using count_bumps [OF init(1), of "all_counts pkg" k] init(2) by simp_all
qed

lemma node_count:
  "count_of (compute_node_counts pkg) k =
     (if k = ''containers'' then total_for ''part_defs'' (all_counts pkg)
      else if k = ''lists'' then total_for ''action_defs'' (all_counts pkg)
      else if k = ''leaves'' then total_for ''attribute_defs'' (all_counts pkg)
      else (if k = ''packages'' then 1 else 0) + total_for k (all_counts pkg))"
proof -
  have ins: "count_of (bt_insert x n m) k' = (if k' = x then n else count_of m k')" if "bt_sorted m" for x n k' m
    using that by (simp add: count_of_def bt_get_insert)
  show ?thesis
    unfolding compute_node_counts_def Let_def
    by (simp only: ins counted(1) bt_sorted_insert counted(2)) simp
qed

lemma members_collected:
  "set (fold collect_part_nodes qs ns) = (\<Union>q \<in> set (concat (map part_preorder qs)). set (part_names q)) \<union> set ns"
  "bs_sorted ns \<Longrightarrow> bs_sorted (fold collect_part_nodes qs ns)"
proof -
  have one: "set (fold (\<lambda>part. fold bs_insert (part_names part)) ps ns) = (\<Union>q \<in> set ps. set (part_names q)) \<union> set ns" for ps ns
    by (induction ps arbitrary: ns) (auto simp: bset.members_fold)
  have srt: "bs_sorted ns \<Longrightarrow> bs_sorted (fold (\<lambda>part. fold bs_insert (part_names part)) ps ns)" for ps ns
    by (induction ps arbitrary: ns) (auto simp: bset.ordered_fold)
  show "set (fold collect_part_nodes qs ns) = (\<Union>q \<in> set (concat (map part_preorder qs)). set (part_names q)) \<union> set ns"
    by (induction qs arbitrary: ns) (auto simp: collect_part_nodes_def one parts.walk_preorder)
  show "bs_sorted ns \<Longrightarrow> bs_sorted (fold collect_part_nodes qs ns)"
    by (induction qs arbitrary: ns) (simp_all add: collect_part_nodes_def srt del: pop_parts.simps)
qed

lemma schema_nodes:
  "set (collect_schema_nodes pkg) =
     (\<Union>p \<in> set (package_preorder pkg). set (package_names p)) \<union> (\<Union>q \<in> set (all_parts_of pkg). set (part_names q))"
  "bs_sorted (collect_schema_nodes pkg)"
proof -
  have "set (fold (\<lambda>pk nodes. fold collect_part_nodes (pkg_part_defs pk) (fold bs_insert (package_names pk) nodes)) ps ns) =
      (\<Union>p \<in> set ps. set (package_names p)) \<union> (\<Union>q \<in> set (concat (map part_preorder (concat (map pkg_part_defs ps)))). set (part_names q)) \<union> set ns" for ps ns
    by (induction ps arbitrary: ns) (auto simp: members_collected(1) bset.members_fold)
  then show "set (collect_schema_nodes pkg) =
     (\<Union>p \<in> set (package_preorder pkg). set (package_names p)) \<union> (\<Union>q \<in> set (all_parts_of pkg). set (part_names q))"
    by (simp add: collect_schema_nodes_def packages.walk_preorder all_parts_of_def)
  have "bs_sorted ns \<Longrightarrow>
      bs_sorted (fold (\<lambda>pk nodes. fold collect_part_nodes (pkg_part_defs pk) (fold bs_insert (package_names pk) nodes)) ps ns)" for ps ns
    by (induction ps arbitrary: ns) (auto simp: members_collected(2) bset.ordered_fold)
  then show "bs_sorted (collect_schema_nodes pkg)" unfolding collect_schema_nodes_def by this simp
qed

text \<open>
  C37: The two traversals of a model count the same elements: the counts per kind add up to the number of
  structural elements, packages are counted once each, and the schema nodes are the sorted names, without
  repetition, of all packages, parts and members.
\<close>

theorem digest_counts_agree:
  "sum_list (map (count_of (compute_node_counts pkg)) element_keys) = count_structural_elements pkg \<and>
   count_of (compute_node_counts pkg) ''packages'' = length (package_preorder pkg) \<and>
   count_of (compute_node_counts pkg) ''containers'' = count_of (compute_node_counts pkg) ''part_defs'' \<and>
   sorted_wrt (<) (collect_schema_nodes pkg) \<and>
   set (collect_schema_nodes pkg) =
     (\<Union>p \<in> set (package_preorder pkg). set (package_names p)) \<union> (\<Union>q \<in> set (all_parts_of pkg). set (part_names q))"
proof (intro conjI)
  have "map (count_of (compute_node_counts pkg)) element_keys = map (\<lambda>k. total_for k (all_counts pkg)) element_keys"
    by (simp add: node_count element_keys_def)
  then have "sum_list (map (count_of (compute_node_counts pkg)) element_keys) = element_total (all_counts pkg)"
    unfolding element_total_def by (rule arg_cong)
  also have "\<dots> = (\<Sum>p \<leftarrow> package_preorder pkg. package_direct p + sum_list (map part_direct (concat (map part_preorder (pkg_part_defs p)))))"
    unfolding all_counts_def element_total_concat map_map o_def round_total ..
  also have "\<dots> = count_structural_elements pkg"
    unfolding count_structural all_parts_of_def sum_list_addf
  proof -
    have "(\<Sum>p\<leftarrow>ps. sum_list (map part_direct (concat (map part_preorder (pkg_part_defs p))))) =
        sum_list (map part_direct (concat (map part_preorder (concat (map pkg_part_defs ps)))))" for ps
      by (induction ps) auto
    then show "sum_list (map package_direct (package_preorder pkg)) +
        (\<Sum>p\<leftarrow>package_preorder pkg. sum_list (map part_direct (concat (map part_preorder (pkg_part_defs p))))) =
      sum_list (map package_direct (package_preorder pkg)) +
        sum_list (map part_direct (concat (map part_preorder (concat (map pkg_part_defs (package_preorder pkg))))))" by simp
  qed
  finally show "sum_list (map (count_of (compute_node_counts pkg)) element_keys) = count_structural_elements pkg" .
  show "count_of (compute_node_counts pkg) ''packages'' = length (package_preorder pkg)"
    using preorder_children [of pkg] by (simp add: node_count all_counts_def total_concat o_def round_total(2))
  show "count_of (compute_node_counts pkg) ''containers'' = count_of (compute_node_counts pkg) ''part_defs''"
    by (simp add: node_count)
  show "sorted_wrt (<) (collect_schema_nodes pkg)" using schema_nodes(2) by (simp add: bs_sorted_def)
  show "set (collect_schema_nodes pkg) =
     (\<Union>p \<in> set (package_preorder pkg). set (package_names p)) \<union> (\<Union>q \<in> set (all_parts_of pkg). set (part_names q))"
    by (rule schema_nodes(1))
qed

text \<open>
  The operational lists walk over definitions only: the action of a part usage inside a part is counted and
  named, and is no operational activity.
\<close>

definition arm_package :: PackageDef where
  "arm_package =
     (let arm = PartDef ''arm'' None False None [] [] [default_action\<lparr>action_name := ''Grip''\<rparr>] [] [] [] [] [] [] [] [] [] [] [] [] [] [] [] [] [] None;
          rover = PartDef ''Rover'' None True None [] [] [] [] [] [] [arm] [] [] [] [] [] [] [] [] [] [] [] [] [] None in
      PackageDef ''Robot'' None None [] [] [rover] [] [] [] [] [] [] [] [] [] [] [] [] [] [] [] [] [])"

theorem nested_usage_is_no_activity:
  "count_of (compute_node_counts arm_package) ''action_defs'' = 1 \<and>
   extract_operational_activities arm_package = [] \<and> map onode_name (extract_operational_nodes arm_package) = [''Rover'']"
proof -
  have "total_for ''action_defs'' (all_counts arm_package) = 1" by code_simp
  moreover have "extract_operational_activities arm_package = []" by code_simp
  moreover have "map onode_name (extract_operational_nodes arm_package) = [''Rover'']" by code_simp
  ultimately show ?thesis by (simp add: node_count)
qed

end
