(* ===== verification/Cst_Expr.thy ===== *)
theory Cst_Expr
  imports Cst_Tokens
begin

text \<open>
  The expression parser of the compiler's front end, \<^verbatim>\<open>compile-sysml/src/salsa_db/cst_expr.rs\<close>: precedence
  climbing over the token kinds, with one depth limit for nesting, chains of operators and chains of members.
  A parser takes what is left of that limit. The loop over the arguments of a call stops as \<open>Stuck\<close> when a
  round consumes nothing, where the code would go on for ever; it is proved never to. The conversion of an
  integer to a float is an argument, as are the texts of floats.
\<close>

section \<open>Expressions\<close>

datatype CstBinaryOp = Add | Sub | Mul | Div | Mod | Pow | Eq | NotEq | Lt | LtEq | Gt | GtEq | And | Or

datatype CstUnaryOp = Neg | Not

datatype CstExpr =
    EIdent string | ENumber f64 | EString string | EBool bool
  | EUnary CstUnaryOp CstExpr
  | EBinary CstBinaryOp CstExpr CstExpr
  | ECall string "CstExpr list"
  | EMember CstExpr string
  | ERaw string

fun binary_op_as_str :: "CstBinaryOp \<Rightarrow> string" where
  "binary_op_as_str Add = ''+''" | "binary_op_as_str Sub = ''-''" | "binary_op_as_str Mul = ''*''"
| "binary_op_as_str Div = ''/''" | "binary_op_as_str Mod = ''%''" | "binary_op_as_str Pow = ''^''"
| "binary_op_as_str Eq = ''==''" | "binary_op_as_str NotEq = ''!=''" | "binary_op_as_str Lt = ''<''"
| "binary_op_as_str LtEq = ''<=''" | "binary_op_as_str Gt = ''>''" | "binary_op_as_str GtEq = ''>=''"
| "binary_op_as_str And = ''and''" | "binary_op_as_str Or = ''or''"

fun unary_op_as_str :: "CstUnaryOp \<Rightarrow> string" where
  "unary_op_as_str Neg = ''-''" | "unary_op_as_str Not = ''not ''"

definition MAX_CST_EXPR_DEPTH :: nat where
  "MAX_CST_EXPR_DEPTH = 64"

fun to_string_repr_bounded :: "F64Text \<Rightarrow> nat \<Rightarrow> CstExpr \<Rightarrow> string" where
  "to_string_repr_bounded F 0 e = ''...''"
| "to_string_repr_bounded F (Suc n) e =
     (case e of
        EIdent name \<Rightarrow> name
      | ENumber val \<Rightarrow> real_text F val
      | EString s \<Rightarrow> [DQ] @ s @ [DQ]
      | EBool b \<Rightarrow> if b then ''true'' else ''false''
      | EUnary op x \<Rightarrow> unary_op_as_str op @ to_string_repr_bounded F n x
      | EBinary op l r \<Rightarrow>
          to_string_repr_bounded F n l @ '' '' @ binary_op_as_str op @ '' '' @ to_string_repr_bounded F n r
      | ECall f args \<Rightarrow> f @ ''('' @ join '', '' (map (to_string_repr_bounded F n) args) @ '')''
      | EMember obj m \<Rightarrow> to_string_repr_bounded F n obj @ ''.'' @ m
      | ERaw t \<Rightarrow> t)"

definition to_string_repr :: "F64Text \<Rightarrow> CstExpr \<Rightarrow> string" where
  "to_string_repr F e = to_string_repr_bounded F MAX_CST_EXPR_DEPTH e"

section \<open>Parsing\<close>

datatype ExprError =
    ExprTooDeep | UnexpectedEnd | ExpectedPrimary | UnexpectedExprToken TokenKind
  | NoMatchingParen | NoArgumentsParen string | NoFieldAfterDot | Stuck

definition peek_expr :: "TokenKind list \<Rightarrow> TokenKind option" where
  "peek_expr ts = (case ts of k # _ \<Rightarrow> if k = Eof then None else Some k | [] \<Rightarrow> None)"

fun binary_precedence :: "CstBinaryOp \<Rightarrow> nat \<times> bool" where
  "binary_precedence Or = (1, False)" | "binary_precedence And = (2, False)"
| "binary_precedence Eq = (3, False)" | "binary_precedence NotEq = (3, False)"
| "binary_precedence Lt = (4, False)" | "binary_precedence LtEq = (4, False)"
| "binary_precedence Gt = (4, False)" | "binary_precedence GtEq = (4, False)"
| "binary_precedence Add = (5, False)" | "binary_precedence Sub = (5, False)"
| "binary_precedence Mul = (6, False)" | "binary_precedence Div = (6, False)"
| "binary_precedence Mod = (6, False)" | "binary_precedence Pow = (7, True)"

definition binary_op_of :: "TokenKind \<Rightarrow> CstBinaryOp option" where
  "binary_op_of k =
     (case k of
        Sym SPlus \<Rightarrow> Some Add | Sym SMinus \<Rightarrow> Some Sub | Sym SStar \<Rightarrow> Some Mul | Sym SSlash \<Rightarrow> Some Div
      | Sym SPercent \<Rightarrow> Some Mod | Sym SCaret \<Rightarrow> Some Pow | Sym SEqEq \<Rightarrow> Some Eq | Sym SNotEq \<Rightarrow> Some NotEq
      | Sym SLt \<Rightarrow> Some Lt | Sym SLtEq \<Rightarrow> Some LtEq | Sym SGt \<Rightarrow> Some Gt | Sym SGtEq \<Rightarrow> Some GtEq
      | Sym SAmpAmp \<Rightarrow> Some And | Sym SPipePipe \<Rightarrow> Some Or
      | Ident s \<Rightarrow> if s = ''and'' then Some And else if s = ''or'' then Some Or else None
      | _ \<Rightarrow> None)"

definition peek_binary_op :: "TokenKind list \<Rightarrow> CstBinaryOp option" where
  "peek_binary_op ts = Option.bind (peek_expr ts) binary_op_of"

type_synonym 'a expr_result = "ExprError + 'a \<times> TokenKind list"

definition then_parse :: "'a expr_result \<Rightarrow> ('a \<Rightarrow> TokenKind list \<Rightarrow> 'b expr_result) \<Rightarrow> 'b expr_result" where
  "then_parse x f = (case x of Inl e \<Rightarrow> Inl e | Inr (a, r) \<Rightarrow> f a r)"

lemma then_parse_cong [fundef_cong]:
  "x = y \<Longrightarrow> (\<And>a r. y = Inr (a, r) \<Longrightarrow> f a r = g a r) \<Longrightarrow> then_parse x f = then_parse y g"
  by (auto simp: then_parse_def split: sum.split)

text \<open>The arguments of a call, from the one at hand, with the parser of an argument.\<close>

function parse_args :: "(TokenKind list \<Rightarrow> CstExpr expr_result) \<Rightarrow> string \<Rightarrow> CstExpr list \<Rightarrow> TokenKind list \<Rightarrow> CstExpr expr_result" where
  "parse_args arg f args ts =
     (if peek_expr ts \<noteq> Some (Sym SCloseParen) \<and> peek_expr ts \<noteq> None then
        then_parse (arg ts) (\<lambda>a r.
          if peek_expr r = Some (Sym SComma) then
            (if length (tl r) < length ts then parse_args arg f (args @ [a]) (tl r) else Inl Stuck)
          else if peek_expr r = Some (Sym SCloseParen) then Inr (ECall f (args @ [a]), tl r)
          else Inl (NoArgumentsParen f))
      else if peek_expr ts = Some (Sym SCloseParen) then Inr (ECall f args, tl ts)
      else Inl (NoArgumentsParen f))"
  by auto
termination by (relation "measure (\<lambda>(arg, f, args, ts). length ts)") auto

declare parse_args.simps [simp del]

lemma parse_args_cong [fundef_cong]:
  assumes "\<And>ts. arg ts = arg' ts" "f = f'" "args = args'" "ts = ts'"
  shows "parse_args arg f args ts = parse_args arg' f' args' ts'"
proof -
  have "arg = arg'" using assms(1) by (rule ext)
  with assms show ?thesis by simp
qed

fun parse_member_chain :: "nat \<Rightarrow> CstExpr \<Rightarrow> TokenKind list \<Rightarrow> CstExpr expr_result" where
  "parse_member_chain n e ts =
     (if peek_expr ts = Some (Sym SDot) then
        (if n \<le> 1 then Inl ExprTooDeep
         else case peek_expr (tl ts) of
             Some (Ident field) \<Rightarrow> parse_member_chain (n - 1) (EMember e field) (tl (tl ts))
           | _ \<Rightarrow> Inl NoFieldAfterDot)
      else Inr (e, ts))"

declare parse_member_chain.simps [simp del]

text \<open>\<open>n\<close> is what is left of the limit, none for the depth error; \<open>conv\<close> is the conversion of an integer.\<close>

function (sequential)
  parse_binary_expr :: "(int \<Rightarrow> f64) \<Rightarrow> nat \<Rightarrow> nat \<Rightarrow> TokenKind list \<Rightarrow> CstExpr expr_result"
  and continue_binary :: "(int \<Rightarrow> f64) \<Rightarrow> nat \<Rightarrow> nat \<Rightarrow> CstExpr \<Rightarrow> TokenKind list \<Rightarrow> CstExpr expr_result"
  and parse_unary_or_primary :: "(int \<Rightarrow> f64) \<Rightarrow> nat \<Rightarrow> TokenKind list \<Rightarrow> CstExpr expr_result"
  and parse_primary :: "(int \<Rightarrow> f64) \<Rightarrow> nat \<Rightarrow> TokenKind list \<Rightarrow> CstExpr expr_result" where
  "parse_binary_expr conv n min_precedence ts =
     (if n = 0 then Inl ExprTooDeep
      else then_parse (parse_unary_or_primary conv n ts) (\<lambda>left r. continue_binary conv n min_precedence left r))"
| "continue_binary conv n min_precedence left ts =
     (case peek_binary_op ts of
        None \<Rightarrow> Inr (left, ts)
      | Some op \<Rightarrow>
          (let (prec, assoc_right) = binary_precedence op in
           if prec < min_precedence then Inr (left, ts)
           else if n \<le> 1 then Inl ExprTooDeep
           else then_parse (parse_binary_expr conv (n - 1) (if assoc_right then prec else prec + 1) (tl ts))
             (\<lambda>right r. continue_binary conv (n - 1) min_precedence (EBinary op left right) r)))"
| "parse_unary_or_primary conv n ts =
     (if n = 0 then Inl ExprTooDeep
      else case peek_expr ts of
        None \<Rightarrow> Inl UnexpectedEnd
      | Some (Sym SMinus) \<Rightarrow> then_parse (parse_unary_or_primary conv (n - 1) (tl ts)) (\<lambda>e r. Inr (EUnary Neg e, r))
      | Some (Sym SExclamation) \<Rightarrow> then_parse (parse_unary_or_primary conv (n - 1) (tl ts)) (\<lambda>e r. Inr (EUnary Not e, r))
      | Some _ \<Rightarrow> parse_primary conv n ts)"
| "parse_primary conv n ts =
     (if n = 0 then Inl ExprTooDeep
      else case peek_expr ts of
        None \<Rightarrow> Inl ExpectedPrimary
      | Some tok \<Rightarrow>
          then_parse
            (case tok of
               IntLit i \<Rightarrow> Inr (ENumber (conv i), tl ts)
             | RealLit f \<Rightarrow> Inr (ENumber f, tl ts)
             | StringLit s \<Rightarrow> Inr (EString s, tl ts)
             | BoolLit b \<Rightarrow> Inr (EBool b, tl ts)
             | Ident name \<Rightarrow>
                 if peek_expr (tl ts) = Some (Sym SOpenParen)
                 then parse_args (\<lambda>ts. parse_binary_expr conv (n - 1) 0 ts) name [] (tl (tl ts))
                 else Inr (EIdent name, tl ts)
             | Sym SOpenParen \<Rightarrow>
                 then_parse (parse_binary_expr conv (n - 1) 0 (tl ts)) (\<lambda>inner r.
                   if peek_expr r = Some (Sym SCloseParen) then Inr (inner, tl r) else Inl NoMatchingParen)
             | _ \<Rightarrow> Inl (UnexpectedExprToken tok))
            (\<lambda>e r. parse_member_chain n e r))"
  by pat_completeness auto
termination
  by (relation "measures
      [\<lambda>x. case x of Inl (Inl (c, n, m, ts)) \<Rightarrow> n | Inl (Inr (c, n, m, l, ts)) \<Rightarrow> n | Inr (Inl (c, n, ts)) \<Rightarrow> n | Inr (Inr (c, n, ts)) \<Rightarrow> n,
       \<lambda>x. case x of Inl (Inl _) \<Rightarrow> 2 | Inl (Inr _) \<Rightarrow> 1 | Inr (Inl _) \<Rightarrow> 1 | Inr (Inr _) \<Rightarrow> 0]") auto

declare parse_binary_expr.simps [simp del] continue_binary.simps [simp del] parse_unary_or_primary.simps [simp del]
  parse_primary.simps [simp del]

definition parse_expression :: "(int \<Rightarrow> f64) \<Rightarrow> Token list \<Rightarrow> ExprError + CstExpr" where
  "parse_expression conv tokens =
     (case parse_binary_expr conv MAX_CST_EXPR_DEPTH 0 (map tok_kind tokens) of Inl e \<Rightarrow> Inl e | Inr (e, _) \<Rightarrow> Inr e)"

section \<open>What a parse reads\<close>

text \<open>
  The grammar the parser is meant to read, by levels: 1 to 7 for the binary operators as in
  \<open>binary_precedence\<close>, 8 for the prefix operators, 9 for the postfix member access. \<open>reads conv p e ks\<close>: the
  tokens \<open>ks\<close> spell \<open>e\<close> with no operator below the level \<open>p\<close> outside parentheses.
\<close>

definition left_level :: "CstBinaryOp \<Rightarrow> nat" where
  "left_level op = (let (q, right) = binary_precedence op in if right then q + 1 else q)"

definition right_level :: "CstBinaryOp \<Rightarrow> nat" where
  "right_level op = (let (q, right) = binary_precedence op in if right then q else q + 1)"

inductive reads :: "(int \<Rightarrow> f64) \<Rightarrow> nat \<Rightarrow> CstExpr \<Rightarrow> TokenKind list \<Rightarrow> bool"
  and reads_args :: "(int \<Rightarrow> f64) \<Rightarrow> CstExpr list \<Rightarrow> TokenKind list \<Rightarrow> bool" for conv where
  reads_int [intro!]: "reads conv p (ENumber (conv i)) [IntLit i]"
| reads_real [intro!]: "reads conv p (ENumber f) [RealLit f]"
| reads_string [intro!]: "reads conv p (EString s) [StringLit s]"
| reads_bool [intro!]: "reads conv p (EBool b) [BoolLit b]"
| reads_ident [intro!]: "reads conv p (EIdent s) [Ident s]"
| reads_call: "reads_args conv es ks \<Longrightarrow> reads conv p (ECall f es) (Ident f # Sym SOpenParen # ks @ [Sym SCloseParen])"
| reads_paren: "reads conv 0 e ks \<Longrightarrow> reads conv p e (Sym SOpenParen # ks @ [Sym SCloseParen])"
| reads_member: "reads conv 9 e ks \<Longrightarrow> p \<le> 9 \<Longrightarrow> reads conv p (EMember e m) (ks @ [Sym SDot, Ident m])"
| reads_neg: "reads conv 8 e ks \<Longrightarrow> p \<le> 8 \<Longrightarrow> reads conv p (EUnary Neg e) (Sym SMinus # ks)"
| reads_not: "reads conv 8 e ks \<Longrightarrow> p \<le> 8 \<Longrightarrow> reads conv p (EUnary Not e) (Sym SExclamation # ks)"
| reads_binary: "binary_op_of k = Some op \<Longrightarrow> p \<le> fst (binary_precedence op) \<Longrightarrow>
    reads conv (left_level op) l ks \<Longrightarrow> reads conv (right_level op) r ks' \<Longrightarrow>
    reads conv p (EBinary op l r) (ks @ k # ks')"
| reads_no_args: "reads_args conv [] []"
| reads_last_arg: "reads conv 0 e ks \<Longrightarrow> reads_args conv [e] ks"
| reads_next_arg: "reads conv 0 e ks \<Longrightarrow> reads_args conv es ks' \<Longrightarrow> reads_args conv (e # es) (ks @ Sym SComma # ks')"

lemma reads_lower: "reads conv p e ks \<Longrightarrow> q \<le> p \<Longrightarrow> reads conv q e ks"
  by (cases rule: reads.cases, assumption) (auto intro: reads_reads_args.intros)

lemma reads_nonempty: "reads conv p e ks \<Longrightarrow> ks \<noteq> []"
  by (cases rule: reads.cases, assumption) auto

text \<open>What follows has no operator that the loop at level \<open>p\<close> would take.\<close>

definition stops :: "nat \<Rightarrow> TokenKind list \<Rightarrow> bool" where
  "stops p r = (\<forall>op. peek_binary_op r = Some op \<longrightarrow> fst (binary_precedence op) < p)"

text \<open>The result read a prefix of the tokens that satisfies \<open>Q\<close>; an error is not the endless loop.\<close>

definition reads_prefix :: "('a \<Rightarrow> TokenKind list \<Rightarrow> TokenKind list \<Rightarrow> bool) \<Rightarrow> TokenKind list \<Rightarrow> 'a expr_result \<Rightarrow> bool" where
  "reads_prefix Q ts x = (case x of Inl e \<Rightarrow> e \<noteq> Stuck | Inr (e, r) \<Rightarrow> \<exists>u. ts = u @ r \<and> Q e u r)"

lemma reads_prefix_simps [simp]:
  "reads_prefix Q ts (Inl err) = (err \<noteq> Stuck)"
  "reads_prefix Q ts (Inr (e, r)) = (\<exists>u. ts = u @ r \<and> Q e u r)"
  by (auto simp: reads_prefix_def)

lemma reads_prefix_then:
  assumes "reads_prefix Q ts x" "\<And>e u r. Q e u r \<Longrightarrow> ts = u @ r \<Longrightarrow> x = Inr (e, r) \<Longrightarrow> reads_prefix (\<lambda>e' u' r'. R e' (u @ u') r') r (f e r)"
  shows "reads_prefix R ts (then_parse x f)"
proof (cases x)
  case (Inl e)
  with assms(1) show ?thesis by (simp add: then_parse_def)
next
  case (Inr y)
  obtain e r where y: "y = (e, r)" by (cases y)
  with assms(1) Inr obtain u where u: "ts = u @ r" "Q e u r" by auto
  have "reads_prefix (\<lambda>e' u' r'. R e' (u @ u') r') r (f e r)" using assms(2) u Inr y by blast
  with u Inr y show ?thesis by (auto simp: then_parse_def reads_prefix_def split: sum.splits prod.splits)
qed

lemma reads_prefix_after:
  assumes "reads_prefix Q r x" "ts = v @ r" "\<And>e u r'. Q e u r' \<Longrightarrow> R e (v @ u) r'"
  shows "reads_prefix R ts x"
  using assms by (auto simp: reads_prefix_def split: sum.splits prod.splits)

lemma peek_expr_SomeD: "peek_expr ts = Some k \<Longrightarrow> ts = k # tl ts"
  by (cases ts) (auto simp: peek_expr_def split: if_splits)

lemma close_read:
  assumes "peek_expr r = Some (Sym SCloseParen)" "reads_args conv es ks"
  shows "\<exists>u. r = u @ tl r \<and> (\<exists>es' ks'. ks @ u = ks' @ [Sym SCloseParen] \<and> reads_args conv es' ks' \<and> ECall f (args @ es) = ECall f (args @ es'))"
  using assms peek_expr_SomeD[of r "Sym SCloseParen"]
  by (intro exI[of _ "[Sym SCloseParen]"] conjI exI[of _ es] exI[of _ ks]) auto

lemma args_read:
  assumes "\<And>ts. reads_prefix (\<lambda>e u r. reads conv 0 e u) ts (arg ts)"
  shows "reads_prefix (\<lambda>e u r. \<exists>es ks. u = ks @ [Sym SCloseParen] \<and> reads_args conv es ks \<and> e = ECall f (args @ es))
    ts (parse_args arg f args ts)"
  using assms
proof (induction arg f args ts rule: parse_args.induct)
  case (1 arg f args ts)
  show ?case
  proof (cases "peek_expr ts = Some (Sym SCloseParen) \<or> peek_expr ts = None")
    case True
    then show ?thesis
      using close_read[of ts conv "[]" "[]" f args] by (subst parse_args.simps) (auto intro: reads_no_args)
  next
    case False
    have "reads_prefix (\<lambda>e u r. reads conv 0 e u) ts (arg ts)" by (rule "1.prems")
    then have "reads_prefix (\<lambda>e u r. \<exists>es ks. u = ks @ [Sym SCloseParen] \<and> reads_args conv es ks \<and> e = ECall f (args @ es)) ts
      (then_parse (arg ts) (\<lambda>a r. if peek_expr r = Some (Sym SComma) then
            (if length (tl r) < length ts then parse_args arg f (args @ [a]) (tl r) else Inl Stuck)
          else if peek_expr r = Some (Sym SCloseParen) then Inr (ECall f (args @ [a]), tl r)
          else Inl (NoArgumentsParen f)))"
    proof (rule reads_prefix_then)
      fix a u r assume a: "reads conv 0 a u" and ts: "ts = u @ r" and eq: "arg ts = Inr (a, r)"
      consider (comma) "peek_expr r = Some (Sym SComma)" | (close) "peek_expr r = Some (Sym SCloseParen)"
        | (other) "peek_expr r \<noteq> Some (Sym SComma)" "peek_expr r \<noteq> Some (Sym SCloseParen)" by blast
      then show "reads_prefix (\<lambda>e' u' r'. \<exists>es ks. u @ u' = ks @ [Sym SCloseParen] \<and> reads_args conv es ks \<and> e' = ECall f (args @ es)) r
        (if peek_expr r = Some (Sym SComma) then
            (if length (tl r) < length ts then parse_args arg f (args @ [a]) (tl r) else Inl Stuck)
          else if peek_expr r = Some (Sym SCloseParen) then Inr (ECall f (args @ [a]), tl r)
          else Inl (NoArgumentsParen f))"
      proof cases
        case comma
        then have r: "r = Sym SComma # tl r" by (rule peek_expr_SomeD)
        have len: "length (tl r) < length ts" using ts r by (metis length_append length_Cons add_strict_increasing2 lessI trans_less_add2)
        have "reads_prefix (\<lambda>e u r. \<exists>es ks. u = ks @ [Sym SCloseParen] \<and> reads_args conv es ks \<and> e = ECall f ((args @ [a]) @ es))
          (tl r) (parse_args arg f (args @ [a]) (tl r))"
          using "1.IH"[of a r] eq False comma len "1.prems" by simp
        then have "reads_prefix (\<lambda>e' u' r'. \<exists>es ks. u @ u' = ks @ [Sym SCloseParen] \<and> reads_args conv es ks \<and> e' = ECall f (args @ es))
          r (parse_args arg f (args @ [a]) (tl r))"
        proof (rule reads_prefix_after[where v = "[Sym SComma]"])
          show "r = [Sym SComma] @ tl r" using r by simp
          fix e' u' r' assume "\<exists>es ks. u' = ks @ [Sym SCloseParen] \<and> reads_args conv es ks \<and> e' = ECall f ((args @ [a]) @ es)"
          then obtain es ks where "u' = ks @ [Sym SCloseParen]" "reads_args conv es ks" "e' = ECall f ((args @ [a]) @ es)" by blast
          then show "\<exists>es ks. u @ [Sym SComma] @ u' = ks @ [Sym SCloseParen] \<and> reads_args conv es ks \<and> e' = ECall f (args @ es)"
            using reads_next_arg[OF a] by (intro exI[of _ "a # es"] exI[of _ "u @ Sym SComma # ks"]) simp
        qed
        then show ?thesis using comma len by simp
      next
        case close
        then show ?thesis using close_read[OF close reads_last_arg[OF a], of f args] by simp
      next
        case other
        then show ?thesis by simp
      qed
    qed
    with False show ?thesis by (subst parse_args.simps) simp
  qed
qed

lemma member_read:
  assumes "reads conv 9 e u0"
  shows "reads_prefix (\<lambda>e' u r. reads conv 9 e' (u0 @ u)) ts (parse_member_chain n e ts)"
  using assms
proof (induction n e ts arbitrary: u0 rule: parse_member_chain.induct)
  case (1 n e ts)
  show ?case
  proof (cases "peek_expr ts = Some (Sym SDot) \<and> \<not> n \<le> 1 \<and> (\<exists>m. peek_expr (tl ts) = Some (Ident m))")
    case True
    then obtain m where m: "peek_expr (tl ts) = Some (Ident m)" by blast
    with True have ts: "ts = Sym SDot # Ident m # tl (tl ts)" using peek_expr_SomeD by metis
    have "reads_prefix (\<lambda>e' u r. reads conv 9 e' ((u0 @ [Sym SDot, Ident m]) @ u)) (tl (tl ts))
      (parse_member_chain (n - 1) (EMember e m) (tl (tl ts)))"
      by (rule "1.IH") (use True m "1.prems" in \<open>auto intro: reads_member\<close>)
    then have "reads_prefix (\<lambda>e' u r. reads conv 9 e' (u0 @ u)) ts (parse_member_chain (n - 1) (EMember e m) (tl (tl ts)))"
      by (rule reads_prefix_after[where v = "[Sym SDot, Ident m]"]) (use ts in auto)
    then show ?thesis using True m by (subst parse_member_chain.simps) simp
  next
    case False
    with "1.prems" show ?thesis
      by (subst parse_member_chain.simps) (auto split: option.splits TokenKind.splits)
  qed
qed

lemma operator_fits: "fst (binary_precedence op2) < right_level op \<Longrightarrow> left_level op2 \<le> fst (binary_precedence op)"
  by (cases op; cases op2) (simp_all add: right_level_def left_level_def)

lemma right_level_le: "right_level op \<le> 8"
  by (cases op) (simp_all add: right_level_def)

lemma left_level_le: "left_level op \<le> 8"
  by (cases op) (simp_all add: left_level_def)

text \<open>What the four parsers do with \<open>n\<close> left.\<close>

definition binary_reads :: "(int \<Rightarrow> f64) \<Rightarrow> nat \<Rightarrow> bool" where
  "binary_reads conv n = (\<forall>p ts. p \<le> 8 \<longrightarrow>
     reads_prefix (\<lambda>e u r. reads conv p e u \<and> stops p r) ts (parse_binary_expr conv n p ts))"

definition loop_reads :: "(int \<Rightarrow> f64) \<Rightarrow> nat \<Rightarrow> bool" where
  "loop_reads conv n = (\<forall>p left u0 ts. reads conv p left u0 \<longrightarrow>
     (\<forall>op. peek_binary_op ts = Some op \<longrightarrow> p \<le> fst (binary_precedence op) \<longrightarrow> reads conv (left_level op) left u0) \<longrightarrow>
     reads_prefix (\<lambda>e u r. reads conv p e (u0 @ u) \<and> stops p r) ts (continue_binary conv n p left ts))"

definition unary_reads :: "(int \<Rightarrow> f64) \<Rightarrow> nat \<Rightarrow> bool" where
  "unary_reads conv n = (\<forall>ts. reads_prefix (\<lambda>e u r. reads conv 8 e u) ts (parse_unary_or_primary conv n ts))"

definition primary_reads :: "(int \<Rightarrow> f64) \<Rightarrow> nat \<Rightarrow> bool" where
  "primary_reads conv n = (\<forall>ts. reads_prefix (\<lambda>e u r. reads conv 9 e u) ts (parse_primary conv n ts))"

lemma stops_none: "peek_binary_op r = None \<Longrightarrow> stops p r"
  by (simp add: stops_def)

lemma peek_binary_opD: "peek_binary_op ts = Some op \<Longrightarrow> \<exists>k. ts = k # tl ts \<and> binary_op_of k = Some op"
  using peek_expr_SomeD by (fastforce simp: peek_binary_op_def bind_eq_Some_conv)

lemma binary_step:
  assumes "unary_reads conv n" "loop_reads conv n"
  shows "binary_reads conv n"
  unfolding binary_reads_def
proof (intro allI impI)
  fix p :: nat and ts assume p: "p \<le> 8"
  have "reads_prefix (\<lambda>e u r. reads conv 8 e u) ts (parse_unary_or_primary conv n ts)"
    using assms(1) by (simp add: unary_reads_def)
  then have "reads_prefix (\<lambda>e u r. reads conv p e u \<and> stops p r) ts
    (then_parse (parse_unary_or_primary conv n ts) (\<lambda>left r. continue_binary conv n p left r))"
  proof (rule reads_prefix_then)
    fix e u r assume e: "reads conv 8 e u"
    with assms(2) p left_level_le show "reads_prefix (\<lambda>e' u' r'. reads conv p e' (u @ u') \<and> stops p r') r (continue_binary conv n p e r)"
      unfolding loop_reads_def using reads_lower by blast
  qed
  then show "reads_prefix (\<lambda>e u r. reads conv p e u \<and> stops p r) ts (parse_binary_expr conv n p ts)"
    by (subst parse_binary_expr.simps) simp
qed

lemma continue_binary_eq:
  "continue_binary conv n p left ts =
     (case peek_binary_op ts of
        None \<Rightarrow> Inr (left, ts)
      | Some op \<Rightarrow>
          if fst (binary_precedence op) < p then Inr (left, ts)
          else if n \<le> 1 then Inl ExprTooDeep
          else then_parse (parse_binary_expr conv (n - 1) (right_level op) (tl ts))
             (\<lambda>right r. continue_binary conv (n - 1) p (EBinary op left right) r))"
  by (subst continue_binary.simps) (auto simp: right_level_def Let_def split: option.split prod.split)

lemma loop_step:
  assumes b: "binary_reads conv (n - 1)" and l: "n > 1 \<Longrightarrow> loop_reads conv (n - 1)"
  shows "loop_reads conv n"
  unfolding loop_reads_def
proof (intro allI impI)
  fix p left u0 ts
  let ?R = "\<lambda>e u r. reads conv p e (u0 @ u) \<and> stops p r"
  assume left: "reads conv p left u0"
    and fits: "\<forall>op. peek_binary_op ts = Some op \<longrightarrow> p \<le> fst (binary_precedence op) \<longrightarrow> reads conv (left_level op) left u0"
  show "reads_prefix ?R ts (continue_binary conv n p left ts)"
  proof (cases "\<exists>op. peek_binary_op ts = Some op \<and> p \<le> fst (binary_precedence op) \<and> n > 1")
    case False
    with left show ?thesis
      by (cases "peek_binary_op ts") (auto simp: continue_binary_eq stops_def)
  next
    case True
    then obtain op where op: "peek_binary_op ts = Some op" "p \<le> fst (binary_precedence op)" "n > 1" by blast
    then obtain k where k: "ts = k # tl ts" "binary_op_of k = Some op" using peek_binary_opD by blast
    have left': "reads conv (left_level op) left u0" using fits op by blast
    have "reads_prefix (\<lambda>e u r. reads conv (right_level op) e u \<and> stops (right_level op) r) (tl ts)
        (parse_binary_expr conv (n - 1) (right_level op) (tl ts))"
      using b right_level_le by (simp add: binary_reads_def)
    then have "reads_prefix (\<lambda>e u r. ?R e (k # u) r) (tl ts)
      (then_parse (parse_binary_expr conv (n - 1) (right_level op) (tl ts))
        (\<lambda>right r. continue_binary conv (n - 1) p (EBinary op left right) r))"
    proof (rule reads_prefix_then)
      fix right u r assume right: "reads conv (right_level op) right u \<and> stops (right_level op) r"
      have new: "reads conv q (EBinary op left right) (u0 @ k # u)" if "q \<le> fst (binary_precedence op)" for q
        using reads_binary[OF k(2) that left'] right by blast
      have "reads conv (left_level op2) (EBinary op left right) (u0 @ k # u)" if "peek_binary_op r = Some op2" for op2
        using new operator_fits right that unfolding stops_def by blast
      with new[OF op(2)] l[OF op(3)]
      have "reads_prefix (\<lambda>e v r. reads conv p e ((u0 @ k # u) @ v) \<and> stops p r) r
          (continue_binary conv (n - 1) p (EBinary op left right) r)"
        unfolding loop_reads_def by blast
      then show "reads_prefix (\<lambda>e v r. ?R e (k # u @ v) r) r (continue_binary conv (n - 1) p (EBinary op left right) r)"
        by simp
    qed
    then have "reads_prefix ?R ts
      (then_parse (parse_binary_expr conv (n - 1) (right_level op) (tl ts))
        (\<lambda>right r. continue_binary conv (n - 1) p (EBinary op left right) r))"
      by (rule reads_prefix_after[where v = "[k]"]) (use k in auto)
    with op show ?thesis
      by (subst continue_binary_eq) auto
  qed
qed

lemma unary_step:
  assumes "n > 0 \<Longrightarrow> unary_reads conv (n - 1)" "primary_reads conv n"
  shows "unary_reads conv n"
  unfolding unary_reads_def
proof
  fix ts
  let ?R = "\<lambda>e u r. reads conv 8 e u"
  have signed: "reads_prefix ?R ts (then_parse (parse_unary_or_primary conv (n - 1) (tl ts)) (\<lambda>e r. Inr (EUnary op e, r)))"
    if n: "n > 0" and k: "peek_expr ts = Some k" "\<And>e ks. reads conv 8 e ks \<Longrightarrow> reads conv 8 (EUnary op e) (k # ks)" for k op
  proof (rule reads_prefix_after[where v = "[k]"])
    have "reads_prefix ?R (tl ts) (parse_unary_or_primary conv (n - 1) (tl ts))"
      using assms(1)[OF n] by (simp add: unary_reads_def)
    then show "reads_prefix (\<lambda>e u r. reads conv 8 e (k # u)) (tl ts)
        (then_parse (parse_unary_or_primary conv (n - 1) (tl ts)) (\<lambda>e r. Inr (EUnary op e, r)))"
      by (rule reads_prefix_then) (simp add: k(2))
  qed (use peek_expr_SomeD[OF k(1)] in auto)
  have "reads_prefix ?R ts (parse_primary conv n ts)"
  proof (rule reads_prefix_after[where v = "[]"])
    show "reads_prefix (\<lambda>e u r. reads conv 9 e u) ts (parse_primary conv n ts)"
      using assms(2) by (simp add: primary_reads_def)
  qed (auto intro: reads_lower)
  then show "reads_prefix ?R ts (parse_unary_or_primary conv n ts)"
    using signed[of "Sym SMinus" Neg] signed[of "Sym SExclamation" Not]
    by (subst parse_unary_or_primary.simps) (auto intro: reads_neg reads_not split: option.splits TokenKind.splits Symbol.splits)
qed

lemma primary_step:
  assumes b: "binary_reads conv (n - 1)"
  shows "primary_reads conv n"
  unfolding primary_reads_def
proof
  fix ts
  let ?R = "\<lambda>e u r. reads conv 9 e u"
  have start: "reads_prefix ?R ts (then_parse x (\<lambda>e r. parse_member_chain n e r))" if "reads_prefix ?R ts x" for x
    using that by (rule reads_prefix_then) (rule member_read)
  have inner: "reads_prefix (\<lambda>e u r. reads conv 0 e u) r (parse_binary_expr conv (n - 1) 0 r)" for r
  proof (rule reads_prefix_after[where v = "[]"])
    show "reads_prefix (\<lambda>e u r. reads conv 0 e u \<and> stops 0 r) r (parse_binary_expr conv (n - 1) 0 r)"
      using b by (simp add: binary_reads_def)
  qed auto
  have call: "reads_prefix ?R ts (parse_args (\<lambda>ts. parse_binary_expr conv (n - 1) 0 ts) f [] (tl (tl ts)))"
    if "peek_expr ts = Some (Ident f)" "peek_expr (tl ts) = Some (Sym SOpenParen)" for f
    by (rule reads_prefix_after[where v = "[Ident f, Sym SOpenParen]", OF args_read[OF inner]])
      (use that peek_expr_SomeD in \<open>auto intro: reads_call\<close>)
  have paren: "reads_prefix ?R ts (then_parse (parse_binary_expr conv (n - 1) 0 (tl ts)) (\<lambda>inner r.
      if peek_expr r = Some (Sym SCloseParen) then Inr (inner, tl r) else Inl NoMatchingParen))"
    if "peek_expr ts = Some (Sym SOpenParen)"
  proof (rule reads_prefix_after[where v = "[Sym SOpenParen]"])
    show "reads_prefix (\<lambda>e u r. reads conv 9 e (Sym SOpenParen # u)) (tl ts)
      (then_parse (parse_binary_expr conv (n - 1) 0 (tl ts)) (\<lambda>inner r.
        if peek_expr r = Some (Sym SCloseParen) then Inr (inner, tl r) else Inl NoMatchingParen))"
      by (rule reads_prefix_then[OF inner]) (auto dest: peek_expr_SomeD reads_paren intro!: exI[of _ "[Sym SCloseParen]"])
  qed (use that peek_expr_SomeD in auto)
  have single: "reads_prefix ?R ts (Inr (e, tl ts))" if "peek_expr ts = Some k" "reads conv 9 e [k]" for e k
    using that peek_expr_SomeD[OF that(1)] by (auto intro!: exI[of _ "[k]"])
  show "reads_prefix ?R ts (parse_primary conv n ts)"
  proof (cases "peek_expr ts")
    case None
    then show ?thesis by (subst parse_primary.simps) simp
  next
    case (Some k)
    then show ?thesis
      by (cases k; subst parse_primary.simps) (auto simp del: One_nat_def intro!: start single call paren split: Symbol.splits)
  qed
qed

lemma parsers_read:
  "primary_reads conv n \<and> unary_reads conv n \<and> loop_reads conv n \<and> binary_reads conv n"
proof (induction n rule: less_induct)
  case (less n)
  have b0: "binary_reads conv 0"
    unfolding binary_reads_def by (subst parse_binary_expr.simps) simp
  have b: "binary_reads conv (n - 1)"
    using less b0 by (cases n) auto
  have p: "primary_reads conv n" by (rule primary_step[OF b])
  have u: "unary_reads conv n" by (rule unary_step[OF _ p]) (use less in auto)
  have l: "loop_reads conv n" by (rule loop_step[OF b]) (use less in auto)
  show ?case using p u l binary_step[OF u l] by blast
qed

text \<open>
  C38: The expression parser returns on every list of tokens, and when it accepts, the expression is spelled by
  a prefix of the tokens as the operator levels require: every operator binds its operands as its precedence
  and its associativity say, and what is left over does not go on with an operator.
\<close>

theorem parsed_expression_is_read:
  "parse_expression conv tokens \<noteq> Inl Stuck \<and>
   (\<forall>e. parse_expression conv tokens = Inr e \<longrightarrow>
     (\<exists>used rest. map tok_kind tokens = used @ rest \<and> reads conv 0 e used \<and> peek_binary_op rest = None))"
proof -
  have "reads_prefix (\<lambda>e u r. reads conv 0 e u \<and> stops 0 r) (map tok_kind tokens)
      (parse_binary_expr conv MAX_CST_EXPR_DEPTH 0 (map tok_kind tokens))"
    using parsers_read[of conv MAX_CST_EXPR_DEPTH] by (simp add: binary_reads_def)
  then show ?thesis
    by (auto simp: parse_expression_def stops_def reads_prefix_def split: sum.splits prod.splits)
qed

section \<open>Writing expressions with parentheses\<close>

text \<open>
  The tokens of an expression with every operation in parentheses, and what they cost of the depth limit:
  a pair of parentheses costs one, an operator one more for its right operand.
\<close>

fun sep_tokens :: "TokenKind list list \<Rightarrow> TokenKind list" where
  "sep_tokens [] = []"
| "sep_tokens [x] = x"
| "sep_tokens (x # y # xs) = x @ Sym SComma # sep_tokens (y # xs)"

fun op_token :: "CstBinaryOp \<Rightarrow> TokenKind" where
  "op_token Add = Sym SPlus" | "op_token Sub = Sym SMinus" | "op_token Mul = Sym SStar" | "op_token Div = Sym SSlash"
| "op_token Mod = Sym SPercent" | "op_token Pow = Sym SCaret" | "op_token Eq = Sym SEqEq" | "op_token NotEq = Sym SNotEq"
| "op_token Lt = Sym SLt" | "op_token LtEq = Sym SLtEq" | "op_token Gt = Sym SGt" | "op_token GtEq = Sym SGtEq"
| "op_token And = Ident ''and''" | "op_token Or = Ident ''or''"

fun unary_token :: "CstUnaryOp \<Rightarrow> TokenKind" where
  "unary_token Neg = Sym SMinus" | "unary_token Not = Sym SExclamation"

fun paren_tokens :: "CstExpr \<Rightarrow> TokenKind list" where
  "paren_tokens (EIdent s) = [Ident s]"
| "paren_tokens (ENumber f) = [RealLit f]"
| "paren_tokens (EString s) = [StringLit s]"
| "paren_tokens (EBool b) = [BoolLit b]"
| "paren_tokens (EUnary op e) = Sym SOpenParen # unary_token op # paren_tokens e @ [Sym SCloseParen]"
| "paren_tokens (EBinary op l r) = Sym SOpenParen # paren_tokens l @ op_token op # paren_tokens r @ [Sym SCloseParen]"
| "paren_tokens (ECall f es) = Ident f # Sym SOpenParen # sep_tokens (map paren_tokens es) @ [Sym SCloseParen]"
| "paren_tokens (EMember e m) = Sym SOpenParen # paren_tokens e @ [Sym SCloseParen, Sym SDot, Ident m]"
| "paren_tokens (ERaw t) = []"

fun depth_cost :: "CstExpr \<Rightarrow> nat" where
  "depth_cost (EUnary op e) = depth_cost e + 2"
| "depth_cost (EBinary op l r) = max (depth_cost l + 1) (depth_cost r + 2)"
| "depth_cost (ECall f es) = Suc (foldr max (map depth_cost es) 0)"
| "depth_cost (EMember e m) = depth_cost e + 1"
| "depth_cost _ = 1"

fun without_raw :: "CstExpr \<Rightarrow> bool" where
  "without_raw (EUnary op e) = without_raw e"
| "without_raw (EBinary op l r) = (without_raw l \<and> without_raw r)"
| "without_raw (ECall f es) = list_all without_raw es"
| "without_raw (EMember e m) = without_raw e"
| "without_raw (ERaw t) = False"
| "without_raw _ = True"

lemma depth_cost_positive: "0 < depth_cost e"
  by (cases e) auto

lemma depth_cost_arg: "x \<in> set es \<Longrightarrow> depth_cost x \<le> foldr max (map depth_cost es) 0"
  by (induction es) auto

lemma op_token_simps [simp]: "op_token op \<noteq> Eof" "binary_op_of (op_token op) = Some op"
    "op_token op \<noteq> Sym SDot" "op_token op \<noteq> Sym SOpenParen"
  by (cases op; simp add: binary_op_of_def)+

lemma peek_expr_Cons [simp]: "peek_expr (k # ks) = (if k = Eof then None else Some k)"
  by (simp add: peek_expr_def)

lemma peek_binary_op_Cons [simp]: "k \<noteq> Eof \<Longrightarrow> peek_binary_op (k # ks) = binary_op_of k"
  by (simp add: peek_binary_op_def)

lemma binary_op_of_simps [simp]: "binary_op_of (Sym SCloseParen) = None" "binary_op_of (Sym SComma) = None"
  by (simp_all add: binary_op_of_def)

text \<open>A primary expression ends before \<open>rest\<close>.\<close>

definition ends_primary :: "TokenKind list \<Rightarrow> bool" where
  "ends_primary rest = (peek_expr rest \<noteq> Some (Sym SDot) \<and> peek_expr rest \<noteq> Some (Sym SOpenParen))"

definition written_back :: "(int \<Rightarrow> f64) \<Rightarrow> CstExpr \<Rightarrow> bool" where
  "written_back conv e = (\<forall>n rest. depth_cost e \<le> n \<longrightarrow> ends_primary rest \<longrightarrow>
     parse_primary conv n (paren_tokens e @ rest) = Inr (e, rest))"

lemma member_chain_ends [simp]: "ends_primary rest \<Longrightarrow> parse_member_chain n e rest = Inr (e, rest)"
  by (subst parse_member_chain.simps) (simp add: ends_primary_def)

lemma ends_primary_Cons [simp]: "ends_primary (k # ks) = (k \<noteq> Sym SDot \<and> k \<noteq> Sym SOpenParen)"
  by (simp add: ends_primary_def)

lemma paren_tokens_start:
  "without_raw e \<Longrightarrow> \<exists>k ks. paren_tokens e = k # ks \<and> k \<noteq> Eof \<and> k \<noteq> Sym SMinus \<and> k \<noteq> Sym SExclamation \<and> k \<noteq> Sym SCloseParen"
  by (cases e) auto

lemma unary_back:
  assumes "written_back conv e" "without_raw e" "depth_cost e \<le> n" "ends_primary rest"
  shows "parse_unary_or_primary conv n (paren_tokens e @ rest) = Inr (e, rest)"
proof -
  obtain k ks where k: "paren_tokens e = k # ks" "k \<noteq> Eof" "k \<noteq> Sym SMinus" "k \<noteq> Sym SExclamation"
    using paren_tokens_start[OF assms(2)] by blast
  have "n \<noteq> 0" using assms(3) depth_cost_positive[of e] by linarith
  with k have "parse_unary_or_primary conv n (paren_tokens e @ rest) = parse_primary conv n (paren_tokens e @ rest)"
    by (subst parse_unary_or_primary.simps) (auto split: TokenKind.split Symbol.split)
  with assms show ?thesis by (simp add: written_back_def)
qed

lemma loop_ends: "peek_binary_op rest = None \<Longrightarrow> continue_binary conv n p e rest = Inr (e, rest)"
  by (subst continue_binary_eq) simp

lemma binary_start:
  assumes "written_back conv e" "without_raw e" "depth_cost e \<le> n" "ends_primary rest"
  shows "parse_binary_expr conv n p (paren_tokens e @ rest) = continue_binary conv n p e rest"
  using unary_back[OF assms] depth_cost_positive[of e] assms(3)
  by (subst parse_binary_expr.simps) (simp add: then_parse_def)

lemma binary_back:
  assumes "written_back conv e" "without_raw e" "depth_cost e \<le> n" "ends_primary rest" "peek_binary_op rest = None"
  shows "parse_binary_expr conv n p (paren_tokens e @ rest) = Inr (e, rest)"
  using binary_start[OF assms(1-4)] loop_ends[OF assms(5)] by simp

lemma primary_paren:
  assumes "n \<noteq> 0" "parse_binary_expr conv (n - 1) 0 ts = Inr (e, Sym SCloseParen # rest)"
  shows "parse_primary conv n (Sym SOpenParen # ts) = parse_member_chain n e rest"
  using assms by (subst parse_primary.simps) (simp add: then_parse_def)

lemma unary_token_parse:
  assumes "n \<noteq> 0" "parse_unary_or_primary conv (n - 1) ts = Inr (e, rest)"
  shows "parse_unary_or_primary conv n (unary_token op # ts) = Inr (EUnary op e, rest)"
  using assms by (cases op; subst parse_unary_or_primary.simps) (simp_all add: then_parse_def)

lemma args_back:
  assumes "\<And>e. e \<in> set es \<Longrightarrow> written_back conv e \<and> without_raw e \<and> depth_cost e \<le> n"
  shows "parse_args (\<lambda>ts. parse_binary_expr conv n 0 ts) f args (sep_tokens (map paren_tokens es) @ Sym SCloseParen # rest)
     = Inr (ECall f (args @ es), rest)"
  using assms
proof (induction es arbitrary: args rule: induct_list012)
  case 1
  then show ?case by (subst parse_args.simps) simp
next
  case (2 e)
  then have e: "written_back conv e" "without_raw e" "depth_cost e \<le> n" by auto
  obtain k ks where "paren_tokens e = k # ks" "k \<noteq> Eof" "k \<noteq> Sym SCloseParen" using paren_tokens_start[OF e(2)] by blast
  with binary_back[OF e, of "Sym SCloseParen # rest" 0] show ?case
    by (subst parse_args.simps) (simp add: then_parse_def)
next
  case (3 e e' es)
  then have e: "written_back conv e" "without_raw e" "depth_cost e \<le> n" by auto
  let ?more = "sep_tokens (map paren_tokens (e' # es)) @ Sym SCloseParen # rest"
  obtain k ks where k: "paren_tokens e = k # ks" "k \<noteq> Eof" "k \<noteq> Sym SCloseParen" using paren_tokens_start[OF e(2)] by blast
  have "parse_args (\<lambda>ts. parse_binary_expr conv n 0 ts) f (args @ [e]) ?more = Inr (ECall f ((args @ [e]) @ e' # es), rest)"
    by (rule "3.IH"(2)) (use "3.prems" in auto)
  with k binary_back[OF e, of "Sym SComma # ?more" 0] show ?case
    by (subst parse_args.simps) (simp add: then_parse_def)
qed

lemma all_written_back: "without_raw e \<Longrightarrow> written_back conv e"
proof (induction e)
  case (EUnary op e)
  have "parse_primary conv n (paren_tokens (EUnary op e) @ rest) = Inr (EUnary op e, rest)"
    if n: "depth_cost (EUnary op e) \<le> n" and rest: "ends_primary rest" for n rest
  proof -
    have "parse_unary_or_primary conv (n - 1 - 1) (paren_tokens e @ Sym SCloseParen # rest) = Inr (e, Sym SCloseParen # rest)"
      by (rule unary_back) (use EUnary n in auto)
    then have "parse_unary_or_primary conv (n - 1) (unary_token op # paren_tokens e @ Sym SCloseParen # rest)
        = Inr (EUnary op e, Sym SCloseParen # rest)"
      using n by (intro unary_token_parse) auto
    then have "parse_binary_expr conv (n - 1) 0 (unary_token op # paren_tokens e @ Sym SCloseParen # rest)
        = Inr (EUnary op e, Sym SCloseParen # rest)"
      using n by (subst parse_binary_expr.simps) (simp add: then_parse_def loop_ends)
    with n rest show ?thesis by (simp add: primary_paren)
  qed
  then show ?case by (simp add: written_back_def)
next
  case (EBinary op l r)
  have "parse_primary conv n (paren_tokens (EBinary op l r) @ rest) = Inr (EBinary op l r, rest)"
    if n: "depth_cost (EBinary op l r) \<le> n" and rest: "ends_primary rest" for n rest
  proof -
    let ?close = "Sym SCloseParen # rest"
    have left: "parse_binary_expr conv (n - 1) 0 (paren_tokens l @ op_token op # paren_tokens r @ ?close)
        = continue_binary conv (n - 1) 0 l (op_token op # paren_tokens r @ ?close)"
      by (rule binary_start) (use EBinary n in auto)
    have "parse_binary_expr conv (n - 1 - 1) (right_level op) (paren_tokens r @ ?close) = Inr (r, ?close)"
      by (rule binary_back) (use EBinary n in auto)
    then have "continue_binary conv (n - 1) 0 l (op_token op # paren_tokens r @ ?close) = Inr (EBinary op l r, ?close)"
      using n depth_cost_positive[of r] by (subst continue_binary_eq) (auto simp: then_parse_def loop_ends)
    with left n rest show ?thesis by (simp add: primary_paren)
  qed
  then show ?case by (simp add: written_back_def)
next
  case (ECall f es)
  have "parse_primary conv n (paren_tokens (ECall f es) @ rest) = Inr (ECall f es, rest)"
    if n: "depth_cost (ECall f es) \<le> n" and rest: "ends_primary rest" for n rest
  proof -
    have "written_back conv e \<and> without_raw e \<and> depth_cost e \<le> n - 1" if "e \<in> set es" for e
      using ECall that n depth_cost_arg[OF that] by (auto simp: list_all_iff)
    from args_back[of es conv "n - 1" f "[]" rest, OF this] n rest show ?thesis
      by (subst parse_primary.simps) (simp add: then_parse_def)
  qed
  then show ?case by (simp add: written_back_def)
next
  case (EMember e m)
  have "parse_primary conv n (paren_tokens (EMember e m) @ rest) = Inr (EMember e m, rest)"
    if n: "depth_cost (EMember e m) \<le> n" and rest: "ends_primary rest" for n rest
  proof -
    let ?close = "Sym SCloseParen # Sym SDot # Ident m # rest"
    have "parse_binary_expr conv (n - 1) 0 (paren_tokens e @ ?close) = Inr (e, ?close)"
      by (rule binary_back) (use EMember n in auto)
    moreover have "parse_member_chain n e (Sym SDot # Ident m # rest) = Inr (EMember e m, rest)"
      using n rest depth_cost_positive[of e] by (subst parse_member_chain.simps) simp
    ultimately show ?thesis using n by (simp add: primary_paren)
  qed
  then show ?case by (simp add: written_back_def)
qed (auto simp: written_back_def parse_primary.simps then_parse_def ends_primary_def)

text \<open>
  C39: Every expression without raw text whose parenthesised form costs at most 64 levels is read back from the
  tokens of that form, whatever tokens come after it that are neither an operator, a dot nor a parenthesis.
\<close>

theorem parenthesised_expression_read_back:
  assumes "without_raw e" "depth_cost e \<le> 64" "map tok_kind tokens = paren_tokens e @ rest"
    "ends_primary rest" "peek_binary_op rest = None"
  shows "parse_expression conv tokens = Inr e"
  using binary_back[OF all_written_back[OF assms(1)] assms(1), of MAX_CST_EXPR_DEPTH rest conv 0] assms
  by (simp add: parse_expression_def MAX_CST_EXPR_DEPTH_def)

definition token_of :: "TokenKind \<Rightarrow> Token" where
  "token_of k = \<lparr>tok_kind = k, tok_span = default_span\<rparr>"

lemma kinds_of_tokens [simp]: "map (tok_kind \<circ> token_of) ks = ks" "tok_kind (token_of k) = k"
  by (induction ks) (simp_all add: token_of_def)

theorem parenthesised_expression_read_back_witness:
  "parse_expression (\<lambda>_. 0) (map token_of
      [Sym SOpenParen, Ident ''f'', Sym SOpenParen, Ident ''a'', Sym SComma, StringLit ''s'', Sym SCloseParen, Sym SCaret,
       Sym SOpenParen, Sym SMinus, Ident ''b'', Sym SCloseParen, Sym SCloseParen, Sym SSemi])
    = Inr (EBinary Pow (ECall ''f'' [EIdent ''a'', EString ''s'']) (EUnary Neg (EIdent ''b'')))"
  by (rule parenthesised_expression_read_back[where rest = "[Sym SSemi]"])
    (simp_all add: ends_primary_def peek_binary_op_def binary_op_of_def)

theorem parsed_expression_is_read_witness:
  "\<exists>used rest. [Ident ''a'', Sym SPlus, Ident ''b'', Eof] = used @ rest
     \<and> reads (\<lambda>_. 0) 0 (EBinary Add (EIdent ''a'') (EIdent ''b'')) used \<and> peek_binary_op rest = None"
proof -
  have "parse_expression (\<lambda>_. 0) (map token_of [Ident ''a'', Sym SPlus, Ident ''b'', Eof])
      = Inr (EBinary Add (EIdent ''a'') (EIdent ''b''))"
    by code_simp
  then show ?thesis
    using parsed_expression_is_read[of "\<lambda>_. 0" "map token_of [Ident ''a'', Sym SPlus, Ident ''b'', Eof]"] by simp
qed

text \<open>
  Of two operators without parentheses the first binds its operands first, unless the second has the
  higher precedence or both are powers.
\<close>

theorem operators_bind:
  assumes "map tok_kind tokens = paren_tokens a @ op_token op1 # paren_tokens b @ op_token op2 # paren_tokens c"
    "without_raw a" "without_raw b" "without_raw c" "depth_cost a \<le> 62" "depth_cost b \<le> 62" "depth_cost c \<le> 62"
  shows "parse_expression conv tokens = Inr
    (if fst (binary_precedence op1) < fst (binary_precedence op2) \<or> op1 = Pow \<and> op2 = Pow
     then EBinary op1 a (EBinary op2 b c) else EBinary op2 (EBinary op1 a b) c)"
proof -
  note start = binary_start[OF all_written_back[OF assms(2)] assms(2)]
    binary_start[OF all_written_back[OF assms(3)] assms(3)] binary_start[OF all_written_back[OF assms(4)] assms(4)]
  have last: "parse_binary_expr conv 62 p (paren_tokens c) = Inr (c, [])" for p
    using start(3)[of 62 "[]" conv p] assms by (simp add: ends_primary_def peek_expr_def peek_binary_op_def loop_ends)
  have tight: "fst (binary_precedence op2) < right_level op1
      \<longleftrightarrow> \<not> (fst (binary_precedence op1) < fst (binary_precedence op2) \<or> op1 = Pow \<and> op2 = Pow)"
    by (cases op1; cases op2) (simp_all add: right_level_def)
  have tail: "continue_binary conv n p e [] = Inr (e, [])" for n p e
    by (rule loop_ends) (simp add: peek_binary_op_def peek_expr_def)
  have second: "continue_binary conv 63 p e (op_token op2 # paren_tokens c)
      = (if fst (binary_precedence op2) < p then Inr (e, op_token op2 # paren_tokens c) else Inr (EBinary op2 e c, []))" for p e
    by (subst continue_binary_eq) (simp add: last then_parse_def tail)
  have "parse_binary_expr conv 63 (right_level op1) (paren_tokens b @ op_token op2 # paren_tokens c)
      = continue_binary conv 63 (right_level op1) b (op_token op2 # paren_tokens c)"
    by (rule start(2)) (use assms in auto)
  moreover have "parse_binary_expr conv 64 0 (map tok_kind tokens)
      = continue_binary conv 64 0 a (op_token op1 # paren_tokens b @ op_token op2 # paren_tokens c)"
    unfolding assms(1) by (rule start(1)) (use assms in auto)
  ultimately have "parse_expression conv tokens = Inr
      (if fst (binary_precedence op2) < right_level op1 then EBinary op2 (EBinary op1 a b) c else EBinary op1 a (EBinary op2 b c))"
    by (subst (asm) continue_binary_eq[of conv 64])
      (auto simp: parse_expression_def MAX_CST_EXPR_DEPTH_def second then_parse_def tail)
  then show ?thesis unfolding tight by (simp only: if_not_P not_not if_P split: if_split) blast
qed

theorem operators_bind_witness:
  "parse_expression (\<lambda>_. 0) (map token_of [Ident ''a'', Sym SPlus, Ident ''b'', Sym SStar, Ident ''c''])
     = Inr (EBinary Add (EIdent ''a'') (EBinary Mul (EIdent ''b'') (EIdent ''c'')))"
  using operators_bind[where ?op1.0 = Add and ?op2.0 = Mul and a = "EIdent ''a''" and b = "EIdent ''b''" and c = "EIdent ''c''"
      and tokens = "map token_of [Ident ''a'', Sym SPlus, Ident ''b'', Sym SStar, Ident ''c'']"] by simp

text \<open>
  The printer writes no parentheses: two expressions that differ in how their operators bind have the same
  text, whatever the operators. It writes \<^verbatim>\<open>!a\<close> as \<^verbatim>\<open>not a\<close>, of whose two tokens the parser reads the
  first as a name and leaves the second.
\<close>

lemma printer_drops_parentheses:
  "to_string_repr F (EBinary op2 (EBinary op1 (EIdent a) (EIdent b)) (EIdent c))
     = to_string_repr F (EBinary op1 (EIdent a) (EBinary op2 (EIdent b) (EIdent c)))"
  by (simp add: to_string_repr_def MAX_CST_EXPR_DEPTH_def eval_nat_numeral)

lemma printed_negation_read_as_name:
  assumes "map tok_kind tokens = [Ident ''not'', Ident a]" "a \<noteq> ''and''" "a \<noteq> ''or''"
  shows "to_string_repr F (EUnary Not (EIdent a)) = ''not '' @ a" "parse_expression conv tokens = Inr (EIdent ''not'')"
proof -
  show "to_string_repr F (EUnary Not (EIdent a)) = ''not '' @ a"
    by (simp add: to_string_repr_def MAX_CST_EXPR_DEPTH_def eval_nat_numeral)
  show "parse_expression conv tokens = Inr (EIdent ''not'')"
    using binary_back[OF all_written_back[of "EIdent ''not''" conv], of 64 "[Ident a]" 0] assms
    by (simp add: parse_expression_def MAX_CST_EXPR_DEPTH_def binary_op_of_def)
qed

end
