(* ===== verification/Sysml_Syntax.thy ===== *)
theory Sysml_Syntax
  imports Sysml_Lexer "HOL-Library.Word"
begin

text \<open>
  The kinds of the lossless syntax tree, \<^verbatim>\<open>deap-core/src/sysml_cst/syntax_kind.rs\<close>, and the classification
  of declarations by their key words from \<^verbatim>\<open>parser_clauses_1_3.rs\<close>, \<^verbatim>\<open>parser_clauses_4_6.rs\<close> and
  \<^verbatim>\<open>parser.rs\<close>. The 101 variants of the source are grouped: \<open>TokenSyntax t\<close> is the variant with the
  name of the token kind \<open>t\<close>, \<open>DefNode\<close> and \<open>UsageNode\<close> of a family are its variants that end in
  \<^verbatim>\<open>Def\<close> and \<^verbatim>\<open>Usage\<close>.
\<close>

section \<open>Kinds\<close>

datatype SyntaxFamily =
    MetadataDecl | AttributeDecl | EnumDecl | ItemDecl | PartDecl | PortDecl | ConnectionDecl
  | InterfaceDecl | FlowDecl | AllocationDecl | OccurrenceDecl | ActionDecl | StateDecl | CalcDecl
  | ConstraintDecl | RequirementDecl | ConcernDecl | UseCaseDecl | AnalysisDecl | VerificationDecl
  | ViewDecl | ViewpointDecl | RenderingDecl

datatype SysmlSyntaxKind =
    TokenSyntax SysmlCstToken | DefNode SyntaxFamily | UsageNode SyntaxFamily
  | SourceFile | PackageDecl | LibraryPackageDecl | ImportDecl | AliasDecl | DocCommentNode
  | SuccessionDecl | TransitionDecl | VariationDecl | VariantUsage | SpecializationClause
  | MultiplicityBounds | ExpressionNode | BlockBody | StatementNode | ErrorNode | LastKind

text \<open>The declaration order gives the number of a kind.\<close>

definition declared_kinds :: "SysmlSyntaxKind list" where
  "declared_kinds =
     [TokenSyntax Whitespace, TokenSyntax LineComment, TokenSyntax BlockComment, TokenSyntax DefKw,
      TokenSyntax PackageKw, TokenSyntax NamespaceKw, TokenSyntax DocMetaKw, TokenSyntax StructuralKw,
      TokenSyntax BehavioralKw, TokenSyntax ReqCalcVerificationKw, TokenSyntax KermlModifierKw,
      TokenSyntax ColonColonGt, TokenSyntax ColonGtGt, TokenSyntax ColonGt, TokenSyntax ColonColon,
      TokenSyntax ColonEq, TokenSyntax Colon, TokenSyntax CstTilde, TokenSyntax At, TokenSyntax Hash,
      TokenSyntax DotDot, TokenSyntax Arrow, TokenSyntax FatArrow, TokenSyntax CstDot,
      TokenSyntax CstComma, TokenSyntax Semi, TokenSyntax LBrace, TokenSyntax RBrace,
      TokenSyntax CstLBracket, TokenSyntax CstRBracket, TokenSyntax CstLParen, TokenSyntax CstRParen,
      TokenSyntax Operator, TokenSyntax CstStringLit, TokenSyntax UnrestrictedName,
      TokenSyntax NumberLit, TokenSyntax CstIdent, TokenSyntax ErrorToken, SourceFile, PackageDecl,
      LibraryPackageDecl, ImportDecl, AliasDecl, DocCommentNode, DefNode MetadataDecl,
      UsageNode MetadataDecl, DefNode AttributeDecl, UsageNode AttributeDecl, DefNode EnumDecl,
      UsageNode EnumDecl, DefNode ItemDecl, UsageNode ItemDecl, DefNode PartDecl, UsageNode PartDecl,
      DefNode PortDecl, UsageNode PortDecl, DefNode ConnectionDecl, UsageNode ConnectionDecl,
      DefNode InterfaceDecl, UsageNode InterfaceDecl, DefNode FlowDecl, UsageNode FlowDecl,
      SuccessionDecl, DefNode AllocationDecl, UsageNode AllocationDecl, DefNode OccurrenceDecl,
      UsageNode OccurrenceDecl, DefNode ActionDecl, UsageNode ActionDecl, DefNode StateDecl,
      UsageNode StateDecl, TransitionDecl, DefNode CalcDecl, UsageNode CalcDecl, DefNode ConstraintDecl,
      UsageNode ConstraintDecl, DefNode RequirementDecl, UsageNode RequirementDecl, DefNode ConcernDecl,
      UsageNode ConcernDecl, DefNode UseCaseDecl, UsageNode UseCaseDecl, DefNode AnalysisDecl,
      UsageNode AnalysisDecl, DefNode VerificationDecl, UsageNode VerificationDecl, DefNode ViewDecl,
      UsageNode ViewDecl, DefNode ViewpointDecl, UsageNode ViewpointDecl, DefNode RenderingDecl,
      UsageNode RenderingDecl, VariationDecl, VariantUsage, SpecializationClause, MultiplicityBounds,
      ExpressionNode, BlockBody, StatementNode, ErrorNode, LastKind]"

definition ALL_SYNTAX_KINDS :: "SysmlSyntaxKind list" where
  "ALL_SYNTAX_KINDS =
     [TokenSyntax Whitespace, TokenSyntax LineComment, TokenSyntax BlockComment, TokenSyntax DefKw,
      TokenSyntax PackageKw, TokenSyntax NamespaceKw, TokenSyntax DocMetaKw, TokenSyntax StructuralKw,
      TokenSyntax BehavioralKw, TokenSyntax ReqCalcVerificationKw, TokenSyntax KermlModifierKw,
      TokenSyntax ColonColonGt, TokenSyntax ColonGtGt, TokenSyntax ColonGt, TokenSyntax ColonColon,
      TokenSyntax ColonEq, TokenSyntax Colon, TokenSyntax CstTilde, TokenSyntax At, TokenSyntax Hash,
      TokenSyntax DotDot, TokenSyntax Arrow, TokenSyntax FatArrow, TokenSyntax CstDot,
      TokenSyntax CstComma, TokenSyntax Semi, TokenSyntax LBrace, TokenSyntax RBrace,
      TokenSyntax CstLBracket, TokenSyntax CstRBracket, TokenSyntax CstLParen, TokenSyntax CstRParen,
      TokenSyntax Operator, TokenSyntax CstStringLit, TokenSyntax UnrestrictedName,
      TokenSyntax NumberLit, TokenSyntax CstIdent, TokenSyntax ErrorToken, SourceFile, PackageDecl,
      LibraryPackageDecl, ImportDecl, AliasDecl, DocCommentNode, DefNode MetadataDecl,
      UsageNode MetadataDecl, DefNode AttributeDecl, UsageNode AttributeDecl, DefNode EnumDecl,
      UsageNode EnumDecl, DefNode ItemDecl, UsageNode ItemDecl, DefNode PartDecl, UsageNode PartDecl,
      DefNode PortDecl, UsageNode PortDecl, DefNode ConnectionDecl, UsageNode ConnectionDecl,
      DefNode InterfaceDecl, UsageNode InterfaceDecl, DefNode FlowDecl, UsageNode FlowDecl,
      SuccessionDecl, DefNode AllocationDecl, UsageNode AllocationDecl, DefNode OccurrenceDecl,
      UsageNode OccurrenceDecl, DefNode ActionDecl, UsageNode ActionDecl, DefNode StateDecl,
      UsageNode StateDecl, TransitionDecl, DefNode CalcDecl, UsageNode CalcDecl, DefNode ConstraintDecl,
      UsageNode ConstraintDecl, DefNode RequirementDecl, UsageNode RequirementDecl, DefNode ConcernDecl,
      UsageNode ConcernDecl, DefNode UseCaseDecl, UsageNode UseCaseDecl, DefNode AnalysisDecl,
      UsageNode AnalysisDecl, DefNode VerificationDecl, UsageNode VerificationDecl, DefNode ViewDecl,
      UsageNode ViewDecl, DefNode ViewpointDecl, UsageNode ViewpointDecl, DefNode RenderingDecl,
      UsageNode RenderingDecl, VariationDecl, VariantUsage, SpecializationClause, MultiplicityBounds,
      ExpressionNode, BlockBody, StatementNode, ErrorNode, LastKind]"

definition kind_to_raw :: "SysmlSyntaxKind \<Rightarrow> 16 word" where
  "kind_to_raw kind = of_nat (length (takeWhile (\<lambda>k. k \<noteq> kind) declared_kinds))"

definition kind_from_raw :: "16 word \<Rightarrow> SysmlSyntaxKind" where
  "kind_from_raw raw =
     (if unat raw < length ALL_SYNTAX_KINDS then ALL_SYNTAX_KINDS ! unat raw else ErrorNode)"

definition is_composite_node :: "SysmlSyntaxKind \<Rightarrow> bool" where
  "is_composite_node k \<longleftrightarrow> kind_to_raw SourceFile \<le> kind_to_raw k \<and> kind_to_raw k < kind_to_raw LastKind"

definition is_trivia_kind :: "SysmlSyntaxKind \<Rightarrow> bool" where
  "is_trivia_kind k \<longleftrightarrow> k \<in> {TokenSyntax Whitespace, TokenSyntax LineComment, TokenSyntax BlockComment}"

definition token_to_syntax_kind :: "SysmlCstToken \<Rightarrow> SysmlSyntaxKind" where
  "token_to_syntax_kind tok = TokenSyntax tok"

section \<open>Classification\<close>

definition is_leading_modifier :: "string \<Rightarrow> bool" where
  "is_leading_modifier s \<longleftrightarrow> s \<in>
     {''abstract'', ''readonly'', ''derived'', ''end'', ''in'', ''out'', ''inout'', ''ref'',
      ''private'', ''protected'', ''public'', ''standard'', ''library'', ''ordered'', ''nonunique''}"

definition def_or_usage :: "bool \<Rightarrow> SyntaxFamily \<Rightarrow> SysmlSyntaxKind" where
  "def_or_usage has_def f = (if has_def then DefNode f else UsageNode f)"

definition classify_clause_1_3_kind :: "string \<Rightarrow> string option \<Rightarrow> bool \<Rightarrow> bool \<Rightarrow> SysmlSyntaxKind option" where
  "classify_clause_1_3_kind lead second has_def has_library =
     (if lead \<in> {''package'', ''namespace''} then Some (if has_library then LibraryPackageDecl else PackageDecl)
      else if lead = ''import'' then Some ImportDecl
      else if lead = ''alias'' then Some AliasDecl
      else if lead \<in> {''doc'', ''comment'', ''rep'', ''locale''} then Some DocCommentNode
      else if lead \<in> {''metadata'', ''hazard'', ''risk'', ''capability''} then Some (def_or_usage has_def MetadataDecl)
      else if lead \<in> {''@'', ''#''} then Some (UsageNode MetadataDecl)
      else if lead = ''part'' then Some (def_or_usage has_def PartDecl)
      else if lead = ''port'' then Some (def_or_usage has_def PortDecl)
      else if lead = ''attribute'' then Some (def_or_usage has_def AttributeDecl)
      else if lead = ''enum'' then Some (def_or_usage has_def EnumDecl)
      else if lead = ''item'' then Some (def_or_usage has_def ItemDecl)
      else if lead \<in> {''connection'', ''connect'', ''binding''} then Some (def_or_usage has_def ConnectionDecl)
      else if lead = ''interface'' then Some (def_or_usage has_def InterfaceDecl)
      else if lead \<in> {''flow'', ''message''} then Some (def_or_usage has_def FlowDecl)
      else if lead \<in> {''allocation'', ''allocate''} then Some (def_or_usage has_def AllocationDecl)
      else if lead \<in> {''occurrence'', ''individual'', ''snapshot'', ''timeslice''}
        then Some (def_or_usage has_def OccurrenceDecl)
      else if lead = ''variation'' then Some VariationDecl
      else if lead = ''variant'' then Some VariantUsage
      else if lead \<in> {''action'', ''perform'', ''send'', ''accept'', ''assign''} then Some (def_or_usage has_def ActionDecl)
      else if lead \<in> {''state'', ''exhibit''} then Some (def_or_usage has_def StateDecl)
      else if lead = ''transition'' then Some TransitionDecl
      else if lead \<in> {''succession'', ''first''} then Some SuccessionDecl
      else None)"

definition classify_clause_4_6_kind :: "string \<Rightarrow> string option \<Rightarrow> bool \<Rightarrow> SysmlSyntaxKind" where
  "classify_clause_4_6_kind lead second has_def =
     (if lead = ''calc'' then def_or_usage has_def CalcDecl
      else if lead \<in> {''constraint'', ''assert'', ''assume'', ''require''} then def_or_usage has_def ConstraintDecl
      else if lead \<in> {''requirement'', ''satisfy''} then def_or_usage has_def RequirementDecl
      else if lead \<in> {''concern'', ''frame''} then def_or_usage has_def ConcernDecl
      else if lead = ''use'' \<and> second = Some ''case'' then def_or_usage has_def UseCaseDecl
      else if lead = ''include'' then UsageNode UseCaseDecl
      else if lead = ''analysis'' then def_or_usage has_def AnalysisDecl
      else if lead \<in> {''verification'', ''verify''} then def_or_usage has_def VerificationDecl
      else if lead = ''test'' \<and> second = Some ''case'' then def_or_usage has_def VerificationDecl
      else if lead = ''view'' then def_or_usage has_def ViewDecl
      else if lead = ''viewpoint'' then def_or_usage has_def ViewpointDecl
      else if lead = ''rendering'' then def_or_usage has_def RenderingDecl
      else StatementNode)"

definition classify_keyword_kind :: "string \<Rightarrow> bool \<Rightarrow> SysmlSyntaxKind option" where
  "classify_keyword_kind kw has_def =
     (if kw = ''use case'' then Some (def_or_usage has_def UseCaseDecl)
      else if kw = ''test case'' then Some (def_or_usage has_def VerificationDecl)
      else case classify_clause_1_3_kind kw None has_def False of
        Some kind \<Rightarrow> Some kind
      | None \<Rightarrow>
          let kind = classify_clause_4_6_kind kw None has_def
          in if kind \<noteq> StatementNode then Some kind else None)"

section \<open>Numbers of the kinds\<close>

lemma kinds_declared: "k \<in> set declared_kinds"
proof (cases k)
  case (TokenSyntax t)
  then show ?thesis by (cases t) (simp_all add: declared_kinds_def)
next
  case (DefNode f)
  then show ?thesis by (cases f) (simp_all add: declared_kinds_def)
next
  case (UsageNode f)
  then show ?thesis by (cases f) (simp_all add: declared_kinds_def)
qed (simp_all add: declared_kinds_def)

lemma index_takeWhile: "x \<in> set xs \<Longrightarrow> length (takeWhile (\<lambda>k. k \<noteq> x) xs) < length xs \<and> xs ! length (takeWhile (\<lambda>k. k \<noteq> x) xs) = x"
  by (induction xs) auto

lemma raw_roundtrip: "kind_from_raw (kind_to_raw k) = k"
proof -
  have n: "length declared_kinds = 101" by (simp add: declared_kinds_def)
  have same: "ALL_SYNTAX_KINDS = declared_kinds" by (simp add: ALL_SYNTAX_KINDS_def declared_kinds_def)
  have i: "length (takeWhile (\<lambda>j. j \<noteq> k) declared_kinds) < length declared_kinds"
    "declared_kinds ! length (takeWhile (\<lambda>j. j \<noteq> k) declared_kinds) = k"
    using index_takeWhile[OF kinds_declared[of k]] by auto
  then have "unat (kind_to_raw k) = length (takeWhile (\<lambda>j. j \<noteq> k) declared_kinds)"
    using n by (simp add: kind_to_raw_def unsigned_of_nat take_bit_eq_mod)
  with i show ?thesis by (simp add: kind_from_raw_def same)
qed

end
