(* ===== verification/Sysml_Cst.thy ===== *)
theory Sysml_Cst
  imports Sysml_Syntax
begin

text \<open>
  The parser of the lossless syntax tree, \<^verbatim>\<open>deap-core/src/sysml_cst/parser.rs\<close>,
  \<^verbatim>\<open>parser_clauses_1_3.rs\<close> and \<^verbatim>\<open>parser_clauses_4_6.rs\<close>. The builder's state is the record
  \<open>SysmlCstBuilder\<close>; its cursor is the rest of the tokens. What the parser does to \<^verbatim>\<open>rowan\<close>'s tree builder is
  the list of its calls, and the function that makes a tree of such a list is an argument of the entry point.
  The loop over a sequence is \<open>None\<close> when a round consumes nothing, where the code would go on for ever;
  it is proved never to be.
\<close>

section \<open>State\<close>

datatype BuilderCall = StartNode SysmlSyntaxKind | AddToken SysmlSyntaxKind string | FinishNode

record SysmlConstructSummary =
  construct_kind :: SysmlSyntaxKind
  construct_name :: string
  construct_is_definition :: bool
  construct_range :: "nat \<times> nat"

record SysmlCstBuilder =
  cst_rest :: "LexedSysmlToken list"
  cst_calls :: "BuilderCall list"
  cst_diagnostics :: "string list"
  cst_constructs :: "SysmlConstructSummary list"

definition new_cst_builder :: "LexedSysmlToken list \<Rightarrow> SysmlCstBuilder" where
  "new_cst_builder tokens = \<lparr>cst_rest = tokens, cst_calls = [], cst_diagnostics = [], cst_constructs = []\<rparr>"

definition MAX_CST_PARSE_DEPTH :: nat where
  "MAX_CST_PARSE_DEPTH = 64"

definition builder_call :: "BuilderCall \<Rightarrow> SysmlCstBuilder \<Rightarrow> SysmlCstBuilder" where
  "builder_call c b = b\<lparr>cst_calls := cst_calls b @ [c]\<rparr>"

definition push_diagnostic :: "string \<Rightarrow> SysmlCstBuilder \<Rightarrow> SysmlCstBuilder" where
  "push_diagnostic d b = b\<lparr>cst_diagnostics := cst_diagnostics b @ [d]\<rparr>"

definition lexical_error :: "LexedSysmlToken \<Rightarrow> string" where
  "lexical_error tok = ''[DEAP-E1001] Lexical error token '' @ [SQ] @ lexed_slice tok @ [SQ] @ '' at bytes ''
     @ decimal (fst (lexed_span tok)) @ ''..'' @ decimal (snd (lexed_span tok))"

definition unmatched_brace :: "nat \<Rightarrow> string" where
  "unmatched_brace start = ''[DEAP-E1001] Unmatched closing brace '' @ [SQ] @ ''}'' @ [SQ] @ '' at byte '' @ decimal start"

definition unclosed_block :: "nat \<Rightarrow> string" where
  "unclosed_block start = ''[DEAP-E1001] Unclosed block '' @ [SQ] @ ''{'' @ [SQ] @ '' opened at byte '' @ decimal start"

definition depth_exceeded :: "nat \<Rightarrow> string" where
  "depth_exceeded start = ''[DEAP-E1002] MAX_AST_DEPTH ('' @ decimal MAX_CST_PARSE_DEPTH @ '') exceeded at byte '' @ decimal start"

section \<open>Tokens\<close>

definition emit_current_token :: "SysmlCstBuilder \<Rightarrow> SysmlCstBuilder" where
  "emit_current_token b =
     (case cst_rest b of
        [] \<Rightarrow> b
      | tok # ts \<Rightarrow>
          let b = (if lexed_token tok = ErrorToken then push_diagnostic (lexical_error tok) b else b) in
          (builder_call (AddToken (token_to_syntax_kind (lexed_token tok)) (lexed_slice tok)) b)\<lparr>cst_rest := ts\<rparr>)"

text \<open>Emit tokens up to the first that satisfies \<open>stop\<close>, or up to and with the first that satisfies \<open>last\<close>.\<close>

fun emit_run :: "(LexedSysmlToken \<Rightarrow> bool) \<Rightarrow> (LexedSysmlToken \<Rightarrow> bool) \<Rightarrow> LexedSysmlToken list \<Rightarrow> SysmlCstBuilder \<Rightarrow> SysmlCstBuilder" where
  "emit_run stop final [] b = b"
| "emit_run stop final (tok # ts) b =
     (if stop tok then b
      else if final tok then emit_current_token b
      else emit_run stop final ts (emit_current_token b))"

definition emit_while :: "(LexedSysmlToken \<Rightarrow> bool) \<Rightarrow> SysmlCstBuilder \<Rightarrow> SysmlCstBuilder" where
  "emit_while p b = emit_run (\<lambda>t. \<not> p t) (\<lambda>_. False) (cst_rest b) b"

definition is_space_token :: "LexedSysmlToken \<Rightarrow> bool" where
  "is_space_token t \<longleftrightarrow> lexed_token t \<in> {Whitespace, LineComment}"

definition emit_whitespace_and_line_comments :: "SysmlCstBuilder \<Rightarrow> SysmlCstBuilder" where
  "emit_whitespace_and_line_comments b = emit_while is_space_token b"

definition in_node :: "SysmlSyntaxKind \<Rightarrow> (SysmlCstBuilder \<Rightarrow> SysmlCstBuilder) \<Rightarrow> SysmlCstBuilder \<Rightarrow> SysmlCstBuilder" where
  "in_node k f b = builder_call FinishNode (f (builder_call (StartNode k) b))"

definition peek_non_trivia :: "nat \<Rightarrow> SysmlCstBuilder \<Rightarrow> LexedSysmlToken list" where
  "peek_non_trivia limit b =
     take limit (filter (\<lambda>t. lexed_token t \<notin> {Whitespace, LineComment, BlockComment}) (cst_rest b))"

section \<open>Clauses of a declaration\<close>

definition is_assignment :: "LexedSysmlToken \<Rightarrow> bool" where
  "is_assignment t \<longleftrightarrow> lexed_token t = Operator \<and> lexed_slice t = ''=''"

definition parse_specialization_clause :: "SysmlCstBuilder \<Rightarrow> SysmlCstBuilder" where
  "parse_specialization_clause b =
     in_node SpecializationClause (\<lambda>b. emit_while (\<lambda>t.
       \<not> (lexed_token t \<in> {CstLBracket, ColonEq, LBrace, RBrace, Semi} \<or> is_assignment t)) (emit_current_token b)) b"

definition parse_multiplicity_bounds :: "SysmlCstBuilder \<Rightarrow> SysmlCstBuilder" where
  "parse_multiplicity_bounds b =
     in_node MultiplicityBounds (\<lambda>b. let b = emit_current_token b in
       emit_run (\<lambda>t. lexed_token t \<in> {Semi, LBrace, RBrace}) (\<lambda>t. lexed_token t = CstRBracket) (cst_rest b) b) b"

definition parse_cst_expression :: "SysmlCstBuilder \<Rightarrow> SysmlCstBuilder" where
  "parse_cst_expression b =
     in_node ExpressionNode (\<lambda>b. emit_while (\<lambda>t. lexed_token t \<notin> {Semi, LBrace, RBrace}) (emit_current_token b)) b"

text \<open>The recovery from a block that is too deep, with the braces open in it.\<close>

fun emit_balanced :: "nat \<Rightarrow> LexedSysmlToken list \<Rightarrow> SysmlCstBuilder \<Rightarrow> SysmlCstBuilder" where
  "emit_balanced d [] b = b"
| "emit_balanced d (tok # ts) b =
     (if lexed_token tok = LBrace then emit_balanced (d + 1) ts (emit_current_token b)
      else if lexed_token tok = RBrace then
        (if d - 1 = 0 then emit_current_token b else emit_balanced (d - 1) ts (emit_current_token b))
      else emit_balanced d ts (emit_current_token b))"

section \<open>Classification at the cursor\<close>

text \<open>Where the block comment after \<^verbatim>\<open>doc\<close> is, counted from the token after \<^verbatim>\<open>doc\<close>.\<close>

fun doc_block_at :: "LexedSysmlToken list \<Rightarrow> nat option" where
  "doc_block_at [] = None"
| "doc_block_at (t # ts) =
     (if is_space_token t then map_option Suc (doc_block_at ts)
      else if lexed_token t = BlockComment then Some 0
      else None)"

definition try_parse_doc_comment_node :: "SysmlCstBuilder \<Rightarrow> SysmlCstBuilder option" where
  "try_parse_doc_comment_node b =
     map_option (\<lambda>i. in_node DocCommentNode ((emit_current_token ^^ (i + 2))) b) (doc_block_at (tl (cst_rest b)))"

definition build_construct_summary ::
    "SysmlSyntaxKind \<Rightarrow> LexedSysmlToken \<Rightarrow> LexedSysmlToken option \<Rightarrow> bool \<Rightarrow> SysmlConstructSummary option" where
  "build_construct_summary kind lead_tok name_tok is_definition =
     (if kind \<in> {StatementNode, DocCommentNode, ErrorNode} then None
      else case name_tok of
        None \<Rightarrow> None
      | Some tok \<Rightarrow>
          if lexed_token tok \<in> {CstIdent, UnrestrictedName, StructuralKw, BehavioralKw, ReqCalcVerificationKw}
          then Some \<lparr>construct_kind = kind, construct_name = trim_matches (\<lambda>c. c = SQ) (lexed_slice tok),
                 construct_is_definition = is_definition, construct_range = (fst (lexed_span lead_tok), snd (lexed_span tok))\<rparr>
          else None)"

definition nth_get :: "nat \<Rightarrow> 'a list \<Rightarrow> 'a option" where
  "nth_get i xs = (if i < length xs then Some (xs ! i) else None)"

definition first_given :: "'a option \<Rightarrow> 'a option \<Rightarrow> 'a option" where
  "first_given a b = (case a of None \<Rightarrow> b | Some _ \<Rightarrow> a)"

definition classify_construct_at_cursor :: "SysmlCstBuilder \<Rightarrow> SysmlSyntaxKind \<times> SysmlConstructSummary option" where
  "classify_construct_at_cursor b =
     (let lookahead = peek_non_trivia 8 b;
          has_library = list_ex (\<lambda>t. lexed_slice t = ''library'') lookahead;
          ahead = dropWhile (\<lambda>t. is_leading_modifier (lexed_slice t)) lookahead
      in case ahead of
           [] \<Rightarrow> (StatementNode, None)
         | lead_tok # _ \<Rightarrow>
             let second_tok = nth_get 1 ahead;
                 third_tok = nth_get 2 ahead;
                 second = map_option lexed_slice second_tok;
                 is_compound = (lexed_slice lead_tok \<in> {''use'', ''test''} \<and> second = Some ''case'');
                 def_offset = (if is_compound then 2 else 1);
                 has_def = (case nth_get def_offset ahead of None \<Rightarrow> False
                            | Some t \<Rightarrow> lexed_token t = DefKw \<or> lexed_slice t = ''def'');
                 name_offset = def_offset + (if has_def then 1 else 0);
                 kind = (case classify_clause_1_3_kind (lexed_slice lead_tok) second has_def has_library of
                           Some k \<Rightarrow> k
                         | None \<Rightarrow> classify_clause_4_6_kind (lexed_slice lead_tok) second has_def);
                 name_tok = first_given (nth_get name_offset ahead) (first_given third_tok second_tok)
             in (kind, build_construct_summary kind lead_tok name_tok has_def))"

section \<open>Declarations and blocks\<close>

text \<open>The loop of \<^verbatim>\<open>parse_sequence\<close> around \<^verbatim>\<open>parse_next_construct\<close>.\<close>

definition error_token_node :: "SysmlCstBuilder \<Rightarrow> SysmlCstBuilder" where
  "error_token_node b = in_node ErrorNode emit_current_token b"

function sequence_loop :: "(SysmlCstBuilder \<Rightarrow> SysmlCstBuilder option) \<Rightarrow> bool \<Rightarrow> SysmlCstBuilder \<Rightarrow> SysmlCstBuilder option" where
  "sequence_loop construct in_block b0 =
     (if cst_rest b0 = [] then Some b0
      else let b = emit_whitespace_and_line_comments b0 in
        case cst_rest b of
          [] \<Rightarrow> Some b
        | cur # _ \<Rightarrow>
            if lexed_token cur = RBrace \<and> in_block then Some b
            else
              Option.bind
                (if lexed_token cur = RBrace
                 then Some (error_token_node (push_diagnostic (unmatched_brace (fst (lexed_span cur))) b))
                 else map_option (\<lambda>b'. if length (cst_rest b') = length (cst_rest b) then error_token_node b' else b') (construct b))
                (\<lambda>b'. if length (cst_rest b') < length (cst_rest b0) then sequence_loop construct in_block b' else None))"
  by auto
termination by (relation "measure (\<lambda>(c, i, b). length (cst_rest b))") auto

declare sequence_loop.simps [simp del]

lemma sequence_loop_cong [fundef_cong]:
  assumes "\<And>b. c b = c' b" "i = i'" "b = b'"
  shows "sequence_loop c i b = sequence_loop c' i' b'"
proof -
  have "c = c'" using assms(1) by (rule ext)
  with assms show ?thesis by simp
qed

text \<open>What is left of the tokens.\<close>

lemma rest_simps [simp]:
  "cst_rest (builder_call c b) = cst_rest b" "cst_rest (push_diagnostic d b) = cst_rest b"
  "cst_rest (emit_current_token b) = tl (cst_rest b)"
  by (simp_all add: builder_call_def push_diagnostic_def emit_current_token_def Let_def split: list.split)

lemma rest_in_node [simp]: "cst_rest (in_node k f b) = cst_rest (f (builder_call (StartNode k) b))"
  by (simp add: in_node_def)

lemma rest_run: "length (cst_rest (emit_run stop final ts b)) \<le> length (cst_rest b)"
proof (induction ts arbitrary: b)
  case (Cons t ts)
  have "length (cst_rest (emit_run stop final ts (emit_current_token b))) \<le> length (cst_rest b)"
    using Cons.IH[of "emit_current_token b"] by simp
  then show ?case by simp
qed simp

lemma rest_clauses:
  assumes "cst_rest b = t # ts"
  shows "length (cst_rest (parse_specialization_clause b)) < Suc (length ts)"
    "length (cst_rest (parse_multiplicity_bounds b)) < Suc (length ts)"
    "length (cst_rest (parse_cst_expression b)) < Suc (length ts)"
proof -
  have "length (cst_rest (emit_run stop final us (emit_current_token (builder_call c b)))) < Suc (length ts)" for stop final us c
    using rest_run[of stop final us "emit_current_token (builder_call c b)"] assms by auto
  then show "length (cst_rest (parse_specialization_clause b)) < Suc (length ts)"
    "length (cst_rest (parse_multiplicity_bounds b)) < Suc (length ts)"
    "length (cst_rest (parse_cst_expression b)) < Suc (length ts)"
    by (simp_all add: parse_specialization_clause_def parse_multiplicity_bounds_def parse_cst_expression_def emit_while_def Let_def)
qed

text \<open>\<^verbatim>\<open>parse_header_and_tail\<close>; \<open>body\<close> parses a block that opens at a byte.\<close>

function parse_header_and_tail ::
    "(nat \<Rightarrow> SysmlCstBuilder \<Rightarrow> SysmlCstBuilder option) \<Rightarrow> SysmlCstBuilder \<Rightarrow> SysmlCstBuilder option" where
  "parse_header_and_tail body b =
     (case cst_rest b of
        [] \<Rightarrow> Some b
      | tok # _ \<Rightarrow>
          if lexed_token tok = Semi then Some (emit_current_token b)
          else if lexed_token tok = RBrace then Some b
          else if lexed_token tok = LBrace then body (fst (lexed_span tok)) b
          else if lexed_token tok \<in> {ColonGt, ColonGtGt, ColonColonGt, Colon}
            then parse_header_and_tail body (parse_specialization_clause b)
          else if lexed_token tok = CstLBracket then parse_header_and_tail body (parse_multiplicity_bounds b)
          else if lexed_token tok = ColonEq \<or> is_assignment tok then parse_header_and_tail body (parse_cst_expression b)
          else parse_header_and_tail body (emit_current_token b))"
  by auto
termination
  by (relation "measure (\<lambda>(body, b). length (cst_rest b))") (auto intro: rest_clauses)

declare parse_header_and_tail.simps [simp del]

lemma parse_header_cong [fundef_cong]:
  assumes "\<And>s b. body s b = body' s b" "b = b'"
  shows "parse_header_and_tail body b = parse_header_and_tail body' b'"
proof -
  have "body = body'" using assms(1) by (intro ext)
  with assms show ?thesis by simp
qed

text \<open>
  \<^verbatim>\<open>parse_next_construct\<close> and \<^verbatim>\<open>parse_braced_body\<close>; \<open>n\<close> is \<^verbatim>\<open>MAX_CST_PARSE_DEPTH - depth\<close>.
\<close>

function parse_next_construct :: "nat \<Rightarrow> SysmlCstBuilder \<Rightarrow> SysmlCstBuilder option"
  and parse_braced_body :: "nat \<Rightarrow> nat \<Rightarrow> SysmlCstBuilder \<Rightarrow> SysmlCstBuilder option" where
  "parse_next_construct n b =
     (case cst_rest b of
        [] \<Rightarrow> Some b
      | cur # _ \<Rightarrow>
          if lexed_token cur = BlockComment then Some (in_node DocCommentNode emit_current_token b)
          else if lexed_token cur = ErrorToken then Some (error_token_node b)
          else
            let (node_kind, summary) = classify_construct_at_cursor b in
            case (if node_kind = DocCommentNode then try_parse_doc_comment_node b else None) of
              Some b' \<Rightarrow> Some b'
            | None \<Rightarrow>
                let b = b\<lparr>cst_constructs := cst_constructs b @ (case summary of None \<Rightarrow> [] | Some s \<Rightarrow> [s])\<rparr> in
                map_option (builder_call FinishNode)
                  (parse_header_and_tail (\<lambda>s b. parse_braced_body n s b) (builder_call (StartNode node_kind) b)))"
| "parse_braced_body n open_byte b =
     (if n \<le> 1 then
        Some (in_node ErrorNode (\<lambda>b. emit_balanced 0 (cst_rest b) b) (push_diagnostic (depth_exceeded open_byte) b))
      else
        map_option (\<lambda>b. case cst_rest b of
             t # _ \<Rightarrow> if lexed_token t = RBrace then emit_current_token b else push_diagnostic (unclosed_block open_byte) b
           | [] \<Rightarrow> push_diagnostic (unclosed_block open_byte) b)
          (sequence_loop (\<lambda>b. parse_next_construct (n - 1) b) True (emit_current_token b)))"
  by pat_completeness auto
termination
  by (relation "measures
      [\<lambda>x. case x of Inl (n, b) \<Rightarrow> n | Inr (n, s, b) \<Rightarrow> n,
       \<lambda>x. case x of Inl (n, b) \<Rightarrow> 1 | Inr (n, s, b) \<Rightarrow> 0]") auto

declare parse_next_construct.simps [simp del] parse_braced_body.simps [simp del]

definition parse_sequence :: "bool \<Rightarrow> nat \<Rightarrow> SysmlCstBuilder \<Rightarrow> SysmlCstBuilder option" where
  "parse_sequence in_block depth b = sequence_loop (parse_next_construct (MAX_CST_PARSE_DEPTH - depth)) in_block b"

text \<open>The whole file; \<open>green\<close> makes the tree of the calls of the builder, \<^verbatim>\<open>GreenNodeBuilder::finish\<close>.\<close>

record 'g ParsedSysmlCst =
  cst_green :: 'g
  parsed_constructs :: "SysmlConstructSummary list"
  parsed_diagnostics :: "string list"

definition build_source_file :: "SysmlCstBuilder \<Rightarrow> SysmlCstBuilder option" where
  "build_source_file b =
     map_option (builder_call FinishNode) (parse_sequence False 0 (builder_call (StartNode SourceFile) b))"

definition parse_sysml_cst :: "(BuilderCall list \<Rightarrow> 'g) \<Rightarrow> (string \<Rightarrow> nat) \<Rightarrow> string \<Rightarrow> 'g ParsedSysmlCst option" where
  "parse_sysml_cst green err source =
     map_option (\<lambda>b. \<lparr>cst_green = green (cst_calls b), parsed_constructs = cst_constructs b, parsed_diagnostics = cst_diagnostics b\<rparr>)
       (build_source_file (new_cst_builder (tokenize_sysml err source)))"

section \<open>What the calls build\<close>

text \<open>A list of complete elements, nested at most \<open>k\<close> deep.\<close>

inductive elements :: "nat \<Rightarrow> BuilderCall list \<Rightarrow> bool" where
  elements_none [intro!, simp]: "elements k []"
| elements_token: "elements k cs \<Longrightarrow> elements k (AddToken kd s # cs)"
| elements_node: "elements k inner \<Longrightarrow> elements (Suc k) cs \<Longrightarrow> elements (Suc k) (StartNode kd # inner @ FinishNode # cs)"

lemma elements_append: "elements k xs \<Longrightarrow> elements k ys \<Longrightarrow> elements k (xs @ ys)"
proof (induction k xs rule: elements.induct)
  case (elements_node k inner cs kd)
  from elements_node.hyps(1) elements_node.IH(2)[OF elements_node.prems]
  show ?case by (auto dest: elements.elements_node)
qed (auto intro: elements.intros)

lemma elements_mono: "elements k xs \<Longrightarrow> k \<le> j \<Longrightarrow> elements j xs"
proof (induction k xs arbitrary: j rule: elements.induct)
  case (elements_node k inner cs kd)
  from elements_node.prems obtain i where j: "j = Suc i" "k \<le> i" by (cases j) auto
  have "elements i inner" using elements_node.IH(1) j(2) by blast
  moreover have "elements (Suc i) cs" using elements_node.IH(2)[of "Suc i"] j(2) by simp
  ultimately show ?case unfolding j(1) by (rule elements.elements_node)
qed (auto intro: elements.intros)

lemma elements_single: "elements k inner \<Longrightarrow> elements (Suc k) (StartNode kd # inner @ [FinishNode])"
  using elements_node[of k inner "[]" kd] by simp

fun call_token :: "BuilderCall \<Rightarrow> (SysmlSyntaxKind \<times> string) option" where
  "call_token (AddToken kd s) = Some (kd, s)"
| "call_token _ = None"

definition call_tokens :: "BuilderCall list \<Rightarrow> (SysmlSyntaxKind \<times> string) list" where
  "call_tokens cs = List.map_filter call_token cs"

definition syntax_token :: "LexedSysmlToken \<Rightarrow> SysmlSyntaxKind \<times> string" where
  "syntax_token t = (token_to_syntax_kind (lexed_token t), lexed_slice t)"

lemma call_tokens_simps [simp]:
  "call_tokens [] = []" "call_tokens (AddToken kd s # cs) = (kd, s) # call_tokens cs"
  "call_tokens (StartNode kd # cs) = call_tokens cs" "call_tokens (FinishNode # cs) = call_tokens cs"
  "call_tokens (cs @ cs') = call_tokens cs @ call_tokens cs'"
  by (simp_all add: call_tokens_def List.map_filter_def)

text \<open>
  How many blocks are open after some tokens, of which at most \<open>m\<close> may be open at a time; none for an error.
\<close>

fun open_blocks :: "nat \<Rightarrow> nat \<Rightarrow> LexedSysmlToken list \<Rightarrow> nat option" where
  "open_blocks m k [] = Some k"
| "open_blocks m k (t # ts) =
     (if lexed_token t = LBrace then (if k < m then open_blocks m (Suc k) ts else None)
      else if lexed_token t = RBrace then (if k = 0 then None else open_blocks m (k - 1) ts)
      else if lexed_token t = ErrorToken then None
      else open_blocks m k ts)"

lemma open_blocks_append: "open_blocks m k (xs @ ys) = Option.bind (open_blocks m k xs) (\<lambda>j. open_blocks m j ys)"
  by (induction m k xs rule: open_blocks.induct) auto

text \<open>The diagnostics of a stretch of tokens inside a block at which \<open>m\<close> more blocks may be opened.\<close>

definition accounted :: "nat \<Rightarrow> LexedSysmlToken list \<Rightarrow> string list \<Rightarrow> LexedSysmlToken list \<Rightarrow> bool" where
  "accounted m used ds after =
     (if ds = [] then \<forall>i. open_blocks (m + i) i used = Some i
      else (\<forall>i. open_blocks (m + i) i used = None)
        \<or> (after = [] \<and> (\<exists>j > 0. \<forall>i. open_blocks (m + i) i used = Some (i + j))))"

lemma accounted_none: "accounted m [] [] after"
  by (simp add: accounted_def)

lemma accounted_nothing: "accounted m [] ds after \<Longrightarrow> ds = []"
  by (auto simp: accounted_def split: if_splits)

lemma accounted_append:
  assumes "accounted m u d (u' @ after)" "accounted m u' d' after"
  shows "accounted m (u @ u') (d @ d') after"
proof (cases "d = []")
  case True
  with assms show ?thesis by (simp add: accounted_def open_blocks_append)
next
  case False
  consider "\<forall>i. open_blocks (m + i) i u = None"
    | "u' = []" "after = []" "\<exists>j > 0. \<forall>i. open_blocks (m + i) i u = Some (i + j)"
    using assms(1) False by (auto simp: accounted_def)
  then show ?thesis
  proof cases
    case 1
    with False show ?thesis by (simp add: accounted_def open_blocks_append)
  next
    case 2
    with assms(2) have "d' = []" by (auto dest: accounted_nothing)
    with 2 False show ?thesis by (simp add: accounted_def)
  qed
qed

text \<open>From one state to another the parser consumed tokens, built complete elements of them and said what was wrong.\<close>

definition steps_with ::
    "(LexedSysmlToken list \<Rightarrow> string list \<Rightarrow> LexedSysmlToken list \<Rightarrow> bool) \<Rightarrow> nat \<Rightarrow> SysmlCstBuilder \<Rightarrow> SysmlCstBuilder \<Rightarrow> bool" where
  "steps_with Q k b b' = (\<exists>used cs ds.
     cst_rest b = used @ cst_rest b' \<and> cst_calls b' = cst_calls b @ cs \<and> elements k cs
     \<and> call_tokens cs = map syntax_token used \<and> cst_diagnostics b' = cst_diagnostics b @ ds \<and> Q used ds (cst_rest b'))"

abbreviation steps :: "nat \<Rightarrow> nat \<Rightarrow> SysmlCstBuilder \<Rightarrow> SysmlCstBuilder \<Rightarrow> bool" where
  "steps k m \<equiv> steps_with (accounted m) k"

lemma steps_none [simp]: "steps k m b b"
  unfolding steps_with_def by (intro exI[of _ "[]"]) (simp add: accounted_none)

lemma steps_with_trans:
  assumes "steps_with Q k b b'" "steps_with R k b' b''"
    "\<And>u d u' d' after. Q u d (u' @ after) \<Longrightarrow> R u' d' after \<Longrightarrow> P (u @ u') (d @ d') after"
  shows "steps_with P k b b''"
proof -
  from assms(1) obtain u cs d where 1: "cst_rest b = u @ cst_rest b'" "cst_calls b' = cst_calls b @ cs" "elements k cs"
    "call_tokens cs = map syntax_token u" "cst_diagnostics b' = cst_diagnostics b @ d" "Q u d (cst_rest b')"
    unfolding steps_with_def by blast
  from assms(2) obtain u' cs' d' where 2: "cst_rest b' = u' @ cst_rest b''" "cst_calls b'' = cst_calls b' @ cs'" "elements k cs'"
    "call_tokens cs' = map syntax_token u'" "cst_diagnostics b'' = cst_diagnostics b' @ d'" "R u' d' (cst_rest b'')"
    unfolding steps_with_def by blast
  have "P (u @ u') (d @ d') (cst_rest b'')" using assms(3) 1(6) 2(1,6) by simp
  with 1 2 elements_append[OF 1(3) 2(3)] show ?thesis
    unfolding steps_with_def by (intro exI[of _ "u @ u'"] exI[of _ "cs @ cs'"] exI[of _ "d @ d'"]) simp
qed

lemma steps_trans: "steps k m b b' \<Longrightarrow> steps k m b' b'' \<Longrightarrow> steps k m b b''"
  by (erule (1) steps_with_trans) (rule accounted_append)

lemma steps_mono: "steps_with Q k b b' \<Longrightarrow> k \<le> j \<Longrightarrow> steps_with Q j b b'"
  unfolding steps_with_def using elements_mono by blast

lemma steps_suffix: "steps_with Q k b b' \<Longrightarrow> \<exists>u. cst_rest b = u @ cst_rest b'"
  unfolding steps_with_def by blast

lemma steps_in_node:
  assumes "steps_with Q k (builder_call (StartNode kd) b) (f (builder_call (StartNode kd) b))"
  shows "steps_with Q (Suc k) b (in_node kd f b)"
proof -
  from assms obtain u cs d where 1: "cst_rest b = u @ cst_rest (in_node kd f b)" "elements k cs"
    "cst_calls (f (builder_call (StartNode kd) b)) = cst_calls b @ StartNode kd # cs" 
    "call_tokens cs = map syntax_token u" "cst_diagnostics (f (builder_call (StartNode kd) b)) = cst_diagnostics b @ d"
    "Q u d (cst_rest (in_node kd f b))"
    unfolding steps_with_def by (auto simp: builder_call_def in_node_def)
  from 1 elements_single[OF 1(2), of kd] show ?thesis
    unfolding steps_with_def
    by (intro exI[of _ u] exI[of _ "StartNode kd # cs @ [FinishNode]"] exI[of _ d]) (simp add: in_node_def builder_call_def)
qed

definition is_block_brace :: "LexedSysmlToken \<Rightarrow> bool" where
  "is_block_brace t \<longleftrightarrow> lexed_token t \<in> {LBrace, RBrace}"

lemma steps_emit_with:
  assumes "cst_rest b = t # ts" "Q [t] (if lexed_token t = ErrorToken then [lexical_error t] else []) ts"
  shows "steps_with Q k b (emit_current_token b)"
  using assms unfolding steps_with_def
  by (intro exI[of _ "[t]"] exI[of _ "[AddToken (token_to_syntax_kind (lexed_token t)) (lexed_slice t)]"]
      exI[of _ "if lexed_token t = ErrorToken then [lexical_error t] else []"])
    (auto simp: emit_current_token_def builder_call_def push_diagnostic_def syntax_token_def elements_token)

lemma steps_emit:
  assumes "\<And>t ts. cst_rest b = t # ts \<Longrightarrow> \<not> is_block_brace t"
  shows "steps k m b (emit_current_token b)"
proof (cases "cst_rest b")
  case Nil
  then have "emit_current_token b = b" by (simp add: emit_current_token_def)
  then show ?thesis by simp
next
  case (Cons t ts)
  show ?thesis
    by (rule steps_emit_with[OF Cons]) (use assms[OF Cons] in \<open>auto simp: accounted_def is_block_brace_def\<close>)
qed

lemma steps_run:
  assumes "\<And>t. is_block_brace t \<Longrightarrow> stop t" "cst_rest b = ts"
  shows "steps k m b (emit_run stop final ts b)"
  using assms(2)
proof (induction ts arbitrary: b)
  case (Cons t ts)
  show ?case
  proof (cases "stop t")
    case False
    then have t: "steps k m b (emit_current_token b)"
      using Cons.prems assms(1) by (intro steps_emit) auto
    have "steps k m (emit_current_token b) (emit_run stop final ts (emit_current_token b))"
      by (rule Cons.IH) (simp add: Cons.prems)
    with t have "steps k m b (emit_run stop final ts (emit_current_token b))" by (rule steps_trans)
    with t False show ?thesis by simp
  qed simp
qed simp

lemma steps_while: "(\<And>t. is_block_brace t \<Longrightarrow> \<not> p t) \<Longrightarrow> steps k m b (emit_while p b)"
  unfolding emit_while_def by (rule steps_run) auto

lemma steps_spaces: "steps k m b (emit_whitespace_and_line_comments b)"
  unfolding emit_whitespace_and_line_comments_def
  by (rule steps_while) (auto simp: is_block_brace_def is_space_token_def)

lemma run_stops:
  "cst_rest b = ts \<Longrightarrow> cst_rest (emit_run (\<lambda>t. \<not> p t) (\<lambda>_. False) ts b) = dropWhile p ts"
proof (induction ts arbitrary: b)
  case (Cons t ts)
  have "cst_rest (emit_run (\<lambda>t. \<not> p t) (\<lambda>_. False) ts (emit_current_token b)) = dropWhile p ts"
    by (rule Cons.IH) (simp add: Cons.prems)
  with Cons.prems show ?case by simp
qed simp

lemma spaces_stop: "cst_rest (emit_whitespace_and_line_comments b) = dropWhile is_space_token (cst_rest b)"
  by (simp add: emit_whitespace_and_line_comments_def emit_while_def run_stops)

text \<open>The three clauses of a header.\<close>

lemma steps_clauses:
  assumes "cst_rest b = t # ts" "\<not> is_block_brace t"
  shows "steps (Suc k) m b (parse_specialization_clause b)" "steps (Suc k) m b (parse_multiplicity_bounds b)"
    "steps (Suc k) m b (parse_cst_expression b)"
proof -
  have first: "steps k m (builder_call c b) (emit_current_token (builder_call c b))" for c
    by (rule steps_emit) (use assms in auto)
  show "steps (Suc k) m b (parse_specialization_clause b)"
    unfolding parse_specialization_clause_def
    by (rule steps_in_node, rule steps_trans[OF first], rule steps_while) (auto simp: is_block_brace_def)
  show "steps (Suc k) m b (parse_multiplicity_bounds b)"
    unfolding parse_multiplicity_bounds_def Let_def
    by (rule steps_in_node, rule steps_trans[OF first], rule steps_run) (auto simp: is_block_brace_def)
  show "steps (Suc k) m b (parse_cst_expression b)"
    unfolding parse_cst_expression_def
    by (rule steps_in_node, rule steps_trans[OF first], rule steps_while) (auto simp: is_block_brace_def)
qed

text \<open>The recovery from a block that is too deep emits all it consumes.\<close>

lemma steps_balanced: "cst_rest b = ts \<Longrightarrow> steps_with (\<lambda>u d a. True) k b (emit_balanced d ts b)"
proof (induction d ts b rule: emit_balanced.induct)
  case (1 d b)
  then show ?case unfolding steps_with_def by (intro exI[of _ "[]"]) auto
next
  case (2 d tok ts b)
  have one: "steps_with (\<lambda>u d a. True) k b (emit_current_token b)"
    by (rule steps_emit_with[OF "2.prems"]) simp
  have rest: "cst_rest (emit_current_token b) = ts" by (simp add: "2.prems")
  have more: "steps_with (\<lambda>u d a. True) k b b'" if "steps_with (\<lambda>u d a. True) k (emit_current_token b) b'" for b'
    by (rule steps_with_trans[OF one that]) simp
  show ?case
    using one more "2.IH" rest by simp
qed

lemma balanced_shorter: "cst_rest b = ts \<Longrightarrow> length (cst_rest (emit_balanced d ts b)) \<le> length ts"
  using steps_suffix[OF steps_balanced, of b ts d] by (metis length_append le_add2)

text \<open>The tokens of the lexer: the slice of an opening brace is the brace.\<close>

definition brace_slices :: "LexedSysmlToken list \<Rightarrow> bool" where
  "brace_slices ts = list_all (\<lambda>t. lexed_token t = LBrace \<longrightarrow> lexed_slice t = ''{'') ts"

lemma brace_slices_suffix: "brace_slices (u @ ts) \<Longrightarrow> brace_slices ts"
  by (simp add: brace_slices_def)

lemma brace_is_statement:
  assumes "cst_rest b = t # ts" "lexed_token t = LBrace" "brace_slices (cst_rest b)"
  shows "fst (classify_construct_at_cursor b) = StatementNode"
proof -
  have s: "lexed_slice t = ''{''" using assms by (simp add: brace_slices_def)
  have "\<exists>us. dropWhile (\<lambda>t. is_leading_modifier (lexed_slice t)) (peek_non_trivia 8 b) = t # us"
    using assms(1,2) s by (simp add: peek_non_trivia_def is_leading_modifier_def)
  then show ?thesis
    using s by (auto simp: classify_construct_at_cursor_def Let_def classify_clause_1_3_kind_def classify_clause_4_6_kind_def)
qed

text \<open>A documentation comment of several tokens.\<close>

lemma doc_block_no_brace:
  "doc_block_at ts = Some i \<Longrightarrow> i < length ts \<and> (\<forall>j \<le> i. \<not> is_block_brace (ts ! j))"
proof (induction ts arbitrary: i)
  case (Cons t ts)
  show ?case
  proof (cases "is_space_token t")
    case True
    with Cons.prems obtain j where j: "doc_block_at ts = Some j" "i = Suc j" by auto
    from Cons.IH[OF j(1)] j(2) True show ?thesis
      by (auto simp: nth_Cons is_space_token_def is_block_brace_def split: nat.split)
  next
    case False
    with Cons.prems show ?thesis by (auto simp: is_block_brace_def split: if_splits)
  qed
qed simp

lemma steps_emit_many:
  "\<forall>j < i. j < length (cst_rest b) \<longrightarrow> \<not> is_block_brace (cst_rest b ! j) \<Longrightarrow> steps k m b ((emit_current_token ^^ i) b)"
proof (induction i arbitrary: b)
  case (Suc i)
  have t: "steps k m b (emit_current_token b)"
    by (rule steps_emit) (use Suc.prems in force)
  have "steps k m (emit_current_token b) ((emit_current_token ^^ i) (emit_current_token b))"
  proof (rule Suc.IH, intro allI impI)
    fix j assume "j < i" "j < length (cst_rest (emit_current_token b))"
    then show "\<not> is_block_brace (cst_rest (emit_current_token b) ! j)"
      using Suc.prems[rule_format, of "Suc j"] by (simp add: nth_tl)
  qed
  with t show ?case by (simp add: funpow_swap1) (rule steps_trans)
qed simp

lemma rest_emit_many: "cst_rest ((emit_current_token ^^ i) b) = drop i (cst_rest b)"
  by (induction i) (simp_all add: tl_drop drop_Suc)

lemma steps_doc:
  assumes "try_parse_doc_comment_node b = Some b'" "cst_rest b = t # ts" "\<not> is_block_brace t"
  shows "steps (Suc k) m b b'" "length (cst_rest b') < length (cst_rest b)"
proof -
  from assms(1,2) obtain i where i: "doc_block_at ts = Some i" and b': "b' = in_node DocCommentNode (emit_current_token ^^ (i + 2)) b"
    by (auto simp: try_parse_doc_comment_node_def)
  have "\<not> is_block_brace (cst_rest b ! j)" if "j < i + 2" for j
    using that assms(2,3) doc_block_no_brace[OF i] by (auto simp: nth_Cons split: nat.split)
  then show "steps (Suc k) m b b'"
    unfolding b' by (intro steps_in_node steps_emit_many) simp
  show "length (cst_rest b') < length (cst_rest b)"
    unfolding b' by (simp add: rest_emit_many assms(2) del: funpow.simps)
qed

section \<open>Blocks\<close>

lemma accounted_inside:
  "accounted m inner ds (r # after) \<Longrightarrow> open_blocks (m + i) i inner = (if ds = [] then Some i else None)"
  by (auto simp: accounted_def split: if_splits)

lemma accounted_closed:
  assumes "accounted m inner ds (r # after)" "lexed_token l = LBrace" "lexed_token r = RBrace"
  shows "accounted (Suc m) (l # inner @ [r]) ds after"
proof -
  have "open_blocks (Suc m + i) i (l # inner @ [r]) = Option.bind (open_blocks (m + Suc i) (Suc i) inner) (\<lambda>j. open_blocks (Suc m + i) j [r])" for i
    using assms(2) by (simp add: open_blocks_append)
  moreover have "open_blocks (m + Suc i) (Suc i) inner = (if ds = [] then Some (Suc i) else None)" for i
    by (rule accounted_inside[OF assms(1)])
  ultimately have "open_blocks (Suc m + i) i (l # inner @ [r]) = (if ds = [] then Some i else None)" for i
    using assms(3) by simp
  then show ?thesis by (auto simp: accounted_def)
qed

lemma accounted_unclosed:
  assumes "accounted m inner ds []" "lexed_token l = LBrace"
  shows "accounted (Suc m) (l # inner) (ds @ [d]) []"
proof -
  have step: "open_blocks (Suc m + i) i (l # inner) = open_blocks (m + Suc i) (Suc i) inner" for i
    using assms(2) by simp
  consider "\<forall>i. open_blocks (m + i) i inner = None" | j where "\<forall>i. open_blocks (m + i) i inner = Some (i + j)"
    using assms(1) by (auto simp: accounted_def split: if_splits)
  then show ?thesis
  proof cases
    case 1
    then have "open_blocks (Suc m + i) i (l # inner) = None" for i by (simp only: step)
    then show ?thesis by (simp add: accounted_def)
  next
    case 2
    then have "open_blocks (Suc m + i) i (l # inner) = Some (i + Suc j)" for i by (simp only: step) simp
    then show ?thesis unfolding accounted_def by auto
  qed
qed

text \<open>A parser of what starts at a token consumes it, accounts for it and nests no deeper than \<open>k\<close>.\<close>

definition consumes :: "nat \<Rightarrow> nat \<Rightarrow> SysmlCstBuilder \<Rightarrow> SysmlCstBuilder option \<Rightarrow> bool" where
  "consumes k m b r = (\<exists>b'. r = Some b' \<and> steps k m b b' \<and> length (cst_rest b') < length (cst_rest b))"

lemma steps_push_start:
  assumes "steps_with Q k (push_diagnostic d b) b'" 
  shows "steps_with (\<lambda>u ds a. \<exists>ds'. ds = d # ds' \<and> Q u ds' a) k b b'"
  using assms unfolding steps_with_def push_diagnostic_def by fastforce

lemma steps_push_end:
  assumes "steps_with Q k b b'" 
  shows "steps_with (\<lambda>u ds a. \<exists>ds'. ds = ds' @ [d] \<and> Q u ds' a) k b (push_diagnostic d b')"
  using assms unfolding steps_with_def push_diagnostic_def by fastforce

lemma steps_weaken: "steps_with Q k b b' \<Longrightarrow> (\<And>u ds. cst_rest b = u @ cst_rest b' \<Longrightarrow> Q u ds (cst_rest b') \<Longrightarrow> R u ds (cst_rest b')) \<Longrightarrow> steps_with R k b b'"
  unfolding steps_with_def by blast

lemma header_consumes:
  assumes body: "\<And>s b t ts. cst_rest b = t # ts \<Longrightarrow> lexed_token t = LBrace \<Longrightarrow> brace_slices (cst_rest b) \<Longrightarrow> consumes (Suc k) m b (body s b)"
    and "brace_slices (cst_rest b)"
  shows "\<exists>b'. parse_header_and_tail body b = Some b' \<and> steps (Suc k) m b b'
    \<and> (\<forall>t ts. cst_rest b = t # ts \<longrightarrow> lexed_token t \<noteq> RBrace \<longrightarrow> length (cst_rest b') < length (cst_rest b))"
  using assms(2)
proof (induction "length (cst_rest b)" arbitrary: b rule: less_induct)
  case less
  show ?case
  proof (cases "cst_rest b")
    case Nil
    then show ?thesis by (subst parse_header_and_tail.simps) simp
  next
    case (Cons t ts)
    have emit: "steps (Suc k) m b (emit_current_token b)" if "\<not> is_block_brace t"
      by (rule steps_emit) (use Cons that in auto)
    have on: "\<exists>b''. parse_header_and_tail body b' = Some b'' \<and> steps (Suc k) m b b'' \<and> length (cst_rest b'') < length (cst_rest b)"
      if b': "steps (Suc k) m b b'" "length (cst_rest b') < length (cst_rest b)" for b'
    proof -
      have ok: "brace_slices (cst_rest b')"
        using steps_suffix[OF b'(1)] less.prems brace_slices_suffix by metis
      from less.hyps[OF b'(2) ok] obtain b'' where b'': "parse_header_and_tail body b' = Some b''" "steps (Suc k) m b' b''" by blast
      have "length (cst_rest b'') \<le> length (cst_rest b')" using steps_suffix[OF b''(2)] by (metis length_append le_add2)
      with b' b'' show ?thesis by (auto intro: steps_trans)
    qed
    have clauses: "\<not> is_block_brace t \<Longrightarrow> steps (Suc k) m b (parse_specialization_clause b)"
      "\<not> is_block_brace t \<Longrightarrow> steps (Suc k) m b (parse_multiplicity_bounds b)"
      "\<not> is_block_brace t \<Longrightarrow> steps (Suc k) m b (parse_cst_expression b)"
      using steps_clauses[OF Cons] by auto
    consider (semi) "lexed_token t = Semi" | (close) "lexed_token t = RBrace" | (block) "lexed_token t = LBrace"
      | (other) "\<not> is_block_brace t" "lexed_token t \<noteq> Semi"
      by (auto simp: is_block_brace_def)
    then show ?thesis
    proof cases
      case semi
      with emit Cons show ?thesis by (subst parse_header_and_tail.simps) (auto simp: is_block_brace_def)
    next
      case close
      with Cons show ?thesis by (subst parse_header_and_tail.simps) auto
    next
      case block
      from body[OF Cons block less.prems, of "fst (lexed_span t)"] block Cons show ?thesis
        by (subst parse_header_and_tail.simps) (auto simp: consumes_def)
    next
      case other
      have "\<exists>b''. parse_header_and_tail body b = Some b'' \<and> steps (Suc k) m b b'' \<and> length (cst_rest b'') < length (cst_rest b)"
        using other Cons on[OF clauses(1)] on[OF clauses(2)] on[OF clauses(3)] on[OF emit] rest_clauses[OF Cons]
        by (subst parse_header_and_tail.simps) (simp add: is_block_brace_def)
      then show ?thesis by blast
    qed
  qed
qed

text \<open>The loop over a sequence, whether it ends at a closing brace or not.\<close>

lemma sequence_consumes:
  assumes construct: "\<And>b t ts. cst_rest b = t # ts \<Longrightarrow> lexed_token t \<noteq> RBrace \<Longrightarrow> brace_slices (cst_rest b) \<Longrightarrow> consumes k m b (construct b)"
    and "brace_slices (cst_rest b)"
  shows "\<exists>b'. sequence_loop construct True b = Some b' \<and> steps k m b b'
    \<and> (\<forall>t ts. cst_rest b' = t # ts \<longrightarrow> lexed_token t = RBrace)"
  using assms(2)
proof (induction "length (cst_rest b)" arbitrary: b rule: less_induct)
  case less
  let ?b = "emit_whitespace_and_line_comments b"
  have sp: "steps k m b ?b" by (rule steps_spaces)
  then obtain u where u: "cst_rest b = u @ cst_rest ?b" using steps_suffix by blast
  with less.prems have ok: "brace_slices (cst_rest ?b)" using brace_slices_suffix by metis
  show ?case
  proof (cases "cst_rest b = []")
    case True
    then show ?thesis by (subst sequence_loop.simps) simp
  next
    case nonempty: False
    show ?thesis
    proof (cases "\<exists>t ts. cst_rest ?b = t # ts \<and> lexed_token t \<noteq> RBrace")
      case False
      with nonempty sp show ?thesis
        by (subst sequence_loop.simps) (auto simp: Let_def split: list.split)
    next
      case True
      then obtain t ts where t: "cst_rest ?b = t # ts" "lexed_token t \<noteq> RBrace" by blast
      from construct[OF t ok] obtain b' where b': "construct ?b = Some b'" "steps k m ?b b'" "length (cst_rest b') < length (cst_rest ?b)"
        by (auto simp: consumes_def)
      have shorter: "length (cst_rest b') < length (cst_rest b)" using b'(3) u by simp
      have "brace_slices (cst_rest b')" using steps_suffix[OF b'(2)] ok brace_slices_suffix by metis
      from less.hyps[OF shorter this] obtain b'' where "sequence_loop construct True b' = Some b''" "steps k m b' b''"
        "\<forall>t ts. cst_rest b'' = t # ts \<longrightarrow> lexed_token t = RBrace" by blast
      with nonempty t b' shorter steps_trans[OF sp b'(2)] show ?thesis
        by (subst sequence_loop.simps) (auto intro: steps_trans)
    qed
  qed
qed

lemma emit_opening:
  assumes "cst_rest b = t # ts" "lexed_token t = LBrace"
  shows "steps_with (\<lambda>u d a. u = [t] \<and> d = []) k b (emit_current_token b)"
  by (rule steps_emit_with[OF assms(1)]) (simp add: assms(2))

lemma body_consumes:
  assumes construct: "\<And>b t ts. 1 < n \<Longrightarrow> cst_rest b = t # ts \<Longrightarrow> lexed_token t \<noteq> RBrace \<Longrightarrow> brace_slices (cst_rest b)
      \<Longrightarrow> consumes n (n - 2) b (parse_next_construct (n - 1) b)"
    and n: "0 < n" and b: "cst_rest b = t # ts" "lexed_token t = LBrace" "brace_slices (cst_rest b)"
  shows "consumes n (n - 1) b (parse_braced_body n s b)"
proof (cases "n \<le> 1")
  case True
  with n have n1: "n = Suc 0" by simp
  let ?p = "push_diagnostic (depth_exceeded s) b"
  let ?b' = "in_node ErrorNode (\<lambda>b. emit_balanced 0 (cst_rest b) b) ?p"
  have short: "length (cst_rest ?b') < length (cst_rest b)"
    using b balanced_shorter[of "emit_current_token (builder_call (StartNode ErrorNode) ?p)" ts 1] by simp
  have "steps_with (\<lambda>u d a. True) (Suc 0) ?p ?b'"
    by (rule steps_in_node) (rule steps_balanced, simp)
  then have "steps_with (\<lambda>u ds a. ds \<noteq> []) (Suc 0) b ?b'"
    by (rule steps_weaken[OF steps_push_start]) auto
  then have "steps (Suc 0) 0 b ?b'"
  proof (rule steps_weaken)
    fix u and ds :: "string list" assume u: "cst_rest b = u @ cst_rest ?b'" and ds: "ds \<noteq> []"
    have "u \<noteq> []"
    proof
      assume "u = []"
      with u have "length (cst_rest b) = length (cst_rest ?b')" by (simp only: append_Nil)
      with short show False by (simp only: less_irrefl)
    qed
    then obtain t' u' where "u = t' # u'" by (cases u) blast+
    moreover from this u b(1) have "t' = t" by (metis append_Cons list.inject)
    ultimately show "accounted 0 u ds (cst_rest ?b')" using b(2) ds by (simp add: accounted_def)
  qed
  with n1 short show ?thesis by (simp add: consumes_def parse_braced_body.simps)
next
  case False
  define m where "m = n - 2"
  with False have n2: "n = Suc (Suc m)" by simp
  let ?e = "emit_current_token b"
  have e: "steps_with (\<lambda>u d a. u = [t] \<and> d = []) n b ?e" by (rule emit_opening[OF b(1,2)])
  have ok: "brace_slices (cst_rest ?e)" using b(1,3) by (simp add: brace_slices_def)
  obtain b1 where b1: "sequence_loop (parse_next_construct (Suc m)) True ?e = Some b1" "steps n m ?e b1"
    "\<forall>t ts. cst_rest b1 = t # ts \<longrightarrow> lexed_token t = RBrace"
    using sequence_consumes[of n m "parse_next_construct (Suc m)" ?e] construct ok n2 by force
  have inner: "steps_with (\<lambda>u d a. \<exists>u'. u = t # u' \<and> accounted m u' d a) n b b1"
    by (rule steps_with_trans[OF e b1(2)]) auto
  obtain u where u: "ts = u @ cst_rest b1" using steps_suffix[OF b1(2)] b(1) by auto
  show ?thesis
  proof (cases "cst_rest b1")
    case Nil
    have "steps n (Suc m) b (push_diagnostic (unclosed_block s) b1)"
      by (rule steps_weaken[OF steps_push_end[OF inner]]) (use Nil b(2) in \<open>auto intro: accounted_unclosed\<close>)
    with False n2 b1(1) Nil b(1) show ?thesis by (simp add: consumes_def parse_braced_body.simps)
  next
    case (Cons r rs)
    with b1(3) have r: "lexed_token r = RBrace" by blast
    have "steps_with (\<lambda>u d a. u = [r] \<and> d = []) n b1 (emit_current_token b1)"
      by (rule steps_emit_with[OF Cons]) (simp add: r)
    with inner have "steps n (Suc m) b (emit_current_token b1)"
      by (rule steps_with_trans) (use b(2) r in \<open>auto intro: accounted_closed\<close>)
    with False n2 b1(1) Cons b(1) r u show ?thesis by (simp add: consumes_def parse_braced_body.simps)
  qed
qed

lemma error_node_steps:
  assumes "cst_rest b = t # ts" "\<not> is_block_brace t"
  shows "steps (Suc k) m b (in_node kd emit_current_token b)" 
  by (rule steps_in_node, rule steps_emit) (use assms in auto)

lemma construct_consumes:
  assumes "0 < n" "cst_rest b = t # ts" "lexed_token t \<noteq> RBrace" "brace_slices (cst_rest b)"
  shows "consumes (Suc n) (n - 1) b (parse_next_construct n b)"
  using assms
proof (induction n arbitrary: b t ts)
  case (Suc n)
  have body: "consumes (Suc n) n b (parse_braced_body (Suc n) s b)"
    if "cst_rest b = t # ts" "lexed_token t = LBrace" "brace_slices (cst_rest b)" for s b t ts
  proof -
    have "consumes (Suc n) (Suc n - 1) b (parse_braced_body (Suc n) s b)"
      by (rule body_consumes[OF _ _ that]) (use Suc.IH in \<open>auto simp: numeral_2_eq_2\<close>)
    then show ?thesis by simp
  qed
  consider (doc) "lexed_token t = BlockComment" | (err) "lexed_token t = ErrorToken"
    | (decl) "lexed_token t \<noteq> BlockComment" "lexed_token t \<noteq> ErrorToken" by blast
  then show ?case
  proof cases
    case doc
    with Suc.prems error_node_steps[OF Suc.prems(2)] show ?thesis
      by (subst parse_next_construct.simps) (simp add: consumes_def is_block_brace_def)
  next
    case err
    with Suc.prems error_node_steps[OF Suc.prems(2)] show ?thesis
      by (subst parse_next_construct.simps) (simp add: consumes_def is_block_brace_def error_token_node_def)
  next
    case decl
    obtain kd summary where c: "classify_construct_at_cursor b = (kd, summary)" by fastforce
    show ?thesis
    proof (cases "if kd = DocCommentNode then try_parse_doc_comment_node b else None")
      case (Some b')
      then have tried: "try_parse_doc_comment_node b = Some b'" and kd: "kd = DocCommentNode" by (auto split: if_splits)
      have "lexed_token t \<noteq> LBrace" using brace_is_statement[OF Suc.prems(2) _ Suc.prems(4)] c kd by auto
      then have "\<not> is_block_brace t" using Suc.prems(3) by (simp add: is_block_brace_def)
      from steps_doc[OF tried Suc.prems(2) this] Suc.prems(2) decl c kd tried show ?thesis
        by (subst parse_next_construct.simps) (simp add: consumes_def)
    next
      case None
      define b1 where "b1 = b\<lparr>cst_constructs := cst_constructs b @ (case summary of None \<Rightarrow> [] | Some s \<Rightarrow> [s])\<rparr>"
      have same: "steps_with Q k b1 b' \<Longrightarrow> steps_with Q k b b'" for Q k b' by (simp add: steps_with_def b1_def)
      have rest: "cst_rest (builder_call (StartNode kd) b1) = cst_rest b" by (simp add: b1_def)
      obtain b' where b': "parse_header_and_tail (parse_braced_body (Suc n)) (builder_call (StartNode kd) b1) = Some b'"
        "steps (Suc n) n (builder_call (StartNode kd) b1) b'" "length (cst_rest b') < length (cst_rest b)"
      proof -
        let ?s = "builder_call (StartNode kd) b1"
        have "\<exists>b'. parse_header_and_tail (parse_braced_body (Suc n)) ?s = Some b' \<and> steps (Suc n) n ?s b'
            \<and> (\<forall>t ts. cst_rest ?s = t # ts \<longrightarrow> lexed_token t \<noteq> RBrace \<longrightarrow> length (cst_rest b') < length (cst_rest ?s))"
          by (rule header_consumes[OF body]) (simp_all only: rest Suc.prems(4))
        with that show ?thesis using Suc.prems(2,3) unfolding rest by blast
      qed
      have "steps (Suc (Suc n)) n b1 (in_node kd (\<lambda>_. b') b1)"
        by (rule steps_in_node) (rule b'(2))
      then have "steps (Suc (Suc n)) n b (builder_call FinishNode b')" by (intro same) (simp add: in_node_def)
      with b' None decl c Suc.prems(2) show ?thesis
        by (subst parse_next_construct.simps) (simp add: consumes_def b1_def[symmetric] Let_def)
    qed
  qed
qed simp

section \<open>The whole file\<close>

lemma token_slices: "brace_slices (tokenize_sysml err source)"
proof -
  have "get_range source i j = ''{''" if m: "(Some LBrace, i, j) \<in> set (lexer err source)" for i j
  proof -
    have "token_at err (drop i source) = (Some LBrace, j - i)" using lexer_member[OF m] by simp
    then have "next_token (drop i source) = Some (LBrace, j - i)" by (auto simp: token_at_def split: option.splits)
    from token_brace[OF this] have "take (j - i) (drop i source) = ''{''" by (auto simp: opaque_kind_def)
    then show ?thesis by (simp add: get_range_def)
  qed
  then show ?thesis
    by (fastforce simp: brace_slices_def list_all_iff tokenize_sysml_def split: option.splits)
qed

text \<open>The loop over a file goes on at a closing brace that matches nothing.\<close>

definition file_accounted :: "LexedSysmlToken list \<Rightarrow> string list \<Rightarrow> LexedSysmlToken list \<Rightarrow> bool" where
  "file_accounted used ds after \<longleftrightarrow> (ds = [] \<longleftrightarrow> open_blocks 63 0 used = Some 0)"

lemma accounted_then_file:
  assumes "accounted 63 u d (u' @ after)" "file_accounted u' d' after"
  shows "file_accounted (u @ u') (d @ d') after"
proof (cases "d = []")
  case True
  then have "open_blocks 63 0 u = Some 0" using assms(1) by (auto simp: accounted_def dest: spec[of _ 0])
  with True assms(2) show ?thesis by (simp add: file_accounted_def open_blocks_append)
next
  case False
  with assms(1) consider "open_blocks 63 0 u = None" | j where "u' = []" "0 < j" "open_blocks 63 0 u = Some j"
    by (auto simp: accounted_def dest: spec[of _ 0])
  then show ?thesis using False by cases (auto simp: file_accounted_def open_blocks_append)
qed

lemma file_consumes:
  assumes "brace_slices (cst_rest b)"
  shows "\<exists>b'. sequence_loop (parse_next_construct 64) False b = Some b' \<and> steps_with file_accounted 65 b b' \<and> cst_rest b' = []"
  using assms
proof (induction "length (cst_rest b)" arbitrary: b rule: less_induct)
  case less
  let ?b = "emit_whitespace_and_line_comments b"
  have sp: "steps 65 63 b ?b" by (rule steps_spaces)
  then obtain u where u: "cst_rest b = u @ cst_rest ?b" using steps_suffix by blast
  with less.prems have ok: "brace_slices (cst_rest ?b)" using brace_slices_suffix by metis
  have file_of: "steps_with file_accounted 65 b b'" if "steps 65 63 b b'" "cst_rest b' = []" for b'
    by (rule steps_with_trans[OF that(1), of file_accounted b'])
      (use that(2) accounted_then_file in \<open>auto simp: steps_with_def file_accounted_def\<close>)
  show ?case
  proof (cases "cst_rest ?b")
    case Nil
    show ?thesis
    proof (cases "cst_rest b = []")
      case True
      then show ?thesis using file_of[of b] by (subst sequence_loop.simps) simp
    next
      case False
      then show ?thesis using Nil file_of[OF sp Nil] by (subst sequence_loop.simps) simp
    qed
  next
    case (Cons t ts)
    then have ne: "cst_rest b \<noteq> []" using u by auto
    have "\<exists>b'. (if lexed_token t = RBrace
                then Some (error_token_node (push_diagnostic (unmatched_brace (fst (lexed_span t))) ?b))
                else map_option (\<lambda>b'. if length (cst_rest b') = length (cst_rest ?b) then error_token_node b' else b') (parse_next_construct 64 ?b)) = Some b'
      \<and> length (cst_rest b') < length (cst_rest ?b)
      \<and> steps_with (\<lambda>u d a. accounted 63 u d a \<or> d \<noteq> [] \<and> open_blocks 63 0 u = None) 65 ?b b'"
    proof (cases "lexed_token t = RBrace")
      case True
      let ?p = "push_diagnostic (unmatched_brace (fst (lexed_span t))) ?b"
      have "steps_with (\<lambda>u d a. u = [t]) 64 (builder_call (StartNode ErrorNode) ?p) (emit_current_token (builder_call (StartNode ErrorNode) ?p))"
        by (rule steps_emit_with[of _ t ts]) (use Cons in simp_all)
      then have "steps_with (\<lambda>u d a. u = [t]) (Suc 64) ?p (error_token_node ?p)"
        unfolding error_token_node_def by (rule steps_in_node)
      then have "steps_with (\<lambda>u d a. accounted 63 u d a \<or> d \<noteq> [] \<and> open_blocks 63 0 u = None) (Suc 64) ?b (error_token_node ?p)"
        by (rule steps_weaken[OF steps_push_start]) (auto simp: True)
      with True Cons show ?thesis by (simp add: error_token_node_def)
    next
      case False
      from construct_consumes[of 64, OF _ Cons False ok] obtain b' where
        "parse_next_construct 64 ?b = Some b'" "steps 65 63 ?b b'" "length (cst_rest b') < length (cst_rest ?b)"
        by (auto simp: consumes_def)
      with False show ?thesis by (auto intro: steps_weaken)
    qed
    then obtain b' where round: "(if lexed_token t = RBrace
                then Some (error_token_node (push_diagnostic (unmatched_brace (fst (lexed_span t))) ?b))
                else map_option (\<lambda>b'. if length (cst_rest b') = length (cst_rest ?b) then error_token_node b' else b') (parse_next_construct 64 ?b)) = Some b'"
      and b': "length (cst_rest b') < length (cst_rest ?b)"
      "steps_with (\<lambda>u d a. accounted 63 u d a \<or> d \<noteq> [] \<and> open_blocks 63 0 u = None) 65 ?b b'"
      by blast
    have shorter: "length (cst_rest b') < length (cst_rest b)" using b'(1) u by (metis le_add2 length_append less_le_trans)
    then have loop: "sequence_loop (parse_next_construct 64) False b = sequence_loop (parse_next_construct 64) False b'"
      using Cons ne round by (subst sequence_loop.simps) (simp add: Let_def)
    have "brace_slices (cst_rest b')" using steps_suffix[OF b'(2)] ok brace_slices_suffix by metis
    from less.hyps[OF shorter this] obtain b'' where b'': "sequence_loop (parse_next_construct 64) False b' = Some b''"
      "steps_with file_accounted 65 b' b''" "cst_rest b'' = []" by blast
    have "steps_with file_accounted 65 ?b b''"
      by (rule steps_with_trans[OF b'(2) b''(2)]) (erule disjE, erule (1) accounted_then_file, simp add: file_accounted_def open_blocks_append)
    then have "steps_with file_accounted 65 b b''"
      by (rule steps_with_trans[OF sp]) (rule accounted_then_file)
    with b'' loop show ?thesis by auto
  qed
qed

text \<open>
  C40: The parser of the syntax tree returns on every source and loses nothing: its calls of the tree builder
  make one root of complete elements nested at most 66 deep whose tokens are those of the lexer in order, so
  the tree of any builder that keeps the text of its tokens has the text of the source. There is no diagnostic
  exactly when the lexer found no error and the braces match with at most 63 blocks open at a time.
\<close>

theorem syntax_tree_keeps_source:
  assumes "\<And>kd cs. elements 65 cs \<Longrightarrow>
    tree_text (green (StartNode kd # cs @ [FinishNode])) = concat (map snd (call_tokens cs))"
  shows "\<exists>cs constructs ds. parse_sysml_cst green err source =
      Some \<lparr>cst_green = green (StartNode SourceFile # cs @ [FinishNode]), parsed_constructs = constructs, parsed_diagnostics = ds\<rparr>
    \<and> elements 65 cs \<and> call_tokens cs = map syntax_token (tokenize_sysml err source)
    \<and> tree_text (green (StartNode SourceFile # cs @ [FinishNode])) = source
    \<and> (ds = [] \<longleftrightarrow> open_blocks 63 0 (tokenize_sysml err source) = Some 0)"
proof -
  let ?b = "builder_call (StartNode SourceFile) (new_cst_builder (tokenize_sysml err source))"
  have "brace_slices (cst_rest ?b)" using token_slices by (simp add: new_cst_builder_def)
  from file_consumes[OF this] obtain b' where b': "sequence_loop (parse_next_construct 64) False ?b = Some b'"
    "steps_with file_accounted 65 ?b b'" "cst_rest b' = []" by blast
  then obtain cs ds where 1: "cst_calls b' = StartNode SourceFile # cs" "elements 65 cs"
      "call_tokens cs = map syntax_token (tokenize_sysml err source)" "cst_diagnostics b' = ds"
      "ds = [] \<longleftrightarrow> open_blocks 63 0 (tokenize_sysml err source) = Some 0"
    by (auto simp: steps_with_def new_cst_builder_def builder_call_def file_accounted_def)
  have "concat (map snd (call_tokens cs)) = source"
    using sysml_lexer.ranges_concat [of source err] unfolding 1(3)
    by (simp add: syntax_token_def tokenize_sysml_def comp_def case_prod_unfold)
  with b'(1) 1 assms[OF 1(2), of SourceFile] show ?thesis
    by (intro exI[of _ cs]) (simp add: parse_sysml_cst_def build_source_file_def parse_sequence_def MAX_CST_PARSE_DEPTH_def builder_call_def)
qed

text \<open>A builder as \<^verbatim>\<open>rowan\<close> documents it: a stack of the nodes that are open with their children so far.\<close>

datatype GreenTree = GreenToken SysmlSyntaxKind string | GreenNode SysmlSyntaxKind "GreenTree list"

fun green_text :: "GreenTree \<Rightarrow> string" where
  "green_text (GreenToken kd s) = s"
| "green_text (GreenNode kd ts) = concat (map green_text ts)"

fun run_calls :: "BuilderCall list \<Rightarrow> (SysmlSyntaxKind \<times> GreenTree list) list \<Rightarrow> (SysmlSyntaxKind \<times> GreenTree list) list" where
  "run_calls (StartNode kd # cs) st = run_calls cs ((kd, []) # st)"
| "run_calls (AddToken kd s # cs) ((k, ts) # st) = run_calls cs ((k, ts @ [GreenToken kd s]) # st)"
| "run_calls (FinishNode # cs) ((k, ts) # (k', us) # st) = run_calls cs ((k', us @ [GreenNode k ts]) # st)"
| "run_calls _ st = st"

definition green_of_calls :: "BuilderCall list \<Rightarrow> GreenTree" where
  "green_of_calls cs = (case run_calls cs [(SourceFile, [])] of (_, t # _) # _ \<Rightarrow> t | _ \<Rightarrow> GreenNode ErrorNode [])"

lemma run_elements:
  "elements k cs \<Longrightarrow> \<exists>ts. (\<forall>rest kd us st. run_calls (cs @ rest) ((kd, us) # st) = run_calls rest ((kd, us @ ts) # st))
     \<and> concat (map green_text ts) = concat (map snd (call_tokens cs))"
proof (induction k cs rule: elements.induct)
  case (elements_none k)
  show ?case by (rule exI[of _ "[]"]) simp
next
  case (elements_token k cs kd s)
  then obtain ts where "\<forall>rest kd us st. run_calls (cs @ rest) ((kd, us) # st) = run_calls rest ((kd, us @ ts) # st)"
    "concat (map green_text ts) = concat (map snd (call_tokens cs))" by blast
  then show ?case by (intro exI[of _ "GreenToken kd s # ts"]) simp
next
  case (elements_node k inner cs kd)
  then obtain ins ts where
    "\<forall>rest kd us st. run_calls (inner @ rest) ((kd, us) # st) = run_calls rest ((kd, us @ ins) # st)"
    "concat (map green_text ins) = concat (map snd (call_tokens inner))"
    "\<forall>rest kd us st. run_calls (cs @ rest) ((kd, us) # st) = run_calls rest ((kd, us @ ts) # st)"
    "concat (map green_text ts) = concat (map snd (call_tokens cs))" by blast
  then show ?case by (intro exI[of _ "GreenNode kd ins # ts"]) simp
qed

lemma green_keeps_text:
  assumes "elements k cs"
  shows "green_text (green_of_calls (StartNode kd # cs @ [FinishNode])) = concat (map snd (call_tokens cs))"
proof -
  obtain ts where "\<forall>rest kd us st. run_calls (cs @ rest) ((kd, us) # st) = run_calls rest ((kd, us @ ts) # st)"
    "concat (map green_text ts) = concat (map snd (call_tokens cs))" using run_elements[OF assms] by blast
  then show ?thesis by (simp add: green_of_calls_def)
qed

theorem syntax_tree_keeps_source_witness:
  "\<exists>p. parse_sysml_cst green_of_calls (\<lambda>_. 0) ''package P { part a : B [1]; }'' = Some p
     \<and> green_text (cst_green p) = ''package P { part a : B [1]; }'' \<and> parsed_diagnostics p = []"
proof -
  have "open_blocks 63 0 (tokenize_sysml (\<lambda>_. 0) ''package P { part a : B [1]; }'') = Some 0" by code_simp
  moreover have "green_text (green_of_calls (StartNode kd # cs @ [FinishNode])) = concat (map snd (call_tokens cs))"
    if "elements 65 cs" for kd cs by (rule green_keeps_text[OF that])
  note syntax_tree_keeps_source[of green_text green_of_calls "\<lambda>_. 0" "''package P { part a : B [1]; }''", OF this]
  ultimately show ?thesis by auto
qed

text \<open>
  A package whose first member is a library package is itself taken for one: the word is searched for among
  the next eight tokens, past the opening brace.
\<close>

lemma inner_library_marks_package:
  "fst (classify_construct_at_cursor (new_cst_builder (tokenize_sysml (\<lambda>_. 0) ''package P { library package Q; }''))) = LibraryPackageDecl"
  by code_simp

end
