(* ===== verification/Spec2Isabelle.thy ===== *)
theory Spec2Isabelle
  imports Expr_Lowering Rust_Machine Rust_Tree Supply_Receipt Sysml_State_Text Sysml_Extracted Serializer Hir_Limits Safety_Validator Schema_Digest Cst_Expr Sysml_Cst
begin

text \<open>
  \<^bold>\<open>What this library is.\<close> A model of the core of a model-driven engineering tool chain written in Rust
  (the crates \<^verbatim>\<open>compile-sysml\<close> and \<^verbatim>\<open>deap-core\<close> under \<^verbatim>\<open>src/crates\<close>), with the theorems that make
  its components correct. The tool chain reads SysML v2 text, builds a model of packages, parts, ports,
  actions, states, requirements and hazards, renders the constraints of the model as KaTeX and MATLAB,
  and writes a modular Rust program for the model together with digests and receipts that later runs
  check. The modelled parts follow that flow:

    \<^item> \<^emph>\<open>two readers of SysML text\<close>: the extractors of \<^verbatim>\<open>deap-core/src/sysml_cst\<close>, which search a masked
      text for key words, and the front end of \<^verbatim>\<open>compile-sysml/src/salsa_db\<close>, a scanner and a recursive
      descent parser over tokens; both produce the structures of \<^verbatim>\<open>package_model.rs\<close>, and the front end
      has a serializer that writes a model back as text;
    \<^item> \<^emph>\<open>the expression pipeline\<close> of \<^verbatim>\<open>compile-sysml/src/projections/stpa/safety_suite\<close>: lexer, precedence
      climbing parser, KaTeX renderer and MATLAB renderer;
    \<^item> \<^emph>\<open>the modular code generator\<close> of \<^verbatim>\<open>compile-sysml/src/modular_codegen\<close>: outlining of actions and
      states into bounded pieces, hoisting of large constraints, partitioning into modules, the check of
      the module graph, the Rust renderer and the emission and audit of the tree of files;
    \<^item> \<^emph>\<open>the supply chain gate\<close> of \<^verbatim>\<open>deap-core\<close>: SHA-256, the lock file governor and the sealed receipt.

  \<^bold>\<open>Theories and the code they model.\<close> Each theory opens with a text that names its source files.

  Foundations.
    \<^item> \<open>Prelude\<close>: lemmas on lists and chunks, the fact collections, the locale of chunked layouts.
    \<^item> \<open>RustStr\<close>: the part of \<^verbatim>\<open>str\<close> and \<^verbatim>\<open>char\<close> the code uses. \<open>BTree\<close>: \<^verbatim>\<open>BTreeMap\<close> and \<^verbatim>\<open>BTreeSet\<close> as
      key-sorted association lists.

  Expression pipeline (\<^verbatim>\<open>expr_lowering*.rs\<close>).
    \<^item> \<open>Expr_Ast\<close>, \<open>Expr_Lexer\<close>, \<open>Expr_Parser\<close>, \<open>Expr_Katex\<close>, \<open>Expr_Matlab\<close> hold the definitions, one theory
      per source file. \<open>Expr_Lexical\<close> (well formed tokens, rereading), \<open>Expr_Grammar\<close> (what a parse spells,
      as inductive relations), \<open>Expr_Roundtrip\<close> (printing back), \<open>Expr_Render\<close> (the interface of the two
      renderers) hold the lemmas, \<open>Expr_Lowering\<close> the properties.

  Modular code generation and supply chain.
    \<^item> \<open>Sysml_Model\<close>: the element structures of \<^verbatim>\<open>package_model.rs\<close> and its neighbours, the worklist
      traversals and the look-ups. \<open>Modular_Domain\<close>: bounds, layers, module graph (\<^verbatim>\<open>domain/*.rs\<close>).
    \<^item> \<open>Outliner\<close>, \<open>Expr_Anf\<close>, \<open>Partition_Facets\<close>, \<open>Dag_Verifier\<close>, \<open>Partitioner\<close>: \<^verbatim>\<open>lowering/*.rs\<close>.
    \<^item> \<open>Rust_Render\<close>: \<^verbatim>\<open>rust_emitter/render.rs\<close>; \<open>Rust_Machine\<close>: the meaning of the rendered text.
      \<open>File_Tree\<close>, \<open>Rust_Tree\<close>: \<^verbatim>\<open>rust_emitter/manifest.rs\<close> and the file helpers it calls.
    \<^item> \<open>Digest\<close>: \<^verbatim>\<open>deap-core/src/digest.rs\<close>; \<open>Lock_Governor\<close>: \<^verbatim>\<open>workspace/lock_governor.rs\<close>;
      \<open>Supply_Receipt\<close>: \<^verbatim>\<open>rust_cst/envelope.rs\<close>.

  The extractors (\<^verbatim>\<open>deap-core/src/sysml_cst\<close>).
    \<^item> \<open>Sysml_Lexer\<close>: \<^verbatim>\<open>lexer.rs\<close>; \<open>Sysml_Scan\<close>: \<^verbatim>\<open>identifiers.rs\<close> and the masking of \<^verbatim>\<open>model_parser.rs\<close>;
      \<open>Sysml_Braces\<close> and \<open>Sysml_Words\<close>: what brace search, masking and key word search guarantee.
    \<^item> \<open>Sysml_States\<close>, \<open>Sysml_Attributes\<close>, \<open>Sysml_Actions\<close>, \<open>Sysml_Ports\<close>, \<open>Sysml_Expressions\<close>,
      \<open>Sysml_Requirements\<close>, \<open>Sysml_Hazards\<close>, \<open>Sysml_Parts\<close>: one theory per extractor file, in the order the
      extractors call each other. \<open>Sysml_State_Text\<close> and \<open>Sysml_Extracted\<close> hold their properties.
    \<^item> \<open>Sysml_Syntax\<close>: \<^verbatim>\<open>syntax_kind.rs\<close> and the classification of declarations of
      \<^verbatim>\<open>parser_clauses_4_6.rs\<close>; \<open>Sysml_Cst\<close>: the lossless parser \<^verbatim>\<open>parser.rs\<close>, \<^verbatim>\<open>parser_clauses_*.rs\<close> as the
      calls it makes of the builder of \<^verbatim>\<open>rowan\<close>: they form one tree with the text of the source.

  The front end (\<^verbatim>\<open>compile-sysml/src/salsa_db\<close>).
    \<^item> \<open>Cst_Tokens\<close> and \<open>Cst_Scanner\<close>: \<^verbatim>\<open>cst_db.rs\<close>, \<^verbatim>\<open>cst_scanner.rs\<close>. \<open>Hir_Cursor\<close>, \<open>Hir_Core\<close>,
      \<open>Hir_Members\<close>, \<open>Hir_Clauses\<close>, \<open>Hir_States\<close>, \<open>Hir_Package\<close>: the \<^verbatim>\<open>hir_parser_*.rs\<close> files, the merge of
      \<^verbatim>\<open>hir_db.rs\<close>. \<open>Serializer\<close>: \<^verbatim>\<open>safety_serializer*.rs\<close>.
    \<^item> \<open>Cst_Expr\<close>: the expression parser \<^verbatim>\<open>cst_expr.rs\<close> with what it accepts, what it reads back and
      where its printer loses the structure.
    \<^item> \<open>Cst_Returns\<close>, \<open>Hir_Progress\<close>, \<open>Hir_Returns\<close>: which calls return and what they consume;
      \<open>Hir_Limits\<close>: where the parser does not read what the serializer writes.

  Symbols, types and validation (\<^verbatim>\<open>compile-sysml/src/salsa_db\<close>).
    \<^item> \<open>Symbol_Table\<close>: \<^verbatim>\<open>hir_symbols.rs\<close>; \<open>Type_Names\<close>: the type expressions of \<^verbatim>\<open>safety_types.rs\<close>;
      \<open>Safety_Validator\<close>: \<^verbatim>\<open>safety_db.rs\<close> with the scopes and annotation targets of \<^verbatim>\<open>safety_types.rs\<close>;
      \<open>Schema_Digest\<close>: \<^verbatim>\<open>safety_digest.rs\<close>.

  \<^bold>\<open>State and operations.\<close> A Rust struct is a record with the same fields in the same order, an enum a
  datatype with the same constructors; a method is a function that takes the value and returns the updated
  value with the result. \<^verbatim>\<open>Result\<close> is a sum with the error on the left, \<^verbatim>\<open>Option\<close> an option. The cursors of the
  scanners and parsers are slices of the text or of the token list together with what has been read; the
  module graph and the lock snapshot are records over the key-sorted maps of \<open>BTree\<close>; a directory is the
  tree of \<open>File_Tree\<close>.

  \<^bold>\<open>What the lemmas show.\<close>
    \<^item> Expressions: lexing is idempotent on the spelled tokens; the parser returns a tree exactly for the
      token lists of the grammar within the depth limit; both outputs are well formed for every input; the
      MATLAB text, read by a grammar of MATLAB that knows nothing of the renderer, has the truth value of the
      constraint; and two truncations, at the nesting limit of the parser and at
      the depth limit of the renderers, are shown to lose a negation and the head of a chain.
    \<^item> Code generation: every piece is within the bounds, and nothing of the model is lost or reordered;
      Kahn's sort and the layer check decide exactly what they say; the rendered step function, in one file
      or in shards, takes the transition the model declares; a tree that was emitted passes the audit.
    \<^item> Supply chain: the digest is the one of FIPS 180-4; the gate accepts exactly the pinned snapshots; the
      receipt binds its snapshot up to a collision of the digest.
    \<^item> Readers: the lexer partitions the text and takes longest matches; brace search is the search of
      balanced blocks; printed state machines are read back; extracted trees are bounded and well named. The
      scanner of the front end always returns with tokens in order, the parser returns on every file
      except those whose top loop meets a closing brace, where it loops for ever, and each nesting limit is
      exact.
    \<^item> Validation: the symbol table holds exactly the declarations in preorder; a type expression is accepted
      exactly when its names are known and it is not too deep; the models without diagnostics are characterised;
      the scopes of validator and symbol table differ for one shape of root only, which makes the validator
      refuse valid types; the counts of the schema digest agree with each other.
  \<^bold>\<open>Interfaces.\<close> The locales state what a group of operations promises its clients, each interpreted on the
  definitions of the component that provides it: chunked layouts (\<open>Prelude\<close>), the renderers of expressions
  (\<open>Expr_Render\<close>), the key word loops of the extractors (\<open>Sysml_Words\<close>) and others beside their providers.

  \<^bold>\<open>Bounds and fuel.\<close>
    \<^item> Limits of the code are constants of the model with the same value: \<^verbatim>\<open>MAX_EXPR_DEPTH\<close> (64) of the
      expression parser, \<^verbatim>\<open>MAX_AST_RENDER_DEPTH\<close> (512) of the renderers, \<^verbatim>\<open>MAX_AST_DEPTH\<close> (64) of the extractors
      and of the merge, \<^verbatim>\<open>MAX_PARSE_DEPTH\<close> (64) of the front end. A depth counter the code counts up to its limit
      is counted down in the recursive parsers, so that the recursion is structural: the remaining depth is
      not fuel, it is the code's own limit.
    \<^item> Loops over a cursor are functions with a termination proof on the rest of the input where every round
      consumes, and otherwise have an outcome for a loop that does not end: the loops of the front end's parser
      stop with \<open>Diverges\<close> when a round returns at the same position, which in a deterministic loop means that
      it never ends; Kahn's loop and the path walk of the lock governor are option-valued or bounded by a weight and
      are proved to return.

  \<^bold>\<open>Arguments of the model.\<close> Code outside the repository is an argument of the definitions that use it: the
  number of characters an error token of \<^verbatim>\<open>logos\<close> spans (\<open>err\<close>), the text and the parsing of \<^verbatim>\<open>f64\<close> values, the Rust
  tools \<^verbatim>\<open>syn\<close>, \<^verbatim>\<open>prettyplease\<close> and \<^verbatim>\<open>ra_ap_syntax\<close>, the TOML parser, and the existence of the vendor directory.
  Characters are the code points 0 to 255; positions are counted in characters, which agrees with the code's
  byte positions for ASCII text. Counters of \<^verbatim>\<open>usize\<close> are natural numbers where they count things held in memory,
  words where the code relies on wrapping; that the negation of the smallest \<^verbatim>\<open>i64\<close> overflows is not modelled.

  \<^bold>\<open>Not modelled.\<close> The manifest lists every part with the reason. In short: the Salsa databases and what
  reads the \<^verbatim>\<open>rowan\<close> syntax tree of \<^verbatim>\<open>deap-core\<close> (incremental bookkeeping over third-party libraries); the field descriptors,
  digests and persistence of models (serde derives); token synthesis with \<^verbatim>\<open>quote\<close> and the source bridges over
  \<^verbatim>\<open>ra_ap_syntax\<close> and \<^verbatim>\<open>tree-sitter\<close>; the command line drivers, which read and write files; the docstring tools; and the
  crates \<^verbatim>\<open>ingest-sysml\<close>, \<^verbatim>\<open>assemble-conops\<close>, \<^verbatim>\<open>reconcile-backlog\<close> and \<^verbatim>\<open>verify-baseline\<close>, which are built on these
  parts, beyond what is named above.
\<close>

end
